(* ===== verification/Prelude.thy ===== *)
theory Prelude
  imports Main "HOL-Library.Word" "HOL-Library.Monad_Syntax"
begin

section \<open>Shared vocabulary: machine integers and C buffers\<close>

text \<open>
  This theory holds what the component theories share.

  \<^item> Machine integers: \<open>byte\<close>, \<open>u16\<close> and \<open>u32\<close> are words of 8, 16 and 32 bits.
  \<^item> C buffers are lists of fixed length.  Everything that C leaves undefined (an access outside
    a buffer, a negative size handed to \<^verbatim>\<open>memcpy\<close>, a null pointer) is the value \<^const>\<open>None\<close>
    of an \<^typ>\<open>'a option\<close> result, so a theorem \<open>f x = Some y\<close> says in particular that
    the call is free of undefined behaviour.
  \<^item> \<open>piece\<close>: the cuts of a buffer that the packetisers make, with the lemma that they join again.
  \<^item> \<open>mem_simps\<close> collects the facts about buffers that the component proofs rewrite with.
\<close>

unbundle bit_operations_syntax

named_theorems mem_simps \<open>reading and writing fixed-length buffers\<close>

type_synonym byte = "8 word"
type_synonym u16 = "16 word"
type_synonym u32 = "32 word"

subsection \<open>C buffers\<close>

text \<open>
  \<open>memcpy dst d src s n\<close> is \<^verbatim>\<open>memcpy(dst + d, src + s, n)\<close> on disjoint buffers: it is defined
  only when both ranges lie inside their buffers.
\<close>

definition memcpy :: "'a list \<Rightarrow> int \<Rightarrow> 'a list \<Rightarrow> int \<Rightarrow> int \<Rightarrow> 'a list option" where
  "memcpy dst d src s n =
     (if 0 \<le> d \<and> 0 \<le> s \<and> 0 \<le> n \<and> d + n \<le> int (length dst) \<and> s + n \<le> int (length src)
      then Some (take (nat d) dst @ take (nat n) (drop (nat s) src) @ drop (nat (d + n)) dst)
      else None)"

text \<open>\<open>poke dst d v\<close> is the assignment \<^verbatim>\<open>dst[d] = v\<close>; \<open>peek src s\<close> is the read \<^verbatim>\<open>src[s]\<close>.\<close>

definition poke :: "'a list \<Rightarrow> int \<Rightarrow> 'a \<Rightarrow> 'a list option" where
  "poke dst d v = (if 0 \<le> d \<and> d < int (length dst) then Some (dst[nat d := v]) else None)"

definition peek :: "'a list \<Rightarrow> int \<Rightarrow> 'a option" where
  "peek src s = (if 0 \<le> s \<and> s < int (length src) then Some (src ! nat s) else None)"

lemma memcpy_length [mem_simps]: "memcpy dst d src s n = Some dst' \<Longrightarrow> length dst' = length dst"
  by (auto simp: memcpy_def split: if_splits)

lemma memcpy_Some_iff:
  "(\<exists>dst'. memcpy dst d src s n = Some dst') \<longleftrightarrow>
     0 \<le> d \<and> 0 \<le> s \<and> 0 \<le> n \<and> d + n \<le> int (length dst) \<and> s + n \<le> int (length src)"
  by (auto simp: memcpy_def)

lemma memcpy_nat:
  assumes "d + n \<le> length dst" "s + n \<le> length src"
  shows "memcpy dst (int d) src (int s) (int n) =
           Some (take d dst @ take n (drop s src) @ drop (d + n) dst)"
  using assms by (simp add: memcpy_def nat_add_distrib)

lemma memcpy_nth:
  assumes "memcpy dst (int d) src (int s) (int n) = Some dst'" "i < length dst"
  shows "dst' ! i = (if d \<le> i \<and> i < d + n then src ! (s + (i - d)) else dst ! i)"
proof -
  have b: "d + n \<le> length dst" "s + n \<le> length src"
    using assms(1) by (auto simp: memcpy_def split: if_splits)
  then have "dst' = take d dst @ take n (drop s src) @ drop (d + n) dst"
    using assms(1) by (simp add: memcpy_nat)
  with b assms(2) show ?thesis
    by (auto simp: nth_append)
qed

lemma poke_length [mem_simps]: "poke dst d v = Some dst' \<Longrightarrow> length dst' = length dst"
  by (auto simp: poke_def split: if_splits)

lemma poke_nat [mem_simps]: "d < length dst \<Longrightarrow> poke dst (int d) v = Some (dst[d := v])"
  by (simp add: poke_def)

lemma peek_nat [mem_simps]: "s < length src \<Longrightarrow> peek src (int s) = Some (src ! s)"
  by (simp add: peek_def)

text \<open>
  C strings are their characters without the terminating zero; \<open>strcpy_to arr s\<close> stores one in
  an array, \<open>cstr arr\<close> reads it back (\<^const>\<open>None\<close> when the array holds no zero).
\<close>

definition strcpy_to :: "byte list \<Rightarrow> byte list \<Rightarrow> byte list option" where
  "strcpy_to arr s = memcpy arr 0 (s @ [0]) 0 (int (length s) + 1)"

definition cstr :: "byte list \<Rightarrow> byte list option" where
  "cstr arr = (if 0 \<in> set arr then Some (takeWhile (\<lambda>c. c \<noteq> 0) arr) else None)"

lemma strcpy_to_cstr:
  assumes "0 \<notin> set s" "length s < length arr"
  shows "\<exists>arr'. strcpy_to arr s = Some arr' \<and> cstr arr' = Some s \<and> length arr' = length arr"
proof -
  have "strcpy_to arr s = Some (s @ [0] @ drop (Suc (length s)) arr)"
    using assms memcpy_nat [of 0 "Suc (length s)" arr 0 "s @ [0]"]
    by (simp add: strcpy_to_def add.commute)
  moreover have "takeWhile (\<lambda>c. c \<noteq> 0) (s @ [0] @ drop (Suc (length s)) arr) = s"
    by (subst takeWhile_append2) (use assms(1) in auto)
  ultimately show ?thesis using assms(2) by (simp add: cstr_def)
qed

lemma strcpy_to_overflow: "length arr \<le> length s \<Longrightarrow> strcpy_to arr s = None"
  by (simp add: strcpy_to_def memcpy_def)

text \<open>A string literal of the source, and \<^verbatim>\<open>strcmp\<close> as a test of equality: a read behind the end of an array is
  \<^const>\<open>None\<close>.\<close>

definition chars :: "string \<Rightarrow> byte list" where "chars s = map of_char s"

fun strcmp_eq :: "byte list \<Rightarrow> byte list \<Rightarrow> bool option" where
  "strcmp_eq (x # xs) (y # ys) =
     (if x \<noteq> y then Some False else if x = 0 then Some True else strcmp_eq xs ys)"
| "strcmp_eq _ _ = None"

lemma strcmp_eq_refl: "0 \<in> set xs \<Longrightarrow> strcmp_eq xs (xs @ ys) = Some True"
  by (induction xs) auto

lemma strcmp_eq_strings:
  "0 \<notin> set s \<Longrightarrow> 0 \<notin> set t \<Longrightarrow> strcmp_eq (s @ 0 # xs) (t @ 0 # ys) = Some (s = t)"
proof (induction s arbitrary: t)
  case Nil
  then show ?case by (cases t) auto
next
  case (Cons a s)
  then show ?case by (cases t) auto
qed

subsection \<open>First index that satisfies a test\<close>

text \<open>The source's search loops \<^verbatim>\<open>for(i = 0; i < n; i++) if(P(i)) break;\<close> are \<open>find P [0..<n]\<close>.\<close>

lemma find_upt_Some:
  "find P [0..<n] = Some i \<longleftrightarrow> i < n \<and> P i \<and> (\<forall>j<i. \<not> P j)"
  by (auto simp: find_Some_iff)

lemma map_nth_eq: "map f xs = ys \<Longrightarrow> i < length xs \<Longrightarrow> f (xs ! i) = ys ! i"
  by auto

lemma list_all_update: "list_all P l \<Longrightarrow> P v \<Longrightarrow> list_all P (l[i := v])"
  using set_update_subset_insert [of l i v] by (auto simp: list_all_iff)

lemma find_upt_None: "find P [0..<n] = None \<longleftrightarrow> (\<forall>i<n. \<not> P i)"
  by (auto simp: find_None_iff)

subsection \<open>Cutting a buffer into pieces\<close>

text \<open>\<open>piece m i xs\<close> is the \<open>i\<close>-th piece of \<open>m\<close> bytes; the last one may be shorter.\<close>

definition piece :: "nat \<Rightarrow> nat \<Rightarrow> 'a list \<Rightarrow> 'a list" where
  "piece m i xs = take m (drop (i * m) xs)"

lemma concat_pieces: "concat (map (\<lambda>i. piece m i xs) [0..<n]) = take (n * m) xs"
proof (induction n)
  case (Suc n)
  have "take (Suc n * m) xs = take (n * m) xs @ piece m n xs"
    using take_add [of "n * m" m xs] by (simp add: piece_def add.commute)
  with Suc show ?case by simp
qed simp

lemma length_piece: "length (piece m i xs) = min m (length xs - i * m)"
  by (simp add: piece_def)

lemma take_length_piece: "take (length (piece m i xs)) (drop (i * m) xs) = piece m i xs"
  by (cases "m \<le> length (drop (i * m) xs)") (simp_all add: piece_def min_def)

lemma piece_bounds:
  assumes "k * m + l = length xs" "l \<le> m" "i \<le> k" "n = (if i = k then l else m)"
  shows "length (piece m i xs) = n" "i * m + n \<le> length xs"
proof -
  have "i * m + n \<le> length xs"
  proof (cases "i = k")
    case False
    with assms(3) have "Suc i \<le> k" by simp
    then have "Suc i * m \<le> k * m" by (rule mult_le_mono1)
    with False assms(1,4) show ?thesis by simp
  qed (use assms in simp)
  then show "i * m + n \<le> length xs" "length (piece m i xs) = n"
    using assms by (auto simp: length_piece)
qed

text \<open>How the source computes the number \<open>k\<close> of full packets and the length \<open>l\<close> of the last one.\<close>

lemma last_piece:
  assumes "0 < m" "m < (n :: nat)"
    and "l = (if n mod m = 0 then m else n mod m)"
    and "k = (if n mod m = 0 then n div m - 1 else n div m)"
  shows "k * m + l = n" "0 < l" "l \<le> m" "0 < k" "k * m < n"
proof -
  have n: "n div m * m + n mod m = n" by simp
  have d: "1 \<le> n div m" using assms(1,2) div_greater_zero_iff [of n m] by simp
  have e: "1 < n div m" if "n mod m = 0"
  proof (rule ccontr)
    assume "\<not> 1 < n div m"
    with d have "n div m = 1" by simp
    with n that assms(2) show False by simp
  qed
  show l: "0 < l" "l \<le> m" using assms(1,3) by (auto simp: less_imp_le)
  show "0 < k" using d e assms(4) by auto
  show kl: "k * m + l = n"
  proof (cases "n mod m = 0")
    case True
    have "(n div m - 1) * m + m = n div m * m"
      using d by (metis Suc_pred' add.commute mult_Suc One_nat_def less_le_trans zero_less_one)
    with True n assms(3,4) show ?thesis by simp
  qed (use n assms(3,4) in simp)
  show "k * m < n" using kl l by simp
qed

lemma length_of_drop: "drop p d = xs \<Longrightarrow> xs \<noteq> [] \<Longrightarrow> length d = p + length xs"
  by (metis add_diff_inverse_nat drop_all length_drop linorder_not_le order_less_imp_le)

lemma nth_of_drop: "drop p d = xs \<Longrightarrow> i < length xs \<Longrightarrow> d ! (p + i) = xs ! i"
  by (metis drop_all length_0_conv linorder_le_cases not_less_zero nth_drop)

lemma drop_of_drop: "drop p d = xs @ ys \<Longrightarrow> drop (p + length xs) d = ys"
  by (metis add.commute append_eq_conv_conj drop_drop)

subsection \<open>Words that hold small numbers\<close>

lemma sint_small: "x < 2 ^ 31 \<Longrightarrow> sint (of_nat x :: u32) = int x"
  by (simp add: signed_of_nat signed_take_bit_int_eq_self_iff)

lemma unat_small: "x < 2 ^ 31 \<Longrightarrow> unat (of_nat x :: u32) = x"
  by (simp add: unat_of_nat take_bit_nat_eq_self)

lemma uint_small: "x < 2 ^ 31 \<Longrightarrow> uint (of_nat x :: u32) = int x"
  by (simp add: uint_nat unat_of_nat)

lemma word_mod_small:
  "x < 2 ^ 31 \<Longrightarrow> y < 2 ^ 31 \<Longrightarrow> (of_nat x mod of_nat y :: u32) = of_nat (x mod y)"
  by (simp add: word_arith_nat_mod unat_small)

lemma word_div_small:
  "x < 2 ^ 31 \<Longrightarrow> y < 2 ^ 31 \<Longrightarrow> (of_nat x div of_nat y :: u32) = of_nat (x div y)"
  by (simp add: word_arith_nat_div unat_small)

lemma word_le_small:
  "x < 2 ^ 31 \<Longrightarrow> y < 2 ^ 31 \<Longrightarrow> (of_nat x \<le> (of_nat y :: u32)) \<longleftrightarrow> x \<le> y"
  by (simp add: word_le_nat_alt unat_small)

end
