(* ===== verification/StreamClient.thy ===== *)
theory StreamClient
  imports Prelude
begin

section \<open>The table of network receivers of the encoder\<close>

text \<open>
  \<^verbatim>\<open>enc/stream_output/stream_output_client.c\<close> keeps the eight receivers the encoder sends its streams to, whoever
  asked for them (the multicast servers of \<open>MultServer\<close> or the RTSP sessions of \<open>RtspOutput\<close>), and three tables of
  counters that tell the encoder which formats of which channel somebody waits for;
  \<^verbatim>\<open>enc/modules/porting/multicast_porting.c\<close> cuts transport-stream data into datagrams.

  A pointer to a receiver is its slot number, \<^const>\<open>None\<close> for \<^verbatim>\<open>NULL\<close>.  What the kernel answers to \<^verbatim>\<open>socket\<close> and
  the encoder to \<^verbatim>\<open>app_get_media_info\<close> are arguments.  The datagrams handed to \<^verbatim>\<open>sendto\<close> and the sockets handed
  to \<^verbatim>\<open>close\<close> are collected in two lists; the code ignores what these calls answer.  An access outside the counter
  tables is \<^const>\<open>None\<close>.
\<close>

subsection \<open>Data\<close>

definition OUTPUT_SERVER_MAX_NUM :: nat where "OUTPUT_SERVER_MAX_NUM = 8"

definition STREAM_MAX_CHANNEL :: int where "STREAM_MAX_CHANNEL = 4"

definition TYPE_TS :: int where "TYPE_TS = 1"
definition TYPE_RTP :: int where "TYPE_RTP = 2"
definition TYPE_RTSP :: int where "TYPE_RTSP = 3"
definition TYPE_TS_OVER_RTP :: int where "TYPE_TS_OVER_RTP = 4"

definition NOTUSED :: int where "NOTUSED = 0"
definition ISUSED :: int where "ISUSED = 1"

lemmas stream_consts = TYPE_TS_def TYPE_RTP_def TYPE_RTSP_def TYPE_TS_OVER_RTP_def NOTUSED_def ISUSED_def
  OUTPUT_SERVER_MAX_NUM_def STREAM_MAX_CHANNEL_def

text \<open>An IPv4 address; the callers fill it from zeroed memory, so \<^verbatim>\<open>memcmp\<close> of two addresses compares these fields.\<close>

record sockaddr_in =
  sin_family :: u16
  sin_port :: u16
  sin_addr :: u32

definition zero_addr :: sockaddr_in where
  "zero_addr = \<lparr>sin_family = 0, sin_port = 0, sin_addr = 0\<rparr>"

record Stream_Output_Client =
  num :: int
  ctype :: int
  c_used :: int
  usenum :: int
  send_status :: int
  video_addr :: sockaddr_in
  audio_addr :: sockaddr_in
  video_socket :: int
  audio_socket :: int
  width :: int
  height :: int
  samplerate :: int
  media_status :: int
  video_send :: int
  stream_channel :: int

definition zero_client :: Stream_Output_Client where
  "zero_client = \<lparr>num = 0, ctype = 0, c_used = 0, usenum = 0, send_status = 0, video_addr = zero_addr,
     audio_addr = zero_addr, video_socket = 0, audio_socket = 0, width = 0, height = 0, samplerate = 0,
     media_status = 0, video_send = 0, stream_channel = 0\<rparr>"

type_synonym datagram = "int \<times> sockaddr_in \<times> byte list"

record stream_out =
  g_stream_client :: "Stream_Output_Client list"
  g_direct_rtp_active :: "int list"
  g_direct_ts_active :: "int list"
  g_rtp_over_ts_active :: "int list"
  datagrams :: "datagram list"
  closed_sockets :: "int list"

definition client_at :: "nat \<Rightarrow> stream_out \<Rightarrow> Stream_Output_Client option" where
  "client_at i st = (if i < length (g_stream_client st) then Some (g_stream_client st ! i) else None)"

definition put_client :: "nat \<Rightarrow> Stream_Output_Client \<Rightarrow> stream_out \<Rightarrow> stream_out" where
  "put_client i c st = st\<lparr>g_stream_client := (g_stream_client st)[i := c]\<rparr>"

subsection \<open>Opening and closing a receiver\<close>

definition stream_client_init :: "stream_out \<Rightarrow> stream_out" where
  "stream_client_init st =
     st\<lparr>g_stream_client := map (\<lambda>i. zero_client\<lparr>c_used := NOTUSED, num := int i\<rparr>) [0..<OUTPUT_SERVER_MAX_NUM]\<rparr>"

definition stream_client_get_free :: "stream_out \<Rightarrow> nat option" where
  "stream_client_get_free st =
     find (\<lambda>i. c_used (g_stream_client st ! i) = NOTUSED) [0..<OUTPUT_SERVER_MAX_NUM]"

definition mult_rtp_get_active :: "int \<Rightarrow> stream_out \<Rightarrow> int option" where
  "mult_rtp_get_active channel st =
     do {n \<leftarrow> peek (g_direct_rtp_active st) channel; Some (if 0 < n then 1 else 0)}"

definition mult_ts_get_active :: "int \<Rightarrow> stream_out \<Rightarrow> int option" where
  "mult_ts_get_active channel st =
     do {n \<leftarrow> peek (g_direct_ts_active st) channel; Some (if 0 < n then 1 else 0)}"

definition mult_rtpts_get_active :: "int \<Rightarrow> stream_out \<Rightarrow> int option" where
  "mult_rtpts_get_active channel st =
     do {n \<leftarrow> peek (g_rtp_over_ts_active st) channel; Some (if 0 < n then 1 else 0)}"

definition mult_set_active :: "int \<Rightarrow> int \<Rightarrow> int \<Rightarrow> stream_out \<Rightarrow> stream_out option" where
  "mult_set_active ty status channel st =
     (if ty = TYPE_TS then
        do {n \<leftarrow> peek (g_direct_ts_active st) channel;
            t \<leftarrow> poke (g_direct_ts_active st) channel (n + status);
            Some (st\<lparr>g_direct_ts_active := t\<rparr>)}
      else if ty = TYPE_RTP then
        do {n \<leftarrow> peek (g_direct_rtp_active st) channel;
            t \<leftarrow> poke (g_direct_rtp_active st) channel (n + status);
            Some (st\<lparr>g_direct_rtp_active := t\<rparr>)}
      else if ty = TYPE_TS_OVER_RTP then
        do {n \<leftarrow> peek (g_rtp_over_ts_active st) channel;
            t \<leftarrow> poke (g_rtp_over_ts_active st) channel (n + status);
            Some (st\<lparr>g_rtp_over_ts_active := t\<rparr>)}
      else Some st)"

text \<open>
  \<open>vs\<close> and \<open>as\<close> are the answers to the two calls of \<^verbatim>\<open>socket\<close>, \<open>mi\<close> the answer of \<^verbatim>\<open>app_get_media_info\<close> with the
  width, height and sample rate it stores.  The result pairs the return value with the new state.
\<close>

record open_env =
  vs :: int
  as :: int
  mi :: "int \<times> int \<times> int \<times> int"

definition stream_client_open ::
    "open_env \<Rightarrow> sockaddr_in \<Rightarrow> sockaddr_in \<Rightarrow> int \<Rightarrow> nat option \<Rightarrow> int \<Rightarrow> stream_out \<Rightarrow> (int \<times> stream_out) option"
  where
  "stream_client_open e vaddr aaddr ty client channel st =
     (case client of
        None \<Rightarrow> Some (- 1, st)
      | Some i \<Rightarrow>
          if STREAM_MAX_CHANNEL \<le> channel then Some (- 1, st)
          else do {
            c \<leftarrow> client_at i st;
            let st = st\<lparr>closed_sockets := closed_sockets st
                        @ (if 0 < video_socket c then [video_socket c] else [])
                        @ (if 0 < audio_socket c then [audio_socket c] else [])\<rparr>;
            let c0 = zero_client\<lparr>num := num c\<rparr>;
            let have_audio = (sin_port aaddr \<noteq> 0);
            if vs e < 0 then Some (- 1, put_client i c0 st)
            else do {
              let c1 = c0\<lparr>video_addr := vaddr, video_socket := vs e\<rparr>;
              if have_audio \<and> as e < 0 then Some (- 1, put_client i c1 st)
              else do {
                let c2 = (if have_audio then c1\<lparr>audio_addr := aaddr, audio_socket := as e\<rparr> else c1);
                let (ret, w, h, s) = mi e;
                let c3 = (if ret = - 1 then c2\<lparr>ctype := ty, media_status := 0\<rparr>
                          else c2\<lparr>ctype := ty, width := w, height := h, samplerate := s, media_status := 1\<rparr>);
                let c4 = c3\<lparr>c_used := ISUSED, usenum := usenum c3 + 1\<rparr>;
                let c5 = (if usenum c4 = 1 then c4\<lparr>video_send := 0\<rparr> else c4);
                let st = put_client i (c5\<lparr>stream_channel := channel\<rparr>) st;
                st \<leftarrow> mult_set_active ty 1 channel st;
                Some (0, st)}}})"

definition stream_client_close :: "nat option \<Rightarrow> stream_out \<Rightarrow> (int \<times> stream_out) option" where
  "stream_client_close client st =
     (case client of
        None \<Rightarrow> Some (- 1, st)
      | Some i \<Rightarrow> do {
          c \<leftarrow> client_at i st;
          st \<leftarrow> mult_set_active (ctype c) (- 1) (stream_channel c) st;
          Some (0, put_client i
                     (c\<lparr>c_used := NOTUSED, usenum := 0, width := 0, height := 0, samplerate := 0,
                        media_status := 0, video_send := 0, stream_channel := - 1\<rparr>) st)})"

definition stream_client_is_repeat :: "sockaddr_in \<Rightarrow> stream_out \<Rightarrow> nat option" where
  "stream_client_is_repeat vaddr st =
     find (\<lambda>i. c_used (g_stream_client st ! i) = ISUSED \<and> vaddr = video_addr (g_stream_client st ! i))
       [0..<OUTPUT_SERVER_MAX_NUM]"

definition stream_client_set_mnum :: "nat option \<Rightarrow> int \<Rightarrow> stream_out \<Rightarrow> stream_out option" where
  "stream_client_set_mnum client n st =
     (case client of
        None \<Rightarrow> Some st
      | Some i \<Rightarrow> do {
          c \<leftarrow> client_at i st;
          Some (put_client i (c\<lparr>usenum := (if 0 \<le> n then usenum c + 1 else usenum c - 1)\<rparr>) st)})"

definition steram_client_get_mnum :: "nat option \<Rightarrow> stream_out \<Rightarrow> int option" where
  "steram_client_get_mnum client st =
     (case client of None \<Rightarrow> Some 0 | Some i \<Rightarrow> do {c \<leftarrow> client_at i st; Some (usenum c)})"

subsection \<open>Sending\<close>

text \<open>
  Each sending function walks over the eight slots; what it does with one slot depends on that slot only.  The type
  of the data is 2 for video, anything else for sound.
\<close>

definition ts_send_slot :: "byte list \<Rightarrow> int \<Rightarrow> int \<Rightarrow> Stream_Output_Client \<Rightarrow> datagram list" where
  "ts_send_slot buff ty channel c =
     (if c_used c = ISUSED \<and> ctype c = TYPE_TS \<and> stream_channel c = channel then
        (if ty = 2 then [(video_socket c, video_addr c, buff)]
         else if 0 < audio_socket c then [(audio_socket c, audio_addr c, buff)] else [])
      else [])"

definition stream_client_ts_send :: "byte list \<Rightarrow> int \<Rightarrow> int \<Rightarrow> stream_out \<Rightarrow> stream_out" where
  "stream_client_ts_send buff ty channel st =
     st\<lparr>datagrams := datagrams st @ concat (map (ts_send_slot buff ty channel) (g_stream_client st))\<rparr>"

definition rtp_send_slot ::
    "byte list \<Rightarrow> int \<Rightarrow> int \<Rightarrow> Stream_Output_Client \<Rightarrow> Stream_Output_Client \<times> datagram list" where
  "rtp_send_slot buff ty channel c =
     (if c_used c = ISUSED \<and> ctype c = TYPE_RTP \<and> stream_channel c = channel then
        (if ty = 2 then
           (if video_send c < 50 then c\<lparr>video_send := video_send c + 1\<rparr> else c,
            [(video_socket c, video_addr c, buff)])
         else if 0 < audio_socket c \<and> 30 < video_send c then (c, [(audio_socket c, audio_addr c, buff)])
         else (c, []))
      else (c, []))"

definition stream_client_rtp_send :: "byte list \<Rightarrow> int \<Rightarrow> int \<Rightarrow> stream_out \<Rightarrow> stream_out" where
  "stream_client_rtp_send buff ty channel st =
     st\<lparr>g_stream_client := map (fst \<circ> rtp_send_slot buff ty channel) (g_stream_client st),
        datagrams := datagrams st @ concat (map (snd \<circ> rtp_send_slot buff ty channel) (g_stream_client st))\<rparr>"

definition rtpts_send_slot :: "byte list \<Rightarrow> int \<Rightarrow> Stream_Output_Client \<Rightarrow> datagram list" where
  "rtpts_send_slot buff channel c =
     (if c_used c = ISUSED \<and> ctype c = TYPE_TS_OVER_RTP \<and> stream_channel c = channel
      then [(video_socket c, video_addr c, buff)] else [])"

definition stream_client_rtpts_send :: "byte list \<Rightarrow> int \<Rightarrow> stream_out \<Rightarrow> stream_out" where
  "stream_client_rtpts_send buff channel st =
     st\<lparr>datagrams := datagrams st @ concat (map (rtpts_send_slot buff channel) (g_stream_client st))\<rparr>"

definition rtp_porting_senddata :: "int \<Rightarrow> byte list \<Rightarrow> int \<Rightarrow> stream_out \<Rightarrow> stream_out" where
  "rtp_porting_senddata ty buff channel st =
     (if ty = 2 \<or> ty = 1 then stream_client_rtp_send buff ty channel st else st)"

text \<open>
  Transport-stream data is sent in pieces of whole 188-byte packets.  The piece length is an \<^verbatim>\<open>int\<close> that the
  loop compares with an \<^verbatim>\<open>unsigned int\<close>.  The loop ends when everything is sent; \<^const>\<open>None\<close> is a loop that does
  not end.
\<close>

definition one_rtp_len :: "int \<Rightarrow> nat" where
  "one_rtp_len mtu =
     (let m = min mtu 1400 in nat ((188 * (if m < 0 then - ((- m) div 188) else m div 188)) mod 2 ^ 32))"

partial_function (option) ts_send_loop :: "nat \<Rightarrow> byte list \<Rightarrow> nat \<Rightarrow> int \<Rightarrow> int \<Rightarrow> stream_out \<Rightarrow> stream_out option" where
  "ts_send_loop one pData sendlen ty channel st =
     (if sendlen < length pData then
        if length pData - sendlen < one then
          ts_send_loop one pData (sendlen + (length pData - sendlen)) ty channel
            (stream_client_ts_send (drop sendlen pData) ty channel st)
        else
          ts_send_loop one pData (sendlen + one) ty channel
            (stream_client_ts_send (take one (drop sendlen pData)) ty channel st)
      else Some st)"

definition ts_output_send :: "byte list \<Rightarrow> int \<Rightarrow> int \<Rightarrow> int \<Rightarrow> stream_out \<Rightarrow> stream_out option" where
  "ts_output_send pData mtu ty channel st = ts_send_loop (one_rtp_len mtu) pData 0 ty channel st"


subsection \<open>What the counters count\<close>

definition slot_in_use :: "nat \<Rightarrow> stream_out \<Rightarrow> bool" where
  "slot_in_use i st \<longleftrightarrow> i < length (g_stream_client st) \<and> c_used (g_stream_client st ! i) = ISUSED"

definition serves :: "int \<Rightarrow> int \<Rightarrow> Stream_Output_Client \<Rightarrow> bool" where
  "serves ty channel c \<longleftrightarrow> c_used c = ISUSED \<and> ctype c = ty \<and> stream_channel c = channel"

definition served :: "int \<Rightarrow> int \<Rightarrow> stream_out \<Rightarrow> int" where
  "served ty channel st = int (length (filter (serves ty channel) (g_stream_client st)))"

definition counter_ok :: "int list \<Rightarrow> int \<Rightarrow> stream_out \<Rightarrow> bool" where
  "counter_ok t ty st \<longleftrightarrow> length t = 4 \<and> (\<forall>ch<4. t ! ch = served ty (int ch) st)"

definition slot_ok :: "Stream_Output_Client \<Rightarrow> bool" where
  "slot_ok c \<longleftrightarrow> c_used c = NOTUSED \<or> c_used c = ISUSED \<and> 0 \<le> stream_channel c \<and> stream_channel c < 4"

definition out_inv :: "stream_out \<Rightarrow> bool" where
  "out_inv st \<longleftrightarrow> length (g_stream_client st) = 8 \<and> list_all slot_ok (g_stream_client st)
     \<and> counter_ok (g_direct_rtp_active st) TYPE_RTP st \<and> counter_ok (g_direct_ts_active st) TYPE_TS st
     \<and> counter_ok (g_rtp_over_ts_active st) TYPE_TS_OVER_RTP st"

lemma filter_update:
  assumes "i < length xs"
  shows "int (length (filter P (xs[i := v])))
           = int (length (filter P xs)) + (if P v then 1 else 0) - (if P (xs ! i) then 1 else 0)"
proof -
  obtain a x b where xs: "xs = a @ x # b" "i = length a"
    using assms id_take_nth_drop [of i xs] by (metis length_take min.absorb4)
  then show ?thesis by simp
qed

lemma served_put:
  assumes "i < length (g_stream_client st)"
  shows "served ty ch (put_client i c st)
           = served ty ch st + (if serves ty ch c then 1 else 0) - (if serves ty ch (g_stream_client st ! i) then 1 else 0)"
  using assms by (simp add: served_def put_client_def filter_update)

lemma served_cong: "g_stream_client st' = g_stream_client st \<Longrightarrow> served ty ch st' = served ty ch st"
  by (simp add: served_def)

lemma put_client_simps [simp]:
  "g_direct_rtp_active (put_client i c st) = g_direct_rtp_active st"
  "g_direct_ts_active (put_client i c st) = g_direct_ts_active st"
  "g_rtp_over_ts_active (put_client i c st) = g_rtp_over_ts_active st"
  "datagrams (put_client i c st) = datagrams st"
  "closed_sockets (put_client i c st) = closed_sockets st"
  "g_stream_client (put_client i c st) = (g_stream_client st)[i := c]"
  by (simp_all add: put_client_def)

definition active_table :: "int \<Rightarrow> stream_out \<Rightarrow> int list" where
  "active_table ty st = (if ty = TYPE_TS then g_direct_ts_active st else if ty = TYPE_RTP then g_direct_rtp_active st
     else if ty = TYPE_TS_OVER_RTP then g_rtp_over_ts_active st else [])"

definition counted_types :: "int set" where "counted_types = {TYPE_TS, TYPE_RTP, TYPE_TS_OVER_RTP}"

lemma out_inv_alt:
  "out_inv st \<longleftrightarrow> length (g_stream_client st) = 8 \<and> list_all slot_ok (g_stream_client st)
     \<and> (\<forall>ty\<in>counted_types. counter_ok (active_table ty st) ty st)"
  by (auto simp: out_inv_def counted_types_def active_table_def stream_consts)

lemma mult_set_active_table:
  assumes "0 \<le> ch" "ch < 4" "\<forall>ty\<in>counted_types. length (active_table ty st) = 4"
  shows "\<exists>st'. mult_set_active ty d ch st = Some st' \<and> g_stream_client st' = g_stream_client st
    \<and> datagrams st' = datagrams st \<and> closed_sockets st' = closed_sockets st
    \<and> (\<forall>t\<in>counted_types. active_table t st'
        = (if t = ty then (active_table t st)[nat ch := active_table t st ! nat ch + d] else active_table t st))"
proof -
  consider "ty = TYPE_TS" | "ty = TYPE_RTP" | "ty = TYPE_TS_OVER_RTP" | "ty \<notin> counted_types"
    by (auto simp: counted_types_def)
  then show ?thesis
    by cases (use assms in \<open>auto simp: mult_set_active_def active_table_def counted_types_def stream_consts peek_def poke_def\<close>)
qed

lemma mult_set_active_outside:
  assumes "ty \<in> counted_types" "ch < 0"
  shows "mult_set_active ty d ch st = None"
  using assms by (auto simp: mult_set_active_def counted_types_def peek_def)

text \<open>
  One slot changes from \<open>c\<close> to \<open>c'\<close> and the counter of type \<open>ty\<close> and channel \<open>ch\<close> by \<open>d\<close>: the counters stay
  right when \<open>d\<close> is what the slot contributes.
\<close>

lemma counters_follow:
  assumes inv: "out_inv st" and i: "i < 8" and ok: "slot_ok c"
    and ch: "0 \<le> ch" "ch < 4"
    and d: "\<And>t k. t \<in> counted_types \<Longrightarrow> 0 \<le> k \<Longrightarrow> k < 4 \<Longrightarrow>
      (if serves t k c then 1 else 0) - (if serves t k (g_stream_client st ! i) then 1 else 0)
        = (if t = ty \<and> k = ch then d else (0::int))"
  shows "\<exists>st'. mult_set_active ty d ch (put_client i c st) = Some st' \<and> out_inv st'
    \<and> g_stream_client st' = (g_stream_client st)[i := c]
    \<and> datagrams st' = datagrams st \<and> closed_sockets st' = closed_sockets st"
proof -
  let ?p = "put_client i c st"
  have at: "active_table t ?p = active_table t st" for t by (simp add: active_table_def)
  have len: "\<forall>ty\<in>counted_types. length (active_table ty ?p) = 4"
    using inv by (auto simp: out_inv_alt counter_ok_def at)
  from mult_set_active_table [OF ch len, of ty d] obtain st' where
    st': "mult_set_active ty d ch ?p = Some st'" "g_stream_client st' = g_stream_client ?p"
    "datagrams st' = datagrams ?p" "closed_sockets st' = closed_sockets ?p"
    and tab: "\<And>t. t \<in> counted_types \<Longrightarrow> active_table t st'
        = (if t = ty then (active_table t ?p)[nat ch := active_table t ?p ! nat ch + d] else active_table t ?p)"
    by blast
  have srv: "served t (int k) st' = served t (int k) st + (if t = ty \<and> int k = ch then d else 0)"
    if "t \<in> counted_types" "k < 4" for t k
  proof -
    have "served t (int k) st' = served t (int k) ?p" using st'(2) by (rule served_cong)
    also have "\<dots> = served t (int k) st + (if serves t (int k) c then 1 else 0)
        - (if serves t (int k) (g_stream_client st ! i) then 1 else 0)"
      using inv i by (simp add: served_put out_inv_def)
    finally show ?thesis using d [OF that(1), of "int k"] that(2) by simp
  qed
  have "counter_ok (active_table t st') t st'" if t: "t \<in> counted_types" for t
  proof -
    have old: "length (active_table t st) = 4" "\<And>k. k < 4 \<Longrightarrow> active_table t st ! k = served t (int k) st"
      using inv t by (auto simp: out_inv_alt counter_ok_def)
    show ?thesis
      using tab [OF t] old ch srv [OF t] unfolding counter_ok_def at
      by (auto simp: nth_list_update)
  qed
  moreover have "length (g_stream_client st') = 8" "list_all slot_ok (g_stream_client st')"
    using inv ok st'(2) by (auto simp: out_inv_def intro: list_all_update)
  ultimately have "out_inv st'" by (auto simp: out_inv_alt)
  with st' show ?thesis by auto
qed


lemma slot_in_use_bound: "out_inv st \<Longrightarrow> slot_in_use i st \<Longrightarrow> i < 8"
  by (simp add: out_inv_def slot_in_use_def)

lemma get_free_unused:
  "stream_client_get_free st = Some i \<Longrightarrow> i < 8 \<and> c_used (g_stream_client st ! i) = NOTUSED"
  by (auto simp: stream_client_get_free_def find_upt_Some stream_consts)

lemma slot_ok_nth: "out_inv st \<Longrightarrow> i < 8 \<Longrightarrow> slot_ok (g_stream_client st ! i)"
  by (auto simp: out_inv_def list_all_length)

lemma serves_unused: "c_used c = NOTUSED \<Longrightarrow> \<not> serves ty ch c"
  by (simp add: serves_def stream_consts)

lemma out_inv_log: "out_inv (st\<lparr>closed_sockets := l\<rparr>) = out_inv st" "out_inv (st\<lparr>datagrams := d\<rparr>) = out_inv st"
  by (simp_all add: out_inv_def counter_ok_def served_def)

lemma out_inv_put:
  assumes "out_inv st" "i < 8" "slot_ok c"
    and "\<And>ty ch. serves ty ch c = serves ty ch (g_stream_client st ! i)"
  shows "out_inv (put_client i c st)"
proof -
  have "served ty ch (put_client i c st) = served ty ch st" for ty ch
    using assms by (simp add: served_put out_inv_def)
  with assms(1,3) show ?thesis
    by (auto simp: out_inv_def counter_ok_def intro: list_all_update)
qed

lemma stream_client_open_inv:
  assumes inv: "out_inv st" and free: "stream_client_get_free st = Some i" and ch: "0 \<le> channel"
  shows "\<exists>r st'. stream_client_open e vaddr aaddr ty (Some i) channel st = Some (r, st') \<and> out_inv st'
    \<and> datagrams st' = datagrams st
    \<and> (\<forall>j. slot_in_use j st' \<longleftrightarrow> (if r = 0 then j = i \<or> slot_in_use j st else slot_in_use j st))
    \<and> (\<forall>j. j \<noteq> i \<longrightarrow> g_stream_client st' ! j = g_stream_client st ! j)
    \<and> (r = 0 \<longrightarrow> serves ty channel (g_stream_client st' ! i) \<and> video_addr (g_stream_client st' ! i) = vaddr
         \<and> usenum (g_stream_client st' ! i) = 1)
    \<and> (r = 0 \<longleftrightarrow> channel < 4 \<and> 0 \<le> vs e \<and> (sin_port aaddr = 0 \<or> 0 \<le> as e))"
proof -
  have i: "i < 8" and unused: "c_used (g_stream_client st ! i) = NOTUSED" using get_free_unused [OF free] by auto
  have len: "length (g_stream_client st) = 8" using inv by (simp add: out_inv_def)
  obtain ret w h s where mi: "mi e = (ret, w, h, s)" by (cases "mi e")
  define c where "c = g_stream_client st ! i"
  define st1 where "st1 = st\<lparr>closed_sockets := closed_sockets st
                        @ (if 0 < video_socket c then [video_socket c] else [])
                        @ (if 0 < audio_socket c then [audio_socket c] else [])\<rparr>"
  have cl: "g_stream_client st1 = g_stream_client st" "datagrams st1 = datagrams st" by (simp_all add: st1_def)
  have inv1: "out_inv st1" using inv by (simp add: st1_def out_inv_log)
  have fail: "out_inv (put_client i x st1)
      \<and> (\<forall>j. slot_in_use j (put_client i x st1) = slot_in_use j st)" if "c_used x = NOTUSED" for x
  proof -
    have "out_inv (put_client i x st1)"
      using inv1 i that unused by (intro out_inv_put) (auto simp: slot_ok_def serves_def stream_consts cl)
    with that unused len i show ?thesis
      by (auto simp: slot_in_use_def nth_list_update stream_consts cl)
  qed
  show ?thesis
  proof (cases "channel < 4 \<and> 0 \<le> vs e \<and> (sin_port aaddr = 0 \<or> 0 \<le> as e)")
    case False
    then have "\<exists>r st'. stream_client_open e vaddr aaddr ty (Some i) channel st = Some (r, st') \<and> out_inv st'
      \<and> datagrams st' = datagrams st \<and> (\<forall>j. slot_in_use j st' = slot_in_use j st)
      \<and> (\<forall>j. j \<noteq> i \<longrightarrow> g_stream_client st' ! j = g_stream_client st ! j) \<and> r = - 1"
      using inv len i fail [of "zero_client\<lparr>num := num c\<rparr>"]
        fail [of "zero_client\<lparr>num := num c, video_addr := vaddr, video_socket := vs e\<rparr>"]
      by (auto simp: stream_client_open_def client_at_def c_def [symmetric] st1_def [symmetric] Let_def
        STREAM_MAX_CHANNEL_def zero_client_def NOTUSED_def cl)
    with False show ?thesis by auto
  next
    case True
    define x where "x = (let c2 = zero_client\<lparr>num := num c, video_addr := vaddr, video_socket := vs e\<rparr>;
       c2 = (if sin_port aaddr \<noteq> 0 then c2\<lparr>audio_addr := aaddr, audio_socket := as e\<rparr> else c2);
       c3 = (if ret = - 1 then c2\<lparr>ctype := ty, media_status := 0\<rparr>
             else c2\<lparr>ctype := ty, width := w, height := h, samplerate := s, media_status := 1\<rparr>)
       in c3\<lparr>c_used := ISUSED, usenum := 1, video_send := 0, stream_channel := channel\<rparr>)"
    have x: "c_used x = ISUSED" "ctype x = ty" "stream_channel x = channel" "video_addr x = vaddr" "usenum x = 1"
      by (simp_all add: x_def Let_def zero_client_def)
    have okx: "slot_ok x" using x ch True by (simp add: slot_ok_def)
    have "\<exists>st'. mult_set_active ty 1 channel (put_client i x st1) = Some st' \<and> out_inv st'
      \<and> g_stream_client st' = (g_stream_client st1)[i := x] \<and> datagrams st' = datagrams st1
      \<and> closed_sockets st' = closed_sockets st1"
      using inv1 i okx ch True x serves_unused [OF unused]
      by (intro counters_follow) (auto simp: serves_def cl)
    then obtain st' where st': "mult_set_active ty 1 channel (put_client i x st1) = Some st'" "out_inv st'"
      "g_stream_client st' = (g_stream_client st)[i := x]" "datagrams st' = datagrams st" by (auto simp: cl)
    have "stream_client_open e vaddr aaddr ty (Some i) channel st
        = do {st \<leftarrow> mult_set_active ty 1 channel (put_client i x st1); Some (0, st)}"
      using True len i mi
      by (auto simp: stream_client_open_def client_at_def c_def [symmetric] st1_def [symmetric] Let_def
        STREAM_MAX_CHANNEL_def zero_client_def x_def)
    then have "stream_client_open e vaddr aaddr ty (Some i) channel st = Some (0, st')" using st'(1) by simp
    moreover have "\<forall>j. slot_in_use j st' \<longleftrightarrow> j = i \<or> slot_in_use j st"
      using st'(3) len i x(1) by (auto simp: slot_in_use_def nth_list_update)
    ultimately show ?thesis using st' x len i True by (auto simp: serves_def)
  qed
qed

lemma stream_client_close_inv:
  assumes inv: "out_inv st" and used: "slot_in_use i st"
  shows "\<exists>st'. stream_client_close (Some i) st = Some (0, st') \<and> out_inv st' \<and> datagrams st' = datagrams st
    \<and> (\<forall>j. slot_in_use j st' \<longleftrightarrow> j \<noteq> i \<and> slot_in_use j st)
    \<and> (\<forall>j. j \<noteq> i \<longrightarrow> g_stream_client st' ! j = g_stream_client st ! j)"
proof -
  have i: "i < 8" using inv used by (rule slot_in_use_bound)
  have len: "length (g_stream_client st) = 8" using inv by (simp add: out_inv_def)
  define c where "c = g_stream_client st ! i"
  define x where "x = c\<lparr>c_used := NOTUSED, usenum := 0, width := 0, height := 0, samplerate := 0,
                        media_status := 0, video_send := 0, stream_channel := - 1\<rparr>"
  have u: "c_used c = ISUSED" using used by (simp add: slot_in_use_def c_def)
  have ch: "0 \<le> stream_channel c" "stream_channel c < 4"
    using slot_ok_nth [OF inv i] u by (auto simp: slot_ok_def c_def stream_consts)
  have ux: "c_used x = NOTUSED" by (simp add: x_def)
  have "\<exists>st'. mult_set_active (ctype c) (- 1) (stream_channel c) (put_client i x st) = Some st' \<and> out_inv st'
    \<and> g_stream_client st' = (g_stream_client st)[i := x] \<and> datagrams st' = datagrams st
    \<and> closed_sockets st' = closed_sockets st"
    using inv i ch serves_unused [OF ux] ux u
    by (intro counters_follow) (auto simp: slot_ok_def serves_def c_def)
  then obtain st' where st': "mult_set_active (ctype c) (- 1) (stream_channel c) (put_client i x st) = Some st'"
    "out_inv st'" "g_stream_client st' = (g_stream_client st)[i := x]" "datagrams st' = datagrams st" by blast
  have swap: "map_option (put_client i x) (mult_set_active t d k st) = mult_set_active t d k (put_client i x st)" for t d k
    by (simp add: mult_set_active_def put_client_def peek_def poke_def)
  then have "stream_client_close (Some i) st = Some (0, st')"
    using st'(1) len i by (auto simp: stream_client_close_def client_at_def c_def [symmetric] x_def [symmetric]
      swap [symmetric])
  moreover have "\<forall>j. slot_in_use j st' \<longleftrightarrow> j \<noteq> i \<and> slot_in_use j st"
    using st'(3) len i ux by (auto simp: slot_in_use_def nth_list_update stream_consts)
  ultimately show ?thesis using st' by auto
qed


subsection \<open>The contract of the table\<close>

text \<open>
  Everyone who wants a receiver takes a free slot, opens it, keeps the pointer and closes it later.
  \<open>receiver_pool\<close> states what such users rely on; \<open>pool_run\<close> is any mix of users, who close only what they hold:
  \<open>Inl r\<close> is the request \<open>r\<close> for a receiver, \<open>Inr k\<close> closes the \<open>k\<close>-th receiver held.
\<close>

fun pool_run :: "('s \<Rightarrow> nat option) \<Rightarrow> ('r \<Rightarrow> nat \<Rightarrow> 's \<Rightarrow> (int \<times> 's) option) \<Rightarrow> (nat \<Rightarrow> 's \<Rightarrow> (int \<times> 's) option)
    \<Rightarrow> ('r + nat) list \<Rightarrow> nat list \<Rightarrow> 's \<Rightarrow> (nat list \<times> 's) option" where
  "pool_run free opn cls [] held s = Some (held, s)"
| "pool_run free opn cls (Inl r # ops) held s =
     (case free s of
        None \<Rightarrow> pool_run free opn cls ops held s
      | Some i \<Rightarrow> do {
          (x, s') \<leftarrow> opn r i s;
          pool_run free opn cls ops (if x = 0 then i # held else held) s'})"
| "pool_run free opn cls (Inr k # ops) held s =
     (if k < length held then do {
        (x, s') \<leftarrow> cls (held ! k) s;
        pool_run free opn cls ops (take k held @ drop (Suc k) held) s'}
      else pool_run free opn cls ops held s)"

locale receiver_pool =
  fixes inv :: "'s \<Rightarrow> bool" and in_use :: "nat \<Rightarrow> 's \<Rightarrow> bool"
    and free :: "'s \<Rightarrow> nat option"
    and opn :: "'r \<Rightarrow> nat \<Rightarrow> 's \<Rightarrow> (int \<times> 's) option"
    and cls :: "nat \<Rightarrow> 's \<Rightarrow> (int \<times> 's) option"
    and good :: "'r \<Rightarrow> bool"
  assumes free_slot: "inv s \<Longrightarrow> free s = Some i \<Longrightarrow> \<not> in_use i s"
    and opens: "inv s \<Longrightarrow> free s = Some i \<Longrightarrow> good r \<Longrightarrow>
      \<exists>x s'. opn r i s = Some (x, s') \<and> inv s' \<and> (\<forall>j. in_use j s' \<longleftrightarrow> in_use j s \<or> x = 0 \<and> j = i)"
    and closes: "inv s \<Longrightarrow> in_use i s \<Longrightarrow>
      \<exists>x s'. cls i s = Some (x, s') \<and> inv s' \<and> (\<forall>j. in_use j s' \<longleftrightarrow> in_use j s \<and> j \<noteq> i)"
begin

definition holds_all :: "nat list \<Rightarrow> 's \<Rightarrow> bool" where
  "holds_all held s \<longleftrightarrow> inv s \<and> distinct held \<and> set held = {i. in_use i s}"

lemma run_holds:
  assumes "holds_all held s" "\<forall>r. Inl r \<in> set ops \<longrightarrow> good r"
  shows "\<exists>held' s'. pool_run free opn cls ops held s = Some (held', s') \<and> holds_all held' s'"
  using assms
proof (induction ops arbitrary: held s)
  case Nil
  then show ?case by simp
next
  case (Cons op ops)
  have inv: "inv s" and held: "distinct held" "set held = {i. in_use i s}"
    using Cons.prems(1) by (auto simp: holds_all_def)
  have good: "\<forall>r. Inl r \<in> set ops \<longrightarrow> good r" using Cons.prems(2) by simp
  show ?case
  proof (cases op)
    case (Inl r)
    show ?thesis
    proof (cases "free s")
      case None
      then show ?thesis using Inl Cons good by simp
    next
      case (Some i)
      obtain x s' where o: "opn r i s = Some (x, s')" "inv s'" "\<forall>j. in_use j s' \<longleftrightarrow> in_use j s \<or> x = 0 \<and> j = i"
        using opens [OF inv Some, of r] Cons.prems(2) Inl by auto
      have "holds_all (if x = 0 then i # held else held) s'"
        using o(2,3) held free_slot [OF inv Some] by (auto simp: holds_all_def)
      from Cons.IH [OF this good] show ?thesis using Inl Some o(1) by simp
    qed
  next
    case (Inr k)
    show ?thesis
    proof (cases "k < length held")
      case False
      then show ?thesis using Inr Cons good by simp
    next
      case True
      then have split: "held = take k held @ held ! k # drop (Suc k) held" by (rule id_take_nth_drop)
      have "in_use (held ! k) s" using held(2) True nth_mem by blast
      then obtain x s' where c: "cls (held ! k) s = Some (x, s')" "inv s'"
        "\<forall>j. in_use j s' \<longleftrightarrow> in_use j s \<and> j \<noteq> held ! k"
        using closes [OF inv] by blast
      have "distinct (take k held @ held ! k # drop (Suc k) held)" using held(1) split by simp
      then have d: "distinct (take k held @ drop (Suc k) held)" "held ! k \<notin> set (take k held @ drop (Suc k) held)"
        by auto
      have "set held = insert (held ! k) (set (take k held @ drop (Suc k) held))" by (subst split) auto
      then have "set (take k held @ drop (Suc k) held) = {i. in_use i s'}" using d(2) c(3) held(2) by auto
      then have "holds_all (take k held @ drop (Suc k) held) s'"
        using c(2) d(1) by (simp add: holds_all_def)
      from Cons.IH [OF this good] show ?thesis using Inr True c(1) by simp
    qed
  qed
qed

end

record open_request =
  req_env :: open_env
  req_video :: sockaddr_in
  req_audio :: sockaddr_in
  req_type :: int
  req_channel :: int

definition open_receiver :: "open_request \<Rightarrow> nat \<Rightarrow> stream_out \<Rightarrow> (int \<times> stream_out) option" where
  "open_receiver r i = stream_client_open (req_env r) (req_video r) (req_audio r) (req_type r) (Some i) (req_channel r)"

definition close_receiver :: "nat \<Rightarrow> stream_out \<Rightarrow> (int \<times> stream_out) option" where
  "close_receiver i = stream_client_close (Some i)"

interpretation receivers: receiver_pool out_inv slot_in_use stream_client_get_free open_receiver close_receiver
    "\<lambda>r. 0 \<le> req_channel r"
proof
  show "\<not> slot_in_use i s" if "out_inv s" "stream_client_get_free s = Some i" for s i
    using get_free_unused [OF that(2)] by (auto simp: slot_in_use_def stream_consts)
  show "\<exists>x s'. open_receiver r i s = Some (x, s') \<and> out_inv s'
      \<and> (\<forall>j. slot_in_use j s' \<longleftrightarrow> slot_in_use j s \<or> x = 0 \<and> j = i)"
    if "out_inv s" "stream_client_get_free s = Some i" "0 \<le> req_channel r" for s i r
    using stream_client_open_inv [OF that, of "req_env r" "req_video r" "req_audio r" "req_type r"]
    unfolding open_receiver_def by (metis (no_types))
  show "\<exists>x s'. close_receiver i s = Some (x, s') \<and> out_inv s' \<and> (\<forall>j. slot_in_use j s' \<longleftrightarrow> slot_in_use j s \<and> j \<noteq> i)"
    if "out_inv s" "slot_in_use i s" for s i
    using stream_client_close_inv [OF that] unfolding close_receiver_def by blast
qed

text \<open>The memory of the module when the program starts.\<close>

definition out_start :: stream_out where
  "out_start = stream_client_init \<lparr>g_stream_client = replicate 8 zero_client, g_direct_rtp_active = [0, 0, 0, 0],
     g_direct_ts_active = [0, 0, 0, 0], g_rtp_over_ts_active = [0, 0, 0, 0], datagrams = [], closed_sockets = []\<rparr>"

lemma start_clients: "g_stream_client out_start = map (\<lambda>i. zero_client\<lparr>c_used := NOTUSED, num := int i\<rparr>) [0..<8]"
  by (simp add: out_start_def stream_client_init_def OUTPUT_SERVER_MAX_NUM_def)

lemma start_holds: "receivers.holds_all [] out_start"
proof -
  have "served ty ch out_start = 0" for ty ch
    by (simp add: served_def start_clients serves_def stream_consts comp_def)
  moreover have "[0, 0, 0, 0 :: int] ! ch = 0" if "ch < 4" for ch :: nat
    using that by (simp add: numeral_eq_Suc less_Suc_eq) auto
  ultimately have "out_inv out_start"
    by (auto simp: out_inv_def counter_ok_def start_clients list_all_length slot_ok_def)
      (auto simp: out_start_def stream_client_init_def)
  moreover have "\<not> slot_in_use i out_start" for i
    by (auto simp: slot_in_use_def start_clients stream_consts)
  ultimately show ?thesis by (simp add: receivers.holds_all_def)
qed

lemma active_iff_served:
  assumes "out_inv st" "0 \<le> ch" "ch < 4"
  shows "mult_rtp_get_active ch st = Some (if \<exists>i. slot_in_use i st \<and> serves TYPE_RTP ch (g_stream_client st ! i) then 1 else 0)"
    and "mult_ts_get_active ch st = Some (if \<exists>i. slot_in_use i st \<and> serves TYPE_TS ch (g_stream_client st ! i) then 1 else 0)"
    and "mult_rtpts_get_active ch st
      = Some (if \<exists>i. slot_in_use i st \<and> serves TYPE_TS_OVER_RTP ch (g_stream_client st ! i) then 1 else 0)"
proof -
  have pos: "0 < served ty ch st \<longleftrightarrow> (\<exists>i. slot_in_use i st \<and> serves ty ch (g_stream_client st ! i))" for ty
    by (auto simp: served_def filter_empty_conv Bex_def in_set_conv_nth slot_in_use_def serves_def)
  have *: "peek t ch = Some (served ty ch st)" if "counter_ok t ty st" for t ty
    using that assms(2,3) by (auto simp: counter_ok_def peek_def)
  have p: "peek (g_direct_rtp_active st) ch = Some (served TYPE_RTP ch st)"
    "peek (g_direct_ts_active st) ch = Some (served TYPE_TS ch st)"
    "peek (g_rtp_over_ts_active st) ch = Some (served TYPE_TS_OVER_RTP ch st)"
    using assms(1) by (auto simp: out_inv_def intro: *)
  show "mult_rtp_get_active ch st = Some (if \<exists>i. slot_in_use i st \<and> serves TYPE_RTP ch (g_stream_client st ! i) then 1 else 0)"
    "mult_ts_get_active ch st = Some (if \<exists>i. slot_in_use i st \<and> serves TYPE_TS ch (g_stream_client st ! i) then 1 else 0)"
    "mult_rtpts_get_active ch st
      = Some (if \<exists>i. slot_in_use i st \<and> serves TYPE_TS_OVER_RTP ch (g_stream_client st ! i) then 1 else 0)"
    by (simp_all only: mult_rtp_get_active_def mult_ts_get_active_def mult_rtpts_get_active_def p pos bind.bind_lunit)
qed

text \<open>C19: Whoever opens and closes receivers, in any order and with any answers of the kernel, as long as each closes
  what it holds: no call leaves the tables, no slot is held twice, the slots in use are the slots held, and the
  encoder is told that a format of a channel is wanted exactly when a held receiver takes it.\<close>

theorem receivers_counted:
  assumes "\<forall>r. Inl r \<in> set ops \<longrightarrow> 0 \<le> req_channel r"
  shows "\<exists>held st. pool_run stream_client_get_free open_receiver close_receiver ops [] out_start = Some (held, st)
    \<and> distinct held \<and> set held = {i. slot_in_use i st}
    \<and> (\<forall>ch. 0 \<le> ch \<and> ch < 4 \<longrightarrow>
         mult_rtp_get_active ch st = Some (if \<exists>i\<in>set held. serves TYPE_RTP ch (g_stream_client st ! i) then 1 else 0)
         \<and> mult_ts_get_active ch st = Some (if \<exists>i\<in>set held. serves TYPE_TS ch (g_stream_client st ! i) then 1 else 0)
         \<and> mult_rtpts_get_active ch st
             = Some (if \<exists>i\<in>set held. serves TYPE_TS_OVER_RTP ch (g_stream_client st ! i) then 1 else 0))"
proof -
  obtain held st where run: "pool_run stream_client_get_free open_receiver close_receiver ops [] out_start = Some (held, st)"
    and h: "receivers.holds_all held st"
    using receivers.run_holds [OF start_holds assms] by blast
  have mem: "(\<exists>i\<in>set held. P i) \<longleftrightarrow> (\<exists>i. slot_in_use i st \<and> P i)" for P
    using h by (auto simp: receivers.holds_all_def)
  have "out_inv st" using h by (simp add: receivers.holds_all_def)
  from active_iff_served [OF this] show ?thesis
    using run h unfolding mem by (auto simp: receivers.holds_all_def)
qed

subsection \<open>Who hears what\<close>

text \<open>
  A sequence of packets of any channels: the channel, the kind (2 is video, 1 sound, others are not sent) and the
  bytes.
\<close>

type_synonym rtp_packets = "(int \<times> int \<times> byte list) list"

definition rtp_stream :: "rtp_packets \<Rightarrow> stream_out \<Rightarrow> stream_out" where
  "rtp_stream pkts st = fold (\<lambda>(n, ty, b) s. rtp_porting_senddata ty b n s) pkts st"

definition videos :: "int \<Rightarrow> rtp_packets \<Rightarrow> nat" where
  "videos ch pkts = length (filter (\<lambda>(n, ty, b). n = ch \<and> ty = 2) pkts)"

text \<open>
  The reference: a receiver of the channel \<open>ch\<close> hears every video packet of that channel, and a sound packet of it once
  more than 30 video packets of it went before; it hears nothing of other channels.
\<close>

definition heard_at :: "int \<Rightarrow> Stream_Output_Client \<Rightarrow> rtp_packets \<Rightarrow> nat \<Rightarrow> datagram list" where
  "heard_at ch c pkts k =
     (case pkts ! k of (n, ty, b) \<Rightarrow>
        if n \<noteq> ch then []
        else if ty = 2 then [(video_socket c, video_addr c, b)]
        else if ty = 1 \<and> 0 < audio_socket c \<and> 30 < videos ch (take k pkts) then [(audio_socket c, audio_addr c, b)]
        else [])"

definition heard :: "int \<Rightarrow> Stream_Output_Client \<Rightarrow> rtp_packets \<Rightarrow> datagram list" where
  "heard ch c pkts = concat (map (heard_at ch c pkts) [0..<length pkts])"

definition sockets_of :: "Stream_Output_Client \<Rightarrow> int set" where
  "sockets_of c = {video_socket c, audio_socket c}"

definition log_of :: "Stream_Output_Client \<Rightarrow> stream_out \<Rightarrow> datagram list" where
  "log_of c st = filter (\<lambda>d. fst d \<in> sockets_of c) (datagrams st)"

lemma heard_snoc: "heard ch c (pkts @ [p]) = heard ch c pkts @ heard_at ch c (pkts @ [p]) (length pkts)"
proof -
  have "map (heard_at ch c (pkts @ [p])) [0..<length pkts] = map (heard_at ch c pkts) [0..<length pkts]"
    by (intro map_cong refl) (auto simp: heard_at_def nth_append split: prod.splits)
  then show ?thesis by (simp only: heard_def length_append list.size upt_Suc_append map_append concat_append
    plus_1_eq_Suc add.commute [of _ "Suc 0"] le0 list.map concat.simps append_Nil2 One_nat_def add_Suc_right add_0_right)
qed

lemma rtp_send_slot_cases:
  "serves TYPE_RTP ch c \<Longrightarrow> rtp_send_slot b 2 ch c
     = (c\<lparr>video_send := (if video_send c < 50 then video_send c + 1 else video_send c)\<rparr>, [(video_socket c, video_addr c, b)])"
  "serves TYPE_RTP ch c \<Longrightarrow> rtp_send_slot b 1 ch c
     = (c, if 0 < audio_socket c \<and> 30 < video_send c then [(audio_socket c, audio_addr c, b)] else [])"
  by (auto simp: rtp_send_slot_def serves_def)

lemma rtp_send_slot_other:
  "serves TYPE_RTP ch c \<Longrightarrow> n \<noteq> ch \<Longrightarrow> rtp_send_slot b ty n c = (c, [])"
  by (auto simp: rtp_send_slot_def serves_def)

lemma serves_video_send [simp]: "serves ty ch (c\<lparr>video_send := v\<rparr>) = serves ty ch c"
  by (simp add: serves_def)

lemma rtp_send_slot_keeps:
  "serves ty' k (fst (rtp_send_slot b ty ch c)) = serves ty' k c"
  "sockets_of (fst (rtp_send_slot b ty ch c)) = sockets_of c"
  "c_used (fst (rtp_send_slot b ty ch c)) = c_used c"
  "slot_ok (fst (rtp_send_slot b ty ch c)) = slot_ok c"
  "\<forall>d \<in> set (snd (rtp_send_slot b ty ch c)). fst d \<in> sockets_of c \<and> c_used c = ISUSED"
  by (auto simp: rtp_send_slot_def serves_def sockets_of_def slot_ok_def)

lemma rtp_send_log:
  assumes i: "i < length (g_stream_client st)"
    and apart: "\<And>j. j < length (g_stream_client st) \<Longrightarrow> j \<noteq> i \<Longrightarrow> c_used (g_stream_client st ! j) = ISUSED \<Longrightarrow>
      sockets_of (g_stream_client st ! j) \<inter> S = {}"
    and S: "S = sockets_of (g_stream_client st ! i)"
  shows "filter (\<lambda>d. fst d \<in> S) (datagrams (stream_client_rtp_send b ty ch st))
    = filter (\<lambda>d. fst d \<in> S) (datagrams st) @ snd (rtp_send_slot b ty ch (g_stream_client st ! i))"
proof -
  let ?f = "\<lambda>d :: datagram. fst d \<in> S" and ?g = "snd \<circ> rtp_send_slot b ty ch"
  obtain xs y zs where sp: "g_stream_client st = xs @ y # zs" "i = length xs"
    using i id_take_nth_drop [of i "g_stream_client st"] by (metis length_take min.absorb4)
  have none: "filter ?f (concat (map ?g l)) = []" if "\<forall>c\<in>set l. c_used c = ISUSED \<longrightarrow> sockets_of c \<inter> S = {}" for l
    using that rtp_send_slot_keeps(5) [of b ty ch] by (fastforce simp: filter_empty_conv)
  have "\<forall>c\<in>set xs. c_used c = ISUSED \<longrightarrow> sockets_of c \<inter> S = {}"
  proof
    fix c assume "c \<in> set xs"
    then obtain j where "j < length xs" "c = xs ! j" by (auto simp: in_set_conv_nth)
    with apart [of j] sp show "c_used c = ISUSED \<longrightarrow> sockets_of c \<inter> S = {}" by (auto simp: nth_append)
  qed
  moreover have "\<forall>c\<in>set zs. c_used c = ISUSED \<longrightarrow> sockets_of c \<inter> S = {}"
  proof
    fix c assume "c \<in> set zs"
    then obtain j where "j < length zs" "c = zs ! j" by (auto simp: in_set_conv_nth)
    with apart [of "length xs + Suc j"] sp show "c_used c = ISUSED \<longrightarrow> sockets_of c \<inter> S = {}"
      by (auto simp: nth_append)
  qed
  moreover have "filter ?f (?g y) = ?g y"
    using rtp_send_slot_keeps(5) [of b ty ch y] S sp by (auto simp: filter_id_conv)
  ultimately show ?thesis
    using none [of xs] none [of zs] sp by (simp add: stream_client_rtp_send_def)
qed

lemma rtp_stream_heard:
  assumes inv: "i < length (g_stream_client st)" and c: "c = g_stream_client st ! i" "serves TYPE_RTP ch c" "video_send c = 0"
    and apart: "\<forall>j<length (g_stream_client st). j \<noteq> i \<and> c_used (g_stream_client st ! j) = ISUSED \<longrightarrow>
      sockets_of (g_stream_client st ! j) \<inter> sockets_of c = {}"
  shows "log_of c (rtp_stream pkts st) = log_of c st @ heard ch c pkts
    \<and> length (g_stream_client (rtp_stream pkts st)) = length (g_stream_client st)
    \<and> g_stream_client (rtp_stream pkts st) ! i = c\<lparr>video_send := min 50 (int (videos ch pkts))\<rparr>
    \<and> (\<forall>j<length (g_stream_client st). j \<noteq> i \<longrightarrow>
         sockets_of (g_stream_client (rtp_stream pkts st) ! j) = sockets_of (g_stream_client st ! j)
         \<and> c_used (g_stream_client (rtp_stream pkts st) ! j) = c_used (g_stream_client st ! j))"
proof (induction pkts rule: rev_induct)
  case Nil
  then show ?case using c by (simp add: rtp_stream_def heard_def videos_def)
next
  case (snoc p pkts)
  let ?s = "rtp_stream pkts st"
  obtain n ty b where p: "p = (n, ty, b)" by (cases p)
  have IH: "log_of c ?s = log_of c st @ heard ch c pkts"
    "length (g_stream_client ?s) = length (g_stream_client st)"
    "g_stream_client ?s ! i = c\<lparr>video_send := min 50 (int (videos ch pkts))\<rparr>"
    "\<forall>j<length (g_stream_client st). j \<noteq> i \<longrightarrow> sockets_of (g_stream_client ?s ! j) = sockets_of (g_stream_client st ! j)
         \<and> c_used (g_stream_client ?s ! j) = c_used (g_stream_client st ! j)"
    using snoc by auto
  let ?c = "c\<lparr>video_send := min 50 (int (videos ch pkts))\<rparr>"
  show ?case
  proof (cases "ty = 1 \<or> ty = 2")
    case False
    then have "rtp_stream (pkts @ [p]) st = ?s" by (auto simp: rtp_stream_def rtp_porting_senddata_def p)
    with False IH show ?thesis by (auto simp: heard_snoc heard_at_def videos_def p)
  next
    case kind: True
    have step: "rtp_stream (pkts @ [p]) st = stream_client_rtp_send b ty n ?s"
      using kind by (auto simp: rtp_stream_def rtp_porting_senddata_def p)
    have S: "sockets_of c = sockets_of (g_stream_client ?s ! i)" by (simp add: IH(3) sockets_of_def)
    have slot: "rtp_send_slot b 2 ch ?c
        = (c\<lparr>video_send := min 50 (int (videos ch pkts) + 1)\<rparr>, [(video_socket c, video_addr c, b)])"
      "rtp_send_slot b 1 ch ?c
        = (?c, if 0 < audio_socket c \<and> 30 < videos ch pkts then [(audio_socket c, audio_addr c, b)] else [])"
      using c(2) by (subst rtp_send_slot_cases; auto)+
    have other: "rtp_send_slot b k n ?c = (?c, [])" if "n \<noteq> ch" for k
      using c(2) that by (intro rtp_send_slot_other) simp_all
    have "log_of c (rtp_stream (pkts @ [p]) st) = log_of c ?s @ snd (rtp_send_slot b ty n ?c)"
      unfolding log_of_def step
      using rtp_send_log [of i ?s "sockets_of c" b ty n] IH(2-4) inv apart S by simp
    moreover have "snd (rtp_send_slot b ty n ?c) = heard_at ch c (pkts @ [p]) (length pkts)"
      using kind by (cases "n = ch"; elim disjE; simp only: slot other not_False_eq_True; simp add: heard_at_def p)
    moreover have "g_stream_client (rtp_stream (pkts @ [p]) st) ! i = fst (rtp_send_slot b ty n ?c)"
      using inv IH(2,3) by (simp add: step stream_client_rtp_send_def)
    moreover have "fst (rtp_send_slot b ty n ?c) = c\<lparr>video_send := min 50 (int (videos ch (pkts @ [p])))\<rparr>"
      using kind by (cases "n = ch"; elim disjE; simp only: slot other not_False_eq_True; simp add: videos_def p)
    ultimately show ?thesis
      using IH(1,2,4) by (simp add: heard_snoc step stream_client_rtp_send_def rtp_send_slot_keeps)
  qed
qed

text \<open>C20: While packets of any channels and kinds are sent, a receiver newly opened for a channel, whose sockets no other
  receiver in use has, hears on its own sockets every video packet of its channel in order and the sound packets of
  its channel that follow the 31st video packet of it, and nothing else.\<close>

theorem receiver_hears:
  assumes "i < length (g_stream_client st)" "serves TYPE_RTP ch (g_stream_client st ! i)"
    and "video_send (g_stream_client st ! i) = 0"
    and "\<forall>j<length (g_stream_client st). j \<noteq> i \<and> c_used (g_stream_client st ! j) = ISUSED \<longrightarrow>
      sockets_of (g_stream_client st ! j) \<inter> sockets_of (g_stream_client st ! i) = {}"
  shows "log_of (g_stream_client st ! i) (rtp_stream pkts st)
    = log_of (g_stream_client st ! i) st @ heard ch (g_stream_client st ! i) pkts"
  using rtp_stream_heard [OF assms(1) refl assms(2-4)] by blast

subsection \<open>Cutting transport-stream data\<close>

definition ts_to_all :: "byte list \<Rightarrow> int \<Rightarrow> int \<Rightarrow> stream_out \<Rightarrow> datagram list" where
  "ts_to_all buff ty channel st = concat (map (ts_send_slot buff ty channel) (g_stream_client st))"

lemma ts_send_all:
  "stream_client_ts_send b ty ch st = st\<lparr>datagrams := datagrams st @ ts_to_all b ty ch st\<rparr>"
  by (simp add: stream_client_ts_send_def ts_to_all_def)

lemma ts_to_all_log: "ts_to_all b ty ch (st\<lparr>datagrams := d\<rparr>) = ts_to_all b ty ch st"
  by (simp add: ts_to_all_def)

lemma ts_send_loop_pieces:
  assumes "0 < one"
  shows "\<exists>ps. concat ps = drop s pData \<and> (\<forall>p\<in>set ps. 0 < length p \<and> length p \<le> one)
    \<and> (\<forall>p\<in>set (butlast ps). length p = one)
    \<and> ts_send_loop one pData s ty ch st
        = Some (st\<lparr>datagrams := datagrams st @ concat (map (\<lambda>p. ts_to_all p ty ch st) ps)\<rparr>)"
proof (induction "length pData - s" arbitrary: s st rule: less_induct)
  case less
  show ?case
  proof (cases "s < length pData")
    case False
    then show ?thesis by (intro exI [of _ "[]"]) (simp add: ts_send_loop.simps)
  next
    case more: True
    show ?thesis
    proof (cases "length pData - s < one")
      case True
      let ?p = "drop s pData"
      have "ts_send_loop one pData s ty ch st = Some (stream_client_ts_send ?p ty ch st)"
        using more True by (simp add: ts_send_loop.simps [of one pData s] ts_send_loop.simps [of one pData "length pData"])
      with more True show ?thesis by (intro exI [of _ "[?p]"]) (simp add: ts_send_all)
    next
      case False
      let ?p = "take one (drop s pData)" and ?s = "stream_client_ts_send (take one (drop s pData)) ty ch st"
      have lp: "length ?p = one" using False by simp
      have "length pData - (s + one) < length pData - s" using more assms by simp
      from less.hyps [OF this, of ?s] obtain ps where ps: "concat ps = drop (s + one) pData"
        "\<forall>p\<in>set ps. 0 < length p \<and> length p \<le> one" "\<forall>p\<in>set (butlast ps). length p = one"
        "ts_send_loop one pData (s + one) ty ch ?s
          = Some (?s\<lparr>datagrams := datagrams ?s @ concat (map (\<lambda>p. ts_to_all p ty ch ?s) ps)\<rparr>)" by blast
      have "concat (?p # ps) = drop s pData"
        using ps(1) append_take_drop_id [of one "drop s pData"] by (simp add: add.commute)
      moreover have "ts_send_loop one pData s ty ch st = ts_send_loop one pData (s + one) ty ch ?s"
        using more False by (simp add: ts_send_loop.simps [of one pData s])
      ultimately show ?thesis
        using ps(2-4) lp assms by (intro exI [of _ "?p # ps"]) (auto simp: ts_send_all ts_to_all_log)
    qed
  qed
qed

lemma ts_send_loop_exit:
  "ts_send_loop one pData s ty ch st = Some st' \<Longrightarrow> one = 0 \<Longrightarrow> length pData \<le> s"
  by (rule ts_send_loop.raw_induct [where P = "\<lambda>one pData s ty ch st st'. one = 0 \<longrightarrow> length pData \<le> s", rule_format])
    (auto split: if_splits)

lemma one_rtp_len_cases:
  "188 \<le> mtu \<Longrightarrow> 188 dvd one_rtp_len mtu \<and> 0 < one_rtp_len mtu \<and> int (one_rtp_len mtu) \<le> min mtu 1400"
  "0 \<le> mtu \<Longrightarrow> mtu < 188 \<Longrightarrow> one_rtp_len mtu = 0"
proof -
  define k where "k = min mtu 1400 div 188"
  have b: "188 * k \<le> min mtu 1400" "188 * k < 2 ^ 32"
    using div_mult_mod_eq [of "min mtu 1400" 188] by (auto simp: k_def)
  assume "188 \<le> mtu"
  then have k: "0 < k" "\<not> min mtu 1400 < 0" by (auto simp: k_def)
  then have "one_rtp_len mtu = nat (188 * k)"
    using b(2) unfolding one_rtp_len_def Let_def k_def [symmetric] by (simp only: if_False) simp
  with b k(1) show "188 dvd one_rtp_len mtu \<and> 0 < one_rtp_len mtu \<and> int (one_rtp_len mtu) \<le> min mtu 1400"
    by (auto simp: nat_mult_distrib)
qed (simp add: one_rtp_len_def)

text \<open>C21: With a packet size of at least 188 the sending of transport-stream data ends, and every receiver is sent the
  data in order in pieces that fit, all but the last one of whole 188-byte packets; with a smaller packet size, which
  a multicast server may have, the sender loops for ever.\<close>

theorem ts_sending_ends:
  assumes "0 \<le> mtu" "pData \<noteq> []"
  shows "if 188 \<le> mtu
    then \<exists>ps. concat ps = pData \<and> (\<forall>p\<in>set ps. 0 < length p \<and> int (length p) \<le> min mtu 1400)
      \<and> (\<forall>p\<in>set (butlast ps). 188 dvd length p)
      \<and> ts_output_send pData mtu ty ch st
          = Some (st\<lparr>datagrams := datagrams st @ concat (map (\<lambda>p. ts_to_all p ty ch st) ps)\<rparr>)
    else ts_output_send pData mtu ty ch st = None"
proof (cases "188 \<le> mtu")
  case True
  obtain ps where "concat ps = pData" "\<forall>p\<in>set ps. 0 < length p \<and> length p \<le> one_rtp_len mtu"
    "\<forall>p\<in>set (butlast ps). length p = one_rtp_len mtu"
    "ts_send_loop (one_rtp_len mtu) pData 0 ty ch st
      = Some (st\<lparr>datagrams := datagrams st @ concat (map (\<lambda>p. ts_to_all p ty ch st) ps)\<rparr>)"
    using ts_send_loop_pieces [of "one_rtp_len mtu" 0 pData ty ch st] one_rtp_len_cases(1) [OF True] by auto
  moreover have "\<exists>ps. concat ps = pData \<and> (\<forall>p\<in>set ps. 0 < length p \<and> int (length p) \<le> min mtu 1400)
      \<and> (\<forall>p\<in>set (butlast ps). 188 dvd length p)
      \<and> ts_output_send pData mtu ty ch st
          = Some (st\<lparr>datagrams := datagrams st @ concat (map (\<lambda>p. ts_to_all p ty ch st) ps)\<rparr>)"
    using one_rtp_len_cases(1) [OF True] calculation by (intro exI [of _ ps]) (force simp: ts_output_send_def)
  ultimately show ?thesis using True by simp
next
  case False
  then have "one_rtp_len mtu = 0" using assms(1) by (intro one_rtp_len_cases) auto
  then have "ts_output_send pData mtu ty ch st = None"
    using assms(2) ts_send_loop_exit [of 0 pData 0 ty ch st] by (cases "ts_output_send pData mtu ty ch st") (auto simp: ts_output_send_def)
  with False show ?thesis by simp
qed

subsection \<open>Witnesses\<close>

definition sample_addr :: "u16 \<Rightarrow> sockaddr_in" where
  "sample_addr p = \<lparr>sin_family = 2, sin_port = p, sin_addr = 0x0A000001\<rparr>"

definition sample_request :: "int \<Rightarrow> int \<Rightarrow> open_request" where
  "sample_request v ch = \<lparr>req_env = \<lparr>vs = v, as = v + 1, mi = (0, 1280, 720, 48000)\<rparr>,
     req_video = sample_addr 5000, req_audio = sample_addr 5002, req_type = TYPE_RTP, req_channel = ch\<rparr>"

lemma receivers_counted_witness:
  "\<exists>held st. pool_run stream_client_get_free open_receiver close_receiver
      [Inl (sample_request 7 0), Inl (sample_request 9 3), Inr 0] [] out_start = Some (held, st)
    \<and> distinct held \<and> set held = {i. slot_in_use i st}"
  using receivers_counted [of "[Inl (sample_request 7 0), Inl (sample_request 9 3), Inr 0]"]
  by (auto simp: sample_request_def)

definition one_receiver :: stream_out where
  "one_receiver = out_start\<lparr>g_stream_client :=
     [zero_client\<lparr>c_used := 1, ctype := 2, video_socket := 7, audio_socket := 8, video_addr := sample_addr 5000,
       audio_addr := sample_addr 5002\<rparr>]\<rparr>"

lemma receiver_hears_witness:
  "log_of (g_stream_client one_receiver ! 0) (rtp_stream ((3, 2, [9]) # replicate 31 (0, 2, [1]) @ [(0, 1, [2]), (3, 1, [8])]) one_receiver)
    = replicate 31 (7, sample_addr 5000, [1]) @ [(8, sample_addr 5002, [2])]"
proof -
  let ?c = "g_stream_client one_receiver ! 0"
  let ?p = "(3, 2, [9]) # replicate 31 (0, 2, [1]) @ [(0, 1, [2]), (3, 1, [8])]"
  have "heard 0 ?c ?p = replicate 31 (7, sample_addr 5000, [1]) @ [(8, sample_addr 5002, [2])]"
    by code_simp
  then show ?thesis
    using receiver_hears [of 0 one_receiver 0 ?p]
    by (simp add: one_receiver_def zero_client_def serves_def stream_consts log_of_def
      out_start_def stream_client_init_def)
qed

lemma ts_sending_ends_witness:
  "(\<exists>ps. concat ps = replicate 5 0 \<and> ts_output_send (replicate 5 0) 1400 2 0 one_receiver
      = Some (one_receiver\<lparr>datagrams := datagrams one_receiver @ concat (map (\<lambda>p. ts_to_all p 2 0 one_receiver) ps)\<rparr>))
    \<and> ts_output_send (replicate 5 0) 100 2 0 one_receiver = None"
  using ts_sending_ends [of 1400 "replicate 5 0" 2 0 one_receiver] ts_sending_ends [of 100 "replicate 5 0" 2 0 one_receiver]
  by auto

end
