(* ===== verification/MultServer.thy ===== *)
theory MultServer
  imports StreamClient
begin

section \<open>The multicast servers of the encoder\<close>

text \<open>
  \<^verbatim>\<open>enc/stream_output/multicast_output_server.c\<close> keeps a list of at most eight servers, each an address to which
  one channel is sent in one format, and opens a receiver of \<open>StreamClient\<close> for every active one.

  The list of nodes is a list, a pointer to a node its position.  \<open>pton\<close> is what \<^verbatim>\<open>inet_pton\<close> stores for a text (0
  for a text it refuses, as the memory was cleared before).  \<^verbatim>\<open>malloc\<close> and the creation of mutexes succeed.  Traffic
  shaping does nothing in this program (\<^verbatim>\<open>tc_add_element\<close> and \<^verbatim>\<open>tc_del_element\<close> return at once), so \<^verbatim>\<open>tc_num\<close>
  stays -1 and is left out, as are the setting of socket options and the timer that saves the list to flash.
\<close>

subsection \<open>Data\<close>

definition S_BEGIN :: int where "S_BEGIN = 0"
definition S_ACTIVE :: int where "S_ACTIVE = 1"
definition S_STOP :: int where "S_STOP = 3"
definition S_DEL :: int where "S_DEL = 4"

lemmas status_consts = S_BEGIN_def S_ACTIVE_def S_STOP_def S_DEL_def

record stream_output_server_config =
  sc_num :: int
  sc_type :: int
  sc_status :: int
  main_ip :: "byte list"
  video_port :: int
  audio_port :: int
  sc_mtu :: int
  sc_ttl :: int
  sc_tos :: int
  tc_flag :: int
  tc_rate :: int
  sc_channel :: int
  rtsp_permissions :: int

definition MULTICAST_MAX_SERVER_NUM :: int where "MULTICAST_MAX_SERVER_NUM = 8"

record mult_node =
  s_used :: int
  n_config :: stream_output_server_config
  n_client :: "nat option"

record mult_state =
  m_num :: int
  m_nodes :: "mult_node list"
  g_ts_mtu :: "int list"
  g_rtp_mtu :: "int list"
  g_rtpts_mtu :: "int list"
  m_out :: stream_out

subsection \<open>Finding and checking\<close>

definition multicast_compare_config ::
    "stream_output_server_config \<Rightarrow> stream_output_server_config \<Rightarrow> int" where
  "multicast_compare_config old new =
     (if sc_type old \<noteq> sc_type new then - 1
      else if main_ip old \<noteq> main_ip new then - 1
      else if video_port old \<noteq> video_port new then - 1
      else 1)"

definition multicast_list_find_node :: "stream_output_server_config \<Rightarrow> mult_state \<Rightarrow> nat option" where
  "multicast_list_find_node config st =
     find (\<lambda>k. multicast_compare_config (n_config (m_nodes st ! k)) config = 1) [0..<length (m_nodes st)]"

definition multicast_list_get_num :: "mult_state \<Rightarrow> int \<times> mult_state" where
  "multicast_list_get_num st = (let i = int (length (m_nodes st)) in (i, st\<lparr>m_num := i\<rparr>))"

definition multicast_list_check_full :: "mult_state \<Rightarrow> int \<times> mult_state" where
  "multicast_list_check_full st =
     (case multicast_list_get_num st of (n, st) \<Rightarrow> (if MULTICAST_MAX_SERVER_NUM \<le> n then 1 else 0, st))"

definition multicast_check_config :: "stream_output_server_config \<Rightarrow> stream_output_server_config" where
  "multicast_check_config old =
     (let n = old;
          n = (if sc_mtu n < 0 \<or> 1500 < sc_mtu n then n\<lparr>sc_mtu := 1500\<rparr> else n);
          n = (if 0xff < sc_tos n then n\<lparr>sc_tos := 0\<rparr> else n)
      in if 128 < sc_ttl n then n\<lparr>sc_ttl := 128\<rparr> else n)"

text \<open>\<^verbatim>\<open>htons\<close> of a port given as an \<^verbatim>\<open>int\<close>, as the 16-bit value stored.\<close>

definition port_field :: "int \<Rightarrow> u16" where
  "port_field p = (let w = word_of_int p :: u16 in push_bit 8 w OR drop_bit 8 w)"

definition server_addr :: "(byte list \<Rightarrow> u32) \<Rightarrow> byte list \<Rightarrow> int \<Rightarrow> sockaddr_in" where
  "server_addr pton ip port = \<lparr>sin_family = 2, sin_port = port_field port, sin_addr = pton ip\<rparr>"

subsection \<open>Configuring a node\<close>

text \<open>
  \<^verbatim>\<open>multicast_node_config\<close> writes to the configuration it is given; the result holds the return value, this
  configuration, the node and the table of receivers.
\<close>

definition multicast_node_config ::
    "(byte list \<Rightarrow> u32) \<Rightarrow> open_env \<Rightarrow> stream_output_server_config \<Rightarrow> mult_node \<Rightarrow> stream_out
      \<Rightarrow> (int \<times> stream_output_server_config \<times> mult_node \<times> stream_out) option" where
  "multicast_node_config pton e config node out =
     (let newconfig = multicast_check_config config;
          node = node\<lparr>n_config := newconfig\<rparr>;
          channel = sc_channel newconfig
      in if sc_status config \<noteq> S_ACTIVE then Some (0, config, node, out)
         else do {
           out \<leftarrow> (if n_client node \<noteq> None
                   then map_option snd (stream_client_close (n_client node) out) else Some out);
           let node = node\<lparr>n_client := None\<rparr>;
           let vport = video_port config;
           let config = (if sc_type config = TYPE_TS \<or> sc_type config = TYPE_TS_OVER_RTP
                         then config\<lparr>audio_port := vport\<rparr> else config);
           let aport = audio_port config;
           let vaddr = server_addr pton (main_ip config) vport;
           let aaddr = (if aport \<noteq> 0 then server_addr pton (main_ip config) aport else zero_addr);
           case stream_client_get_free out of
             None \<Rightarrow> Some (- 1, config, node, out)
           | Some i \<Rightarrow> do {
               let node = node\<lparr>n_client := Some i\<rparr>;
               (_, out) \<leftarrow> stream_client_open e vaddr aaddr (sc_type config) (Some i) channel out;
               Some (0, config, node\<lparr>s_used := ISUSED\<rparr>, out)}})"

definition multicast_node_create :: mult_node where
  "multicast_node_create =
     \<lparr>s_used = 0, n_config = \<lparr>sc_num = 0, sc_type = 0, sc_status = 0, main_ip = [], video_port = 0, audio_port = 0,
        sc_mtu = 0, sc_ttl = 0, sc_tos = 0, tc_flag = 0, tc_rate = 0, sc_channel = 0, rtsp_permissions = 0\<rparr>,
      n_client = None\<rparr>"

text \<open>\<^verbatim>\<open>multicast_node_delete\<close> closes the receiver of the node and frees it.\<close>

definition multicast_node_delete :: "mult_node \<Rightarrow> stream_out \<Rightarrow> stream_out option" where
  "multicast_node_delete node out = map_option snd (stream_client_close (n_client node) out)"

definition multicast_list_add_node :: "mult_node \<Rightarrow> mult_state \<Rightarrow> mult_state" where
  "multicast_list_add_node node st = st\<lparr>m_nodes := m_nodes st @ [node], m_num := m_num st + 1\<rparr>"

definition multicast_list_inset_node ::
    "(byte list \<Rightarrow> u32) \<Rightarrow> open_env \<Rightarrow> stream_output_server_config \<Rightarrow> mult_state
      \<Rightarrow> (int \<times> stream_output_server_config \<times> mult_state) option" where
  "multicast_list_inset_node pton e config st =
     (case multicast_list_check_full st of (full, st) \<Rightarrow>
        if full \<noteq> 0 then Some (- 1, config, st)
        else do {
          (ret, config, node, out) \<leftarrow> multicast_node_config pton e config multicast_node_create (m_out st);
          if ret = - 1 then do {
            out \<leftarrow> multicast_node_delete node out;
            Some (- 1, config, st\<lparr>m_out := out\<rparr>)}
          else Some (0, config, multicast_list_add_node node (st\<lparr>m_out := out\<rparr>))})"

definition multicast_list_delete_node :: "nat \<Rightarrow> mult_state \<Rightarrow> (int \<times> mult_state) option" where
  "multicast_list_delete_node k st =
     (let node = m_nodes st ! k;
          st = st\<lparr>m_nodes := take k (m_nodes st) @ drop (Suc k) (m_nodes st), m_num := m_num st - 1\<rparr>
      in do {
        (_, out) \<leftarrow> stream_client_close (n_client node) (m_out st);
        out \<leftarrow> multicast_node_delete node out;
        Some (0, st\<lparr>m_out := out\<rparr>)})"

subsection \<open>Packet sizes\<close>

definition mult_set_mtu :: "int \<Rightarrow> int \<Rightarrow> nat \<Rightarrow> mult_state \<Rightarrow> mult_state" where
  "mult_set_mtu ty mtu ch st =
     (if ty = TYPE_TS then st\<lparr>g_ts_mtu := (g_ts_mtu st)[ch := mtu]\<rparr>
      else if ty = TYPE_RTP then st\<lparr>g_rtp_mtu := (g_rtp_mtu st)[ch := mtu]\<rparr>
      else if ty = TYPE_TS_OVER_RTP then st\<lparr>g_rtpts_mtu := (g_rtpts_mtu st)[ch := mtu]\<rparr>
      else st)"

text \<open>The walk over the list: the smallest packet size per channel among the active nodes of one type.  The channel of
  a node of that type indexes local tables of four entries.\<close>

fun mtu_walk :: "int \<Rightarrow> mult_node list \<Rightarrow> int list \<Rightarrow> int list option" where
  "mtu_walk ty [] t = Some t"
| "mtu_walk ty (n # ns) t =
     (if s_used n = ISUSED \<and> sc_type (n_config n) = ty \<and> sc_status (n_config n) = S_ACTIVE then do {
        old \<leftarrow> peek t (sc_channel (n_config n));
        t \<leftarrow> (if sc_mtu (n_config n) < old then poke t (sc_channel (n_config n)) (sc_mtu (n_config n)) else Some t);
        mtu_walk ty ns t}
      else mtu_walk ty ns t)"

definition app_check_list_mult_status :: "mult_state \<Rightarrow> mult_state option" where
  "app_check_list_mult_status st = do {
     ts \<leftarrow> mtu_walk TYPE_TS (m_nodes st) (replicate 4 1450);
     rtp \<leftarrow> mtu_walk TYPE_RTP (m_nodes st) (replicate 4 1450);
     rtpts \<leftarrow> mtu_walk TYPE_TS_OVER_RTP (m_nodes st) (replicate 4 1450);
     Some (fold (\<lambda>i st. mult_set_mtu TYPE_TS_OVER_RTP (rtpts ! i) i
                    (mult_set_mtu TYPE_RTP (rtp ! i) i (mult_set_mtu TYPE_TS (ts ! i) i st))) [0..<4] st)}"

definition mult_get_direct_ts_mtu :: "int \<Rightarrow> mult_state \<Rightarrow> int option" where
  "mult_get_direct_ts_mtu channel st = peek (g_ts_mtu st) channel"

definition mult_get_direct_rtp_mtu :: "int \<Rightarrow> mult_state \<Rightarrow> int option" where
  "mult_get_direct_rtp_mtu channel st = peek (g_rtp_mtu st) channel"

definition mult_get_rtp_ts_mtu :: "int \<Rightarrow> mult_state \<Rightarrow> int option" where
  "mult_get_rtp_ts_mtu channel st = peek (g_rtpts_mtu st) channel"

subsection \<open>The requests of the web interface\<close>

definition set_node :: "nat \<Rightarrow> mult_node \<Rightarrow> mult_state \<Rightarrow> mult_state" where
  "set_node k n st = st\<lparr>m_nodes := (m_nodes st)[k := n]\<rparr>"

definition app_multicast_get_total_num :: "mult_state \<Rightarrow> int" where
  "app_multicast_get_total_num st = m_num st"

text \<open>\<^verbatim>\<open>node\<close> is moved \<^verbatim>\<open>num\<close> times and stays \<^verbatim>\<open>NULL\<close> at the end of the list.\<close>

definition app_multicast_get_config :: "int \<Rightarrow> mult_state \<Rightarrow> int \<times> stream_output_server_config option" where
  "app_multicast_get_config n st =
     (if MULTICAST_MAX_SERVER_NUM < n then (- 1, None)
      else if nat n < length (m_nodes st) then (0, Some (n_config (m_nodes st ! nat n))) else (- 1, None))"

definition app_multicast_add_server ::
    "(byte list \<Rightarrow> u32) \<Rightarrow> open_env \<Rightarrow> stream_output_server_config \<Rightarrow> mult_state
      \<Rightarrow> (int \<times> stream_output_server_config option \<times> mult_state) option" where
  "app_multicast_add_server pton e config st =
     (if sc_status config = S_DEL \<or> sc_type config = TYPE_RTSP then Some (- 1, None, st)
      else case multicast_list_find_node config st of
        Some k \<Rightarrow> Some (0, Some (n_config (m_nodes st ! k)), st)
      | None \<Rightarrow> do {
          (ret, config, st) \<leftarrow> multicast_list_inset_node pton e config st;
          if ret = - 1 then Some (- 1, None, st)
          else case multicast_list_find_node config st of
            None \<Rightarrow> Some (0, None, st)
          | Some k \<Rightarrow> do {
              let node = m_nodes st ! k;
              let node = node\<lparr>n_config := (n_config node)\<lparr>sc_status := S_ACTIVE\<rparr>\<rparr>;
              st \<leftarrow> app_check_list_mult_status (set_node k node st);
              Some (0, Some (n_config node), st)}})"

definition app_multicast_delete_server :: "stream_output_server_config \<Rightarrow> mult_state \<Rightarrow> (int \<times> mult_state) option" where
  "app_multicast_delete_server config st =
     (case multicast_list_find_node config st of
        None \<Rightarrow> Some (0, st)
      | Some k \<Rightarrow> do {
          (ret, st) \<leftarrow> multicast_list_delete_node k st;
          if ret = - 1 then Some (- 1, st)
          else do {st \<leftarrow> app_check_list_mult_status st; Some (0, st)}})"

definition app_multicast_stop_server :: "stream_output_server_config \<Rightarrow> mult_state \<Rightarrow> (int \<times> mult_state) option" where
  "app_multicast_stop_server config st =
     (case multicast_list_find_node config st of
        None \<Rightarrow> Some (0, st)
      | Some k \<Rightarrow>
          let node = m_nodes st ! k in
          if sc_status config = sc_status (n_config node) then Some (0, st)
          else do {
            (_, out) \<leftarrow> stream_client_close (n_client node) (m_out st);
            let node = node\<lparr>n_client := None, n_config := (n_config node)\<lparr>sc_status := S_STOP\<rparr>\<rparr>;
            st \<leftarrow> app_check_list_mult_status (set_node k node (st\<lparr>m_out := out\<rparr>));
            Some (0, st)})"

text \<open>
  Here \<^verbatim>\<open>multicast_node_config\<close> is given the configuration of the node itself, so what it writes to its argument
  lands in the node as well.
\<close>

definition app_multicast_restart_server ::
    "(byte list \<Rightarrow> u32) \<Rightarrow> open_env \<Rightarrow> stream_output_server_config \<Rightarrow> mult_state \<Rightarrow> (int \<times> mult_state) option" where
  "app_multicast_restart_server pton e config st =
     (case multicast_list_find_node config st of
        None \<Rightarrow> Some (0, st)
      | Some k \<Rightarrow>
          let node = m_nodes st ! k in
          if sc_status (n_config node) = sc_status config then Some (- 1, st)
          else do {
            let node = node\<lparr>n_config := (n_config node)\<lparr>sc_status := sc_status config\<rparr>\<rparr>;
            (ret, conf, node, out) \<leftarrow> multicast_node_config pton e (n_config node) node (m_out st);
            let node = node\<lparr>n_config := (n_config node)\<lparr>audio_port := audio_port conf\<rparr>\<rparr>;
            let st = set_node k node (st\<lparr>m_out := out\<rparr>);
            if ret = - 1 then Some (- 1, st)
            else do {st \<leftarrow> app_check_list_mult_status st; Some (0, st)}})"

definition app_config_is_same :: "stream_output_server_config \<Rightarrow> stream_output_server_config \<Rightarrow> int" where
  "app_config_is_same c n =
     (if sc_type c \<noteq> sc_type n then - 2
      else if sc_type c = TYPE_RTSP then 0
      else if main_ip c \<noteq> main_ip n then - 1
      else if video_port c \<noteq> video_port n then - 1
      else if (sc_type c \<noteq> TYPE_TS \<and> sc_type c \<noteq> TYPE_TS_OVER_RTP) \<and> audio_port c \<noteq> audio_port n then - 1
      else if sc_mtu c \<noteq> sc_mtu n \<or> sc_ttl c \<noteq> sc_ttl n \<or> sc_tos c \<noteq> sc_tos n then - 3
      else if tc_flag c \<noteq> tc_flag n \<or> (tc_flag c = 1 \<and> tc_rate c \<noteq> tc_rate n) then - 3
      else 0)"

definition app_multicast_set_config ::
    "(byte list \<Rightarrow> u32) \<Rightarrow> open_env \<Rightarrow> stream_output_server_config \<Rightarrow> mult_state
      \<Rightarrow> (int \<times> stream_output_server_config option \<times> mult_state) option" where
  "app_multicast_set_config pton e config st =
     (case multicast_list_find_node config st of
        None \<Rightarrow> Some (0, None, st)
      | Some k \<Rightarrow>
          let node = m_nodes st ! k;
              config = config\<lparr>sc_status := sc_status (n_config node)\<rparr>
          in if app_config_is_same (n_config node) config = 0 then Some (0, None, st)
             else do {
               (_, _, node, out) \<leftarrow> multicast_node_config pton e config node (m_out st);
               st \<leftarrow> app_check_list_mult_status (set_node k node (st\<lparr>m_out := out\<rparr>));
               Some (0, Some (n_config node), st)})"

definition app_multicast_set_status ::
    "(byte list \<Rightarrow> u32) \<Rightarrow> open_env \<Rightarrow> stream_output_server_config \<Rightarrow> mult_state \<Rightarrow> (int \<times> mult_state) option" where
  "app_multicast_set_status pton e config st = do {
     (_, st) \<leftarrow> (if sc_status config = S_ACTIVE then app_multicast_restart_server pton e config st
               else if sc_status config = S_STOP then app_multicast_stop_server config st
               else Some (0, st));
     st \<leftarrow> app_check_list_mult_status st;
     Some (0, st)}"

definition ts_porting_senddata ::
    "(byte list \<Rightarrow> int \<Rightarrow> int \<Rightarrow> u32 \<Rightarrow> int \<Rightarrow> stream_out \<Rightarrow> stream_out)
      \<Rightarrow> int \<Rightarrow> byte list \<Rightarrow> int \<Rightarrow> u32 \<Rightarrow> int \<Rightarrow> mult_state \<Rightarrow> mult_state option" where
  "ts_porting_senddata app_build_rtpts_data ty buff begin_flag nowtime channel st = do {
     ts_mtu \<leftarrow> mult_get_direct_ts_mtu channel st;
     rtp_ts_mtu \<leftarrow> mult_get_rtp_ts_mtu channel st;
     out \<leftarrow> ts_output_send buff ts_mtu ty channel (m_out st);
     active \<leftarrow> mult_rtpts_get_active channel out;
     Some (st\<lparr>m_out := (if active = 1 then app_build_rtpts_data buff rtp_ts_mtu begin_flag nowtime channel out else out)\<rparr>)}"

text \<open>The state when the program starts, before the list is read from flash.\<close>

definition mult_start :: mult_state where
  "mult_start = \<lparr>m_num = 0, m_nodes = [], g_ts_mtu = [1450, 0, 0, 0], g_rtp_mtu = [1450, 0, 0, 0],
     g_rtpts_mtu = [1450, 0, 0, 0], m_out = out_start\<rparr>"

text \<open>One request of the web interface.\<close>

datatype mult_op =
  AddServer open_env stream_output_server_config
| DeleteServer stream_output_server_config
| SetConfig open_env stream_output_server_config
| SetStatus open_env stream_output_server_config

fun mult_step :: "(byte list \<Rightarrow> u32) \<Rightarrow> mult_op \<Rightarrow> mult_state \<Rightarrow> mult_state option" where
  "mult_step pton (AddServer e c) st = map_option (snd \<circ> snd) (app_multicast_add_server pton e c st)"
| "mult_step pton (DeleteServer c) st = map_option snd (app_multicast_delete_server c st)"
| "mult_step pton (SetConfig e c) st = map_option (snd \<circ> snd) (app_multicast_set_config pton e c st)"
| "mult_step pton (SetStatus e c) st = map_option snd (app_multicast_set_status pton e c st)"

fun mult_run :: "(byte list \<Rightarrow> u32) \<Rightarrow> mult_op list \<Rightarrow> mult_state \<Rightarrow> mult_state option" where
  "mult_run pton [] st = Some st"
| "mult_run pton (op # ops) st = do {st \<leftarrow> mult_step pton op st; mult_run pton ops st}"

text \<open>
  What the callers must respect: channels exist, the kernel grants sockets, and a server is stopped before it is
  deleted.
\<close>

definition env_grants :: "open_env \<Rightarrow> bool" where "env_grants e \<longleftrightarrow> 0 \<le> vs e \<and> 0 \<le> as e"

fun legal_op :: "mult_op \<Rightarrow> mult_state \<Rightarrow> bool" where
  "legal_op (AddServer e c) st \<longleftrightarrow> env_grants e \<and> 0 \<le> sc_channel c \<and> sc_channel c < 4"
| "legal_op (DeleteServer c) st \<longleftrightarrow>
     (case multicast_list_find_node c st of None \<Rightarrow> True | Some k \<Rightarrow> n_client (m_nodes st ! k) = None)"
| "legal_op (SetConfig e c) st \<longleftrightarrow> env_grants e \<and> 0 \<le> sc_channel c \<and> sc_channel c < 4"
| "legal_op (SetStatus e c) st \<longleftrightarrow> env_grants e"

fun legal_run :: "(byte list \<Rightarrow> u32) \<Rightarrow> mult_op list \<Rightarrow> mult_state \<Rightarrow> bool" where
  "legal_run pton [] st \<longleftrightarrow> True"
| "legal_run pton (op # ops) st \<longleftrightarrow>
     legal_op op st \<and> (case mult_step pton op st of None \<Rightarrow> True | Some st' \<Rightarrow> legal_run pton ops st')"

subsection \<open>Every active server has its own receiver\<close>

definition holds :: "mult_state \<Rightarrow> nat \<Rightarrow> nat \<Rightarrow> bool" where
  "holds st k i \<longleftrightarrow> k < length (m_nodes st) \<and> n_client (m_nodes st ! k) = Some i"

definition node_ok :: "stream_out \<Rightarrow> mult_node \<Rightarrow> bool" where
  "node_ok out n \<longleftrightarrow> 0 \<le> sc_channel (n_config n) \<and> sc_channel (n_config n) < 4
     \<and> 0 \<le> sc_mtu (n_config n) \<and> sc_mtu (n_config n) \<le> 1500
     \<and> (\<forall>i. n_client n = Some i \<longrightarrow> slot_in_use i out \<and> sc_status (n_config n) = S_ACTIVE
          \<and> serves (sc_type (n_config n)) (sc_channel (n_config n)) (g_stream_client out ! i))"

text \<open>\<open>others\<close> are the receivers in use that do not belong to the servers of the list.\<close>

definition mult_inv :: "nat set \<Rightarrow> mult_state \<Rightarrow> bool" where
  "mult_inv others st \<longleftrightarrow> out_inv (m_out st) \<and> length (m_nodes st) \<le> 8
     \<and> length (g_ts_mtu st) = 4 \<and> length (g_rtp_mtu st) = 4 \<and> length (g_rtpts_mtu st) = 4
     \<and> (\<forall>k<length (m_nodes st). node_ok (m_out st) (m_nodes st ! k))
     \<and> (\<forall>j k i. holds st j i \<and> holds st k i \<longrightarrow> j = k)
     \<and> (\<forall>i. slot_in_use i (m_out st) \<longleftrightarrow> i \<in> others \<or> (\<exists>k. holds st k i))
     \<and> (\<forall>k i. holds st k i \<longrightarrow> i \<notin> others)"

lemma mult_invD:
  assumes "mult_inv others st"
  shows "out_inv (m_out st)" "length (m_nodes st) \<le> 8"
    and "k < length (m_nodes st) \<Longrightarrow> node_ok (m_out st) (m_nodes st ! k)"
    and "holds st j i \<Longrightarrow> holds st k i \<Longrightarrow> j = k"
    and "slot_in_use i (m_out st) \<longleftrightarrow> i \<in> others \<or> (\<exists>k. holds st k i)"
    and "holds st k i \<Longrightarrow> i \<notin> others"
    and "length (g_ts_mtu st) = 4 \<and> length (g_rtp_mtu st) = 4 \<and> length (g_rtpts_mtu st) = 4"
  using assms unfolding mult_inv_def by blast+

lemma find_node_bound: "multicast_list_find_node c st = Some k \<Longrightarrow> k < length (m_nodes st)"
  by (auto simp: multicast_list_find_node_def find_upt_Some)

text \<open>What a change of the table of receivers on behalf of one node is: the old receiver goes, the new one comes.\<close>

definition swapped :: "nat option \<Rightarrow> nat option \<Rightarrow> stream_out \<Rightarrow> stream_out \<Rightarrow> bool" where
  "swapped old new out out' \<longleftrightarrow> out_inv out'
     \<and> (\<forall>j. slot_in_use j out' \<longleftrightarrow> slot_in_use j out \<and> old \<noteq> Some j \<or> new = Some j)
     \<and> (\<forall>j. slot_in_use j out \<and> old \<noteq> Some j \<longrightarrow> new \<noteq> Some j \<and> g_stream_client out' ! j = g_stream_client out ! j)"

lemma swapped_same: "out_inv out \<Longrightarrow> \<forall>i. old = Some i \<longrightarrow> slot_in_use i out \<Longrightarrow> swapped None None out out"
  by (auto simp: swapped_def)

lemma swapped_keep: "swapped None None out out' \<longleftrightarrow> swapped None None out out' \<and> out_inv out'"
  by (auto simp: swapped_def)

lemma close_swapped:
  assumes "out_inv out" "\<forall>i. old = Some i \<longrightarrow> slot_in_use i out"
  shows "\<exists>r out'. stream_client_close old out = Some (r, out') \<and> swapped old None out out' \<and> (old = None \<longrightarrow> out' = out)"
proof (cases old)
  case None
  then show ?thesis using assms(1) by (auto simp: stream_client_close_def swapped_def)
next
  case (Some i)
  then show ?thesis
    using stream_client_close_inv [OF assms(1), of i] assms(2) by (fastforce simp: swapped_def)
qed

lemma open_swapped:
  assumes "out_inv out" "stream_client_get_free out = Some i" "0 \<le> ch" "ch < 4" "0 \<le> vs e" "0 \<le> as e"
  shows "\<exists>out'. stream_client_open e v a ty (Some i) ch out = Some (0, out') \<and> swapped None (Some i) out out'
    \<and> serves ty ch (g_stream_client out' ! i) \<and> slot_in_use i out'"
proof -
  have "\<not> slot_in_use i out" using receivers.free_slot [OF assms(1,2)] .
  moreover obtain r out' where "stream_client_open e v a ty (Some i) ch out = Some (r, out')" "out_inv out'"
    "\<forall>j. slot_in_use j out' \<longleftrightarrow> (if r = 0 then j = i \<or> slot_in_use j out else slot_in_use j out)"
    "\<forall>j. j \<noteq> i \<longrightarrow> g_stream_client out' ! j = g_stream_client out ! j"
    "r = 0 \<longrightarrow> serves ty ch (g_stream_client out' ! i)" "r = 0"
    using stream_client_open_inv [OF assms(1-3), of e v a ty] assms(4-6) by (metis (no_types))
  ultimately show ?thesis by (auto simp: swapped_def)
qed

lemma swapped_trans: "swapped old None out out' \<Longrightarrow> swapped None new out' out'' \<Longrightarrow> swapped old new out out''"
  unfolding swapped_def by metis

lemma check_config_keeps [simp]:
  "sc_channel (multicast_check_config c) = sc_channel c" "sc_type (multicast_check_config c) = sc_type c"
  "sc_status (multicast_check_config c) = sc_status c"
  "0 \<le> sc_mtu (multicast_check_config c)" "sc_mtu (multicast_check_config c) \<le> 1500"
  by (simp_all add: multicast_check_config_def Let_def)

lemma node_config_swaps:
  assumes inv: "out_inv out" and old: "\<forall>i. n_client node = Some i \<longrightarrow> slot_in_use i out"
    and ch: "0 \<le> sc_channel c" "sc_channel c < 4" and e: "0 \<le> vs e" "0 \<le> as e"
  shows "\<exists>r c' node' out'. multicast_node_config pton e c node out = Some (r, c', node', out')
    \<and> n_config node' = multicast_check_config c
    \<and> (if sc_status c = S_ACTIVE
       then swapped (n_client node) (n_client node') out out' \<and> (r \<noteq> 0 \<longrightarrow> n_client node' = None)
         \<and> (\<forall>i. n_client node' = Some i \<longrightarrow> serves (sc_type c) (sc_channel c) (g_stream_client out' ! i))
       else n_client node' = n_client node \<and> out' = out \<and> r = 0)"
proof (cases "sc_status c = S_ACTIVE")
  case False
  then show ?thesis by (simp add: multicast_node_config_def Let_def)
next
  case act: True
  obtain r out1 where o1: "stream_client_close (n_client node) out = Some (r, out1)"
    "swapped (n_client node) None out out1" "n_client node = None \<longrightarrow> out1 = out"
    using close_swapped [OF inv old] by metis
  have inv1: "out_inv out1" using o1(2) by (simp add: swapped_def)
  define c1 where "c1 = (if sc_type c = TYPE_TS \<or> sc_type c = TYPE_TS_OVER_RTP then c\<lparr>audio_port := video_port c\<rparr> else c)"
  define v where "v = server_addr pton (main_ip c1) (video_port c)"
  define a where "a = (if audio_port c1 \<noteq> 0 then server_addr pton (main_ip c1) (audio_port c1) else zero_addr)"
  define n where "n = node\<lparr>n_config := multicast_check_config c, n_client := None\<rparr>"
  have c1: "sc_type c1 = sc_type c" by (simp add: c1_def)
  have eq: "multicast_node_config pton e c node out = (case stream_client_get_free out1 of None \<Rightarrow> Some (- 1, c1, n, out1)
      | Some i \<Rightarrow> do {(_, out) \<leftarrow> stream_client_open e v a (sc_type c1) (Some i) (sc_channel c) out1;
                     Some (0, c1, n\<lparr>n_client := Some i, s_used := ISUSED\<rparr>, out)})"
  proof (cases "n_client node")
    case None
    then have "out1 = out" using o1(3) by simp
    then show ?thesis using act None
      by (simp add: multicast_node_config_def Let_def c1_def v_def a_def n_def split: option.split)
  next
    case (Some j)
    then show ?thesis using act o1(1)
      by (simp add: multicast_node_config_def Let_def c1_def v_def a_def n_def split: option.split)
  qed
  show ?thesis
  proof (cases "stream_client_get_free out1")
    case None
    then show ?thesis using act o1(2) by (simp add: eq n_def)
  next
    case (Some i)
    obtain out' where out': "stream_client_open e v a (sc_type c1) (Some i) (sc_channel c) out1 = Some (0, out')"
      "swapped None (Some i) out1 out'" "serves (sc_type c1) (sc_channel c) (g_stream_client out' ! i)"
      using open_swapped [OF inv1 Some ch e] by metis
    then have "multicast_node_config pton e c node out = Some (0, c1, n\<lparr>n_client := Some i, s_used := ISUSED\<rparr>, out')"
      using Some by (simp add: eq)
    then show ?thesis using act swapped_trans [OF o1(2) out'(2)] out'(3) by (simp add: n_def c1)
  qed
qed

lemma swapped_node_ok:
  assumes "node_ok out n" "swapped old new out out'" "\<forall>i. n_client n = Some i \<longrightarrow> old \<noteq> Some i"
  shows "node_ok out' n"
  using assms unfolding node_ok_def swapped_def by metis

text \<open>Node \<open>k\<close> is replaced.\<close>

lemma set_node_inv:
  assumes inv: "mult_inv others st" and k: "k < length (m_nodes st)"
    and sw: "swapped (n_client (m_nodes st ! k)) (n_client n) (m_out st) out'"
    and ok: "node_ok out' n"
  shows "mult_inv others (set_node k n (st\<lparr>m_out := out'\<rparr>))"
proof -
  let ?st = "set_node k n (st\<lparr>m_out := out'\<rparr>)"
  note D = mult_invD [OF inv]
  have len: "length (m_nodes ?st) = length (m_nodes st)" by (simp add: set_node_def)
  have h: "holds ?st j i \<longleftrightarrow> (if j = k then n_client n = Some i else holds st j i)" for j i
    using k by (auto simp: holds_def set_node_def nth_list_update)
  have hk: "holds st k i \<longleftrightarrow> n_client (m_nodes st ! k) = Some i" for i using k by (simp add: holds_def)
  have used: "slot_in_use i (m_out st)" if "holds st j i" for j i using D(5) that by blast
  have fresh: "n_client n \<noteq> Some i" if "slot_in_use i (m_out st)" "\<not> holds st k i" for i
    using sw that hk unfolding swapped_def by blast
  have nodes: "node_ok out' (m_nodes ?st ! j)" if "j < length (m_nodes st)" for j
  proof (cases "j = k")
    case True
    then show ?thesis using ok k by (simp add: set_node_def)
  next
    case False
    have "node_ok out' (m_nodes st ! j)"
    proof (rule swapped_node_ok [OF D(3) [OF that] sw], intro allI impI)
      fix i assume "n_client (m_nodes st ! j) = Some i"
      then have "holds st j i" using that by (simp add: holds_def)
      with False D(4) hk show "n_client (m_nodes st ! k) \<noteq> Some i" by blast
    qed
    then show ?thesis using False by (simp add: set_node_def)
  qed
  have uniq: "i = j" if "holds ?st i x" "holds ?st j x" for i j x
    using that D(4) fresh used unfolding h by (metis (full_types))
  have use: "slot_in_use i out' \<longleftrightarrow> i \<in> others \<or> (\<exists>j. holds ?st j i)" for i
  proof -
    have "slot_in_use i out' \<longleftrightarrow> (i \<in> others \<or> (\<exists>j. holds st j i)) \<and> \<not> holds st k i \<or> n_client n = Some i"
      using sw D(5) hk unfolding swapped_def by blast
    also have "\<dots> \<longleftrightarrow> i \<in> others \<or> (\<exists>j. holds ?st j i)"
      using D(4,6) unfolding h by (metis (full_types))
    finally show ?thesis .
  qed
  have oth: "i \<notin> others" if "holds ?st j i" for i j
    using that D(4-6) fresh unfolding h by (metis (full_types))
  show ?thesis
    unfolding mult_inv_def
    using D(2,7) nodes uniq use oth sw len by (auto simp: swapped_def set_node_def)
qed

lemma swapped_refl: "out_inv out \<Longrightarrow> \<forall>i. c = Some i \<longrightarrow> slot_in_use i out \<Longrightarrow> swapped c c out out"
  by (auto simp: swapped_def)

lemma mult_inv_cong:
  "m_nodes st' = m_nodes st \<Longrightarrow> m_out st' = m_out st \<Longrightarrow> length (g_ts_mtu st') = length (g_ts_mtu st) \<Longrightarrow>
    length (g_rtp_mtu st') = length (g_rtp_mtu st) \<Longrightarrow> length (g_rtpts_mtu st') = length (g_rtpts_mtu st) \<Longrightarrow>
    mult_inv others st' = mult_inv others st"
  by (simp add: mult_inv_def holds_def)

lemma add_node_inv:
  assumes inv: "mult_inv others st" and len: "length (m_nodes st) < 8"
    and sw: "swapped None (n_client n) (m_out st) out'" and ok: "node_ok out' n"
  shows "mult_inv others (multicast_list_add_node n (st\<lparr>m_out := out'\<rparr>))"
proof -
  let ?st = "multicast_list_add_node n (st\<lparr>m_out := out'\<rparr>)" and ?k = "length (m_nodes st)"
  note D = mult_invD [OF inv]
  have h: "holds ?st j i \<longleftrightarrow> holds st j i \<or> j = ?k \<and> n_client n = Some i" for j i
    by (auto simp: holds_def multicast_list_add_node_def nth_append less_Suc_eq)
  have fresh: "n_client n \<noteq> Some i" if "slot_in_use i (m_out st)" for i using sw that by (simp add: swapped_def)
  have hk: "\<not> holds st ?k i" for i by (simp add: holds_def)
  have nodes: "node_ok out' (m_nodes ?st ! j)" if "j < length (m_nodes ?st)" for j
    using that ok swapped_node_ok [OF D(3) sw]
    by (auto simp: multicast_list_add_node_def nth_append less_Suc_eq)
  have uniq: "i = j" if "holds ?st i x" "holds ?st j x" for i j x
    using that D(4,5) fresh unfolding h by (metis (full_types))
  have use: "slot_in_use i out' \<longleftrightarrow> i \<in> others \<or> (\<exists>j. holds ?st j i)" for i
  proof -
    have "slot_in_use i out' \<longleftrightarrow> slot_in_use i (m_out st) \<or> n_client n = Some i" using sw by (auto simp: swapped_def)
    then show ?thesis using D(5) unfolding h by auto
  qed
  have oth: "i \<notin> others" if "holds ?st j i" for i j
    using that D(5,6) fresh unfolding h by (metis (full_types))
  show ?thesis
    unfolding mult_inv_def
    using len D(7) nodes uniq use oth sw by (auto simp: swapped_def multicast_list_add_node_def)
qed

lemma drop_node_inv:
  assumes inv: "mult_inv others st" and k: "k < length (m_nodes st)" "n_client (m_nodes st ! k) = None"
  shows "mult_inv others (st\<lparr>m_nodes := take k (m_nodes st) @ drop (Suc k) (m_nodes st), m_num := x\<rparr>)"
proof -
  let ?st = "st\<lparr>m_nodes := take k (m_nodes st) @ drop (Suc k) (m_nodes st), m_num := x\<rparr>"
  let ?o = "\<lambda>j. if j < k then j else Suc j"
  note D = mult_invD [OF inv]
  have len: "length (m_nodes ?st) = length (m_nodes st) - 1" using k by simp
  have nth: "m_nodes ?st ! j = m_nodes st ! ?o j" if "j < length (m_nodes ?st)" for j
    using that k by (auto simp: nth_append min_def)
  have h: "holds ?st j i \<longleftrightarrow> holds st (?o j) i" for j i
    using nth [of j] len k unfolding holds_def by auto
  have inj: "?o i = ?o j \<Longrightarrow> i = j" for i j by (auto split: if_splits)
  have hits: "\<exists>l. ?o l = j" if "holds st j i" for j i
  proof -
    have "j \<noteq> k" using that k(2) by (auto simp: holds_def)
    then show ?thesis by (intro exI [of _ "if j < k then j else j - 1"]) auto
  qed
  have ex: "(\<exists>j. holds ?st j i) \<longleftrightarrow> (\<exists>j. holds st j i)" for i using hits unfolding h by metis
  have nodes: "node_ok (m_out st) (m_nodes ?st ! j)" if "j < length (m_nodes ?st)" for j
    unfolding nth [OF that] using that len k by (intro D(3)) auto
  have uniq: "i = j" if "holds ?st i y" "holds ?st j y" for i j y
    using that D(4) inj unfolding h by blast
  have use: "slot_in_use i (m_out st) \<longleftrightarrow> i \<in> others \<or> (\<exists>j. holds ?st j i)" for i using D(5) ex by blast
  have oth: "i \<notin> others" if "holds ?st j i" for i j using D(6) that unfolding h by blast
  show ?thesis
    unfolding mult_inv_def using D(1,2,7) len nodes uniq use oth by auto
qed

lemma mtu_walk_total:
  assumes "\<forall>n\<in>set ns. 0 \<le> sc_channel (n_config n) \<and> sc_channel (n_config n) < 4" "length t = 4"
  shows "\<exists>t'. mtu_walk ty ns t = Some t' \<and> length t' = 4 \<and> (\<forall>ch<4. t' ! ch = Min (insert (t ! ch)
    {sc_mtu (n_config n) | n. n \<in> set ns \<and> s_used n = ISUSED \<and> sc_type (n_config n) = ty
       \<and> sc_status (n_config n) = S_ACTIVE \<and> sc_channel (n_config n) = int ch}))"
  using assms
proof (induction ns arbitrary: t)
  case Nil
  then show ?case by simp
next
  case (Cons n ns)
  define act where "act n \<longleftrightarrow> s_used n = ISUSED \<and> sc_type (n_config n) = ty \<and> sc_status (n_config n) = S_ACTIVE" for n :: mult_node
  define M where "M ns ch = {sc_mtu (n_config n) | n. n \<in> set ns \<and> act n \<and> sc_channel (n_config n) = int ch}" for ns ch
  have fin: "finite (M ns ch)" for ns ch unfolding M_def by (rule finite_subset [of _ "(sc_mtu \<circ> n_config) ` set ns"]) auto
  define c where "c = sc_channel (n_config n)"
  have c: "0 \<le> c" "c < 4" using Cons.prems(1) by (auto simp: c_def)
  define t1 where "t1 = (if act n \<and> sc_mtu (n_config n) < t ! nat c then t[nat c := sc_mtu (n_config n)] else t)"
  have len: "length t1 = 4" using Cons.prems(2) by (simp add: t1_def)
  have walk: "mtu_walk ty (n # ns) t = mtu_walk ty ns t1"
    using c Cons.prems(2) by (auto simp: t1_def act_def c_def peek_def poke_def)
  obtain t' where t': "mtu_walk ty ns t1 = Some t'" "length t' = 4" "\<forall>ch<4. t' ! ch = Min (insert (t1 ! ch) (M ns ch))"
    using Cons.IH [of t1] Cons.prems(1) len by (auto simp: M_def act_def)
  have "t' ! ch = Min (insert (t ! ch) (M (n # ns) ch))" if ch: "ch < 4" for ch
  proof (cases "act n \<and> c = int ch")
    case True
    then have "M (n # ns) ch = insert (sc_mtu (n_config n)) (M ns ch)" by (auto simp: M_def c_def)
    moreover have "t1 ! ch = min (t ! ch) (sc_mtu (n_config n))"
      using True ch Cons.prems(2) by (auto simp: t1_def)
    ultimately show ?thesis using t'(3) ch fin [of ns ch]
      by (cases "M ns ch = {}") (auto simp: min.assoc)
  next
    case False
    then have "M (n # ns) ch = M ns ch" by (auto simp: M_def c_def)
    moreover have "t1 ! ch = t ! ch" using False c ch Cons.prems(2) by (auto simp: t1_def nth_list_update)
    ultimately show ?thesis using t'(3) ch by simp
  qed
  then show ?case using t'(1,2) walk by (auto simp: M_def act_def)
qed

lemma set_mtu_keeps [simp]:
  "m_nodes (mult_set_mtu ty m ch st) = m_nodes st" "m_out (mult_set_mtu ty m ch st) = m_out st"
  "m_num (mult_set_mtu ty m ch st) = m_num st"
  "length (g_ts_mtu (mult_set_mtu ty m ch st)) = length (g_ts_mtu st)"
  "length (g_rtp_mtu (mult_set_mtu ty m ch st)) = length (g_rtp_mtu st)"
  "length (g_rtpts_mtu (mult_set_mtu ty m ch st)) = length (g_rtpts_mtu st)"
  by (simp_all add: mult_set_mtu_def)

text \<open>The packet size of transport streams of a channel is the smallest one of its active servers, at most 1450.\<close>

lemma check_list_ok:
  assumes "mult_inv others st"
  shows "\<exists>st'. app_check_list_mult_status st = Some st' \<and> m_nodes st' = m_nodes st \<and> m_out st' = m_out st
    \<and> mult_inv others st'
    \<and> (\<forall>ch<4. g_ts_mtu st' ! ch = Min (insert 1450
        {sc_mtu (n_config n) | n. n \<in> set (m_nodes st) \<and> s_used n = ISUSED \<and> sc_type (n_config n) = TYPE_TS
           \<and> sc_status (n_config n) = S_ACTIVE \<and> sc_channel (n_config n) = int ch}))"
proof -
  have ok: "\<forall>n\<in>set (m_nodes st). 0 \<le> sc_channel (n_config n) \<and> sc_channel (n_config n) < 4"
    using mult_invD(3) [OF assms] by (auto simp: in_set_conv_nth node_ok_def)
  obtain rtp rtpts where w: "mtu_walk TYPE_RTP (m_nodes st) (replicate 4 1450) = Some rtp"
    "mtu_walk TYPE_TS_OVER_RTP (m_nodes st) (replicate 4 1450) = Some rtpts"
    using mtu_walk_total [OF ok, of "replicate 4 1450"] by (metis length_replicate)
  obtain ts where ts: "mtu_walk TYPE_TS (m_nodes st) (replicate 4 1450) = Some ts" "length ts = 4"
    "\<forall>ch<4. ts ! ch = Min (insert 1450
        {sc_mtu (n_config n) | n. n \<in> set (m_nodes st) \<and> s_used n = ISUSED \<and> sc_type (n_config n) = TYPE_TS
           \<and> sc_status (n_config n) = S_ACTIVE \<and> sc_channel (n_config n) = int ch})"
    using mtu_walk_total [OF ok, of "replicate 4 1450" TYPE_TS] by auto
  define st' where "st' = fold (\<lambda>i st. mult_set_mtu TYPE_TS_OVER_RTP (rtpts ! i) i
                    (mult_set_mtu TYPE_RTP (rtp ! i) i (mult_set_mtu TYPE_TS (ts ! i) i st))) [0..<4] st"
  have "app_check_list_mult_status st = Some st'" by (simp add: app_check_list_mult_status_def w ts(1) st'_def)
  moreover have "m_nodes st' = m_nodes st" "m_out st' = m_out st" by (simp_all add: st'_def upt_rec)
  moreover have "mult_inv others st'"
    using assms by (subst mult_inv_cong [of _ st]) (simp_all add: st'_def upt_rec)
  moreover have "g_ts_mtu st' ! ch = ts ! ch" if "ch < 4" for ch
  proof -
    have l: "length (g_ts_mtu st) = 4" using mult_invD(7) [OF assms] by simp
    have "g_ts_mtu st' = (g_ts_mtu st)[0 := ts ! 0, 1 := ts ! 1, 2 := ts ! 2, 3 := ts ! 3]"
      by (simp add: st'_def upt_rec mult_set_mtu_def stream_consts numeral_eq_Suc)
    then show ?thesis using that l by (auto simp: nth_list_update less_Suc_eq numeral_eq_Suc)
  qed
  ultimately show ?thesis using ts(3) by auto
qed

lemma check_list_inv:
  assumes "mult_inv others st"
  shows "\<exists>st'. app_check_list_mult_status st = Some st' \<and> mult_inv others st'"
  using check_list_ok [OF assms] by blast

lemma find_after_add:
  assumes "multicast_list_find_node c st = None" "multicast_compare_config (n_config n) c' = 1"
    and same: "sc_type c' = sc_type c" "main_ip c' = main_ip c" "video_port c' = video_port c"
  shows "multicast_list_find_node c' (multicast_list_add_node n (st\<lparr>m_out := out\<rparr>)) = Some (length (m_nodes st))"
proof -
  have "multicast_compare_config x c' = multicast_compare_config x c" for x
    using same by (simp add: multicast_compare_config_def)
  then show ?thesis
    using assms(1,2) unfolding multicast_list_find_node_def multicast_list_add_node_def
    by (auto simp: find_upt_Some find_upt_None nth_append simp del: upt_Suc)
qed

lemma node_config_argument:
  assumes "multicast_node_config pton e c node out = Some (r, c', node', out')"
  shows "sc_type c' = sc_type c \<and> main_ip c' = main_ip c \<and> video_port c' = video_port c"
  using assms unfolding multicast_node_config_def Let_def
  by (auto split: if_splits option.splits prod.splits bind_splits)

lemma node_okI:
  assumes "n_config n = (multicast_check_config c)\<lparr>audio_port := p\<rparr>" "0 \<le> sc_channel c" "sc_channel c < 4"
    and "\<And>i. n_client n = Some i \<Longrightarrow> slot_in_use i out \<and> sc_status c = S_ACTIVE
      \<and> serves (sc_type c) (sc_channel c) (g_stream_client out ! i)"
  shows "node_ok out n"
  using assms by (auto simp: node_ok_def)

lemma swapped_new: "swapped old new out out' \<Longrightarrow> new = Some i \<Longrightarrow> slot_in_use i out'"
  by (simp add: swapped_def)

lemma compare_self:
  "sc_type c' = sc_type c \<Longrightarrow> main_ip c' = main_ip c \<Longrightarrow> video_port c' = video_port c \<Longrightarrow>
    multicast_compare_config (multicast_check_config c) c' = 1"
  by (simp add: multicast_compare_config_def multicast_check_config_def Let_def)

lemma node_create_client: "n_client multicast_node_create = None"
  by (simp add: multicast_node_create_def)

lemma add_server_inv:
  assumes inv: "mult_inv others st" and e: "env_grants e" and ch: "0 \<le> sc_channel c" "sc_channel c < 4"
  shows "\<exists>r c' st'. app_multicast_add_server pton e c st = Some (r, c', st') \<and> mult_inv others st'"
proof (cases "(sc_status c = S_DEL \<or> sc_type c = TYPE_RTSP) \<or> multicast_list_find_node c st \<noteq> None")
  case True
  then show ?thesis using inv by (auto simp: app_multicast_add_server_def)
next
  case False
  then have none: "multicast_list_find_node c st = None" by simp
  let ?st1 = "st\<lparr>m_num := int (length (m_nodes st))\<rparr>"
  have inv1: "mult_inv others ?st1" using inv by (subst mult_inv_cong) auto
  note D = mult_invD [OF inv1]
  show ?thesis
  proof (cases "8 \<le> length (m_nodes st)")
    case True
    then show ?thesis using False inv1
      by (auto simp: app_multicast_add_server_def multicast_list_inset_node_def multicast_list_check_full_def
        multicast_list_get_num_def MULTICAST_MAX_SERVER_NUM_def Let_def)
  next
    case len: False
    obtain r c' n out where nc: "multicast_node_config pton e c multicast_node_create (m_out ?st1) = Some (r, c', n, out)"
      "n_config n = multicast_check_config c"
      "if sc_status c = S_ACTIVE
       then swapped None (n_client n) (m_out ?st1) out \<and> (r \<noteq> 0 \<longrightarrow> n_client n = None)
         \<and> (\<forall>i. n_client n = Some i \<longrightarrow> serves (sc_type c) (sc_channel c) (g_stream_client out ! i))
       else n_client n = None \<and> out = m_out ?st1 \<and> r = 0"
      using node_config_swaps [OF D(1), of multicast_node_create c e pton] ch e
      unfolding env_grants_def node_create_client by (metis option.distinct(1))
    have sw: "swapped None (n_client n) (m_out ?st1) out"
      using nc(3) swapped_refl [OF D(1), of None] by (auto split: if_splits)
    have ok: "node_ok out n"
      using nc(2,3) ch swapped_new [OF sw] by (auto simp: node_ok_def split: if_splits)
    have arg: "sc_type c' = sc_type c \<and> main_ip c' = main_ip c \<and> video_port c' = video_port c"
      using node_config_argument [OF nc(1)] .
    have inset: "multicast_list_inset_node pton e c st = (if r = - 1 then do {
            out \<leftarrow> multicast_node_delete n out;
            Some (- 1, c', ?st1\<lparr>m_out := out\<rparr>)}
          else Some (0, c', multicast_list_add_node n (?st1\<lparr>m_out := out\<rparr>)))"
      using len nc(1) by (simp add: multicast_list_inset_node_def multicast_list_check_full_def
        multicast_list_get_num_def MULTICAST_MAX_SERVER_NUM_def Let_def)
    show ?thesis
    proof (cases "r = - 1")
      case True
      then have "n_client n = None" using nc(3) by (auto split: if_splits)
      moreover have "mult_inv others (?st1\<lparr>m_out := out\<rparr>)"
      proof -
        have "out_inv out \<and> (\<forall>j. slot_in_use j out = slot_in_use j (m_out ?st1))
          \<and> (\<forall>j. slot_in_use j (m_out ?st1) \<longrightarrow> g_stream_client out ! j = g_stream_client (m_out ?st1) ! j)"
          using sw calculation by (auto simp: swapped_def)
        moreover have "node_ok out (m_nodes st ! k)" if "k < length (m_nodes st)" for k
          using D(3) [of k] that calculation by (auto simp: node_ok_def)
        ultimately show ?thesis using inv1 by (simp add: mult_inv_def holds_def)
      qed
      ultimately show ?thesis using False True inset
        by (simp add: app_multicast_add_server_def multicast_node_delete_def stream_client_close_def)
    next
      case ok_r: False
      let ?st2 = "multicast_list_add_node n (?st1\<lparr>m_out := out\<rparr>)" and ?k = "length (m_nodes st)"
      have inv2: "mult_inv others ?st2" using add_node_inv [OF inv1 _ sw ok] len by simp
      have k: "multicast_list_find_node c' ?st2 = Some ?k"
      proof -
        have "multicast_list_find_node c ?st1 = None" using none by (simp add: multicast_list_find_node_def)
        moreover have "multicast_compare_config (n_config n) c' = 1"
          using arg unfolding nc(2) by (intro compare_self) auto
        ultimately show ?thesis using find_after_add [of c ?st1 n c' out] arg by simp
      qed
      have nth: "m_nodes ?st2 ! ?k = n" "?k < length (m_nodes ?st2)" "m_out ?st2 = out"
        by (simp_all add: multicast_list_add_node_def)
      let ?n = "n\<lparr>n_config := (n_config n)\<lparr>sc_status := S_ACTIVE\<rparr>\<rparr>"
      have "mult_inv others (set_node ?k ?n (?st2\<lparr>m_out := out\<rparr>))"
      proof (rule set_node_inv [OF inv2 nth(2)])
        show "swapped (n_client (m_nodes ?st2 ! ?k)) (n_client ?n) (m_out ?st2) out"
          using swapped_refl [of out "n_client n"] sw ok unfolding nth by (simp add: node_ok_def swapped_def)
        show "node_ok out ?n" using ok by (simp add: node_ok_def)
      qed
      moreover have "?st2\<lparr>m_out := out\<rparr> = ?st2" by (simp add: multicast_list_add_node_def)
      ultimately obtain st' where "app_check_list_mult_status (set_node ?k ?n ?st2) = Some st'" "mult_inv others st'"
        using check_list_inv by metis
      then show ?thesis using False ok_r inset k nth(1) by (simp add: app_multicast_add_server_def Let_def)
    qed
  qed
qed

lemma stop_server_inv:
  assumes inv: "mult_inv others st"
  shows "\<exists>r st'. app_multicast_stop_server c st = Some (r, st') \<and> mult_inv others st'"
proof (cases "multicast_list_find_node c st")
  case None
  then show ?thesis using inv by (simp add: app_multicast_stop_server_def)
next
  case (Some k)
  note k = find_node_bound [OF Some]
  let ?n = "m_nodes st ! k"
  note ok = mult_invD(3) [OF inv k]
  show ?thesis
  proof (cases "sc_status c = sc_status (n_config ?n)")
    case True
    then show ?thesis using Some inv by (simp add: app_multicast_stop_server_def Let_def)
  next
    case False
    obtain r out where out: "stream_client_close (n_client ?n) (m_out st) = Some (r, out)"
      "swapped (n_client ?n) None (m_out st) out"
      using close_swapped [OF mult_invD(1) [OF inv], of "n_client ?n"] ok by (auto simp: node_ok_def)
    let ?n' = "?n\<lparr>n_client := None, n_config := (n_config ?n)\<lparr>sc_status := S_STOP\<rparr>\<rparr>"
    have "mult_inv others (set_node k ?n' (st\<lparr>m_out := out\<rparr>))"
      using out(2) ok by (intro set_node_inv [OF inv k]) (auto simp: node_ok_def)
    then obtain st' where "app_check_list_mult_status (set_node k ?n' (st\<lparr>m_out := out\<rparr>)) = Some st'"
      "mult_inv others st'" using check_list_inv by blast
    then show ?thesis using Some False out(1) by (simp add: app_multicast_stop_server_def Let_def)
  qed
qed

text \<open>A node is configured anew with \<open>c\<close>, as restarting and changing a server do.\<close>

lemma reconfigure_inv:
  assumes inv: "mult_inv others st" and k: "k < length (m_nodes st)" and e: "env_grants e"
    and ch: "0 \<le> sc_channel c" "sc_channel c < 4"
    and cl: "n_client node = n_client (m_nodes st ! k)"
    and idle: "sc_status c \<noteq> S_ACTIVE \<Longrightarrow> n_client node = None"
  shows "\<exists>r c' n out. multicast_node_config pton e c node (m_out st) = Some (r, c', n, out)
    \<and> mult_inv others (set_node k n (st\<lparr>m_out := out\<rparr>))
    \<and> mult_inv others (set_node k (n\<lparr>n_config := (n_config n)\<lparr>audio_port := p c'\<rparr>\<rparr>) (st\<lparr>m_out := out\<rparr>))"
proof -
  note D = mult_invD [OF inv] and ok = mult_invD(3) [OF inv k]
  have used: "\<forall>i. n_client node = Some i \<longrightarrow> slot_in_use i (m_out st)" using ok cl by (auto simp: node_ok_def)
  obtain r c' n out where nc: "multicast_node_config pton e c node (m_out st) = Some (r, c', n, out)"
    "n_config n = multicast_check_config c"
    "if sc_status c = S_ACTIVE
     then swapped (n_client node) (n_client n) (m_out st) out \<and> (r \<noteq> 0 \<longrightarrow> n_client n = None)
       \<and> (\<forall>i. n_client n = Some i \<longrightarrow> serves (sc_type c) (sc_channel c) (g_stream_client out ! i))
     else n_client n = n_client node \<and> out = m_out st \<and> r = 0"
    using node_config_swaps [OF D(1) used ch] e unfolding env_grants_def by metis
  have sw: "swapped (n_client (m_nodes st ! k)) (n_client n) (m_out st) out"
    using nc(3) swapped_refl [OF D(1), of None] idle cl by (auto split: if_splits)
  have ok': "node_ok out n"
    using nc(2,3) ch swapped_new [OF sw] idle by (auto simp: node_ok_def split: if_splits)
  have "node_ok out (n\<lparr>n_config := (n_config n)\<lparr>audio_port := p c'\<rparr>\<rparr>)" using ok' by (simp add: node_ok_def)
  then show ?thesis using nc(1) set_node_inv [OF inv k] sw ok' by simp
qed

lemma restart_server_inv:
  assumes inv: "mult_inv others st" and e: "env_grants e" and act: "sc_status c = S_ACTIVE"
  shows "\<exists>r st'. app_multicast_restart_server pton e c st = Some (r, st') \<and> mult_inv others st'"
proof (cases "multicast_list_find_node c st")
  case None
  then show ?thesis using inv by (simp add: app_multicast_restart_server_def)
next
  case (Some k)
  note k = find_node_bound [OF Some]
  let ?n = "m_nodes st ! k"
  note ok = mult_invD(3) [OF inv k]
  show ?thesis
  proof (cases "sc_status (n_config ?n) = sc_status c")
    case True
    then show ?thesis using Some inv by (simp add: app_multicast_restart_server_def Let_def)
  next
    case False
    let ?n1 = "?n\<lparr>n_config := (n_config ?n)\<lparr>sc_status := sc_status c\<rparr>\<rparr>"
    obtain r c' n out where nc: "multicast_node_config pton e (n_config ?n1) ?n1 (m_out st) = Some (r, c', n, out)"
      "mult_inv others (set_node k (n\<lparr>n_config := (n_config n)\<lparr>audio_port := audio_port c'\<rparr>\<rparr>) (st\<lparr>m_out := out\<rparr>))"
      using reconfigure_inv [OF inv k e, of "n_config ?n1" ?n1 pton audio_port] ok act by (auto simp: node_ok_def)
    let ?st = "set_node k (n\<lparr>n_config := (n_config n)\<lparr>audio_port := audio_port c'\<rparr>\<rparr>) (st\<lparr>m_out := out\<rparr>)"
    obtain st' where "app_check_list_mult_status ?st = Some st'" "mult_inv others st'"
      using check_list_inv [OF nc(2)] by blast
    then show ?thesis using Some False nc by (simp add: app_multicast_restart_server_def Let_def)
  qed
qed

lemma set_config_inv:
  assumes inv: "mult_inv others st" and e: "env_grants e" and ch: "0 \<le> sc_channel c" "sc_channel c < 4"
  shows "\<exists>r c' st'. app_multicast_set_config pton e c st = Some (r, c', st') \<and> mult_inv others st'"
proof (cases "multicast_list_find_node c st")
  case None
  then show ?thesis using inv by (simp add: app_multicast_set_config_def)
next
  case (Some k)
  note k = find_node_bound [OF Some]
  let ?n = "m_nodes st ! k" and ?c = "c\<lparr>sc_status := sc_status (n_config (m_nodes st ! k))\<rparr>"
  note ok = mult_invD(3) [OF inv k]
  show ?thesis
  proof (cases "app_config_is_same (n_config ?n) ?c = 0")
    case True
    then show ?thesis using Some inv by (simp add: app_multicast_set_config_def Let_def)
  next
    case False
    have idle: "sc_status ?c \<noteq> S_ACTIVE \<Longrightarrow> n_client ?n = None" using ok by (auto simp: node_ok_def)
    obtain r c' n out where nc: "multicast_node_config pton e ?c ?n (m_out st) = Some (r, c', n, out)"
      "mult_inv others (set_node k n (st\<lparr>m_out := out\<rparr>))"
      using reconfigure_inv [OF inv k e, of ?c ?n pton audio_port] ch idle by auto
    obtain st' where "app_check_list_mult_status (set_node k n (st\<lparr>m_out := out\<rparr>)) = Some st'" "mult_inv others st'"
      using check_list_inv [OF nc(2)] by blast
    then show ?thesis using Some False nc by (simp add: app_multicast_set_config_def Let_def)
  qed
qed

lemma set_status_inv:
  assumes inv: "mult_inv others st" and e: "env_grants e"
  shows "\<exists>r st'. app_multicast_set_status pton e c st = Some (r, st') \<and> mult_inv others st'"
proof -
  obtain r st1 where 1: "(if sc_status c = S_ACTIVE then app_multicast_restart_server pton e c st
               else if sc_status c = S_STOP then app_multicast_stop_server c st
               else Some (0, st)) = Some (r, st1)" "mult_inv others st1"
    using restart_server_inv [OF inv e, of c pton] stop_server_inv [OF inv, of c] inv by (metis (no_types))
  obtain st' where "app_check_list_mult_status st1 = Some st'" "mult_inv others st'"
    using check_list_inv [OF 1(2)] by blast
  then show ?thesis by (simp add: app_multicast_set_status_def 1(1))
qed

lemma delete_idle_inv:
  assumes inv: "mult_inv others st" and found: "multicast_list_find_node c st = Some k"
    and idle: "n_client (m_nodes st ! k) = None"
  shows "\<exists>st'. app_multicast_delete_server c st = Some (0, st') \<and> mult_inv others st'
    \<and> m_nodes st' = take k (m_nodes st) @ drop (Suc k) (m_nodes st)"
proof -
  let ?st = "st\<lparr>m_nodes := take k (m_nodes st) @ drop (Suc k) (m_nodes st), m_num := m_num st - 1\<rparr>"
  have del: "multicast_list_delete_node k st = Some (0, ?st)"
    using idle by (simp add: multicast_list_delete_node_def multicast_node_delete_def stream_client_close_def Let_def)
  have "mult_inv others ?st" using drop_node_inv [OF inv find_node_bound [OF found] idle] .
  then obtain st' where "app_check_list_mult_status ?st = Some st'" "mult_inv others st'" "m_nodes st' = m_nodes ?st"
    using check_list_ok by blast
  then show ?thesis using found del by (simp add: app_multicast_delete_server_def)
qed

lemma mult_step_inv:
  assumes "mult_inv others st" "legal_op op st"
  shows "\<exists>st'. mult_step pton op st = Some st' \<and> mult_inv others st'"
proof (cases op)
  case (AddServer e c)
  then show ?thesis using add_server_inv [OF assms(1), of e c pton] assms(2) by auto
next
  case (DeleteServer c)
  then show ?thesis using delete_idle_inv [OF assms(1), of c] assms
    by (cases "multicast_list_find_node c st") (auto simp: app_multicast_delete_server_def)
next
  case (SetConfig e c)
  then show ?thesis using set_config_inv [OF assms(1), of e c pton] assms(2) by auto
next
  case (SetStatus e c)
  then show ?thesis using set_status_inv [OF assms(1), of e pton c] assms(2) by auto
qed

lemma mult_start_inv: "mult_inv {} mult_start"
  using start_holds by (simp add: mult_inv_def mult_start_def holds_def receivers.holds_all_def)

subsection \<open>Properties\<close>

text \<open>C22: Whatever the web interface asks for, in any order, as long as channels exist, the kernel grants sockets and
  servers are stopped before they are deleted: no call leaves a table, and the list keeps at most eight servers, each
  receiver in use that does not belong to others belongs to exactly one server, which is active and is sent in its own
  format and channel.\<close>

theorem mult_servers_consistent:
  assumes "mult_inv others st" "legal_run pton ops st"
  shows "\<exists>st'. mult_run pton ops st = Some st' \<and> mult_inv others st'"
  using assms
proof (induction ops arbitrary: st)
  case Nil
  then show ?case by simp
next
  case (Cons op ops)
  obtain st1 where st1: "mult_step pton op st = Some st1" "mult_inv others st1"
    using mult_step_inv [OF Cons.prems(1), of op pton] Cons.prems(2) by auto
  then show ?case using Cons.IH [OF st1(2)] Cons.prems(2) by simp
qed

lemma close_twice:
  assumes inv: "out_inv out" and i: "slot_in_use i out" and ty: "ctype (g_stream_client out ! i) \<in> counted_types"
  shows "do {(_, o1) \<leftarrow> stream_client_close (Some i) out; stream_client_close (Some i) o1} = None"
proof -
  let ?c = "g_stream_client out ! i"
  have len: "i < length (g_stream_client out)" using i by (simp add: slot_in_use_def)
  obtain o1 where o1: "mult_set_active (ctype ?c) (- 1) (stream_channel ?c) out = Some o1"
    "stream_client_close (Some i) out = Some (0, put_client i
                     (?c\<lparr>c_used := NOTUSED, usenum := 0, width := 0, height := 0, samplerate := 0,
                        media_status := 0, video_send := 0, stream_channel := - 1\<rparr>) o1)"
    using stream_client_close_inv [OF inv i] len
    by (auto simp: stream_client_close_def client_at_def split: bind_splits)
  have "g_stream_client o1 = g_stream_client out"
    using o1(1) by (auto simp: mult_set_active_def split: if_splits bind_splits)
  then show ?thesis
    using o1(2) len ty mult_set_active_outside
    by (simp add: stream_client_close_def client_at_def)
qed

text \<open>Deleting a server that has a receiver closes this receiver twice; the second time its channel is -1 and the
  counter in front of the table is counted down.  Deleting a stopped server removes it from the list and nothing else.\<close>

theorem mult_delete_closes_twice:
  assumes "mult_inv others st" "multicast_list_find_node c st = Some k" "sc_type c \<in> counted_types"
  shows "if n_client (m_nodes st ! k) \<noteq> None then app_multicast_delete_server c st = None
    else \<exists>st'. app_multicast_delete_server c st = Some (0, st') \<and> mult_inv others st'
      \<and> m_nodes st' = take k (m_nodes st) @ drop (Suc k) (m_nodes st)"
proof (cases "n_client (m_nodes st ! k)")
  case None
  then show ?thesis using delete_idle_inv [OF assms(1,2)] by simp
next
  case (Some i)
  note ok = mult_invD(3) [OF assms(1) find_node_bound [OF assms(2)]]
  have "sc_type (n_config (m_nodes st ! k)) = sc_type c"
    using assms(2) by (auto simp: multicast_list_find_node_def find_upt_Some multicast_compare_config_def split: if_splits)
  then have i: "slot_in_use i (m_out st)" "ctype (g_stream_client (m_out st) ! i) \<in> counted_types"
    using ok Some assms(3) by (auto simp: node_ok_def serves_def)
  then have "do {(_, o1) \<leftarrow> stream_client_close (Some i) (m_out st); stream_client_close (Some i) o1} = None"
    using close_twice [OF mult_invD(1) [OF assms(1)]] by blast
  then have "multicast_list_delete_node k st = None"
    using Some by (auto simp: multicast_list_delete_node_def multicast_node_delete_def Let_def split: bind_splits)
  then show ?thesis using Some assms(2) by (simp add: app_multicast_delete_server_def)
qed

text \<open>C23: An active transport-stream server with a packet size below 188, which the checks let pass, makes the sending
  of every transport-stream data of its channel loop for ever.\<close>

theorem small_mtu_stops_sender:
  assumes "mult_inv others st" "n \<in> set (m_nodes st)" "s_used n = ISUSED" "sc_status (n_config n) = S_ACTIVE"
    and "sc_type (n_config n) = TYPE_TS" "sc_mtu (n_config n) < 188" "buff \<noteq> []"
  shows "\<exists>st'. app_check_list_mult_status st = Some st'
    \<and> ts_porting_senddata build ty buff b t (sc_channel (n_config n)) st' = None"
proof -
  obtain st' where st': "app_check_list_mult_status st = Some st'" "m_out st' = m_out st" "mult_inv others st'"
    "\<forall>ch<4. g_ts_mtu st' ! ch = Min (insert 1450
        {sc_mtu (n_config n) | n. n \<in> set (m_nodes st) \<and> s_used n = ISUSED \<and> sc_type (n_config n) = TYPE_TS
           \<and> sc_status (n_config n) = S_ACTIVE \<and> sc_channel (n_config n) = int ch})"
    using check_list_ok [OF assms(1)] by blast
  define ch where "ch = nat (sc_channel (n_config n))"
  have okn: "node_ok (m_out st) x" if "x \<in> set (m_nodes st)" for x
    using mult_invD(3) [OF assms(1)] that by (auto simp: in_set_conv_nth)
  have ch: "sc_channel (n_config n) = int ch" "ch < 4" using okn [OF assms(2)] by (auto simp: node_ok_def ch_def)
  define M where "M = {sc_mtu (n_config n) | n. n \<in> set (m_nodes st) \<and> s_used n = ISUSED \<and> sc_type (n_config n) = TYPE_TS
           \<and> sc_status (n_config n) = S_ACTIVE \<and> sc_channel (n_config n) = int ch}"
  have fin: "finite M" unfolding M_def by (rule finite_subset [of _ "(sc_mtu \<circ> n_config) ` set (m_nodes st)"]) auto
  have "sc_mtu (n_config n) \<in> M" using assms(2-5) ch(1) by (auto simp: M_def)
  then have "Min (insert 1450 M) < 188" using fin assms(6) by (subst Min_less_iff) auto
  moreover have "0 \<le> Min (insert 1450 M)" using fin okn by (subst Min_ge_iff) (auto simp: M_def node_ok_def)
  ultimately have m: "g_ts_mtu st' ! ch < 188" "0 \<le> g_ts_mtu st' ! ch" using st'(4) ch(2) by (auto simp: M_def)
  have len: "length (g_ts_mtu st') = 4" "length (g_rtpts_mtu st') = 4" using mult_invD(7) [OF st'(3)] by auto
  have one: "one_rtp_len (g_ts_mtu st' ! ch) = 0" using m by (intro one_rtp_len_cases) auto
  have "ts_output_send buff (g_ts_mtu st' ! ch) ty (int ch) (m_out st') = None"
    using assms(7) ts_send_loop_exit [of 0 buff 0 ty "int ch" "m_out st'"] one
    by (cases "ts_output_send buff (g_ts_mtu st' ! ch) ty (int ch) (m_out st')") (auto simp: ts_output_send_def)
  then have "ts_porting_senddata build ty buff b t (sc_channel (n_config n)) st' = None"
    using len ch by (simp add: ts_porting_senddata_def mult_get_direct_ts_mtu_def mult_get_rtp_ts_mtu_def peek_def)
  with st'(1) show ?thesis by blast
qed

subsection \<open>Witnesses\<close>

definition sample_server :: "int \<Rightarrow> int \<Rightarrow> stream_output_server_config" where
  "sample_server ty port = \<lparr>sc_num = 0, sc_type = ty, sc_status = S_ACTIVE, main_ip = [50, 51], video_port = port,
     audio_port = port + 2, sc_mtu = 100, sc_ttl = 64, sc_tos = 0, tc_flag = 0, tc_rate = 0, sc_channel = 1,
     rtsp_permissions = 0\<rparr>"

definition sample_env :: open_env where "sample_env = \<lparr>vs = 5, as = 6, mi = (0, 1, 1, 1)\<rparr>"

definition no_socket :: open_env where "no_socket = \<lparr>vs = - 1, as = - 1, mi = (0, 1, 1, 1)\<rparr>"

lemma mult_servers_consistent_witness:
  "\<exists>st'. mult_run (\<lambda>_. 0) [AddServer sample_env (sample_server 1 9000), AddServer sample_env (sample_server 2 9100)] mult_start
      = Some st' \<and> mult_inv {} st'"
  by (rule mult_servers_consistent [OF mult_start_inv])
    (simp add: sample_env_def env_grants_def sample_server_def split: option.split)

text \<open>The list after adding one transport-stream server.\<close>

definition one_server :: mult_state where
  "one_server = the (mult_run (\<lambda>_. 0) [AddServer sample_env (sample_server 1 9000)] mult_start)"

lemma one_server_inv: "mult_inv {} one_server"
proof -
  have "legal_run (\<lambda>_. 0) [AddServer sample_env (sample_server 1 9000)] mult_start"
    by (simp add: sample_env_def env_grants_def sample_server_def split: option.split)
  then obtain st where "mult_step (\<lambda>_. 0) (AddServer sample_env (sample_server 1 9000)) mult_start = Some st" "mult_inv {} st"
    using mult_step_inv [OF mult_start_inv, of "AddServer sample_env (sample_server 1 9000)" "\<lambda>_. 0"] by auto
  then show ?thesis by (auto simp: one_server_def)
qed

lemma one_server_value:
  "multicast_list_find_node (sample_server 1 9000) one_server = Some 0 \<and> n_client (m_nodes one_server ! 0) = Some 0
    \<and> map (\<lambda>n. (s_used n, sc_type (n_config n), sc_mtu (n_config n), sc_status (n_config n), sc_channel (n_config n)))
        (m_nodes one_server) = [(1, 1, 100, 1, 1)]"
  by code_simp

lemma mult_delete_closes_twice_witness:
  "app_multicast_delete_server (sample_server 1 9000) one_server = None"
  using mult_delete_closes_twice [OF one_server_inv, of "sample_server 1 9000" 0] one_server_value
  by (simp add: sample_server_def counted_types_def TYPE_TS_def)

lemma small_mtu_stops_sender_witness:
  "\<exists>st'. app_check_list_mult_status one_server = Some st'
    \<and> ts_porting_senddata (\<lambda>_ _ _ _ _ out. out) 2 [1, 2, 3] 1 0 1 st' = None"
proof -
  obtain n where n: "m_nodes one_server = [n]" "s_used n = 1" "sc_type (n_config n) = 1" "sc_mtu (n_config n) = 100"
    "sc_status (n_config n) = 1" "sc_channel (n_config n) = 1"
    using one_server_value by (cases "m_nodes one_server") auto
  then show ?thesis
    using small_mtu_stops_sender [OF one_server_inv, of n "[1, 2, 3]" "\<lambda>_ _ _ _ _ out. out" 2 1 0]
    by (simp add: ISUSED_def S_ACTIVE_def TYPE_TS_def)
qed

text \<open>
  When the kernel refuses a socket the new server keeps a pointer to a receiver that is not open; the next server is
  given the same one, and stopping the first stops the second.
\<close>

lemma refused_socket_shares_receiver:
  "map_option (\<lambda>st. map n_client (m_nodes st))
     (mult_run (\<lambda>_. 0) [AddServer no_socket (sample_server 2 9000), AddServer sample_env (sample_server 2 9100)] mult_start)
   = Some [Some 0, Some 0]"
  by code_simp

text \<open>A server added with another status than active is recorded as active without a receiver.\<close>

lemma idle_server_recorded_active:
  "map_option (\<lambda>st. map (\<lambda>n. (sc_status (n_config n), n_client n)) (m_nodes st))
     (mult_run (\<lambda>_. 0) [AddServer sample_env ((sample_server 2 9000)\<lparr>sc_status := S_STOP\<rparr>)] mult_start)
   = Some [(1, None)]"
  by code_simp

end
