(* ===== verification/RtspParse.thy ===== *)
theory RtspParse
  imports Prelude
begin

section \<open>Requests and replies of the RTSP server\<close>

text \<open>
  The text functions of \<^verbatim>\<open>room/rtsp/rtsp_server.c\<close>: they find the method, the sequence number, the transport and the
  ports in a request and build the replies.  A request is held in a zeroed array of 2800 bytes and ends at the first
  zero; \<open>len\<close> is its \<^verbatim>\<open>strlen\<close>.  An access outside an array is \<^const>\<open>None\<close>.  A reply is the text handed to \<^verbatim>\<open>send\<close>.
\<close>

definition TCP_BUFF_LEN :: nat where "TCP_BUFF_LEN = 1400"

subsection \<open>Data\<close>

definition OPTION :: int where "OPTION = 1"
definition DESCRIBE :: int where "DESCRIBE = 2"
definition SETUP :: int where "SETUP = 3"
definition PLAY :: int where "PLAY = 4"
definition PAUSE :: int where "PAUSE = 5"
definition TEARDOWN :: int where "TEARDOWN = 6"
definition ANNOUNCE :: int where "ANNOUNCE = 7"
definition GET_PARAMETER :: int where "GET_PARAMETER = 8"
definition SET_PARAMETER :: int where "SET_PARAMETER = 9"
definition MAX_OPERATE :: int where "MAX_OPERATE = 10"

lemmas method_codes = OPTION_def DESCRIBE_def SETUP_def PLAY_def PAUSE_def TEARDOWN_def ANNOUNCE_def
  GET_PARAMETER_def SET_PARAMETER_def MAX_OPERATE_def

record STR_CLIENT_MSG =
  uiCseq :: u32
  iType :: int
  aucCSeqSrc :: "byte list"
  ucCSeqSrcLen :: byte
  aucTrans :: "byte list"
  ucTransNum :: byte
  aucClientport :: "byte list list"
  ucClientportLen :: "byte list"
  timeused :: byte
  roomid :: int

text \<open>\<^verbatim>\<open>memset\<close> and the room number a session starts with.\<close>

definition new_msg :: STR_CLIENT_MSG where
  "new_msg = \<lparr>uiCseq = 0, iType = 0, aucCSeqSrc = replicate 10 0, ucCSeqSrcLen = 0, aucTrans = replicate 200 0,
     ucTransNum = 0, aucClientport = replicate 3 (replicate 20 0), ucClientportLen = replicate 3 0, timeused = 0,
     roomid = - 1\<rparr>"

subsection \<open>Reading a request\<close>

text \<open>The chains \<^verbatim>\<open>p[i] == a && p[i + 1] == b && ...\<close>, which read on only while the characters agree.\<close>

fun match_at :: "byte list \<Rightarrow> nat \<Rightarrow> byte list \<Rightarrow> bool option" where
  "match_at p i [] = Some True"
| "match_at p i (c # cs) = do {x \<leftarrow> peek p (int i); if x = c then match_at p (i + 1) cs else Some False}"

definition msg_type_at :: "byte list \<Rightarrow> nat \<Rightarrow> int option" where
  "msg_type_at p m = do {
     a \<leftarrow> match_at p m (chars ''OPTION'');
     if a then Some OPTION else do {
     a \<leftarrow> match_at p m (chars ''DESCRIBE'');
     if a then Some DESCRIBE else do {
     a \<leftarrow> match_at p m (chars ''SETUP'');
     if a then Some SETUP else do {
     a \<leftarrow> match_at p m (chars ''PLAY'');
     if a then Some PLAY else do {
     a \<leftarrow> match_at p m (chars ''PAUSE'');
     if a then Some PAUSE else do {
     a \<leftarrow> match_at p m (chars ''TEARDOWN'');
     if a then Some TEARDOWN else do {
     a \<leftarrow> match_at p m (chars ''GET_PARAMETER'');
     if a then Some GET_PARAMETER else do {
     a \<leftarrow> match_at p m (chars ''SET_PARAMETER'');
     if a then Some SET_PARAMETER else Some (- 1)}}}}}}}}"

fun msg_type_loop :: "byte list \<Rightarrow> nat \<Rightarrow> nat \<Rightarrow> int option" where
  "msg_type_loop p m 0 = Some (- 1)"
| "msg_type_loop p m (Suc k) =
     do {t \<leftarrow> msg_type_at p m; if t \<noteq> - 1 then Some t else msg_type_loop p (m + 1) k}"

definition GetMsgType :: "byte list \<Rightarrow> int \<Rightarrow> int option" where
  "GetMsgType p len = msg_type_loop p 0 (nat (len - 7))"

text \<open>
  The characters up to the end of the line; both the local digits and the copy in the message have ten places.  The
  last one, meant to be the carriage return, is left out of the number and of the length.
\<close>

function cseq_copy :: "byte list \<Rightarrow> nat \<Rightarrow> nat \<Rightarrow> byte list \<Rightarrow> byte list option" where
  "cseq_copy p pos len acc =
     (if pos < len then do {
        x \<leftarrow> peek p (int pos);
        if x \<noteq> 0x0a then (if length acc < 10 then cseq_copy p (pos + 1) len (acc @ [x]) else None)
        else Some acc}
      else Some acc)"
  by pat_completeness auto
termination by (relation "measure (\<lambda>(p, pos, len, acc). len - pos)") auto

text \<open>The sum is formed in floating point, exactly, and converted to \<^verbatim>\<open>unsigned int\<close> after every step; a value outside
  its range makes the conversion undefined.\<close>

fun cseq_sum :: "byte list \<Rightarrow> int \<Rightarrow> int option" where
  "cseq_sum [] v = Some v"
| "cseq_sum (x # xs) v =
     (let v' = v + sint (x - 0x30) * 10 ^ length xs in if 0 \<le> v' \<and> v' < 2 ^ 32 then cseq_sum xs v' else None)"

fun cseq_loop :: "byte list \<Rightarrow> nat \<Rightarrow> nat \<Rightarrow> nat \<Rightarrow> STR_CLIENT_MSG \<Rightarrow> (int \<times> STR_CLIENT_MSG) option" where
  "cseq_loop p m 0 len msg = Some (0, msg)"
| "cseq_loop p m (Suc k) len msg = do {
     a \<leftarrow> match_at p m (chars ''CSeq:'');
     if a then do {
       src \<leftarrow> cseq_copy p (m + 6) len [];
       v \<leftarrow> cseq_sum (butlast src) 0;
       Some (v, msg\<lparr>aucCSeqSrc := src @ drop (length src) (aucCSeqSrc msg),
                     ucCSeqSrcLen := of_nat (length src) - 1\<rparr>)}
     else cseq_loop p (m + 1) k len msg}"

definition GetCSeq :: "byte list \<Rightarrow> int \<Rightarrow> STR_CLIENT_MSG \<Rightarrow> (int \<times> STR_CLIENT_MSG) option" where
  "GetCSeq p len msg = cseq_loop p 0 (nat len) (nat len) msg"

definition GetVlcMsgType :: "byte list \<Rightarrow> int \<Rightarrow> STR_CLIENT_MSG \<Rightarrow> (int \<times> STR_CLIENT_MSG) option" where
  "GetVlcMsgType p len msg = do {
     t \<leftarrow> GetMsgType p len;
     let msg = msg\<lparr>iType := t\<rparr>;
     (v, msg) \<leftarrow> GetCSeq p len msg;
     let msg = msg\<lparr>uiCseq := of_int v\<rparr>;
     Some (if MAX_OPERATE \<le> iType msg \<or> 65535 < uiCseq msg then 0 else iType msg, msg)}"

text \<open>The rest of the line after \<^verbatim>\<open>Transport:\<close> and one character, at most 100 characters of it; again the last one is
  not counted.\<close>

fun trans_copy :: "byte list \<Rightarrow> nat \<Rightarrow> nat \<Rightarrow> byte list \<Rightarrow> byte list option" where
  "trans_copy p pos 0 acc = Some acc"
| "trans_copy p pos (Suc k) acc = do {
     x \<leftarrow> peek p (int pos);
     if x \<noteq> 0x0a then trans_copy p (pos + 1) k (acc @ [x]) else Some acc}"

fun setup_loop :: "byte list \<Rightarrow> nat \<Rightarrow> nat \<Rightarrow> STR_CLIENT_MSG \<Rightarrow> STR_CLIENT_MSG option" where
  "setup_loop p i 0 msg = Some (msg\<lparr>ucTransNum := 0 - 1\<rparr>)"
| "setup_loop p i (Suc k) msg = do {
     a \<leftarrow> match_at p i (chars ''Transport:'');
     if a then do {
       t \<leftarrow> trans_copy p (i + 11) 100 [];
       Some (msg\<lparr>aucTrans := t @ drop (length t) (aucTrans msg), ucTransNum := of_nat (length t) - 1\<rparr>)}
     else setup_loop p (i + 1) k msg}"

definition PraseSETUPMsg :: "byte list \<Rightarrow> int \<Rightarrow> STR_CLIENT_MSG \<Rightarrow> STR_CLIENT_MSG option" where
  "PraseSETUPMsg p len msg = setup_loop p 0 (nat len) msg"

text \<open>
  The port text: up to a semicolon, a carriage return, or one place before a line feed.  The place in the array is
  not reset when \<^verbatim>\<open>client_port=\<close> is found again.  A row has 20 places.
\<close>

function port_copy :: "byte list \<Rightarrow> nat \<Rightarrow> nat \<Rightarrow> byte list \<Rightarrow> (nat \<times> byte list) option" where
  "port_copy p pos i row =
     (if pos + i < length p then
        let x = p ! (pos + i) in
        if x = 0x3b \<or> x = 0x0d then Some (i, row)
        else do {
          y \<leftarrow> peek p (int (pos + 1 + i));
          if y = 0x0a then Some (i, row)
          else do {
            row \<leftarrow> poke row (int i) x;
            port_copy p pos (i + 1) row}}
      else None)"
  by pat_completeness auto
termination by (relation "measure (\<lambda>(p, pos, i, row). length p - (pos + i))") auto

fun port_loop :: "byte list \<Rightarrow> nat \<Rightarrow> nat \<Rightarrow> nat \<Rightarrow> byte list \<Rightarrow> (nat \<times> byte list) option" where
  "port_loop p m 0 i row = Some (i, row)"
| "port_loop p m (Suc k) i row = do {
     a \<leftarrow> match_at p m (chars ''client_port='');
     (i, row) \<leftarrow> (if a then port_copy p (m + 12) i row else Some (i, row));
     port_loop p (m + 1) k i row}"

definition MIN_CLIENT_PORT_BIT :: nat where "MIN_CLIENT_PORT_BIT = 9"

definition GetClientPort :: "byte list \<Rightarrow> int \<Rightarrow> STR_CLIENT_MSG \<Rightarrow> nat \<Rightarrow> (int \<times> STR_CLIENT_MSG) option" where
  "GetClientPort p len msg trick_id = do {
     (i, row) \<leftarrow> port_loop p 0 (nat len) 0 (aucClientport msg ! trick_id);
     Some (if i < MIN_CLIENT_PORT_BIT then - 100 else 1,
           msg\<lparr>aucClientport := (aucClientport msg)[trick_id := row],
               ucClientportLen := (ucClientportLen msg)[trick_id := of_nat i]\<rparr>)}"

text \<open>\<^verbatim>\<open>strstr\<close> on the characters of a string: where the pattern is found first.\<close>

definition strstr :: "byte list \<Rightarrow> byte list \<Rightarrow> nat option" where
  "strstr s pat = find (\<lambda>i. take (length pat) (drop i s) = pat) [0..<Suc (length s)]"

text \<open>
  The request is copied into an array of 1024 bytes, the text is cut off behind one character after
  \<^verbatim>\<open>/trackID=\<close> and converted by \<^verbatim>\<open>atoi\<close>.
\<close>

definition rtsp_find_trackid :: "byte list \<Rightarrow> int option" where
  "rtsp_find_trackid buff = do {
     s \<leftarrow> cstr buff;
     if 1024 < length s + 1 then None
     else case strstr s (chars ''/trackID='') of
       None \<Rightarrow> Some (- 1)
     | Some pos \<Rightarrow>
         if pos + 10 < 1024 then
           (let d = (s @ [0]) ! (pos + 9) in Some (if 0x30 \<le> d \<and> d \<le> 0x39 then uint d - 0x30 else 0))
         else None}"

subsection \<open>Building replies\<close>

definition crlf :: "byte list" where "crlf = [0x0d, 0x0a]"

text \<open>What stands in \<^verbatim>\<open>pSend\<close> after writing these characters and a zero, up to the first zero.\<close>

definition reply :: "byte list \<Rightarrow> byte list option" where
  "reply t = (if length t + 1 \<le> TCP_BUFF_LEN then Some (takeWhile (\<lambda>c. c \<noteq> 0) t) else None)"

definition cseq_echo :: "STR_CLIENT_MSG \<Rightarrow> byte list option" where
  "cseq_echo msg = (if unat (ucCSeqSrcLen msg) \<le> length (aucCSeqSrc msg)
     then Some (take (unat (ucCSeqSrcLen msg)) (aucCSeqSrc msg)) else None)"

definition ResponseOption :: "STR_CLIENT_MSG \<Rightarrow> byte list option" where
  "ResponseOption msg = do {
     e \<leftarrow> cseq_echo msg;
     reply (chars ''RTSP/1.0 200 OK'' @ crlf @ chars ''Cseq: '' @ e @ crlf
       @ chars ''Public: OPTIONS, DESCRIBE, SETUP, TEARDOWN, PLAY, PAUSE,GET_PARAMETER,SET_PARAMETER'' @ crlf @ crlf)}"

definition ResponseGet_parameter :: "STR_CLIENT_MSG \<Rightarrow> byte list option" where
  "ResponseGet_parameter msg = do {
     e \<leftarrow> cseq_echo msg;
     reply (chars ''RTSP/1.0 200 OK'' @ crlf @ chars ''Cseq: '' @ e @ crlf @ crlf)}"

definition ResponseSet_parameter :: "STR_CLIENT_MSG \<Rightarrow> byte list option" where
  "ResponseSet_parameter msg = do {
     e \<leftarrow> cseq_echo msg;
     reply (chars ''RTSP/1.0 200 OK'' @ crlf @ chars ''Cseq: '' @ e @ crlf @ crlf)}"

definition ResponsePlay :: "STR_CLIENT_MSG \<Rightarrow> byte list option" where
  "ResponsePlay msg = do {
     e \<leftarrow> cseq_echo msg;
     reply (chars ''RTSP/1.0 200 OK'' @ crlf @ chars ''Server: RRS 0.1'' @ crlf @ chars ''Session: 11478'' @ crlf
       @ chars ''Range: npt=0.000- '' @ crlf @ chars ''Cseq: '' @ e @ crlf @ crlf)}"

definition ResponsePause :: "STR_CLIENT_MSG \<Rightarrow> byte list option" where
  "ResponsePause msg = do {
     e \<leftarrow> cseq_echo msg;
     reply (chars ''RTSP/1.0 200 OK'' @ crlf @ chars ''Server: RRS 0.1'' @ crlf @ chars ''Session: 11478'' @ crlf
       @ chars ''Cseq: '' @ e @ crlf @ crlf)}"

definition ResponseTeardown :: "STR_CLIENT_MSG \<Rightarrow> byte list option" where
  "ResponseTeardown msg = do {
     e \<leftarrow> cseq_echo msg;
     reply (chars ''RTSP/1.0 200 OK'' @ crlf @ chars ''Server: RRS 0.1'' @ crlf @ chars ''Cseq: '' @ e @ crlf @ crlf)}"

text \<open>A number as \<^verbatim>\<open>%d\<close> or \<^verbatim>\<open>%u\<close> prints it.\<close>

fun dec :: "nat \<Rightarrow> byte list" where
  "dec n = (if n < 10 then [0x30 + of_nat n] else dec (n div 10) @ [0x30 + of_nat (n mod 10)])"

declare dec.simps [simp del]

definition dec_int :: "int \<Rightarrow> byte list" where
  "dec_int i = (if i < 0 then 0x2d # dec (nat (- i)) else dec (nat i))"

text \<open>
  The reply to \<^verbatim>\<open>SETUP\<close> repeats the transport line and then the port text of the track that \<^verbatim>\<open>timeused\<close> names, which
  alternates between 0 and 1.
\<close>

definition ResponseSetup :: "byte list \<Rightarrow> int \<Rightarrow> STR_CLIENT_MSG \<Rightarrow> int \<Rightarrow> (byte list \<times> STR_CLIENT_MSG) option" where
  "ResponseSetup p len msg timeout = do {
     tid \<leftarrow> rtsp_find_trackid p;
     let is_video = (if tid = 1 then 1 else if tid = 2 then 2 else 1);
     msg \<leftarrow> PraseSETUPMsg p len msg;
     (_, msg) \<leftarrow> GetClientPort p len msg (is_video - 1);
     let u = unat (timeused msg);
     let row = aucClientport msg ! u;
     let rlen = unat (ucClientportLen msg ! u);
     t \<leftarrow> (if unat (ucTransNum msg) \<le> length (aucTrans msg) then Some (take (unat (ucTransNum msg)) (aucTrans msg)) else None);
     c \<leftarrow> (if rlen \<le> length row then Some (take rlen row) else None);
     s \<leftarrow> reply (chars ''RTSP/1.0 200 OK'' @ crlf @ chars ''Server: RRS 0.1'' @ crlf @ chars ''Transport: '' @ t @ c
            @ crlf @ chars ''Content-Length: 0'' @ crlf @ chars ''Cache-Control: no-cache'' @ crlf
            @ (if timeout \<noteq> 0 then chars ''Session: 11478; timeout='' @ dec_int timeout @ crlf
               else chars ''Session: 11478'' @ crlf) @ chars ''Cseq: '');
     e \<leftarrow> cseq_echo msg;
     s \<leftarrow> reply (s @ e @ crlf @ crlf);
     let tu = timeused msg + 1;
     Some (s, msg\<lparr>timeused := (if tu = 2 then 0 else tu)\<rparr>)}"

text \<open>Up to five digits of a number into \<^verbatim>\<open>pString\<close>; the result is the text written.\<close>

definition ConventNumberToString :: "int \<Rightarrow> byte list" where
  "ConventNumberToString n =
     (let dat = [of_int (n div 10000), of_int ((n mod 10000) div 1000), of_int ((n mod 1000) div 100),
                 of_int ((n mod 100) div 10), of_int (n mod 10)] :: byte list
      in map (\<lambda>d. d + 0x30) (dropWhile (\<lambda>d. d = 0) dat))"

subsection \<open>What the server understands\<close>

text \<open>The array after a request \<open>r\<close> has been received.\<close>

definition recv_array :: "byte list \<Rightarrow> byte list" where
  "recv_array r = r @ replicate (2 * TCP_BUFF_LEN - length r) 0"

definition rtsp_methods :: "(byte list \<times> int) list" where
  "rtsp_methods = [(chars ''OPTIONS'', OPTION), (chars ''DESCRIBE'', DESCRIBE), (chars ''SETUP'', SETUP), (chars ''PLAY'', PLAY),
     (chars ''PAUSE'', PAUSE), (chars ''TEARDOWN'', TEARDOWN), (chars ''GET_PARAMETER'', GET_PARAMETER),
     (chars ''SET_PARAMETER'', SET_PARAMETER)]"

lemma match_at_take:
  "i + length pat \<le> length p \<Longrightarrow> match_at p i pat = Some (take (length pat) (drop i p) = pat)"
proof (induction pat arbitrary: i)
  case Nil
  then show ?case by simp
next
  case (Cons c cs)
  then have "drop i p = p ! i # drop (i + 1) p" by (simp add: Cons_nth_drop_Suc)
  with Cons show ?case by (simp add: peek_nat)
qed

lemma match_at_shift: "match_at (x # xs) (Suc i) pat = match_at xs i pat"
proof (induction pat arbitrary: i)
  case (Cons c cs)
  have "peek (x # xs) (int (Suc i)) = peek xs (int i)" by (simp add: peek_def nat_add_distrib)
  with Cons [of "Suc i"] show ?case by (cases "peek xs (int i)") simp_all
qed simp

lemma match_at_first: "match_at (x # xs) 0 (c # cs) = (if x = c then match_at xs 0 cs else Some False)"
  using match_at_shift [of c xs 0 cs] by (auto simp: peek_def)

lemma method_texts:
  "chars ''OPTION'' = [79, 80, 84, 73, 79, 78]" "chars ''DESCRIBE'' = [68, 69, 83, 67, 82, 73, 66, 69]"
  "chars ''SETUP'' = [83, 69, 84, 85, 80]" "chars ''PLAY'' = [80, 76, 65, 89]" "chars ''PAUSE'' = [80, 65, 85, 83, 69]"
  "chars ''TEARDOWN'' = [84, 69, 65, 82, 68, 79, 87, 78]"
  "chars ''GET_PARAMETER'' = [71, 69, 84, 95, 80, 65, 82, 65, 77, 69, 84, 69, 82]"
  "chars ''SET_PARAMETER'' = [83, 69, 84, 95, 80, 65, 82, 65, 77, 69, 84, 69, 82]"
  "chars ''OPTIONS'' = [79, 80, 84, 73, 79, 78, 83]"
  by (simp_all add: chars_def)

lemma msg_type_at_method:
  assumes "(w, code) \<in> set rtsp_methods"
  shows "msg_type_at (w @ rest) 0 = Some code"
proof -
  consider "w = chars ''OPTIONS''" "code = OPTION" | "w = chars ''DESCRIBE''" "code = DESCRIBE"
    | "w = chars ''SETUP''" "code = SETUP" | "w = chars ''PLAY''" "code = PLAY" | "w = chars ''PAUSE''" "code = PAUSE"
    | "w = chars ''TEARDOWN''" "code = TEARDOWN" | "w = chars ''GET_PARAMETER''" "code = GET_PARAMETER"
    | "w = chars ''SET_PARAMETER''" "code = SET_PARAMETER"
    using assms unfolding rtsp_methods_def by (simp only: set_simps insert_iff empty_iff prod.inject) blast
  then show ?thesis
    by cases (simp_all add: msg_type_at_def method_texts match_at_first del: match_at.simps(2))
qed

lemma GetMsgType_method:
  assumes "(w, code) \<in> set rtsp_methods" "r = w @ rest" "8 \<le> length r"
  shows "GetMsgType (recv_array r) (int (length r)) = Some code"
proof -
  obtain k where k: "nat (int (length r) - 7) = Suc k" using assms(3) by (cases "nat (int (length r) - 7)") auto
  have "code \<noteq> - 1" using assms(1) by (auto simp: rtsp_methods_def method_codes)
  then show ?thesis
    using msg_type_at_method [OF assms(1), of "rest @ replicate (2 * TCP_BUFF_LEN - length r) 0"]
    unfolding GetMsgType_def k by (simp add: recv_array_def assms(2))
qed

lemma cseq_copy_line:
  assumes "drop pos p = v @ 0x0a # q" "0x0a \<notin> set v" "pos + length v < len"
  shows "cseq_copy p pos len acc = (if length acc + length v \<le> 10 \<or> v = [] then Some (acc @ v) else None)"
  using assms
proof (induction v arbitrary: pos acc)
  case Nil
  then have d: "drop pos p = 0x0a # q" by simp
  then have "pos < length p" "p ! pos = 0x0a"
    using length_of_drop [OF d] nth_of_drop [OF d, of 0] by simp_all
  then show ?case using Nil(3) by (simp add: peek_nat)
next
  case (Cons x v)
  then have d: "drop pos p = x # v @ 0x0a # q" and nl: "x \<noteq> 0x0a" by auto
  have x: "pos < length p" "p ! pos = x" "x \<noteq> 0x0a"
    using length_of_drop [OF d] nth_of_drop [OF d, of 0] nl by simp_all
  have "drop (pos + 1) p = v @ 0x0a # q" using drop_of_drop [of pos p "[x]"] Cons.prems(1) by simp
  from Cons.IH [OF this, of "acc @ [x]"] show ?case
    using Cons.prems(2,3) x by (cases v) (auto simp: peek_nat)
qed

lemma cseq_loop_finds:
  assumes p: "p = pre @ chars ''CSeq:'' @ post" and no: "\<And>m. m < length pre \<Longrightarrow> take 5 (drop m p) \<noteq> chars ''CSeq:''"
    and k: "length pre - m < k" "m \<le> length pre"
  shows "cseq_loop p m k len msg = do {
       src \<leftarrow> cseq_copy p (length pre + 6) len [];
       v \<leftarrow> cseq_sum (butlast src) 0;
       Some (v, msg\<lparr>aucCSeqSrc := src @ drop (length src) (aucCSeqSrc msg),
                     ucCSeqSrcLen := of_nat (length src) - 1\<rparr>)}"
  using k
proof (induction k arbitrary: m)
  case 0
  then show ?case by simp
next
  case (Suc k)
  have len: "length (chars ''CSeq:'') = 5" by (simp add: chars_def)
  have ma: "match_at p m (chars ''CSeq:'') = Some (take 5 (drop m p) = chars ''CSeq:'')"
    using match_at_take [of m "chars ''CSeq:''" p] Suc.prems len p by simp
  show ?case
  proof (cases "m = length pre")
    case True
    then have "take 5 (drop m p) = chars ''CSeq:''" using p len by simp
    then show ?thesis using ma True by simp
  next
    case False
    then have "m < length pre" using Suc.prems by simp
    with no ma have "match_at p m (chars ''CSeq:'') = Some False" by simp
    then show ?thesis using Suc.IH [of "m + 1"] Suc.prems False by simp
  qed
qed

text \<open>The first \<^verbatim>\<open>CSeq:\<close> of the request is followed by one character and the text \<open>v\<close> of the rest of its line.\<close>

definition cseq_line :: "byte list \<Rightarrow> byte list \<Rightarrow> bool" where
  "cseq_line r v \<longleftrightarrow> (\<exists>pre x post. r = pre @ chars ''CSeq:'' @ x # v @ 0x0a # post \<and> 0x0a \<notin> set v
     \<and> (\<forall>m<length pre. take 5 (drop m r) \<noteq> chars ''CSeq:''))"

lemma GetCSeq_line:
  assumes "cseq_line r v"
  shows "GetCSeq (recv_array r) (int (length r)) msg =
    (if length v \<le> 10 then do {
       n \<leftarrow> cseq_sum (butlast v) 0;
       Some (n, msg\<lparr>aucCSeqSrc := v @ drop (length v) (aucCSeqSrc msg), ucCSeqSrcLen := of_nat (length v) - 1\<rparr>)}
     else None)"
proof -
  obtain pre x post where r: "r = pre @ chars ''CSeq:'' @ x # v @ 0x0a # post" "0x0a \<notin> set v"
    "\<And>m. m < length pre \<Longrightarrow> take 5 (drop m r) \<noteq> chars ''CSeq:''" using assms by (auto simp: cseq_line_def)
  let ?z = "replicate (2 * TCP_BUFF_LEN - length r) 0"
  have len: "length (chars ''CSeq:'') = 5" by (simp add: chars_def)
  have p: "recv_array r = pre @ chars ''CSeq:'' @ (x # v @ 0x0a # post @ ?z)"
    unfolding recv_array_def by (subst (1) r(1)) simp
  have no: "take 5 (drop m (recv_array r)) \<noteq> chars ''CSeq:''" if "m < length pre" for m
    using r(3) [OF that] that by (simp add: recv_array_def r(1) len)
  have "drop (length pre + 6) (recv_array r) = v @ 0x0a # post @ ?z" unfolding p by (simp add: len)
  then have "cseq_copy (recv_array r) (length pre + 6) (length r) [] = (if length v \<le> 10 then Some v else None)"
    using cseq_copy_line [of "length pre + 6" "recv_array r" v "post @ ?z" "length r" "[]"] r(1,2) len by auto
  moreover have "length pre - 0 < length r" using r(1) by simp
  ultimately show ?thesis
    using cseq_loop_finds [OF p no, of 0 "length r" "length r" msg] by (simp add: GetCSeq_def)
qed

definition digit :: "byte \<Rightarrow> int" where "digit d = uint d - 48"

fun number :: "byte list \<Rightarrow> int" where
  "number [] = 0"
| "number (d # ds) = digit d * 10 ^ length ds + number ds"

definition is_digit :: "byte \<Rightarrow> bool" where "is_digit d \<longleftrightarrow> 48 \<le> uint d \<and> uint d \<le> 57"

lemma number_snoc: "number (ds @ [d]) = 10 * number ds + digit d"
  by (induction ds) (simp_all add: algebra_simps)

lemma digit_of_nat: "k < 10 \<Longrightarrow> is_digit (0x30 + of_nat k) \<and> digit (0x30 + of_nat k) = int k"
proof -
  assume "k < 10"
  have "(0x30 + of_nat k :: byte) = of_nat (48 + k)" by simp
  then have "uint (0x30 + of_nat k :: byte) = 48 + int k"
    using \<open>k < 10\<close> unfolding \<open>_ = of_nat (48 + k)\<close> by (simp only: uint_nat unat_of_nat) (simp add: take_bit_nat_eq_self)
  with \<open>k < 10\<close> show ?thesis by (simp add: is_digit_def digit_def)
qed

lemma dec_digits: "list_all is_digit (dec n) \<and> number (dec n) = int n \<and> dec n \<noteq> []"
proof (induction n rule: dec.induct)
  case (1 n)
  have "10 * int (n div 10) + int (n mod 10) = int n"
    using mult_div_mod_eq [of 10 n] by (metis of_nat_add of_nat_mult of_nat_numeral)
  with 1 show ?case
    using digit_of_nat [of n] digit_of_nat [of "n mod 10"]
    by (subst (1 2 3) dec.simps) (auto simp: number_snoc)
qed

lemma dec_length: "n < 10 ^ k \<Longrightarrow> 0 < k \<Longrightarrow> length (dec n) \<le> k"
proof (induction k arbitrary: n)
  case 0
  then show ?case by simp
next
  case (Suc k)
  show ?case
  proof (cases "n < 10")
    case True
    then show ?thesis by (subst dec.simps) simp
  next
    case False
    then have "0 < k" using Suc.prems by (cases k) auto
    moreover have "n div 10 < 10 ^ k" using Suc.prems by (simp add: less_mult_imp_div_less)
    ultimately show ?thesis using Suc.IH [of "n div 10"] False by (subst dec.simps) simp
  qed
qed

lemma digit_nonneg: "is_digit d \<Longrightarrow> 0 \<le> digit d"
  by (simp add: digit_def is_digit_def)

lemma number_bound: "list_all is_digit ds \<Longrightarrow> 0 \<le> number ds"
  by (induction ds) (auto intro!: add_nonneg_nonneg mult_nonneg_nonneg digit_nonneg)

lemma sint_digit: "is_digit d \<Longrightarrow> sint (d - 0x30) = digit d"
proof -
  assume d: "is_digit d"
  then have "uint (d - 0x30) = uint d - 48" by (simp add: is_digit_def uint_sub_if' word_le_def)
  then have "uint (d - 0x30) < 128" using d by (simp add: is_digit_def)
  then show ?thesis using \<open>uint (d - 0x30) = _\<close>
    by (simp add: digit_def sint_uint signed_take_bit_int_eq_self)
qed

lemma cseq_sum_number:
  assumes "list_all is_digit ds" "0 \<le> v" "v + number ds < 2 ^ 32"
  shows "cseq_sum ds v = Some (v + number ds)"
  using assms
proof (induction ds arbitrary: v)
  case Nil
  then show ?case by simp
next
  case (Cons d ds)
  have d: "is_digit d" "0 \<le> digit d" "0 \<le> number ds"
    using Cons.prems(1) number_bound [of ds] digit_nonneg [of d] by auto
  then have "0 \<le> digit d * 10 ^ length ds" by simp
  then show ?case
    using Cons.IH [of "v + digit d * 10 ^ length ds"] Cons.prems d by (simp add: sint_digit Let_def)
qed

lemma digits_not_special: "list_all is_digit ds \<Longrightarrow> 0 \<notin> set ds \<and> 0x0a \<notin> set ds \<and> 0x0d \<notin> set ds"
  by (auto simp: list_all_iff is_digit_def)

lemma reply_plain: "0 \<notin> set t \<Longrightarrow> length t < 1400 \<Longrightarrow> reply t = Some t"
  by (auto simp: reply_def TCP_BUFF_LEN_def takeWhile_eq_all_conv)

lemma crlf_chars: "0 \<notin> set crlf" "length crlf = 2"
  by (simp_all add: crlf_def)

lemma option_texts:
  "0 \<notin> set (chars ''RTSP/1.0 200 OK'')" "0 \<notin> set (chars ''Cseq: '')"
  "0 \<notin> set (chars ''Public: OPTIONS, DESCRIBE, SETUP, TEARDOWN, PLAY, PAUSE,GET_PARAMETER,SET_PARAMETER'')"
  "length (chars ''RTSP/1.0 200 OK'') = 15" "length (chars ''Cseq: '') = 6"
  "length (chars ''Public: OPTIONS, DESCRIBE, SETUP, TEARDOWN, PLAY, PAUSE,GET_PARAMETER,SET_PARAMETER'') = 83"
  by (simp_all add: chars_def)

text \<open>C24: A request that begins with one of the eight methods and carries a sequence number up to 65535 is given the
  code of its method and its number, and the reply repeats exactly the digits of the number.\<close>

theorem request_understood:
  assumes "(w, code) \<in> set rtsp_methods" "r = w @ rest" "8 \<le> length r"
    and "cseq_line r (dec n @ [0x0d])" "n \<le> 65535" "length (aucCSeqSrc msg) = 10"
  shows "\<exists>msg'. GetVlcMsgType (recv_array r) (int (length r)) msg = Some (code, msg')
    \<and> uiCseq msg' = of_nat n \<and> cseq_echo msg' = Some (dec n) \<and> roomid msg' = roomid msg
    \<and> ResponseOption msg' = Some (chars ''RTSP/1.0 200 OK'' @ crlf @ chars ''Cseq: '' @ dec n @ crlf
       @ chars ''Public: OPTIONS, DESCRIBE, SETUP, TEARDOWN, PLAY, PAUSE,GET_PARAMETER,SET_PARAMETER'' @ crlf @ crlf)"
proof -
  have d: "list_all is_digit (dec n)" "number (dec n) = int n" using dec_digits [of n] by auto
  have len: "length (dec n) \<le> 5" using dec_length [of n 5] assms(5) by simp
  let ?v = "dec n @ [0x0d]"
  have sum: "cseq_sum (dec n) 0 = Some (int n)" using cseq_sum_number [OF d(1), of 0] d(2) assms(5) by simp
  define msg' where "msg' = msg\<lparr>iType := code, uiCseq := of_nat n,
    aucCSeqSrc := ?v @ drop (length ?v) (aucCSeqSrc msg), ucCSeqSrcLen := of_nat (length ?v) - 1\<rparr>"
  have code: "code < MAX_OPERATE" using assms(1) by (auto simp: rtsp_methods_def method_codes)
  have n: "\<not> (65535 :: u32) < of_nat n" using assms(5) by (simp add: word_less_nat_alt unat_of_nat take_bit_nat_eq_self)
  have get: "GetVlcMsgType (recv_array r) (int (length r)) msg = Some (code, msg')"
    using GetMsgType_method [OF assms(1-3)] GetCSeq_line [OF assms(4), of "msg\<lparr>iType := code\<rparr>"] len sum code n
    by (simp add: GetVlcMsgType_def msg'_def)
  have "ucCSeqSrcLen msg' = of_nat (length (dec n))" by (simp add: msg'_def)
  then have l: "unat (ucCSeqSrcLen msg') = length (dec n)" using len by (simp add: unat_of_nat take_bit_nat_eq_self)
  have echo: "cseq_echo msg' = Some (dec n)" using l len assms(6) by (simp add: cseq_echo_def msg'_def)
  have "ResponseOption msg' = Some (chars ''RTSP/1.0 200 OK'' @ crlf @ chars ''Cseq: '' @ dec n @ crlf
       @ chars ''Public: OPTIONS, DESCRIBE, SETUP, TEARDOWN, PLAY, PAUSE,GET_PARAMETER,SET_PARAMETER'' @ crlf @ crlf)"
    using len digits_not_special [OF d(1)]
    by (simp only: ResponseOption_def echo bind.bind_lunit)
      (intro reply_plain; simp only: set_append Un_iff length_append crlf_chars option_texts; simp)
  with get echo show ?thesis by (auto simp: msg'_def)
qed

text \<open>The value of \<^verbatim>\<open>CSeq\<close> is copied to two arrays of ten bytes without looking at its length: a longer line writes
  behind them, and an empty one gives the length 255 and makes every reply read behind them.\<close>

theorem cseq_length_trusted:
  assumes "cseq_line r v" "length (aucCSeqSrc msg) = 10"
  shows "(10 < length v \<longrightarrow> GetVlcMsgType (recv_array r) (int (length r)) msg = None)
    \<and> (v = [] \<longrightarrow> (\<exists>msg'. GetCSeq (recv_array r) (int (length r)) msg = Some (0, msg')
         \<and> ResponseOption msg' = None \<and> ResponsePlay msg' = None \<and> ResponseTeardown msg' = None))"
proof (intro conjI impI)
  assume "10 < length v"
  then show "GetVlcMsgType (recv_array r) (int (length r)) msg = None"
    using GetCSeq_line [OF assms(1)] by (simp add: GetVlcMsgType_def Let_def split: bind_splits)
next
  assume "v = []"
  then have "GetCSeq (recv_array r) (int (length r)) msg = Some (0, msg\<lparr>ucCSeqSrcLen := - 1\<rparr>)"
    using GetCSeq_line [OF assms(1), of msg] by simp
  moreover have "cseq_echo (msg\<lparr>ucCSeqSrcLen := - 1\<rparr>) = None"
  proof -
    have "unat (- 1 :: byte) = 255" by code_simp
    then show ?thesis using assms(2) by (simp add: cseq_echo_def)
  qed
  ultimately show "\<exists>msg'. GetCSeq (recv_array r) (int (length r)) msg = Some (0, msg')
         \<and> ResponseOption msg' = None \<and> ResponsePlay msg' = None \<and> ResponseTeardown msg' = None"
    by (simp add: ResponseOption_def ResponsePlay_def ResponseTeardown_def)
qed

subsection \<open>Witnesses\<close>

definition sample_line :: "byte list \<Rightarrow> byte list" where
  "sample_line v = chars ''OPTIONS rtsp://h RTSP/1.0'' @ crlf @ chars ''CSeq:'' @ 0x20 # v @ 0x0a # crlf"

lemma sample_line_ok: "0x0a \<notin> set v \<Longrightarrow> cseq_line (sample_line v) v"
proof -
  assume v: "0x0a \<notin> set v"
  let ?pre = "chars ''OPTIONS rtsp://h RTSP/1.0'' @ crlf"
  have "list_all (\<lambda>m. take 5 (drop m (?pre @ chars ''CSeq:'')) \<noteq> chars ''CSeq:'') [0..<length ?pre]"
    by code_simp
  moreover have "take 5 (drop m (sample_line v)) = take 5 (drop m (?pre @ chars ''CSeq:''))" if m: "m < length ?pre" for m
  proof -
    have "sample_line v = (?pre @ chars ''CSeq:'') @ 0x20 # v @ 0x0a # crlf" by (simp add: sample_line_def)
    moreover have "length (chars ''CSeq:'') = 5" by (simp add: chars_def)
    then have "m + 5 \<le> length (?pre @ chars ''CSeq:'')" using m by (simp only: length_append)
    ultimately show ?thesis by (simp del: append_assoc)
  qed
  ultimately have "\<forall>m<length ?pre. take 5 (drop m (sample_line v)) \<noteq> chars ''CSeq:''"
    by (simp add: list_all_iff)
  moreover have "sample_line v = ?pre @ chars ''CSeq:'' @ 0x20 # v @ 0x0a # crlf" by (simp add: sample_line_def)
  ultimately show ?thesis using v unfolding cseq_line_def by blast
qed

lemma request_understood_witness:
  "\<exists>msg'. GetVlcMsgType (recv_array (sample_line (dec 42 @ [0x0d]))) (int (length (sample_line (dec 42 @ [0x0d])))) new_msg
      = Some (OPTION, msg') \<and> cseq_echo msg' = Some (dec 42)"
proof -
  have "list_all is_digit (dec 42)" using dec_digits by blast
  then have "0x0a \<notin> set (dec 42 @ [0x0d])" using digits_not_special by auto
  then have l: "cseq_line (sample_line (dec 42 @ [0x0d])) (dec 42 @ [0x0d])" by (rule sample_line_ok)
  have "sample_line (dec 42 @ [0x0d]) = chars ''OPTIONS'' @ chars '' rtsp://h RTSP/1.0'' @ crlf @ chars ''CSeq:'' @ 0x20 # (dec 42 @ [0x0d]) @ 0x0a # crlf"
    by (simp add: sample_line_def chars_def)
  from request_understood [OF _ this _ l, of OPTION new_msg] show ?thesis
    by (auto simp: rtsp_methods_def new_msg_def sample_line_def option_texts crlf_chars chars_def)
qed

lemma cseq_length_trusted_witness:
  "GetVlcMsgType (recv_array (sample_line (replicate 11 0x31))) (int (length (sample_line (replicate 11 0x31)))) new_msg = None
   \<and> (\<exists>msg'. GetCSeq (recv_array (sample_line [])) (int (length (sample_line []))) new_msg = Some (0, msg')
        \<and> ResponseOption msg' = None)"
  using cseq_length_trusted [OF sample_line_ok [of "replicate 11 0x31"], of new_msg]
    cseq_length_trusted [OF sample_line_ok [of "[]"], of new_msg]
  by (auto simp: new_msg_def)

end
