(* ===== verification/Md5.thy ===== *)
theory Md5
  imports Prelude "HOL-Library.Monad_Syntax"
begin

section \<open>Checksums (src/reach\_edukit/src/md5/md5lib.c)\<close>

text \<open>
  MD5 as the code computes it: a context with the chaining values, the number of bits absorbed (two words, low
  one first) and a buffer for an incomplete block, and the operations that start, feed and finish it.
  A read or write outside a buffer is \<^const>\<open>None\<close>.

  The reference is the one-shot description: the message is padded to whole blocks and the blocks are folded
  into the chaining values.  The abstraction \<open>absorbed ctx m\<close> says which message a context stands for; each
  operation is proved against it, so a digest does not depend on how the message was cut into pieces.
\<close>

type_synonym md5_state = "u32 \<times> u32 \<times> u32 \<times> u32"

record MD5_CTX =
  md_state :: md5_state
  count0 :: u32
  count1 :: u32
  md_buffer :: "byte list"

subsection \<open>The block transformation\<close>

definition md5_F :: "u32 \<Rightarrow> u32 \<Rightarrow> u32 \<Rightarrow> u32" where "md5_F x y z = (x AND y) OR (NOT x AND z)"
definition md5_G :: "u32 \<Rightarrow> u32 \<Rightarrow> u32 \<Rightarrow> u32" where "md5_G x y z = (x AND z) OR (y AND NOT z)"
definition md5_H :: "u32 \<Rightarrow> u32 \<Rightarrow> u32 \<Rightarrow> u32" where "md5_H x y z = x XOR y XOR z"
definition md5_I :: "u32 \<Rightarrow> u32 \<Rightarrow> u32 \<Rightarrow> u32" where "md5_I x y z = y XOR (x OR NOT z)"

definition ROTATE_LEFT :: "u32 \<Rightarrow> nat \<Rightarrow> u32" where
  "ROTATE_LEFT x n = push_bit n x OR drop_bit (32 - n) x"

text \<open>
  The 64 uses of the macros \<^verbatim>\<open>FF\<close>, \<^verbatim>\<open>GG\<close>, \<^verbatim>\<open>HH\<close> and \<^verbatim>\<open>II\<close>: the function, the index of the input word, the shift
  and the constant.  The roles of the four variables move on by one with every use (\<^verbatim>\<open>a, b, c, d\<close>, then
  \<^verbatim>\<open>d, a, b, c\<close>, and so on), so a step returns the variables as the next step names them.
\<close>

definition md5_steps :: "((u32 \<Rightarrow> u32 \<Rightarrow> u32 \<Rightarrow> u32) \<times> nat \<times> nat \<times> u32) list" where
  "md5_steps = [
     (md5_F, 0, 7, 0xd76aa478), (md5_F, 1, 12, 0xe8c7b756), (md5_F, 2, 17, 0x242070db), (md5_F, 3, 22, 0xc1bdceee),
     (md5_F, 4, 7, 0xf57c0faf), (md5_F, 5, 12, 0x4787c62a), (md5_F, 6, 17, 0xa8304613), (md5_F, 7, 22, 0xfd469501),
     (md5_F, 8, 7, 0x698098d8), (md5_F, 9, 12, 0x8b44f7af), (md5_F, 10, 17, 0xffff5bb1), (md5_F, 11, 22, 0x895cd7be),
     (md5_F, 12, 7, 0x6b901122), (md5_F, 13, 12, 0xfd987193), (md5_F, 14, 17, 0xa679438e), (md5_F, 15, 22, 0x49b40821),
     (md5_G, 1, 5, 0xf61e2562), (md5_G, 6, 9, 0xc040b340), (md5_G, 11, 14, 0x265e5a51), (md5_G, 0, 20, 0xe9b6c7aa),
     (md5_G, 5, 5, 0xd62f105d), (md5_G, 10, 9, 0x2441453), (md5_G, 15, 14, 0xd8a1e681), (md5_G, 4, 20, 0xe7d3fbc8),
     (md5_G, 9, 5, 0x21e1cde6), (md5_G, 14, 9, 0xc33707d6), (md5_G, 3, 14, 0xf4d50d87), (md5_G, 8, 20, 0x455a14ed),
     (md5_G, 13, 5, 0xa9e3e905), (md5_G, 2, 9, 0xfcefa3f8), (md5_G, 7, 14, 0x676f02d9), (md5_G, 12, 20, 0x8d2a4c8a),
     (md5_H, 5, 4, 0xfffa3942), (md5_H, 8, 11, 0x8771f681), (md5_H, 11, 16, 0x6d9d6122), (md5_H, 14, 23, 0xfde5380c),
     (md5_H, 1, 4, 0xa4beea44), (md5_H, 4, 11, 0x4bdecfa9), (md5_H, 7, 16, 0xf6bb4b60), (md5_H, 10, 23, 0xbebfbc70),
     (md5_H, 13, 4, 0x289b7ec6), (md5_H, 0, 11, 0xeaa127fa), (md5_H, 3, 16, 0xd4ef3085), (md5_H, 6, 23, 0x4881d05),
     (md5_H, 9, 4, 0xd9d4d039), (md5_H, 12, 11, 0xe6db99e5), (md5_H, 15, 16, 0x1fa27cf8), (md5_H, 2, 23, 0xc4ac5665),
     (md5_I, 0, 6, 0xf4292244), (md5_I, 7, 10, 0x432aff97), (md5_I, 14, 15, 0xab9423a7), (md5_I, 5, 21, 0xfc93a039),
     (md5_I, 12, 6, 0x655b59c3), (md5_I, 3, 10, 0x8f0ccc92), (md5_I, 10, 15, 0xffeff47d), (md5_I, 1, 21, 0x85845dd1),
     (md5_I, 8, 6, 0x6fa87e4f), (md5_I, 15, 10, 0xfe2ce6e0), (md5_I, 6, 15, 0xa3014314), (md5_I, 13, 21, 0x4e0811a1),
     (md5_I, 4, 6, 0xf7537e82), (md5_I, 11, 10, 0xbd3af235), (md5_I, 2, 15, 0x2ad7d2bb), (md5_I, 9, 21, 0xeb86d391)
   ]"

definition md5_step ::
  "u32 list \<Rightarrow> (u32 \<Rightarrow> u32 \<Rightarrow> u32 \<Rightarrow> u32) \<times> nat \<times> nat \<times> u32 \<Rightarrow> md5_state \<Rightarrow> md5_state" where
  "md5_step x p q = (case p of (f, k, s, ac) \<Rightarrow> case q of (a, b, c, d) \<Rightarrow>
     (d, ROTATE_LEFT (a + (f b c d + x ! k + ac)) s + b, b, c))"

text \<open>The code's \<^verbatim>\<open>Decode\<close> and \<^verbatim>\<open>Encode\<close>: words from bytes and back, low byte first.\<close>

fun Decode :: "byte list \<Rightarrow> u32 list" where
  "Decode (b0 # b1 # b2 # b3 # bs) =
     (ucast b0 OR push_bit 8 (ucast b1) OR push_bit 16 (ucast b2) OR push_bit 24 (ucast b3)) # Decode bs"
| "Decode _ = []"

fun Encode :: "u32 list \<Rightarrow> byte list" where
  "Encode [] = []"
| "Encode (w # ws) =
     ucast (w AND 0xFF) # ucast (drop_bit 8 w AND 0xFF) # ucast (drop_bit 16 w AND 0xFF)
       # ucast (drop_bit 24 w AND 0xFF) # Encode ws"

definition MD5Transform :: "md5_state \<Rightarrow> byte list \<Rightarrow> md5_state" where
  "MD5Transform st block =
     (case st of (a0, b0, c0, d0) \<Rightarrow>
      case fold (md5_step (Decode block)) md5_steps st of (a, b, c, d) \<Rightarrow> (a0 + a, b0 + b, c0 + c, d0 + d))"

subsection \<open>The context\<close>

definition PADDING :: "byte list" where "PADDING = 0x80 # replicate 63 0"

text \<open>\<open>buf\<close> is what the buffer of an uninitialised context holds.\<close>

definition MD5Init :: "byte list \<Rightarrow> MD5_CTX" where
  "MD5Init buf = \<lparr>md_state = (0x67452301, 0xefcdab89, 0x98badcfe, 0x10325476), count0 = 0, count1 = 0,
     md_buffer = buf\<rparr>"

text \<open>The loop over whole blocks of the input; its bound is computed modulo \<open>2\<^sup>3\<^sup>2\<close>, as in the code.\<close>

partial_function (option) md5_blocks ::
  "md5_state \<Rightarrow> byte list \<Rightarrow> u32 \<Rightarrow> u32 \<Rightarrow> (md5_state \<times> u32) option" where
  "md5_blocks st input i inputLen =
     (if i + 63 < inputLen then
        (if unat i + 64 \<le> length input
         then md5_blocks (MD5Transform st (take 64 (drop (unat i) input))) input (i + 64) inputLen
         else None)
      else Some (st, i))"

declare md5_blocks.simps [code]

definition MD5Update :: "MD5_CTX \<Rightarrow> byte list \<Rightarrow> u32 \<Rightarrow> MD5_CTX option" where
  "MD5Update ctx input inputLen = do {
     let index = drop_bit 3 (count0 ctx) AND 0x3F;
     let c0 = count0 ctx + push_bit 3 inputLen;
     let c1 = (if c0 < push_bit 3 inputLen then count1 ctx + 1 else count1 ctx);
     let c1 = c1 + drop_bit 29 inputLen;
     let partLen = 64 - index;
     (st, buf, index, i) \<leftarrow>
       (if inputLen \<ge> partLen then do {
          buf \<leftarrow> memcpy (md_buffer ctx) (uint index) input 0 (uint partLen);
          (st, i) \<leftarrow> md5_blocks (MD5Transform (md_state ctx) buf) input partLen inputLen;
          Some (st, buf, 0, i)
        }
        else Some (md_state ctx, md_buffer ctx, index, 0));
     buf \<leftarrow> memcpy buf (uint index) input (uint i) (uint (inputLen - i));
     Some \<lparr>md_state = st, count0 = c0, count1 = c1, md_buffer = buf\<rparr>
   }"

definition md5_words :: "md5_state \<Rightarrow> u32 list" where
  "md5_words st = (case st of (a, b, c, d) \<Rightarrow> [a, b, c, d])"

text \<open>The digest; the context is cleared afterwards and not used again.\<close>

definition MD5Final :: "MD5_CTX \<Rightarrow> byte list option" where
  "MD5Final ctx = do {
     let bits = Encode [count0 ctx, count1 ctx];
     let index = drop_bit 3 (count0 ctx) AND 0x3F;
     let padLen = (if index < 56 then 56 - index else 120 - index);
     ctx \<leftarrow> MD5Update ctx PADDING padLen;
     ctx \<leftarrow> MD5Update ctx bits 8;
     Some (Encode (md5_words (md_state ctx)))
   }"

subsection \<open>The reference\<close>

function absorb :: "md5_state \<Rightarrow> byte list \<Rightarrow> md5_state" where
  "absorb st m = (if length m < 64 then st else absorb (MD5Transform st (take 64 m)) (drop 64 m))"
  by auto
termination by (relation "measure (\<lambda>(st, m). length m)") auto

declare absorb.simps [simp del]

text \<open>The bytes behind the last whole block.\<close>

definition leftover :: "byte list \<Rightarrow> byte list" where
  "leftover m = drop (64 * (length m div 64)) m"

lemma length_leftover [simp]: "length (leftover m) = length m mod 64"
  by (simp add: leftover_def minus_mult_div_eq_mod)

lemma leftover_short: "length m < 64 \<Longrightarrow> leftover m = m"
  by (simp add: leftover_def)

lemma absorb_short: "length m < 64 \<Longrightarrow> absorb st m = st"
  by (subst absorb.simps) simp

lemma leftover_block: "length b = 64 \<Longrightarrow> leftover (b @ m) = leftover m"
proof -
  assume b: "length b = 64"
  have "(64 + length m) div 64 = Suc (length m div 64)" by simp
  then show ?thesis using b by (simp add: leftover_def)
qed

lemma absorb_block: "length b = 64 \<Longrightarrow> absorb st (b @ m) = absorb (MD5Transform st b) m"
  by (subst absorb.simps) simp

text \<open>A message can be absorbed up to its last whole block first.\<close>

lemma absorb_append: "absorb st (m @ x) = absorb (absorb st m) (leftover m @ x) \<and> leftover (m @ x) = leftover (leftover m @ x)"
proof (induction st m rule: absorb.induct)
  case (1 st m)
  show ?case
  proof (cases "length m < 64")
    case True
    then show ?thesis by (simp add: absorb_short leftover_short)
  next
    case False
    then have b: "length (take 64 m) = 64" and m: "m = take 64 m @ drop 64 m" by simp_all
    have "absorb st m = absorb (MD5Transform st (take 64 m)) (drop 64 m)" "leftover m = leftover (drop 64 m)"
      using absorb_block [OF b, of st "drop 64 m"] leftover_block [OF b, of "drop 64 m"] by simp_all
    moreover have "absorb st (m @ x) = absorb (MD5Transform st (take 64 m)) (drop 64 m @ x)"
      "leftover (m @ x) = leftover (drop 64 m @ x)"
      using absorb_block [OF b, of st "drop 64 m @ x"] leftover_block [OF b, of "drop 64 m @ x"] m
      by (metis append_assoc)+
    ultimately show ?thesis using 1 [OF False] by simp
  qed
qed

lemma unat_of_nat_u32: "n < 2 ^ 32 \<Longrightarrow> unat (of_nat n :: u32) = n"
  by (simp add: unat_of_nat)

lemma uint_of_nat_u32: "n < 2 ^ 32 \<Longrightarrow> uint (of_nat n :: u32) = int n"
  using unat_of_nat_u32 [of n] by (metis of_nat_unat)

lemma md5_blocks_run:
  assumes "i \<le> n" "n \<le> length y" "n + 64 \<le> 2 ^ 32"
  shows "md5_blocks st y (of_nat i) (of_nat n) =
    Some (absorb st (drop i (take n y)), of_nat (n - (n - i) mod 64))"
  using assms
proof (induction "n - i" arbitrary: i st rule: less_induct)
  case less
  let ?x = "take n y"
  have x: "length ?x = n" using less.prems(2) by simp
  have w: "(of_nat i + 63 < (of_nat n :: u32)) = (i + 63 < n)"
    using less.prems unat_of_nat_u32 [of "i + 63"] unat_of_nat_u32 [of n] by (simp add: word_less_nat_alt)
  show ?case
  proof (cases "i + 63 < n")
    case False
    then have l: "n - i < 64" by simp
    then have "absorb st (drop i ?x) = st" using x by (intro absorb_short) simp
    moreover have "n - (n - i) mod 64 = i" using l less.prems(1) by simp
    ultimately show ?thesis using w False by (subst md5_blocks.simps) simp
  next
    case True
    have i: "unat (of_nat i :: u32) = i" using less.prems True by (intro unat_of_nat_u32) simp
    have "n - i = (n - (i + 64)) + 64" using True by simp
    then have md: "(n - i) mod 64 = (n - (i + 64)) mod 64" by (metis mod_add_self2)
    have bl: "take 64 (drop i y) = take 64 (drop i ?x)" "i + 64 \<le> length y"
      using True less.prems(2) by (simp_all add: drop_take)
    have "drop i ?x = take 64 (drop i ?x) @ drop (i + 64) ?x" by (metis add.commute append_take_drop_id drop_drop)
    moreover have "length (take 64 (drop i ?x)) = 64" using True x by simp
    ultimately have "absorb st (drop i ?x) = absorb (MD5Transform st (take 64 (drop i ?x))) (drop (i + 64) ?x)"
      using absorb_block by metis
    moreover have "md5_blocks (MD5Transform st (take 64 (drop i ?x))) y (of_nat (i + 64)) (of_nat n) =
        Some (absorb (MD5Transform st (take 64 (drop i ?x))) (drop (i + 64) ?x), of_nat (n - (n - (i + 64)) mod 64))"
      using less.hyps [of "i + 64"] less.prems(2,3) True by simp
    ultimately show ?thesis using w True i md bl by (subst md5_blocks.simps) (simp del: take_take drop_take)
  qed
qed

subsection \<open>The number of bits\<close>

text \<open>The two counters as one number.\<close>

definition md5_bits :: "MD5_CTX \<Rightarrow> nat" where
  "md5_bits ctx = unat (count0 ctx) + 2 ^ 32 * unat (count1 ctx)"

lemma unat_below: "unat (w :: u32) < 2 ^ 32"
  by (rule order_less_le_trans [OF unsigned_less]) simp

lemma carry_step:
  fixes a b M :: nat
  assumes "0 < M"
  shows "a mod M + M * ((b + a div M) mod M) = (a + M * b) mod (M * M)"
  using assms mod_mult2_eq [of "a + M * b" M M] by (simp add: add.commute)

lemma bits_step:
  fixes c0 c1 :: u32 and n :: nat
  defines "p \<equiv> push_bit 3 (of_nat n :: u32)"
  assumes "unat c0 + 2 ^ 32 * unat c1 = k mod 2 ^ 64" "n < 2 ^ 32"
  shows "unat (c0 + p) + 2 ^ 32 * unat ((if c0 + p < p then c1 + 1 else c1) + drop_bit 29 (of_nat n)) = (k + 8 * n) mod 2 ^ 64"
proof -
  let ?a = "unat c0 + unat p"
  have p: "unat p = (8 * n) mod 2 ^ 32" and h: "unat (drop_bit 29 (of_nat n :: u32)) = n div 2 ^ 29"
    using unat_of_nat_u32 [OF assms(3)] mod_less [OF le_less_trans [OF div_le_dividend assms(3)], of "2 ^ 29"]
    by (simp_all add: p_def push_bit_eq_mult drop_bit_eq_div unat_word_ariths unat_div mult.commute)
  have n: "8 * n = unat p + 2 ^ 32 * (n div 2 ^ 29)"
  proof -
    have "8 * n div 2 ^ 32 = n div 2 ^ 29" using div_mult2_eq [of "8 * n" 8 "2 ^ 29"] by simp
    then show ?thesis using p mod_mult_div_eq [of "8 * n" "2 ^ 32"] by simp
  qed
  have c0: "unat (c0 + p) = ?a mod 2 ^ 32" by (simp add: unat_word_ariths)
  have lt: "unat c0 < 2 ^ 32" "unat p < 2 ^ 32" using unat_below [of c0] unat_below [of p] by simp_all
  have carry: "unat (if c0 + p < p then c1 + 1 else c1) = (unat c1 + ?a div 2 ^ 32) mod 2 ^ 32"
  proof (cases "?a < 2 ^ 32")
    case True
    then have "\<not> c0 + p < p" using c0 by (simp add: word_less_nat_alt)
    then show ?thesis using True unat_below [of c1] by simp
  next
    case False
    then obtain e where e: "?a = 2 ^ 32 + e" using le_Suc_ex not_less by metis
    then have "e < 2 ^ 32" "e < unat p" using lt by simp_all
    then have "?a mod 2 ^ 32 = e" "?a div 2 ^ 32 = 1" unfolding e by simp_all
    then have "c0 + p < p" using c0 \<open>e < unat p\<close> by (simp add: word_less_nat_alt)
    then show ?thesis using \<open>?a div 2 ^ 32 = 1\<close> by (simp add: unat_word_ariths)
  qed
  have "unat ((if c0 + p < p then c1 + 1 else c1) + drop_bit 29 (of_nat n)) =
      (unat (if c0 + p < p then c1 + 1 else c1) + n div 2 ^ 29) mod 2 ^ 32"
    using h by (simp only: unat_word_ariths) simp
  also have "\<dots> = ((unat c1 + n div 2 ^ 29) + ?a div 2 ^ 32) mod 2 ^ 32"
    unfolding carry by (simp add: mod_simps add_ac)
  finally have "unat (c0 + p) + 2 ^ 32 * unat ((if c0 + p < p then c1 + 1 else c1) + drop_bit 29 (of_nat n))
      = (?a + 2 ^ 32 * (unat c1 + n div 2 ^ 29)) mod (2 ^ 32 * 2 ^ 32)"
    unfolding c0 using carry_step [of "2 ^ 32" ?a "unat c1 + n div 2 ^ 29"] by simp
  also have "?a + 2 ^ 32 * (unat c1 + n div 2 ^ 29) = (unat c0 + 2 ^ 32 * unat c1) + 8 * n"
    using n by (simp add: distrib_left)
  also have "\<dots> mod (2 ^ 32 * 2 ^ 32) = (k + 8 * n) mod 2 ^ 64"
    unfolding assms(2) by (simp add: mod_simps)
  finally show ?thesis .
qed

subsection \<open>What a context stands for\<close>

definition md5_init_state :: md5_state where
  "md5_init_state = (0x67452301, 0xefcdab89, 0x98badcfe, 0x10325476)"

definition absorbed :: "MD5_CTX \<Rightarrow> byte list \<Rightarrow> bool" where
  "absorbed ctx m \<longleftrightarrow> md_state ctx = absorb md5_init_state m \<and> length (md_buffer ctx) = 64
     \<and> take (length m mod 64) (md_buffer ctx) = leftover m \<and> md5_bits ctx = (8 * length m) mod 2 ^ 64"

lemma absorbed_init: "length buf = 64 \<Longrightarrow> absorbed (MD5Init buf) []"
  by (simp add: absorbed_def MD5Init_def md5_init_state_def md5_bits_def absorb_short leftover_short)

lemma buffer_index:
  assumes "absorbed ctx m"
  shows "drop_bit 3 (count0 ctx) AND 0x3F = (of_nat (length m mod 64) :: u32)"
proof -
  have "(8 * length m) mod 2 ^ 64 mod 2 ^ 32 = (8 * length m) mod (2 :: nat) ^ 32"
    by (rule mod_mod_cancel) simp
  moreover have "unat (count0 ctx) = (unat (count0 ctx) + 2 ^ 32 * unat (count1 ctx)) mod 2 ^ 32"
    using unat_below [of "count0 ctx"] by simp
  ultimately have c: "unat (count0 ctx) = (8 * length m) mod 2 ^ 32"
    using assms unfolding absorbed_def md5_bits_def by metis
  have "unat (drop_bit 3 (count0 ctx) AND 0x3F) = unat (count0 ctx) div 8 mod 64"
  proof -
    have "(0x3F :: u32) = mask 6" by (simp add: mask_eq_exp_minus_1)
    then have "drop_bit 3 (count0 ctx) AND 0x3F = take_bit 6 (drop_bit 3 (count0 ctx))" by (simp add: take_bit_eq_mask)
    then show ?thesis by (simp add: unsigned_take_bit_eq take_bit_eq_mod drop_bit_eq_div unat_div unat_mod)
  qed
  also have "(8 * length m) mod 2 ^ 32 = 8 * (length m mod 2 ^ 29)" using mult_mod_right [of 8 "length m" "2 ^ 29"] by simp
  then have "unat (count0 ctx) div 8 mod 64 = length m mod 2 ^ 29 mod 64" unfolding c by simp
  also have "\<dots> = length m mod 64" by (rule mod_mod_cancel) simp
  finally show ?thesis using unat_of_nat_u32 [of "length m mod 64"] by (simp add: word_unat_eq_iff)
qed

lemma u32_minus: "b \<le> a \<Longrightarrow> (of_nat a - of_nat b :: u32) = of_nat (a - b)"
  by simp

text \<open>Feeding a context: every access is inside its buffer, and the context stands for the longer message.\<close>

lemma MD5Update_absorbs:
  assumes "absorbed ctx m" "n \<le> length y" "n + 64 \<le> 2 ^ 32"
  shows "\<exists>ctx'. MD5Update ctx y (of_nat n) = Some ctx' \<and> absorbed ctx' (m @ take n y)"
proof -
  define r where "r = length m mod 64"
  define x where "x = take n y"
  have r: "r < 64" and ix: "drop_bit 3 (count0 ctx) AND 0x3F = (of_nat r :: u32)"
    using buffer_index [OF assms(1)] by (simp_all add: r_def)
  have n: "n + 64 \<le> 2 ^ 32" "length x = n" using assms(2,3) by (simp_all add: x_def)
  have yx: "take k (drop 0 y) = take k x" if "k \<le> n" for k using that by (simp add: x_def min_absorb1)
  let ?buf = "md_buffer ctx"
  have buf: "length ?buf = 64" "take r ?buf = leftover m" and st: "md_state ctx = absorb md5_init_state m"
    and bits: "unat (count0 ctx) + 2 ^ 32 * unat (count1 ctx) = (8 * length m) mod 2 ^ 64"
    using assms(1) by (simp_all add: absorbed_def md5_bits_def r_def)
  have part: "(64 :: u32) - of_nat r = of_nat (64 - r)" using u32_minus [of r 64] r by simp
  have ge: "(of_nat (64 - r) \<le> (of_nat n :: u32)) = (64 - r \<le> n)"
    using unat_of_nat_u32 [of n] unat_of_nat_u32 [of "64 - r"] n by (simp add: word_le_nat_alt)
  have u: "uint (of_nat r :: u32) = int r" "uint (of_nat (64 - r) :: u32) = int (64 - r)"
    using uint_of_nat_u32 [of r] uint_of_nat_u32 [of "64 - r"] r by simp_all
  let ?c0 = "count0 ctx + push_bit 3 (of_nat n)"
  let ?c1 = "(if ?c0 < push_bit 3 (of_nat n) then count1 ctx + 1 else count1 ctx) + drop_bit 29 (of_nat n)"
  have cnt: "unat ?c0 + 2 ^ 32 * unat ?c1 = (8 * length (m @ x)) mod 2 ^ 64"
    using bits_step [OF bits, of n] n by (simp add: distrib_left)
  show ?thesis
  proof (cases "64 - r \<le> n")
    case False
    have "memcpy ?buf (int r) y (int 0) (int n) = Some (take r ?buf @ take n (drop 0 y) @ drop (r + n) ?buf)"
      by (rule memcpy_nat) (use False buf assms(2) in auto)
    then have m0: "memcpy ?buf (int r) y 0 (int n) = Some (leftover m @ x @ drop (r + n) ?buf)" using buf(2) by (simp add: x_def)
    have un: "uint (of_nat n :: u32) = int n" using n by (intro uint_of_nat_u32) simp
    have ng: "(of_nat (64 - r) \<le> (of_nat n :: u32)) = False" using ge False by simp
    have "MD5Update ctx y (of_nat n) = Some \<lparr>md_state = md_state ctx, count0 = ?c0, count1 = ?c1,
        md_buffer = leftover m @ x @ drop (r + n) ?buf\<rparr>"
      unfolding MD5Update_def Let_def ix part ng by (simp only: if_False Option.bind.simps prod.case u un m0 diff_0_right uint_0_eq)
    moreover have "absorb md5_init_state (m @ x) = absorb md5_init_state m" "leftover (m @ x) = leftover m @ x"
      using absorb_append [of md5_init_state m x] False r by (simp_all add: absorb_short leftover_short r_def n)
    moreover have "(length m + n) mod 64 = (r + n) mod 64" unfolding r_def by (simp only: mod_add_left_eq)
    then have "length (m @ x) mod 64 = length (leftover m @ x)" using False r by (simp add: r_def n)
    moreover have "take (length (leftover m @ x)) (leftover m @ x @ drop (r + n) ?buf) = leftover m @ x"
      "length (leftover m @ x @ drop (r + n) ?buf) = 64" using buf False r n(2) by (simp_all add: r_def)
    ultimately have "absorbed \<lparr>md_state = md_state ctx, count0 = ?c0, count1 = ?c1,
        md_buffer = leftover m @ x @ drop (r + n) ?buf\<rparr> (m @ x)"
      using cnt st unfolding absorbed_def md5_bits_def by (simp only: MD5_CTX.simps simp_thms)
    with \<open>MD5Update ctx y (of_nat n) = _\<close> show ?thesis unfolding x_def by blast
  next
    case True
    let ?full = "leftover m @ take (64 - r) x"
    have full: "length ?full = 64" using True n r by (simp add: r_def)
    have "memcpy ?buf (int r) y (int 0) (int (64 - r)) = Some (take r ?buf @ take (64 - r) (drop 0 y) @ drop (r + (64 - r)) ?buf)"
      by (rule memcpy_nat) (use True buf assms(2) r in auto)
    then have m1: "memcpy ?buf (int r) y 0 (int (64 - r)) = Some ?full" unfolding yx [OF True] using buf r by simp
    let ?i = "n - (n - (64 - r)) mod 64"
    let ?st = "absorb (MD5Transform (md_state ctx) ?full) (drop (64 - r) x)"
    have bl: "md5_blocks (MD5Transform (md_state ctx) ?full) y (of_nat (64 - r)) (of_nat n) = Some (?st, of_nat ?i)"
      using md5_blocks_run [OF True assms(2,3), of "MD5Transform (md_state ctx) ?full"] unfolding x_def .
    have i: "?i \<le> n" "n - ?i = (n - (64 - r)) mod 64" "n - ?i < 64" by (simp_all add: le_diff_conv2)
    have w: "(of_nat n :: u32) - of_nat ?i = of_nat (n - ?i)" "uint (of_nat ?i :: u32) = int ?i"
      "uint (of_nat (n - ?i) :: u32) = int (n - ?i)"
      using u32_minus [OF i(1)] uint_of_nat_u32 [of ?i] uint_of_nat_u32 [of "n - ?i"] i n by (simp_all only:)
    have "memcpy ?full (int 0) y (int ?i) (int (n - ?i)) =
        Some (take 0 ?full @ take (n - ?i) (drop ?i y) @ drop (0 + (n - ?i)) ?full)"
      by (rule memcpy_nat) (use full i assms(2) in auto)
    moreover have "take (n - ?i) (drop ?i y) = drop ?i x" unfolding x_def by (simp only: drop_take)
    ultimately have m2: "memcpy ?full 0 y (int ?i) (int (n - ?i)) = Some (drop ?i x @ drop (n - ?i) ?full)" by simp
    have ge1: "(of_nat (64 - r) \<le> (of_nat n :: u32)) = True" using ge True by simp
    have upd: "MD5Update ctx y (of_nat n) = Some \<lparr>md_state = ?st, count0 = ?c0, count1 = ?c1,
        md_buffer = drop ?i x @ drop (n - ?i) ?full\<rparr>"
      unfolding MD5Update_def Let_def ix part ge1
      by (simp only: if_True Option.bind.simps prod.case u m1 bl w m2 uint_0_eq)
    have eq: "leftover m @ x = ?full @ drop (64 - r) x" by simp
    have "absorb md5_init_state (m @ x) = absorb (md_state ctx) (leftover m @ x)"
      using absorb_append [of md5_init_state m x] st by simp
    also have "\<dots> = ?st" unfolding eq by (rule absorb_block [OF full])
    finally have ab: "absorb md5_init_state (m @ x) = ?st" .
    have lo: "leftover (m @ x) = drop ?i x"
    proof -
      have "leftover (m @ x) = leftover (leftover m @ x)" using absorb_append [of md5_init_state m x] by simp
      also have "\<dots> = leftover (drop (64 - r) x)" unfolding eq by (rule leftover_block [OF full])
      also have "\<dots> = drop (64 - r + 64 * ((n - (64 - r)) div 64)) x" using n by (simp add: leftover_def add.commute)
      also have "64 - r + 64 * ((n - (64 - r)) div 64) = ?i"
        using True mult_div_mod_eq [of 64 "n - (64 - r)"] by linarith
      finally show ?thesis .
    qed
    have "length (m @ x) mod 64 = length (drop ?i x)" unfolding lo [symmetric] by simp
    then have "take (length (m @ x) mod 64) (drop ?i x @ drop (n - ?i) ?full) = leftover (m @ x)"
      unfolding lo by simp
    moreover have "length (drop ?i x @ drop (n - ?i) ?full) = 64"
      unfolding length_append [of "drop ?i x"] length_drop [of _ ?full] length_drop [of _ x] full n(2) using i(3) by linarith
    ultimately have "absorbed \<lparr>md_state = ?st, count0 = ?c0, count1 = ?c1, md_buffer = drop ?i x @ drop (n - ?i) ?full\<rparr> (m @ x)"
      using ab cnt unfolding absorbed_def md5_bits_def by (simp only: MD5_CTX.simps simp_thms)
    with upd show ?thesis unfolding x_def by blast
  qed
qed


subsection \<open>Finishing\<close>

text \<open>The padding and the length that follow the message in the reference, and the reference itself.\<close>

definition md5_pad :: "nat \<Rightarrow> byte list" where
  "md5_pad n = 0x80 # replicate (if n mod 64 < 56 then 55 - n mod 64 else 119 - n mod 64) 0"

definition md5_length :: "nat \<Rightarrow> byte list" where
  "md5_length n = Encode [of_nat (8 * n), of_nat (8 * n div 2 ^ 32)]"

definition md5_ref :: "byte list \<Rightarrow> byte list" where
  "md5_ref m = Encode (md5_words (absorb md5_init_state (m @ md5_pad (length m) @ md5_length (length m))))"

lemma length_Encode [simp]: "length (Encode ws) = 4 * length ws"
  by (induction ws) simp_all

lemma length_md5_ref [simp]: "length (md5_ref m) = 16"
  by (simp add: md5_ref_def md5_words_def split: prod.split)

text \<open>The padded message consists of whole blocks: the fold leaves nothing out.\<close>

lemma padded_length: "64 dvd length (m @ md5_pad (length m) @ md5_length (length m))"
proof -
  define r where "r = length m mod 64"
  define q where "q = length m div 64"
  have m: "length m = 64 * q + r" and r: "r < 64" by (simp_all add: q_def r_def)
  have p: "length (md5_pad (length m)) = (if r < 56 then 56 - r else 120 - r)"
    using r unfolding md5_pad_def r_def [symmetric] by (cases "r < 56") (simp_all add: Suc_diff_le [symmetric] Suc_diff_Suc)
  have "length (m @ md5_pad (length m) @ md5_length (length m)) = (if r < 56 then 64 * (q + 1) else 64 * (q + 2))"
    using r unfolding length_append p by (simp add: md5_length_def m)
  then show ?thesis by simp
qed

lemma counters:
  assumes "absorbed ctx m"
  shows "count0 ctx = of_nat (8 * length m)" "count1 ctx = of_nat (8 * length m div 2 ^ 32)"
proof -
  let ?b = "8 * length m" and ?c0 = "unat (count0 ctx)" and ?c1 = "unat (count1 ctx)"
  have b: "?c0 + 2 ^ 32 * ?c1 = ?b mod (2 ^ 32 * 2 ^ 32)" using assms by (simp add: absorbed_def md5_bits_def)
  also have "\<dots> = ?b mod 2 ^ 32 + 2 ^ 32 * (?b div 2 ^ 32 mod 2 ^ 32)" by (simp only: mod_mult2_eq add.commute)
  finally have s: "?c0 + 2 ^ 32 * ?c1 = ?b mod 2 ^ 32 + 2 ^ 32 * (?b div 2 ^ 32 mod 2 ^ 32)" .
  have "?c0 = (?c0 + 2 ^ 32 * ?c1) mod 2 ^ 32" using unat_below [of "count0 ctx"] by simp
  then have c0: "?c0 = ?b mod 2 ^ 32" unfolding s by simp
  then have "?c1 = ?b div 2 ^ 32 mod 2 ^ 32" using s by simp
  with c0 show "count0 ctx = of_nat ?b" "count1 ctx = of_nat (?b div 2 ^ 32)"
    unfolding word_unat_eq_iff unat_of_nat by simp_all
qed

lemma MD5Final_ref:
  assumes "absorbed ctx m"
  shows "MD5Final ctx = Some (md5_ref m)"
proof -
  define k where "k = (if length m mod 64 < 56 then 56 - length m mod 64 else 120 - length m mod 64)"
  have k: "k \<le> 64" "0 < k" "(if (of_nat (length m mod 64) :: u32) < 56 then 56 - of_nat (length m mod 64)
      else 120 - of_nat (length m mod 64)) = (of_nat k :: u32)"
    using u32_minus [of "length m mod 64" 56] u32_minus [of "length m mod 64" 120] unat_of_nat_u32 [of "length m mod 64"]
    by (auto simp: k_def word_less_nat_alt)
  have pad: "take k PADDING = md5_pad (length m)"
    unfolding PADDING_def md5_pad_def k_def by (auto simp: take_Cons' min_def)
  have "k \<le> length PADDING" using k by (simp add: PADDING_def)
  then obtain c1 where c1: "MD5Update ctx PADDING (of_nat k) = Some c1" "absorbed c1 (m @ md5_pad (length m))"
    using MD5Update_absorbs [OF assms, of k PADDING] k(1) unfolding pad by auto
  have len: "Encode [count0 ctx, count1 ctx] = md5_length (length m)"
    unfolding md5_length_def counters [OF assms] by (rule refl)
  obtain c2 where "MD5Update c1 (md5_length (length m)) (of_nat 8) = Some c2"
    "absorbed c2 ((m @ md5_pad (length m)) @ take 8 (md5_length (length m)))"
    using MD5Update_absorbs [OF c1(2), of 8 "md5_length (length m)"] by (auto simp: md5_length_def)
  then show ?thesis
    using c1(1) k(3) unfolding MD5Final_def Let_def buffer_index [OF assms] len
    by (simp add: md5_ref_def absorbed_def md5_length_def)
qed

text \<open>Pieces fed one after the other.\<close>

fun md5_feed :: "MD5_CTX \<Rightarrow> byte list list \<Rightarrow> MD5_CTX option" where
  "md5_feed ctx [] = Some ctx"
| "md5_feed ctx (y # ys) = do { ctx \<leftarrow> MD5Update ctx y (of_nat (length y)); md5_feed ctx ys }"

lemma md5_feed_absorbs:
  "absorbed ctx m \<Longrightarrow> \<forall>y \<in> set ys. length y + 64 \<le> 2 ^ 32 \<Longrightarrow>
    \<exists>ctx'. md5_feed ctx ys = Some ctx' \<and> absorbed ctx' (m @ concat ys)"
proof (induction ys arbitrary: ctx m)
  case (Cons y ys)
  then obtain c where "MD5Update ctx y (of_nat (length y)) = Some c" "absorbed c (m @ y)"
    using MD5Update_absorbs [OF Cons.prems(1), of "length y" y] by auto
  with Cons.IH [of c "m @ y"] Cons.prems(2) show ?case by simp
qed simp

subsection \<open>Digests of strings and files\<close>

text \<open>
  \<open>cbuf\<close> and \<open>buf\<close> are what uninitialised local arrays hold.  A file is the list of its bytes:
  \<^verbatim>\<open>fread\<close> delivers the next bytes, and none at the end.
\<close>

definition MD5_digest :: "byte list \<Rightarrow> byte list \<Rightarrow> byte list option" where
  "MD5_digest cbuf s = do { ctx \<leftarrow> MD5Update (MD5Init cbuf) s (of_nat (length s)); MD5Final ctx }"

definition fread :: "byte list \<Rightarrow> nat \<Rightarrow> byte list \<Rightarrow> nat \<times> byte list \<times> byte list" where
  "fread buf n fs = (length (take n fs), take n fs @ drop (length (take n fs)) buf, drop n fs)"

text \<open>The loop of \<^verbatim>\<open>MDFile\<close> and \<^verbatim>\<open>MDFile_key\<close>.\<close>

function md_file_loop :: "MD5_CTX \<Rightarrow> byte list \<Rightarrow> byte list \<Rightarrow> MD5_CTX option" where
  "md_file_loop ctx buf fs =
     (case fread buf 1024 fs of (len, buf', fs') \<Rightarrow>
        if len = 0 then Some ctx
        else (case MD5Update ctx buf' (of_nat len) of None \<Rightarrow> None | Some ctx' \<Rightarrow> md_file_loop ctx' buf' fs'))"
  by auto
termination by (relation "measure (\<lambda>(ctx, buf, fs). length fs)") (auto simp: fread_def)

text \<open>The loop of \<^verbatim>\<open>MDFile_key_len\<close>, which stops after \<open>uiLen\<close> bytes.\<close>

function md_file_len_loop :: "MD5_CTX \<Rightarrow> byte list \<Rightarrow> byte list \<Rightarrow> u32 \<Rightarrow> MD5_CTX option" where
  "md_file_len_loop ctx buf fs uiLen =
     (if uiLen = 0 then Some ctx
      else case fread buf (unat (if uiLen > 1024 then 1024 else uiLen)) fs of (len, buf', fs') \<Rightarrow>
        if len > 0
        then (case MD5Update ctx buf' (of_nat len) of None \<Rightarrow> None
              | Some ctx' \<Rightarrow> md_file_len_loop ctx' buf' fs' (uiLen - of_nat len))
        else Some ctx)"
  by auto
termination by (relation "measure (\<lambda>(ctx, buf, fs, uiLen). length fs)") (auto simp: fread_def split: if_splits)

declare md_file_loop.simps [simp del] md_file_len_loop.simps [simp del]

definition MDFile :: "byte list \<Rightarrow> byte list \<Rightarrow> byte list \<Rightarrow> byte list option" where
  "MDFile cbuf buf fs = do { ctx \<leftarrow> md_file_loop (MD5Init cbuf) buf fs; MD5Final ctx }"

text \<open>The keyed digests; a key is a C string, without its terminator.\<close>

definition hmac_key :: "byte list \<Rightarrow> byte list \<Rightarrow> byte list option" where
  "hmac_key cbuf key = (if length key > 64 then MD5_digest cbuf key else Some key)"

definition hmac_pad :: "byte \<Rightarrow> byte list \<Rightarrow> byte list option" where
  "hmac_pad x key = do {
     pad \<leftarrow> memcpy (replicate 65 0) 0 key 0 (int (length key));
     Some (map (\<lambda>b. b XOR x) (take 64 pad) @ drop 64 pad)
   }"

text \<open>The second pass is the same in the three functions.\<close>

definition hmac_outer :: "byte list \<Rightarrow> byte list \<Rightarrow> byte list \<Rightarrow> byte list option" where
  "hmac_outer cbuf k_opad digest = do {
     ctx \<leftarrow> MD5Update (MD5Init cbuf) k_opad 64;
     ctx \<leftarrow> MD5Update ctx digest 16;
     MD5Final ctx
   }"

definition hmac_md5 :: "byte list \<Rightarrow> byte list \<Rightarrow> byte list \<Rightarrow> byte list option" where
  "hmac_md5 cbuf str key = do {
     key \<leftarrow> hmac_key cbuf key;
     k_ipad \<leftarrow> hmac_pad 0x36 key;
     k_opad \<leftarrow> hmac_pad 0x5c key;
     ctx \<leftarrow> MD5Update (MD5Init cbuf) k_ipad 64;
     ctx \<leftarrow> MD5Update ctx str (of_nat (length str));
     digest \<leftarrow> MD5Final ctx;
     hmac_outer cbuf k_opad digest
   }"

definition MDFile_key :: "byte list \<Rightarrow> byte list \<Rightarrow> byte list \<Rightarrow> byte list \<Rightarrow> byte list option" where
  "MDFile_key cbuf buf fs key = do {
     key \<leftarrow> hmac_key cbuf key;
     k_ipad \<leftarrow> hmac_pad 0x36 key;
     k_opad \<leftarrow> hmac_pad 0x5c key;
     ctx \<leftarrow> MD5Update (MD5Init cbuf) k_ipad 64;
     ctx \<leftarrow> md_file_loop ctx buf fs;
     digest \<leftarrow> MD5Final ctx;
     hmac_outer cbuf k_opad digest
   }"

definition MDFile_key_len :: "byte list \<Rightarrow> byte list \<Rightarrow> byte list \<Rightarrow> byte list \<Rightarrow> u32 \<Rightarrow> byte list option" where
  "MDFile_key_len cbuf buf fs key uiLen = do {
     key \<leftarrow> hmac_key cbuf key;
     k_ipad \<leftarrow> hmac_pad 0x36 key;
     k_opad \<leftarrow> hmac_pad 0x5c key;
     ctx \<leftarrow> MD5Update (MD5Init cbuf) k_ipad 64;
     ctx \<leftarrow> md_file_len_loop ctx buf fs uiLen;
     digest \<leftarrow> MD5Final ctx;
     hmac_outer cbuf k_opad digest
   }"

text \<open>The digest as text: the buffer \<^verbatim>\<open>output1\<close> is written two characters and a terminator at a time.\<close>

definition hex_digit :: "bool \<Rightarrow> byte \<Rightarrow> byte" where
  "hex_digit upper d = (if d < 10 then 48 + d else (if upper then 55 else 87) + d)"

definition sprintf_02x :: "bool \<Rightarrow> byte list \<Rightarrow> nat \<Rightarrow> byte \<Rightarrow> byte list option" where
  "sprintf_02x upper out at b =
     memcpy out (int at) [hex_digit upper (drop_bit 4 b), hex_digit upper (b AND 0xF), 0] 0 3"

fun print_digest :: "bool \<Rightarrow> byte list \<Rightarrow> nat \<Rightarrow> byte list \<Rightarrow> byte list option" where
  "print_digest upper out i [] = Some out"
| "print_digest upper out i (b # bs) = do {
     out \<leftarrow> sprintf_02x upper out (2 * i) b;
     out \<leftarrow> sprintf_02x upper out (2 * i + 1) (push_bit 4 b);
     print_digest upper out (i + 1) bs
   }"

text \<open>\<open>out1\<close> is the local array \<^verbatim>\<open>output1\<close>; what is returned is the copy of its first 32 characters.\<close>

definition digest_text :: "bool \<Rightarrow> byte list \<Rightarrow> byte list \<Rightarrow> byte list option" where
  "digest_text upper out1 digest = do { out1 \<leftarrow> print_digest upper out1 0 digest; Some (take 32 out1) }"

subsection \<open>The loops and the keyed digests against the reference\<close>

lemma MD5_digest_ref:
  assumes "length cbuf = 64" "length s + 64 \<le> 2 ^ 32"
  shows "MD5_digest cbuf s = Some (md5_ref s)"
  using MD5Update_absorbs [OF absorbed_init [OF assms(1)], of "length s" s] assms(2)
  by (auto simp: MD5_digest_def MD5Final_ref)

lemma MD5Update_prefix:
  "absorbed ctx m \<Longrightarrow> length p + 64 \<le> 2 ^ 32 \<Longrightarrow>
    \<exists>ctx'. MD5Update ctx (p @ z) (of_nat (length p)) = Some ctx' \<and> absorbed ctx' (m @ p)"
  using MD5Update_absorbs [of ctx m "length p" "p @ z"] by simp

lemma md_file_loop_absorbs:
  "absorbed ctx m \<Longrightarrow> length buf = 1024 \<Longrightarrow>
    \<exists>ctx'. md_file_loop ctx buf fs = Some ctx' \<and> absorbed ctx' (m @ fs)"
proof (induction "length fs" arbitrary: ctx m buf fs rule: less_induct)
  case less
  let ?p = "take 1024 fs" and ?buf = "take 1024 fs @ drop (length (take 1024 fs)) buf"
  show ?case
  proof (cases "fs = []")
    case True
    then show ?thesis using less.prems by (subst md_file_loop.simps) (simp add: fread_def)
  next
    case False
    have "length ?p + 64 \<le> 2 ^ 32" by simp
    then obtain c where c: "MD5Update ctx ?buf (of_nat (length ?p)) = Some c" "absorbed c (m @ ?p)"
      using MD5Update_prefix [OF less.prems(1)] by blast
    have "length (drop 1024 fs) < length fs" "length ?buf = 1024" using False less.prems(2) by auto
    from less.hyps [OF this(1) c(2) this(2)] obtain c' where
      "md_file_loop c ?buf (drop 1024 fs) = Some c'" "absorbed c' (m @ fs)" by auto
    moreover have "md_file_loop ctx buf fs = md_file_loop c ?buf (drop 1024 fs)"
      using False c(1) by (subst md_file_loop.simps) (simp add: fread_def del: length_take)
    ultimately show ?thesis by simp
  qed
qed

lemma md_file_len_loop_absorbs:
  "absorbed ctx m \<Longrightarrow> length buf = 1024 \<Longrightarrow>
    \<exists>ctx'. md_file_len_loop ctx buf fs k = Some ctx' \<and> absorbed ctx' (m @ take (unat k) fs)"
proof (induction "length fs" arbitrary: ctx m buf fs k rule: less_induct)
  case less
  let ?n = "unat (if k > 1024 then 1024 else k)"
  let ?p = "take ?n fs"
  let ?buf = "?p @ drop (length ?p) buf"
  have n: "?n \<le> unat k" "?n \<le> 1024" by (auto simp: word_less_nat_alt word_le_nat_alt)
  show ?case
  proof (cases "k = 0 \<or> fs = []")
    case True
    then show ?thesis using less.prems by (subst md_file_len_loop.simps) (auto simp: fread_def)
  next
    case False
    then have "?n \<noteq> 0" by (auto simp: unat_eq_0)
    then have pos: "0 < length ?p" using False by simp
    have p: "length ?p \<le> unat k" "length ?p \<le> 1024" using n by (simp_all only: length_take min.coboundedI2)
    have "length ?p + 64 \<le> 2 ^ 32" using p(2) by (simp del: length_take)
    then obtain c where c: "MD5Update ctx ?buf (of_nat (length ?p)) = Some c" "absorbed c (m @ ?p)"
      using MD5Update_prefix [OF less.prems(1)] by blast
    have k': "unat (k - of_nat (length ?p)) = unat k - length ?p"
      using p unat_of_nat_u32 [of "length ?p"] by (simp add: unat_sub_if_size word_size)
    have "length (drop ?n fs) < length fs" "length ?buf = 1024" using False \<open>?n \<noteq> 0\<close> p(2) less.prems(2) by auto
    from less.hyps [OF this(1) c(2) this(2)] obtain c' where
      c': "md_file_len_loop c ?buf (drop ?n fs) (k - of_nat (length ?p)) = Some c'"
      "absorbed c' ((m @ ?p) @ take (unat k - length ?p) (drop ?n fs))" unfolding k' [symmetric] by blast
    have "?p @ take (unat k - length ?p) (drop ?n fs) = take (unat k) fs"
      using n(1) by (cases "?n \<le> length fs") (auto simp: take_add [symmetric] min_def)
    moreover have "md_file_len_loop ctx buf fs k = md_file_len_loop c ?buf (drop ?n fs) (k - of_nat (length ?p))"
      using False pos c(1) by (subst md_file_len_loop.simps) (simp add: fread_def del: length_take)
    ultimately show ?thesis using c' by simp
  qed
qed

text \<open>The keyed digest as RFC 2104 describes it.\<close>

definition hmac_block :: "byte list \<Rightarrow> byte list" where
  "hmac_block key = (let k = (if length key > 64 then md5_ref key else key) in k @ replicate (64 - length k) 0)"

definition hmac_ref :: "byte list \<Rightarrow> byte list \<Rightarrow> byte list" where
  "hmac_ref key m = md5_ref (map (\<lambda>b. b XOR 0x5c) (hmac_block key)
     @ md5_ref (map (\<lambda>b. b XOR 0x36) (hmac_block key) @ m))"

lemma length_hmac_block [simp]: "length (hmac_block key) = 64"
  by (simp add: hmac_block_def Let_def)

text \<open>The prelude of the three functions: a key of any length leaves two pads of one block.\<close>

lemma hmac_pads:
  assumes "length cbuf = 64" "length key + 64 \<le> 2 ^ 32"
  obtains k where "hmac_key cbuf key = Some k"
    "\<And>x. hmac_pad x k = Some (map (\<lambda>b. b XOR x) (hmac_block key) @ [0])"
proof
  define k where "k = (if length key > 64 then md5_ref key else key)"
  show "hmac_key cbuf key = Some k" using MD5_digest_ref [OF assms] by (simp add: hmac_key_def k_def)
  have k: "length k \<le> 64" by (simp add: k_def)
  fix x
  have "memcpy (replicate 65 0) (int 0) k (int 0) (int (length k)) =
      Some (take 0 (replicate 65 0) @ take (length k) (drop 0 k) @ drop (0 + length k) (replicate 65 0))"
    by (rule memcpy_nat) (use k in auto)
  moreover have "replicate (65 - length k) (0 :: byte) = replicate (64 - length k) 0 @ [0]"
  proof -
    have "65 - length k = Suc (64 - length k)" using k by simp
    then show ?thesis by (simp add: replicate_append_same)
  qed
  ultimately have "memcpy (replicate 65 0) 0 k 0 (int (length k)) = Some (hmac_block key @ [0])"
    by (simp add: hmac_block_def k_def [symmetric])
  then show "hmac_pad x k = Some (map (\<lambda>b. b XOR x) (hmac_block key) @ [0])" by (simp add: hmac_pad_def)
qed

lemma pad_absorbed:
  assumes "absorbed ctx m" "length p = 64"
  shows "\<exists>ctx'. MD5Update ctx (p @ z) 64 = Some ctx' \<and> absorbed ctx' (m @ p)"
  using MD5Update_prefix [OF assms(1), of p z] assms(2) by simp

lemma hmac_outer_ref:
  assumes "length cbuf = 64" "length p = 64" "length d = 16"
  shows "hmac_outer cbuf (p @ z) d = Some (md5_ref (p @ d))"
proof -
  obtain c where c: "MD5Update (MD5Init cbuf) (p @ z) 64 = Some c" "absorbed c p"
    using pad_absorbed [OF absorbed_init [OF assms(1)] assms(2)] by auto
  obtain c' where "MD5Update c d 16 = Some c'" "absorbed c' (p @ d)"
    using MD5Update_prefix [OF c(2), of d "[]"] assms(3) by auto
  with c show ?thesis by (simp add: hmac_outer_def MD5Final_ref)
qed

text \<open>
  The three functions differ in how the second message reaches the context; each way of feeding it
  (\<open>feed\<close>) that absorbs the message gives the keyed digest.
\<close>

lemma hmac_pass:
  assumes "length cbuf = 64" "length key + 64 \<le> 2 ^ 32"
    "\<And>ctx p. absorbed ctx p \<Longrightarrow> \<exists>ctx'. feed ctx = Some ctx' \<and> absorbed ctx' (p @ m)"
  shows "do { key \<leftarrow> hmac_key cbuf key; k_ipad \<leftarrow> hmac_pad 0x36 key; k_opad \<leftarrow> hmac_pad 0x5c key;
      ctx \<leftarrow> MD5Update (MD5Init cbuf) k_ipad 64; ctx \<leftarrow> feed ctx; digest \<leftarrow> MD5Final ctx;
      hmac_outer cbuf k_opad digest } = Some (hmac_ref key m)"
proof -
  obtain k where k: "hmac_key cbuf key = Some k"
    "\<And>x. hmac_pad x k = Some (map (\<lambda>b. b XOR x) (hmac_block key) @ [0])"
    using hmac_pads [OF assms(1,2)] by blast
  let ?p = "map (\<lambda>b. b XOR 0x36) (hmac_block key)"
  obtain c where c: "MD5Update (MD5Init cbuf) (?p @ [0]) 64 = Some c" "absorbed c ?p"
    using pad_absorbed [OF absorbed_init [OF assms(1)], of ?p "[0]"] by auto
  obtain c' where "feed c = Some c'" "absorbed c' (?p @ m)" using assms(3) [OF c(2)] by blast
  with c k show ?thesis by (simp add: MD5Final_ref hmac_outer_ref [OF assms(1)] hmac_ref_def)
qed

lemma hmac_md5_ref:
  assumes "length cbuf = 64" "length key + 64 \<le> 2 ^ 32" "length m + 64 \<le> 2 ^ 32"
  shows "hmac_md5 cbuf m key = Some (hmac_ref key m)"
  unfolding hmac_md5_def using assms MD5Update_prefix [of _ _ m "[]"] by (intro hmac_pass) simp_all

lemma MDFile_key_ref:
  assumes "length cbuf = 64" "length buf = 1024" "length key + 64 \<le> 2 ^ 32"
  shows "MDFile_key cbuf buf fs key = Some (hmac_ref key fs)"
  unfolding MDFile_key_def by (intro hmac_pass assms(1,3) md_file_loop_absorbs assms(2))

lemma MDFile_key_len_ref:
  assumes "length cbuf = 64" "length buf = 1024" "length key + 64 \<le> 2 ^ 32"
  shows "MDFile_key_len cbuf buf fs key k = Some (hmac_ref key (take (unat k) fs))"
  unfolding MDFile_key_len_def by (intro hmac_pass assms(1,3) md_file_len_loop_absorbs assms(2))

subsection \<open>The digest as text\<close>

text \<open>What is printed: the two hexadecimal digits of each byte.\<close>

definition hex_text :: "bool \<Rightarrow> byte list \<Rightarrow> byte list" where
  "hex_text upper d = concat (map (\<lambda>b. [hex_digit upper (drop_bit 4 b), hex_digit upper (b AND 0xF)]) d)"

lemma length_hex_text [simp]: "length (hex_text upper d) = 2 * length d"
  by (induction d) (simp_all add: hex_text_def)

lemma nibble_mask: "(0xF :: byte) = mask 4"
  by (simp add: mask_eq_exp_minus_1)

lemma low_nibble: "push_bit 4 b AND 0xF = (0 :: byte)"
  unfolding nibble_mask by (rule bit_word_eqI) (auto simp: bit_and_iff bit_push_bit_iff bit_mask_iff)

lemma high_nibble: "drop_bit 4 (push_bit 4 b) = (b :: byte) AND 0xF"
proof -
  have "drop_bit 4 (push_bit 4 b) = take_bit 4 b"
    by (rule bit_word_eqI) (auto simp: bit_drop_bit_eq bit_push_bit_iff bit_take_bit_iff)
  then show ?thesis by (simp add: take_bit_eq_mask nibble_mask)
qed

text \<open>
  Each byte is printed twice: the second \<^verbatim>\<open>sprintf\<close> repeats the low digit, adds a digit 0 and a terminator.
  The room needed is therefore two more bytes than the text has.
\<close>

lemma print_digest_room:
  "2 * (i + length d) + 2 \<le> length out \<Longrightarrow> d \<noteq> [] \<Longrightarrow>
    print_digest upper out i d =
      Some (take (2 * i) out @ hex_text upper d @ [hex_digit upper 0, 0] @ drop (2 * (i + length d) + 2) out)"
proof (induction d arbitrary: i out)
  case (Cons b d)
  let ?h = "hex_digit upper (drop_bit 4 b)" and ?l = "hex_digit upper (b AND 0xF)" and ?z = "hex_digit upper 0"
  let ?o1 = "take (2 * i) out @ [?h, ?l, 0] @ drop (2 * i + 3) out"
  let ?o2 = "take (2 * i) out @ [?h, ?l, ?z, 0] @ drop (2 * i + 4) out"
  have "memcpy out (int (2 * i)) [?h, ?l, 0] (int 0) (int 3) = Some ?o1"
    using Cons.prems by (subst memcpy_nat) auto
  then have 1: "sprintf_02x upper out (2 * i) b = Some ?o1" by (simp add: sprintf_02x_def)
  have "memcpy ?o1 (int (2 * i + 1)) [?l, ?z, 0] (int 0) (int 3) = Some ?o2"
    using Cons.prems by (subst memcpy_nat) (auto simp: take_Cons' add.commute)
  then have 2: "sprintf_02x upper ?o1 (2 * i + 1) (push_bit 4 b) = Some ?o2"
    by (simp add: sprintf_02x_def high_nibble low_nibble)
  show ?case
  proof (cases "d = []")
    case True
    have e: "Suc (Suc (Suc (Suc (2 * i)))) = 2 * i + 4" by simp
    then show ?thesis using 1 2 True by (simp add: hex_text_def e)
  next
    case False
    have "print_digest upper ?o2 (i + 1) d = Some (take (2 * (i + 1)) ?o2 @ hex_text upper d @ [?z, 0]
        @ drop (2 * (i + 1 + length d) + 2) ?o2)"
      using Cons.prems False by (intro Cons.IH) auto
    moreover have e: "Suc (Suc (Suc (Suc (2 * i + 2 * length d)))) = 2 * i + (2 * length d + 4)" by simp
    ultimately show ?thesis using 1 2 Cons.prems False by (simp add: hex_text_def take_Cons' drop_Cons' e)
  qed
qed simp

lemma sprintf_02x_length: "sprintf_02x upper out i b = Some out' \<Longrightarrow> length out' = length out \<and> i + 3 \<le> length out"
  by (auto simp: sprintf_02x_def memcpy_def split: if_splits)

lemma print_digest_overrun:
  "length out < 2 * (i + length d) + 2 \<Longrightarrow> d \<noteq> [] \<Longrightarrow> print_digest upper out i d = None"
proof (induction d arbitrary: i out)
  case (Cons b d)
  show ?case
  proof (rule ccontr)
    assume "print_digest upper out i (b # d) \<noteq> None"
    then obtain o1 o2 where 1: "sprintf_02x upper out (2 * i) b = Some o1"
      "sprintf_02x upper o1 (2 * i + 1) (push_bit 4 b) = Some o2" "print_digest upper o2 (i + 1) d \<noteq> None"
      by (auto split: bind_splits)
    then have "length o2 = length out" "2 * i + 4 \<le> length out"
      using sprintf_02x_length [OF 1(1)] sprintf_02x_length [OF 1(2)] by auto
    then show False using Cons.IH [of o2 "i + 1"] Cons.prems 1(3) by (cases "d = []") auto
  qed
qed simp

text \<open>
  C39: A digest does not depend on how the message is cut: feeding any pieces to a new context, one after the
  other, and finishing it gives the digest of their concatenation, and no access leaves its buffer.
\<close>
theorem md5_of_pieces:
  assumes "length cbuf = 64" "\<forall>y \<in> set ys. length y + 64 \<le> 2 ^ 32"
  shows "\<exists>ctx. md5_feed (MD5Init cbuf) ys = Some ctx \<and> MD5Final ctx = Some (md5_ref (concat ys))"
  using md5_feed_absorbs [OF absorbed_init [OF assms(1)] assms(2)] by (auto simp: MD5Final_ref)

text \<open>
  C40: The keyed digests of a string and of a file, and the one of the first \<open>k\<close> bytes of a file, are the
  digests of RFC 2104, for every key and every length of the data; so are the plain digests of a file and of
  a string.
\<close>
theorem keyed_digests:
  assumes "length cbuf = 64" "length buf = 1024" "length key + 64 \<le> 2 ^ 32" "length m + 64 \<le> 2 ^ 32"
  shows "hmac_md5 cbuf m key = Some (hmac_ref key m)
    \<and> MDFile_key cbuf buf fs key = Some (hmac_ref key fs)
    \<and> MDFile_key_len cbuf buf fs key k = Some (hmac_ref key (take (unat k) fs))
    \<and> MDFile cbuf buf fs = Some (md5_ref fs) \<and> MD5_digest cbuf m = Some (md5_ref m)"
  using assms md_file_loop_absorbs [OF absorbed_init [OF assms(1)] assms(2), of fs]
  by (auto simp: hmac_md5_ref MDFile_key_ref MDFile_key_len_ref MD5_digest_ref MDFile_def MD5Final_ref)

text \<open>
  The digest as text needs 34 bytes of room: in an array of 32, as the code has it, the last two writes
  leave the array; with the room they need, the first 32 characters are the digest in hexadecimal.
\<close>
theorem digest_text_overruns:
  assumes "length d = 16"
  shows "digest_text upper out1 d = (if length out1 < 34 then None else Some (hex_text upper d))"
proof -
  have "d \<noteq> []" using assms by auto
  then show ?thesis
    using assms print_digest_room [of 0 d out1 upper] print_digest_overrun [of out1 0 d upper]
    by (auto simp: digest_text_def)
qed

text \<open>The pieces of a message, and a test vector of RFC 1321 (\<open>abc\<close>).\<close>

lemma md5_of_pieces_witness:
  "\<exists>ctx. md5_feed (MD5Init (replicate 64 0)) [[97], [98, 99]] = Some ctx \<and>
    MD5Final ctx = Some (md5_ref (concat [[97], [98, 99]]))"
  by (rule md5_of_pieces) simp_all

lemma keyed_digests_witness:
  "hmac_md5 (replicate 64 0) [1, 2] (replicate 65 7) = Some (hmac_ref (replicate 65 7) [1, 2]) \<and>
   MDFile_key_len (replicate 64 0) (replicate 1024 0) [1, 2, 3] (replicate 65 7) 2 =
     Some (hmac_ref (replicate 65 7) [1, 2])"
  using keyed_digests [of "replicate 64 0" "replicate 1024 0" "replicate 65 7" "[1, 2]" "[1, 2, 3]" 2]
  by simp

lemma digest_text_overruns_witness:
  "digest_text False (replicate 32 0) (replicate 16 0xAB) = None"
  using digest_text_overruns [of "replicate 16 0xAB" False "replicate 32 0"] by simp

lemma abc_vector:
  "bind (md5_feed (MD5Init (replicate 64 0)) [[97, 98, 99]]) MD5Final =
    Some [0x90, 0x01, 0x50, 0x98, 0x3c, 0xd2, 0x4f, 0xb0, 0xd6, 0x96, 0x3f, 0x7d, 0x28, 0xe1, 0x7f, 0x72]"
  by code_simp

end
