(* ===== verification/RtspAuth.thy ===== *)
theory RtspAuth
  imports RtspParse Md5
begin

section \<open>Digest authentication of the RTSP server\<close>

text \<open>
  \<^verbatim>\<open>get_check_md5\<close>, \<^verbatim>\<open>parseAuthorizationHeader\<close>, \<^verbatim>\<open>authenticationOK\<close> and \<^verbatim>\<open>rtsp_describe_authentication\<close> of
  \<^verbatim>\<open>room/rtsp/rtsp_server.c\<close>, the digest functions of \<^verbatim>\<open>room/rtsp/our_md5.c\<close> and \<^verbatim>\<open>our_md5hl.c\<close>, and the URL
  check of \<^verbatim>\<open>enc/modules/porting/rtsp_porting_common.c\<close>.

  The block function and the coding of words of \<^verbatim>\<open>our_md5.c\<close> are those of \<^theory_text>\<open>Md5\<close>.  C strings are their
  characters; allocation succeeds.  \<open>cbuf\<close> is what the buffer of an uninitialised context holds, \<open>seed\<close> the 100 bytes
  (the time as text and what stands behind it) from which a nonce is made.
\<close>

subsection \<open>The digests\<close>

definition ourMD5Update :: "MD5_CTX \<Rightarrow> byte list \<Rightarrow> u32 \<Rightarrow> MD5_CTX option" where
  "ourMD5Update ctx input inputLen = do {
     let index = drop_bit 3 (count0 ctx) AND 0x3F;
     let c0 = count0 ctx + push_bit 3 inputLen;
     let c1 = (if c0 < push_bit 3 inputLen then count1 ctx + 1 else count1 ctx);
     let c1 = c1 + drop_bit 29 inputLen;
     let partLen = 64 - index;
     (st, buf, index, i) \<leftarrow>
       (if inputLen \<ge> partLen then do {
          buf \<leftarrow> memcpy (md_buffer ctx) (uint index) input 0 (uint partLen);
          (st, i) \<leftarrow> md5_blocks (MD5Transform (md_state ctx) buf) input partLen inputLen;
          Some (st, buf, 0, i)
        }
        else Some (md_state ctx, md_buffer ctx, index, 0));
     buf \<leftarrow> (if inputLen - i \<noteq> 0 then memcpy buf (uint index) input (uint i) (uint (inputLen - i)) else Some buf);
     Some \<lparr>md_state = st, count0 = c0, count1 = c1, md_buffer = buf\<rparr>
   }"

definition our_MD5Final :: "MD5_CTX \<Rightarrow> byte list option" where
  "our_MD5Final ctx = do {
     let bits = Encode [count0 ctx, count1 ctx];
     let index = drop_bit 3 (count0 ctx) AND 0x3F;
     let padLen = (if index < 56 then 56 - index else 120 - index);
     ctx \<leftarrow> ourMD5Update ctx PADDING padLen;
     ctx \<leftarrow> ourMD5Update ctx bits 8;
     Some (Encode (md5_words (md_state ctx)))
   }"

text \<open>The 32 characters stored before the final zero.\<close>

fun our_hex :: "byte list \<Rightarrow> byte list" where
  "our_hex [] = []"
| "our_hex (d # ds) = hex_digit False (drop_bit 4 d) # hex_digit False (d AND 0x0f) # our_hex ds"

definition our_MD5End :: "MD5_CTX \<Rightarrow> byte list option" where
  "our_MD5End ctx = do {digest \<leftarrow> our_MD5Final ctx; Some (our_hex digest)}"

definition our_MD5Data :: "byte list \<Rightarrow> byte list \<Rightarrow> byte list option" where
  "our_MD5Data cbuf data = do {ctx \<leftarrow> ourMD5Update (MD5Init cbuf) data (of_nat (length data)); our_MD5End ctx}"

subsection \<open>Settings\<close>

record User_Authentication =
  user_name :: "byte list"
  user_pass :: "byte list"
  realm :: "byte list"
  permissions :: int

definition set_rtsp_module_realm :: "byte list option \<Rightarrow> User_Authentication \<Rightarrow> int \<times> User_Authentication" where
  "set_rtsp_module_realm reaml g =
     (case reaml of None \<Rightarrow> (- 1, g)
      | Some s \<Rightarrow> if 30 < length s + 1 then (- 1, g) else (0, g\<lparr>realm := s\<rparr>))"

definition set_rtsp_module_userinfo ::
    "byte list option \<Rightarrow> byte list option \<Rightarrow> User_Authentication \<Rightarrow> int \<times> User_Authentication" where
  "set_rtsp_module_userinfo uname passwd g =
     (case (uname, passwd) of
        (Some u, Some p) \<Rightarrow>
          if 30 < length u + 1 then (- 1, g)
          else if 30 < length p + 1 then (- 1, g)
          else (0, g\<lparr>user_name := u, user_pass := p\<rparr>)
      | _ \<Rightarrow> (- 1, g))"

definition set_rtsp_module_permissions :: "int \<Rightarrow> User_Authentication \<Rightarrow> int \<times> User_Authentication" where
  "set_rtsp_module_permissions p g = (if p = 0 \<or> p = 1 then (0, g\<lparr>permissions := p\<rparr>) else (- 1, g))"

record Autenticatino_Info =
  nonce :: "byte list"
  url :: "byte list"

subsection \<open>The expected answer\<close>

definition get_reply_md5 :: "byte list \<Rightarrow> byte list \<Rightarrow> byte list option" where
  "get_reply_md5 cbuf seed = our_MD5Data cbuf seed"

definition get_check_md5 ::
    "byte list \<Rightarrow> byte list \<Rightarrow> Autenticatino_Info \<Rightarrow> User_Authentication \<Rightarrow> byte list option" where
  "get_check_md5 cbuf cmdName aut user = do {
     ha1 \<leftarrow> our_MD5Data cbuf (user_name user @ [0x3a] @ realm user @ [0x3a] @ user_pass user);
     ha2 \<leftarrow> our_MD5Data cbuf (cmdName @ [0x3a] @ url aut);
     our_MD5Data cbuf (take (32 + 1 + length (nonce aut) + 1 + 32) (ha1 @ [0x3a] @ nonce aut @ [0x3a] @ ha2))}"

subsection \<open>The header of the client\<close>

record auth_values =
  a_username :: "byte list option"
  a_realm :: "byte list option"
  a_nonce :: "byte list option"
  a_uri :: "byte list option"
  a_response :: "byte list option"

definition no_values :: auth_values where
  "no_values = \<lparr>a_username = None, a_realm = None, a_nonce = None, a_uri = None, a_response = None\<rparr>"

definition set_value :: "byte list \<Rightarrow> byte list \<Rightarrow> auth_values \<Rightarrow> auth_values" where
  "set_value p v a =
     (if p = chars ''username'' then a\<lparr>a_username := Some v\<rparr>
      else if p = chars ''realm'' then a\<lparr>a_realm := Some v\<rparr>
      else if p = chars ''nonce'' then a\<lparr>a_nonce := Some v\<rparr>
      else if p = chars ''uri'' then a\<lparr>a_uri := Some v\<rparr>
      else if p = chars ''response'' then a\<lparr>a_response := Some v\<rparr>
      else a)"

text \<open>
  \<^verbatim>\<open>sscanf(fields, "%[^=]=\"%[^\"]\"", parameter, value)\<close> on the string \<open>s\<close>: the number of conversions, the parameter
  and the value, which stays empty when it is not converted.  The second \<^verbatim>\<open>sscanf\<close> of the source converts the
  parameter exactly when the first does.
\<close>

definition scan_field :: "byte list \<Rightarrow> nat \<times> byte list \<times> byte list" where
  "scan_field s =
     (let a = takeWhile (\<lambda>c. c \<noteq> 0x3d) s; t = drop (length a) s
      in if a = [] then (0, [], [])
         else if take 2 t = [0x3d, 0x22] then
           (let b = takeWhile (\<lambda>c. c \<noteq> 0x22) (drop 2 t) in if b = [] then (1, a, []) else (2, a, b))
         else (1, a, []))"

function skip_bytes :: "byte set \<Rightarrow> byte list \<Rightarrow> nat \<Rightarrow> nat option" where
  "skip_bytes S p f = (if f < length p then (if p ! f \<in> S then skip_bytes S p (f + 1) else Some f) else None)"
  by pat_completeness auto
termination by (relation "measure (\<lambda>(S, p, f). length p - f)") auto

declare skip_bytes.simps [simp del]

lemma skip_bytes_bound: "skip_bytes S p f = Some g \<Longrightarrow> f \<le> g \<and> g < length p"
  by (induction S p f rule: skip_bytes.induct) (subst (asm) (2) skip_bytes.simps, auto split: if_splits)

text \<open>
  The fields, from position \<open>f\<close> of the array; \<open>cap\<close> is the size of the two buffers, allocated for what stood there at
  the beginning.
\<close>

function auth_fields :: "nat \<Rightarrow> byte list \<Rightarrow> nat \<Rightarrow> auth_values \<Rightarrow> auth_values option" where
  "auth_fields cap p f a =
     (case cstr (drop f p) of
        None \<Rightarrow> None
      | Some s \<Rightarrow>
          (case scan_field s of (cnt, par, val) \<Rightarrow>
             if cnt = 0 then Some a
             else if cap < length par + 1 \<or> cap < length val + 1 then None
             else (case skip_bytes {0x2c, 0x20} p (f + (length par + 2 + length val + 1)) of
                     None \<Rightarrow> None
                   | Some g \<Rightarrow> if p ! g \<in> {0, 0x0d, 0x0a} then Some (set_value par val a)
                               else auth_fields cap p g (set_value par val a))))"
  by pat_completeness auto
termination by (relation "measure (\<lambda>(cap, p, f, a). length p - f)") (auto dest: skip_bytes_bound)

declare auth_fields.simps [simp del]

definition lower :: "byte \<Rightarrow> byte" where
  "lower c = (if 0x41 \<le> c \<and> c \<le> 0x5a then c + 0x20 else c)"

definition auth_name :: "byte list" where "auth_name = chars ''Authorization: Digest ''"

definition parseAuthorizationHeader :: "byte list \<Rightarrow> auth_values option" where
  "parseAuthorizationHeader p = do {
     s \<leftarrow> cstr p;
     case find (\<lambda>i. map lower (take 22 (drop i s)) = map lower auth_name) [0..<length s] of
       None \<Rightarrow> Some no_values
     | Some i \<Rightarrow> do {
         f \<leftarrow> skip_bytes {0x20} p (i + 22);
         t \<leftarrow> cstr (drop f p);
         auth_fields (length t + 1) p f no_values}}"

text \<open>The return value, the new nonce and URL and the refusal that was sent, if any.\<close>

definition authenticationOK ::
    "byte list \<Rightarrow> byte list \<Rightarrow> byte list \<Rightarrow> Autenticatino_Info \<Rightarrow> User_Authentication \<Rightarrow> byte list \<Rightarrow> u32
      \<Rightarrow> (int \<times> Autenticatino_Info \<times> byte list option) option" where
  "authenticationOK cbuf seed cmdName aut user p seqid = do {
     success \<leftarrow>
       (if url aut = [] \<or> nonce aut = [] then Some False
        else do {
          a \<leftarrow> parseAuthorizationHeader p;
          if a_username a = None \<or> a_realm a \<noteq> Some (realm user) \<or> a_nonce a \<noteq> Some (nonce aut)
             \<or> a_uri a = None \<or> a_response a = None then Some False
          else do {
            serv \<leftarrow> get_check_md5 cbuf cmdName aut user;
            Some (a_response a = Some serv)}});
     if success then Some (0, aut, None)
     else do {
       n \<leftarrow> get_reply_md5 cbuf seed;
       let aut = aut\<lparr>nonce := n\<rparr>;
       let t = chars ''RTSP/1.0 401 Unauthorized'' @ crlf @ chars ''CSeq: '' @ dec_int (sint seqid) @ crlf
         @ chars ''WWW-Authenticate: Digest realm='' @ [0x22] @ realm user @ [0x22] @ chars '', nonce='' @ [0x22] @ n
         @ [0x22] @ crlf @ crlf;
       if length t + 1 \<le> 1024 then Some (- 1, aut, Some t) else None}}"

subsection \<open>The URL of a request\<close>

definition starts :: "byte list \<Rightarrow> byte list \<Rightarrow> bool" where
  "starts s pat \<longleftrightarrow> take (length pat) s = pat"

text \<open>The stream named behind the address: its channel and the length of its name.\<close>

definition stream_of_path :: "byte list \<Rightarrow> (int \<times> nat) option" where
  "stream_of_path t =
     (if starts t (chars ''stream0'') then
        (if starts t (chars ''stream0/high'') then Some (0, 12)
         else if starts t (chars ''stream0/low'') \<or> starts t (chars ''stream0/LOW'') then Some (1, 11)
         else if t = chars ''stream0'' then Some (0, 7) else None)
      else if starts t (chars ''stream1'') then
        (if starts t (chars ''stream1/high'') then Some (2, 12)
         else if starts t (chars ''stream1/low'') then Some (3, 11)
         else if t = chars ''stream1'' then Some (2, 7) else None)
      else None)"

text \<open>The channel (-1 for none) and the URL the digest is made with; the array for the URL has 128 bytes.\<close>

definition rtsp_porting_parse_url :: "byte list \<Rightarrow> byte list \<Rightarrow> byte list \<Rightarrow> (int \<times> byte list) option" where
  "rtsp_porting_parse_url u localip serv_url =
     (let url2 = chars ''rtsp://'' @ localip in
      if \<not> starts u url2 then Some (- 1, serv_url)
      else case strstr (drop (length url2) u) [0x2f] of
        None \<Rightarrow> Some (0, serv_url)
      | Some k \<Rightarrow>
          let temp = drop k (drop (length url2) u) in
          if length temp = 1 then Some (0, serv_url)
          else if starts (drop 1 temp) (chars ''stream'') then
            (case stream_of_path (drop 1 temp) of
               None \<Rightarrow> Some (- 1, serv_url)
             | Some (room, n) \<Rightarrow>
                 let t = url2 @ chars '':554/'' @ take n (drop 1 temp) in
                 if length t + 1 \<le> 128 then Some (room, t) else None)
          else Some (- 1, serv_url))"

definition INVALID_CLIENT :: int where "INVALID_CLIENT = - 1"
definition VLC_CLIENT :: int where "VLC_CLIENT = 0"
definition QT_CLIENT :: int where "QT_CLIENT = 1"
definition STB_TS_CLIENT :: int where "STB_TS_CLIENT = 2"

lemmas client_kinds = INVALID_CLIENT_def VLC_CLIENT_def QT_CLIENT_def STB_TS_CLIENT_def

record describe_result =
  d_flag :: int
  d_room :: int
  d_timeout :: int
  d_url :: "byte list"

definition rtsp_describe_authentication ::
    "byte list \<Rightarrow> byte list \<Rightarrow> describe_result \<Rightarrow> (int \<times> describe_result) option" where
  "rtsp_describe_authentication buff localip d =
     (if length buff < 17 then Some (- 1, d)
      else
        let d = d\<lparr>d_flag := (if strstr buff (chars ''QuickTime'') \<noteq> None then QT_CLIENT else VLC_CLIENT)\<rparr>;
            d = (if strstr buff (chars ''.ts'') \<noteq> None then d\<lparr>d_flag := STB_TS_CLIENT\<rparr> else d);
            d = (if strstr buff (chars ''timeout'') \<noteq> None then d\<lparr>d_timeout := 1\<rparr> else d)
        in if \<not> starts buff (chars ''DESCRIBE '') then Some (- 1, d)
           else case strstr (drop 9 buff) (chars '' RTSP/'') of
             None \<Rightarrow> Some (- 1, d)
           | Some url_len \<Rightarrow>
               if url_len < 14 then Some (- 1, d)
               else if 1024 \<le> url_len then None
               else do {
                 (room, u) \<leftarrow> rtsp_porting_parse_url (take url_len (drop 9 buff)) localip (d_url d);
                 let d = d\<lparr>d_url := u\<rparr>;
                 if room = - 1 then Some (- 1, d) else Some (0, d\<lparr>d_room := room\<rparr>)})"

subsection \<open>The digests are those of RFC 1321\<close>

lemma bind_then: "m \<bind> f = Some c \<Longrightarrow> (\<And>x. f x = Some c \<Longrightarrow> g x = Some c) \<Longrightarrow> m \<bind> g = Some c"
  by (cases m) simp_all

lemma bind_first: "m \<bind> f = Some c \<Longrightarrow> (\<And>x. m = Some x \<Longrightarrow> m' = Some x) \<Longrightarrow> m' \<bind> f = Some c"
  by (cases m) simp_all

lemma memcpy_nothing: "memcpy b i s j 0 = Some b' \<Longrightarrow> b' = b"
  by (auto simp: memcpy_def split: if_splits)

lemma ourMD5Update_eq: "MD5Update ctx input n = Some c \<Longrightarrow> ourMD5Update ctx input n = Some c"
  unfolding MD5Update_def ourMD5Update_def Let_def
  by (erule bind_then, clarify, erule bind_first) (auto dest: memcpy_nothing)

lemma our_hex_eq: "our_hex d = hex_text False d"
  by (induction d) (simp_all add: hex_text_def)

lemma our_MD5Final_ref: "MD5Final ctx = Some d \<Longrightarrow> our_MD5Final ctx = Some d"
  unfolding MD5Final_def our_MD5Final_def Let_def
  by (auto simp: Option.bind_eq_Some_conv dest!: ourMD5Update_eq)

lemma our_MD5Data_ref:
  assumes "length cbuf = 64" "length d + 64 \<le> 2 ^ 32"
  shows "our_MD5Data cbuf d = Some (hex_text False (md5_ref d))"
proof -
  obtain ctx where "MD5Update (MD5Init cbuf) d (of_nat (length d)) = Some ctx" "absorbed ctx d"
    using MD5Update_absorbs [OF absorbed_init [OF assms(1)], of "length d" d] assms(2) by auto
  then show ?thesis
    by (simp add: our_MD5Data_def our_MD5End_def ourMD5Update_eq our_MD5Final_ref [OF MD5Final_ref] our_hex_eq)
qed

lemma skip_bytes_run:
  "drop f p = sep @ c # rest \<Longrightarrow> set sep \<subseteq> S \<Longrightarrow> c \<notin> S \<Longrightarrow> skip_bytes S p f = Some (f + length sep)"
proof (induction sep arbitrary: f)
  case Nil
  then have "f < length p" "p ! f = c" using length_of_drop [OF Nil(1)] nth_of_drop [OF Nil(1), of 0] by auto
  then show ?case using Nil by (subst skip_bytes.simps) simp
next
  case (Cons x sep)
  have "f < length p" "p ! f = x"
    using length_of_drop [OF Cons.prems(1)] nth_of_drop [OF Cons.prems(1), of 0] by auto
  moreover have "drop (f + 1) p = sep @ c # rest" using drop_of_drop [of f p "[x]"] Cons.prems by simp
  ultimately show ?case using Cons by (subst skip_bytes.simps) simp
qed

text \<open>A field \<open>name="value"\<close>.\<close>

definition auth_field :: "byte list \<Rightarrow> byte list \<Rightarrow> byte list" where
  "auth_field par v = par @ [0x3d, 0x22] @ v @ [0x22]"

definition quotable :: "byte list \<Rightarrow> bool" where
  "quotable v \<longleftrightarrow> v \<noteq> [] \<and> 0 \<notin> set v \<and> 0x22 \<notin> set v"

lemma takeWhile_stop: "x \<notin> set a \<Longrightarrow> takeWhile (\<lambda>c. c \<noteq> x) (a @ x # r) = a"
  by (induction a) auto

lemma scan_field_auth:
  "par \<noteq> [] \<Longrightarrow> 0x3d \<notin> set par \<Longrightarrow> v \<noteq> [] \<Longrightarrow> 0x22 \<notin> set v \<Longrightarrow> scan_field (auth_field par v @ r) = (2, par, v)"
  by (simp add: scan_field_def auth_field_def takeWhile_stop Let_def)

lemma cstr_append: "0 \<notin> set s \<Longrightarrow> cstr (s @ 0 # z) = Some s"
  by (simp add: cstr_def takeWhile_stop)

lemma auth_fields_step:
  assumes "drop f p = auth_field par v @ sep @ c # r @ 0 # z" "par \<noteq> []" "0x3d \<notin> set par" "0 \<notin> set par" "quotable v"
    and "set sep \<subseteq> {0x2c, 0x20}" "c \<notin> {0x2c, 0x20}" "c \<noteq> 0" "0 \<notin> set r"
    and "length par < cap" "length v < cap"
  shows "auth_fields cap p f a =
    (if c \<in> {0x0d, 0x0a} then Some (set_value par v a)
     else auth_fields cap p (f + length (auth_field par v) + length sep) (set_value par v a))"
proof -
  let ?h = "auth_field par v"
  have nz: "0 \<notin> set sep" using assms(6) by auto
  have "cstr (drop f p) = Some (?h @ sep @ c # r)"
    using assms nz cstr_append [of "?h @ sep @ c # r" z] by (auto simp: auth_field_def quotable_def)
  moreover have "scan_field (?h @ sep @ c # r) = (2, par, v)"
    using assms by (intro scan_field_auth) (auto simp: quotable_def)
  moreover have d: "drop (f + length ?h) p = sep @ c # r @ 0 # z" using assms(1) by (rule drop_of_drop)
  moreover have "skip_bytes {0x2c, 0x20} p (f + (length par + 2 + length v + 1)) = Some (f + length ?h + length sep)"
    using skip_bytes_run [OF d assms(6,7)] by (simp add: auth_field_def)
  moreover have "p ! (f + length ?h + length sep) = c"
    using nth_of_drop [OF d, of "length sep"] by simp
  ultimately show ?thesis using assms(8,10,11) by (subst auth_fields.simps) simp
qed

text \<open>A list of fields, separated by a comma and a blank.\<close>

fun auth_text :: "(byte list \<times> byte list) list \<Rightarrow> byte list" where
  "auth_text [] = []"
| "auth_text [(par, v)] = auth_field par v"
| "auth_text ((par, v) # q # fs) = auth_field par v @ [0x2c, 0x20] @ auth_text (q # fs)"

definition field_name :: "byte list \<Rightarrow> bool" where
  "field_name par \<longleftrightarrow> par \<noteq> [] \<and> list_all (\<lambda>c. 0x61 \<le> c) par"

lemma field_name_chars:
  assumes "field_name par"
  shows "par \<noteq> []" "0x3d \<notin> set par" "0 \<notin> set par" "hd par \<notin> {0x2c, 0x20, 0, 0x0d, 0x0a}"
  using assms by (auto simp: field_name_def list_all_iff) (cases par; force)+

lemma auth_text_zeros: "list_all (\<lambda>(par, v). field_name par \<and> quotable v) fs \<Longrightarrow> 0 \<notin> set (auth_text fs)"
  by (induction fs rule: auth_text.induct) (auto simp: auth_field_def quotable_def dest: field_name_chars)

lemma auth_text_first: "auth_text ((par, v) # fs) = par @ drop (length par) (auth_text ((par, v) # fs))"
  by (cases fs) (auto simp: auth_field_def)

lemma auth_fields_list:
  "drop f p = auth_text fs @ c # r @ 0 # z \<Longrightarrow> fs \<noteq> [] \<Longrightarrow> c \<in> {0x0d, 0x0a} \<Longrightarrow> 0 \<notin> set r \<Longrightarrow>
    list_all (\<lambda>(par, v). field_name par \<and> quotable v \<and> length par < cap \<and> length v < cap) fs \<Longrightarrow>
    auth_fields cap p f a = Some (fold (\<lambda>(par, v). set_value par v) fs a)"
proof (induction fs arbitrary: f a rule: auth_text.induct)
  case (2 par v)
  then have "auth_fields cap p f a = (if c \<in> {0x0d, 0x0a} then Some (set_value par v a)
      else auth_fields cap p (f + length (auth_field par v) + length ([] :: byte list)) (set_value par v a))"
    by (intro auth_fields_step [where r = r and z = z]) (auto dest: field_name_chars)
  then show ?case using 2(3) by simp
next
  case (3 par v q fs)
  obtain par' v' where q: "q = (par', v')" by (cases q)
  have n: "field_name par" "quotable v" "field_name par'" "quotable v'" "length par < cap" "length v < cap"
    using 3(6) by (simp_all add: q)
  obtain c' t where t: "auth_text (q # fs) = c' # t" "c' = hd par'"
    using auth_text_first [of par' v' fs] field_name_chars(1) [OF n(3)] by (cases par') (auto simp: q)
  have c': "c' \<notin> {0x2c, 0x20, 0, 0x0d, 0x0a}" using field_name_chars(4) [OF n(3)] by (simp add: t)
  have "0 \<notin> set (auth_text (q # fs))"
    by (rule auth_text_zeros) (use 3(6) in \<open>auto simp: list_all_iff\<close>)
  then have z: "0 \<notin> set (t @ c # r)" using 3(4,5) by (auto simp: t)
  have d: "drop f p = auth_field par v @ [0x2c, 0x20] @ c' # (t @ c # r) @ 0 # z" using 3(2) by (simp add: t)
  have "auth_fields cap p f a = (if c' \<in> {0x0d, 0x0a} then Some (set_value par v a)
      else auth_fields cap p (f + length (auth_field par v) + length [0x2c, 0x20 :: byte]) (set_value par v a))"
    by (rule auth_fields_step [OF d]) (use n c' z in \<open>auto dest: field_name_chars\<close>)
  then have step: "auth_fields cap p f a =
      auth_fields cap p (f + length (auth_field par v @ [0x2c, 0x20])) (set_value par v a)" using c' by simp
  have "drop (f + length (auth_field par v @ [0x2c, 0x20])) p = auth_text (q # fs) @ c # r @ 0 # z"
    by (rule drop_of_drop) (use d in \<open>simp add: t\<close>)
  then have "auth_fields cap p (f + length (auth_field par v @ [0x2c, 0x20])) (set_value par v a)
      = Some (fold (\<lambda>(par, v). set_value par v) (q # fs) (set_value par v a))"
    by (rule 3(1)) (use 3 in \<open>auto\<close>)
  then show ?case by (simp add: step)
qed simp

subsection \<open>Logging in\<close>

text \<open>The header as a client writes it, and the answer RFC 2617 asks for.\<close>

definition auth_line :: "byte list \<Rightarrow> byte list \<Rightarrow> byte list \<Rightarrow> byte list \<Rightarrow> byte list \<Rightarrow> byte list" where
  "auth_line u r n x d = auth_name @ auth_text [(chars ''username'', u), (chars ''realm'', r), (chars ''nonce'', n),
     (chars ''uri'', x), (chars ''response'', d)] @ crlf"

definition hex_md5 :: "byte list \<Rightarrow> byte list" where "hex_md5 m = hex_text False (md5_ref m)"

definition digest_answer :: "byte list \<Rightarrow> byte list \<Rightarrow> byte list \<Rightarrow> byte list \<Rightarrow> byte list \<Rightarrow> byte list \<Rightarrow> byte list" where
  "digest_answer u r pass method uri n =
     hex_md5 (hex_md5 (u @ [0x3a] @ r @ [0x3a] @ pass) @ [0x3a] @ n @ [0x3a] @ hex_md5 (method @ [0x3a] @ uri))"

definition first_header :: "byte list \<Rightarrow> bool" where
  "first_header pre \<longleftrightarrow> 0 \<notin> set pre
     \<and> (\<forall>i<length pre. map lower (take 22 (drop i (pre @ auth_name))) \<noteq> map lower auth_name)"

lemma length_auth_name: "length auth_name = 22" by (simp add: auth_name_def chars_def)

lemma length_hex_md5 [simp]: "length (hex_md5 m) = 32" by (simp add: hex_md5_def)

lemma hex_md5_nonempty [simp]: "hex_md5 m \<noteq> []"
  using length_hex_md5 [of m] by (metis list.size(3) zero_neq_numeral)

lemma our_MD5Data_hex: "length cbuf = 64 \<Longrightarrow> length d + 64 \<le> 2 ^ 32 \<Longrightarrow> our_MD5Data cbuf d = Some (hex_md5 d)"
  by (simp add: our_MD5Data_ref hex_md5_def)

lemma get_check_md5_answer:
  assumes "length cbuf = 64" "length (user_name g) < 30" "length (user_pass g) < 30" "length (realm g) < 30"
    "length (nonce aut) < 2 ^ 30" "length (url aut) < 2 ^ 30" "length cmd < 2 ^ 30"
  shows "get_check_md5 cbuf cmd aut g
    = Some (digest_answer (user_name g) (realm g) (user_pass g) cmd (url aut) (nonce aut))"
  using assms by (simp add: get_check_md5_def our_MD5Data_hex digest_answer_def)

lemma field_names: "list_all field_name (map chars [''username'', ''realm'', ''nonce'', ''uri'', ''response''])"
  by code_simp

lemma set_values:
  "fold (\<lambda>(par, v). set_value par v) [(chars ''username'', u), (chars ''realm'', r), (chars ''nonce'', n),
     (chars ''uri'', x), (chars ''response'', d)] no_values
   = \<lparr>a_username = Some u, a_realm = Some r, a_nonce = Some n, a_uri = Some x, a_response = Some d\<rparr>"
  by (simp add: set_value_def no_values_def chars_def)

lemma name_sizes: "length (chars s) = length s" by (simp add: chars_def)

lemma auth_text_sizes: "(par, v) \<in> set fs \<Longrightarrow> length par + length v \<le> length (auth_text fs)"
  by (induction fs rule: auth_text.induct) (auto simp: auth_field_def)

lemma find_first:
  "(\<And>i. i < n \<Longrightarrow> \<not> P i) \<Longrightarrow> P n \<Longrightarrow> n < m \<Longrightarrow> find P [0..<m] = Some n"
  using find_upt_Some [of P m] find_upt_None [of P m] by (metis linorder_neqE_nat not_less_iff_gr_or_eq option.exhaust)

lemma parse_auth_line:
  assumes "first_header pre" "list_all quotable [u, r, n, x, d]" "0 \<notin> set rest"
    and p: "p = pre @ auth_line u r n x d @ rest @ 0 # z"
  shows "parseAuthorizationHeader p =
    Some \<lparr>a_username = Some u, a_realm = Some r, a_nonce = Some n, a_uri = Some x, a_response = Some d\<rparr>"
proof -
  define fs where "fs = [(chars ''username'', u), (chars ''realm'', r), (chars ''nonce'', n), (chars ''uri'', x),
     (chars ''response'', d)]"
  define t where "t = auth_text fs @ crlf @ rest"
  have ok: "list_all (\<lambda>(par, v). field_name par \<and> quotable v) fs"
    using field_names assms(2) by (simp add: fs_def)
  have tz: "0 \<notin> set t" using auth_text_zeros [OF ok] assms(3) by (simp add: t_def crlf_def)
  have nz: "0 \<notin> set auth_name" by (simp add: auth_name_def chars_def)
  have pt: "p = pre @ auth_name @ t @ 0 # z" by (simp add: p auth_line_def t_def fs_def)
  have s: "cstr p = Some (pre @ auth_name @ t)"
    using cstr_append [of "pre @ auth_name @ t" z] assms(1) tz nz by (simp add: pt first_header_def)
  have f: "find (\<lambda>i. map lower (take 22 (drop i (pre @ auth_name @ t))) = map lower auth_name)
      [0..<length (pre @ auth_name @ t)] = Some (length pre)"
    using assms(1) by (intro find_first) (auto simp: first_header_def length_auth_name)
  have d: "drop (length pre + 22) p = t @ 0 # z" by (simp add: pt length_auth_name)
  obtain h t' where h: "t = h # t'" "h \<noteq> 0x20"
    unfolding t_def fs_def by (simp add: auth_field_def chars_def)
  have k: "skip_bytes {0x20} p (length pre + 22) = Some (length pre + 22)"
    using skip_bytes_run [of "length pre + 22" p "[]" h "t' @ 0 # z" "{0x20}"] h by (simp add: d)
  have c: "cstr (drop (length pre + 22) p) = Some t" unfolding d using tz by (rule cstr_append)
  have "length par < length t + 1 \<and> length v < length t + 1" if "(par, v) \<in> set fs" for par v
    using auth_text_sizes [OF that] by (simp add: t_def)
  then have "list_all (\<lambda>(par, v). field_name par \<and> quotable v \<and> length par < length t + 1 \<and> length v < length t + 1) fs"
    using ok by (auto simp: list_all_iff)
  then have "auth_fields (length t + 1) p (length pre + 22) no_values = Some (fold (\<lambda>(par, v). set_value par v) fs no_values)"
    using assms(3) d by (intro auth_fields_list [where c = "0x0d" and r = "0x0a # rest" and z = z])
      (auto simp: t_def fs_def crlf_def)
  then show ?thesis unfolding parseAuthorizationHeader_def s Option.bind_lunit f option.case k c
    using set_values [of u r n x d] by (simp add: fs_def)
qed

text \<open>The conditions on the settings and the client's state that the setters and the arrays guarantee.\<close>

definition login_setting :: "byte list \<Rightarrow> byte list \<Rightarrow> Autenticatino_Info \<Rightarrow> User_Authentication \<Rightarrow> byte list \<Rightarrow> bool" where
  "login_setting cbuf seed aut g cmd \<longleftrightarrow> length cbuf = 64 \<and> length seed = 100
     \<and> length (user_name g) < 30 \<and> length (user_pass g) < 30 \<and> length (realm g) < 30
     \<and> length (nonce aut) \<le> 32 \<and> length (url aut) < 128 \<and> length cmd \<le> 16"

lemma setters_keep_sizes:
  "length (user_name g) < 30 \<and> length (user_pass g) < 30 \<and> length (realm g) < 30 \<Longrightarrow>
    (let g' = snd (set_rtsp_module_userinfo u p (snd (set_rtsp_module_realm r g)))
     in length (user_name g') < 30 \<and> length (user_pass g') < 30 \<and> length (realm g') < 30)"
  by (auto simp: set_rtsp_module_userinfo_def set_rtsp_module_realm_def Let_def split: option.splits)

lemma seq_text: "length (dec_int (sint (s :: u32))) \<le> 11"
proof -
  have b: "- (2 ^ 31) \<le> sint s" "sint s < 2 ^ 31" using sint_ge [of s] sint_lt [of s] by simp_all
  then have "nat \<bar>sint s\<bar> < 10 ^ 10" by simp
  then show ?thesis using dec_length [of "nat \<bar>sint s\<bar>" 10] b by (auto simp: dec_int_def)
qed

definition refusal :: "u32 \<Rightarrow> User_Authentication \<Rightarrow> byte list \<Rightarrow> byte list" where
  "refusal seqid g n = chars ''RTSP/1.0 401 Unauthorized'' @ crlf @ chars ''CSeq: '' @ dec_int (sint seqid) @ crlf
     @ chars ''WWW-Authenticate: Digest realm='' @ [0x22] @ realm g @ [0x22] @ chars '', nonce='' @ [0x22] @ n
     @ [0x22] @ crlf @ crlf"

lemma authentication_cases:
  assumes set: "login_setting cbuf seed aut g cmd"
    and a: "parseAuthorizationHeader p =
      Some \<lparr>a_username = Some u, a_realm = Some r, a_nonce = Some n, a_uri = Some x, a_response = Some d\<rparr>"
  shows "authenticationOK cbuf seed cmd aut g p seqid =
    (if url aut \<noteq> [] \<and> nonce aut \<noteq> [] \<and> r = realm g \<and> n = nonce aut
        \<and> d = digest_answer (user_name g) (realm g) (user_pass g) cmd (url aut) n
     then Some (0, aut, None)
     else Some (- 1, aut\<lparr>nonce := hex_md5 seed\<rparr>, Some (refusal seqid g (hex_md5 seed))))"
proof -
  have chk: "get_check_md5 cbuf cmd aut g
      = Some (digest_answer (user_name g) (realm g) (user_pass g) cmd (url aut) (nonce aut))"
    using set by (intro get_check_md5_answer) (auto simp: login_setting_def)
  have rep: "get_reply_md5 cbuf seed = Some (hex_md5 seed)"
    using set by (simp add: get_reply_md5_def our_MD5Data_hex login_setting_def)
  have len: "length (refusal seqid g (hex_md5 seed)) + 1 \<le> 1024"
    using set seq_text [of seqid] by (simp add: refusal_def login_setting_def name_sizes crlf_def)
  show ?thesis
    using len unfolding authenticationOK_def Let_def a rep chk refusal_def [symmetric] Option.bind_lunit
    by auto
qed

text \<open>
  C14: The login of a client whose request carries one well-formed digest header is the one of RFC 2617: it is accepted
  if and only if the URL and the nonce of the server are known, realm and nonce are the server's own and the response
  is the digest of the user, the password, the method and \<^emph>\<open>the server's\<close> URL; the name and the URL in the header are
  never looked at.  A refused client gets the digest of the seed as its new nonce and the 401 reply with it.
\<close>
theorem digest_login:
  assumes "login_setting cbuf seed aut g cmd" "first_header pre" "list_all quotable [u, r, n, x, d]" "0 \<notin> set rest"
  shows "authenticationOK cbuf seed cmd aut g (pre @ auth_line u r n x d @ rest @ 0 # z) seqid =
    (if url aut \<noteq> [] \<and> nonce aut \<noteq> [] \<and> r = realm g \<and> n = nonce aut
        \<and> d = digest_answer (user_name g) (realm g) (user_pass g) cmd (url aut) n
     then Some (0, aut, None)
     else Some (- 1, aut\<lparr>nonce := hex_md5 seed\<rparr>, Some (refusal seqid g (hex_md5 seed))))"
  using assms(1) parse_auth_line [OF assms(2-4) refl] by (rule authentication_cases)

text \<open>
  The first request of a client has no such header, and a fresh client no nonce: it is refused and given the nonce.
\<close>
lemma fresh_client_refused:
  assumes "login_setting cbuf seed aut g cmd" "nonce aut = []"
  shows "authenticationOK cbuf seed cmd aut g p seqid
    = Some (- 1, aut\<lparr>nonce := hex_md5 seed\<rparr>, Some (refusal seqid g (hex_md5 seed)))"
proof -
  have "get_reply_md5 cbuf seed = Some (hex_md5 seed)"
    using assms by (simp add: get_reply_md5_def our_MD5Data_hex login_setting_def)
  moreover have "length (refusal seqid g (hex_md5 seed)) + 1 \<le> 1024"
    using assms seq_text [of seqid] by (simp add: refusal_def login_setting_def name_sizes crlf_def)
  ultimately show ?thesis using assms(2) by (simp add: authenticationOK_def Let_def refusal_def)
qed

subsection \<open>Witnesses\<close>

definition login_user :: User_Authentication where
  "login_user = \<lparr>user_name = chars ''admin'', user_pass = chars ''secret'', realm = chars ''room'', permissions = 1\<rparr>"

definition login_info :: Autenticatino_Info where
  "login_info = \<lparr>nonce = hex_md5 (replicate 100 0x31), url = chars ''rtsp://10.0.0.1:554/stream0''\<rparr>"

definition login_response :: "byte list" where
  "login_response = digest_answer (user_name login_user) (realm login_user) (user_pass login_user) (chars ''DESCRIBE'')
     (url login_info) (nonce login_info)"

lemma hex_digit_quotable: "hex_digit False b \<noteq> 0 \<and> hex_digit False b \<noteq> 0x22" if "b \<le> 0xF"
proof -
  have "unat b < 16" using that by (simp add: word_le_nat_alt)
  then have "unat b \<in> {0..<16}" by simp
  then have "word_of_nat (unat b) \<in> set (map word_of_nat [0..<16] :: byte list)" unfolding set_map set_upt by (rule imageI)
  then have "b \<in> set (map word_of_nat [0..<16])" by simp
  moreover have "list_all (\<lambda>b. hex_digit False b \<noteq> 0 \<and> hex_digit False b \<noteq> 0x22) (map word_of_nat [0..<16])"
    by code_simp
  ultimately show ?thesis by (auto simp: list_all_iff)
qed

lemma nibbles: "drop_bit 4 (b :: byte) \<le> 0xF" "b AND 0xF \<le> (0xF :: byte)"
proof -
  have "unat b < 2 ^ LENGTH(8)" by (rule unsigned_less)
  then show "drop_bit 4 b \<le> 0xF" by (simp add: word_le_nat_alt drop_bit_eq_div unat_div)
qed (simp add: word_and_le1)

lemma hex_text_quotable: "0 \<notin> set (hex_text False d) \<and> 0x22 \<notin> set (hex_text False d)"
  using hex_digit_quotable nibbles by (fastforce simp: hex_text_def)

lemma hex_md5_quotable: "quotable (hex_md5 m)"
  using hex_text_quotable [of "md5_ref m"] length_hex_md5 [of m] by (auto simp: quotable_def hex_md5_def simp del: length_hex_text)

lemma digest_login_witness:
  "authenticationOK (replicate 64 0) (replicate 100 0x31) (chars ''DESCRIBE'') login_info login_user
     (chars ''DESCRIBE x'' @ auth_line (chars ''mallory'') (chars ''room'') (hex_md5 (replicate 100 0x31)) (chars ''/any'')
        login_response @ [] @ [0]) 2 = Some (0, login_info, None)"
proof -
  have s: "login_setting (replicate 64 0) (replicate 100 0x31) login_info login_user (chars ''DESCRIBE'')"
    by (simp add: login_setting_def login_user_def login_info_def name_sizes)
  have f: "first_header (chars ''DESCRIBE x'')"
  proof -
    have "list_all (\<lambda>i. map lower (take 22 (drop i (chars ''DESCRIBE x'' @ auth_name))) \<noteq> map lower auth_name) [0..<10]"
      by code_simp
    then show ?thesis by (auto simp: first_header_def list_all_iff name_sizes) (simp add: chars_def)
  qed
  have q: "list_all quotable [chars ''mallory'', chars ''room'', hex_md5 (replicate 100 0x31), chars ''/any'', login_response]"
    using hex_md5_quotable by (simp add: login_response_def digest_answer_def) (simp add: quotable_def chars_def)
  show ?thesis
    using digest_login [OF s f q, of "[]" "[]" 2] by (simp add: login_response_def login_info_def login_user_def chars_def)
qed

end
