(* ===== verification/RtspSdp.thy ===== *)
theory RtspSdp
  imports RtspParse
begin

section \<open>What the RTSP server tells about a stream\<close>

text \<open>
  \<^verbatim>\<open>enc/modules/porting/rtsp_porting_sdp_info.c\<close> picks the parameter sets out of the header of a key frame and the
  configuration out of an ADTS header, keeps them per channel and prints them for the description of a stream.

  \<open>b64\<close> is the library function \<^verbatim>\<open>app_b64_encode\<close>: the number it answers and the text it stores, given the data and
  the room.  The flag \<open>sdp_mutex\<close> tells whether the mutex was created, which every function asks first.
  \<^const>\<open>None\<close> is undefined behaviour.
\<close>

subsection \<open>Data\<close>

definition MAX_SPS_INFO_LEN :: int where "MAX_SPS_INFO_LEN = 64"
definition MAX_VIDEO_SDP_NUM :: int where "MAX_VIDEO_SDP_NUM = 4"
definition H264_HEADER_LEN :: nat where "H264_HEADER_LEN = 0x40"

record RTSP_SDP_VINFO =
  v_width :: u32
  v_height :: u32
  sdp_flag :: u32
  sps_info :: "byte list"
  sps_info_len :: u32
  pps_info :: "byte list"
  pps_info_len :: u32

record RTSP_SDP_AINFO =
  a_channel :: u32
  a_samplerate :: u32
  audio_config :: u32

record sdp_state =
  sdp_mutex :: bool
  g_video_sinfo :: "RTSP_SDP_VINFO list"
  g_audio_sinfo :: "RTSP_SDP_AINFO list"

definition rtsp_porting_sdp_init :: "bool \<Rightarrow> sdp_state \<Rightarrow> sdp_state" where
  "rtsp_porting_sdp_init created st =
     (if sdp_mutex st then st
      else \<lparr>sdp_mutex = created,
            g_video_sinfo = replicate 4 \<lparr>v_width = 0, v_height = 0, sdp_flag = 0, sps_info = replicate 64 0, sps_info_len = 0,
              pps_info = replicate 64 0, pps_info_len = 0\<rparr>,
            g_audio_sinfo = replicate 4 \<lparr>a_channel = 0, a_samplerate = 0, audio_config = 0\<rparr>\<rparr>)"

definition rtsp_porting_sdp_destory :: "sdp_state \<Rightarrow> sdp_state" where
  "rtsp_porting_sdp_destory st = (if sdp_mutex st then st\<lparr>sdp_mutex := False\<rparr> else st)"

subsection \<open>The tables\<close>

text \<open>An access to the table of pictures, written once: the entry is read, changed and written back.\<close>

definition with_video :: "(RTSP_SDP_VINFO \<Rightarrow> RTSP_SDP_VINFO option) \<Rightarrow> int \<Rightarrow> sdp_state \<Rightarrow> (int \<times> sdp_state) option" where
  "with_video f i st =
     (if \<not> sdp_mutex st then Some (- 1, st)
      else do {
        v \<leftarrow> peek (g_video_sinfo st) i;
        v \<leftarrow> f v;
        t \<leftarrow> poke (g_video_sinfo st) i v;
        Some (0, st\<lparr>g_video_sinfo := t\<rparr>)})"

definition rtsp_porting_get_sps_info :: "byte list \<Rightarrow> int \<Rightarrow> sdp_state \<Rightarrow> (int \<times> byte list \<times> u32) option" where
  "rtsp_porting_get_sps_info str i st =
     (if \<not> sdp_mutex st then Some (- 1, str, 0)
      else do {
        v \<leftarrow> peek (g_video_sinfo st) i;
        if sdp_flag v = 0 then Some (- 1, str, 0)
        else do {
          str \<leftarrow> memcpy str 0 (sps_info v) 0 (uint (sps_info_len v));
          Some (0, str, sps_info_len v)}})"

definition rtsp_porting_get_pps_info :: "byte list \<Rightarrow> u32 \<Rightarrow> int \<Rightarrow> sdp_state \<Rightarrow> (int \<times> byte list \<times> u32) option" where
  "rtsp_porting_get_pps_info str n i st =
     (if \<not> sdp_mutex st then Some (- 1, str, n)
      else do {
        v \<leftarrow> peek (g_video_sinfo st) i;
        if sdp_flag v = 0 then Some (- 1, str, n)
        else do {
          str \<leftarrow> memcpy str 0 (pps_info v) 0 (uint (pps_info_len v));
          Some (0, str, pps_info_len v)}})"

definition rtsp_porting_set_sps_info :: "byte list \<Rightarrow> int \<Rightarrow> int \<Rightarrow> int \<Rightarrow> sdp_state \<Rightarrow> (int \<times> sdp_state) option" where
  "rtsp_porting_set_sps_info p off len i st =
     (if sdp_mutex st \<and> MAX_SPS_INFO_LEN < len then Some (- 1, st)
      else with_video (\<lambda>v. do {
        s \<leftarrow> memcpy (sps_info v) 0 p off len; Some (v\<lparr>sps_info := s, sps_info_len := of_int len\<rparr>)}) i st)"

definition rtsp_porting_set_pps_info :: "byte list \<Rightarrow> int \<Rightarrow> int \<Rightarrow> int \<Rightarrow> sdp_state \<Rightarrow> (int \<times> sdp_state) option" where
  "rtsp_porting_set_pps_info p off len i st =
     (if sdp_mutex st \<and> MAX_SPS_INFO_LEN < len then Some (- 1, st)
      else with_video (\<lambda>v. do {
        s \<leftarrow> memcpy (pps_info v) 0 p off len; Some (v\<lparr>pps_info := s, pps_info_len := of_int len\<rparr>)}) i st)"

definition rtsp_porting_set_sdp_flag :: "u32 \<Rightarrow> int \<Rightarrow> sdp_state \<Rightarrow> (int \<times> sdp_state) option" where
  "rtsp_porting_set_sdp_flag flag i st = with_video (\<lambda>v. Some (v\<lparr>sdp_flag := flag\<rparr>)) i st"

definition rtsp_porting_set_width_height :: "u32 \<Rightarrow> u32 \<Rightarrow> int \<Rightarrow> sdp_state \<Rightarrow> (int \<times> sdp_state) option" where
  "rtsp_porting_set_width_height w h i st = with_video (\<lambda>v. Some (v\<lparr>v_width := w, v_height := h\<rparr>)) i st"

text \<open>The width and height kept; the caller's variables hold 0 when the mutex is missing.\<close>

definition rtsp_porting_get_width_height :: "int \<Rightarrow> sdp_state \<Rightarrow> (u32 \<times> u32) option" where
  "rtsp_porting_get_width_height i st =
     (if \<not> sdp_mutex st then Some (0, 0)
      else do {v \<leftarrow> peek (g_video_sinfo st) i; Some (v_width v, v_height v)})"

subsection \<open>Key frames\<close>

definition rtsp_porting_get_nal_unit_type :: "byte \<Rightarrow> int" where
  "rtsp_porting_get_nal_unit_type nal_code =
     (let ty = nal_code AND 0x1f; idc = nal_code AND 0x60
      in if ty = 7 \<or> ty = 8 then (if idc = 0 then - 1 else uint ty) else uint ty)"

definition FindH264StartNAL :: "byte list \<Rightarrow> nat \<Rightarrow> bool option" where
  "FindH264StartNAL p i = match_at p i [0, 0, 0, 1]"

text \<open>
  The walk over the start codes: from position \<open>f\<close>, with \<open>n\<close> codes found and the second one at \<open>t\<close>.  The frame has
  \<open>plen\<close> bytes.
\<close>

function nal_walk :: "byte list \<Rightarrow> int \<Rightarrow> nat \<Rightarrow> nat \<Rightarrow> nat \<Rightarrow> (nat \<times> nat \<times> nat) option" where
  "nal_walk p plen f n t =
     (if int f < plen - 3 then
        (case FindH264StartNAL p f of
           None \<Rightarrow> None
         | Some found \<Rightarrow>
             if found then
               (let n = n + 1; t = (if n = 2 then f else t)
                in if 3 \<le> n then Some (f, n, t) else nal_walk p plen (f + 4) n t)
             else nal_walk p plen (f + 1) n t)
      else Some (f, n, t))"
  by pat_completeness auto
termination by (relation "measure (\<lambda>(p, plen, f, n, t). nat (plen - int f))") auto

declare nal_walk.simps [simp del]

text \<open>One unit at \<open>pos\<close>, with \<open>nlen\<close> bytes including its start code, put into its table.\<close>

definition keep_unit :: "byte list \<Rightarrow> int \<Rightarrow> int \<Rightarrow> int \<Rightarrow> sdp_state \<Rightarrow> sdp_state option" where
  "keep_unit p pos nlen i st = do {
     c \<leftarrow> peek p (pos + 4);
     if rtsp_porting_get_nal_unit_type c = 7 then map_option snd (rtsp_porting_set_sps_info p (pos + 4) (nlen - 4) i st)
     else if rtsp_porting_get_nal_unit_type c = 8 then map_option snd (rtsp_porting_set_pps_info p (pos + 4) (nlen - 4) i st)
     else Some st}"

text \<open>
  \<^verbatim>\<open>rtsp_porting_video_filter_sdp_info\<close> without the test of the channel and of the picture size, which closes
  sessions and stands in \<open>RtspSession\<close>.
\<close>

definition filter_units :: "byte list \<Rightarrow> int \<Rightarrow> int \<Rightarrow> sdp_state \<Rightarrow> (int \<times> sdp_state) option" where
  "filter_units p plen i st = do {
     (f, n, t) \<leftarrow> nal_walk p plen 0 0 0;
     let len = (if H264_HEADER_LEN < f then 0x18 else int f);
     if n < 3 then Some (len, st)
     else do {
       st \<leftarrow> keep_unit p 0 (int t) i st;
       st \<leftarrow> keep_unit p (int t) (len - int t) i st;
       (_, st) \<leftarrow> rtsp_porting_set_sdp_flag 1 i st;
       Some (len, st)}}"

text \<open>
  The text \<^verbatim>\<open>sps,pps\<close> for the description; \<open>n\<close> bytes of the array \<^verbatim>\<open>out\<close> of 256 bytes are copied.
\<close>

definition b64_text :: "(byte list \<Rightarrow> int \<Rightarrow> int \<times> byte list) \<Rightarrow> byte list \<Rightarrow> (int \<times> byte list) option" where
  "b64_text b64 s = (case b64 s 256 of (n, t) \<Rightarrow> do {
     out \<leftarrow> memcpy (replicate 256 0) 0 t 0 (int (length t));
     Some (n, if n < 0 then [] else take (nat n) out)})"

definition rtsp_stream_get_video_sdp_info ::
    "(byte list \<Rightarrow> int \<Rightarrow> int \<times> byte list) \<Rightarrow> int \<Rightarrow> sdp_state \<Rightarrow> (int \<times> byte list) option" where
  "rtsp_stream_get_video_sdp_info b64 i st =
     (if MAX_VIDEO_SDP_NUM \<le> i then Some (- 1, [])
      else do {
        (ret, str, n) \<leftarrow> rtsp_porting_get_sps_info (replicate 128 0) i st;
        if n = 0 \<or> ret < 0 then Some (- 1, [])
        else do {
          (k, t) \<leftarrow> b64_text b64 (take (unat n) str);
          if k < sint n then Some (- 1, [])
          else if 256 < k then None
          else do {
            (ret, str, n) \<leftarrow> rtsp_porting_get_pps_info (replicate 128 0) n i st;
            if n = 0 then Some (- 1, [])
            else do {
              (k1, t1) \<leftarrow> b64_text b64 (take (unat n) str);
              if k1 < sint n then Some (- 1, [])
              else if 256 < k1 then None
              else Some (0, t @ [0x2c] @ t1)}}}})"

subsection \<open>Sound\<close>

definition rtsp_stream_audio_filter_sdp_info :: "byte list option \<Rightarrow> u32 option" where
  "rtsp_stream_audio_filter_sdp_info pdata =
     (case pdata of
        None \<Rightarrow> Some (- 1)
      | Some d \<Rightarrow> do {
          d0 \<leftarrow> peek d 0; d1 \<leftarrow> peek d 1; d2 \<leftarrow> peek d 2; d3 \<leftarrow> peek d 3;
          let syncword = push_bit 4 (ucast d0 :: u32) OR drop_bit 4 (ucast (d1 AND 0xf0));
          if syncword \<noteq> 0x0fff then Some (- 1)
          else do {
            let sfi = drop_bit 2 (d2 AND 0x3c);
            let chan = drop_bit 2 (d2 AND 0x01) OR drop_bit 6 (d3 AND 0xc0);
            Some (0x1000 OR push_bit 8 (drop_bit 1 (ucast (sfi AND 0x0f) :: u32)) OR push_bit 7 (ucast (sfi AND 0x01))
              OR push_bit 3 (ucast chan))}})"

definition rtsp_porting_audio_filter_sdp_info ::
    "byte list option \<Rightarrow> u32 \<Rightarrow> u32 \<Rightarrow> int \<Rightarrow> sdp_state \<Rightarrow> (int \<times> sdp_state) option" where
  "rtsp_porting_audio_filter_sdp_info pdata channel samplerate i st =
     (if \<not> sdp_mutex st then Some (- 1, st)
      else if MAX_VIDEO_SDP_NUM \<le> i then Some (- 1, st)
      else do {
        config \<leftarrow> rtsp_stream_audio_filter_sdp_info pdata;
        t \<leftarrow> poke (g_audio_sinfo st) i \<lparr>a_channel = channel, a_samplerate = samplerate, audio_config = config\<rparr>;
        Some (0, st\<lparr>g_audio_sinfo := t\<rparr>)})"

text \<open>\<^verbatim>\<open>%04x\<close>: at least four hexadecimal digits.\<close>

definition hex_char :: "nat \<Rightarrow> byte" where
  "hex_char d = (if d < 10 then 0x30 + of_nat d else 0x61 + of_nat (d - 10))"

fun hex :: "nat \<Rightarrow> byte list" where
  "hex n = (if n < 16 then [hex_char n] else hex (n div 16) @ [hex_char (n mod 16)])"

declare hex.simps [simp del]

definition hex04 :: "u32 \<Rightarrow> byte list" where
  "hex04 w = (let t = hex (unat w) in replicate (4 - length t) 0x30 @ t)"

text \<open>The answer (0 or 2^32 - 1, which the callers read as -1), the text in the array of 16 bytes and the rate.\<close>

definition rtsp_stream_get_audio_sinfo :: "int \<Rightarrow> u32 \<Rightarrow> sdp_state \<Rightarrow> (int \<times> byte list \<times> u32) option" where
  "rtsp_stream_get_audio_sinfo i rate st =
     (if \<not> sdp_mutex st then Some (- 1, [], rate)
      else do {
        a \<leftarrow> peek (g_audio_sinfo st) i;
        if audio_config a \<le> 0 then Some (- 1, [], rate)
        else Some (0, hex04 (audio_config a), a_samplerate a)})"

subsection \<open>The description of a stream\<close>

text \<open>The lines that tell about sound, and the description without a session.\<close>

definition dec_u :: "u32 \<Rightarrow> byte list" where "dec_u w = dec (unat w)"

definition rtsp_porting_get_sdp_describe ::
    "(byte list \<Rightarrow> int \<Rightarrow> int \<times> byte list) \<Rightarrow> byte list \<Rightarrow> nat \<Rightarrow> int \<Rightarrow> byte list \<Rightarrow> u32 \<Rightarrow> u32 \<Rightarrow> sdp_state
      \<Rightarrow> (int \<times> byte list) option" where
  "rtsp_porting_get_sdp_describe b64 localip len channel rtpip vport aport st = do {
     let ip = (if rtpip = [] \<or> rtpip = chars ''0.0.0.0'' then localip else rtpip);
     if 32 < length ip + 1 then None
     else do {
       (a_ret, acfg, rate) \<leftarrow> rtsp_stream_get_audio_sinfo channel 48000 st;
       (vret, info) \<leftarrow> rtsp_stream_get_video_sdp_info b64 channel st;
       if vret = - 1 then Some (- 1, chars ''RTSP/1.0   404   Stream Not Found'' @ crlf @ chars '' '' @ crlf)
       else do {
         let s = chars ''m=video '' @ dec_u vport @ chars '' RTP/AVP 96'' @ crlf @ chars ''a=rtpmap:96 H264/90000'' @ crlf
           @ chars ''a=fmtp:96 packetization-mode=1;profile-level-id=428028;sprop-parameter-sets='' @ info @ crlf
           @ chars ''c=IN IP4 '' @ ip @ crlf
           @ (if a_ret < 0 then []
              else chars ''m=audio '' @ dec_u aport @ chars '' RTP/AVP 97'' @ crlf @ chars ''a=rtpmap:97 mpeg4-generic/''
                @ dec_int (sint rate) @ chars ''/2'' @ crlf
                @ chars ''a=fmtp:97 streamtype=5; mode=AAC-hbr; config='' @ acfg
                @ chars ''; SizeLength=13; IndexLength=3; IndexDeltaLength=3, local_ip = , listen_port = 0'' @ crlf
                @ chars ''c=IN IP4 '' @ ip @ crlf);
         if 1000 < length s + 1 then None else Some (0, take (len - 1) s)}}}"

subsection \<open>The walk over the units\<close>

abbreviation start_code :: "byte list" where "start_code \<equiv> [0, 0, 0, 1]"

text \<open>No start code inside, and none that begins inside and ends behind the unit.\<close>

definition codeless :: "byte list \<Rightarrow> bool" where
  "codeless u \<longleftrightarrow> (u = [] \<or> last u \<noteq> 0) \<and> (\<forall>i<length u. take 4 (drop i u) \<noteq> start_code)"

lemma codeless_tail: "codeless (x # u) \<Longrightarrow> codeless u"
  unfolding codeless_def by (auto split: if_splits)

lemma codeless_start: "codeless (x # u) \<Longrightarrow> take 4 (x # u @ start_code) \<noteq> start_code"
proof
  assume c: "codeless (x # u)" and s: "take 4 (x # u @ start_code) = start_code"
  show False
  proof (cases "3 \<le> length u")
    case True
    then have "take 4 (drop 0 (x # u)) = start_code" using s by (simp add: take_Cons')
    then show False using c unfolding codeless_def by blast
  next
    case False
    then consider "u = []" | a where "u = [a]" | a b where "u = [a, b]"
      by (cases u rule: list.exhaust; cases "tl u"; cases "tl (tl u)") auto
    then show False using c s by cases (auto simp: codeless_def)
  qed
qed

lemma FindH264StartNAL_take: "i + 4 \<le> length p \<Longrightarrow> FindH264StartNAL p i = Some (take 4 (drop i p) = start_code)"
  using match_at_take [of i start_code p] by (simp add: FindH264StartNAL_def numeral_eq_Suc del: match_at.simps)

lemma walk_over:
  "drop f p = u @ start_code @ r \<Longrightarrow> codeless u \<Longrightarrow>
    nal_walk p (int (length p)) f n t = nal_walk p (int (length p)) (f + length u) n t"
proof (induction u arbitrary: f)
  case (Cons x u)
  have len: "length p = f + length (x # u @ start_code @ r)" using length_of_drop [OF Cons.prems(1)] by simp
  have "take 4 (drop f p) = take 4 (x # u @ start_code)" using Cons.prems(1) by (simp add: take_Cons')
  then have "FindH264StartNAL p f = Some False"
    using codeless_start [OF Cons.prems(2)] len by (subst FindH264StartNAL_take) auto
  then have "nal_walk p (int (length p)) f n t = nal_walk p (int (length p)) (f + 1) n t"
    using len by (subst nal_walk.simps) simp
  moreover have "drop (f + 1) p = u @ start_code @ r"
    using drop_of_drop [of f p "[x]" "u @ start_code @ r"] Cons.prems(1) by simp
  ultimately show ?case using Cons.IH codeless_tail [OF Cons.prems(2)] by simp
qed simp

lemma walk_code:
  assumes "drop f p = start_code @ r"
  shows "nal_walk p (int (length p)) f n t =
    (if 3 \<le> n + 1 then Some (f, n + 1, if n = 1 then f else t)
     else nal_walk p (int (length p)) (f + 4) (n + 1) (if n = 1 then f else t))"
proof -
  have "length p = f + length (start_code @ r)" using length_of_drop [OF assms] by simp
  moreover from this have "FindH264StartNAL p f = Some True" using assms by (subst FindH264StartNAL_take) auto
  ultimately show ?thesis by (subst nal_walk.simps) (simp add: Let_def)
qed

definition key_frame :: "byte list \<Rightarrow> byte list \<Rightarrow> byte list \<Rightarrow> byte list" where
  "key_frame sps pps r = start_code @ sps @ start_code @ pps @ start_code @ r"

lemma walk_key_frame:
  assumes "codeless sps" "codeless pps"
  shows "nal_walk (key_frame sps pps r) (int (length (key_frame sps pps r))) 0 0 0
    = Some (8 + length sps + length pps, 3, 4 + length sps)"
proof -
  let ?p = "key_frame sps pps r"
  have d: "drop 0 ?p = start_code @ sps @ start_code @ pps @ start_code @ r"
    "drop 4 ?p = sps @ start_code @ pps @ start_code @ r"
    "drop (4 + length sps) ?p = start_code @ pps @ start_code @ r"
    "drop (8 + length sps) ?p = pps @ start_code @ r"
    "drop (8 + length sps + length pps) ?p = start_code @ r"
    by (simp_all add: key_frame_def numeral_eq_Suc)
  show ?thesis
    using walk_code [OF d(1), of 0 0] walk_over [OF d(2) assms(1), of 1 0] walk_code [OF d(3), of 1 0]
      walk_over [OF d(4) assms(2), of 2 "4 + length sps"] walk_code [OF d(5), of 2 "4 + length sps"]
    by (simp add: add.assoc numeral_eq_Suc)
qed

subsection \<open>Parameter sets\<close>

definition sdp_ok :: "sdp_state \<Rightarrow> bool" where
  "sdp_ok st \<longleftrightarrow> sdp_mutex st \<and> length (g_video_sinfo st) = 4 \<and> length (g_audio_sinfo st) = 4
     \<and> list_all (\<lambda>v. length (sps_info v) = 64 \<and> length (pps_info v) = 64) (g_video_sinfo st)"

definition encodes :: "(byte list \<Rightarrow> int \<Rightarrow> int \<times> byte list) \<Rightarrow> byte list \<Rightarrow> byte list \<Rightarrow> bool" where
  "encodes b64 s t \<longleftrightarrow> b64 s 256 = (int (length t), t) \<and> length s \<le> length t \<and> length t \<le> 256"

lemma b64_text_encodes: "encodes b64 s t \<Longrightarrow> b64_text b64 s = Some (int (length t), t)"
  by (simp add: encodes_def b64_text_def memcpy_def)

definition put_video :: "nat \<Rightarrow> RTSP_SDP_VINFO \<Rightarrow> sdp_state \<Rightarrow> sdp_state" where
  "put_video k v st = st\<lparr>g_video_sinfo := (g_video_sinfo st)[k := v]\<rparr>"

lemma with_video_put:
  "sdp_ok st \<Longrightarrow> k < 4 \<Longrightarrow> with_video f (int k) st = map_option (\<lambda>v. (0, put_video k v st)) (f (g_video_sinfo st ! k))"
  by (cases "f (g_video_sinfo st ! k)") (simp_all add: with_video_def sdp_ok_def peek_def poke_def put_video_def)

lemma sdp_ok_put: "sdp_ok st \<Longrightarrow> length (sps_info v) = 64 \<Longrightarrow> length (pps_info v) = 64 \<Longrightarrow> sdp_ok (put_video k v st)"
  by (simp add: sdp_ok_def put_video_def list_all_update)

lemma put_video_simps [simp]:
  "k < length (g_video_sinfo st) \<Longrightarrow> g_video_sinfo (put_video k v st) ! k = v"
  "put_video k v (put_video k w st) = put_video k v st"
  "g_video_sinfo (put_video k v st) = (g_video_sinfo st)[k := v]"
  by (simp_all add: put_video_def)

lemma sdp_ok_lengths:
  "sdp_ok st \<Longrightarrow> k < 4 \<Longrightarrow> length (sps_info (g_video_sinfo st ! k)) = 64 \<and> length (pps_info (g_video_sinfo st ! k)) = 64"
  "sdp_ok st \<Longrightarrow> length (g_video_sinfo st) = 4" "sdp_ok st \<Longrightarrow> sdp_mutex st"
  by (auto simp: sdp_ok_def list_all_length)

lemma keep_sps:
  assumes "sdp_ok st" "k < 4" "drop pos p = start_code @ u @ r" "u \<noteq> []" "rtsp_porting_get_nal_unit_type (hd u) = 7"
  shows "keep_unit p (int pos) (int (length u) + 4) (int k) st =
    Some (if 64 < length u then st
          else put_video k ((g_video_sinfo st ! k)\<lparr>sps_info := u @ drop (length u) (sps_info (g_video_sinfo st ! k)),
            sps_info_len := of_nat (length u)\<rparr>) st)"
proof -
  have len: "length p = pos + length (start_code @ u @ r)" using length_of_drop [OF assms(3)] by simp
  have u: "drop (pos + 4) p = u @ r" using drop_of_drop [of pos p start_code "u @ r"] assms(3) by (simp add: numeral_eq_Suc)
  have "peek p (int pos + 4) = Some (hd u)"
    using peek_nat [of "pos + 4" p] nth_of_drop [OF u, of 0] len assms(4) by (cases u) (auto simp: add.commute)
  moreover have "memcpy s 0 p (int pos + 4) (int (length u)) = Some (u @ drop (length u) s)"
    if "length u \<le> length s" for s
    using memcpy_nat [of 0 "length u" s "pos + 4" p] u len that by (simp add: add.commute)
  ultimately show ?thesis
    using assms sdp_ok_lengths [OF assms(1)]
    by (simp add: keep_unit_def rtsp_porting_set_sps_info_def MAX_SPS_INFO_LEN_def with_video_put option.map_comp comp_def)
qed

lemma keep_pps:
  assumes "sdp_ok st" "k < 4" "drop pos p = start_code @ u @ r" "u \<noteq> []" "rtsp_porting_get_nal_unit_type (hd u) = 8"
    and "m \<le> int (length u)"
  shows "keep_unit p (int pos) (m + 4) (int k) st =
    (if 64 < m then Some st
     else if m < 0 then None
     else Some (put_video k ((g_video_sinfo st ! k)\<lparr>pps_info := take (nat m) u @ drop (nat m) (pps_info (g_video_sinfo st ! k)),
            pps_info_len := of_int m\<rparr>) st))"
proof -
  have len: "length p = pos + length (start_code @ u @ r)" using length_of_drop [OF assms(3)] by simp
  have u: "drop (pos + 4) p = u @ r" using drop_of_drop [of pos p start_code "u @ r"] assms(3) by (simp add: numeral_eq_Suc)
  have "peek p (int pos + 4) = Some (hd u)"
    using peek_nat [of "pos + 4" p] nth_of_drop [OF u, of 0] len assms(4) by (cases u) (auto simp: add.commute)
  moreover have "memcpy s 0 p (int pos + 4) m = (if m < 0 then None else Some (take (nat m) u @ drop (nat m) s))"
    if "m \<le> int (length s)" for s
    using u len that assms(6) by (simp add: memcpy_def nat_add_distrib)
  ultimately show ?thesis
    using assms sdp_ok_lengths [OF assms(1)]
    by (simp add: keep_unit_def rtsp_porting_set_pps_info_def MAX_SPS_INFO_LEN_def with_video_put option.map_comp comp_def)
qed

lemma key_frame_units:
  "drop 0 (key_frame sps pps r) = start_code @ sps @ (start_code @ pps @ start_code @ r)"
  "drop (4 + length sps) (key_frame sps pps r) = start_code @ pps @ (start_code @ r)"
  by (simp_all add: key_frame_def numeral_eq_Suc)

definition parameter_sets :: "byte list \<Rightarrow> byte list \<Rightarrow> bool" where
  "parameter_sets sps pps \<longleftrightarrow> sps \<noteq> [] \<and> pps \<noteq> [] \<and> codeless sps \<and> codeless pps
     \<and> rtsp_porting_get_nal_unit_type (hd sps) = 7 \<and> rtsp_porting_get_nal_unit_type (hd pps) = 8"

lemma filter_units_fit:
  assumes ok: "sdp_ok st" and k: "k < 4" and ps: "parameter_sets sps pps" and fits: "length sps + length pps \<le> 56"
  defines "v \<equiv> g_video_sinfo st ! k"
  shows "filter_units (key_frame sps pps r) (int (length (key_frame sps pps r))) (int k) st
    = Some (8 + int (length sps) + int (length pps),
        put_video k (v\<lparr>sps_info := sps @ drop (length sps) (sps_info v), sps_info_len := of_nat (length sps),
          pps_info := pps @ drop (length pps) (pps_info v), pps_info_len := of_nat (length pps), sdp_flag := 1\<rparr>) st)"
proof -
  let ?p = "key_frame sps pps r"
  define st1 where "st1 = put_video k (v\<lparr>sps_info := sps @ drop (length sps) (sps_info v),
    sps_info_len := of_nat (length sps)\<rparr>) st"
  define st2 where "st2 = put_video k (v\<lparr>sps_info := sps @ drop (length sps) (sps_info v),
    sps_info_len := of_nat (length sps), pps_info := pps @ drop (length pps) (pps_info v),
    pps_info_len := of_nat (length pps)\<rparr>) st"
  have len: "length (g_video_sinfo st) = 4" "length (sps_info v) = 64" "length (pps_info v) = 64"
    using sdp_ok_lengths [OF ok] k by (simp_all add: v_def)
  have ok1: "sdp_ok st1" unfolding st1_def by (rule sdp_ok_put [OF ok]) (use len fits in auto)
  have ok2: "sdp_ok st2" unfolding st2_def by (rule sdp_ok_put [OF ok]) (use len fits in auto)
  have 1: "keep_unit ?p 0 (4 + int (length sps)) (int k) st = Some st1"
    using keep_sps [OF ok k key_frame_units(1)] ps fits by (simp add: parameter_sets_def st1_def v_def add.commute)
  have 2: "keep_unit ?p (4 + int (length sps)) (4 + int (length pps)) (int k) st1 = Some st2"
    using keep_pps [OF ok1 k key_frame_units(2), where m = "int (length pps)"] ps fits len k
    by (simp add: parameter_sets_def st1_def st2_def add.commute)
  have 3: "rtsp_porting_set_sdp_flag 1 (int k) st2 = Some (0, put_video k ((g_video_sinfo st2 ! k)\<lparr>sdp_flag := 1\<rparr>) st2)"
    using ok2 k by (simp add: rtsp_porting_set_sdp_flag_def with_video_put)
  show ?thesis
    using walk_key_frame [of sps pps r] ps fits 1 2 3 len k
    by (simp add: filter_units_def parameter_sets_def H264_HEADER_LEN_def st2_def)
qed

lemma filter_units_long:
  assumes ok: "sdp_ok st" and k: "k < 4" and ps: "parameter_sets sps pps" and long: "56 < length sps + length pps" "16 < length sps"
  shows "filter_units (key_frame sps pps r) (int (length (key_frame sps pps r))) (int k) st = None"
proof -
  let ?p = "key_frame sps pps r"
  have len: "length (g_video_sinfo st) = 4" "length (sps_info (g_video_sinfo st ! k)) = 64"
      "length (pps_info (g_video_sinfo st ! k)) = 64"
    using sdp_ok_lengths [OF ok] k by simp_all
  obtain st1 where 1: "keep_unit ?p 0 (4 + int (length sps)) (int k) st = Some st1" "sdp_ok st1"
  proof (cases "64 < length sps")
    case True
    then show ?thesis
      using that [of st] keep_sps [OF ok k key_frame_units(1)] ps ok by (simp add: parameter_sets_def add.commute)
  next
    case False
    then show ?thesis
      using that keep_sps [OF ok k key_frame_units(1)] ps sdp_ok_put [OF ok] len
      by (simp add: parameter_sets_def add.commute)
  qed
  have "keep_unit ?p (4 + int (length sps)) (20 - int (length sps)) (int k) st1 = None"
    using keep_pps [OF 1(2) k key_frame_units(2), where m = "16 - int (length sps)"] ps long
    by (simp add: parameter_sets_def)
  then show ?thesis
    using walk_key_frame [of sps pps r] ps long 1
    by (simp add: filter_units_def parameter_sets_def H264_HEADER_LEN_def)
qed

lemma video_info_text:
  assumes ok: "sdp_ok st" and k: "k < 4" and v: "g_video_sinfo st ! k = v"
    and s: "sps_info v = sps @ x" "sps_info_len v = of_nat (length sps)" "pps_info v = pps @ y"
      "pps_info_len v = of_nat (length pps)" "sdp_flag v = 1" "sps \<noteq> []" "pps \<noteq> []" "length sps \<le> 64" "length pps \<le> 64"
    and b: "encodes b64 sps a" "encodes b64 pps b"
  shows "rtsp_stream_get_video_sdp_info b64 (int k) st = Some (0, a @ [0x2c] @ b)"
proof -
  have n: "unat (of_nat (length u) :: u32) = length u" "uint (of_nat (length u) :: u32) = int (length u)"
      "sint (of_nat (length u) :: u32) = int (length u)" "(of_nat (length u) :: u32) \<noteq> 0"
    if "length u \<le> 64" "u \<noteq> []" for u :: "byte list"
  proof -
    show *: "unat (of_nat (length u) :: u32) = length u" "uint (of_nat (length u) :: u32) = int (length u)"
      "sint (of_nat (length u) :: u32) = int (length u)"
      using that unat_small [of "length u"] uint_small [of "length u"] sint_small [of "length u"] by simp_all
    show "(of_nat (length u) :: u32) \<noteq> 0" using *(1) that(2) by (metis length_0_conv unat_0)
  qed
  have sp: "rtsp_porting_get_sps_info (replicate 128 0) (int k) st
      = Some (0, sps @ replicate (128 - length sps) 0, of_nat (length sps))"
    using sdp_ok_lengths [OF ok] k v s n [of sps] memcpy_nat [of 0 "length sps" "replicate 128 0" 0 "sps @ x"]
    by (simp add: rtsp_porting_get_sps_info_def peek_def)
  have pp: "rtsp_porting_get_pps_info (replicate 128 0) m (int k) st
      = Some (0, pps @ replicate (128 - length pps) 0, of_nat (length pps))" for m
    using sdp_ok_lengths [OF ok] k v s n [of pps] memcpy_nat [of 0 "length pps" "replicate 128 0" 0 "pps @ y"]
    by (simp add: rtsp_porting_get_pps_info_def peek_def)
  show ?thesis
    using k s n [of sps] n [of pps] b b64_text_encodes [OF b(1)] b64_text_encodes [OF b(2)]
    by (simp add: rtsp_stream_get_video_sdp_info_def MAX_VIDEO_SDP_NUM_def sp pp encodes_def)
qed

text \<open>
  C25: A key frame that begins with both parameter sets (64 bytes of header at most) is understood: its header length is
  answered, and the description of the channel holds the encoded sets, whatever the encoder \<open>b64\<close> makes of them; no
  other channel changes.  When the header is longer and the first set has more than 16 bytes the length of the second
  set is computed from a wrong header length, becomes negative and is handed to \<^verbatim>\<open>memcpy\<close>.
\<close>
theorem parameter_sets_announced:
  assumes "sdp_ok st" "k < 4" "parameter_sets sps pps" "encodes b64 sps a" "encodes b64 pps b"
  shows "(length sps + length pps \<le> 56 \<longrightarrow>
      (\<exists>st'. filter_units (key_frame sps pps r) (int (length (key_frame sps pps r))) (int k) st
          = Some (8 + int (length sps) + int (length pps), st')
        \<and> sdp_ok st' \<and> (\<forall>j. j \<noteq> k \<longrightarrow> g_video_sinfo st' ! j = g_video_sinfo st ! j)
        \<and> g_audio_sinfo st' = g_audio_sinfo st
        \<and> rtsp_stream_get_video_sdp_info b64 (int k) st' = Some (0, a @ [0x2c] @ b)))
    \<and> (56 < length sps + length pps \<and> 16 < length sps \<longrightarrow>
      filter_units (key_frame sps pps r) (int (length (key_frame sps pps r))) (int k) st = None)"
proof (intro conjI impI)
  assume fits: "length sps + length pps \<le> 56"
  define v where "v = g_video_sinfo st ! k"
  define w where "w = v\<lparr>sps_info := sps @ drop (length sps) (sps_info v), sps_info_len := of_nat (length sps),
          pps_info := pps @ drop (length pps) (pps_info v), pps_info_len := of_nat (length pps), sdp_flag := 1\<rparr>"
  have len: "length (g_video_sinfo st) = 4" "length (sps_info v) = 64" "length (pps_info v) = 64"
    using sdp_ok_lengths [OF assms(1)] assms(2) by (simp_all add: v_def)
  have ok: "sdp_ok (put_video k w st)" by (rule sdp_ok_put [OF assms(1)]) (use len fits in \<open>auto simp: w_def\<close>)
  have "rtsp_stream_get_video_sdp_info b64 (int k) (put_video k w st) = Some (0, a @ [0x2c] @ b)"
    using ok assms fits len by (intro video_info_text [where v = w]) (auto simp: w_def parameter_sets_def)
  moreover have "g_audio_sinfo (put_video k w st) = g_audio_sinfo st" by (simp add: put_video_def)
  ultimately show "\<exists>st'. filter_units (key_frame sps pps r) (int (length (key_frame sps pps r))) (int k) st
          = Some (8 + int (length sps) + int (length pps), st')
        \<and> sdp_ok st' \<and> (\<forall>j. j \<noteq> k \<longrightarrow> g_video_sinfo st' ! j = g_video_sinfo st ! j)
        \<and> g_audio_sinfo st' = g_audio_sinfo st
        \<and> rtsp_stream_get_video_sdp_info b64 (int k) st' = Some (0, a @ [0x2c] @ b)"
    using filter_units_fit [OF assms(1-3) fits, of r] ok by (auto simp: w_def v_def)
qed (use filter_units_long assms in auto)

subsection \<open>The sound configuration\<close>

text \<open>The sampling index and the channel configuration of an ADTS header.\<close>

definition adts_index :: "byte list \<Rightarrow> nat" where "adts_index d = unat (drop_bit 2 (d ! 2 AND 0x3c))"

definition adts_channels :: "byte list \<Rightarrow> nat" where
  "adts_channels d = 4 * unat (d ! 2 AND 0x01) + unat (drop_bit 6 (d ! 3 AND 0xc0))"

definition adts_sync :: "byte list \<Rightarrow> bool" where
  "adts_sync d \<longleftrightarrow> push_bit 4 (ucast (d ! 0) :: u32) OR drop_bit 4 (ucast (d ! 1 AND 0xf0)) = 0x0fff"

lemma config_bits:
  "list_all (\<lambda>i. list_all (\<lambda>c.
      0x1000 OR push_bit 8 (drop_bit 1 (ucast (of_nat i AND 0x0f :: byte) :: u32)) OR push_bit 7 (ucast (of_nat i AND 0x01 :: byte))
        OR push_bit 3 (ucast (of_nat c :: byte)) = (of_nat (4096 + 128 * i + 8 * c) :: u32)) [0..<4]) [0..<16]"
  by (simp add: upt_rec)

lemma byte_fields:
  "unat (drop_bit 2 (b AND 0x3c :: byte)) < 16" "unat (drop_bit 6 (b AND 0xc0 :: byte)) < 4" "drop_bit 2 (b AND 0x01 :: byte) = 0"
proof -
  have "b AND 0x3c \<le> 0x3c" "b AND 0xc0 \<le> 0xc0" "b AND 0x01 \<le> 0x01" by (rule word_and_le1)+
  then have "unat (b AND 0x3c) \<le> 60" "unat (b AND 0xc0) \<le> 192" "unat (b AND 0x01) \<le> 1"
    by (simp_all add: word_le_nat_alt)
  then show "unat (drop_bit 2 (b AND 0x3c)) < 16" "unat (drop_bit 6 (b AND 0xc0)) < 4" "drop_bit 2 (b AND 0x01) = 0"
    by (simp_all add: drop_bit_eq_div unat_div word_unat_eq_iff)
qed

lemma length_hex_step: "\<not> n < 16 \<Longrightarrow> length (hex n) = Suc (length (hex (n div 16)))"
  by (subst hex.simps) simp

lemma audio_filter_config:
  assumes "4 \<le> length d"
  shows "rtsp_stream_audio_filter_sdp_info (Some d) =
    Some (if adts_sync d then of_nat (4096 + 128 * adts_index d + 8 * (adts_channels d mod 4)) else - 1)"
proof -
  have "d \<noteq> []" using assms by auto
  then have pk: "peek d 0 = Some (d ! 0)" "peek d 1 = Some (d ! 1)" "peek d 2 = Some (d ! 2)" "peek d 3 = Some (d ! 3)"
    using assms peek_nat [of 0 d] peek_nat [of 1 d] peek_nat [of 2 d] peek_nat [of 3 d] by auto
  define c where "c = unat (drop_bit 6 (d ! 3 AND 0xc0))"
  have c: "c < 4" "adts_channels d mod 4 = c" "drop_bit 6 (d ! 3 AND 0xc0) = of_nat c"
    using byte_fields(2) [of "d ! 3"] by (simp_all add: c_def adts_channels_def)
  have i: "adts_index d < 16" "drop_bit 2 (d ! 2 AND 0x3c) = of_nat (adts_index d)"
    using byte_fields(1) [of "d ! 2"] by (simp_all add: adts_index_def)
  have "0x1000 OR push_bit 8 (drop_bit 1 (ucast (of_nat (adts_index d) AND 0x0f :: byte) :: u32))
      OR push_bit 7 (ucast (of_nat (adts_index d) AND 0x01 :: byte)) OR push_bit 3 (ucast (of_nat c :: byte))
    = (of_nat (4096 + 128 * adts_index d + 8 * c) :: u32)"
    using config_bits i(1) c(1) unfolding list_all_iff by (metis atLeastLessThan_iff set_upt zero_le)
  then have e: "0x1000 OR push_bit 8 (drop_bit 1 (ucast (drop_bit 2 (d ! 2 AND 0x3c) AND 0x0f) :: u32))
      OR push_bit 7 (ucast (drop_bit 2 (d ! 2 AND 0x3c) AND 0x01))
      OR push_bit 3 (ucast (drop_bit 2 (d ! 2 AND 0x01) OR drop_bit 6 (d ! 3 AND 0xc0)))
    = (of_nat (4096 + 128 * adts_index d + 8 * c) :: u32)"
    unfolding byte_fields(3) c(3) i(2) or.left_neutral .
  show ?thesis
    unfolding rtsp_stream_audio_filter_sdp_info_def option.case pk Option.bind_lunit Let_def e c(2) adts_sync_def
    by (simp only: if_not_P split: if_splits) simp
qed

text \<open>
  The sound of a channel is described by what its last ADTS header says: object type 2, the sampling index and the
  lower two bits of the channel configuration, in four hexadecimal digits.  A header without the synchronisation word is
  recorded as the configuration 0xffffffff, which passes the test for a missing one and is announced.
\<close>
theorem sound_announced:
  assumes "sdp_ok st" "k < 4" "4 \<le> length d"
  shows "\<exists>st'. rtsp_porting_audio_filter_sdp_info (Some d) ch rate (int k) st = Some (0, st') \<and> sdp_ok st'
    \<and> g_video_sinfo st' = g_video_sinfo st
    \<and> rtsp_stream_get_audio_sinfo (int k) r0 st' = Some (0,
        if adts_sync d then hex (4096 + 128 * adts_index d + 8 * (adts_channels d mod 4)) else chars ''ffffffff'', rate)"
proof -
  define n where "n = 4096 + 128 * adts_index d + 8 * (adts_channels d mod 4)"
  have n: "n < 8192" "4096 \<le> n" using byte_fields(1) [of "d ! 2"] by (auto simp: n_def adts_index_def)
  have w: "(of_nat n :: u32) \<noteq> 0" "unat (of_nat n :: u32) = n"
    using n unat_small [of n] by (auto simp: word_unat_eq_iff)
  have "n div 4096 = 1" using n by (intro div_nat_eqI) auto
  then have a: "n div 16 div 16 div 16 = 1" by (simp flip: div_mult2_eq)
  then have "\<not> n div 16 div 16 < 16" "\<not> n div 16 < 16" "\<not> n < 16" by (auto dest: div_less)
  then have "length (hex n) = Suc (Suc (Suc (length (hex (n div 16 div 16 div 16)))))" by (metis length_hex_step)
  then have h: "length (hex n) = 4" unfolding a by (subst (asm) hex.simps) simp
  define cfg :: u32 where "cfg = (if adts_sync d then of_nat n else - 1)"
  define st' where "st' = st\<lparr>g_audio_sinfo := (g_audio_sinfo st)[k := \<lparr>a_channel = ch, a_samplerate = rate, audio_config = cfg\<rparr>]\<rparr>"
  have t: "hex04 cfg = (if adts_sync d then hex n else chars ''ffffffff'')"
  proof (cases "adts_sync d")
    case True
    then show ?thesis by (simp add: cfg_def hex04_def w h)
  next
    case False
    have "unat (- 1 :: u32) = 4294967295" by (simp add: unsigned_minus_1_eq_mask mask_eq_exp_minus_1)
    then have "hex04 (- 1) = chars ''ffffffff''" by (simp add: hex04_def hex.simps hex_char_def chars_def)
    with False show ?thesis by (simp add: cfg_def)
  qed
  have c: "\<not> cfg \<le> 0" using w by (simp add: cfg_def)
  have f: "rtsp_stream_audio_filter_sdp_info (Some d) = Some cfg"
    using audio_filter_config [OF assms(3)] by (simp add: cfg_def n_def)
  have "rtsp_porting_audio_filter_sdp_info (Some d) ch rate (int k) st = Some (0, st')"
    using assms sdp_ok_lengths(3) [OF assms(1)] f
    by (simp add: rtsp_porting_audio_filter_sdp_info_def MAX_VIDEO_SDP_NUM_def poke_def st'_def sdp_ok_def)
  moreover have "sdp_ok st'" "g_video_sinfo st' = g_video_sinfo st" using assms(1) by (simp_all add: st'_def sdp_ok_def)
  moreover have "rtsp_stream_get_audio_sinfo (int k) r0 st' = Some (0, hex04 cfg, rate)"
    using assms c by (simp add: rtsp_stream_get_audio_sinfo_def peek_def st'_def sdp_ok_def)
  ultimately show ?thesis unfolding t n_def by blast
qed

subsection \<open>Witnesses\<close>

text \<open>The encoding of RFC 4648, for the witness.\<close>

definition b64_char :: "byte \<Rightarrow> byte" where
  "b64_char b = (if b < 26 then b + 0x41 else if b < 52 then b - 26 + 0x61 else if b < 62 then b - 52 + 0x30
     else if b = 62 then 0x2b else 0x2f)"

fun b64_encode :: "byte list \<Rightarrow> byte list" where
  "b64_encode [] = []"
| "b64_encode [a] = [b64_char (drop_bit 2 a), b64_char (push_bit 4 (a AND 3)), 0x3d, 0x3d]"
| "b64_encode [a, b] = [b64_char (drop_bit 2 a), b64_char (push_bit 4 (a AND 3) OR drop_bit 4 b),
     b64_char (push_bit 2 (b AND 0xf)), 0x3d]"
| "b64_encode (a # b # c # r) = [b64_char (drop_bit 2 a), b64_char (push_bit 4 (a AND 3) OR drop_bit 4 b),
     b64_char (push_bit 2 (b AND 0xf) OR drop_bit 6 c), b64_char (c AND 0x3f)] @ b64_encode r"

definition b64_lib :: "byte list \<Rightarrow> int \<Rightarrow> int \<times> byte list" where
  "b64_lib s room = (int (length (b64_encode s)), b64_encode s)"

definition sdp_start :: sdp_state where
  "sdp_start = rtsp_porting_sdp_init True \<lparr>sdp_mutex = False, g_video_sinfo = [], g_audio_sinfo = []\<rparr>"

definition sample_sps :: "byte list" where "sample_sps = [0x67, 0x42, 0x80, 0x28, 0xda, 0x01, 0xe0, 0x08, 0x9f, 0x97]"
definition sample_pps :: "byte list" where "sample_pps = [0x68, 0xce, 0x3c, 0x80]"

lemma sdp_start_ok: "sdp_ok sdp_start"
  by (simp add: sdp_ok_def sdp_start_def rtsp_porting_sdp_init_def list_all_iff)

lemma codeless_list:
  "codeless u \<longleftrightarrow> (u = [] \<or> last u \<noteq> 0) \<and> list_all (\<lambda>i. take 4 (drop i u) \<noteq> start_code) [0..<length u]"
  by (auto simp: codeless_def list_all_iff)

lemma parameter_sets_announced_witness:
  "\<exists>st'. filter_units (key_frame sample_sps sample_pps [0x65, 1]) 28 0 sdp_start = Some (22, st')
     \<and> rtsp_stream_get_video_sdp_info b64_lib 0 st' = Some (0, chars ''Z0KAKNoB4Aiflw==,aM48gA=='')"
proof -
  have p: "parameter_sets sample_sps sample_pps"
    unfolding parameter_sets_def codeless_list by code_simp
  have a: "encodes b64_lib sample_sps (chars ''Z0KAKNoB4Aiflw=='')" by code_simp
  have b: "encodes b64_lib sample_pps (chars ''aM48gA=='')" by code_simp
  have l: "length sample_sps = 10" "length sample_pps = 4" "length (key_frame sample_sps sample_pps [0x65, 1]) = 28"
    by (simp_all add: sample_sps_def sample_pps_def key_frame_def)
  show ?thesis
    using parameter_sets_announced [OF sdp_start_ok _ p a b, of 0 "[0x65, 1]"] l by (auto simp: chars_def)
qed

lemma sound_announced_witness:
  "\<exists>st'. rtsp_porting_audio_filter_sdp_info (Some [0xff, 0xf1, 0x50, 0x80]) 2 44100 0 sdp_start = Some (0, st')
     \<and> rtsp_stream_get_audio_sinfo 0 0 st' = Some (0, chars ''1210'', 44100)"
proof -
  have "adts_sync [0xff, 0xf1, 0x50, 0x80]" by code_simp
  moreover have "adts_index [0xff, 0xf1, 0x50, 0x80] = 4" "adts_channels [0xff, 0xf1, 0x50, 0x80] = 2" by code_simp+
  moreover have "hex 4624 = chars ''1210''" by (simp add: hex.simps hex_char_def chars_def)
  ultimately show ?thesis
    using sound_announced [OF sdp_start_ok, of 0 "[0xff, 0xf1, 0x50, 0x80]" 2 44100 0] by auto
qed

end
