(* ===== verification/RtspSession.thy ===== *)
theory RtspSession
  imports MultServer RtspAuth RtspSdp
begin

section \<open>Sessions of the RTSP server\<close>

text \<open>
  The slots of \<^verbatim>\<open>room/rtsp/rtsp_server.c\<close> for at most five sessions, and \<^verbatim>\<open>enc/stream_output/rtsp_output_server.c\<close>, which
  holds the settings of the server and takes the receivers of \<open>StreamClient\<close> for the sessions.

  A session is known by its slot.  What the kernel answers to \<^verbatim>\<open>socket\<close> is in the argument \<open>e\<close>, as in \<open>MultServer\<close>.
  Reading and writing the settings in flash, socket options and the traffic shaping (switched off) are left out.
  \<^const>\<open>None\<close> is undefined behaviour.
\<close>

subsection \<open>Data\<close>

definition MAX_RTSP_CLIENT_NUM :: nat where "MAX_RTSP_CLIENT_NUM = 5"
definition RTSP_MAX_CLIENT_NUM :: nat where "RTSP_MAX_CLIENT_NUM = 8"

record rtsp_server_config =
  s_port :: int
  active :: int
  s_mtu :: int
  mult_flag :: "int list"
  mult_ip :: "byte list list"
  mult_port :: "int list"

record RTSP_Output_Server_Handle =
  h_used :: int
  rtsp_config :: rtsp_server_config
  h_config :: stream_output_server_config
  h_client :: "nat option list"

record RTSPClientData =
  bUsed :: bool
  udpready :: int
  UdpVideoSocket :: int
  UdpAudioSocket :: int
  client_addr :: sockaddr_in
  Udp_video_addr :: sockaddr_in
  Udp_audio_addr :: sockaddr_in
  client_type :: int
  c_roomid :: int
  r_client :: "nat option"

record rtsp_state =
  rtspcliDATA :: "RTSPClientData list"
  g_rtsp_flag :: int
  g_guest_user_num :: int
  g_ts_client_num :: int
  g_keepactive_time :: int
  g_rtsp_port :: u16
  g_local_ip :: "byte list"
  g_user_autentication :: User_Authentication
  g_rtsp_shandle :: "RTSP_Output_Server_Handle option"
  g_rtsp_is_active :: int
  sdp :: sdp_state
  rout :: stream_out

definition cli_at :: "nat \<Rightarrow> rtsp_state \<Rightarrow> RTSPClientData option" where
  "cli_at pos st = peek (rtspcliDATA st) (int pos)"

definition put_cli :: "nat \<Rightarrow> RTSPClientData \<Rightarrow> rtsp_state \<Rightarrow> rtsp_state" where
  "put_cli pos c st = st\<lparr>rtspcliDATA := (rtspcliDATA st)[pos := c]\<rparr>"

subsection \<open>Slots\<close>

definition RtspThreadInit :: "rtsp_state \<Rightarrow> rtsp_state" where
  "RtspThreadInit st = st\<lparr>rtspcliDATA :=
     map (\<lambda>c. c\<lparr>udpready := 0, bUsed := False, UdpAudioSocket := 0, UdpVideoSocket := 0, c_roomid := - 1, client_type := VLC_CLIENT\<rparr>)
       (take MAX_RTSP_CLIENT_NUM (rtspcliDATA st)) @ drop MAX_RTSP_CLIENT_NUM (rtspcliDATA st)\<rparr>"

definition RtspGetNullClientIndex :: "rtsp_state \<Rightarrow> nat option \<times> rtsp_state" where
  "RtspGetNullClientIndex st =
     (case find (\<lambda>i. \<not> bUsed (rtspcliDATA st ! i)) [0..<MAX_RTSP_CLIENT_NUM] of
        None \<Rightarrow> (None, st)
      | Some i \<Rightarrow> (Some i, put_cli i ((rtspcliDATA st ! i)\<lparr>bUsed := True, client_type := VLC_CLIENT,
                              UdpAudioSocket := - 1, UdpVideoSocket := - 1\<rparr>) st))"

definition RtspGetClientNum :: "rtsp_state \<Rightarrow> int" where
  "RtspGetClientNum st = int (length (filter bUsed (take MAX_RTSP_CLIENT_NUM (rtspcliDATA st))))"

text \<open>The answer with the numbers of sessions and of guests.\<close>

definition verdict_guest_user_num :: "rtsp_state \<Rightarrow> int \<times> int \<times> int" where
  "verdict_guest_user_num st =
     (let n = RtspGetClientNum st; g = g_guest_user_num st
      in (if int MAX_RTSP_CLIENT_NUM - 1 < g + n then - 1 else 0, n, g))"

definition rtsp_add_guest_user :: "rtsp_state \<Rightarrow> (int \<times> int \<times> int) \<times> rtsp_state" where
  "rtsp_add_guest_user st =
     (let n = RtspGetClientNum st
      in if g_guest_user_num st + n < int MAX_RTSP_CLIENT_NUM
         then ((0, n, g_guest_user_num st + 1), st\<lparr>g_guest_user_num := g_guest_user_num st + 1\<rparr>)
         else ((- 1, n, g_guest_user_num st), st))"

definition rtsp_del_guest_user :: "rtsp_state \<Rightarrow> (int \<times> int \<times> int) \<times> rtsp_state" where
  "rtsp_del_guest_user st =
     ((0, RtspGetClientNum st, g_guest_user_num st - 1), st\<lparr>g_guest_user_num := g_guest_user_num st - 1\<rparr>)"

definition rtsp_del_guest_user_all :: "rtsp_state \<Rightarrow> (int \<times> int \<times> int) \<times> rtsp_state" where
  "rtsp_del_guest_user_all st = ((0, RtspGetClientNum st, 0), st\<lparr>g_guest_user_num := 0\<rparr>)"

definition rtsp_ts_set_client_num :: "int \<Rightarrow> rtsp_state \<Rightarrow> rtsp_state" where
  "rtsp_ts_set_client_num flag st =
     (let n = g_ts_client_num st + flag in st\<lparr>g_ts_client_num := (if n < 0 then 0 else n)\<rparr>)"

definition RtspSetPort :: "int \<Rightarrow> rtsp_state \<Rightarrow> rtsp_state" where
  "RtspSetPort port st = st\<lparr>g_rtsp_port := of_int port\<rparr>"

definition rtsp_set_keepactive_time :: "int \<Rightarrow> rtsp_state \<Rightarrow> rtsp_state" where
  "rtsp_set_keepactive_time s st =
     (let s = (if s < 10 then 10 else s); s = (if 900000 < s then 900000 else s) in st\<lparr>g_keepactive_time := s\<rparr>)"

subsection \<open>Receivers for sessions\<close>

definition set_holder :: "nat \<Rightarrow> nat option \<Rightarrow> rtsp_state \<Rightarrow> rtsp_state option" where
  "set_holder pos c st = do {
     h \<leftarrow> g_rtsp_shandle st;
     t \<leftarrow> poke (h_client h) (int pos) c;
     Some (st\<lparr>g_rtsp_shandle := Some (h\<lparr>h_client := t\<rparr>)\<rparr>)}"

definition app_rtsp_server_get_common_info ::
    "rtsp_state \<Rightarrow> (int \<times> stream_output_server_config option \<times> rtsp_state) option" where
  "app_rtsp_server_get_common_info st =
     (case g_rtsp_shandle st of
        None \<Rightarrow> Some (- 1, None, st)
      | Some h \<Rightarrow>
          if 16 < length (g_local_ip st) + 1 then None
          else let c = (h_config h)\<lparr>main_ip := g_local_ip st\<rparr>
               in Some (0, Some c, st\<lparr>g_rtsp_shandle := Some (h\<lparr>h_config := c\<rparr>)\<rparr>))"

text \<open>The multicast flag, address and ports of a channel.\<close>

definition stream_get_rtsp_ginfo :: "int \<Rightarrow> rtsp_state \<Rightarrow> (int \<times> int \<times> byte list \<times> int \<times> int) option" where
  "stream_get_rtsp_ginfo channel st =
     (case g_rtsp_shandle st of
        None \<Rightarrow> Some (- 1, 0, [], 0, 0)
      | Some h \<Rightarrow> do {
          mult \<leftarrow> peek (mult_flag (rtsp_config h)) channel;
          if mult = 1 then do {
            ip \<leftarrow> peek (mult_ip (rtsp_config h)) channel;
            port \<leftarrow> peek (mult_port (rtsp_config h)) channel;
            Some (0, mult, ip, port, port + 2)}
          else Some (0, mult, [], video_port (h_config h), audio_port (h_config h))})"

definition stream_create_rtsp_client ::
    "open_env \<Rightarrow> nat \<Rightarrow> sockaddr_in \<Rightarrow> sockaddr_in \<Rightarrow> int \<Rightarrow> rtsp_state \<Rightarrow> (nat option \<times> rtsp_state) option" where
  "stream_create_rtsp_client e pos vaddr aaddr channel st =
     (case stream_client_is_repeat vaddr (rout st) of
        Some i \<Rightarrow> do {
          out \<leftarrow> stream_client_set_mnum (Some i) 1 (rout st);
          Some (Some i, st\<lparr>rout := out\<rparr>)}
      | None \<Rightarrow>
          (case stream_client_get_free (rout st) of
             None \<Rightarrow> Some (None, st)
           | Some i \<Rightarrow> do {
               (_, out) \<leftarrow> stream_client_open e vaddr aaddr TYPE_RTP (Some i) channel (rout st);
               st \<leftarrow> set_holder pos (Some i) (st\<lparr>rout := out\<rparr>);
               (_, _, st) \<leftarrow> app_rtsp_server_get_common_info st;
               Some (Some i, st)}))"

definition stream_close_rtsp_client :: "nat \<Rightarrow> nat option \<Rightarrow> rtsp_state \<Rightarrow> (int \<times> rtsp_state) option" where
  "stream_close_rtsp_client pos client st =
     (if client = None then Some (- 1, st)
      else do {
        out \<leftarrow> stream_client_set_mnum client (- 1) (rout st);
        n \<leftarrow> steram_client_get_mnum client out;
        if n \<le> 0 then do {
          (_, out) \<leftarrow> stream_client_close client out;
          st \<leftarrow> set_holder pos None (st\<lparr>rout := out\<rparr>);
          Some (0, st)}
        else Some (0, st\<lparr>rout := out\<rparr>)})"

definition stream_get_rtsp_mtu :: "rtsp_state \<Rightarrow> int" where
  "stream_get_rtsp_mtu st =
     (case g_rtsp_shandle st of
        None \<Rightarrow> 1450
      | Some h \<Rightarrow> if g_rtsp_flag st = 0 then 1450
                  else if 228 \<le> sc_mtu (h_config h) \<and> sc_mtu (h_config h) \<le> 1500 then sc_mtu (h_config h) else 1450)"

subsection \<open>Starting and ending to send\<close>

text \<open>The calls of \<^verbatim>\<open>mid_plat_close_socket\<close> on the two sockets of the slot, which are -1 in every session.\<close>

definition close_slot_sockets :: "RTSPClientData \<Rightarrow> rtsp_state \<Rightarrow> rtsp_state" where
  "close_slot_sockets c st =
     st\<lparr>rout := (rout st)\<lparr>closed_sockets := closed_sockets (rout st) @ [UdpAudioSocket c, UdpVideoSocket c]\<rparr>\<rparr>"

definition RtspPauseClient :: "nat \<Rightarrow> rtsp_state \<Rightarrow> rtsp_state option" where
  "RtspPauseClient pos st = do {
     c \<leftarrow> cli_at pos st;
     let st = put_cli pos (c\<lparr>udpready := 0, UdpAudioSocket := - 1, UdpVideoSocket := - 1\<rparr>) (close_slot_sockets c st);
     (_, st) \<leftarrow> stream_close_rtsp_client pos (r_client c) st;
     c \<leftarrow> cli_at pos st;
     Some (put_cli pos (c\<lparr>r_client := None\<rparr>) st)}"

definition RtspDelClient :: "nat \<Rightarrow> rtsp_state \<Rightarrow> rtsp_state option" where
  "RtspDelClient pos st = do {
     c \<leftarrow> cli_at pos st;
     let st = put_cli pos (c\<lparr>udpready := 0, c_roomid := - 1, bUsed := False, UdpAudioSocket := - 1, Udp_audio_addr := zero_addr,
                Udp_video_addr := zero_addr, client_addr := zero_addr, UdpVideoSocket := - 1, client_type := VLC_CLIENT\<rparr>)
                (close_slot_sockets c st);
     (_, st) \<leftarrow> stream_close_rtsp_client pos (r_client c) st;
     c \<leftarrow> cli_at pos st;
     Some (put_cli pos (c\<lparr>r_client := None\<rparr>) st)}"

text \<open>Loops over the slots: one slot marked invalid and its receiver given back.\<close>

definition drop_client :: "nat \<Rightarrow> rtsp_state \<Rightarrow> rtsp_state option" where
  "drop_client pos st = do {
     c \<leftarrow> cli_at pos st;
     (_, st) \<leftarrow> stream_close_rtsp_client pos (r_client c) (put_cli pos (c\<lparr>client_type := INVALID_CLIENT\<rparr>) st);
     c \<leftarrow> cli_at pos st;
     Some (put_cli pos (c\<lparr>r_client := None\<rparr>) st)}"

fun for_slots :: "(nat \<Rightarrow> rtsp_state \<Rightarrow> rtsp_state option) \<Rightarrow> nat list \<Rightarrow> rtsp_state \<Rightarrow> rtsp_state option" where
  "for_slots f [] st = Some st"
| "for_slots f (i # is) st = do {st \<leftarrow> f i st; for_slots f is st}"

definition rtsp_close_all_client :: "rtsp_state \<Rightarrow> rtsp_state option" where
  "rtsp_close_all_client st = for_slots drop_client [0..<MAX_RTSP_CLIENT_NUM] st"

definition drop_resized :: "int \<Rightarrow> nat \<Rightarrow> rtsp_state \<Rightarrow> rtsp_state option" where
  "drop_resized room pos st = do {
     c \<leftarrow> cli_at pos st;
     if room = c_roomid c \<and> client_type c = QT_CLIENT then drop_client pos st else Some st}"

definition rtsp_change_video_resolve :: "int \<Rightarrow> rtsp_state \<Rightarrow> rtsp_state option" where
  "rtsp_change_video_resolve room st =
     (if g_rtsp_flag st \<noteq> 1 then Some st else for_slots (drop_resized room) [0..<MAX_RTSP_CLIENT_NUM] st)"

definition rtsp_change_sdp_info :: "int \<Rightarrow> rtsp_state \<Rightarrow> rtsp_state option" where
  "rtsp_change_sdp_info room st = rtsp_change_video_resolve room st"

definition rtsp_porting_video_filter_sdp_info ::
    "byte list \<Rightarrow> int \<Rightarrow> u32 \<Rightarrow> u32 \<Rightarrow> int \<Rightarrow> rtsp_state \<Rightarrow> (int \<times> rtsp_state) option" where
  "rtsp_porting_video_filter_sdp_info p plen w h i st =
     (if MAX_VIDEO_SDP_NUM \<le> i then Some (- 1, st)
      else do {
        (ow, oh) \<leftarrow> rtsp_porting_get_width_height i (sdp st);
        st \<leftarrow> (if ow \<noteq> w \<or> oh \<noteq> h then do {
                 st \<leftarrow> rtsp_change_sdp_info i st;
                 (_, s) \<leftarrow> rtsp_porting_set_width_height w h i (sdp st);
                 Some (st\<lparr>sdp := s\<rparr>)}
               else Some st);
        (len, s) \<leftarrow> filter_units p plen i (sdp st);
        Some (len, st\<lparr>sdp := s\<rparr>)})"

text \<open>
  A port, written by a client as text up to a minus sign: the sum of the digits times powers of ten, converted to \<^verbatim>\<open>int\<close>
  after every term.
\<close>

definition port_text :: "byte list \<Rightarrow> nat \<Rightarrow> byte list option" where
  "port_text row n =
     (let t = takeWhile (\<lambda>c. c \<noteq> 0x2d) (take n row) in if n \<le> length row \<or> length t < length row then Some t else None)"

fun port_sum :: "byte list \<Rightarrow> int \<Rightarrow> int option" where
  "port_sum [] v = Some v"
| "port_sum (d # ds) v =
     (let v = v + (uint d - 0x30) * 10 ^ length ds in if - (2 ^ 31) \<le> v \<and> v < 2 ^ 31 then port_sum ds v else None)"

definition client_port :: "STR_CLIENT_MSG \<Rightarrow> nat \<Rightarrow> int option" where
  "client_port msg k = do {t \<leftarrow> port_text (aucClientport msg ! k) (unat (ucClientportLen msg ! k)); port_sum t 0}"

definition RtspAddClient ::
    "(byte list \<Rightarrow> u32) \<Rightarrow> open_env \<Rightarrow> sockaddr_in \<Rightarrow> nat \<Rightarrow> STR_CLIENT_MSG \<Rightarrow> rtsp_state \<Rightarrow> (int \<times> rtsp_state) option" where
  "RtspAddClient pton e caddr pos msg st = do {
     vport \<leftarrow> client_port msg 0;
     if vport = 0 then Some (- 1, st)
     else do {
       (_, mult, ip, _, _) \<leftarrow> stream_get_rtsp_ginfo (roomid msg) st;
       let to = (if mult = 1 then pton ip else sin_addr caddr);
       let vaddr = \<lparr>sin_family = 2, sin_port = port_field vport, sin_addr = to\<rparr>;
       aport \<leftarrow> client_port msg 1;
       let aaddr = (if aport = 0 then zero_addr else \<lparr>sin_family = 2, sin_port = port_field aport, sin_addr = to\<rparr>);
       (client, st) \<leftarrow> stream_create_rtsp_client e pos vaddr aaddr (roomid msg) st;
       if client = None then Some (0, st)
       else do {
         c \<leftarrow> cli_at pos st;
         Some (0, put_cli pos (c\<lparr>c_roomid := roomid msg, r_client := client, udpready := 1, client_addr := caddr\<rparr>) st)}}}"

subsection \<open>The server as the settings see it\<close>

definition app_rtsp_set_active :: "int \<Rightarrow> rtsp_state \<Rightarrow> rtsp_state" where
  "app_rtsp_set_active status st = st\<lparr>g_rtsp_is_active := (if status = S_ACTIVE then 1 else 0)\<rparr>"

definition rtsp_porting_server_need_stop :: "rtsp_state \<Rightarrow> bool" where
  "rtsp_porting_server_need_stop st \<longleftrightarrow> g_rtsp_is_active st = 0"

definition app_rtsp_ginfo_init :: rtsp_server_config where
  "app_rtsp_ginfo_init = \<lparr>s_port = 554, active = 120, s_mtu = 1480, mult_flag = replicate 4 0,
     mult_ip = map (\<lambda>i. dec (234 + i) @ [0x2e] @ dec (5 + i) @ [0x2e] @ dec (8 + i) @ [0x2e] @ dec (80 + i)) [0..<4],
     mult_port = map (\<lambda>i. 5000 + int i * 200) [0..<4]\<rparr>"

definition set_status :: "int \<Rightarrow> rtsp_state \<Rightarrow> rtsp_state option" where
  "set_status status st = do {
     h \<leftarrow> g_rtsp_shandle st;
     Some (app_rtsp_set_active status (st\<lparr>g_rtsp_shandle := Some (h\<lparr>h_config := (h_config h)\<lparr>sc_status := status\<rparr>\<rparr>)\<rparr>))}"

definition app_rtsp_server_start :: "stream_output_server_config \<Rightarrow> rtsp_state \<Rightarrow> (int \<times> rtsp_state) option" where
  "app_rtsp_server_start c st =
     (if g_rtsp_shandle st = None then Some (- 1, st) else map_option (Pair 0) (set_status (sc_status c) st))"

definition app_rtsp_server_stop :: "stream_output_server_config \<Rightarrow> rtsp_state \<Rightarrow> (int \<times> rtsp_state) option" where
  "app_rtsp_server_stop c st =
     (case g_rtsp_shandle st of
        None \<Rightarrow> Some (- 1, st)
      | Some h \<Rightarrow> do {
          st \<leftarrow> set_status (sc_status c) st;
          st \<leftarrow> (if sc_status c \<noteq> sc_status (h_config h) then rtsp_close_all_client st else Some st);
          Some (0, st)})"

definition app_rtsp_server_set_status :: "stream_output_server_config \<Rightarrow> rtsp_state \<Rightarrow> (int \<times> rtsp_state) option" where
  "app_rtsp_server_set_status c st =
     (if g_rtsp_shandle st = None then Some (- 1, st)
      else do {
        (_, st) \<leftarrow> (if sc_status c = S_ACTIVE then app_rtsp_server_start c st
                     else if sc_status c = S_STOP then app_rtsp_server_stop c st else Some (0, st));
        (_, _, st) \<leftarrow> app_rtsp_server_get_common_info st;
        Some (0, st)})"

definition app_rtsp_server_add :: "stream_output_server_config \<Rightarrow> rtsp_state \<Rightarrow> int \<times> rtsp_state" where
  "app_rtsp_server_add c st =
     (case g_rtsp_shandle st of
        None \<Rightarrow> (- 1, st)
      | Some h \<Rightarrow>
          if sc_status c = S_DEL \<or> sc_type c \<noteq> TYPE_RTSP then (- 1, st)
          else (0, app_rtsp_set_active S_ACTIVE
                 (st\<lparr>g_rtsp_shandle := Some (h\<lparr>h_config := c\<lparr>sc_status := S_ACTIVE\<rparr>, h_used := ISUSED\<rparr>)\<rparr>)))"

definition close_holder :: "nat \<Rightarrow> rtsp_state \<Rightarrow> rtsp_state option" where
  "close_holder pos st = do {
     h \<leftarrow> g_rtsp_shandle st;
     c \<leftarrow> peek (h_client h) (int pos);
     (_, st) \<leftarrow> stream_close_rtsp_client pos c st;
     Some st}"

definition app_rtsp_server_delete :: "rtsp_state \<Rightarrow> (int \<times> rtsp_state) option" where
  "app_rtsp_server_delete st =
     (if g_rtsp_shandle st = None then Some (- 1, st)
      else do {
        st \<leftarrow> for_slots close_holder [0..<RTSP_MAX_CLIENT_NUM] st;
        h \<leftarrow> g_rtsp_shandle st;
        Some (0, app_rtsp_set_active 0 (st\<lparr>g_rtsp_shandle := Some (h\<lparr>h_config := n_config multicast_node_create,
                    h_used := NOTUSED\<rparr>)\<rparr>))})"

definition app_rtsp_server_used :: "rtsp_state \<Rightarrow> int" where
  "app_rtsp_server_used st =
     (case g_rtsp_shandle st of None \<Rightarrow> - 1 | Some h \<Rightarrow> if h_used h = ISUSED then 1 else 0)"

text \<open>One channel of the multicast settings; the texts fit their arrays of 16 bytes.\<close>

definition set_mult :: "nat \<Rightarrow> rtsp_server_config \<Rightarrow> rtsp_server_config \<Rightarrow> rtsp_server_config" where
  "set_mult i c old =
     (if mult_flag c ! i = 0 \<or> mult_flag c ! i = 1 then
        (if mult_flag c ! i \<noteq> mult_flag old ! i then
           (if mult_flag c ! i = 1
            then old\<lparr>mult_flag := (mult_flag old)[i := mult_flag c ! i], mult_ip := (mult_ip old)[i := mult_ip c ! i],
                   mult_port := (mult_port old)[i := mult_port c ! i]\<rparr>
            else old\<lparr>mult_flag := (mult_flag old)[i := mult_flag c ! i]\<rparr>)
         else if mult_flag c ! i = 1 \<and> (mult_ip old ! i \<noteq> mult_ip c ! i \<or> mult_port old ! i \<noteq> mult_port c ! i)
         then old\<lparr>mult_ip := (mult_ip old)[i := mult_ip c ! i], mult_port := (mult_port old)[i := mult_port c ! i]\<rparr>
         else old)
      else old)"

definition app_rtsp_server_set_global_info :: "rtsp_server_config \<Rightarrow> rtsp_state \<Rightarrow> int \<times> rtsp_state" where
  "app_rtsp_server_set_global_info c st =
     (case g_rtsp_shandle st of
        None \<Rightarrow> (- 1, st)
      | Some h \<Rightarrow>
          let old = rtsp_config h;
              old = (if s_port c \<noteq> s_port old \<and> 81 \<le> s_port c \<and> s_port c \<le> 65535 then old\<lparr>s_port := s_port c\<rparr> else old);
              change = (active c \<noteq> active old \<and> 10 \<le> active c \<and> active c \<le> 900000);
              old = (if change then old\<lparr>active := active c\<rparr> else old);
              st = (if change then rtsp_set_keepactive_time (active c) st else st);
              old = (if s_mtu c \<noteq> s_mtu old \<and> 228 \<le> s_mtu c \<and> s_mtu c \<le> 1500 then old\<lparr>s_mtu := s_mtu c\<rparr> else old);
              old = fold (\<lambda>i. set_mult i c) [0..<4] old
          in (0, st\<lparr>g_rtsp_shandle := Some (h\<lparr>rtsp_config := old\<rparr>)\<rparr>))"

definition app_rtsp_server_get_global_info :: "rtsp_state \<Rightarrow> rtsp_server_config option" where
  "app_rtsp_server_get_global_info st = map_option rtsp_config (g_rtsp_shandle st)"

definition app_rtsp_server_set_common_info :: "stream_output_server_config \<Rightarrow> rtsp_state \<Rightarrow> int \<times> rtsp_state" where
  "app_rtsp_server_set_common_info c st =
     (case g_rtsp_shandle st of
        None \<Rightarrow> (- 1, st)
      | Some h \<Rightarrow>
          let cf = h_config h;
              cf = (if 228 \<le> sc_mtu c \<and> sc_mtu c \<le> 1500 then cf\<lparr>sc_mtu := sc_mtu c\<rparr> else cf);
              cf = (if rtsp_permissions c = 0 \<or> rtsp_permissions c = 1
                    then cf\<lparr>MultServer.rtsp_permissions := rtsp_permissions c\<rparr> else cf)
          in (0, st\<lparr>g_rtsp_shandle := Some (h\<lparr>h_config := cf\<rparr>)\<rparr>))"

subsection \<open>New connections\<close>

text \<open>
  What \<^verbatim>\<open>RtspTask\<close> does with a connection: refused while the server is stopped, when guests and sessions fill the slots,
  or when no thread can be made; otherwise the slot of the new session.
\<close>

definition rtsp_accept :: "bool \<Rightarrow> rtsp_state \<Rightarrow> (nat option \<times> rtsp_state) option" where
  "rtsp_accept thread st =
     (if rtsp_porting_server_need_stop st then Some (None, st)
      else if fst (verdict_guest_user_num st) = - 1 then Some (None, st)
      else case RtspGetNullClientIndex st of
        (None, st) \<Rightarrow> Some (None, st)
      | (Some pos, st) \<Rightarrow>
          if thread then Some (Some pos, st) else do {st \<leftarrow> RtspDelClient pos st; Some (None, st)})"

subsection \<open>Who holds a receiver\<close>

text \<open>
  \<open>others\<close> are the receivers that someone else, a multicast server, has opened and holds.  \<open>usenum\<close> of a receiver in use
  is the number of sessions that hold it, and one more when it belongs to \<open>others\<close>; receivers not in use are held by nobody.
\<close>

definition has_client :: "nat \<Rightarrow> RTSPClientData \<Rightarrow> bool" where "has_client i c \<longleftrightarrow> r_client c = Some i"

definition held_by :: "nat \<Rightarrow> rtsp_state \<Rightarrow> int" where
  "held_by i st = int (length (filter (has_client i) (rtspcliDATA st)))"

definition receiver_ok :: "nat set \<Rightarrow> rtsp_state \<Rightarrow> nat \<Rightarrow> bool" where
  "receiver_ok others st i \<longleftrightarrow>
     (if slot_in_use i (rout st)
      then 0 < usenum (g_stream_client (rout st) ! i)
        \<and> usenum (g_stream_client (rout st) ! i) = held_by i st + (if i \<in> others then 1 else 0)
      else held_by i st = 0 \<and> i \<notin> others)"

definition handle_ok :: "rtsp_state \<Rightarrow> bool" where
  "handle_ok st \<longleftrightarrow> (case g_rtsp_shandle st of None \<Rightarrow> False
     | Some h \<Rightarrow> length (h_client h) = 8 \<and> length (mult_flag (rtsp_config h)) = 4
         \<and> length (mult_ip (rtsp_config h)) = 4 \<and> length (mult_port (rtsp_config h)) = 4)
     \<and> length (g_local_ip st) \<le> 15"

definition slots_ok :: "RTSPClientData list \<Rightarrow> bool" where
  "slots_ok cs \<longleftrightarrow> length cs = 6
     \<and> (\<forall>k<6. \<forall>i. r_client (cs ! k) = Some i \<longrightarrow> i < 8 \<and> k < 5 \<and> bUsed (cs ! k))"

definition session_inv :: "nat set \<Rightarrow> rtsp_state \<Rightarrow> bool" where
  "session_inv others st \<longleftrightarrow> out_inv (rout st) \<and> slots_ok (rtspcliDATA st) \<and> handle_ok st
     \<and> (\<forall>i<8. receiver_ok others st i) \<and> RtspGetClientNum st + g_guest_user_num st \<le> 5"

text \<open>Everything but the slots, the receivers and the handle.\<close>

definition settings_part where
  "settings_part st = (g_rtsp_flag st, g_guest_user_num st, g_ts_client_num st, g_keepactive_time st, g_rtsp_port st, g_local_ip st,
     g_user_autentication st, g_rtsp_is_active st, sdp st,
     map_option (\<lambda>h. (rtsp_config h, video_port (h_config h), audio_port (h_config h))) (g_rtsp_shandle st))"

lemma held_by_update:
  assumes "k < length (rtspcliDATA st)" "rtspcliDATA st' = (rtspcliDATA st)[k := c]"
  shows "held_by i st' = held_by i st + (if has_client i c then 1 else 0) - (if has_client i (rtspcliDATA st ! k) then 1 else 0)"
  using assms by (simp add: held_by_def filter_update)

lemma held_positive:
  assumes "k < length (rtspcliDATA st)" "r_client (rtspcliDATA st ! k) = Some i"
  shows "0 < held_by i st"
proof -
  have "rtspcliDATA st ! k \<in> set (filter (has_client i) (rtspcliDATA st))" using assms by (simp add: has_client_def)
  then show ?thesis by (auto simp: held_by_def simp del: set_filter dest: length_pos_if_in_set)
qed

lemma held_used:
  assumes "session_inv others st" "k < 6" "r_client (rtspcliDATA st ! k) = Some i"
  shows "i < 8" "slot_in_use i (rout st)" "0 < held_by i st" "k < 5" "bUsed (rtspcliDATA st ! k)"
proof -
  have len: "length (rtspcliDATA st) = 6" using assms(1) by (simp add: session_inv_def slots_ok_def)
  show 1: "i < 8" "k < 5" "bUsed (rtspcliDATA st ! k)" using assms by (auto simp: session_inv_def slots_ok_def)
  show 2: "0 < held_by i st" using held_positive assms(2,3) len by simp
  have "receiver_ok others st i" using assms(1) 1 by (simp add: session_inv_def)
  then show "slot_in_use i (rout st)" using 2 by (auto simp: receiver_ok_def split: if_splits)
qed

lemma slots_update:
  assumes "slots_ok cs" "k < 6" "\<And>i. r_client c = Some i \<Longrightarrow> i < 8 \<and> k < 5 \<and> bUsed c"
  shows "slots_ok (cs[k := c])"
  using assms by (auto simp: slots_ok_def nth_list_update)

subsection \<open>Giving back\<close>

lemma set_holder_ok:
  assumes "handle_ok st" "pos < 8"
  shows "\<exists>st'. set_holder pos c st = Some st' \<and> handle_ok st' \<and> settings_part st' = settings_part st \<and> rtspcliDATA st' = rtspcliDATA st
    \<and> rout st' = rout st"
proof -
  obtain h where h: "g_rtsp_shandle st = Some h" "length (h_client h) = 8" "length (mult_flag (rtsp_config h)) = 4"
      "length (mult_ip (rtsp_config h)) = 4" "length (mult_port (rtsp_config h)) = 4" "length (g_local_ip st) \<le> 15"
    using assms(1) by (auto simp: handle_ok_def split: option.splits)
  then show ?thesis
    using assms(2)
    by (intro exI [of _ "st\<lparr>g_rtsp_shandle := Some (h\<lparr>h_client := (h_client h)[pos := c]\<rparr>)\<rparr>"])
      (simp add: handle_ok_def set_holder_def poke_def settings_part_def)
qed

lemma set_mnum_inv:
  assumes "out_inv o1" "slot_in_use i o1"
  shows "\<exists>o2. stream_client_set_mnum (Some i) n o1 = Some o2 \<and> out_inv o2 \<and> (\<forall>j. slot_in_use j o2 = slot_in_use j o1)
    \<and> usenum (g_stream_client o2 ! i) = usenum (g_stream_client o1 ! i) + (if 0 \<le> n then 1 else - 1)
    \<and> (\<forall>j. j \<noteq> i \<longrightarrow> g_stream_client o2 ! j = g_stream_client o1 ! j)
    \<and> steram_client_get_mnum (Some i) o2 = Some (usenum (g_stream_client o2 ! i))
    \<and> datagrams o2 = datagrams o1
    \<and> ctype (g_stream_client o2 ! i) = ctype (g_stream_client o1 ! i)
    \<and> stream_channel (g_stream_client o2 ! i) = stream_channel (g_stream_client o1 ! i)
    \<and> video_addr (g_stream_client o2 ! i) = video_addr (g_stream_client o1 ! i)"
proof -
  have i: "i < 8" using assms by (rule slot_in_use_bound)
  have len: "length (g_stream_client o1) = 8" using assms(1) by (simp add: out_inv_def)
  define c where "c = (g_stream_client o1 ! i)\<lparr>usenum := (if 0 \<le> n then usenum (g_stream_client o1 ! i) + 1
      else usenum (g_stream_client o1 ! i) - 1)\<rparr>"
  have "out_inv (put_client i c o1)"
    using assms i slot_ok_nth [OF assms(1) i] by (intro out_inv_put) (auto simp: c_def slot_ok_def serves_def)
  moreover have "stream_client_set_mnum (Some i) n o1 = Some (put_client i c o1)"
    using i len by (simp add: stream_client_set_mnum_def client_at_def c_def)
  moreover have "slot_in_use j (put_client i c o1) = slot_in_use j o1" for j
    using i len by (auto simp: slot_in_use_def c_def nth_list_update)
  ultimately show ?thesis using i len by (auto simp: c_def steram_client_get_mnum_def client_at_def)
qed

text \<open>What is in use afterwards was in use before and serves the same channel in the same format.\<close>

definition keeps_service :: "stream_out \<Rightarrow> stream_out \<Rightarrow> bool" where
  "keeps_service o1 o2 \<longleftrightarrow> (\<forall>j. slot_in_use j o2 \<longrightarrow> slot_in_use j o1
     \<and> (\<forall>ty ch. serves ty ch (g_stream_client o2 ! j) = serves ty ch (g_stream_client o1 ! j)))"

lemma keeps_service_refl: "g_stream_client o2 = g_stream_client o1 \<Longrightarrow> keeps_service o1 o2"
  by (simp add: keeps_service_def slot_in_use_def)

text \<open>
  One reference to the receiver \<open>i\<close> is given back: the count goes down by one and the receiver is closed with the last.
\<close>

lemma close_rtsp_inv:
  assumes inv: "out_inv (rout st)" and h: "handle_ok st" and pos: "pos < 8"
    and used: "slot_in_use i (rout st)"
  defines "u \<equiv> usenum (g_stream_client (rout st) ! i) - 1"
  shows "\<exists>r st'. stream_close_rtsp_client pos (Some i) st = Some (r, st') \<and> out_inv (rout st') \<and> handle_ok st'
    \<and> settings_part st' = settings_part st \<and> rtspcliDATA st' = rtspcliDATA st \<and> datagrams (rout st') = datagrams (rout st)
    \<and> (\<forall>j. slot_in_use j (rout st') \<longleftrightarrow> slot_in_use j (rout st) \<and> (j \<noteq> i \<or> 0 < u))
    \<and> (\<forall>j. j \<noteq> i \<longrightarrow> g_stream_client (rout st') ! j = g_stream_client (rout st) ! j)
    \<and> (0 < u \<longrightarrow> usenum (g_stream_client (rout st') ! i) = u) \<and> keeps_service (rout st) (rout st')"
proof -
  obtain o2 where o2: "stream_client_set_mnum (Some i) (- 1) (rout st) = Some o2" "out_inv o2"
      "\<And>j. slot_in_use j o2 = slot_in_use j (rout st)" "usenum (g_stream_client o2 ! i) = u"
      "\<And>j. j \<noteq> i \<Longrightarrow> g_stream_client o2 ! j = g_stream_client (rout st) ! j"
      "steram_client_get_mnum (Some i) o2 = Some u" "datagrams o2 = datagrams (rout st)"
      "ctype (g_stream_client o2 ! i) = ctype (g_stream_client (rout st) ! i)"
      "stream_channel (g_stream_client o2 ! i) = stream_channel (g_stream_client (rout st) ! i)"
    using set_mnum_inv [OF inv used, of "- 1"] by (auto simp: u_def)
  have used2: "c_used (g_stream_client o2 ! i) = ISUSED" "c_used (g_stream_client (rout st) ! i) = ISUSED"
    using o2(3) [of i] used by (auto simp: slot_in_use_def)
  have same: "serves ty ch (g_stream_client o2 ! j) = serves ty ch (g_stream_client (rout st) ! j)" for ty ch j
    using o2(5) [of j] o2(8,9) used2 by (cases "j = i") (auto simp: serves_def)
  have h2: "handle_ok (st\<lparr>rout := x\<rparr>)" "settings_part (st\<lparr>rout := x\<rparr>) = settings_part st" for x
    using h by (simp_all add: handle_ok_def settings_part_def)
  show ?thesis
  proof (cases "u \<le> 0")
    case True
    obtain o3 where o3: "stream_client_close (Some i) o2 = Some (0, o3)" "out_inv o3" "datagrams o3 = datagrams o2"
        "\<And>j. slot_in_use j o3 \<longleftrightarrow> j \<noteq> i \<and> slot_in_use j o2" "\<And>j. j \<noteq> i \<Longrightarrow> g_stream_client o3 ! j = g_stream_client o2 ! j"
      using stream_client_close_inv [OF o2(2), of i] o2(3) used by auto
    obtain st' where st': "set_holder pos None (st\<lparr>rout := o3\<rparr>) = Some st'" "handle_ok st'" "settings_part st' = settings_part st"
        "rtspcliDATA st' = rtspcliDATA st" "rout st' = o3"
      using set_holder_ok [OF h2(1) [of o3] pos, of None] h2(2) [of o3] by auto
    have "stream_close_rtsp_client pos (Some i) st = Some (0, st')"
      using o2 o3 st' True by (simp add: stream_close_rtsp_client_def)
    moreover have "keeps_service (rout st) o3" using o2(3) o3(4,5) same by (auto simp: keeps_service_def)
    ultimately show ?thesis using o2 o3 st' True by auto
  next
    case False
    have "stream_close_rtsp_client pos (Some i) st = Some (0, st\<lparr>rout := o2\<rparr>)"
      using o2 False by (simp add: stream_close_rtsp_client_def)
    moreover have "keeps_service (rout st) o2" using o2(3) same by (auto simp: keeps_service_def)
    ultimately show ?thesis using o2 h2 False by auto
  qed
qed

definition give_back :: "(RTSPClientData \<Rightarrow> RTSPClientData) \<Rightarrow> nat \<Rightarrow> rtsp_state \<Rightarrow> rtsp_state option" where
  "give_back f pos st = do {
     c \<leftarrow> cli_at pos st;
     (_, st) \<leftarrow> stream_close_rtsp_client pos (r_client c) (put_cli pos (f c) st);
     c \<leftarrow> cli_at pos st;
     Some (put_cli pos (c\<lparr>r_client := None\<rparr>) st)}"

lemma put_cli_simps [simp]:
  "rtspcliDATA (put_cli pos c st) = (rtspcliDATA st)[pos := c]" "rout (put_cli pos c st) = rout st"
  "handle_ok (put_cli pos c st) = handle_ok st" "settings_part (put_cli pos c st) = settings_part st"
  "g_rtsp_shandle (put_cli pos c st) = g_rtsp_shandle st" "g_guest_user_num (put_cli pos c st) = g_guest_user_num st"
  by (simp_all add: put_cli_def handle_ok_def settings_part_def)

lemma cli_at_nth: "pos < length (rtspcliDATA st) \<Longrightarrow> cli_at pos st = Some (rtspcliDATA st ! pos)"
  by (simp add: cli_at_def peek_nat)

lemma client_num_update:
  assumes "k < length cs"
  shows "int (length (filter bUsed (take 5 (cs[k := c])))) \<le> int (length (filter bUsed (take 5 cs)))
    + (if bUsed c \<and> \<not> bUsed (cs ! k) then 1 else 0)"
proof (cases "k < 5")
  case True
  then have "take 5 (cs[k := c]) = (take 5 cs)[k := c]" by (simp add: take_update_swap)
  then show ?thesis using True assms filter_update [of k "take 5 cs" bUsed c] by simp
qed simp

lemma give_back_inv:
  assumes inv: "session_inv others st" and pos: "pos < 6"
    and f: "\<And>c. r_client (f c) = r_client c" "\<And>c. bUsed (f c) \<longrightarrow> bUsed c"
  shows "\<exists>st'. give_back f pos st = Some st' \<and> session_inv others st' \<and> settings_part st' = settings_part st
    \<and> rtspcliDATA st' = (rtspcliDATA st)[pos := (f (rtspcliDATA st ! pos))\<lparr>r_client := None\<rparr>]
    \<and> datagrams (rout st') = datagrams (rout st) \<and> keeps_service (rout st) (rout st')"
proof -
  define c where "c = rtspcliDATA st ! pos"
  define st1 where "st1 = put_cli pos (f c) st"
  have len: "length (rtspcliDATA st) = 6" and ok: "slots_ok (rtspcliDATA st)" "handle_ok st" "out_inv (rout st)"
    using inv by (simp_all add: session_inv_def slots_ok_def)
  have at: "cli_at pos st = Some c" using pos len by (simp add: cli_at_nth c_def)
  have st1: "rtspcliDATA st1 = (rtspcliDATA st)[pos := f c]" "rout st1 = rout st" "handle_ok st1" "settings_part st1 = settings_part st"
    using ok by (simp_all add: st1_def)
  let ?d = "(rtspcliDATA st)[pos := (f c)\<lparr>r_client := None\<rparr>]"
  have d: "slots_ok ?d" by (rule slots_update [OF ok(1) pos]) simp
  have num: "int (length (filter bUsed (take 5 ?d))) + g_guest_user_num st \<le> 5"
    using client_num_update [of pos "rtspcliDATA st" "(f c)\<lparr>r_client := None\<rparr>"] f(2) [of c] pos len inv
    by (auto simp: session_inv_def RtspGetClientNum_def MAX_RTSP_CLIENT_NUM_def c_def split: if_splits)
  have fin: "session_inv others st'"
    if "rtspcliDATA st' = ?d" "out_inv (rout st')" "handle_ok st'" "settings_part st' = settings_part st"
      "\<And>j. j < 8 \<Longrightarrow> receiver_ok others st' j" for st'
    using that d num by (simp add: session_inv_def RtspGetClientNum_def MAX_RTSP_CLIENT_NUM_def settings_part_def)
  have held: "held_by j st' = held_by j st - (if r_client c = Some j then 1 else 0)" if "rtspcliDATA st' = ?d" for st' j
    using held_by_update [OF _ that, of j] pos len by (simp add: has_client_def c_def)
  show ?thesis
  proof (cases "r_client c")
    case None
    define st' where "st' = put_cli pos ((f c)\<lparr>r_client := None\<rparr>) st1"
    have e: "rtspcliDATA st' = ?d" "rout st' = rout st" "handle_ok st'" "settings_part st' = settings_part st"
      using st1 by (simp_all add: st'_def)
    have "give_back f pos st = Some st'"
      using at None pos len st1 by (simp add: give_back_def st1_def [symmetric] stream_close_rtsp_client_def cli_at_nth st'_def)
    moreover have "session_inv others st'"
      using e ok(3) inv held [OF e(1)] None by (intro fin) (auto simp: receiver_ok_def session_inv_def)
    ultimately show ?thesis using e by (auto simp: c_def intro: keeps_service_refl)
  next
    case (Some i)
    note u = held_used [OF inv pos Some [unfolded c_def]]
    have old: "receiver_ok others st j" if "j < 8" for j using inv that by (simp add: session_inv_def)
    have cnt: "usenum (g_stream_client (rout st) ! i) = held_by i st + (if i \<in> others then 1 else 0)"
      using old [OF u(1)] u(2) by (simp add: receiver_ok_def)
    obtain r st2 where st2: "stream_close_rtsp_client pos (Some i) st1 = Some (r, st2)" "out_inv (rout st2)" "handle_ok st2"
        "settings_part st2 = settings_part st" "rtspcliDATA st2 = rtspcliDATA st1" "datagrams (rout st2) = datagrams (rout st)"
        "\<And>j. slot_in_use j (rout st2) \<longleftrightarrow> slot_in_use j (rout st) \<and> (j \<noteq> i \<or> 0 < usenum (g_stream_client (rout st) ! i) - 1)"
        "\<And>j. j \<noteq> i \<Longrightarrow> g_stream_client (rout st2) ! j = g_stream_client (rout st) ! j"
        "0 < usenum (g_stream_client (rout st) ! i) - 1 \<Longrightarrow>
          usenum (g_stream_client (rout st2) ! i) = usenum (g_stream_client (rout st) ! i) - 1"
        "keeps_service (rout st) (rout st2)"
      using close_rtsp_inv [of st1 pos i] st1 ok u pos by auto
    define st' where "st' = put_cli pos ((f c)\<lparr>r_client := None\<rparr>) st2"
    have e: "rtspcliDATA st' = ?d" "rout st' = rout st2" "handle_ok st'" "settings_part st' = settings_part st"
      using st1 st2 by (simp_all add: st'_def)
    have "give_back f pos st = Some st'"
      using at Some pos len st1 st2(1,5) by (simp add: give_back_def st1_def [symmetric] cli_at_nth st'_def)
    moreover have "receiver_ok others st' j" if j: "j < 8" for j
    proof (cases "j = i")
      case True
      then show ?thesis
        using held [OF e(1), of i] cnt u Some e(2) st2(7) [of i] st2(9) by (auto simp: receiver_ok_def)
    next
      case False
      then show ?thesis
        using held [OF e(1), of j] old [OF j] Some e(2) st2(7) [of j] st2(8) [of j] by (auto simp: receiver_ok_def)
    qed
    then have "session_inv others st'" using e st2 by (intro fin) auto
    ultimately show ?thesis using e st2(6,10) by (auto simp: c_def)
  qed
qed

lemma RtspPauseClient_give_back:
  "RtspPauseClient pos st = (case cli_at pos st of None \<Rightarrow> None | Some c \<Rightarrow>
     give_back (\<lambda>c. c\<lparr>udpready := 0, UdpAudioSocket := - 1, UdpVideoSocket := - 1\<rparr>) pos (close_slot_sockets c st))"
  by (auto simp: RtspPauseClient_def give_back_def close_slot_sockets_def cli_at_def split: option.splits)

lemma RtspDelClient_give_back:
  "RtspDelClient pos st = (case cli_at pos st of None \<Rightarrow> None | Some c \<Rightarrow>
     give_back (\<lambda>c. c\<lparr>udpready := 0, c_roomid := - 1, bUsed := False, UdpAudioSocket := - 1, Udp_audio_addr := zero_addr,
                Udp_video_addr := zero_addr, client_addr := zero_addr, UdpVideoSocket := - 1, client_type := VLC_CLIENT\<rparr>)
       pos (close_slot_sockets c st))"
  by (auto simp: RtspDelClient_def give_back_def close_slot_sockets_def cli_at_def split: option.splits)

lemma drop_client_give_back: "drop_client = give_back (\<lambda>c. c\<lparr>client_type := INVALID_CLIENT\<rparr>)"
  by (intro ext) (simp add: drop_client_def give_back_def)

lemma session_inv_cong:
  assumes "session_inv others st" "g_stream_client (rout st') = g_stream_client (rout st)" "out_inv (rout st')"
    "rtspcliDATA st' = rtspcliDATA st" "g_guest_user_num st' = g_guest_user_num st" "handle_ok st'"
  shows "session_inv others st'"
proof -
  have "receiver_ok others st' i = receiver_ok others st i" for i
    using assms(2,4) by (simp add: receiver_ok_def slot_in_use_def held_by_def)
  then show ?thesis using assms by (simp add: session_inv_def RtspGetClientNum_def)
qed

lemma close_slot_sockets_inv:
  assumes "session_inv others st"
  shows "session_inv others (close_slot_sockets c st)"
  by (rule session_inv_cong [OF assms])
    (use assms in \<open>simp_all add: close_slot_sockets_def out_inv_log session_inv_def handle_ok_def\<close>)

lemma close_slot_sockets_simps [simp]:
  "rtspcliDATA (close_slot_sockets c st) = rtspcliDATA st" "settings_part (close_slot_sockets c st) = settings_part st"
  "datagrams (rout (close_slot_sockets c st)) = datagrams (rout st)"
  by (simp_all add: close_slot_sockets_def settings_part_def)

lemma session_lengths: "session_inv others st \<Longrightarrow> length (rtspcliDATA st) = 6"
  by (simp add: session_inv_def slots_ok_def)

lemma RtspPauseClient_inv:
  assumes "session_inv others st" "pos < 6"
  shows "\<exists>st'. RtspPauseClient pos st = Some st' \<and> session_inv others st' \<and> settings_part st' = settings_part st
    \<and> r_client (rtspcliDATA st' ! pos) = None \<and> (\<forall>k<6. bUsed (rtspcliDATA st' ! k) = bUsed (rtspcliDATA st ! k))
    \<and> (\<forall>k<6. k \<noteq> pos \<longrightarrow> rtspcliDATA st' ! k = rtspcliDATA st ! k)"
proof -
  let ?f = "\<lambda>c. c\<lparr>udpready := 0, UdpAudioSocket := - 1, UdpVideoSocket := - 1\<rparr>"
  define c where "c = rtspcliDATA st ! pos"
  have at: "cli_at pos st = Some c" using assms session_lengths [OF assms(1)] by (simp add: cli_at_nth c_def)
  obtain st' where "give_back ?f pos (close_slot_sockets c st) = Some st'" "session_inv others st'" "settings_part st' = settings_part st"
      "rtspcliDATA st' = (rtspcliDATA st)[pos := (?f c)\<lparr>r_client := None\<rparr>]"
    using give_back_inv [OF close_slot_sockets_inv [OF assms(1)] assms(2), of ?f c] by (auto simp: c_def)
  then show ?thesis
    using at assms(2) session_lengths [OF assms(1)] by (simp add: RtspPauseClient_give_back c_def nth_list_update)
qed

lemma RtspDelClient_inv:
  assumes "session_inv others st" "pos < 6"
  shows "\<exists>st'. RtspDelClient pos st = Some st' \<and> session_inv others st' \<and> settings_part st' = settings_part st
    \<and> r_client (rtspcliDATA st' ! pos) = None \<and> \<not> bUsed (rtspcliDATA st' ! pos) \<and> keeps_service (rout st) (rout st')
    \<and> (\<forall>k<6. k \<noteq> pos \<longrightarrow> rtspcliDATA st' ! k = rtspcliDATA st ! k)"
proof -
  let ?f = "\<lambda>c. c\<lparr>udpready := 0, c_roomid := - 1, bUsed := False, UdpAudioSocket := - 1, Udp_audio_addr := zero_addr,
                Udp_video_addr := zero_addr, client_addr := zero_addr, UdpVideoSocket := - 1, client_type := VLC_CLIENT\<rparr>"
  define c where "c = rtspcliDATA st ! pos"
  have at: "cli_at pos st = Some c" using assms session_lengths [OF assms(1)] by (simp add: cli_at_nth c_def)
  obtain st' where "give_back ?f pos (close_slot_sockets c st) = Some st'" "session_inv others st'" "settings_part st' = settings_part st"
      "rtspcliDATA st' = (rtspcliDATA st)[pos := (?f c)\<lparr>r_client := None\<rparr>]"
      "keeps_service (rout (close_slot_sockets c st)) (rout st')"
    using give_back_inv [OF close_slot_sockets_inv [OF assms(1)] assms(2), of ?f c] by (auto simp: c_def)
  moreover from this have "keeps_service (rout st) (rout st')"
    by (simp add: keeps_service_def close_slot_sockets_def slot_in_use_def)
  ultimately show ?thesis
    using at assms(2) session_lengths [OF assms(1)] by (simp add: RtspDelClient_give_back c_def nth_list_update)
qed

definition slots_used :: "rtsp_state \<Rightarrow> bool list" where "slots_used st = map bUsed (rtspcliDATA st)"

lemma drop_client_inv:
  assumes "session_inv others st" "pos < 6"
  shows "\<exists>st'. drop_client pos st = Some st' \<and> session_inv others st' \<and> settings_part st' = settings_part st
    \<and> r_client (rtspcliDATA st' ! pos) = None \<and> slots_used st' = slots_used st
    \<and> (\<forall>k<6. k \<noteq> pos \<longrightarrow> rtspcliDATA st' ! k = rtspcliDATA st ! k)"
  using give_back_inv [OF assms, of "\<lambda>c. c\<lparr>client_type := INVALID_CLIENT\<rparr>"] assms(2) session_lengths [OF assms(1)]
  by (auto simp: drop_client_give_back slots_used_def map_update nth_list_update) (metis list_update_id map_update nth_map)

lemma for_slots_inv:
  assumes "\<And>pos st. session_inv others st \<Longrightarrow> pos < 6 \<Longrightarrow>
      \<exists>st'. f pos st = Some st' \<and> session_inv others st' \<and> settings_part st' = settings_part st \<and> slots_used st' = slots_used st
        \<and> (\<forall>k<6. r_client (rtspcliDATA st ! k) = None \<longrightarrow> r_client (rtspcliDATA st' ! k) = None) \<and> P pos st'"
    and "\<And>pos st st'. P pos st \<Longrightarrow>
      (\<forall>k<6. r_client (rtspcliDATA st ! k) = None \<longrightarrow> r_client (rtspcliDATA st' ! k) = None) \<Longrightarrow> pos < 6 \<Longrightarrow> P pos st'"
  shows "session_inv others st \<Longrightarrow> \<forall>i\<in>set is. i < 6 \<Longrightarrow>
    \<exists>st'. for_slots f is st = Some st' \<and> session_inv others st' \<and> settings_part st' = settings_part st \<and> slots_used st' = slots_used st
      \<and> (\<forall>k<6. r_client (rtspcliDATA st ! k) = None \<longrightarrow> r_client (rtspcliDATA st' ! k) = None) \<and> (\<forall>i\<in>set is. P i st')"
proof (induction "is" arbitrary: st)
  case (Cons i "is")
  obtain st1 where st1: "f i st = Some st1" "session_inv others st1" "settings_part st1 = settings_part st" "slots_used st1 = slots_used st"
      "\<forall>k<6. r_client (rtspcliDATA st ! k) = None \<longrightarrow> r_client (rtspcliDATA st1 ! k) = None" "P i st1"
    using assms(1) [OF Cons.prems(1), of i] Cons.prems(2) by auto
  obtain st2 where st2: "for_slots f is st1 = Some st2" "session_inv others st2" "settings_part st2 = settings_part st1"
      "slots_used st2 = slots_used st1"
      "\<forall>k<6. r_client (rtspcliDATA st1 ! k) = None \<longrightarrow> r_client (rtspcliDATA st2 ! k) = None" "\<forall>i\<in>set is. P i st2"
    using Cons.IH [OF st1(2)] Cons.prems(2) by auto
  have "P i st2" using assms(2) [OF st1(6) st2(5)] Cons.prems(2) by simp
  then show ?case using st1 st2 by auto
qed simp

lemma rtsp_close_all_client_inv:
  assumes "session_inv others st"
  shows "\<exists>st'. rtsp_close_all_client st = Some st' \<and> session_inv others st' \<and> settings_part st' = settings_part st \<and> slots_used st' = slots_used st
    \<and> (\<forall>k<5. r_client (rtspcliDATA st' ! k) = None)"
proof -
  have "\<exists>st'. for_slots drop_client [0..<5] st = Some st' \<and> session_inv others st' \<and> settings_part st' = settings_part st
      \<and> slots_used st' = slots_used st
      \<and> (\<forall>k<6. r_client (rtspcliDATA st ! k) = None \<longrightarrow> r_client (rtspcliDATA st' ! k) = None)
      \<and> (\<forall>i\<in>set [0..<5]. r_client (rtspcliDATA st' ! i) = None)"
    by (rule for_slots_inv [where P = "\<lambda>pos st. r_client (rtspcliDATA st ! pos) = None"])
      (use drop_client_inv assms in \<open>fastforce+\<close>)
  then show ?thesis by (auto simp: rtsp_close_all_client_def MAX_RTSP_CLIENT_NUM_def)
qed

lemma rtsp_change_video_resolve_inv:
  assumes "session_inv others st"
  shows "\<exists>st'. rtsp_change_video_resolve room st = Some st' \<and> session_inv others st' \<and> settings_part st' = settings_part st
    \<and> slots_used st' = slots_used st
    \<and> (\<forall>k<6. r_client (rtspcliDATA st ! k) = None \<longrightarrow> r_client (rtspcliDATA st' ! k) = None)"
proof -
  have step: "\<exists>st'. drop_resized room pos st = Some st' \<and> session_inv others st' \<and> settings_part st' = settings_part st
      \<and> slots_used st' = slots_used st
      \<and> (\<forall>k<6. r_client (rtspcliDATA st ! k) = None \<longrightarrow> r_client (rtspcliDATA st' ! k) = None)"
    if "session_inv others st" "pos < 6" for pos st
    using drop_client_inv [OF that] that session_lengths [OF that(1)]
    by (auto simp: drop_resized_def cli_at_nth) (metis)+
  have "\<exists>st'. for_slots (drop_resized room) [0..<5] st = Some st' \<and> session_inv others st' \<and> settings_part st' = settings_part st
      \<and> slots_used st' = slots_used st
      \<and> (\<forall>k<6. r_client (rtspcliDATA st ! k) = None \<longrightarrow> r_client (rtspcliDATA st' ! k) = None) \<and> (\<forall>i\<in>set [0..<5]. True)"
    by (rule for_slots_inv [where P = "\<lambda>_ _. True"]) (use step assms in \<open>auto\<close>)
  then show ?thesis using assms by (auto simp: rtsp_change_video_resolve_def MAX_RTSP_CLIENT_NUM_def)
qed

subsection \<open>Taking\<close>

lemma rout_update_inv:
  assumes "handle_ok st"
  shows "handle_ok (st\<lparr>rout := x\<rparr>)" "settings_part (st\<lparr>rout := x\<rparr>) = settings_part st"
  using assms by (simp_all add: handle_ok_def settings_part_def)

lemma common_info_ok:
  assumes "handle_ok st"
  shows "\<exists>c st'. app_rtsp_server_get_common_info st = Some (0, Some c, st') \<and> handle_ok st' \<and> settings_part st' = settings_part st
    \<and> rtspcliDATA st' = rtspcliDATA st \<and> rout st' = rout st"
proof -
  obtain h where h: "g_rtsp_shandle st = Some h" "length (h_client h) = 8" "length (mult_flag (rtsp_config h)) = 4"
      "length (mult_ip (rtsp_config h)) = 4" "length (mult_port (rtsp_config h)) = 4" "length (g_local_ip st) \<le> 15"
    using assms by (auto simp: handle_ok_def split: option.splits)
  then show ?thesis
    by (simp add: app_rtsp_server_get_common_info_def handle_ok_def settings_part_def Let_def)
qed

lemma is_repeat_used:
  "stream_client_is_repeat vaddr o1 = Some i \<Longrightarrow> out_inv o1 \<Longrightarrow>
    i < 8 \<and> slot_in_use i o1 \<and> video_addr (g_stream_client o1 ! i) = vaddr"
  by (auto simp: stream_client_is_repeat_def find_upt_Some slot_in_use_def out_inv_def OUTPUT_SERVER_MAX_NUM_def)

lemma create_client_inv:
  assumes inv: "out_inv (rout st)" and h: "handle_ok st" and pos: "pos < 8" and ch: "0 \<le> channel" "channel < 4"
    and e: "env_grants e"
  shows "\<exists>client st'. stream_create_rtsp_client e pos vaddr aaddr channel st = Some (client, st') \<and> settings_part st' = settings_part st
    \<and> rtspcliDATA st' = rtspcliDATA st \<and> handle_ok st' \<and> out_inv (rout st')
    \<and> (client = None \<longrightarrow> rout st' = rout st \<and> stream_client_get_free (rout st) = None)
    \<and> (\<forall>i. client = Some i \<longrightarrow> i < 8 \<and> slot_in_use i (rout st') \<and> video_addr (g_stream_client (rout st') ! i) = vaddr
        \<and> usenum (g_stream_client (rout st') ! i)
            = (if slot_in_use i (rout st) then usenum (g_stream_client (rout st) ! i) + 1 else 1)
        \<and> (\<not> slot_in_use i (rout st) \<longrightarrow> serves TYPE_RTP channel (g_stream_client (rout st') ! i))
        \<and> (\<forall>j. j \<noteq> i \<longrightarrow> slot_in_use j (rout st') = slot_in_use j (rout st)
            \<and> g_stream_client (rout st') ! j = g_stream_client (rout st) ! j))"
proof (cases "stream_client_is_repeat vaddr (rout st)")
  case (Some i)
  note r = is_repeat_used [OF Some inv]
  obtain o2 where "stream_client_set_mnum (Some i) 1 (rout st) = Some o2" "out_inv o2"
      "\<forall>j. slot_in_use j o2 = slot_in_use j (rout st)"
      "usenum (g_stream_client o2 ! i) = usenum (g_stream_client (rout st) ! i) + 1"
      "\<forall>j. j \<noteq> i \<longrightarrow> g_stream_client o2 ! j = g_stream_client (rout st) ! j"
      "video_addr (g_stream_client o2 ! i) = video_addr (g_stream_client (rout st) ! i)"
    using set_mnum_inv [OF inv, of i 1] r by auto
  then show ?thesis using Some r rout_update_inv [OF h, of o2] by (simp add: stream_create_rtsp_client_def)
next
  case rep: None
  show ?thesis
  proof (cases "stream_client_get_free (rout st)")
    case None
    then show ?thesis using rep inv h by (simp add: stream_create_rtsp_client_def)
  next
    case (Some i)
    have i: "i < 8" "\<not> slot_in_use i (rout st)"
      using get_free_unused [OF Some] by (auto simp: slot_in_use_def stream_consts)
    obtain r o2 where o2: "stream_client_open e vaddr aaddr TYPE_RTP (Some i) channel (rout st) = Some (r, o2)" "out_inv o2"
        "\<forall>j. slot_in_use j o2 \<longleftrightarrow> (if r = 0 then j = i \<or> slot_in_use j (rout st) else slot_in_use j (rout st))"
        "\<forall>j. j \<noteq> i \<longrightarrow> g_stream_client o2 ! j = g_stream_client (rout st) ! j"
        "r = 0 \<longrightarrow> serves TYPE_RTP channel (g_stream_client o2 ! i) \<and> video_addr (g_stream_client o2 ! i) = vaddr
           \<and> usenum (g_stream_client o2 ! i) = 1"
        "r = 0 \<longleftrightarrow> channel < 4 \<and> 0 \<le> vs e \<and> (sin_port aaddr = 0 \<or> 0 \<le> as e)"
      using stream_client_open_inv [OF inv Some ch(1), of e vaddr aaddr TYPE_RTP] by (elim exE conjE) (rule that)
    have r: "r = 0" using o2(6) ch e by (simp add: env_grants_def)
    obtain st1 where st1: "set_holder pos (Some i) (st\<lparr>rout := o2\<rparr>) = Some st1" "handle_ok st1" "settings_part st1 = settings_part st"
        "rtspcliDATA st1 = rtspcliDATA st" "rout st1 = o2"
      using set_holder_ok [OF rout_update_inv(1) [OF h, of o2] pos, of "Some i"] rout_update_inv(2) [OF h, of o2] by auto
    obtain c st2 where "app_rtsp_server_get_common_info st1 = Some (0, Some c, st2)" "handle_ok st2" "settings_part st2 = settings_part st1"
        "rtspcliDATA st2 = rtspcliDATA st1" "rout st2 = rout st1"
      using common_info_ok [OF st1(2)] by blast
    then show ?thesis using rep Some o2 st1 r i by (simp add: stream_create_rtsp_client_def)
  qed
qed

lemma used_count_cong:
  assumes "map bUsed xs = map bUsed ys"
  shows "length (filter bUsed (take n xs)) = length (filter bUsed (take n ys))"
proof -
  have *: "length (filter bUsed (take n zs)) = length (filter id (take n (map bUsed zs)))" for zs
    by (simp add: take_map filter_map comp_def)
  show ?thesis unfolding * assms by (rule refl)
qed

text \<open>Where the video goes.\<close>

definition play_addr :: "(byte list \<Rightarrow> u32) \<Rightarrow> sockaddr_in \<Rightarrow> STR_CLIENT_MSG \<Rightarrow> rtsp_state \<Rightarrow> sockaddr_in option" where
  "play_addr pton caddr msg st = do {
     vp \<leftarrow> client_port msg 0;
     (_, mult, ip, _, _) \<leftarrow> stream_get_rtsp_ginfo (roomid msg) st;
     Some \<lparr>sin_family = 2, sin_port = port_field vp, sin_addr = (if mult = 1 then pton ip else sin_addr caddr)\<rparr>}"

lemma ginfo_rest: "settings_part st' = settings_part st \<Longrightarrow> stream_get_rtsp_ginfo ch st' = stream_get_rtsp_ginfo ch st"
  by (auto simp: settings_part_def stream_get_rtsp_ginfo_def split: option.splits cong: if_cong)

lemma play_addr_rest: "settings_part st' = settings_part st \<Longrightarrow> play_addr pton caddr msg st' = play_addr pton caddr msg st"
  using ginfo_rest [of st' st "roomid msg"] by (simp add: play_addr_def)

definition play_ready :: "STR_CLIENT_MSG \<Rightarrow> bool" where
  "play_ready msg \<longleftrightarrow> 0 \<le> roomid msg \<and> roomid msg < 4 \<and> client_port msg 0 \<noteq> None \<and> client_port msg 1 \<noteq> None"

lemma ginfo_ok:
  assumes "handle_ok st" "0 \<le> ch" "ch < 4"
  shows "\<exists>mult ip vp ap. stream_get_rtsp_ginfo ch st = Some (0, mult, ip, vp, ap)"
  using assms by (auto simp: stream_get_rtsp_ginfo_def handle_ok_def peek_def split: option.splits)

lemma RtspAddClient_create:
  assumes "handle_ok st" "play_ready msg" "client_port msg 0 \<noteq> Some 0"
  shows "\<exists>va aa. play_addr pton caddr msg st = Some va
    \<and> RtspAddClient pton e caddr pos msg st = do {
        (client, st) \<leftarrow> stream_create_rtsp_client e pos va aa (roomid msg) st;
        if client = None then Some (0, st)
        else do {
          c \<leftarrow> cli_at pos st;
          Some (0, put_cli pos (c\<lparr>c_roomid := roomid msg, r_client := client, udpready := 1, client_addr := caddr\<rparr>) st)}}"
proof -
  obtain vp ap where ports: "client_port msg 0 = Some vp" "client_port msg 1 = Some ap" "vp \<noteq> 0"
    using assms(2,3) by (auto simp: play_ready_def)
  obtain mult ip a b where g: "stream_get_rtsp_ginfo (roomid msg) st = Some (0, mult, ip, a, b)"
    using ginfo_ok [OF assms(1), of "roomid msg"] assms(2) by (auto simp: play_ready_def)
  define to where "to = (if mult = 1 then pton ip else sin_addr caddr)"
  define va where "va = \<lparr>sin_family = 2, sin_port = port_field vp, sin_addr = to\<rparr>"
  define aa where "aa = (if ap = 0 then zero_addr else \<lparr>sin_family = 2, sin_port = port_field ap, sin_addr = to\<rparr>)"
  have "play_addr pton caddr msg st = Some va" using ports g by (simp add: play_addr_def va_def to_def)
  moreover have "RtspAddClient pton e caddr pos msg st = do {
        (client, st) \<leftarrow> stream_create_rtsp_client e pos va aa (roomid msg) st;
        if client = None then Some (0, st)
        else do {
          c \<leftarrow> cli_at pos st;
          Some (0, put_cli pos (c\<lparr>c_roomid := roomid msg, r_client := client, udpready := 1, client_addr := caddr\<rparr>) st)}}"
    using ports g by (simp add: RtspAddClient_def Let_def va_def aa_def to_def)
  ultimately show ?thesis by blast
qed

text \<open>A session that holds nothing asks for its stream.\<close>

lemma RtspAddClient_inv:
  assumes inv: "session_inv others st" and pos: "pos < 5" and slot: "bUsed (rtspcliDATA st ! pos)"
    "r_client (rtspcliDATA st ! pos) = None" and msg: "play_ready msg" and e: "env_grants e"
  shows "\<exists>r st'. RtspAddClient pton e caddr pos msg st = Some (r, st') \<and> session_inv others st' \<and> settings_part st' = settings_part st
    \<and> slots_used st' = slots_used st \<and> (\<forall>k<6. k \<noteq> pos \<longrightarrow> rtspcliDATA st' ! k = rtspcliDATA st ! k)
    \<and> (r = - 1 \<longleftrightarrow> client_port msg 0 = Some 0)
    \<and> (r \<noteq> - 1 \<and> stream_client_get_free (rout st) \<noteq> None \<longrightarrow> (\<exists>i. r_client (rtspcliDATA st' ! pos) = Some i
        \<and> play_addr pton caddr msg st = Some (video_addr (g_stream_client (rout st') ! i))
        \<and> (\<not> slot_in_use i (rout st) \<longrightarrow> serves TYPE_RTP (roomid msg) (g_stream_client (rout st') ! i))))"
proof -
  have len: "length (rtspcliDATA st) = 6" and ok: "slots_ok (rtspcliDATA st)" "handle_ok st" "out_inv (rout st)"
    using inv by (simp_all add: session_inv_def slots_ok_def)
  show ?thesis
  proof (cases "client_port msg 0 = Some 0")
    case True
    then show ?thesis using inv by (simp add: RtspAddClient_def)
  next
    case False
    obtain va aa where unf: "play_addr pton caddr msg st = Some va"
      "RtspAddClient pton e caddr pos msg st = do {
        (client, st) \<leftarrow> stream_create_rtsp_client e pos va aa (roomid msg) st;
        if client = None then Some (0, st)
        else do {
          c \<leftarrow> cli_at pos st;
          Some (0, put_cli pos (c\<lparr>c_roomid := roomid msg, r_client := client, udpready := 1, client_addr := caddr\<rparr>) st)}}"
      using RtspAddClient_create [OF ok(2) msg False] by blast
    obtain client st1 where st1: "stream_create_rtsp_client e pos va aa (roomid msg) st = Some (client, st1)" "settings_part st1 = settings_part st"
        "rtspcliDATA st1 = rtspcliDATA st" "handle_ok st1" "out_inv (rout st1)"
        "client = None \<Longrightarrow> rout st1 = rout st" "client = None \<Longrightarrow> stream_client_get_free (rout st) = None"
        "\<And>i. client = Some i \<Longrightarrow> i < 8 \<and> slot_in_use i (rout st1) \<and> video_addr (g_stream_client (rout st1) ! i) = va
          \<and> usenum (g_stream_client (rout st1) ! i)
              = (if slot_in_use i (rout st) then usenum (g_stream_client (rout st) ! i) + 1 else 1)
          \<and> (\<not> slot_in_use i (rout st) \<longrightarrow> serves TYPE_RTP (roomid msg) (g_stream_client (rout st1) ! i))
          \<and> (\<forall>j. j \<noteq> i \<longrightarrow> slot_in_use j (rout st1) = slot_in_use j (rout st)
              \<and> g_stream_client (rout st1) ! j = g_stream_client (rout st) ! j)"
      using create_client_inv [OF ok(3,2) _ _ _ e, of pos "roomid msg" va aa] pos msg
      by (auto simp: play_ready_def)
    show ?thesis
    proof (cases client)
      case None
      have "RtspAddClient pton e caddr pos msg st = Some (0, st1)"
        using st1(1) None by (simp add: unf(2))
      moreover have "session_inv others st1"
        using st1 None by (intro session_inv_cong [OF inv]) (auto simp: settings_part_def)
      ultimately show ?thesis using st1 None False by (simp add: slots_used_def)
    next
      case (Some i)
      define c where "c = (rtspcliDATA st ! pos)\<lparr>c_roomid := roomid msg, r_client := client, udpready := 1, client_addr := caddr\<rparr>"
      define st' where "st' = put_cli pos c st1"
      note n = st1(8) [OF Some]
      have run: "RtspAddClient pton e caddr pos msg st = Some (0, st')"
        using st1(1,3) Some pos len by (simp add: unf(2) cli_at_nth st'_def c_def)
      have d: "rtspcliDATA st' = (rtspcliDATA st)[pos := c]" using st1(3) by (simp add: st'_def)
      have held: "held_by j st' = held_by j st + (if j = i then 1 else 0)" for j
        using held_by_update [OF _ d, of j] pos len slot(2) Some by (auto simp: has_client_def c_def)
      have "receiver_ok others st' j" if j: "j < 8" for j
      proof -
        have old: "receiver_ok others st j" using inv j by (simp add: session_inv_def)
        show ?thesis
          using old held [of j] n by (cases "j = i") (auto simp: receiver_ok_def st'_def split: if_splits)
      qed
      moreover have "slots_ok (rtspcliDATA st')"
        unfolding d by (rule slots_update [OF ok(1)]) (use pos n Some slot in \<open>auto simp: c_def\<close>)
      moreover have "map bUsed (rtspcliDATA st') = map bUsed (rtspcliDATA st)"
        using d slot(1) pos len by (simp add: map_update c_def list_update_same_conv)
      moreover have "RtspGetClientNum st' = RtspGetClientNum st"
        unfolding RtspGetClientNum_def
        by (simp only: used_count_cong [OF \<open>map bUsed (rtspcliDATA st') = map bUsed (rtspcliDATA st)\<close>])
      ultimately have "session_inv others st'"
        using inv st1 d by (auto simp: session_inv_def st'_def settings_part_def)
      then show ?thesis
        using run st1(2) n Some d pos len False unf(1) \<open>map bUsed (rtspcliDATA st') = _\<close>
        by (auto simp: st'_def slots_used_def c_def)
    qed
  qed
qed

subsection \<open>Any sequence of requests\<close>

datatype rtsp_op =
  Connect bool
| Play nat sockaddr_in STR_CLIENT_MSG open_env
| Pause nat
| Leave nat
| Resized int
| GuestIn
| GuestOut
| GuestsOut
| SetStatus stream_output_server_config
| SetGlobal rtsp_server_config
| SetCommon stream_output_server_config
| NewServer stream_output_server_config
| DeleteServer

fun rtsp_step :: "(byte list \<Rightarrow> u32) \<Rightarrow> rtsp_op \<Rightarrow> rtsp_state \<Rightarrow> rtsp_state option" where
  "rtsp_step pton (Connect thread) st = map_option snd (rtsp_accept thread st)"
| "rtsp_step pton (Play pos caddr msg e) st = map_option snd (RtspAddClient pton e caddr pos msg st)"
| "rtsp_step pton (Pause pos) st = RtspPauseClient pos st"
| "rtsp_step pton (Leave pos) st = RtspDelClient pos st"
| "rtsp_step pton (Resized room) st = rtsp_change_sdp_info room st"
| "rtsp_step pton GuestIn st = Some (snd (rtsp_add_guest_user st))"
| "rtsp_step pton GuestOut st = Some (snd (rtsp_del_guest_user st))"
| "rtsp_step pton GuestsOut st = Some (snd (rtsp_del_guest_user_all st))"
| "rtsp_step pton (SetStatus c) st = map_option snd (app_rtsp_server_set_status c st)"
| "rtsp_step pton (SetGlobal c) st = Some (snd (app_rtsp_server_set_global_info c st))"
| "rtsp_step pton (SetCommon c) st = Some (snd (app_rtsp_server_set_common_info c st))"
| "rtsp_step pton (NewServer c) st = Some (snd (app_rtsp_server_add c st))"
| "rtsp_step pton DeleteServer st = map_option snd (app_rtsp_server_delete st)"

fun rtsp_run :: "(byte list \<Rightarrow> u32) \<Rightarrow> rtsp_op list \<Rightarrow> rtsp_state \<Rightarrow> rtsp_state option" where
  "rtsp_run pton [] st = Some st"
| "rtsp_run pton (op # ops) st = do {st \<leftarrow> rtsp_step pton op st; rtsp_run pton ops st}"

text \<open>
  Requests come from sessions that exist; a session asks for its stream (with a request that names a channel and readable
  ports) only while it holds none; sockets are granted; arrays have their lengths; the server is not deleted.
\<close>

fun rtsp_legal :: "rtsp_op \<Rightarrow> rtsp_state \<Rightarrow> bool" where
  "rtsp_legal (Play pos caddr msg e) st \<longleftrightarrow> pos < 5 \<and> bUsed (rtspcliDATA st ! pos) \<and> r_client (rtspcliDATA st ! pos) = None
     \<and> play_ready msg \<and> env_grants e"
| "rtsp_legal (Pause pos) st \<longleftrightarrow> pos < 5"
| "rtsp_legal (Leave pos) st \<longleftrightarrow> pos < 5"
| "rtsp_legal (SetGlobal c) st \<longleftrightarrow> length (mult_flag c) = 4 \<and> length (mult_ip c) = 4 \<and> length (mult_port c) = 4"
| "rtsp_legal DeleteServer st \<longleftrightarrow> False"
| "rtsp_legal op st \<longleftrightarrow> True"

fun rtsp_legal_run :: "(byte list \<Rightarrow> u32) \<Rightarrow> rtsp_op list \<Rightarrow> rtsp_state \<Rightarrow> bool" where
  "rtsp_legal_run pton [] st \<longleftrightarrow> True"
| "rtsp_legal_run pton (op # ops) st \<longleftrightarrow> rtsp_legal op st
     \<and> (case rtsp_step pton op st of None \<Rightarrow> True | Some st' \<Rightarrow> rtsp_legal_run pton ops st')"

text \<open>The ranges of the settings.\<close>

definition config_typed :: "rtsp_server_config \<Rightarrow> bool" where
  "config_typed c \<longleftrightarrow> 81 \<le> s_port c \<and> s_port c \<le> 65535 \<and> 10 \<le> active c \<and> active c \<le> 900000
     \<and> 228 \<le> s_mtu c \<and> s_mtu c \<le> 1500 \<and> length (mult_flag c) = 4 \<and> length (mult_ip c) = 4 \<and> length (mult_port c) = 4
     \<and> set (mult_flag c) \<subseteq> {0, 1}"

definition settings_typed :: "rtsp_state \<Rightarrow> bool" where
  "settings_typed st \<longleftrightarrow> (case g_rtsp_shandle st of None \<Rightarrow> False | Some h \<Rightarrow> config_typed (rtsp_config h))
     \<and> 10 \<le> g_keepactive_time st \<and> g_keepactive_time st \<le> 900000"

lemma settings_typed_rest: "settings_part st' = settings_part st \<Longrightarrow> settings_typed st' = settings_typed st"
  by (auto simp: settings_typed_def settings_part_def split: option.splits)

lemma set_mult_typed:
  "length (mult_flag c) = 4 \<Longrightarrow> length (mult_ip c) = 4 \<Longrightarrow> length (mult_port c) = 4 \<Longrightarrow> config_typed old \<Longrightarrow>
    config_typed (set_mult i c old)"
  by (auto simp: config_typed_def set_mult_def dest!: subsetD [OF set_update_subset_insert])

lemma set_mult_lengths:
  "length (mult_flag (set_mult i c old)) = length (mult_flag old)"
  "length (mult_ip (set_mult i c old)) = length (mult_ip old)"
  "length (mult_port (set_mult i c old)) = length (mult_port old)"
  by (simp_all add: set_mult_def)

lemma fold_mult_typed:
  "length (mult_flag c) = 4 \<Longrightarrow> length (mult_ip c) = 4 \<Longrightarrow> length (mult_port c) = 4 \<Longrightarrow> config_typed old \<Longrightarrow>
    config_typed (fold (\<lambda>i. set_mult i c) is old)"
  by (induction "is" arbitrary: old) (simp_all add: set_mult_typed)

lemma fold_mult_lengths:
  "length (mult_flag (fold (\<lambda>i. set_mult i c) is old)) = length (mult_flag old)"
  "length (mult_ip (fold (\<lambda>i. set_mult i c) is old)) = length (mult_ip old)"
  "length (mult_port (fold (\<lambda>i. set_mult i c) is old)) = length (mult_port old)"
  by (induction "is" arbitrary: old) (simp_all add: set_mult_lengths)

lemma keepactive_rest:
  "rout (rtsp_set_keepactive_time s st) = rout st" "rtspcliDATA (rtsp_set_keepactive_time s st) = rtspcliDATA st"
  "g_guest_user_num (rtsp_set_keepactive_time s st) = g_guest_user_num st"
  "g_rtsp_shandle (rtsp_set_keepactive_time s st) = g_rtsp_shandle st"
  "g_local_ip (rtsp_set_keepactive_time s st) = g_local_ip st"
  "10 \<le> g_keepactive_time (rtsp_set_keepactive_time s st) \<and> g_keepactive_time (rtsp_set_keepactive_time s st) \<le> 900000"
  by (simp_all add: rtsp_set_keepactive_time_def Let_def)

text \<open>A change of the handle that keeps its receivers.\<close>

lemma session_inv_handle:
  assumes "session_inv others st" "rout st' = rout st" "rtspcliDATA st' = rtspcliDATA st"
    "g_guest_user_num st' = g_guest_user_num st" "handle_ok st'"
  shows "session_inv others st'"
  using assms by (intro session_inv_cong [OF assms(1)]) (simp_all add: session_inv_def)

lemma handle_obtain:
  assumes "session_inv others st"
  obtains h where "g_rtsp_shandle st = Some h" "length (h_client h) = 8" "length (mult_flag (rtsp_config h)) = 4"
    "length (mult_ip (rtsp_config h)) = 4" "length (mult_port (rtsp_config h)) = 4" "length (g_local_ip st) \<le> 15"
  using assms by (auto simp: session_inv_def handle_ok_def split: option.splits)

lemma rtsp_set_status_inv:
  assumes "session_inv others st" "settings_typed st"
  shows "\<exists>st'. set_status s st = Some st' \<and> session_inv others st' \<and> settings_typed st'
    \<and> slots_used st' = slots_used st"
proof -
  obtain h where h: "g_rtsp_shandle st = Some h" "length (h_client h) = 8" "length (mult_flag (rtsp_config h)) = 4"
    "length (mult_ip (rtsp_config h)) = 4" "length (mult_port (rtsp_config h)) = 4" "length (g_local_ip st) \<le> 15"
    using assms(1) by (rule handle_obtain)
  define st' where "st' = app_rtsp_set_active s (st\<lparr>g_rtsp_shandle := Some (h\<lparr>h_config := (h_config h)\<lparr>sc_status := s\<rparr>\<rparr>)\<rparr>)"
  have "session_inv others st'"
    by (rule session_inv_handle [OF assms(1)]) (use h in \<open>simp_all add: st'_def app_rtsp_set_active_def handle_ok_def\<close>)
  moreover have "settings_typed st'" "slots_used st' = slots_used st"
    using assms(2) h by (simp_all add: st'_def app_rtsp_set_active_def settings_typed_def slots_used_def)
  ultimately show ?thesis using h by (simp add: set_status_def st'_def)
qed

lemma set_server_status_inv:
  assumes "session_inv others st" "settings_typed st"
  shows "\<exists>st'. app_rtsp_server_set_status c st = Some (0, st') \<and> session_inv others st' \<and> settings_typed st'"
proof -
  obtain h where h: "g_rtsp_shandle st = Some h" using assms(1) by (rule handle_obtain)
  obtain st1 where st1: "set_status (sc_status c) st = Some st1" "session_inv others st1" "settings_typed st1"
    using rtsp_set_status_inv [OF assms] by blast
  obtain st2 where st2: "rtsp_close_all_client st1 = Some st2" "session_inv others st2" "settings_part st2 = settings_part st1"
    using rtsp_close_all_client_inv [OF st1(2)] by blast
  have t2: "settings_typed st2" using settings_typed_rest [OF st2(3)] st1(3) by simp
  have info: "\<exists>c st''. app_rtsp_server_get_common_info s = Some (0, c, st'') \<and> session_inv others st'' \<and> settings_typed st''"
    if "session_inv others s" "settings_typed s" for s
  proof -
    have "handle_ok s" using that(1) by (simp add: session_inv_def)
    then obtain x s' where "app_rtsp_server_get_common_info s = Some (0, Some x, s')" "handle_ok s'" "settings_part s' = settings_part s"
        "rtspcliDATA s' = rtspcliDATA s" "rout s' = rout s"
      using common_info_ok [of s] by blast
    moreover from this have "session_inv others s'"
      using that(1) by (intro session_inv_handle [OF that(1)]) (auto simp: settings_part_def)
    ultimately show ?thesis using settings_typed_rest that(2) by blast
  qed
  show ?thesis
    using h st1 st2 t2 info [OF assms] info [OF st1(2,3)] info [OF st2(2) t2]
    by (auto simp: app_rtsp_server_set_status_def app_rtsp_server_start_def app_rtsp_server_stop_def)
qed

lemma find_free_slot:
  assumes "session_inv others st" "RtspGetNullClientIndex st = (Some pos, st')"
  shows "pos < 5" "\<not> bUsed (rtspcliDATA st ! pos)" "r_client (rtspcliDATA st ! pos) = None" "settings_part st' = settings_part st"
    "rtspcliDATA st' = (rtspcliDATA st)[pos := (rtspcliDATA st ! pos)\<lparr>bUsed := True, client_type := VLC_CLIENT,
                              UdpAudioSocket := - 1, UdpVideoSocket := - 1\<rparr>]"
    "rout st' = rout st" "handle_ok st'"
proof -
  show p: "pos < 5" "\<not> bUsed (rtspcliDATA st ! pos)"
    using assms(2) by (auto simp: RtspGetNullClientIndex_def find_upt_Some MAX_RTSP_CLIENT_NUM_def split: option.splits)
  show "r_client (rtspcliDATA st ! pos) = None"
    using p assms(1) by (cases "r_client (rtspcliDATA st ! pos)") (auto simp: session_inv_def slots_ok_def)
  show "settings_part st' = settings_part st" "rout st' = rout st" "handle_ok st'"
    "rtspcliDATA st' = (rtspcliDATA st)[pos := (rtspcliDATA st ! pos)\<lparr>bUsed := True, client_type := VLC_CLIENT,
                              UdpAudioSocket := - 1, UdpVideoSocket := - 1\<rparr>]"
    using assms by (auto simp: RtspGetNullClientIndex_def session_inv_def split: option.splits)
qed

lemma rtsp_accept_inv:
  assumes "session_inv others st"
  shows "\<exists>p st'. rtsp_accept thread st = Some (p, st') \<and> session_inv others st' \<and> settings_part st' = settings_part st
    \<and> (\<forall>pos. p = Some pos \<longrightarrow> pos < 5 \<and> \<not> bUsed (rtspcliDATA st ! pos) \<and> bUsed (rtspcliDATA st' ! pos)
        \<and> r_client (rtspcliDATA st' ! pos) = None)"
proof (cases "rtsp_porting_server_need_stop st \<or> fst (verdict_guest_user_num st) = - 1")
  case True
  then show ?thesis using assms by (auto simp: rtsp_accept_def)
next
  case False
  then have room: "RtspGetClientNum st + g_guest_user_num st \<le> 4"
    by (auto simp: verdict_guest_user_num_def MAX_RTSP_CLIENT_NUM_def Let_def split: if_splits)
  obtain p st1 where idx: "RtspGetNullClientIndex st = (p, st1)" by (cases "RtspGetNullClientIndex st")
  show ?thesis
  proof (cases p)
    case None
    then have "st1 = st" using idx by (auto simp: RtspGetNullClientIndex_def split: option.splits)
    then show ?thesis using False idx None assms by (simp add: rtsp_accept_def)
  next
    case (Some pos)
    note f = find_free_slot [OF assms idx [unfolded Some]]
    define c where "c = (rtspcliDATA st ! pos)\<lparr>bUsed := True, client_type := VLC_CLIENT,
                              UdpAudioSocket := - 1, UdpVideoSocket := - 1\<rparr>"
    have len: "length (rtspcliDATA st) = 6" using assms by (rule session_lengths)
    have d: "rtspcliDATA st1 = (rtspcliDATA st)[pos := c]" using f(5) by (simp add: c_def)
    have held: "held_by j st1 = held_by j st" for j
      using held_by_update [OF _ d, of j] f(1,3) len by (simp add: has_client_def c_def)
    have "receiver_ok others st1 j" if "j < 8" for j
    proof -
      have "receiver_ok others st j" using assms that by (simp add: session_inv_def)
      then show ?thesis unfolding receiver_ok_def held f(6) .
    qed
    moreover have "slots_ok (rtspcliDATA st1)"
      unfolding d by (rule slots_update) (use assms f in \<open>auto simp: session_inv_def c_def\<close>)
    moreover have "RtspGetClientNum st1 + g_guest_user_num st1 \<le> 5"
      using client_num_update [of pos "rtspcliDATA st" c] room f(1,4) len d
      by (auto simp: RtspGetClientNum_def MAX_RTSP_CLIENT_NUM_def settings_part_def split: if_splits)
    ultimately have inv: "session_inv others st1" using assms f by (simp add: session_inv_def)
    obtain st2 where "RtspDelClient pos st1 = Some st2" "session_inv others st2" "settings_part st2 = settings_part st1"
      using RtspDelClient_inv [OF inv, of pos] f(1) by auto
    then show ?thesis using False idx Some inv f d len by (auto simp: rtsp_accept_def c_def)
  qed
qed

lemma receiver_ok_cong:
  "rout st' = rout st \<Longrightarrow> rtspcliDATA st' = rtspcliDATA st \<Longrightarrow> receiver_ok others st' i = receiver_ok others st i"
  by (simp add: receiver_ok_def held_by_def)

lemma rtsp_step_inv:
  assumes inv: "session_inv others st" and typed: "settings_typed st" and legal: "rtsp_legal op st"
  shows "\<exists>st'. rtsp_step pton op st = Some st' \<and> session_inv others st' \<and> settings_typed st'"
proof -
  have len: "length (rtspcliDATA st) = 6" using inv by (rule session_lengths)
  have keep: "settings_typed st'" if "settings_part st' = settings_part st" for st' using settings_typed_rest [OF that] typed by simp
  obtain h where h: "g_rtsp_shandle st = Some h" "length (h_client h) = 8" "length (mult_flag (rtsp_config h)) = 4"
    "length (mult_ip (rtsp_config h)) = 4" "length (mult_port (rtsp_config h)) = 4" "length (g_local_ip st) \<le> 15"
    using inv by (rule handle_obtain)
  have guests: "session_inv others (st\<lparr>g_guest_user_num := g\<rparr>)" "settings_typed (st\<lparr>g_guest_user_num := g\<rparr>)"
    if "RtspGetClientNum st + g \<le> 5" for g
  proof -
    have r: "receiver_ok others (st\<lparr>g_guest_user_num := g\<rparr>) i = receiver_ok others st i" for i
      by (rule receiver_ok_cong) simp_all
    have "handle_ok (st\<lparr>g_guest_user_num := g\<rparr>)" using inv by (simp add: session_inv_def handle_ok_def)
    then show "session_inv others (st\<lparr>g_guest_user_num := g\<rparr>)"
      using inv that by (simp add: session_inv_def RtspGetClientNum_def r)
    show "settings_typed (st\<lparr>g_guest_user_num := g\<rparr>)" using typed by (simp add: settings_typed_def)
  qed
  have count: "RtspGetClientNum st \<le> 5" "RtspGetClientNum st + g_guest_user_num st \<le> 5"
    using inv length_filter_le [of bUsed "take 5 (rtspcliDATA st)"] len
    by (auto simp: RtspGetClientNum_def MAX_RTSP_CLIENT_NUM_def session_inv_def)
  have handle: "session_inv others (st\<lparr>g_rtsp_shandle := Some h'\<rparr>)"
    if "length (h_client h') = 8" "length (mult_flag (rtsp_config h')) = 4" "length (mult_ip (rtsp_config h')) = 4"
      "length (mult_port (rtsp_config h')) = 4" for h'
    by (rule session_inv_handle [OF inv]) (use that h(6) in \<open>simp_all add: handle_ok_def\<close>)
  show ?thesis
  proof (cases op)
    case (Connect thread)
    then show ?thesis using rtsp_accept_inv [OF inv, of thread] by (auto intro: keep)
  next
    case (Play pos caddr msg e)
    then show ?thesis
      using RtspAddClient_inv [OF inv, of pos msg e pton caddr] legal by (auto intro: keep)
  next
    case (Pause pos)
    then show ?thesis using RtspPauseClient_inv [OF inv, of pos] legal by (auto intro: keep)
  next
    case (Leave pos)
    then show ?thesis using RtspDelClient_inv [OF inv, of pos] legal by (auto intro: keep)
  next
    case (Resized room)
    then show ?thesis
      using rtsp_change_video_resolve_inv [OF inv, of room] by (auto simp: rtsp_change_sdp_info_def intro: keep)
  next
    case GuestIn
    then show ?thesis
      using guests [of "g_guest_user_num st + 1"] inv typed
      by (auto simp: rtsp_add_guest_user_def Let_def MAX_RTSP_CLIENT_NUM_def)
  next
    case GuestOut
    then show ?thesis using guests [of "g_guest_user_num st - 1"] count by (simp add: rtsp_del_guest_user_def)
  next
    case GuestsOut
    then show ?thesis using guests [of 0] count by (simp add: rtsp_del_guest_user_all_def)
  next
    case (SetStatus c)
    then show ?thesis using set_server_status_inv [OF inv typed, of c] by auto
  next
    case (SetGlobal c)
    define change where "change = (active c \<noteq> active (rtsp_config h) \<and> 10 \<le> active c \<and> active c \<le> 900000)"
    define c1 where "c1 = (if s_port c \<noteq> s_port (rtsp_config h) \<and> 81 \<le> s_port c \<and> s_port c \<le> 65535
      then (rtsp_config h)\<lparr>s_port := s_port c\<rparr> else rtsp_config h)"
    define c2 where "c2 = (if change then c1\<lparr>active := active c\<rparr> else c1)"
    define c3 where "c3 = (if s_mtu c \<noteq> s_mtu c2 \<and> 228 \<le> s_mtu c \<and> s_mtu c \<le> 1500 then c2\<lparr>s_mtu := s_mtu c\<rparr> else c2)"
    define c4 where "c4 = fold (\<lambda>i. set_mult i c) [0..<4] c3"
    define st1 where "st1 = (if change then rtsp_set_keepactive_time (active c) st else st)"
    have run: "rtsp_step pton op st = Some (st1\<lparr>g_rtsp_shandle := Some (h\<lparr>rtsp_config := c4\<rparr>)\<rparr>)"
      using SetGlobal h(1)
      by (simp add: app_rtsp_server_set_global_info_def Let_def c4_def c3_def c2_def st1_def change_def c1_def)
    have c3: "config_typed c3" "length (mult_flag c3) = 4" "length (mult_ip c3) = 4" "length (mult_port c3) = 4"
      using typed h by (auto simp: settings_typed_def config_typed_def c1_def c2_def c3_def change_def)
    have c4: "config_typed c4" "length (mult_flag c4) = 4" "length (mult_ip c4) = 4" "length (mult_port c4) = 4"
      using fold_mult_typed [of c c3 "[0..<4]"] c3 legal SetGlobal unfolding c4_def fold_mult_lengths by auto
    have "session_inv others (st1\<lparr>g_rtsp_shandle := Some (h\<lparr>rtsp_config := c4\<rparr>)\<rparr>)"
      by (rule session_inv_handle [OF inv]) (use c4 h in \<open>simp_all add: handle_ok_def st1_def keepactive_rest\<close>)
    moreover have "settings_typed (st1\<lparr>g_rtsp_shandle := Some (h\<lparr>rtsp_config := c4\<rparr>)\<rparr>)"
      using c4 typed keepactive_rest(6) [of "active c" st] by (simp add: settings_typed_def st1_def)
    ultimately show ?thesis using run by blast
  next
    case (SetCommon c)
    then show ?thesis
      using handle [of "h\<lparr>h_config := x\<rparr>" for x] h typed
      by (auto simp: app_rtsp_server_set_common_info_def Let_def settings_typed_def)
  next
    case (NewServer c)
    have a: "session_inv others (app_rtsp_set_active s st')" if "session_inv others st'" for s st'
      by (rule session_inv_handle [OF that]) (use that in \<open>simp_all add: app_rtsp_set_active_def session_inv_def handle_ok_def\<close>)
    show ?thesis
      using NewServer inv h typed
        a [of "st\<lparr>g_rtsp_shandle := Some (h\<lparr>h_config := c\<lparr>sc_status := S_ACTIVE\<rparr>, h_used := ISUSED\<rparr>)\<rparr>" S_ACTIVE]
        handle [of "h\<lparr>h_config := c\<lparr>sc_status := S_ACTIVE\<rparr>, h_used := ISUSED\<rparr>"]
      by (auto simp: app_rtsp_server_add_def settings_typed_def app_rtsp_set_active_def)
  next
    case DeleteServer
    then show ?thesis using legal by simp
  qed
qed

lemma rtsp_run_inv:
  "session_inv others st \<Longrightarrow> settings_typed st \<Longrightarrow> rtsp_legal_run pton ops st \<Longrightarrow>
    \<exists>st'. rtsp_run pton ops st = Some st' \<and> session_inv others st' \<and> settings_typed st'"
proof (induction ops arbitrary: st)
  case (Cons op ops)
  obtain st1 where st1: "rtsp_step pton op st = Some st1" "session_inv others st1" "settings_typed st1"
    using rtsp_step_inv [OF Cons.prems(1,2), of op pton] Cons.prems(3) by auto
  then show ?case using Cons.IH [OF st1(2,3)] Cons.prems(3) by simp
qed simp

lemma used_iff_held:
  assumes "session_inv others st" "i < 8"
  shows "slot_in_use i (rout st) \<longleftrightarrow> i \<in> others \<or> (\<exists>k<5. r_client (rtspcliDATA st ! k) = Some i)"
proof -
  have ok: "receiver_ok others st i" using assms by (simp add: session_inv_def)
  have len: "length (rtspcliDATA st) = 6" using assms(1) by (rule session_lengths)
  have "0 < held_by i st \<longleftrightarrow> (\<exists>c\<in>set (rtspcliDATA st). r_client c = Some i)"
    by (auto simp: held_by_def has_client_def filter_empty_conv)
  also have "\<dots> \<longleftrightarrow> (\<exists>k<6. r_client (rtspcliDATA st ! k) = Some i)"
    using len by (metis in_set_conv_nth)
  finally have "0 < held_by i st \<longleftrightarrow> (\<exists>k<6. r_client (rtspcliDATA st ! k) = Some i)" .
  moreover have "(\<exists>k<6. r_client (rtspcliDATA st ! k) = Some i) \<longleftrightarrow> (\<exists>k<5. r_client (rtspcliDATA st ! k) = Some i)"
    using held_used(4) [OF assms(1)] by (meson less_trans numeral_less_iff semiring_norm)
  moreover have "0 \<le> held_by i st" by (simp add: held_by_def)
  ultimately show ?thesis using ok by (auto simp: receiver_ok_def split: if_splits)
qed

text \<open>
  C13: Connections, requests, guests, resizes, settings and statuses in any order, from any consistent state of the
  server, under these conditions: a session asks for its stream only while it is in use and holds none, with a room
  and ports in its request; the system grants the sockets; settings come with four entries each; and the server is
  not deleted.  Then no call leaves its arrays; the receivers in use are exactly those of the others and those some
  session holds, and the count in each is the number of its holders; sessions and guests together never exceed five.
  So when no session holds a receiver, nothing is sent for the RTSP server.
\<close>
theorem sessions_accounted:
  assumes "session_inv others st" "settings_typed st" "rtsp_legal_run pton ops st"
  shows "\<exists>st'. rtsp_run pton ops st = Some st' \<and> session_inv others st'
    \<and> (\<forall>i<8. slot_in_use i (rout st') \<longleftrightarrow> i \<in> others \<or> (\<exists>k<5. r_client (rtspcliDATA st' ! k) = Some i))
    \<and> (\<forall>i<8. slot_in_use i (rout st') \<longrightarrow>
        usenum (g_stream_client (rout st') ! i) = held_by i st' + (if i \<in> others then 1 else 0))
    \<and> RtspGetClientNum st' + g_guest_user_num st' \<le> 5"
proof -
  obtain st' where st': "rtsp_run pton ops st = Some st'" "session_inv others st'"
    using rtsp_run_inv [OF assms] by blast
  have "\<forall>i<8. slot_in_use i (rout st') \<longrightarrow>
        usenum (g_stream_client (rout st') ! i) = held_by i st' + (if i \<in> others then 1 else 0)"
    using st'(2) by (auto simp: session_inv_def receiver_ok_def)
  with st' used_iff_held [OF st'(2)] show ?thesis by (auto simp: session_inv_def)
qed

text \<open>
  C26: The settings keep their types: after any such run the port of the server lies between 81 and 65535, the keep-alive
  time between 10 and 900000 seconds, both in the settings and in the server, every multicast flag is 0 or 1, and the
  packet size handed to the packetizer lies between 228 and 1500.
\<close>
theorem settings_stay_typed:
  assumes "session_inv others st" "settings_typed st" "rtsp_legal_run pton ops st"
  shows "\<exists>st' c. rtsp_run pton ops st = Some st' \<and> app_rtsp_server_get_global_info st' = Some c \<and> config_typed c
    \<and> 10 \<le> g_keepactive_time st' \<and> g_keepactive_time st' \<le> 900000
    \<and> 228 \<le> stream_get_rtsp_mtu st' \<and> stream_get_rtsp_mtu st' \<le> 1500"
proof -
  obtain st' where "rtsp_run pton ops st = Some st'" "settings_typed st'" using rtsp_run_inv [OF assms] by blast
  then show ?thesis
    by (auto simp: settings_typed_def app_rtsp_server_get_global_info_def stream_get_rtsp_mtu_def split: option.splits)
qed

subsection \<open>Asking twice\<close>

lemma set_holder_cli: "set_holder pos c st = Some st' \<Longrightarrow> rtspcliDATA st' = rtspcliDATA st"
  by (auto simp: set_holder_def Option.bind_eq_Some_conv)

lemma common_info_cli: "app_rtsp_server_get_common_info st = Some (r, c, st') \<Longrightarrow> rtspcliDATA st' = rtspcliDATA st"
  by (auto simp: app_rtsp_server_get_common_info_def Let_def split: option.splits if_splits)

lemma create_client_cli: "stream_create_rtsp_client e pos va aa ch st = Some (c, st') \<Longrightarrow> rtspcliDATA st' = rtspcliDATA st"
  by (auto simp: stream_create_rtsp_client_def Option.bind_eq_Some_conv split: option.splits prod.splits
    dest!: set_holder_cli common_info_cli)

lemma RtspAddClient_other:
  "RtspAddClient pton e caddr pos msg st = Some (r, st') \<Longrightarrow> k \<noteq> pos \<Longrightarrow> rtspcliDATA st' ! k = rtspcliDATA st ! k"
  by (auto simp: RtspAddClient_def Let_def Option.bind_eq_Some_conv split: if_splits prod.splits dest!: create_client_cli)

lemma slots_used_nth:
  assumes "slots_used st' = slots_used st" "k < length (rtspcliDATA st)" "k < length (rtspcliDATA st')"
  shows "bUsed (rtspcliDATA st' ! k) = bUsed (rtspcliDATA st ! k)"
proof -
  have "slots_used st' ! k = slots_used st ! k" using assms(1) by simp
  then show ?thesis using assms(2,3) by (simp add: slots_used_def)
qed

lemma second_play:
  assumes inv: "session_inv {} st" and pos: "pos < 5" and slot: "bUsed (rtspcliDATA st ! pos)"
    and held: "r_client (rtspcliDATA st ! pos) = Some i" and only: "\<forall>j<8. slot_in_use j (rout st) \<longrightarrow> j = i"
    and addr: "play_addr pton caddr msg st = Some (video_addr (g_stream_client (rout st) ! i))"
    and msg: "play_ready msg" "client_port msg 0 \<noteq> Some 0"
  shows "\<exists>st'. RtspAddClient pton e caddr pos msg st = Some (0, st') \<and> session_inv {i} st' \<and> keeps_service (rout st) (rout st')"
proof -
  have len: "length (rtspcliDATA st) = 6" and ok: "slots_ok (rtspcliDATA st)" "handle_ok st" "out_inv (rout st)"
    using inv by (simp_all add: session_inv_def slots_ok_def)
  note u = held_used [OF inv _ held]
  have i: "i < 8" "slot_in_use i (rout st)" using u pos by simp_all
  define va where "va = video_addr (g_stream_client (rout st) ! i)"
  obtain va' aa where unf: "play_addr pton caddr msg st = Some va'"
      "RtspAddClient pton e caddr pos msg st = do {
        (client, st) \<leftarrow> stream_create_rtsp_client e pos va' aa (roomid msg) st;
        if client = None then Some (0, st)
        else do {
          c \<leftarrow> cli_at pos st;
          Some (0, put_cli pos (c\<lparr>c_roomid := roomid msg, r_client := client, udpready := 1, client_addr := caddr\<rparr>) st)}}"
    using RtspAddClient_create [OF ok(2) msg] by blast
  have va: "va' = va" using unf(1) addr by (simp add: va_def)
  have "stream_client_is_repeat va (rout st) \<noteq> None"
    using i ok(3) by (auto simp: stream_client_is_repeat_def find_upt_None OUTPUT_SERVER_MAX_NUM_def slot_in_use_def va_def)
  then have rep: "stream_client_is_repeat va (rout st) = Some i"
    using only is_repeat_used [OF _ ok(3)] by (metis option.exhaust)
  obtain o2 where o2: "stream_client_set_mnum (Some i) 1 (rout st) = Some o2" "out_inv o2"
      "\<And>j. slot_in_use j o2 = slot_in_use j (rout st)"
      "usenum (g_stream_client o2 ! i) = usenum (g_stream_client (rout st) ! i) + 1"
      "\<And>j. j \<noteq> i \<Longrightarrow> g_stream_client o2 ! j = g_stream_client (rout st) ! j"
      "ctype (g_stream_client o2 ! i) = ctype (g_stream_client (rout st) ! i)"
      "stream_channel (g_stream_client o2 ! i) = stream_channel (g_stream_client (rout st) ! i)"
    using set_mnum_inv [OF ok(3) i(2), of 1] by auto
  define c where "c = (rtspcliDATA st ! pos)\<lparr>c_roomid := roomid msg, r_client := Some i, udpready := 1, client_addr := caddr\<rparr>"
  define st' where "st' = put_cli pos c (st\<lparr>rout := o2\<rparr>)"
  have run: "RtspAddClient pton e caddr pos msg st = Some (0, st')"
    using unf(2) va rep o2(1) pos len by (simp add: stream_create_rtsp_client_def cli_at_nth st'_def c_def)
  have d: "rtspcliDATA st' = (rtspcliDATA st)[pos := c]" by (simp add: st'_def)
  have h: "held_by j st' = held_by j st" for j
    using held_by_update [OF _ d, of j] pos len held by (simp add: has_client_def c_def)
  have r': "rout st' = o2" "g_guest_user_num st' = g_guest_user_num st" by (simp_all add: st'_def)
  have rec: "\<forall>j<8. receiver_ok {i} st' j"
  proof (intro allI impI)
    fix j :: nat
    assume j: "j < 8"
    have old: "receiver_ok {} st j" using inv j by (simp add: session_inv_def)
    show "receiver_ok {i} st' j"
    proof (cases "j = i")
      case True
      then show ?thesis using old i(2) o2(3) [of i] o2(4) h [of i] by (simp add: receiver_ok_def r')
    next
      case False
      then show ?thesis
        using old unfolding receiver_ok_def r'(1) h [of j] o2(3) [of j] o2(5) [OF False] by (simp split: if_splits)
    qed
  qed
  have sl: "slots_ok (rtspcliDATA st')"
    unfolding d by (rule slots_update [OF ok(1)]) (use pos i slot in \<open>auto simp: c_def\<close>)
  have used: "map bUsed (rtspcliDATA st') = map bUsed (rtspcliDATA st)"
    using d slot pos len by (simp add: map_update c_def list_update_same_conv)
  have num: "RtspGetClientNum st' = RtspGetClientNum st"
    unfolding RtspGetClientNum_def used_count_cong [OF used] ..
  have "handle_ok (st\<lparr>rout := o2\<rparr>)" using ok(2) by (simp add: handle_ok_def)
  then have ho: "handle_ok st'" by (simp add: st'_def)
  have le: "RtspGetClientNum st + g_guest_user_num st \<le> 5" using inv by (simp add: session_inv_def)
  have "session_inv {i} st'"
    unfolding session_inv_def num r' using o2(2) sl ho rec le by blast
  moreover have "keeps_service (rout st) (rout st')"
    unfolding keeps_service_def
  proof (intro allI impI conjI)
    fix j ty ch
    assume "slot_in_use j (rout st')"
    then have o: "slot_in_use j o2" by (simp add: st'_def)
    then show "slot_in_use j (rout st)" using o2(3) by simp
    then show "serves ty ch (g_stream_client (rout st') ! j) = serves ty ch (g_stream_client (rout st) ! j)"
      using o o2(5) [of j] o2(6,7) by (cases "j = i") (auto simp: serves_def slot_in_use_def st'_def)
  qed
  ultimately show ?thesis using run by blast
qed

text \<open>
  A client that is the only one and asks for its stream twice in a session leaves it running for ever: its receiver is
  counted twice and given back once, so after the session has ended, with no session holding anything, the receiver is
  still in use and the encoder is still told that somebody waits for the channel.
\<close>
theorem play_twice_never_stops:
  assumes inv: "session_inv {} st" and pos: "pos < 5" and slot: "bUsed (rtspcliDATA st ! pos)"
    and none: "\<forall>j<8. \<not> slot_in_use j (rout st)"
    and msg: "play_ready msg" "client_port msg 0 \<noteq> Some 0" and e: "env_grants e"
  shows "\<exists>st' i. rtsp_run pton [Play pos caddr msg e, Play pos caddr msg e', Leave pos] st = Some st'
    \<and> (\<forall>k<6. r_client (rtspcliDATA st' ! k) = None)
    \<and> i < 8 \<and> slot_in_use i (rout st') \<and> serves TYPE_RTP (roomid msg) (g_stream_client (rout st') ! i)
    \<and> mult_rtp_get_active (roomid msg) (rout st') = Some 1"
proof -
  have o: "out_inv (rout st)" using inv by (simp add: session_inv_def)
  have empty: "r_client (rtspcliDATA st ! k) = None" if "k < 6" for k
    using held_used(1,2) [OF inv that] none by (cases "r_client (rtspcliDATA st ! k)") auto
  have "c_used (g_stream_client (rout st) ! 0) = NOTUSED"
    using none slot_ok_nth [OF o, of 0] o by (auto simp: slot_in_use_def slot_ok_def out_inv_def)
  then have "stream_client_get_free (rout st) \<noteq> None"
    unfolding stream_client_get_free_def find_upt_None OUTPUT_SERVER_MAX_NUM_def by fastforce
  then obtain r st1 i where st1: "RtspAddClient pton e caddr pos msg st = Some (r, st1)" "session_inv {} st1"
      "settings_part st1 = settings_part st" "slots_used st1 = slots_used st" "\<forall>k<6. k \<noteq> pos \<longrightarrow> rtspcliDATA st1 ! k = rtspcliDATA st ! k"
      "r_client (rtspcliDATA st1 ! pos) = Some i"
      "play_addr pton caddr msg st = Some (video_addr (g_stream_client (rout st1) ! i))"
      "\<not> slot_in_use i (rout st) \<longrightarrow> serves TYPE_RTP (roomid msg) (g_stream_client (rout st1) ! i)"
    using RtspAddClient_inv [OF inv pos slot _ msg(1) e, of pton caddr] empty [of pos] pos msg(2) by auto
  note u = held_used [OF st1(2) _ st1(6)]
  have i: "i < 8" "slot_in_use i (rout st1)" using u pos by simp_all
  have serve: "serves TYPE_RTP (roomid msg) (g_stream_client (rout st1) ! i)" using st1(8) none i by blast
  have used1: "bUsed (rtspcliDATA st1 ! pos)"
    using slots_used_nth [OF st1(4)] slot pos session_lengths [OF inv] session_lengths [OF st1(2)] by simp
  have only: "\<forall>j<8. slot_in_use j (rout st1) \<longrightarrow> j = i"
  proof (intro allI impI)
    fix j assume "j < 8" "slot_in_use j (rout st1)"
    then obtain k where k: "k < 5" "r_client (rtspcliDATA st1 ! k) = Some j" using used_iff_held [OF st1(2)] by auto
    then have "k = pos" using st1(5) empty [of k] by (cases "k = pos") auto
    then show "j = i" using k st1(6) by simp
  qed
  obtain st2 where st2: "RtspAddClient pton e' caddr pos msg st1 = Some (0, st2)" "session_inv {i} st2"
      "keeps_service (rout st1) (rout st2)"
    using second_play [OF st1(2) pos used1 st1(6) only trans [OF play_addr_rest [OF st1(3)] st1(7)] msg] by blast
  obtain st3 where st3: "RtspDelClient pos st2 = Some st3" "session_inv {i} st3" "keeps_service (rout st2) (rout st3)"
      "r_client (rtspcliDATA st3 ! pos) = None" "\<forall>k<6. k \<noteq> pos \<longrightarrow> rtspcliDATA st3 ! k = rtspcliDATA st2 ! k"
    using RtspDelClient_inv [OF st2(2), of pos] pos by auto
  have i3: "slot_in_use i (rout st3)" using used_iff_held [OF st3(2) i(1)] by simp
  then have s3: "serves TYPE_RTP (roomid msg) (g_stream_client (rout st3) ! i)"
    using st2(3) st3(3) serve by (auto simp: keeps_service_def)
  have "r_client (rtspcliDATA st2 ! k) = None" if "k < 6" "k \<noteq> pos" for k
  proof (rule ccontr)
    assume "r_client (rtspcliDATA st2 ! k) \<noteq> None"
    then obtain j where j: "r_client (rtspcliDATA st2 ! k) = Some j" by auto
    show False
      using j that st2(1) RtspAddClient_other [OF st2(1) that(2)] st1(5) empty [OF that(1)] by simp
  qed
  then have all: "\<forall>k<6. r_client (rtspcliDATA st3 ! k) = None" using st3(4,5) by metis
  have "out_inv (rout st3)" using st3(2) by (simp add: session_inv_def)
  then have "mult_rtp_get_active (roomid msg) (rout st3) = Some 1"
    using active_iff_served(1) [of "rout st3" "roomid msg"] i3 s3 msg(1) by (auto simp: play_ready_def)
  then show ?thesis using st1(1) st2(1) st3(1) all i i3 s3 by auto
qed

subsection \<open>Witnesses\<close>

text \<open>The server as it starts without settings in flash, active, with the receivers closed.\<close>

definition zero_cli :: RTSPClientData where
  "zero_cli = \<lparr>bUsed = False, udpready = 0, UdpVideoSocket = 0, UdpAudioSocket = 0, client_addr = zero_addr,
     Udp_video_addr = zero_addr, Udp_audio_addr = zero_addr, client_type = 0, c_roomid = 0, r_client = None\<rparr>"

definition rtsp_begin :: rtsp_state where
  "rtsp_begin = RtspThreadInit \<lparr>rtspcliDATA = replicate 6 zero_cli, g_rtsp_flag = 0, g_guest_user_num = 0, g_ts_client_num = 0,
     g_keepactive_time = 120, g_rtsp_port = 554, g_local_ip = [0x31], g_user_autentication =
       \<lparr>user_name = [], user_pass = [], realm = [], permissions = 0\<rparr>,
     g_rtsp_shandle = Some \<lparr>h_used = ISUSED, rtsp_config = app_rtsp_ginfo_init, h_config = n_config multicast_node_create,
       h_client = replicate 8 None\<rparr>,
     g_rtsp_is_active = 1, sdp = rtsp_porting_sdp_init True \<lparr>sdp_mutex = False, g_video_sinfo = [], g_audio_sinfo = []\<rparr>,
     rout = out_start\<rparr>"

lemma rtsp_begin_slots: "rtspcliDATA rtsp_begin =
    replicate 5 (zero_cli\<lparr>c_roomid := - 1, client_type := VLC_CLIENT\<rparr>) @ [zero_cli]"
  by (simp add: rtsp_begin_def RtspThreadInit_def MAX_RTSP_CLIENT_NUM_def zero_cli_def numeral_eq_Suc)

lemma rtsp_begin_rout: "rout rtsp_begin = out_start" by (simp add: rtsp_begin_def RtspThreadInit_def)

lemma rtsp_begin_idle: "\<not> slot_in_use i (rout rtsp_begin)"
  using start_holds by (simp add: rtsp_begin_rout receivers.holds_all_def)

lemma rtsp_begin_inv: "session_inv {} rtsp_begin"
proof -
  have o: "out_inv out_start" using start_holds by (simp add: receivers.holds_all_def)
  have none: "r_client c = None \<and> \<not> bUsed c" if "c \<in> set (rtspcliDATA rtsp_begin)" for c
    using that by (auto simp: rtsp_begin_slots zero_cli_def)
  have l: "length (rtspcliDATA rtsp_begin) = 6" by (simp add: rtsp_begin_slots)
  have "slots_ok (rtspcliDATA rtsp_begin)" using none l by (simp add: slots_ok_def)
  moreover have "held_by i rtsp_begin = 0" for i using none by (auto simp: held_by_def has_client_def filter_empty_conv)
  moreover have "RtspGetClientNum rtsp_begin = 0"
    using none by (auto simp: RtspGetClientNum_def filter_empty_conv dest: in_set_takeD)
  moreover have "handle_ok rtsp_begin"
    by (simp add: handle_ok_def rtsp_begin_def RtspThreadInit_def app_rtsp_ginfo_init_def)
  moreover have "g_guest_user_num rtsp_begin = 0" by (simp add: rtsp_begin_def RtspThreadInit_def)
  ultimately show ?thesis using o rtsp_begin_idle by (simp add: session_inv_def receiver_ok_def rtsp_begin_rout)
qed

lemma rtsp_begin_typed: "settings_typed rtsp_begin"
  by (auto simp: settings_typed_def config_typed_def rtsp_begin_def RtspThreadInit_def app_rtsp_ginfo_init_def)

text \<open>A request for the stream of room 2, to the ports 5000 and 5002, and an administrator's settings.\<close>

definition port_row :: "byte list \<Rightarrow> byte list" where "port_row t = t @ replicate (20 - length t) 0"

definition play_msg :: STR_CLIENT_MSG where
  "play_msg = new_msg\<lparr>roomid := 2, ucClientportLen := [4, 4, 0],
     aucClientport := [port_row [0x35, 0x30, 0x30, 0x30], port_row [0x35, 0x30, 0x30, 0x32], port_row []]\<rparr>"

definition new_settings :: rtsp_server_config where
  "new_settings = \<lparr>s_port = 8554, active = 5, s_mtu = 100, mult_flag = [1, 7, 0, 0], mult_ip = [[0x31], [], [], []],
     mult_port = [6000, 0, 0, 0]\<rparr>"

lemma play_msg_ports: "client_port play_msg 0 = Some 5000" "client_port play_msg 1 = Some 5002"
  by (simp_all add: client_port_def play_msg_def new_msg_def port_row_def port_text_def)

lemma play_msg_ready: "play_ready play_msg" by (simp add: play_ready_def play_msg_ports(1) play_msg_ports(2) [simplified]) (simp add: play_msg_def)

definition sample_ops :: "rtsp_op list" where
  "sample_ops = [Connect True, SetGlobal new_settings, Play 0 (sample_addr 40000) play_msg sample_env]"

lemma sample_ops_legal: "rtsp_legal_run (\<lambda>_. 0) sample_ops rtsp_begin"
  by code_simp

text \<open>Deleting the server while a session holds its receiver: the end of the session uses the receiver again.\<close>

lemma delete_then_leave:
  "rtsp_run (\<lambda>_. 0) [Connect True, Play 0 (sample_addr 40000) play_msg sample_env, DeleteServer, Leave 0] rtsp_begin = None"
  by code_simp

lemma sessions_accounted_witness:
  "\<exists>st'. rtsp_run (\<lambda>_. 0) sample_ops rtsp_begin = Some st' \<and> session_inv {} st'
    \<and> (\<forall>i<8. slot_in_use i (rout st') \<longleftrightarrow> (\<exists>k<5. r_client (rtspcliDATA st' ! k) = Some i))"
  using sessions_accounted [OF rtsp_begin_inv rtsp_begin_typed sample_ops_legal] by auto

lemma settings_stay_typed_witness:
  "\<exists>st' c. rtsp_run (\<lambda>_. 0) sample_ops rtsp_begin = Some st' \<and> app_rtsp_server_get_global_info st' = Some c
    \<and> config_typed c \<and> 228 \<le> stream_get_rtsp_mtu st' \<and> stream_get_rtsp_mtu st' \<le> 1500"
  using settings_stay_typed [OF rtsp_begin_inv rtsp_begin_typed sample_ops_legal] by blast

text \<open>The server with one session.\<close>

definition one_session :: rtsp_state where
  "one_session = the (rtsp_run (\<lambda>_. 0) [Connect True] rtsp_begin)"

lemma one_session_inv: "session_inv {} one_session"
proof -
  have "rtsp_legal_run (\<lambda>_. 0) [Connect True] rtsp_begin" by code_simp
  from rtsp_run_inv [OF rtsp_begin_inv rtsp_begin_typed this] show ?thesis by (auto simp: one_session_def)
qed

lemma one_session_value:
  "bUsed (rtspcliDATA one_session ! 0) \<and> list_all (\<lambda>c. c_used c = NOTUSED) (g_stream_client (rout one_session))"
  by code_simp

lemma play_twice_never_stops_witness:
  "\<exists>st' i. rtsp_run (\<lambda>_. 0) [Play 0 (sample_addr 40000) play_msg sample_env, Play 0 (sample_addr 40000) play_msg sample_env,
      Leave 0] one_session = Some st' \<and> i < 8 \<and> slot_in_use i (rout st') \<and> mult_rtp_get_active 2 (rout st') = Some 1"
proof -
  have "\<forall>j<8. \<not> slot_in_use j (rout one_session)"
    using one_session_value by (auto simp: slot_in_use_def list_all_length stream_consts)
  then show ?thesis
    using play_twice_never_stops [OF one_session_inv, of 0 play_msg sample_env "\<lambda>_. 0" "sample_addr 40000" sample_env]
      one_session_value play_msg_ready play_msg_ports(1)
    by (auto simp: sample_env_def env_grants_def play_msg_def)
qed

end
