(* ===== verification/RtspServer.thy ===== *)
theory RtspServer
  imports RtspSession
begin

section \<open>The thread of an RTSP session\<close>

text \<open>
  \<^verbatim>\<open>RtspVlcContact\<close> of \<^verbatim>\<open>room/rtsp/rtsp_server.c\<close>: it collects requests from the connection of one client, answers
  them and gives its slot back at the end; with the replies to \<^verbatim>\<open>DESCRIBE\<close>, which put together the settings, the
  descriptions and the authentication.

  One pass through the loop is \<open>contact_pass\<close> on an event: what \<^verbatim>\<open>recv\<close> answers, the clock before and after it, the bytes
  a nonce is made from and the answers of \<^verbatim>\<open>socket\<close>.  The thread is \<open>contact_run\<close> over a list of events, the end of which
  is the end of the connection.  \<open>pton\<close> is \<^verbatim>\<open>inet_pton\<close>, \<open>b64\<close> the base64 routine, \<open>caddr\<close> the address of the client.
  Replies are the texts handed to \<^verbatim>\<open>send\<close>, whose result is never looked at.
\<close>

subsection \<open>Replies to \<^verbatim>\<open>DESCRIBE\<close>\<close>

definition RTSP_LISTEN_PORT :: nat where "RTSP_LISTEN_PORT = 554"
definition VIDEO_TRACKID :: nat where "VIDEO_TRACKID = 1"
definition AUDIO_TRACKID :: nat where "AUDIO_TRACKID = 2"

definition not_found :: "STR_CLIENT_MSG \<Rightarrow> byte list" where
  "not_found msg = chars ''RTSP/1.0   404   Stream Not Found'' @ crlf @ chars ''CSeq: '' @ dec_int (sint (uiCseq msg)) @ crlf @ crlf"

text \<open>The body: the lines of the session, of the video and, when its configuration is known, of the sound.\<close>

definition describe_body ::
    "byte list \<Rightarrow> byte list \<Rightarrow> int \<Rightarrow> int \<Rightarrow> byte list \<Rightarrow> int \<times> byte list \<times> u32 \<Rightarrow> byte list" where
  "describe_body localip ip vport aport sdpinfo audio = (case audio of (have_audio, acfg, rate) \<Rightarrow>
     chars ''v=0'' @ crlf @ chars ''o=- 2890844256 2890842807 IN IP4 '' @ localip @ crlf @ chars ''c=IN IP4 '' @ ip @ crlf
       @ chars ''t=0 0 '' @ crlf
     @ chars ''m=video '' @ dec_u (of_int vport) @ chars '' RTP/AVP 96'' @ crlf @ chars ''a=rtpmap:96 H264/90000'' @ crlf
     @ chars ''a=fmtp:96 packetization-mode=1;profile-level-id=428028;sprop-parameter-sets='' @ sdpinfo @ crlf
     @ chars ''a=control:rtsp://'' @ localip @ chars '':'' @ dec RTSP_LISTEN_PORT @ chars ''/trackID='' @ dec VIDEO_TRACKID @ crlf
     @ (if 0 \<le> have_audio then
          chars ''m=audio '' @ dec_u (of_int aport) @ chars '' RTP/AVP 97'' @ crlf
          @ chars ''a=rtpmap:97 mpeg4-generic/'' @ dec_int (sint rate) @ chars ''/2'' @ crlf
          @ chars ''a=fmtp:97 streamtype=5; mode=AAC-hbr; config='' @ acfg
          @ chars ''; SizeLength=13; IndexLength=3; IndexDeltaLength=3'' @ crlf
          @ chars ''a=control:rtsp://'' @ localip @ chars '':'' @ dec RTSP_LISTEN_PORT @ chars ''/trackID='' @ dec AUDIO_TRACKID @ crlf
        else []))"

definition describe_head :: "nat \<Rightarrow> STR_CLIENT_MSG \<Rightarrow> byte list option" where
  "describe_head n msg = do {
     e \<leftarrow> cseq_echo msg;
     reply (chars ''RTSP/1.0 200 OK'' @ crlf @ chars ''Content-type: application/sdp'' @ crlf @ chars ''Server: RRS 0.1'' @ crlf
       @ chars ''Content-Length: '' @ ConventNumberToString (int n) @ crlf @ chars ''Cache-Control: no-cache'' @ crlf
       @ chars ''Cseq: '' @ e @ crlf @ crlf)}"

text \<open>The return value and what was sent.  The arrays have 16 and 32 bytes for the addresses and 1000 for the body.\<close>

definition ResponseDescribe ::
    "(byte list \<Rightarrow> int \<Rightarrow> int \<times> byte list) \<Rightarrow> byte list \<Rightarrow> int \<Rightarrow> STR_CLIENT_MSG \<Rightarrow> rtsp_state
      \<Rightarrow> (int \<times> byte list list) option" where
  "ResponseDescribe b64 localip authencation msg st =
     (if roomid msg = - 1 then Some (- 1, [not_found msg])
      else do {
        audio \<leftarrow> rtsp_stream_get_audio_sinfo (roomid msg) 48000 (sdp st);
        (_, mult, ip, vport, aport) \<leftarrow> stream_get_rtsp_ginfo (roomid msg) st;
        let ip = (if mult = 0 \<or> ip = [] then localip else ip);
        if 32 < length ip + 1 then None
        else do {
          (vret, sdpinfo) \<leftarrow> rtsp_stream_get_video_sdp_info b64 (roomid msg) (sdp st);
          let vret = (if rtsp_porting_server_need_stop st then - 1 else vret);
          if authencation = - 1 \<or> vret = - 1 then Some (- 1, [not_found msg])
          else if 16 < length localip + 1 then None
          else do {
            let body = describe_body localip ip vport aport sdpinfo audio;
            if 1000 < length body + 1 then None
            else do {
              h \<leftarrow> describe_head (length body) msg;
              Some (int (length h) + int (length body), [h, body])}}}})"

definition describe_ts_body :: "nat \<Rightarrow> nat \<Rightarrow> byte list \<Rightarrow> byte list" where
  "describe_ts_body t1 t2 localip =
     chars ''v=0'' @ crlf @ chars ''o=- '' @ dec t1 @ chars '' '' @ dec t2 @ chars '' IN IP4 '' @ localip @ crlf
     @ chars ''s=MPEG Transport Stream, streamed by the LIVE555 Media Server'' @ crlf @ chars ''i=3.ts'' @ crlf
     @ chars ''t=0 0'' @ crlf @ chars ''a=tool:LIVE555 Streaming Media v2011.01.19'' @ crlf
     @ chars ''a=type:broadcast'' @ crlf @ chars ''a=control:* '' @ crlf @ chars ''a=range:npt=0-'' @ crlf
     @ chars ''a=x-qt-text-nam:MPEG Transport Stream, streamed by the LIVE555 Media Server'' @ crlf
     @ chars ''a=x-qt-text-inf:3.ts'' @ crlf @ chars ''m=video 0 RTP/AVP 33'' @ crlf @ chars ''c=IN IP4 0.0.0.0'' @ crlf
     @ chars ''b=AS:5000'' @ crlf @ chars ''a=control:track'' @ dec VIDEO_TRACKID @ crlf"

text \<open>Here the sequence number is cut off at a zero before the text goes on.\<close>

definition ResponseDescribeTs ::
    "(byte list \<Rightarrow> int \<Rightarrow> int \<times> byte list) \<Rightarrow> nat \<Rightarrow> nat \<Rightarrow> byte list \<Rightarrow> int \<Rightarrow> STR_CLIENT_MSG \<Rightarrow> rtsp_state
      \<Rightarrow> (int \<times> byte list list) option" where
  "ResponseDescribeTs b64 t1 t2 localip authencation msg st = do {
     (vret, _) \<leftarrow> rtsp_stream_get_video_sdp_info b64 (roomid msg) (sdp st);
     let vret = (if rtsp_porting_server_need_stop st then - 1 else vret);
     if authencation = - 1 \<or> vret = - 1 then Some (- 1, [not_found msg])
     else if 16 < length localip + 1 then None
     else do {
       let body = describe_ts_body t1 t2 localip;
       if 1000 < length body + 1 then None
       else do {
         e \<leftarrow> cseq_echo msg;
         h \<leftarrow> reply (chars ''RTSP/1.0 200 OK'' @ crlf @ chars ''Cseq: '' @ takeWhile (\<lambda>c. c \<noteq> 0) e @ crlf
                @ chars ''Content-Type: application/sdp'' @ crlf @ chars ''Server: RRS 0.1'' @ crlf
                @ chars ''Cache-Control: no-cache'' @ crlf @ chars ''Content-Length: ''
                @ ConventNumberToString (int (length body)) @ crlf @ crlf);
         Some (int (length h) + int (length body), [h, body])}}}"

text \<open>The description for the web interface is never given: what follows the test of the video is a refusal.\<close>

definition rtsp_get_sdp_describe ::
    "(byte list \<Rightarrow> int \<Rightarrow> int \<times> byte list) \<Rightarrow> int \<Rightarrow> rtsp_state \<Rightarrow> (int \<times> byte list) option" where
  "rtsp_get_sdp_describe b64 room st = do {
     (_, _, _) \<leftarrow> rtsp_stream_get_audio_sinfo room 48000 (sdp st);
     (_, mult, ip, _, _) \<leftarrow> stream_get_rtsp_ginfo room st;
     let ip = (if mult = 0 \<or> ip = [] then g_local_ip st else ip);
     if 32 < length ip + 1 then None
     else do {
       (vret, _) \<leftarrow> rtsp_stream_get_video_sdp_info b64 room (sdp st);
       Some (- 1, if vret = - 1 then chars ''RTSP/1.0   404   Stream Not Found'' @ crlf @ chars '' '' @ crlf
         else chars ''RTSP/1.0 401 Unauthorized'' @ crlf @ chars ''Server: RRS 0.1'' @ crlf @ chars ''Cseq: 3'' @ crlf
           @ chars ''WWW-Authenticate: Digest realm='' @ [0x22] @ chars ''Hipcam RealServer'' @ [0x22] @ chars '','' @ crlf
           @ chars ''nonce='' @ [0x22] @ chars ''fa2ba288a4e39d75bcafa981ef5511b8'' @ [0x22])}}"

subsection \<open>One pass\<close>

text \<open>The variables of the thread.\<close>

record contact =
  k_recv :: "byte list"
  k_msg :: STR_CLIENT_MSG
  k_aut :: Autenticatino_Info
  k_flag :: int
  k_need :: int
  k_last :: int
  k_tnum :: int
  k_sent :: "byte list list"

definition contact_begin :: contact where
  "contact_begin = \<lparr>k_recv = replicate (2 * TCP_BUFF_LEN) 0, k_msg = new_msg, k_aut = \<lparr>nonce = [], url = []\<rparr>,
     k_flag = VLC_CLIENT, k_need = 0, k_last = 0, k_tnum = 0, k_sent = []\<rparr>"

text \<open>
  What \<^verbatim>\<open>recv\<close> gives: between 1 and 1400 bytes, an expired timeout (error 11), or the end of the connection or another
  error.
\<close>

datatype recv_answer = Received "byte list" | Again | Ended

record contact_env =
  ev_cbuf :: "byte list"
  ev_seed :: "byte list"
  ev_times :: "nat \<times> nat"
  ev_open :: open_env

record contact_event =
  ev_recv :: recv_answer
  ev_now :: int
  ev_then :: int
  ev_env :: contact_env

definition send_to :: "byte list list \<Rightarrow> contact \<Rightarrow> contact" where
  "send_to ts k = k\<lparr>k_sent := k_sent k @ ts\<rparr>"

text \<open>
  What was received is put behind what is kept when it holds an empty line; otherwise it replaces what was kept.
  \<^const>\<open>Inl\<close> is the array to go on with, \<^const>\<open>Inr\<close> the array with a complete request.
\<close>

definition collect :: "byte list \<Rightarrow> byte list \<Rightarrow> (byte list + byte list) option" where
  "collect keep d = do {
     let temp = d @ replicate (2 * TCP_BUFF_LEN - length d) 0;
     s \<leftarrow> cstr temp;
     if strstr s (crlf @ crlf) = None
     then Some (Inl (d @ replicate (2 * TCP_BUFF_LEN - length d) 0))
     else do {
       old \<leftarrow> cstr keep;
       if length old + length s + 1 \<le> 2 * TCP_BUFF_LEN
       then Some (Inr (old @ s @ 0 # drop (length old + length s + 1) keep)) else None}}"

definition set_client_type :: "nat \<Rightarrow> int \<Rightarrow> rtsp_state \<Rightarrow> rtsp_state option" where
  "set_client_type pos ty st = do {c \<leftarrow> cli_at pos st; Some (put_cli pos (c\<lparr>client_type := ty\<rparr>) st)}"

text \<open>The branches of the switch: whether the loop goes on, the variables and the state of the server.\<close>

definition on_describe ::
    "(byte list \<Rightarrow> int \<Rightarrow> int \<times> byte list) \<Rightarrow> byte list \<Rightarrow> contact_env \<Rightarrow> nat \<Rightarrow> byte list \<Rightarrow> contact \<Rightarrow> rtsp_state
      \<Rightarrow> (bool \<times> contact \<times> rtsp_state) option" where
  "on_describe b64 localip ev pos p k st = do {
     req \<leftarrow> cstr p;
     (r, d) \<leftarrow> rtsp_describe_authentication req localip
        \<lparr>d_flag = k_flag k, d_room = roomid (k_msg k), d_timeout = k_need k, d_url = url (k_aut k)\<rparr>;
     let k = k\<lparr>k_flag := d_flag d, k_msg := (k_msg k)\<lparr>roomid := d_room d\<rparr>, k_need := d_timeout d,
               k_aut := (k_aut k)\<lparr>url := d_url d\<rparr>\<rparr>;
     if r = 0 then do {
       (ok, aut, refused) \<leftarrow>
         (if permissions (g_user_autentication st) = 1
          then authenticationOK (ev_cbuf ev) (ev_seed ev) (chars ''DESCRIBE'') (k_aut k) (g_user_autentication st) p
                 (uiCseq (k_msg k))
          else Some (0, k_aut k, None));
       let k = send_to (case refused of None \<Rightarrow> [] | Some t \<Rightarrow> [t]) (k\<lparr>k_aut := aut\<rparr>);
       if ok = - 1 then Some (True, k, st)
       else if k_flag k = STB_TS_CLIENT then do {
         (ret, ts) \<leftarrow> ResponseDescribeTs b64 (fst (ev_times ev)) (snd (ev_times ev)) localip 0 (k_msg k) st;
         let k = send_to ts k;
         if ret = - 1 then Some (False, k, st)
         else do {
           st \<leftarrow> set_client_type pos (k_flag k) st;
           Some (True, k, if k_flag k = STB_TS_CLIENT then rtsp_ts_set_client_num 1 st else st)}}
       else do {
         (_, ts) \<leftarrow> ResponseDescribe b64 localip 0 (k_msg k) st;
         Some (True, send_to ts k, st)}}
     else do {
       (_, ts) \<leftarrow> ResponseDescribe b64 localip (- 1) (k_msg k) st;
       Some (False, send_to ts k, st)}}"

definition on_request ::
    "(byte list \<Rightarrow> int \<Rightarrow> int \<times> byte list) \<Rightarrow> (byte list \<Rightarrow> u32) \<Rightarrow> sockaddr_in \<Rightarrow> byte list \<Rightarrow> contact_env \<Rightarrow> nat
      \<Rightarrow> int \<Rightarrow> byte list \<Rightarrow> contact \<Rightarrow> rtsp_state \<Rightarrow> (bool \<times> contact \<times> rtsp_state) option" where
  "on_request b64 pton caddr localip ev pos ty p k st =
     (if ty = OPTION then do {t \<leftarrow> ResponseOption (k_msg k); Some (True, send_to [t] k, st)}
      else if ty = DESCRIBE then on_describe b64 localip ev pos p k st
      else if ty = SETUP then do {
        req \<leftarrow> cstr p;
        (t, m) \<leftarrow> ResponseSetup p (int (length req)) (k_msg k) (if k_need k = 1 then g_keepactive_time st else 0);
        Some (True, send_to [t] (k\<lparr>k_msg := m\<rparr>), st)}
      else if ty = PLAY then do {
        (ret, st) \<leftarrow> RtspAddClient pton (ev_open ev) caddr pos (k_msg k) st;
        if ret = - 1 then Some (False, k, st)
        else do {
          t \<leftarrow> ResponsePlay (k_msg k);
          Some (True, send_to [t] k, if g_rtsp_flag st = 0 then st\<lparr>g_rtsp_flag := 1\<rparr> else st)}}
      else if ty = ANNOUNCE then Some (True, k, st)
      else if ty = PAUSE then do {
        st \<leftarrow> RtspPauseClient pos st;
        t \<leftarrow> ResponsePause (k_msg k);
        Some (True, send_to [t] k, st)}
      else if ty = TEARDOWN then do {t \<leftarrow> ResponseTeardown (k_msg k); Some (False, send_to [t] k, st)}
      else if ty = SET_PARAMETER then do {t \<leftarrow> ResponseSet_parameter (k_msg k); Some (True, send_to [t] k, st)}
      else if ty = GET_PARAMETER then do {t \<leftarrow> ResponseGet_parameter (k_msg k); Some (True, send_to [t] k, st)}
      else Some (False, k, st))"

text \<open>The tests before \<^verbatim>\<open>recv\<close>: the last request too long ago, and the slot marked invalid for the fourth time.\<close>

definition before_recv :: "contact_event \<Rightarrow> nat \<Rightarrow> contact \<Rightarrow> rtsp_state \<Rightarrow> (bool \<times> contact) option" where
  "before_recv ev pos k st = do {
     let k = (if k_need k = 1 \<and> k_last k = 0 then k\<lparr>k_last := ev_now ev\<rparr> else k);
     if k_need k = 1 \<and> g_keepactive_time st * 2000 < ev_now ev - k_last k then Some (False, k)
     else do {
       c \<leftarrow> cli_at pos st;
       let k = (if client_type c = INVALID_CLIENT then k\<lparr>k_tnum := k_tnum k + 1\<rparr> else k);
       Some (\<not> (client_type c = INVALID_CLIENT \<and> 3 < k_tnum k), k)}}"

definition handle_bytes ::
    "(byte list \<Rightarrow> int \<Rightarrow> int \<times> byte list) \<Rightarrow> (byte list \<Rightarrow> u32) \<Rightarrow> sockaddr_in \<Rightarrow> byte list \<Rightarrow> contact_env \<Rightarrow> nat
      \<Rightarrow> byte list \<Rightarrow> contact \<Rightarrow> rtsp_state \<Rightarrow> (bool \<times> contact \<times> rtsp_state) option" where
  "handle_bytes b64 pton caddr localip env pos d k st = do {
     c \<leftarrow> collect (k_recv k) d;
     case c of
       Inl keep \<Rightarrow> Some (True, k\<lparr>k_recv := keep\<rparr>, st)
     | Inr p \<Rightarrow> do {
         req \<leftarrow> cstr p;
         (ty, m) \<leftarrow> GetVlcMsgType p (int (length req)) (k_msg k);
         let k = k\<lparr>k_recv := p, k_msg := m\<rparr>;
         (goes, k, st) \<leftarrow> (if ty = 0 then Some (True, k, st) else on_request b64 pton caddr localip env pos ty p k st);
         Some (goes, if goes then k\<lparr>k_recv := replicate (2 * TCP_BUFF_LEN) 0\<rparr> else k, st)}}"

definition contact_pass ::
    "(byte list \<Rightarrow> int \<Rightarrow> int \<times> byte list) \<Rightarrow> (byte list \<Rightarrow> u32) \<Rightarrow> sockaddr_in \<Rightarrow> byte list \<Rightarrow> contact_event \<Rightarrow> nat
      \<Rightarrow> contact \<Rightarrow> rtsp_state \<Rightarrow> (bool \<times> contact \<times> rtsp_state) option" where
  "contact_pass b64 pton caddr localip ev pos k st = do {
     (goes, k) \<leftarrow> before_recv ev pos k st;
     if \<not> goes then Some (False, k, st)
     else case ev_recv ev of
       Ended \<Rightarrow> Some (False, k, st)
     | Again \<Rightarrow> Some (True, k, st)
     | Received d \<Rightarrow> handle_bytes b64 pton caddr localip (ev_env ev) pos d
                       (if k_need k = 1 then k\<lparr>k_last := ev_then ev\<rparr> else k) st}"

text \<open>The end of the thread.\<close>

definition contact_exit :: "nat \<Rightarrow> contact \<Rightarrow> rtsp_state \<Rightarrow> rtsp_state option" where
  "contact_exit pos k st = do {
     st \<leftarrow> RtspDelClient pos st;
     let st = (if k_flag k = STB_TS_CLIENT then rtsp_ts_set_client_num (- 1) st else st);
     Some (st\<lparr>g_rtsp_flag := (if RtspGetClientNum st \<noteq> 0 then 1 else 0)\<rparr>)}"

text \<open>The whole thread; the events after the end of the loop do not happen.\<close>

fun contact_run ::
    "(byte list \<Rightarrow> int \<Rightarrow> int \<times> byte list) \<Rightarrow> (byte list \<Rightarrow> u32) \<Rightarrow> sockaddr_in \<Rightarrow> byte list \<Rightarrow> nat \<Rightarrow> contact_event list
      \<Rightarrow> contact \<Rightarrow> rtsp_state \<Rightarrow> (bool \<times> contact \<times> rtsp_state) option" where
  "contact_run b64 pton caddr localip pos [] k st = Some (True, k, st)"
| "contact_run b64 pton caddr localip pos (ev # evs) k st = do {
     (goes, k, st) \<leftarrow> contact_pass b64 pton caddr localip ev pos k st;
     if goes then contact_run b64 pton caddr localip pos evs k st else Some (False, k, st)}"

definition RtspVlcContact ::
    "(byte list \<Rightarrow> int \<Rightarrow> int \<times> byte list) \<Rightarrow> (byte list \<Rightarrow> u32) \<Rightarrow> sockaddr_in \<Rightarrow> nat \<Rightarrow> contact_event list \<Rightarrow> rtsp_state
      \<Rightarrow> (contact \<times> rtsp_state) option" where
  "RtspVlcContact b64 pton caddr pos evs st = do {
     (_, k, st') \<leftarrow> contact_run b64 pton caddr (g_local_ip st) pos evs contact_begin st;
     st \<leftarrow> contact_exit pos k st';
     Some (k, st)}"

subsection \<open>What stands behind a request does not matter\<close>

text \<open>Whatever \<open>a\<close> gives, \<open>b\<close> gives too; a reader that ends inside an array gives the same on a longer one.\<close>

definition below :: "'a option \<Rightarrow> 'a option \<Rightarrow> bool" where "below a b \<longleftrightarrow> (\<forall>x. a = Some x \<longrightarrow> b = Some x)"

lemma belowD: "below a b \<Longrightarrow> a = Some x \<Longrightarrow> b = Some x" by (simp add: below_def)

named_theorems below_intros \<open>how \<open>below\<close> passes through the constructs of a reader\<close>

lemma below_refl [below_intros]: "below a a" by (simp add: below_def)

lemma below_bind [below_intros]: "below m m' \<Longrightarrow> (\<And>x. m = Some x \<Longrightarrow> below (f x) (f' x)) \<Longrightarrow> below (m \<bind> f) (m' \<bind> f')"
  by (auto simp: below_def Option.bind_eq_Some_conv)

lemma below_if [below_intros]: "(c \<Longrightarrow> below a a') \<Longrightarrow> (\<not> c \<Longrightarrow> below b b') \<Longrightarrow> below (if c then a else b) (if c then a' else b')"
  by (simp add: below_def)

lemma below_prod [below_intros]: "(\<And>x y. p = (x, y) \<Longrightarrow> below (f x y) (f' x y)) \<Longrightarrow> below (case p of (x, y) \<Rightarrow> f x y) (case p of (x, y) \<Rightarrow> f' x y)"
  by (cases p) simp

lemma peek_below [below_intros]: "below (peek p i) (peek (p @ z) i)"
  by (auto simp: below_def peek_def nth_append split: if_splits)

lemma match_at_below [below_intros]: "below (match_at p i pat) (match_at (p @ z) i pat)"
  by (induction p i pat rule: match_at.induct) (auto intro!: below_intros)

lemma msg_type_at_below [below_intros]: "below (msg_type_at p m) (msg_type_at (p @ z) m)"
  unfolding msg_type_at_def by (intro below_intros)

lemma msg_type_loop_below [below_intros]: "below (msg_type_loop p m k) (msg_type_loop (p @ z) m k)"
  by (induction p m k rule: msg_type_loop.induct) (auto intro!: below_intros)

lemma cseq_copy_below [below_intros]: "below (cseq_copy p pos len acc) (cseq_copy (p @ z) pos len acc)"
proof (induction p pos len acc rule: cseq_copy.induct)
  case (1 p pos len acc)
  show ?case
    unfolding cseq_copy.simps [of p pos] cseq_copy.simps [of "p @ z" pos]
    by (intro below_if below_bind peek_below below_refl 1; assumption)
qed

lemma cseq_loop_below [below_intros]: "below (cseq_loop p m k len msg) (cseq_loop (p @ z) m k len msg)"
  by (induction p m k len msg rule: cseq_loop.induct) (auto intro!: below_intros)

lemma GetVlcMsgType_below: "below (GetVlcMsgType p len msg) (GetVlcMsgType (p @ z) len msg)"
  unfolding GetVlcMsgType_def GetMsgType_def GetCSeq_def Let_def by (intro below_intros)

lemma trans_copy_below [below_intros]: "below (trans_copy p pos k acc) (trans_copy (p @ z) pos k acc)"
  by (induction p pos k acc rule: trans_copy.induct) (auto intro!: below_intros)

lemma setup_loop_below [below_intros]: "below (setup_loop p i k msg) (setup_loop (p @ z) i k msg)"
  by (induction p i k msg rule: setup_loop.induct) (auto intro!: below_intros simp: Let_def)

lemma port_copy_below [below_intros]: "below (port_copy p pos i row) (port_copy (p @ z) pos i row)"
proof (induction p pos i row rule: port_copy.induct)
  case (1 p pos i row)
  show ?case
  proof (cases "pos + i < length p")
    case True
    then have "(p @ z) ! (pos + i) = p ! (pos + i)" "pos + i < length (p @ z)" by (simp_all add: nth_append)
    then show ?thesis
      unfolding port_copy.simps [of p pos i row] port_copy.simps [of "p @ z" pos i row] Let_def
      using True by (simp only: if_True) (intro below_if below_bind peek_below below_refl 1 refl; simp)
  next
    case False
    then show ?thesis by (subst port_copy.simps) (simp add: below_def)
  qed
qed

lemma port_loop_below [below_intros]: "below (port_loop p m k i row) (port_loop (p @ z) m k i row)"
  by (induction p m k i row rule: port_loop.induct) (auto intro!: below_intros)

lemma rtsp_find_trackid_below [below_intros]: "below (rtsp_find_trackid p) (rtsp_find_trackid (p @ z))"
proof (cases "0 \<in> set p")
  case True
  then have "cstr (p @ z) = cstr p" by (auto simp: cstr_def takeWhile_append1)
  then show ?thesis by (simp add: rtsp_find_trackid_def below_refl)
next
  case False
  then show ?thesis by (simp add: rtsp_find_trackid_def cstr_def below_def)
qed

lemma ResponseSetup_below: "below (ResponseSetup p len msg timeout) (ResponseSetup (p @ z) len msg timeout)"
  unfolding ResponseSetup_def PraseSETUPMsg_def GetClientPort_def Let_def by (intro below_intros)

subsection \<open>Requests in pieces\<close>

definition empty_line :: "byte list \<Rightarrow> bool" where "empty_line s \<longleftrightarrow> strstr s (crlf @ crlf) \<noteq> None"

lemma crlf_pair: "crlf @ crlf = [0x0d, 0x0a, 0x0d, 0x0a]" by (simp add: crlf_def)

lemma strstr_None: "strstr s pat = None \<longleftrightarrow> (\<forall>i\<le>length s. take (length pat) (drop i s) \<noteq> pat)"
  by (auto simp: strstr_def find_None_iff less_Suc_eq_le simp del: upt_Suc)

lemma empty_line_iff: "empty_line s \<longleftrightarrow> (\<exists>i\<le>length s. take 4 (drop i s) = crlf @ crlf)"
  unfolding empty_line_def by (simp add: strstr_None numeral_eq_Suc crlf_def)

lemma empty_line_append: "empty_line b \<Longrightarrow> empty_line (a @ b)"
proof -
  assume "empty_line b"
  then obtain i where i: "i \<le> length b" "take 4 (drop i b) = crlf @ crlf" by (auto simp: empty_line_iff)
  then have "length a + i \<le> length (a @ b)" "take 4 (drop (length a + i) (a @ b)) = crlf @ crlf" by simp_all
  then show ?thesis unfolding empty_line_iff by blast
qed

lemma takeWhile_text: "0 \<notin> set s \<Longrightarrow> takeWhile (\<lambda>c. c \<noteq> 0) (s @ 0 # z) = s"
  by (induction s) auto

lemma cstr_text: "0 \<notin> set s \<Longrightarrow> cstr (s @ 0 # z) = Some s"
  by (simp add: cstr_def takeWhile_text)

lemma cstr_array: "0 \<notin> set s \<Longrightarrow> length s < 2 * TCP_BUFF_LEN \<Longrightarrow> cstr (recv_array s) = Some s"
proof -
  assume "0 \<notin> set s" "length s < 2 * TCP_BUFF_LEN"
  then have "recv_array s = s @ 0 # replicate (2 * TCP_BUFF_LEN - length s - 1) 0"
    by (simp add: recv_array_def Suc_diff_Suc flip: replicate_Suc)
  then show ?thesis using cstr_text [OF \<open>0 \<notin> set s\<close>] by simp
qed

lemma collect_text:
  assumes "0 \<notin> set keep" "0 \<notin> set d" "length keep + length d < 2 * TCP_BUFF_LEN"
  shows "collect (recv_array keep) d = Some (if empty_line d then Inr (recv_array (keep @ d)) else Inl (recv_array d))"
proof -
  have "cstr (recv_array d) = Some d" "cstr (recv_array keep) = Some keep" using assms by (simp_all add: cstr_array)
  moreover have "keep @ d @ 0 # drop (length keep + length d + 1) (recv_array keep) = recv_array (keep @ d)"
    using assms(3) by (simp add: recv_array_def drop_replicate Suc_diff_Suc flip: replicate_Suc)
  ultimately show ?thesis
    using assms(3) unfolding collect_def Let_def recv_array_def [symmetric]
    by (simp add: empty_line_def recv_array_def)
qed

text \<open>
  C17: A request that arrives in two pieces is handled as the whole one exactly when the second piece holds the empty
  line at its end; otherwise the first piece is thrown away, and with it the request, even when both together are
  complete.
\<close>
theorem request_in_pieces:
  assumes "0 \<notin> set (a @ b)" "length (a @ b) \<le> TCP_BUFF_LEN" "\<not> empty_line a"
    and "k_need k = 0" "k_recv k = recv_array []" "pos < length (rtspcliDATA st)"
    and "client_type (rtspcliDATA st ! pos) \<noteq> INVALID_CLIENT"
  shows "contact_run b64 pton caddr ip pos [ev'\<lparr>ev_recv := Received a\<rparr>, ev\<lparr>ev_recv := Received b\<rparr>] k st
    = (if empty_line b then contact_run b64 pton caddr ip pos [ev\<lparr>ev_recv := Received (a @ b)\<rparr>] k st
       else Some (True, k\<lparr>k_recv := recv_array b\<rparr>, st))"
proof -
  have len: "length a + length b < 2 * TCP_BUFF_LEN" using assms(2) by (simp add: TCP_BUFF_LEN_def)
  have before: "before_recv e pos c st = Some (True, c)" if "k_need c = 0" for e c
    using that assms(6,7) by (simp add: before_recv_def cli_at_nth)
  have pass: "contact_pass b64 pton caddr ip e pos c st = handle_bytes b64 pton caddr ip (ev_env e) pos d c st"
    if "k_need c = 0" "ev_recv e = Received d" for e c d
    using that by (simp add: contact_pass_def before)
  have first: "contact_pass b64 pton caddr ip (ev'\<lparr>ev_recv := Received a\<rparr>) pos k st
      = Some (True, k\<lparr>k_recv := recv_array a\<rparr>, st)"
    using assms(1,3,4,5) len by (simp add: pass handle_bytes_def collect_text)
  show ?thesis
  proof (cases "empty_line b")
    case False
    then show ?thesis using first assms(1,4) len by (simp add: pass handle_bytes_def collect_text)
  next
    case True
    have c1: "collect (recv_array a) b = Some (Inr (recv_array (a @ b)))"
      using True assms(1) len by (simp add: collect_text)
    have c2: "collect (recv_array []) (a @ b) = Some (Inr (recv_array (a @ b)))"
      using empty_line_append [OF True] assms(1) len collect_text [of "[]" "a @ b"] by simp
    show ?thesis using True first assms(4,5) by (simp add: pass handle_bytes_def c1 c2)
  qed
qed

subsection \<open>The server through any session\<close>

text \<open>
  The type of the request a pass handles, if it comes so far; a pass is polite when a \<^verbatim>\<open>PLAY\<close> comes only while the
  session holds no receiver.
\<close>

definition request_of :: "contact_event \<Rightarrow> nat \<Rightarrow> contact \<Rightarrow> rtsp_state \<Rightarrow> int option" where
  "request_of ev pos k st =
     (case before_recv ev pos k st of
        Some (True, k) \<Rightarrow>
          (case ev_recv ev of
             Received d \<Rightarrow>
               (case collect (k_recv k) d of
                  Some (Inr p) \<Rightarrow> do {
                    req \<leftarrow> cstr p;
                    (ty, _) \<leftarrow> GetVlcMsgType p (int (length req)) (k_msg k);
                    Some ty}
                | _ \<Rightarrow> None)
           | _ \<Rightarrow> None)
      | _ \<Rightarrow> None)"

definition polite :: "contact_event \<Rightarrow> nat \<Rightarrow> contact \<Rightarrow> rtsp_state \<Rightarrow> bool" where
  "polite ev pos k st \<longleftrightarrow> env_grants (ev_open (ev_env ev))
     \<and> (request_of ev pos k st = Some PLAY \<longrightarrow> r_client (rtspcliDATA st ! pos) = None)"

text \<open>
  What the arrays of the thread demand of a client: every piece fits the array together with what is kept, a complete
  request can be read (its sequence number fits), and its answer can be built; a \<^verbatim>\<open>PLAY\<close> finds a room and ports.
\<close>

definition answered ::
    "(byte list \<Rightarrow> int \<Rightarrow> int \<times> byte list) \<Rightarrow> byte list \<Rightarrow> contact_env \<Rightarrow> nat \<Rightarrow> int \<Rightarrow> byte list \<Rightarrow> contact \<Rightarrow> rtsp_state \<Rightarrow> bool" where
  "answered b64 localip env pos ty p k st \<longleftrightarrow>
     (if ty = OPTION then ResponseOption (k_msg k) \<noteq> None
      else if ty = DESCRIBE then on_describe b64 localip env pos p k st \<noteq> None
      else if ty = SETUP then
        ResponseSetup p (int (length (the (cstr p)))) (k_msg k) (if k_need k = 1 then g_keepactive_time st else 0) \<noteq> None
      else if ty = PLAY then play_ready (k_msg k) \<and> ResponsePlay (k_msg k) \<noteq> None
      else if ty = PAUSE then ResponsePause (k_msg k) \<noteq> None
      else if ty = TEARDOWN then ResponseTeardown (k_msg k) \<noteq> None
      else if ty = SET_PARAMETER then ResponseSet_parameter (k_msg k) \<noteq> None
      else if ty = GET_PARAMETER then ResponseGet_parameter (k_msg k) \<noteq> None
      else True)"

definition fitting ::
    "(byte list \<Rightarrow> int \<Rightarrow> int \<times> byte list) \<Rightarrow> byte list \<Rightarrow> contact_event \<Rightarrow> nat \<Rightarrow> contact \<Rightarrow> rtsp_state \<Rightarrow> bool" where
  "fitting b64 localip ev pos k st \<longleftrightarrow>
     (case before_recv ev pos k st of
        Some (True, k) \<Rightarrow>
          (case ev_recv ev of
             Received d \<Rightarrow> length d \<le> TCP_BUFF_LEN \<and> length (the (cstr (k_recv k))) + length d < 2 * TCP_BUFF_LEN
               \<and> (case collect (k_recv k) d of
                    Some (Inr p) \<Rightarrow>
                      (case GetVlcMsgType p (int (length (the (cstr p)))) (k_msg k) of
                         None \<Rightarrow> False
                       | Some (ty, m) \<Rightarrow> answered b64 localip (ev_env ev) pos ty p
                           ((if k_need k = 1 then k\<lparr>k_last := ev_then ev\<rparr> else k)\<lparr>k_recv := p, k_msg := m\<rparr>) st)
                  | _ \<Rightarrow> True)
           | _ \<Rightarrow> True)
      | _ \<Rightarrow> True)"

fun polite_run ::
    "(byte list \<Rightarrow> int \<Rightarrow> int \<times> byte list) \<Rightarrow> (byte list \<Rightarrow> u32) \<Rightarrow> sockaddr_in \<Rightarrow> byte list \<Rightarrow> nat \<Rightarrow> contact_event list
      \<Rightarrow> contact \<Rightarrow> rtsp_state \<Rightarrow> bool" where
  "polite_run b64 pton caddr localip pos [] k st \<longleftrightarrow> True"
| "polite_run b64 pton caddr localip pos (ev # evs) k st \<longleftrightarrow> polite ev pos k st \<and> fitting b64 localip ev pos k st
     \<and> (case contact_pass b64 pton caddr localip ev pos k st of
          Some (True, k, st) \<Rightarrow> polite_run b64 pton caddr localip pos evs k st
        | _ \<Rightarrow> True)"

text \<open>What a step of the thread in slot \<open>pos\<close> keeps of the server.\<close>

definition same_config :: "rtsp_state \<Rightarrow> rtsp_state \<Rightarrow> bool" where
  "same_config st st' \<longleftrightarrow> map_option rtsp_config (g_rtsp_shandle st') = map_option rtsp_config (g_rtsp_shandle st)
     \<and> g_user_autentication st' = g_user_autentication st \<and> g_guest_user_num st' = g_guest_user_num st
     \<and> g_local_ip st' = g_local_ip st \<and> sdp st' = sdp st"

definition keeps_server :: "nat set \<Rightarrow> nat \<Rightarrow> rtsp_state \<Rightarrow> rtsp_state \<Rightarrow> bool" where
  "keeps_server others pos st st' \<longleftrightarrow> session_inv others st' \<and> bUsed (rtspcliDATA st' ! pos)
     \<and> (\<forall>k<6. k \<noteq> pos \<longrightarrow> rtspcliDATA st' ! k = rtspcliDATA st ! k) \<and> same_config st st'"

lemma same_config_refl [simp]: "same_config st st" by (simp add: same_config_def)

lemma same_config_settings: "settings_part st' = settings_part st \<Longrightarrow> same_config st st'"
  by (auto simp: same_config_def settings_part_def map_option_case split: option.splits)

lemma keeps_refl: "session_inv others st \<Longrightarrow> bUsed (rtspcliDATA st ! pos) \<Longrightarrow> keeps_server others pos st st"
  by (simp add: keeps_server_def)

lemma keeps_trans: "keeps_server others pos st st' \<Longrightarrow> keeps_server others pos st' st'' \<Longrightarrow> keeps_server others pos st st''"
  by (auto simp: keeps_server_def same_config_def)

lemma keeps_flag:
  assumes "session_inv others st" "bUsed (rtspcliDATA st ! pos)"
  shows "keeps_server others pos st (st\<lparr>g_rtsp_flag := x\<rparr>)" "keeps_server others pos st (rtsp_ts_set_client_num n st)"
proof -
  have h: "handle_ok st" using assms(1) by (simp add: session_inv_def)
  have "session_inv others (st\<lparr>g_rtsp_flag := x\<rparr>)"
    by (rule session_inv_handle [OF assms(1)]) (use h in \<open>simp_all add: handle_ok_def\<close>)
  moreover have "session_inv others (rtsp_ts_set_client_num n st)"
    by (rule session_inv_handle [OF assms(1)]) (use h in \<open>simp_all add: rtsp_ts_set_client_num_def Let_def handle_ok_def\<close>)
  ultimately show "keeps_server others pos st (st\<lparr>g_rtsp_flag := x\<rparr>)" "keeps_server others pos st (rtsp_ts_set_client_num n st)"
    using assms(2) by (simp_all add: keeps_server_def same_config_def rtsp_ts_set_client_num_def Let_def)
qed

lemma set_type_keeps:
  assumes "session_inv others st" "pos < 5" "bUsed (rtspcliDATA st ! pos)"
  shows "\<exists>st'. set_client_type pos ty st = Some st' \<and> keeps_server others pos st st'"
proof -
  have len: "length (rtspcliDATA st) = 6" and ok: "slots_ok (rtspcliDATA st)" "handle_ok st" "out_inv (rout st)"
    using assms(1) by (simp_all add: session_inv_def slots_ok_def)
  define c where "c = (rtspcliDATA st ! pos)\<lparr>client_type := ty\<rparr>"
  define st' where "st' = put_cli pos c st"
  have d: "rtspcliDATA st' = (rtspcliDATA st)[pos := c]" by (simp add: st'_def)
  have h: "held_by j st' = held_by j st" for j
    using held_by_update [OF _ d, of j] assms(2) len by (simp add: has_client_def c_def)
  have r: "rout st' = rout st" "g_guest_user_num st' = g_guest_user_num st" "handle_ok st'"
    using ok(2) by (simp_all add: st'_def)
  have "receiver_ok others st' j = receiver_ok others st j" for j by (simp add: receiver_ok_def r h)
  moreover have "slots_ok (rtspcliDATA st')"
    unfolding d
    by (rule slots_update [OF ok(1)]) (use assms(2) held_used(1) [OF assms(1), of pos] assms(3) in \<open>auto simp: c_def\<close>)
  moreover have used: "map bUsed (rtspcliDATA st') = map bUsed (rtspcliDATA st)"
    using d assms(2,3) len by (simp add: map_update c_def list_update_same_conv)
  have num: "RtspGetClientNum st' = RtspGetClientNum st" unfolding RtspGetClientNum_def used_count_cong [OF used] ..
  ultimately have "session_inv others st'" using assms(1) r by (simp add: session_inv_def num)
  moreover have "same_config st st'" by (simp add: same_config_def st'_def put_cli_def)
  ultimately have "keeps_server others pos st st'"
    using assms(2,3) len d by (simp add: keeps_server_def c_def)
  moreover have "set_client_type pos ty st = Some st'"
    using assms(2) len by (simp add: set_client_type_def cli_at_nth st'_def c_def)
  ultimately show ?thesis by blast
qed

lemma on_describe_keeps:
  assumes "on_describe b64 localip ev pos p k st = Some (goes, k', st')"
    and "session_inv others st" "pos < 5" "bUsed (rtspcliDATA st ! pos)"
  shows "keeps_server others pos st st'"
proof -
  have type: "keeps_server others pos st s \<and> keeps_server others pos st (rtsp_ts_set_client_num 1 s)"
    if "set_client_type pos ty st = Some s" for ty s
  proof -
    have s: "keeps_server others pos st s" using set_type_keeps [OF assms(2-4), of ty] that by auto
    then have "keeps_server others pos s (rtsp_ts_set_client_num 1 s)"
      by (intro keeps_flag(2)) (simp_all add: keeps_server_def)
    with s show ?thesis by (blast intro: keeps_trans)
  qed
  show ?thesis
    using assms(1) keeps_refl [OF assms(2,4)]
    by (auto simp: on_describe_def Let_def Option.bind_eq_Some_conv dest: type split: if_splits prod.splits)
qed

lemma play_ready_of_run:
  assumes "handle_ok st" "RtspAddClient pton e caddr pos msg st = Some (r, st')" "r \<noteq> - 1"
  shows "play_ready msg"
proof -
  obtain h where h: "g_rtsp_shandle st = Some h" "length (mult_flag (rtsp_config h)) = 4"
    using assms(1) by (auto simp: handle_ok_def split: option.splits)
  obtain m ip a b v x where "stream_get_rtsp_ginfo (roomid msg) st = Some (x, m, ip, a, b)" "client_port msg 0 = Some v"
      "client_port msg 1 \<noteq> None"
    using assms(2,3)
    by (auto simp: RtspAddClient_def Let_def Option.bind_eq_Some_conv split: if_splits prod.splits)
  then show ?thesis
    using h by (auto simp: play_ready_def stream_get_rtsp_ginfo_def Option.bind_eq_Some_conv peek_def split: if_splits)
qed

lemma on_play_keeps:
  assumes "RtspAddClient pton e caddr pos msg st = Some (r, st')"
    and "session_inv others st" "pos < 5" "bUsed (rtspcliDATA st ! pos)" "r_client (rtspcliDATA st ! pos) = None" "env_grants e"
  shows "keeps_server others pos st st'"
proof (cases "play_ready msg")
  case True
  obtain r' s where "RtspAddClient pton e caddr pos msg st = Some (r', s)" "session_inv others s" "settings_part s = settings_part st"
      "slots_used s = slots_used st" "\<forall>k<6. k \<noteq> pos \<longrightarrow> rtspcliDATA s ! k = rtspcliDATA st ! k"
    using RtspAddClient_inv [OF assms(2-5) True assms(6), of pton caddr] by auto
  then show ?thesis
    using assms(1,3,4) slots_used_nth [of s st pos] session_lengths [OF assms(2)] session_lengths
    by (auto simp: keeps_server_def same_config_settings)
next
  case False
  have "handle_ok st" using assms(2) by (simp add: session_inv_def)
  then have "r = - 1" using play_ready_of_run [OF _ assms(1)] False by blast
  moreover obtain vp where "client_port msg 0 = Some vp" using assms(1) by (auto simp: RtspAddClient_def Option.bind_eq_Some_conv)
  ultimately have "st' = st"
    using assms(1) by (auto simp: RtspAddClient_def Let_def Option.bind_eq_Some_conv split: if_splits prod.splits)
  then show ?thesis using keeps_refl assms(2,4) by blast
qed

lemma on_request_keeps:
  assumes "on_request b64 pton caddr localip env pos ty p k st = Some (goes, k', st')"
    and inv: "session_inv others st" "pos < 5" "bUsed (rtspcliDATA st ! pos)"
    and play: "ty = PLAY \<Longrightarrow> r_client (rtspcliDATA st ! pos) = None" "env_grants (ev_open env)"
  shows "keeps_server others pos st st'"
proof -
  note refl = keeps_refl [OF inv(1,3)]
  consider "ty = DESCRIBE" | "ty = PLAY" | "ty = PAUSE" | "ty \<notin> {DESCRIBE, PLAY, PAUSE}" by blast
  then show ?thesis
  proof cases
    case 1
    then show ?thesis
      using assms(1) on_describe_keeps [OF _ inv] by (simp add: on_request_def method_codes)
  next
    case 2
    then obtain r s where s: "RtspAddClient pton (ev_open env) caddr pos (k_msg k) st = Some (r, s)"
        "st' = s \<or> st' = s\<lparr>g_rtsp_flag := 1\<rparr>"
      using assms(1)
      by (auto simp: on_request_def method_codes Option.bind_eq_Some_conv split: if_splits prod.splits)
    have k: "keeps_server others pos st s" by (rule on_play_keeps [OF s(1) inv play(1) [OF 2] play(2)])
    then have "keeps_server others pos s (s\<lparr>g_rtsp_flag := 1\<rparr>)" by (intro keeps_flag(1)) (simp_all add: keeps_server_def)
    then show ?thesis using k s(2) by (blast intro: keeps_trans)
  next
    case 3
    obtain s where s: "RtspPauseClient pos st = Some s" "session_inv others s" "settings_part s = settings_part st"
        "\<forall>k<6. bUsed (rtspcliDATA s ! k) = bUsed (rtspcliDATA st ! k)"
        "\<forall>k<6. k \<noteq> pos \<longrightarrow> rtspcliDATA s ! k = rtspcliDATA st ! k"
      using RtspPauseClient_inv [OF inv(1), of pos] inv(2) by auto
    then have "keeps_server others pos st s" using inv(2,3) by (simp add: keeps_server_def same_config_settings)
    moreover have "st' = s"
      using assms(1) s(1) 3 by (auto simp: on_request_def method_codes Option.bind_eq_Some_conv)
    ultimately show ?thesis by simp
  next
    case 4
    then have "st' = st"
      using assms(1) by (auto simp: on_request_def Let_def Option.bind_eq_Some_conv split: if_splits prod.splits)
    then show ?thesis using refl by simp
  qed
qed

lemma contact_pass_keeps:
  assumes "contact_pass b64 pton caddr localip ev pos k st = Some (goes, k', st')"
    and inv: "session_inv others st" "pos < 5" "bUsed (rtspcliDATA st ! pos)" and "polite ev pos k st"
  shows "keeps_server others pos st st'"
proof -
  note refl = keeps_refl [OF inv(1,3)]
  obtain g1 k1 where b: "before_recv ev pos k st = Some (g1, k1)"
    using assms(1) by (auto simp: contact_pass_def Option.bind_eq_Some_conv)
  show ?thesis
  proof (cases "g1 \<and> (\<exists>d. ev_recv ev = Received d)")
    case False
    then have "st' = st"
      using assms(1) b by (cases "ev_recv ev") (auto simp: contact_pass_def split: if_splits)
    then show ?thesis using refl by simp
  next
    case True
    then obtain d where d: "ev_recv ev = Received d" by blast
    define k2 where "k2 = (if k_need k1 = 1 then k1\<lparr>k_last := ev_then ev\<rparr> else k1)"
    have rc: "k_recv k2 = k_recv k1" "k_msg k2 = k_msg k1" by (simp_all add: k2_def)
    have pass: "contact_pass b64 pton caddr localip ev pos k st = handle_bytes b64 pton caddr localip (ev_env ev) pos d k2 st"
      using b d True by (simp add: contact_pass_def k2_def)
    obtain c where c: "collect (k_recv k2) d = Some c" using assms(1) by (auto simp: pass handle_bytes_def Option.bind_eq_Some_conv)
    show ?thesis
    proof (cases c)
      case (Inl keep)
      then show ?thesis using assms(1) c refl by (auto simp: pass handle_bytes_def)
    next
      case (Inr p)
      obtain req ty m where m: "cstr p = Some req" "GetVlcMsgType p (int (length req)) (k_msg k2) = Some (ty, m)"
        using assms(1) c Inr by (auto simp: pass handle_bytes_def Option.bind_eq_Some_conv)
      define k3 where "k3 = k2\<lparr>k_recv := p, k_msg := m\<rparr>"
      have req: "request_of ev pos k st = Some ty" using b d True c Inr m rc by (simp add: request_of_def)
      show ?thesis
      proof (cases "ty = 0")
        case True
        then show ?thesis using assms(1) c Inr m refl by (auto simp: pass handle_bytes_def Let_def)
      next
        case False
        then obtain g3 k4 where "on_request b64 pton caddr localip (ev_env ev) pos ty p k3 st = Some (g3, k4, st')"
          using assms(1) c Inr m by (auto simp: pass handle_bytes_def Let_def k3_def [symmetric] Option.bind_eq_Some_conv)
        from on_request_keeps [OF this inv] show ?thesis using assms(5) req by (auto simp: polite_def)
      qed
    qed
  qed
qed

lemma contact_run_keeps:
  "contact_run b64 pton caddr localip pos evs k st = Some (goes, k', st') \<Longrightarrow> session_inv others st \<Longrightarrow> pos < 5 \<Longrightarrow>
    bUsed (rtspcliDATA st ! pos) \<Longrightarrow> polite_run b64 pton caddr localip pos evs k st \<Longrightarrow> keeps_server others pos st st'"
proof (induction evs arbitrary: k st)
  case Nil
  then show ?case by (simp add: keeps_refl)
next
  case (Cons ev evs)
  then obtain g1 k1 st1 where p: "contact_pass b64 pton caddr localip ev pos k st = Some (g1, k1, st1)"
    by (auto simp: Option.bind_eq_Some_conv)
  have k: "keeps_server others pos st st1" using contact_pass_keeps [OF p Cons.prems(2-4)] Cons.prems(5) by simp
  show ?case
  proof (cases g1)
    case True
    then have "keeps_server others pos st1 st'"
      using Cons.IH [of k1 st1] Cons.prems p k by (simp add: keeps_server_def)
    with k show ?thesis by (rule keeps_trans)
  next
    case False
    then show ?thesis using Cons.prems(1) p k by simp
  qed
qed

text \<open>Under these conditions no request makes the thread fail.\<close>

lemma cstr_no_zero: "cstr a = Some s \<Longrightarrow> 0 \<notin> set s"
  by (auto simp: cstr_def dest: set_takeWhileD split: if_splits)

lemma on_request_returns:
  assumes inv: "session_inv others st" "pos < 5" "bUsed (rtspcliDATA st ! pos)"
    and play: "ty = PLAY \<Longrightarrow> r_client (rtspcliDATA st ! pos) = None" "env_grants (ev_open env)"
    and a: "answered b64 localip env pos ty p k st" and p: "cstr p \<noteq> None"
  shows "\<exists>x. on_request b64 pton caddr localip env pos ty p k st = Some x"
proof -
  consider "ty = PLAY" | "ty = PAUSE" | "ty = DESCRIBE" | "ty = SETUP" | "ty \<notin> {PLAY, PAUSE, DESCRIBE, SETUP}" by blast
  then show ?thesis
  proof cases
    case 1
    obtain r s where "RtspAddClient pton (ev_open env) caddr pos (k_msg k) st = Some (r, s)"
      using RtspAddClient_inv [OF inv play(1) [OF 1] _ play(2), of "k_msg k" pton caddr] a 1
      by (auto simp: answered_def method_codes)
    then show ?thesis using a 1 by (auto simp: on_request_def answered_def method_codes)
  next
    case 2
    then show ?thesis
      using RtspPauseClient_inv [OF inv(1), of pos] inv(2) a
      by (auto simp: on_request_def answered_def method_codes)
  next
    case 3
    then show ?thesis using a by (simp add: on_request_def answered_def method_codes)
  next
    case 4
    then show ?thesis using a p by (auto simp: on_request_def answered_def method_codes)
  next
    case 5
    then show ?thesis
      using a by (cases "ty \<in> {OPTION, TEARDOWN, SET_PARAMETER, GET_PARAMETER}")
        (auto simp: on_request_def answered_def method_codes ex_bool_eq)
  qed
qed

lemma collect_returns:
  assumes "cstr keep = Some old" "length d \<le> TCP_BUFF_LEN" "length old + length d < 2 * TCP_BUFF_LEN"
  shows "\<exists>c. collect keep d = Some c \<and> (case c of Inl keep' \<Rightarrow> cstr keep' \<noteq> None | Inr p \<Rightarrow> cstr p \<noteq> None)"
proof -
  let ?t = "d @ replicate (2 * TCP_BUFF_LEN - length d) 0"
  have z: "0 \<in> set ?t" using assms(2) by (simp add: TCP_BUFF_LEN_def)
  then obtain s where s: "cstr ?t = Some s" by (simp add: cstr_def)
  have "takeWhile (\<lambda>c. c \<noteq> 0) (d @ replicate n 0) = takeWhile (\<lambda>c. c \<noteq> 0) d" for n
    by (induction d) (simp_all add: takeWhile_replicate)
  then have "length s \<le> length d" using s by (auto simp: cstr_def length_takeWhile_le split: if_splits)
  moreover have "cstr (old @ s @ 0 # x) = Some (old @ s)" for x
    using cstr_text [of "old @ s" x] cstr_no_zero [OF assms(1)] cstr_no_zero [OF s] by simp
  ultimately show ?thesis using s z assms(1,3) by (simp add: collect_def Let_def)
qed

lemma pass_returns:
  assumes inv: "session_inv others st" "pos < 5" "bUsed (rtspcliDATA st ! pos)"
    and "polite ev pos k st" "fitting b64 localip ev pos k st" "cstr (k_recv k) \<noteq> None"
  shows "\<exists>goes k' st'. contact_pass b64 pton caddr localip ev pos k st = Some (goes, k', st')
    \<and> (goes \<longrightarrow> cstr (k_recv k') \<noteq> None)"
proof -
  have "\<exists>g1 k1. before_recv ev pos k st = Some (g1, k1) \<and> k_recv k1 = k_recv k"
    using session_lengths [OF inv(1)] inv(2) by (simp add: before_recv_def Let_def cli_at_nth ex_bool_eq)
  then obtain g1 k1 where b: "before_recv ev pos k st = Some (g1, k1)" "k_recv k1 = k_recv k" by blast
  have none: ?thesis if "\<not> g1 \<or> ev_recv ev = Again \<or> ev_recv ev = Ended"
    using b assms(6) that by (cases "ev_recv ev") (auto simp: contact_pass_def)
  show ?thesis
  proof (cases "g1 \<and> (\<exists>d. ev_recv ev = Received d)")
    case False
    then show ?thesis using none by (cases "ev_recv ev") auto
  next
    case True
    then obtain d where d: "ev_recv ev = Received d" by blast
    define k2 where "k2 = (if k_need k1 = 1 then k1\<lparr>k_last := ev_then ev\<rparr> else k1)"
    have rc: "k_recv k2 = k_recv k" "k_msg k2 = k_msg k1" by (simp_all add: k2_def b(2))
    have pass: "contact_pass b64 pton caddr localip ev pos k st = handle_bytes b64 pton caddr localip (ev_env ev) pos d k2 st"
      using b d True by (simp add: contact_pass_def k2_def)
    obtain old where old: "cstr (k_recv k) = Some old" using assms(6) by blast
    have fit: "length d \<le> TCP_BUFF_LEN" "length old + length d < 2 * TCP_BUFF_LEN"
      using assms(5) b d True old by (auto simp: fitting_def)
    obtain c where c: "collect (k_recv k) d = Some c"
        "case c of Inl keep' \<Rightarrow> cstr keep' \<noteq> None | Inr p \<Rightarrow> cstr p \<noteq> None"
      using collect_returns [OF old fit] by blast
    show ?thesis
    proof (cases c)
      case (Inl keep)
      then show ?thesis using c by (auto simp: pass handle_bytes_def rc)
    next
      case (Inr p)
      then obtain req where req: "cstr p = Some req" using c(2) by auto
      obtain ty m where m: "GetVlcMsgType p (int (length req)) (k_msg k1) = Some (ty, m)"
          "answered b64 localip (ev_env ev) pos ty p (k2\<lparr>k_recv := p, k_msg := m\<rparr>) st"
        using assms(5) b d True c(1) Inr req by (auto simp: fitting_def k2_def split: option.splits)
      have rq: "request_of ev pos k st = Some ty" using b d True c(1) Inr req m(1) by (simp add: request_of_def)
      have play: "ty = PLAY \<Longrightarrow> r_client (rtspcliDATA st ! pos) = None" "env_grants (ev_open (ev_env ev))"
        using assms(4) rq by (auto simp: polite_def)
      obtain g3 k4 st4 where o: "on_request b64 pton caddr localip (ev_env ev) pos ty p (k2\<lparr>k_recv := p, k_msg := m\<rparr>) st
          = Some (g3, k4, st4)"
        using on_request_returns [OF inv play m(2), of pton caddr] req by auto
      have zero: "cstr (replicate (2 * TCP_BUFF_LEN) 0) \<noteq> None" by (simp add: cstr_def TCP_BUFF_LEN_def)
      show ?thesis
        using c(1) Inr req m(1) o zero by (cases "ty = 0") (auto simp: pass handle_bytes_def rc)
    qed
  qed
qed

lemma run_returns:
  "session_inv others st \<Longrightarrow> pos < 5 \<Longrightarrow> bUsed (rtspcliDATA st ! pos) \<Longrightarrow>
    polite_run b64 pton caddr localip pos evs k st \<Longrightarrow> cstr (k_recv k) \<noteq> None \<Longrightarrow>
    \<exists>x. contact_run b64 pton caddr localip pos evs k st = Some x"
proof (induction evs arbitrary: k st)
  case Nil
  then show ?case by (simp add: ex_bool_eq)
next
  case (Cons ev evs)
  obtain goes k1 st1 where p: "contact_pass b64 pton caddr localip ev pos k st = Some (goes, k1, st1)"
      "goes \<longrightarrow> cstr (k_recv k1) \<noteq> None"
    using pass_returns [OF Cons.prems(1-3) _ _ Cons.prems(5)] Cons.prems(4) by fastforce
  have "keeps_server others pos st st1" using contact_pass_keeps [OF p(1) Cons.prems(1-3)] Cons.prems(4) by simp
  then show ?case
    using Cons.IH [of st1 k1] Cons.prems p by (cases goes) (auto simp: keeps_server_def)
qed

text \<open>
  C16: A session from its first byte to its end.  The pieces that arrive fit the array, the requests in them can be read
  and answered within the arrays of the thread, a \<^verbatim>\<open>PLAY\<close> comes when a room and ports are known and the session holds
  no receiver, and the system grants sockets; the pieces, timeouts, keep-alive, failures and order are any.  Then the
  thread ends, its slot is free and holds no receiver, no other session, guest or setting has changed, the receivers
  are accounted for, and the flag that lets the encoder send says whether sessions are left.
\<close>
theorem thread_returns_slot:
  assumes "session_inv others st" "pos < 5" "bUsed (rtspcliDATA st ! pos)"
    and "polite_run b64 pton caddr (g_local_ip st) pos evs contact_begin st"
  shows "\<exists>k st'. RtspVlcContact b64 pton caddr pos evs st = Some (k, st')
    \<and> session_inv others st' \<and> \<not> bUsed (rtspcliDATA st' ! pos) \<and> r_client (rtspcliDATA st' ! pos) = None
    \<and> (\<forall>j<6. j \<noteq> pos \<longrightarrow> rtspcliDATA st' ! j = rtspcliDATA st ! j) \<and> same_config st st'
    \<and> g_rtsp_flag st' = (if \<exists>j<5. bUsed (rtspcliDATA st' ! j) then 1 else 0)"
proof -
  have start: "cstr (k_recv contact_begin) \<noteq> None" by (simp add: contact_begin_def cstr_def TCP_BUFF_LEN_def)
  obtain g k st1 where r: "contact_run b64 pton caddr (g_local_ip st) pos evs contact_begin st = Some (g, k, st1)"
    using run_returns [OF assms start] by auto
  have k: "keeps_server others pos st st1" using contact_run_keeps [OF r assms] .
  then have inv1: "session_inv others st1" by (simp add: keeps_server_def)
  obtain st2 where st2: "RtspDelClient pos st1 = Some st2" "session_inv others st2" "settings_part st2 = settings_part st1"
      "r_client (rtspcliDATA st2 ! pos) = None" "\<not> bUsed (rtspcliDATA st2 ! pos)"
      "\<forall>k<6. k \<noteq> pos \<longrightarrow> rtspcliDATA st2 ! k = rtspcliDATA st1 ! k"
    using RtspDelClient_inv [OF inv1, of pos] assms(2) by auto
  define st3 where "st3 = (if k_flag k = STB_TS_CLIENT then rtsp_ts_set_client_num (- 1) st2 else st2)"
  have st3: "rtspcliDATA st3 = rtspcliDATA st2" "rout st3 = rout st2" "g_rtsp_shandle st3 = g_rtsp_shandle st2"
      "g_guest_user_num st3 = g_guest_user_num st2" "g_local_ip st3 = g_local_ip st2" "same_config st2 st3"
    by (simp_all add: st3_def rtsp_ts_set_client_num_def Let_def same_config_def)
  define st' where st': "st' = st3\<lparr>g_rtsp_flag := (if RtspGetClientNum st3 \<noteq> 0 then 1 else 0)\<rparr>"
  have run: "RtspVlcContact b64 pton caddr pos evs st = Some (k, st')"
    using r st2(1) by (simp add: RtspVlcContact_def contact_exit_def st3_def [symmetric] st' Let_def)
  have e: "rtspcliDATA st' = rtspcliDATA st2" "rout st' = rout st2" "g_guest_user_num st' = g_guest_user_num st2"
    using st3 by (simp_all add: st')
  have "handle_ok st2" using st2(2) by (simp add: session_inv_def)
  then have "handle_ok st'" using st3 by (simp add: st' handle_ok_def)
  then have "session_inv others st'" by (intro session_inv_handle [OF st2(2)]) (simp_all add: e)
  moreover have "same_config st st'"
    using k same_config_settings [OF st2(3)] st3(6) by (auto simp: keeps_server_def same_config_def st')
  moreover have "RtspGetClientNum st3 \<noteq> 0 \<longleftrightarrow> (\<exists>j<5. bUsed (rtspcliDATA st' ! j))"
    using session_lengths [OF st2(2)] nth_image [of 5 "rtspcliDATA st2", symmetric]
    by (auto simp: RtspGetClientNum_def MAX_RTSP_CLIENT_NUM_def st3(1) e filter_empty_conv)
  moreover have "g_rtsp_flag st' = (if RtspGetClientNum st3 \<noteq> 0 then 1 else 0)" by (simp add: st')
  ultimately show ?thesis
    using run st2(4-6) k by (intro exI [of _ k] exI [of _ st']) (simp add: e keeps_server_def)
qed

subsection \<open>Playing without a password\<close>

lemma pattern_codes [code_unfold]:
  "chars ''OPTION'' = [0x4f, 0x50, 0x54, 0x49, 0x4f, 0x4e]"
  "chars ''DESCRIBE'' = [0x44, 0x45, 0x53, 0x43, 0x52, 0x49, 0x42, 0x45]"
  "chars ''SETUP'' = [0x53, 0x45, 0x54, 0x55, 0x50]"
  "chars ''PLAY'' = [0x50, 0x4c, 0x41, 0x59]"
  "chars ''PAUSE'' = [0x50, 0x41, 0x55, 0x53, 0x45]"
  "chars ''TEARDOWN'' = [0x54, 0x45, 0x41, 0x52, 0x44, 0x4f, 0x57, 0x4e]"
  "chars ''GET_PARAMETER'' = [0x47, 0x45, 0x54, 0x5f, 0x50, 0x41, 0x52, 0x41, 0x4d, 0x45, 0x54, 0x45, 0x52]"
  "chars ''SET_PARAMETER'' = [0x53, 0x45, 0x54, 0x5f, 0x50, 0x41, 0x52, 0x41, 0x4d, 0x45, 0x54, 0x45, 0x52]"
  "chars ''CSeq:'' = [0x43, 0x53, 0x65, 0x71, 0x3a]"
  "chars ''Transport:'' = [0x54, 0x72, 0x61, 0x6e, 0x73, 0x70, 0x6f, 0x72, 0x74, 0x3a]"
  "chars ''client_port='' = [0x63, 0x6c, 0x69, 0x65, 0x6e, 0x74, 0x5f, 0x70, 0x6f, 0x72, 0x74, 0x3d]"
  "chars ''/trackID='' = [0x2f, 0x74, 0x72, 0x61, 0x63, 0x6b, 0x49, 0x44, 0x3d]"
  "chars '' RTSP/'' = [0x20, 0x52, 0x54, 0x53, 0x50, 0x2f]"
  "chars ''DESCRIBE '' = [0x44, 0x45, 0x53, 0x43, 0x52, 0x49, 0x42, 0x45, 0x20]"
  "chars ''QuickTime'' = [0x51, 0x75, 0x69, 0x63, 0x6b, 0x54, 0x69, 0x6d, 0x65]"
  "chars ''.ts'' = [0x2e, 0x74, 0x73]"
  "chars ''timeout'' = [0x74, 0x69, 0x6d, 0x65, 0x6f, 0x75, 0x74]"
  "chars ''stream'' = [0x73, 0x74, 0x72, 0x65, 0x61, 0x6d]"
  "chars ''stream0'' = [0x73, 0x74, 0x72, 0x65, 0x61, 0x6d, 0x30]"
  by (simp_all add: chars_def)

definition describe_text :: "byte list" where
  "describe_text = chars ''DESCRIBE rtsp://10.0.0.9/stream0 RTSP/1.0'' @ crlf @ chars ''CSeq: 1'' @ crlf @ crlf"

definition setup_text :: "byte list" where
  "setup_text = chars ''SETUP /trackID=1 RTSP/1.0'' @ crlf @ chars ''CSeq: 2'' @ crlf
     @ chars ''Transport: UDP;client_port=5000-5001'' @ crlf @ crlf"

definition play_text :: "byte list" where
  "play_text = chars ''PLAY / RTSP/1.0'' @ crlf @ chars ''CSeq: 3'' @ crlf @ crlf"

text \<open>What the thread knows after each request, and the reply to the second.\<close>

definition msg1 :: STR_CLIENT_MSG where
  "msg1 = new_msg\<lparr>uiCseq := 1, iType := DESCRIBE, aucCSeqSrc := [0x31, 0x0d, 0, 0, 0, 0, 0, 0, 0, 0], ucCSeqSrcLen := 1\<rparr>"

definition msg2 :: STR_CLIENT_MSG where
  "msg2 = msg1\<lparr>uiCseq := 2, iType := SETUP, aucCSeqSrc := [0x32, 0x0d, 0, 0, 0, 0, 0, 0, 0, 0], roomid := 0\<rparr>"

definition setup_msg :: STR_CLIENT_MSG where
  "setup_msg = msg2\<lparr>aucTrans := chars ''UDP;client_port=5000-5001'' @ 0x0d # replicate 174 0, ucTransNum := 25,
     aucClientport := [chars ''5000-5001'' @ replicate 11 0, replicate 20 0, replicate 20 0], ucClientportLen := [9, 0, 0],
     timeused := 1\<rparr>"

definition setup_reply :: "byte list" where
  "setup_reply = chars ''RTSP/1.0 200 OK'' @ crlf @ chars ''Server: RRS 0.1'' @ crlf
     @ chars ''Transport: UDP;client_port=5000-50015000-5001'' @ crlf @ chars ''Content-Length: 0'' @ crlf
     @ chars ''Cache-Control: no-cache'' @ crlf @ chars ''Session: 11478'' @ crlf @ chars ''Cseq: 2'' @ crlf @ crlf"

definition msg3 :: STR_CLIENT_MSG where
  "msg3 = setup_msg\<lparr>uiCseq := 3, iType := PLAY, aucCSeqSrc := [0x33, 0x0d, 0, 0, 0, 0, 0, 0, 0, 0]\<rparr>"

lemma msg1_code: "GetVlcMsgType (describe_text @ [0]) (int (length describe_text)) new_msg = Some (DESCRIBE, msg1)"
  by code_simp
lemma msg2_code: "GetVlcMsgType (setup_text @ [0]) (int (length setup_text)) (msg1\<lparr>roomid := 0\<rparr>) = Some (SETUP, msg2)"
  by code_simp
lemma setup_code: "ResponseSetup (setup_text @ [0]) (int (length setup_text)) msg2 0
    = Some (setup_reply, setup_msg)"
  by code_simp
lemma msg3_code: "GetVlcMsgType (play_text @ [0]) (int (length play_text)) setup_msg = Some (PLAY, msg3)"
  by code_simp
lemma msg3_ports: "client_port msg3 0 = Some 5000 \<and> client_port msg3 1 = Some 0 \<and> roomid msg3 = 0"
  by code_simp
lemma texts: "list_all (\<lambda>t. 0 \<notin> set t \<and> length t < 200 \<and> empty_line t) [describe_text, setup_text, play_text]"
  by code_simp
lemma describe_room: "rtsp_describe_authentication describe_text (chars ''10.0.0.9'')
    \<lparr>d_flag = VLC_CLIENT, d_room = - 1, d_timeout = 0, d_url = []\<rparr>
  = Some (0, \<lparr>d_flag = VLC_CLIENT, d_room = 0, d_timeout = 0, d_url = chars ''rtsp://10.0.0.9:554/stream0''\<rparr>)"
  by code_simp

definition play_reply :: "byte list" where
  "play_reply = chars ''RTSP/1.0 200 OK'' @ crlf @ chars ''Server: RRS 0.1'' @ crlf @ chars ''Session: 11478'' @ crlf
       @ chars ''Range: npt=0.000- '' @ crlf @ chars ''Cseq: 3'' @ crlf @ crlf"

lemma play_code: "ResponsePlay msg3 = Some play_reply"
  by code_simp

lemma recv_array_end: "length t < 2 * TCP_BUFF_LEN \<Longrightarrow> recv_array t = (t @ [0]) @ replicate (2 * TCP_BUFF_LEN - length t - 1) 0"
  by (simp add: recv_array_def Suc_diff_Suc flip: replicate_Suc)

lemma text_facts:
  assumes "t \<in> {describe_text, setup_text, play_text}"
  shows "0 \<notin> set t" "length t < 2 * TCP_BUFF_LEN" "empty_line t" "cstr (recv_array t) = Some t"
    "collect (recv_array []) t = Some (Inr (recv_array t))"
proof -
  show t: "0 \<notin> set t" "length t < 2 * TCP_BUFF_LEN" "empty_line t" using assms texts by (auto simp: TCP_BUFF_LEN_def)
  show "cstr (recv_array t) = Some t" using t(1,2) by (rule cstr_array)
  show "collect (recv_array []) t = Some (Inr (recv_array t))" using t collect_text [of "[]" t] by simp
qed

lemma msg_arrays:
  "GetVlcMsgType (recv_array describe_text) (int (length describe_text)) new_msg = Some (DESCRIBE, msg1)"
  "GetVlcMsgType (recv_array setup_text) (int (length setup_text)) (msg1\<lparr>roomid := 0\<rparr>) = Some (SETUP, msg2)"
  "ResponseSetup (recv_array setup_text) (int (length setup_text)) msg2 0 = Some (setup_reply, setup_msg)"
  "GetVlcMsgType (recv_array play_text) (int (length play_text)) setup_msg = Some (PLAY, msg3)"
  using text_facts(2) [of describe_text] text_facts(2) [of setup_text] text_facts(2) [of play_text]
    belowD [OF GetVlcMsgType_below msg1_code] belowD [OF GetVlcMsgType_below msg2_code]
    belowD [OF ResponseSetup_below setup_code] belowD [OF GetVlcMsgType_below msg3_code]
  by (simp_all add: recv_array_end)

text \<open>
  C15: The password can be passed by: a client that has none is refused with the reply 401, but the refusal leaves the
  room of its request in the thread, so the \<^verbatim>\<open>SETUP\<close> and the \<^verbatim>\<open>PLAY\<close> it sends next are granted and the stream is sent to
  it, whatever user, password and realm are set.
\<close>
theorem password_bypassed:
  assumes inv: "session_inv others st" and pos: "pos < 5" and slot: "bUsed (rtspcliDATA st ! pos)"
      "r_client (rtspcliDATA st ! pos) = None" "client_type (rtspcliDATA st ! pos) \<noteq> INVALID_CLIENT"
    and free: "stream_client_get_free (rout st) \<noteq> None" and ip: "g_local_ip st = chars ''10.0.0.9''"
    and perm: "permissions (g_user_autentication st) = 1"
    and set: "login_setting (ev_cbuf env) (ev_seed env) \<lparr>nonce = [], url = []\<rparr> (g_user_autentication st) (chars ''DESCRIBE'')"
    and e: "env_grants (ev_open env)"
  shows "\<exists>k st' i. contact_run b64 pton caddr (g_local_ip st) pos
      (map (\<lambda>t. \<lparr>ev_recv = Received t, ev_now = now, ev_then = now, ev_env = env\<rparr>) [describe_text, setup_text, play_text])
      contact_begin st = Some (True, k, st')
    \<and> k_sent k = [refusal 1 (g_user_autentication st) (hex_md5 (ev_seed env)), setup_reply, play_reply]
    \<and> r_client (rtspcliDATA st' ! pos) = Some i \<and> slot_in_use i (rout st')
    \<and> play_addr pton caddr msg3 st = Some (video_addr (g_stream_client (rout st') ! i)) \<and> session_inv others st'"
proof -
  define g where "g = g_user_autentication st"
  define n where "n = hex_md5 (ev_seed env)"
  define u where "u = chars ''rtsp://10.0.0.9:554/stream0''"
  define ev where "ev t = \<lparr>ev_recv = Received t, ev_now = now, ev_then = now, ev_env = env\<rparr>" for t
  have len: "length (rtspcliDATA st) = 6" using inv by (rule session_lengths)
  have before: "before_recv (ev t) pos c st = Some (True, c)" if "k_need c = 0" for t c
    using that slot(3) pos len by (simp add: before_recv_def cli_at_nth)
  have pass: "contact_pass b64 pton caddr (g_local_ip st) (ev t) pos c st
      = handle_bytes b64 pton caddr (g_local_ip st) env pos t c st" if "k_need c = 0" for t c
    using that by (simp add: contact_pass_def before) (simp add: ev_def)
  have u: "length u < 128" by (simp add: u_def chars_def)
  have refused: "authenticationOK (ev_cbuf env) (ev_seed env) (chars ''DESCRIBE'') \<lparr>nonce = [], url = u\<rparr> g p 1
      = Some (- 1, \<lparr>nonce = n, url = u\<rparr>, Some (refusal 1 g n))" for p
    using fresh_client_refused [of "ev_cbuf env" "ev_seed env" "\<lparr>nonce = [], url = u\<rparr>" g "chars ''DESCRIBE''" p 1] set u
    by (simp add: login_setting_def n_def g_def)
  have new_room: "roomid new_msg = - 1" by (simp add: new_msg_def)
  define k1 where "k1 = contact_begin\<lparr>k_msg := msg1\<lparr>roomid := 0\<rparr>, k_aut := \<lparr>nonce = n, url = u\<rparr>,
      k_sent := [refusal 1 g n]\<rparr>"
  have p1: "handle_bytes b64 pton caddr (g_local_ip st) env pos describe_text contact_begin st = Some (True, k1, st)"
    using text_facts [of describe_text] msg_arrays(1) describe_room refused [of "recv_array describe_text"] perm new_room
    by (simp add: handle_bytes_def contact_begin_def recv_array_def [of "[]", simplified, symmetric] on_request_def
      method_codes on_describe_def Let_def ip u_def [symmetric] g_def [symmetric] send_to_def k1_def msg1_def VLC_CLIENT_def)
  define k2 where "k2 = k1\<lparr>k_msg := setup_msg, k_sent := [refusal 1 g n, setup_reply]\<rparr>"
  have p2: "handle_bytes b64 pton caddr (g_local_ip st) env pos setup_text k1 st = Some (True, k2, st)"
    using text_facts [of setup_text] msg_arrays(2,3)
    by (simp add: handle_bytes_def k1_def contact_begin_def recv_array_def [of "[]", simplified, symmetric] on_request_def
      method_codes send_to_def k2_def)
  obtain r s where s: "RtspAddClient pton (ev_open env) caddr pos msg3 st = Some (r, s)" "session_inv others s"
      "settings_part s = settings_part st" "r = - 1 \<longleftrightarrow> client_port msg3 0 = Some 0"
      "r \<noteq> - 1 \<longrightarrow> (\<exists>i. r_client (rtspcliDATA s ! pos) = Some i
        \<and> play_addr pton caddr msg3 st = Some (video_addr (g_stream_client (rout s) ! i)))"
    using RtspAddClient_inv [OF inv pos slot(1,2) _ e, of msg3 pton caddr] msg3_ports free by (auto simp: play_ready_def)
  obtain i where i: "r_client (rtspcliDATA s ! pos) = Some i"
      "play_addr pton caddr msg3 st = Some (video_addr (g_stream_client (rout s) ! i))" "r \<noteq> - 1"
    using s(4,5) msg3_ports by auto
  define s' where "s' = (if g_rtsp_flag s = 0 then s\<lparr>g_rtsp_flag := 1\<rparr> else s)"
  have s': "rtspcliDATA s' = rtspcliDATA s" "rout s' = rout s" "session_inv others s'"
    using session_inv_handle [OF s(2), of s'] s(2) by (auto simp: s'_def session_inv_def handle_ok_def)
  define k3 where "k3 = k2\<lparr>k_msg := msg3, k_sent := [refusal 1 g n, setup_reply, play_reply]\<rparr>"
  have p3: "handle_bytes b64 pton caddr (g_local_ip st) env pos play_text k2 st = Some (True, k3, s')"
    using text_facts [of play_text] msg_arrays(4) s(1) i(3) play_code
    by (simp add: handle_bytes_def k2_def k1_def contact_begin_def recv_array_def [of "[]", simplified, symmetric] on_request_def
      method_codes send_to_def k3_def s'_def)
  have need: "k_need contact_begin = 0" "k_need k1 = 0" "k_need k2 = 0" by (simp_all add: k1_def k2_def contact_begin_def)
  have "contact_run b64 pton caddr (g_local_ip st) pos (map ev [describe_text, setup_text, play_text]) contact_begin st
      = Some (True, k3, s')"
    by (simp add: pass need p1 p2 p3)
  moreover have "slot_in_use i (rout s')" using held_used(2) [OF s(2) _ i(1)] pos by (simp add: s')
  ultimately show ?thesis using i s' by (auto simp: ev_def k3_def g_def n_def)
qed

subsection \<open>Sizes of a description\<close>

lemma ConventNumberToString_dec:
  assumes "100 \<le> n" "n < 1000"
  shows "ConventNumberToString (int n) = dec n"
proof -
  define a b c where "a = n div 100" and "b = n div 10 mod 10" and "c = n mod 10"
  have abc: "1 \<le> a" "a < 10" "b < 10" "c < 10" "n = 100 * a + 10 * b + c"
  proof -
    have h: "n div 100 = n div 10 div 10" by (simp add: div_mult2_eq [symmetric])
    show "1 \<le> a" "a < 10" "b < 10" "c < 10" using assms by (simp_all add: a_def b_def c_def)
    show "n = 100 * a + 10 * b + c"
      using div_mult_mod_eq [of n 10] div_mult_mod_eq [of "n div 10" 10] unfolding a_def b_def c_def h by linarith
  qed
  have d: "int n div 10000 = 0" "int n mod 10000 div 1000 = 0" "int n mod 1000 div 100 = int a"
      "int n mod 100 div 10 = int b" "int n mod 10 = int c"
  proof -
    have i: "int n < 1000" "0 \<le> int n" using assms by simp_all
    show "int n div 10000 = 0" "int n mod 10000 div 1000 = 0" using i by simp_all
    show "int n mod 1000 div 100 = int a" using i by (simp add: a_def zdiv_int)
    show "int n mod 10 = int c" by (simp add: c_def zmod_int)
    have "n mod 100 = 10 * b + c" using mod_mult2_eq [of n 10 10] by (simp add: b_def c_def)
    then have "int n mod 100 = int (10 * b + c)" by (metis of_nat_numeral zmod_int)
    moreover have "(10 * b + c) div 10 = b" using abc(4) by simp
    ultimately show "int n mod 100 div 10 = int b" by (metis of_nat_numeral zdiv_int)
  qed
  have "unat (of_nat a :: byte) = a" using abc(2) using abc(2) by (simp add: unat_of_nat take_bit_nat_eq_self)
  then have nz: "(of_nat a :: byte) \<noteq> 0" using abc(1) by (metis unat_0 not_one_le_zero)
  have q: "n div 10 = 10 * a + b" "n mod 10 = c" "(10 * a + b) div 10 = a" "(10 * a + b) mod 10 = b" "b mod 10 = b"
  proof -
    show "n div 10 = 10 * a + b" using abc(5) c_def div_mult_mod_eq [of n 10] by linarith
    show "n mod 10 = c" by (simp add: c_def)
    show "(10 * a + b) div 10 = a" "(10 * a + b) mod 10 = b" "b mod 10 = b" using abc(3) by simp_all
  qed
  have "dec n = [0x30 + of_nat a, 0x30 + of_nat b, 0x30 + of_nat c]"
    using assms abc(1,2)
    by (simp add: dec.simps [of n] q) (simp add: dec.simps [of "10 * a + b"] q dec.simps [of a])
  then show ?thesis unfolding ConventNumberToString_def d using nz by (simp add: Let_def add.commute)
qed

lemma hex_length: "n < 16 ^ k \<Longrightarrow> 0 < k \<Longrightarrow> length (hex n) \<le> k"
proof (induction k arbitrary: n)
  case (Suc k)
  show ?case
  proof (cases "n < 16")
    case True
    then show ?thesis by (subst hex.simps) simp
  next
    case False
    then have "0 < k" using Suc.prems by (cases k) auto
    moreover have "n div 16 < 16 ^ k" using Suc.prems by (simp add: less_mult_imp_div_less)
    ultimately show ?thesis using Suc.IH [of "n div 16"] False by (simp add: length_hex_step)
  qed
qed simp

lemma hex04_length: "length (hex04 w) \<le> 8"
proof -
  have "unat w < 16 ^ 8" using unsigned_less [of w] by simp
  then show ?thesis using hex_length [of "unat w" 8] by (simp add: hex04_def Let_def)
qed

lemma dec_u_length: "length (dec_u w) \<le> 10"
proof -
  have "unat w < 2 ^ 32" using unsigned_less [of w] by simp
  then have "unat w < 10 ^ 10" by (simp add: less_trans)
  then show ?thesis using dec_length [of "unat w" 10] by (simp add: dec_u_def)
qed

lemma describe_body_length:
  assumes "length localip \<le> 15" "length ip \<le> 15" "length info \<le> 177" "length (fst (snd audio)) \<le> 8"
  shows "100 \<le> length (describe_body localip ip vport aport info audio)"
    "length (describe_body localip ip vport aport info audio) < 1000"
proof -
  have k: "length (dec RTSP_LISTEN_PORT) = 3" "length (dec VIDEO_TRACKID) = 1" "length (dec AUDIO_TRACKID) = 1"
    by (simp_all add: dec.simps RTSP_LISTEN_PORT_def VIDEO_TRACKID_def AUDIO_TRACKID_def)
  obtain a c r where audio: "audio = (a, c, r)" by (cases audio)
  have v: "length (dec_u (of_int vport)) \<le> 10" "length (dec_u (of_int aport)) \<le> 10" "length (dec_int (sint r)) \<le> 11"
    using dec_u_length seq_text by blast+
  show "100 \<le> length (describe_body localip ip vport aport info audio)"
    by (simp add: describe_body_def audio crlf_def chars_def)
  show "length (describe_body localip ip vport aport info audio) < 1000"
    using assms v by (simp add: describe_body_def audio k crlf_def chars_def)
qed

text \<open>What is kept of the parameter sets fits its arrays.\<close>

definition sets_sized :: "sdp_state \<Rightarrow> bool" where
  "sets_sized s \<longleftrightarrow> sdp_ok s \<and> list_all (\<lambda>v. sps_info_len v \<le> 64 \<and> pps_info_len v \<le> 64) (g_video_sinfo s)"

text \<open>The base64 routine writes four characters for three bytes and returns their number, as its callers rely on.\<close>

definition b64_sized :: "(byte list \<Rightarrow> int \<Rightarrow> int \<times> byte list) \<Rightarrow> bool" where
  "b64_sized b64 \<longleftrightarrow> (\<forall>s k t. length s \<le> 64 \<longrightarrow> b64 s 256 = (k, t) \<longrightarrow> k = int (length t) \<and> length t \<le> 4 * ((length s + 2) div 3))"

lemma b64_text_sized:
  assumes "b64_sized b64" "length s \<le> 64"
  shows "\<exists>t. b64_text b64 s = Some (int (length t), t) \<and> length t \<le> 88"
proof -
  obtain k t where kt: "b64 s 256 = (k, t)" by fastforce
  then have t: "k = int (length t)" "length t \<le> 4 * ((length s + 2) div 3)" using assms by (auto simp: b64_sized_def)
  then have "length t \<le> 88" using assms(2) by linarith
  then show ?thesis using kt t(1) by (simp add: b64_text_def memcpy_def)
qed

lemma video_sdp_sized:
  assumes "sets_sized s" "b64_sized b64" "0 \<le> i" "i < 4"
  shows "\<exists>r t. rtsp_stream_get_video_sdp_info b64 i s = Some (r, t) \<and> length t \<le> 177 \<and> (r = 0 \<or> r = - 1)"
proof -
  have ok: "sdp_mutex s" "length (g_video_sinfo s) = 4" using assms(1) by (auto simp: sets_sized_def sdp_ok_def)
  define v where "v = g_video_sinfo s ! nat i"
  have at: "peek (g_video_sinfo s) i = Some v" using ok assms(3,4) by (simp add: peek_def v_def)
  have "v \<in> set (g_video_sinfo s)" using ok assms(3,4) by (simp add: v_def)
  then have v: "length (sps_info v) = 64" "length (pps_info v) = 64" "unat (sps_info_len v) \<le> 64" "unat (pps_info_len v) \<le> 64"
    using assms(1) by (auto simp: sets_sized_def sdp_ok_def list_all_iff word_le_nat_alt)
  have m: "\<exists>str'. memcpy (replicate 128 0) 0 x 0 (uint n) = Some str' \<and> length str' = 128"
    if "length x = 64" "unat n \<le> 64" for x and n :: u32
    using memcpy_nat [of 0 "unat n" "replicate 128 0" 0 x] that by (auto dest!: memcpy_length)
  obtain s1 where s1: "memcpy (replicate 128 0) 0 (sps_info v) 0 (uint (sps_info_len v)) = Some s1" "length s1 = 128"
    using m [OF v(1,3)] by blast
  obtain s2 where s2: "memcpy (replicate 128 0) 0 (pps_info v) 0 (uint (pps_info_len v)) = Some s2" "length s2 = 128"
    using m [OF v(2,4)] by blast
  obtain t1 where t1: "b64_text b64 (take (unat (sps_info_len v)) s1) = Some (int (length t1), t1)" "length t1 \<le> 88"
    using b64_text_sized [OF assms(2), of "take (unat (sps_info_len v)) s1"] v(3) s1(2) by auto
  obtain t2 where t2: "b64_text b64 (take (unat (pps_info_len v)) s2) = Some (int (length t2), t2)" "length t2 \<le> 88"
    using b64_text_sized [OF assms(2), of "take (unat (pps_info_len v)) s2"] v(4) s2(2) by auto
  show ?thesis
  proof (cases "sdp_flag v = 0")
    case True
    then show ?thesis
      using assms(4) by (simp add: rtsp_stream_get_video_sdp_info_def MAX_VIDEO_SDP_NUM_def rtsp_porting_get_sps_info_def ok(1) at)
  next
    case False
    have g: "rtsp_porting_get_sps_info (replicate 128 0) i s = Some (0, s1, sps_info_len v)"
      "rtsp_porting_get_pps_info (replicate 128 0) n i s = Some (0, s2, pps_info_len v)" for n
      using s1(1) s2(1) False by (simp_all add: rtsp_porting_get_sps_info_def rtsp_porting_get_pps_info_def ok(1) at)
    show ?thesis
      using assms(4) t1 t2 by (simp add: rtsp_stream_get_video_sdp_info_def MAX_VIDEO_SDP_NUM_def g)
  qed
qed

definition ips_sized :: "rtsp_state \<Rightarrow> bool" where
  "ips_sized st \<longleftrightarrow> (case g_rtsp_shandle st of None \<Rightarrow> True | Some h \<Rightarrow> list_all (\<lambda>t. length t \<le> 15) (mult_ip (rtsp_config h)))"

text \<open>
  C18: The reply to \<^verbatim>\<open>DESCRIBE\<close> fits its arrays whatever the parameter sets, the settings and the sound are: the addresses
  stay below 16 bytes, the body below 1000 and the head below 1400; the head announces the exact length of the body
  behind it and repeats the number of the request.
\<close>
theorem describe_reply_fits:
  assumes "handle_ok st" "ips_sized st" "sets_sized (sdp st)" "b64_sized b64" "length localip \<le> 15"
    and "roomid msg = - 1 \<or> 0 \<le> roomid msg \<and> roomid msg < 4" "cseq_echo msg = Some (dec n)" "length (dec n) \<le> 9"
  shows "\<exists>r ts. ResponseDescribe b64 localip auth msg st = Some (r, ts)
    \<and> (ts = [not_found msg] \<and> r = - 1
       \<or> (\<exists>body. length body < 1000 \<and> r = int (length (concat ts))
           \<and> ts = [chars ''RTSP/1.0 200 OK'' @ crlf @ chars ''Content-type: application/sdp'' @ crlf @ chars ''Server: RRS 0.1''
               @ crlf @ chars ''Content-Length: '' @ dec (length body) @ crlf @ chars ''Cache-Control: no-cache'' @ crlf
               @ chars ''Cseq: '' @ dec n @ crlf @ crlf, body]))"
proof (cases "roomid msg = - 1")
  case True
  then show ?thesis by (simp add: ResponseDescribe_def)
next
  case False
  then have room: "0 \<le> roomid msg" "roomid msg < 4" using assms(6) by auto
  have s: "sdp_mutex (sdp st)" "length (g_audio_sinfo (sdp st)) = 4" using assms(3) by (auto simp: sets_sized_def sdp_ok_def)
  obtain a c r0 where audio: "rtsp_stream_get_audio_sinfo (roomid msg) 48000 (sdp st) = Some (a, c, r0)" "length c \<le> 8"
    using s room hex04_length [of "audio_config (g_audio_sinfo (sdp st) ! nat (roomid msg))"]
    by (cases "audio_config (g_audio_sinfo (sdp st) ! nat (roomid msg)) = 0")
      (simp_all add: rtsp_stream_get_audio_sinfo_def peek_def)
  obtain mult ip vp ap where g: "stream_get_rtsp_ginfo (roomid msg) st = Some (0, mult, ip, vp, ap)"
    using ginfo_ok [OF assms(1) room] by blast
  have ip: "length ip \<le> 15"
  proof -
    obtain h where h: "g_rtsp_shandle st = Some h" "length (mult_ip (rtsp_config h)) = 4"
      using assms(1) by (auto simp: handle_ok_def split: option.splits)
    then have "length (mult_ip (rtsp_config h) ! nat (roomid msg)) \<le> 15"
      using assms(2) room by (simp add: ips_sized_def list_all_length)
    then show ?thesis using g h(1) by (auto simp: stream_get_rtsp_ginfo_def Option.bind_eq_Some_conv peek_def split: if_splits)
  qed
  obtain vr info where v: "rtsp_stream_get_video_sdp_info b64 (roomid msg) (sdp st) = Some (vr, info)" "length info \<le> 177"
    using video_sdp_sized [OF assms(3,4) room] by blast
  define ip' where "ip' = (if mult = 0 \<or> ip = [] then localip else ip)"
  have ip': "length ip' \<le> 15" using ip assms(5) by (simp add: ip'_def)
  define body where "body = describe_body localip ip' vp ap info (a, c, r0)"
  have body: "100 \<le> length body" "length body < 1000"
    using describe_body_length [OF assms(5) ip' v(2), of "(a, c, r0)"] audio(2) by (simp_all add: body_def)
  define head where "head = chars ''RTSP/1.0 200 OK'' @ crlf @ chars ''Content-type: application/sdp'' @ crlf @ chars ''Server: RRS 0.1''
               @ crlf @ chars ''Content-Length: '' @ dec (length body) @ crlf @ chars ''Cache-Control: no-cache'' @ crlf
               @ chars ''Cseq: '' @ dec n @ crlf @ crlf"
  have digits: "0 \<notin> set (dec k)" for k using dec_digits [of k] digits_not_special by blast
  have "0 \<notin> set head" using digits by (simp add: head_def crlf_def chars_def)
  moreover have "length (dec (length body)) \<le> 3" using dec_length [of "length body" 3] body by simp
  then have "length head < 1400" using assms(8) by (simp add: head_def crlf_def chars_def)
  ultimately have "describe_head (length body) msg = Some head"
    using assms(7) ConventNumberToString_dec [OF body] reply_plain [of head] by (simp add: describe_head_def head_def)
  then show ?thesis
    using False audio g v ip' assms(5) body
    by (simp add: ResponseDescribe_def Let_def ip'_def [symmetric] body_def [symmetric] head_def [symmetric])
qed

subsection \<open>Witnesses\<close>

lemma b64_encode_length: "length (b64_encode s) = 4 * ((length s + 2) div 3)"
proof (induction s rule: b64_encode.induct)
  case (4 a b c r)
  have "(length (a # b # c # r) + 2) div 3 = (length r + 2) div 3 + 1"
    using div_add_self2 [of 3 "length r + 2"] by (simp add: add.commute)
  then show ?case using "4.IH" by simp
qed auto

lemma b64_lib_sized: "b64_sized b64_lib"
  by (auto simp: b64_sized_def b64_lib_def b64_encode_length split: if_splits)

definition sample_event :: "recv_answer \<Rightarrow> contact_event" where
  "sample_event r = \<lparr>ev_recv = r, ev_now = 0, ev_then = 0,
     ev_env = \<lparr>ev_cbuf = replicate 64 0, ev_seed = replicate 100 0x31, ev_times = (1, 2), ev_open = sample_env\<rparr>\<rparr>"

lemma one_session_slot:
  "0 < length (rtspcliDATA one_session) \<and> client_type (rtspcliDATA one_session ! 0) \<noteq> INVALID_CLIENT
    \<and> r_client (rtspcliDATA one_session ! 0) = None \<and> stream_client_get_free (rout one_session) \<noteq> None"
  by code_simp

lemma contact_begin_values:
  "k_need contact_begin = 0" "k_recv contact_begin = recv_array []" "k_flag contact_begin = VLC_CLIENT"
  by (simp_all add: contact_begin_def recv_array_def)

text \<open>A request cut in the middle of its sequence number.\<close>

lemma play_pieces:
  "let a = take 22 play_text; b = drop 22 play_text
   in 0 \<notin> set (a @ b) \<and> length (a @ b) < 200 \<and> \<not> empty_line a \<and> empty_line b \<and> a @ b = play_text"
  by code_simp

lemma request_in_pieces_witness:
  "contact_run b64_lib (\<lambda>_. 0) (sample_addr 40000) (chars ''1'') 0
     [sample_event Again\<lparr>ev_recv := Received (take 22 play_text)\<rparr>,
      sample_event Again\<lparr>ev_recv := Received (drop 22 play_text)\<rparr>] contact_begin one_session
   = contact_run b64_lib (\<lambda>_. 0) (sample_addr 40000) (chars ''1'') 0
     [sample_event Again\<lparr>ev_recv := Received play_text\<rparr>] contact_begin one_session"
proof -
  have len: "length (take 22 play_text @ drop 22 play_text) \<le> TCP_BUFF_LEN"
    using texts by (simp add: TCP_BUFF_LEN_def)
  have p: "0 \<notin> set (take 22 play_text @ drop 22 play_text)" "\<not> empty_line (take 22 play_text)" "empty_line (drop 22 play_text)"
    using play_pieces unfolding Let_def by blast+
  have s: "0 < length (rtspcliDATA one_session)" "client_type (rtspcliDATA one_session ! 0) \<noteq> INVALID_CLIENT"
    using one_session_slot by simp_all
  show ?thesis
    using request_in_pieces [OF p(1) len p(2) contact_begin_values(1,2) s, of b64_lib "\<lambda>_. 0" "sample_addr 40000" "chars ''1''"
        "sample_event Again" "sample_event Again"]
    unfolding append_take_drop_id if_P [OF p(3)] .
qed

text \<open>A client that asks for the options, waits and leaves.\<close>

definition option_text :: "byte list" where
  "option_text = chars ''OPTIONS * RTSP/1.0'' @ crlf @ chars ''CSeq: 1'' @ crlf @ crlf"

definition option_msg :: STR_CLIENT_MSG where
  "option_msg = new_msg\<lparr>uiCseq := 1, iType := OPTION, aucCSeqSrc := [0x31, 0x0d, 0, 0, 0, 0, 0, 0, 0, 0], ucCSeqSrcLen := 1\<rparr>"

lemma option_code:
  "GetVlcMsgType (option_text @ [0]) (int (length option_text)) new_msg = Some (OPTION, option_msg)"
  "ResponseOption option_msg \<noteq> None" "0 \<notin> set option_text \<and> length option_text < 200 \<and> empty_line option_text"
  by code_simp+

lemma option_facts:
  "collect (recv_array []) option_text = Some (Inr (recv_array option_text))"
  "cstr (recv_array option_text) = Some option_text" "length option_text \<le> TCP_BUFF_LEN"
  "GetVlcMsgType (recv_array option_text) (int (length option_text)) new_msg = Some (OPTION, option_msg)"
proof -
  have t: "0 \<notin> set option_text" "length option_text < 2 * TCP_BUFF_LEN" "empty_line option_text"
    using option_code(3) by (auto simp: TCP_BUFF_LEN_def)
  show "collect (recv_array []) option_text = Some (Inr (recv_array option_text))"
    using t collect_text [of "[]" option_text] by simp
  show "cstr (recv_array option_text) = Some option_text" using t(1,2) by (rule cstr_array)
  show "length option_text \<le> TCP_BUFF_LEN" using option_code(3) by (simp add: TCP_BUFF_LEN_def)
  show "GetVlcMsgType (recv_array option_text) (int (length option_text)) new_msg = Some (OPTION, option_msg)"
    using t(2) belowD [OF GetVlcMsgType_below option_code(1)] by (simp add: recv_array_end)
qed

lemma thread_returns_slot_witness:
  "\<exists>k st'. RtspVlcContact b64_lib (\<lambda>_. 0) (sample_addr 40000) 0
       [sample_event (Received option_text), sample_event Again, sample_event Ended] one_session = Some (k, st')
     \<and> session_inv {} st' \<and> \<not> bUsed (rtspcliDATA st' ! 0) \<and> r_client (rtspcliDATA st' ! 0) = None"
proof -
  define ip where "ip = g_local_ip one_session"
  define evs where "evs = [sample_event (Received option_text), sample_event Again, sample_event Ended]"
  obtain t where t: "ResponseOption option_msg = Some t" using option_code(2) by blast
  have before: "before_recv e 0 k one_session = Some (True, k)" if "k_need k = 0" for e k
    using that one_session_slot by (simp add: before_recv_def cli_at_nth)
  define k1 where "k1 = contact_begin\<lparr>k_msg := option_msg, k_sent := [t]\<rparr>"
  have start: "k_need contact_begin = 0" "k_recv contact_begin = recv_array []" "k_msg contact_begin = new_msg"
      "k_sent contact_begin = []" "recv_array [] = replicate (2 * TCP_BUFF_LEN) 0"
    by (simp_all add: contact_begin_def recv_array_def)
  have need: "k_need k1 = 0" by (simp add: k1_def start)
  have p: "contact_pass b64_lib (\<lambda>_. 0) (sample_addr 40000) ip (sample_event (Received option_text)) 0 contact_begin one_session
        = Some (True, k1, one_session)"
      "contact_pass b64_lib (\<lambda>_. 0) (sample_addr 40000) ip (sample_event Again) 0 k1 one_session = Some (True, k1, one_session)"
    using option_facts t
    by (simp_all add: contact_pass_def before need start(1-4) sample_event_def handle_bytes_def on_request_def method_codes
        send_to_def k1_def) (simp_all add: contact_begin_def)
  have zero: "cstr (recv_array []) = Some []" by (simp add: start(5) cstr_def takeWhile_replicate TCP_BUFF_LEN_def)
  have "polite (sample_event r) 0 k one_session" for r k
    using one_session_slot by (simp add: polite_def) (simp add: sample_event_def sample_env_def env_grants_def)
  moreover have "fitting b64_lib ip (sample_event (Received option_text)) 0 contact_begin one_session"
    using option_facts t zero
    by (simp add: fitting_def before start(1-4) sample_event_def answered_def method_codes TCP_BUFF_LEN_def)
  moreover have "fitting b64_lib ip (sample_event Again) 0 k1 one_session" "fitting b64_lib ip (sample_event Ended) 0 k1 one_session"
    by (simp_all add: fitting_def before need) (simp_all add: sample_event_def)
  ultimately have "polite_run b64_lib (\<lambda>_. 0) (sample_addr 40000) ip 0 evs contact_begin one_session"
    using p by (simp add: evs_def) (simp split: option.split bool.split prod.split)
  then show ?thesis
    using thread_returns_slot [OF one_session_inv, of 0 b64_lib "\<lambda>_. 0" "sample_addr 40000" evs] one_session_value
    unfolding ip_def evs_def by auto
qed

text \<open>The server with one session, a password and the address of the requests.\<close>

definition guarded :: rtsp_state where
  "guarded = one_session\<lparr>g_local_ip := chars ''10.0.0.9'', g_user_autentication := login_user\<lparr>permissions := 1\<rparr>\<rparr>"

lemma password_bypassed_witness:
  "\<exists>k st' i. contact_run b64_lib (\<lambda>_. 0) (sample_addr 40000) (chars ''10.0.0.9'') 0
      (map (\<lambda>t. \<lparr>ev_recv = Received t, ev_now = 0, ev_then = 0, ev_env = ev_env (sample_event Again)\<rparr>)
         [describe_text, setup_text, play_text]) contact_begin guarded = Some (True, k, st')
    \<and> r_client (rtspcliDATA st' ! 0) = Some i \<and> slot_in_use i (rout st')"
proof -
  have h: "handle_ok one_session" using one_session_inv by (simp add: session_inv_def)
  have inv: "session_inv {} guarded"
    by (rule session_inv_handle [OF one_session_inv])
      (use h in \<open>simp_all add: guarded_def handle_ok_def chars_def\<close>)
  have s: "login_setting (ev_cbuf (ev_env (sample_event Again))) (ev_seed (ev_env (sample_event Again)))
      \<lparr>nonce = [], url = []\<rparr> (g_user_autentication guarded) (chars ''DESCRIBE'')"
    by (simp add: login_setting_def sample_event_def guarded_def login_user_def name_sizes)
  have e: "env_grants (ev_open (ev_env (sample_event Again)))" by (simp add: sample_event_def sample_env_def env_grants_def)
  have g: "rtspcliDATA guarded = rtspcliDATA one_session" "rout guarded = rout one_session"
    "g_local_ip guarded = chars ''10.0.0.9''" "permissions (g_user_autentication guarded) = 1"
    by (simp_all add: guarded_def)
  have slot: "bUsed (rtspcliDATA guarded ! 0)" "r_client (rtspcliDATA guarded ! 0) = None"
      "client_type (rtspcliDATA guarded ! 0) \<noteq> INVALID_CLIENT" "stream_client_get_free (rout guarded) \<noteq> None"
    using one_session_slot one_session_value unfolding g by blast+
  show ?thesis
    using password_bypassed [OF inv _ slot g(3,4) s e, of b64_lib "\<lambda>_. 0" "sample_addr 40000" 0] unfolding g(3) by auto
qed

lemma msg2_echo: "cseq_echo msg2 = Some (dec 2) \<and> roomid msg2 = 0 \<and> length (dec 2) \<le> 9"
proof -
  have "cseq_echo msg2 = Some [0x32] \<and> roomid msg2 = 0" by code_simp
  moreover have "dec 2 = [0x32]" by (simp add: dec.simps)
  ultimately show ?thesis by simp
qed

text \<open>The server while the encoder sends, with the parameter sets of the first channel known.\<close>

definition described :: rtsp_state where
  "described = rtsp_begin\<lparr>g_rtsp_is_active := 1, sdp := (sdp rtsp_begin)\<lparr>g_video_sinfo := (g_video_sinfo (sdp rtsp_begin))[0 :=
     \<lparr>v_width = 1280, v_height = 720, sdp_flag = 1, sps_info = sample_sps @ replicate 54 0, sps_info_len = 10,
      pps_info = sample_pps @ replicate 60 0, pps_info_len = 4\<rparr>]\<rparr>\<rparr>"

lemma described_sends:
  "case ResponseDescribe b64_lib (chars ''10.0.0.9'') 0 msg2 described of None \<Rightarrow> False | Some (r, ts) \<Rightarrow> length ts = 2"
  "handle_ok described \<and> ips_sized described" "sets_sized (sdp described)"
  by code_simp+

lemma describe_reply_fits_witness:
  "\<exists>r head body. ResponseDescribe b64_lib (chars ''10.0.0.9'') 0 msg2 described = Some (r, [head, body])
    \<and> length body < 1000 \<and> r = int (length head + length body)"
proof -
  have h: "handle_ok described" "ips_sized described" using described_sends(2) by simp_all
  have l: "length (chars ''10.0.0.9'') \<le> 15" by (simp add: chars_def)
  have room: "roomid msg2 = - 1 \<or> 0 \<le> roomid msg2 \<and> roomid msg2 < 4" using msg2_echo by simp
  show ?thesis
    using describe_reply_fits [OF h described_sends(3) b64_lib_sized l room, of 2 0] msg2_echo described_sends(1)
    by (auto split: option.splits)
qed

end
