(* ===== verification/RtpPacket.thy ===== *)
theory RtpPacket
  imports Prelude
begin

section \<open>Packet layout (reach\_share/reach\_rtp\_struct.h, reach\_rtp\_build.h, reach\_udp\_recv.h)\<close>

text \<open>
  The C structs that the sender overlays on its send buffer and the receiver on its receive buffer,
  and their bytes.  Bit fields are laid out from the least significant bit, as gcc does on the
  little-endian targets of the project, and every multi-byte field is stored with
  \<^verbatim>\<open>htons\<close>/\<^verbatim>\<open>htonl\<close>; the records hold the values before that conversion.  A packet is

  \<^verbatim>\<open>0..11 RTP header | 12..15 extension head | 16..27 frame head | 28.. payload\<close>.
\<close>

subsection \<open>Network byte order\<close>

definition be16 :: "u16 \<Rightarrow> byte list" where
  "be16 x = [ucast (drop_bit 8 x), ucast x]"

definition be32 :: "u32 \<Rightarrow> byte list" where
  "be32 x = [ucast (drop_bit 24 x), ucast (drop_bit 16 x), ucast (drop_bit 8 x), ucast x]"

definition rd16 :: "byte list \<Rightarrow> nat \<Rightarrow> u16" where
  "rd16 b i = push_bit 8 (ucast (b ! i)) OR ucast (b ! (i + 1))"

definition rd32 :: "byte list \<Rightarrow> nat \<Rightarrow> u32" where
  "rd32 b i = push_bit 24 (ucast (b ! i)) OR push_bit 16 (ucast (b ! (i + 1)))
     OR push_bit 8 (ucast (b ! (i + 2))) OR ucast (b ! (i + 3))"

subsection \<open>Structs\<close>

record US_RTP_FIXED_HEADER =
  csrc_len :: byte
  extension :: byte
  padding :: byte
  version :: byte
  payload :: byte
  marker :: byte
  seq_no :: u16
  timestamp :: u32
  ssrc :: u32

definition pack_rtp :: "US_RTP_FIXED_HEADER \<Rightarrow> byte list" where
  "pack_rtp h =
     [(csrc_len h AND 0xF) OR push_bit 4 (extension h AND 1) OR push_bit 5 (padding h AND 1)
        OR push_bit 6 (version h AND 3),
      (payload h AND 0x7F) OR push_bit 7 (marker h AND 1)]
     @ be16 (seq_no h) @ be32 (timestamp h) @ be32 (ssrc h)"

record US_FRAMEHEAD =
  codec :: byte
  samplerate :: byte
  framerate :: byte
  width :: u16
  height :: u16
  Iframe :: byte
  reserve :: byte
  framelength :: u32

definition pack_frame :: "US_FRAMEHEAD \<Rightarrow> byte list" where
  "pack_frame f =
     [(codec f AND 0xF) OR push_bit 4 (samplerate f AND 0xF), framerate f]
     @ be16 (width f) @ be16 (height f) @ [Iframe f, reserve f] @ be32 (framelength f)"

text \<open>\<^verbatim>\<open>us_rtp_debug_head_t\<close>: \<^verbatim>\<open>profile_defined = htons(0), length = htons(3)\<close>.\<close>

definition pack_debug :: "byte list" where
  "pack_debug = be16 0 @ be16 3"

text \<open>The first 28 bytes of a send buffer.\<close>

definition pack_head :: "US_RTP_FIXED_HEADER \<Rightarrow> US_FRAMEHEAD \<Rightarrow> byte list" where
  "pack_head h f = pack_rtp h @ pack_debug @ pack_frame f"

definition fu_indicator :: "byte \<Rightarrow> byte \<Rightarrow> byte \<Rightarrow> byte" where
  \<comment> \<open>\<^verbatim>\<open>US_FU_INDICATOR\<close>: TYPE:5, NRI:2, F:1\<close>
  "fu_indicator ty nri f = (ty AND 0x1F) OR push_bit 5 (nri AND 3) OR push_bit 7 (f AND 1)"

definition fu_header :: "byte \<Rightarrow> byte \<Rightarrow> byte \<Rightarrow> byte \<Rightarrow> byte" where
  \<comment> \<open>\<^verbatim>\<open>US_FU_HEADER\<close>: TYPE:5, R:1, E:1, S:1\<close>
  "fu_header ty r e s =
     (ty AND 0x1F) OR push_bit 5 (r AND 1) OR push_bit 6 (e AND 1) OR push_bit 7 (s AND 1)"

subsection \<open>Reading the fields back\<close>

text \<open>Total on buffers of at least 28 bytes, which is what every reader has.\<close>

definition rx_seq_no :: "byte list \<Rightarrow> u16" where "rx_seq_no b = rd16 b 2"
definition rx_timestamp :: "byte list \<Rightarrow> u32" where "rx_timestamp b = rd32 b 4"

definition rx_frame :: "byte list \<Rightarrow> US_FRAMEHEAD" where
  "rx_frame b = \<lparr>codec = b ! 16 AND 0xF, samplerate = drop_bit 4 (b ! 16), framerate = b ! 17,
     width = rd16 b 18, height = rd16 b 20, Iframe = b ! 22, reserve = b ! 23,
     framelength = rd32 b 24\<rparr>"

definition fu_type :: "byte \<Rightarrow> byte" where "fu_type b = b AND 0x1F"
definition fu_nri :: "byte \<Rightarrow> byte" where "fu_nri b = drop_bit 5 b AND 3"
definition fu_f :: "byte \<Rightarrow> byte" where "fu_f b = drop_bit 7 b AND 1"
definition fu_e :: "byte \<Rightarrow> byte" where "fu_e b = drop_bit 6 b AND 1"
definition fu_s :: "byte \<Rightarrow> byte" where "fu_s b = drop_bit 7 b AND 1"

subsection \<open>Lengths and round trips\<close>

named_theorems pkt_simps \<open>layout of packets\<close>

lemma length_be [pkt_simps]: "length (be16 x) = 2" "length (be32 y) = 4"
  by (simp_all add: be16_def be32_def)

lemma length_pack [pkt_simps]:
  "length (pack_rtp h) = 12" "length (pack_frame f) = 12" "length pack_debug = 4"
  "length (pack_head h f) = 28"
  by (simp_all add: pack_rtp_def pack_frame_def pack_debug_def pack_head_def pkt_simps)

lemma join16: "push_bit 8 (ucast (ucast (drop_bit 8 x) :: byte)) OR ucast (ucast x :: byte) = (x :: u16)"
  by (rule bit_word_eqI) (auto simp: bit_simps)

lemma join32:
  "push_bit 24 (ucast (ucast (drop_bit 24 x) :: byte))
     OR push_bit 16 (ucast (ucast (drop_bit 16 x) :: byte))
     OR push_bit 8 (ucast (ucast (drop_bit 8 x) :: byte)) OR ucast (ucast x :: byte) = (x :: u32)"
proof (rule bit_word_eqI)
  fix n
  assume n: "n < LENGTH(32)"
  consider "n < 8" | "8 \<le> n \<and> n < 16" | "16 \<le> n \<and> n < 24" | "24 \<le> n" by linarith
  then show "bit (push_bit 24 (ucast (ucast (drop_bit 24 x) :: byte))
     OR push_bit 16 (ucast (ucast (drop_bit 16 x) :: byte))
     OR push_bit 8 (ucast (ucast (drop_bit 8 x) :: byte)) OR ucast (ucast x :: byte) :: u32) n = bit x n"
    using n by cases (auto simp: bit_simps)
qed

lemma rd16_be16: "rd16 (pre @ be16 x @ post) (length pre) = x"
  by (simp add: rd16_def be16_def nth_append join16)

lemma rd32_be32: "rd32 (pre @ be32 x @ post) (length pre) = x"
  by (simp add: rd32_def be32_def nth_append join32)

lemma mask_byte:
  "(x :: byte) AND 0xF = take_bit 4 x" "x AND 0x1F = take_bit 5 x" "x AND 3 = take_bit 2 x"
  by (simp_all add: take_bit_eq_mask mask_numeral)

lemma nibble:
  assumes "x < 16" "y < (16 :: byte)"
  shows "((x AND 0xF) OR push_bit 4 (y AND 0xF)) AND 0xF = x"
    and "drop_bit 4 ((x AND 0xF) OR push_bit 4 (y AND 0xF)) = y"
proof -
  have "((x AND 0xF) OR push_bit 4 (y AND 0xF)) AND 0xF = take_bit 4 x"
    "drop_bit 4 ((x AND 0xF) OR push_bit 4 (y AND 0xF)) = take_bit 4 y"
    unfolding mask_byte by (rule bit_word_eqI, auto simp: bit_simps)+
  then show "((x AND 0xF) OR push_bit 4 (y AND 0xF)) AND 0xF = x"
    "drop_bit 4 ((x AND 0xF) OR push_bit 4 (y AND 0xF)) = y"
    using assms by (simp_all add: take_bit_eq_mod mod_word_less)
qed

text \<open>What the receiver reads from a packet is what the sender wrote into it.\<close>

lemma rx_seq_no_pack [pkt_simps]: "rx_seq_no (pack_head h f @ p) = seq_no h"
  unfolding rx_seq_no_def
  using rd16_be16 [of "take 2 (pack_rtp h)" "seq_no h"
      "be32 (timestamp h) @ be32 (ssrc h) @ pack_debug @ pack_frame f @ p"]
  by (simp add: pack_head_def pack_rtp_def numeral_2_eq_2)

lemma rx_timestamp_pack [pkt_simps]: "rx_timestamp (pack_head h f @ p) = timestamp h"
  unfolding rx_timestamp_def
  using rd32_be32 [of "take 4 (pack_rtp h)" "timestamp h"
      "be32 (ssrc h) @ pack_debug @ pack_frame f @ p"]
  by (simp add: pack_head_def pack_rtp_def be16_def eval_nat_numeral)

lemma rx_frame_pack [pkt_simps]:
  assumes "codec f < 16" "samplerate f < 16"
  shows "rx_frame (pack_head h f @ p) = f"
proof -
  have "rd16 (pack_head h f @ p) 18 = width f"
    using rd16_be16 [of "pack_rtp h @ pack_debug @ take 2 (pack_frame f)" "width f"
        "drop 4 (pack_frame f) @ p"]
    by (simp add: pack_head_def pack_frame_def pkt_simps)
  moreover have "rd16 (pack_head h f @ p) 20 = height f"
    using rd16_be16 [of "pack_rtp h @ pack_debug @ take 4 (pack_frame f)" "height f"
        "drop 6 (pack_frame f) @ p"]
    by (simp add: pack_head_def pack_frame_def pkt_simps)
  moreover have "rd32 (pack_head h f @ p) 24 = framelength f"
    using rd32_be32 [of "pack_rtp h @ pack_debug @ take 8 (pack_frame f)" "framelength f" p]
    by (simp add: pack_head_def pack_frame_def pkt_simps)
  moreover have "(pack_head h f @ p) ! (16 + k) = (pack_frame f @ p) ! k" for k
    by (simp add: pack_head_def nth_append pkt_simps)
  from this [of 0] this [of 1] this [of 6] this [of 7]
  have "(pack_head h f @ p) ! 16 = (pack_frame f @ p) ! 0"
    "(pack_head h f @ p) ! 17 = (pack_frame f @ p) ! 1"
    "(pack_head h f @ p) ! 22 = (pack_frame f @ p) ! 6"
    "(pack_head h f @ p) ! 23 = (pack_frame f @ p) ! 7" by simp_all
  ultimately show ?thesis
    using nibble [OF assms]
    by (simp add: rx_frame_def pack_frame_def be16_def nth_append)
qed

lemma rx_codec_pack [pkt_simps]: "codec (rx_frame (pack_head h f @ p)) = codec f AND 0xF"
proof -
  have "(pack_head h f @ p) ! 16 = pack_frame f ! 0"
    by (simp add: pack_head_def nth_append pkt_simps)
  moreover have "((x AND 0xF) OR push_bit 4 (y AND 0xF)) AND 0xF = x AND (0xF :: byte)" for x y
    unfolding mask_byte by (rule bit_word_eqI) (auto simp: bit_simps)
  ultimately show ?thesis by (simp add: rx_frame_def pack_frame_def)
qed

lemma fu_fields [pkt_simps]:
  "fu_type (fu_indicator ty nri f) = ty AND 0x1F" "fu_nri (fu_indicator ty nri f) = nri AND 3"
  "fu_f (fu_indicator ty nri f) = f AND 1"
  "fu_type (fu_header ty r e s) = ty AND 0x1F" "fu_e (fu_header ty r e s) = e AND 1"
  "fu_s (fu_header ty r e s) = s AND 1"
  unfolding fu_type_def fu_nri_def fu_f_def fu_e_def fu_s_def fu_indicator_def fu_header_def mask_byte
  by (rule bit_word_eqI, auto simp: bit_simps)+

end
