(* ===== verification/RtpBuild.thy ===== *)
theory RtpBuild
  imports RtpPacket "HOL-Library.Signed_Division"
begin

section \<open>The RTP sender (src/reach\_edukit/src/reach\_share/reach\_rtp\_build.c)\<close>

text \<open>
  Frames of an encoder are cut into UDP packets: H.264 frames into NAL units and FU-A fragments,
  JPEG pictures into numbered slices, AAC frames into payloads with an AU header.  The state is the
  build handle \<open>US_RTP_BUILD_INFO\<close> (sequence numbers and time origin), the socket handle
  \<open>send_udp_handle\<close> (addresses and packet counters) and the network \<open>net\<close>: the datagrams that
  \<^verbatim>\<open>sendto\<close> accepted and how often it was called.  \<^verbatim>\<open>sendto\<close> itself is a parameter \<open>so\<close>: for
  the index of the call and the length asked for it gives the return value and \<^verbatim>\<open>errno\<close>.

  A send buffer \<^verbatim>\<open>sendbuf[1500]\<close> is \<open>pack_head h fh @ area\<close>: the header structs laid over its first
  28 bytes and the remaining 1472 bytes.  \<^const>\<open>None\<close> stands for undefined behaviour (an access
  outside a buffer, a division by zero) as in \<^theory_text>\<open>Prelude\<close>.
\<close>

subsection \<open>State\<close>

record datagram =
  d_fd :: int
  d_ip :: "byte list"
  d_port :: int
  d_bytes :: "byte list"

record net =
  calls :: nat
  wire :: "datagram list"

type_synonym sendto_oracle = "nat \<Rightarrow> nat \<Rightarrow> int \<times> int"

record RUdpS_debug_seq_num_t =
  video_seq_num_loss :: int
  audio_seq_num_loss :: int
  video_seq_num_total :: int
  audio_seq_num_total :: int

record send_udp_handle =
  snd_ip :: "byte list"
  snd_video_port :: int
  snd_audio_port :: int
  snd_fd :: int
  src_data :: "byte list option"
  base_video_time :: u32
  prev_video_time :: u32
  prev_time_tick :: u32
  snd_reserve :: u32
  pack_seq :: RUdpS_debug_seq_num_t

record US_RTP_BUILD_INFO =
  time_org :: u32
  video_seq_num :: u32
  audio_seq_num :: u32
  jpg_seq_num :: u32
  b_ssrc :: u32
  b_payload :: u32

record US_NALU_t =
  nalu_len :: u32
  forbidden_bit :: byte
  nal_reference_idc :: byte
  nal_unit_type :: byte
  nalu_buf :: int

definition US_H264 :: byte where "US_H264 = 96"
definition EAGAIN :: int where "EAGAIN = 11"
definition EINTR :: int where "EINTR = 4"
definition OPERATION_ERR :: int where "OPERATION_ERR = -1"
definition OPERATION_SUCC :: int where "OPERATION_SUCC = 0"

text \<open>\<^verbatim>\<open>(unsigned short *)&x\<close> on a little-endian target: the low half of a 32-bit counter.\<close>

definition set_low16 :: "u32 \<Rightarrow> u16 \<Rightarrow> u32" where
  "set_low16 x s = (x AND 0xFFFF0000) OR ucast s"

subsection \<open>Sending one packet\<close>

text \<open>
  The loop of \<^verbatim>\<open>us_async_sendto_data\<close>: \<open>off\<close> is \<^verbatim>\<open>pbuf - buf\<close>, \<open>n\<close> is \<^verbatim>\<open>send_total_len\<close>.  The
  result is the return value, \<^verbatim>\<open>*buflen\<close> and the network.  A \<^verbatim>\<open>sendto\<close> that claims more bytes than
  it was given has no meaning.
\<close>

function sendto_loop ::
  "sendto_oracle \<Rightarrow> int \<Rightarrow> byte list \<Rightarrow> int \<Rightarrow> byte list \<Rightarrow> int \<Rightarrow> nat \<Rightarrow> int \<Rightarrow> net
    \<Rightarrow> (int \<times> int \<times> net) option" where
  "sendto_loop so fd b port ip buflen off n net =
     (if n < 0 \<or> int off + n > int (length b) then None
      else let (r, e) = so (calls net) (nat n);
               net1 = net\<lparr>calls := calls net + 1,
                          wire := (if r > 0
                            then wire net @ [\<lparr>d_fd = fd, d_ip = ip, d_port = port,
                                              d_bytes = take (nat r) (drop off b)\<rparr>]
                            else wire net)\<rparr>
      in if r < 0 then (if e = EAGAIN \<or> e = EINTR then Some (-EAGAIN, n, net1)
                        else Some (-1, buflen, net1))
         else if r = 0 then Some (-1, buflen, net1)
         else if r = n then Some (0, 0, net1)
         else if r > n then None
         else sendto_loop so fd b port ip buflen (off + nat r) (n - r) net1)"
  by pat_completeness auto
termination
  by (relation "measure (\<lambda>(so, fd, b, port, ip, buflen, off, n, net). nat n)") auto

declare sendto_loop.simps [simp del]

definition us_async_sendto_data ::
  "sendto_oracle \<Rightarrow> int \<Rightarrow> byte list \<Rightarrow> int \<Rightarrow> int \<Rightarrow> byte list \<Rightarrow> net \<Rightarrow> (int \<times> int \<times> net) option" where
  "us_async_sendto_data so fd b buflen port ip net = sendto_loop so fd b port ip buflen 0 buflen net"

text \<open>
  \<^verbatim>\<open>udp_send_rtp_data\<close>: the codec nibble of the frame head in the buffer selects the port and the
  counters.  It returns \<^const>\<open>OPERATION_SUCC\<close> whatever \<^verbatim>\<open>sendto\<close> reported.
\<close>

definition udp_send_rtp_data ::
  "sendto_oracle \<Rightarrow> send_udp_handle \<Rightarrow> byte list \<Rightarrow> int \<Rightarrow> net \<Rightarrow> (int \<times> send_udp_handle \<times> net) option" where
  "udp_send_rtp_data so info send_buf len net = do {
     let c = codec (rx_frame send_buf);
     (ret, temp_len, net') \<leftarrow>
       us_async_sendto_data so (snd_fd info) send_buf len
         (if c = 0 then snd_video_port info else snd_audio_port info) (snd_ip info) net;
     let ps = pack_seq info;
     let ps = (if c = 1 then ps\<lparr>audio_seq_num_total := audio_seq_num_total ps + 1\<rparr>
               else ps\<lparr>video_seq_num_total := video_seq_num_total ps + 1\<rparr>);
     let ps = (if ret < 0
               then (if c = 1 then ps\<lparr>audio_seq_num_loss := audio_seq_num_loss ps + 1\<rparr>
                     else ps\<lparr>video_seq_num_loss := video_seq_num_loss ps + 1\<rparr>)
               else ps);
     Some (OPERATION_SUCC, info\<lparr>pack_seq := ps\<rparr>, net')
   }"

subsection \<open>JPEG pictures\<close>

definition video_hdr :: "u32 \<Rightarrow> US_RTP_FIXED_HEADER" where
  "video_hdr ts = \<lparr>csrc_len = 0, extension = 1, padding = 0, version = 2, payload = US_H264,
                   marker = 0, seq_no = 0, timestamp = ts, ssrc = 10\<rparr>"

definition jpeg_fragment ::
  "sendto_oracle \<Rightarrow> byte list \<Rightarrow> int \<Rightarrow> int \<Rightarrow> int \<Rightarrow> int \<Rightarrow> US_RTP_FIXED_HEADER \<Rightarrow> US_FRAMEHEAD
    \<Rightarrow> byte list \<Rightarrow> u16 \<Rightarrow> send_udp_handle \<Rightarrow> net
    \<Rightarrow> (int \<times> US_RTP_FIXED_HEADER \<times> US_FRAMEHEAD \<times> byte list \<times> send_udp_handle \<times> net) option" where
  "jpeg_fragment so d m k l t h fh area seq info net = do {
     let (mk, sr, off, n) =
       (if t = 0 then (0, 2, 0, m)
        else if k = t then (1, 1, t * m, l)
        else (0, 0, t * m, m));
     let h = h\<lparr>seq_no := seq, marker := mk\<rparr>;
     let fh = fh\<lparr>samplerate := sr\<rparr>;
     area' \<leftarrow> memcpy area 0 d off n;
     (r, info', net') \<leftarrow> udp_send_rtp_data so info (pack_head h fh @ area') (n + 28) net;
     Some (r, h, fh, area', info', net')
   }"

function jpeg_loop ::
  "sendto_oracle \<Rightarrow> byte list \<Rightarrow> int \<Rightarrow> int \<Rightarrow> int \<Rightarrow> int \<Rightarrow> US_RTP_FIXED_HEADER \<Rightarrow> US_FRAMEHEAD
    \<Rightarrow> byte list \<Rightarrow> u16 \<Rightarrow> send_udp_handle \<Rightarrow> net \<Rightarrow> (int \<times> u16 \<times> send_udp_handle \<times> net) option" where
  "jpeg_loop so d m k l t h fh area seq info net =
     (if t \<le> k then
        (case jpeg_fragment so d m k l t h fh area seq info net of
           None \<Rightarrow> None
         | Some (r, h', fh', area', info', net') \<Rightarrow>
             if r < 0 then Some (-1, seq + 1, info', net')
             else jpeg_loop so d m k l (t + 1) h' fh' area' (seq + 1) info' net')
      else Some (0, seq, info, net))"
  by pat_completeness auto
termination
  by (relation "measure (\<lambda>(so, d, m, k, l, t, h, fh, area, seq, info, net). nat (k + 1 - t))") auto

declare jpeg_loop.simps [simp del]

definition jpeg_send ::
  "sendto_oracle \<Rightarrow> byte list \<Rightarrow> int \<Rightarrow> int \<Rightarrow> US_RTP_FIXED_HEADER \<Rightarrow> US_FRAMEHEAD
    \<Rightarrow> u16 \<Rightarrow> send_udp_handle \<Rightarrow> net \<Rightarrow> (int \<times> u16 \<times> send_udp_handle \<times> net) option" where
  "jpeg_send so d nLen m h fh seq info net =
     (if nLen \<le> m then do {
        let h = h\<lparr>marker := 1, seq_no := seq\<rparr>;
        let fh = fh\<lparr>samplerate := 3\<rparr>;
        area \<leftarrow> memcpy (replicate 1472 0) 0 d 0 nLen;
        (r, info', net') \<leftarrow> udp_send_rtp_data so info (pack_head h fh @ area) (nLen + 28) net;
        Some (if r < 0 then -1 else 0, seq + 1, info', net')
      }
      else if m = 0 then None
      else (let l = nLen smod m;
                k = (if l = 0 then nLen sdiv m - 1 else nLen sdiv m);
                l = (if l = 0 then m else l)
            in jpeg_loop so d m k l 0 h fh (replicate 1472 0) seq info net))"

definition UdpSend_rtp_build_jpeg_data ::
  "sendto_oracle \<Rightarrow> US_RTP_BUILD_INFO option \<Rightarrow> int \<Rightarrow> byte list option \<Rightarrow> int \<Rightarrow> u32
    \<Rightarrow> send_udp_handle option \<Rightarrow> US_FRAMEHEAD \<Rightarrow> net
    \<Rightarrow> (int \<times> US_RTP_BUILD_INFO option \<times> send_udp_handle option \<times> net) option" where
  "UdpSend_rtp_build_jpeg_data so handle nLen pData rtp_mtu ts_current info data_info net =
     (case (handle, info, pData) of
        (Some hnd, Some uh, Some d) \<Rightarrow> do {
          let fh = \<lparr>codec = codec data_info, samplerate = 0, framerate = framerate data_info,
                    width = width data_info, height = height data_info, Iframe = Iframe data_info,
                    reserve = reserve data_info, framelength = framelength data_info\<rparr>;
          (r, seq, uh', net') \<leftarrow>
            jpeg_send so d nLen (rtp_mtu - 28) (video_hdr ts_current) fh (ucast (jpg_seq_num hnd)) uh net;
          Some (r, Some (hnd\<lparr>jpg_seq_num := set_low16 (jpg_seq_num hnd) seq\<rparr>), Some uh', net')
        }
      | _ \<Rightarrow> Some (-1, handle, info, net))"

subsection \<open>H.264 frames\<close>

definition nalu_fragment ::
  "sendto_oracle \<Rightarrow> byte list \<Rightarrow> US_NALU_t \<Rightarrow> int \<Rightarrow> int \<Rightarrow> int \<Rightarrow> int \<Rightarrow> US_RTP_FIXED_HEADER
    \<Rightarrow> US_FRAMEHEAD \<Rightarrow> byte list \<Rightarrow> u16 \<Rightarrow> send_udp_handle \<Rightarrow> net
    \<Rightarrow> (int \<times> US_RTP_FIXED_HEADER \<times> byte list \<times> send_udp_handle \<times> net) option" where
  "nalu_fragment so d nalu mtu k l t h fh area seq info net = do {
     let (mk, s, e, off, n) =
       (if t = 0 then (0, 1, 0, nalu_buf nalu + 1, mtu)
        else if k = t then (1, 0, 1, nalu_buf nalu + t * mtu + 1, l)
        else (0, 0, 0, nalu_buf nalu + t * mtu + 1, mtu));
     let h = h\<lparr>seq_no := seq, marker := mk\<rparr>;
     let area = area[0 := fu_indicator 28 (drop_bit 5 (nal_reference_idc nalu)) (forbidden_bit nalu),
                     1 := fu_header (nal_unit_type nalu) 0 e s];
     area' \<leftarrow> memcpy area 2 d off n;
     (r, info', net') \<leftarrow> udp_send_rtp_data so info (pack_head h fh @ area') (n + 30) net;
     Some (r, h, area', info', net')
   }"

function nalu_loop ::
  "sendto_oracle \<Rightarrow> byte list \<Rightarrow> US_NALU_t \<Rightarrow> int \<Rightarrow> int \<Rightarrow> int \<Rightarrow> int \<Rightarrow> US_RTP_FIXED_HEADER
    \<Rightarrow> US_FRAMEHEAD \<Rightarrow> byte list \<Rightarrow> u16 \<Rightarrow> send_udp_handle \<Rightarrow> net
    \<Rightarrow> (int \<times> u16 \<times> send_udp_handle \<times> net) option" where
  "nalu_loop so d nalu mtu k l t h fh area seq info net =
     (if t \<le> k then
        (case nalu_fragment so d nalu mtu k l t h fh area seq info net of
           None \<Rightarrow> None
         | Some (r, h', area', info', net') \<Rightarrow>
             if r < 0 then Some (-1, seq + 1, info', net')
             else nalu_loop so d nalu mtu k l (t + 1) h' fh area' (seq + 1) info' net')
      else Some (0, seq, info, net))"
  by pat_completeness auto
termination
  by (relation "measure (\<lambda>(so, d, nalu, mtu, k, l, t, h, fh, area, seq, info, net). nat (k + 1 - t))") auto

declare nalu_loop.simps [simp del]

text \<open>
  \<^verbatim>\<open>nalu->len\<close> is unsigned, so \<^verbatim>\<open>(nalu->len - 1) <= rtp_mtu\<close> and the quotients are unsigned 32-bit
  operations; \<open>k\<close> and \<open>l\<close> are \<^verbatim>\<open>int\<close>.
\<close>

definition UdpSendRtpNalu ::
  "sendto_oracle \<Rightarrow> byte list \<Rightarrow> US_NALU_t \<Rightarrow> u16 \<Rightarrow> u32 \<Rightarrow> int \<Rightarrow> send_udp_handle \<Rightarrow> US_FRAMEHEAD
    \<Rightarrow> net \<Rightarrow> (int \<times> u16 \<times> send_udp_handle \<times> net) option" where
  "UdpSendRtpNalu so d nalu seq_num ts_current rtp_mtu info data_info net =
     (let h = video_hdr ts_current; fh = data_info; m = word_of_int rtp_mtu :: u32
      in if nalu_len nalu - 1 \<le> m then do {
           let h = h\<lparr>marker := 1, seq_no := seq_num\<rparr>;
           area \<leftarrow> memcpy (replicate 1472 0) 0 d (nalu_buf nalu) (uint (nalu_len nalu));
           (r, info', net') \<leftarrow>
             udp_send_rtp_data so info (pack_head h fh @ area) (uint (nalu_len nalu) + 28) net;
           Some (if r < 0 then -1 else 0, seq_num + 1, info', net')
         }
         else if m = 0 then None
         else (let l = sint ((nalu_len nalu - 1) mod m);
                   k = (if l = 0 then sint ((nalu_len nalu - 1) div m - 1)
                        else sint ((nalu_len nalu - 1) div m));
                   l = (if l = 0 then rtp_mtu else l)
               in nalu_loop so d nalu rtp_mtu k l 0 h fh (replicate 1472 0) seq_num info net))"

text \<open>The test for a start code at \<open>pos\<close>, with C's short-circuit reads.\<close>

definition start_code_at :: "byte list \<Rightarrow> int \<Rightarrow> bool option" where
  "start_code_at d pos = do {
     a \<leftarrow> peek d pos;
     if a \<noteq> 0 then Some False else do {
       b \<leftarrow> peek d (pos + 1);
       if b \<noteq> 0 then Some False else do {
         c \<leftarrow> peek d (pos + 2);
         if c \<noteq> 0 then Some False else do {
           e \<leftarrow> peek d (pos + 3);
           Some (e = 1)
         }}}}"

text \<open>The \<^verbatim>\<open>do { pos++; } while(...)\<close> search for the next start code or the tail.\<close>

function scan_nalu :: "byte list \<Rightarrow> int \<Rightarrow> int \<Rightarrow> int option" where
  "scan_nalu d ptail pos =
     (case start_code_at d (pos + 1) of
        None \<Rightarrow> None
      | Some s \<Rightarrow> if \<not> s \<and> pos + 1 < ptail then scan_nalu d ptail (pos + 1) else Some (pos + 1))"
  by pat_completeness auto
termination
  by (relation "measure (\<lambda>(d, ptail, pos). nat (ptail - pos))") auto

declare scan_nalu.simps [simp del]

lemma scan_nalu_advances: "scan_nalu d ptail pos = Some pos' \<Longrightarrow> pos < pos'"
proof (induction d ptail pos rule: scan_nalu.induct)
  case (1 d ptail pos)
  then show ?case
    by (subst (asm) (2) scan_nalu.simps) (fastforce split: option.splits if_splits)
qed

text \<open>The NAL unit of \<open>pData\<close> from \<open>pstart\<close> on, start code excluded, and where the next one begins.\<close>

definition next_nalu :: "byte list \<Rightarrow> int \<Rightarrow> int \<Rightarrow> int option" where
  "next_nalu d ptail pos = do {
     s \<leftarrow> start_code_at d pos;
     nalu_value \<leftarrow> (if s then peek d (pos + 4) else Some 0);
     if nalu_value AND 0x1F = 7 \<or> nalu_value AND 0x1F = 8 then scan_nalu d ptail pos
     else Some ptail
   }"

definition mk_nalu :: "byte list \<Rightarrow> int \<Rightarrow> int \<Rightarrow> US_NALU_t option" where
  "mk_nalu d pstart n = do {
     b0 \<leftarrow> peek d (pstart + 4);
     Some \<lparr>nalu_len = word_of_int n, forbidden_bit = b0 AND 0x80, nal_reference_idc = b0 AND 0x60,
           nal_unit_type = b0 AND 0x1F, nalu_buf = pstart + 4\<rparr>
   }"

lemma next_nalu_advances:
  "next_nalu d ptail pos = Some pos' \<Longrightarrow> pos' < ptail \<Longrightarrow> pos < pos'"
  by (auto simp: next_nalu_def scan_nalu_advances split: if_splits bind_splits)

function video_loop ::
  "sendto_oracle \<Rightarrow> byte list \<Rightarrow> int \<Rightarrow> int \<Rightarrow> u32 \<Rightarrow> US_FRAMEHEAD \<Rightarrow> int
    \<Rightarrow> u32 \<Rightarrow> u16 \<Rightarrow> send_udp_handle \<Rightarrow> net
    \<Rightarrow> (u32 \<times> u16 \<times> send_udp_handle \<times> net) option" where
  "video_loop so d nLen mtu timetick data_info pos torg seq info net =
     (let ts_current = timetick * 90;
          torg = (if ts_current \<ge> 0xFFFFFFFF then 0 else torg);
          ptail = nLen - 4
      in case next_nalu d ptail pos of
           None \<Rightarrow> None
         | Some pos' \<Rightarrow>
             if pos' \<ge> ptail then
               (case mk_nalu d pos (nLen - pos - 4) of
                  None \<Rightarrow> None
                | Some nalu \<Rightarrow>
                    (case UdpSendRtpNalu so d nalu seq ts_current mtu info data_info net of
                       None \<Rightarrow> None
                     | Some (r, seq', info', net') \<Rightarrow> Some (torg, seq', info', net')))
             else
               (case mk_nalu d pos (pos' - pos - 4) of
                  None \<Rightarrow> None
                | Some nalu \<Rightarrow>
                    (case UdpSendRtpNalu so d nalu seq ts_current mtu info data_info net of
                       None \<Rightarrow> None
                     | Some (r, seq', info', net') \<Rightarrow>
                         video_loop so d nLen mtu timetick data_info pos' torg seq' info' net')))"
  by pat_completeness auto
termination
  by (relation "measure (\<lambda>(so, d, nLen, mtu, timetick, di, pos, torg, seq, info, net).
        nat (nLen - 4 - pos))") (auto dest: next_nalu_advances)

declare video_loop.simps [simp del]

text \<open>The time origin that \<^verbatim>\<open>nowtime\<close> is counted from.\<close>

definition rebase_time :: "u32 \<Rightarrow> u32 \<Rightarrow> u32" where
  "rebase_time torg nowtime = (if torg = 0 \<or> nowtime < torg then nowtime else torg)"

definition UdpSend_rtp_build_video_data ::
  "sendto_oracle \<Rightarrow> US_RTP_BUILD_INFO option \<Rightarrow> int \<Rightarrow> byte list option \<Rightarrow> int \<Rightarrow> u32
    \<Rightarrow> send_udp_handle option \<Rightarrow> US_FRAMEHEAD \<Rightarrow> net
    \<Rightarrow> (int \<times> US_RTP_BUILD_INFO option \<times> send_udp_handle option \<times> net) option" where
  "UdpSend_rtp_build_video_data so handle nLen pData rtp_mtu nowtime info data_info net =
     (case (handle, info, pData) of
        (Some hnd, Some uh, Some d) \<Rightarrow>
          if rtp_mtu < 228 then Some (0, handle, info, net)
          else do {
            let torg = rebase_time (time_org hnd) nowtime;
            (torg', seq, uh', net') \<leftarrow>
              video_loop so d nLen (rtp_mtu - 14) (nowtime - torg) data_info 0 torg
                (ucast (video_seq_num hnd)) uh net;
            Some (0, Some (hnd\<lparr>time_org := torg', video_seq_num := set_low16 (video_seq_num hnd) seq\<rparr>),
                  Some uh', net')
          }
      | _ \<Rightarrow> Some (-1, handle, info, net))"

subsection \<open>AAC frames\<close>

text \<open>
  An ADTS header starts at \<open>i\<close>; the third byte is matched against the six values for 44.1/48 kHz and
  their neighbours.  Reads short-circuit as in C.
\<close>

definition adts_at :: "byte list \<Rightarrow> int \<Rightarrow> bool option" where
  "adts_at d i = do {
     a \<leftarrow> peek d i;
     if a \<noteq> 0xFF then Some False else do {
       b \<leftarrow> peek d (i + 1);
       if b \<noteq> 0xF1 then Some False else do {
         c \<leftarrow> peek d (i + 2);
         Some (c = 0x58 \<or> c = 0x5C \<or> c = 0x6C \<or> c = 0x60 \<or> c = 0x4C \<or> c = 0x50)
       }}}"

text \<open>The search loop fills \<^verbatim>\<open>offset[5]\<close> and counts in \<open>j\<close>; there is no test of \<open>j\<close> against 5.\<close>

fun adts_offsets :: "byte list \<Rightarrow> int list \<Rightarrow> int \<Rightarrow> int list \<Rightarrow> (int list \<times> int) option" where
  "adts_offsets d offset j [] = Some (offset, j)"
| "adts_offsets d offset j (i # is) = do {
     s \<leftarrow> adts_at d i;
     if s then do { offset' \<leftarrow> poke offset j i; adts_offsets d offset' (j + 1) is }
     else adts_offsets d offset j is
   }"

definition adts_framelen :: "byte \<Rightarrow> byte \<Rightarrow> byte \<Rightarrow> u32" where
  "adts_framelen p3 p4 p5 =
     push_bit 9 (ucast (p3 AND 3)) OR push_bit 3 (ucast p4) OR drop_bit 5 (ucast (p5 AND 0xE0))"

definition audio_ts :: "int \<Rightarrow> u32 \<Rightarrow> u32" where
  "audio_ts audio_sample mytime =
     (if audio_sample = 16000 then mytime * 16
      else if audio_sample = 32000 then mytime * 32
      else if audio_sample = 44100 then mytime * 44 + mytime div 10
      else if audio_sample = 96000 then mytime * 96
      else mytime * 48)"

text \<open>\<^verbatim>\<open>US_RTP_FIXED_HEADER_AUDIO\<close>: the second byte is written as a whole.\<close>

definition pack_rtp_audio :: "byte \<Rightarrow> u16 \<Rightarrow> u32 \<Rightarrow> u32 \<Rightarrow> byte list" where
  "pack_rtp_audio byte2 sn ts sc =
     [push_bit 4 1 OR push_bit 6 2, byte2] @ be16 sn @ be32 ts @ be32 sc"

text \<open>
  The \<^verbatim>\<open>while(temp_len > 0)\<close> loop for one ADTS frame whose payload starts at \<open>start\<close>.  A packet size
  of zero or less has no meaning (\<^verbatim>\<open>memcpy\<close> of a negative size, or no progress).
\<close>

function audio_loop ::
  "sendto_oracle \<Rightarrow> byte list \<Rightarrow> int \<Rightarrow> int \<Rightarrow> u32 \<Rightarrow> US_FRAMEHEAD \<Rightarrow> int \<Rightarrow> int \<Rightarrow> int \<Rightarrow> u32 \<Rightarrow> int
    \<Rightarrow> byte list \<Rightarrow> u32 \<Rightarrow> u32 \<Rightarrow> send_udp_handle \<Rightarrow> net
    \<Rightarrow> (int \<times> byte list \<times> u32 \<times> u32 \<times> send_udp_handle \<times> net) option" where
  "audio_loop so d mtu smp sc data_info j start afl mytime temp_len nb torg seq info net =
     (if temp_len > 0 then
        (if mtu \<le> 0 then None
         else
           (let anl = (if temp_len \<ge> mtu then mtu else temp_len);
                nb = nb[0 := 0, 1 := 0x10, 2 := word_of_int (afl div 32),
                        3 := word_of_int (afl mod 32 * 8)]
            in case memcpy nb 4 d (start + afl - temp_len) anl of
                 None \<Rightarrow> None
               | Some nb' \<Rightarrow>
                   (let temp_len' = temp_len - anl;
                        ts = audio_ts smp mytime;
                        torg' = (if ts \<ge> 0xFFFFFFFF then 0 else torg);
                        hdr = pack_rtp_audio (if temp_len' \<noteq> 0 then 0x61 else 0xE1) (ucast seq) ts sc
                              @ pack_debug @ pack_frame data_info
                    in case memcpy (replicate 1472 0) 0 nb' 0 (anl + 4) of
                         None \<Rightarrow> None
                       | Some area \<Rightarrow>
                           if j = 1 then
                             (case udp_send_rtp_data so info (hdr @ area) (anl + 16 + 16) net of
                                None \<Rightarrow> None
                              | Some (r, info', net') \<Rightarrow>
                                  if r < 0 then Some (-1, nb', torg', seq + 1, info', net')
                                  else audio_loop so d mtu smp sc data_info j start afl mytime
                                         temp_len' nb' torg' (seq + 1) info' net')
                           else audio_loop so d mtu smp sc data_info j start afl mytime
                                  temp_len' nb' torg' (seq + 1) info net)))
      else Some (0, nb, torg, seq, info, net))"
  by pat_completeness auto
termination
  by (relation "measure (\<lambda>(so, d, mtu, smp, sc, di, j, start, afl, mytime, temp_len, nb, torg, seq,
        info, net). nat temp_len)") auto

declare audio_loop.simps [simp del]

text \<open>The \<^verbatim>\<open>for(i = 0; i < j; i++)\<close> loop over the frames found.\<close>

fun audio_frames ::
  "sendto_oracle \<Rightarrow> byte list \<Rightarrow> int \<Rightarrow> int \<Rightarrow> int \<Rightarrow> u32 \<Rightarrow> US_FRAMEHEAD \<Rightarrow> int list \<Rightarrow> int \<Rightarrow> u32
    \<Rightarrow> int list \<Rightarrow> byte list \<Rightarrow> u32 \<Rightarrow> u32 \<Rightarrow> send_udp_handle \<Rightarrow> net
    \<Rightarrow> (int \<times> u32 \<times> u32 \<times> send_udp_handle \<times> net) option" where
  "audio_frames so d nLen mtu smp sc data_info offset j mytime [] nb torg seq info net =
     Some (0, torg, seq, info, net)"
| "audio_frames so d nLen mtu smp sc data_info offset j mytime (i # is) nb torg seq info net = do {
     o1 \<leftarrow> peek offset (i + 1);
     o0 \<leftarrow> peek offset i;
     let pLen = (if i = j - 1 then nLen - o0 else o1 - o0);
     (r, nb', torg', seq', info', net') \<leftarrow>
       audio_loop so d mtu smp sc data_info j (o0 + 7) (pLen - 7) mytime (pLen - 7) nb torg seq info net;
     if r < 0 then Some (-1, torg', seq', info', net')
     else audio_frames so d nLen mtu smp sc data_info offset j mytime is nb' torg' seq' info' net'
   }"

definition UdpSend_rtp_build_audio_data ::
  "sendto_oracle \<Rightarrow> US_RTP_BUILD_INFO option \<Rightarrow> int \<Rightarrow> byte list option \<Rightarrow> int \<Rightarrow> int \<Rightarrow> u32
    \<Rightarrow> send_udp_handle option \<Rightarrow> US_FRAMEHEAD \<Rightarrow> net
    \<Rightarrow> (int \<times> US_RTP_BUILD_INFO option \<times> send_udp_handle option \<times> net) option" where
  "UdpSend_rtp_build_audio_data so handle nLen pData smp rtp_mtu nowtime info data_info net =
     (case (handle, info, pData) of
        (Some hnd, Some uh, Some d) \<Rightarrow> do {
          let torg = rebase_time (time_org hnd) nowtime;
          let timetick = nowtime - torg;
          p3 \<leftarrow> peek d 3;
          p4 \<leftarrow> peek d 4;
          p5 \<leftarrow> peek d 5;
          let framelen = adts_framelen p3 p4 p5;
          (offset, j) \<leftarrow> adts_offsets d (replicate 5 0) 0 (map int [0..<nat (nLen - 4)]);
          let j = (if framelen = word_of_int nLen \<and> j \<ge> 1 then 1 else j);
          (r, torg', seq, uh', net') \<leftarrow>
            audio_frames so d nLen (rtp_mtu - 14) smp (b_ssrc hnd) data_info offset j timetick
              (map int [0..<nat j]) (replicate 2048 0) torg (audio_seq_num hnd) uh net;
          Some (r, Some (hnd\<lparr>time_org := torg', audio_seq_num := seq\<rparr>), Some uh', net')
        }
      | _ \<Rightarrow> Some (-1, handle, info, net))"

subsection \<open>The handle\<close>

text \<open>\<^verbatim>\<open>UdpSend_rtp_build_reset_time\<close> returns at its first statement.\<close>

definition UdpSend_rtp_build_reset_time ::
  "US_RTP_BUILD_INFO option \<Rightarrow> int \<times> US_RTP_BUILD_INFO option" where
  "UdpSend_rtp_build_reset_time handle = (0, handle)"

definition build_info_zero :: US_RTP_BUILD_INFO where
  "build_info_zero = \<lparr>time_org = 0, video_seq_num = 0, audio_seq_num = 0, jpg_seq_num = 0,
                      b_ssrc = 0, b_payload = 0\<rparr>"

definition UdpSend_rtp_build_init :: "bool \<Rightarrow> u32 \<Rightarrow> u32 \<Rightarrow> US_RTP_BUILD_INFO option" where
  \<comment> \<open>the first argument tells whether \<^verbatim>\<open>r_malloc\<close> succeeded\<close>
  "UdpSend_rtp_build_init mok sc pl =
     (if mok then Some (build_info_zero\<lparr>b_ssrc := sc, b_payload := pl\<rparr>) else None)"

definition UdpSend_rtp_build_reset ::
  "US_RTP_BUILD_INFO option \<Rightarrow> int \<times> US_RTP_BUILD_INFO option" where
  "UdpSend_rtp_build_reset handle =
     (case handle of None \<Rightarrow> (-1, None) | Some _ \<Rightarrow> (0, Some build_info_zero))"

definition UdpSend_rtp_build_uninit ::
  "US_RTP_BUILD_INFO option \<Rightarrow> US_RTP_BUILD_INFO option" where
  \<comment> \<open>\<^verbatim>\<open>*handle\<close> after the call\<close>
  "UdpSend_rtp_build_uninit handle = None"

subsection \<open>A network that takes every packet\<close>

text \<open>
  \<open>lossless so\<close>: every \<^verbatim>\<open>sendto\<close> takes all the bytes it is given, as it does for UDP datagrams below
  the socket's limits.  \<open>emit c p\<close> is then the effect of sending the packet \<open>p\<close> of codec \<open>c\<close>.
\<close>

definition lossless :: "sendto_oracle \<Rightarrow> bool" where
  "lossless so \<longleftrightarrow> (\<forall>i n. fst (so i n) = int n)"

definition port_of :: "byte \<Rightarrow> send_udp_handle \<Rightarrow> int" where
  "port_of c info = (if c = 0 then snd_video_port info else snd_audio_port info)"

definition count_sent :: "byte \<Rightarrow> RUdpS_debug_seq_num_t \<Rightarrow> RUdpS_debug_seq_num_t" where
  "count_sent c ps =
     (if c = 1 then ps\<lparr>audio_seq_num_total := audio_seq_num_total ps + 1\<rparr>
      else ps\<lparr>video_seq_num_total := video_seq_num_total ps + 1\<rparr>)"

definition datagram_of :: "byte \<Rightarrow> send_udp_handle \<Rightarrow> byte list \<Rightarrow> datagram" where
  "datagram_of c info p =
     \<lparr>d_fd = snd_fd info, d_ip = snd_ip info, d_port = port_of c info, d_bytes = p\<rparr>"

fun emit_all :: "byte \<Rightarrow> byte list list \<Rightarrow> send_udp_handle \<Rightarrow> net \<Rightarrow> send_udp_handle \<times> net" where
  "emit_all c [] info net = (info, net)"
| "emit_all c (p # ps) info net =
     emit_all c ps (info\<lparr>pack_seq := count_sent c (pack_seq info)\<rparr>)
       (net\<lparr>calls := calls net + 1, wire := wire net @ [datagram_of c info p]\<rparr>)"

lemma emit_all_append:
  "emit_all c (ps @ qs) info net = (case emit_all c ps info net of (i, n) \<Rightarrow> emit_all c qs i n)"
  by (induction ps arbitrary: info net) simp_all

lemma emit_all_Cons:
  "emit_all c [p] info net = (info', net') \<Longrightarrow> emit_all c (p # ps) info net = emit_all c ps info' net'"
  by auto

lemma datagram_of_pack_seq [simp]: "datagram_of c (info\<lparr>pack_seq := x\<rparr>) p = datagram_of c info p"
  by (simp add: datagram_of_def port_of_def)

lemma emit_all_wire:
  "wire (snd (emit_all c ps info net)) = wire net @ map (datagram_of c info) ps"
  by (induction ps arbitrary: info net) simp_all

lemma emit_all_info: "\<exists>x. fst (emit_all c ps info net) = info\<lparr>pack_seq := x\<rparr>"
proof (induction ps arbitrary: info net)
  case Nil
  have "info = info\<lparr>pack_seq := pack_seq info\<rparr>" by simp
  then show ?case by (metis emit_all.simps(1) fst_conv)
next
  case (Cons p ps)
  then show ?case by (simp, metis send_udp_handle.update_convs(10) send_udp_handle.surjective)
qed

lemma us_async_sendto_data_lossless:
  assumes "lossless so" "0 < n" "n \<le> length b"
  shows "us_async_sendto_data so fd b (int n) port ip net =
     Some (0, 0, net\<lparr>calls := calls net + 1,
       wire := wire net @ [\<lparr>d_fd = fd, d_ip = ip, d_port = port, d_bytes = take n b\<rparr>]\<rparr>)"
proof -
  obtain e where "so (calls net) n = (int n, e)"
    using assms(1) by (metis lossless_def prod.collapse)
  then show ?thesis
    using assms(2,3) by (simp add: us_async_sendto_data_def sendto_loop.simps)
qed

lemma udp_send_lossless:
  assumes "lossless so" "0 < n" "n \<le> length b" "codec (rx_frame b) = c"
  shows "udp_send_rtp_data so info b (int n) net =
           Some (0, emit_all c [take n b] info net)"
  using assms
  by (simp add: udp_send_rtp_data_def us_async_sendto_data_lossless count_sent_def datagram_of_def
      port_of_def OPERATION_SUCC_def Let_def)

lemma udp_send_packet:
  assumes "lossless so" "p = pack_head h fh @ area" "n \<le> length area" "codec fh < 16"
  shows "udp_send_rtp_data so info p (int n + 28) net =
           Some (0, emit_all (codec fh) [pack_head h fh @ take n area] info net)"
proof -
  have "codec fh AND 0xF = codec fh"
    using assms(4) by (simp add: mask_byte take_bit_eq_mod mod_word_less)
  then show ?thesis
    using udp_send_lossless [of so "n + 28" p "codec fh" info net] assms
    by (simp add: pkt_simps add.commute)
qed

subsection \<open>What is on the wire: JPEG\<close>

text \<open>The \<open>t\<close>-th of the \<open>k + 1\<close> packets of a picture that does not fit in one.\<close>

definition jpeg_packet ::
  "US_RTP_FIXED_HEADER \<Rightarrow> US_FRAMEHEAD \<Rightarrow> byte list \<Rightarrow> nat \<Rightarrow> nat \<Rightarrow> u16 \<Rightarrow> nat \<Rightarrow> byte list" where
  "jpeg_packet h fh d m k seq t =
     pack_head (h\<lparr>seq_no := seq + of_nat t, marker := (if t = k then 1 else 0)\<rparr>)
               (fh\<lparr>samplerate := (if t = 0 then 2 else if t = k then 1 else 0)\<rparr>)
     @ piece m t d"

lemma jpeg_packet_absorb [simp]:
  "jpeg_packet (h\<lparr>seq_no := a, marker := b\<rparr>) fh d m k seq = jpeg_packet h fh d m k seq"
  "jpeg_packet h (fh\<lparr>samplerate := c\<rparr>) d m k seq = jpeg_packet h fh d m k seq"
  by (simp_all add: jpeg_packet_def fun_eq_iff)

lemma jpeg_step:
  assumes "lossless so" "codec fh < 16" "length area = 1472" "m \<le> 1472" "0 < k" "t \<le> k"
    and "n = (if t = k then l else m)" "n = length (piece m t d)" "t * m + n \<le> length d"
  shows "\<exists>area'. length area' = 1472 \<and>
    jpeg_loop so d (int m) (int k) (int l) (int t) h fh area (seq + of_nat t) info net =
    (case emit_all (codec fh) [jpeg_packet h fh d m k seq t] info net of
       (info', net') \<Rightarrow> jpeg_loop so d (int m) (int k) (int l) (int (Suc t))
         (h\<lparr>seq_no := seq + of_nat t, marker := (if t = k then 1 else 0)\<rparr>)
         (fh\<lparr>samplerate := (if t = 0 then 2 else if t = k then 1 else 0)\<rparr>)
         area' (seq + of_nat (Suc t)) info' net')"
proof -
  let ?h = "h\<lparr>seq_no := seq + of_nat t, marker := (if t = k then 1 else 0)\<rparr>"
  let ?fh = "fh\<lparr>samplerate := (if t = 0 then 2 else if t = k then 1 else 0)\<rparr>"
  have n: "n \<le> 1472" using assms(4,8) by (simp add: length_piece)
  define area' where "area' = piece m t d @ drop n area"
  have cp: "memcpy area (int 0) d (int (t * m)) (int n) = Some area'"
    using memcpy_nat [of 0 n area "t * m" d] assms(3,9) n take_length_piece [of m t d]
    unfolding area'_def assms(8) by simp
  have len: "length area' = 1472" using n assms(3,8) by (simp add: area'_def)
  have tk: "take n area' = piece m t d" by (simp add: area'_def assms(8))
  have snd: "udp_send_rtp_data so info (pack_head ?h ?fh @ area') (int n + 28) net =
      Some (0, emit_all (codec fh) [jpeg_packet h fh d m k seq t] info net)"
    using udp_send_packet [of so _ ?h ?fh area' n info net] assms(1,2) n len tk
    by (simp add: jpeg_packet_def)
  obtain info' net' where e: "emit_all (codec fh) [jpeg_packet h fh d m k seq t] info net = (info', net')"
    by fastforce
  have "jpeg_loop so d (int m) (int k) (int l) (int t) h fh area (seq + of_nat t) info net =
      jpeg_loop so d (int m) (int k) (int l) (int t + 1) ?h ?fh area' (seq + of_nat t + 1) info' net'"
    using cp snd e assms(5,6,7)
    by (subst jpeg_loop.simps, cases "t = 0"; cases "t = k") (simp_all add: jpeg_fragment_def del: emit_all.simps)
  then have "jpeg_loop so d (int m) (int k) (int l) (int t) h fh area (seq + of_nat t) info net =
    (case emit_all (codec fh) [jpeg_packet h fh d m k seq t] info net of
       (info', net') \<Rightarrow> jpeg_loop so d (int m) (int k) (int l) (int (Suc t)) ?h ?fh
         area' (seq + of_nat (Suc t)) info' net')"
    unfolding e by (simp add: ac_simps)
  with len show ?thesis by blast
qed

lemma jpeg_loop_lossless:
  assumes "lossless so" "codec fh < 16" "length area = 1472" "m \<le> 1472"
    and "0 < k" "t \<le> Suc k" "k * m + l = length d" "0 < l" "l \<le> m"
  shows "jpeg_loop so d (int m) (int k) (int l) (int t) h fh area (seq + of_nat t) info net =
    (case emit_all (codec fh) (map (jpeg_packet h fh d m k seq) [t..<Suc k]) info net of
       (info', net') \<Rightarrow> Some (0, seq + of_nat (Suc k), info', net'))"
  using assms(2,3,6)
proof (induction "Suc k - t" arbitrary: t h fh area info net)
  case 0
  then have "t = Suc k" by simp
  then show ?case by (subst jpeg_loop.simps) simp
next
  case (Suc x)
  then have t: "t \<le> k" "x = Suc k - Suc t" by simp_all
  define n where "n = (if t = k then l else m)"
  have n: "n = length (piece m t d)" "t * m + n \<le> length d"
    using piece_bounds [OF assms(7,9) t(1) n_def] by simp_all
  let ?h = "h\<lparr>seq_no := seq + of_nat t, marker := (if t = k then 1 else 0)\<rparr>"
  let ?fh = "fh\<lparr>samplerate := (if t = 0 then 2 else if t = k then 1 else 0)\<rparr>"
  obtain info' net' where e: "emit_all (codec fh) [jpeg_packet h fh d m k seq t] info net = (info', net')"
    by fastforce
  obtain area' where a: "length area' = 1472"
    "jpeg_loop so d (int m) (int k) (int l) (int t) h fh area (seq + of_nat t) info net =
     jpeg_loop so d (int m) (int k) (int l) (int (Suc t)) ?h ?fh area' (seq + of_nat (Suc t)) info' net'"
    using jpeg_step [OF assms(1) Suc.prems(1,2) assms(4,5) t(1) n_def n, of h seq info net]
    unfolding e prod.case by blast
  have "emit_all (codec fh) (map (jpeg_packet h fh d m k seq) [t..<Suc k]) info net =
        emit_all (codec fh) (map (jpeg_packet h fh d m k seq) [Suc t..<Suc k]) info' net'"
    using emit_all_Cons [OF e] t(1) by (simp add: upt_conv_Cons del: emit_all.simps upt_Suc)
  moreover have "Suc t \<le> Suc k" using t(1) by simp
  ultimately show ?case
    using Suc.hyps(1) [OF t(2), of ?fh area' ?h info' net'] Suc.prems(1) a by simp
qed

text \<open>All packets of a picture.\<close>

definition jpeg_packets ::
  "US_RTP_FIXED_HEADER \<Rightarrow> US_FRAMEHEAD \<Rightarrow> byte list \<Rightarrow> nat \<Rightarrow> u16 \<Rightarrow> byte list list" where
  "jpeg_packets h fh d m seq =
     (if length d \<le> m
      then [pack_head (h\<lparr>marker := 1, seq_no := seq\<rparr>) (fh\<lparr>samplerate := 3\<rparr>) @ d]
      else let k = (if length d mod m = 0 then length d div m - 1 else length d div m)
           in map (jpeg_packet h fh d m k seq) [0..<Suc k])"

lemma jpeg_send_lossless:
  assumes "lossless so" "codec fh < 16" "0 < m" "m \<le> 1472" "n = length d"
  shows "jpeg_send so d (int n) (int m) h fh seq info net =
    (case emit_all (codec fh) (jpeg_packets h fh d m seq) info net of
       (info', net') \<Rightarrow> Some (0, seq + of_nat (length (jpeg_packets h fh d m seq)), info', net'))"
proof (cases "n \<le> m")
  case True
  have "memcpy (replicate 1472 0) (int 0) d (int 0) (int n) = Some (d @ replicate (1472 - n) 0)"
    using True assms(4,5) by (subst memcpy_nat) simp_all
  then show ?thesis
    using True assms udp_send_packet [of so _ "h\<lparr>marker := 1, seq_no := seq\<rparr>" "fh\<lparr>samplerate := 3\<rparr>"
        "d @ replicate (1472 - n) 0" n info net]
    by (simp add: jpeg_send_def jpeg_packets_def Let_def)
next
  case False
  define l where "l = (if n mod m = 0 then m else n mod m)"
  define k where "k = (if n mod m = 0 then n div m - 1 else n div m)"
  have kl: "k * m + l = n" "0 < l" "l \<le> m" "0 < k"
    using last_piece [OF assms(3) _ l_def k_def] False by simp_all
  have d: "1 \<le> n div m" using assms(3) False div_greater_zero_iff [of n m] by simp
  have "int n smod int m = int (n mod m)" "int n sdiv int m = int (n div m)"
    using assms(3) False by (simp_all add: signed_modulo_int_def signed_divide_int_def zmod_int zdiv_int sgn_if)
  then have "jpeg_send so d (int n) (int m) h fh seq info net =
        jpeg_loop so d (int m) (int k) (int l) (int 0) h fh (replicate 1472 0) (seq + of_nat 0) info net"
    using False assms(3) d by (simp add: jpeg_send_def k_def l_def Let_def)
  also have "\<dots> = (case emit_all (codec fh) (map (jpeg_packet h fh d m k seq) [0..<Suc k]) info net of
       (info', net') \<Rightarrow> Some (0, seq + of_nat (Suc k), info', net'))"
    using jpeg_loop_lossless [OF assms(1,2) _ assms(4) kl(4), of _ 0 l d h seq info net] kl assms(5)
    by simp
  also have "map (jpeg_packet h fh d m k seq) [0..<Suc k] = jpeg_packets h fh d m seq"
    using False assms(5) by (simp add: jpeg_packets_def k_def Let_def)
  finally show ?thesis
    using False assms(5) by (simp add: jpeg_packets_def k_def Let_def split: if_splits)
qed

subsection \<open>What is on the wire: H.264\<close>

text \<open>
  The \<open>t\<close>-th of the \<open>k + 1\<close> FU-A fragments of the NAL unit \<open>nal\<close>, and all packets of a NAL unit.
\<close>

definition nalu_packet ::
  "US_RTP_FIXED_HEADER \<Rightarrow> US_FRAMEHEAD \<Rightarrow> byte list \<Rightarrow> nat \<Rightarrow> nat \<Rightarrow> u16 \<Rightarrow> nat \<Rightarrow> byte list" where
  "nalu_packet h fh nal m k seq t =
     pack_head (h\<lparr>seq_no := seq + of_nat t, marker := (if t = k then 1 else 0)\<rparr>) fh
     @ [fu_indicator 28 (drop_bit 5 (nal ! 0 AND 0x60)) (nal ! 0 AND 0x80),
        fu_header (nal ! 0 AND 0x1F) 0 (if t = k then 1 else 0) (if t = 0 then 1 else 0)]
     @ piece m t (tl nal)"

definition nalu_packets ::
  "US_RTP_FIXED_HEADER \<Rightarrow> US_FRAMEHEAD \<Rightarrow> byte list \<Rightarrow> nat \<Rightarrow> u16 \<Rightarrow> byte list list" where
  "nalu_packets h fh nal m seq =
     (let n = length nal - 1
      in if n \<le> m then [pack_head (h\<lparr>marker := 1, seq_no := seq\<rparr>) fh @ nal]
         else let k = (if n mod m = 0 then n div m - 1 else n div m)
              in map (nalu_packet h fh nal m k seq) [0..<Suc k])"

lemma nalu_packet_absorb [simp]:
  "nalu_packet (h\<lparr>seq_no := a, marker := b\<rparr>) fh nal m k seq = nalu_packet h fh nal m k seq"
  by (simp add: nalu_packet_def fun_eq_iff)

text \<open>\<open>nalu_ok d nalu nal\<close>: the descriptor \<open>nalu\<close> names the bytes \<open>nal\<close> of the frame \<open>d\<close>.\<close>

definition nalu_ok :: "byte list \<Rightarrow> US_NALU_t \<Rightarrow> byte list \<Rightarrow> bool" where
  "nalu_ok d nalu nal \<longleftrightarrow> nal \<noteq> [] \<and> length nal < 2 ^ 31
     \<and> (\<exists>off. nalu = \<lparr>nalu_len = of_nat (length nal), forbidden_bit = nal ! 0 AND 0x80,
          nal_reference_idc = nal ! 0 AND 0x60, nal_unit_type = nal ! 0 AND 0x1F, nalu_buf = int off\<rparr>
        \<and> off + length nal \<le> length d \<and> take (length nal) (drop off d) = nal)"

lemma nalu_copy:
  assumes "length area = 1472" "m \<le> 1470" "off + length nal \<le> length d" "nal \<noteq> []"
    and nal: "take (length nal) (drop off d) = nal"
    and "n = length (piece m t (tl nal))" "t * m + n \<le> length (tl nal)"
  shows "memcpy (area[0 := a, 1 := b]) 2 d (int off + int t * int m + 1) (int n) =
           Some ([a, b] @ piece m t (tl nal) @ drop (2 + n) area)"
proof -
  have n: "n \<le> m" using assms(6) by (simp add: length_piece)
  have tl: "tl nal = take (length nal - 1) (drop (Suc off) d)"
    using nal by (metis drop_Suc tl_drop tl_take)
  have nt: "n \<le> length nal - Suc (t * m)" using assms(7) by simp
  have "take n (drop (Suc off + t * m) d) = take n (drop (t * m) (tl nal))"
    using nt unfolding tl by (simp add: drop_take add.commute min_absorb1)
  also have "\<dots> = piece m t (tl nal)" using take_length_piece assms(6) by metis
  finally have p: "take n (drop (Suc off + t * m) d) = piece m t (tl nal)" .
  have b: "Suc off + t * m + n \<le> length d"
    using assms(3,4,7) by (cases nal) auto
  obtain x y area0 where "area = x # y # area0"
    using assms(1) by (cases area; cases "tl area") auto
  moreover have "memcpy (area[0 := a, 1 := b]) (int 2) d (int (Suc off + t * m)) (int n) =
     Some (take 2 (area[0 := a, 1 := b]) @ piece m t (tl nal) @ drop (2 + n) (area[0 := a, 1 := b]))"
    unfolding p [symmetric] by (rule memcpy_nat) (use assms(1,2) n b in simp_all)
  ultimately show ?thesis by (simp add: ac_simps)
qed

lemma nalu_step:
  assumes "lossless so" "codec fh < 16" "length area = 1472" "m \<le> 1470" "0 < k" "t \<le> k"
    and "nalu_ok d nalu nal" "n = (if t = k then l else m)" "n = length (piece m t (tl nal))"
    and "t * m + n \<le> length (tl nal)"
  shows "\<exists>area'. length area' = 1472 \<and>
    nalu_loop so d nalu (int m) (int k) (int l) (int t) h fh area (seq + of_nat t) info net =
    (case emit_all (codec fh) [nalu_packet h fh nal m k seq t] info net of
       (info', net') \<Rightarrow> nalu_loop so d nalu (int m) (int k) (int l) (int (Suc t))
         (h\<lparr>seq_no := seq + of_nat t, marker := (if t = k then 1 else 0)\<rparr>) fh
         area' (seq + of_nat (Suc t)) info' net')"
proof -
  let ?h = "h\<lparr>seq_no := seq + of_nat t, marker := (if t = k then 1 else 0)\<rparr>"
  obtain off where o: "nalu = \<lparr>nalu_len = of_nat (length nal), forbidden_bit = nal ! 0 AND 0x80,
      nal_reference_idc = nal ! 0 AND 0x60, nal_unit_type = nal ! 0 AND 0x1F, nalu_buf = int off\<rparr>"
    "off + length nal \<le> length d" "take (length nal) (drop off d) = nal" "nal \<noteq> []"
    using assms(7) by (auto simp: nalu_ok_def)
  let ?a = "fu_indicator 28 (drop_bit 5 (nal ! 0 AND 0x60)) (nal ! 0 AND 0x80)"
  let ?b = "fu_header (nal ! 0 AND 0x1F) 0 (if t = k then 1 else 0) (if t = 0 then 1 else 0)"
  have n: "n \<le> 1470" using assms(4,9) by (simp add: length_piece)
  define area' where "area' = [?a, ?b] @ piece m t (tl nal) @ drop (2 + n) area"
  have cp: "memcpy (area[0 := ?a, 1 := ?b]) 2 d (int off + int t * int m + 1) (int n) = Some area'"
    unfolding area'_def by (rule nalu_copy [OF assms(3,4) o(2,4,3) assms(9,10)])
  have len: "length area' = 1472" using n assms(3,9) by (simp add: area'_def)
  have tk: "take (n + 2) area' = [?a, ?b] @ piece m t (tl nal)"
    by (simp add: area'_def assms(9))
  have snd: "udp_send_rtp_data so info (pack_head ?h fh @ area') (int n + 30) net =
      Some (0, emit_all (codec fh) [nalu_packet h fh nal m k seq t] info net)"
    using udp_send_packet [of so _ ?h fh area' "n + 2" info net] assms(1,2) n len tk
    by (simp add: nalu_packet_def ac_simps)
  obtain info' net' where e: "emit_all (codec fh) [nalu_packet h fh nal m k seq t] info net = (info', net')"
    by fastforce
  have "nalu_loop so d nalu (int m) (int k) (int l) (int t) h fh area (seq + of_nat t) info net =
      nalu_loop so d nalu (int m) (int k) (int l) (int t + 1) ?h fh area' (seq + of_nat t + 1) info' net'"
    using cp snd e assms(5,6,8) o(1)
    by (subst nalu_loop.simps, cases "t = 0"; cases "t = k") (simp_all add: nalu_fragment_def del: emit_all.simps)
  then have "nalu_loop so d nalu (int m) (int k) (int l) (int t) h fh area (seq + of_nat t) info net =
    (case emit_all (codec fh) [nalu_packet h fh nal m k seq t] info net of
       (info', net') \<Rightarrow> nalu_loop so d nalu (int m) (int k) (int l) (int (Suc t)) ?h fh
         area' (seq + of_nat (Suc t)) info' net')"
    unfolding e by (simp add: ac_simps)
  with len show ?thesis by blast
qed

lemma nalu_loop_lossless:
  assumes "lossless so" "codec fh < 16" "length area = 1472" "m \<le> 1470"
    and "0 < k" "t \<le> Suc k" "k * m + l = length (tl nal)" "0 < l" "l \<le> m" "nalu_ok d nalu nal"
  shows "nalu_loop so d nalu (int m) (int k) (int l) (int t) h fh area (seq + of_nat t) info net =
    (case emit_all (codec fh) (map (nalu_packet h fh nal m k seq) [t..<Suc k]) info net of
       (info', net') \<Rightarrow> Some (0, seq + of_nat (Suc k), info', net'))"
  using assms(3,6)
proof (induction "Suc k - t" arbitrary: t h area info net)
  case 0
  then have "t = Suc k" by simp
  then show ?case by (subst nalu_loop.simps) simp
next
  case (Suc x)
  then have t: "t \<le> k" "x = Suc k - Suc t" by simp_all
  define n where "n = (if t = k then l else m)"
  have n: "n = length (piece m t (tl nal))" "t * m + n \<le> length (tl nal)"
    using piece_bounds [OF assms(7,9) t(1) n_def] by simp_all
  let ?h = "h\<lparr>seq_no := seq + of_nat t, marker := (if t = k then 1 else 0)\<rparr>"
  obtain info' net' where e: "emit_all (codec fh) [nalu_packet h fh nal m k seq t] info net = (info', net')"
    by fastforce
  obtain area' where a: "length area' = 1472"
    "nalu_loop so d nalu (int m) (int k) (int l) (int t) h fh area (seq + of_nat t) info net =
     nalu_loop so d nalu (int m) (int k) (int l) (int (Suc t)) ?h fh area' (seq + of_nat (Suc t)) info' net'"
    using nalu_step [OF assms(1,2) Suc.prems(1) assms(4,5) t(1) assms(10) n_def n, of h seq info net]
    unfolding e prod.case by blast
  have "emit_all (codec fh) (map (nalu_packet h fh nal m k seq) [t..<Suc k]) info net =
        emit_all (codec fh) (map (nalu_packet h fh nal m k seq) [Suc t..<Suc k]) info' net'"
    using emit_all_Cons [OF e] t(1) by (simp add: upt_conv_Cons del: emit_all.simps upt_Suc)
  moreover have "Suc t \<le> Suc k" using t(1) by simp
  ultimately show ?case
    using Suc.hyps(1) [OF t(2), of area' ?h info' net'] a by simp
qed

lemma UdpSendRtpNalu_lossless:
  assumes "lossless so" "codec fh < 16" "0 < m" "m \<le> 1470" "nalu_ok d nalu nal"
  shows "UdpSendRtpNalu so d nalu seq ts (int m) info fh net =
    (case emit_all (codec fh) (nalu_packets (video_hdr ts) fh nal m seq) info net of
       (info', net') \<Rightarrow>
         Some (0, seq + of_nat (length (nalu_packets (video_hdr ts) fh nal m seq)), info', net'))"
proof -
  define n where "n = length nal - 1"
  obtain off where o: "nalu_len nalu = of_nat (length nal)" "nalu_buf nalu = int off"
    "off + length nal \<le> length d" "take (length nal) (drop off d) = nal" "length nal = Suc n"
    "length nal < 2 ^ 31"
    using assms(5) by (fastforce simp: nalu_ok_def n_def)
  have sm: "n < 2 ^ 31" "m < 2 ^ 31" using o(5,6) assms(4) by simp_all
  have w: "nalu_len nalu - 1 = of_nat n" "word_of_int (int m) = (of_nat m :: u32)"
    using o(1,5) by simp_all
  have m0: "(of_nat m :: u32) \<noteq> 0"
    using unat_small [OF sm(2)] assms(3) by (metis less_numeral_extra(3) unat_0)
  show ?thesis
  proof (cases "n \<le> m")
    case True
    have "memcpy (replicate 1472 0) (int 0) d (int off) (int (length nal)) =
        Some (nal @ replicate (1472 - length nal) 0)"
      using True assms(4) o(3,4,5) by (subst memcpy_nat) simp_all
    then show ?thesis
      using True assms(1,2,4) o word_le_small [OF sm] uint_small [OF o(6)]
        udp_send_packet [of so _ "(video_hdr ts)\<lparr>marker := 1, seq_no := seq\<rparr>" fh
          "nal @ replicate (1472 - length nal) 0" "length nal" info net]
      unfolding UdpSendRtpNalu_def nalu_packets_def w n_def [symmetric] Let_def
      by (simp add: o(1,2,5) del: of_nat_Suc, simp)
  next
    case False
    define l where "l = (if n mod m = 0 then m else n mod m)"
    define k where "k = (if n mod m = 0 then n div m - 1 else n div m)"
    have kl: "k * m + l = n" "0 < l" "l \<le> m" "0 < k"
      using last_piece [OF assms(3) _ l_def k_def] False by simp_all
    have d1: "1 \<le> n div m" using assms(3) False div_greater_zero_iff [of n m] by simp
    have dm: "n mod m < 2 ^ 31" "n div m < 2 ^ 31" "n div m - 1 < 2 ^ 31"
      using sm(1) by (meson le_less_trans mod_le_divisor mod_less_eq_dividend div_le_dividend less_imp_diff_less)+
    have s: "sint (of_nat n mod of_nat m :: u32) = int (n mod m)"
      "sint (of_nat n div of_nat m :: u32) = int (n div m)"
      "sint (of_nat n div of_nat m - 1 :: u32) = int (n div m - 1)"
      using word_mod_small [OF sm] word_div_small [OF sm] sint_small [OF dm(1)] sint_small [OF dm(2)]
        sint_small [OF dm(3)] d1 by simp_all
    have "UdpSendRtpNalu so d nalu seq ts (int m) info fh net =
       nalu_loop so d nalu (int m) (int k) (int l) (int 0) (video_hdr ts) fh (replicate 1472 0)
         (seq + of_nat 0) info net"
      using False m0 word_le_small [OF sm] s
      unfolding UdpSendRtpNalu_def w Let_def by (simp add: k_def l_def)
    also have "\<dots> = (case emit_all (codec fh)
        (map (nalu_packet (video_hdr ts) fh nal m k seq) [0..<Suc k]) info net of
         (info', net') \<Rightarrow> Some (0, seq + of_nat (Suc k), info', net'))"
      using nalu_loop_lossless [OF assms(1,2) _ assms(4) kl(4) _ _ kl(2,3) assms(5), of _ 0] kl o(5)
      by simp
    also have "map (nalu_packet (video_hdr ts) fh nal m k seq) [0..<Suc k]
        = nalu_packets (video_hdr ts) fh nal m seq"
      using False unfolding nalu_packets_def n_def [symmetric] Let_def k_def by simp
    finally show ?thesis
      using False unfolding nalu_packets_def n_def [symmetric] Let_def k_def [symmetric] by simp
  qed
qed

text \<open>A frame is its NAL units, each behind a start code.\<close>

definition start_code :: "byte list" where "start_code = [0, 0, 0, 1]"

definition frame_bytes :: "byte list list \<Rightarrow> byte list" where
  "frame_bytes nals = concat (map (\<lambda>n. start_code @ n) nals)"

fun frame_packets ::
  "US_RTP_FIXED_HEADER \<Rightarrow> US_FRAMEHEAD \<Rightarrow> nat \<Rightarrow> u16 \<Rightarrow> byte list list \<Rightarrow> byte list list" where
  "frame_packets h fh m seq [] = []"
| "frame_packets h fh m seq (n # ns) =
     nalu_packets h fh n m seq
     @ frame_packets h fh m (seq + of_nat (length (nalu_packets h fh n m seq))) ns"

text \<open>
  \<open>param_set nal\<close>: a sequence or picture parameter set, which H.264's emulation prevention keeps free
  of start codes.
\<close>

definition param_set :: "byte list \<Rightarrow> bool" where
  "param_set nal \<longleftrightarrow> nal \<noteq> [] \<and> (nal ! 0 AND 0x1F = 7 \<or> nal ! 0 AND 0x1F = 8)
     \<and> (\<forall>i < length nal. take 4 (drop i (nal @ start_code)) \<noteq> start_code)"

definition plain_unit :: "byte list \<Rightarrow> bool" where
  "plain_unit nal \<longleftrightarrow> nal \<noteq> [] \<and> nal ! 0 AND 0x1F \<noteq> 7 \<and> nal ! 0 AND 0x1F \<noteq> 8"

lemma start_code_at_eq:
  assumes "p + 4 \<le> length d"
  shows "start_code_at d (int p) = Some (take 4 (drop p d) = start_code)"
proof -
  obtain a b c e r where r: "drop p d = a # b # c # e # r"
    using assms by (cases "drop p d"; cases "tl (drop p d)"; cases "tl (tl (drop p d))";
        cases "tl (tl (tl (drop p d)))") (auto dest: arg_cong [where f = length])
  have "d ! (p + i) = drop p d ! i" for i using assms by simp
  from this [of 0] this [of 1] this [of 2] this [of 3]
  have "peek d (int p) = Some a" "peek d (int p + 1) = Some b" "peek d (int p + 2) = Some c"
    "peek d (int p + 3) = Some e"
    using assms r peek_nat [of p d] peek_nat [of "p + 1" d] peek_nat [of "p + 2" d]
      peek_nat [of "p + 3" d] by (simp_all add: add.commute)
  then show ?thesis by (simp add: start_code_at_def start_code_def r)
qed

lemma scan_nalu_finds:
  assumes "p < q" "int q < ptail" "q + 4 \<le> length d" "take 4 (drop q d) = start_code"
    and "\<And>i. p < i \<Longrightarrow> i < q \<Longrightarrow> take 4 (drop i d) \<noteq> start_code"
  shows "scan_nalu d ptail (int p) = Some (int q)"
  using assms(1,5)
proof (induction "q - p" arbitrary: p)
  case (Suc x)
  have a: "start_code_at d (int p + 1) = Some (take 4 (drop (Suc p) d) = start_code)"
    using start_code_at_eq [of "Suc p" d] Suc.prems(1) assms(3) by (simp add: ac_simps)
  show ?case
  proof (cases "Suc p = q")
    case True
    then show ?thesis using a assms(4) by (subst scan_nalu.simps) auto
  next
    case False
    then have "scan_nalu d ptail (int (Suc p)) = Some (int q)"
      using Suc.hyps(1) [of "Suc p"] Suc.hyps(2) Suc.prems by auto
    moreover have "take 4 (drop (Suc p) d) \<noteq> start_code" using Suc.prems False by simp
    ultimately show ?thesis
      using a False Suc.prems(1) assms(2) by (subst scan_nalu.simps) (simp add: ac_simps)
  qed
qed simp

lemma frame_bytes_Cons: "frame_bytes (n # ns) = start_code @ n @ frame_bytes ns"
  by (simp add: frame_bytes_def)

lemma length_start_code [simp]: "length start_code = 4" by (simp add: start_code_def)

text \<open>Where the loop goes from a unit that starts at \<open>p\<close>.\<close>

lemma next_nalu_plain:
  assumes "drop p d = start_code @ nal" "plain_unit nal"
  shows "next_nalu d ptail (int p) = Some ptail"
proof -
  have l: "length d = p + 4 + length nal" "nal \<noteq> []"
    using assms length_of_drop [OF assms(1)] by (auto simp: plain_unit_def)
  have "start_code_at d (int p) = Some True"
    using start_code_at_eq [of p d] assms(1) l by simp
  moreover have "peek d (int p + 4) = Some (nal ! 0)"
  proof -
    have "d ! (p + 4) = drop p d ! 4" using l by simp
    also have "\<dots> = nal ! 0" unfolding assms(1) by (simp add: nth_append)
    finally show ?thesis using peek_nat [of "p + 4" d] l by (simp add: ac_simps)
  qed
  ultimately show ?thesis using assms(2) by (simp add: next_nalu_def plain_unit_def)
qed

lemma no_start_code_inside:
  assumes "drop p d = start_code @ nal @ start_code @ rest" "param_set nal"
    and "p < i" "i < p + 4 + length nal"
  shows "take 4 (drop i d) \<noteq> start_code"
proof (cases "i < p + 4")
  case True
  obtain a r where n: "nal = a # r" using assms(2) by (cases nal) (auto simp: param_set_def)
  have "drop i d = drop (i - p) (drop p d)" using assms(3) by simp
  moreover have "i - p = 1 \<or> i - p = 2 \<or> i - p = 3" using True assms(3) by linarith
  ultimately show ?thesis unfolding assms(1) n
    by (auto simp: start_code_def eval_nat_numeral)
next
  case False
  define j where "j = i - p - 4"
  have j: "j < length nal" "i = p + 4 + j" using False assms(3,4) by (simp_all add: j_def)
  have "drop (p + 4) d = nal @ start_code @ rest" using drop_of_drop [OF assms(1)] by simp
  then have "drop i d = drop j (nal @ start_code @ rest)"
    unfolding j(2) by (metis drop_drop add.commute)
  then have "take 4 (drop i d) = take 4 (drop j (nal @ start_code))"
    using j(1) by simp
  then show ?thesis using assms(2) j(1) by (simp add: param_set_def)
qed

lemma next_nalu_param:
  assumes d: "drop p d = start_code @ nal @ start_code @ rest" and "param_set nal"
    and "int (p + 4 + length nal) < ptail"
  shows "next_nalu d ptail (int p) = Some (int (p + 4 + length nal))"
proof -
  have l: "length d = p + 8 + length nal + length rest" "nal \<noteq> []"
    using assms(2) length_of_drop [OF d] by (auto simp: param_set_def)
  have q: "drop (p + 4 + length nal) d = start_code @ rest"
    using drop_of_drop [of p d "start_code @ nal"] d by (simp add: ac_simps)
  have "start_code_at d (int p) = Some True"
    using start_code_at_eq [of p d] d l by simp
  moreover have "peek d (int p + 4) = Some (nal ! 0)"
  proof -
    have "d ! (p + 4) = drop p d ! 4" using l by simp
    also have "\<dots> = nal ! 0" unfolding d using l(2) by (simp add: nth_append)
    finally show ?thesis using peek_nat [of "p + 4" d] l by (simp add: ac_simps)
  qed
  moreover have "scan_nalu d ptail (int p) = Some (int (p + 4 + length nal))"
    by (rule scan_nalu_finds) (use assms l q no_start_code_inside [OF d assms(2)] in auto)
  ultimately show ?thesis using assms(2) by (auto simp: next_nalu_def param_set_def)
qed

lemma mk_nalu_ok:
  assumes d: "drop p d = start_code @ nal @ rest" and "nal \<noteq> []" "length nal < 2 ^ 31"
  shows "\<exists>nalu. mk_nalu d (int p) (int (length nal)) = Some nalu \<and> nalu_ok d nalu nal"
proof -
  have l: "length d = p + 4 + length nal + length rest"
    using assms(2) length_of_drop [OF d] by simp
  have "d ! (p + 4) = drop p d ! 4" using l by simp
  also have "\<dots> = nal ! 0" unfolding d using assms(2) by (simp add: nth_append)
  finally have "peek d (int p + 4) = Some (nal ! 0)"
    using peek_nat [of "p + 4" d] l assms(2) by (simp add: ac_simps)
  moreover have "drop (p + 4) d = nal @ rest"
    using drop_of_drop [OF d] by simp
  ultimately show ?thesis
    using l assms(2,3) by (auto simp: mk_nalu_def nalu_ok_def intro!: exI [of _ "p + 4"])
qed

lemma ts_current_below: "\<not> (0xFFFFFFFF \<le> (t * 90 :: u32))"
proof
  assume "0xFFFFFFFF \<le> t * 90"
  moreover have m: "(0xFFFFFFFF :: u32) = - 1" by simp
  ultimately have "t * 90 = - 1" by (simp add: m word_order.extremum_unique del: word_not_simps)
  moreover have "even (t * 90)" by simp
  ultimately show False by simp
qed

lemma video_loop_lossless:
  assumes "lossless so" "codec fh < 16" "0 < m" "m \<le> 1470" "length d < 2 ^ 31"
    and "list_all param_set ps" "plain_unit nal"
    and "drop p d = frame_bytes (ps @ [nal])"
  shows "video_loop so d (int (length d)) (int m) tick fh (int p) torg seq info net =
    (let pk = frame_packets (video_hdr (tick * 90)) fh m seq (ps @ [nal])
     in case emit_all (codec fh) pk info net of
          (info', net') \<Rightarrow> Some (torg, seq + of_nat (length pk), info', net'))"
  using assms(6,8)
proof (induction ps arbitrary: p seq info net)
  case Nil
  then have d: "drop p d = start_code @ nal" by (simp add: frame_bytes_def)
  have n: "nal \<noteq> []" using assms(7) by (simp add: plain_unit_def)
  then have l: "length d = p + 4 + length nal" using length_of_drop [OF d] by simp
  obtain nalu where "mk_nalu d (int p) (int (length nal)) = Some nalu" "nalu_ok d nalu nal"
    using mk_nalu_ok [of p d nal "[]"] d n l assms(5) by auto
  then show ?case
    using UdpSendRtpNalu_lossless [OF assms(1-4), of d nalu nal seq "tick * 90" info net]
      next_nalu_plain [OF d assms(7)] ts_current_below [of tick] l
    by (subst video_loop.simps) (auto simp: Let_def split: prod.splits)
next
  case (Cons a ps)
  let ?q = "p + 4 + length a"
  let ?pk = "nalu_packets (video_hdr (tick * 90)) fh a m seq"
  have a: "param_set a" "a \<noteq> []" using Cons.prems(1) by (simp_all add: param_set_def)
  obtain rest where r: "frame_bytes (ps @ [nal]) = start_code @ rest" "rest \<noteq> []"
    using assms(7) by (cases ps) (auto simp: frame_bytes_def plain_unit_def)
  have d: "drop p d = start_code @ a @ start_code @ rest"
    using Cons.prems(2) r(1) by (simp add: frame_bytes_Cons)
  then have l: "length d = ?q + 4 + length rest" using a(2) length_of_drop [OF d] by simp
  have q: "drop ?q d = frame_bytes (ps @ [nal])"
    using drop_of_drop [of p d "start_code @ a"] d r(1) by (simp add: ac_simps)
  have nx: "next_nalu d (int (length d) - 4) (int p) = Some (int ?q)" "int ?q < int (length d) - 4"
    using next_nalu_param [OF d a(1)] l r(2) by auto
  obtain nalu where nu: "mk_nalu d (int p) (int (length a)) = Some nalu" "nalu_ok d nalu a"
    using mk_nalu_ok [of p d a] d a(2) l assms(5) by auto
  obtain info' net' where e: "emit_all (codec fh) ?pk info net = (info', net')" by fastforce
  have "video_loop so d (int (length d)) (int m) tick fh (int p) torg seq info net =
     video_loop so d (int (length d)) (int m) tick fh (int ?q) torg (seq + of_nat (length ?pk)) info' net'"
    using UdpSendRtpNalu_lossless [OF assms(1-4) nu(2), of seq "tick * 90" info net]
      nx nu(1) ts_current_below [of tick] e
    by (subst video_loop.simps) (simp add: Let_def)
  moreover have "list_all param_set ps" using Cons.prems(1) by simp
  ultimately show ?case
    using Cons.IH [OF _ q, of "seq + of_nat (length ?pk)" info' net'] e
    by (simp add: Let_def emit_all_append ac_simps)
qed

subsection \<open>Nothing behind the frame is read\<close>

text \<open>
  The frame is a prefix of a larger buffer.  A run that is defined on the frame alone is the same run on
  the whole buffer.
\<close>

lemma memcpy_longer: "memcpy dst i src s n = Some v \<Longrightarrow> memcpy dst i (src @ x) s n = Some v"
  by (auto simp: memcpy_def split: if_splits)

lemma peek_longer: "peek src s = Some v \<Longrightarrow> peek (src @ x) s = Some v"
  by (auto simp: peek_def nth_append split: if_splits)

lemma start_code_at_longer: "start_code_at d p = Some v \<Longrightarrow> start_code_at (d @ x) p = Some v"
  by (auto simp: start_code_at_def peek_longer split: bind_splits if_splits)

lemma scan_nalu_longer: "scan_nalu d ptail p = Some v \<Longrightarrow> scan_nalu (d @ x) ptail p = Some v"
proof (induction d ptail p rule: scan_nalu.induct)
  case (1 d ptail pos)
  obtain s where s: "start_code_at d (pos + 1) = Some s"
    using "1.prems" by (subst (asm) scan_nalu.simps) (auto split: option.splits)
  then have s': "start_code_at (d @ x) (pos + 1) = Some s" by (rule start_code_at_longer)
  show ?case
    using "1.IH" [OF s] "1.prems" s s'
    by (subst scan_nalu.simps, subst (asm) (2) scan_nalu.simps) (auto split: if_splits)
qed

lemma next_nalu_longer: "next_nalu d ptail p = Some v \<Longrightarrow> next_nalu (d @ x) ptail p = Some v"
  by (auto simp: next_nalu_def peek_longer start_code_at_longer scan_nalu_longer
      split: bind_splits if_splits)

lemma mk_nalu_longer: "mk_nalu d p n = Some v \<Longrightarrow> mk_nalu (d @ x) p n = Some v"
  by (auto simp: mk_nalu_def peek_longer split: bind_splits)

lemma nalu_fragment_longer:
  "nalu_fragment so d nalu m k l t h fh area seq info net = Some v \<Longrightarrow>
   nalu_fragment so (d @ x) nalu m k l t h fh area seq info net = Some v"
  unfolding nalu_fragment_def Let_def
  by (cases "t = 0"; cases "k = t") (auto simp: memcpy_longer split: bind_splits)

lemma jpeg_fragment_longer:
  "jpeg_fragment so d m k l t h fh area seq info net = Some v \<Longrightarrow>
   jpeg_fragment so (d @ x) m k l t h fh area seq info net = Some v"
  unfolding jpeg_fragment_def Let_def
  by (cases "t = 0"; cases "k = t") (auto simp: memcpy_longer split: bind_splits)

lemma nalu_loop_longer:
  "nalu_loop so d nalu m k l t h fh area seq info net = Some v \<Longrightarrow>
   nalu_loop so (d @ x) nalu m k l t h fh area seq info net = Some v"
proof (induction so d nalu m k l t h fh area seq info net rule: nalu_loop.induct)
  case (1 so d nalu m k l t h fh area seq info net)
  show ?case
  proof (cases "t \<le> k")
    case False
    then show ?thesis using "1.prems" by (simp add: nalu_loop.simps)
  next
    case True
    obtain r h' area' info' net' where
      f: "nalu_fragment so d nalu m k l t h fh area seq info net = Some (r, h', area', info', net')"
      using "1.prems" True by (subst (asm) nalu_loop.simps) (auto split: option.splits)
    note f' = nalu_fragment_longer [OF f, of x]
    have "r < 0 \<or> nalu_loop so (d @ x) nalu m k l (t + 1) h' fh area' (seq + 1) info' net' = Some v"
      using "1.IH" [OF True f refl refl refl refl] "1.prems" f True
      by (subst (asm) (2) nalu_loop.simps) (auto split: if_splits)
    then show ?thesis
      using "1.prems" f f' True
      by (subst nalu_loop.simps, subst (asm) (2) nalu_loop.simps) (auto split: if_splits)
  qed
qed

lemma jpeg_loop_longer:
  "jpeg_loop so d m k l t h fh area seq info net = Some v \<Longrightarrow>
   jpeg_loop so (d @ x) m k l t h fh area seq info net = Some v"
proof (induction so d m k l t h fh area seq info net rule: jpeg_loop.induct)
  case (1 so d m k l t h fh area seq info net)
  show ?case
  proof (cases "t \<le> k")
    case False
    then show ?thesis using "1.prems" by (simp add: jpeg_loop.simps)
  next
    case True
    obtain r h' fh' area' info' net' where
      f: "jpeg_fragment so d m k l t h fh area seq info net = Some (r, h', fh', area', info', net')"
      using "1.prems" True by (subst (asm) jpeg_loop.simps) (auto split: option.splits)
    note f' = jpeg_fragment_longer [OF f, of x]
    have "r < 0 \<or> jpeg_loop so (d @ x) m k l (t + 1) h' fh' area' (seq + 1) info' net' = Some v"
      using "1.IH" [OF True f refl refl refl refl refl] "1.prems" f True
      by (subst (asm) (2) jpeg_loop.simps) (auto split: if_splits)
    then show ?thesis
      using "1.prems" f f' True
      by (subst jpeg_loop.simps, subst (asm) (2) jpeg_loop.simps) (auto split: if_splits)
  qed
qed

lemma jpeg_send_longer:
  "jpeg_send so d n m h fh seq info net = Some v \<Longrightarrow> jpeg_send so (d @ x) n m h fh seq info net = Some v"
  unfolding jpeg_send_def Let_def
  by (auto simp: memcpy_longer jpeg_loop_longer split: if_splits bind_splits)

lemma UdpSendRtpNalu_longer:
  "UdpSendRtpNalu so d nalu seq ts m info fh net = Some v \<Longrightarrow>
   UdpSendRtpNalu so (d @ x) nalu seq ts m info fh net = Some v"
  unfolding UdpSendRtpNalu_def Let_def
  by (auto simp: memcpy_longer nalu_loop_longer split: if_splits bind_splits)

lemma video_loop_longer:
  "video_loop so d nLen m tick fh pos torg seq info net = Some v \<Longrightarrow>
   video_loop so (d @ x) nLen m tick fh pos torg seq info net = Some v"
proof (induction so d nLen m tick fh pos torg seq info net rule: video_loop.induct)
  case (1 so d nLen m tick fh pos torg seq info net)
  let ?torg = "if 0xFFFFFFFF \<le> tick * 90 then 0 else torg"
  obtain p where p: "next_nalu d (nLen - 4) pos = Some p"
    using "1.prems" by (subst (asm) video_loop.simps) (auto simp: Let_def split: option.splits)
  let ?n = "if nLen - 4 \<le> p then nLen - pos - 4 else p - pos - 4"
  obtain nalu where n: "mk_nalu d pos ?n = Some nalu"
    using "1.prems" p by (subst (asm) video_loop.simps) (auto simp: Let_def split: option.splits if_splits)
  obtain r seq' info' net' where
    u: "UdpSendRtpNalu so d nalu seq (tick * 90) m info fh net = Some (r, seq', info', net')"
    using "1.prems" p n
    by (subst (asm) video_loop.simps) (auto simp: Let_def split: option.splits if_splits)
  note l = next_nalu_longer [OF p, of x] mk_nalu_longer [OF n, of x] UdpSendRtpNalu_longer [OF u, of x]
  have step: "video_loop so e nLen m tick fh pos torg seq info net =
      (if nLen - 4 \<le> p then Some (?torg, seq', info', net')
       else video_loop so e nLen m tick fh p ?torg seq' info' net')"
    if "next_nalu e (nLen - 4) pos = Some p" "mk_nalu e pos ?n = Some nalu"
      "UdpSendRtpNalu so e nalu seq (tick * 90) m info fh net = Some (r, seq', info', net')" for e
    using that by (subst video_loop.simps) (auto simp: Let_def)
  have "video_loop so (d @ x) nLen m tick fh p ?torg seq' info' net' = Some v" if "\<not> nLen - 4 \<le> p"
    by (rule "1.IH" [OF refl refl refl p that _ u refl refl refl])
       (use n "1.prems" that in \<open>simp_all add: step [OF p n u]\<close>)
  then show ?case
    using "1.prems" unfolding step [OF p n u] step [OF l] by (auto split: if_splits)
qed

end
