(* ===== verification/LiveRtp.thy ===== *)
theory LiveRtp
  imports RtpBuild
begin

section \<open>The RTP packets of the live module (src/reach\_edukit/src/room/lives/rtp\_build.c)\<close>

text \<open>
  The live module of a room cuts frames into packets of its own before it sends them to the viewers.  The file
  is a sibling of \<^verbatim>\<open>reach_rtp_build.c\<close> (\<^theory_text>\<open>RtpBuild\<close>): one sequence number and one time origin per handle, no
  test of the data pointer, and sound packets that carry the sample rate in the height field.  Every packet
  leaves through \<^verbatim>\<open>send_rtp_video(info, sendbuf, bytes)\<close> of \<^verbatim>\<open>lives.c\<close>, whose \<^verbatim>\<open>void *info\<close> the packetiser
  only passes on; here it is the state \<open>'s\<close> of an argument \<open>tx\<close>, and \<^theory_text>\<open>Lives\<close> puts in the real function.

  The locale \<open>packet_sender\<close> states what the packetiser relies on: a packet inside the buffer is taken, and the
  return value is not negative.  Under that contract the packets are the ones that the UDP sending module would
  emit, whose layout and reassembly \<^theory_text>\<open>RtpBuild\<close>, \<^theory_text>\<open>UdpRecv\<close> and \<^theory_text>\<open>Stream\<close> treat.  \<^const>\<open>None\<close> is
  undefined behaviour.
\<close>

type_synonym 's sender = "byte list \<Rightarrow> int \<Rightarrow> 's \<Rightarrow> (int \<times> 's) option"

record RTP_BUILD_INFO =
  lv_time_org :: u32
  lv_seq_num :: u32
  lv_ssrc :: u32
  lv_payload :: u32

subsection \<open>JPEG pictures\<close>

definition live_jpeg_fragment ::
  "'s sender \<Rightarrow> byte list \<Rightarrow> int \<Rightarrow> int \<Rightarrow> int \<Rightarrow> int \<Rightarrow> US_RTP_FIXED_HEADER \<Rightarrow> US_FRAMEHEAD
    \<Rightarrow> byte list \<Rightarrow> u16 \<Rightarrow> 's \<Rightarrow> (int \<times> US_RTP_FIXED_HEADER \<times> US_FRAMEHEAD \<times> byte list \<times> 's) option" where
  "live_jpeg_fragment tx d m k l t h fh area seq s = do {
     let (mk, sr, off, n) =
       (if t = 0 then (0, 2, 0, m)
        else if k = t then (1, 1, t * m, l)
        else (0, 0, t * m, m));
     let h = h\<lparr>seq_no := seq, marker := mk\<rparr>;
     let fh = fh\<lparr>samplerate := sr\<rparr>;
     area' \<leftarrow> memcpy area 0 d off n;
     (r, s') \<leftarrow> tx (pack_head h fh @ area') (n + 28) s;
     Some (r, h, fh, area', s')
   }"

function live_jpeg_loop ::
  "'s sender \<Rightarrow> byte list \<Rightarrow> int \<Rightarrow> int \<Rightarrow> int \<Rightarrow> int \<Rightarrow> US_RTP_FIXED_HEADER \<Rightarrow> US_FRAMEHEAD
    \<Rightarrow> byte list \<Rightarrow> u16 \<Rightarrow> 's \<Rightarrow> (int \<times> u16 \<times> 's) option" where
  "live_jpeg_loop tx d m k l t h fh area seq s =
     (if t \<le> k then
        (case live_jpeg_fragment tx d m k l t h fh area seq s of
           None \<Rightarrow> None
         | Some (r, h', fh', area', s') \<Rightarrow>
             if r < 0 then Some (-1, seq + 1, s')
             else live_jpeg_loop tx d m k l (t + 1) h' fh' area' (seq + 1) s')
      else Some (0, seq, s))"
  by pat_completeness auto
termination
  by (relation "measure (\<lambda>(tx, d, m, k, l, t, h, fh, area, seq, s). nat (k + 1 - t))") auto

declare live_jpeg_loop.simps [simp del]

definition live_jpeg_send ::
  "'s sender \<Rightarrow> byte list \<Rightarrow> int \<Rightarrow> int \<Rightarrow> US_RTP_FIXED_HEADER \<Rightarrow> US_FRAMEHEAD
    \<Rightarrow> u16 \<Rightarrow> 's \<Rightarrow> (int \<times> u16 \<times> 's) option" where
  "live_jpeg_send tx d nLen m h fh seq s =
     (if nLen \<le> m then do {
        let h = h\<lparr>marker := 1, seq_no := seq\<rparr>;
        let fh = fh\<lparr>samplerate := 3\<rparr>;
        area \<leftarrow> memcpy (replicate 1472 0) 0 d 0 nLen;
        (r, s') \<leftarrow> tx (pack_head h fh @ area) (nLen + 28) s;
        Some (if r < 0 then -1 else 0, seq + 1, s')
      }
      else if m = 0 then None
      else (let l = nLen smod m;
                k = (if l = 0 then nLen sdiv m - 1 else nLen sdiv m);
                l = (if l = 0 then m else l)
            in live_jpeg_loop tx d m k l 0 h fh (replicate 1472 0) seq s))"

text \<open>The handle is not tested: a null pointer is dereferenced.\<close>

definition rtp_build_jpeg_data ::
  "'s sender \<Rightarrow> RTP_BUILD_INFO option \<Rightarrow> int \<Rightarrow> byte list \<Rightarrow> u32 \<Rightarrow> int \<Rightarrow> US_FRAMEHEAD \<Rightarrow> 's
    \<Rightarrow> (int \<times> RTP_BUILD_INFO option \<times> 's) option" where
  "rtp_build_jpeg_data tx handle nLen pData ts_current rtp_mtu data_info s = do {
     hnd \<leftarrow> handle;
     let fh = \<lparr>codec = codec data_info, samplerate = 0, framerate = framerate data_info,
               width = width data_info, height = height data_info, Iframe = Iframe data_info,
               reserve = reserve data_info, framelength = framelength data_info\<rparr>;
     (r, seq, s') \<leftarrow>
       live_jpeg_send tx pData nLen (rtp_mtu - 28) (video_hdr ts_current) fh (ucast (lv_seq_num hnd)) s;
     Some (r, Some (hnd\<lparr>lv_seq_num := set_low16 (lv_seq_num hnd) seq\<rparr>), s')
   }"

subsection \<open>H.264 frames\<close>

definition live_nalu_fragment ::
  "'s sender \<Rightarrow> byte list \<Rightarrow> US_NALU_t \<Rightarrow> int \<Rightarrow> int \<Rightarrow> int \<Rightarrow> int \<Rightarrow> US_RTP_FIXED_HEADER
    \<Rightarrow> US_FRAMEHEAD \<Rightarrow> byte list \<Rightarrow> u16 \<Rightarrow> 's \<Rightarrow> (int \<times> US_RTP_FIXED_HEADER \<times> byte list \<times> 's) option" where
  "live_nalu_fragment tx d nalu mtu k l t h fh area seq s = do {
     let (mk, st, e, off, n) =
       (if t = 0 then (0, 1, 0, nalu_buf nalu + 1, mtu)
        else if k = t then (1, 0, 1, nalu_buf nalu + t * mtu + 1, l)
        else (0, 0, 0, nalu_buf nalu + t * mtu + 1, mtu));
     let h = h\<lparr>seq_no := seq, marker := mk\<rparr>;
     let area = area[0 := fu_indicator 28 (drop_bit 5 (nal_reference_idc nalu)) (forbidden_bit nalu),
                     1 := fu_header (nal_unit_type nalu) 0 e st];
     area' \<leftarrow> memcpy area 2 d off n;
     (r, s') \<leftarrow> tx (pack_head h fh @ area') (n + 30) s;
     Some (r, h, area', s')
   }"

function live_nalu_loop ::
  "'s sender \<Rightarrow> byte list \<Rightarrow> US_NALU_t \<Rightarrow> int \<Rightarrow> int \<Rightarrow> int \<Rightarrow> int \<Rightarrow> US_RTP_FIXED_HEADER
    \<Rightarrow> US_FRAMEHEAD \<Rightarrow> byte list \<Rightarrow> u16 \<Rightarrow> 's \<Rightarrow> (int \<times> u16 \<times> 's) option" where
  "live_nalu_loop tx d nalu mtu k l t h fh area seq s =
     (if t \<le> k then
        (case live_nalu_fragment tx d nalu mtu k l t h fh area seq s of
           None \<Rightarrow> None
         | Some (r, h', area', s') \<Rightarrow>
             if r < 0 then Some (-1, seq + 1, s')
             else live_nalu_loop tx d nalu mtu k l (t + 1) h' fh area' (seq + 1) s')
      else Some (0, seq, s))"
  by pat_completeness auto
termination
  by (relation "measure (\<lambda>(tx, d, nalu, mtu, k, l, t, h, fh, area, seq, s). nat (k + 1 - t))") auto

declare live_nalu_loop.simps [simp del]

definition SendRtpNalu ::
  "'s sender \<Rightarrow> byte list \<Rightarrow> US_NALU_t \<Rightarrow> u16 \<Rightarrow> u32 \<Rightarrow> int \<Rightarrow> US_FRAMEHEAD
    \<Rightarrow> 's \<Rightarrow> (int \<times> u16 \<times> 's) option" where
  "SendRtpNalu tx d nalu seq_num ts_current rtp_mtu data_info s =
     (let h = video_hdr ts_current; fh = data_info; m = word_of_int rtp_mtu :: u32
      in if nalu_len nalu - 1 \<le> m then do {
           let h = h\<lparr>marker := 1, seq_no := seq_num\<rparr>;
           area \<leftarrow> memcpy (replicate 1472 0) 0 d (nalu_buf nalu) (uint (nalu_len nalu));
           (r, s') \<leftarrow> tx (pack_head h fh @ area) (uint (nalu_len nalu) + 28) s;
           Some (if r < 0 then -1 else 0, seq_num + 1, s')
         }
         else if m = 0 then None
         else (let l = sint ((nalu_len nalu - 1) mod m);
                   k = (if l = 0 then sint ((nalu_len nalu - 1) div m - 1)
                        else sint ((nalu_len nalu - 1) div m));
                   l = (if l = 0 then rtp_mtu else l)
               in live_nalu_loop tx d nalu rtp_mtu k l 0 h fh (replicate 1472 0) seq_num s))"

function live_video_loop ::
  "'s sender \<Rightarrow> byte list \<Rightarrow> int \<Rightarrow> int \<Rightarrow> u32 \<Rightarrow> US_FRAMEHEAD \<Rightarrow> int
    \<Rightarrow> u32 \<Rightarrow> u16 \<Rightarrow> 's \<Rightarrow> (u32 \<times> u16 \<times> 's) option" where
  "live_video_loop tx d nLen mtu timetick data_info pos torg seq s =
     (let ts_current = timetick * 90;
          torg = (if ts_current \<ge> 0xFFFFFFFF then 0 else torg);
          ptail = nLen - 4
      in case next_nalu d ptail pos of
           None \<Rightarrow> None
         | Some pos' \<Rightarrow>
             if pos' \<ge> ptail then
               (case mk_nalu d pos (nLen - pos - 4) of
                  None \<Rightarrow> None
                | Some nalu \<Rightarrow>
                    (case SendRtpNalu tx d nalu seq ts_current mtu data_info s of
                       None \<Rightarrow> None
                     | Some (r, seq', s') \<Rightarrow> Some (torg, seq', s')))
             else
               (case mk_nalu d pos (pos' - pos - 4) of
                  None \<Rightarrow> None
                | Some nalu \<Rightarrow>
                    (case SendRtpNalu tx d nalu seq ts_current mtu data_info s of
                       None \<Rightarrow> None
                     | Some (r, seq', s') \<Rightarrow>
                         live_video_loop tx d nLen mtu timetick data_info pos' torg seq' s')))"
  by pat_completeness auto
termination
  by (relation "measure (\<lambda>(tx, d, nLen, mtu, timetick, di, pos, torg, seq, s).
        nat (nLen - 4 - pos))") (auto dest: next_nalu_advances)

declare live_video_loop.simps [simp del]

definition rtp_build_video_data ::
  "'s sender \<Rightarrow> RTP_BUILD_INFO option \<Rightarrow> int \<Rightarrow> byte list \<Rightarrow> int \<Rightarrow> u32 \<Rightarrow> US_FRAMEHEAD \<Rightarrow> 's
    \<Rightarrow> (int \<times> RTP_BUILD_INFO option \<times> 's) option" where
  "rtp_build_video_data tx handle nLen pData rtp_mtu nowtime data_info s =
     (case handle of
        None \<Rightarrow> Some (-1, handle, s)
      | Some hnd \<Rightarrow>
          if rtp_mtu < 228 then Some (0, handle, s)
          else do {
            let torg = rebase_time (lv_time_org hnd) nowtime;
            (torg', seq, s') \<leftarrow>
              live_video_loop tx pData nLen (rtp_mtu - 14) (nowtime - torg) data_info 0 torg
                (ucast (lv_seq_num hnd)) s;
            Some (0, Some (hnd\<lparr>lv_time_org := torg', lv_seq_num := set_low16 (lv_seq_num hnd) seq\<rparr>), s')
          })"

subsection \<open>AAC frames\<close>

text \<open>The height field holds the sample rate and \<^verbatim>\<open>reserve\<close> is set: the receiver then takes the rate from there.\<close>

definition live_audio_head :: "US_FRAMEHEAD \<Rightarrow> int \<Rightarrow> US_FRAMEHEAD" where
  "live_audio_head data_info smp = data_info\<lparr>height := word_of_int smp, reserve := 1\<rparr>"

function live_adts_loop ::
  "'s sender \<Rightarrow> byte list \<Rightarrow> int \<Rightarrow> int \<Rightarrow> u32 \<Rightarrow> US_FRAMEHEAD \<Rightarrow> int \<Rightarrow> int \<Rightarrow> int \<Rightarrow> u32 \<Rightarrow> int
    \<Rightarrow> byte list \<Rightarrow> u32 \<Rightarrow> u32 \<Rightarrow> 's \<Rightarrow> (int \<times> byte list \<times> u32 \<times> u32 \<times> 's) option" where
  "live_adts_loop tx d mtu smp sc data_info j start afl mytime temp_len nb torg seq s =
     (if temp_len > 0 then
        (if mtu \<le> 0 then None
         else
           (let anl = (if temp_len \<ge> mtu then mtu else temp_len);
                nb = nb[0 := 0, 1 := 0x10, 2 := word_of_int (afl div 32),
                        3 := word_of_int (afl mod 32 * 8)]
            in case memcpy nb 4 d (start + afl - temp_len) anl of
                 None \<Rightarrow> None
               | Some nb' \<Rightarrow>
                   (let temp_len' = temp_len - anl;
                        ts = audio_ts smp mytime;
                        torg' = (if ts \<ge> 0xFFFFFFFF then 0 else torg);
                        hdr = pack_rtp_audio (if temp_len' \<noteq> 0 then 0x61 else 0xE1) (ucast seq) ts sc
                              @ pack_debug @ pack_frame (live_audio_head data_info smp)
                    in case memcpy (replicate 1472 0) 0 nb' 0 (anl + 4) of
                         None \<Rightarrow> None
                       | Some area \<Rightarrow>
                           if j = 1 then
                             (case tx (hdr @ area) (anl + 16 + 16) s of
                                None \<Rightarrow> None
                              | Some (r, s') \<Rightarrow>
                                  if r < 0 then Some (-1, nb', torg', seq + 1, s')
                                  else live_adts_loop tx d mtu smp sc data_info j start afl mytime
                                         temp_len' nb' torg' (seq + 1) s')
                           else live_adts_loop tx d mtu smp sc data_info j start afl mytime
                                  temp_len' nb' torg' (seq + 1) s)))
      else Some (0, nb, torg, seq, s))"
  by pat_completeness auto
termination
  by (relation "measure (\<lambda>(tx, d, mtu, smp, sc, di, j, start, afl, mytime, temp_len, nb, torg, seq, s).
        nat temp_len)") auto

declare live_adts_loop.simps [simp del]

fun live_audio_frames ::
  "'s sender \<Rightarrow> byte list \<Rightarrow> int \<Rightarrow> int \<Rightarrow> int \<Rightarrow> u32 \<Rightarrow> US_FRAMEHEAD \<Rightarrow> int list \<Rightarrow> int \<Rightarrow> u32
    \<Rightarrow> int list \<Rightarrow> byte list \<Rightarrow> u32 \<Rightarrow> u32 \<Rightarrow> 's \<Rightarrow> (int \<times> u32 \<times> u32 \<times> 's) option" where
  "live_audio_frames tx d nLen mtu smp sc data_info offset j mytime [] nb torg seq s = Some (0, torg, seq, s)"
| "live_audio_frames tx d nLen mtu smp sc data_info offset j mytime (i # is) nb torg seq s = do {
     o1 \<leftarrow> peek offset (i + 1);
     o0 \<leftarrow> peek offset i;
     let pLen = (if i = j - 1 then nLen - o0 else o1 - o0);
     (r, nb', torg', seq', s') \<leftarrow>
       live_adts_loop tx d mtu smp sc data_info j (o0 + 7) (pLen - 7) mytime (pLen - 7) nb torg seq s;
     if r < 0 then Some (-1, torg', seq', s')
     else live_audio_frames tx d nLen mtu smp sc data_info offset j mytime is nb' torg' seq' s'
   }"

definition rtp_build_audio_data ::
  "'s sender \<Rightarrow> RTP_BUILD_INFO option \<Rightarrow> int \<Rightarrow> byte list \<Rightarrow> int \<Rightarrow> int \<Rightarrow> u32 \<Rightarrow> US_FRAMEHEAD \<Rightarrow> 's
    \<Rightarrow> (int \<times> RTP_BUILD_INFO option \<times> 's) option" where
  "rtp_build_audio_data tx handle nLen pData smp rtp_mtu nowtime data_info s =
     (case handle of
        None \<Rightarrow> Some (-1, handle, s)
      | Some hnd \<Rightarrow> do {
          let torg = rebase_time (lv_time_org hnd) nowtime;
          let timetick = nowtime - torg;
          p3 \<leftarrow> peek pData 3;
          p4 \<leftarrow> peek pData 4;
          p5 \<leftarrow> peek pData 5;
          let framelen = adts_framelen p3 p4 p5;
          (offset, j) \<leftarrow> adts_offsets pData (replicate 5 0) 0 (map int [0..<nat (nLen - 4)]);
          let j = (if framelen = word_of_int nLen \<and> j \<ge> 1 then 1 else j);
          (r, torg', seq, s') \<leftarrow>
            live_audio_frames tx pData nLen (rtp_mtu - 14) smp (lv_ssrc hnd) data_info offset j timetick
              (map int [0..<nat j]) (replicate 2048 0) torg (lv_seq_num hnd) s;
          Some (r, Some (hnd\<lparr>lv_time_org := torg', lv_seq_num := seq\<rparr>), s')
        })"

subsection \<open>The handle\<close>

definition rtp_build_reset_time :: "RTP_BUILD_INFO option \<Rightarrow> int \<times> RTP_BUILD_INFO option" where
  \<comment> \<open>returns at its first statement\<close>
  "rtp_build_reset_time handle = (0, handle)"

definition rtp_info_zero :: RTP_BUILD_INFO where
  "rtp_info_zero = \<lparr>lv_time_org = 0, lv_seq_num = 0, lv_ssrc = 0, lv_payload = 0\<rparr>"

definition rtp_build_init :: "bool \<Rightarrow> u32 \<Rightarrow> u32 \<Rightarrow> RTP_BUILD_INFO option" where
  \<comment> \<open>the first argument tells whether \<^verbatim>\<open>malloc\<close> succeeded\<close>
  "rtp_build_init mok sc pl = (if mok then Some (rtp_info_zero\<lparr>lv_ssrc := sc, lv_payload := pl\<rparr>) else None)"

definition rtp_build_reset :: "RTP_BUILD_INFO option \<Rightarrow> int \<times> RTP_BUILD_INFO option" where
  "rtp_build_reset handle = (case handle of None \<Rightarrow> (-1, None) | Some _ \<Rightarrow> (0, Some rtp_info_zero))"

definition rtp_build_uninit :: "RTP_BUILD_INFO option \<Rightarrow> RTP_BUILD_INFO option" where
  \<comment> \<open>\<^verbatim>\<open>*handle\<close> after the call\<close>
  "rtp_build_uninit handle = None"

subsection \<open>The same packets as the UDP sending module\<close>

text \<open>
  \<open>took net net' ps\<close>: between \<open>net\<close> and \<open>net'\<close> exactly the packets \<open>ps\<close> were put on the wire.  The lemmas of the
  locale run the live packetiser beside the one of \<^theory_text>\<open>RtpBuild\<close> over a network that takes every datagram: both
  have a meaning for the same inputs, and the sender is given the packets that the other puts on the wire.
\<close>

definition took :: "net \<Rightarrow> net \<Rightarrow> byte list list \<Rightarrow> bool" where
  "took net net' ps \<longleftrightarrow> map d_bytes (wire net') = map d_bytes (wire net) @ ps"

lemma took_refl: "took net net []" by (simp add: took_def)

lemma took_trans: "took a b ps \<Longrightarrow> took b c qs \<Longrightarrow> took a c (ps @ qs)" by (simp add: took_def)

lemma took_unique: "took a b ps \<Longrightarrow> took a b qs \<Longrightarrow> ps = qs" by (simp add: took_def)

lemma took_emit_all: "took net (snd (emit_all c ps info net)) ps"
  by (simp add: took_def emit_all_wire datagram_of_def comp_def)

lemma udp_send_took:
  assumes "lossless so" "0 < n" "n \<le> length p"
  shows "\<exists>i' net'. udp_send_rtp_data so i p (int n) net = Some (0, i', net') \<and> took net net' [take n p]"
  using udp_send_lossless [OF assms refl] took_emit_all [of net _ "[take n p]" i]
  by (metis prod.collapse)

locale packet_sender =
  fixes tx :: "'s sender" and put :: "byte list \<Rightarrow> 's \<Rightarrow> 's"
  assumes tx_ok: "28 \<le> n \<Longrightarrow> n \<le> length p \<Longrightarrow> tx p (int n) s = Some (0, put (take n p) s)"
begin

lemma tx_int: "28 \<le> n \<Longrightarrow> n \<le> int (length p) \<Longrightarrow> tx p n s = Some (0, put (take (nat n) p) s)"
  using tx_ok [of "nat n" p s] by simp

lemma run_on:
  assumes "took a b ps" "\<exists>qs. took b c qs \<and> x = F (fold put qs (fold put ps s))"
  shows "\<exists>rs. took a c rs \<and> x = F (fold put rs s)"
proof -
  obtain qs where "took b c qs" "x = F (fold put qs (fold put ps s))" using assms(2) by blast
  with assms(1) show ?thesis by (intro exI [of _ "ps @ qs"]) (simp add: took_trans)
qed

lemma both_send:
  assumes "lossless so" "28 \<le> n" "n \<le> int (length p)"
  obtains i' net' where "udp_send_rtp_data so i p n net = Some (0, i', net')" "took net net' [take (nat n) p]"
    "tx p n s = Some (0, fold put [take (nat n) p] s)"
proof -
  have n: "0 < nat n" "nat n \<le> length p" "int (nat n) = n" using assms(2,3) by simp_all
  show thesis
    using udp_send_took [OF assms(1) n(1,2), of i net] tx_int [OF assms(2,3), of s] that unfolding n(3) by auto
qed

lemma jpeg_fragment_same:
  assumes "lossless so" "length area = 1472"
  shows "case jpeg_fragment so d m k l t h fh area seq i net of
      None \<Rightarrow> live_jpeg_fragment tx d m k l t h fh area seq s = None
    | Some (r, h', fh', area', i', net') \<Rightarrow> \<exists>ps. r = 0 \<and> length area' = 1472 \<and> took net net' ps
        \<and> live_jpeg_fragment tx d m k l t h fh area seq s = Some (0, h', fh', area', fold put ps s)"
proof -
  obtain mk sr off n where c: "(if t = 0 then (0 :: byte, 2 :: byte, 0, m) else if k = t then (1, 1, t * m, l)
      else (0, 0, t * m, m)) = (mk, sr, off, n)" by (metis prod_cases4)
  show ?thesis
  proof (cases "memcpy area 0 d off n")
    case None
    then show ?thesis unfolding jpeg_fragment_def live_jpeg_fragment_def c Let_def prod.case by simp
  next
    case (Some a)
    then have n: "0 \<le> n" "n \<le> 1472" "length a = 1472"
      using assms(2) memcpy_length [OF Some] by (auto simp: memcpy_def split: if_splits)
    let ?p = "pack_head (h\<lparr>seq_no := seq, marker := mk\<rparr>) (fh\<lparr>samplerate := sr\<rparr>) @ a"
    have "28 \<le> n + 28" "n + 28 \<le> int (length ?p)" using n by (simp_all add: pkt_simps)
    then obtain i' net' where "udp_send_rtp_data so i ?p (n + 28) net = Some (0, i', net')"
      "took net net' [take (nat (n + 28)) ?p]" "tx ?p (n + 28) s = Some (0, fold put [take (nat (n + 28)) ?p] s)"
      by (rule both_send [OF assms(1)])
    then show ?thesis
      using Some n(3) unfolding jpeg_fragment_def live_jpeg_fragment_def c Let_def prod.case by auto
  qed
qed

lemma jpeg_loop_same:
  assumes "lossless so" "length area = 1472"
  shows "case jpeg_loop so d m k l t h fh area seq i net of
      None \<Rightarrow> live_jpeg_loop tx d m k l t h fh area seq s = None
    | Some (r, q, i', net') \<Rightarrow> \<exists>ps. took net net' ps
        \<and> live_jpeg_loop tx d m k l t h fh area seq s = Some (r, q, fold put ps s)"
  using assms
proof (induction so d m k l t h fh area seq i net arbitrary: s rule: jpeg_loop.induct)
  case (1 so d m k l t h fh area seq i net)
  note F = jpeg_fragment_same [OF "1.prems", where d = d and m = m and k = k and l = l and t = t and h = h and fh = fh and seq = seq and i = i and net = net and s = s]
  show ?case
  proof (cases "t \<le> k")
    case False
    then show ?thesis
      by (subst jpeg_loop.simps, subst live_jpeg_loop.simps) (simp add: exI [of _ "[]"] took_refl)
  next
    case True
    then show ?thesis
    proof (cases "jpeg_fragment so d m k l t h fh area seq i net")
      case None
      then show ?thesis using True F by (subst jpeg_loop.simps, subst live_jpeg_loop.simps) simp
    next
      case (Some x)
      then obtain r h' fh' area' i' net' where x: "x = (r, h', fh', area', i', net')" by (metis prod_cases6)
      with F Some obtain ps where p: "r = 0" "length area' = 1472" "took net net' ps"
        "live_jpeg_fragment tx d m k l t h fh area seq s = Some (0, h', fh', area', fold put ps s)"
        by auto
      note IH = "1.IH" [OF True Some [unfolded x] refl refl refl refl refl _ "1.prems"(1) p(2)]
      have "jpeg_loop so d m k l t h fh area seq i net = jpeg_loop so d m k l (t + 1) h' fh' area' (seq + 1) i' net'"
        "live_jpeg_loop tx d m k l t h fh area seq s = live_jpeg_loop tx d m k l (t + 1) h' fh' area' (seq + 1) (fold put ps s)"
        using True Some x p(1,4) by (simp_all add: jpeg_loop.simps [of so] live_jpeg_loop.simps [of tx d m k l t])
      with IH [of "fold put ps s"] p(1) show ?thesis by (force split: option.splits intro: run_on [OF p(3)])
    qed
  qed
qed

lemma jpeg_send_same:
  assumes "lossless so"
  shows "case jpeg_send so d nLen m h fh seq i net of
      None \<Rightarrow> live_jpeg_send tx d nLen m h fh seq s = None
    | Some (r, q, i', net') \<Rightarrow> \<exists>ps. took net net' ps
        \<and> live_jpeg_send tx d nLen m h fh seq s = Some (r, q, fold put ps s)"
proof (cases "nLen \<le> m")
  case True
  show ?thesis
  proof (cases "memcpy (replicate 1472 0) 0 d 0 nLen")
    case None
    then show ?thesis using True by (simp add: jpeg_send_def live_jpeg_send_def Let_def)
  next
    case (Some a)
    then have n: "0 \<le> nLen" "nLen \<le> 1472" "length a = 1472"
      using memcpy_length [OF Some] by (auto simp: memcpy_def split: if_splits)
    let ?p = "pack_head (h\<lparr>marker := 1, seq_no := seq\<rparr>) (fh\<lparr>samplerate := 3\<rparr>) @ a"
    have "28 \<le> nLen + 28" "nLen + 28 \<le> int (length ?p)" using n by (simp_all add: pkt_simps)
    then obtain i' net' where "udp_send_rtp_data so i ?p (nLen + 28) net = Some (0, i', net')"
      "took net net' [take (nat (nLen + 28)) ?p]"
      "tx ?p (nLen + 28) s = Some (0, fold put [take (nat (nLen + 28)) ?p] s)"
      by (rule both_send [OF assms])
    then show ?thesis using True Some by (auto simp: jpeg_send_def live_jpeg_send_def Let_def)
  qed
next
  case False
  show ?thesis
  proof (cases "m = 0")
    case True
    then show ?thesis using False by (simp add: jpeg_send_def live_jpeg_send_def)
  next
    case m: False
    define k where "k = (if nLen smod m = 0 then nLen sdiv m - 1 else nLen sdiv m)"
    define l where "l = (if nLen smod m = 0 then m else nLen smod m)"
    have e: "jpeg_send so d nLen m h fh seq i net = jpeg_loop so d m k l 0 h fh (replicate 1472 0) seq i net"
      "live_jpeg_send tx d nLen m h fh seq s = live_jpeg_loop tx d m k l 0 h fh (replicate 1472 0) seq s"
      using False m by (simp_all add: jpeg_send_def live_jpeg_send_def Let_def k_def l_def)
    show ?thesis unfolding e by (rule jpeg_loop_same [OF assms]) simp
  qed
qed

lemma nalu_fragment_same:
  assumes "lossless so" "length area = 1472"
  shows "case nalu_fragment so d nalu mtu k l t h fh area seq i net of
      None \<Rightarrow> live_nalu_fragment tx d nalu mtu k l t h fh area seq s = None
    | Some (r, h', area', i', net') \<Rightarrow> \<exists>ps. r = 0 \<and> length area' = 1472 \<and> took net net' ps
        \<and> live_nalu_fragment tx d nalu mtu k l t h fh area seq s = Some (0, h', area', fold put ps s)"
proof -
  obtain mk st e off n where c: "(if t = 0 then (0 :: byte, 1 :: byte, 0 :: byte, nalu_buf nalu + 1, mtu)
      else if k = t then (1, 0, 1, nalu_buf nalu + t * mtu + 1, l)
      else (0, 0, 0, nalu_buf nalu + t * mtu + 1, mtu)) = (mk, st, e, off, n)" by (metis prod_cases5)
  define b where "b = area[0 := fu_indicator 28 (drop_bit 5 (nal_reference_idc nalu)) (forbidden_bit nalu),
                     1 := fu_header (nal_unit_type nalu) 0 e st]"
  show ?thesis
  proof (cases "memcpy b 2 d off n")
    case None
    then show ?thesis
      unfolding nalu_fragment_def live_nalu_fragment_def c Let_def prod.case b_def by simp
  next
    case (Some a)
    then have n: "0 \<le> n" "n \<le> 1470" "length a = 1472"
      using assms(2) memcpy_length [OF Some] by (auto simp: memcpy_def b_def split: if_splits)
    let ?p = "pack_head (h\<lparr>seq_no := seq, marker := mk\<rparr>) fh @ a"
    have "28 \<le> n + 30" "n + 30 \<le> int (length ?p)" using n by (simp_all add: pkt_simps)
    then obtain i' net' where "udp_send_rtp_data so i ?p (n + 30) net = Some (0, i', net')"
      "took net net' [take (nat (n + 30)) ?p]" "tx ?p (n + 30) s = Some (0, fold put [take (nat (n + 30)) ?p] s)"
      by (rule both_send [OF assms(1)])
    then show ?thesis
      using Some n(3) unfolding nalu_fragment_def live_nalu_fragment_def c Let_def prod.case b_def by auto
  qed
qed

lemma nalu_loop_same:
  assumes "lossless so" "length area = 1472"
  shows "case nalu_loop so d nalu mtu k l t h fh area seq i net of
      None \<Rightarrow> live_nalu_loop tx d nalu mtu k l t h fh area seq s = None
    | Some (r, q, i', net') \<Rightarrow> \<exists>ps. took net net' ps
        \<and> live_nalu_loop tx d nalu mtu k l t h fh area seq s = Some (r, q, fold put ps s)"
  using assms
proof (induction so d nalu mtu k l t h fh area seq i net arbitrary: s rule: nalu_loop.induct)
  case (1 so d nalu mtu k l t h fh area seq i net)
  note F = nalu_fragment_same [OF "1.prems", where d = d and nalu = nalu and mtu = mtu and k = k and l = l
      and t = t and h = h and fh = fh and seq = seq and i = i and net = net and s = s]
  show ?case
  proof (cases "t \<le> k")
    case False
    then show ?thesis
      by (subst nalu_loop.simps, subst live_nalu_loop.simps) (simp add: exI [of _ "[]"] took_refl)
  next
    case True
    then show ?thesis
    proof (cases "nalu_fragment so d nalu mtu k l t h fh area seq i net")
      case None
      then show ?thesis using True F by (subst nalu_loop.simps, subst live_nalu_loop.simps) simp
    next
      case (Some x)
      then obtain r h' area' i' net' where x: "x = (r, h', area', i', net')" by (metis prod_cases5)
      with F Some obtain ps where p: "r = 0" "length area' = 1472" "took net net' ps"
        "live_nalu_fragment tx d nalu mtu k l t h fh area seq s = Some (0, h', area', fold put ps s)"
        by auto
      note IH = "1.IH" [OF True Some [unfolded x] refl refl refl refl _ "1.prems"(1) p(2)]
      have "nalu_loop so d nalu mtu k l t h fh area seq i net
          = nalu_loop so d nalu mtu k l (t + 1) h' fh area' (seq + 1) i' net'"
        "live_nalu_loop tx d nalu mtu k l t h fh area seq s
          = live_nalu_loop tx d nalu mtu k l (t + 1) h' fh area' (seq + 1) (fold put ps s)"
        using True Some x p(1,4)
        by (simp_all add: nalu_loop.simps [of so] live_nalu_loop.simps [of tx d nalu mtu k l t])
      with IH [of "fold put ps s"] p(1) show ?thesis by (force split: option.splits intro: run_on [OF p(3)])
    qed
  qed
qed

lemma SendRtpNalu_same:
  assumes "lossless so"
  shows "case UdpSendRtpNalu so d nalu seq ts mtu i fh net of
      None \<Rightarrow> SendRtpNalu tx d nalu seq ts mtu fh s = None
    | Some (r, q, i', net') \<Rightarrow> \<exists>ps. took net net' ps
        \<and> SendRtpNalu tx d nalu seq ts mtu fh s = Some (r, q, fold put ps s)"
proof (cases "nalu_len nalu - 1 \<le> word_of_int mtu")
  case True
  let ?n = "uint (nalu_len nalu)"
  show ?thesis
  proof (cases "memcpy (replicate 1472 0) 0 d (nalu_buf nalu) ?n")
    case None
    then show ?thesis using True by (simp add: UdpSendRtpNalu_def SendRtpNalu_def Let_def)
  next
    case (Some a)
    then have n: "0 \<le> ?n" "?n \<le> 1472" "length a = 1472"
      using memcpy_length [OF Some] by (auto simp: memcpy_def split: if_splits)
    let ?p = "pack_head ((video_hdr ts)\<lparr>marker := 1, seq_no := seq\<rparr>) fh @ a"
    have "28 \<le> ?n + 28" "?n + 28 \<le> int (length ?p)" using n by (simp_all add: pkt_simps)
    then obtain i' net' where "udp_send_rtp_data so i ?p (?n + 28) net = Some (0, i', net')"
      "took net net' [take (nat (?n + 28)) ?p]" "tx ?p (?n + 28) s = Some (0, fold put [take (nat (?n + 28)) ?p] s)"
      by (rule both_send [OF assms])
    then show ?thesis using True Some by (auto simp: UdpSendRtpNalu_def SendRtpNalu_def Let_def)
  qed
next
  case False
  show ?thesis
  proof (cases "(word_of_int mtu :: u32) = 0")
    case True
    then show ?thesis using False by (simp add: UdpSendRtpNalu_def SendRtpNalu_def Let_def)
  next
    case m: False
    obtain k l where e: "UdpSendRtpNalu so d nalu seq ts mtu i fh net
        = nalu_loop so d nalu mtu k l 0 (video_hdr ts) fh (replicate 1472 0) seq i net"
      "SendRtpNalu tx d nalu seq ts mtu fh s
        = live_nalu_loop tx d nalu mtu k l 0 (video_hdr ts) fh (replicate 1472 0) seq s"
      using False m unfolding UdpSendRtpNalu_def SendRtpNalu_def Let_def by (simp split: if_splits) 
    show ?thesis unfolding e by (rule nalu_loop_same [OF assms]) simp
  qed
qed

lemma video_loop_same:
  assumes "lossless so"
  shows "case video_loop so d nLen mtu tick fh pos torg seq i net of
      None \<Rightarrow> live_video_loop tx d nLen mtu tick fh pos torg seq s = None
    | Some (t, q, i', net') \<Rightarrow> \<exists>ps. took net net' ps
        \<and> live_video_loop tx d nLen mtu tick fh pos torg seq s = Some (t, q, fold put ps s)"
  using assms
proof (induction so d nLen mtu tick fh pos torg seq i net arbitrary: s rule: video_loop.induct)
  case (1 so d nLen mtu tick fh pos torg seq i net)
  define torg1 where "torg1 = (if 0xFFFFFFFF \<le> tick * 90 then 0 else torg)"
  note simps = video_loop.simps [of so d nLen mtu tick fh pos torg] live_video_loop.simps [of tx d nLen mtu tick fh pos torg]
  show ?case
  proof (cases "next_nalu d (nLen - 4) pos")
    case None
    then show ?thesis by (simp add: simps Let_def)
  next
    case (Some pos')
    define len where "len = (if nLen - 4 \<le> pos' then nLen - pos - 4 else pos' - pos - 4)"
    show ?thesis
    proof (cases "mk_nalu d pos len")
      case None
      then show ?thesis using Some by (simp add: simps Let_def len_def split: if_splits)
    next
      case nalu: (Some nalu)
      note U = SendRtpNalu_same [OF "1.prems", where d = d and nalu = nalu and seq = seq and ts = "tick * 90"
          and mtu = mtu and fh = fh and i = i and net = net and s = s]
      show ?thesis
      proof (cases "UdpSendRtpNalu so d nalu seq (tick * 90) mtu i fh net")
        case None
        then show ?thesis using Some nalu U by (simp add: simps Let_def len_def split: if_splits)
      next
        case step: (Some x)
        then obtain r q i' net' where x: "x = (r, q, i', net')" by (metis prod_cases4)
        with U step obtain ps where p: "took net net' ps"
          "SendRtpNalu tx d nalu seq (tick * 90) mtu fh s = Some (r, q, fold put ps s)" by auto
        show ?thesis
        proof (cases "nLen - 4 \<le> pos'")
          case True
          then show ?thesis
            using Some nalu step x p by (auto simp: simps Let_def len_def)
        next
          case False
          have e: "video_loop so d nLen mtu tick fh pos torg seq i net
              = video_loop so d nLen mtu tick fh pos' torg1 q i' net'"
            "live_video_loop tx d nLen mtu tick fh pos torg seq s
              = live_video_loop tx d nLen mtu tick fh pos' torg1 q (fold put ps s)"
            using False Some nalu step x p(2) by (simp_all add: simps Let_def len_def torg1_def)
          have n: "mk_nalu d pos (pos' - pos - 4) = Some nalu" using nalu False by (simp add: len_def)
          have IH: "case video_loop so d nLen mtu tick fh pos' torg1 q i' net' of
              None \<Rightarrow> live_video_loop tx d nLen mtu tick fh pos' torg1 q s = None
            | Some (t, q', i'', net'') \<Rightarrow> \<exists>ps. took net' net'' ps
              \<and> live_video_loop tx d nLen mtu tick fh pos' torg1 q s = Some (t, q', fold put ps s)" for s
            by (rule "1.IH" [OF refl torg1_def refl Some False n step [unfolded x] refl refl refl "1.prems"])
          show ?thesis unfolding e using IH [of "fold put ps s"]
            by (force split: option.splits intro: run_on [OF p(1)])
        qed
      qed
    qed
  qed
qed

lemma audio_loop_same:
  assumes "lossless so"
  shows "case audio_loop so d mtu smp sc (live_audio_head fh smp) j start afl mytime temp_len nb torg seq i net of
      None \<Rightarrow> live_adts_loop tx d mtu smp sc fh j start afl mytime temp_len nb torg seq s = None
    | Some (r, nb', t, q, i', net') \<Rightarrow> \<exists>ps. took net net' ps
        \<and> live_adts_loop tx d mtu smp sc fh j start afl mytime temp_len nb torg seq s
          = Some (r, nb', t, q, fold put ps s)"
proof (induction "nat temp_len" arbitrary: temp_len nb torg seq i net s rule: less_induct)
  case less
  note simps = audio_loop.simps [of so d mtu smp sc _ j start afl mytime temp_len nb torg seq i net]
    live_adts_loop.simps [of tx d mtu smp sc _ j start afl mytime temp_len nb torg seq s]
  show ?case
  proof (cases "0 < temp_len \<and> 0 < mtu")
    case False
    then show ?thesis by (auto simp: simps intro!: exI [of _ "[]"] took_refl)
  next
    case True
    define anl where "anl = (if temp_len \<ge> mtu then mtu else temp_len)"
    define nb1 where "nb1 = nb[0 := 0, 1 := 0x10, 2 := word_of_int (afl div 32), 3 := word_of_int (afl mod 32 * 8)]"
    define ts where "ts = audio_ts smp mytime"
    define torg1 where "torg1 = (if ts \<ge> 0xFFFFFFFF then 0 else torg)"
    define hdr where "hdr = pack_rtp_audio (if temp_len - anl \<noteq> 0 then 0x61 else 0xE1) (ucast seq) ts sc
                              @ pack_debug @ pack_frame (live_audio_head fh smp)"
    note defs = anl_def nb1_def ts_def torg1_def hdr_def
    show ?thesis
    proof (cases "memcpy nb1 4 d (start + afl - temp_len) anl")
      case None
      then show ?thesis using True by (simp add: simps Let_def defs)
    next
      case nb: (Some nb')
      show ?thesis
      proof (cases "memcpy (replicate 1472 0) 0 nb' 0 (anl + 4) :: byte list option")
        case None
        then show ?thesis using True nb by (simp add: simps Let_def defs)
      next
        case area: (Some area)
        then have n: "0 \<le> anl" "anl + 4 \<le> 1472" "length area = 1472"
          using memcpy_length [OF area] True by (auto simp: memcpy_def anl_def split: if_splits)
        have sent: "28 \<le> anl + 16 + 16" "anl + 16 + 16 \<le> int (length (hdr @ area))"
          using n by (simp_all add: hdr_def pack_rtp_audio_def pkt_simps)
        have less_len: "nat (temp_len - anl) < nat temp_len" using True by (auto simp: anl_def)
        have T: "temp_len > 0" "\<not> mtu \<le> 0" using True by simp_all
        have steps: "audio_loop so d mtu smp sc (live_audio_head fh smp) j start afl mytime temp_len nb torg seq i net
            = (if j = 1 then (case udp_send_rtp_data so i (hdr @ area) (anl + 16 + 16) net of
                 None \<Rightarrow> None
               | Some (r, i', net') \<Rightarrow> if r < 0 then Some (-1, nb', torg1, seq + 1, i', net')
                   else audio_loop so d mtu smp sc (live_audio_head fh smp) j start afl mytime (temp_len - anl) nb' torg1
                          (seq + 1) i' net')
               else audio_loop so d mtu smp sc (live_audio_head fh smp) j start afl mytime (temp_len - anl) nb' torg1
                      (seq + 1) i net)"
          "live_adts_loop tx d mtu smp sc fh j start afl mytime temp_len nb torg seq s
            = (if j = 1 then (case tx (hdr @ area) (anl + 16 + 16) s of
                 None \<Rightarrow> None
               | Some (r, s') \<Rightarrow> if r < 0 then Some (-1, nb', torg1, seq + 1, s')
                   else live_adts_loop tx d mtu smp sc fh j start afl mytime (temp_len - anl) nb' torg1 (seq + 1) s')
               else live_adts_loop tx d mtu smp sc fh j start afl mytime (temp_len - anl) nb' torg1 (seq + 1) s)"
          unfolding simps Let_def defs [symmetric] nb option.case area if_P [OF T(1)] if_not_P [OF T(2)] by (rule refl)+
        note IH = less.hyps [OF less_len, where nb = nb' and torg = torg1 and seq = "seq + 1"]
        show ?thesis
        proof (cases "j = 1")
          case False
          have e: "audio_loop so d mtu smp sc (live_audio_head fh smp) j start afl mytime temp_len nb torg seq i net
              = audio_loop so d mtu smp sc (live_audio_head fh smp) j start afl mytime (temp_len - anl) nb' torg1 (seq + 1) i net"
            "live_adts_loop tx d mtu smp sc fh j start afl mytime temp_len nb torg seq s
              = live_adts_loop tx d mtu smp sc fh j start afl mytime (temp_len - anl) nb' torg1 (seq + 1) s"
            using False by (simp_all add: steps)
          show ?thesis unfolding e by (rule IH)
        next
          case j: True
          obtain i' net' where snd: "udp_send_rtp_data so i (hdr @ area) (anl + 16 + 16) net = Some (0, i', net')"
            "took net net' [take (nat (anl + 16 + 16)) (hdr @ area)]"
            "tx (hdr @ area) (anl + 16 + 16) s = Some (0, fold put [take (nat (anl + 16 + 16)) (hdr @ area)] s)"
            by (rule both_send [OF assms sent])
          have e: "audio_loop so d mtu smp sc (live_audio_head fh smp) j start afl mytime temp_len nb torg seq i net
              = audio_loop so d mtu smp sc (live_audio_head fh smp) j start afl mytime (temp_len - anl) nb' torg1 (seq + 1) i' net'"
            "live_adts_loop tx d mtu smp sc fh j start afl mytime temp_len nb torg seq s
              = live_adts_loop tx d mtu smp sc fh j start afl mytime (temp_len - anl) nb' torg1 (seq + 1)
                  (fold put [take (nat (anl + 16 + 16)) (hdr @ area)] s)"
            unfolding steps snd(1,3) by (simp_all add: j)
          show ?thesis
            unfolding e using IH [where i = i' and net = net' and s = "fold put [take (nat (anl + 16 + 16)) (hdr @ area)] s"]
            by (force split: option.splits intro: run_on [OF snd(2)])
        qed
      qed
    qed
  qed
qed

lemma audio_frames_same:
  assumes "lossless so"
  shows "case audio_frames so d nLen mtu smp sc (live_audio_head fh smp) off j mytime ks nb torg seq i net of
      None \<Rightarrow> live_audio_frames tx d nLen mtu smp sc fh off j mytime ks nb torg seq s = None
    | Some (r, t, q, i', net') \<Rightarrow> \<exists>ps. took net net' ps
        \<and> live_audio_frames tx d nLen mtu smp sc fh off j mytime ks nb torg seq s = Some (r, t, q, fold put ps s)"
proof (induction ks arbitrary: nb torg seq i net s)
  case Nil
  then show ?case by (simp add: exI [of _ "[]"] took_refl)
next
  case (Cons x xs)
  show ?case
  proof (cases "peek off (x + 1)")
    case None
    then show ?thesis by simp
  next
    case o1: (Some o1)
    show ?thesis
    proof (cases "peek off x")
      case None
      then show ?thesis using o1 by simp
    next
      case o0: (Some o0)
      define pLen where "pLen = (if x = j - 1 then nLen - o0 else o1 - o0)"
      note A = audio_loop_same [OF assms, where d = d and mtu = mtu and smp = smp and sc = sc and fh = fh and j = j
          and start = "o0 + 7" and afl = "pLen - 7" and mytime = mytime and temp_len = "pLen - 7" and nb = nb
          and torg = torg and seq = seq and i = i and net = net and s = s]
      show ?thesis
      proof (cases "audio_loop so d mtu smp sc (live_audio_head fh smp) j (o0 + 7) (pLen - 7) mytime (pLen - 7) nb torg
          seq i net")
        case None
        then show ?thesis using A o0 o1 by (simp add: Let_def pLen_def)
      next
        case (Some y)
        then obtain r nb' t q i' net' where y: "y = (r, nb', t, q, i', net')" by (metis prod_cases6)
        with A Some obtain ps where p: "took net net' ps"
          "live_adts_loop tx d mtu smp sc fh j (o0 + 7) (pLen - 7) mytime (pLen - 7) nb torg seq s
             = Some (r, nb', t, q, fold put ps s)" by auto
        have e: "audio_frames so d nLen mtu smp sc (live_audio_head fh smp) off j mytime (x # xs) nb torg seq i net
            = (if r < 0 then Some (-1, t, q, i', net')
               else audio_frames so d nLen mtu smp sc (live_audio_head fh smp) off j mytime xs nb' t q i' net')"
          "live_audio_frames tx d nLen mtu smp sc fh off j mytime (x # xs) nb torg seq s
            = (if r < 0 then Some (-1, t, q, fold put ps s)
               else live_audio_frames tx d nLen mtu smp sc fh off j mytime xs nb' t q (fold put ps s))"
          using o0 o1 Some y p(2) by (simp_all add: Let_def pLen_def)
        show ?thesis
          unfolding e using Cons.IH [of nb' t q "fold put ps s" net' i'] p(1)
          by (force split: option.splits intro: run_on [OF p(1)])
      qed
    qed
  qed
qed

text \<open>The three entries, beside their siblings.\<close>

lemma video_data_same:
  assumes "lossless so" "lv_time_org hnd = time_org u" "lv_seq_num hnd = video_seq_num u"
  shows "case UdpSend_rtp_build_video_data so (Some u) nLen (Some d) mtu now (Some uh) fh net of
      None \<Rightarrow> rtp_build_video_data tx (Some hnd) nLen d mtu now fh s = None
    | Some (r, u', uh', net') \<Rightarrow> \<exists>ps v. took net net' ps \<and> u' = Some v
        \<and> rtp_build_video_data tx (Some hnd) nLen d mtu now fh s
          = Some (r, Some (hnd\<lparr>lv_time_org := time_org v, lv_seq_num := video_seq_num v\<rparr>), fold put ps s)"
proof (cases "mtu < 228")
  case True
  have "hnd\<lparr>lv_time_org := time_org u, lv_seq_num := video_seq_num u\<rparr> = hnd"
    using assms(2,3) by (metis RTP_BUILD_INFO.surjective RTP_BUILD_INFO.update_convs(1,2))
  then show ?thesis
    using True by (auto simp: UdpSend_rtp_build_video_data_def rtp_build_video_data_def intro!: exI [of _ "[]"] took_refl)
next
  case False
  note V = video_loop_same [OF assms(1), where d = d and nLen = nLen and mtu = "mtu - 14" and fh = fh and pos = 0
      and tick = "now - rebase_time (time_org u) now" and torg = "rebase_time (time_org u) now"
      and seq = "ucast (video_seq_num u)" and i = uh and net = net and s = s]
  show ?thesis
  proof (cases "video_loop so d nLen (mtu - 14) (now - rebase_time (time_org u) now) fh 0
      (rebase_time (time_org u) now) (ucast (video_seq_num u)) uh net")
    case None
    then show ?thesis
      using V False assms(2,3) by (simp add: UdpSend_rtp_build_video_data_def rtp_build_video_data_def Let_def)
  next
    case (Some x)
    then obtain t q i' net' where x: "x = (t, q, i', net')" by (metis prod_cases4)
    with V Some obtain ps where "took net net' ps"
      "live_video_loop tx d nLen (mtu - 14) (now - rebase_time (time_org u) now) fh 0 (rebase_time (time_org u) now)
         (ucast (video_seq_num u)) s = Some (t, q, fold put ps s)" by auto
    then show ?thesis
      using Some x False assms(2,3)
      by (auto simp: UdpSend_rtp_build_video_data_def rtp_build_video_data_def Let_def)
  qed
qed

lemma jpeg_data_same:
  assumes "lossless so" "lv_seq_num hnd = jpg_seq_num u"
  shows "case UdpSend_rtp_build_jpeg_data so (Some u) nLen (Some d) mtu ts (Some uh) fh net of
      None \<Rightarrow> rtp_build_jpeg_data tx (Some hnd) nLen d ts mtu fh s = None
    | Some (r, u', uh', net') \<Rightarrow> \<exists>ps v. took net net' ps \<and> u' = Some v
        \<and> rtp_build_jpeg_data tx (Some hnd) nLen d ts mtu fh s
          = Some (r, Some (hnd\<lparr>lv_seq_num := jpg_seq_num v\<rparr>), fold put ps s)"
proof -
  define f0 where "f0 = \<lparr>codec = codec fh, samplerate = 0, framerate = framerate fh, width = width fh,
    height = height fh, Iframe = Iframe fh, reserve = reserve fh, framelength = framelength fh\<rparr>"
  note V = jpeg_send_same [OF assms(1), where d = d and nLen = nLen and m = "mtu - 28" and h = "video_hdr ts"
      and fh = f0 and seq = "ucast (jpg_seq_num u)" and i = uh and net = net and s = s]
  show ?thesis
  proof (cases "jpeg_send so d nLen (mtu - 28) (video_hdr ts) f0 (ucast (jpg_seq_num u)) uh net")
    case None
    then show ?thesis
      using V assms(2) by (simp add: UdpSend_rtp_build_jpeg_data_def rtp_build_jpeg_data_def f0_def)
  next
    case (Some x)
    then obtain r q i' net' where x: "x = (r, q, i', net')" by (metis prod_cases4)
    with V Some obtain ps where "took net net' ps"
      "live_jpeg_send tx d nLen (mtu - 28) (video_hdr ts) f0 (ucast (jpg_seq_num u)) s = Some (r, q, fold put ps s)"
      by auto
    then show ?thesis
      using Some x assms(2) by (auto simp: UdpSend_rtp_build_jpeg_data_def rtp_build_jpeg_data_def f0_def)
  qed
qed

lemma audio_data_same:
  assumes "lossless so" "lv_time_org hnd = time_org u" "lv_seq_num hnd = audio_seq_num u" "lv_ssrc hnd = b_ssrc u"
  shows "case UdpSend_rtp_build_audio_data so (Some u) nLen (Some d) smp mtu now (Some uh) (live_audio_head fh smp) net of
      None \<Rightarrow> rtp_build_audio_data tx (Some hnd) nLen d smp mtu now fh s = None
    | Some (r, u', uh', net') \<Rightarrow> \<exists>ps v. took net net' ps \<and> u' = Some v
        \<and> rtp_build_audio_data tx (Some hnd) nLen d smp mtu now fh s
          = Some (r, Some (hnd\<lparr>lv_time_org := time_org v, lv_seq_num := audio_seq_num v\<rparr>), fold put ps s)"
proof -
  let ?torg = "rebase_time (time_org u) now"
  show ?thesis
  proof (cases "do { p3 \<leftarrow> peek d 3; p4 \<leftarrow> peek d 4; p5 \<leftarrow> peek d 5;
      (off, j) \<leftarrow> adts_offsets d (replicate 5 0) 0 (map int [0..<nat (nLen - 4)]);
      Some (adts_framelen p3 p4 p5, off, j) }")
    case None
    then show ?thesis
      using assms by (auto simp: UdpSend_rtp_build_audio_data_def rtp_build_audio_data_def Let_def bind_eq_None_conv
          split: prod.splits)
  next
    case (Some y)
    then obtain p3 p4 p5 off j0 where b: "peek d 3 = Some p3" "peek d 4 = Some p4" "peek d 5 = Some p5"
      "adts_offsets d (replicate 5 0) 0 (map int [0..<nat (nLen - 4)]) = Some (off, j0)"
      by (auto simp: bind_eq_Some_conv)
    define j where "j = (if adts_framelen p3 p4 p5 = word_of_int nLen \<and> j0 \<ge> 1 then 1 else j0)"
    note V = audio_frames_same [OF assms(1), where d = d and nLen = nLen and mtu = "mtu - 14" and smp = smp
        and sc = "b_ssrc u" and fh = fh and off = off and j = j and mytime = "now - ?torg" and ks = "map int [0..<nat j]"
        and nb = "replicate 2048 0" and torg = ?torg and seq = "audio_seq_num u" and i = uh and net = net and s = s]
    show ?thesis
    proof (cases "audio_frames so d nLen (mtu - 14) smp (b_ssrc u) (live_audio_head fh smp) off j (now - ?torg)
        (map int [0..<nat j]) (replicate 2048 0) ?torg (audio_seq_num u) uh net")
      case None
      then show ?thesis
        using V b assms by (simp add: UdpSend_rtp_build_audio_data_def rtp_build_audio_data_def Let_def j_def)
    next
      case (Some x)
      then obtain r t q i' net' where x: "x = (r, t, q, i', net')" by (metis prod_cases5)
      with V Some obtain ps where "took net net' ps"
        "live_audio_frames tx d nLen (mtu - 14) smp (b_ssrc u) fh off j (now - ?torg) (map int [0..<nat j])
           (replicate 2048 0) ?torg (audio_seq_num u) s = Some (r, t, q, fold put ps s)" by auto
      then show ?thesis
        using Some x b assms by (auto simp: UdpSend_rtp_build_audio_data_def rtp_build_audio_data_def Let_def j_def)
    qed
  qed
qed

text \<open>What is handed over, with the packets of \<^theory_text>\<open>RtpBuild\<close>.\<close>

lemma live_video_packets:
  assumes "codec fh < 16" "228 \<le> mtu" "mtu \<le> 1484" "length d < 2 ^ 31"
    and "d = frame_bytes (ps @ [nal])" "list_all param_set ps" "plain_unit nal"
  shows "rtp_build_video_data tx (Some hnd) (int (length d)) d (int mtu) now fh s =
    (let torg = rebase_time (lv_time_org hnd) now;
         pk = frame_packets (video_hdr ((now - torg) * 90)) fh (mtu - 14) (ucast (lv_seq_num hnd)) (ps @ [nal])
     in Some (0, Some (hnd\<lparr>lv_time_org := torg, lv_seq_num := set_low16 (lv_seq_num hnd)
          (ucast (lv_seq_num hnd) + of_nat (length pk))\<rparr>), fold put pk s))"
proof -
  define torg where "torg = rebase_time (lv_time_org hnd) now"
  define so :: sendto_oracle where "so = (\<lambda>i n. (int n, 0))"
  have so: "lossless so" by (simp add: lossless_def so_def)
  define i :: send_udp_handle where "i = undefined"
  define net :: net where "net = undefined"
  let ?pk = "frame_packets (video_hdr ((now - torg) * 90)) fh (mtu - 14) (ucast (lv_seq_num hnd)) (ps @ [nal])"
  obtain i' net' where e: "emit_all (codec fh) ?pk i net = (i', net')" by fastforce
  have m: "int mtu - 14 = int (mtu - 14)" "0 < mtu - 14" "mtu - 14 \<le> 1470" using assms(2,3) by simp_all
  have V: "video_loop so d (int (length d)) (int (mtu - 14)) (now - torg) fh 0 torg (ucast (lv_seq_num hnd)) i net =
      Some (torg, ucast (lv_seq_num hnd) + of_nat (length ?pk), i', net')"
    using video_loop_lossless [OF so assms(1) m(2,3) assms(4,6,7), of 0] assms(5) e by simp
  then obtain qs where q: "took net net' qs"
    "live_video_loop tx d (int (length d)) (int (mtu - 14)) (now - torg) fh 0 torg (ucast (lv_seq_num hnd)) s =
      Some (torg, ucast (lv_seq_num hnd) + of_nat (length ?pk), fold put qs s)"
    using video_loop_same [OF so, where d = d and nLen = "int (length d)" and mtu = "int (mtu - 14)" and fh = fh and pos = 0
      and tick = "now - torg" and torg = torg and seq = "ucast (lv_seq_num hnd)" and i = i and net = net and s = s] by auto
  have "qs = ?pk" using took_unique [OF q(1)] took_emit_all [of net "codec fh" ?pk i] e by simp
  then show ?thesis unfolding rtp_build_video_data_def m(1) Let_def using q(2) assms(2) by (simp add: torg_def)
qed

lemma live_jpeg_packets:
  assumes "codec fh < 16" "28 < mtu" "mtu \<le> 1500" "samplerate fh = 0"
  shows "rtp_build_jpeg_data tx (Some hnd) (int (length d)) d ts (int mtu) fh s =
    (let pk = jpeg_packets (video_hdr ts) fh d (mtu - 28) (ucast (lv_seq_num hnd))
     in Some (0, Some (hnd\<lparr>lv_seq_num := set_low16 (lv_seq_num hnd) (ucast (lv_seq_num hnd) + of_nat (length pk))\<rparr>),
          fold put pk s))"
proof -
  define so :: sendto_oracle where "so = (\<lambda>i n. (int n, 0))"
  have so: "lossless so" by (simp add: lossless_def so_def)
  define i :: send_udp_handle where "i = undefined"
  define net :: net where "net = undefined"
  have eta: "\<lparr>codec = codec fh, samplerate = 0, framerate = framerate fh, width = width fh,
      height = height fh, Iframe = Iframe fh, reserve = reserve fh, framelength = framelength fh\<rparr> = fh"
    using assms(4) by (intro US_FRAMEHEAD.equality) simp_all
  let ?pk = "jpeg_packets (video_hdr ts) fh d (mtu - 28) (ucast (lv_seq_num hnd))"
  obtain i' net' where e: "emit_all (codec fh) ?pk i net = (i', net')" by fastforce
  have m: "int mtu - 28 = int (mtu - 28)" "0 < mtu - 28" "mtu - 28 \<le> 1472" using assms(2,3) by simp_all
  have "jpeg_send so d (int (length d)) (int (mtu - 28)) (video_hdr ts) fh (ucast (lv_seq_num hnd)) i net =
      Some (0, ucast (lv_seq_num hnd) + of_nat (length ?pk), i', net')"
    using jpeg_send_lossless [OF so assms(1) m(2,3) refl] e by simp
  then obtain qs where q: "took net net' qs"
    "live_jpeg_send tx d (int (length d)) (int (mtu - 28)) (video_hdr ts) fh (ucast (lv_seq_num hnd)) s =
      Some (0, ucast (lv_seq_num hnd) + of_nat (length ?pk), fold put qs s)"
    using jpeg_send_same [OF so, where d = d and nLen = "int (length d)" and m = "int (mtu - 28)" and h = "video_hdr ts"
      and fh = fh and seq = "ucast (lv_seq_num hnd)" and i = i and net = net and s = s] by auto
  have "qs = ?pk" using took_unique [OF q(1)] took_emit_all [of net "codec fh" ?pk i] e by simp
  then show ?thesis unfolding rtp_build_jpeg_data_def m(1) eta Let_def using q(2) by simp
qed

end

end
