(* ===== verification/UdpRecv.thy ===== *)
theory UdpRecv
  imports RtpPacket
begin

section \<open>The receiving module (src/reach\_edukit/src/reach\_share/reach\_udp\_recv.c)\<close>

text \<open>
  One thread per stream receives the packets of the RTP sender, rebuilds a frame head and the frame's
  bytes from each packet in \<^verbatim>\<open>in_data\<close>, places them in the frame buffer of the handle and calls the
  user's function when a frame is complete.  The state is the handle \<open>udp_recv_handle\<close> and the locals
  of the thread that survive an iteration.  \<^verbatim>\<open>recv\<close>, the clock and \<^verbatim>\<open>malloc\<close> are events or arguments.

  \<^verbatim>\<open>recv_buf[1500]\<close> is the packet followed by zeros: it is cleared at the end of each iteration.
  \<^verbatim>\<open>in_data[1500]\<close> is an unused message head (8 bytes), the head \<open>udp_recv_freame_head_t\<close> (48 bytes,
  a record here) and an area of 1444 bytes.  \<^const>\<open>None\<close> is undefined behaviour.
\<close>

subsection \<open>State\<close>

record udp_recv_freame_head_t =
  m_id :: u32
  m_time_tick :: u32
  m_frame_length :: u32
  m_data_codec :: u32
  m_frame_rate :: u32
  m_width :: u32
  m_hight :: u32
  m_colors :: u32
  m_dw_segment :: u32
  m_dw_flags :: u32
  m_dw_packet_number :: u32
  m_others :: u32

datatype udp_recv_stream_status_t = STREAM_PAUSE | STREAM_START

record udp_recv_stream_info_t =
  si_type :: u32
  si_width :: int
  si_height :: int
  si_samplerate :: int
  IDR_FLAG :: int
  si_timestamp :: int
  si_is_blue :: int
  si_colors :: int
  si_frame_rate :: int
  video_toal_num :: int
  video_lost_num :: int
  si_ip :: "byte list"
  si_port :: u16
  udp_fd :: u32
  user_data :: int

record udp_recv_time =
  video_init_time :: u32
  audio_init_time :: u32
  init_video_flag :: byte
  init_audio_flag :: byte
  time_audio_tick :: u32
  time_video_tick :: u32
  video_cal_time :: u32
  audio_cal_time :: u32
  rt_prev_video_time :: u32
  rt_prev_audio_time :: u32
  prev_video_time_tick :: u32
  prev_audio_time_tick :: u32

record udp_recv_handle =
  stream_status :: udp_recv_stream_status_t
  stream_info :: udp_recv_stream_info_t
  udp_recv_time_t :: udp_recv_time
  video_data :: "byte list option"
  audio_data :: "byte list option"
  video_offset :: u32
  audio_offset :: u32
  pthread_status :: byte
  stream_num :: int
  has_func :: bool

text \<open>What the thread calls \<^verbatim>\<open>func\<close> with: the stream info, the frame buffer and the length.\<close>

type_synonym callback = "udp_recv_stream_info_t \<times> byte list \<times> int"

record recv_locals =
  temp_time :: u32
  prev_pakage_num :: int
  lost_num :: int

definition UdpRecv_MAX_UDP_LEN :: nat where "UdpRecv_MAX_UDP_LEN = 1500"
definition UdpRecv_MAX_FRAME_LEN :: nat where "UdpRecv_MAX_FRAME_LEN = 2 * 1024 * 1024"
definition UdpRecv_MAX_AUDIO_LEN :: nat where "UdpRecv_MAX_AUDIO_LEN = 512 * 1024"
definition UdpRecv_EXAMIN_TIME :: u32 where "UdpRecv_EXAMIN_TIME = 800"
definition UdpRecv_OPERATION_ERR :: int where "UdpRecv_OPERATION_ERR = -1"
definition UdpRecv_OPERATION_SUCC :: int where "UdpRecv_OPERATION_SUCC = 0"
definition UdpRecv_OPERATION_CONTINUE :: int where "UdpRecv_OPERATION_CONTINUE = 1"
definition UdpRecv_FRAME_OK :: int where "UdpRecv_FRAME_OK = 0x80"
definition UdpRecv_BLUE_FLAG :: byte where "UdpRecv_BLUE_FLAG = 12"
definition UdpRecv_THREAD_RUN :: byte where "UdpRecv_THREAD_RUN = 1"
definition UdpRecv_THREAD_EXIT :: byte where "UdpRecv_THREAD_EXIT = 0"

definition UdpRecv_H264_CODEC_TYPE :: u32 where "UdpRecv_H264_CODEC_TYPE = 0x34363248"
definition UdpRecv_AAC_CODEC_TYPE :: u32 where "UdpRecv_AAC_CODEC_TYPE = 0x53544441"
definition UdpRecv_JPEG_CODEC_TYPE :: u32 where "UdpRecv_JPEG_CODEC_TYPE = 0x4745504A"

text \<open>\<^verbatim>\<open>udp_recv_segment_t\<close>\<close>

definition UdpRecv_MIDDLE_FRAME :: u32 where "UdpRecv_MIDDLE_FRAME = 0"
definition UdpRecv_LAST_FRAME :: u32 where "UdpRecv_LAST_FRAME = 1"
definition UdpRecv_START_FRAME :: u32 where "UdpRecv_START_FRAME = 2"
definition UdpRecv_INDEPENDENT_FRAME :: u32 where "UdpRecv_INDEPENDENT_FRAME = 3"

subsection \<open>From a packet to a frame head and frame bytes\<close>

definition set_data_codec :: "US_FRAMEHEAD \<Rightarrow> u32" where
  "set_data_codec f =
     (if codec f = 0 then UdpRecv_H264_CODEC_TYPE
      else if codec f = 1 then UdpRecv_AAC_CODEC_TYPE
      else if codec f = 2 then UdpRecv_JPEG_CODEC_TYPE
      else -1)"

definition switch_audio_sample_rate :: "byte \<Rightarrow> u32" where
  "switch_audio_sample_rate i =
     (if i = 0 then 16000 else if i = 1 then 32000 else if i = 2 then 44100
      else if i = 3 then 48000 else if i = 4 then 96000 else 3)"

definition get_jpeg_frame_data_head ::
  "udp_recv_freame_head_t \<Rightarrow> US_FRAMEHEAD \<Rightarrow> byte list \<Rightarrow> udp_recv_freame_head_t" where
  "get_jpeg_frame_data_head fh f b =
     fh\<lparr>m_frame_rate := ucast (framerate f), m_colors := 0, m_others := 0,
        m_time_tick := rx_timestamp b, m_frame_length := framelength f, m_width := ucast (width f),
        m_hight := ucast (height f), m_dw_packet_number := ucast (rx_seq_no b),
        m_dw_segment := ucast (samplerate f)\<rparr>"

text \<open>The extractors take \<^verbatim>\<open>recv_buf\<close>, \<^verbatim>\<open>recv_len\<close> and the area and return the area and \<^verbatim>\<open>*frame_len\<close>.\<close>

definition get_jpeg_frame_data :: "byte list \<Rightarrow> int \<Rightarrow> byte list \<Rightarrow> (byte list \<times> int) option" where
  "get_jpeg_frame_data b n area = do {
     area' \<leftarrow> memcpy area 0 b 28 (n - 28);
     Some (area', n - 28)
   }"

definition get_audio_frame_data_head ::
  "udp_recv_freame_head_t \<Rightarrow> US_FRAMEHEAD \<Rightarrow> byte list \<Rightarrow> udp_recv_freame_head_t" where
  "get_audio_frame_data_head fh f b =
     (let fh = fh\<lparr>m_dw_segment := 3, m_colors := 0, m_others := 0, m_time_tick := rx_timestamp b,
               m_frame_length := framelength f, m_width := ucast (width f),
               m_hight := ucast (height f), m_dw_packet_number := ucast (rx_seq_no b),
               m_frame_rate := switch_audio_sample_rate (samplerate f),
               m_dw_flags := (if Iframe f \<noteq> 0 then 16 else 0)\<rparr>
      in if reserve f = 1 then fh\<lparr>m_frame_rate := m_frame_rate fh * 2\<rparr> else fh)"

definition get_video_frame_data_head ::
  "udp_recv_freame_head_t \<Rightarrow> US_FRAMEHEAD \<Rightarrow> byte list \<Rightarrow> udp_recv_freame_head_t" where
  "get_video_frame_data_head fh f b =
     fh\<lparr>m_frame_rate := ucast (framerate f), m_colors := 0, m_time_tick := rx_timestamp b,
        m_frame_length := framelength f, m_width := ucast (width f), m_hight := ucast (height f),
        m_dw_packet_number := ucast (rx_seq_no b),
        m_others := (if UdpRecv_BLUE_FLAG = samplerate f then 1 else 0),
        m_dw_flags := (if Iframe f \<noteq> 0 then 16 else 0)\<rparr>"

definition get_video_frame_data ::
  "byte list \<Rightarrow> int \<Rightarrow> byte list \<Rightarrow> (int \<times> byte list \<times> int) option" where
  "get_video_frame_data b n area = do {
     let ind = b ! 28;
     let fu = b ! 29;
     let ifr = Iframe (rx_frame b);
     if fu_type ind = 28 then
       if fu_s fu = 1 then do {
         let frame_flag = (if ifr = 1 then 0 else 2);
         let area = area[0 := 0, 1 := 0, 2 := 0, 3 := 1,
                         4 := push_bit 7 (fu_f ind) OR push_bit 5 (fu_nri ind) OR fu_type fu];
         area' \<leftarrow> memcpy area 5 b 30 (n - 30);
         Some (frame_flag, area', 5 + (n - 30))
       } else do {
         area' \<leftarrow> memcpy area 0 b 30 (n - 30);
         Some (if fu_e fu \<noteq> 0 then 1 else 0, area', n - 30)
       }
     else do {
       let area = area[0 := 0, 1 := 0, 2 := 0, 3 := 1];
       area' \<leftarrow> memcpy area 4 b 28 (n - 28);
       let b4 = area' ! 4;
       Some (if ifr = 1 then
               (if b4 = 0x67 \<or> b4 = 0x47 \<or> b4 = 0x27 then 2
                else if b4 = 0x68 \<or> b4 = 0x48 \<or> b4 = 0x28 then 0
                else if b4 = 0x65 \<or> b4 = 0x45 \<or> b4 = 0x25 then 1
                else -1)
             else 3, area', 4 + (n - 28))
     }
   }"

definition OnAudioAacFrame :: "int \<Rightarrow> int \<Rightarrow> byte list" where
  \<comment> \<open>the seven bytes it stores in \<^verbatim>\<open>adts_header\<close>\<close>
  "OnAudioAacFrame smp frame_length =
     (let fl = word_of_int frame_length :: u32
      in [0xFF, 0xF1,
          push_bit 6 1 OR word_of_int (smp * 4) OR drop_bit 2 (2 AND 4),
          push_bit 6 (2 AND 3) OR ucast (drop_bit 11 (fl AND 0x1800)),
          ucast (drop_bit 3 (fl AND 0x1FF8)),
          ucast (push_bit 5 (fl AND 7)) OR 1,
          0x8C OR (word_of_int (frame_length div 1024) AND 3)])"

definition aac_payload_demux ::
  "int \<Rightarrow> byte list \<Rightarrow> int \<Rightarrow> int \<Rightarrow> int \<Rightarrow> byte list \<Rightarrow> int \<Rightarrow> (int \<times> byte list \<times> int) option" where
  \<comment> \<open>\<open>off\<close>: \<^verbatim>\<open>buf\<close> as an offset into the packet \<open>b\<close>\<close>
  "aac_payload_demux smp b off len status area frame_len = do {
     let frame_len = (if frame_len = 0 then 7 else frame_len);
     area \<leftarrow> memcpy area frame_len b (off + 4) (len - 4);
     let frame_len = frame_len + (len - 4);
     if status = 1 then do {
       area \<leftarrow> memcpy area 0 (OnAudioAacFrame smp frame_len) 0 7;
       Some (1, area, frame_len)
     } else Some (0, area, frame_len)
   }"

definition get_audio_frame_data :: "byte list \<Rightarrow> int \<Rightarrow> byte list \<Rightarrow> (byte list \<times> int) option" where
  "get_audio_frame_data b n area = do {
     (ret, area', frame_len) \<leftarrow> aac_payload_demux 4 b 28 (n - 28) 1 area 0;
     Some (area', frame_len)
   }"

subsection \<open>Placing a packet in its frame\<close>

definition udp_recv_getIntervalTime :: "u32 \<Rightarrow> u32 \<Rightarrow> u32" where
  "udp_recv_getIntervalTime prev_time cur =
     (let c = (if prev_time > cur then prev_time - cur else cur - prev_time)
      in if c = 0 then c + 1 else c)"

definition udp_recv_getJpgIntervalTime :: "u32 \<Rightarrow> u32 \<Rightarrow> u32" where
  "udp_recv_getJpgIntervalTime prev_time cur =
     (let c = (if prev_time > cur then prev_time - cur else cur - prev_time)
      in if c = 0 then c + 1 else c)"

text \<open>The clock part of \<^verbatim>\<open>pkg_placed_in_frame\<close>; \<open>now\<close> is the local time.\<close>

definition place_video_time ::
  "udp_recv_freame_head_t \<Rightarrow> u32 \<Rightarrow> udp_recv_time \<Rightarrow> udp_recv_time" where
  "place_video_time fh now t =
     (let tick = m_time_tick fh;
          t = (if init_video_flag t = 0
               then t\<lparr>video_init_time := tick, init_video_flag := 1, video_cal_time := 0,
                      prev_video_time_tick := tick\<rparr>
               else t);
          cal = (if tick > video_init_time t then tick - video_init_time t
                 else video_init_time t - tick);
          t = (if UdpRecv_H264_CODEC_TYPE = m_data_codec fh then
                 (if tick < prev_video_time_tick t \<or>
                     (tick > prev_video_time_tick t \<and>
                      tick - prev_video_time_tick t > UdpRecv_EXAMIN_TIME)
                  then (let tv = time_video_tick t
                               + udp_recv_getIntervalTime (rt_prev_video_time t) now
                        in t\<lparr>time_video_tick := tv, video_init_time := tick, video_cal_time := tv\<rparr>)
                  else t\<lparr>time_video_tick := cal + video_cal_time t\<rparr>)
               else t);
          t = (if UdpRecv_JPEG_CODEC_TYPE = m_data_codec fh then
                 (if tick < prev_video_time_tick t
                  then (let tv = time_video_tick t
                               + udp_recv_getJpgIntervalTime (rt_prev_video_time t) now
                        in t\<lparr>time_video_tick := tv, video_init_time := tick, video_cal_time := tv\<rparr>)
                  else t\<lparr>time_video_tick := cal + video_cal_time t\<rparr>)
               else t)
      in t\<lparr>prev_video_time_tick := tick, rt_prev_video_time := now\<rparr>)"

definition place_audio_time ::
  "udp_recv_freame_head_t \<Rightarrow> u32 \<Rightarrow> udp_recv_time \<Rightarrow> udp_recv_time" where
  "place_audio_time fh now t =
     (let tick = m_time_tick fh;
          t = (if init_audio_flag t = 0
               then t\<lparr>audio_init_time := tick, init_audio_flag := 1, audio_cal_time := 0,
                      prev_audio_time_tick := tick\<rparr>
               else t);
          cal = (if tick > audio_init_time t then tick - audio_init_time t
                 else audio_init_time t - tick);
          t = (if tick < prev_audio_time_tick t \<or>
                  (tick > prev_audio_time_tick t \<and>
                   tick - prev_audio_time_tick t > UdpRecv_EXAMIN_TIME)
               then (let ta = time_audio_tick t
                            + udp_recv_getIntervalTime (rt_prev_audio_time t) now
                     in t\<lparr>time_audio_tick := ta, audio_init_time := tick, audio_cal_time := ta\<rparr>)
               else t\<lparr>time_audio_tick := cal + audio_cal_time t\<rparr>)
      in t\<lparr>prev_audio_time_tick := tick, rt_prev_audio_time := now\<rparr>)"

text \<open>
  The \<^verbatim>\<open>switch(fh->m_dw_segment)\<close> of the video and the audio function, on the frame buffer \<open>buf\<close> and
  its offset.  The result is the return code, the buffer, the offset and whether a packet was
  counted as lost.  \<^verbatim>\<open>video_offset + part_frame_len\<close> is unsigned 32-bit arithmetic.
\<close>

definition place_segment ::
  "nat \<Rightarrow> udp_recv_freame_head_t \<Rightarrow> byte list \<Rightarrow> int \<Rightarrow> byte list \<Rightarrow> u32
    \<Rightarrow> (int \<times> byte list \<times> u32 \<times> bool) option" where
  "place_segment max_len fh area part buf off =
     (if m_dw_segment fh = UdpRecv_START_FRAME then
        (if unat (m_frame_length fh) > max_len then Some (UdpRecv_OPERATION_ERR, buf, off, False)
         else do {
           buf' \<leftarrow> memcpy buf 0 area 0 part;
           Some (UdpRecv_OPERATION_SUCC, buf', 0 + word_of_int part, False)
         })
      else if m_dw_segment fh = UdpRecv_MIDDLE_FRAME then
        (if off + word_of_int part > m_frame_length fh then Some (UdpRecv_OPERATION_SUCC, buf, 0, True)
         else do {
           buf' \<leftarrow> memcpy buf (uint off) area 0 part;
           Some (UdpRecv_OPERATION_SUCC, buf', off + word_of_int part, False)
         })
      else if m_dw_segment fh = UdpRecv_LAST_FRAME then
        (if off + word_of_int part > m_frame_length fh then Some (UdpRecv_OPERATION_SUCC, buf, 0, True)
         else do {
           buf' \<leftarrow> memcpy buf (uint off) area 0 part;
           Some (UdpRecv_OPERATION_CONTINUE, buf', 0, False)
         })
      else if m_dw_segment fh = UdpRecv_INDEPENDENT_FRAME then do {
        buf' \<leftarrow> memcpy buf 0 area 0 (uint (m_frame_length fh));
        Some (UdpRecv_OPERATION_CONTINUE, buf', off, False)
      }
      else Some (UdpRecv_OPERATION_SUCC, buf, off, False))"

definition pkg_placed_in_frame ::
  "udp_recv_freame_head_t \<Rightarrow> byte list \<Rightarrow> int \<Rightarrow> u32 \<Rightarrow> udp_recv_handle
    \<Rightarrow> (int \<times> udp_recv_handle) option" where
  "pkg_placed_in_frame fh area part now h = do {
     buf \<leftarrow> video_data h;
     (r, buf', off, lost) \<leftarrow> place_segment UdpRecv_MAX_FRAME_LEN fh area part buf (video_offset h);
     Some (r, h\<lparr>udp_recv_time_t := place_video_time fh now (udp_recv_time_t h),
                video_data := Some buf', video_offset := off,
                stream_info := (if lost
                  then (stream_info h)\<lparr>video_lost_num := video_lost_num (stream_info h) + 1\<rparr>
                  else stream_info h)\<rparr>)
   }"

definition pkg_placed_in_frame_audio ::
  "udp_recv_freame_head_t \<Rightarrow> byte list \<Rightarrow> int \<Rightarrow> u32 \<Rightarrow> udp_recv_handle
    \<Rightarrow> (int \<times> udp_recv_handle) option" where
  "pkg_placed_in_frame_audio fh area part now h = do {
     buf \<leftarrow> audio_data h;
     (r, buf', off, lost) \<leftarrow> place_segment UdpRecv_MAX_AUDIO_LEN fh area part buf (audio_offset h);
     Some (r, h\<lparr>udp_recv_time_t := place_audio_time fh now (udp_recv_time_t h),
                audio_data := Some buf', audio_offset := off\<rparr>)
   }"

definition udp_recv_media_frame_data ::
  "udp_recv_freame_head_t \<Rightarrow> byte list \<Rightarrow> int \<Rightarrow> u32 \<Rightarrow> udp_recv_handle
    \<Rightarrow> (int \<times> udp_recv_handle) option" where
  "udp_recv_media_frame_data fh area part now h =
     (if UdpRecv_H264_CODEC_TYPE = m_data_codec fh \<or> UdpRecv_JPEG_CODEC_TYPE = m_data_codec fh then do {
        (r, h') \<leftarrow> pkg_placed_in_frame fh area part now h;
        Some (if r < UdpRecv_OPERATION_CONTINUE then UdpRecv_OPERATION_SUCC
              else if UdpRecv_OPERATION_CONTINUE = r then UdpRecv_FRAME_OK else r, h')
      }
      else if UdpRecv_AAC_CODEC_TYPE = m_data_codec fh then do {
        (r, h') \<leftarrow> pkg_placed_in_frame_audio fh area part now h;
        Some (if r < UdpRecv_OPERATION_CONTINUE then UdpRecv_OPERATION_SUCC
              else if UdpRecv_OPERATION_CONTINUE = r then UdpRecv_FRAME_OK else r, h')
      }
      else Some (UdpRecv_OPERATION_SUCC, h))"

definition udp_recv_set_stream_info ::
  "udp_recv_freame_head_t \<Rightarrow> u32 \<Rightarrow> udp_recv_stream_info_t \<Rightarrow> udp_recv_stream_info_t" where
  "udp_recv_set_stream_info fh ts s =
     (let s = s\<lparr>si_type := m_data_codec fh, si_height := sint (m_hight fh),
              si_width := sint (m_width fh), IDR_FLAG := sint (m_dw_flags fh),
              si_is_blue := (if m_others fh = 0 then 1 else 0), si_colors := sint (m_colors fh),
              si_timestamp := sint ts, si_frame_rate := sint (m_frame_rate fh)\<rparr>
      in if UdpRecv_AAC_CODEC_TYPE = m_data_codec fh
         then s\<lparr>si_samplerate := sint (m_frame_rate fh)\<rparr> else s)"

subsection \<open>One packet\<close>

definition head_zero :: udp_recv_freame_head_t where
  "head_zero = \<lparr>m_id = 0, m_time_tick = 0, m_frame_length = 0, m_data_codec = 0, m_frame_rate = 0,
     m_width = 0, m_hight = 0, m_colors = 0, m_dw_segment = 0, m_dw_flags = 0,
     m_dw_packet_number = 0, m_others = 0\<rparr>"

text \<open>
  The frame buffers are allocated on demand; \<open>mv\<close> and \<open>ma\<close> are what \<^verbatim>\<open>r_malloc\<close> returns for the
  video and the audio buffer.  The flag tells whether the thread goes on; when the second
  allocation fails the first buffer is already in the handle.
\<close>

definition alloc_frames ::
  "byte list option \<Rightarrow> byte list option \<Rightarrow> udp_recv_handle \<Rightarrow> bool \<times> udp_recv_handle" where
  "alloc_frames mv ma h =
     (let h = (if video_data h = None then h\<lparr>video_data := mv\<rparr> else h)
      in if video_data h = None then (False, h)
         else let h = (if audio_data h = None then h\<lparr>audio_data := ma\<rparr> else h)
              in (audio_data h \<noteq> None, h))"

text \<open>The packet-loss statistics of H.264 packets.\<close>

definition count_lost :: "byte list \<Rightarrow> recv_locals \<Rightarrow> recv_locals" where
  "count_lost b loc =
     (let now = uint (rx_seq_no b);
          prev = (if prev_pakage_num loc = 0 then now else prev_pakage_num loc)
      in loc\<lparr>lost_num := (if now - prev > 1 then lost_num loc + (now - prev) else lost_num loc),
             prev_pakage_num := now\<rparr>)"

text \<open>
  The three branches of \<^verbatim>\<open>udp_recv_deal\<close> that turn \<^verbatim>\<open>recv_buf\<close> into the head, the area and
  \<^verbatim>\<open>data_len\<close>.  \<^verbatim>\<open>temp_time\<close> keeps its value when an audio rate is not known.
\<close>

definition unpack_audio ::
  "byte list \<Rightarrow> int \<Rightarrow> udp_recv_freame_head_t \<Rightarrow> byte list \<Rightarrow> recv_locals
    \<Rightarrow> (udp_recv_freame_head_t \<times> byte list \<times> int \<times> recv_locals) option" where
  "unpack_audio b n fh area loc = do {
     (area', data_len) \<leftarrow> get_audio_frame_data b n area;
     let fh = get_audio_frame_data_head fh (rx_frame b) b;
     let tt = (if m_frame_rate fh = 48000 \<or> m_frame_rate fh = 96000 then m_time_tick fh div 48
               else if m_frame_rate fh = 44100 \<or> m_frame_rate fh = 88200
               then (m_time_tick fh * 10) div 441
               else temp_time loc);
     Some (fh\<lparr>m_time_tick := tt, m_colors := 128000\<rparr>, area', data_len, loc\<lparr>temp_time := tt\<rparr>)
   }"

definition unpack_video ::
  "byte list \<Rightarrow> int \<Rightarrow> udp_recv_freame_head_t \<Rightarrow> byte list \<Rightarrow> recv_locals
    \<Rightarrow> (udp_recv_freame_head_t \<times> byte list \<times> int \<times> recv_locals) option" where
  "unpack_video b n fh area loc = do {
     (flag, area', data_len) \<leftarrow> get_video_frame_data b n area;
     let fh = get_video_frame_data_head fh (rx_frame b) b;
     let fh = fh\<lparr>m_dw_segment := (if flag = -1 then 0 else word_of_int flag)\<rparr>;
     let fh = (if m_frame_rate fh = 0 then fh\<lparr>m_frame_rate := 25\<rparr> else fh);
     let tt = m_time_tick fh div 90;
     Some (fh\<lparr>m_time_tick := tt\<rparr>, area', data_len, loc\<lparr>temp_time := tt\<rparr>)
   }"

definition unpack_jpeg ::
  "byte list \<Rightarrow> int \<Rightarrow> udp_recv_freame_head_t \<Rightarrow> byte list \<Rightarrow> recv_locals
    \<Rightarrow> (udp_recv_freame_head_t \<times> byte list \<times> int \<times> recv_locals) option" where
  "unpack_jpeg b n fh area loc = do {
     (area', data_len) \<leftarrow> get_jpeg_frame_data b n area;
     Some (get_jpeg_frame_data_head fh (rx_frame b) b, area', data_len, loc)
   }"

definition unpack_packet ::
  "byte list \<Rightarrow> int \<Rightarrow> recv_locals
    \<Rightarrow> (udp_recv_freame_head_t \<times> byte list \<times> int \<times> recv_locals) option" where
  "unpack_packet b n loc =
     (let dc = set_data_codec (rx_frame b);
          fh = head_zero\<lparr>m_data_codec := dc\<rparr>; area = replicate 1444 0
      in if dc = UdpRecv_AAC_CODEC_TYPE then unpack_audio b n fh area loc
         else if dc = UdpRecv_H264_CODEC_TYPE then unpack_video b n fh area (count_lost b loc)
         else if dc = UdpRecv_JPEG_CODEC_TYPE then unpack_jpeg b n fh area loc
         else Some (fh, area, 0, loc))"

text \<open>The call of the user's function after a complete frame.\<close>

definition deliver_frame ::
  "udp_recv_freame_head_t \<Rightarrow> int \<Rightarrow> udp_recv_handle \<Rightarrow> udp_recv_handle \<times> callback list" where
  "deliver_frame fh ret h =
     (if UdpRecv_FRAME_OK = ret \<and> has_func h then
        (let si = (stream_info h)\<lparr>video_toal_num := video_toal_num (stream_info h) + 1\<rparr>;
             len = sint (m_frame_length fh)
         in if UdpRecv_H264_CODEC_TYPE = m_data_codec fh \<or> UdpRecv_JPEG_CODEC_TYPE = m_data_codec fh then
              (let si = udp_recv_set_stream_info fh (time_video_tick (udp_recv_time_t h)) si
               in (h\<lparr>stream_info := si\<rparr>, [(si, the (video_data h), len)]))
            else if UdpRecv_AAC_CODEC_TYPE = m_data_codec fh then
              (let si = udp_recv_set_stream_info fh (time_audio_tick (udp_recv_time_t h)) si
               in (h\<lparr>stream_info := si\<rparr>, [(si, the (audio_data h), len)]))
            else (h\<lparr>stream_info := si\<rparr>, []))
      else (h, []))"

text \<open>
  The body of the loop of \<^verbatim>\<open>udp_recv_deal\<close> for a received packet: the flag is false where the thread
  leaves the loop.
\<close>

definition recv_packet ::
  "byte list option \<Rightarrow> byte list option \<Rightarrow> u32 \<Rightarrow> byte list \<Rightarrow> recv_locals \<Rightarrow> udp_recv_handle
    \<Rightarrow> (bool \<times> recv_locals \<times> udp_recv_handle \<times> callback list) option" where
  "recv_packet mv ma now pkt loc h =
     (let pkt = take UdpRecv_MAX_UDP_LEN pkt; n = length pkt;
          b = pkt @ replicate (UdpRecv_MAX_UDP_LEN - n) 0
      in if n < 28 then Some (False, loc, h, [])
         else case alloc_frames mv ma h of
           (False, h') \<Rightarrow> Some (False, loc, h', [])
         | (True, h') \<Rightarrow> do {
             (fh, area, data_len, loc') \<leftarrow> unpack_packet b (int n) loc;
             (ret, h'') \<leftarrow> udp_recv_media_frame_data fh area data_len now h';
             Some (True, loc', deliver_frame fh ret h'')
           })"

subsection \<open>The thread and its control functions\<close>

definition udp_recv_start :: "udp_recv_handle \<Rightarrow> udp_recv_handle" where
  "udp_recv_start h = h\<lparr>stream_status := STREAM_START\<rparr>"

definition udp_recv_pause :: "udp_recv_handle \<Rightarrow> udp_recv_handle" where
  "udp_recv_pause h = h\<lparr>stream_status := STREAM_PAUSE\<rparr>"

text \<open>
  The thread's loop as a run over events: what \<^verbatim>\<open>recv\<close> returns in an iteration (a packet with the local
  time and the allocator's answers, or no data with an \<^verbatim>\<open>errno\<close>), and the calls of other threads.
  A paused iteration sleeps and leaves the packet in the socket.
\<close>

datatype recv_event =
    Packet "byte list" u32 "byte list option" "byte list option"
  | NoData int
  | Start | Pause | Exit

record recv_thread =
  r_handle :: udp_recv_handle
  r_locals :: recv_locals
  r_running :: bool
  r_calls :: "callback list"

definition recv_step :: "recv_event \<Rightarrow> recv_thread \<Rightarrow> recv_thread option" where
  "recv_step ev s =
     (case ev of
        Start \<Rightarrow> Some (s\<lparr>r_handle := udp_recv_start (r_handle s)\<rparr>)
      | Pause \<Rightarrow> Some (s\<lparr>r_handle := udp_recv_pause (r_handle s)\<rparr>)
      | Exit \<Rightarrow> Some (s\<lparr>r_handle := (r_handle s)\<lparr>pthread_status := UdpRecv_THREAD_EXIT\<rparr>\<rparr>)
      | NoData e \<Rightarrow>
          Some (if \<not> r_running s then s
                else if pthread_status (r_handle s) \<noteq> 1 then s\<lparr>r_running := False\<rparr>
                else if stream_status (r_handle s) = STREAM_START \<and> e \<noteq> 11 \<and> e \<noteq> 4
                then s\<lparr>r_running := False\<rparr> else s)
      | Packet p now mv ma \<Rightarrow>
          (if \<not> r_running s then Some s
           else if pthread_status (r_handle s) \<noteq> 1 then Some (s\<lparr>r_running := False\<rparr>)
           else if stream_status (r_handle s) = STREAM_START then do {
             (go, loc, h, cs) \<leftarrow> recv_packet mv ma now p (r_locals s) (r_handle s);
             Some \<lparr>r_handle = h, r_locals = loc, r_running = go, r_calls = r_calls s @ cs\<rparr>
           }
           else Some s))"

fun udp_recv_deal :: "recv_event list \<Rightarrow> recv_thread \<Rightarrow> recv_thread option" where
  "udp_recv_deal [] s = Some s"
| "udp_recv_deal (ev # evs) s = do { s' \<leftarrow> recv_step ev s; udp_recv_deal evs s' }"

lemma udp_recv_deal_append:
  "udp_recv_deal (xs @ ys) s = (udp_recv_deal xs s \<bind> udp_recv_deal ys)"
  by (induction xs arbitrary: s) (simp_all split: bind_split)

text \<open>
  \<^verbatim>\<open>create_data_udp_sokcet\<close> on the results of \<^verbatim>\<open>socket\<close>, \<^verbatim>\<open>bind\<close> and \<^verbatim>\<open>setsockopt\<close>, and the entry of
  \<^verbatim>\<open>udp_recv_deal\<close>: \<^verbatim>\<open>udp_fd\<close> is unsigned, so \<^verbatim>\<open>0 > udp_fd\<close> never holds and the loop is entered.
\<close>

definition create_data_udp_sokcet :: "int \<Rightarrow> int \<Rightarrow> int \<Rightarrow> int" where
  "create_data_udp_sokcet fd bnd rb =
     (if bnd < 0 then UdpRecv_OPERATION_ERR else if rb < 0 then UdpRecv_OPERATION_ERR else fd)"

definition recv_thread_entry :: "int \<Rightarrow> int \<Rightarrow> int \<Rightarrow> udp_recv_handle \<Rightarrow> recv_thread" where
  "recv_thread_entry fd bnd rb h =
     (let h = h\<lparr>stream_info := (stream_info h)\<lparr>udp_fd :=
                word_of_int (create_data_udp_sokcet fd bnd rb)\<rparr>\<rparr>
      in \<lparr>r_handle = h, r_locals = \<lparr>temp_time = 0, prev_pakage_num = 0, lost_num = 0\<rparr>,
          r_running = \<not> (0 > uint (udp_fd (stream_info h))), r_calls = []\<rparr>)"

record stream_recv_cond_t =
  rc_ip :: "byte list"
  rc_port :: u16
  rc_user_data :: int
  rc_has_func :: bool

text \<open>
  \<^verbatim>\<open>udp_recv_init\<close> up to the creation of the thread: \<open>mok\<close> and \<open>pok\<close> tell whether \<^verbatim>\<open>r_malloc\<close> and
  \<^verbatim>\<open>pthread_create\<close> succeed; \<^verbatim>\<open>snprintf\<close> keeps at most 15 characters of the address.
\<close>

definition udp_recv_init :: "bool \<Rightarrow> bool \<Rightarrow> stream_recv_cond_t \<Rightarrow> udp_recv_handle option" where
  "udp_recv_init mok pok src =
     (if \<not> mok \<or> \<not> pok then None
      else let ip = take 15 (rc_ip src)
        in Some \<lparr>stream_status = STREAM_PAUSE,
           stream_info = \<lparr>si_type = 0, si_width = 0, si_height = 0, si_samplerate = 0, IDR_FLAG = 0,
             si_timestamp = 0, si_is_blue = 0, si_colors = 0, si_frame_rate = 0, video_toal_num = 0,
             video_lost_num = 0, si_ip = ip @ replicate (16 - length ip) 0, si_port = rc_port src,
             udp_fd = 0, user_data = rc_user_data src\<rparr>,
           udp_recv_time_t = \<lparr>video_init_time = 0, audio_init_time = 0, init_video_flag = 0,
             init_audio_flag = 0, time_audio_tick = 0, time_video_tick = 0, video_cal_time = 0,
             audio_cal_time = 0, rt_prev_video_time = 0, rt_prev_audio_time = 0,
             prev_video_time_tick = 0, prev_audio_time_tick = 0\<rparr>,
           video_data = None, audio_data = None, video_offset = 0, audio_offset = 0,
           pthread_status = UdpRecv_THREAD_RUN, stream_num = 0, has_func = rc_has_func src\<rparr>)"

text \<open>
  \<^verbatim>\<open>udp_recv_deinit\<close>: the events it sends to the thread before it joins it, and the descriptor it
  closes afterwards.
\<close>

definition udp_recv_deinit_events :: "udp_recv_handle \<Rightarrow> recv_event list" where
  "udp_recv_deinit_events h = (if STREAM_START = stream_status h then [Pause, Exit] else [Exit])"

definition udp_recv_deinit_closes :: "udp_recv_handle \<Rightarrow> u32 option" where
  "udp_recv_deinit_closes h =
     (if udp_fd (stream_info h) > 0 then Some (udp_fd (stream_info h)) else None)"

subsection \<open>Assembling a frame\<close>

text \<open>
  The contract of frame assembly, stated once for the video and the audio function.  \<open>asm h\<close> is what
  has been put together since the last start packet, \<open>buf h\<close> the whole frame buffer.
\<close>

locale frame_assembler =
  fixes place :: "udp_recv_freame_head_t \<Rightarrow> byte list \<Rightarrow> int \<Rightarrow> u32 \<Rightarrow> 'h \<Rightarrow> (int \<times> 'h) option"
    and inv :: "'h \<Rightarrow> bool" and asm :: "'h \<Rightarrow> byte list" and buf :: "'h \<Rightarrow> byte list"
    and max_len :: nat
  assumes start:
    "inv h \<Longrightarrow> m_dw_segment fh = UdpRecv_START_FRAME \<Longrightarrow> unat (m_frame_length fh) \<le> max_len
      \<Longrightarrow> n \<le> length area \<Longrightarrow> n \<le> max_len
      \<Longrightarrow> \<exists>h'. place fh area (int n) now h = Some (UdpRecv_OPERATION_SUCC, h')
             \<and> inv h' \<and> asm h' = take n area"
    and middle:
    "inv h \<Longrightarrow> m_dw_segment fh = UdpRecv_MIDDLE_FRAME \<Longrightarrow> unat (m_frame_length fh) \<le> max_len
      \<Longrightarrow> n \<le> length area \<Longrightarrow> length (asm h) + n \<le> unat (m_frame_length fh)
      \<Longrightarrow> \<exists>h'. place fh area (int n) now h = Some (UdpRecv_OPERATION_SUCC, h')
             \<and> inv h' \<and> asm h' = asm h @ take n area"
    and last:
    "inv h \<Longrightarrow> m_dw_segment fh = UdpRecv_LAST_FRAME \<Longrightarrow> unat (m_frame_length fh) \<le> max_len
      \<Longrightarrow> n \<le> length area \<Longrightarrow> length (asm h) + n \<le> unat (m_frame_length fh)
      \<Longrightarrow> \<exists>h'. place fh area (int n) now h = Some (UdpRecv_OPERATION_CONTINUE, h')
             \<and> inv h' \<and> asm h' = [] \<and> take (length (asm h) + n) (buf h') = asm h @ take n area"
    and oversized:
    "inv h \<Longrightarrow> m_dw_segment fh = UdpRecv_MIDDLE_FRAME \<or> m_dw_segment fh = UdpRecv_LAST_FRAME
      \<Longrightarrow> n \<le> max_len \<Longrightarrow> length (asm h) + n > unat (m_frame_length fh)
      \<Longrightarrow> \<exists>h'. place fh area (int n) now h = Some (UdpRecv_OPERATION_SUCC, h') \<and> inv h' \<and> asm h' = []"
    and independent:
    "inv h \<Longrightarrow> m_dw_segment fh = UdpRecv_INDEPENDENT_FRAME
      \<Longrightarrow> n = unat (m_frame_length fh) \<Longrightarrow> n \<le> length area \<Longrightarrow> n \<le> max_len
      \<Longrightarrow> \<exists>h'. place fh area p now h = Some (UdpRecv_OPERATION_CONTINUE, h')
             \<and> inv h' \<and> take n (buf h') = take n area"
begin

text \<open>Placing a list of fragments (head, area, length, local time), with the return codes.\<close>

fun place_all ::
  "(udp_recv_freame_head_t \<times> byte list \<times> nat \<times> u32) list \<Rightarrow> 'h \<Rightarrow> (int list \<times> 'h) option" where
  "place_all [] h = Some ([], h)"
| "place_all ((fh, area, n, now) # fs) h = do {
     (r, h') \<leftarrow> place fh area (int n) now h;
     (rs, h'') \<leftarrow> place_all fs h';
     Some (r # rs, h'')
   }"

definition bytes_of :: "(udp_recv_freame_head_t \<times> byte list \<times> nat \<times> u32) list \<Rightarrow> byte list" where
  "bytes_of fs = concat (map (\<lambda>(fh, area, n, now). take n area) fs)"

definition fragment :: "u32 \<Rightarrow> nat \<Rightarrow> (udp_recv_freame_head_t \<times> byte list \<times> nat \<times> u32) \<Rightarrow> bool" where
  "fragment seg len f =
     (case f of (fh, area, n, now) \<Rightarrow>
        m_dw_segment fh = seg \<and> unat (m_frame_length fh) = len \<and> n \<le> length area)"

lemma middles:
  assumes "inv h" "list_all (fragment UdpRecv_MIDDLE_FRAME len) fs" "len \<le> max_len"
    and "length (asm h) + length (bytes_of fs) \<le> len"
  shows "\<exists>h'. place_all fs h = Some (replicate (length fs) UdpRecv_OPERATION_SUCC, h')
           \<and> inv h' \<and> asm h' = asm h @ bytes_of fs"
  using assms
proof (induction fs arbitrary: h)
  case (Cons f fs)
  obtain fh area n now where f: "f = (fh, area, n, now)" by (cases f)
  from Cons.prems(2) have s: "m_dw_segment fh = UdpRecv_MIDDLE_FRAME" "unat (m_frame_length fh) = len"
    "n \<le> length area" by (simp_all add: f fragment_def)
  then have l: "length (asm h) + n \<le> len" using Cons.prems(4) by (simp add: f bytes_of_def)
  from middle [OF Cons.prems(1) s(1) _ s(3)] s(2) l Cons.prems(3)
  obtain h1 where h1: "place fh area (int n) now h = Some (UdpRecv_OPERATION_SUCC, h1)" "inv h1"
    "asm h1 = asm h @ take n area" by blast
  from Cons.IH [OF h1(2)] Cons.prems(2,3,4) h1(3) s(3)
  obtain h2 where "place_all fs h1 = Some (replicate (length fs) UdpRecv_OPERATION_SUCC, h2)" "inv h2"
    "asm h2 = asm h1 @ bytes_of fs" by (auto simp: f bytes_of_def)
  with h1 show ?case by (auto simp: f bytes_of_def)
qed (simp add: bytes_of_def)

text \<open>A start packet, middle packets and a last packet whose lengths add up to the frame length.\<close>

lemma assembles:
  assumes "inv h" "fragment UdpRecv_START_FRAME len f0" "list_all (fragment UdpRecv_MIDDLE_FRAME len) fs"
    and "fragment UdpRecv_LAST_FRAME len fl" "len \<le> max_len"
    and "length (bytes_of (f0 # fs @ [fl])) = len"
  shows "\<exists>h'. place_all (f0 # fs @ [fl]) h =
             Some (replicate (Suc (length fs)) UdpRecv_OPERATION_SUCC @ [UdpRecv_OPERATION_CONTINUE], h')
           \<and> inv h' \<and> asm h' = [] \<and> take len (buf h') = bytes_of (f0 # fs @ [fl])"
proof -
  obtain fh0 a0 n0 now0 fhl al nl nowl where f: "f0 = (fh0, a0, n0, now0)" "fl = (fhl, al, nl, nowl)"
    by (cases f0; cases fl)
  note fr = assms(2,4) [unfolded f fragment_def prod.case]
  have tot: "n0 + length (bytes_of fs) + nl = len" using assms(6) fr by (simp add: f bytes_of_def)
  obtain h1 where h1: "place fh0 a0 (int n0) now0 h = Some (UdpRecv_OPERATION_SUCC, h1)" "inv h1"
    "asm h1 = take n0 a0"
    using start [OF assms(1), of fh0 n0 a0 now0] fr tot assms(5) by auto
  obtain h2 where h2: "place_all fs h1 = Some (replicate (length fs) UdpRecv_OPERATION_SUCC, h2)" "inv h2"
    "asm h2 = asm h1 @ bytes_of fs"
    using middles [OF h1(2) assms(3,5)] h1(3) fr tot by auto
  obtain h3 where h3: "place fhl al (int nl) nowl h2 = Some (UdpRecv_OPERATION_CONTINUE, h3)" "inv h3"
    "asm h3 = []" "take (length (asm h2) + nl) (buf h3) = asm h2 @ take nl al"
    using last [OF h2(2), of fhl nl al nowl] h2(3) h1(3) fr tot assms(5) by auto
  have ap: "place_all (xs @ ys) g = do { (r, g') \<leftarrow> place_all xs g; (r', g'') \<leftarrow> place_all ys g';
      Some (r @ r', g'') }" for xs ys g
    by (induction xs arbitrary: g) (auto split: bind_splits)
  have "length (asm h2) + nl = len" using h2(3) h1(3) fr tot by simp
  then show ?thesis
    using h1 h2 h3 by (auto simp: f ap bytes_of_def)
qed

end

subsection \<open>Both functions keep the contract\<close>

definition vbuf :: "udp_recv_handle \<Rightarrow> byte list" where
  "vbuf h = (case video_data h of None \<Rightarrow> [] | Some b \<Rightarrow> b)"

definition abuf :: "udp_recv_handle \<Rightarrow> byte list" where
  "abuf h = (case audio_data h of None \<Rightarrow> [] | Some b \<Rightarrow> b)"

definition video_inv :: "udp_recv_handle \<Rightarrow> bool" where
  "video_inv h \<longleftrightarrow> length (vbuf h) = UdpRecv_MAX_FRAME_LEN \<and> unat (video_offset h) \<le> UdpRecv_MAX_FRAME_LEN"

definition audio_inv :: "udp_recv_handle \<Rightarrow> bool" where
  "audio_inv h \<longleftrightarrow> length (abuf h) = UdpRecv_MAX_FRAME_LEN \<and> unat (audio_offset h) \<le> UdpRecv_MAX_FRAME_LEN"

definition video_asm :: "udp_recv_handle \<Rightarrow> byte list" where
  "video_asm h = take (unat (video_offset h)) (vbuf h)"

definition audio_asm :: "udp_recv_handle \<Rightarrow> byte list" where
  "audio_asm h = take (unat (audio_offset h)) (abuf h)"

text \<open>The common switch, seen through the same abstraction.\<close>

definition seg_inv :: "byte list \<Rightarrow> u32 \<Rightarrow> bool" where
  "seg_inv buf off \<longleftrightarrow> length buf = UdpRecv_MAX_FRAME_LEN \<and> unat off \<le> UdpRecv_MAX_FRAME_LEN"

lemma unat_plus_part:
  assumes "unat (off :: u32) \<le> UdpRecv_MAX_FRAME_LEN" "n \<le> UdpRecv_MAX_FRAME_LEN"
  shows "unat (off + word_of_int (int n)) = unat off + n"
proof -
  have n: "unat (of_nat n :: u32) = n" using assms(2) by (intro unat_small) (simp add: UdpRecv_MAX_FRAME_LEN_def)
  have "unat (off + of_nat n) = unat off + unat (of_nat n :: u32)"
    using assms n by (intro unat_add_lem [THEN iffD1]) (simp add: UdpRecv_MAX_FRAME_LEN_def)
  with n show ?thesis by simp
qed

lemmas seg_names = UdpRecv_START_FRAME_def UdpRecv_MIDDLE_FRAME_def UdpRecv_LAST_FRAME_def
  UdpRecv_INDEPENDENT_FRAME_def

lemma place_start:
  assumes "seg_inv buf off" "m_dw_segment fh = UdpRecv_START_FRAME"
    and "unat (m_frame_length fh) \<le> ml" "n \<le> length area" "n \<le> UdpRecv_MAX_FRAME_LEN"
  shows "\<exists>buf' off'. place_segment ml fh area (int n) buf off = Some (UdpRecv_OPERATION_SUCC, buf', off', False)
           \<and> seg_inv buf' off' \<and> take (unat off') buf' = take n area"
proof -
  have "memcpy buf (int 0) area (int 0) (int n) = Some (take n area @ drop n buf)"
    using assms(1,4,5) memcpy_nat [of 0 n buf 0 area] by (simp add: seg_inv_def)
  then show ?thesis
    using assms unat_plus_part [of 0 n] by (simp add: place_segment_def seg_inv_def)
qed

lemma place_append:
  assumes "seg_inv buf off" "n \<le> length area" "unat off + n \<le> unat (m_frame_length fh)"
    and "unat (m_frame_length fh) \<le> UdpRecv_MAX_FRAME_LEN"
  shows "\<exists>buf'. memcpy buf (uint off) area 0 (int n) = Some buf' \<and> seg_inv buf' (off + word_of_int (int n))
           \<and> take (unat off + n) buf' = take (unat off) buf @ take n area
           \<and> \<not> off + word_of_int (int n) > m_frame_length fh \<and> unat (off + word_of_int (int n)) = unat off + n"
proof -
  have u: "unat (off + word_of_int (int n)) = unat off + n"
    using assms by (intro unat_plus_part) (simp_all add: seg_inv_def)
  have "memcpy buf (int (unat off)) area (int 0) (int n) =
      Some (take (unat off) buf @ take n area @ drop (unat off + n) buf)"
    using assms memcpy_nat [of "unat off" n buf 0 area] by (simp add: seg_inv_def)
  with assms u show ?thesis
    by (simp add: seg_inv_def word_less_nat_alt)
qed

lemma place_middle:
  assumes "seg_inv buf off" "m_dw_segment fh = UdpRecv_MIDDLE_FRAME" "n \<le> length area"
    and "unat off + n \<le> unat (m_frame_length fh)" "unat (m_frame_length fh) \<le> UdpRecv_MAX_FRAME_LEN"
  shows "\<exists>buf' off'. place_segment ml fh area (int n) buf off = Some (UdpRecv_OPERATION_SUCC, buf', off', False)
           \<and> seg_inv buf' off' \<and> take (unat off') buf' = take (unat off) buf @ take n area"
  using place_append [OF assms(1,3,4,5)] assms(2) by (auto simp: place_segment_def seg_names)

lemma place_last:
  assumes "seg_inv buf off" "m_dw_segment fh = UdpRecv_LAST_FRAME" "n \<le> length area"
    and "unat off + n \<le> unat (m_frame_length fh)" "unat (m_frame_length fh) \<le> UdpRecv_MAX_FRAME_LEN"
  shows "\<exists>buf'. place_segment ml fh area (int n) buf off = Some (UdpRecv_OPERATION_CONTINUE, buf', 0, False)
           \<and> seg_inv buf' 0 \<and> take (unat off + n) buf' = take (unat off) buf @ take n area"
  using place_append [OF assms(1,3,4,5)] assms(2) by (auto simp: place_segment_def seg_names seg_inv_def)

lemma place_oversized:
  assumes "seg_inv buf off" "m_dw_segment fh = UdpRecv_MIDDLE_FRAME \<or> m_dw_segment fh = UdpRecv_LAST_FRAME"
    and "n \<le> UdpRecv_MAX_FRAME_LEN" "unat off + n > unat (m_frame_length fh)"
  shows "place_segment ml fh area (int n) buf off = Some (UdpRecv_OPERATION_SUCC, buf, 0, True) \<and> seg_inv buf 0"
  using assms unat_plus_part [of off n] by (auto simp: place_segment_def seg_names seg_inv_def word_less_nat_alt)

lemma place_independent:
  assumes "seg_inv buf off" "m_dw_segment fh = UdpRecv_INDEPENDENT_FRAME"
    and "n = unat (m_frame_length fh)" "n \<le> length area" "n \<le> UdpRecv_MAX_FRAME_LEN"
  shows "\<exists>buf'. place_segment ml fh area p buf off = Some (UdpRecv_OPERATION_CONTINUE, buf', off, False)
           \<and> seg_inv buf' off \<and> take n buf' = take n area"
proof -
  have "memcpy buf (int 0) area (int 0) (int n) = Some (take n area @ drop n buf)"
    using assms memcpy_nat [of 0 n buf 0 area] by (simp add: seg_inv_def)
  then show ?thesis
    using assms by (simp add: place_segment_def seg_inv_def seg_names)
qed

lemma video_seg_inv: "video_inv h \<longleftrightarrow> seg_inv (vbuf h) (video_offset h)"
  by (simp add: video_inv_def seg_inv_def)

lemma audio_seg_inv: "audio_inv h \<longleftrightarrow> seg_inv (abuf h) (audio_offset h)"
  by (simp add: audio_inv_def seg_inv_def)

lemma video_inv_Some: "video_inv h \<Longrightarrow> video_data h = Some (vbuf h)"
  by (auto simp: video_inv_def vbuf_def UdpRecv_MAX_FRAME_LEN_def split: option.splits)

lemma audio_inv_Some: "audio_inv h \<Longrightarrow> audio_data h = Some (abuf h)"
  by (auto simp: audio_inv_def abuf_def UdpRecv_MAX_FRAME_LEN_def split: option.splits)

text \<open>What the placing functions leave alone.\<close>

definition same_control :: "udp_recv_handle \<Rightarrow> udp_recv_handle \<Rightarrow> bool" where
  "same_control h h' \<longleftrightarrow> stream_status h' = stream_status h \<and> pthread_status h' = pthread_status h
     \<and> has_func h' = has_func h"

lemma placed_video:
  assumes "video_inv h"
    and "place_segment UdpRecv_MAX_FRAME_LEN fh area p (vbuf h) (video_offset h) = Some (r, buf', off', lost)"
  shows "\<exists>h'. pkg_placed_in_frame fh area p now h = Some (r, h') \<and> vbuf h' = buf' \<and> video_offset h' = off'"
proof -
  obtain b where "video_data h = Some b" using video_inv_Some [OF assms(1)] by blast
  with assms(2) show ?thesis by (simp add: pkg_placed_in_frame_def vbuf_def)
qed

lemma placed_audio:
  assumes "audio_inv h"
    and "place_segment UdpRecv_MAX_AUDIO_LEN fh area p (abuf h) (audio_offset h) = Some (r, buf', off', lost)"
  shows "\<exists>h'. pkg_placed_in_frame_audio fh area p now h = Some (r, h') \<and> abuf h' = buf' \<and> audio_offset h' = off'"
proof -
  obtain b where "audio_data h = Some b" using audio_inv_Some [OF assms(1)] by blast
  with assms(2) show ?thesis by (simp add: pkg_placed_in_frame_audio_def abuf_def)
qed

lemma placed_video_frame:
  assumes "pkg_placed_in_frame fh area p now h = Some (r, h')"
  shows "same_control h h'" "abuf h' = abuf h" "audio_offset h' = audio_offset h"
  using assms by (auto simp: pkg_placed_in_frame_def same_control_def abuf_def split: bind_splits)

lemma length_video_asm: "video_inv h \<Longrightarrow> length (video_asm h) = unat (video_offset h)"
  by (simp add: video_inv_def video_asm_def)

lemma length_audio_asm: "audio_inv h \<Longrightarrow> length (audio_asm h) = unat (audio_offset h)"
  by (simp add: audio_inv_def audio_asm_def)

lemma audio_len_le: "n \<le> UdpRecv_MAX_AUDIO_LEN \<Longrightarrow> n \<le> UdpRecv_MAX_FRAME_LEN"
  by (simp add: UdpRecv_MAX_AUDIO_LEN_def UdpRecv_MAX_FRAME_LEN_def)

interpretation video_frames: frame_assembler pkg_placed_in_frame video_inv video_asm vbuf UdpRecv_MAX_FRAME_LEN
proof
  fix h :: udp_recv_handle and fh :: udp_recv_freame_head_t and n :: nat and area :: "byte list"
    and now :: u32 and p :: int
  assume h: "video_inv h"
  note asm = length_video_asm [OF h]
  {
    assume a: "m_dw_segment fh = UdpRecv_START_FRAME" "unat (m_frame_length fh) \<le> UdpRecv_MAX_FRAME_LEN"
      "n \<le> length area" "n \<le> UdpRecv_MAX_FRAME_LEN"
    from place_start [OF h [unfolded video_seg_inv] a(1,2,3,4)]
    show "\<exists>h'. pkg_placed_in_frame fh area (int n) now h = Some (UdpRecv_OPERATION_SUCC, h')
        \<and> video_inv h' \<and> video_asm h' = take n area"
      using placed_video [OF h, of fh area "int n" _ _ _ _ now] by (fastforce simp: video_seg_inv video_asm_def)
  next
    assume a: "m_dw_segment fh = UdpRecv_MIDDLE_FRAME" "unat (m_frame_length fh) \<le> UdpRecv_MAX_FRAME_LEN"
      "n \<le> length area" "length (video_asm h) + n \<le> unat (m_frame_length fh)"
    from place_middle [OF h [unfolded video_seg_inv] a(1,3) _ a(2), of UdpRecv_MAX_FRAME_LEN] a(4) asm
    show "\<exists>h'. pkg_placed_in_frame fh area (int n) now h = Some (UdpRecv_OPERATION_SUCC, h')
        \<and> video_inv h' \<and> video_asm h' = video_asm h @ take n area"
      using placed_video [OF h, of fh area "int n" _ _ _ _ now] by (fastforce simp: video_seg_inv video_asm_def)
  next
    assume a: "m_dw_segment fh = UdpRecv_LAST_FRAME" "unat (m_frame_length fh) \<le> UdpRecv_MAX_FRAME_LEN"
      "n \<le> length area" "length (video_asm h) + n \<le> unat (m_frame_length fh)"
    from place_last [OF h [unfolded video_seg_inv] a(1,3) _ a(2), of UdpRecv_MAX_FRAME_LEN] a(4) asm
    show "\<exists>h'. pkg_placed_in_frame fh area (int n) now h = Some (UdpRecv_OPERATION_CONTINUE, h')
        \<and> video_inv h' \<and> video_asm h' = [] \<and> take (length (video_asm h) + n) (vbuf h') = video_asm h @ take n area"
      using placed_video [OF h, of fh area "int n" _ _ _ _ now] by (fastforce simp: video_seg_inv video_asm_def)
  next
    assume a: "m_dw_segment fh = UdpRecv_MIDDLE_FRAME \<or> m_dw_segment fh = UdpRecv_LAST_FRAME"
      "n \<le> UdpRecv_MAX_FRAME_LEN" "unat (m_frame_length fh) < length (video_asm h) + n"
    from place_oversized [OF h [unfolded video_seg_inv] a(1,2), of UdpRecv_MAX_FRAME_LEN area] a(3) asm
    show "\<exists>h'. pkg_placed_in_frame fh area (int n) now h = Some (UdpRecv_OPERATION_SUCC, h')
        \<and> video_inv h' \<and> video_asm h' = []"
      using placed_video [OF h, of fh area "int n" _ _ _ _ now] by (fastforce simp: video_seg_inv video_asm_def)
  next
    assume a: "m_dw_segment fh = UdpRecv_INDEPENDENT_FRAME" "n = unat (m_frame_length fh)"
      "n \<le> length area" "n \<le> UdpRecv_MAX_FRAME_LEN"
    from place_independent [OF h [unfolded video_seg_inv] a, of UdpRecv_MAX_FRAME_LEN p]
    show "\<exists>h'. pkg_placed_in_frame fh area p now h = Some (UdpRecv_OPERATION_CONTINUE, h')
        \<and> video_inv h' \<and> take n (vbuf h') = take n area"
      using placed_video [OF h, of fh area p _ _ _ _ now] by (fastforce simp: video_seg_inv)
  }
qed

interpretation audio_frames: frame_assembler pkg_placed_in_frame_audio audio_inv audio_asm abuf UdpRecv_MAX_AUDIO_LEN
proof
  fix h :: udp_recv_handle and fh :: udp_recv_freame_head_t and n :: nat and area :: "byte list"
    and now :: u32 and p :: int
  assume h: "audio_inv h"
  note asm = length_audio_asm [OF h]
  {
    assume a: "m_dw_segment fh = UdpRecv_START_FRAME" "unat (m_frame_length fh) \<le> UdpRecv_MAX_AUDIO_LEN"
      "n \<le> length area" "n \<le> UdpRecv_MAX_AUDIO_LEN"
    from place_start [OF h [unfolded audio_seg_inv] a(1,2,3) audio_len_le [OF a(4)]]
    show "\<exists>h'. pkg_placed_in_frame_audio fh area (int n) now h = Some (UdpRecv_OPERATION_SUCC, h')
        \<and> audio_inv h' \<and> audio_asm h' = take n area"
      using placed_audio [OF h, of fh area "int n" _ _ _ _ now] by (fastforce simp: audio_seg_inv audio_asm_def)
  next
    assume a: "m_dw_segment fh = UdpRecv_MIDDLE_FRAME" "unat (m_frame_length fh) \<le> UdpRecv_MAX_AUDIO_LEN"
      "n \<le> length area" "length (audio_asm h) + n \<le> unat (m_frame_length fh)"
    from place_middle [OF h [unfolded audio_seg_inv] a(1,3) _ audio_len_le [OF a(2)], of UdpRecv_MAX_AUDIO_LEN] a(4) asm
    show "\<exists>h'. pkg_placed_in_frame_audio fh area (int n) now h = Some (UdpRecv_OPERATION_SUCC, h')
        \<and> audio_inv h' \<and> audio_asm h' = audio_asm h @ take n area"
      using placed_audio [OF h, of fh area "int n" _ _ _ _ now] by (fastforce simp: audio_seg_inv audio_asm_def)
  next
    assume a: "m_dw_segment fh = UdpRecv_LAST_FRAME" "unat (m_frame_length fh) \<le> UdpRecv_MAX_AUDIO_LEN"
      "n \<le> length area" "length (audio_asm h) + n \<le> unat (m_frame_length fh)"
    from place_last [OF h [unfolded audio_seg_inv] a(1,3) _ audio_len_le [OF a(2)], of UdpRecv_MAX_AUDIO_LEN] a(4) asm
    show "\<exists>h'. pkg_placed_in_frame_audio fh area (int n) now h = Some (UdpRecv_OPERATION_CONTINUE, h')
        \<and> audio_inv h' \<and> audio_asm h' = [] \<and> take (length (audio_asm h) + n) (abuf h') = audio_asm h @ take n area"
      using placed_audio [OF h, of fh area "int n" _ _ _ _ now] by (fastforce simp: audio_seg_inv audio_asm_def)
  next
    assume a: "m_dw_segment fh = UdpRecv_MIDDLE_FRAME \<or> m_dw_segment fh = UdpRecv_LAST_FRAME"
      "n \<le> UdpRecv_MAX_AUDIO_LEN" "unat (m_frame_length fh) < length (audio_asm h) + n"
    from place_oversized [OF h [unfolded audio_seg_inv] a(1) audio_len_le [OF a(2)], of UdpRecv_MAX_AUDIO_LEN area] a(3) asm
    show "\<exists>h'. pkg_placed_in_frame_audio fh area (int n) now h = Some (UdpRecv_OPERATION_SUCC, h')
        \<and> audio_inv h' \<and> audio_asm h' = []"
      using placed_audio [OF h, of fh area "int n" _ _ _ _ now] by (fastforce simp: audio_seg_inv audio_asm_def)
  next
    assume a: "m_dw_segment fh = UdpRecv_INDEPENDENT_FRAME" "n = unat (m_frame_length fh)"
      "n \<le> length area" "n \<le> UdpRecv_MAX_AUDIO_LEN"
    from place_independent [OF h [unfolded audio_seg_inv] a(1,2,3) audio_len_le [OF a(4)], of UdpRecv_MAX_AUDIO_LEN p]
    show "\<exists>h'. pkg_placed_in_frame_audio fh area p now h = Some (UdpRecv_OPERATION_CONTINUE, h')
        \<and> audio_inv h' \<and> take n (abuf h') = take n area"
      using placed_audio [OF h, of fh area p _ _ _ _ now] by (fastforce simp: audio_seg_inv)
  }
qed

subsection \<open>What a packet carries, and what the thread does with it\<close>

definition padded :: "byte list \<Rightarrow> byte list" where
  "padded pkt = pkt @ replicate (UdpRecv_MAX_UDP_LEN - length pkt) 0"

definition frame_head :: "udp_recv_freame_head_t \<Rightarrow> udp_recv_freame_head_t" where
  "frame_head fh = fh\<lparr>m_dw_segment := 0, m_dw_packet_number := 0\<rparr>"

text \<open>
  \<open>carries pkt H seg bs\<close>: the thread unpacks from \<open>pkt\<close> the bytes \<open>bs\<close>, the segment mark \<open>seg\<close> and a
  head that agrees with \<open>H\<close> on everything that is the same in all packets of a frame.
\<close>

definition carries :: "byte list \<Rightarrow> udp_recv_freame_head_t \<Rightarrow> u32 \<Rightarrow> byte list \<Rightarrow> bool" where
  "carries pkt H seg bs \<longleftrightarrow> 28 \<le> length pkt \<and> length pkt \<le> UdpRecv_MAX_UDP_LEN \<and> length bs \<le> 1444
     \<and> (\<forall>loc. \<exists>fh area loc'. unpack_packet (padded pkt) (int (length pkt)) loc =
            Some (fh, area, int (length bs), loc')
          \<and> frame_head fh = H \<and> m_dw_segment fh = seg \<and> length area = 1444 \<and> take (length bs) area = bs)"

definition video_head :: "udp_recv_freame_head_t \<Rightarrow> bool" where
  "video_head H \<longleftrightarrow> m_data_codec H = UdpRecv_H264_CODEC_TYPE \<or> m_data_codec H = UdpRecv_JPEG_CODEC_TYPE"

text \<open>The buffers of a handle are either not allocated yet or have their full size.\<close>

definition handle_inv :: "udp_recv_handle \<Rightarrow> bool" where
  "handle_inv h \<longleftrightarrow> (video_data h = None \<and> video_offset h = 0 \<or> video_inv h)
     \<and> (audio_data h = None \<and> audio_offset h = 0 \<or> audio_inv h)"

definition alloc_ok :: "byte list option \<Rightarrow> byte list option \<Rightarrow> bool" where
  "alloc_ok mv ma \<longleftrightarrow> (\<exists>v a. mv = Some v \<and> ma = Some a \<and> length v = UdpRecv_MAX_FRAME_LEN
     \<and> length a = UdpRecv_MAX_FRAME_LEN)"

definition thread_ok :: "recv_thread \<Rightarrow> bool" where
  "thread_ok s \<longleftrightarrow> r_running s \<and> pthread_status (r_handle s) = 1
     \<and> stream_status (r_handle s) = STREAM_START \<and> has_func (r_handle s) \<and> handle_inv (r_handle s)"

lemma alloc_frames_ok:
  assumes "handle_inv h" "alloc_ok mv ma"
  shows "\<exists>h'. alloc_frames mv ma h = (True, h') \<and> video_inv h' \<and> audio_inv h'
           \<and> video_asm h' = video_asm h \<and> audio_asm h' = audio_asm h \<and> same_control h h'"
  using assms
  by (cases "video_data h"; cases "audio_data h")
     (auto simp: handle_inv_def alloc_ok_def alloc_frames_def Let_def same_control_def video_inv_def
        audio_inv_def vbuf_def abuf_def video_asm_def audio_asm_def UdpRecv_MAX_FRAME_LEN_def)

lemma codec_types_distinct [simp]:
  "UdpRecv_H264_CODEC_TYPE \<noteq> UdpRecv_AAC_CODEC_TYPE" "UdpRecv_JPEG_CODEC_TYPE \<noteq> UdpRecv_AAC_CODEC_TYPE"
  "UdpRecv_H264_CODEC_TYPE \<noteq> UdpRecv_JPEG_CODEC_TYPE" "UdpRecv_AAC_CODEC_TYPE \<noteq> UdpRecv_H264_CODEC_TYPE"
  "UdpRecv_AAC_CODEC_TYPE \<noteq> UdpRecv_JPEG_CODEC_TYPE" "UdpRecv_JPEG_CODEC_TYPE \<noteq> UdpRecv_H264_CODEC_TYPE"
  by (simp_all add: UdpRecv_H264_CODEC_TYPE_def UdpRecv_AAC_CODEC_TYPE_def UdpRecv_JPEG_CODEC_TYPE_def)

lemmas return_codes = UdpRecv_OPERATION_SUCC_def UdpRecv_OPERATION_CONTINUE_def
  UdpRecv_OPERATION_ERR_def UdpRecv_FRAME_OK_def

lemma set_stream_info_head:
  "udp_recv_set_stream_info (frame_head fh) ts si = udp_recv_set_stream_info fh ts si"
  by (simp add: udp_recv_set_stream_info_def frame_head_def Let_def)

lemma frame_head_fields [simp]:
  "m_data_codec (frame_head fh) = m_data_codec fh" "m_frame_length (frame_head fh) = m_frame_length fh"
  by (simp_all add: frame_head_def)

text \<open>The call that announces a frame with head \<open>H\<close>.\<close>

definition announces :: "udp_recv_freame_head_t \<Rightarrow> byte list \<Rightarrow> callback \<Rightarrow> bool" where
  "announces H bs c \<longleftrightarrow> (\<exists>ts si d. c = (udp_recv_set_stream_info H ts si, d, sint (m_frame_length H))
     \<and> take (length bs) d = bs)"

lemma recv_packet_ok:
  assumes "28 \<le> length pkt" "length pkt \<le> UdpRecv_MAX_UDP_LEN" "alloc_frames mv ma h = (True, h1)"
    and "unpack_packet (padded pkt) (int (length pkt)) loc = Some (fh, area, k, loc')"
    and "udp_recv_media_frame_data fh area k now h1 = Some (ret, h2)"
  shows "recv_packet mv ma now pkt loc h = Some (True, loc', deliver_frame fh ret h2)"
  using assms by (simp add: recv_packet_def padded_def Let_def)

text \<open>
  The step of the thread for a packet of a video frame, reduced to the placing function on the handle
  with its buffers allocated.
\<close>

lemma recv_step_video:
  assumes s: "thread_ok s" and c: "carries pkt H seg bs" and v: "video_head H" and a: "alloc_ok mv ma"
  obtains fh area h1 loc' where "video_inv h1" "audio_inv h1" "video_asm h1 = video_asm (r_handle s)"
    "frame_head fh = H" "m_dw_segment fh = seg" "length area = 1444" "take (length bs) area = bs"
    "same_control (r_handle s) h1"
    "\<And>h2. pkg_placed_in_frame fh area (int (length bs)) now h1 = Some (UdpRecv_OPERATION_SUCC, h2) \<Longrightarrow>
       recv_step (Packet pkt now mv ma) s =
         Some \<lparr>r_handle = h2, r_locals = loc', r_running = True, r_calls = r_calls s\<rparr>"
    "\<And>h2. pkg_placed_in_frame fh area (int (length bs)) now h1 = Some (UdpRecv_OPERATION_CONTINUE, h2) \<Longrightarrow>
       take (length out) (vbuf h2) = out \<Longrightarrow> video_inv h2 \<Longrightarrow>
       \<exists>si c. recv_step (Packet pkt now mv ma) s =
         Some \<lparr>r_handle = h2\<lparr>stream_info := si\<rparr>, r_locals = loc', r_running = True,
               r_calls = r_calls s @ [c]\<rparr> \<and> announces H out c"
proof -
  obtain h1 where h1: "alloc_frames mv ma (r_handle s) = (True, h1)" "video_inv h1" "audio_inv h1"
    "video_asm h1 = video_asm (r_handle s)" "same_control (r_handle s) h1"
    using alloc_frames_ok [OF _ a] s by (auto simp: thread_ok_def)
  obtain fh area loc' where u: "unpack_packet (padded pkt) (int (length pkt)) (r_locals s) =
      Some (fh, area, int (length bs), loc')" "frame_head fh = H" "m_dw_segment fh = seg"
    "length area = 1444" "take (length bs) area = bs"
    using c unfolding carries_def by blast
  have len: "28 \<le> length pkt" "length pkt \<le> UdpRecv_MAX_UDP_LEN" using c by (simp_all add: carries_def)
  have vh: "UdpRecv_H264_CODEC_TYPE = m_data_codec fh \<or> UdpRecv_JPEG_CODEC_TYPE = m_data_codec fh"
    using v u(2) by (auto simp: video_head_def)
  have st: "recv_step (Packet pkt now mv ma) s = do {
      (go, loc, h, cs) \<leftarrow> recv_packet mv ma now pkt (r_locals s) (r_handle s);
      Some \<lparr>r_handle = h, r_locals = loc, r_running = go, r_calls = r_calls s @ cs\<rparr> }"
    using s by (simp add: recv_step_def thread_ok_def)
  have rp: "recv_packet mv ma now pkt (r_locals s) (r_handle s) = do {
      (ret, h2) \<leftarrow> udp_recv_media_frame_data fh area (int (length bs)) now h1;
      Some (True, loc', deliver_frame fh ret h2) }"
    using u(1) len h1(1) by (simp add: recv_packet_def padded_def Let_def)
  show ?thesis
  proof (rule that [OF h1(2-4) u(2-5) h1(5)])
    fix h2 assume "pkg_placed_in_frame fh area (int (length bs)) now h1 = Some (UdpRecv_OPERATION_SUCC, h2)"
    then show "recv_step (Packet pkt now mv ma) s =
        Some \<lparr>r_handle = h2, r_locals = loc', r_running = True, r_calls = r_calls s\<rparr>"
      using vh by (simp add: st rp udp_recv_media_frame_data_def deliver_frame_def return_codes)
  next
    fix h2 assume p: "pkg_placed_in_frame fh area (int (length bs)) now h1 = Some (UdpRecv_OPERATION_CONTINUE, h2)"
      and o: "take (length out) (vbuf h2) = out" and i: "video_inv h2"
    have "has_func h2" "video_data h2 = Some (vbuf h2)"
      using placed_video_frame [OF p] h1(5) s video_inv_Some [OF i]
      by (simp_all add: same_control_def thread_ok_def)
    then show "\<exists>si c. recv_step (Packet pkt now mv ma) s =
         Some \<lparr>r_handle = h2\<lparr>stream_info := si\<rparr>, r_locals = loc', r_running = True,
               r_calls = r_calls s @ [c]\<rparr> \<and> announces H out c"
      using vh p o u(2) set_stream_info_head [of fh]
      by (auto simp: st rp udp_recv_media_frame_data_def deliver_frame_def return_codes announces_def Let_def)
  qed
qed

lemma thread_ok_after:
  assumes "thread_ok s" "same_control (r_handle s) h1"
    and "pkg_placed_in_frame fh area p now h1 = Some (r, h2)" "video_inv h2" "audio_inv h1"
  shows "thread_ok \<lparr>r_handle = h2, r_locals = l, r_running = True, r_calls = cs\<rparr>"
    and "thread_ok \<lparr>r_handle = h2\<lparr>stream_info := si\<rparr>, r_locals = l, r_running = True, r_calls = cs\<rparr>"
  using assms placed_video_frame [OF assms(3)]
  by (auto simp: thread_ok_def same_control_def handle_inv_def audio_inv_def video_inv_def vbuf_def abuf_def)

lemma step_start:
  assumes "thread_ok s" "carries pkt H UdpRecv_START_FRAME bs" "video_head H" "alloc_ok mv ma"
    and "unat (m_frame_length H) \<le> UdpRecv_MAX_FRAME_LEN"
  shows "\<exists>s'. recv_step (Packet pkt now mv ma) s = Some s' \<and> thread_ok s' \<and> r_calls s' = r_calls s
           \<and> video_asm (r_handle s') = bs"
proof (rule recv_step_video [OF assms(1-4), of now "[]"])
  fix fh area h1 loc'
  assume h1: "video_inv h1" "audio_inv h1" "same_control (r_handle s) h1"
    and fh: "frame_head fh = H" "m_dw_segment fh = UdpRecv_START_FRAME"
    and ar: "length area = 1444" "take (length bs) area = bs"
    and st: "\<And>h2. pkg_placed_in_frame fh area (int (length bs)) now h1 = Some (UdpRecv_OPERATION_SUCC, h2) \<Longrightarrow>
       recv_step (Packet pkt now mv ma) s =
         Some \<lparr>r_handle = h2, r_locals = loc', r_running = True, r_calls = r_calls s\<rparr>"
  have "length bs \<le> 1444" using assms(2) by (simp add: carries_def)
  then obtain h2 where "pkg_placed_in_frame fh area (int (length bs)) now h1 = Some (UdpRecv_OPERATION_SUCC, h2)"
    "video_inv h2" "video_asm h2 = take (length bs) area"
    using video_frames.start [OF h1(1) fh(2), of "length bs" area now] assms(5) fh(1) ar(1)
    by (auto simp: UdpRecv_MAX_FRAME_LEN_def)
  then show ?thesis using st thread_ok_after(1) [OF assms(1) h1(3) _ _ h1(2)] ar(2) by auto
qed

lemma step_middle:
  assumes "thread_ok s" "carries pkt H UdpRecv_MIDDLE_FRAME bs" "video_head H" "alloc_ok mv ma"
    and "unat (m_frame_length H) \<le> UdpRecv_MAX_FRAME_LEN"
    and "length (video_asm (r_handle s)) + length bs \<le> unat (m_frame_length H)"
  shows "\<exists>s'. recv_step (Packet pkt now mv ma) s = Some s' \<and> thread_ok s' \<and> r_calls s' = r_calls s
           \<and> video_asm (r_handle s') = video_asm (r_handle s) @ bs"
proof (rule recv_step_video [OF assms(1-4), of now "[]"])
  fix fh area h1 loc'
  assume h1: "video_inv h1" "audio_inv h1" "same_control (r_handle s) h1" "video_asm h1 = video_asm (r_handle s)"
    and fh: "frame_head fh = H" "m_dw_segment fh = UdpRecv_MIDDLE_FRAME"
    and ar: "length area = 1444" "take (length bs) area = bs"
    and st: "\<And>h2. pkg_placed_in_frame fh area (int (length bs)) now h1 = Some (UdpRecv_OPERATION_SUCC, h2) \<Longrightarrow>
       recv_step (Packet pkt now mv ma) s =
         Some \<lparr>r_handle = h2, r_locals = loc', r_running = True, r_calls = r_calls s\<rparr>"
  have "length bs \<le> 1444" using assms(2) by (simp add: carries_def)
  then obtain h2 where "pkg_placed_in_frame fh area (int (length bs)) now h1 = Some (UdpRecv_OPERATION_SUCC, h2)"
    "video_inv h2" "video_asm h2 = video_asm h1 @ take (length bs) area"
    using video_frames.middle [OF h1(1) fh(2), of "length bs" area now] assms(5,6) fh(1) h1(4) ar(1) by auto
  then show ?thesis using st thread_ok_after(1) [OF assms(1) h1(3) _ _ h1(2)] ar(2) h1(4) by auto
qed

lemma step_last:
  assumes "thread_ok s" "carries pkt H UdpRecv_LAST_FRAME bs" "video_head H" "alloc_ok mv ma"
    and "unat (m_frame_length H) \<le> UdpRecv_MAX_FRAME_LEN"
    and "length (video_asm (r_handle s)) + length bs \<le> unat (m_frame_length H)"
  shows "\<exists>s' c. recv_step (Packet pkt now mv ma) s = Some s' \<and> thread_ok s' \<and> r_calls s' = r_calls s @ [c]
           \<and> announces H (video_asm (r_handle s) @ bs) c"
proof (rule recv_step_video [OF assms(1-4), of now "video_asm (r_handle s) @ bs"])
  fix fh area h1 loc'
  assume h1: "video_inv h1" "audio_inv h1" "same_control (r_handle s) h1" "video_asm h1 = video_asm (r_handle s)"
    and fh: "frame_head fh = H" "m_dw_segment fh = UdpRecv_LAST_FRAME"
    and ar: "length area = 1444" "take (length bs) area = bs"
    and st: "\<And>h2. pkg_placed_in_frame fh area (int (length bs)) now h1 = Some (UdpRecv_OPERATION_CONTINUE, h2) \<Longrightarrow>
       take (length (video_asm (r_handle s) @ bs)) (vbuf h2) = video_asm (r_handle s) @ bs \<Longrightarrow> video_inv h2 \<Longrightarrow>
       \<exists>si c. recv_step (Packet pkt now mv ma) s =
         Some \<lparr>r_handle = h2\<lparr>stream_info := si\<rparr>, r_locals = loc', r_running = True,
               r_calls = r_calls s @ [c]\<rparr> \<and> announces H (video_asm (r_handle s) @ bs) c"
  have "length bs \<le> 1444" using assms(2) by (simp add: carries_def)
  then obtain h2 where h2: "pkg_placed_in_frame fh area (int (length bs)) now h1 = Some (UdpRecv_OPERATION_CONTINUE, h2)"
    "video_inv h2" "take (length (video_asm h1) + length bs) (vbuf h2) = video_asm h1 @ take (length bs) area"
    using video_frames.last [OF h1(1) fh(2), of "length bs" area now] assms(5,6) fh(1) h1(4) ar(1) by auto
  then show ?thesis
    using st [OF h2(1) _ h2(2)] thread_ok_after(2) [OF assms(1) h1(3) h2(1,2) h1(2)] ar(2) h1(4) by fastforce
qed

lemma step_independent:
  assumes "thread_ok s" "carries pkt H UdpRecv_INDEPENDENT_FRAME bs" "video_head H" "alloc_ok mv ma"
    and "unat (m_frame_length H) = length bs"
  shows "\<exists>s' c. recv_step (Packet pkt now mv ma) s = Some s' \<and> thread_ok s' \<and> r_calls s' = r_calls s @ [c]
           \<and> announces H bs c"
proof (rule recv_step_video [OF assms(1-4), of now bs])
  fix fh area h1 loc'
  assume h1: "video_inv h1" "audio_inv h1" "same_control (r_handle s) h1"
    and fh: "frame_head fh = H" "m_dw_segment fh = UdpRecv_INDEPENDENT_FRAME"
    and ar: "length area = 1444" "take (length bs) area = bs"
    and st: "\<And>h2. pkg_placed_in_frame fh area (int (length bs)) now h1 = Some (UdpRecv_OPERATION_CONTINUE, h2) \<Longrightarrow>
       take (length bs) (vbuf h2) = bs \<Longrightarrow> video_inv h2 \<Longrightarrow>
       \<exists>si c. recv_step (Packet pkt now mv ma) s =
         Some \<lparr>r_handle = h2\<lparr>stream_info := si\<rparr>, r_locals = loc', r_running = True,
               r_calls = r_calls s @ [c]\<rparr> \<and> announces H bs c"
  have "length bs \<le> 1444" using assms(2) by (simp add: carries_def)
  then have le: "length bs \<le> UdpRecv_MAX_FRAME_LEN" by (simp add: UdpRecv_MAX_FRAME_LEN_def)
  from \<open>length bs \<le> 1444\<close> obtain h2 where h2: "pkg_placed_in_frame fh area (int (length bs)) now h1 = Some (UdpRecv_OPERATION_CONTINUE, h2)"
    "video_inv h2" "take (length bs) (vbuf h2) = take (length bs) area"
    using video_frames.independent [OF h1(1) fh(2) _ _ le, of area "int (length bs)" now] assms(5) fh(1) ar(1)
    by fastforce
  then show ?thesis
    using st [OF h2(1) _ h2(2)] thread_ok_after(2) [OF assms(1) h1(3) h2(1,2) h1(2)] ar(2) by fastforce
qed

text \<open>The events of a list of packets, whatever the clock and the allocator's blocks.\<close>

definition packet_event :: "byte list \<Rightarrow> recv_event \<Rightarrow> bool" where
  "packet_event p ev \<longleftrightarrow> (\<exists>now mv ma. ev = Packet p now mv ma \<and> alloc_ok mv ma)"

lemma run_middles:
  assumes "thread_ok s" "list_all2 packet_event ps evs"
    and "list_all2 (\<lambda>p b. carries p H UdpRecv_MIDDLE_FRAME b) ps bss" "video_head H"
    and "unat (m_frame_length H) \<le> UdpRecv_MAX_FRAME_LEN"
    and "length (video_asm (r_handle s)) + length (concat bss) \<le> unat (m_frame_length H)"
  shows "\<exists>s'. udp_recv_deal evs s = Some s' \<and> thread_ok s' \<and> r_calls s' = r_calls s
           \<and> video_asm (r_handle s') = video_asm (r_handle s) @ concat bss"
  using assms(3,2,1,6)
proof (induction ps bss arbitrary: evs s rule: list_all2_induct)
  case (Cons p ps b bss)
  obtain now mv ma evs' where ev: "evs = Packet p now mv ma # evs'" "alloc_ok mv ma"
    "list_all2 packet_event ps evs'"
    using Cons.prems(1) unfolding list_all2_Cons1 packet_event_def [of p] by blast
  obtain s1 where s1: "recv_step (Packet p now mv ma) s = Some s1" "thread_ok s1" "r_calls s1 = r_calls s"
    "video_asm (r_handle s1) = video_asm (r_handle s) @ b"
    using step_middle [OF Cons.prems(2) Cons.hyps(1) assms(4) ev(2) assms(5), of now] Cons.prems(3) by auto
  obtain s2 where "udp_recv_deal evs' s1 = Some s2" "thread_ok s2" "r_calls s2 = r_calls s1"
    "video_asm (r_handle s2) = video_asm (r_handle s1) @ concat bss"
    using Cons.IH [OF ev(3) s1(2)] s1(4) Cons.prems(3) by auto
  then show ?case using ev(1) s1 by simp
qed simp

text \<open>A start packet, middle packets and a last packet make one frame and one call.\<close>

lemma run_frame:
  assumes "thread_ok s" "list_all2 packet_event (p0 # ps @ [pl]) evs" "video_head H"
    and "carries p0 H UdpRecv_START_FRAME b0" "carries pl H UdpRecv_LAST_FRAME bl"
    and "list_all2 (\<lambda>p b. carries p H UdpRecv_MIDDLE_FRAME b) ps bss"
    and "unat (m_frame_length H) = length (b0 @ concat bss @ bl)"
    and "length (b0 @ concat bss @ bl) \<le> UdpRecv_MAX_FRAME_LEN"
  shows "\<exists>s' c. udp_recv_deal evs s = Some s' \<and> thread_ok s' \<and> r_calls s' = r_calls s @ [c]
           \<and> announces H (b0 @ concat bss @ bl) c"
proof -
  obtain e0 es el where ev: "evs = e0 # es @ [el]" "packet_event p0 e0" "list_all2 packet_event ps es"
    "packet_event pl el"
    using assms(2) by (auto simp: list_all2_Cons1 list_all2_append1)
  have fl: "unat (m_frame_length H) \<le> UdpRecv_MAX_FRAME_LEN" using assms(7,8) by simp
  obtain s1 where s1: "recv_step e0 s = Some s1" "thread_ok s1" "r_calls s1 = r_calls s"
    "video_asm (r_handle s1) = b0"
    using ev(2) step_start [OF assms(1,4,3) _ fl] unfolding packet_event_def by blast
  obtain s2 where s2: "udp_recv_deal es s1 = Some s2" "thread_ok s2" "r_calls s2 = r_calls s1"
    "video_asm (r_handle s2) = b0 @ concat bss"
    using run_middles [OF s1(2) ev(3) assms(6,3) fl] s1(4) assms(7) by auto
  obtain s3 c where "recv_step el s2 = Some s3" "thread_ok s3" "r_calls s3 = r_calls s2 @ [c]"
    "announces H ((b0 @ concat bss) @ bl) c"
    using ev(4) step_last [OF s2(2) assms(5,3) _ fl] s2(4) assms(7) unfolding packet_event_def by fastforce
  then show ?thesis using ev(1) s1 s2 by (intro exI [of _ s3] exI [of _ c]) (simp add: udp_recv_deal_append)
qed

subsection \<open>Memory safety of the receiving thread\<close>

text \<open>
  \<open>wf_packet\<close>: the packets for which every copy stays inside its buffer.  The length bounds are those of
  the fixed headers and of \<^verbatim>\<open>in_data\<close>; a packet that is a frame of its own must not announce more
  bytes than the area holds, because \<^verbatim>\<open>m_frame_length\<close> bytes are copied without a test.
\<close>

definition independent_packet :: "byte list \<Rightarrow> bool" where
  "independent_packet pkt \<longleftrightarrow>
     (let b = padded pkt; f = rx_frame b
      in codec f = 1 \<or> codec f = 2 \<and> samplerate f = 3 \<or> codec f = 0 \<and> Iframe f \<noteq> 1 \<and> fu_type (b ! 28) \<noteq> 28)"

definition wf_packet :: "byte list \<Rightarrow> bool" where
  "wf_packet pkt \<longleftrightarrow> 32 \<le> length pkt \<and> length pkt \<le> 1468
     \<and> unat (framelength (rx_frame (padded pkt))) \<le> UdpRecv_MAX_FRAME_LEN
     \<and> (independent_packet pkt \<longrightarrow> unat (framelength (rx_frame (padded pkt))) \<le> 1444)"

lemma place_segment_safe:
  assumes "seg_inv buf off" "k \<le> 1444" "length area = 1444"
    and "unat (m_frame_length fh) \<le> UdpRecv_MAX_FRAME_LEN"
    and "m_dw_segment fh = UdpRecv_INDEPENDENT_FRAME \<longrightarrow> unat (m_frame_length fh) \<le> 1444"
  shows "\<exists>r buf' off' lost. place_segment ml fh area (int k) buf off = Some (r, buf', off', lost)
           \<and> seg_inv buf' off'"
proof -
  have k: "k \<le> UdpRecv_MAX_FRAME_LEN" "k \<le> length area" using assms(2,3) by (simp_all add: UdpRecv_MAX_FRAME_LEN_def)
  consider "m_dw_segment fh = UdpRecv_START_FRAME" | "m_dw_segment fh = UdpRecv_MIDDLE_FRAME"
    | "m_dw_segment fh = UdpRecv_LAST_FRAME" | "m_dw_segment fh = UdpRecv_INDEPENDENT_FRAME"
    | "m_dw_segment fh \<notin> {UdpRecv_START_FRAME, UdpRecv_MIDDLE_FRAME, UdpRecv_LAST_FRAME, UdpRecv_INDEPENDENT_FRAME}"
    by blast
  then show ?thesis
  proof cases
    case 1
    then show ?thesis
      using place_start [OF assms(1) 1 _ k(2,1), of ml] assms(1)
      by (cases "unat (m_frame_length fh) \<le> ml") (auto simp: place_segment_def)
  next
    case 2
    then show ?thesis
      using place_middle [OF assms(1) 2 k(2) _ assms(4), of ml] place_oversized [OF assms(1) _ k(1), of fh ml area]
      by (cases "unat off + k \<le> unat (m_frame_length fh)") auto
  next
    case 3
    then show ?thesis
      using place_last [OF assms(1) 3 k(2) _ assms(4), of ml] place_oversized [OF assms(1) _ k(1), of fh ml area]
      by (cases "unat off + k \<le> unat (m_frame_length fh)") auto
  next
    case 4
    then show ?thesis
      using place_independent [OF assms(1) 4 refl, of area ml "int k"] assms(3,4,5) by auto
  next
    case 5
    then have "place_segment ml fh area (int k) buf off = Some (UdpRecv_OPERATION_SUCC, buf, off, False)"
      by (simp add: place_segment_def)
    then show ?thesis using assms(1) by blast
  qed
qed

lemma memcpy_area:
  assumes "length area = 1444" "length b = 1500" "i + n \<le> 1444" "j + n \<le> 1500"
  shows "\<exists>area'. memcpy area (int i) b (int j) (int n) = Some area' \<and> length area' = 1444"
  using memcpy_nat [of i n area j b] assms by simp

lemma get_video_safe:
  assumes "length b = 1500" "30 \<le> n" "n \<le> 1468" "length area = 1444"
  shows "\<exists>flag area' k. get_video_frame_data b (int n) area = Some (flag, area', int k) \<and> length area' = 1444
     \<and> k \<le> 1444 \<and> (flag = 3 \<longleftrightarrow> Iframe (rx_frame b) \<noteq> 1 \<and> fu_type (b ! 28) \<noteq> 28)
     \<and> flag \<in> {-1, 0, 1, 2, 3}"
proof -
  obtain q where q: "n = 30 + q" using assms(2) by (metis le_Suc_ex)
  have d: "int n - 30 = int q" "int n - 28 = int (q + 2)" using q by simp_all
  let ?a = "area[0 := 0, 1 := 0, 2 := 0, 3 := 1]"
  let ?a5 = "?a[4 := push_bit 7 (fu_f (b ! 28)) OR push_bit 5 (fu_nri (b ! 28)) OR fu_type (b ! 29)]"
  show ?thesis
  proof (cases "fu_type (b ! 28) = 28")
    case fu: True
    show ?thesis
    proof (cases "fu_s (b ! 29) = 1")
      case True
      obtain x where "memcpy ?a5 5 b 30 (int q) = Some x" "length x = 1444"
        using memcpy_area [of ?a5 b 5 q 30] assms q by auto
      then show ?thesis
        using fu True assms(3) q
        by (intro exI [of _ "if Iframe (rx_frame b) = 1 then 0 else 2"] exI [of _ x] exI [of _ "5 + q"])
           (simp add: get_video_frame_data_def Let_def d)
    next
      case False
      obtain x where "memcpy area 0 b 30 (int q) = Some x" "length x = 1444"
        using memcpy_area [of area b 0 q 30] assms q by auto
      then show ?thesis
        using fu False assms(3) q
        by (intro exI [of _ "if fu_e (b ! 29) \<noteq> 0 then 1 else 0"] exI [of _ x] exI [of _ q])
           (simp add: get_video_frame_data_def Let_def d)
    qed
  next
    case False
    obtain x where x: "memcpy ?a 4 b 28 (int (q + 2)) = Some x" "length x = 1444"
      using memcpy_area [of ?a b 4 "q + 2" 28] assms q by auto
    obtain flag where "get_video_frame_data b (int n) area = Some (flag, x, 4 + int (q + 2))"
      "flag = 3 \<longleftrightarrow> Iframe (rx_frame b) \<noteq> 1" "flag \<in> {-1, 0, 1, 2, 3}"
      using False x(1) by (simp add: get_video_frame_data_def Let_def d del: of_nat_add split: if_splits)
    moreover have "4 + int (q + 2) = int (q + 6)" by simp
    ultimately show ?thesis using False x(2) assms(3) q
      by (intro exI [of _ flag] exI [of _ x] exI [of _ "q + 6"]) simp
  qed
qed

lemma get_audio_safe:
  assumes "length b = 1500" "32 \<le> n" "n \<le> 1468" "length area = 1444"
  shows "\<exists>area' k. get_audio_frame_data b (int n) area = Some (area', int k) \<and> length area' = 1444 \<and> k \<le> 1444"
proof -
  obtain q where q: "n = 32 + q" using assms(2) by (metis le_Suc_ex)
  have d: "int n - 28 - 4 = int q" using q by simp
  obtain x where x: "memcpy area 7 b 32 (int q) = Some x" "length x = 1444"
    using memcpy_area [of area b 7 q 32] assms q by auto
  have l: "length (OnAudioAacFrame 4 (7 + int q)) = 7" by (simp add: OnAudioAacFrame_def Let_def)
  have "memcpy x (int 0) (OnAudioAacFrame 4 (7 + int q)) (int 0) (int 7) =
      Some (take 0 x @ take 7 (drop 0 (OnAudioAacFrame 4 (7 + int q))) @ drop (0 + 7) x)"
    by (rule memcpy_nat) (use x l in simp_all)
  then show ?thesis
    using x assms(3) q l
    by (intro exI [of _ "OnAudioAacFrame 4 (7 + int q) @ drop 7 x"] exI [of _ "7 + q"])
       (simp add: get_audio_frame_data_def aac_payload_demux_def Let_def d)
qed

lemma get_jpeg_safe:
  assumes "length b = 1500" "28 \<le> n" "n \<le> 1468" "length area = 1444"
  shows "\<exists>area' k. get_jpeg_frame_data b (int n) area = Some (area', int k) \<and> length area' = 1444 \<and> k \<le> 1444"
proof -
  obtain q where q: "n = 28 + q" using assms(2) by (metis le_Suc_ex)
  have d: "int n - 28 = int q" using q by simp
  obtain x where x: "memcpy area 0 b 28 (int q) = Some x" "length x = 1444"
    using memcpy_area [of area b 0 q 28] assms q by auto
  then show ?thesis
    using assms(3) q by (intro exI [of _ x] exI [of _ q]) (simp add: get_jpeg_frame_data_def d)
qed

definition head_safe :: "udp_recv_freame_head_t \<Rightarrow> bool" where
  "head_safe fh \<longleftrightarrow> unat (m_frame_length fh) \<le> UdpRecv_MAX_FRAME_LEN
     \<and> (m_dw_segment fh = UdpRecv_INDEPENDENT_FRAME \<longrightarrow> unat (m_frame_length fh) \<le> 1444)"

lemma length_padded_max: "length pkt \<le> UdpRecv_MAX_UDP_LEN \<Longrightarrow> length (padded pkt) = 1500"
  by (simp add: padded_def UdpRecv_MAX_UDP_LEN_def)

text \<open>What unpacking a packet of a length within the limits gives, whatever the packet contains.\<close>

lemma unpack_shape:
  assumes n: "32 \<le> length pkt" "length pkt \<le> 1468"
  shows "\<exists>fh area k loc'. unpack_packet (padded pkt) (int (length pkt)) loc = Some (fh, area, int k, loc')
           \<and> length area = 1444 \<and> k \<le> 1444 \<and> m_data_codec fh = set_data_codec (rx_frame (padded pkt))
           \<and> m_frame_length fh = (if codec (rx_frame (padded pkt)) \<in> {0, 1, 2}
               then framelength (rx_frame (padded pkt)) else 0)
           \<and> (m_dw_segment fh = UdpRecv_INDEPENDENT_FRAME \<longleftrightarrow> independent_packet pkt)"
proof -
  let ?b = "padded pkt" and ?n = "length pkt" and ?f = "rx_frame (padded pkt)"
  have b: "length ?b = 1500" using n by (simp add: length_padded_max UdpRecv_MAX_UDP_LEN_def)
  have ar: "length (replicate 1444 0 :: byte list) = 1444" by simp
  consider "codec ?f = 0" | "codec ?f = 1" | "codec ?f = 2" | "codec ?f \<notin> {0, 1, 2}" by blast
  then show ?thesis
  proof cases
    case 1
    obtain flag a k where g: "get_video_frame_data ?b (int ?n) (replicate 1444 0) = Some (flag, a, int k)"
      "length a = 1444" "k \<le> 1444" "flag = 3 \<longleftrightarrow> Iframe ?f \<noteq> 1 \<and> fu_type (?b ! 28) \<noteq> 28"
      "flag \<in> {-1, 0, 1, 2, 3}"
      using get_video_safe [OF b _ n(2) ar] n(1) by auto
    have "(if flag = - 1 then 0 else word_of_int flag) = UdpRecv_INDEPENDENT_FRAME \<longleftrightarrow> independent_packet pkt"
      using g(4,5) 1 by (auto simp: independent_packet_def Let_def seg_names)
    then show ?thesis using 1 g(1,2,3)
      by (simp add: unpack_packet_def set_data_codec_def unpack_video_def get_video_frame_data_head_def Let_def)
  next
    case 2
    obtain a k where "get_audio_frame_data ?b (int ?n) (replicate 1444 0) = Some (a, int k)"
      "length a = 1444" "k \<le> 1444"
      using get_audio_safe [OF b n ar] by auto
    then show ?thesis using 2
      by (simp add: unpack_packet_def set_data_codec_def unpack_audio_def get_audio_frame_data_head_def Let_def
          independent_packet_def UdpRecv_INDEPENDENT_FRAME_def)
  next
    case 3
    have "(ucast (samplerate ?f) :: u32) = 3 \<longleftrightarrow> samplerate ?f = 3"
      using uint_up_ucast [of "samplerate ?f", where 'b = 32] by (simp add: is_up word_uint_eq_iff)
    moreover obtain a k where "get_jpeg_frame_data ?b (int ?n) (replicate 1444 0) = Some (a, int k)"
      "length a = 1444" "k \<le> 1444"
      using get_jpeg_safe [OF b _ n(2) ar] n(1) by auto
    ultimately show ?thesis using 3
      by (simp add: unpack_packet_def set_data_codec_def unpack_jpeg_def get_jpeg_frame_data_head_def Let_def
          independent_packet_def UdpRecv_INDEPENDENT_FRAME_def)
  next
    case 4
    then show ?thesis
      by (auto simp: unpack_packet_def set_data_codec_def Let_def head_zero_def independent_packet_def seg_names
          UdpRecv_H264_CODEC_TYPE_def UdpRecv_AAC_CODEC_TYPE_def UdpRecv_JPEG_CODEC_TYPE_def
          intro: exI [of _ 0])
  qed
qed

lemma unpack_safe:
  assumes "wf_packet pkt"
  shows "\<exists>fh area k loc'. unpack_packet (padded pkt) (int (length pkt)) loc = Some (fh, area, int k, loc')
           \<and> length area = 1444 \<and> k \<le> 1444 \<and> head_safe fh"
  using unpack_shape [of pkt loc] assms by (auto simp: wf_packet_def head_safe_def)

text \<open>A block the allocator hands out has the size that was asked for; it may also refuse.\<close>

definition block_ok :: "byte list option \<Rightarrow> bool" where
  "block_ok m \<longleftrightarrow> (case m of None \<Rightarrow> True | Some v \<Rightarrow> length v = UdpRecv_MAX_FRAME_LEN)"

lemma alloc_video:
  assumes "handle_inv h" "block_ok mv" "h1 = (if video_data h = None then h\<lparr>video_data := mv\<rparr> else h)"
  shows "handle_inv h1" "video_data h1 \<noteq> None \<Longrightarrow> video_inv h1"
  using assms
  by (auto simp: handle_inv_def block_ok_def video_inv_def audio_inv_def vbuf_def abuf_def split: option.splits if_splits)

lemma alloc_audio:
  assumes "handle_inv h" "block_ok ma" "h1 = (if audio_data h = None then h\<lparr>audio_data := ma\<rparr> else h)"
  shows "handle_inv h1" "audio_data h1 \<noteq> None \<Longrightarrow> audio_inv h1" "video_inv h1 = video_inv h"
  using assms
  by (auto simp: handle_inv_def block_ok_def video_inv_def audio_inv_def vbuf_def abuf_def split: option.splits if_splits)

lemma alloc_frames_safe:
  assumes "handle_inv h" "block_ok mv" "block_ok ma"
  shows "\<exists>go h'. alloc_frames mv ma h = (go, h') \<and> handle_inv h' \<and> (go \<longrightarrow> video_inv h' \<and> audio_inv h')"
  proof -
  define h1 where "h1 = (if video_data h = None then h\<lparr>video_data := mv\<rparr> else h)"
  define h2 where "h2 = (if audio_data h1 = None then h1\<lparr>audio_data := ma\<rparr> else h1)"
  have "alloc_frames mv ma h = (if video_data h1 = None then (False, h1) else (audio_data h2 \<noteq> None, h2))"
    by (simp add: alloc_frames_def Let_def h1_def h2_def)
  moreover note a = alloc_video [OF assms(1,2) h1_def]
  moreover note alloc_audio [OF a(1) assms(3) h2_def]
  ultimately show ?thesis by (cases "video_data h1 = None"; cases "audio_data h2 = None") auto
qed

lemma media_safe:
  assumes h: "video_inv h" "audio_inv h" and a: "length area = 1444" "k \<le> 1444" "head_safe fh"
  shows "\<exists>r h'. udp_recv_media_frame_data fh area (int k) now h = Some (r, h') \<and> handle_inv h'"
proof -
  have s: "\<exists>r buf' off' lost. place_segment ml fh area (int k) buf off = Some (r, buf', off', lost)
      \<and> seg_inv buf' off'" if "seg_inv buf off" for ml buf off
    using place_segment_safe [OF that a(2,1)] a(3) by (simp add: head_safe_def)
  obtain r1 b1 o1 l1 where p1: "place_segment UdpRecv_MAX_FRAME_LEN fh area (int k) (vbuf h) (video_offset h) =
      Some (r1, b1, o1, l1)" "seg_inv b1 o1"
    using s h(1) unfolding video_seg_inv by blast
  obtain r2 b2 o2 l2 where p2: "place_segment UdpRecv_MAX_AUDIO_LEN fh area (int k) (abuf h) (audio_offset h) =
      Some (r2, b2, o2, l2)" "seg_inv b2 o2"
    using s h(2) unfolding audio_seg_inv by blast
  obtain h1 where h1: "pkg_placed_in_frame fh area (int k) now h = Some (r1, h1)" "vbuf h1 = b1" "video_offset h1 = o1"
    using placed_video [OF h(1) p1(1), of now] by blast
  obtain h2 where h2: "pkg_placed_in_frame_audio fh area (int k) now h = Some (r2, h2)" "abuf h2 = b2" "audio_offset h2 = o2"
    using placed_audio [OF h(2) p2(1), of now] by blast
  have "handle_inv h1"
    using p1(2) h1(2,3) placed_video_frame [OF h1(1)] h(2)
    by (simp add: handle_inv_def video_seg_inv audio_seg_inv)
  moreover have "vbuf h2 = vbuf h" "video_offset h2 = video_offset h"
    using h2(1) by (auto simp: pkg_placed_in_frame_audio_def vbuf_def split: bind_splits)
  then have "handle_inv h2"
    using p2(2) h2(2,3) h(1) by (simp add: handle_inv_def video_seg_inv audio_seg_inv)
  moreover have "handle_inv h" using h by (simp add: handle_inv_def)
  ultimately show ?thesis using h1(1) h2(1) by (simp add: udp_recv_media_frame_data_def)
qed

lemma handle_inv_deliver: "handle_inv (fst (deliver_frame fh r h)) = handle_inv h"
  by (simp add: deliver_frame_def handle_inv_def video_inv_def audio_inv_def vbuf_def abuf_def Let_def)

lemma handle_inv_control:
  "handle_inv (udp_recv_start h) = handle_inv h" "handle_inv (udp_recv_pause h) = handle_inv h"
  "handle_inv (h\<lparr>pthread_status := x\<rparr>) = handle_inv h"
  by (simp_all add: udp_recv_start_def udp_recv_pause_def handle_inv_def video_inv_def audio_inv_def
      vbuf_def abuf_def)

definition event_ok :: "recv_event \<Rightarrow> bool" where
  "event_ok ev = (case ev of
     Packet p now mv ma \<Rightarrow> (length p < 28 \<or> wf_packet p) \<and> block_ok mv \<and> block_ok ma | _ \<Rightarrow> True)"

lemma recv_packet_safe:
  assumes "handle_inv h" "length p < 28 \<or> wf_packet p" "block_ok mv" "block_ok ma"
  shows "\<exists>go loc' h' cs. recv_packet mv ma now p loc h = Some (go, loc', h', cs) \<and> handle_inv h'"
proof (cases "length p < 28")
  case True
  then have "recv_packet mv ma now p loc h = Some (False, loc, h, [])"
    by (simp add: recv_packet_def Let_def UdpRecv_MAX_UDP_LEN_def)
  then show ?thesis using assms(1) by blast
next
  case False
  then have w: "wf_packet p" using assms(2) by simp
  then have l: "\<not> length p < 28" "take UdpRecv_MAX_UDP_LEN p = p"
    by (simp_all add: wf_packet_def UdpRecv_MAX_UDP_LEN_def)
  obtain go h1 where h1: "alloc_frames mv ma h = (go, h1)" "handle_inv h1" "go \<longrightarrow> video_inv h1 \<and> audio_inv h1"
    using alloc_frames_safe [OF assms(1,3,4)] by blast
  obtain fh area k loc' where u: "unpack_packet (padded p) (int (length p)) loc = Some (fh, area, int k, loc')"
    "length area = 1444" "k \<le> 1444" "head_safe fh"
    using unpack_safe [OF w] by blast
  show ?thesis
  proof (cases go)
    case True
    obtain r h2 where h2: "udp_recv_media_frame_data fh area (int k) now h1 = Some (r, h2)" "handle_inv h2"
      using media_safe [OF _ _ u(2-4)] h1(3) True by blast
    obtain h3 cs where "deliver_frame fh r h2 = (h3, cs)" by (cases "deliver_frame fh r h2")
    then have "recv_packet mv ma now p loc h = Some (True, loc', h3, cs)" "handle_inv h3"
      using True h1(1) u(1) h2 handle_inv_deliver [of fh r h2] l
      by (simp_all add: recv_packet_def padded_def Let_def)
    then show ?thesis by blast
  next
    case False
    then have "recv_packet mv ma now p loc h = Some (False, loc, h1, [])"
      using h1(1) l by (simp add: recv_packet_def Let_def)
    then show ?thesis using h1(2) by blast
  qed
qed

lemma recv_step_safe:
  assumes "handle_inv (r_handle s)" "event_ok ev"
  shows "\<exists>s'. recv_step ev s = Some s' \<and> handle_inv (r_handle s')"
proof (cases ev)
  case (Packet p now mv ma)
  then show ?thesis
    using recv_packet_safe [OF assms(1), of p mv ma now "r_locals s"] assms
    by (auto simp: recv_step_def event_ok_def)
qed (use assms(1) in \<open>simp_all add: recv_step_def handle_inv_control\<close>)

text \<open>
  C6: Memory safety of the receiving thread.  From every state whose frame buffers are absent or of full
  size, and for every run of pauses, starts, timeouts, stops and packets that respect the length limits of
  \<^term>\<open>wf_packet\<close> or are too short to hold the headers, whatever the packets contain otherwise, in whatever
  order they come and whenever the allocator refuses, no copy leaves its buffers and the invariant on the
  buffers and offsets holds in the end.
\<close>

theorem recv_thread_safe:
  assumes "handle_inv (r_handle s)" "list_all event_ok evs"
  shows "\<exists>s'. udp_recv_deal evs s = Some s' \<and> handle_inv (r_handle s')"
  using assms
proof (induction evs arbitrary: s)
  case (Cons ev evs)
  obtain s1 where "recv_step ev s = Some s1" "handle_inv (r_handle s1)"
    using recv_step_safe [OF Cons.prems(1)] Cons.prems(2) by auto
  with Cons.IH [of s1] Cons.prems(2) show ?case by simp
qed simp

text \<open>A new thread, a start, a timeout, a packet of noise, an empty packet and a stop.\<close>

definition sample_recv_thread :: recv_thread where
  "sample_recv_thread = recv_thread_entry 5 0 0
     (the (udp_recv_init True True \<lparr>rc_ip = [], rc_port = 5000, rc_user_data = 0, rc_has_func = True\<rparr>))"

definition sample_recv_events :: "recv_event list" where
  "sample_recv_events = [Start, NoData 11, Packet (replicate 28 0 @ [1, 2, 3, 4, 5, 6, 7, 8, 9]) 7
     (Some (replicate UdpRecv_MAX_FRAME_LEN 0)) (Some (replicate UdpRecv_MAX_FRAME_LEN 0)),
     Packet [] 8 None None, Exit]"

theorem recv_thread_safe_witness:
  "handle_inv (r_handle sample_recv_thread) \<and> list_all event_ok sample_recv_events
   \<and> (\<exists>s'. udp_recv_deal sample_recv_events sample_recv_thread = Some s' \<and> handle_inv (r_handle s'))"
proof -
  have 1: "handle_inv (r_handle sample_recv_thread)"
    by (simp add: sample_recv_thread_def recv_thread_entry_def udp_recv_init_def handle_inv_def Let_def)
  have "wf_packet (replicate 28 0 @ [1, 2, 3, 4, 5, 6, 7, 8, 9])"
    by (simp add: wf_packet_def padded_def rx_frame_def rd32_def nth_append)
  then have 2: "list_all event_ok sample_recv_events"
    by (simp add: sample_recv_events_def event_ok_def block_ok_def)
  show ?thesis using 1 2 recv_thread_safe [OF 1 2] by simp
qed

text \<open>The limits of \<^term>\<open>wf_packet\<close> are needed: the code does not test them.\<close>

lemma recv_step_unpack_None:
  assumes "thread_ok s" "alloc_ok mv ma" "28 \<le> length pkt" "length pkt \<le> UdpRecv_MAX_UDP_LEN"
    and "unpack_packet (padded pkt) (int (length pkt)) (r_locals s) = None"
  shows "recv_step (Packet pkt now mv ma) s = None"
proof -
  obtain h1 where "alloc_frames mv ma (r_handle s) = (True, h1)"
    using alloc_frames_ok [OF _ assms(2)] assms(1) by (auto simp: thread_ok_def)
  then show ?thesis using assms by (simp add: recv_step_def thread_ok_def recv_packet_def padded_def Let_def)
qed

text \<open>
  A packet with a complete H.264 unit of 1469 to 1500 bytes, which \<^verbatim>\<open>recv\<close> accepts, is copied over the
  end of \<^verbatim>\<open>in_data\<close>: the behaviour is undefined.  The sender's own packets are at most 1396 bytes long.
\<close>

theorem recv_overlong_unit:
  assumes "thread_ok s" "alloc_ok mv ma" "1469 \<le> length pkt" "length pkt \<le> UdpRecv_MAX_UDP_LEN"
    and "codec (rx_frame (padded pkt)) = 0" "fu_type (padded pkt ! 28) \<noteq> 28"
  shows "recv_step (Packet pkt now mv ma) s = None"
proof (rule recv_step_unpack_None [OF assms(1,2) _ assms(4)])
  show "unpack_packet (padded pkt) (int (length pkt)) (r_locals s) = None"
    using assms(3,5,6)
    by (simp add: unpack_packet_def set_data_codec_def Let_def unpack_video_def get_video_frame_data_def
        memcpy_def)
qed (use assms(3) in simp)

definition running_handle :: udp_recv_handle where
  "running_handle = udp_recv_start
     (the (udp_recv_init True True \<lparr>rc_ip = [], rc_port = 5000, rc_user_data = 0, rc_has_func = True\<rparr>))"

definition running_thread :: recv_thread where
  "running_thread = recv_thread_entry 5 0 0 running_handle"

definition zero_block :: "byte list option" where
  "zero_block = Some (replicate UdpRecv_MAX_FRAME_LEN 0)"

lemma running_thread_ok: "thread_ok running_thread"
  by (simp add: running_thread_def running_handle_def recv_thread_entry_def udp_recv_init_def udp_recv_start_def
      thread_ok_def handle_inv_def Let_def UdpRecv_THREAD_RUN_def)

lemma zero_blocks_ok: "alloc_ok zero_block zero_block"
  by (simp add: zero_block_def alloc_ok_def)

theorem recv_overlong_unit_witness:
  "recv_step (Packet (replicate 1480 0) 7 zero_block zero_block) running_thread = None"
  by (rule recv_overlong_unit [OF running_thread_ok zero_blocks_ok])
     (simp_all add: UdpRecv_MAX_UDP_LEN_def padded_def rx_frame_def nth_append fu_type_def)

text \<open>
  A packet that is a frame of its own and announces more than 1444 bytes makes the thread read past the
  end of \<^verbatim>\<open>in_data\<close>: \<^verbatim>\<open>m_frame_length\<close> comes from the packet and is not compared with the bytes received.
\<close>

theorem recv_announced_length:
  assumes "thread_ok s" "alloc_ok mv ma" "32 \<le> length pkt" "length pkt \<le> 1468"
    and "independent_packet pkt" "unat (framelength (rx_frame (padded pkt))) > 1444"
  shows "recv_step (Packet pkt now mv ma) s = None"
proof -
  obtain fh area k loc' where u: "unpack_packet (padded pkt) (int (length pkt)) (r_locals s) = Some (fh, area, int k, loc')"
    "length area = 1444" "m_data_codec fh = set_data_codec (rx_frame (padded pkt))"
    "m_frame_length fh = (if codec (rx_frame (padded pkt)) \<in> {0, 1, 2} then framelength (rx_frame (padded pkt)) else 0)"
    "m_dw_segment fh = UdpRecv_INDEPENDENT_FRAME"
    using unpack_shape [OF assms(3,4)] assms(5) by blast
  have c: "codec (rx_frame (padded pkt)) \<in> {0, 1, 2}" using assms(5) by (auto simp: independent_packet_def Let_def)
  then have "1444 < unat (m_frame_length fh)" using u(4) assms(6) by simp
  then have "1444 < uint (m_frame_length fh)" by (metis of_nat_less_iff of_nat_numeral of_nat_unat)
  then have "place_segment ml fh area (int k) buf off = None" for ml buf off
    using u(2,5) by (simp add: place_segment_def seg_names memcpy_def)
  then have "udp_recv_media_frame_data fh area (int k) now h = None" for h
    using c u(3)
    by (auto simp: udp_recv_media_frame_data_def set_data_codec_def pkg_placed_in_frame_def
        pkg_placed_in_frame_audio_def split: bind_splits)
  moreover obtain h1 where "alloc_frames mv ma (r_handle s) = (True, h1)"
    using alloc_frames_ok [OF _ assms(2)] assms(1) by (auto simp: thread_ok_def)
  ultimately show ?thesis
    using assms(1,3,4) u(1)
    by (simp add: recv_step_def thread_ok_def recv_packet_def padded_def Let_def UdpRecv_MAX_UDP_LEN_def)
qed

text \<open>An H.264 unit of 36 bytes that announces 65536.\<close>

definition lying_packet :: "byte list" where
  "lying_packet = replicate 25 0 @ [1] @ replicate 10 0"

theorem recv_announced_length_witness:
  "recv_step (Packet lying_packet 7 zero_block zero_block) running_thread = None"
  by (rule recv_announced_length [OF running_thread_ok zero_blocks_ok])
     (simp_all add: lying_packet_def UdpRecv_MAX_UDP_LEN_def padded_def rx_frame_def nth_append fu_type_def
        rd32_def independent_packet_def)

end
