(* ===== verification/Room.thy ===== *)
theory Room
  imports UdpRecv
begin

section \<open>The streams of a room (src/reach\_edukit/src/room/receive/receive\_module.c)\<close>

text \<open>
  A room program keeps an array of 18 stream handles.  A handle belongs to one encoder: how its pictures and
  sound arrive and leave, which consumers (recorder, movie recorder, live) want them, and the buffers in which
  frames are put together.  The array is the list \<open>stream_hand\<close>, a pointer to one of its handles is an index.
  Every pointer handed to a status function is tested by it, so the functions take an option of a handle.
  The records leave out what the modelled functions do not read: locks and thread ids, \<^verbatim>\<open>alive_flag\<close>,
  \<^verbatim>\<open>push_module_flag\<close>, \<^verbatim>\<open>pull_module_flag\<close>, \<^verbatim>\<open>enc_login_flag\<close> and \<^verbatim>\<open>reserve\<close>.  Numbers that only travel
  through (stream ids, offsets, sizes) are kept as their 32-bit patterns.
  \<^const>\<open>None\<close> as the result of a room-level function is undefined behaviour.
\<close>

subsection \<open>Constants\<close>

definition MAX_STREAM :: nat where "MAX_STREAM = 18"
definition IP_LEN :: nat where "IP_LEN = 16"
definition MAX_FRAME_LEN :: nat where "MAX_FRAME_LEN = 2 * 1024 * 1024"
definition MAX_AUDIO_LEN :: nat where "MAX_AUDIO_LEN = 10 * 1024"
definition CONNECT :: byte where "CONNECT = 1"
definition DISCONNECT :: byte where "DISCONNECT = 0"
definition INVALID_ENC :: byte where "INVALID_ENC = 2"
definition RECODE_MODE_ALL :: int where "RECODE_MODE_ALL = 0"
definition RECODE_MODE_MOVIE :: int where "RECODE_MODE_MOVIE = 1"
definition RECODE_MODE_RES :: int where "RECODE_MODE_RES = 2"
definition RECODE_AUDIO_ON :: int where "RECODE_AUDIO_ON = 1"
definition RECODE_AUDIO_OFF :: int where "RECODE_AUDIO_OFF = 0"
definition MEDIA_STREAM_VALID :: int where "MEDIA_STREAM_VALID = 1"
definition MEDIA_STREAM_INVALID :: int where "MEDIA_STREAM_INVALID = 0"
definition NO_COMMUNICATION :: int where "NO_COMMUNICATION = 0"
definition PUSH_IN_UDP :: int where "PUSH_IN_UDP = 1"
definition PULL_IN_UDP :: int where "PULL_IN_UDP = 3"
definition PULL_IN_TCP :: int where "PULL_IN_TCP = 4"
definition CLOSE_SOCK :: int where "CLOSE_SOCK = -1"
definition OP_ERR :: int where "OP_ERR = -1"
definition OP_SUCC :: int where "OP_SUCC = 0"

subsection \<open>State\<close>

record recv_print =
  rp_status :: byte
  rp_data_type :: byte
  rp_stream_type :: byte
  rp_is_data :: byte
  rp_frame_rate :: u32
  rp_to_rec :: byte
  rp_to_live :: byte
  rp_width :: u32
  rp_hight :: u32
  rp_code_rate :: u32
  rp_sample_rate :: u32

record recv_time =
  rt_video_init_time :: u32
  rt_audio_init_time :: u32
  rt_init_video_flag :: byte
  rt_init_audio_flag :: byte
  rt_time_audio_tick :: u32
  rt_time_video_tick :: u32
  rt_video_cal_time :: u32
  rt_audio_cal_time :: u32
  rt_prev_video_time :: u32
  rt_prev_audio_time :: u32
  rt_prev_video_time_tick :: u32
  rt_prev_audio_time_tick :: u32

text \<open>
  \<^verbatim>\<open>audio_tran_info_t\<close>: an array of 18 pointers to handles and a counter.
\<close>

record audio_tran_info =
  stream_handle_addr :: "nat option list"
  at_stream_num :: int

record media_audio_info =
  audio_tran_movie_info :: audio_tran_info
  audio_tran_res_info :: audio_tran_info
  audio_tran_live_into :: audio_tran_info

record stream_handle =
  sh_status :: byte
  sh_pthread_status :: byte
  stream_id :: u32
  msg_recv_to_ctrl :: int
  msg_recv_to_live :: int
  msg_recv_to_rec :: int
  msg_recv_to_usb_rec :: int
  rec_status :: byte
  usb_rec_status :: byte
  live_status :: byte
  sh_offset :: u32
  frame_data :: "byte list option"
  sh_audio_offset :: u32
  sh_audio_data :: "byte list option"
  recv_pri :: recv_print
  recv_time_t :: recv_time
  log_flag :: u32
  av_connect_flag :: byte
  ipaddr :: "byte list"
  sh_port :: int
  sockfd :: int
  enc_id :: int
  push_module :: int
  pull_module :: int
  pull_udp_port :: int
  push_udp_port :: int
  push_ip :: "byte list"
  recv_audio_flag :: int
  rec_mode :: int
  rec_audio_falg :: int
  live_audio_falg :: int
  media_flag :: int
  audio_info :: "media_audio_info option"

text \<open>The array and the number of streams of \<^verbatim>\<open>recve_room_handle\<close>; its function pointers are fixed.\<close>

record recv_room_handle =
  rr_stream_num :: int
  stream_hand :: "stream_handle list"

record recv_param =
  pm_status :: byte
  pm_stream_id :: u32
  pm_ipaddr :: "byte list"
  pm_enc_id :: int

text \<open>What \<^verbatim>\<open>memset(.., 0, ..)\<close> leaves.\<close>

definition recv_print_zero :: recv_print where
  "recv_print_zero = \<lparr>rp_status = 0, rp_data_type = 0, rp_stream_type = 0, rp_is_data = 0,
     rp_frame_rate = 0, rp_to_rec = 0, rp_to_live = 0, rp_width = 0, rp_hight = 0, rp_code_rate = 0,
     rp_sample_rate = 0\<rparr>"

definition recv_time_zero :: recv_time where
  "recv_time_zero = \<lparr>rt_video_init_time = 0, rt_audio_init_time = 0, rt_init_video_flag = 0,
     rt_init_audio_flag = 0, rt_time_audio_tick = 0, rt_time_video_tick = 0, rt_video_cal_time = 0,
     rt_audio_cal_time = 0, rt_prev_video_time = 0, rt_prev_audio_time = 0,
     rt_prev_video_time_tick = 0, rt_prev_audio_time_tick = 0\<rparr>"

definition audio_tran_zero :: audio_tran_info where
  "audio_tran_zero = \<lparr>stream_handle_addr = replicate MAX_STREAM None, at_stream_num = 0\<rparr>"

definition media_audio_zero :: media_audio_info where
  "media_audio_zero = \<lparr>audio_tran_movie_info = audio_tran_zero, audio_tran_res_info = audio_tran_zero,
     audio_tran_live_into = audio_tran_zero\<rparr>"

definition stream_handle_zero :: stream_handle where
  "stream_handle_zero = \<lparr>sh_status = 0, sh_pthread_status = 0, stream_id = 0, msg_recv_to_ctrl = 0,
     msg_recv_to_live = 0, msg_recv_to_rec = 0, msg_recv_to_usb_rec = 0, rec_status = 0,
     usb_rec_status = 0, live_status = 0, sh_offset = 0, frame_data = None, sh_audio_offset = 0,
     sh_audio_data = None, recv_pri = recv_print_zero, recv_time_t = recv_time_zero, log_flag = 0,
     av_connect_flag = 0, ipaddr = replicate IP_LEN 0, sh_port = 0, sockfd = 0, enc_id = 0,
     push_module = 0, pull_module = 0, pull_udp_port = 0, push_udp_port = 0,
     push_ip = replicate IP_LEN 0, recv_audio_flag = 0, rec_mode = 0, rec_audio_falg = 0,
     live_audio_falg = 0, media_flag = 0, audio_info = None\<rparr>"

subsection \<open>Status of a stream\<close>

text \<open>
  The setters and getters test \<^verbatim>\<open>stream_id > 0 || stream_id < MAX_STREAM\<close>, which holds for every number.
\<close>

definition id_in_range :: "stream_handle \<Rightarrow> bool" where
  "id_in_range h \<longleftrightarrow> sint (stream_id h) > 0 \<or> sint (stream_id h) < int MAX_STREAM"

lemma id_in_range [simp]: "id_in_range h"
  by (simp add: id_in_range_def MAX_STREAM_def) linarith

definition set_rec_status :: "byte \<Rightarrow> stream_handle option \<Rightarrow> int \<times> stream_handle option" where
  "set_rec_status st p = (case p of None \<Rightarrow> (OP_ERR, None)
     | Some h \<Rightarrow> (OP_SUCC, Some (if id_in_range h then h\<lparr>rec_status := st\<rparr> else h)))"

definition set_usb_rec_status :: "byte \<Rightarrow> stream_handle option \<Rightarrow> int \<times> stream_handle option" where
  "set_usb_rec_status st p = (case p of None \<Rightarrow> (OP_ERR, None)
     | Some h \<Rightarrow> (OP_SUCC, Some (if id_in_range h then h\<lparr>usb_rec_status := st\<rparr> else h)))"

definition set_live_status :: "byte \<Rightarrow> stream_handle option \<Rightarrow> int \<times> stream_handle option" where
  "set_live_status st p = (case p of None \<Rightarrow> (OP_ERR, None)
     | Some h \<Rightarrow> (OP_SUCC, Some (if id_in_range h then h\<lparr>live_status := st\<rparr> else h)))"

definition get_rec_status :: "stream_handle option \<Rightarrow> int" where
  "get_rec_status p = (case p of None \<Rightarrow> OP_ERR
     | Some h \<Rightarrow> if id_in_range h then uint (rec_status h) else OP_SUCC)"

definition get_usb_rec_status :: "stream_handle option \<Rightarrow> int" where
  "get_usb_rec_status p = (case p of None \<Rightarrow> OP_ERR
     | Some h \<Rightarrow> if id_in_range h then uint (usb_rec_status h) else OP_SUCC)"

definition get_live_status :: "stream_handle option \<Rightarrow> int" where
  "get_live_status p = (case p of None \<Rightarrow> OP_ERR
     | Some h \<Rightarrow> if id_in_range h then uint (live_status h) else OP_SUCC)"

definition get_stream_status :: "stream_handle option \<Rightarrow> int" where
  "get_stream_status p = (case p of None \<Rightarrow> OP_ERR
     | Some h \<Rightarrow> if id_in_range h then uint (sh_status h) else OP_SUCC)"

definition get_stream_connect :: "stream_handle option \<Rightarrow> int" where
  "get_stream_connect p = (case p of None \<Rightarrow> OP_ERR
     | Some h \<Rightarrow> if id_in_range h then uint (rp_status (recv_pri h)) else OP_SUCC)"

definition get_stream_socket :: "stream_handle option \<Rightarrow> int" where
  "get_stream_socket p = (case p of None \<Rightarrow> OP_ERR
     | Some h \<Rightarrow> if id_in_range h then sockfd h else OP_ERR)"

definition set_recv_to_ctrl_msgid :: "int \<Rightarrow> stream_handle option \<Rightarrow> int \<times> stream_handle option" where
  "set_recv_to_ctrl_msgid m p = (case p of None \<Rightarrow> (OP_ERR, None)
     | Some h \<Rightarrow> (OP_SUCC, Some (if m \<ge> 0 \<and> id_in_range h then h\<lparr>msg_recv_to_ctrl := m\<rparr> else h)))"

definition set_recv_to_live_msgid :: "int \<Rightarrow> stream_handle option \<Rightarrow> int \<times> stream_handle option" where
  "set_recv_to_live_msgid m p = (case p of None \<Rightarrow> (OP_ERR, None)
     | Some h \<Rightarrow> (OP_SUCC, Some (if m \<ge> 0 \<and> id_in_range h then h\<lparr>msg_recv_to_live := m\<rparr> else h)))"

definition set_recv_to_rec_msgid :: "int \<Rightarrow> stream_handle option \<Rightarrow> int \<times> stream_handle option" where
  "set_recv_to_rec_msgid m p = (case p of None \<Rightarrow> (OP_ERR, None)
     | Some h \<Rightarrow> (OP_SUCC, Some (if m \<ge> 0 \<and> id_in_range h then h\<lparr>msg_recv_to_rec := m\<rparr> else h)))"

definition set_recv_to_usb_rec_msgid :: "int \<Rightarrow> stream_handle option \<Rightarrow> int \<times> stream_handle option" where
  "set_recv_to_usb_rec_msgid m p = (case p of None \<Rightarrow> (OP_ERR, None)
     | Some h \<Rightarrow> (OP_SUCC, Some (if m \<ge> 0 \<and> id_in_range h then h\<lparr>msg_recv_to_usb_rec := m\<rparr> else h)))"

text \<open>The handle after the call and the descriptors that were closed.\<close>

definition close_stream_sock :: "stream_handle \<Rightarrow> stream_handle \<times> int list" where
  "close_stream_sock h =
     (if sockfd h > 0 then (h\<lparr>sockfd := CLOSE_SOCK\<rparr>, [sockfd h]) else (h, []))"

definition close_stream_connect :: "stream_handle \<Rightarrow> stream_handle \<times> int list" where
  "close_stream_connect h =
     (let fd = sockfd h; h = h\<lparr>sh_status := DISCONNECT\<rparr>
      in if sockfd h > 0 then (h\<lparr>sockfd := CLOSE_SOCK\<rparr>, [fd]) else (h, []))"

definition open_stream_connect :: "stream_handle \<Rightarrow> stream_handle" where
  "open_stream_connect h = h\<lparr>sh_status := CONNECT\<rparr>"

definition memset_pri_status :: "recv_print \<Rightarrow> recv_print" where
  "memset_pri_status p = p\<lparr>rp_code_rate := 0, rp_data_type := 0, rp_stream_type := 0, rp_is_data := 0,
     rp_frame_rate := 0, rp_width := 0, rp_hight := 0, rp_sample_rate := 0\<rparr>"

subsection \<open>How an encoder is connected\<close>

definition set_stream_com_info :: "stream_handle \<Rightarrow> int \<times> stream_handle" where
  "set_stream_com_info h =
     (let pull = (\<lambda>port udp mode rec live recv. (0 :: int, h\<lparr>pull_module := PULL_IN_UDP, push_module := NO_COMMUNICATION,
            pull_udp_port := udp, sh_port := port, rec_mode := mode, rec_audio_falg := rec,
            live_audio_falg := live, recv_audio_flag := recv\<rparr>));
          camera = (\<lambda>push bind. (0 :: int, h\<lparr>pull_module := PULL_IN_TCP, push_module := PUSH_IN_UDP,
            push_udp_port := push, pull_udp_port := bind, sh_port := 3400, rec_mode := RECODE_MODE_RES,
            rec_audio_falg := RECODE_AUDIO_OFF, live_audio_falg := RECODE_AUDIO_OFF,
            recv_audio_flag := RECODE_AUDIO_OFF\<rparr>));
          e = enc_id h
      in if e = 1 then pull 0x20A1 (if stream_id h = 1 then 0x30A1 else 0x31A1) RECODE_MODE_MOVIE
                         RECODE_AUDIO_ON RECODE_AUDIO_ON RECODE_AUDIO_OFF
         else if e = 2 then pull 0x20A2 0x30A2 RECODE_MODE_RES RECODE_AUDIO_ON RECODE_AUDIO_OFF RECODE_AUDIO_OFF
         else if e = 3 then pull 0x20A3 0x30A3 RECODE_MODE_RES RECODE_AUDIO_ON RECODE_AUDIO_OFF RECODE_AUDIO_OFF
         else if e = 4 then pull 0x20A4 0x30A4 RECODE_MODE_RES RECODE_AUDIO_ON RECODE_AUDIO_OFF RECODE_AUDIO_ON
         else if e = 5 then pull 0x20A5 0x30A5 RECODE_MODE_ALL RECODE_AUDIO_OFF RECODE_AUDIO_OFF RECODE_AUDIO_OFF
         else if e = 6 then camera 0x30C6 0x40C6
         else if e = 7 then camera 0x30C7 0x40C7
         else if e = 8 then camera 0x30C8 0x40C8
         else if e = 9 then camera 0x30C9 0x40C9
         else (-1, h))"

subsection \<open>Who gets the sound\<close>

text \<open>The first stream with a sound source is the one whose sound is passed on.\<close>

fun find_audio_source :: "nat \<Rightarrow> stream_handle list \<Rightarrow> nat option" where
  "find_audio_source i [] = None"
| "find_audio_source i (h # hs) =
     (if media_flag h = MEDIA_STREAM_INVALID then find_audio_source (Suc i) hs
      else if recv_audio_flag h = RECODE_AUDIO_ON then Some i
      else find_audio_source (Suc i) hs)"

text \<open>Appending a handle: a write outside the array is undefined.\<close>

definition tran_append :: "nat \<Rightarrow> audio_tran_info \<Rightarrow> audio_tran_info option" where
  "tran_append i t = do {
     a \<leftarrow> poke (stream_handle_addr t) (at_stream_num t) (Some i);
     Some \<lparr>stream_handle_addr = a, at_stream_num = at_stream_num t + 1\<rparr>
   }"

fun collect_audio :: "nat \<Rightarrow> stream_handle list \<Rightarrow> media_audio_info \<Rightarrow> media_audio_info option" where
  "collect_audio i [] a = Some a"
| "collect_audio i (h # hs) a =
     (if media_flag h = MEDIA_STREAM_INVALID then collect_audio (Suc i) hs a
      else do {
        m \<leftarrow> (if rec_audio_falg h = RECODE_AUDIO_ON \<and> (rec_mode h = RECODE_MODE_MOVIE \<or> rec_mode h = RECODE_MODE_ALL)
             then tran_append i (audio_tran_movie_info a) else Some (audio_tran_movie_info a));
        r \<leftarrow> (if rec_audio_falg h = RECODE_AUDIO_ON \<and> (rec_mode h = RECODE_MODE_RES \<or> rec_mode h = RECODE_MODE_ALL)
             then tran_append i (audio_tran_res_info a) else Some (audio_tran_res_info a));
        l \<leftarrow> (if live_audio_falg h = RECODE_AUDIO_ON
             then tran_append i (audio_tran_live_into a) else Some (audio_tran_live_into a));
        collect_audio (Suc i) hs \<lparr>audio_tran_movie_info = m, audio_tran_res_info = r, audio_tran_live_into = l\<rparr>
      })"

text \<open>\<open>mok\<close>: whether the allocation of the lists succeeds; a failure is not tested.\<close>

definition set_stream_audio_info :: "bool \<Rightarrow> recv_room_handle \<Rightarrow> (int \<times> recv_room_handle) option" where
  "set_stream_audio_info mok r =
     (case find_audio_source 0 (stream_hand r) of
        None \<Rightarrow> Some (-1, r)
      | Some s \<Rightarrow>
          if \<not> mok then None
          else do {
            a \<leftarrow> collect_audio 0 (stream_hand r) media_audio_zero;
            Some (0, r\<lparr>stream_hand := (stream_hand r)[s := (stream_hand r ! s)\<lparr>audio_info := Some a\<rparr>]\<rparr>)
          })"

subsection \<open>Buffers\<close>

text \<open>
  \<^verbatim>\<open>free_recv_module_pool\<close>: the loop's third expression is \<^verbatim>\<open>index\<close>, so the index does not move.
\<close>

partial_function (option) free_pool_loop ::
  "int \<Rightarrow> nat \<Rightarrow> stream_handle list \<Rightarrow> stream_handle list option" where
  "free_pool_loop n index hs =
     (if int index < n then
        (if index < length hs
         then free_pool_loop n index (hs[index := (hs ! index)\<lparr>frame_data := None, sh_audio_data := None\<rparr>])
         else None)
      else Some hs)"

definition free_recv_module_pool :: "recv_room_handle \<Rightarrow> (int \<times> recv_room_handle) option" where
  "free_recv_module_pool r = do {
     hs \<leftarrow> free_pool_loop (rr_stream_num r) 0 (stream_hand r);
     Some (0, r\<lparr>stream_hand := hs\<rparr>)
   }"

text \<open>\<open>mv\<close>, \<open>ma\<close>: whether the allocations succeed; both buffers are cleared without a test.\<close>

definition malloc_recv_stream_pool ::
  "bool \<Rightarrow> bool \<Rightarrow> nat \<Rightarrow> stream_handle list \<Rightarrow> (int \<times> stream_handle list) option" where
  "malloc_recv_stream_pool mv ma i hs =
     (if i \<ge> length hs then None
      else let h = hs ! i
        in if (frame_data h = None \<and> \<not> mv) \<or> (sh_audio_data h = None \<and> \<not> ma) then None
           else Some (0, hs[i := h\<lparr>frame_data := Some (replicate MAX_FRAME_LEN 0),
                                  sh_audio_data := Some (replicate MAX_AUDIO_LEN 0)\<rparr>]))"

subsection \<open>Setting up a room\<close>

text \<open>
  One iteration of the loop of \<^verbatim>\<open>set_room_info\<close>: \<open>ip0\<close> is the address field of the first parameter.  The
  result is a return code when the function returns early, the handles, the descriptors that were closed and
  whether a thread was started for the stream.
\<close>

definition set_room_stream ::
  "bool \<Rightarrow> bool \<Rightarrow> byte list \<Rightarrow> nat \<Rightarrow> recv_param \<Rightarrow> stream_handle list
    \<Rightarrow> (int option \<times> stream_handle list \<times> int list \<times> bool) option" where
  "set_room_stream mv ma ip0 i pm hs =
     (if i \<ge> length hs then None
      else if pm_status pm = INVALID_ENC then
        Some (None, hs[i := (hs ! i)\<lparr>sh_pthread_status := 0, media_flag := MEDIA_STREAM_INVALID\<rparr>], [], False)
      else do {
        let h = (hs ! i)\<lparr>media_flag := MEDIA_STREAM_VALID\<rparr>;
        let (h, cl) = (if get_stream_status (Some h) = uint CONNECT then close_stream_connect h else (h, []));
        let h = h\<lparr>sh_pthread_status := 1\<rparr>;
        (_, hs) \<leftarrow> malloc_recv_stream_pool mv ma i (hs[i := h]);
        let h = (hs ! i)\<lparr>ipaddr := replicate IP_LEN 0, sh_port := 0\<rparr>;
        if of_nat (i + 1) = pm_stream_id pm \<and> pm_status pm = 1 then
          (let h = h\<lparr>stream_id := pm_stream_id pm, enc_id := pm_enc_id pm\<rparr>;
               (rc, h) = set_stream_com_info h
           in if rc < 0 then Some (Some OP_ERR, hs[i := h], cl, True)
              else do {
                h \<leftarrow> (if push_module h = PUSH_IN_UDP then do {
                       s0 \<leftarrow> cstr ip0;
                       p \<leftarrow> memcpy (replicate IP_LEN 0) 0 s0 0 (int (length s0));
                       Some (h\<lparr>push_ip := p\<rparr>)
                     } else Some h);
                si \<leftarrow> cstr (pm_ipaddr pm);
                h \<leftarrow> (if length si < IP_LEN then do {
                       a \<leftarrow> memcpy (ipaddr h) 0 si 0 (int (length si));
                       Some (h\<lparr>ipaddr := a\<rparr>)
                     } else Some h);
                Some (None, hs[i := h], cl, True)
              })
        else Some (None, hs[i := h], cl, True)
      })"

fun set_room_streams ::
  "(nat \<Rightarrow> bool \<times> bool) \<Rightarrow> byte list \<Rightarrow> nat \<Rightarrow> recv_param list \<Rightarrow> stream_handle list
    \<Rightarrow> (int option \<times> stream_handle list \<times> int list \<times> nat list) option" where
  "set_room_streams mem ip0 i [] hs = Some (None, hs, [], [])"
| "set_room_streams mem ip0 i (pm # pms) hs = do {
     (r, hs, cl, st) \<leftarrow> set_room_stream (fst (mem i)) (snd (mem i)) ip0 i pm hs;
     let started = (if st then [i] else []);
     case r of
       Some rc \<Rightarrow> Some (Some rc, hs, cl, started)
     | None \<Rightarrow> do {
         (r', hs', cl', st') \<leftarrow> set_room_streams mem ip0 (Suc i) pms hs;
         Some (r', hs', cl @ cl', started @ st')
       }
   }"

text \<open>The return code, the room, the closed descriptors and the streams whose thread was started.\<close>

definition set_room_info ::
  "(nat \<Rightarrow> bool \<times> bool) \<Rightarrow> bool \<Rightarrow> recv_param list \<Rightarrow> recv_room_handle option
    \<Rightarrow> (int \<times> recv_room_handle option \<times> int list \<times> nat list) option" where
  "set_room_info mem mok params p =
     (case p of
        None \<Rightarrow> Some (OP_ERR, None, [], [])
      | Some r \<Rightarrow>
          if params = [] then Some (OP_ERR, p, [], [])
          else do {
            (rc, hs, cl, st) \<leftarrow> set_room_streams mem (pm_ipaddr (params ! 0)) 0 params (stream_hand r);
            case rc of
              Some c \<Rightarrow> Some (c, Some (r\<lparr>stream_hand := hs\<rparr>), cl, st)
            | None \<Rightarrow> do {
                (_, r') \<leftarrow> set_stream_audio_info mok (r\<lparr>stream_hand := hs\<rparr>);
                Some (OP_SUCC, Some r', cl, st)
              }
          })"

subsection \<open>Opening and closing a room\<close>

definition init_room_module :: "recv_room_handle \<Rightarrow> recv_room_handle option" where
  "init_room_module r =
     (if rr_stream_num r > int (length (stream_hand r)) then None
      else let n = nat (rr_stream_num r)
        in Some (r\<lparr>stream_hand := map (\<lambda>h. h\<lparr>audio_info := None, media_flag := MEDIA_STREAM_INVALID\<rparr>)
                                      (take n (stream_hand r)) @ drop n (stream_hand r)\<rparr>))"

text \<open>\<^verbatim>\<open>create_room_pthread\<close> stores the thread's id in the handle behind the last stream.\<close>

definition create_room_pthread :: "recv_room_handle \<Rightarrow> int option" where
  "create_room_pthread r =
     (if 0 \<le> rr_stream_num r \<and> rr_stream_num r < int (length (stream_hand r)) then Some OP_SUCC else None)"

text \<open>The outer option is undefined behaviour, the inner one the returned pointer.\<close>

definition register_room_receive_module :: "bool \<Rightarrow> int \<Rightarrow> recv_room_handle option option" where
  "register_room_receive_module mok n =
     (if n < 0 then Some None
      else let n = (if n > int MAX_STREAM then int MAX_STREAM else n)
        in if \<not> mok then Some None
           else do {
             let r = \<lparr>rr_stream_num = n, stream_hand = replicate MAX_STREAM stream_handle_zero\<rparr>;
             rc \<leftarrow> create_room_pthread r;
             r \<leftarrow> init_room_module r;
             Some (Some r)
           })"

definition close_room_connect :: "recv_room_handle option \<Rightarrow> (int \<times> recv_room_handle option \<times> int list) option" where
  "close_room_connect p =
     (case p of
        None \<Rightarrow> Some (OP_ERR, None, [])
      | Some r \<Rightarrow>
          if rr_stream_num r > int (length (stream_hand r)) then None
          else let n = nat (rr_stream_num r); hs = stream_hand r
            in Some (OP_SUCC, Some (r\<lparr>stream_hand := map (fst \<circ> close_stream_connect) (take n hs) @ drop n hs\<rparr>),
                     concat (map (snd \<circ> close_stream_connect) (take n hs))))"

text \<open>Only configured streams are opened: a port, the stream's own number and an address.\<close>

definition open_if_set :: "nat \<Rightarrow> stream_handle \<Rightarrow> stream_handle" where
  "open_if_set i h =
     (if sh_port h \<noteq> 0 \<and> of_nat (i + 1) = stream_id h \<and> ipaddr h ! 0 \<noteq> 0 then open_stream_connect h else h)"

definition open_room_connect :: "recv_room_handle option \<Rightarrow> (int \<times> recv_room_handle option) option" where
  "open_room_connect p =
     (case p of
        None \<Rightarrow> Some (OP_ERR, None)
      | Some r \<Rightarrow>
          if rr_stream_num r > int (length (stream_hand r)) then None
          else let n = nat (rr_stream_num r); hs = stream_hand r
            in Some (OP_SUCC, Some (r\<lparr>stream_hand := map (\<lambda>i. open_if_set i (hs ! i)) [0..<n] @ drop n hs\<rparr>)))"

text \<open>
  \<^verbatim>\<open>deinit_room_module\<close> before it frees the room: every stream is closed and stopped; the handle behind the
  last stream is written first.
\<close>

definition stop_stream :: "stream_handle \<Rightarrow> stream_handle" where
  "stop_stream h = (fst (close_stream_connect h))\<lparr>rec_status := 0, usb_rec_status := 0, live_status := 0,
     sh_pthread_status := 0\<rparr>"

definition deinit_room_module :: "recv_room_handle option \<Rightarrow> (int \<times> stream_handle list \<times> int list) option" where
  "deinit_room_module p =
     (case p of
        None \<Rightarrow> Some (OP_ERR, [], [])
      | Some r \<Rightarrow>
          if rr_stream_num r < 0 \<or> rr_stream_num r \<ge> int (length (stream_hand r)) then None
          else let n = nat (rr_stream_num r); hs = (stream_hand r)[n := (stream_hand r ! n)\<lparr>sh_pthread_status := 0\<rparr>]
            in Some (OP_SUCC, map stop_stream (take n hs) @ drop n hs,
                     concat (map (snd \<circ> close_stream_connect) (take n hs))))"

subsection \<open>Reading from an encoder\<close>

text \<open>
  \<^verbatim>\<open>recv_enc_tcp_data\<close> reads until \<open>buflen\<close> bytes are there.  A call of \<^verbatim>\<open>recv\<close> is answered by some bytes, or
  by no bytes and an \<^verbatim>\<open>errno\<close> (which the code also looks at when the peer has closed).  The answers are a
  list; a run that needs more answers than there are has no result.
\<close>

datatype tcp_answer = Bytes "byte list" | Closed int | Failed int

fun recv_enc_tcp_data :: "tcp_answer list \<Rightarrow> byte list \<Rightarrow> int \<Rightarrow> (int \<times> byte list \<times> tcp_answer list) option" where
  "recv_enc_tcp_data as got buflen =
     (if int (length got) < buflen then
        (case as of
           [] \<Rightarrow> None
         | Bytes bs # as' \<Rightarrow>
             (if bs = [] \<or> int (length got + length bs) > buflen then None
              else recv_enc_tcp_data as' (got @ bs) buflen)
         | Closed e # as' \<Rightarrow>
             (if e = 4 then recv_enc_tcp_data as' got buflen else Some (0, got, as'))
         | Failed e # as' \<Rightarrow>
             (if e = 4 then recv_enc_tcp_data as' got buflen else Some (-1, got, as')))
      else Some (int (length got), got, as))"

subsection \<open>The pool is never freed\<close>

lemma free_pool_loop_exit: "free_pool_loop n i hs = Some hs' \<Longrightarrow> \<not> int i < n"
  by (rule free_pool_loop.raw_induct [where P = "\<lambda>n i hs hs'. \<not> int i < n"]) (auto split: if_splits)

text \<open>
  \<^verbatim>\<open>free_recv_module_pool\<close>, which runs when an allocation is reported to have failed, does not return for a
  room with streams, because its loop does not advance; it returns at once for a room without streams.
\<close>

theorem free_pool_returns:
  "free_recv_module_pool r \<noteq> None \<longleftrightarrow> rr_stream_num r \<le> 0"
proof (cases "rr_stream_num r \<le> 0")
  case True
  then show ?thesis by (simp add: free_recv_module_pool_def free_pool_loop.simps)
next
  case False
  then have "free_pool_loop (rr_stream_num r) 0 (stream_hand r) = None"
    using free_pool_loop_exit [of "rr_stream_num r" 0 "stream_hand r"] by fastforce
  with False show ?thesis by (simp add: free_recv_module_pool_def)
qed

subsection \<open>The thread slot behind the last stream\<close>

text \<open>
  Registering a room with the 18 streams of \<^verbatim>\<open>MAX_STREAM\<close> (the number \<^verbatim>\<open>room_ctrl.c\<close> asks for), or more, writes
  behind the array of streams; every smaller number is fine.
\<close>

theorem register_overruns:
  "register_room_receive_module True n = None \<longleftrightarrow> int MAX_STREAM \<le> n"
  by (simp add: register_room_receive_module_def create_room_pthread_def init_room_module_def MAX_STREAM_def
      Let_def)

subsection \<open>Who is registered for the sound\<close>

definition movie_wanted :: "stream_handle \<Rightarrow> bool" where
  "movie_wanted h \<longleftrightarrow> media_flag h \<noteq> MEDIA_STREAM_INVALID \<and> rec_audio_falg h = RECODE_AUDIO_ON
     \<and> rec_mode h \<in> {RECODE_MODE_MOVIE, RECODE_MODE_ALL}"

definition res_wanted :: "stream_handle \<Rightarrow> bool" where
  "res_wanted h \<longleftrightarrow> media_flag h \<noteq> MEDIA_STREAM_INVALID \<and> rec_audio_falg h = RECODE_AUDIO_ON
     \<and> rec_mode h \<in> {RECODE_MODE_RES, RECODE_MODE_ALL}"

definition live_wanted :: "stream_handle \<Rightarrow> bool" where
  "live_wanted h \<longleftrightarrow> media_flag h \<noteq> MEDIA_STREAM_INVALID \<and> live_audio_falg h = RECODE_AUDIO_ON"

text \<open>The entries of a list in use.\<close>

definition registered :: "audio_tran_info \<Rightarrow> nat option list" where
  "registered t = take (nat (at_stream_num t)) (stream_handle_addr t)"

definition tran_ok :: "nat \<Rightarrow> audio_tran_info \<Rightarrow> bool" where
  "tran_ok k t \<longleftrightarrow> length (stream_handle_addr t) = MAX_STREAM \<and> 0 \<le> at_stream_num t
     \<and> nat (at_stream_num t) \<le> k"

lemma tran_append_ok:
  assumes "tran_ok k t" "k < MAX_STREAM"
  shows "\<exists>t'. tran_append i t = Some t' \<and> tran_ok (Suc k) t' \<and> registered t' = registered t @ [Some i]"
proof -
  obtain n where n: "at_stream_num t = int n" "n \<le> k"
    using assms(1) by (metis tran_ok_def nat_0_le)
  have l: "n < length (stream_handle_addr t)" using n assms by (simp add: tran_ok_def)
  then have "take (Suc n) ((stream_handle_addr t)[n := Some i]) = take n (stream_handle_addr t) @ [Some i]"
    by (simp add: take_Suc_conv_app_nth)
  then show ?thesis
    using n l assms(1) by (simp add: tran_append_def poke_nat tran_ok_def registered_def nat_add_distrib)
qed

lemma tran_ok_mono: "tran_ok k t \<Longrightarrow> tran_ok (Suc k) t"
  by (simp add: tran_ok_def)

definition indices :: "(stream_handle \<Rightarrow> bool) \<Rightarrow> nat \<Rightarrow> stream_handle list \<Rightarrow> nat option list" where
  "indices P i hs = map (\<lambda>(j, h). Some j) (filter (\<lambda>(j, h). P h) (zip [i..<i + length hs] hs))"

lemma indices_simps [simp]:
  "indices P i [] = []"
  "indices P i (h # hs) = (if P h then Some i # indices P (Suc i) hs else indices P (Suc i) hs)"
  by (simp_all add: indices_def upt_conv_Cons del: upt_Suc)

lemma collect_audio_ok:
  assumes "tran_ok i (audio_tran_movie_info a)" "tran_ok i (audio_tran_res_info a)"
    "tran_ok i (audio_tran_live_into a)" "i + length hs \<le> MAX_STREAM"
  shows "\<exists>a'. collect_audio i hs a = Some a'
    \<and> registered (audio_tran_movie_info a') = registered (audio_tran_movie_info a) @ indices movie_wanted i hs
    \<and> registered (audio_tran_res_info a') = registered (audio_tran_res_info a) @ indices res_wanted i hs
    \<and> registered (audio_tran_live_into a') = registered (audio_tran_live_into a) @ indices live_wanted i hs"
  using assms
proof (induction hs arbitrary: i a)
  case (Cons h hs)
  have i: "i < MAX_STREAM" "Suc i + length hs \<le> MAX_STREAM" using Cons.prems(4) by simp_all
  show ?case
  proof (cases "media_flag h = MEDIA_STREAM_INVALID")
    case True
    then show ?thesis
      using Cons.IH [of "Suc i" a] Cons.prems i by (simp add: tran_ok_mono movie_wanted_def res_wanted_def live_wanted_def)
  next
    case False
    have one: "\<exists>t'. (if c then tran_append i t else Some t) = Some t' \<and> tran_ok (Suc i) t'
        \<and> registered t' = registered t @ (if c then [Some i] else [])" if "tran_ok i t" for c t
      using tran_append_ok [OF that i(1)] tran_ok_mono [OF that] by simp
    obtain m r l where
      m: "(if movie_wanted h then tran_append i (audio_tran_movie_info a) else Some (audio_tran_movie_info a)) = Some m"
        "tran_ok (Suc i) m" "registered m = registered (audio_tran_movie_info a) @ (if movie_wanted h then [Some i] else [])" and
      r: "(if res_wanted h then tran_append i (audio_tran_res_info a) else Some (audio_tran_res_info a)) = Some r"
        "tran_ok (Suc i) r" "registered r = registered (audio_tran_res_info a) @ (if res_wanted h then [Some i] else [])" and
      l: "(if live_wanted h then tran_append i (audio_tran_live_into a) else Some (audio_tran_live_into a)) = Some l"
        "tran_ok (Suc i) l" "registered l = registered (audio_tran_live_into a) @ (if live_wanted h then [Some i] else [])"
      using one [OF Cons.prems(1)] one [OF Cons.prems(2)] one [OF Cons.prems(3)] by blast
    have w: "movie_wanted h \<longleftrightarrow> rec_audio_falg h = RECODE_AUDIO_ON \<and> (rec_mode h = RECODE_MODE_MOVIE \<or> rec_mode h = RECODE_MODE_ALL)"
      "res_wanted h \<longleftrightarrow> rec_audio_falg h = RECODE_AUDIO_ON \<and> (rec_mode h = RECODE_MODE_RES \<or> rec_mode h = RECODE_MODE_ALL)"
      "live_wanted h \<longleftrightarrow> live_audio_falg h = RECODE_AUDIO_ON"
      using False by (simp_all add: movie_wanted_def res_wanted_def live_wanted_def)
    let ?a = "\<lparr>audio_tran_movie_info = m, audio_tran_res_info = r, audio_tran_live_into = l\<rparr>"
    have "collect_audio i (h # hs) a = collect_audio (Suc i) hs ?a"
      using False m(1) r(1) l(1) unfolding w by simp
    then show ?thesis
      using Cons.IH [of "Suc i" ?a] m(2,3) r(2,3) l(2,3) i(2) by auto
  qed
qed simp

text \<open>
  In a room of 18 streams with a sound source, \<^verbatim>\<open>set_stream_audio_info\<close> hangs three lists on the first source:
  exactly the valid streams that record sound in movie mode, in resource mode and that broadcast sound, in
  order, and the lists do not overflow.
\<close>

theorem audio_lists_registered:
  assumes "length (stream_hand r) = MAX_STREAM" "find_audio_source 0 (stream_hand r) = Some s"
  shows "\<exists>r' a. set_stream_audio_info True r = Some (0, r') \<and> audio_info (stream_hand r' ! s) = Some a
    \<and> registered (audio_tran_movie_info a) = indices movie_wanted 0 (stream_hand r)
    \<and> registered (audio_tran_res_info a) = indices res_wanted 0 (stream_hand r)
    \<and> registered (audio_tran_live_into a) = indices live_wanted 0 (stream_hand r)"
proof -
  have z: "tran_ok 0 audio_tran_zero" "registered audio_tran_zero = []"
    by (simp_all add: tran_ok_def audio_tran_zero_def registered_def)
  obtain a where "collect_audio 0 (stream_hand r) media_audio_zero = Some a"
    "registered (audio_tran_movie_info a) = indices movie_wanted 0 (stream_hand r)"
    "registered (audio_tran_res_info a) = indices res_wanted 0 (stream_hand r)"
    "registered (audio_tran_live_into a) = indices live_wanted 0 (stream_hand r)"
    using collect_audio_ok [of 0 media_audio_zero "stream_hand r"] z assms(1) by (auto simp: media_audio_zero_def)
  moreover have "j < i + length hs" if "find_audio_source i hs = Some j" for i j hs
    using that by (induction i hs rule: find_audio_source.induct) (auto split: if_splits)
  from this [OF assms(2)] have "s < length (stream_hand r)" by simp
  ultimately show ?thesis using assms(2) by (simp add: set_stream_audio_info_def)
qed

text \<open>Stream 0 records in resource mode and is the source, stream 1 broadcasts.\<close>

definition sample_room :: recv_room_handle where
  "sample_room = \<lparr>rr_stream_num = 17, stream_hand =
     stream_handle_zero\<lparr>media_flag := 1, recv_audio_flag := 1, rec_audio_falg := 1, rec_mode := 2\<rparr>
     # stream_handle_zero\<lparr>media_flag := 1, live_audio_falg := 1\<rparr> # replicate 16 stream_handle_zero\<rparr>"

theorem audio_lists_registered_witness:
  "\<exists>r' a. set_stream_audio_info True sample_room = Some (0, r') \<and> audio_info (stream_hand r' ! 0) = Some a
    \<and> registered (audio_tran_movie_info a) = [] \<and> registered (audio_tran_res_info a) = [Some 0]
    \<and> registered (audio_tran_live_into a) = [Some 1]"
proof -
  have 1: "length (stream_hand sample_room) = MAX_STREAM" by (simp add: sample_room_def MAX_STREAM_def)
  have 2: "find_audio_source 0 (stream_hand sample_room) = Some 0"
    by (simp add: sample_room_def MEDIA_STREAM_INVALID_def RECODE_AUDIO_ON_def)
  have 3: "indices P i (replicate n h) = (if P h then map Some [i..<i + n] else [])" for P i n h
    by (induction n arbitrary: i) (auto simp: upt_conv_Cons)
  have "indices movie_wanted 0 (stream_hand sample_room) = []"
    "indices res_wanted 0 (stream_hand sample_room) = [Some 0]"
    "indices live_wanted 0 (stream_hand sample_room) = [Some 1]"
    by (simp_all add: sample_room_def 3 movie_wanted_def res_wanted_def live_wanted_def stream_handle_zero_def
        MEDIA_STREAM_INVALID_def RECODE_AUDIO_ON_def RECODE_MODE_MOVIE_def RECODE_MODE_RES_def RECODE_MODE_ALL_def)
  then show ?thesis using audio_lists_registered [OF 1 2] by simp
qed

subsection \<open>Messages arrive whole\<close>

declare recv_enc_tcp_data.simps [simp del]

text \<open>The bytes that a list of answers carries, and answers that bring nothing but may be retried.\<close>

definition answer_bytes :: "tcp_answer \<Rightarrow> byte list" where
  "answer_bytes a = (case a of Bytes bs \<Rightarrow> bs | _ \<Rightarrow> [])"

definition retried :: "tcp_answer \<Rightarrow> bool" where
  "retried a \<longleftrightarrow> (case a of Bytes bs \<Rightarrow> bs \<noteq> [] | Closed e \<Rightarrow> False | Failed e \<Rightarrow> e = 4)"

text \<open>
  A message whose bytes arrive in pieces of any size, with any number of interrupted calls in between, is read
  completely and in order, and nothing behind it is read.
\<close>

theorem tcp_message_read:
  assumes "list_all retried as" "concat (map answer_bytes as) = msg" "as = [] \<or> answer_bytes (last as) \<noteq> []"
  shows "recv_enc_tcp_data (as @ rest) [] (int (length msg)) = Some (int (length msg), msg, rest)"
proof -
  have "recv_enc_tcp_data (as @ rest) got (int (length got + length (concat (map answer_bytes as)))) =
      Some (int (length got + length (concat (map answer_bytes as))), got @ concat (map answer_bytes as), rest)" for got
    using assms(1,3)
  proof (induction as arbitrary: got)
    case (Cons a as)
    have pos: "concat (map answer_bytes (a # as)) \<noteq> []"
      using Cons.prems(2) by (metis concat_eq_Nil_conv image_eqI last_in_set list.distinct(1) list.set_map)
    then have "length (concat (map answer_bytes (a # as))) \<noteq> 0" unfolding length_0_conv .
    then have lt: "int (length got) < int (length got + length (concat (map answer_bytes (a # as))))" by linarith
    have l: "as = [] \<or> answer_bytes (last as) \<noteq> []" using Cons.prems(2) by (cases "as = []") simp_all
    show ?case
    proof (cases a)
      case (Bytes bs)
      then have "bs \<noteq> []" "answer_bytes a = bs" using Cons.prems(1) by (simp_all add: retried_def answer_bytes_def)
      then show ?thesis
        using Cons.IH [of "got @ bs"] Cons.prems(1) l lt Bytes
        by (subst recv_enc_tcp_data.simps) (simp add: add.assoc)
    next
      case (Failed e)
      then have "e = 4" "answer_bytes a = []" using Cons.prems(1) by (simp_all add: retried_def answer_bytes_def)
      then show ?thesis
        using Cons.IH [of got] Cons.prems(1) l lt Failed
        by (subst recv_enc_tcp_data.simps) simp
    qed (use Cons.prems in \<open>simp add: retried_def\<close>)
  qed (simp add: recv_enc_tcp_data.simps)
  from this [of "[]"] show ?thesis by (simp add: assms(2))
qed

theorem tcp_message_read_witness:
  "recv_enc_tcp_data [Bytes [1, 2], Failed 4, Bytes [3], Bytes [9]] [] 3 = Some (3, [1, 2, 3], [Bytes [9]])"
  using tcp_message_read [of "[Bytes [1, 2], Failed 4, Bytes [3]]" "[1, 2, 3]" "[Bytes [9]]"]
  by (simp add: retried_def answer_bytes_def)

text \<open>
  When the encoder closes the connection while \<^verbatim>\<open>errno\<close> still holds \<^verbatim>\<open>EINTR\<close> from an earlier call, the reader does
  not return, however often it tries.
\<close>

theorem tcp_close_spins:
  "int (length got) < n \<Longrightarrow> recv_enc_tcp_data (replicate k (Closed 4)) got n = None"
  by (induction k) (simp_all add: recv_enc_tcp_data.simps)

theorem tcp_close_spins_witness: "recv_enc_tcp_data (replicate 1000 (Closed 4)) [] 8 = None"
  by (rule tcp_close_spins) simp

end
