(* ===== verification/UdpSend.thy ===== *)
theory UdpSend
  imports RtpBuild
begin

section \<open>The sending module (src/reach\_edukit/src/reach\_share/reach\_udp\_snd.c)\<close>

text \<open>
  The module an encoder links to publish its stream: it owns a frame buffer, a socket and a build
  handle, turns the caller's millisecond ticks into the stream's own clock, fills the frame head from
  the caller's description and hands the frame to the packetiser of its codec.  Results of the
  operating system (\<^verbatim>\<open>malloc\<close>, \<^verbatim>\<open>socket\<close>, \<^verbatim>\<open>setsockopt\<close>) are arguments.
\<close>

record frame_info_t =
  time_tick :: u32
  fi_data_codec :: u32
  fi_width :: u32
  fi_hight :: u32
  fi_dw_flags :: u32
  fi_frame_length :: u32
  fi_frame_rate :: u32
  is_blue :: u32

record udp_send_module_handle =
  udp_hand :: send_udp_handle
  rtp_hand :: "US_RTP_BUILD_INFO option"

record stream_send_cond_t =
  sc_ip :: "byte list"
  sc_video_port :: u16
  sc_audio_port :: u16

definition RUdpS_MAKEFOURCC :: "byte \<Rightarrow> byte \<Rightarrow> byte \<Rightarrow> byte \<Rightarrow> u32" where
  "RUdpS_MAKEFOURCC a b c d =
     ucast a OR push_bit 8 (ucast b) OR push_bit 16 (ucast c) OR push_bit 24 (ucast d)"

definition RUdpS_H264_CODEC_TYPE :: u32 where
  "RUdpS_H264_CODEC_TYPE = RUdpS_MAKEFOURCC 0x48 0x32 0x36 0x34"
definition RUdpS_AAC_CODEC_TYPE :: u32 where
  "RUdpS_AAC_CODEC_TYPE = RUdpS_MAKEFOURCC 0x41 0x44 0x54 0x53"
definition RUdpS_JPEG_CODEC_TYPE :: u32 where
  "RUdpS_JPEG_CODEC_TYPE = RUdpS_MAKEFOURCC 0x4A 0x50 0x45 0x47"

definition MAX_VOD_MTU :: int where "MAX_VOD_MTU = 1400"
definition RUdpS_IP_LEN :: nat where "RUdpS_IP_LEN = 16"

subsection \<open>The stream clock\<close>

definition UdpSend_get_time_tick :: "send_udp_handle \<Rightarrow> u32 \<Rightarrow> u32 \<times> send_udp_handle" where
  "UdpSend_get_time_tick uh tick =
     (if base_video_time uh = 0 then
        (0, uh\<lparr>base_video_time := tick, prev_video_time := 0, prev_time_tick := tick\<rparr>)
      else
        (let v = tick - base_video_time uh;
             (v, uh) = (if v > 0xFFFFFFFF div 90 - 10000 then (0, uh\<lparr>base_video_time := tick\<rparr>) else (v, uh));
             v = (if v \<le> prev_video_time uh then v + 1 else v)
         in (v, uh\<lparr>prev_video_time := v, prev_time_tick := tick\<rparr>)))"

subsection \<open>The frame head\<close>

definition UdpSend_switch_audio_sample_rate :: "int \<Rightarrow> int" where
  "UdpSend_switch_audio_sample_rate rate =
     (if rate = 16000 then 0 else if rate = 32000 then 1 else if rate = 44100 then 2
      else if rate = 48000 then 3 else if rate = 96000 then 4 else 3)"

text \<open>
  \<open>fh0\<close> is what the caller's uninitialised \<^verbatim>\<open>US_FRAMEHEAD frame_head\<close> held; an unknown codec leaves it
  as it is.  Assignments to the bit fields keep the low four bits.
\<close>

definition UdpSend_set_hdb_freame_head :: "US_FRAMEHEAD \<Rightarrow> frame_info_t \<Rightarrow> US_FRAMEHEAD" where
  "UdpSend_set_hdb_freame_head fh0 fi =
     (let ifr = (if fi_dw_flags fi \<noteq> 0 then 1 else 0)
      in if RUdpS_H264_CODEC_TYPE = fi_data_codec fi then
           \<lparr>codec = 0, samplerate = ucast (is_blue fi) AND 0xF, framerate = ucast (fi_frame_rate fi),
            width = ucast (fi_width fi), height = ucast (fi_hight fi), Iframe = ifr, reserve = 0,
            framelength = fi_frame_length fi\<rparr>
         else if RUdpS_JPEG_CODEC_TYPE = fi_data_codec fi then
           \<lparr>codec = 2, samplerate = 0, framerate = ucast (fi_frame_rate fi),
            width = ucast (fi_width fi), height = ucast (fi_hight fi), Iframe = ifr, reserve = 0,
            framelength = fi_frame_length fi\<rparr>
         else if RUdpS_AAC_CODEC_TYPE = fi_data_codec fi then
           \<lparr>codec = 1,
            samplerate = word_of_int (UdpSend_switch_audio_sample_rate (sint (fi_hight fi))) AND 0xF,
            framerate = 0, width = 0, height = 0, Iframe = ifr, reserve = 0,
            framelength = fi_frame_length fi\<rparr>
         else fh0)"

subsection \<open>Sending a frame\<close>

text \<open>
  \<^verbatim>\<open>UdpSend_rtp_data\<close>: every codec other than H.264 and JPEG goes to the audio packetiser.  The frame is
  in \<^verbatim>\<open>udp_hand.src_data\<close>.
\<close>

definition UdpSend_rtp_data ::
  "sendto_oracle \<Rightarrow> US_FRAMEHEAD \<Rightarrow> udp_send_module_handle \<Rightarrow> frame_info_t \<Rightarrow> net
    \<Rightarrow> (int \<times> udp_send_module_handle \<times> net) option" where
  "UdpSend_rtp_data so fh0 p fi net = do {
     let mtu = MAX_VOD_MTU - 20;
     let (video_time, uh) = UdpSend_get_time_tick (udp_hand p) (time_tick fi);
     let fh = UdpSend_set_hdb_freame_head fh0 fi;
     let len = sint (fi_frame_length fi);
     (ret, rh, uh', net') \<leftarrow>
       (if RUdpS_H264_CODEC_TYPE = fi_data_codec fi then
          UdpSend_rtp_build_video_data so (rtp_hand p) len (src_data uh) mtu video_time (Some uh) fh net
        else if RUdpS_JPEG_CODEC_TYPE = fi_data_codec fi then
          UdpSend_rtp_build_jpeg_data so (rtp_hand p) len (src_data uh) mtu video_time (Some uh) fh net
        else
          UdpSend_rtp_build_audio_data so (rtp_hand p) len (src_data uh) (sint (fi_hight fi)) mtu
            video_time (Some uh) fh net);
     Some (OPERATION_SUCC, p\<lparr>rtp_hand := rh, udp_hand := the uh'\<rparr>, net')
   }"

subsection \<open>Opening and closing\<close>

text \<open>\<open>fd\<close> is what \<^verbatim>\<open>socket\<close> returned, \<open>sb\<close> what setting \<^verbatim>\<open>SO_SNDBUF\<close> returned.\<close>

definition UdpSend_create_sock :: "int \<Rightarrow> int \<Rightarrow> int" where
  "UdpSend_create_sock fd sb = (if sb < 0 then OPERATION_ERR else fd)"

text \<open>
  \<^verbatim>\<open>UdpSend_init\<close>: \<open>m1\<close>, \<open>m2\<close>: whether the allocations of the module and of the build handle
  succeed, \<open>mem\<close> the frame buffer.  The outer option is undefined behaviour, the inner one the
  returned pointer.
\<close>

definition UdpSend_init ::
  "bool \<Rightarrow> bool \<Rightarrow> byte list option \<Rightarrow> int \<Rightarrow> int \<Rightarrow> stream_send_cond_t
    \<Rightarrow> udp_send_module_handle option option" where
  "UdpSend_init m1 m2 mem fd sb src =
     (if length (sc_ip src) > RUdpS_IP_LEN then Some None
      else if \<not> m1 then Some None
      else case mem of
        None \<Rightarrow> Some None
      | Some b \<Rightarrow> do {
          ip \<leftarrow> strcpy_to (replicate RUdpS_IP_LEN 0) (sc_ip src);
          let uh = \<lparr>snd_ip = ip, snd_video_port = uint (sc_video_port src),
                    snd_audio_port = uint (sc_audio_port src), snd_fd = UdpSend_create_sock fd sb,
                    src_data = Some b, base_video_time = 0, prev_video_time = 0, prev_time_tick = 0,
                    snd_reserve = 0,
                    pack_seq = \<lparr>video_seq_num_loss = 0, audio_seq_num_loss = 0,
                                video_seq_num_total = 0, audio_seq_num_total = 0\<rparr>\<rparr>;
          Some (Some \<lparr>udp_hand = uh, rtp_hand = UdpSend_rtp_build_init m2 0 0\<rparr>)
        })"

text \<open>The descriptor that \<^verbatim>\<open>UdpSend_deinit\<close> closes, if any; a null handle is dereferenced.\<close>

definition UdpSend_deinit :: "udp_send_module_handle option \<Rightarrow> int option option" where
  "UdpSend_deinit p = do {
     h \<leftarrow> p;
     Some (if 0 < snd_fd (udp_hand h) then Some (snd_fd (udp_hand h)) else None)
   }"

subsection \<open>Properties of the clock\<close>

text \<open>The clock values of a sequence of frames.\<close>

fun tick_run :: "send_udp_handle \<Rightarrow> u32 list \<Rightarrow> u32 list" where
  "tick_run uh [] = []"
| "tick_run uh (t # ts) =
     (let (v, uh') = UdpSend_get_time_tick uh t in v # tick_run uh' ts)"

lemma unat_plus_1: "unat (x :: u32) < 2 ^ 31 \<Longrightarrow> unat (x + 1) = Suc (unat x)"
  by (subst unat_add_lem [THEN iffD1]) simp_all

lemma unat_times_90: "unat (x :: u32) \<le> 47711859 \<Longrightarrow> unat (x * 90) = unat x * 90"
  by (subst unat_mult_lem [THEN iffD1]) simp_all

lemma times_90_div: "unat (x :: u32) \<le> 47711859 \<Longrightarrow> x * 90 div 90 = x"
  by (simp add: word_unat_eq_iff unat_div_distrib unat_times_90)

lemma tick_bound: "unat (fst (UdpSend_get_time_tick uh t)) \<le> 47711859"
proof (cases "base_video_time uh = 0 \<or> t - base_video_time uh > 0xFFFFFFFF div 90 - 10000")
  case True
  then show ?thesis by (auto simp: UdpSend_get_time_tick_def)
next
  case False
  then have "unat (t - base_video_time uh) \<le> 47711858"
    by (simp add: word_le_nat_alt not_less)
  with False unat_plus_1 [of "t - base_video_time uh"] show ?thesis
    by (auto simp: UdpSend_get_time_tick_def Let_def)
qed

lemma rebase_time_le: "rebase_time torg now \<le> now"
  by (auto simp: rebase_time_def not_less)

text \<open>
  The RTP time stamp never wraps.  Whatever tick the caller passes and whatever the state of the
  handle, the stream clock multiplied by 90 as the packetiser does stays below \<open>2^32\<close>, so dividing a
  packet's time stamp by 90, as the receiver does, gives the elapsed stream time back.
\<close>

theorem udp_clock_roundtrip:
  "let now = fst (UdpSend_get_time_tick uh t); tick = now - rebase_time torg now
   in unat (tick * 90) = 90 * unat tick \<and> (tick * 90) div 90 = tick"
proof -
  define now where "now = fst (UdpSend_get_time_tick uh t)"
  have "unat (now - rebase_time torg now) \<le> 47711859"
    using tick_bound [of uh t] rebase_time_le [of torg now]
    by (simp add: now_def unat_sub)
  then show ?thesis
    unfolding now_def [symmetric] Let_def using unat_times_90 times_90_div by (metis mult.commute)
qed

text \<open>One step of the clock, once its base is set and until the elapsed time reaches its limit.\<close>

lemma tick_step:
  assumes "base_video_time uh \<noteq> 0" "base_video_time uh \<le> t"
    and "unat t - unat (base_video_time uh) \<le> 47711858"
    and "UdpSend_get_time_tick uh t = (v, uh')"
  defines "e \<equiv> unat t - unat (base_video_time uh)"
  shows "unat v = (if e \<le> unat (prev_video_time uh) then e + 1 else e)"
    and "base_video_time uh' = base_video_time uh" "prev_video_time uh' = v"
proof -
  have e: "unat (t - base_video_time uh) = e" using assms(2) by (simp add: unat_sub e_def)
  then have "\<not> t - base_video_time uh > 0xFFFFFFFF div 90 - 10000"
    using assms(3) by (simp add: word_less_nat_alt e_def)
  then show "unat v = (if e \<le> unat (prev_video_time uh) then e + 1 else e)"
    "base_video_time uh' = base_video_time uh" "prev_video_time uh' = v"
    using assms(1,3,4) e unat_plus_1 [of "t - base_video_time uh"]
    by (auto simp: UdpSend_get_time_tick_def Let_def word_le_nat_alt e_def split: if_splits)
qed

text \<open>One step past the limit: the base moves to this frame and the clock restarts at 1.\<close>

lemma tick_restart:
  assumes "base_video_time uh \<noteq> 0" "47711858 < unat t - unat (base_video_time uh)"
    and "UdpSend_get_time_tick uh t = (v, uh')"
  shows "unat v = 1" "base_video_time uh' = t" "prev_video_time uh' = v"
proof -
  have "unat (t - base_video_time uh) = unat t - unat (base_video_time uh)"
    using assms(2) by (simp add: unat_sub word_le_nat_alt)
  then have "t - base_video_time uh > 0xFFFFFFFF div 90 - 10000"
    using assms(2) by (simp add: word_less_nat_alt)
  then show "unat v = 1" "base_video_time uh' = t" "prev_video_time uh' = v"
    using assms(1,3) by (auto simp: UdpSend_get_time_tick_def Let_def)
qed

text \<open>
  The base of every frame, on natural numbers: a frame more than the limit behind the base becomes the
  new base itself.
\<close>

definition clock_limit :: nat where "clock_limit = (2 ^ 32 - 1) div 90 - 10000"

fun clock_bases :: "nat \<Rightarrow> nat list \<Rightarrow> nat list" where
  "clock_bases b [] = []"
| "clock_bases b (t # ts) =
     (let b' = (if clock_limit < t - b then t else b) in b' # clock_bases b' ts)"

text \<open>
  What one frame does to the clock: \<open>b\<close>, \<open>v\<close> are the base and the clock of the frame before, \<open>t\<close> its tick,
  \<open>b'\<close> and \<open>v'\<close> its own base and clock.
\<close>

definition clock_moves :: "nat \<Rightarrow> nat \<Rightarrow> nat \<Rightarrow> nat \<Rightarrow> nat \<Rightarrow> bool" where
  "clock_moves b v t b' v' \<longleftrightarrow>
     (if b' = b then v \<le> v' \<and> v' = (if t - b \<le> v then t - b + 1 else t - b)
      else b' = t \<and> clock_limit < t - b \<and> v' = 1)
     \<and> b' \<le> t \<and> t - b' \<le> v' \<and> v' \<le> t - b' + 1 \<and> v' * 90 < 2 ^ 32"

lemma clock_limit_eq: "clock_limit = 47711858"
  by (simp add: clock_limit_def)

lemma tick_run_moves:
  assumes "base_video_time uh \<noteq> 0" "sorted (map unat (s # ts))"
    and "unat (base_video_time uh) \<le> unat s"
    and "unat (prev_video_time uh) \<le> unat s - unat (base_video_time uh) + 1"
  defines "b \<equiv> unat (base_video_time uh)" and "v \<equiv> unat (prev_video_time uh)"
  defines "B \<equiv> clock_bases b (map unat ts)" and "V \<equiv> map unat (tick_run uh ts)"
  shows "length B = length ts \<and> length V = length ts
    \<and> (\<forall>i<length ts. clock_moves ((b # B) ! i) ((v # V) ! i) (unat (ts ! i)) (B ! i) (V ! i))"
  using assms(1-4) unfolding B_def V_def b_def v_def
proof (induction ts arbitrary: uh s)
  case (Cons t ts)
  obtain w uh' where r: "UdpSend_get_time_tick uh t = (w, uh')" by fastforce
  let ?b = "unat (base_video_time uh)" and ?v = "unat (prev_video_time uh)"
  let ?b' = "if clock_limit < unat t - ?b then unat t else ?b"
  have st: "unat s \<le> unat t" using Cons.prems(2) by simp
  have bt0: "base_video_time uh \<le> t" using st Cons.prems(3) by (simp add: word_le_nat_alt)
  have w: "unat (base_video_time uh') = ?b'" "prev_video_time uh' = w" "base_video_time uh' \<noteq> 0"
    "unat w = (if clock_limit < unat t - ?b then 1 else if unat t - ?b \<le> ?v then unat t - ?b + 1
               else unat t - ?b)"
    using tick_step [OF Cons.prems(1) bt0 _ r] tick_restart [OF Cons.prems(1) _ r] Cons.prems(1,3) st
    by (cases "clock_limit < unat t - ?b"; force simp: clock_limit_eq)+
  have v: "clock_moves ?b ?v (unat t) ?b' (unat w)"
    using w(4) Cons.prems(3,4) st by (auto simp: clock_moves_def clock_limit_eq split: if_splits)
  have bt: "?b' \<le> unat t" "unat w \<le> unat t - ?b' + 1" using v by (simp_all add: clock_moves_def)
  have ih: "length (clock_bases ?b' (map unat ts)) = length ts"
    "length (tick_run uh' ts) = length ts"
    "\<forall>i<length ts. clock_moves ((?b' # clock_bases ?b' (map unat ts)) ! i)
       ((unat w # map unat (tick_run uh' ts)) ! i) (unat (ts ! i))
       (clock_bases ?b' (map unat ts) ! i) (map unat (tick_run uh' ts) ! i)"
    using Cons.IH [OF w(3), of t, unfolded w(1,2)] Cons.prems(2) bt by auto
  show ?case
    using ih v by (simp add: r Let_def All_less_Suc2)
qed simp

text \<open>
  C7: the stream clock follows the caller's clock.  For a fresh handle and nondecreasing ticks that start
  at a nonzero value, over any span: the clock starts at 0; within a stretch of at most
  \<open>0xFFFFFFFF / 90 - 10000\<close> ms after a base frame it never runs backwards, is never behind the time since
  that base and at most 1 ms ahead of it, the 1 ms exactly when the plain difference would not lie behind
  the value before; the first frame past such a stretch becomes the next base and gets the value 1, so
  there, and only there, the clock jumps back.  The value times 90, the RTP time, always fits 32 bits.
\<close>

theorem udp_clock_tracks:
  assumes "base_video_time uh = 0" "t0 \<noteq> 0" "sorted (map unat (t0 # ts))"
  shows "let T = map unat (t0 # ts); V = map unat (tick_run uh (t0 # ts));
             B = clock_bases (unat t0) T
         in length V = length T \<and> length B = length T \<and> V ! 0 = 0 \<and> B ! 0 = unat t0
          \<and> (\<forall>i. Suc i < length T \<longrightarrow> clock_moves (B ! i) (V ! i) (T ! Suc i) (B ! Suc i) (V ! Suc i))"
proof -
  let ?uh = "uh\<lparr>base_video_time := t0, prev_video_time := 0, prev_time_tick := t0\<rparr>"
  have r: "tick_run uh (t0 # ts) = 0 # tick_run ?uh ts"
    using assms(1) by (simp add: UdpSend_get_time_tick_def)
  show ?thesis
    using tick_run_moves [of ?uh t0 ts] assms(2,3) unfolding r
    by (auto simp: Let_def)
qed

definition sample_handle :: send_udp_handle where
  "sample_handle = \<lparr>snd_ip = replicate RUdpS_IP_LEN 0, snd_video_port = 5000, snd_audio_port = 5002,
     snd_fd = 3, src_data = None, base_video_time = 0, prev_video_time = 0, prev_time_tick = 0,
     snd_reserve = 0, pack_seq = \<lparr>video_seq_num_loss = 0, audio_seq_num_loss = 0,
       video_seq_num_total = 0, audio_seq_num_total = 0\<rparr>\<rparr>"

theorem udp_clock_tracks_witness:
  "let V = tick_run sample_handle [1000, 1000, 1040, 1041, 50000000, 50000000, 50000040]
   in V = [0, 1, 40, 41, 1, 1, 40]
    \<and> clock_moves 1000 41 50000000 50000000 (unat (V ! 4))"
proof -
  have V: "tick_run sample_handle [1000, 1000, 1040, 1041, 50000000, 50000000, 50000040]
      = [0, 1, 40, 41, 1, 1, 40]"
    by (simp add: sample_handle_def UdpSend_get_time_tick_def word_le_nat_alt word_less_nat_alt)
  have "\<forall>i. Suc i < 7 \<longrightarrow> clock_moves ([1000, 1000, 1000, 1000, 50000000, 50000000, 50000000] ! i)
      ([0, 1, 40, 41, 1, 1, 40] ! i) ([1000, 1000, 1040, 1041, 50000000, 50000000, 50000040] ! Suc i)
      ([1000, 1000, 1000, 1000, 50000000, 50000000, 50000000] ! Suc i) ([0, 1, 40, 41, 1, 1, 40] ! Suc i)"
    using udp_clock_tracks [of sample_handle 1000 "[1000, 1040, 1041, 50000000, 50000000, 50000040]"]
    unfolding V by (simp add: sample_handle_def clock_limit_def)
  from spec [OF this, of 3] show ?thesis unfolding V Let_def by simp
qed

end
