(* ===== verification/MediaFrame.thy ===== *)
theory MediaFrame
  imports Room UdpSend
begin

section \<open>Frames of a room and their consumers (src/reach\_edukit/src/room/receive/media\_frame.c)\<close>

text \<open>
  A complete frame reaches this module from the receiving thread (\<^verbatim>\<open>recv_deal_udp_recv_data\<close>, the user function
  of \<^theory_text>\<open>UdpRecv\<close>) or packet by packet over TCP (\<^verbatim>\<open>send_media_frame_data\<close>).  It is copied for every consumer
  that is switched on: the recorder, the movie recorder and the live module, each behind a System V message
  queue that carries pointers; the receiver of a message frees it.  Sound goes to the streams that
  \<^verbatim>\<open>set_stream_audio_info\<close> registered.

  The state \<open>hub\<close> holds the stream handles, the addresses of the heap blocks that are alive, the messages in the
  order they were queued and, beside each, the addresses of its two blocks; an environment answers \<^verbatim>\<open>malloc\<close> and \<^verbatim>\<open>msgsnd\<close>.  \<^const>\<open>None\<close> is undefined behaviour.
\<close>

type_synonym hdb_freame_head_t = udp_recv_freame_head_t

record parse_data_t =
  pd_index :: u32
  pd_data_len :: u32
  pd_data :: "byte list"
  pd_flags :: u32
  pd_sindex :: u32
  pd_audio_sindex :: u32
  pd_data_type :: u32
  pd_height :: u32
  pd_width :: u32
  pd_sample_rate :: u32
  pd_time_tick :: int
  pd_end_flag :: u32
  pd_blue_flag :: u32
  pd_code_rate :: u32

record hub =
  hands :: "stream_handle list"
  heap :: "nat list"
  steps :: nat
  queued :: "(int \<times> u32 \<times> parse_data_t) list"
  ptrs :: "(nat \<times> nat) list"

text \<open>
  \<open>e_data n\<close> and \<open>e_head n\<close>: whether the \<open>n\<close>-th call gets a block, and what a new \<^verbatim>\<open>parse_data_t\<close> holds;
  \<open>e_msgsnd n\<close>: whether the queue takes the message; \<open>e_noret\<close>: what a function that ends without a
  \<^verbatim>\<open>return\<close> yields.
\<close>

record hub_env =
  e_data :: "nat \<Rightarrow> bool"
  e_head :: "nat \<Rightarrow> parse_data_t option"
  e_msgsnd :: "nat \<Rightarrow> bool"
  e_noret :: int

definition R_VIDEO :: u32 where "R_VIDEO = 0"
definition R_AUDIO :: u32 where "R_AUDIO = 1"
definition R_JPEG :: u32 where "R_JPEG = 2"
definition RECEIVE_MALLOC_ERR :: int where "RECEIVE_MALLOC_ERR = -22"
definition RECORD_BIT :: nat where "RECORD_BIT = 0"
definition LIVE_BIT :: nat where "LIVE_BIT = 1"
definition RECV_VIDEO_I_FRAME_DATA :: nat where "RECV_VIDEO_I_FRAME_DATA = 5"
definition EXAMIN_TIME :: u32 where "EXAMIN_TIME = 800"
definition I_FRAME :: u32 where "I_FRAME = 0x10"
definition FH_LEN :: int where "FH_LEN = 48"

definition IS_FLAG_BIT_TRUE :: "u32 \<Rightarrow> nat \<Rightarrow> u32" where
  "IS_FLAG_BIT_TRUE flag b = drop_bit b (push_bit b 1 AND flag)"
definition SET_FLAG_BIT_TRUE :: "u32 \<Rightarrow> nat \<Rightarrow> u32" where
  "SET_FLAG_BIT_TRUE flag b = flag OR push_bit b 1"
definition SET_FLAG_BIT_FALSE :: "u32 \<Rightarrow> nat \<Rightarrow> u32" where
  "SET_FLAG_BIT_FALSE flag b = flag AND NOT (push_bit b 1)"

subsection \<open>Clocks and frame assembly\<close>

definition getIntervalTime :: "u32 \<Rightarrow> u32 \<Rightarrow> u32" where
  "getIntervalTime prev_time cur_time =
     (let c = (if prev_time > cur_time then prev_time - cur_time else cur_time - prev_time)
      in if c = 0 then c + 1 else c)"

definition getJpgIntervalTime :: "u32 \<Rightarrow> u32 \<Rightarrow> u32" where
  "getJpgIntervalTime prev_time cur_time =
     (let c = (if prev_time > cur_time then prev_time - cur_time else cur_time - prev_time)
      in if c = 0 then c + 1 else c)"

text \<open>
  \<open>av\<close> is \<^verbatim>\<open>av_connect_flag\<close>, which the code means to clear with a comparison (\<^verbatim>\<open>== 0\<close>), so it keeps its value.
  A backward tick counts as a jump whatever the flag says.
\<close>

definition room_video_time :: "hdb_freame_head_t \<Rightarrow> u32 \<Rightarrow> byte \<Rightarrow> recv_time \<Rightarrow> recv_time" where
  "room_video_time fh now av t =
     (let tick = m_time_tick fh;
          t = (if rt_init_video_flag t = 0
               then t\<lparr>rt_video_init_time := tick, rt_init_video_flag := 1, rt_video_cal_time := 0,
                      rt_prev_video_time_tick := tick\<rparr>
               else t);
          cal = (if tick > rt_video_init_time t then tick - rt_video_init_time t
                 else rt_video_init_time t - tick);
          t = (if m_data_codec fh = UdpRecv_H264_CODEC_TYPE then
                 (if tick < rt_prev_video_time_tick t \<or>
                     (tick > rt_prev_video_time_tick t \<and> tick - rt_prev_video_time_tick t > EXAMIN_TIME) \<and> av = 0
                  then (let tv = rt_time_video_tick t + getIntervalTime (rt_prev_video_time t) now
                        in t\<lparr>rt_time_video_tick := tv, rt_video_init_time := tick, rt_video_cal_time := tv\<rparr>)
                  else t\<lparr>rt_time_video_tick := cal + rt_video_cal_time t\<rparr>)
               else t);
          t = (if m_data_codec fh = UdpRecv_JPEG_CODEC_TYPE then
                 (if tick < rt_prev_video_time_tick t
                  then (let tv = rt_time_video_tick t + getJpgIntervalTime (rt_prev_video_time t) now
                        in t\<lparr>rt_time_video_tick := tv, rt_video_init_time := tick, rt_video_cal_time := tv\<rparr>)
                  else t\<lparr>rt_time_video_tick := cal + rt_video_cal_time t\<rparr>)
               else t)
      in t\<lparr>rt_prev_video_time_tick := tick, rt_prev_video_time := now\<rparr>)"

definition room_audio_time :: "hdb_freame_head_t \<Rightarrow> u32 \<Rightarrow> byte \<Rightarrow> recv_time \<Rightarrow> recv_time" where
  "room_audio_time fh now av t =
     (let tick = m_time_tick fh;
          t = (if rt_init_audio_flag t = 0
               then t\<lparr>rt_audio_init_time := tick, rt_init_audio_flag := 1, rt_audio_cal_time := 0,
                      rt_prev_audio_time_tick := tick\<rparr>
               else t);
          cal = (if tick > rt_audio_init_time t then tick - rt_audio_init_time t
                 else rt_audio_init_time t - tick);
          t = (if tick < rt_prev_audio_time_tick t \<or>
                  (tick > rt_prev_audio_time_tick t \<and> tick - rt_prev_audio_time_tick t > EXAMIN_TIME) \<and> av = 0
               then (let ta = rt_time_audio_tick t + getIntervalTime (rt_prev_audio_time t) now
                     in t\<lparr>rt_time_audio_tick := ta, rt_audio_init_time := tick, rt_audio_cal_time := ta\<rparr>)
               else t\<lparr>rt_time_audio_tick := cal + rt_audio_cal_time t\<rparr>)
      in t\<lparr>rt_prev_audio_time_tick := tick, rt_prev_audio_time := now\<rparr>)"

text \<open>
  The switch differs from the one of the receiving module in its first case only: a start packet is measured
  against the offset the previous frame left behind.
\<close>

definition room_place_segment ::
  "nat \<Rightarrow> hdb_freame_head_t \<Rightarrow> byte list \<Rightarrow> int \<Rightarrow> byte list \<Rightarrow> u32 \<Rightarrow> (int \<times> byte list \<times> u32) option" where
  "room_place_segment max_len fh area part buf off =
     (if m_dw_segment fh = UdpRecv_START_FRAME then
        (if unat (m_frame_length fh) > max_len then Some (UdpRecv_OPERATION_ERR, buf, off)
         else if off + word_of_int part > m_frame_length fh then Some (UdpRecv_OPERATION_ERR, buf, 0)
         else do {
           buf' \<leftarrow> memcpy buf 0 area 0 part;
           Some (UdpRecv_OPERATION_SUCC, buf', 0 + word_of_int part)
         })
      else if m_dw_segment fh = UdpRecv_MIDDLE_FRAME then
        (if off + word_of_int part > m_frame_length fh then Some (UdpRecv_OPERATION_SUCC, buf, 0)
         else do {
           buf' \<leftarrow> memcpy buf (uint off) area 0 part;
           Some (UdpRecv_OPERATION_SUCC, buf', off + word_of_int part)
         })
      else if m_dw_segment fh = UdpRecv_LAST_FRAME then
        (if off + word_of_int part > m_frame_length fh then Some (UdpRecv_OPERATION_SUCC, buf, 0)
         else do {
           buf' \<leftarrow> memcpy buf (uint off) area 0 part;
           Some (UdpRecv_OPERATION_CONTINUE, buf', 0)
         })
      else if m_dw_segment fh = UdpRecv_INDEPENDENT_FRAME then do {
        buf' \<leftarrow> memcpy buf 0 area 0 (uint (m_frame_length fh));
        Some (UdpRecv_OPERATION_CONTINUE, buf', off)
      }
      else Some (UdpRecv_OPERATION_SUCC, buf, off))"

definition room_pkg_placed_in_frame ::
  "hdb_freame_head_t \<Rightarrow> byte list \<Rightarrow> int \<Rightarrow> u32 \<Rightarrow> stream_handle \<Rightarrow> (int \<times> stream_handle) option" where
  "room_pkg_placed_in_frame fh area part now h = do {
     buf \<leftarrow> frame_data h;
     (r, buf', off) \<leftarrow> room_place_segment MAX_FRAME_LEN fh area part buf (sh_offset h);
     Some (r, h\<lparr>recv_time_t := room_video_time fh now (av_connect_flag h) (recv_time_t h),
                frame_data := Some buf', sh_offset := off\<rparr>)
   }"

definition room_pkg_placed_in_frame_audio ::
  "hdb_freame_head_t \<Rightarrow> byte list \<Rightarrow> int \<Rightarrow> u32 \<Rightarrow> stream_handle \<Rightarrow> (int \<times> stream_handle) option" where
  "room_pkg_placed_in_frame_audio fh area part now h = do {
     buf \<leftarrow> sh_audio_data h;
     (r, buf', off) \<leftarrow> room_place_segment MAX_AUDIO_LEN fh area part buf (sh_audio_offset h);
     Some (r, h\<lparr>recv_time_t := room_audio_time fh now (av_connect_flag h) (recv_time_t h),
                sh_audio_data := Some buf', sh_audio_offset := off\<rparr>)
   }"

subsection \<open>Messages\<close>

definition set_hand :: "nat \<Rightarrow> (stream_handle \<Rightarrow> stream_handle) \<Rightarrow> hub \<Rightarrow> hub" where
  "set_hand i f s = s\<lparr>hands := (hands s)[i := f (hands s ! i)]\<rparr>"

text \<open>What \<^verbatim>\<open>memset\<close> leaves of a message.\<close>

definition parse_zero :: parse_data_t where
  "parse_zero = \<lparr>pd_index = 0, pd_data_len = 0, pd_data = [], pd_flags = 0, pd_sindex = 0,
     pd_audio_sindex = 0, pd_data_type = 0, pd_height = 0, pd_width = 0, pd_sample_rate = 0,
     pd_time_tick = 0, pd_end_flag = 0, pd_blue_flag = 0, pd_code_rate = 0\<rparr>"

text \<open>
  \<^verbatim>\<open>r_malloc\<close> gives an address that no living block has; \<^verbatim>\<open>r_free\<close> of an address that is not alive (a second
  free) is undefined.
\<close>

definition take_block :: "hub \<Rightarrow> nat \<times> hub" where
  "take_block s = (let b = Suc (fold max (heap s) 0) in (b, s\<lparr>heap := b # heap s\<rparr>))"

definition give_block :: "nat \<Rightarrow> hub \<Rightarrow> hub option" where
  "give_block b s = (if b \<in> set (heap s) then Some (s\<lparr>heap := remove1 b (heap s)\<rparr>) else None)"

text \<open>
  The two allocations every message starts with: the data block, then the head.  When there is no head the
  data block is freed on the recording paths (\<open>leak = 0\<close>), and forgotten on the live paths (\<open>leak = 1\<close>).  The
  result is what the head held, the address of the data and the address of the head.
\<close>

definition alloc_message :: "hub_env \<Rightarrow> int \<Rightarrow> hub \<Rightarrow> ((parse_data_t \<times> nat \<times> nat) option \<times> hub) option" where
  "alloc_message e leak s =
     (let n = steps s; s = s\<lparr>steps := n + 1\<rparr> in
      if \<not> e_data e n then Some (None, s)
      else case take_block s of (d, s) \<Rightarrow>
        (case e_head e n of
           None \<Rightarrow> do { s \<leftarrow> (if leak = 0 then give_block d s else Some s); Some (None, s) }
         | Some old \<Rightarrow> (case take_block s of (b, s) \<Rightarrow> Some (Some (old, d, b), s))))"

text \<open>
  \<^verbatim>\<open>r_msg_send\<close> and the clean-up after a refusal: a message of type -1 is not handed to \<^verbatim>\<open>msgsnd\<close>, and
  a message that was not taken is freed, first its data \<open>d\<close>, then its head \<open>b\<close>.
\<close>

definition post_message ::
  "hub_env \<Rightarrow> int \<Rightarrow> u32 \<Rightarrow> parse_data_t \<Rightarrow> nat \<Rightarrow> nat \<Rightarrow> hub \<Rightarrow> (bool \<times> hub) option" where
  "post_message e q ty pd d b s =
     (let n = steps s; s = s\<lparr>steps := n + 1\<rparr> in
      if sint ty = -1 \<or> \<not> e_msgsnd e n then do {
        s \<leftarrow> give_block d s;
        s \<leftarrow> give_block b s;
        Some (False, s)
      }
      else Some (True, s\<lparr>queued := queued s @ [(q, ty, pd)], ptrs := ptrs s @ [(d, b)]\<rparr>))"

definition is_blue_flag :: "hdb_freame_head_t \<Rightarrow> u32" where
  "is_blue_flag fh = (if m_others fh = 0 then 1 else 0)"

text \<open>
  The fields of a picture's message; the data block holds as many bytes of the frame buffer as the head
  says, and zeros for a codec that is no picture.
\<close>

definition media_message :: "hdb_freame_head_t \<Rightarrow> stream_handle \<Rightarrow> parse_data_t option" where
  "media_message fh h = do {
     let z = replicate (unat (m_frame_length fh)) 0;
     (b, ty, rate, tick) \<leftarrow>
       (if m_data_codec fh = UdpRecv_H264_CODEC_TYPE then do {
          src \<leftarrow> frame_data h;
          b \<leftarrow> memcpy z 0 src 0 (uint (m_frame_length fh));
          Some (b, R_VIDEO, m_frame_rate fh, uint (rt_time_video_tick (recv_time_t h)))
        }
        else if m_data_codec fh = UdpRecv_JPEG_CODEC_TYPE then do {
          src \<leftarrow> frame_data h;
          b \<leftarrow> memcpy z 0 src 0 (uint (m_frame_length fh));
          Some (b, R_JPEG, 0, uint (rt_time_video_tick (recv_time_t h)))
        }
        else Some (z, 0, 0, 0));
     Some (parse_zero\<lparr>pd_data_type := ty, pd_sample_rate := rate, pd_time_tick := tick,
       pd_data_len := m_frame_length fh, pd_data := b, pd_flags := m_dw_flags fh,
       pd_sindex := stream_id h - 1, pd_index := 0, pd_audio_sindex := stream_id h - 1,
       pd_height := m_hight fh, pd_width := m_width fh, pd_blue_flag := is_blue_flag fh\<rparr>)
   }"

text \<open>
  The fields of a sound message for the stream \<open>t\<close>, written over the block \<open>old\<close>.
\<close>

definition audio_message ::
  "parse_data_t \<Rightarrow> u32 \<Rightarrow> hdb_freame_head_t \<Rightarrow> stream_handle \<Rightarrow> stream_handle \<Rightarrow> parse_data_t option" where
  "audio_message old rate fh h t = do {
     src \<leftarrow> sh_audio_data h;
     b \<leftarrow> memcpy (replicate (unat (m_frame_length fh)) 0) 0 src 0 (uint (m_frame_length fh));
     Some (old\<lparr>pd_data_type := R_AUDIO, pd_code_rate := m_colors fh, pd_sample_rate := rate,
       pd_time_tick := uint (rt_time_audio_tick (recv_time_t h)), pd_data_len := m_frame_length fh,
       pd_data := b, pd_flags := m_dw_flags fh, pd_sindex := stream_id t, pd_index := 0,
       pd_audio_sindex := stream_id h - 1, pd_height := m_hight fh, pd_width := m_width fh,
       pd_blue_flag := is_blue_flag fh\<rparr>)
   }"

definition set_to_rec :: "byte \<Rightarrow> stream_handle \<Rightarrow> stream_handle" where
  "set_to_rec v h = h\<lparr>recv_pri := (recv_pri h)\<lparr>rp_to_rec := v\<rparr>\<rparr>"

definition set_to_live :: "byte \<Rightarrow> stream_handle \<Rightarrow> stream_handle" where
  "set_to_live v h = h\<lparr>recv_pri := (recv_pri h)\<lparr>rp_to_live := v\<rparr>\<rparr>"

definition raise_log_flag :: "nat \<Rightarrow> stream_handle \<Rightarrow> stream_handle" where
  "raise_log_flag b h =
     (if IS_FLAG_BIT_TRUE (log_flag h) b = 0 then h\<lparr>log_flag := SET_FLAG_BIT_TRUE (log_flag h) b\<rparr> else h)"

definition clear_log_flag :: "nat \<Rightarrow> stream_handle \<Rightarrow> stream_handle" where
  "clear_log_flag b h = h\<lparr>log_flag := SET_FLAG_BIT_FALSE (log_flag h) b\<rparr>"

subsection \<open>Recording\<close>

definition send_msg_to_rec_media_res :: "hub_env \<Rightarrow> hdb_freame_head_t \<Rightarrow> nat \<Rightarrow> hub \<Rightarrow> (int \<times> hub) option" where
  "send_msg_to_rec_media_res e fh i s =
     do {
       (m, s) \<leftarrow> alloc_message e 0 s;
       case m of
         None \<Rightarrow> Some (RECEIVE_MALLOC_ERR, s)
       | Some (_, d, b) \<Rightarrow> do {
           pd \<leftarrow> media_message fh (hands s ! i);
           let s = set_hand i (set_to_rec 1) s;
           (ok, s) \<leftarrow> post_message e (msg_recv_to_rec (hands s ! i)) (stream_id (hands s ! i)) pd d b s;
           if ok then Some (OP_SUCC, set_hand i (clear_log_flag RECORD_BIT) s)
           else Some (OP_SUCC, set_hand i (set_to_rec 0) (set_hand i (raise_log_flag RECORD_BIT) s))
         }
     }"

definition send_msg_to_rec_media_movie :: "hub_env \<Rightarrow> hdb_freame_head_t \<Rightarrow> nat \<Rightarrow> hub \<Rightarrow> (int \<times> hub) option" where
  "send_msg_to_rec_media_movie e fh i s =
     do {
       (m, s) \<leftarrow> alloc_message e 0 s;
       case m of
         None \<Rightarrow> Some (RECEIVE_MALLOC_ERR, s)
       | Some (_, d, b) \<Rightarrow> do {
           pd \<leftarrow> media_message fh (hands s ! i);
           let s = set_hand i (set_to_rec 1) s;
           (ok, s) \<leftarrow> post_message e (msg_recv_to_usb_rec (hands s ! i)) (stream_id (hands s ! i)) pd d b s;
           if ok then Some (OP_SUCC, set_hand i (clear_log_flag RECORD_BIT) s)
           else Some (OP_SUCC, set_hand i (set_to_rec 0) (set_hand i (raise_log_flag RECORD_BIT) s))
         }
     }"

text \<open>
  The loops over the registered streams: \<open>n\<close> entries of \<open>addr\<close> from \<open>index\<close> on.  \<open>Inl r\<close> is a return from
  inside the loop.  Reading behind the array or through a null entry is undefined.
\<close>

fun rec_audio_res_loop ::
  "hub_env \<Rightarrow> hdb_freame_head_t \<Rightarrow> nat \<Rightarrow> nat option list \<Rightarrow> nat \<Rightarrow> int \<Rightarrow> hub \<Rightarrow> ((int + unit) \<times> hub) option" where
  "rec_audio_res_loop e fh i addr 0 index s = Some (Inr (), s)"
| "rec_audio_res_loop e fh i addr (Suc n) index s = do {
     p \<leftarrow> peek addr index;
     t \<leftarrow> p;
     if t \<ge> length (hands s) then None
     else if uint CONNECT \<noteq> get_rec_status (Some (hands s ! t))
     then rec_audio_res_loop e fh i addr n (index + 1) s
     else do {
       (m, s) \<leftarrow> alloc_message e 0 s;
       case m of
         None \<Rightarrow> Some (Inl RECEIVE_MALLOC_ERR, s)
       | Some (old, d, b) \<Rightarrow> do {
           pd \<leftarrow> audio_message old (m_hight fh) fh (hands s ! i) (hands s ! t);
           let s = set_hand i (set_to_rec 1) s;
           (ok, s) \<leftarrow> post_message e (msg_recv_to_rec (hands s ! t)) (stream_id (hands s ! t)) pd d b s;
           if ok then rec_audio_res_loop e fh i addr n (index + 1) s
           else Some (Inl OP_SUCC, set_hand i (set_to_rec 0) (set_hand i (raise_log_flag RECORD_BIT) s))
         }
     }
   }"

definition send_msg_to_rec_audio_res :: "hub_env \<Rightarrow> hdb_freame_head_t \<Rightarrow> nat \<Rightarrow> hub \<Rightarrow> (int \<times> hub) option" where
  "send_msg_to_rec_audio_res e fh i s =
     (case audio_info (hands s ! i) of
        None \<Rightarrow> Some (RECEIVE_MALLOC_ERR, s)
      | Some a \<Rightarrow>
          let t = audio_tran_res_info a in
          if at_stream_num t = 0 then Some (OP_SUCC, s)
          else do {
            (r, s) \<leftarrow> rec_audio_res_loop e fh i (stream_handle_addr t) (nat (at_stream_num t)) 0 s;
            case r of Inl c \<Rightarrow> Some (c, s)
                    | Inr _ \<Rightarrow> Some (e_noret e, set_hand i (clear_log_flag RECORD_BIT) s)
          })"


fun rec_audio_movie_loop ::
  "hub_env \<Rightarrow> hdb_freame_head_t \<Rightarrow> nat \<Rightarrow> nat option list \<Rightarrow> nat \<Rightarrow> int \<Rightarrow> hub \<Rightarrow> ((int + unit) \<times> hub) option" where
  "rec_audio_movie_loop e fh i addr 0 index s = Some (Inr (), s)"
| "rec_audio_movie_loop e fh i addr (Suc n) index s = do {
     p \<leftarrow> peek addr index;
     t \<leftarrow> p;
     if t \<ge> length (hands s) then None
     else if uint CONNECT \<noteq> get_usb_rec_status (Some (hands s ! t))
     then rec_audio_movie_loop e fh i addr n (index + 1) s
     else do {
       (m, s) \<leftarrow> alloc_message e 0 s;
       case m of
         None \<Rightarrow> Some (Inl RECEIVE_MALLOC_ERR, s)
       | Some (old, d, b) \<Rightarrow> do {
           pd \<leftarrow> audio_message old (m_hight fh) fh (hands s ! i) (hands s ! t);
           let s = set_hand i (set_to_rec 1) s;
           (ok, s) \<leftarrow> post_message e (msg_recv_to_usb_rec (hands s ! t)) (stream_id (hands s ! t)) pd d b s;
           if ok then rec_audio_movie_loop e fh i addr n (index + 1) s
           else Some (Inl OP_SUCC, set_hand i (set_to_rec 0) (set_hand i (raise_log_flag RECORD_BIT) s))
         }
     }
   }"

definition send_msg_to_rec_audio_movie :: "hub_env \<Rightarrow> hdb_freame_head_t \<Rightarrow> nat \<Rightarrow> hub \<Rightarrow> (int \<times> hub) option" where
  "send_msg_to_rec_audio_movie e fh i s =
     (case audio_info (hands s ! i) of
        None \<Rightarrow> Some (RECEIVE_MALLOC_ERR, s)
      | Some a \<Rightarrow>
          let t = audio_tran_movie_info a in
          if at_stream_num t = 0 then Some (OP_SUCC, s)
          else do {
            (r, s) \<leftarrow> rec_audio_movie_loop e fh i (stream_handle_addr t) (nat (at_stream_num t)) 0 s;
            case r of Inl c \<Rightarrow> Some (c, s)
                    | Inr _ \<Rightarrow> Some (e_noret e, set_hand i (clear_log_flag RECORD_BIT) s)
          })"

definition send_msg_to_rec_res :: "hub_env \<Rightarrow> hdb_freame_head_t \<Rightarrow> nat \<Rightarrow> hub \<Rightarrow> (int \<times> hub) option" where
  "send_msg_to_rec_res e fh i s = do {
     let h = hands s ! i;
     (_, s) \<leftarrow>
       (if m_data_codec fh = UdpRecv_H264_CODEC_TYPE \<or> m_data_codec fh = UdpRecv_JPEG_CODEC_TYPE then
          (if uint CONNECT = get_rec_status (Some h) \<and> (rec_mode h = RECODE_MODE_RES \<or> rec_mode h = RECODE_MODE_ALL)
           then send_msg_to_rec_media_res e fh i s else Some (OP_SUCC, s))
        else if m_data_codec fh = UdpRecv_AAC_CODEC_TYPE then
          (if uint CONNECT = get_rec_status (Some h) \<or> uint CONNECT = get_usb_rec_status (Some h)
           then send_msg_to_rec_audio_res e fh i s else Some (OP_SUCC, s))
        else Some (OP_SUCC, s));
     Some (OP_SUCC, set_hand i (clear_log_flag RECORD_BIT) s)
   }"

definition send_msg_to_rec_movie :: "hub_env \<Rightarrow> hdb_freame_head_t \<Rightarrow> nat \<Rightarrow> hub \<Rightarrow> (int \<times> hub) option" where
  "send_msg_to_rec_movie e fh i s = do {
     let h = hands s ! i;
     (_, s) \<leftarrow>
       (if m_data_codec fh = UdpRecv_H264_CODEC_TYPE \<or> m_data_codec fh = UdpRecv_JPEG_CODEC_TYPE then
          (if uint CONNECT = get_usb_rec_status (Some h) \<and> (rec_mode h = RECODE_MODE_MOVIE \<or> rec_mode h = RECODE_MODE_ALL)
           then send_msg_to_rec_media_movie e fh i s else Some (OP_SUCC, s))
        else if m_data_codec fh = UdpRecv_AAC_CODEC_TYPE then
          (if uint CONNECT = get_rec_status (Some h) \<or> uint CONNECT = get_usb_rec_status (Some h)
           then send_msg_to_rec_audio_movie e fh i s else Some (OP_SUCC, s))
        else Some (OP_SUCC, s));
     Some (OP_SUCC, s)
   }"

subsection \<open>Live\<close>

definition send_msg_to_live_media :: "hub_env \<Rightarrow> hdb_freame_head_t \<Rightarrow> nat \<Rightarrow> hub \<Rightarrow> (int \<times> hub) option" where
  "send_msg_to_live_media e fh i s =
     do {
       (m, s) \<leftarrow> alloc_message e 1 s;
       case m of
         None \<Rightarrow> Some (RECEIVE_MALLOC_ERR, s)
       | Some (_, d, b) \<Rightarrow> do {
           pd \<leftarrow> media_message fh (hands s ! i);
           let pd = pd\<lparr>pd_end_flag := ucast (live_status (hands s ! i))\<rparr>;
           let s = set_hand i (set_to_live 1) s;
           (ok, s) \<leftarrow> post_message e (msg_recv_to_live (hands s ! i)) (stream_id (hands s ! i)) pd d b s;
           if ok then Some (OP_SUCC, set_hand i (clear_log_flag LIVE_BIT) s)
           else Some (-1, set_hand i (set_to_live 0) (set_hand i (raise_log_flag LIVE_BIT) s))
         }
     }"

fun live_audio_loop ::
  "hub_env \<Rightarrow> hdb_freame_head_t \<Rightarrow> nat \<Rightarrow> nat option list \<Rightarrow> nat \<Rightarrow> int \<Rightarrow> hub \<Rightarrow> ((int + unit) \<times> hub) option" where
  "live_audio_loop e fh i addr 0 index s = Some (Inr (), s)"
| "live_audio_loop e fh i addr (Suc n) index s = do {
     p \<leftarrow> peek addr index;
     t \<leftarrow> p;
     if t \<ge> length (hands s) then None
     else if uint CONNECT \<noteq> get_live_status (Some (hands s ! t))
     then live_audio_loop e fh i addr n (index + 1) s
     else do {
       (m, s) \<leftarrow> alloc_message e 1 s;
       case m of
         None \<Rightarrow> Some (Inl RECEIVE_MALLOC_ERR, s)
       | Some (_, d, b) \<Rightarrow> do {
           pd \<leftarrow> audio_message parse_zero (m_frame_rate fh) fh (hands s ! i) (hands s ! t);
           let pd = pd\<lparr>pd_end_flag := ucast (live_status (hands s ! i))\<rparr>;
           let s = set_hand i (set_to_live 1) s;
           (ok, s) \<leftarrow> post_message e (msg_recv_to_live (hands s ! t)) (stream_id (hands s ! t)) pd d b s;
           if ok then live_audio_loop e fh i addr n (index + 1) s
           else Some (Inl (-1), set_hand i (set_to_live 0) (set_hand i (raise_log_flag LIVE_BIT) s))
         }
     }
   }"

definition send_msg_to_live_audio :: "hub_env \<Rightarrow> hdb_freame_head_t \<Rightarrow> nat \<Rightarrow> hub \<Rightarrow> (int \<times> hub) option" where
  "send_msg_to_live_audio e fh i s =
     (case audio_info (hands s ! i) of
        None \<Rightarrow> Some (RECEIVE_MALLOC_ERR, s)
      | Some a \<Rightarrow>
          let t = audio_tran_live_into a in
          if at_stream_num t = 0 then Some (OP_SUCC, s)
          else do {
            (r, s) \<leftarrow> live_audio_loop e fh i (stream_handle_addr t) (nat (at_stream_num t)) 0 s;
            case r of Inl c \<Rightarrow> Some (c, s)
                    | Inr _ \<Rightarrow> Some (0, set_hand i (clear_log_flag LIVE_BIT) s)
          })"

definition send_msg_to_live :: "hub_env \<Rightarrow> hdb_freame_head_t \<Rightarrow> nat \<Rightarrow> hub \<Rightarrow> (int \<times> hub) option" where
  "send_msg_to_live e fh i s =
     (let h = hands s ! i in
      if frame_data h = None \<or> sh_audio_data h = None then Some (OP_ERR, s)
      else do {
        (_, s) \<leftarrow>
          (if (m_data_codec fh = UdpRecv_H264_CODEC_TYPE \<or> m_data_codec fh = UdpRecv_JPEG_CODEC_TYPE)
              \<and> uint CONNECT = get_live_status (Some h)
           then send_msg_to_live_media e fh i s
           else if m_data_codec fh = UdpRecv_AAC_CODEC_TYPE then send_msg_to_live_audio e fh i s
           else Some (OP_SUCC, s));
        Some (OP_SUCC, s)
      })"

text \<open>The three calls that end every way in.\<close>

definition fan_out :: "hub_env \<Rightarrow> hdb_freame_head_t \<Rightarrow> nat \<Rightarrow> hub \<Rightarrow> hub option" where
  "fan_out e fh i s = do {
     (_, s) \<leftarrow> send_msg_to_rec_res e fh i s;
     (_, s) \<leftarrow> send_msg_to_rec_movie e fh i s;
     (_, s) \<leftarrow> send_msg_to_live e fh i s;
     Some s
   }"

subsection \<open>The way in over UDP\<close>

text \<open>
  \<open>i\<close> is the handle that \<^verbatim>\<open>user_data\<close> points to; a negative length becomes a large one.
\<close>

definition recv_deal_udp_recv_data ::
  "hub_env \<Rightarrow> nat option \<Rightarrow> udp_recv_stream_info_t option \<Rightarrow> byte list option \<Rightarrow> int \<Rightarrow> hub
    \<Rightarrow> (int \<times> hub) option" where
  "recv_deal_udp_recv_data e ud psi pdata len s =
     (case (psi, pdata, ud) of
        (Some si, Some d, Some i) \<Rightarrow> do {
          let fh = \<lparr>m_id = 0, m_time_tick = 0, m_frame_length = word_of_int len, m_data_codec = si_type si,
            m_frame_rate = word_of_int (si_frame_rate si), m_width = word_of_int (si_width si),
            m_hight = word_of_int (si_height si), m_colors = word_of_int (si_colors si), m_dw_segment = 0,
            m_dw_flags = word_of_int (IDR_FLAG si), m_dw_packet_number = 0,
            m_others = (if si_is_blue si = 0 then 1 else 0)\<rparr>;
          (fh, s) \<leftarrow>
            (if m_data_codec fh = UdpRecv_AAC_CODEC_TYPE then do {
               let fh = fh\<lparr>m_frame_rate := word_of_int (si_samplerate si)\<rparr>;
               let h = hands s ! i;
               dst \<leftarrow> sh_audio_data h;
               b \<leftarrow> memcpy dst 0 d 0 (uint (m_frame_length fh));
               let h = h\<lparr>recv_time_t := (recv_time_t h)\<lparr>rt_time_audio_tick := word_of_int (si_timestamp si)\<rparr>,
                 recv_pri := (recv_pri h)\<lparr>rp_stream_type := 2, rp_data_type := ucast R_AUDIO,
                   rp_code_rate := m_colors fh, rp_sample_rate := m_frame_rate fh, rp_is_data := 1,
                   rp_frame_rate := m_frame_rate fh\<rparr>,
                 sh_audio_data := Some b\<rparr>;
               s \<leftarrow> fan_out e fh i (set_hand i (\<lambda>_. h) s);
               Some (fh, s)
             }
             else Some (fh, s));
          (if m_data_codec fh = UdpRecv_H264_CODEC_TYPE \<or> m_data_codec fh = UdpRecv_JPEG_CODEC_TYPE then do {
             let h = hands s ! i;
             dst \<leftarrow> frame_data h;
             b \<leftarrow> memcpy dst 0 d 0 (uint (m_frame_length fh));
             let h = h\<lparr>recv_pri := (recv_pri h)\<lparr>rp_stream_type := 0, rp_data_type := ucast R_VIDEO,
                   rp_is_data := 1, rp_width := m_width fh, rp_hight := m_hight fh,
                   rp_frame_rate := m_frame_rate fh\<rparr>,
                 recv_time_t := (recv_time_t h)\<lparr>rt_time_video_tick := word_of_int (si_timestamp si)\<rparr>,
                 frame_data := Some b\<rparr>;
             s \<leftarrow> fan_out e fh i (set_hand i (\<lambda>_. h) s);
             Some (0, s)
           }
           else Some (0, s))
        }
      | _ \<Rightarrow> Some (OP_ERR, s))"

subsection \<open>The way in over TCP\<close>

text \<open>What the frame is described with when it is sent on; the tick is the one the stream's clock made.\<close>

definition forward_info :: "hdb_freame_head_t \<Rightarrow> u32 \<Rightarrow> frame_info_t" where
  "forward_info fh tick = \<lparr>time_tick = tick, fi_data_codec = m_data_codec fh, fi_width = m_width fh,
     fi_hight = m_hight fh, fi_dw_flags = m_dw_flags fh, fi_frame_length = m_frame_length fh,
     fi_frame_rate = m_frame_rate fh, is_blue = is_blue_flag fh\<rparr>"

text \<open>
  Copying a frame into the sending module and publishing it; \<^verbatim>\<open>src_data\<close> is missing when the module has no
  buffer.
\<close>

definition forward_frame ::
  "sendto_oracle \<Rightarrow> US_FRAMEHEAD \<Rightarrow> hdb_freame_head_t \<Rightarrow> u32 \<Rightarrow> byte list option
    \<Rightarrow> udp_send_module_handle option \<times> net \<Rightarrow> (udp_send_module_handle option \<times> net) option" where
  "forward_frame so fh0 fh tick src u =
     (case u of
        (None, net) \<Rightarrow> Some (None, net)
      | (Some p, net) \<Rightarrow> do {
          dst \<leftarrow> src_data (udp_hand p);
          b \<leftarrow> src;
          dst' \<leftarrow> memcpy dst 0 b 0 (uint (m_frame_length fh));
          (_, p', net') \<leftarrow> UdpSend_rtp_data so fh0 (p\<lparr>udp_hand := (udp_hand p)\<lparr>src_data := Some dst'\<rparr>\<rparr>)
            (forward_info fh tick) net;
          Some (Some p', net')
        })"

text \<open>
  \<open>dat\<close> is the packet, its head read as a record and the bytes behind it; \<open>now\<close> is \<^verbatim>\<open>getCurrentTime\<close>.
  Both head and handle are there whenever the function is called; the test for null comes after the head
  has been read.
\<close>

definition send_media_frame_data ::
  "hub_env \<Rightarrow> sendto_oracle \<Rightarrow> US_FRAMEHEAD \<Rightarrow> u32 \<Rightarrow> nat \<Rightarrow> hdb_freame_head_t \<times> byte list \<Rightarrow> int
    \<Rightarrow> hub \<Rightarrow> udp_send_module_handle option \<times> net
    \<Rightarrow> (int \<times> hub \<times> (udp_send_module_handle option \<times> net)) option" where
  "send_media_frame_data e so fh0 now i dat data_len s u = do {
     let fh = fst dat;
     let part = data_len - FH_LEN;
     let h = hands s ! i;
     if m_data_codec fh = UdpRecv_AAC_CODEC_TYPE \<and> rec_audio_falg h \<noteq> RECODE_AUDIO_ON then Some (OP_SUCC, s, u)
     else if m_data_codec fh = UdpRecv_H264_CODEC_TYPE \<or> m_data_codec fh = UdpRecv_JPEG_CODEC_TYPE then do {
       let h = h\<lparr>recv_pri := (recv_pri h)\<lparr>rp_width := m_width fh, rp_hight := m_hight fh,
         rp_frame_rate := m_frame_rate fh\<rparr>\<rparr>;
       (r, h) \<leftarrow> room_pkg_placed_in_frame fh (snd dat) part now h;
       if r < UdpRecv_OPERATION_CONTINUE then Some (OP_SUCC, set_hand i (\<lambda>_. h) s, u)
       else do {
         let h = (if IS_FLAG_BIT_TRUE (log_flag h) RECV_VIDEO_I_FRAME_DATA = 0 \<and> m_dw_flags fh = I_FRAME
                  then h\<lparr>log_flag := SET_FLAG_BIT_TRUE (log_flag h) RECV_VIDEO_I_FRAME_DATA\<rparr> else h);
         let s = set_hand i (\<lambda>_. h) s;
         if IS_FLAG_BIT_TRUE (log_flag h) RECV_VIDEO_I_FRAME_DATA = 1 \<or> m_data_codec fh = UdpRecv_JPEG_CODEC_TYPE
         then do {
           s \<leftarrow> fan_out e fh i s;
           u \<leftarrow> forward_frame so fh0 fh (rt_time_video_tick (recv_time_t (hands s ! i))) (frame_data (hands s ! i)) u;
           Some (OP_SUCC, s, u)
         }
         else Some (OP_SUCC, s, u)
       }
     }
     else if m_data_codec fh = UdpRecv_AAC_CODEC_TYPE then do {
       let h = h\<lparr>recv_pri := (recv_pri h)\<lparr>rp_stream_type := 2, rp_data_type := ucast R_AUDIO,
         rp_code_rate := m_colors fh, rp_sample_rate := m_hight fh\<rparr>\<rparr>;
       (r, h) \<leftarrow> room_pkg_placed_in_frame_audio fh (snd dat) part now h;
       let s = set_hand i (\<lambda>_. h) s;
       if r < UdpRecv_OPERATION_CONTINUE then Some (OP_SUCC, s, u)
       else do {
         s \<leftarrow> fan_out e fh i s;
         u \<leftarrow> forward_frame so fh0 fh (rt_time_audio_tick (recv_time_t (hands s ! i))) (sh_audio_data (hands s ! i)) u;
         Some (OP_SUCC, s, u)
       }
     }
     else Some (OP_SUCC, s, u)
   }"

text \<open>
  \<^verbatim>\<open>write_long_tcp_data\<close>: \<open>w\<close> is how many items \<^verbatim>\<open>fwrite\<close> wrote; the test that ends the loop assigns.
\<close>

definition write_long_tcp_data :: "nat \<Rightarrow> int \<Rightarrow> int" where
  "write_long_tcp_data w buflen =
     (let total_recv = 0 in
      if total_recv < buflen then (let total_recv = int w * buflen; total_recv = buflen in total_recv)
      else total_recv)"

end
