(* ===== verification/Lives.thy ===== *)
theory Lives
  imports LiveRtp MediaFrame
begin

section \<open>Live streaming of a room (src/reach\_edukit/src/room/lives/lives.c)\<close>

text \<open>
  The live module of a room sends the pictures and the sound of up to nine encoders to up to ten viewers.  One
  thread takes messages from the module's queue: frames from the receiving side (\<^theory_text>\<open>MediaFrame\<close>) and
  interruptions, which other threads put there after they have marked a change in the tables (a viewer to be
  dropped, encoders withdrawn).  A frame is stamped with the stream's own clock, cut into RTP packets
  (\<^theory_text>\<open>LiveRtp\<close>) and sent to each viewer that asked for the encoder; the last JPEG picture is kept for viewers
  that come later.

  The state is \<^verbatim>\<open>lives_mode_info_t\<close>, the heap of message blocks, the module's queue, its open sockets and the
  network.  A block is a \<^verbatim>\<open>parse_data_t\<close> with its data, which are allocated and freed together.  Answers of the
  operating system (\<^verbatim>\<open>msgsnd\<close>, \<^verbatim>\<open>socket\<close>, \<^verbatim>\<open>bind\<close>, \<^verbatim>\<open>sendto\<close>) are arguments.  Each operation is one step: the
  user table is only touched under the module's lock.  Left out are the fields that only the log thread reads
  (\<^verbatim>\<open>HD_recv_flag\<close>, \<^verbatim>\<open>user_debug_info\<close>).  \<^const>\<open>None\<close> is undefined behaviour: a block freed twice or read after it
  was freed, an access outside an array.
\<close>

subsection \<open>State\<close>

definition VIDEO_SEND_IP_LEN :: nat where "VIDEO_SEND_IP_LEN = 16"
definition VIDEO_USER_MAX_NUM :: nat where "VIDEO_USER_MAX_NUM = 10"
definition VIDEO_ENCODE_MAX_NUM :: nat where "VIDEO_ENCODE_MAX_NUM = 9"
definition INTERRUPTION_MSG_ID :: int where "INTERRUPTION_MSG_ID = 22"
definition JPEG_INVAILD_FLAG :: int where "JPEG_INVAILD_FLAG = -1"
definition JPEG_NO_SEND_FLAG :: int where "JPEG_NO_SEND_FLAG = 0"
definition JPEG_SEND_FLAG :: int where "JPEG_SEND_FLAG = 1"
definition VIDEO_H264 :: int where "VIDEO_H264 = 0"
definition VIDEO_JPEG :: int where "VIDEO_JPEG = 1"
definition VIDEO_DATA_TYPE_HD :: int where "VIDEO_DATA_TYPE_HD = 0"
definition VIDEO_DATA_TYPE_BD :: int where "VIDEO_DATA_TYPE_BD = 1"
definition MAX_VOD_MEDIA_PACK_LEN :: int where "MAX_VOD_MEDIA_PACK_LEN = 1300"

lemmas live_consts = VIDEO_SEND_IP_LEN_def VIDEO_USER_MAX_NUM_def VIDEO_ENCODE_MAX_NUM_def INTERRUPTION_MSG_ID_def
  JPEG_INVAILD_FLAG_def JPEG_NO_SEND_FLAG_def JPEG_SEND_FLAG_def VIDEO_H264_def VIDEO_JPEG_def VIDEO_DATA_TYPE_HD_def
  VIDEO_DATA_TYPE_BD_def

text \<open>The sequence numbers and packet counters of an encoder's stream.\<close>

record debug_pack_seq_num_t =
  video_seq_cache :: int
  audio_seq_cache :: int
  video_seq_loss :: int
  audio_seq_loss :: int
  video_seq_total :: int
  audio_seq_total :: int

text \<open>
  An encoder delivers a high and a low stream.  The fields of \<^verbatim>\<open>video_enc_info_t\<close> come in pairs \<^verbatim>\<open>HD_x\<close>, \<^verbatim>\<open>BD_x\<close>;
  a \<open>live_lane\<close> holds one of each pair: the message type of the stream, the bases of the video clock
  (\<^verbatim>\<open>video_timestamp_ex\<close>) and of the sound clock (\<^verbatim>\<open>video_timestamp\<close>), their caches, the packetisers.
\<close>

record live_lane =
  ll_sindex :: int
  ll_vbase :: u32
  ll_abase :: u32
  ll_vcache :: u32
  ll_acache :: u32
  ll_vrtp :: "RTP_BUILD_INFO option"
  ll_artp :: "RTP_BUILD_INFO option"
  ll_seq :: debug_pack_seq_num_t

record video_enc_info_t =
  ve_HD :: live_lane
  ve_BD :: live_lane
  ve_type :: int

record lives_user_addr_t =
  la_ip :: "byte list"
  la_port :: int

record lives_user_info_t =
  lu_valid :: int
  lu_index :: int
  lu_addr :: "lives_user_addr_t list"
  lu_quality :: int
  lu_encode :: "byte list"
  lu_jpeg :: int
  lu_fd :: int
  lu_id :: int

record lives_mode_info_t =
  lm_users :: "lives_user_info_t list"
  lm_encs :: "video_enc_info_t list"
  lm_enc_num :: int
  lm_enc_valid :: int
  lm_reset :: int
  lm_room :: int
  lm_user_num :: int
  lm_jpeg_buf :: "nat option"
  lm_jpeg_type :: int
  lm_jpeg_valid :: int
  lm_queue :: "(int \<times> nat option) list"
  lm_blocks :: "nat \<Rightarrow> parse_data_t option"
  lm_fds :: "int list"
  lm_net :: net

text \<open>What \<^verbatim>\<open>sendto\<close> answers, and what an uninitialised \<^verbatim>\<open>FRAMEHEAD\<close> on the stack holds.\<close>

record live_env =
  le_so :: sendto_oracle
  le_fh0 :: US_FRAMEHEAD

subsection \<open>Starting values\<close>

definition seq_zero :: debug_pack_seq_num_t where
  "seq_zero = \<lparr>video_seq_cache = 0, audio_seq_cache = 0, video_seq_loss = 0, audio_seq_loss = 0,
     video_seq_total = 0, audio_seq_total = 0\<rparr>"

definition empty_addr :: lives_user_addr_t where
  "empty_addr = \<lparr>la_ip = replicate VIDEO_SEND_IP_LEN 0, la_port = 0\<rparr>"

text \<open>\<^verbatim>\<open>memset(video_encode_index, 0, VIDEO_ENCODE_MAX_NUM)\<close> leaves the tenth byte as it is.\<close>

definition init_lives_mode_info_ex :: "lives_user_info_t \<Rightarrow> lives_user_info_t" where
  "init_lives_mode_info_ex u =
     u\<lparr>lu_encode := replicate VIDEO_ENCODE_MAX_NUM 0 @ drop VIDEO_ENCODE_MAX_NUM (lu_encode u),
       lu_quality := -1, lu_index := -1, lu_jpeg := JPEG_INVAILD_FLAG, lu_valid := -1, lu_fd := -1, lu_id := -1,
       lu_addr := map (\<lambda>_. empty_addr) (lu_addr u)\<rparr>"

text \<open>The reset of an encoder's clocks, packetisers and counters, which three functions share.\<close>

definition reset_lane :: "live_lane \<Rightarrow> live_lane" where
  "reset_lane l = l\<lparr>ll_vbase := 0, ll_abase := 0, ll_vcache := 0, ll_acache := 0,
     ll_vrtp := snd (rtp_build_reset (ll_vrtp l)), ll_artp := snd (rtp_build_reset (ll_artp l)), ll_seq := seq_zero\<rparr>"

definition reset_enc_clock :: "video_enc_info_t \<Rightarrow> video_enc_info_t" where
  "reset_enc_clock e = e\<lparr>ve_HD := reset_lane (ve_HD e), ve_BD := reset_lane (ve_BD e)\<rparr>"

text \<open>
  \<^verbatim>\<open>init_lives_mode_info\<close>: \<open>q\<close> is whether the queue was created, \<open>mok i\<close> whether the \<open>i\<close>-th of the 36
  packetisers was allocated, \<open>us\<close> what the fresh block holds in the user table.  \<open>None\<close> is
  \<^verbatim>\<open>OPERATION_ERR\<close>: the module does not start.
\<close>

definition new_lane :: "(nat \<Rightarrow> bool) \<Rightarrow> nat \<Rightarrow> nat \<Rightarrow> live_lane" where
  "new_lane mok v a =
     \<lparr>ll_sindex = -1, ll_vbase = 0, ll_abase = 0, ll_vcache = 0, ll_acache = 0,
      ll_vrtp = rtp_build_init (mok v) 0 0, ll_artp = rtp_build_init (mok a) 0 0, ll_seq = seq_zero\<rparr>"

definition new_enc :: "(nat \<Rightarrow> bool) \<Rightarrow> nat \<Rightarrow> video_enc_info_t" where
  "new_enc mok i =
     \<lparr>ve_HD = new_lane mok (4 * i) (4 * i + 2), ve_BD = new_lane mok (4 * i + 1) (4 * i + 3), ve_type = -1\<rparr>"

definition init_lives_mode_info ::
  "bool \<Rightarrow> (nat \<Rightarrow> bool) \<Rightarrow> int \<Rightarrow> lives_user_info_t list \<Rightarrow> lives_mode_info_t option" where
  "init_lives_mode_info q mok room us =
     (if \<not> q \<or> \<not> list_all mok [0..<4 * VIDEO_ENCODE_MAX_NUM] then None
      else Some \<lparr>lm_users = map init_lives_mode_info_ex us, lm_encs = map (new_enc mok) [0..<VIDEO_ENCODE_MAX_NUM],
             lm_enc_num = 0, lm_enc_valid = -1, lm_reset = 0, lm_room = room, lm_user_num = 0,
             lm_jpeg_buf = None, lm_jpeg_type = -1, lm_jpeg_valid = -1, lm_queue = [], lm_blocks = Map.empty,
             lm_fds = [], lm_net = \<lparr>calls = 0, wire = []\<rparr>\<rparr>)"

subsection \<open>Messages\<close>

text \<open>\<open>ok\<close>: whether \<^verbatim>\<open>msgsnd\<close> took the message.  The message carries no block.\<close>

definition Interruption_msg :: "bool \<Rightarrow> lives_mode_info_t \<Rightarrow> int \<times> lives_mode_info_t" where
  "Interruption_msg ok st =
     (if ok then (0, st\<lparr>lm_queue := lm_queue st @ [(INTERRUPTION_MSG_ID, None)]\<rparr>) else (-1, st))"

text \<open>\<^verbatim>\<open>r_free(pd->data); r_free(pd)\<close>.\<close>

definition free_block :: "nat \<Rightarrow> lives_mode_info_t \<Rightarrow> lives_mode_info_t option" where
  "free_block b st =
     (case lm_blocks st b of None \<Rightarrow> None | Some _ \<Rightarrow> Some (st\<lparr>lm_blocks := (lm_blocks st)(b := None)\<rparr>))"

subsection \<open>The clock of a stream\<close>

text \<open>
  The first stamp after a reset is the base and counts as zero.  A stamp that does not exceed the one before is
  replaced by that one plus one.  Near the end of the range of 32 bits times 90 the base is dropped, and the next
  frame starts at zero again.  The result is base, cache and the time of the frame.
\<close>

definition TIME_LIMIT :: u32 where "TIME_LIMIT = 0xFFFFFFFF div 90 - 10000"

definition lane_clock :: "u32 \<Rightarrow> u32 \<Rightarrow> u32 \<Rightarrow> u32 \<times> u32 \<times> u32" where
  "lane_clock base cache ts =
     (if base = 0 then (ts, ts, 0)
      else let ts = (if ts < cache then cache + 1 else ts);
               ts = (if ts = cache then cache + 1 else ts);
               t = ts - base
           in (if TIME_LIMIT < t then 0 else base, ts, t))"

text \<open>JPEG pictures: no cache.\<close>

definition live_jpeg_clock :: "u32 \<Rightarrow> u32 \<Rightarrow> u32 \<times> u32" where
  "live_jpeg_clock base ts =
     (if base = 0 then (ts, 0) else let t = ts - base in (if TIME_LIMIT < t then 0 else base, t))"

definition lane_stamp :: "bool \<Rightarrow> u32 \<Rightarrow> live_lane \<Rightarrow> live_lane \<times> u32" where
  "lane_stamp audio ts l =
     (if audio then (case lane_clock (ll_abase l) (ll_acache l) ts of
        (b, c, t) \<Rightarrow> (l\<lparr>ll_abase := b, ll_acache := c\<rparr>, t))
      else (case lane_clock (ll_vbase l) (ll_vcache l) ts of
        (b, c, t) \<Rightarrow> (l\<lparr>ll_vbase := b, ll_vcache := c\<rparr>, t)))"

subsection \<open>Which stream a message belongs to\<close>

text \<open>What the module knows of a frame: encoder, quality, kind, time and the digit that viewers ask for it with.\<close>

record video_data_type_t =
  vd_enc :: nat
  vd_quality :: int
  vd_type :: int
  vd_time :: u32
  vd_digit :: byte

text \<open>
  The search loop of \<^verbatim>\<open>get_video_data_info\<close> and of \<^verbatim>\<open>get_advance_request_enc_info\<close>: the first encoder whose
  stream has the message type, skipping encoders without a type; an unknown type ends the search with an error.
  The result is index, quality and kind.
\<close>

fun enc_search :: "video_enc_info_t list \<Rightarrow> int \<Rightarrow> nat list \<Rightarrow> (nat \<times> int \<times> int) option option" where
  "enc_search encs ty [] = Some None"
| "enc_search encs ty (i # is) = do {
     e \<leftarrow> peek encs (int i);
     if ve_type e = -1 then enc_search encs ty is
     else if ve_type e = VIDEO_H264 then
       (if ll_sindex (ve_HD e) = ty then Some (Some (i, VIDEO_DATA_TYPE_HD, VIDEO_H264))
        else if ll_sindex (ve_BD e) = ty then Some (Some (i, VIDEO_DATA_TYPE_BD, VIDEO_H264))
        else enc_search encs ty is)
     else if ve_type e = VIDEO_JPEG then
       (if ll_sindex (ve_HD e) = ty then Some (Some (i, VIDEO_DATA_TYPE_HD, VIDEO_JPEG))
        else enc_search encs ty is)
     else Some None
   }"

definition enc_digit :: "nat \<Rightarrow> byte" where "enc_digit i = of_nat (49 + i)"

text \<open>A lane of an encoder, by quality.\<close>

definition get_lane :: "int \<Rightarrow> video_enc_info_t \<Rightarrow> live_lane" where
  "get_lane q e = (if q = VIDEO_DATA_TYPE_HD then ve_HD e else ve_BD e)"

definition set_lane :: "int \<Rightarrow> live_lane \<Rightarrow> video_enc_info_t \<Rightarrow> video_enc_info_t" where
  "set_lane q l e = (if q = VIDEO_DATA_TYPE_HD then e\<lparr>ve_HD := l\<rparr> else e\<lparr>ve_BD := l\<rparr>)"

definition put_lane :: "nat \<Rightarrow> int \<Rightarrow> live_lane \<Rightarrow> lives_mode_info_t \<Rightarrow> lives_mode_info_t" where
  "put_lane i q l st = st\<lparr>lm_encs := (lm_encs st)[i := set_lane q l (lm_encs st ! i)]\<rparr>"

definition stamp_frame :: "u32 \<Rightarrow> u32 \<Rightarrow> int \<Rightarrow> live_lane \<Rightarrow> live_lane \<times> u32" where
  "stamp_frame data_type ts kind l =
     (if kind = VIDEO_JPEG then (case live_jpeg_clock (ll_abase l) ts of (b, t) \<Rightarrow> (l\<lparr>ll_abase := b\<rparr>, t))
      else lane_stamp (data_type = R_AUDIO) ts l)"

text \<open>\<open>Inl\<close> is \<^verbatim>\<open>OPERATION_ERR\<close>.\<close>

definition get_video_data_info ::
  "int \<Rightarrow> parse_data_t \<Rightarrow> lives_mode_info_t \<Rightarrow> (unit + video_data_type_t \<times> lives_mode_info_t) option" where
  "get_video_data_info ty pd st = do {
     found \<leftarrow> enc_search (lm_encs st) ty [0..<nat (lm_enc_num st)];
     (case found of
        None \<Rightarrow> Some (Inl ())
      | Some (i, q, k) \<Rightarrow>
          (case stamp_frame (pd_data_type pd) (word_of_int (pd_time_tick pd)) k (get_lane q (lm_encs st ! i)) of
             (l, t) \<Rightarrow> Some (Inr (\<lparr>vd_enc = i, vd_quality = q, vd_type = k, vd_time = t, vd_digit = enc_digit i\<rparr>,
                                 put_lane i q l st))))
   }"

subsection \<open>Who gets a frame\<close>

definition distinguish_send_flag :: "video_data_type_t \<Rightarrow> lives_user_info_t \<Rightarrow> bool" where
  "distinguish_send_flag vd u =
     ((vd_type vd \<noteq> VIDEO_JPEG \<longrightarrow> lu_quality u = vd_quality vd) \<and> vd_digit vd \<in> set (lu_encode u))"

text \<open>An entry of \<^verbatim>\<open>video_send_user_t\<close>: the slot of the viewer and where its packets go.\<close>

record send_user =
  su_slot :: nat
  su_ip :: "byte list"
  su_port :: int
  su_fd :: int

definition send_entry :: "nat \<Rightarrow> nat \<times> lives_user_info_t \<Rightarrow> send_user option" where
  "send_entry e x = do {
     a \<leftarrow> peek (lu_addr (snd x)) (int e);
     Some \<lparr>su_slot = fst x, su_ip = la_ip a, su_port = la_port a, su_fd = lu_fd (snd x)\<rparr>
   }"

fun send_entries :: "nat \<Rightarrow> (nat \<times> lives_user_info_t) list \<Rightarrow> send_user list option" where
  "send_entries e [] = Some []"
| "send_entries e (x # xs) = do { y \<leftarrow> send_entry e x; ys \<leftarrow> send_entries e xs; Some (y # ys) }"

definition slots :: "lives_mode_info_t \<Rightarrow> (nat \<times> lives_user_info_t) list" where
  "slots st = zip [0..<length (lm_users st)] (lm_users st)"

definition get_send_userinfo :: "video_data_type_t \<Rightarrow> lives_mode_info_t \<Rightarrow> send_user list option" where
  "get_send_userinfo vd st =
     send_entries (vd_enc vd) [x \<leftarrow> slots st. lu_index (snd x) \<noteq> -1 \<and> distinguish_send_flag vd (snd x)]"

text \<open>
  \<^verbatim>\<open>get_send_userinfo_jpeg\<close>: the pointer into the table is only advanced behind an occupied slot, so the ten
  rounds stay at the first free one.
\<close>

fun jpeg_rounds :: "nat \<Rightarrow> (nat \<times> lives_user_info_t) list \<Rightarrow> (nat \<times> lives_user_info_t) list" where
  "jpeg_rounds 0 xs = []"
| "jpeg_rounds (Suc n) [] = []"
| "jpeg_rounds (Suc n) (x # xs) =
     (if lu_index (snd x) \<noteq> -1
      then (if lu_jpeg (snd x) = JPEG_NO_SEND_FLAG then x # jpeg_rounds n xs else jpeg_rounds n xs)
      else jpeg_rounds n (x # xs))"

definition get_send_userinfo_jpeg :: "nat \<Rightarrow> lives_mode_info_t \<Rightarrow> send_user list option" where
  "get_send_userinfo_jpeg e st = send_entries e (jpeg_rounds VIDEO_USER_MAX_NUM (slots st))"

subsection \<open>Sending\<close>

definition async_sendto_data ::
  "sendto_oracle \<Rightarrow> int \<Rightarrow> byte list \<Rightarrow> int \<Rightarrow> int \<Rightarrow> byte list \<Rightarrow> net \<Rightarrow> (int \<times> int \<times> net) option" where
  "async_sendto_data so fd b buflen port ip net = sendto_loop so fd b port ip buflen 0 buflen net"

text \<open>The loop over the viewers; the flag tells whether some \<^verbatim>\<open>sendto\<close> failed.\<close>

fun send_to_users ::
  "sendto_oracle \<Rightarrow> byte list \<Rightarrow> int \<Rightarrow> send_user list \<Rightarrow> bool \<Rightarrow> net \<Rightarrow> (bool \<times> net) option" where
  "send_to_users so b len [] loss net = Some (loss, net)"
| "send_to_users so b len (u # us) loss net = do {
     (ret, n, net') \<leftarrow> async_sendto_data so (su_fd u) b len (su_port u) (su_ip u) net;
     send_to_users so b len us (loss \<or> ret < 0) net'
   }"

definition count_packet :: "byte list \<Rightarrow> bool \<Rightarrow> debug_pack_seq_num_t \<Rightarrow> debug_pack_seq_num_t" where
  "count_packet b loss ps =
     (let l = (if loss then 1 else 0)
      in if codec (rx_frame b) = 1
         then ps\<lparr>audio_seq_cache := uint (rx_seq_no b), audio_seq_total := audio_seq_total ps + 1,
                 audio_seq_loss := audio_seq_loss ps + l\<rparr>
         else ps\<lparr>video_seq_cache := uint (rx_seq_no b), video_seq_total := video_seq_total ps + 1,
                 video_seq_loss := video_seq_loss ps + l\<rparr>)"

definition send_rtp_video ::
  "sendto_oracle \<Rightarrow> send_user list \<Rightarrow> (debug_pack_seq_num_t \<times> net) sender" where
  "send_rtp_video so us send_buf len s = do {
     (loss, net') \<leftarrow> send_to_users so send_buf len us False (snd s);
     Some (OPERATION_SUCC, (count_packet send_buf loss (fst s), net'))
   }"

definition live_switch_audio_sample_rate :: "int \<Rightarrow> int" where
  "live_switch_audio_sample_rate sample_rate =
     (if sample_rate = 16000 then 0 else if sample_rate = 32000 then 1 else if sample_rate = 44100 then 2
      else if sample_rate = 48000 then 3 else if sample_rate = 96000 then 4 else 3)"

definition set_hdb_freame_head :: "US_FRAMEHEAD \<Rightarrow> parse_data_t \<Rightarrow> US_FRAMEHEAD" where
  "set_hdb_freame_head fh0 pd =
     (let ifr = (if pd_flags pd \<noteq> 0 then 1 else 0)
      in if pd_data_type pd = R_VIDEO then
           \<lparr>codec = 0, samplerate = 0, framerate = ucast (pd_sample_rate pd), width = ucast (pd_width pd),
            height = ucast (pd_height pd), Iframe = ifr, reserve = 0, framelength = pd_data_len pd\<rparr>
         else if pd_data_type pd = R_JPEG then
           \<lparr>codec = 2, samplerate = 0, framerate = ucast (pd_sample_rate pd), width = ucast (pd_width pd),
            height = ucast (pd_height pd), Iframe = ifr, reserve = 0, framelength = pd_data_len pd\<rparr>
         else if pd_data_type pd = R_AUDIO then
           \<lparr>codec = 1, samplerate = word_of_int (live_switch_audio_sample_rate (sint (pd_sample_rate pd))) AND 0xF,
            framerate = 0, width = ucast (pd_width pd), height = ucast (pd_height pd), Iframe = ifr, reserve = 0,
            framelength = pd_data_len pd\<rparr>
         else fh0)"

text \<open>The packetiser for the kind of data; the return value is only logged.\<close>

definition build_packets ::
  "live_env \<Rightarrow> parse_data_t \<Rightarrow> send_user list \<Rightarrow> u32 \<Rightarrow> RTP_BUILD_INFO option \<Rightarrow> debug_pack_seq_num_t \<times> net
    \<Rightarrow> (int \<times> RTP_BUILD_INFO option \<times> debug_pack_seq_num_t \<times> net) option" where
  "build_packets env pd us ts rtp s =
     (let fh = set_hdb_freame_head (le_fh0 env) pd;
          mtu = MAX_VOD_MEDIA_PACK_LEN - 20;
          tx = send_rtp_video (le_so env) us;
          len = sint (pd_data_len pd)
      in if pd_data_type pd = R_VIDEO then rtp_build_video_data tx rtp len (pd_data pd) mtu ts fh s
         else if pd_data_type pd = R_JPEG then rtp_build_jpeg_data tx rtp len (pd_data pd) ts mtu fh s
         else rtp_build_audio_data tx rtp len (pd_data pd) (sint (pd_sample_rate pd)) mtu ts fh s)"

text \<open>Which of the two packetisers of a stream is used: the one for sound unless the frame is a picture.\<close>

definition lane_rtp :: "parse_data_t \<Rightarrow> live_lane \<Rightarrow> RTP_BUILD_INFO option" where
  "lane_rtp pd l = (if pd_data_type pd = R_VIDEO \<or> pd_data_type pd = R_JPEG then ll_vrtp l else ll_artp l)"

definition set_lane_rtp :: "parse_data_t \<Rightarrow> RTP_BUILD_INFO option \<Rightarrow> live_lane \<Rightarrow> live_lane" where
  "set_lane_rtp pd h l =
     (if pd_data_type pd = R_VIDEO \<or> pd_data_type pd = R_JPEG then l\<lparr>ll_vrtp := h\<rparr> else l\<lparr>ll_artp := h\<rparr>)"

text \<open>
  \<^verbatim>\<open>send_video_data_pdg\<close> for the block \<open>b\<close>: the frame is sent with the packetiser of lane \<open>q\<close> and counted in
  lane \<open>qc\<close> of encoder \<open>i\<close>; for a JPEG encoder the viewers are marked as served, for any other kind the block
  is freed.
\<close>

definition mark_served :: "send_user list \<Rightarrow> lives_mode_info_t \<Rightarrow> lives_mode_info_t" where
  "mark_served us st =
     st\<lparr>lm_users := fold (\<lambda>u xs. xs[su_slot u := (xs ! su_slot u)\<lparr>lu_jpeg := JPEG_SEND_FLAG\<rparr>]) us (lm_users st)\<rparr>"

definition send_video_data_pdg ::
  "live_env \<Rightarrow> nat \<Rightarrow> send_user list \<Rightarrow> u32 \<Rightarrow> int \<Rightarrow> nat \<Rightarrow> int \<Rightarrow> int \<Rightarrow> lives_mode_info_t
    \<Rightarrow> lives_mode_info_t option" where
  "send_video_data_pdg env b us ts kind i q qc st = do {
     pd \<leftarrow> lm_blocks st b;
     let lane = (\<lambda>q st. get_lane q (lm_encs st ! i));
     (r, h, ps, net') \<leftarrow>
       build_packets env pd us ts (lane_rtp pd (lane q st)) (ll_seq (lane qc st), lm_net st);
     let st = st\<lparr>lm_net := net'\<rparr>;
     let st = put_lane i q (set_lane_rtp pd h (lane q st)) st;
     let st = put_lane i qc ((lane qc st)\<lparr>ll_seq := ps\<rparr>) st;
     if kind = VIDEO_JPEG then Some (mark_served us st) else free_block b st
   }"

subsection \<open>Frames\<close>

definition get_video_sindex :: "int \<Rightarrow> lives_mode_info_t \<Rightarrow> int option" where
  "get_video_sindex kind st =
     (if nat (lm_enc_num st) \<le> length (lm_encs st)
      then Some (case find (\<lambda>i. ve_type (lm_encs st ! i) = kind) [0..<nat (lm_enc_num st)] of
                   None \<Rightarrow> -1 | Some i \<Rightarrow> int i)
      else (case find (\<lambda>i. ve_type (lm_encs st ! i) = kind) [0..<length (lm_encs st)] of
              None \<Rightarrow> None | Some i \<Rightarrow> Some (int i)))"

text \<open>The cached picture for the viewers that have not been sent one.\<close>

definition deal_video_jpeg_data :: "live_env \<Rightarrow> lives_mode_info_t \<Rightarrow> lives_mode_info_t option" where
  "deal_video_jpeg_data env st =
     (if lm_jpeg_valid st \<noteq> 0 then Some st
      else do {
        v \<leftarrow> get_video_sindex VIDEO_JPEG st;
        if v = -1 then Some st
        else do {
          us \<leftarrow> get_send_userinfo_jpeg (nat v) st;
          if us = [] then Some st
          else do {
            b \<leftarrow> lm_jpeg_buf st;
            send_video_data_pdg env b us 0 VIDEO_JPEG (nat v) VIDEO_DATA_TYPE_HD VIDEO_DATA_TYPE_HD st
          }
        }
      })"

text \<open>A picture replaces the cached one, which is freed.\<close>

definition cache_picture :: "int \<Rightarrow> nat \<Rightarrow> lives_mode_info_t \<Rightarrow> lives_mode_info_t option" where
  "cache_picture ty b st = do {
     st \<leftarrow> (if lm_jpeg_valid st = -1 then Some (st\<lparr>lm_jpeg_valid := 0\<rparr>)
            else case lm_jpeg_buf st of None \<Rightarrow> Some st | Some old \<Rightarrow> free_block old st);
     Some (st\<lparr>lm_jpeg_buf := Some b, lm_jpeg_type := ty\<rparr>)
   }"

definition drop_frame :: "bool \<Rightarrow> nat \<Rightarrow> lives_mode_info_t \<Rightarrow> lives_mode_info_t option" where
  "drop_frame cached b st = (if cached then Some st else free_block b st)"

definition local_media_data_pkg ::
  "live_env \<Rightarrow> int \<Rightarrow> nat \<Rightarrow> lives_mode_info_t \<Rightarrow> (int \<times> lives_mode_info_t) option" where
  "local_media_data_pkg env ty b st = do {
     pd \<leftarrow> lm_blocks st b;
     let cached = (pd_data_type pd = R_JPEG);
     st \<leftarrow> (if cached then cache_picture ty b st else Some st);
     if lm_user_num st = 0 then do { st \<leftarrow> drop_frame cached b st; Some (OPERATION_SUCC, st) }
     else do {
       info \<leftarrow> get_video_data_info ty pd st;
       (case info of
          Inl _ \<Rightarrow> do { st \<leftarrow> drop_frame cached b st; Some (OPERATION_ERR, st) }
        | Inr (vd, st) \<Rightarrow> do {
            us \<leftarrow> get_send_userinfo vd st;
            if us = [] then do { st \<leftarrow> drop_frame cached b st; Some (OPERATION_ERR, st) }
            else do {
              st \<leftarrow> send_video_data_pdg env b us (vd_time vd) (vd_type vd) (vd_enc vd)
                      (if pd_data_type pd = R_JPEG then VIDEO_DATA_TYPE_HD else vd_quality vd) (vd_quality vd) st;
              Some (OPERATION_SUCC, st)
            }
          })
     }
   }"

subsection \<open>Viewers\<close>

text \<open>
  \<^verbatim>\<open>create_video_local_socket\<close>: \<open>fd\<close> is what \<^verbatim>\<open>socket\<close> returned, \<open>bnd\<close> whether \<^verbatim>\<open>bind\<close> succeeded.  The socket is
  not closed when it did not.
\<close>

definition create_video_local_socket :: "int \<Rightarrow> bool \<Rightarrow> lives_mode_info_t \<Rightarrow> int \<times> lives_mode_info_t" where
  "create_video_local_socket fd bnd st =
     (if bnd then fd else -1, if 0 \<le> fd then st\<lparr>lm_fds := lm_fds st @ [fd]\<rparr> else st)"

definition compare_addr :: "lives_user_addr_t \<Rightarrow> lives_user_addr_t \<Rightarrow> bool option" where
  "compare_addr a b = do { s \<leftarrow> strcmp_eq (la_ip a) (la_ip b); Some (s \<and> la_port a = la_port b) }"

fun compare_addrs :: "lives_user_addr_t list \<Rightarrow> lives_user_addr_t list \<Rightarrow> bool option" where
  "compare_addrs (a # as) (b # bs) = do { s \<leftarrow> compare_addr a b; if s then compare_addrs as bs else Some False }"
| "compare_addrs _ _ = Some True"

text \<open>True stands for the result 0: all nine addresses are the same.\<close>

definition compare_user_info :: "lives_user_info_t \<Rightarrow> lives_user_info_t \<Rightarrow> bool option" where
  "compare_user_info local net_user = compare_addrs (lu_addr local) (lu_addr net_user)"

fun search_users :: "lives_user_info_t \<Rightarrow> lives_user_info_t list \<Rightarrow> nat \<Rightarrow> nat option option" where
  "search_users u [] i = Some None"
| "search_users u (x # xs) i = do {
     s \<leftarrow> compare_user_info u x;
     if s then Some (Some i) else search_users u xs (Suc i)
   }"

definition set_jpeg_send_flag :: "lives_user_info_t \<Rightarrow> lives_user_info_t" where
  "set_jpeg_send_flag u = u\<lparr>lu_jpeg := JPEG_NO_SEND_FLAG\<rparr>"

definition set_user :: "nat \<Rightarrow> (lives_user_info_t \<Rightarrow> lives_user_info_t) \<Rightarrow> lives_mode_info_t \<Rightarrow> lives_mode_info_t" where
  "set_user i f st = st\<lparr>lm_users := (lm_users st)[i := f (lm_users st ! i)]\<rparr>"

definition fill_slot :: "lives_user_info_t \<Rightarrow> int \<Rightarrow> nat \<Rightarrow> lives_user_info_t \<Rightarrow> lives_user_info_t" where
  "fill_slot user fd i s =
     (set_jpeg_send_flag (s\<lparr>lu_fd := fd, lu_quality := lu_quality user, lu_id := lu_id user,
        lu_encode := lu_encode user, lu_addr := lu_addr user, lu_valid := 1\<rparr>))\<lparr>lu_index := int i\<rparr>"

definition interrupted :: "bool \<Rightarrow> lives_mode_info_t \<Rightarrow> int \<times> lives_mode_info_t" where
  "interrupted ok st =
     (case Interruption_msg ok st of (r, st) \<Rightarrow> (if r < 0 then OPERATION_ERR else OPERATION_SUCC, st))"

definition set_lives_user_info ::
  "int \<Rightarrow> bool \<Rightarrow> bool \<Rightarrow> lives_user_info_t \<Rightarrow> lives_mode_info_t \<Rightarrow> (int \<times> lives_mode_info_t) option" where
  "set_lives_user_info fd bnd ok user st =
     (if lm_user_num st = int VIDEO_USER_MAX_NUM then Some (OPERATION_ERR, st)
      else do {
        same \<leftarrow> search_users user (lm_users st) 0;
        (case same of
           Some _ \<Rightarrow> Some (OPERATION_SUCC, st)
         | None \<Rightarrow>
             (case find (\<lambda>i. lu_index (lm_users st ! i) = -1) [0..<length (lm_users st)] of
                None \<Rightarrow> Some (interrupted ok st)
              | Some i \<Rightarrow>
                  (case create_video_local_socket fd bnd st of
                     (fd', st) \<Rightarrow>
                       if fd' < 0 then Some (OPERATION_ERR, set_user i (\<lambda>s. s\<lparr>lu_fd := fd'\<rparr>) st)
                       else Some (interrupted ok
                              ((set_user i (fill_slot user fd' i) st)\<lparr>lm_user_num := lm_user_num st + 1\<rparr>)))))
      })"

definition close_slot :: "lives_user_info_t \<Rightarrow> lives_user_info_t" where
  "close_slot u = u\<lparr>lu_valid := 0\<rparr>"

definition stop_lives_user_info ::
  "bool \<Rightarrow> lives_user_info_t \<Rightarrow> lives_mode_info_t \<Rightarrow> (int \<times> lives_mode_info_t) option" where
  "stop_lives_user_info ok user st =
     (if lm_user_num st = 0 then Some (OPERATION_ERR, st)
      else do {
        same \<leftarrow> search_users user (lm_users st) 0;
        Some (case same of None \<Rightarrow> (OPERATION_ERR, st) | Some i \<Rightarrow> interrupted ok (set_user i close_slot st))
      })"

definition stop_lives_user_info_unusual ::
  "bool \<Rightarrow> int \<Rightarrow> lives_mode_info_t \<Rightarrow> int \<times> lives_mode_info_t" where
  "stop_lives_user_info_unusual ok user_id st =
     (if lm_user_num st = 0 then (OPERATION_ERR, st)
      else case find (\<lambda>i. lu_id (lm_users st ! i) = user_id) [0..<length (lm_users st)] of
             None \<Rightarrow> (OPERATION_ERR, st)
           | Some i \<Rightarrow> interrupted ok (set_user i close_slot st))"

definition stop_lives_user_all_unusual :: "bool \<Rightarrow> lives_mode_info_t \<Rightarrow> int \<times> lives_mode_info_t" where
  "stop_lives_user_all_unusual ok st =
     (if lm_user_num st = 0 then (OPERATION_ERR, st)
      else interrupted ok
        (st\<lparr>lm_users := map (\<lambda>u. if lu_valid u \<noteq> -1 then close_slot u else u) (lm_users st)\<rparr>))"

subsection \<open>Encoders\<close>

text \<open>
  \<^verbatim>\<open>set_lives_enc_info\<close>: the announced number is not compared with the length of the table; \<open>tys\<close> are the
  announced encoders (message types of the high and the low stream, kind).
\<close>

fun copy_encs :: "(int \<times> int \<times> int) list \<Rightarrow> nat \<Rightarrow> video_enc_info_t list \<Rightarrow> video_enc_info_t list option" where
  "copy_encs [] i encs = Some encs"
| "copy_encs ((h, l, k) # xs) i encs = do {
     e \<leftarrow> peek encs (int i);
     copy_encs xs (Suc i)
       (encs[i := e\<lparr>ve_HD := (ve_HD e)\<lparr>ll_sindex := h\<rparr>, ve_BD := (ve_BD e)\<lparr>ll_sindex := l\<rparr>, ve_type := k\<rparr>])
   }"

definition set_lives_enc_info ::
  "bool \<Rightarrow> (int \<times> int \<times> int) list \<Rightarrow> lives_mode_info_t \<Rightarrow> (int \<times> lives_mode_info_t) option" where
  "set_lives_enc_info ok tys st =
     (if tys = [] then
        Some (if lm_enc_valid st = 1 then interrupted ok (st\<lparr>lm_enc_valid := 0\<rparr>) else (OPERATION_SUCC, st))
      else do {
        encs \<leftarrow> copy_encs tys 0 (lm_encs st);
        Some (interrupted ok (st\<lparr>lm_enc_num := int (length tys), lm_enc_valid := 1, lm_encs := encs\<rparr>))
      })"

subsection \<open>What an interruption does\<close>

definition clear_enc :: "video_enc_info_t \<Rightarrow> video_enc_info_t" where
  "clear_enc e = (let e = reset_enc_clock e
     in e\<lparr>ve_HD := (ve_HD e)\<lparr>ll_sindex := -1\<rparr>, ve_BD := (ve_BD e)\<lparr>ll_sindex := -1\<rparr>, ve_type := -1\<rparr>)"

text \<open>The cached picture is freed; the pointer to it stays.\<close>

definition reset_live_mode_enc :: "lives_mode_info_t \<Rightarrow> lives_mode_info_t option" where
  "reset_live_mode_enc st =
     (if lm_enc_valid st \<noteq> 0 then Some st
      else (let st = st\<lparr>lm_encs := map clear_enc (lm_encs st), lm_enc_valid := -1, lm_enc_num := 0\<rparr>
            in if lm_jpeg_valid st \<noteq> 0 then Some st
               else (let st = st\<lparr>lm_jpeg_valid := -1\<rparr>
                     in case lm_jpeg_buf st of None \<Rightarrow> Some st | Some b \<Rightarrow> free_block b st)))"

fun reset_slots :: "lives_user_info_t list \<Rightarrow> int list \<Rightarrow> int \<Rightarrow> lives_user_info_t list \<times> int list \<times> int" where
  "reset_slots [] fds n = ([], fds, n)"
| "reset_slots (u # us) fds n =
     (if lu_valid u = 0
      then (case reset_slots us (remove1 (lu_fd u) fds) (n - 1) of
              (us', fds', n') \<Rightarrow> (init_lives_mode_info_ex u # us', fds', n'))
      else (case reset_slots us fds n of (us', fds', n') \<Rightarrow> (u # us', fds', n')))"

definition reset_live_mode_user :: "lives_mode_info_t \<Rightarrow> lives_mode_info_t" where
  "reset_live_mode_user st =
     (case reset_slots (lm_users st) (lm_fds st) (lm_user_num st) of
        (us, fds, n) \<Rightarrow> st\<lparr>lm_users := us, lm_fds := fds, lm_user_num := n\<rparr>)"

definition reset_live_mode_enc_time :: "lives_mode_info_t \<Rightarrow> lives_mode_info_t" where
  "reset_live_mode_enc_time st =
     (if lm_user_num st \<noteq> 0 then st\<lparr>lm_reset := 1\<rparr>
      else if lm_enc_valid st = 1 \<and> lm_reset st = 1
      then st\<lparr>lm_reset := 0, lm_encs := map reset_enc_clock (lm_encs st)\<rparr>
      else st)"

subsection \<open>The thread\<close>

definition lives_interruption :: "lives_mode_info_t \<Rightarrow> lives_mode_info_t option" where
  "lives_interruption st = do {
     st \<leftarrow> reset_live_mode_enc st;
     Some (reset_live_mode_enc_time (reset_live_mode_user st))
   }"

text \<open>One round of \<^verbatim>\<open>lives_mode_thread\<close>; with an empty queue it waits.\<close>

definition lives_round :: "live_env \<Rightarrow> lives_mode_info_t \<Rightarrow> lives_mode_info_t option" where
  "lives_round env st =
     (case lm_queue st of
        [] \<Rightarrow> Some st
      | (ty, mb) # q \<Rightarrow> do {
          let st = st\<lparr>lm_queue := q\<rparr>;
          if ty = INTERRUPTION_MSG_ID then lives_interruption st
          else do {
            st \<leftarrow> deal_video_jpeg_data env st;
            b \<leftarrow> mb;
            (r, st) \<leftarrow> local_media_data_pkg env ty b st;
            Some st
          }
        })"

text \<open>
  The end of the thread: the rest of the queue and the cached picture are freed, then the packetisers; \<open>dbg\<close> is
  whether the log thread has ended within the fifteen seconds it is given.
\<close>

fun drain_queue :: "(int \<times> nat option) list \<Rightarrow> lives_mode_info_t \<Rightarrow> lives_mode_info_t option" where
  "drain_queue [] st = Some (st\<lparr>lm_queue := []\<rparr>)"
| "drain_queue ((ty, mb) # q) st =
     (case mb of None \<Rightarrow> drain_queue q st | Some b \<Rightarrow> do { st \<leftarrow> free_block b st; drain_queue q st })"

definition uninit_lane :: "live_lane \<Rightarrow> live_lane" where
  "uninit_lane l = l\<lparr>ll_vrtp := rtp_build_uninit (ll_vrtp l), ll_artp := rtp_build_uninit (ll_artp l)\<rparr>"

definition lives_thread_end :: "bool \<Rightarrow> lives_mode_info_t \<Rightarrow> (int \<times> lives_mode_info_t) option" where
  "lives_thread_end dbg st = do {
     st \<leftarrow> drain_queue (lm_queue st) st;
     if \<not> dbg then Some (OPERATION_ERR, st)
     else do {
       st \<leftarrow> (case lm_jpeg_buf st of None \<Rightarrow> Some st | Some b \<Rightarrow> free_block b st);
       Some (OPERATION_SUCC, st\<lparr>lm_jpeg_buf := None,
         lm_encs := map (\<lambda>e. e\<lparr>ve_HD := uninit_lane (ve_HD e), ve_BD := uninit_lane (ve_BD e)\<rparr>) (lm_encs st)\<rparr>)
     }
   }"

subsection \<open>Whether a stream is wanted\<close>

text \<open>\<^verbatim>\<open>reset_enc_time_info\<close> ends without a \<^verbatim>\<open>return\<close>; its caller tests the value, here the argument \<open>noret\<close>.\<close>

definition reset_enc_time_info :: "int \<Rightarrow> int \<Rightarrow> lives_mode_info_t \<Rightarrow> int \<times> lives_mode_info_t" where
  "reset_enc_time_info noret i st =
     (if i < 0 \<or> i > int VIDEO_ENCODE_MAX_NUM - 1 then (-1, st)
      else (noret, st\<lparr>lm_encs := (lm_encs st)[nat i := reset_enc_clock (lm_encs st ! nat i)]\<rparr>))"

definition get_advance_request_enc_info ::
  "int \<Rightarrow> lives_mode_info_t \<Rightarrow> (unit + video_data_type_t) option" where
  "get_advance_request_enc_info ty st = do {
     found \<leftarrow> enc_search (lm_encs st) ty [0..<nat (lm_enc_num st)];
     Some (case found of
        None \<Rightarrow> Inl ()
      | Some (i, q, k) \<Rightarrow> Inr \<lparr>vd_enc = i, vd_quality = q, vd_type = k, vd_time = -1, vd_digit = enc_digit i\<rparr>)
   }"

definition get_advance_request_user_info :: "video_data_type_t \<Rightarrow> lives_mode_info_t \<Rightarrow> int" where
  "get_advance_request_user_info vd st =
     (if list_ex (\<lambda>u. lu_index u \<noteq> -1 \<and> distinguish_send_flag vd u) (lm_users st) then 1 else 0)"

definition recognition_req_strm_proc ::
  "int \<Rightarrow> int \<Rightarrow> lives_mode_info_t \<Rightarrow> (int \<times> lives_mode_info_t) option" where
  "recognition_req_strm_proc noret msgtype st =
     (if msgtype < 0 then Some (-1, st)
      else if lm_user_num st = 0 \<or> lm_enc_num st = 0 then Some (0, st)
      else do {
        info \<leftarrow> get_advance_request_enc_info msgtype st;
        (case info of
           Inl _ \<Rightarrow> Some (0, st)
         | Inr vd \<Rightarrow>
             (case reset_enc_time_info noret (int (vd_enc vd)) st of
                (r, st) \<Rightarrow> if r < 0 then Some (0, st) else Some (get_advance_request_user_info vd st, st)))
      })"

subsection \<open>The times of a stream\<close>













end
