(* ===== verification/LiveViewers.thy ===== *)
theory LiveViewers
  imports Lives "HOL-Library.Multiset"
begin

section \<open>The viewers of a room (src/reach\_edukit/src/room/lives/lives.c)\<close>

text \<open>
  The table of viewers of the live module against what it promises: a multiset of viewers.  The requests come from
  other threads; the removals happen when the module's thread handles an interruption.
\<close>

subsection \<open>The table of viewers\<close>

text \<open>
  What the table stands for: the multiset of viewers, each with its nine addresses (as \<^verbatim>\<open>strcmp\<close> reads them), what it
  asked for, its socket and whether it is to be dropped; and how many interruptions wait in the queue.
\<close>

record viewer =
  vw_key :: "(byte list \<times> int) list"
  vw_quality :: int
  vw_encode :: "byte list"
  vw_id :: int
  vw_fd :: int
  vw_closing :: bool

definition addr_key :: "lives_user_addr_t \<Rightarrow> byte list \<times> int" where
  "addr_key a = (takeWhile (\<lambda>c. c \<noteq> 0) (la_ip a), la_port a)"

definition user_key :: "lives_user_info_t \<Rightarrow> (byte list \<times> int) list" where
  "user_key u = map addr_key (lu_addr u)"

definition no_key :: "(byte list \<times> int) list" where
  "no_key = replicate VIDEO_ENCODE_MAX_NUM ([], 0)"

definition viewer_of :: "lives_user_info_t \<Rightarrow> viewer" where
  "viewer_of u = \<lparr>vw_key = user_key u, vw_quality = lu_quality u, vw_encode = lu_encode u, vw_id = lu_id u,
     vw_fd = lu_fd u, vw_closing = (lu_valid u = 0)\<rparr>"

definition occupied :: "lives_user_info_t \<Rightarrow> bool" where "occupied u \<longleftrightarrow> lu_index u \<noteq> -1"

definition viewers :: "lives_mode_info_t \<Rightarrow> viewer multiset \<times> nat" where
  "viewers st = (image_mset viewer_of (mset (filter occupied (lm_users st))), length (lm_queue st))"

text \<open>The requests that reach the module from other threads, and the rounds of its own thread.\<close>

datatype live_op =
  Join int bool bool lives_user_info_t
| Leave bool lives_user_info_t
| Drop bool int
| DropAll bool
| Announce bool "(int \<times> int \<times> int) list"
| Round

definition live_step :: "live_env \<Rightarrow> live_op \<Rightarrow> lives_mode_info_t \<Rightarrow> (int \<times> lives_mode_info_t) option" where
  "live_step env op st =
     (case op of
        Join fd bnd ok u \<Rightarrow> set_lives_user_info fd bnd ok u st
      | Leave ok u \<Rightarrow> stop_lives_user_info ok u st
      | Drop ok i \<Rightarrow> Some (stop_lives_user_info_unusual ok i st)
      | DropAll ok \<Rightarrow> Some (stop_lives_user_all_unusual ok st)
      | Announce ok tys \<Rightarrow> set_lives_enc_info ok tys st
      | Round \<Rightarrow> map_option (Pair 0) (lives_round env st))"

text \<open>
  The contract: a viewer is entered unless the room is full, it is there already or it gets no socket; a viewer
  that leaves or is dropped is marked, and the next interruption removes all that are marked.
\<close>

definition signal :: "bool \<Rightarrow> nat \<Rightarrow> int \<Rightarrow> nat \<Rightarrow> bool" where
  "signal ok n r n' \<longleftrightarrow> r = (if ok then 0 else -1) \<and> n' = (if ok then n + 1 else n)"

definition closing :: "viewer \<Rightarrow> viewer" where "closing v = v\<lparr>vw_closing := True\<rparr>"

fun live_spec :: "live_op \<Rightarrow> viewer multiset \<times> nat \<Rightarrow> int \<Rightarrow> viewer multiset \<times> nat \<Rightarrow> bool" where
  "live_spec (Join fd bnd ok u) (V, n) r (V', n') \<longleftrightarrow>
     (if size V = VIDEO_USER_MAX_NUM then r = -1 \<and> V' = V \<and> n' = n
      else if \<exists>v. v \<in># V \<and> vw_key v = user_key u then r = 0 \<and> V' = V \<and> n' = n
      else if \<not> bnd then r = -1 \<and> V' = V \<and> n' = n
      else V' = add_mset \<lparr>vw_key = user_key u, vw_quality = lu_quality u, vw_encode = lu_encode u, vw_id = lu_id u,
                          vw_fd = fd, vw_closing = False\<rparr> V \<and> signal ok n r n')"
| "live_spec (Leave ok u) (V, n) r (V', n') \<longleftrightarrow>
     (if \<exists>v. v \<in># V \<and> vw_key v = user_key u
      then V' = image_mset (\<lambda>v. if vw_key v = user_key u then closing v else v) V \<and> signal ok n r n'
      else r = -1 \<and> V' = V \<and> n' = n)"
| "live_spec (Drop ok i) (V, n) r (V', n') \<longleftrightarrow>
     (if \<exists>v. v \<in># V \<and> vw_id v = i
      then (\<exists>v. v \<in># V \<and> vw_id v = i \<and> V' = add_mset (closing v) (V - {#v#})) \<and> signal ok n r n'
      else r = -1 \<and> V' = V \<and> n' = n)"
| "live_spec (DropAll ok) (V, n) r (V', n') \<longleftrightarrow>
     (if V = {#} then r = -1 \<and> V' = V \<and> n' = n else V' = image_mset closing V \<and> signal ok n r n')"
| "live_spec (Announce ok tys) (V, n) r (V', n') \<longleftrightarrow> V' = V \<and> (signal ok n r n' \<or> r = 0 \<and> n' = n)"
| "live_spec Round (V, n) r (V', n') \<longleftrightarrow>
     r = 0 \<and> (if n = 0 then V' = V \<and> n' = 0 else V' = filter_mset (\<lambda>v. \<not> vw_closing v) V \<and> n = Suc n')"

text \<open>
  Legal requests: complete addresses that are not all empty, at most nine encoders, no \<^verbatim>\<open>stop\<close> for the id -1 that
  marks free slots, and a socket of its own for a new viewer.
\<close>

definition addr_ok :: "lives_user_addr_t list \<Rightarrow> bool" where
  "addr_ok as \<longleftrightarrow> length as = VIDEO_ENCODE_MAX_NUM \<and> list_all (\<lambda>a. 0 \<in> set (la_ip a)) as"

definition user_ok :: "lives_user_info_t \<Rightarrow> bool" where
  "user_ok u \<longleftrightarrow> addr_ok (lu_addr u) \<and> user_key u \<noteq> no_key"

definition live_legal :: "live_op \<Rightarrow> lives_mode_info_t \<Rightarrow> bool" where
  "live_legal op st =
     (case op of
        Join fd bnd ok u \<Rightarrow> user_ok u \<and> (if bnd then 0 \<le> fd \<and> fd \<notin> set (lm_fds st) else fd < 0)
      | Leave ok u \<Rightarrow> user_ok u
      | Drop ok i \<Rightarrow> i \<noteq> -1
      | Announce ok tys \<Rightarrow> length tys \<le> VIDEO_ENCODE_MAX_NUM
      | _ \<Rightarrow> True)"

fun live_legal_run :: "live_env \<Rightarrow> live_op list \<Rightarrow> lives_mode_info_t \<Rightarrow> bool" where
  "live_legal_run env [] st = True"
| "live_legal_run env (op # ops) st =
     (live_legal op st \<and> (case live_step env op st of None \<Rightarrow> True | Some (r, st') \<Rightarrow> live_legal_run env ops st'))"

fun live_run :: "live_env \<Rightarrow> live_op list \<Rightarrow> lives_mode_info_t \<Rightarrow> (int list \<times> lives_mode_info_t) option" where
  "live_run env [] st = Some ([], st)"
| "live_run env (op # ops) st = do {
     (r, st) \<leftarrow> live_step env op st;
     (rs, st) \<leftarrow> live_run env ops st;
     Some (r # rs, st)
   }"

fun spec_run :: "live_op list \<Rightarrow> viewer multiset \<times> nat \<Rightarrow> int list \<Rightarrow> viewer multiset \<times> nat \<Rightarrow> bool" where
  "spec_run [] a [] c \<longleftrightarrow> c = a"
| "spec_run (op # ops) a (r # rs) c \<longleftrightarrow> (\<exists>b. live_spec op a r b \<and> spec_run ops b rs c)"
| "spec_run _ _ _ _ \<longleftrightarrow> False"

text \<open>What every legal request keeps.\<close>

definition live_slot_ok :: "nat \<Rightarrow> lives_user_info_t \<Rightarrow> bool" where
  "live_slot_ok i u \<longleftrightarrow> addr_ok (lu_addr u) \<and>
     (if occupied u then lu_index u = int i \<and> (lu_valid u = 0 \<or> lu_valid u = 1) \<and> user_key u \<noteq> no_key
      else lu_valid u = -1 \<and> lu_id u = -1 \<and> lu_fd u = -1 \<and> user_key u = no_key)"

definition table_ok :: "lives_user_info_t list \<Rightarrow> bool" where
  "table_ok us \<longleftrightarrow> length us = VIDEO_USER_MAX_NUM \<and> (\<forall>i < length us. live_slot_ok i (us ! i))
     \<and> (\<forall>i < length us. \<forall>j < length us. i \<noteq> j \<and> occupied (us ! i) \<and> occupied (us ! j) \<longrightarrow>
          user_key (us ! i) \<noteq> user_key (us ! j))"

definition viewers_ok :: "lives_mode_info_t \<Rightarrow> bool" where
  "viewers_ok st \<longleftrightarrow> table_ok (lm_users st)
     \<and> lm_user_num st = int (length (filter occupied (lm_users st)))
     \<and> distinct (lm_fds st) \<and> mset (lm_fds st) = image_mset lu_fd (mset (filter occupied (lm_users st)))
     \<and> length (lm_encs st) = VIDEO_ENCODE_MAX_NUM \<and> lm_jpeg_valid st = -1
     \<and> set (lm_queue st) \<subseteq> {(INTERRUPTION_MSG_ID, None)}"

lemma strcmp_eq_key:
  "0 \<in> set x \<Longrightarrow> 0 \<in> set y \<Longrightarrow> strcmp_eq x y = Some (takeWhile (\<lambda>c. c \<noteq> 0) x = takeWhile (\<lambda>c. c \<noteq> 0) y)"
proof (induction x y rule: strcmp_eq.induct)
  case (1 x xs y ys)
  then show ?case by auto
qed auto

lemma compare_addrs_key:
  "length as = length bs \<Longrightarrow> list_all (\<lambda>a. 0 \<in> set (la_ip a)) as \<Longrightarrow> list_all (\<lambda>a. 0 \<in> set (la_ip a)) bs \<Longrightarrow>
     compare_addrs as bs = Some (map addr_key as = map addr_key bs)"
  by (induction as bs rule: list_induct2) (auto simp: compare_addr_def strcmp_eq_key addr_key_def)

lemma compare_user_key:
  "addr_ok (lu_addr u) \<Longrightarrow> addr_ok (lu_addr x) \<Longrightarrow> compare_user_info u x = Some (user_key u = user_key x)"
  by (simp add: compare_user_info_def addr_ok_def user_key_def compare_addrs_key)

lemma search_users_find:
  assumes "addr_ok (lu_addr u)" "list_all (\<lambda>x. addr_ok (lu_addr x)) xs"
  shows "case search_users u xs i of
      None \<Rightarrow> False
    | Some None \<Rightarrow> \<forall>x \<in> set xs. user_key x \<noteq> user_key u
    | Some (Some j) \<Rightarrow> i \<le> j \<and> j - i < length xs \<and> user_key (xs ! (j - i)) = user_key u"
  using assms(2)
proof (induction xs arbitrary: i)
  case (Cons x xs)
  have c: "compare_user_info u x = Some (user_key u = user_key x)"
    using compare_user_key assms(1) Cons.prems by simp
  show ?case
    using Cons.IH [of "Suc i"] Cons.prems c
    by (auto split: option.splits simp: nth_Cons' Suc_le_eq intro: Suc_leD)
qed simp

lemma mset_filter_update:
  assumes "i < length xs"
  shows "mset (filter P (xs[i := v])) + (if P (xs ! i) then {#xs ! i#} else {#})
       = mset (filter P xs) + (if P v then {#v#} else {#})"
proof -
  have "filter P xs = filter P (take i xs) @ (if P (xs ! i) then [xs ! i] else []) @ filter P (drop (Suc i) xs)"
    by (subst id_take_nth_drop [OF assms]) simp
  then have "mset (filter P xs) = mset (filter P (take i xs)) + mset (filter P (drop (Suc i) xs))
      + (if P (xs ! i) then {#xs ! i#} else {#})" by simp
  moreover have "mset (filter P (xs[i := v])) = mset (filter P (take i xs)) + mset (filter P (drop (Suc i) xs))
      + (if P v then {#v#} else {#})"
    using assms by (simp add: upd_conv_take_nth_drop)
  ultimately show ?thesis by simp
qed

lemma slots_addr_ok: "table_ok us \<Longrightarrow> list_all (\<lambda>x. addr_ok (lu_addr x)) us"
  by (auto simp: table_ok_def live_slot_ok_def list_all_length)

lemma interrupted_ok:
  assumes "viewers_ok st" "viewers st = (V, n)"
  shows "\<exists>r st' n'. interrupted ok st = (r, st') \<and> viewers_ok st' \<and> viewers st' = (V, n') \<and> signal ok n r n'"
  using assms
  by (auto simp: interrupted_def Interruption_msg_def viewers_ok_def viewers_def signal_def OPERATION_SUCC_def
      OPERATION_ERR_def)

lemma viewer_of_fields [simp]:
  "vw_key (viewer_of u) = user_key u" "vw_id (viewer_of u) = lu_id u" "vw_fd (viewer_of u) = lu_fd u"
  by (simp_all add: viewer_of_def)

lemma close_slot_fields [simp]:
  "user_key (close_slot u) = user_key u" "occupied (close_slot u) = occupied u"
  "lu_fd (close_slot u) = lu_fd u" "viewer_of (close_slot u) = closing (viewer_of u)"
  "lu_addr (close_slot u) = lu_addr u" "lu_index (close_slot u) = lu_index u"
  by (simp_all add: close_slot_def user_key_def occupied_def viewer_of_def closing_def)

lemma table_ok_update:
  assumes "table_ok us" "i < length us" "live_slot_ok i v"
    and "\<And>j. j < length us \<Longrightarrow> j \<noteq> i \<Longrightarrow> occupied v \<Longrightarrow> occupied (us ! j) \<Longrightarrow> user_key (us ! j) \<noteq> user_key v"
  shows "table_ok (us[i := v])"
  unfolding table_ok_def
proof (intro conjI allI impI)
  show "length (us[i := v]) = VIDEO_USER_MAX_NUM" using assms(1) by (simp add: table_ok_def)
next
  fix j assume "j < length (us[i := v])"
  then show "live_slot_ok j (us[i := v] ! j)"
    using assms(1,3) by (cases "j = i") (auto simp: table_ok_def)
next
  fix j k
  assume jk: "j < length (us[i := v])" "k < length (us[i := v])"
    and o: "j \<noteq> k \<and> occupied (us[i := v] ! j) \<and> occupied (us[i := v] ! k)"
  consider "j = i" "k \<noteq> i" | "k = i" "j \<noteq> i" | "j \<noteq> i" "k \<noteq> i" using o by blast
  then show "user_key (us[i := v] ! j) \<noteq> user_key (us[i := v] ! k)"
  proof cases
    case 1
    then show ?thesis using assms(4) [of k] jk o by (metis length_list_update nth_list_update_eq nth_list_update_neq)
  next
    case 2
    then show ?thesis using assms(4) [of j] jk o by (metis length_list_update nth_list_update_eq nth_list_update_neq)
  next
    case 3
    then show ?thesis using assms(1) jk o by (simp add: table_ok_def)
  qed
qed

lemma table_slot: "table_ok us \<Longrightarrow> i < length us \<Longrightarrow> live_slot_ok i (us ! i)"
  by (simp add: table_ok_def)

lemma slot_ok_close: "live_slot_ok i u \<Longrightarrow> occupied u \<Longrightarrow> live_slot_ok i (close_slot u)"
  by (simp add: live_slot_ok_def close_slot_def occupied_def user_key_def)

text \<open>Marking an occupied slot changes one viewer.\<close>

lemma mark_slot_ok:
  assumes ok: "viewers_ok st" and V: "viewers st = (V, n)"
    and i: "i < length (lm_users st)" "occupied (lm_users st ! i)"
  defines "v \<equiv> viewer_of (lm_users st ! i)"
  shows "viewers_ok (set_user i close_slot st)"
    "viewers (set_user i close_slot st) = (add_mset (closing v) (V - {#v#}), n)" "v \<in># V"
proof -
  let ?u = "lm_users st ! i"
  have t: "table_ok (lm_users st)" using ok by (simp add: viewers_ok_def)
  have tab: "table_ok ((lm_users st)[i := close_slot ?u])"
  proof (rule table_ok_update [OF t i(1) slot_ok_close [OF table_slot [OF t i(1)] i(2)]])
    fix j assume "j < length (lm_users st)" "j \<noteq> i" "occupied (lm_users st ! j)"
    then show "user_key (lm_users st ! j) \<noteq> user_key (close_slot ?u)"
      using t i by (simp add: table_ok_def)
  qed
  have m: "mset (filter occupied ((lm_users st)[i := close_slot ?u])) + {#?u#}
      = mset (filter occupied (lm_users st)) + {#close_slot ?u#}"
    using mset_filter_update [OF i(1), of occupied "close_slot ?u"] i(2) by simp
  have "length (filter occupied ((lm_users st)[i := close_slot ?u])) = length (filter occupied (lm_users st))"
    using arg_cong [OF m, of size] by (simp del: mset_filter)
  moreover have "image_mset lu_fd (mset (filter occupied ((lm_users st)[i := close_slot ?u])))
      = image_mset lu_fd (mset (filter occupied (lm_users st)))"
    using arg_cong [OF m, of "image_mset lu_fd"] by simp
  ultimately show "viewers_ok (set_user i close_slot st)"
    using ok tab by (simp add: viewers_ok_def set_user_def)
  have V': "V = image_mset viewer_of (mset (filter occupied (lm_users st)))" "n = length (lm_queue st)"
    using V by (simp_all add: viewers_def)
  have "image_mset viewer_of (mset (filter occupied ((lm_users st)[i := close_slot ?u]))) + {#v#} = V + {#closing v#}"
    using arg_cong [OF m, of "image_mset viewer_of"] V'(1) by (simp add: v_def)
  then have "image_mset viewer_of (mset (filter occupied ((lm_users st)[i := close_slot ?u]))) = V + {#closing v#} - {#v#}"
    by (metis add_diff_cancel_right')
  moreover show "v \<in># V" using i V'(1) by (auto simp: v_def)
  ultimately show "viewers (set_user i close_slot st) = (add_mset (closing v) (V - {#v#}), n)"
    using V'(2) by (simp add: viewers_def set_user_def)
qed

definition sim_ok :: "live_op \<Rightarrow> lives_mode_info_t \<Rightarrow> (int \<times> lives_mode_info_t) option \<Rightarrow> bool" where
  "sim_ok op st res \<longleftrightarrow>
     (\<exists>r st'. res = Some (r, st') \<and> viewers_ok st' \<and> live_spec op (viewers st) r (viewers st'))"

lemma sim_okI:
  "viewers_ok st' \<Longrightarrow> live_spec op (viewers st) r (viewers st') \<Longrightarrow> sim_ok op st (Some (r, st'))"
  by (auto simp: sim_ok_def)

lemma sim_interrupted:
  assumes "viewers_ok st1" "viewers st1 = (V', n)"
    and "\<And>r n'. signal ok n r n' \<Longrightarrow> live_spec op (viewers st) r (V', n')"
  shows "sim_ok op st (Some (interrupted ok st1))"
  using interrupted_ok [OF assms(1,2), of ok] assms(3) by (auto simp: sim_ok_def)

lemma user_num_size:
  assumes "viewers_ok st" "viewers st = (V, n)"
  shows "lm_user_num st = int (size V)" "size V \<le> VIDEO_USER_MAX_NUM"
proof -
  have "size V = length (filter occupied (lm_users st))"
    using assms(2) by (auto simp: viewers_def simp flip: size_mset simp del: mset_filter)
  with assms(1) length_filter_le [of occupied "lm_users st"]
  show "lm_user_num st = int (size V)" "size V \<le> VIDEO_USER_MAX_NUM"
    by (simp_all add: viewers_ok_def table_ok_def)
qed

lemma viewer_of_slot:
  assumes "viewers st = (V, n)"
  shows "v \<in># V \<longleftrightarrow> (\<exists>i < length (lm_users st). occupied (lm_users st ! i) \<and> v = viewer_of (lm_users st ! i))"
proof -
  have "v \<in># V \<longleftrightarrow> v \<in> viewer_of ` {u \<in> set (lm_users st). occupied u}" using assms by (auto simp: viewers_def)
  then show ?thesis by (auto simp: in_set_conv_nth image_iff)
qed

lemma free_key: "live_slot_ok i u \<Longrightarrow> \<not> occupied u \<Longrightarrow> user_key u = no_key"
  by (simp add: live_slot_ok_def)

lemma search_slot:
  assumes "viewers_ok st" "viewers st = (V, n)" "user_ok u"
  shows "(\<exists>i < length (lm_users st). search_users u (lm_users st) 0 = Some (Some i) \<and> occupied (lm_users st ! i)
            \<and> user_key (lm_users st ! i) = user_key u)
       \<or> search_users u (lm_users st) 0 = Some None \<and> (\<forall>v. v \<in># V \<longrightarrow> vw_key v \<noteq> user_key u)"
proof -
  have t: "table_ok (lm_users st)" using assms(1) by (simp add: viewers_ok_def)
  have a: "addr_ok (lu_addr u)" "user_key u \<noteq> no_key" using assms(3) by (simp_all add: user_ok_def)
  note S = search_users_find [OF a(1) slots_addr_ok [OF t], of 0]
  show ?thesis
  proof (cases "search_users u (lm_users st) 0")
    case None
    then show ?thesis using S by simp
  next
    case (Some r)
    show ?thesis
    proof (cases r)
      case None
      then have n: "\<forall>x \<in> set (lm_users st). user_key x \<noteq> user_key u" using S Some by simp
      have "vw_key v \<noteq> user_key u" if v: "v \<in># V" for v
      proof -
        obtain j where "j < length (lm_users st)" "v = viewer_of (lm_users st ! j)"
          using v viewer_of_slot [OF assms(2)] by blast
        then show ?thesis using n by simp
      qed
      then show ?thesis using Some None by simp
    next
      case j: (Some j)
      then have j': "j < length (lm_users st)" "user_key (lm_users st ! j) = user_key u" using S Some by simp_all
      then have "occupied (lm_users st ! j)"
        using free_key [OF table_slot [OF t j'(1)]] a(2) by auto
      then show ?thesis using Some j j' by blast
    qed
  qed
qed

lemma sim_Leave:
  assumes ok: "viewers_ok st" and u: "user_ok u"
  shows "sim_ok (Leave ok' u) st (stop_lives_user_info ok' u st)"
proof -
  obtain V n where V: "viewers st = (V, n)" by fastforce
  have num: "lm_user_num st = int (size V)" using user_num_size(1) [OF ok V] .
  show ?thesis
  proof (cases "V = {#}")
    case True
    then show ?thesis using num V ok by (auto simp: stop_lives_user_info_def OPERATION_ERR_def intro!: sim_okI)
  next
    case False
    then have n0: "lm_user_num st \<noteq> 0" using num by simp
    from search_slot [OF ok V u] show ?thesis
    proof
      assume "\<exists>i < length (lm_users st). search_users u (lm_users st) 0 = Some (Some i) \<and> occupied (lm_users st ! i)
            \<and> user_key (lm_users st ! i) = user_key u"
      then obtain i where i: "i < length (lm_users st)" "search_users u (lm_users st) 0 = Some (Some i)"
        "occupied (lm_users st ! i)" "user_key (lm_users st ! i) = user_key u" by blast
      let ?v = "viewer_of (lm_users st ! i)"
      note m = mark_slot_ok [OF ok V i(1,3)]
      let ?f = "\<lambda>x. if occupied x \<and> user_key x = user_key u then close_slot x else x"
      let ?g = "\<lambda>v. if vw_key v = user_key u then closing v else v"
      have "(lm_users st)[i := close_slot (lm_users st ! i)] = map ?f (lm_users st)"
      proof (rule nth_equalityI)
        fix j assume "j < length ((lm_users st)[i := close_slot (lm_users st ! i)])"
        then have j: "j < length (lm_users st)" by simp
        have "j = i" if "occupied (lm_users st ! j)" "user_key (lm_users st ! j) = user_key u"
          using ok i j that unfolding viewers_ok_def table_ok_def by metis
        then show "(lm_users st)[i := close_slot (lm_users st ! i)] ! j = map ?f (lm_users st) ! j"
          using i(1,3,4) j by (cases "j = i") auto
      qed simp
      moreover have "filter occupied (map ?f us) = map ?f (filter occupied us)" for us by (induction us) auto
      ultimately have "viewers (set_user i close_slot st)
          = (image_mset viewer_of (image_mset ?f (mset (filter occupied (lm_users st)))), length (lm_queue st))"
        by (simp add: viewers_def set_user_def del: mset_filter flip: mset_map)
      also have "image_mset viewer_of (image_mset ?f (mset (filter occupied (lm_users st)))) = image_mset ?g V"
        using V by (auto simp: viewers_def image_mset.compositionality comp_def intro!: image_mset_cong)
      finally have e: "add_mset (closing ?v) (V - {#?v#}) = image_mset ?g V" using m(2) by simp
      have "\<exists>v. v \<in># V \<and> vw_key v = user_key u" using m(3) i(4) by (intro exI [of _ ?v]) simp
      then show ?thesis
        using n0 i(2) V by (auto simp: stop_lives_user_info_def simp flip: e intro!: sim_interrupted [OF m(1,2)])
    next
      assume "search_users u (lm_users st) 0 = Some None \<and> (\<forall>v. v \<in># V \<longrightarrow> vw_key v \<noteq> user_key u)"
      then show ?thesis
        using n0 ok V by (auto simp: stop_lives_user_info_def OPERATION_ERR_def intro!: sim_okI)
    qed
  qed
qed

lemma sim_Drop:
  assumes ok: "viewers_ok st" and i: "i \<noteq> -1"
  shows "sim_ok (Drop ok' i) st (Some (stop_lives_user_info_unusual ok' i st))"
proof -
  obtain V n where V: "viewers st = (V, n)" by fastforce
  have num: "lm_user_num st = int (size V)" using user_num_size(1) [OF ok V] .
  have t: "table_ok (lm_users st)" using ok by (simp add: viewers_ok_def)
  show ?thesis
  proof (cases "V = {#}")
    case True
    then show ?thesis using num V ok by (auto simp: stop_lives_user_info_unusual_def OPERATION_ERR_def intro!: sim_okI)
  next
    case False
    then have n0: "lm_user_num st \<noteq> 0" using num by simp
    show ?thesis
    proof (cases "find (\<lambda>j. lu_id (lm_users st ! j) = i) [0..<length (lm_users st)]")
      case None
      then have "\<not> (\<exists>v. v \<in># V \<and> vw_id v = i)" using viewer_of_slot [OF V] by (auto simp: find_upt_None)
      then show ?thesis
        using n0 None ok V by (auto simp: stop_lives_user_info_unusual_def OPERATION_ERR_def intro!: sim_okI)
    next
      case (Some j)
      then have j: "j < length (lm_users st)" "lu_id (lm_users st ! j) = i" by (auto simp: find_upt_Some)
      then have o: "occupied (lm_users st ! j)" using table_slot [OF t j(1)] i by (auto simp: live_slot_ok_def split: if_split_asm)
      note m = mark_slot_ok [OF ok V j(1) o]
      have "\<exists>v. v \<in># V \<and> vw_id v = i" using m(3) j(2) by (intro exI [of _ "viewer_of (lm_users st ! j)"]) simp
      then show ?thesis
        using n0 Some j(2) m(3) V
        by (auto simp: stop_lives_user_info_unusual_def intro!: sim_interrupted [OF m(1,2)] exI [of _ "viewer_of (lm_users st ! j)"])
    qed
  qed
qed

lemma sim_DropAll:
  assumes ok: "viewers_ok st"
  shows "sim_ok (DropAll ok') st (Some (stop_lives_user_all_unusual ok' st))"
proof -
  obtain V n where V: "viewers st = (V, n)" by fastforce
  have num: "lm_user_num st = int (size V)" using user_num_size(1) [OF ok V] .
  have t: "table_ok (lm_users st)" using ok by (simp add: viewers_ok_def)
  let ?f = "\<lambda>u. if lu_valid u \<noteq> -1 then close_slot u else u"
  have occ: "occupied (?f u) = occupied u" "user_key (?f u) = user_key u" "lu_fd (?f u) = lu_fd u" for u by simp_all
  have sl: "live_slot_ok j (?f u)" if "live_slot_ok j u" for j u
    using that slot_ok_close [of j u] by (auto simp: live_slot_ok_def)
  have t': "table_ok (map ?f (lm_users st))" using t sl by (simp add: table_ok_def occ)
  have fl: "filter occupied (map ?f us) = map ?f (filter occupied us)" for us by (induction us) auto
  show ?thesis
  proof (cases "V = {#}")
    case True
    then show ?thesis using num V ok by (auto simp: stop_lives_user_all_unusual_def OPERATION_ERR_def intro!: sim_okI)
  next
    case False
    then have n0: "lm_user_num st \<noteq> 0" using num by simp
    let ?st = "st\<lparr>lm_users := map ?f (lm_users st)\<rparr>"
    have ok1: "viewers_ok ?st"
      using ok t' unfolding viewers_ok_def by (simp add: fl image_mset.compositionality comp_def occ del: mset_filter)
    have v: "viewer_of (?f u) = closing (viewer_of u)" if "u \<in> set (filter occupied (lm_users st))" for u
    proof -
      have "u \<in> set (lm_users st)" "occupied u" using that by simp_all
      then obtain j where "j < length (lm_users st)" "u = lm_users st ! j" "occupied u"
        by (metis in_set_conv_nth)
      then have "lu_valid u \<noteq> -1" using table_slot [OF t, of j] by (auto simp: live_slot_ok_def)
      then show ?thesis by simp
    qed
    have "image_mset viewer_of (mset (filter occupied (map ?f (lm_users st))))
        = image_mset (\<lambda>u. viewer_of (?f u)) (mset (filter occupied (lm_users st)))"
      unfolding fl by (simp add: image_mset.compositionality comp_def del: mset_filter)
    also have "\<dots> = image_mset (\<lambda>u. closing (viewer_of u)) (mset (filter occupied (lm_users st)))"
      by (rule image_mset_cong) (use v in \<open>simp del: mset_filter\<close>)
    also have "\<dots> = image_mset closing V" using V by (auto simp: viewers_def image_mset.compositionality comp_def)
    finally have V1: "viewers ?st = (image_mset closing V, n)" using V by (simp add: viewers_def del: mset_filter)
    show ?thesis
      using n0 V False by (auto simp: stop_lives_user_all_unusual_def intro!: sim_interrupted [OF ok1 V1])
  qed
qed

lemma copy_encs_some:
  "i + length tys \<le> length encs \<Longrightarrow> \<exists>e. copy_encs tys i encs = Some e \<and> length e = length encs"
proof (induction tys i encs rule: copy_encs.induct)
  case (2 h l k xs i encs)
  then have p: "peek encs (int i) = Some (encs ! i)" by (simp add: peek_nat)
  show ?case using "2.IH" [OF p] "2.prems" p by simp
qed simp

lemma sim_Announce:
  assumes ok: "viewers_ok st" and l: "length tys \<le> VIDEO_ENCODE_MAX_NUM"
  shows "sim_ok (Announce ok' tys) st (set_lives_enc_info ok' tys st)"
proof -
  obtain V n where V: "viewers st = (V, n)" by fastforce
  show ?thesis
  proof (cases "tys = []")
    case True
    have ok1: "viewers_ok (st\<lparr>lm_enc_valid := 0\<rparr>)" using ok by (simp add: viewers_ok_def)
    have V1: "viewers (st\<lparr>lm_enc_valid := 0\<rparr>) = (V, n)" using V by (simp add: viewers_def)
    show ?thesis
      using True ok V by (auto simp: set_lives_enc_info_def OPERATION_SUCC_def intro!: sim_interrupted [OF ok1 V1] sim_okI)
  next
    case False
    obtain e where e: "copy_encs tys 0 (lm_encs st) = Some e" "length e = length (lm_encs st)"
      using copy_encs_some [of 0 tys "lm_encs st"] l ok by (auto simp: viewers_ok_def)
    let ?st = "st\<lparr>lm_enc_num := int (length tys), lm_enc_valid := 1, lm_encs := e\<rparr>"
    have ok1: "viewers_ok ?st" using ok e(2) by (simp add: viewers_ok_def)
    have V1: "viewers ?st = (V, n)" using V by (simp add: viewers_def)
    show ?thesis
      using False e(1) V by (auto simp: set_lives_enc_info_def intro!: sim_interrupted [OF ok1 V1])
  qed
qed

lemma sim_Join:
  assumes ok: "viewers_ok st" and u: "user_ok u" and fd: "if bnd then 0 \<le> fd \<and> fd \<notin> set (lm_fds st) else fd < 0"
  shows "sim_ok (Join fd bnd ok' u) st (set_lives_user_info fd bnd ok' u st)"
proof -
  obtain V n where V: "viewers st = (V, n)" by fastforce
  have num: "lm_user_num st = int (size V)" "size V \<le> VIDEO_USER_MAX_NUM" using user_num_size [OF ok V] .
  have t: "table_ok (lm_users st)" using ok by (simp add: viewers_ok_def)
  let ?us = "lm_users st"
  show ?thesis
  proof (cases "size V = VIDEO_USER_MAX_NUM")
    case True
    then show ?thesis using num V ok by (auto simp: set_lives_user_info_def OPERATION_ERR_def intro!: sim_okI)
  next
    case False
    then have full: "lm_user_num st \<noteq> int VIDEO_USER_MAX_NUM" using num by simp
    from search_slot [OF ok V u] show ?thesis
    proof
      assume "\<exists>i < length ?us. search_users u ?us 0 = Some (Some i) \<and> occupied (?us ! i) \<and> user_key (?us ! i) = user_key u"
      then obtain i where i: "i < length ?us" "search_users u ?us 0 = Some (Some i)" "occupied (?us ! i)"
        "user_key (?us ! i) = user_key u" by blast
      have "\<exists>v. v \<in># V \<and> vw_key v = user_key u"
        using i viewer_of_slot [OF V] by (intro exI [of _ "viewer_of (?us ! i)"]) auto
      then show ?thesis
        using full False i(2) V ok by (auto simp: set_lives_user_info_def OPERATION_SUCC_def intro!: sim_okI)
    next
      assume none: "search_users u ?us 0 = Some None \<and> (\<forall>v. v \<in># V \<longrightarrow> vw_key v \<noteq> user_key u)"
      then have nk: "\<not> (\<exists>v. v \<in># V \<and> vw_key v = user_key u)" by blast
      have "length (filter occupied ?us) < length ?us"
        using ok full length_filter_le [of occupied ?us] by (auto simp: viewers_ok_def table_ok_def le_neq_implies_less)
      then obtain x where "x \<in> set ?us" "\<not> occupied x" by (metis filter_True less_irrefl)
      then obtain i0 where "i0 < length ?us" "lu_index (?us ! i0) = -1"
        by (auto simp: in_set_conv_nth occupied_def)
      then obtain i where f: "find (\<lambda>i. lu_index (?us ! i) = -1) [0..<length ?us] = Some i"
        using find_upt_None [of "\<lambda>i. lu_index (?us ! i) = -1" "length ?us"] by fastforce
      then have i: "i < length ?us" "\<not> occupied (?us ! i)" by (auto simp: find_upt_Some occupied_def)
      show ?thesis
      proof (cases bnd)
        case False
        have fr: "lu_fd (?us ! i) = -1" using table_slot [OF t i(1)] i(2) by (simp add: live_slot_ok_def)
        have "(?us ! i)\<lparr>lu_fd := -1\<rparr> = ?us ! i" by (intro lives_user_info_t.equality) (simp_all add: fr)
        then have "set_user i (\<lambda>s. s\<lparr>lu_fd := -1\<rparr>) st = st" by (simp add: set_user_def)
        then show ?thesis
          using False full \<open>size V \<noteq> VIDEO_USER_MAX_NUM\<close> none nk f fd V ok
          by (auto simp: set_lives_user_info_def create_video_local_socket_def OPERATION_ERR_def intro!: sim_okI)
      next
        case True
        then have fd1: "0 \<le> fd" "fd \<notin> set (lm_fds st)" using fd by simp_all
        let ?v = "fill_slot u fd i (?us ! i)"
        have vf: "occupied ?v" "user_key ?v = user_key u" "lu_fd ?v = fd" "live_slot_ok i ?v"
          "viewer_of ?v = \<lparr>vw_key = user_key u, vw_quality = lu_quality u, vw_encode = lu_encode u, vw_id = lu_id u,
                          vw_fd = fd, vw_closing = False\<rparr>"
          using u by (simp_all add: fill_slot_def set_jpeg_send_flag_def occupied_def user_key_def live_slot_ok_def user_ok_def
              viewer_of_def)
        have tab: "table_ok (?us[i := ?v])"
        proof (rule table_ok_update [OF t i(1) vf(4)])
          fix j assume "j < length ?us" "occupied (?us ! j)"
          then have "viewer_of (?us ! j) \<in># V" using viewer_of_slot [OF V] by blast
          then show "user_key (?us ! j) \<noteq> user_key ?v" using none vf(2) by fastforce
        qed
        have m: "mset (filter occupied (?us[i := ?v])) = add_mset ?v (mset (filter occupied ?us))"
          using mset_filter_update [OF i(1), of occupied ?v] i(2) vf(1) by simp
        have ln: "length (filter occupied (?us[i := ?v])) = Suc (length (filter occupied ?us))"
          using arg_cong [OF m, of size] by (simp del: mset_filter)
        let ?st = "(set_user i (fill_slot u fd i) (st\<lparr>lm_fds := lm_fds st @ [fd]\<rparr>))\<lparr>lm_user_num := lm_user_num st + 1\<rparr>"
        have ok1: "viewers_ok ?st"
          using ok tab m ln fd1(2) vf(3) by (auto simp: viewers_ok_def set_user_def simp del: mset_filter)
        have V1: "viewers ?st = (add_mset (viewer_of ?v) V, n)"
          using V m by (simp add: viewers_def set_user_def del: mset_filter)
        have "set_lives_user_info fd bnd ok' u st = Some (interrupted ok' ?st)"
          using True full none f fd1(1) by (simp add: set_lives_user_info_def create_video_local_socket_def set_user_def)
        then show ?thesis
          using False nk V True by (auto simp: vf(5) intro!: sim_interrupted [OF ok1 V1])
      qed
    qed
  qed
qed

lemma reset_slots_eq:
  "reset_slots us fds n = (us', fds', n') \<Longrightarrow>
     us' = map (\<lambda>u. if lu_valid u = 0 then init_lives_mode_info_ex u else u) us
     \<and> n' = n - int (length (filter (\<lambda>u. lu_valid u = 0) us))
     \<and> mset fds' = mset fds - image_mset lu_fd (mset (filter (\<lambda>u. lu_valid u = 0) us))
     \<and> (distinct fds \<longrightarrow> distinct fds')"
  by (induction us fds n arbitrary: us' fds' n' rule: reset_slots.induct)
    (auto split: if_splits prod.splits simp: distinct_remove1)

lemma init_ex_fields [simp]:
  "\<not> occupied (init_lives_mode_info_ex u)" "lu_valid (init_lives_mode_info_ex u) = -1"
  "lu_id (init_lives_mode_info_ex u) = -1" "lu_fd (init_lives_mode_info_ex u) = -1"
  by (simp_all add: init_lives_mode_info_ex_def occupied_def)

lemma init_ex_addr:
  assumes "addr_ok (lu_addr u)"
  shows "addr_ok (lu_addr (init_lives_mode_info_ex u))" "user_key (init_lives_mode_info_ex u) = no_key"
  using assms
  by (auto simp: init_lives_mode_info_ex_def addr_ok_def empty_addr_def live_consts list_all_iff user_key_def no_key_def
      addr_key_def map_replicate_const comp_def takeWhile_replicate)

lemma reset_user_ok:
  assumes ok: "viewers_ok st" and V: "viewers st = (V, n)"
  shows "viewers_ok (reset_live_mode_user st)"
    "viewers (reset_live_mode_user st) = (filter_mset (\<lambda>v. \<not> vw_closing v) V, n)"
proof -
  obtain us fds m where r: "reset_slots (lm_users st) (lm_fds st) (lm_user_num st) = (us, fds, m)" by (metis prod_cases3)
  let ?f = "\<lambda>u. if lu_valid u = 0 then init_lives_mode_info_ex u else u"
  let ?z = "\<lambda>u. lu_valid u = 0"
  have e: "us = map ?f (lm_users st)" "m = lm_user_num st - int (length (filter ?z (lm_users st)))"
    "mset fds = mset (lm_fds st) - image_mset lu_fd (mset (filter ?z (lm_users st)))" "distinct fds"
    using reset_slots_eq [OF r] ok by (simp_all add: viewers_ok_def)
  have t: "table_ok (lm_users st)" using ok by (simp add: viewers_ok_def)
  have zo: "occupied u" if m: "u \<in> set (lm_users st)" and z: "?z u" for u
  proof -
    obtain j where "j < length (lm_users st)" "u = lm_users st ! j" using m unfolding in_set_conv_nth by blast
    then have "live_slot_ok j u" using table_slot [OF t] by simp
    then show ?thesis using z by (simp add: live_slot_ok_def split: if_split_asm)
  qed
  have sl: "live_slot_ok j (?f u)" if "live_slot_ok j u" for j u
    using that init_ex_addr [of u] by (auto simp: live_slot_ok_def)
  have t': "table_ok us"
    using t sl unfolding e(1) table_ok_def by (auto split: if_split_asm)
  have fl0: "filter occupied (map ?f xs) = filter (\<lambda>u. \<not> ?z u) (filter occupied xs)" for xs by (induction xs) auto
  have fl: "filter occupied us = filter (\<lambda>u. \<not> ?z u) (filter occupied (lm_users st))"
    unfolding e(1) by (rule fl0)
  have fz: "filter ?z (filter occupied (lm_users st)) = filter ?z (lm_users st)"
    using zo by (simp add: filter_filter) (auto intro: filter_cong)
  have part: "mset (filter occupied (lm_users st)) = mset (filter ?z (lm_users st)) + mset (filter occupied us)"
    unfolding fl fz [symmetric] mset_filter by (rule multiset_partition)
  have "length (filter occupied (lm_users st)) = length (filter ?z (lm_users st)) + length (filter occupied us)"
    using arg_cong [OF part, of size] by (simp del: mset_filter)
  then have "m = int (length (filter occupied us))" using e(2) ok by (simp add: viewers_ok_def)
  moreover have "mset fds = image_mset lu_fd (mset (filter occupied us))"
    using e(3) ok arg_cong [OF part, of "image_mset lu_fd"] by (simp add: viewers_ok_def del: mset_filter)
  moreover have rs: "reset_live_mode_user st = st\<lparr>lm_users := us, lm_fds := fds, lm_user_num := m\<rparr>"
    by (simp add: reset_live_mode_user_def r)
  ultimately show "viewers_ok (reset_live_mode_user st)"
    using ok t' e(4) unfolding rs viewers_ok_def by (simp del: mset_filter)
  show "viewers (reset_live_mode_user st) = (filter_mset (\<lambda>v. \<not> vw_closing v) V, n)"
    using V unfolding viewers_def rs by (auto simp: fl viewer_of_def filter_mset_image_mset comp_def filter_filter_mset conj_commute)
qed

lemma reset_enc_ok:
  assumes "viewers_ok st" "viewers st = (V, n)"
  shows "\<exists>st'. reset_live_mode_enc st = Some st' \<and> viewers_ok st' \<and> viewers st' = (V, n)"
proof (cases "lm_enc_valid st = 0")
  case True
  then have "reset_live_mode_enc st = Some (st\<lparr>lm_encs := map clear_enc (lm_encs st), lm_enc_valid := -1, lm_enc_num := 0\<rparr>)"
    using assms(1) by (simp add: reset_live_mode_enc_def viewers_ok_def)
  then show ?thesis using assms by (simp add: viewers_ok_def viewers_def)
qed (use assms in \<open>simp add: reset_live_mode_enc_def\<close>)

lemma sim_Round:
  assumes ok: "viewers_ok st"
  shows "sim_ok Round st (map_option (Pair 0) (lives_round env st))"
proof -
  obtain V n where V: "viewers st = (V, n)" by fastforce
  show ?thesis
  proof (cases "lm_queue st")
    case Nil
    then show ?thesis using ok V by (auto simp: lives_round_def viewers_def intro!: sim_okI)
  next
    case (Cons x q)
    then have x: "x = (INTERRUPTION_MSG_ID, None)" "n = Suc (length q)" using ok V by (auto simp: viewers_ok_def viewers_def)
    let ?st = "st\<lparr>lm_queue := q\<rparr>"
    have ok1: "viewers_ok ?st" "viewers ?st = (V, length q)"
      using ok V Cons by (auto simp: viewers_ok_def viewers_def)
    obtain st2 where st2: "reset_live_mode_enc ?st = Some st2" "viewers_ok st2" "viewers st2 = (V, length q)"
      using reset_enc_ok [OF ok1] by blast
    note r = reset_user_ok [OF st2(2,3)]
    have "viewers_ok (reset_live_mode_enc_time s)" "viewers (reset_live_mode_enc_time s) = viewers s" if "viewers_ok s" for s
      using that by (auto simp: reset_live_mode_enc_time_def viewers_ok_def viewers_def)
    then show ?thesis
      using r st2(1) x V Cons by (auto simp: lives_round_def lives_interruption_def intro!: sim_okI)
  qed
qed

lemma live_step_sim:
  "viewers_ok st \<Longrightarrow> live_legal op st \<Longrightarrow> sim_ok op st (live_step env op st)"
  by (cases op)
    (simp_all add: live_step_def live_legal_def sim_Join sim_Leave sim_Drop sim_DropAll sim_Announce sim_Round)

lemma live_run_sim:
  "viewers_ok st \<Longrightarrow> live_legal_run env ops st \<Longrightarrow>
     \<exists>rs st'. live_run env ops st = Some (rs, st') \<and> viewers_ok st' \<and> spec_run ops (viewers st) rs (viewers st')"
proof (induction ops arbitrary: st)
  case (Cons op ops)
  obtain r st1 where s: "live_step env op st = Some (r, st1)" "viewers_ok st1" "live_spec op (viewers st) r (viewers st1)"
    using live_step_sim [OF Cons.prems(1), of op env] Cons.prems(2) by (auto simp: sim_ok_def)
  obtain rs st' where "live_run env ops st1 = Some (rs, st')" "viewers_ok st'" "spec_run ops (viewers st1) rs (viewers st')"
    using Cons.IH [OF s(2)] Cons.prems(2) s(1) by auto
  moreover obtain W k where "viewers st1 = (W, k)" by fastforce
  ultimately show ?case using s by auto
qed simp

text \<open>The new module; its user table holds ten entries of whatever the heap held.\<close>

lemma init_viewers_ok:
  assumes "init_lives_mode_info q mok room us = Some st" "length us = VIDEO_USER_MAX_NUM"
    and "list_all (\<lambda>u. length (lu_addr u) = VIDEO_ENCODE_MAX_NUM) us"
  shows "viewers_ok st" "viewers st = ({#}, 0)"
proof -
  have st: "lm_users st = map init_lives_mode_info_ex us" "lm_user_num st = 0" "lm_fds st = []"
    "length (lm_encs st) = VIDEO_ENCODE_MAX_NUM" "lm_jpeg_valid st = -1" "lm_queue st = []"
    using assms(1) by (auto simp: init_lives_mode_info_def split: if_splits)
  have a: "addr_ok (lu_addr (init_lives_mode_info_ex u)) \<and> user_key (init_lives_mode_info_ex u) = no_key"
    if "u \<in> set us" for u
    using that assms(3)
    by (auto simp: init_lives_mode_info_ex_def addr_ok_def empty_addr_def live_consts list_all_iff user_key_def no_key_def
      addr_key_def map_replicate_const comp_def takeWhile_replicate)
  have f: "filter occupied (map init_lives_mode_info_ex us) = []" by (induction us) auto
  show "viewers_ok st" using a assms(2) by (auto simp: viewers_ok_def table_ok_def live_slot_ok_def st f simp del: mset_filter)
  show "viewers st = ({#}, 0)" unfolding viewers_def st f by simp
qed

text \<open>
  C8: Viewers of a room: any legal sequence of requests (enter, leave, drop by id, drop all, announce encoders) and
  rounds of the thread on a new module runs without undefined behaviour, and the table of ten slots behaves as the
  multiset of viewers of the contract \<^const>\<open>live_spec\<close>; the counter is the number of viewers, at most ten, and the
  sockets that are open are exactly those of the viewers.
\<close>

theorem viewers_accounted:
  assumes "init_lives_mode_info q mok room us = Some st" "length us = VIDEO_USER_MAX_NUM"
    and "list_all (\<lambda>u. length (lu_addr u) = VIDEO_ENCODE_MAX_NUM) us" and "live_legal_run env ops st"
  shows "\<exists>rs st' V n. live_run env ops st = Some (rs, st') \<and> viewers st' = (V, n) \<and> spec_run ops ({#}, 0) rs (V, n)
    \<and> lm_user_num st' = int (size V) \<and> size V \<le> VIDEO_USER_MAX_NUM
    \<and> mset (lm_fds st') = image_mset vw_fd V \<and> distinct (lm_fds st')"
proof -
  note i = init_viewers_ok [OF assms(1-3)]
  obtain rs st' where r: "live_run env ops st = Some (rs, st')" "viewers_ok st'" "spec_run ops ({#}, 0) rs (viewers st')"
    using live_run_sim [OF i(1) assms(4)] i(2) by auto
  obtain V n where V: "viewers st' = (V, n)" by fastforce
  have "mset (lm_fds st') = image_mset vw_fd V" "distinct (lm_fds st')"
    using r(2) V by (auto simp: viewers_ok_def viewers_def image_mset.compositionality comp_def)
  then show ?thesis using r user_num_size [OF r(2) V] V by auto
qed

text \<open>A room with two viewers, one of which leaves.\<close>

definition w_env :: live_env where
  "w_env = \<lparr>le_so = (\<lambda>i n. (int n, 0)),
     le_fh0 = \<lparr>codec = 0, samplerate = 0, framerate = 0, width = 0, height = 0, Iframe = 0, reserve = 0, framelength = 0\<rparr>\<rparr>"

definition w_user :: "int \<Rightarrow> int \<Rightarrow> lives_user_info_t" where
  "w_user port ident = \<lparr>lu_valid = 1, lu_index = 0, lu_addr = replicate 9 \<lparr>la_ip = [0], la_port = port\<rparr>,
     lu_quality = 0, lu_encode = 49 # replicate 9 0, lu_jpeg = 0, lu_fd = 0, lu_id = ident\<rparr>"

definition w_new :: lives_mode_info_t where
  "w_new = the (init_lives_mode_info True (\<lambda>_. True) 1 (replicate 10 (w_user 0 0)))"

definition w_ops :: "live_op list" where
  "w_ops = [Join 7 True True (w_user 100 5), Join 8 True True (w_user 200 6), Leave True (w_user 100 5), Round]"

lemma w_new_init: "init_lives_mode_info True (\<lambda>_. True) 1 (replicate 10 (w_user 0 0)) = Some w_new"
  by (simp add: w_new_def init_lives_mode_info_def list_all_iff)

lemma viewers_accounted_witness:
  "live_legal_run w_env w_ops w_new \<and> (\<exists>rs st' V n. live_run w_env w_ops w_new = Some (rs, st') \<and> viewers st' = (V, n)
    \<and> spec_run w_ops ({#}, 0) rs (V, n) \<and> lm_user_num st' = int (size V) \<and> size V \<le> VIDEO_USER_MAX_NUM
    \<and> mset (lm_fds st') = image_mset vw_fd V \<and> distinct (lm_fds st'))"
proof -
  have l: "live_legal_run w_env w_ops w_new" by code_simp
  have "length (replicate 10 (w_user 0 0)) = VIDEO_USER_MAX_NUM"
    "list_all (\<lambda>u. length (lu_addr u) = VIDEO_ENCODE_MAX_NUM) (replicate 10 (w_user 0 0))"
    by (simp_all add: live_consts w_user_def list_all_iff)
  from viewers_accounted [OF w_new_init this l] l show ?thesis by blast
qed

end
