(* ===== verification/Stream.thy ===== *)
theory Stream
  imports UdpSend UdpRecv
begin

section \<open>From the sender's packets to the receiver's frames\<close>

text \<open>
  This theory connects \<^theory_text>\<open>UdpSend\<close> and \<^theory_text>\<open>UdpRecv\<close>: what the receiving thread unpacks from each kind
  of packet the sender puts on the wire, and which frame a whole list of packets makes.
\<close>

definition jpeg_head :: "US_FRAMEHEAD \<Rightarrow> u32 \<Rightarrow> udp_recv_freame_head_t" where
  "jpeg_head f ts = head_zero\<lparr>m_data_codec := UdpRecv_JPEG_CODEC_TYPE, m_frame_rate := ucast (framerate f),
     m_time_tick := ts, m_frame_length := framelength f, m_width := ucast (width f),
     m_hight := ucast (height f)\<rparr>"

definition h264_head :: "US_FRAMEHEAD \<Rightarrow> u32 \<Rightarrow> udp_recv_freame_head_t" where
  "h264_head f ts = head_zero\<lparr>m_data_codec := UdpRecv_H264_CODEC_TYPE,
     m_frame_rate := (if framerate f = 0 then 25 else ucast (framerate f)), m_time_tick := ts div 90,
     m_frame_length := framelength f, m_width := ucast (width f), m_hight := ucast (height f),
     m_others := (if samplerate f = UdpRecv_BLUE_FLAG then 1 else 0),
     m_dw_flags := (if Iframe f \<noteq> 0 then 16 else 0)\<rparr>"

lemma padded_pack:
  "padded (pack_head h f @ p) = pack_head h f @ p @ replicate (UdpRecv_MAX_UDP_LEN - (28 + length p)) 0"
  by (simp add: padded_def pkt_simps)

lemma ucast_byte_0 [simp]: "(ucast (x :: byte) = (0 :: u32)) = (x = 0)"
proof -
  have "n < 8 \<and> n < 32" if "bit x n" for n using bit_imp_le_length [OF that] by simp
  then show ?thesis by (auto simp: bit_eq_iff bit_simps)
qed

lemma carries_jpeg:
  assumes "codec f = 2" "samplerate f < 16" "length p \<le> 1444"
  shows "carries (pack_head h f @ p) (jpeg_head f (timestamp h)) (ucast (samplerate f)) p"
proof -
  let ?z = "p @ replicate (UdpRecv_MAX_UDP_LEN - (28 + length p)) 0"
  have rx: "rx_frame (pack_head h f @ ?z) = f" "rx_timestamp (pack_head h f @ ?z) = timestamp h"
    using assms by (simp_all add: pkt_simps)
  have "memcpy (replicate 1444 0) (int 0) (pack_head h f @ ?z) (int 28) (int (length p)) =
      Some (p @ replicate (1444 - length p) 0)"
    using assms(3) by (subst memcpy_nat) (simp_all add: pkt_simps)
  then have "get_jpeg_frame_data (pack_head h f @ ?z) (int (28 + length p)) (replicate 1444 0) =
      Some (p @ replicate (1444 - length p) 0, int (length p))"
    by (simp add: get_jpeg_frame_data_def)
  then have "unpack_packet (pack_head h f @ ?z) (int (28 + length p)) loc =
      Some (get_jpeg_frame_data_head (head_zero\<lparr>m_data_codec := UdpRecv_JPEG_CODEC_TYPE\<rparr>) f (pack_head h f @ ?z),
        p @ replicate (1444 - length p) 0, int (length p), loc)" for loc
    unfolding unpack_packet_def rx unpack_jpeg_def by (simp add: set_data_codec_def assms(1))
  then show ?thesis
    unfolding carries_def padded_pack
    using assms rx(2)
    by (auto simp: pkt_simps UdpRecv_MAX_UDP_LEN_def get_jpeg_frame_data_head_def jpeg_head_def frame_head_def head_zero_def)
qed

text \<open>The NAL header byte comes back from the FU indicator and the FU header, but for its top bit.\<close>

lemma fu_join:
  "push_bit 7 (fu_f (fu_indicator 28 (drop_bit 5 (b AND 0x60)) (b AND 0x80)))
     OR push_bit 5 (fu_nri (fu_indicator 28 (drop_bit 5 (b AND 0x60)) (b AND 0x80)))
     OR fu_type (fu_header (b AND 0x1F) 0 e s) = (b :: byte) AND 0x7F"
proof (rule bit_word_eqI)
  fix n assume "n < LENGTH(8)"
  then have "n \<in> {0, 1, 2, 3, 4, 5, 6, 7}" by auto
  then show "bit (push_bit 7 (fu_f (fu_indicator 28 (drop_bit 5 (b AND 0x60)) (b AND 0x80)))
     OR push_bit 5 (fu_nri (fu_indicator 28 (drop_bit 5 (b AND 0x60)) (b AND 0x80)))
     OR fu_type (fu_header (b AND 0x1F) 0 e s)) n = bit (b AND 0x7F) n"
    unfolding pkt_simps by (auto simp: bit_simps bit_numeral_rec)
qed

lemma carries_h264:
  assumes "codec f = 0" "samplerate f < 16" "28 + length p \<le> 1500" "length bs \<le> 1444"
    and g: "get_video_frame_data (padded (pack_head h f @ p)) (int (28 + length p)) (replicate 1444 0) =
        Some (flag, area, int (length bs))"
    and "length area = 1444" "take (length bs) area = bs"
  shows "carries (pack_head h f @ p) (h264_head f (timestamp h)) (if flag = -1 then 0 else word_of_int flag) bs"
proof -
  let ?b = "padded (pack_head h f @ p)"
  have rx: "rx_frame ?b = f" "rx_timestamp ?b = timestamp h"
    using assms(1,2) unfolding padded_pack by (simp_all add: pkt_simps)
  have "\<exists>fh loc'. unpack_packet ?b (int (28 + length p)) loc = Some (fh, area, int (length bs), loc')
      \<and> frame_head fh = h264_head f (timestamp h) \<and> m_dw_segment fh = (if flag = -1 then 0 else word_of_int flag)"
    for loc
    using g unfolding unpack_packet_def rx unpack_video_def
    by (simp add: set_data_codec_def assms(1) get_video_frame_data_head_def rx(2) Let_def frame_head_def
        h264_head_def head_zero_def eq_commute [of UdpRecv_BLUE_FLAG])
  then have "\<forall>loc. \<exists>fh area loc'. unpack_packet ?b (int (28 + length p)) loc = Some (fh, area, int (length bs), loc')
      \<and> frame_head fh = h264_head f (timestamp h) \<and> m_dw_segment fh = (if flag = -1 then 0 else word_of_int flag)
      \<and> length area = 1444 \<and> take (length bs) area = bs"
    using assms(6,7) by metis
  then show ?thesis
    unfolding carries_def using assms(3,4) by (simp add: pkt_simps UdpRecv_MAX_UDP_LEN_def)
qed

text \<open>The segment mark of a NAL unit that travels in one packet.\<close>

definition unit_segment :: "US_FRAMEHEAD \<Rightarrow> byte \<Rightarrow> u32" where
  "unit_segment f b =
     (if Iframe f = 1 then
        (if b = 0x67 \<or> b = 0x47 \<or> b = 0x27 then UdpRecv_START_FRAME
         else if b = 0x65 \<or> b = 0x45 \<or> b = 0x25 then UdpRecv_LAST_FRAME
         else UdpRecv_MIDDLE_FRAME)
      else UdpRecv_INDEPENDENT_FRAME)"

lemma nth_padded:
  assumes "i < length p"
  shows "padded (pack_head h f @ p) ! (28 + i) = p ! i"
  using assms by (simp add: padded_pack nth_append pkt_simps)

lemma drop_padded:
  assumes "28 + length p \<le> 1500" "n \<le> length p - i" "i \<le> length p"
  shows "take n (drop (28 + i) (padded (pack_head h f @ p))) = take n (drop i p)"
  using assms by (simp add: padded_pack pkt_simps)

lemma length_padded: "28 + length p \<le> 1500 \<Longrightarrow> length (padded (pack_head h f @ p)) = 1500"
  by (simp add: padded_pack pkt_simps UdpRecv_MAX_UDP_LEN_def)

lemma rx_padded:
  "codec f < 16 \<Longrightarrow> samplerate f < 16 \<Longrightarrow> rx_frame (padded (pack_head h f @ p)) = f"
  unfolding padded_pack by (simp add: pkt_simps)

lemma carries_unit:
  assumes "codec f = 0" "samplerate f < 16" "length nal \<le> 1440" "nal \<noteq> []" "nal ! 0 AND 0x1F \<noteq> 28"
  shows "carries (pack_head h f @ nal) (h264_head f (timestamp h)) (unit_segment f (nal ! 0)) (start_code @ nal)"
proof -
  let ?b = "padded (pack_head h f @ nal)"
  let ?a = "(replicate 1444 0)[0 := 0, 1 := 0, 2 := 0, 3 := 1] :: byte list"
  define area where "area = start_code @ nal @ drop (4 + length nal) ?a"
  have t: "take 4 ?a = start_code"
  proof -
    have r: "replicate 1444 (0 :: byte) = [0, 0, 0, 0] @ replicate 1440 0"
      using replicate_add [of 4 1440 "0 :: byte"] by (simp add: eval_nat_numeral)
    show ?thesis unfolding r by (simp add: start_code_def eval_nat_numeral del: replicate.simps)
  qed
  have "memcpy ?a (int 4) ?b (int 28) (int (length nal)) = Some area"
    using assms(3) drop_padded [of nal "length nal" 0 h f] length_padded [of nal h f]
    by (subst memcpy_nat) (use t in \<open>simp_all add: area_def\<close>)
  moreover have "fu_type (?b ! 28) \<noteq> 28"
    using assms(4,5) nth_padded [of 0 nal h f] by (simp add: fu_type_def)
  moreover have "area ! 4 = nal ! 0" using assms(4) by (simp add: area_def nth_append)
  moreover have "rx_frame ?b = f" using assms(1,2) by (intro rx_padded) simp_all
  ultimately have g: "get_video_frame_data ?b (int (28 + length nal)) (replicate 1444 0) =
     Some (if Iframe f = 1 then
         (if nal ! 0 = 0x67 \<or> nal ! 0 = 0x47 \<or> nal ! 0 = 0x27 then 2
          else if nal ! 0 = 0x68 \<or> nal ! 0 = 0x48 \<or> nal ! 0 = 0x28 then 0
          else if nal ! 0 = 0x65 \<or> nal ! 0 = 0x45 \<or> nal ! 0 = 0x25 then 1 else -1) else 3,
       area, int (length (start_code @ nal)))"
    by (simp add: get_video_frame_data_def)
  have "take (length (start_code @ nal)) area = start_code @ nal" "length area = 1444"
    using assms(3) by (simp_all add: area_def)
  from carries_h264 [OF assms(1,2) _ _ g this(2,1)] assms(3) show ?thesis
    by (auto simp: unit_segment_def seg_names split: if_splits)
qed

text \<open>The payload of a FU-A packet of a NAL unit with header byte \<open>b\<close>.\<close>

definition fu_payload :: "byte \<Rightarrow> byte \<Rightarrow> byte \<Rightarrow> byte list \<Rightarrow> byte list" where
  "fu_payload b e s q =
     [fu_indicator 28 (drop_bit 5 (b AND 0x60)) (b AND 0x80), fu_header (b AND 0x1F) 0 e s] @ q"

lemma fu_payload_fields:
  assumes "e = 0 \<or> e = 1" "s = 0 \<or> s = 1" "b' = padded (pack_head h f @ fu_payload b e s q)"
  shows "fu_type (b' ! 28) = 28" "fu_s (b' ! 29) = s" "fu_e (b' ! 29) = e"
    "push_bit 7 (fu_f (b' ! 28)) OR push_bit 5 (fu_nri (b' ! 28)) OR fu_type (b' ! 29) = b AND 0x7F"
proof -
  have "b' ! 28 = fu_indicator 28 (drop_bit 5 (b AND 0x60)) (b AND 0x80)"
    "b' ! 29 = fu_header (b AND 0x1F) 0 e s"
    using nth_padded [of 0 "fu_payload b e s q" h f] nth_padded [of 1 "fu_payload b e s q" h f]
    by (simp_all add: assms(3) fu_payload_def)
  with assms(1,2) fu_join [of b e s] show "fu_type (b' ! 28) = 28" "fu_s (b' ! 29) = s" "fu_e (b' ! 29) = e"
    "push_bit 7 (fu_f (b' ! 28)) OR push_bit 5 (fu_nri (b' ! 28)) OR fu_type (b' ! 29) = b AND 0x7F"
    by (auto simp: pkt_simps)
qed

lemma carries_fu_start:
  assumes "codec f = 0" "samplerate f < 16" "length q \<le> 1439"
  shows "carries (pack_head h f @ fu_payload b 0 1 q) (h264_head f (timestamp h))
           (if Iframe f = 1 then UdpRecv_MIDDLE_FRAME else UdpRecv_START_FRAME)
           (start_code @ [b AND 0x7F] @ q)"
proof -
  let ?p = "fu_payload b 0 1 q"
  let ?b = "padded (pack_head h f @ ?p)"
  let ?a = "(replicate 1444 0)[0 := 0, 1 := 0, 2 := 0, 3 := 1, 4 := b AND 0x7F] :: byte list"
  define area where "area = start_code @ [b AND 0x7F] @ q @ drop (5 + length q) ?a"
  have lp: "length ?p = 2 + length q" by (simp add: fu_payload_def)
  have t: "take 5 ?a = start_code @ [b AND 0x7F]"
  proof -
    have r: "replicate 1444 (0 :: byte) = [0, 0, 0, 0, 0] @ replicate 1439 0"
      using replicate_add [of 5 1439 "0 :: byte"] by (simp add: eval_nat_numeral)
    show ?thesis unfolding r by (simp add: start_code_def eval_nat_numeral del: replicate.simps)
  qed
  have "memcpy ?a (int 5) ?b (int 30) (int (length q)) = Some area"
    using assms(3) lp drop_padded [of ?p "length q" 2 h f] length_padded [of ?p h f]
    by (subst memcpy_nat) (use t in \<open>simp_all add: area_def fu_payload_def\<close>)
  then have g: "get_video_frame_data ?b (int (28 + length ?p)) (replicate 1444 0) =
      Some (if Iframe f = 1 then 0 else 2, area, int (length (start_code @ [b AND 0x7F] @ q)))"
    using fu_payload_fields [of 0 1 ?b h f b q] rx_padded [of f h ?p] assms(1,2) lp
    by (simp add: get_video_frame_data_def Let_def)
  have "take (length (start_code @ [b AND 0x7F] @ q)) area = start_code @ [b AND 0x7F] @ q"
    "length area = 1444"
    using assms(3) by (simp_all add: area_def)
  from carries_h264 [OF assms(1,2) _ _ g this(2,1)] assms(3) lp show ?thesis
    by (auto simp: seg_names split: if_splits)
qed

lemma carries_fu_next:
  assumes "codec f = 0" "samplerate f < 16" "length q \<le> 1444" "e = 0 \<or> e = 1"
  shows "carries (pack_head h f @ fu_payload b e 0 q) (h264_head f (timestamp h))
           (if e = 1 then UdpRecv_LAST_FRAME else UdpRecv_MIDDLE_FRAME) q"
proof -
  let ?p = "fu_payload b e 0 q"
  let ?b = "padded (pack_head h f @ ?p)"
  have lp: "length ?p = 2 + length q" by (simp add: fu_payload_def)
  have "memcpy (replicate 1444 0) (int 0) ?b (int 30) (int (length q)) = Some (q @ replicate (1444 - length q) 0)"
    using assms(3) lp drop_padded [of ?p "length q" 2 h f] length_padded [of ?p h f]
    by (subst memcpy_nat) (simp_all add: fu_payload_def)
  then have g: "get_video_frame_data ?b (int (28 + length ?p)) (replicate 1444 0) =
      Some (if e = 1 then 1 else 0, q @ replicate (1444 - length q) 0, int (length q))"
    using fu_payload_fields [of e 0 ?b h f b q] assms(4) lp
    by (auto simp: get_video_frame_data_def Let_def)
  from carries_h264 [OF assms(1,2) _ assms(3) g] assms(3) lp show ?thesis
    by (auto simp: seg_names split: if_splits)
qed

lemma nalu_packet_payload:
  "nalu_packet h f nal m k seq t =
     pack_head (h\<lparr>seq_no := seq + of_nat t, marker := (if t = k then 1 else 0)\<rparr>) f
     @ fu_payload (nal ! 0) (if t = k then 1 else 0) (if t = 0 then 1 else 0) (piece m t (tl nal))"
  by (simp add: nalu_packet_def fu_payload_def)

lemma upt_ends: "0 < k \<Longrightarrow> [0..<Suc k] = 0 # [1..<k] @ [k]"
  using upt_conv_Cons [of 0 k] by simp

lemma byte_clear_top:
  assumes "(b :: byte) AND 0x80 = 0"
  shows "b AND 0x7F = b"
proof -
  have "b AND 0x7F = b AND 0x7F OR b AND 0x80" using assms by simp
  also have "\<dots> = b AND (0x7F OR 0x80)" by (rule bit.conj_disj_distrib [symmetric])
  also have "(0x7F OR 0x80 :: byte) = - 1" by simp
  finally show ?thesis by simp
qed

text \<open>The fragments of a NAL unit that does not fit in one packet.\<close>

lemma fu_fragments:
  assumes f: "codec f = 0" "samplerate f < 16" and m: "0 < m" "m \<le> 1439" "m < length nal - 1"
    and b: "nal ! 0 AND 0x80 = 0"
  obtains p0 ps pl b0 bss bl where "nalu_packets h f nal m seq = p0 # ps @ [pl]"
    "carries p0 (h264_head f (timestamp h))
       (if Iframe f = 1 then UdpRecv_MIDDLE_FRAME else UdpRecv_START_FRAME) b0"
    "list_all2 (\<lambda>p b. carries p (h264_head f (timestamp h)) UdpRecv_MIDDLE_FRAME b) ps bss"
    "carries pl (h264_head f (timestamp h)) UdpRecv_LAST_FRAME bl"
    "b0 @ concat bss @ bl = start_code @ nal"
proof -
  define n where "n = length nal - 1"
  define k where "k = (if n mod m = 0 then n div m - 1 else n div m)"
  have nal: "nal = nal ! 0 # tl nal" using m(3) by (cases nal) simp_all
  have k: "0 < k" "n \<le> Suc k * m"
    using last_piece [OF m(1) _ refl k_def] m(3) by (simp_all add: n_def)
  let ?p = "nalu_packet h f nal m k seq"
  let ?q = "\<lambda>t. piece m t (tl nal)"
  have l: "length (?q t) \<le> 1439" for t using m(2) by (simp add: length_piece)
  have "nalu_packets h f nal m seq = map ?p [0..<Suc k]"
    using m(3) unfolding nalu_packets_def n_def [symmetric] Let_def k_def by simp
  then have pk: "nalu_packets h f nal m seq = ?p 0 # map ?p [1..<k] @ [?p k]"
    unfolding upt_ends [OF k(1)] by simp
  have c0: "carries (?p 0) (h264_head f (timestamp h))
      (if Iframe f = 1 then UdpRecv_MIDDLE_FRAME else UdpRecv_START_FRAME) (start_code @ [nal ! 0 AND 0x7F] @ ?q 0)"
    using carries_fu_start [OF f l, of "h\<lparr>seq_no := seq, marker := 0\<rparr>" "nal ! 0" 0] k(1)
    unfolding nalu_packet_payload by simp
  have cm: "carries (?p t) (h264_head f (timestamp h)) UdpRecv_MIDDLE_FRAME (?q t)" if "t \<in> set [1..<k]" for t
    using that carries_fu_next [OF f, of "?q t" 0 "h\<lparr>seq_no := seq + of_nat t, marker := 0\<rparr>" "nal ! 0"] l [of t]
    unfolding nalu_packet_payload by auto
  have cl: "carries (?p k) (h264_head f (timestamp h)) UdpRecv_LAST_FRAME (?q k)"
    using carries_fu_next [OF f, of "?q k" 1 "h\<lparr>seq_no := seq + of_nat k, marker := 1\<rparr>" "nal ! 0"] l [of k] k(1)
    unfolding nalu_packet_payload by auto
  have "concat (map ?q [0..<Suc k]) = tl nal"
    using concat_pieces [of m "tl nal" "Suc k"] k(2) by (simp add: n_def)
  then have "?q 0 @ concat (map ?q [1..<k]) @ ?q k = tl nal" unfolding upt_ends [OF k(1)] by simp
  then have "(start_code @ [nal ! 0 AND 0x7F] @ ?q 0) @ concat (map ?q [1..<k]) @ ?q k = start_code @ nal"
    using nal byte_clear_top [OF b] by (metis append_Cons append_Nil append_assoc)
  moreover have "list_all2 (\<lambda>p b. carries p (h264_head f (timestamp h)) UdpRecv_MIDDLE_FRAME b)
      (map ?p [1..<k]) (map ?q [1..<k])"
    using cm by (simp add: list_all2_map1 list_all2_map2 list_all2_same)
  ultimately show ?thesis using that pk c0 cl by blast
qed

lemma nalu_packets_single:
  "length nal - 1 \<le> m \<Longrightarrow>
   nalu_packets h f nal m seq = [pack_head (h\<lparr>marker := 1, seq_no := seq\<rparr>) f @ nal]"
  by (simp add: nalu_packets_def)

text \<open>A P frame: one NAL unit.\<close>

lemma run_p_frame:
  assumes s: "thread_ok s" and f: "codec f = 0" "samplerate f < 16" "Iframe f \<noteq> 1"
    and m: "0 < m" "m \<le> 1439" and nal: "nal \<noteq> []" "nal ! 0 AND 0x80 = 0" "nal ! 0 AND 0x1F \<noteq> 28"
    and len: "unat (framelength f) = length (start_code @ nal)"
      "length (start_code @ nal) \<le> UdpRecv_MAX_FRAME_LEN"
    and evs: "list_all2 packet_event (nalu_packets h f nal m seq) evs"
  shows "\<exists>s' c. udp_recv_deal evs s = Some s' \<and> thread_ok s' \<and> r_calls s' = r_calls s @ [c]
           \<and> announces (h264_head f (timestamp h)) (start_code @ nal) c"
proof (cases "length nal - 1 \<le> m")
  case True
  obtain now mv ma where e: "evs = [Packet (pack_head (h\<lparr>marker := 1, seq_no := seq\<rparr>) f @ nal) now mv ma]"
    "alloc_ok mv ma"
    using evs by (auto simp: nalu_packets_single [OF True] list_all2_Cons1 packet_event_def)
  have "carries (pack_head (h\<lparr>marker := 1, seq_no := seq\<rparr>) f @ nal) (h264_head f (timestamp h))
      UdpRecv_INDEPENDENT_FRAME (start_code @ nal)"
    using carries_unit [OF f(1,2) _ nal(1,3), of "h\<lparr>marker := 1, seq_no := seq\<rparr>"] True m(2) f(3)
    by (simp add: unit_segment_def)
  from step_independent [OF s this _ e(2), of now] len show ?thesis
    by (auto simp: e(1) video_head_def h264_head_def)
next
  case False
  then have "m < length nal - 1" by simp
  note fr = fu_fragments [OF f(1,2) m this nal(2), of h seq]
  have v: "video_head (h264_head f (timestamp h))" by (simp add: video_head_def h264_head_def)
  show ?thesis
  proof (rule fr)
    fix p0 ps pl b0 bss bl
    assume p: "nalu_packets h f nal m seq = p0 # ps @ [pl]"
      "carries p0 (h264_head f (timestamp h)) (if Iframe f = 1 then UdpRecv_MIDDLE_FRAME else UdpRecv_START_FRAME) b0"
      "list_all2 (\<lambda>p b. carries p (h264_head f (timestamp h)) UdpRecv_MIDDLE_FRAME b) ps bss"
      "carries pl (h264_head f (timestamp h)) UdpRecv_LAST_FRAME bl" "b0 @ concat bss @ bl = start_code @ nal"
    from p(2) f(3) have "carries p0 (h264_head f (timestamp h)) UdpRecv_START_FRAME b0" by simp
    from run_frame [OF s evs [unfolded p(1)] v this p(4,3)] p(5) len show ?thesis
      by (simp add: h264_head_def)
  qed
qed

text \<open>
  An I frame: a sequence parameter set, picture parameter sets and the slice data.  The receiver
  recognises them by the header bytes it knows.
\<close>

definition is_sps :: "byte list \<Rightarrow> bool" where
  "is_sps n \<longleftrightarrow> n \<noteq> [] \<and> (n ! 0 = 0x67 \<or> n ! 0 = 0x47 \<or> n ! 0 = 0x27)"

definition is_pps :: "byte list \<Rightarrow> bool" where
  "is_pps n \<longleftrightarrow> n \<noteq> [] \<and> (n ! 0 = 0x68 \<or> n ! 0 = 0x48 \<or> n ! 0 = 0x28)"

definition is_idr :: "byte list \<Rightarrow> bool" where
  "is_idr n \<longleftrightarrow> n \<noteq> [] \<and> (n ! 0 = 0x65 \<or> n ! 0 = 0x45 \<or> n ! 0 = 0x25)"

lemma carries_single:
  assumes "codec f = 0" "samplerate f < 16" "m \<le> 1439" "length n - 1 \<le> m" "n \<noteq> []" "n ! 0 AND 0x1F \<noteq> 28"
  shows "\<exists>p. nalu_packets h f n m seq = [p]
           \<and> carries p (h264_head f (timestamp h)) (unit_segment f (n ! 0)) (start_code @ n)"
  using carries_unit [OF assms(1,2) _ assms(5,6), of "h\<lparr>marker := 1, seq_no := seq\<rparr>"] assms(3,4)
  by (simp add: nalu_packets_single)

lemma pps_packets:
  assumes "codec f = 0" "samplerate f < 16" "Iframe f = 1" "m \<le> 1439"
    and "list_all (\<lambda>n. is_pps n \<and> length n - 1 \<le> m) ns"
  shows "\<exists>ps seq'. frame_packets h f m seq (ns @ rest) = ps @ frame_packets h f m seq' rest
    \<and> list_all2 (\<lambda>p b. carries p (h264_head f (timestamp h)) UdpRecv_MIDDLE_FRAME b) ps
        (map (\<lambda>n. start_code @ n) ns)"
  using assms(5)
proof (induction ns arbitrary: seq)
  case Nil
  show ?case by (intro exI [of _ "[]"] exI [of _ seq]) simp
next
  case (Cons n ns)
  have n: "is_pps n" "length n - 1 \<le> m" using Cons.prems by simp_all
  then obtain p where p: "nalu_packets h f n m seq = [p]"
    "carries p (h264_head f (timestamp h)) UdpRecv_MIDDLE_FRAME (start_code @ n)"
    using carries_single [OF assms(1,2,4) n(2), of h seq] assms(3)
    by (auto simp: is_pps_def unit_segment_def)
  obtain ps seq' where "frame_packets h f m (seq + 1) (ns @ rest) = ps @ frame_packets h f m seq' rest"
    "list_all2 (\<lambda>p b. carries p (h264_head f (timestamp h)) UdpRecv_MIDDLE_FRAME b) ps
       (map (\<lambda>n. start_code @ n) ns)"
    using Cons.IH [of "seq + 1"] Cons.prems by auto
  then show ?case using p by (intro exI [of _ "p # ps"] exI [of _ seq']) simp
qed

lemma idr_packets:
  assumes "codec f = 0" "samplerate f < 16" "Iframe f = 1" "0 < m" "m \<le> 1439" "is_idr n"
  shows "\<exists>ps pl bss bl. nalu_packets h f n m seq = ps @ [pl]
    \<and> list_all2 (\<lambda>p b. carries p (h264_head f (timestamp h)) UdpRecv_MIDDLE_FRAME b) ps bss
    \<and> carries pl (h264_head f (timestamp h)) UdpRecv_LAST_FRAME bl \<and> concat bss @ bl = start_code @ n"
proof (cases "length n - 1 \<le> m")
  case True
  obtain p where "nalu_packets h f n m seq = [p]"
    "carries p (h264_head f (timestamp h)) UdpRecv_LAST_FRAME (start_code @ n)"
    using carries_single [OF assms(1,2,5) True, of h seq] assms(3,6)
    by (auto simp: is_idr_def unit_segment_def)
  then show ?thesis by (intro exI [of _ "[]"] exI [of _ p] exI [of _ "start_code @ n"]) simp
next
  case False
  then have l: "m < length n - 1" by simp
  have b: "n ! 0 AND 0x80 = 0" using assms(6) by (auto simp: is_idr_def)
  show ?thesis
  proof (rule fu_fragments [OF assms(1,2,4,5) l b, of h seq])
    fix p0 ps pl b0 bss bl
    assume "nalu_packets h f n m seq = p0 # ps @ [pl]"
      "carries p0 (h264_head f (timestamp h)) (if Iframe f = 1 then UdpRecv_MIDDLE_FRAME else UdpRecv_START_FRAME) b0"
      "list_all2 (\<lambda>p b. carries p (h264_head f (timestamp h)) UdpRecv_MIDDLE_FRAME b) ps bss"
      "carries pl (h264_head f (timestamp h)) UdpRecv_LAST_FRAME bl" "b0 @ concat bss @ bl = start_code @ n"
    then show ?thesis
      using assms(3) by (intro exI [of _ "p0 # ps"] exI [of _ pl] exI [of _ "b0 # bss"] exI [of _ bl]) simp
  qed
qed

lemma frame_bytes_append: "frame_bytes (xs @ ys) = frame_bytes xs @ frame_bytes ys"
  by (simp add: frame_bytes_def)

lemma run_i_frame:
  assumes s: "thread_ok s" and f: "codec f = 0" "samplerate f < 16" "Iframe f = 1"
    and m: "0 < m" "m \<le> 1439"
    and sps: "is_sps sps" "length sps - 1 \<le> m"
    and pps: "list_all (\<lambda>n. is_pps n \<and> length n - 1 \<le> m) ppss" and idr: "is_idr idr"
    and len: "unat (framelength f) = length (frame_bytes (sps # ppss @ [idr]))"
      "length (frame_bytes (sps # ppss @ [idr])) \<le> UdpRecv_MAX_FRAME_LEN"
    and evs: "list_all2 packet_event (frame_packets h f m seq (sps # ppss @ [idr])) evs"
  shows "\<exists>s' c. udp_recv_deal evs s = Some s' \<and> thread_ok s' \<and> r_calls s' = r_calls s @ [c]
           \<and> announces (h264_head f (timestamp h)) (frame_bytes (sps # ppss @ [idr])) c"
proof -
  let ?H = "h264_head f (timestamp h)"
  obtain p0 where p0: "nalu_packets h f sps m seq = [p0]" "carries p0 ?H UdpRecv_START_FRAME (start_code @ sps)"
    using carries_single [OF f(1,2) m(2) sps(2), of h seq] f(3) sps(1)
    by (auto simp: is_sps_def unit_segment_def)
  obtain ps seq' where ps: "frame_packets h f m (seq + 1) (ppss @ [idr]) = ps @ frame_packets h f m seq' [idr]"
    "list_all2 (\<lambda>p b. carries p ?H UdpRecv_MIDDLE_FRAME b) ps (map (\<lambda>n. start_code @ n) ppss)"
    using pps_packets [OF f m(2) pps] by blast
  obtain qs pl bss bl where q: "nalu_packets h f idr m seq' = qs @ [pl]"
    "list_all2 (\<lambda>p b. carries p ?H UdpRecv_MIDDLE_FRAME b) qs bss"
    "carries pl ?H UdpRecv_LAST_FRAME bl" "concat bss @ bl = start_code @ idr"
    using idr_packets [OF f m idr, of h seq'] by blast
  have pk: "frame_packets h f m seq (sps # ppss @ [idr]) = p0 # (ps @ qs) @ [pl]"
    using p0(1) ps(1) q(1) by simp
  have mid: "list_all2 (\<lambda>p b. carries p ?H UdpRecv_MIDDLE_FRAME b) (ps @ qs) (map (\<lambda>n. start_code @ n) ppss @ bss)"
    using ps(2) q(2) by (rule list_all2_appendI)
  have bytes: "(start_code @ sps) @ concat (map (\<lambda>n. start_code @ n) ppss @ bss) @ bl
      = frame_bytes (sps # ppss @ [idr])"
    using q(4) by (simp add: frame_bytes_def)
  have v: "video_head ?H" by (simp add: video_head_def h264_head_def)
  from run_frame [OF s evs [unfolded pk] v p0(2) q(3) mid] len
  show ?thesis unfolding bytes by (simp add: h264_head_def)
qed

text \<open>JPEG pictures.\<close>

lemma run_jpeg:
  assumes s: "thread_ok s" and f: "codec f = 2" and m: "0 < m" "m \<le> 1444"
    and len: "unat (framelength f) = length d" "length d \<le> UdpRecv_MAX_FRAME_LEN"
    and evs: "list_all2 packet_event (jpeg_packets h f d m seq) evs"
  shows "\<exists>s' c. udp_recv_deal evs s = Some s' \<and> thread_ok s' \<and> r_calls s' = r_calls s @ [c]
           \<and> announces (jpeg_head f (timestamp h)) d c"
proof -
  let ?H = "jpeg_head f (timestamp h)"
  have v: "video_head ?H" "m_frame_length ?H = framelength f" by (simp_all add: video_head_def jpeg_head_def)
  have c: "carries (pack_head h' (f\<lparr>samplerate := sr\<rparr>) @ p) ?H (ucast sr) p"
    if "sr < 16" "length p \<le> 1444" "timestamp h' = timestamp h" for h' sr p
    using carries_jpeg [of "f\<lparr>samplerate := sr\<rparr>" p h'] that f by (simp add: jpeg_head_def)
  show ?thesis
  proof (cases "length d \<le> m")
    case True
    obtain now mv ma where e: "evs = [Packet (pack_head (h\<lparr>marker := 1, seq_no := seq\<rparr>) (f\<lparr>samplerate := 3\<rparr>) @ d) now mv ma]"
      "alloc_ok mv ma"
      using evs True by (auto simp: jpeg_packets_def list_all2_Cons1 packet_event_def)
    have "carries (pack_head (h\<lparr>marker := 1, seq_no := seq\<rparr>) (f\<lparr>samplerate := 3\<rparr>) @ d) ?H
        UdpRecv_INDEPENDENT_FRAME d"
      using c [of 3 d "h\<lparr>marker := 1, seq_no := seq\<rparr>"] True m(2) by (simp add: seg_names)
    from step_independent [OF s this v(1) e(2), of now] len v(2) show ?thesis by (auto simp: e(1))
  next
    case False
    define k where "k = (if length d mod m = 0 then length d div m - 1 else length d div m)"
    have k: "0 < k" "length d \<le> Suc k * m"
      using last_piece [OF m(1) _ refl k_def] False by simp_all
    let ?p = "jpeg_packet h f d m k seq"
    let ?q = "\<lambda>t. piece m t d"
    have l: "length (?q t) \<le> 1444" for t using m(2) by (simp add: length_piece)
    have pk: "jpeg_packets h f d m seq = ?p 0 # map ?p [1..<k] @ [?p k]"
      using False unfolding jpeg_packets_def k_def [symmetric] Let_def upt_ends [OF k(1)] by simp
    have c0: "carries (?p 0) ?H UdpRecv_START_FRAME (?q 0)"
      using c [of 2 "?q 0" "h\<lparr>seq_no := seq, marker := 0\<rparr>"] l [of 0] k(1)
      by (simp add: jpeg_packet_def seg_names)
    have cm: "carries (?p t) ?H UdpRecv_MIDDLE_FRAME (?q t)" if "t \<in> set [1..<k]" for t
      using that c [of 0 "?q t" "h\<lparr>seq_no := seq + of_nat t, marker := 0\<rparr>"] l [of t]
      by (simp add: jpeg_packet_def seg_names)
    have cl: "carries (?p k) ?H UdpRecv_LAST_FRAME (?q k)"
      using c [of 1 "?q k" "h\<lparr>seq_no := seq + of_nat k, marker := 1\<rparr>"] l [of k] k(1)
      by (simp add: jpeg_packet_def seg_names)
    have "concat (map ?q [0..<Suc k]) = d" using concat_pieces [of m d "Suc k"] k(2) by simp
    then have bytes: "?q 0 @ concat (map ?q [1..<k]) @ ?q k = d" unfolding upt_ends [OF k(1)] by simp
    have "list_all2 (\<lambda>p b. carries p ?H UdpRecv_MIDDLE_FRAME b) (map ?p [1..<k]) (map ?q [1..<k])"
      using cm by (simp add: list_all2_map1 list_all2_map2 list_all2_same)
    from run_frame [OF s evs [unfolded pk] v(1) c0 cl this] len v(2)
    show ?thesis unfolding bytes by simp
  qed
qed

subsection \<open>What the sending module puts on the wire\<close>

lemma tick_keeps_address:
  "datagram_of c (snd (UdpSend_get_time_tick uh t)) = datagram_of c uh"
  "src_data (snd (UdpSend_get_time_tick uh t)) = src_data uh"
  by (auto simp: UdpSend_get_time_tick_def Let_def datagram_of_def port_of_def fun_eq_iff)

text \<open>The time stamp of the frame that is sent next.\<close>

definition stream_time :: "udp_send_module_handle \<Rightarrow> US_RTP_BUILD_INFO \<Rightarrow> frame_info_t \<Rightarrow> u32" where
  "stream_time p hnd fi =
     (let now = fst (UdpSend_get_time_tick (udp_hand p) (time_tick fi)) in now - rebase_time (time_org hnd) now)"

lemma stream_time_div: "stream_time p hnd fi * 90 div 90 = stream_time p hnd fi"
proof -
  have "unat (stream_time p hnd fi) \<le> 47711859"
    using tick_bound [of "udp_hand p" "time_tick fi"] rebase_time_le
    by (simp add: stream_time_def Let_def unat_sub)
  then show ?thesis by (rule times_90_div)
qed

lemma send_h264:
  assumes so: "lossless so" and p: "rtp_hand p = Some hnd" "src_data (udp_hand p) = Some (d @ rest)"
    and fi: "fi_data_codec fi = RUdpS_H264_CODEC_TYPE" "fi_frame_length fi = of_nat (length d)" "length d < 2 ^ 31"
    and d: "d = frame_bytes (ps @ [nal])" "list_all param_set ps" "plain_unit nal"
  shows "\<exists>p' net'. UdpSend_rtp_data so fh0 p fi net = Some (OPERATION_SUCC, p', net')
    \<and> wire net' = wire net @ map (datagram_of 0 (udp_hand p))
        (frame_packets (video_hdr (stream_time p hnd fi * 90)) (UdpSend_set_hdb_freame_head fh0 fi) 1366
           (ucast (video_seq_num hnd)) (ps @ [nal]))"
proof -
  obtain vt uh where t: "UdpSend_get_time_tick (udp_hand p) (time_tick fi) = (vt, uh)" by fastforce
  let ?fh = "UdpSend_set_hdb_freame_head fh0 fi"
  have c: "codec ?fh = 0" using fi(1) by (simp add: UdpSend_set_hdb_freame_head_def Let_def)
  have uh: "src_data uh = Some (d @ rest)" "datagram_of c uh = datagram_of c (udp_hand p)" for c
    using tick_keeps_address [where uh = "udp_hand p" and t = "time_tick fi"] p(2) t by simp_all
  define torg where "torg = rebase_time (time_org hnd) vt"
  have ts: "vt - torg = stream_time p hnd fi" using t by (simp add: stream_time_def torg_def Let_def)
  let ?pk = "frame_packets (video_hdr (stream_time p hnd fi * 90)) ?fh 1366 (ucast (video_seq_num hnd)) (ps @ [nal])"
  obtain uh' net' where e: "emit_all 0 ?pk uh net = (uh', net')" by fastforce
  have w: "wire net' = wire net @ map (datagram_of 0 (udp_hand p)) ?pk"
    using emit_all_wire [of 0 ?pk uh net] uh(2) e by simp
  have "video_loop so d (int (length d)) (int 1366) (vt - torg) ?fh (int 0) torg (ucast (video_seq_num hnd)) uh net =
      Some (torg, ucast (video_seq_num hnd) + of_nat (length ?pk), uh', net')"
    using video_loop_lossless [where so = so and d = d and ps = ps and nal = nal and fh = ?fh and m = 1366 and p = 0 and tick = "vt - torg"] so fi(3) d c e ts
    by simp
  from video_loop_longer [OF this, of rest]
  have "UdpSend_rtp_build_video_data so (Some hnd) (int (length d)) (Some (d @ rest)) 1380 vt (Some uh) ?fh net =
      Some (0, Some (hnd\<lparr>time_org := torg, video_seq_num := set_low16 (video_seq_num hnd)
        (ucast (video_seq_num hnd) + of_nat (length ?pk))\<rparr>), Some uh', net')"
    by (simp add: UdpSend_rtp_build_video_data_def torg_def Let_def)
  then show ?thesis
    using w t uh(1) p(1) fi(1) sint_small [OF fi(3)] fi(2)
    by (simp add: UdpSend_rtp_data_def MAX_VOD_MTU_def)
qed

lemma fourcc_distinct: "RUdpS_H264_CODEC_TYPE \<noteq> RUdpS_JPEG_CODEC_TYPE"
  by (simp add: RUdpS_H264_CODEC_TYPE_def RUdpS_JPEG_CODEC_TYPE_def RUdpS_MAKEFOURCC_def)

lemma send_jpeg:
  assumes so: "lossless so" and p: "rtp_hand p = Some hnd" "src_data (udp_hand p) = Some (d @ rest)"
    and fi: "fi_data_codec fi = RUdpS_JPEG_CODEC_TYPE" "fi_frame_length fi = of_nat (length d)" "length d < 2 ^ 31"
  shows "\<exists>p' net' ts. UdpSend_rtp_data so fh0 p fi net = Some (OPERATION_SUCC, p', net')
    \<and> ts = fst (UdpSend_get_time_tick (udp_hand p) (time_tick fi))
    \<and> wire net' = wire net @ map (datagram_of 2 (udp_hand p))
        (jpeg_packets (video_hdr ts) (UdpSend_set_hdb_freame_head fh0 fi) d 1352 (ucast (jpg_seq_num hnd)))"
proof -
  obtain vt uh where t: "UdpSend_get_time_tick (udp_hand p) (time_tick fi) = (vt, uh)" by fastforce
  let ?fh = "UdpSend_set_hdb_freame_head fh0 fi"
  have c: "codec ?fh = 2" "samplerate ?fh = 0" using fi(1) fourcc_distinct
    by (simp_all add: UdpSend_set_hdb_freame_head_def Let_def)
  have uh: "src_data uh = Some (d @ rest)" "datagram_of c uh = datagram_of c (udp_hand p)" for c
    using tick_keeps_address [where uh = "udp_hand p" and t = "time_tick fi"] p(2) t by simp_all
  have eta: "\<lparr>codec = codec ?fh, samplerate = 0, framerate = framerate ?fh, width = width ?fh,
      height = height ?fh, Iframe = Iframe ?fh, reserve = reserve ?fh, framelength = framelength ?fh\<rparr> = ?fh"
    using c(2) by (intro US_FRAMEHEAD.equality) simp_all
  let ?pk = "jpeg_packets (video_hdr vt) ?fh d 1352 (ucast (jpg_seq_num hnd))"
  obtain uh' net' where e: "emit_all 2 ?pk uh net = (uh', net')" by fastforce
  have w: "wire net' = wire net @ map (datagram_of 2 (udp_hand p)) ?pk"
    using emit_all_wire [of 2 ?pk uh net] uh(2) e by simp
  have "jpeg_send so d (int (length d)) (int 1352) (video_hdr vt) ?fh (ucast (jpg_seq_num hnd)) uh net =
      Some (0, ucast (jpg_seq_num hnd) + of_nat (length ?pk), uh', net')"
    using jpeg_send_lossless [where so = so and fh = ?fh and m = 1352 and n = "length d" and d = d] so c(1) e by simp
  from jpeg_send_longer [OF this, of rest]
  have "UdpSend_rtp_build_jpeg_data so (Some hnd) (int (length d)) (Some (d @ rest)) 1380 vt (Some uh) ?fh net =
      Some (0, Some (hnd\<lparr>jpg_seq_num := set_low16 (jpg_seq_num hnd)
        (ucast (jpg_seq_num hnd) + of_nat (length ?pk))\<rparr>), Some uh', net')"
    using eta by (simp add: UdpSend_rtp_build_jpeg_data_def)
  then show ?thesis
    using w t uh(1) p(1) fi(1) sint_small [OF fi(3)] fi(2) fourcc_distinct
    by (simp add: UdpSend_rtp_data_def MAX_VOD_MTU_def)
qed

subsection \<open>What the user's function sees\<close>

lemma sint_ucast16: "sint (ucast (w :: u16) :: u32) = uint w"
proof -
  have l: "unat w < 2 ^ 16" using unsigned_less [of w] by simp
  have "(ucast w :: u32) = of_nat (unat w)" by simp
  then have "sint (ucast w :: u32) = int (unat w)" using sint_small [of "unat w"] l by simp
  then show ?thesis by simp
qed

lemma byte_nibble_small: "(x :: byte) AND 0xF < 16"
  by (simp add: mask_byte take_bit_eq_mod word_less_nat_alt unat_mod_distrib)

lemma announces_h264:
  assumes "announces (h264_head f ts) bs c" "framelength f = of_nat (length bs)" "length bs < 2 ^ 31"
  shows "\<exists>si buf. c = (si, buf, int (length bs)) \<and> take (length bs) buf = bs
    \<and> si_type si = UdpRecv_H264_CODEC_TYPE \<and> si_width si = uint (width f)
    \<and> si_height si = uint (height f) \<and> IDR_FLAG si = (if Iframe f \<noteq> 0 then 16 else 0)"
  using assms sint_small [OF assms(3)]
  by (auto simp: announces_def h264_head_def udp_recv_set_stream_info_def Let_def sint_ucast16)

lemma announces_jpeg:
  assumes "announces (jpeg_head f ts) bs c" "framelength f = of_nat (length bs)" "length bs < 2 ^ 31"
  shows "\<exists>si buf. c = (si, buf, int (length bs)) \<and> take (length bs) buf = bs
    \<and> si_type si = UdpRecv_JPEG_CODEC_TYPE \<and> si_width si = uint (width f)
    \<and> si_height si = uint (height f)"
  using assms sint_small [OF assms(3)]
  by (auto simp: announces_def jpeg_head_def udp_recv_set_stream_info_def Let_def sint_ucast16)

text \<open>A stream that was opened and started is ready for packets.\<close>

lemma thread_ok_fresh:
  assumes "udp_recv_init True True src = Some h" "rc_has_func src"
  shows "thread_ok (recv_thread_entry fd bnd rb (udp_recv_start h))"
  using assms
  by (auto simp: udp_recv_init_def recv_thread_entry_def udp_recv_start_def thread_ok_def handle_inv_def
      UdpRecv_THREAD_RUN_def Let_def)

subsection \<open>Delivery\<close>

text \<open>
  \<open>delivered_once pk Q d\<close>: a receiving thread that is ready (running, started, with a user function) and
  gets the packets \<open>pk\<close> in order, whatever the local clock and the allocated blocks are, calls the
  user's function exactly once, with the bytes \<open>d\<close>, their length and a stream info that satisfies
  \<open>Q\<close>, and is ready again afterwards.
\<close>

definition delivered_once :: "byte list list \<Rightarrow> (udp_recv_stream_info_t \<Rightarrow> bool) \<Rightarrow> byte list \<Rightarrow> bool" where
  "delivered_once pk Q d \<longleftrightarrow>
     (\<forall>s evs. thread_ok s \<and> list_all2 packet_event pk evs \<longrightarrow>
        (\<exists>s' si buf. udp_recv_deal evs s = Some s' \<and> thread_ok s'
           \<and> r_calls s' = r_calls s @ [(si, buf, int (length d))] \<and> take (length d) buf = d \<and> Q si))"

lemma delivered_onceI:
  assumes "\<And>s evs. thread_ok s \<Longrightarrow> list_all2 packet_event pk evs \<Longrightarrow>
      \<exists>s' c. udp_recv_deal evs s = Some s' \<and> thread_ok s' \<and> r_calls s' = r_calls s @ [c] \<and> announces H d c"
    and "\<And>c. announces H d c \<Longrightarrow> \<exists>si buf. c = (si, buf, int (length d)) \<and> take (length d) buf = d \<and> Q si"
  shows "delivered_once pk Q d"
  unfolding delivered_once_def using assms by metis

end
