(* ===== verification/LiveDelivery.thy ===== *)
theory LiveDelivery
  imports LiveViewers Stream
begin

section \<open>From the queue of the live module to its viewers (src/reach\_edukit/src/room/lives/lives.c)\<close>

text \<open>
  What one round of the live thread does with a frame: who gets its packets, what a receiver makes of them, and
  which blocks are freed.  \<^verbatim>\<open>send_rtp_video\<close> over a network that takes every datagram meets the contract
  \<open>packet_sender\<close> of \<^theory_text>\<open>LiveRtp\<close>, so the packets are those of \<^theory_text>\<open>RtpBuild\<close> and the receiving
  thread of \<^theory_text>\<open>UdpRecv\<close> puts them together as \<^theory_text>\<open>Stream\<close> shows.
\<close>

subsection \<open>The sender of the packetiser\<close>

definition dgram_to :: "send_user \<Rightarrow> byte list \<Rightarrow> datagram" where
  "dgram_to u p = \<lparr>d_fd = su_fd u, d_ip = su_ip u, d_port = su_port u, d_bytes = p\<rparr>"

definition put_users ::
  "send_user list \<Rightarrow> byte list \<Rightarrow> debug_pack_seq_num_t \<times> net \<Rightarrow> debug_pack_seq_num_t \<times> net" where
  "put_users us p s =
     (count_packet p False (fst s),
      (snd s)\<lparr>calls := calls (snd s) + length us, wire := wire (snd s) @ map (\<lambda>u. dgram_to u p) us\<rparr>)"

lemma async_sendto_same: "async_sendto_data = us_async_sendto_data"
  by (intro ext) (simp add: async_sendto_data_def us_async_sendto_data_def)

lemma send_to_users_lossless:
  assumes "lossless so" "0 < n" "n \<le> length b"
  shows "send_to_users so b (int n) us loss net =
    Some (loss, net\<lparr>calls := calls net + length us, wire := wire net @ map (\<lambda>u. dgram_to u (take n b)) us\<rparr>)"
proof (induction us arbitrary: loss net)
  case (Cons u us)
  then show ?case
    using us_async_sendto_data_lossless [OF assms, of "su_fd u" "su_port u" "su_ip u" net]
    by (simp add: async_sendto_same dgram_to_def)
qed simp

lemma count_packet_take: "28 \<le> n \<Longrightarrow> n \<le> length b \<Longrightarrow> count_packet (take n b) l ps = count_packet b l ps"
  by (simp add: count_packet_def rx_frame_def rx_seq_no_def rd16_def rd32_def)

lemma live_sender:
  assumes "lossless so"
  shows "packet_sender (send_rtp_video so us) (put_users us)"
proof
  fix n :: nat and p :: "byte list" and s
  assume n: "28 \<le> n" "n \<le> length p"
  then show "send_rtp_video so us p (int n) s = Some (0, put_users us (take n p) s)"
    using send_to_users_lossless [OF assms, of n p us False "snd s"] count_packet_take [OF n]
    by (simp add: send_rtp_video_def put_users_def OPERATION_SUCC_def)
qed

interpretation live_tx: packet_sender "send_rtp_video (\<lambda>i n. (int n, 0)) us" "put_users us" for us
  by (rule live_sender) (simp add: lossless_def)

lemma fold_put_users:
  "wire (snd (fold (put_users us) pk s)) = wire (snd s) @ concat (map (\<lambda>p. map (\<lambda>u. dgram_to u p) us) pk)"
  by (induction pk arbitrary: s) (simp_all add: put_users_def)

text \<open>What one socket carries.\<close>

lemma filter_one:
  "distinct (map su_fd us) \<Longrightarrow> u \<in> set us \<Longrightarrow>
     filter (\<lambda>d. d_fd d = su_fd u) (map (\<lambda>u. dgram_to u p) us) = [dgram_to u p]"
  by (induction us) (auto simp: dgram_to_def filter_empty_conv image_iff)

lemma filter_viewer:
  assumes "distinct (map su_fd us)" "u \<in> set us"
  shows "filter (\<lambda>d. d_fd d = su_fd u) (concat (map (\<lambda>p. map (\<lambda>u. dgram_to u p) us) pk)) = map (dgram_to u) pk"
  using filter_one [OF assms] by (induction pk) simp_all

lemma filter_other:
  "fd \<notin> su_fd ` set us \<Longrightarrow> filter (\<lambda>d. d_fd d = fd) (concat (map (\<lambda>p. map (\<lambda>u. dgram_to u p) us) pk)) = []"
  by (auto simp: filter_empty_conv dgram_to_def)

subsection \<open>The viewers of a stream\<close>

definition watching :: "nat \<Rightarrow> int \<Rightarrow> int \<Rightarrow> lives_user_info_t \<Rightarrow> bool" where
  "watching i q k u \<longleftrightarrow> lu_index u \<noteq> -1 \<and> (k \<noteq> VIDEO_JPEG \<longrightarrow> lu_quality u = q) \<and> enc_digit i \<in> set (lu_encode u)"

definition entry :: "nat \<Rightarrow> nat \<times> lives_user_info_t \<Rightarrow> send_user" where
  "entry i x = \<lparr>su_slot = fst x, su_ip = la_ip (lu_addr (snd x) ! i), su_port = la_port (lu_addr (snd x) ! i),
     su_fd = lu_fd (snd x)\<rparr>"

lemma entry_fields [simp]: "su_slot (entry i x) = fst x" "su_fd (entry i x) = lu_fd (snd x)"
  by (simp_all add: entry_def)

lemma send_entries_map:
  "list_all (\<lambda>x. i < length (lu_addr (snd x))) xs \<Longrightarrow> send_entries i xs = Some (map (entry i) xs)"
  by (induction xs) (simp_all add: send_entry_def entry_def peek_nat)

lemma snd_filter_zip:
  "length xs = length ys \<Longrightarrow> map snd (filter (\<lambda>x. P (snd x)) (zip xs ys)) = filter P ys"
  by (induction xs ys rule: list_induct2) simp_all

text \<open>A table whose entries have all addresses and whose viewers have sockets of their own.\<close>

definition live_users_ok :: "lives_mode_info_t \<Rightarrow> bool" where
  "live_users_ok st \<longleftrightarrow> list_all (\<lambda>u. length (lu_addr u) = VIDEO_ENCODE_MAX_NUM) (lm_users st)
     \<and> distinct (map lu_fd (filter (\<lambda>u. lu_index u \<noteq> -1) (lm_users st)))"

definition watchers :: "nat \<Rightarrow> int \<Rightarrow> int \<Rightarrow> lives_mode_info_t \<Rightarrow> send_user list" where
  "watchers i q k st = map (entry i) [x \<leftarrow> slots st. watching i q k (snd x)]"

lemma get_send_userinfo_watchers:
  assumes "live_users_ok st" "i < VIDEO_ENCODE_MAX_NUM"
  shows "get_send_userinfo \<lparr>vd_enc = i, vd_quality = q, vd_type = k, vd_time = t, vd_digit = enc_digit i\<rparr> st
    = Some (watchers i q k st)"
proof -
  have "list_all (\<lambda>x. i < length (lu_addr (snd x))) (slots st)"
    using assms by (auto simp: live_users_ok_def slots_def list_all_iff dest: set_zip_rightD)
  then have "list_all (\<lambda>x. i < length (lu_addr (snd x))) [x \<leftarrow> slots st. watching i q k (snd x)]"
    by (simp add: list_all_iff)
  moreover have "[x \<leftarrow> slots st. lu_index (snd x) \<noteq> -1 \<and> distinguish_send_flag
      \<lparr>vd_enc = i, vd_quality = q, vd_type = k, vd_time = t, vd_digit = enc_digit i\<rparr> (snd x)]
      = [x \<leftarrow> slots st. watching i q k (snd x)]"
    by (simp add: distinguish_send_flag_def watching_def)
  ultimately show ?thesis by (simp add: get_send_userinfo_def watchers_def send_entries_map)
qed

lemma watchers_fds:
  assumes "live_users_ok st"
  shows "map su_fd (watchers i q k st) = map lu_fd (filter (watching i q k) (lm_users st))"
    "distinct (map su_fd (watchers i q k st))"
proof -
  have "map su_fd (watchers i q k st) = map lu_fd (map snd [x \<leftarrow> slots st. watching i q k (snd x)])"
    by (simp add: watchers_def comp_def)
  also have "map snd [x \<leftarrow> slots st. watching i q k (snd x)] = filter (watching i q k) (lm_users st)"
    unfolding slots_def by (rule snd_filter_zip) simp
  finally show m: "map su_fd (watchers i q k st) = map lu_fd (filter (watching i q k) (lm_users st))" .
  have "filter (watching i q k) (lm_users st)
      = filter (watching i q k) (filter (\<lambda>u. lu_index u \<noteq> -1) (lm_users st))"
    by (simp add: filter_filter) (auto simp: watching_def intro: filter_cong)
  then show "distinct (map su_fd (watchers i q k st))"
    unfolding m using assms by (metis distinct_map_filter live_users_ok_def)
qed

text \<open>
  \<open>reaches st i q k pk W\<close>: of the datagrams \<open>W\<close>, the socket of each viewer that watches the stream carries the
  packets \<open>pk\<close> in order to the viewer's address for encoder \<open>i\<close>, and the socket of any other viewer carries nothing.
\<close>

definition reaches :: "lives_mode_info_t \<Rightarrow> nat \<Rightarrow> int \<Rightarrow> int \<Rightarrow> byte list list \<Rightarrow> datagram list \<Rightarrow> bool" where
  "reaches st i q k pk W \<longleftrightarrow>
     (\<forall>u \<in> set (lm_users st). lu_index u \<noteq> -1 \<longrightarrow>
        filter (\<lambda>d. d_fd d = lu_fd u) W =
          (if watching i q k u
           then map (\<lambda>p. \<lparr>d_fd = lu_fd u, d_ip = la_ip (lu_addr u ! i), d_port = la_port (lu_addr u ! i), d_bytes = p\<rparr>) pk
           else []))"

lemma watchers_reached:
  assumes ok: "live_users_ok st" and W: "W = concat (map (\<lambda>p. map (\<lambda>u. dgram_to u p) (watchers i q k st)) pk)"
  shows "reaches st i q k pk W"
  unfolding reaches_def
proof (intro ballI impI)
  fix u assume u: "u \<in> set (lm_users st)" "lu_index u \<noteq> -1"
  show "filter (\<lambda>d. d_fd d = lu_fd u) W = (if watching i q k u
      then map (\<lambda>p. \<lparr>d_fd = lu_fd u, d_ip = la_ip (lu_addr u ! i), d_port = la_port (lu_addr u ! i), d_bytes = p\<rparr>) pk else [])"
  proof (cases "watching i q k u")
    case True
    obtain j where j: "j < length (lm_users st)" "u = lm_users st ! j" using u(1) by (metis in_set_conv_nth)
    then have "(j, u) \<in> set (slots st)" by (auto simp: slots_def in_set_zip intro!: exI [of _ j])
    then have "entry i (j, u) \<in> set (watchers i q k st)" using True by (auto simp: watchers_def)
    from filter_viewer [OF watchers_fds(2) [OF ok] this] True show ?thesis
      unfolding W by (simp add: entry_def dgram_to_def)
  next
    case False
    have "lu_fd u \<notin> su_fd ` set (watchers i q k st)"
    proof
      assume "lu_fd u \<in> su_fd ` set (watchers i q k st)"
      then have "lu_fd u \<in> set (map lu_fd (filter (watching i q k) (lm_users st)))"
        using watchers_fds(1) [OF ok, of i q k] by (metis set_map)
      then obtain w where w: "w \<in> set (lm_users st)" "watching i q k w" "lu_fd w = lu_fd u" by auto
      have "w = u"
        using ok u w unfolding live_users_ok_def distinct_map
        by (auto simp: inj_on_def watching_def)
      then show False using w(2) False by simp
    qed
    then show ?thesis unfolding W using False by (simp add: filter_other)
  qed
qed

subsection \<open>An H.264 frame\<close>

lemma types_distinct [simp]: "R_VIDEO \<noteq> R_JPEG" "R_JPEG \<noteq> R_VIDEO" "R_AUDIO \<noteq> R_JPEG" "R_VIDEO \<noteq> R_AUDIO"
  by (simp_all add: R_VIDEO_def R_JPEG_def R_AUDIO_def)

text \<open>
  A frame as an encoder makes it: one unit, or parameter sets that fit in a packet each and the slice of a key
  frame.
\<close>

definition video_frame :: "u32 \<Rightarrow> byte list \<Rightarrow> byte list list \<Rightarrow> byte list \<Rightarrow> bool" where
  "video_frame fl d ps nal \<longleftrightarrow> d = frame_bytes (ps @ [nal]) \<and> length d \<le> UdpRecv_MAX_FRAME_LEN \<and>
     (if fl = 0 then ps = [] \<and> plain_unit nal \<and> nal ! 0 AND 0x80 = 0 \<and> nal ! 0 AND 0x1F \<noteq> 28
      else \<exists>sps ppss. ps = sps # ppss \<and> list_all param_set ps \<and> is_sps sps \<and> list_all is_pps ppss \<and> is_idr nal
             \<and> list_all (\<lambda>n. length n \<le> 1267) ps)"

lemma video_frame_units:
  assumes "video_frame fl d ps nal"
  shows "d = frame_bytes (ps @ [nal])" "list_all param_set ps" "plain_unit nal" "length d < 2 ^ 31"
  using assms by (auto simp: video_frame_def is_idr_def plain_unit_def UdpRecv_MAX_FRAME_LEN_def split: if_splits)

text \<open>What a receiver of the packets gets.\<close>

definition frame_seen :: "u32 \<Rightarrow> US_FRAMEHEAD \<Rightarrow> udp_recv_stream_info_t \<Rightarrow> bool" where
  "frame_seen fl f si \<longleftrightarrow> si_type si = UdpRecv_H264_CODEC_TYPE \<and> si_width si = uint (width f)
     \<and> si_height si = uint (height f) \<and> IDR_FLAG si = (if fl = 0 then 0 else 16)"

lemma live_frame_delivered:
  assumes v: "video_frame fl d ps nal" and f: "codec f = 0" "samplerate f = 0" "Iframe f = (if fl = 0 then 0 else 1)"
    "framelength f = of_nat (length d)"
  shows "delivered_once (frame_packets h f 1266 seq (ps @ [nal])) (frame_seen fl f) d"
proof (rule delivered_onceI [where H = "h264_head f (timestamp h)"])
  note u = video_frame_units [OF v]
  have l: "unat (framelength f) = length d" using f(4) unat_small [OF u(4)] by simp
  have max: "length d \<le> UdpRecv_MAX_FRAME_LEN" using v unfolding video_frame_def by blast
  fix s evs assume t: "thread_ok s" "list_all2 packet_event (frame_packets h f 1266 seq (ps @ [nal])) evs"
  show "\<exists>s' c. udp_recv_deal evs s = Some s' \<and> thread_ok s' \<and> r_calls s' = r_calls s @ [c]
      \<and> announces (h264_head f (timestamp h)) d c"
  proof (cases "fl = 0")
    case True
    then have n: "ps = []" "nal \<noteq> []" "nal ! 0 AND 0x80 = 0" "nal ! 0 AND 0x1F \<noteq> 28" "d = start_code @ nal"
      using v u(1) by (auto simp: video_frame_def plain_unit_def frame_bytes_def)
    have evs: "list_all2 packet_event (nalu_packets h f nal 1266 seq) evs" using t(2) n(1) by simp
    show ?thesis
      using run_p_frame [OF t(1) f(1) _ _ _ _ n(2-4) _ _ evs] f(2,3) l max True unfolding n(5) by simp
  next
    case False
    then obtain sps ppss where n: "ps = sps # ppss" "is_sps sps" "list_all is_pps ppss" "is_idr nal"
      "list_all (\<lambda>n. length n \<le> 1267) (sps # ppss)"
      using v by (auto simp: video_frame_def)
    have pps: "list_all (\<lambda>n. is_pps n \<and> length n - 1 \<le> 1266) ppss" "length sps - 1 \<le> 1266"
      using n(3,5) by (auto simp: list_all_iff)
    have evs: "list_all2 packet_event (frame_packets h f 1266 seq (sps # ppss @ [nal])) evs" using t(2) n(1) by simp
    show ?thesis
      using run_i_frame [OF t(1) f(1) _ _ _ _ n(2) pps(2,1) n(4) _ _ evs] f(2,3) l max False
      unfolding u(1) n(1) by simp
  qed
next
  fix c assume "announces (h264_head f (timestamp h)) d c"
  from announces_h264 [OF this f(4) video_frame_units(4) [OF v]] f(3)
  show "\<exists>si buf. c = (si, buf, int (length d)) \<and> take (length d) buf = d \<and> frame_seen fl f si"
    by (auto simp: frame_seen_def)
qed

text \<open>The frame head the live module makes of a message.\<close>

lemma video_head_of:
  assumes "pd_data_type pd = R_VIDEO"
  shows "codec (set_hdb_freame_head fh0 pd) = 0" "samplerate (set_hdb_freame_head fh0 pd) = 0"
    "Iframe (set_hdb_freame_head fh0 pd) = (if pd_flags pd = 0 then 0 else 1)"
    "framelength (set_hdb_freame_head fh0 pd) = pd_data_len pd"
    "width (set_hdb_freame_head fh0 pd) = ucast (pd_width pd)" "height (set_hdb_freame_head fh0 pd) = ucast (pd_height pd)"
  using assms by (simp_all add: set_hdb_freame_head_def)

lemma build_video:
  assumes so: "lossless (le_so env)" and pd: "pd_data_type pd = R_VIDEO" "pd_data_len pd = of_nat (length (pd_data pd))"
    and v: "video_frame (pd_flags pd) (pd_data pd) ps nal"
  shows "\<exists>hnd' T. build_packets env pd us ts (Some hnd) s
    = Some (0, Some hnd', fold (put_users us) (frame_packets (video_hdr T) (set_hdb_freame_head (le_fh0 env) pd) 1266
        (ucast (lv_seq_num hnd)) (ps @ [nal])) s)"
proof -
  note u = video_frame_units [OF v]
  have "sint (pd_data_len pd) = int (length (pd_data pd))" using pd(2) sint_small [OF u(4)] by simp
  then show ?thesis
    using packet_sender.live_video_packets [OF live_sender [OF so], where mtu = 1280 and fh = "set_hdb_freame_head (le_fh0 env) pd",
        OF _ _ _ u(4,1,2,3)] pd(1) video_head_of(1) [OF pd(1)]
    by (simp add: build_packets_def MAX_VOD_MEDIA_PACK_LEN_def Let_def) blast
qed

lemma get_set_lane [simp]: "get_lane q (set_lane q l e) = l"
  by (simp add: get_lane_def set_lane_def)

lemma lane_stamp_keeps:
  "lane_stamp a ts l = (l', t) \<Longrightarrow> ll_vrtp l' = ll_vrtp l \<and> ll_artp l' = ll_artp l \<and> ll_seq l' = ll_seq l
     \<and> ll_sindex l' = ll_sindex l"
  by (auto simp: lane_stamp_def split: if_splits prod.splits)

lemma put_lane_keeps [simp]:
  "lm_users (put_lane i q l st) = lm_users st" "lm_blocks (put_lane i q l st) = lm_blocks st"
  "lm_queue (put_lane i q l st) = lm_queue st" "lm_net (put_lane i q l st) = lm_net st"
  "lm_user_num (put_lane i q l st) = lm_user_num st" "lm_jpeg_valid (put_lane i q l st) = lm_jpeg_valid st"
  "lm_jpeg_buf (put_lane i q l st) = lm_jpeg_buf st" "lm_fds (put_lane i q l st) = lm_fds st"
  "length (lm_encs (put_lane i q l st)) = length (lm_encs st)" "slots (put_lane i q l st) = slots st"
  "watchers j p k (put_lane i q l st) = watchers j p k st"
  by (simp_all add: put_lane_def slots_def watchers_def)

lemma put_lane_get: "i < length (lm_encs st) \<Longrightarrow> get_lane q (lm_encs (put_lane i q l st) ! i) = l"
  by (simp add: put_lane_def)

lemma live_users_ok_cong: "lm_users s = lm_users t \<Longrightarrow> live_users_ok s = live_users_ok t"
  by (simp add: live_users_ok_def)

lemma send_video:
  assumes so: "lossless (le_so env)" and pd: "pd_data_type pd = R_VIDEO" "pd_data_len pd = of_nat (length (pd_data pd))"
    and v: "video_frame (pd_flags pd) (pd_data pd) ps nal" and b: "lm_blocks st b = Some pd"
    and h: "ll_vrtp (get_lane q (lm_encs st ! i)) = Some hnd"
  shows "\<exists>st' pk T. send_video_data_pdg env b us ts VIDEO_H264 i q q st = Some st'
    \<and> pk = frame_packets (video_hdr T) (set_hdb_freame_head (le_fh0 env) pd) 1266 (ucast (lv_seq_num hnd)) (ps @ [nal])
    \<and> wire (lm_net st') = wire (lm_net st) @ concat (map (\<lambda>p. map (\<lambda>u. dgram_to u p) us) pk)
    \<and> lm_blocks st' = (lm_blocks st)(b := None) \<and> lm_users st' = lm_users st \<and> lm_queue st' = lm_queue st
    \<and> lm_jpeg_valid st' = lm_jpeg_valid st \<and> lm_jpeg_buf st' = lm_jpeg_buf st"
proof -
  obtain hnd' T where B: "build_packets env pd us ts (Some hnd) (ll_seq (get_lane q (lm_encs st ! i)), lm_net st)
      = Some (0, Some hnd', fold (put_users us) (frame_packets (video_hdr T) (set_hdb_freame_head (le_fh0 env) pd) 1266
        (ucast (lv_seq_num hnd)) (ps @ [nal])) (ll_seq (get_lane q (lm_encs st ! i)), lm_net st))"
    using build_video [OF so pd v] by blast
  obtain ps' net' where f: "fold (put_users us) (frame_packets (video_hdr T) (set_hdb_freame_head (le_fh0 env) pd) 1266
        (ucast (lv_seq_num hnd)) (ps @ [nal])) (ll_seq (get_lane q (lm_encs st ! i)), lm_net st) = (ps', net')"
    by fastforce
  have "lane_rtp pd (get_lane q (lm_encs st ! i)) = Some hnd" using h pd(1) by (simp add: lane_rtp_def)
  then show ?thesis
    using b B f fold_put_users [of us "frame_packets (video_hdr T) (set_hdb_freame_head (le_fh0 env) pd) 1266
        (ucast (lv_seq_num hnd)) (ps @ [nal])" "(ll_seq (get_lane q (lm_encs st ! i)), lm_net st)"]
    by (simp add: send_video_data_pdg_def Let_def free_block_def VIDEO_H264_def VIDEO_JPEG_def) blast
qed

lemma enc_search_bound:
  "enc_search encs ty is = Some (Some (i, q, k)) \<Longrightarrow> i < length encs \<and> i \<in> set is"
  by (induction encs ty "is" rule: enc_search.induct)
    (auto simp: bind_eq_Some_conv peek_def split: if_splits)

text \<open>One round of the thread on a video frame, when some viewer watches the stream.\<close>

lemma frame_round:
  assumes so: "lossless (le_so env)" and ok: "live_users_ok st"
    and len: "length (lm_encs st) = VIDEO_ENCODE_MAX_NUM"
    and queue: "lm_queue st = (ty, Some b) # q'" "ty \<noteq> INTERRUPTION_MSG_ID" and jpeg: "lm_jpeg_valid st \<noteq> 0"
    and num: "lm_user_num st \<noteq> 0" and b: "lm_blocks st b = Some pd"
    and search: "enc_search (lm_encs st) ty [0..<nat (lm_enc_num st)] = Some (Some (i, q, VIDEO_H264))"
    and h: "ll_vrtp (get_lane q (lm_encs st ! i)) = Some hnd"
    and w: "u \<in> set (lm_users st)" "watching i q VIDEO_H264 u"
    and pd: "pd_data_type pd = R_VIDEO" "pd_data_len pd = of_nat (length (pd_data pd))"
    and v: "video_frame (pd_flags pd) (pd_data pd) ps nal"
  shows "\<exists>st' pk T. lives_round env st = Some st'
    \<and> pk = frame_packets (video_hdr T) (set_hdb_freame_head (le_fh0 env) pd) 1266 (ucast (lv_seq_num hnd)) (ps @ [nal])
    \<and> wire (lm_net st') = wire (lm_net st) @ concat (map (\<lambda>p. map (\<lambda>u. dgram_to u p) (watchers i q VIDEO_H264 st)) pk)
    \<and> lm_blocks st' = (lm_blocks st)(b := None) \<and> lm_users st' = lm_users st \<and> lm_queue st' = q'"
proof -
  let ?st = "st\<lparr>lm_queue := q'\<rparr>"
  let ?ts = "word_of_int (pd_time_tick pd) :: u32"
  have i: "i < VIDEO_ENCODE_MAX_NUM" using enc_search_bound [OF search] len by simp
  obtain l t where l: "lane_stamp False ?ts (get_lane q (lm_encs st ! i)) = (l, t)" by fastforce
  let ?st1 = "put_lane i q l ?st"
  have info: "get_video_data_info ty pd ?st
      = Some (Inr (\<lparr>vd_enc = i, vd_quality = q, vd_type = VIDEO_H264, vd_time = t, vd_digit = enc_digit i\<rparr>, ?st1))"
    using search l pd(1) by (simp add: get_video_data_info_def stamp_frame_def VIDEO_H264_def VIDEO_JPEG_def)
  have "live_users_ok ?st1" using ok by (simp add: live_users_ok_def)
  from get_send_userinfo_watchers [OF this i]
  have us: "get_send_userinfo \<lparr>vd_enc = i, vd_quality = q, vd_type = VIDEO_H264, vd_time = t, vd_digit = enc_digit i\<rparr> ?st1
      = Some (watchers i q VIDEO_H264 st)"
    by (simp add: watchers_def slots_def)
  have "lu_fd u \<in> set (map su_fd (watchers i q VIDEO_H264 st))"
    using w unfolding watchers_fds(1) [OF ok] by simp
  then have ne: "watchers i q VIDEO_H264 st \<noteq> []" by auto
  have h1: "ll_vrtp (get_lane q (lm_encs ?st1 ! i)) = Some hnd"
    using put_lane_get [of i ?st q l] i len lane_stamp_keeps [OF l] h by simp
  have b1: "lm_blocks ?st1 b = Some pd" using b by simp
  obtain st' pk T where s: "send_video_data_pdg env b (watchers i q VIDEO_H264 st) t VIDEO_H264 i q q ?st1 = Some st'"
    "pk = frame_packets (video_hdr T) (set_hdb_freame_head (le_fh0 env) pd) 1266 (ucast (lv_seq_num hnd)) (ps @ [nal])"
    "wire (lm_net st') = wire (lm_net st) @ concat (map (\<lambda>p. map (\<lambda>u. dgram_to u p) (watchers i q VIDEO_H264 st)) pk)"
    "lm_blocks st' = (lm_blocks st)(b := None)" "lm_users st' = lm_users st" "lm_queue st' = q'"
    using send_video [OF so pd v b1 h1, of "watchers i q VIDEO_H264 st" t] by auto
  have "local_media_data_pkg env ty b ?st = Some (OPERATION_SUCC, st')"
    using b num pd(1) info us ne s(1) by (simp add: local_media_data_pkg_def)
  then have "lives_round env st = Some st'"
    using queue jpeg by (simp add: lives_round_def deal_video_jpeg_data_def)
  then show ?thesis using s(2-6) by blast
qed

text \<open>
  C9: A frame that the receiving side queued for the live module reaches its viewers: over a network that takes every
  datagram one round of the thread sends it on the socket of each viewer that asked for the encoder in this quality,
  to the viewer's address for it, and on no other viewer's socket; the packets make a receiver call its user function
  exactly once, with the same bytes, size and key-frame mark; and the block of the message is freed.
\<close>

theorem live_frame_reaches_viewers:
  assumes "lossless (le_so env)" "live_users_ok st" "length (lm_encs st) = VIDEO_ENCODE_MAX_NUM"
    and "lm_queue st = (ty, Some b) # q'" "ty \<noteq> INTERRUPTION_MSG_ID" "lm_jpeg_valid st \<noteq> 0" "lm_user_num st \<noteq> 0"
    and "lm_blocks st b = Some pd"
    and "enc_search (lm_encs st) ty [0..<nat (lm_enc_num st)] = Some (Some (i, q, VIDEO_H264))"
    and "ll_vrtp (get_lane q (lm_encs st ! i)) = Some hnd"
    and "u \<in> set (lm_users st)" "watching i q VIDEO_H264 u"
    and "pd_data_type pd = R_VIDEO" "pd_data_len pd = of_nat (length (pd_data pd))"
    and "video_frame (pd_flags pd) (pd_data pd) ps nal"
  shows "\<exists>st' pk W. lives_round env st = Some st' \<and> wire (lm_net st') = wire (lm_net st) @ W
    \<and> reaches st i q VIDEO_H264 pk W
    \<and> delivered_once pk (frame_seen (pd_flags pd) (set_hdb_freame_head (le_fh0 env) pd)) (pd_data pd)
    \<and> lm_blocks st' = (lm_blocks st)(b := None) \<and> lm_users st' = lm_users st \<and> lm_queue st' = q'"
proof -
  obtain st' pk T where r: "lives_round env st = Some st'"
    "pk = frame_packets (video_hdr T) (set_hdb_freame_head (le_fh0 env) pd) 1266 (ucast (lv_seq_num hnd)) (ps @ [nal])"
    "wire (lm_net st') = wire (lm_net st) @ concat (map (\<lambda>p. map (\<lambda>u. dgram_to u p) (watchers i q VIDEO_H264 st)) pk)"
    "lm_blocks st' = (lm_blocks st)(b := None)" "lm_users st' = lm_users st" "lm_queue st' = q'"
    using frame_round [OF assms] by blast
  have "delivered_once pk (frame_seen (pd_flags pd) (set_hdb_freame_head (le_fh0 env) pd)) (pd_data pd)"
    unfolding r(2) by (rule live_frame_delivered [OF assms(15)]) (use video_head_of [OF assms(13)] assms(14) in simp_all)
  with r watchers_reached [OF assms(2) refl, of i q VIDEO_H264 pk] show ?thesis by blast
qed

definition w_pd :: parse_data_t where
  "w_pd = parse_zero\<lparr>pd_data := [0, 0, 0, 1, 0x41, 7], pd_data_len := 6, pd_width := 1280, pd_height := 720\<rparr>"

definition w_room :: lives_mode_info_t where
  "w_room = w_new\<lparr>lm_users := [w_user 100 5], lm_user_num := 1, lm_enc_num := 1,
     lm_encs := \<lparr>ve_HD = (new_lane (\<lambda>_. True) 0 2)\<lparr>ll_sindex := 3\<rparr>, ve_BD = new_lane (\<lambda>_. True) 1 3, ve_type = 0\<rparr>
       # map (new_enc (\<lambda>_. True)) [1..<9],
     lm_queue := [(3, Some 1)], lm_blocks := [1 \<mapsto> w_pd]\<rparr>"

lemma w_new_fields: "lm_jpeg_valid w_new = -1" "wire (lm_net w_new) = []"
  by (simp_all add: w_new_def init_lives_mode_info_def list_all_iff)

lemma live_frame_reaches_viewers_witness:
  "\<exists>st' pk W. lives_round w_env w_room = Some st' \<and> wire (lm_net st') = W \<and> reaches w_room 0 0 VIDEO_H264 pk W
    \<and> filter (\<lambda>d. d_fd d = 0) W = map (\<lambda>p. \<lparr>d_fd = 0, d_ip = [0], d_port = 100, d_bytes = p\<rparr>) pk
    \<and> delivered_once pk (frame_seen 0 (set_hdb_freame_head (le_fh0 w_env) w_pd)) [0, 0, 0, 1, 0x41, 7]"
proof -
  have u: "w_user 100 5 \<in> set (lm_users w_room)" "watching 0 0 VIDEO_H264 (w_user 100 5)"
    by (simp_all add: w_room_def watching_def w_user_def enc_digit_def)
  have v: "video_frame (pd_flags w_pd) (pd_data w_pd) [] [0x41, 7]"
    by (simp add: video_frame_def w_pd_def parse_zero_def frame_bytes_def start_code_def plain_unit_def
        UdpRecv_MAX_FRAME_LEN_def)
  have h: "lossless (le_so w_env)" "live_users_ok w_room" "length (lm_encs w_room) = VIDEO_ENCODE_MAX_NUM"
    "lm_queue w_room = (3, Some 1) # []" "3 \<noteq> INTERRUPTION_MSG_ID" "lm_jpeg_valid w_room \<noteq> 0" "lm_user_num w_room \<noteq> 0"
    "lm_blocks w_room 1 = Some w_pd"
    "enc_search (lm_encs w_room) 3 [0..<nat (lm_enc_num w_room)] = Some (Some (0, 0, VIDEO_H264))"
    "ll_vrtp (get_lane 0 (lm_encs w_room ! 0)) = Some rtp_info_zero"
    using w_new_fields
    by (simp_all add: w_env_def lossless_def live_users_ok_def w_room_def live_consts w_user_def peek_def get_lane_def
        new_lane_def rtp_build_init_def rtp_info_zero_def)
  have p: "pd_data_type w_pd = R_VIDEO" "pd_data_len w_pd = of_nat (length (pd_data w_pd))"
    by (simp_all add: w_pd_def parse_zero_def R_VIDEO_def)
  obtain st' pk W where r: "lives_round w_env w_room = Some st'" "wire (lm_net st') = wire (lm_net w_room) @ W"
    "reaches w_room 0 0 VIDEO_H264 pk W"
    "delivered_once pk (frame_seen (pd_flags w_pd) (set_hdb_freame_head (le_fh0 w_env) w_pd)) (pd_data w_pd)"
    using live_frame_reaches_viewers [OF h u p v] by blast
  have "filter (\<lambda>d. d_fd d = 0) W = map (\<lambda>p. \<lparr>d_fd = 0, d_ip = [0], d_port = 100, d_bytes = p\<rparr>) pk"
    using r(3) u by (simp add: reaches_def w_room_def w_user_def watching_def)
  moreover have "wire (lm_net w_room) = []" using w_new_fields by (simp add: w_room_def)
  ultimately show ?thesis using r by (auto simp: w_pd_def parse_zero_def)
qed

end
