(* ===== verification/LiveJpeg.thy ===== *)
theory LiveJpeg
  imports LiveDelivery
begin

section \<open>The cached picture (src/reach\_edukit/src/room/lives/lives.c)\<close>

text \<open>
  Slides reach the live module as JPEG pictures, and only when they change.  The module keeps the last one and, before
  it handles a frame, sends it to the viewers that have not been sent one (\<^verbatim>\<open>deal_video_jpeg_data\<close>).
\<close>

subsection \<open>Who waits for the picture\<close>

lemma jpeg_rounds_eq:
  "length xs \<le> n \<Longrightarrow> jpeg_rounds n xs
     = [x \<leftarrow> takeWhile (\<lambda>x. lu_index (snd x) \<noteq> -1) xs. lu_jpeg (snd x) = JPEG_NO_SEND_FLAG]"
proof (induction n xs rule: jpeg_rounds.induct)
  case (3 n x xs)
  have "jpeg_rounds m (x # xs) = []" if "lu_index (snd x) = -1" for m using that by (induction m) simp_all
  then show ?case using 3 by auto
qed simp_all

lemma takeWhile_nth_iff:
  "x \<in> set (takeWhile P xs) \<longleftrightarrow> (\<exists>i < length xs. x = xs ! i \<and> (\<forall>k \<le> i. P (xs ! k)))"
proof (induction xs)
  case (Cons y ys)
  show ?case
  proof (cases "P y")
    case True
    have "(\<exists>i < length (y # ys). x = (y # ys) ! i \<and> (\<forall>k \<le> i. P ((y # ys) ! k)))
        \<longleftrightarrow> x = y \<or> (\<exists>i < length ys. x = ys ! i \<and> (\<forall>k \<le> i. P (ys ! k)))" (is "?l = (_ \<or> ?r)")
    proof
      assume ?l
      then obtain i where i: "i < length (y # ys)" "x = (y # ys) ! i" "\<forall>k \<le> i. P ((y # ys) ! k)" by blast
      have "P (ys ! k)" if "i = Suc l" "k \<le> l" for k l using i(3) [rule_format, of "Suc k"] that by simp
      then show "x = y \<or> ?r" using i(1,2) by (cases i) auto
    next
      assume "x = y \<or> ?r"
      moreover have ?l if "i < length ys" "x = ys ! i" "\<forall>k \<le> i. P (ys ! k)" for i
      proof -
        have "P ((y # ys) ! k)" if "k \<le> Suc i" for k using that \<open>\<forall>k \<le> i. P (ys ! k)\<close> True by (cases k) simp_all
        then show ?thesis using that by (intro exI [of _ "Suc i"]) simp
      qed
      ultimately show ?l using True by auto
    qed
    then show ?thesis using Cons.IH True by simp
  next
    case False
    then show ?thesis by (auto intro!: exI [of _ 0])
  qed
qed simp

text \<open>The viewers that get the cached picture: those that wait for it, up to the first free slot.\<close>

definition gets_picture :: "lives_user_info_t list \<Rightarrow> nat \<Rightarrow> bool" where
  "gets_picture us j \<longleftrightarrow> lu_jpeg (us ! j) = JPEG_NO_SEND_FLAG \<and> (\<forall>k \<le> j. lu_index (us ! k) \<noteq> -1)"

definition waiting :: "lives_user_info_t list \<Rightarrow> (nat \<times> lives_user_info_t) list" where
  "waiting us = [x \<leftarrow> takeWhile (\<lambda>x. lu_index (snd x) \<noteq> -1) (zip [0..<length us] us). lu_jpeg (snd x) = JPEG_NO_SEND_FLAG]"

lemma waiting_iff: "(j, u) \<in> set (waiting us) \<longleftrightarrow> j < length us \<and> u = us ! j \<and> gets_picture us j"
  by (auto simp: waiting_def gets_picture_def takeWhile_nth_iff)

lemma get_send_userinfo_jpeg_waiting:
  assumes "live_users_ok st" "i < VIDEO_ENCODE_MAX_NUM" "length (lm_users st) \<le> VIDEO_USER_MAX_NUM"
  shows "get_send_userinfo_jpeg i st = Some (map (entry i) (waiting (lm_users st)))"
proof -
  have "list_all (\<lambda>x. i < length (lu_addr (snd x))) (waiting (lm_users st))"
    using assms(1,2) by (force simp: live_users_ok_def list_all_iff waiting_iff)
  moreover have "jpeg_rounds VIDEO_USER_MAX_NUM (slots st) = waiting (lm_users st)"
    using assms(3) by (simp add: jpeg_rounds_eq slots_def waiting_def)
  ultimately show ?thesis by (simp add: get_send_userinfo_jpeg_def send_entries_map)
qed

text \<open>Sockets tell viewers apart.\<close>

lemma distinct_filter_nth:
  "distinct (map f (filter P xs)) \<Longrightarrow> j < length xs \<Longrightarrow> k < length xs \<Longrightarrow> P (xs ! j) \<Longrightarrow> P (xs ! k) \<Longrightarrow>
     f (xs ! j) = f (xs ! k) \<Longrightarrow> j = k"
proof (induction xs arbitrary: j k)
  case (Cons x xs)
  have hd: "f x \<noteq> f (xs ! m)" if "P x" "m < length xs" "P (xs ! m)" for m
    using Cons.prems(1) that by (force simp: image_iff)
  have "distinct (map f (filter P xs))" using Cons.prems(1) by (simp split: if_splits)
  note IH = Cons.IH [OF this]
  show ?case using IH Cons.prems(2-) hd by (cases j; cases k) (auto dest: sym)
qed simp

lemma fd_slot:
  assumes "live_users_ok st" "j < length (lm_users st)" "k < length (lm_users st)"
    and "lu_index (lm_users st ! j) \<noteq> -1" "lu_index (lm_users st ! k) \<noteq> -1"
    and "lu_fd (lm_users st ! j) = lu_fd (lm_users st ! k)"
  shows "j = k"
  using assms distinct_filter_nth [of lu_fd "\<lambda>u. lu_index u \<noteq> -1" "lm_users st" j k]
  by (simp add: live_users_ok_def)

lemma waiting_fds:
  assumes "live_users_ok st"
  shows "distinct (map su_fd (map (entry i) (waiting (lm_users st))))"
proof -
  have "distinct (waiting (lm_users st))"
    unfolding waiting_def by (intro distinct_filter distinct_takeWhile distinct_zipI1) simp
  moreover have "inj_on (lu_fd \<circ> snd) (set (waiting (lm_users st)))"
    using fd_slot [OF assms] by (auto simp: inj_on_def waiting_iff gets_picture_def) (metis order_refl)+
  ultimately show ?thesis by (simp add: distinct_map comp_def)
qed

subsection \<open>Sending it\<close>

lemma mark_served_users:
  "length (lm_users (mark_served us st)) = length (lm_users st)"
  "j < length (lm_users st) \<Longrightarrow> lm_users (mark_served us st) ! j
     = (if j \<in> su_slot ` set us then (lm_users st ! j)\<lparr>lu_jpeg := JPEG_SEND_FLAG\<rparr> else lm_users st ! j)"
proof -
  let ?f = "\<lambda>u xs :: lives_user_info_t list. xs[su_slot u := (xs ! su_slot u)\<lparr>lu_jpeg := JPEG_SEND_FLAG\<rparr>]"
  have "length (fold ?f us xs) = length xs \<and> (j < length xs \<longrightarrow> fold ?f us xs ! j
      = (if j \<in> su_slot ` set us then (xs ! j)\<lparr>lu_jpeg := JPEG_SEND_FLAG\<rparr> else xs ! j))" for xs
  proof (induction us arbitrary: xs)
    case (Cons a us)
    then show ?case by (cases "su_slot a = j") auto
  qed simp
  then show "length (lm_users (mark_served us st)) = length (lm_users st)"
    "j < length (lm_users st) \<Longrightarrow> lm_users (mark_served us st) ! j
     = (if j \<in> su_slot ` set us then (lm_users st ! j)\<lparr>lu_jpeg := JPEG_SEND_FLAG\<rparr> else lm_users st ! j)"
    by (simp_all add: mark_served_def)
qed

definition served :: "lives_user_info_t list \<Rightarrow> lives_user_info_t list" where
  "served us = map (\<lambda>j. if gets_picture us j then (us ! j)\<lparr>lu_jpeg := JPEG_SEND_FLAG\<rparr> else us ! j) [0..<length us]"

lemma mark_waiting:
  "lm_users (mark_served (map (entry i) (waiting (lm_users st))) st) = served (lm_users st)"
  by (rule nth_equalityI) (auto simp: mark_served_users served_def waiting_iff image_iff, (metis fst_conv waiting_iff)+)

lemma served_none_waits: "waiting (served us) = []"
proof -
  have len: "length (served us) = length us" by (simp add: served_def)
  have "\<not> gets_picture (served us) j" if "j < length us" for j
  proof
    assume g: "gets_picture (served us) j"
    have "lu_index (served us ! k) = lu_index (us ! k)" if "k < length us" for k using that by (simp add: served_def)
    then have "\<forall>k \<le> j. lu_index (us ! k) \<noteq> -1" using g that by (simp add: gets_picture_def)
    then show False using g that
      by (auto simp: gets_picture_def served_def JPEG_NO_SEND_FLAG_def JPEG_SEND_FLAG_def split: if_splits)
  qed
  then have "(j, u) \<notin> set (waiting (served us))" for j u by (simp add: waiting_iff len)
  then show ?thesis by (metis list.set_intros(1) neq_Nil_conv prod.exhaust)
qed

lemma picture_head_of:
  assumes "pd_data_type pd = R_JPEG"
  shows "codec (set_hdb_freame_head fh0 pd) = 2" "samplerate (set_hdb_freame_head fh0 pd) = 0"
    "framelength (set_hdb_freame_head fh0 pd) = pd_data_len pd"
  using assms by (simp_all add: set_hdb_freame_head_def)

definition picture_seen :: "US_FRAMEHEAD \<Rightarrow> udp_recv_stream_info_t \<Rightarrow> bool" where
  "picture_seen f si \<longleftrightarrow> si_type si = UdpRecv_JPEG_CODEC_TYPE \<and> si_width si = uint (width f) \<and> si_height si = uint (height f)"

lemma live_picture_delivered:
  assumes f: "codec f = 2" "framelength f = of_nat (length d)" and len: "length d \<le> UdpRecv_MAX_FRAME_LEN"
  shows "delivered_once (jpeg_packets h f d 1252 seq) (picture_seen f) d"
proof (rule delivered_onceI [where H = "jpeg_head f (timestamp h)"])
  have l: "length d < 2 ^ 31" using len by (simp add: UdpRecv_MAX_FRAME_LEN_def)
  fix s evs assume t: "thread_ok s" "list_all2 packet_event (jpeg_packets h f d 1252 seq) evs"
  show "\<exists>s' c. udp_recv_deal evs s = Some s' \<and> thread_ok s' \<and> r_calls s' = r_calls s @ [c]
      \<and> announces (jpeg_head f (timestamp h)) d c"
    using run_jpeg [OF t(1) f(1) _ _ _ len t(2)] f(2) unat_small [OF l] by simp
next
  have l: "length d < 2 ^ 31" using len by (simp add: UdpRecv_MAX_FRAME_LEN_def)
  fix c assume "announces (jpeg_head f (timestamp h)) d c"
  from announces_jpeg [OF this f(2) l]
  show "\<exists>si buf. c = (si, buf, int (length d)) \<and> take (length d) buf = d \<and> picture_seen f si"
    by (auto simp: picture_seen_def)
qed

lemma send_picture:
  assumes so: "lossless (le_so env)" and b: "lm_blocks st b = Some pd" and pd: "pd_data_type pd = R_JPEG"
    and len: "pd_data_len pd = of_nat (length (pd_data pd))" "length (pd_data pd) \<le> UdpRecv_MAX_FRAME_LEN"
    and h: "ll_vrtp (get_lane q (lm_encs st ! i)) = Some hnd" and i: "i < length (lm_encs st)"
  shows "\<exists>st' pk. send_video_data_pdg env b us ts VIDEO_JPEG i q q st = Some (mark_served us st')
    \<and> pk = jpeg_packets (video_hdr ts) (set_hdb_freame_head (le_fh0 env) pd) (pd_data pd) 1252 (ucast (lv_seq_num hnd))
    \<and> wire (lm_net st') = wire (lm_net st) @ concat (map (\<lambda>p. map (\<lambda>u. dgram_to u p) us) pk)
    \<and> lm_blocks st' = lm_blocks st \<and> lm_users st' = lm_users st \<and> lm_jpeg_valid st' = lm_jpeg_valid st
    \<and> lm_jpeg_buf st' = lm_jpeg_buf st \<and> lm_enc_num st' = lm_enc_num st
    \<and> map ve_type (lm_encs st') = map ve_type (lm_encs st)"
proof -
  let ?fh = "set_hdb_freame_head (le_fh0 env) pd" and ?d = "pd_data pd"
  let ?pk = "jpeg_packets (video_hdr ts) ?fh ?d 1252 (ucast (lv_seq_num hnd))"
  let ?s = "(ll_seq (get_lane q (lm_encs st ! i)), lm_net st)"
  have l: "length ?d < 2 ^ 31" using len(2) by (simp add: UdpRecv_MAX_FRAME_LEN_def)
  then have n: "sint (pd_data_len pd) = int (length ?d)" using len(1) sint_small by simp
  have "\<exists>hnd'. build_packets env pd us ts (Some hnd) ?s = Some (0, Some hnd', fold (put_users us) ?pk ?s)"
    using packet_sender.live_jpeg_packets [OF live_sender [OF so], where mtu = 1280 and fh = ?fh] pd
      picture_head_of [OF pd] n
    by (simp add: build_packets_def MAX_VOD_MEDIA_PACK_LEN_def Let_def)
  then obtain hnd' where B: "build_packets env pd us ts (Some hnd) ?s = Some (0, Some hnd', fold (put_users us) ?pk ?s)"
    by blast
  obtain ps' net' where f: "fold (put_users us) ?pk ?s = (ps', net')" by fastforce
  have "lane_rtp pd (get_lane q (lm_encs st ! i)) = Some hnd" using h pd by (simp add: lane_rtp_def)
  then obtain l1 l2 where
    e: "send_video_data_pdg env b us ts VIDEO_JPEG i q q st
      = Some (mark_served us (put_lane i q l2 (put_lane i q l1 (st\<lparr>lm_net := net'\<rparr>))))" (is "_ = Some (mark_served us ?st)")
    using b B f by (simp add: send_video_data_pdg_def Let_def)
  have "wire (lm_net ?st) = wire (lm_net st) @ concat (map (\<lambda>p. map (\<lambda>u. dgram_to u p) us) ?pk)"
    using f fold_put_users [of us ?pk ?s] by simp
  moreover have "map ve_type (lm_encs ?st) = map ve_type (lm_encs st)" "lm_enc_num ?st = lm_enc_num st"
    using i by (simp_all add: put_lane_def map_update set_lane_def list_update_same_conv)
  ultimately show ?thesis using e by (intro exI [of _ ?st] exI [of _ ?pk]) simp
qed

lemma get_video_sindex_cong:
  assumes "map ve_type (lm_encs s) = map ve_type (lm_encs t)" "lm_enc_num s = lm_enc_num t"
  shows "get_video_sindex k s = get_video_sindex k t"
proof -
  have l: "length (lm_encs s) = length (lm_encs t)" using assms(1) by (metis length_map)
  have "ve_type (lm_encs s ! i) = ve_type (lm_encs t ! i)" if "i < length (lm_encs t)" for i
    using arg_cong [OF assms(1), of "\<lambda>xs. xs ! i"] that l by simp
  then have "find (\<lambda>i. ve_type (lm_encs s ! i) = k) [0..<n] = find (\<lambda>i. ve_type (lm_encs t ! i) = k) [0..<n]"
    if "n \<le> length (lm_encs t)" for n
    using that by (intro find_cong) auto
  then show ?thesis using l assms(2) by (simp add: get_video_sindex_def)
qed

lemma get_video_sindex_bound: "get_video_sindex k st = Some (int i) \<Longrightarrow> i < length (lm_encs st)"
  by (auto simp: get_video_sindex_def find_Some_iff split: if_splits option.splits)

lemma deal_picture:
  assumes "lm_jpeg_valid st = 0" "get_video_sindex VIDEO_JPEG st = Some (int i)" "live_users_ok st"
    and "length (lm_users st) = VIDEO_USER_MAX_NUM" "length (lm_encs st) = VIDEO_ENCODE_MAX_NUM"
  shows "deal_video_jpeg_data env st =
    (if waiting (lm_users st) = [] then Some st
     else do {
       b \<leftarrow> lm_jpeg_buf st;
       send_video_data_pdg env b (map (entry i) (waiting (lm_users st))) 0 VIDEO_JPEG i VIDEO_DATA_TYPE_HD VIDEO_DATA_TYPE_HD st
     })"
  using assms get_send_userinfo_jpeg_waiting [OF assms(3), of i] get_video_sindex_bound [OF assms(2)]
  by (simp add: deal_video_jpeg_data_def)

lemma served_keeps:
  "length (served us) = length us" "map lu_addr (served us) = map lu_addr us"
  "map (\<lambda>u. (lu_index u, lu_fd u)) (served us) = map (\<lambda>u. (lu_index u, lu_fd u)) us"
  by (auto simp: served_def intro: nth_equalityI)

lemma served_ok:
  assumes "live_users_ok st" "lm_users s = served (lm_users st)"
  shows "live_users_ok s"
proof -
  have a: "list_all (\<lambda>u. length (lu_addr u) = VIDEO_ENCODE_MAX_NUM) us
      = list_all (\<lambda>a. length a = VIDEO_ENCODE_MAX_NUM) (map lu_addr us)" for us
    by (simp add: list_all_iff)
  have b: "map lu_fd (filter (\<lambda>u. lu_index u \<noteq> -1) us)
      = map snd (filter (\<lambda>x. fst x \<noteq> -1) (map (\<lambda>u. (lu_index u, lu_fd u)) us))" for us
    by (induction us) simp_all
  show ?thesis using assms(1) unfolding live_users_ok_def assms(2) a b served_keeps(2,3) .
qed

lemma served_same: "waiting us = [] \<Longrightarrow> served us = us"
  using waiting_iff [of _ _ us] by (auto simp: served_def intro!: nth_equalityI)

lemma picture_reaches:
  assumes ok: "live_users_ok st" and W: "W = concat (map (\<lambda>p. map (\<lambda>u. dgram_to u p) (map (entry i) (waiting (lm_users st)))) pk)"
    and j: "j < length (lm_users st)" "lu_index (lm_users st ! j) \<noteq> -1"
  shows "filter (\<lambda>d. d_fd d = lu_fd (lm_users st ! j)) W =
    (if gets_picture (lm_users st) j then map (dgram_to (entry i (j, lm_users st ! j))) pk else [])"
proof (cases "gets_picture (lm_users st) j")
  case True
  then have "entry i (j, lm_users st ! j) \<in> set (map (entry i) (waiting (lm_users st)))"
    using j(1) by (auto simp: waiting_iff intro!: image_eqI)
  from filter_viewer [OF waiting_fds [OF ok] this] True show ?thesis unfolding W by simp
next
  case False
  have "lu_fd (lm_users st ! j) \<notin> su_fd ` set (map (entry i) (waiting (lm_users st)))"
  proof
    assume "lu_fd (lm_users st ! j) \<in> su_fd ` set (map (entry i) (waiting (lm_users st)))"
    then obtain k u where "(k, u) \<in> set (waiting (lm_users st))" "lu_fd u = lu_fd (lm_users st ! j)" by auto
    then have "k < length (lm_users st)" "u = lm_users st ! k" "gets_picture (lm_users st) k"
      "lu_fd (lm_users st ! k) = lu_fd (lm_users st ! j)" by (auto simp: waiting_iff)
    with fd_slot [OF ok this(1) j(1)] j(2) False show False by (auto simp: gets_picture_def)
  qed
  from filter_other [OF this, of pk] False show ?thesis unfolding W by (simp only: if_False)
qed

text \<open>
  C10: A viewer that comes late gets the cached picture, once: before a frame is handled, over a network that takes
  every datagram, the picture is sent on the socket of each viewer that waits for it and has no free slot in front
  of its own, to its address for the encoder of the pictures, and to nobody else; the packets make a receiver call
  its user function exactly once with the bytes of the picture; the viewers are marked as served, the picture is
  kept, and a second call sends nothing.  A viewer behind a free slot is left out.
\<close>

theorem late_viewer_gets_picture:
  assumes "lossless (le_so env)" "live_users_ok st" "length (lm_users st) = VIDEO_USER_MAX_NUM"
    and "length (lm_encs st) = VIDEO_ENCODE_MAX_NUM"
    and "lm_jpeg_valid st = 0" "lm_jpeg_buf st = Some b" "lm_blocks st b = Some pd"
    and "get_video_sindex VIDEO_JPEG st = Some (int i)" "ll_vrtp (ve_HD (lm_encs st ! i)) = Some hnd"
    and "pd_data_type pd = R_JPEG" "pd_data_len pd = of_nat (length (pd_data pd))"
    and "length (pd_data pd) \<le> UdpRecv_MAX_FRAME_LEN"
  shows "\<exists>st' pk W. deal_video_jpeg_data env st = Some st' \<and> wire (lm_net st') = wire (lm_net st) @ W
    \<and> delivered_once pk (picture_seen (set_hdb_freame_head (le_fh0 env) pd)) (pd_data pd)
    \<and> (\<forall>j < length (lm_users st). lu_index (lm_users st ! j) \<noteq> -1 \<longrightarrow>
         filter (\<lambda>d. d_fd d = lu_fd (lm_users st ! j)) W =
           (if gets_picture (lm_users st) j then map (dgram_to (entry i (j, lm_users st ! j))) pk else []))
    \<and> lm_users st' = served (lm_users st) \<and> lm_blocks st' = lm_blocks st \<and> lm_jpeg_buf st' = Some b
    \<and> deal_video_jpeg_data env st' = Some st'"
proof -
  let ?fh = "set_hdb_freame_head (le_fh0 env) pd"
  let ?pk = "jpeg_packets (video_hdr 0) ?fh (pd_data pd) 1252 (ucast (lv_seq_num hnd))"
  let ?us = "map (entry i) (waiting (lm_users st))"
  let ?W = "concat (map (\<lambda>p. map (\<lambda>u. dgram_to u p) ?us) ?pk)"
  note D = deal_picture [OF assms(5,8,2,3,4)]
  have d: "delivered_once ?pk (picture_seen ?fh) (pd_data pd)"
    by (rule live_picture_delivered) (use picture_head_of [OF assms(10)] assms(11,12) in simp_all)
  have "\<exists>st'. deal_video_jpeg_data env st = Some st' \<and> wire (lm_net st') = wire (lm_net st) @ ?W
      \<and> lm_users st' = served (lm_users st) \<and> lm_blocks st' = lm_blocks st \<and> lm_jpeg_buf st' = Some b
      \<and> deal_video_jpeg_data env st' = Some st'"
  proof (cases "waiting (lm_users st) = []")
    case True
    then show ?thesis using D assms(6) by (simp add: served_same)
  next
    case False
    obtain s where s: "send_video_data_pdg env b ?us 0 VIDEO_JPEG i VIDEO_DATA_TYPE_HD VIDEO_DATA_TYPE_HD st
        = Some (mark_served ?us s)"
      "wire (lm_net s) = wire (lm_net st) @ ?W" "lm_blocks s = lm_blocks st" "lm_users s = lm_users st"
      "lm_jpeg_valid s = lm_jpeg_valid st" "lm_jpeg_buf s = lm_jpeg_buf st" "lm_enc_num s = lm_enc_num st"
      "map ve_type (lm_encs s) = map ve_type (lm_encs st)"
      using send_picture [OF assms(1,7,10-12), of VIDEO_DATA_TYPE_HD i hnd ?us 0] assms(9)
        get_video_sindex_bound [OF assms(8)] by (auto simp: get_lane_def)
    let ?s = "mark_served ?us s"
    have e: "deal_video_jpeg_data env st = Some ?s" using D False s(1) assms(6) by simp
    have u: "lm_users ?s = served (lm_users st)" using mark_waiting [of i s] s(4) by simp
    have k: "lm_net ?s = lm_net s" "lm_blocks ?s = lm_blocks s" "lm_jpeg_valid ?s = lm_jpeg_valid s"
      "lm_jpeg_buf ?s = lm_jpeg_buf s" "lm_encs ?s = lm_encs s" "lm_enc_num ?s = lm_enc_num s"
      by (simp_all add: mark_served_def)
    have "get_video_sindex VIDEO_JPEG ?s = Some (int i)"
      using get_video_sindex_cong [of ?s st] s(7,8) k assms(8) by simp
    moreover have "length (lm_encs ?s) = VIDEO_ENCODE_MAX_NUM" using s(8) k(5) assms(4) by (metis length_map)
    ultimately have "deal_video_jpeg_data env ?s = Some ?s"
      using deal_picture [of ?s i env] served_ok [OF assms(2) u] u s(5) k(3) assms(3,5)
      by (simp add: served_keeps served_none_waits)
    with e u k s assms(6) show ?thesis by auto
  qed
  then show ?thesis using d picture_reaches [OF assms(2) refl, of _ i ?pk] by blast
qed

text \<open>Two viewers that wait for the picture, with a free slot between them: the second one does not get it.\<close>

definition w_slide :: parse_data_t where
  "w_slide = parse_zero\<lparr>pd_data_type := R_JPEG, pd_data := [0xFF, 0xD8, 0xFF], pd_data_len := 3\<rparr>"

definition w_slides :: lives_mode_info_t where
  "w_slides = w_new\<lparr>lm_users := [(w_user 100 5)\<lparr>lu_fd := 7\<rparr>, (w_user 0 0)\<lparr>lu_index := -1, lu_fd := -1\<rparr>,
       (w_user 200 6)\<lparr>lu_index := 2, lu_fd := 8\<rparr>] @ replicate 7 ((w_user 0 0)\<lparr>lu_index := -1, lu_fd := -1\<rparr>),
     lm_user_num := 2, lm_enc_num := 1,
     lm_encs := \<lparr>ve_HD = (new_lane (\<lambda>_. True) 0 2)\<lparr>ll_sindex := 4\<rparr>, ve_BD = new_lane (\<lambda>_. True) 1 3, ve_type = 1\<rparr>
       # map (new_enc (\<lambda>_. True)) [1..<9],
     lm_jpeg_valid := 0, lm_jpeg_buf := Some 1, lm_blocks := [1 \<mapsto> w_slide]\<rparr>"

lemma late_viewer_gets_picture_witness:
  "\<exists>st' pk W. deal_video_jpeg_data w_env w_slides = Some st' \<and> wire (lm_net st') = W
    \<and> delivered_once pk (picture_seen (set_hdb_freame_head (le_fh0 w_env) w_slide)) [0xFF, 0xD8, 0xFF]
    \<and> filter (\<lambda>d. d_fd d = 7) W = map (\<lambda>p. \<lparr>d_fd = 7, d_ip = [0], d_port = 100, d_bytes = p\<rparr>) pk
    \<and> filter (\<lambda>d. d_fd d = 8) W = [] \<and> deal_video_jpeg_data w_env st' = Some st'"
proof -
  have h: "lossless (le_so w_env)" "live_users_ok w_slides" "length (lm_users w_slides) = VIDEO_USER_MAX_NUM"
    "length (lm_encs w_slides) = VIDEO_ENCODE_MAX_NUM" "lm_jpeg_valid w_slides = 0" "lm_jpeg_buf w_slides = Some 1"
    "lm_blocks w_slides 1 = Some w_slide" "get_video_sindex VIDEO_JPEG w_slides = Some (int 0)"
    "ll_vrtp (ve_HD (lm_encs w_slides ! 0)) = Some rtp_info_zero"
    by (simp_all add: w_env_def lossless_def live_users_ok_def w_slides_def live_consts w_user_def
        get_video_sindex_def new_lane_def rtp_build_init_def rtp_info_zero_def list_all_iff)
  have p: "pd_data_type w_slide = R_JPEG" "pd_data_len w_slide = of_nat (length (pd_data w_slide))"
    "length (pd_data w_slide) \<le> UdpRecv_MAX_FRAME_LEN"
    by (simp_all add: w_slide_def UdpRecv_MAX_FRAME_LEN_def)
  have u: "lm_users w_slides ! 0 = (w_user 100 5)\<lparr>lu_fd := 7\<rparr>" "lm_users w_slides ! 1 = (w_user 0 0)\<lparr>lu_index := -1, lu_fd := -1\<rparr>"
    "lm_users w_slides ! 2 = (w_user 200 6)\<lparr>lu_index := 2, lu_fd := 8\<rparr>"
    by (simp_all add: w_slides_def)
  have g: "gets_picture (lm_users w_slides) 0" "\<not> gets_picture (lm_users w_slides) 2"
    using u by (auto simp: gets_picture_def w_user_def JPEG_NO_SEND_FLAG_def intro: exI [of _ 1])
  obtain st' pk W where r: "deal_video_jpeg_data w_env w_slides = Some st'"
    "wire (lm_net st') = wire (lm_net w_slides) @ W"
    "delivered_once pk (picture_seen (set_hdb_freame_head (le_fh0 w_env) w_slide)) (pd_data w_slide)"
    "\<forall>j < length (lm_users w_slides). lu_index (lm_users w_slides ! j) \<noteq> -1 \<longrightarrow>
         filter (\<lambda>d. d_fd d = lu_fd (lm_users w_slides ! j)) W =
           (if gets_picture (lm_users w_slides) j then map (dgram_to (entry 0 (j, lm_users w_slides ! j))) pk else [])"
    "deal_video_jpeg_data w_env st' = Some st'"
    using late_viewer_gets_picture [OF h p] by blast
  have "wire (lm_net w_slides) = []" using w_new_fields(2) by (simp add: w_slides_def)
  moreover have "filter (\<lambda>d. d_fd d = 7) W = map (\<lambda>p. \<lparr>d_fd = 7, d_ip = [0], d_port = 100, d_bytes = p\<rparr>) pk"
    using r(4) [rule_format, of 0] u g h(3) by (simp add: w_user_def live_consts entry_def dgram_to_def cong: map_cong)
  moreover have "filter (\<lambda>d. d_fd d = 8) W = []"
    using r(4) [rule_format, of 2] u g h(3) by (simp add: w_user_def live_consts)
  ultimately show ?thesis using r(1-3,5) by (auto simp: w_slide_def)
qed

end
