(* ===== verification/LiveBlocks.thy ===== *)
theory LiveBlocks
  imports LiveJpeg
begin

section \<open>Who owns the blocks of the live module (src/reach\_edukit/src/room/lives/lives.c)\<close>

text \<open>
  A frame comes as a message that carries a block.  The block belongs to the queue until the thread takes the message;
  then it is freed, or, for a picture, kept as the cached one.
\<close>

subsection \<open>Owners\<close>

fun queue_blocks :: "(int \<times> nat option) list \<Rightarrow> nat list" where
  "queue_blocks [] = []"
| "queue_blocks ((ty, mb) # q) = (case mb of None \<Rightarrow> queue_blocks q | Some b \<Rightarrow> b # queue_blocks q)"

lemma queue_blocks_append [simp]: "queue_blocks (p @ q) = queue_blocks p @ queue_blocks q"
  by (induction p rule: queue_blocks.induct) (simp_all split: option.split)

definition cached :: "lives_mode_info_t \<Rightarrow> nat set" where
  "cached st = (if lm_jpeg_valid st = 0 then set_option (lm_jpeg_buf st) else {})"

text \<open>Every block has one owner, and only messages that carry a block are frames.\<close>

definition owned :: "lives_mode_info_t \<Rightarrow> bool" where
  "owned st \<longleftrightarrow> distinct (queue_blocks (lm_queue st)) \<and> set (queue_blocks (lm_queue st)) \<inter> cached st = {}
     \<and> dom (lm_blocks st) = set (queue_blocks (lm_queue st)) \<union> cached st"

definition live_inv :: "lives_mode_info_t \<Rightarrow> bool" where
  "live_inv st \<longleftrightarrow> owned st \<and> (lm_jpeg_valid st = 0 \<or> lm_jpeg_valid st = -1)
     \<and> list_all (\<lambda>(ty, mb). ty = INTERRUPTION_MSG_ID \<longrightarrow> mb = None) (lm_queue st)"

lemmas inv_defs = live_inv_def owned_def cached_def

definition enc_sig :: "lives_mode_info_t \<Rightarrow> int \<times> (int \<times> int \<times> int) list" where
  "enc_sig st = (lm_enc_num st, map (\<lambda>e. (ve_type e, ll_sindex (ve_HD e), ll_sindex (ve_BD e))) (lm_encs st))"

text \<open>What sending leaves alone.\<close>

definition keeps_blocks :: "lives_mode_info_t \<Rightarrow> lives_mode_info_t \<Rightarrow> bool" where
  "keeps_blocks s t \<longleftrightarrow> lm_queue t = lm_queue s \<and> lm_jpeg_valid t = lm_jpeg_valid s \<and> lm_jpeg_buf t = lm_jpeg_buf s
     \<and> enc_sig t = enc_sig s"

lemma keeps_blocks_refl [simp]: "keeps_blocks s s"
  by (simp add: keeps_blocks_def)

lemma keeps_blocks_trans: "keeps_blocks s t \<Longrightarrow> keeps_blocks t u \<Longrightarrow> keeps_blocks s u"
  by (simp add: keeps_blocks_def)

lemma put_lane_sig:
  assumes "ll_sindex l = ll_sindex (get_lane q (lm_encs st ! i))"
  shows "enc_sig (put_lane i q l st) = enc_sig st"
proof (cases "i < length (lm_encs st)")
  case True
  then have "(\<lambda>e. (ve_type e, ll_sindex (ve_HD e), ll_sindex (ve_BD e))) (set_lane q l (lm_encs st ! i))
      = map (\<lambda>e. (ve_type e, ll_sindex (ve_HD e), ll_sindex (ve_BD e))) (lm_encs st) ! i"
    using assms by (simp add: set_lane_def get_lane_def)
  then show ?thesis using True by (simp add: enc_sig_def put_lane_def map_update list_update_id del: nth_map)
qed (simp add: enc_sig_def put_lane_def not_less list_update_beyond)

lemma put_lane_keeps_blocks:
  "ll_sindex l = ll_sindex (get_lane q (lm_encs st ! i)) \<Longrightarrow> keeps_blocks st (put_lane i q l st)"
  by (simp add: keeps_blocks_def put_lane_sig)

lemma set_lane_rtp_sindex [simp]: "ll_sindex (set_lane_rtp pd h l) = ll_sindex l"
  by (simp add: set_lane_rtp_def)

lemma stamp_frame_sindex: "stamp_frame dt ts k l = (l', t) \<Longrightarrow> ll_sindex l' = ll_sindex l"
  by (auto simp: stamp_frame_def dest: lane_stamp_keeps split: if_splits prod.splits)

lemma free_keeps: "free_block b st = Some st' \<Longrightarrow> keeps_blocks st st' \<and> lm_blocks st' = (lm_blocks st)(b := None)"
  by (auto simp: free_block_def keeps_blocks_def enc_sig_def split: option.splits)

lemma send_keeps:
  assumes "send_video_data_pdg env b us ts kind i q qc st = Some st'"
  shows "keeps_blocks st st' \<and> lm_blocks st' = (if kind = VIDEO_JPEG then lm_blocks st else (lm_blocks st)(b := None))"
proof -
  obtain net h ps pd where
    e: "(let s1 = st\<lparr>lm_net := net\<rparr>; s2 = put_lane i q (set_lane_rtp pd h (get_lane q (lm_encs s1 ! i))) s1;
             s3 = put_lane i qc ((get_lane qc (lm_encs s2 ! i))\<lparr>ll_seq := ps\<rparr>) s2
         in if kind = VIDEO_JPEG then Some (mark_served us s3) else free_block b s3) = Some st'"
    using assms by (auto simp: send_video_data_pdg_def bind_eq_Some_conv Let_def)
  define s1 where "s1 = st\<lparr>lm_net := net\<rparr>"
  define s2 where "s2 = put_lane i q (set_lane_rtp pd h (get_lane q (lm_encs s1 ! i))) s1"
  define s3 where "s3 = put_lane i qc ((get_lane qc (lm_encs s2 ! i))\<lparr>ll_seq := ps\<rparr>) s2"
  have "keeps_blocks st s1" by (simp add: s1_def keeps_blocks_def enc_sig_def)
  moreover have "keeps_blocks s1 s2" unfolding s2_def by (rule put_lane_keeps_blocks) simp
  moreover have "keeps_blocks s2 s3" unfolding s3_def by (rule put_lane_keeps_blocks) simp
  ultimately have k: "keeps_blocks st s3" by (meson keeps_blocks_trans)
  have b: "lm_blocks s3 = lm_blocks st" by (simp add: s3_def s2_def s1_def)
  have r: "(if kind = VIDEO_JPEG then Some (mark_served us s3) else free_block b s3) = Some st'"
    using e unfolding s3_def s2_def s1_def Let_def .
  show ?thesis
  proof (cases "kind = VIDEO_JPEG")
    case True
    then have "st' = mark_served us s3" using r by simp
    then have "keeps_blocks s3 st'" "lm_blocks st' = lm_blocks s3"
      by (simp_all add: mark_served_def keeps_blocks_def enc_sig_def)
    then show ?thesis using k b True by (auto intro: keeps_blocks_trans)
  next
    case False
    then show ?thesis using r free_keeps [of b s3 st'] k b by (auto intro: keeps_blocks_trans)
  qed
qed

lemma deal_keeps:
  assumes "deal_video_jpeg_data env st = Some st'"
  shows "keeps_blocks st st' \<and> lm_blocks st' = lm_blocks st"
  using assms send_keeps [of env _ _ 0 VIDEO_JPEG]
  by (auto simp: deal_video_jpeg_data_def bind_eq_Some_conv split: if_splits)

lemma enc_search_sig:
  assumes "map (\<lambda>e. (ve_type e, ll_sindex (ve_HD e), ll_sindex (ve_BD e))) es
     = map (\<lambda>e. (ve_type e, ll_sindex (ve_HD e), ll_sindex (ve_BD e))) fs"
  shows "enc_search es ty is = enc_search fs ty is"
proof (induction "is")
  case (Cons i "is")
  have l: "length es = length fs" by (rule map_eq_imp_length_eq [OF assms])
  show ?case
  proof (cases "i < length es")
    case True
    have "ve_type (es ! i) = ve_type (fs ! i)" "ll_sindex (ve_HD (es ! i)) = ll_sindex (ve_HD (fs ! i))"
      "ll_sindex (ve_BD (es ! i)) = ll_sindex (ve_BD (fs ! i))"
      using arg_cong [OF assms, of "\<lambda>xs. xs ! i"] True l by simp_all
    then show ?thesis using Cons True l by (simp add: peek_nat)
  qed (use l in \<open>simp add: peek_def\<close>)
qed simp

lemma info_keeps:
  assumes "get_video_data_info ty pd st = Some (Inr (vd, st'))"
  shows "keeps_blocks st st' \<and> lm_blocks st' = lm_blocks st
    \<and> (\<exists>i q. enc_search (lm_encs st) ty [0..<nat (lm_enc_num st)] = Some (Some (i, q, vd_type vd)))"
proof -
  obtain i q k where e: "enc_search (lm_encs st) ty [0..<nat (lm_enc_num st)] = Some (Some (i, q, k))"
    using assms by (auto simp: get_video_data_info_def bind_eq_Some_conv split: option.splits)
  obtain l t where l: "stamp_frame (pd_data_type pd) (word_of_int (pd_time_tick pd)) k (get_lane q (lm_encs st ! i)) = (l, t)"
    by fastforce
  have "st' = put_lane i q l st" "vd_type vd = k" using assms e l by (auto simp: get_video_data_info_def)
  then show ?thesis using e put_lane_keeps_blocks [OF stamp_frame_sindex [OF l]] by simp
qed

subsection \<open>Rounds of the thread\<close>

text \<open>The head of the queue is a picture exactly when it comes from an encoder of pictures.\<close>

definition kinds_match :: "lives_mode_info_t \<Rightarrow> bool" where
  "kinds_match st \<longleftrightarrow> (case lm_queue st of
       (ty, Some b) # q \<Rightarrow>
         (case (lm_blocks st b, enc_search (lm_encs st) ty [0..<nat (lm_enc_num st)]) of
            (Some pd, Some (Some (i, ql, k))) \<Rightarrow> (k = VIDEO_JPEG) = (pd_data_type pd = R_JPEG)
          | _ \<Rightarrow> True)
     | _ \<Rightarrow> True)"

lemma drop_frame_keeps:
  "drop_frame c b st = Some st' \<Longrightarrow>
     keeps_blocks st st' \<and> lm_blocks st' = (if c then lm_blocks st else (lm_blocks st)(b := None))"
  using free_keeps by (auto simp: drop_frame_def split: if_splits)

lemma package_keeps:
  assumes "local_media_data_pkg env ty b st = Some (r, st')" "lm_blocks st b = Some pd" "pd_data_type pd \<noteq> R_JPEG"
    and "\<And>i q k. enc_search (lm_encs st) ty [0..<nat (lm_enc_num st)] = Some (Some (i, q, k)) \<Longrightarrow> k \<noteq> VIDEO_JPEG"
  shows "keeps_blocks st st' \<and> lm_blocks st' = (lm_blocks st)(b := None)"
proof (cases "lm_user_num st = 0")
  case True
  then show ?thesis using assms(1-3) by (auto simp: local_media_data_pkg_def bind_eq_Some_conv dest: drop_frame_keeps)
next
  case False
  then obtain info where info: "get_video_data_info ty pd st = Some info"
    using assms(1-3) by (auto simp: local_media_data_pkg_def bind_eq_Some_conv)
  show ?thesis
  proof (cases info)
    case (Inl u)
    then show ?thesis using False assms(1-3) info
      by (auto simp: local_media_data_pkg_def bind_eq_Some_conv dest: drop_frame_keeps)
  next
    case (Inr x)
    obtain vd s where x: "x = (vd, s)" by fastforce
    have k: "keeps_blocks st s" "lm_blocks s = lm_blocks st" "vd_type vd \<noteq> VIDEO_JPEG"
      using info_keeps [of ty pd st vd s] info Inr x assms(4) by auto
    have "(\<exists>us. drop_frame False b s = Some st' \<or> (\<exists>ts i q qc. send_video_data_pdg env b us ts (vd_type vd) i q qc s = Some st'))"
      using False assms(1-3) info Inr x
      by (auto simp: local_media_data_pkg_def bind_eq_Some_conv split: if_splits)
    then have "keeps_blocks s st' \<and> lm_blocks st' = (lm_blocks s)(b := None)"
      using k(3) by (auto dest: drop_frame_keeps send_keeps)
    then show ?thesis using k keeps_blocks_trans by auto
  qed
qed

lemma package_picture:
  assumes "local_media_data_pkg env ty b st = Some (r, st')" "lm_blocks st b = Some pd" "pd_data_type pd = R_JPEG"
    and "\<And>i q k. enc_search (lm_encs st) ty [0..<nat (lm_enc_num st)] = Some (Some (i, q, k)) \<Longrightarrow> k = VIDEO_JPEG"
  shows "\<exists>s. cache_picture ty b st = Some s \<and> keeps_blocks s st' \<and> lm_blocks st' = lm_blocks s"
proof -
  obtain s where s: "cache_picture ty b st = Some s" using assms(1-3)
    by (auto simp: local_media_data_pkg_def bind_eq_Some_conv)
  have enc: "lm_encs s = lm_encs st" "lm_enc_num s = lm_enc_num st"
    using s by (auto simp: cache_picture_def free_block_def bind_eq_Some_conv split: if_splits option.splits)
  have "keeps_blocks s st' \<and> lm_blocks st' = lm_blocks s"
  proof (cases "lm_user_num s = 0")
    case True
    then show ?thesis using assms(1-3) s by (auto simp: local_media_data_pkg_def bind_eq_Some_conv drop_frame_def)
  next
    case False
    then obtain info where info: "get_video_data_info ty pd s = Some info"
      using assms(1-3) s by (auto simp: local_media_data_pkg_def bind_eq_Some_conv)
    show ?thesis
    proof (cases info)
      case (Inl u)
      then show ?thesis using False assms(1-3) info s
        by (auto simp: local_media_data_pkg_def bind_eq_Some_conv drop_frame_def)
    next
      case (Inr x)
      obtain vd t where x: "x = (vd, t)" by fastforce
      have k: "keeps_blocks s t" "lm_blocks t = lm_blocks s" "vd_type vd = VIDEO_JPEG"
        using info_keeps [of ty pd s vd t] info Inr x assms(4) enc by auto
      have "st' = t \<or> (\<exists>us ts i q qc. send_video_data_pdg env b us ts (vd_type vd) i q qc t = Some st')"
        using False assms(1-3) info Inr x s
        by (auto simp: local_media_data_pkg_def bind_eq_Some_conv drop_frame_def split: if_splits)
      then have "keeps_blocks t st' \<and> lm_blocks st' = lm_blocks t"
        using k(3) by (auto dest: send_keeps)
      then show ?thesis using k keeps_blocks_trans by auto
    qed
  qed
  with s show ?thesis by blast
qed

lemma same_inv:
  assumes "live_inv s" "lm_blocks t = lm_blocks s" "lm_jpeg_valid t = lm_jpeg_valid s" "lm_jpeg_buf t = lm_jpeg_buf s"
    and "lm_queue t = lm_queue s \<or> lm_queue t = lm_queue s @ [(INTERRUPTION_MSG_ID, None)]"
  shows "live_inv t"
proof -
  have "cached t = cached s" using assms(3,4) by (simp add: cached_def)
  moreover have "queue_blocks (lm_queue t) = queue_blocks (lm_queue s)" using assms(5) by auto
  ultimately show ?thesis using assms by (auto simp: live_inv_def owned_def)
qed

lemma live_inv_keeps:
  "live_inv s \<Longrightarrow> keeps_blocks s t \<Longrightarrow> lm_blocks t = lm_blocks s \<Longrightarrow> live_inv t"
  by (erule same_inv) (simp_all add: keeps_blocks_def)

lemma interruption_inv:
  assumes inv: "live_inv st" and r: "lives_interruption st = Some st'"
  shows "live_inv st'"
proof -
  obtain s where s: "reset_live_mode_enc st = Some s" "st' = reset_live_mode_enc_time (reset_live_mode_user s)"
    using r by (auto simp: lives_interruption_def bind_eq_Some_conv)
  have "live_inv s"
  proof (cases "lm_enc_valid st = 0 \<and> lm_jpeg_valid st = 0")
    case False
    have "lm_queue s = lm_queue st \<and> lm_blocks s = lm_blocks st \<and> lm_jpeg_valid s = lm_jpeg_valid st \<and> lm_jpeg_buf s = lm_jpeg_buf st"
      using s(1) False by (auto simp: reset_live_mode_enc_def Let_def split: if_splits)
    then show ?thesis using same_inv [OF inv] by simp
  next
    case True
    have k: "lm_queue s = lm_queue st" "lm_jpeg_valid s = -1"
      "lm_blocks s = (case lm_jpeg_buf st of None \<Rightarrow> lm_blocks st | Some b \<Rightarrow> (lm_blocks st)(b := None))"
      using s(1) True by (auto simp: reset_live_mode_enc_def Let_def free_block_def split: option.splits)
    have "dom (lm_blocks s) = dom (lm_blocks st) - cached st"
      using k(3) True by (cases "lm_jpeg_buf st") (auto simp: cached_def)
    moreover have "cached s = {}" using k(2) by (simp add: cached_def)
    ultimately show ?thesis using inv k(1,2) by (auto simp: live_inv_def owned_def)
  qed
  moreover have "live_inv st' = live_inv s"
    by (simp add: s(2) reset_live_mode_enc_time_def reset_live_mode_user_def live_inv_def owned_def cached_def split: prod.split)
  ultimately show ?thesis by simp
qed

lemma round_inv:
  assumes inv: "live_inv st" and m: "kinds_match st" and r: "lives_round env st = Some st'"
  shows "live_inv st'"
proof (cases "lm_queue st")
  case Nil
  then show ?thesis using r inv by (simp add: lives_round_def)
next
  case (Cons x q)
  obtain ty mb where x: "x = (ty, mb)" by fastforce
  let ?s = "st\<lparr>lm_queue := q\<rparr>"
  show ?thesis
  proof (cases "ty = INTERRUPTION_MSG_ID")
    case True
    then have "mb = None" using inv Cons x by (cases mb) (auto simp: inv_defs)
    then have "live_inv ?s" using inv Cons x by (auto simp: inv_defs)
    then show ?thesis using r Cons x True by (auto simp: lives_round_def intro: interruption_inv)
  next
    case False
    then obtain s b res where s: "deal_video_jpeg_data env ?s = Some s" "mb = Some b"
      "local_media_data_pkg env ty b s = Some (res, st')"
      using r Cons x by (auto simp: lives_round_def bind_eq_Some_conv)
    have k: "keeps_blocks ?s s" "lm_blocks s = lm_blocks st" using deal_keeps [OF s(1)] by simp_all
    have e: "enc_search (lm_encs s) ty [0..<nat (lm_enc_num s)] = enc_search (lm_encs st) ty [0..<nat (lm_enc_num st)]"
      using k(1) enc_search_sig [of "lm_encs s" "lm_encs st"] by (simp add: keeps_blocks_def enc_sig_def)
    have c: "cached s = cached st" "lm_queue s = q" "lm_jpeg_valid s = lm_jpeg_valid st" "lm_jpeg_buf s = lm_jpeg_buf st"
      using k(1) by (simp_all add: keeps_blocks_def cached_def)
    have own: "distinct (b # queue_blocks q)" "set (b # queue_blocks q) \<inter> cached st = {}" "dom (lm_blocks st) = set (b # queue_blocks q) \<union> cached st"
      "lm_jpeg_valid st = 0 \<or> lm_jpeg_valid st = -1" "list_all (\<lambda>(ty, mb). ty = INTERRUPTION_MSG_ID \<longrightarrow> mb = None) q"
      using inv Cons x s(2) by (auto simp: inv_defs)
    then obtain pd where pd: "lm_blocks st b = Some pd" by auto
    have m': "enc_search (lm_encs s) ty [0..<nat (lm_enc_num s)] = Some (Some (i, ql, kd)) \<Longrightarrow>
        (kd = VIDEO_JPEG) = (pd_data_type pd = R_JPEG)" for i ql kd
      using m Cons x s(2) pd unfolding e by (simp add: kinds_match_def)
    show ?thesis
    proof (cases "pd_data_type pd = R_JPEG")
      case False
      then have "keeps_blocks s st'" "lm_blocks st' = (lm_blocks st)(b := None)"
        using package_keeps [OF s(3) _ False] m' pd k(2) by auto
      then show ?thesis using own c by (auto simp: inv_defs keeps_blocks_def)
    next
      case True
      obtain t where t: "cache_picture ty b s = Some t" "keeps_blocks t st'" "lm_blocks st' = lm_blocks t"
        using package_picture [OF s(3) _ True] m' pd k(2) True by auto
      have "lm_queue t = q" "lm_jpeg_valid t = 0" "lm_jpeg_buf t = Some b" "dom (lm_blocks t) = dom (lm_blocks st) - cached st"
        using t(1) own(4) c k(2) unfolding c(1) [symmetric]
        by (auto simp: cache_picture_def bind_eq_Some_conv free_block_def cached_def split: if_splits option.splits)
      then have "live_inv t" using own by (auto simp: inv_defs)
      then show ?thesis using t(2,3) by (rule live_inv_keeps)
    qed
  qed
qed

subsection \<open>Requests\<close>

lemma interrupted_inv: "live_inv st \<Longrightarrow> interrupted ok st = (r, st') \<Longrightarrow> live_inv st'"
  by (erule same_inv) (auto simp: interrupted_def Interruption_msg_def split: if_splits)

lemma live_inv_users [simp]:
  "live_inv (set_user i f st) = live_inv st" "live_inv (st\<lparr>lm_users := us\<rparr>) = live_inv st"
  "live_inv (st\<lparr>lm_user_num := n\<rparr>) = live_inv st" "live_inv (st\<lparr>lm_fds := fds\<rparr>) = live_inv st"
  "live_inv (st\<lparr>lm_enc_valid := v\<rparr>) = live_inv st"
  "live_inv (st\<lparr>lm_enc_num := n, lm_enc_valid := v, lm_encs := es\<rparr>) = live_inv st"
  by (simp_all add: inv_defs set_user_def)

lemma interrupted_change:
  assumes "live_inv st"
  shows "interrupted ok (set_user i f st) = (r, st') \<Longrightarrow> live_inv st'"
    "interrupted ok (st\<lparr>lm_users := us\<rparr>) = (r, st') \<Longrightarrow> live_inv st'"
    "interrupted ok (st\<lparr>lm_enc_valid := v\<rparr>) = (r, st') \<Longrightarrow> live_inv st'"
    "interrupted ok (st\<lparr>lm_enc_num := k, lm_enc_valid := v, lm_encs := es\<rparr>) = (r, st') \<Longrightarrow> live_inv st'"
  using interrupted_inv [of "set_user i f st"] interrupted_inv [of "st\<lparr>lm_users := us\<rparr>"]
    interrupted_inv [of "st\<lparr>lm_enc_valid := v\<rparr>"]
    interrupted_inv [of "st\<lparr>lm_enc_num := k, lm_enc_valid := v, lm_encs := es\<rparr>"] assms by simp_all

lemma join_inv:
  assumes inv: "live_inv st" and r: "set_lives_user_info fd bnd ok u st = Some (r, st')"
  shows "live_inv st'"
proof -
  obtain fd' s where c: "create_video_local_socket fd bnd st = (fd', s)" by fastforce
  then have s: "live_inv s" using inv by (auto simp: create_video_local_socket_def split: if_splits)
  have f: "live_inv ((set_user i f s)\<lparr>lm_user_num := n\<rparr>)" for i f n using s by simp
  show ?thesis
    using r inv s interrupted_inv [OF inv] interrupted_inv [OF f] c
    by (auto simp: set_lives_user_info_def bind_eq_Some_conv split: if_splits option.splits)
qed

lemma request_inv:
  assumes inv: "live_inv st" and op: "op \<noteq> Round" and r: "live_step env op st = Some (r, st')"
  shows "live_inv st'"
proof (cases op)
  case (Join fd bnd ok u)
  then show ?thesis using r by (auto simp: live_step_def intro: join_inv [OF inv])
next
  case (Leave ok u)
  then show ?thesis using inv r
    by (auto simp: live_step_def stop_lives_user_info_def bind_eq_Some_conv split: if_splits option.splits
        dest: interrupted_change(1) [OF inv])
next
  case (Drop ok i)
  then show ?thesis using inv r
    by (auto simp: live_step_def stop_lives_user_info_unusual_def split: if_splits option.splits
        dest: interrupted_change(1) [OF inv])
next
  case (DropAll ok)
  then show ?thesis using inv r
    by (auto simp: live_step_def stop_lives_user_all_unusual_def split: if_splits dest: interrupted_change(2) [OF inv])
next
  case (Announce ok tys)
  then show ?thesis using inv r
    by (auto simp: live_step_def set_lives_enc_info_def bind_eq_Some_conv split: if_splits
        dest: interrupted_change(3,4) [OF inv])
qed (use op in simp)

subsection \<open>Runs\<close>

text \<open>
  The steps of a room: the receiving side queues a frame in a block of its own, another thread makes a request, or
  the thread takes a message.
\<close>

inductive room_step :: "live_env \<Rightarrow> lives_mode_info_t \<Rightarrow> lives_mode_info_t \<Rightarrow> bool" for env where
  Feed: "lm_blocks st b = None \<Longrightarrow> ty \<noteq> INTERRUPTION_MSG_ID \<Longrightarrow>
    room_step env st (st\<lparr>lm_queue := lm_queue st @ [(ty, Some b)], lm_blocks := (lm_blocks st)(b := Some pd)\<rparr>)"
| Request: "op \<noteq> Round \<Longrightarrow> live_step env op st = Some (r, st') \<Longrightarrow> room_step env st st'"
| Take: "kinds_match st \<Longrightarrow> lives_round env st = Some st' \<Longrightarrow> room_step env st st'"

lemma room_step_inv: "room_step env st st' \<Longrightarrow> live_inv st \<Longrightarrow> live_inv st'"
proof (induction rule: room_step.induct)
  case (Feed st b ty pd)
  then have "b \<notin> dom (lm_blocks st)" by auto
  with Feed show ?case by (auto simp: inv_defs split: if_splits option.splits)
qed (blast intro: request_inv round_inv)+

lemma room_run_inv: "(room_step env)\<^sup>*\<^sup>* st st' \<Longrightarrow> live_inv st \<Longrightarrow> live_inv st'"
  by (induction rule: rtranclp_induct) (auto intro: room_step_inv)

lemma new_inv: "init_lives_mode_info q mok room us = Some st \<Longrightarrow> live_inv st"
  by (auto simp: init_lives_mode_info_def inv_defs split: if_splits)

subsection \<open>The end of the thread\<close>

lemma drain_blocks:
  assumes "distinct (queue_blocks q)" "set (queue_blocks q) \<subseteq> dom (lm_blocks st)"
  shows "\<exists>st'. drain_queue q st = Some st' \<and> lm_blocks st' = lm_blocks st |` (- set (queue_blocks q))
    \<and> lm_jpeg_buf st' = lm_jpeg_buf st \<and> lm_queue st' = []"
  using assms
proof (induction q st rule: drain_queue.induct)
  case (2 ty mb q st)
  show ?case
  proof (cases mb)
    case (Some b)
    then obtain s where s: "free_block b st = Some s" "lm_blocks s = (lm_blocks st)(b := None)"
      "lm_jpeg_buf s = lm_jpeg_buf st"
      using 2(4) by (auto simp: free_block_def dom_def)
    have "distinct (queue_blocks q)" "set (queue_blocks q) \<subseteq> dom (lm_blocks s)" using 2(3,4) Some s(2) by auto
    from 2(2) [OF Some s(1) this] show ?thesis
      using Some s 2(3) by (auto simp: restrict_map_def fun_eq_iff)
  qed (use 2 in simp)
qed (simp add: restrict_map_def)

text \<open>What a round gives up is there to be given up: its message's block, the cached picture it replaces or drops.\<close>

lemma round_frees_live:
  assumes "live_inv st"
  shows "lives_interruption st \<noteq> None"
    "lm_queue st = (ty, Some b) # q \<Longrightarrow> free_block b st \<noteq> None"
    "lm_queue st = (ty, Some b) # q \<Longrightarrow>
       \<exists>s. cache_picture ty b (st\<lparr>lm_queue := q\<rparr>) = Some s \<and> free_block b s \<noteq> None"
proof -
  have own: "dom (lm_blocks st) = set (queue_blocks (lm_queue st)) \<union> cached st"
    "set (queue_blocks (lm_queue st)) \<inter> cached st = {}" "lm_jpeg_valid st = 0 \<or> lm_jpeg_valid st = -1"
    using assms by (auto simp: inv_defs)
  have c: "lm_jpeg_valid st = 0 \<Longrightarrow> lm_jpeg_buf st = Some b \<Longrightarrow> \<exists>pd. lm_blocks st b = Some pd" for b
    using own(1) by (auto simp: cached_def)
  show "lives_interruption st \<noteq> None"
    using c by (auto simp: lives_interruption_def reset_live_mode_enc_def free_block_def Let_def split: option.splits)
  show "free_block b st \<noteq> None" if "lm_queue st = (ty, Some b) # q"
    using own(1) that by (auto simp: free_block_def split: option.splits)
  show "\<exists>s. cache_picture ty b (st\<lparr>lm_queue := q\<rparr>) = Some s \<and> free_block b s \<noteq> None"
    if "lm_queue st = (ty, Some b) # q"
    using own c that
    by (auto simp: cache_picture_def free_block_def cached_def bind_eq_Some_conv split: option.splits)
qed

text \<open>
  C11: The blocks of a room, over any run of frames, requests and rounds in which a picture is taken from the queue only
  when it comes from an encoder announced as one of pictures, and other data only when it does not: every block that
  is not freed has one owner, a message of the queue or the cache, and what the next round may free (the block of its
  message, the picture it replaces or drops) is there.  The end of the thread then frees each of them once, unless a
  cached picture was dropped with its encoders and no new one came: the pointer to it was left behind, and the block
  is freed a second time.
\<close>

theorem live_blocks_accounted:
  assumes "init_lives_mode_info q mok room us = Some st0" "(room_step env)\<^sup>*\<^sup>* st0 st"
  shows "owned st \<and> lives_interruption st \<noteq> None
    \<and> (\<forall>ty b q. lm_queue st = (ty, Some b) # q \<longrightarrow> free_block b st \<noteq> None
         \<and> (\<exists>s. cache_picture ty b (st\<lparr>lm_queue := q\<rparr>) = Some s \<and> free_block b s \<noteq> None))
    \<and> (if lm_jpeg_valid st = -1 \<and> lm_jpeg_buf st \<noteq> None then lives_thread_end True st = None
       else \<exists>st'. lives_thread_end True st = Some (OPERATION_SUCC, st') \<and> lm_blocks st' = Map.empty \<and> lm_queue st' = [])"
proof -
  have inv: "live_inv st" using room_run_inv [OF assms(2) new_inv [OF assms(1)]] .
  then have own: "owned st" "lm_jpeg_valid st = 0 \<or> lm_jpeg_valid st = -1"
    by (simp_all add: live_inv_def)
  then obtain s where s: "drain_queue (lm_queue st) st = Some s" "lm_blocks s = lm_blocks st |` (- set (queue_blocks (lm_queue st)))"
    "lm_jpeg_buf s = lm_jpeg_buf st" "lm_queue s = []"
    using drain_blocks [of "lm_queue st" st] own(1) by (auto simp: owned_def)
  have dom: "dom (lm_blocks s) = cached st" using s(2) own(1) by (auto simp: owned_def)
  have "if lm_jpeg_valid st = -1 \<and> lm_jpeg_buf st \<noteq> None then lives_thread_end True st = None
       else \<exists>st'. lives_thread_end True st = Some (OPERATION_SUCC, st') \<and> lm_blocks st' = Map.empty \<and> lm_queue st' = []"
  proof (cases "lm_jpeg_buf st")
    case None
    then have "cached st = {}" by (simp add: cached_def)
    then have "lm_blocks s = Map.empty" using dom by simp
    then show ?thesis using s None by (simp add: lives_thread_end_def)
  next
    case (Some b)
    show ?thesis
    proof (cases "lm_jpeg_valid st = 0")
      case True
      then have "dom (lm_blocks s) = {b}" using dom Some by (simp add: cached_def)
      then obtain pd where "lm_blocks s = [b \<mapsto> pd]" using dom_eq_singleton_conv by metis
      then show ?thesis using s Some True by (simp add: lives_thread_end_def free_block_def)
    next
      case False
      then have "lm_blocks s = Map.empty" using dom by (simp add: cached_def)
      then show ?thesis using s Some own(2) False by (simp add: lives_thread_end_def free_block_def)
    qed
  qed
  with own(1) round_frees_live [OF inv] show ?thesis by blast
qed

text \<open>
  Why the kinds have to match: a picture from an encoder of films is freed while it is cached, and film data from an
  encoder of pictures is never freed.
\<close>

lemma kinds_mismatch:
  "case lives_round w_env (w_room\<lparr>lm_blocks := [1 \<mapsto> w_slide]\<rparr>) of
     Some s \<Rightarrow> lm_jpeg_valid s = 0 \<and> lm_jpeg_buf s = Some 1 \<and> lm_blocks s 1 = None
   | None \<Rightarrow> False"
  "case lives_round w_env (w_slides\<lparr>lm_jpeg_valid := -1, lm_jpeg_buf := None, lm_queue := [(4, Some 1)],
       lm_blocks := [1 \<mapsto> w_pd]\<rparr>) of
     Some s \<Rightarrow> lm_queue s = [] \<and> lm_jpeg_valid s = -1 \<and> lm_blocks s 1 = Some w_pd
   | None \<Rightarrow> False"
  by code_simp+

text \<open>A room whose encoder of pictures sends one picture and is then withdrawn.\<close>

definition w_withdrawn :: "lives_mode_info_t list option" where
  "w_withdrawn = do {
     (r1, s1) \<leftarrow> live_step w_env (Announce True [(4, 5, 1)]) w_new;
     s2 \<leftarrow> lives_round w_env s1;
     let s3 = s2\<lparr>lm_queue := lm_queue s2 @ [(4, Some 1)], lm_blocks := (lm_blocks s2)(1 := Some w_slide)\<rparr>;
     s4 \<leftarrow> lives_round w_env s3;
     (r5, s5) \<leftarrow> live_step w_env (Announce True []) s4;
     s6 \<leftarrow> lives_round w_env s5;
     Some [s1, s2, s3, s4, s5, s6]
   }"

lemma w_withdrawn_states:
  "case w_withdrawn of
     Some [s1, s2, s3, s4, s5, s6] \<Rightarrow> kinds_match s1 \<and> lm_blocks s2 1 = None \<and> kinds_match s3 \<and> kinds_match s5
       \<and> lm_jpeg_valid s6 = -1 \<and> lm_jpeg_buf s6 = Some 1
   | _ \<Rightarrow> False"
  by code_simp

lemma live_blocks_accounted_witness:
  "\<exists>st. (room_step w_env)\<^sup>*\<^sup>* w_new st \<and> lives_thread_end True st = None"
proof -
  obtain s1 s2 s3 s4 s5 s6 where w: "w_withdrawn = Some [s1, s2, s3, s4, s5, s6]"
    using w_withdrawn_states by (auto simp: w_withdrawn_def Let_def bind_eq_Some_conv split: option.splits list.splits)
  from w_withdrawn_states have m: "kinds_match s1" "lm_blocks s2 1 = None" "kinds_match s3" "kinds_match s5"
    "lm_jpeg_valid s6 = -1" "lm_jpeg_buf s6 = Some 1" unfolding w by simp_all
  obtain r1 r5 where t: "live_step w_env (Announce True [(4, 5, 1)]) w_new = Some (r1, s1)" "lives_round w_env s1 = Some s2"
    "s3 = s2\<lparr>lm_queue := lm_queue s2 @ [(4, Some 1)], lm_blocks := (lm_blocks s2)(1 := Some w_slide)\<rparr>"
    "lives_round w_env s3 = Some s4" "live_step w_env (Announce True []) s4 = Some (r5, s5)" "lives_round w_env s5 = Some s6"
    using w by (auto simp: w_withdrawn_def Let_def bind_eq_Some_conv)
  have "room_step w_env w_new s1" by (rule Request [OF _ t(1)]) simp
  moreover have "room_step w_env s1 s2" using m(1) t(2) by (rule Take)
  moreover have "room_step w_env s2 s3" unfolding t(3) by (rule Feed [OF m(2)]) (simp add: INTERRUPTION_MSG_ID_def)
  moreover have "room_step w_env s3 s4" using m(3) t(4) by (rule Take)
  moreover have "room_step w_env s4 s5" by (rule Request [OF _ t(5)]) simp
  moreover have "room_step w_env s5 s6" using m(4) t(6) by (rule Take)
  ultimately have run: "(room_step w_env)\<^sup>*\<^sup>* w_new s6" by (meson converse_rtranclp_into_rtranclp rtranclp.rtrancl_refl)
  have "lives_thread_end True s6 = None" using live_blocks_accounted [OF w_new_init run] m(5,6) by simp
  then show ?thesis using run by blast
qed

end
