(* ===== verification/MidTimer.thy ===== *)
theory MidTimer
  imports Prelude
begin

section \<open>Timers\<close>

text \<open>
  \<^verbatim>\<open>enc/middle/mid_timer.c\<close>: a pool of twenty timers and a list of the running ones in the order of their clocks.  The two
  linked lists are lists here; a timer is always in one of them.  A function and its argument are addresses, 0 is \<^verbatim>\<open>NULL\<close>;
  the clock is an argument.  The calls of a pass are its result: they are made after the lock is given back.
  \<^const>\<open>None\<close> is undefined behaviour or a loop that does not end.
\<close>

definition TIMER_POOL_SIZE :: nat where "TIMER_POOL_SIZE = 20"
definition HOUR_CLOCK_NUM :: u32 where "HOUR_CLOCK_NUM = 60 * 60 * 1000"

record msg_timer =
  t_func :: nat
  t_arg :: nat
  t_loops :: u32
  t_intval :: u32
  t_clock :: u32

record timer_state =
  timer_q_pool :: "msg_timer list"
  timer_q_time :: "msg_timer list"

text \<open>The loop that sets the clock of a timer forward.\<close>

partial_function (option) next_clock :: "u32 \<Rightarrow> u32 \<Rightarrow> u32 \<Rightarrow> u32 option" where
  "next_clock intval clock c = (if c \<le> clock then next_clock intval clock (c + intval * 1000) else Some c)"

fun place_timer :: "msg_timer \<Rightarrow> msg_timer list \<Rightarrow> msg_timer list" where
  "place_timer t [] = [t]"
| "place_timer t (n # ns) = (if t_clock n \<le> t_clock t then n # place_timer t ns else t # n # ns)"

definition msg_timer_queue :: "msg_timer \<Rightarrow> u32 \<Rightarrow> timer_state \<Rightarrow> timer_state option" where
  "msg_timer_queue t clock st = do {
     c \<leftarrow> next_clock (t_intval t) clock (t_clock t);
     Some (st\<lparr>timer_q_time := place_timer (t\<lparr>t_clock := c\<rparr>) (timer_q_time st)\<rparr>)}"

fun take_timer :: "nat \<Rightarrow> nat \<Rightarrow> msg_timer list \<Rightarrow> msg_timer option \<times> msg_timer list" where
  "take_timer func arg [] = (None, [])"
| "take_timer func arg (t # ts) =
     (if t_func t \<noteq> func \<or> t_arg t \<noteq> arg
      then (case take_timer func arg ts of (r, ts) \<Rightarrow> (r, t # ts))
      else (Some t, ts))"

definition msg_timer_dequeue :: "nat \<Rightarrow> nat \<Rightarrow> timer_state \<Rightarrow> msg_timer option \<times> timer_state" where
  "msg_timer_dequeue func arg st =
     (case take_timer func arg (timer_q_time st) of (r, q) \<Rightarrow> (r, st\<lparr>timer_q_time := q\<rparr>))"

definition msg_timer_alloc :: "timer_state \<Rightarrow> msg_timer option \<times> timer_state" where
  "msg_timer_alloc st = (case timer_q_pool st of [] \<Rightarrow> (None, st) | t # ts \<Rightarrow> (Some t, st\<lparr>timer_q_pool := ts\<rparr>))"

definition msg_timer_free :: "msg_timer option \<Rightarrow> timer_state \<Rightarrow> timer_state" where
  "msg_timer_free r st = (case r of None \<Rightarrow> st | Some t \<Rightarrow> st\<lparr>timer_q_pool := t # timer_q_pool st\<rparr>)"

text \<open>One round of the loop over the timers that are due.\<close>

definition fire_timer :: "u32 \<Rightarrow> msg_timer \<Rightarrow> timer_state \<Rightarrow> timer_state option" where
  "fire_timer clock t st =
     (let st = snd (msg_timer_dequeue (t_func t) (t_arg t) st)
      in if t_loops t = 0 then msg_timer_queue t clock st
         else let t = t\<lparr>t_loops := t_loops t - 1\<rparr>
              in if 0 < t_loops t then msg_timer_queue t clock st else Some (msg_timer_free (Some t) st))"

text \<open>A timer that has been placed lies behind the clock, so the number of timers that are due goes down.\<close>

lemma next_clock_gt: "next_clock i clock c = Some c' \<Longrightarrow> clock < c'"
  by (rule next_clock.raw_induct [where P = "\<lambda>i clock c c'. clock < c'"]) (auto split: if_splits)

lemma take_timer_head [simp]: "take_timer (t_func t) (t_arg t) (t # ts) = (Some t, ts)"
  by simp

lemma filter_place: "\<not> P t \<Longrightarrow> filter P (place_timer t ts) = filter P ts"
  by (induction ts) auto

lemma fire_timer_due:
  assumes "fire_timer clock t st = Some st'" "timer_q_time st = t # ts"
  shows "filter (\<lambda>t. t_clock t \<le> clock) (timer_q_time st') = filter (\<lambda>t. t_clock t \<le> clock) ts"
  using assms
  by (auto simp: fire_timer_def Let_def msg_timer_dequeue_def msg_timer_queue_def msg_timer_free_def filter_place not_le
      dest: next_clock_gt split: if_splits bind_splits)

function deal_loop :: "u32 \<Rightarrow> (nat \<times> nat) list \<Rightarrow> timer_state \<Rightarrow> ((nat \<times> nat) list \<times> timer_state) option" where
  "deal_loop clock fired st =
     (case timer_q_time st of
        [] \<Rightarrow> Some (fired, st)
      | t # _ \<Rightarrow>
          if t_clock t \<le> clock then
            if TIMER_POOL_SIZE \<le> length fired then None
            else do {
              st \<leftarrow> fire_timer clock t st;
              deal_loop clock (fired @ [(t_func t, t_arg t)]) st}
          else Some (fired, st))"
  by auto
termination
  by (relation "measure (\<lambda>(clock, fired, st). length (filter (\<lambda>t. t_clock t \<le> clock) (timer_q_time st)))")
    (auto dest: fire_timer_due)

declare deal_loop.simps [simp del]

definition msg_timer_deal :: "u32 \<Rightarrow> timer_state \<Rightarrow> ((nat \<times> nat) list \<times> u32 \<times> timer_state) option" where
  "msg_timer_deal clock st = do {
     (fired, st) \<leftarrow> deal_loop clock [] st;
     let remain = (case timer_q_time st of [] \<Rightarrow> HOUR_CLOCK_NUM | t # _ \<Rightarrow> t_clock t - clock);
     if list_ex (\<lambda>c. fst c = 0) fired then None
     else Some (fired, if HOUR_CLOCK_NUM < remain then HOUR_CLOCK_NUM else remain, st)}"

text \<open>The seconds and microseconds the timer thread waits for after a pass.\<close>

definition mid_timer_loop_wait :: "u32 \<Rightarrow> u32 \<times> u32" where
  "mid_timer_loop_wait msec = (msec div 1000, msec mod 1000 * 1000)"

text \<open>The test of the parameters has no effect but a message.\<close>

definition mid_timer_create0 :: "u32 \<Rightarrow> int \<Rightarrow> int \<Rightarrow> nat \<Rightarrow> nat \<Rightarrow> timer_state \<Rightarrow> (int \<times> timer_state) option" where
  "mid_timer_create0 clock intval loops func arg st = do {
     let (r, st) = msg_timer_dequeue func arg st;
     let (r, st) = (if r = None then msg_timer_alloc st else (r, st));
     t \<leftarrow> r;
     st \<leftarrow> msg_timer_queue
             (t\<lparr>t_intval := of_int intval, t_clock := clock, t_loops := of_int loops, t_func := func, t_arg := arg\<rparr>) clock st;
     Some (0, st)}"

definition mid_timer_create :: "u32 \<Rightarrow> int \<Rightarrow> int \<Rightarrow> nat \<Rightarrow> timer_state \<Rightarrow> (int \<times> timer_state) option" where
  "mid_timer_create clock intval loops func st = mid_timer_create0 clock intval loops func 0 st"

definition mid_timer_delete0 :: "nat \<Rightarrow> nat \<Rightarrow> timer_state \<Rightarrow> timer_state" where
  "mid_timer_delete0 func arg st = (case msg_timer_dequeue func arg st of (r, st) \<Rightarrow> msg_timer_free r st)"

definition mid_timer_delete :: "nat \<Rightarrow> timer_state \<Rightarrow> timer_state" where
  "mid_timer_delete func st = mid_timer_delete0 func 0 st"

text \<open>\<open>blocks\<close> are the answers of \<^verbatim>\<open>malloc\<close>, with what happens to be in them.\<close>

definition mid_timer_init :: "msg_timer option list \<Rightarrow> timer_state" where
  "mid_timer_init blocks = fold msg_timer_free (take TIMER_POOL_SIZE blocks) \<lparr>timer_q_pool = [], timer_q_time = []\<rparr>"

subsection \<open>The clock of a timer\<close>

text \<open>As long as the clock does not come near its wrap-around, a timer keeps its rhythm: it is set to the next multiple.\<close>

definition next_time :: "u32 \<Rightarrow> u32 \<Rightarrow> u32 \<Rightarrow> u32" where
  "next_time i now c = of_nat (unat c + 1000 * unat i * ((unat now - unat c) div (1000 * unat i) + 1))"

lemma next_clock_exact:
  assumes "0 < unat i" "unat now + 1000 * unat i < 2 ^ 32" "c \<le> now"
  shows "next_clock i now c = Some (next_time i now c)"
  using assms(3)
proof (induction "unat now - unat c" arbitrary: c rule: less_induct)
  case less
  have c: "unat c \<le> unat now" using less.prems by (simp add: word_le_nat_alt)
  define s where "s = 1000 * unat i"
  have s: "0 < s" "unat now + s < 2 ^ 32" using assms(1,2) by (simp_all add: s_def)
  have add: "c + i * 1000 = of_nat (unat c + s)" by (simp add: s_def mult.commute)
  have small: "unat (c + i * 1000) = unat c + s"
    using c s(2) unfolding add unat_of_nat by (simp add: take_bit_nat_eq_self)
  show ?case
  proof (cases "c + i * 1000 \<le> now")
    case True
    then have le: "unat c + s \<le> unat now" using small by (simp add: word_le_nat_alt)
    have "next_clock i now (c + i * 1000) = Some (next_time i now (c + i * 1000))"
      using le s(1) by (intro less.hyps True) (simp add: small)
    moreover have "(unat now - unat c) div s = (unat now - (unat c + s)) div s + 1"
      using le s(1) by (simp add: le_div_geq [of s "unat now - unat c"])
    then have "unat c + s + s * ((unat now - (unat c + s)) div s + 1) = unat c + s * ((unat now - unat c) div s + 1)"
      by (simp add: algebra_simps)
    then have "next_time i now (c + i * 1000) = next_time i now c"
      unfolding next_time_def s_def [symmetric] small by (rule arg_cong)
    ultimately show ?thesis using less.prems by (simp add: next_clock.simps [of i now c])
  next
    case False
    then have "unat now < unat c + s" using small by (simp add: word_le_nat_alt)
    then have "(unat now - unat c) div s = 0" using c by simp
    then have "next_time i now c = c + i * 1000" by (simp add: next_time_def s_def [symmetric] add)
    then show ?thesis using less.prems False
      by (simp add: next_clock.simps [of i now c] next_clock.simps [of i now "c + i * 1000"])
  qed
qed

lemma next_time_new:
  assumes "0 < unat i" shows "next_time i now now = now + 1000 * i"
  by (simp add: next_time_def)

lemma next_clock_later: "now < c \<Longrightarrow> next_clock i now c = Some c"
  by (subst next_clock.simps) (auto simp: not_le [symmetric])

text \<open>Without a step, and in the last millisecond before the wrap-around, the loop does not end.\<close>

lemma next_clock_hangs:
  assumes "i * 1000 = 0 \<or> now = - 1" "c \<le> now"
  shows "next_clock i now c = None"
proof (rule ccontr)
  assume "next_clock i now c \<noteq> None"
  then obtain c' where c': "next_clock i now c = Some c'" by blast
  have "i * 1000 = 0 \<longrightarrow> now < c"
    using c' by (rule next_clock.raw_induct [where P = "\<lambda>i now c c'. i * 1000 = 0 \<longrightarrow> now < c", rotated]) (auto split: if_splits)
  moreover have "now \<noteq> - 1" using next_clock_gt [OF c'] by auto
  ultimately show False using assms by auto
qed

subsection \<open>The list of running timers\<close>

definition t_key :: "msg_timer \<Rightarrow> nat \<times> nat" where "t_key t = (t_func t, t_arg t)"
definition t_entry :: "msg_timer \<Rightarrow> u32 \<times> u32 \<times> u32" where "t_entry t = (t_loops t, t_intval t, t_clock t)"

definition sched_of :: "msg_timer list \<Rightarrow> nat \<times> nat \<rightharpoonup> u32 \<times> u32 \<times> u32" where
  "sched_of ts = map_of (map (\<lambda>t. (t_key t, t_entry t)) ts)"

abbreviation schedule :: "timer_state \<Rightarrow> nat \<times> nat \<rightharpoonup> u32 \<times> u32 \<times> u32" where
  "schedule st \<equiv> sched_of (timer_q_time st)"

lemma sched_of_simps [simp]:
  "sched_of [] = Map.empty" "sched_of (t # ts) = (sched_of ts)(t_key t \<mapsto> t_entry t)"
  by (simp_all add: sched_of_def)

lemma sched_of_None: "sched_of ts k = None \<longleftrightarrow> k \<notin> t_key ` set ts"
  by (induction ts) auto

lemma sched_of_Some: "sched_of ts k = Some e \<Longrightarrow> \<exists>t\<in>set ts. t_key t = k \<and> t_entry t = e"
  by (induction ts) (auto split: if_splits)

lemma sched_of_member: "distinct (map t_key ts) \<Longrightarrow> t \<in> set ts \<Longrightarrow> sched_of ts (t_key t) = Some (t_entry t)"
  by (induction ts) (auto simp: image_iff dest: sym)

lemma place_members [simp]: "set (place_timer t ts) = insert t (set ts)" "length (place_timer t ts) = Suc (length ts)"
  by (induction ts) auto

lemma place_sorted: "sorted (map t_clock ts) \<Longrightarrow> sorted (map t_clock (place_timer t ts))"
  by (induction ts) auto

lemma place_distinct: "distinct (map t_key ts) \<Longrightarrow> t_key t \<notin> t_key ` set ts \<Longrightarrow> distinct (map t_key (place_timer t ts))"
  by (induction ts) auto

lemma place_sched: "t_key t \<notin> t_key ` set ts \<Longrightarrow> sched_of (place_timer t ts) = (sched_of ts)(t_key t \<mapsto> t_entry t)"
  by (induction ts) (auto simp: fun_upd_twist)

lemma place_behind: "\<forall>d\<in>set ds. t_clock d \<le> t_clock t \<Longrightarrow> place_timer t (ds @ ts) = ds @ place_timer t ts"
  by (induction ds) auto

text \<open>Taking a timer out.\<close>

lemma take_timer_absent: "(f, a) \<notin> t_key ` set ts \<Longrightarrow> take_timer f a ts = (None, ts)"
  by (induction ts) (auto simp: t_key_def)

lemma take_timer_present: "(f, a) \<in> t_key ` set ts \<Longrightarrow> \<exists>t r. take_timer f a ts = (Some t, r)"
  by (induction ts) (auto simp: t_key_def)

lemma take_timer_Some:
  assumes "take_timer f a ts = (Some t, r)" "distinct (map t_key ts)"
  shows "t \<in> set ts \<and> t_key t = (f, a) \<and> t_key t \<notin> t_key ` set r \<and> set ts = insert t (set r) \<and> distinct (map t_key r)
    \<and> length ts = Suc (length r) \<and> sched_of r = (sched_of ts)((f, a) := None)
    \<and> (sorted (map t_clock ts) \<longrightarrow> sorted (map t_clock r))"
  using assms
proof (induction ts arbitrary: r)
  case (Cons x ts)
  show ?case
  proof (cases "t_key x = (f, a)")
    case True
    then have x: "t = x" "r = ts" using Cons.prems(1) by (auto simp: t_key_def)
    have "sched_of ts (f, a) = None" using True Cons.prems(2) by (auto simp: sched_of_None)
    then show ?thesis using True Cons.prems(2) x by auto
  next
    case False
    then obtain r' where r: "take_timer f a ts = (Some t, r')" "r = x # r'"
      using Cons.prems(1) by (auto simp: t_key_def split: prod.splits if_splits)
    note ih = Cons.IH [OF r(1)]
    then show ?thesis using False Cons.prems(2) r(2) by (auto simp: fun_upd_twist)
  qed
qed simp

subsection \<open>A pass over the timers that are due\<close>

text \<open>What a pass makes of a timer that is due.\<close>

definition stepped :: "u32 \<Rightarrow> msg_timer \<Rightarrow> msg_timer" where
  "stepped now t = t\<lparr>t_loops := (if t_loops t = 0 then 0 else t_loops t - 1), t_clock := next_time (t_intval t) now (t_clock t)\<rparr>"

definition replaced :: "u32 \<Rightarrow> msg_timer \<Rightarrow> msg_timer list \<Rightarrow> msg_timer list" where
  "replaced now t ts = (if t_loops t = 1 then ts else place_timer (stepped now t) ts)"

definition timely :: "u32 \<Rightarrow> msg_timer \<Rightarrow> bool" where
  "timely now t \<longleftrightarrow> 0 < unat (t_intval t) \<and> unat now + 1000 * unat (t_intval t) < 2 ^ 32"

lemma stepped_key [simp]: "t_key (stepped now t) = t_key t" "t_intval (stepped now t) = t_intval t"
  by (simp_all add: stepped_def t_key_def)

lemma stepped_later: "timely now t \<Longrightarrow> t_clock t \<le> now \<Longrightarrow> now < t_clock (stepped now t)"
  using next_clock_gt [OF next_clock_exact] by (simp add: timely_def stepped_def)

lemma fire_timer_value:
  assumes "timer_q_time st = t # ds @ rs" "timely now t" "t_clock t \<le> now" "\<forall>d\<in>set ds. t_clock d \<le> now"
  shows "\<exists>pool'. fire_timer now t st = Some \<lparr>timer_q_pool = pool', timer_q_time = ds @ replaced now t rs\<rparr>
    \<and> length pool' = (if t_loops t = 1 then 1 else 0) + length (timer_q_pool st)"
proof -
  have d: "snd (msg_timer_dequeue (t_func t) (t_arg t) st) = st\<lparr>timer_q_time := ds @ rs\<rparr>"
    using assms(1) by (simp add: msg_timer_dequeue_def)
  have n: "next_clock (t_intval t) now (t_clock t) = Some (next_time (t_intval t) now (t_clock t))"
    using assms(2,3) by (intro next_clock_exact) (simp_all add: timely_def)
  have p: "place_timer (stepped now t) (ds @ rs) = ds @ place_timer (stepped now t) rs"
    using assms(2-4) stepped_later [of now t] by (intro place_behind) (auto intro: order.trans less_imp_le)
  have one: "0 < t_loops t - 1 \<longleftrightarrow> t_loops t \<noteq> 1" if "t_loops t \<noteq> 0" using that by (simp add: word_gt_0)
  have q: "msg_timer_queue (t\<lparr>t_loops := k\<rparr>) now (st\<lparr>timer_q_time := ds @ rs\<rparr>)
      = Some (st\<lparr>timer_q_time := ds @ place_timer (stepped now t) rs\<rparr>)" if "k = (if t_loops t = 0 then 0 else t_loops t - 1)" for k
    using n p that by (simp add: msg_timer_queue_def stepped_def)
  consider "t_loops t = 0" | "t_loops t = 1" | "t_loops t \<noteq> 0" "t_loops t \<noteq> 1" by blast
  then show ?thesis
  proof cases
    case 1
    then have "t\<lparr>t_loops := 0\<rparr> = t" by simp
    then have "msg_timer_queue t now (st\<lparr>timer_q_time := ds @ rs\<rparr>) = Some (st\<lparr>timer_q_time := ds @ place_timer (stepped now t) rs\<rparr>)"
      using q [of 0] 1 by metis
    then show ?thesis using 1 d by (cases st) (simp add: fire_timer_def replaced_def)
  next
    case 2
    then show ?thesis using d by (cases st) (simp add: fire_timer_def Let_def replaced_def msg_timer_free_def)
  next
    case 3
    then show ?thesis using d q [of "t_loops t - 1"] one
      by (cases st) (simp add: fire_timer_def Let_def replaced_def)
  qed
qed

lemma replaced_keys: "t_key ` set (replaced now t ts) \<subseteq> insert (t_key t) (t_key ` set ts)"
  by (auto simp: replaced_def)

lemma deal_loop_value:
  assumes "timer_q_time st = ds @ rs" "\<forall>d\<in>set ds. timely now d \<and> t_clock d \<le> now" "\<forall>r\<in>set rs. now < t_clock r"
    "length fired + length ds \<le> 20"
  shows "\<exists>pool'. deal_loop now fired st = Some (fired @ map t_key ds, \<lparr>timer_q_pool = pool', timer_q_time = fold (replaced now) ds rs\<rparr>)
    \<and> length pool' + length (fold (replaced now) ds rs) = length (timer_q_pool st) + length ds + length rs"
  using assms
proof (induction ds arbitrary: rs fired st)
  case Nil
  then show ?case by (cases st; cases rs) (auto simp: deal_loop.simps [of now fired] leD)
next
  case (Cons t ds)
  obtain pool' where f: "fire_timer now t st = Some \<lparr>timer_q_pool = pool', timer_q_time = ds @ replaced now t rs\<rparr>"
      "length pool' = (if t_loops t = 1 then 1 else 0) + length (timer_q_pool st)"
    using fire_timer_value [of st t ds rs now] Cons.prems by auto
  define rs' where "rs' = replaced now t rs"
  define st1 where "st1 = \<lparr>timer_q_pool = pool', timer_q_time = ds @ rs'\<rparr>"
  have later: "\<forall>r\<in>set rs'. now < t_clock r"
    using Cons.prems(2,3) stepped_later [of now t] by (auto simp: rs'_def replaced_def)
  have len: "length pool' + length rs' = Suc (length (timer_q_pool st) + length rs)"
    using f(2) by (simp add: rs'_def replaced_def)
  have step: "deal_loop now fired st = deal_loop now (fired @ [t_key t]) st1"
    using Cons.prems f(1) by (simp add: deal_loop.simps [of now fired st] TIMER_POOL_SIZE_def st1_def rs'_def t_key_def)
  obtain p2 where p2: "deal_loop now (fired @ [t_key t]) st1
      = Some ((fired @ [t_key t]) @ map t_key ds, \<lparr>timer_q_pool = p2, timer_q_time = fold (replaced now) ds rs'\<rparr>)"
      "length p2 + length (fold (replaced now) ds rs') = length pool' + length ds + length rs'"
    using Cons.IH [of st1 rs' "fired @ [t_key t]"] Cons.prems later by (auto simp: st1_def)
  have "fold (replaced now) (t # ds) rs = fold (replaced now) ds rs'" by (simp add: rs'_def)
  then show ?case using step p2 len by (intro exI [of _ p2]) simp
qed

text \<open>What the pass leaves in the list.\<close>

definition after_pass :: "u32 \<Rightarrow> (u32 \<times> u32 \<times> u32) option \<Rightarrow> (u32 \<times> u32 \<times> u32) option" where
  "after_pass now e = (case e of None \<Rightarrow> None | Some (l, i, c) \<Rightarrow>
     if now < c then e else if l = 1 then None else Some (if l = 0 then 0 else l - 1, i, next_time i now c))"

lemma fold_replaced:
  assumes "distinct (map t_key (ds @ rs))" "\<forall>d\<in>set ds. timely now d \<and> t_clock d \<le> now" "\<forall>r\<in>set rs. now < t_clock r"
    "sorted (map t_clock rs)"
  shows "distinct (map t_key (fold (replaced now) ds rs)) \<and> sorted (map t_clock (fold (replaced now) ds rs))
    \<and> t_key ` set (fold (replaced now) ds rs) \<subseteq> t_key ` set (ds @ rs)
    \<and> t_intval ` set (fold (replaced now) ds rs) \<subseteq> t_intval ` set (ds @ rs)
    \<and> (\<forall>t\<in>set (fold (replaced now) ds rs). now < t_clock t)
    \<and> sched_of (fold (replaced now) ds rs) = (\<lambda>k. after_pass now (sched_of (ds @ rs) k))"
  using assms
proof (induction ds arbitrary: rs)
  case Nil
  have "sched_of rs k = after_pass now (sched_of rs k)" for k
    using Nil.prems(3) by (cases "sched_of rs k") (auto simp: after_pass_def t_entry_def dest!: sched_of_Some)
  then show ?case using Nil.prems by auto
next
  case (Cons t ds)
  have new: "t_key t \<notin> t_key ` set ds" "t_key t \<notin> t_key ` set rs" using Cons.prems(1) by auto
  define rs' where "rs' = replaced now t rs"
  have later: "now < t_clock (stepped now t)" using Cons.prems(2) stepped_later by simp
  have due: "\<forall>d\<in>set ds. timely now d \<and> t_clock d \<le> now" using Cons.prems(2) by simp
  have "distinct (map t_key (ds @ rs'))" "\<forall>r\<in>set rs'. now < t_clock r" "sorted (map t_clock rs')"
    using Cons.prems new later place_distinct [of rs "stepped now t"] place_sorted [of rs "stepped now t"]
    by (auto simp: rs'_def replaced_def)
  note ih = Cons.IH [OF this(1) due this(2,3)]
  have sub: "t_key ` set rs' \<subseteq> insert (t_key t) (t_key ` set rs)" "t_intval ` set rs' \<subseteq> insert (t_intval t) (t_intval ` set rs)"
    by (auto simp: rs'_def replaced_def)
  have app: "sched_of (xs @ ys) = sched_of ys ++ sched_of xs" for xs ys by (simp add: sched_of_def)
  have old: "sched_of ds (t_key t) = None" "sched_of rs (t_key t) = None" using new by (simp_all add: sched_of_None)
  have sched: "sched_of (fold (replaced now) ds rs') k = after_pass now (sched_of ((t # ds) @ rs) k)" for k
  proof (cases "k = t_key t")
    case True
    have "sched_of (ds @ rs') (t_key t) = (if t_loops t = 1 then None else Some (t_entry (stepped now t)))"
      using old new by (simp add: app map_add_def rs'_def replaced_def place_sched)
    then show ?thesis using ih Cons.prems(2) True later
      by (auto simp: after_pass_def t_entry_def stepped_def not_less)
  next
    case False
    then have "sched_of rs' k = sched_of rs k" using new(2) by (simp add: rs'_def replaced_def place_sched)
    then show ?thesis using ih Cons.prems(2) False by (cases "sched_of ds k") (simp_all add: app map_add_def)
  qed
  have keys: "t_key ` set (ds @ rs') \<subseteq> t_key ` set ((t # ds) @ rs)" "t_intval ` set (ds @ rs') \<subseteq> t_intval ` set ((t # ds) @ rs)"
    using sub by (simp_all add: image_Un) (blast+)
  have eq: "fold (replaced now) (t # ds) rs = fold (replaced now) ds rs'" by (simp add: rs'_def)
  show ?case unfolding eq
  proof (intro conjI)
    show "t_key ` set (fold (replaced now) ds rs') \<subseteq> t_key ` set ((t # ds) @ rs)"
      "t_intval ` set (fold (replaced now) ds rs') \<subseteq> t_intval ` set ((t # ds) @ rs)"
      using ih keys by (blast intro: subset_trans)+
    show "sched_of (fold (replaced now) ds rs') = (\<lambda>k. after_pass now (sched_of ((t # ds) @ rs) k))" by (rule ext) (rule sched)
  qed (use ih in blast)+
qed

subsection \<open>The operations on the schedule\<close>

text \<open>
  The lists hold twenty timers, the running ones under different keys (function and argument) taken from \<open>K\<close>, in the
  order of their clocks, with intervals of at most \<open>T\<close> milliseconds.
\<close>

definition timers_ok :: "nat \<Rightarrow> (nat \<times> nat) set \<Rightarrow> timer_state \<Rightarrow> bool" where
  "timers_ok T K st \<longleftrightarrow> distinct (map t_key (timer_q_time st)) \<and> sorted (map t_clock (timer_q_time st))
     \<and> t_key ` set (timer_q_time st) \<subseteq> K \<and> length (timer_q_pool st) + length (timer_q_time st) = 20
     \<and> t_intval ` set (timer_q_time st) \<subseteq> {i. 0 < unat i \<and> 1000 * unat i \<le> T}"

datatype timer_op = TimerCreate int int nat nat | TimerDelete nat nat | TimerPass

fun timer_step :: "timer_op \<times> u32 \<Rightarrow> timer_state \<Rightarrow> ((nat \<times> nat) list \<times> timer_state) option" where
  "timer_step (TimerCreate i l f a, now) st = do {(_, st) \<leftarrow> mid_timer_create0 now i l f a st; Some ([], st)}"
| "timer_step (TimerDelete f a, now) st = Some ([], mid_timer_delete0 f a st)"
| "timer_step (TimerPass, now) st = do {(calls, _, st) \<leftarrow> msg_timer_deal now st; Some (calls, st)}"

text \<open>A run gives the calls of each operation and the last state.\<close>

fun timer_run :: "(timer_op \<times> u32) list \<Rightarrow> timer_state \<Rightarrow> ((nat \<times> nat) list list \<times> timer_state) option" where
  "timer_run [] st = Some ([], st)"
| "timer_run (op # ops) st = do {
     (calls, st) \<leftarrow> timer_step op st;
     (log, st) \<leftarrow> timer_run ops st;
     Some (calls # log, st)}"

text \<open>The abstract machine: a map from keys to the loops that are left, the interval and the clock.\<close>

definition due_keys :: "u32 \<Rightarrow> (nat \<times> nat \<rightharpoonup> u32 \<times> u32 \<times> u32) \<Rightarrow> (nat \<times> nat) set" where
  "due_keys now m = {k. \<exists>l i c. m k = Some (l, i, c) \<and> c \<le> now}"

fun sched_step :: "timer_op \<times> u32 \<Rightarrow> (nat \<times> nat \<rightharpoonup> u32 \<times> u32 \<times> u32) \<Rightarrow> (nat \<times> nat) list
    \<Rightarrow> (nat \<times> nat \<rightharpoonup> u32 \<times> u32 \<times> u32) \<Rightarrow> bool" where
  "sched_step (TimerCreate i l f a, now) m calls m' \<longleftrightarrow>
     calls = [] \<and> m' = m((f, a) \<mapsto> (of_int l, of_int i, now + 1000 * of_int i))"
| "sched_step (TimerDelete f a, now) m calls m' \<longleftrightarrow> calls = [] \<and> m' = m((f, a) := None)"
| "sched_step (TimerPass, now) m calls m' \<longleftrightarrow>
     distinct calls \<and> set calls = due_keys now m \<and> sorted (map (\<lambda>k. snd (snd (the (m k)))) calls)
     \<and> m' = (\<lambda>k. after_pass now (m k))"

fun sched_run :: "(timer_op \<times> u32) list \<Rightarrow> (nat \<times> nat \<rightharpoonup> u32 \<times> u32 \<times> u32) \<Rightarrow> (nat \<times> nat) list list
    \<Rightarrow> (nat \<times> nat \<rightharpoonup> u32 \<times> u32 \<times> u32) \<Rightarrow> bool" where
  "sched_run [] m log m' \<longleftrightarrow> log = [] \<and> m' = m"
| "sched_run (op # ops) m log m' \<longleftrightarrow>
     (\<exists>calls log' m1. log = calls # log' \<and> sched_step op m calls m1 \<and> sched_run ops m1 log' m')"

text \<open>Operations away from the wrap-around of the clock.\<close>

fun well_timed :: "nat \<Rightarrow> timer_op \<times> u32 \<Rightarrow> bool" where
  "well_timed T (TimerCreate i l f a, now) \<longleftrightarrow> 0 < i \<and> 1000 * nat i \<le> T \<and> f \<noteq> 0 \<and> unat now + T < 2 ^ 32"
| "well_timed T (_, now) \<longleftrightarrow> unat now + T < 2 ^ 32"

fun op_keys :: "(timer_op \<times> u32) list \<Rightarrow> (nat \<times> nat) list" where
  "op_keys [] = []"
| "op_keys ((TimerCreate i l f a, now) # ops) = (f, a) # op_keys ops"
| "op_keys (_ # ops) = op_keys ops"

lemma op_keys_Cons: "set (op_keys ((op, now) # ops)) = (case op of TimerCreate i l f a \<Rightarrow> {(f, a)} | _ \<Rightarrow> {}) \<union> set (op_keys ops)"
  by (cases op) auto

lemma create_sched:
  assumes "timers_ok T K st" "finite K" "card K \<le> 20" "(f, a) \<in> K" "well_timed T (TimerCreate i l f a, now)"
  shows "\<exists>st'. mid_timer_create0 now i l f a st = Some (0, st') \<and> timers_ok T K st'
    \<and> schedule st' = (schedule st)((f, a) \<mapsto> (of_int l, of_int i, now + 1000 * of_int i))"
proof -
  have i: "unat (of_int i :: u32) = nat i"
  proof -
    have "0 < i" "i < 2 ^ 32" using assms(5) by auto
    then have "int (unat (of_int i :: u32)) = i" by (simp add: uint_word_of_int)
    then show ?thesis by (metis nat_int)
  qed
  have next_c: "next_clock (of_int i) now now = Some (now + 1000 * of_int i)"
    using next_clock_exact [of "of_int i" now now] next_time_new [of "of_int i" now] assms(5) by (simp add: i)
  have place: "\<exists>st'. mid_timer_create0 now i l f a st = Some (0, st') \<and> timers_ok T K st'
      \<and> schedule st' = (schedule st)((f, a) \<mapsto> (of_int l, of_int i, now + 1000 * of_int i))"
    if r: "(let (r, st) = msg_timer_dequeue f a st in if r = None then msg_timer_alloc st else (r, st))
            = (Some t, \<lparr>timer_q_pool = p, timer_q_time = q\<rparr>)"
      and q: "timers_ok T K \<lparr>timer_q_pool = t # p, timer_q_time = q\<rparr>" "(f, a) \<notin> t_key ` set q"
        "sched_of q = (schedule st)((f, a) := None)" for t p q
  proof -
    define t' where "t' = t\<lparr>t_intval := of_int i, t_loops := of_int l, t_func := f, t_arg := a, t_clock := now + 1000 * of_int i\<rparr>"
    have t': "t_key t' = (f, a)" "t_entry t' = (of_int l, of_int i, now + 1000 * of_int i)" "t_intval t' = of_int i"
      by (simp_all add: t'_def t_key_def t_entry_def)
    define st' where "st' = \<lparr>timer_q_pool = p, timer_q_time = place_timer t' q\<rparr>"
    have "mid_timer_create0 now i l f a st = Some (0, st')"
    proof -
      obtain r0 s0 where m: "msg_timer_dequeue f a st = (r0, s0)" by fastforce
      then have "(if r0 = None then msg_timer_alloc s0 else (r0, s0)) = (Some t, \<lparr>timer_q_pool = p, timer_q_time = q\<rparr>)"
        using r by simp
      then show ?thesis using next_c by (simp add: mid_timer_create0_def m msg_timer_queue_def st'_def t'_def)
    qed
    moreover have "timers_ok T K st'"
      using q(1,2) assms(4,5) t' place_distinct [of q t'] place_sorted [of q t'] i by (simp add: timers_ok_def st'_def)
    moreover have "schedule st' = (schedule st)((f, a) \<mapsto> (of_int l, of_int i, now + 1000 * of_int i))"
      using q(2,3) t' place_sched [of t' q] by (simp add: st'_def)
    ultimately show ?thesis by blast
  qed
  show ?thesis
  proof (cases "(f, a) \<in> t_key ` set (timer_q_time st)")
    case True
    then obtain t r where t: "take_timer f a (timer_q_time st) = (Some t, r)" using take_timer_present by blast
    have d: "distinct (map t_key (timer_q_time st))" using assms(1) by (simp add: timers_ok_def)
    note tt = take_timer_Some [OF t d]
    show ?thesis
      using tt assms(1) t by (intro place [of t "timer_q_pool st" r]) (auto simp: timers_ok_def msg_timer_dequeue_def)
  next
    case False
    have "t_key ` set (timer_q_time st) \<subset> K" using False assms(1,4) by (auto simp: timers_ok_def)
    then have "card (t_key ` set (timer_q_time st)) < card K" using assms(2) by (simp add: psubset_card_mono)
    moreover have "card (t_key ` set (timer_q_time st)) = length (timer_q_time st)"
      using assms(1) distinct_card [of "map t_key (timer_q_time st)"] by (simp add: timers_ok_def)
    ultimately have "length (timer_q_time st) < 20" using assms(3) by simp
    then obtain t p where p: "timer_q_pool st = t # p" using assms(1) by (cases "timer_q_pool st") (auto simp: timers_ok_def)
    show ?thesis
      using assms(1) p False take_timer_absent [OF False] sched_of_None [of "timer_q_time st" "(f, a)"]
      by (intro place [of t p "timer_q_time st"]) (auto simp: timers_ok_def msg_timer_dequeue_def msg_timer_alloc_def fun_upd_idem)
  qed
qed

lemma delete_sched:
  assumes "timers_ok T K st"
  shows "timers_ok T K (mid_timer_delete0 f a st)" "schedule (mid_timer_delete0 f a st) = (schedule st)((f, a) := None)"
proof -
  have d: "distinct (map t_key (timer_q_time st))" using assms by (simp add: timers_ok_def)
  have "timers_ok T K (mid_timer_delete0 f a st) \<and> schedule (mid_timer_delete0 f a st) = (schedule st)((f, a) := None)"
  proof (cases "(f, a) \<in> t_key ` set (timer_q_time st)")
    case True
    then obtain t r where t: "take_timer f a (timer_q_time st) = (Some t, r)" using take_timer_present by blast
    then show ?thesis using take_timer_Some [OF t d] assms
      by (auto simp: mid_timer_delete0_def msg_timer_dequeue_def msg_timer_free_def timers_ok_def)
  next
    case False
    then have "(schedule st)((f, a) := None) = schedule st" using sched_of_None [of "timer_q_time st" "(f, a)"] by (auto simp: fun_upd_idem)
    then show ?thesis using take_timer_absent [OF False] assms
      by (simp add: mid_timer_delete0_def msg_timer_dequeue_def msg_timer_free_def)
  qed
  then show "timers_ok T K (mid_timer_delete0 f a st)" "schedule (mid_timer_delete0 f a st) = (schedule st)((f, a) := None)" by simp_all
qed

text \<open>The timers that are due are a first part of the list.\<close>

lemma due_prefix:
  assumes "sorted (map t_clock q)"
  obtains ds rs where "q = ds @ rs" "\<forall>d\<in>set ds. t_clock d \<le> now" "\<forall>r\<in>set rs. now < t_clock r"
proof
  let ?P = "\<lambda>t. t_clock t \<le> now"
  show "q = takeWhile ?P q @ dropWhile ?P q" by simp
  show "\<forall>d\<in>set (takeWhile ?P q). t_clock d \<le> now" by (auto dest: set_takeWhileD)
  show "\<forall>r\<in>set (dropWhile ?P q). now < t_clock r" using assms
  proof (induction q)
    case (Cons x q)
    then show ?case by (cases "t_clock x \<le> now") auto
  qed simp
qed

lemma pass_sched:
  assumes "timers_ok T K st" "\<forall>k\<in>K. fst k \<noteq> 0" "unat now + T < 2 ^ 32"
  shows "\<exists>calls w st'. msg_timer_deal now st = Some (calls, w, st') \<and> timers_ok T K st'
    \<and> sched_step (TimerPass, now) (schedule st) calls (schedule st')"
proof -
  have "sorted (map t_clock (timer_q_time st))" using assms(1) by (simp add: timers_ok_def)
  then obtain ds rs where q: "timer_q_time st = ds @ rs" and ds: "\<forall>d\<in>set ds. t_clock d \<le> now" and rs: "\<forall>r\<in>set rs. now < t_clock r"
    using due_prefix [of "timer_q_time st" now] by blast
  have ok: "distinct (map t_key (ds @ rs))" "sorted (map t_clock (ds @ rs))" "t_key ` set (ds @ rs) \<subseteq> K"
      "length (timer_q_pool st) + length (ds @ rs) = 20" "t_intval ` set (ds @ rs) \<subseteq> {i. 0 < unat i \<and> 1000 * unat i \<le> T}"
    using assms(1) q by (auto simp: timers_ok_def)
  have due: "\<forall>d\<in>set ds. timely now d \<and> t_clock d \<le> now"
    using ds ok(5) assms(3) by (fastforce simp: timely_def image_subset_iff)
  obtain pool' where d: "deal_loop now [] st = Some (map t_key ds, \<lparr>timer_q_pool = pool', timer_q_time = fold (replaced now) ds rs\<rparr>)"
      "length pool' + length (fold (replaced now) ds rs) = 20"
    using deal_loop_value [OF q due rs, of "[]"] ok(4) by auto
  define st' where "st' = \<lparr>timer_q_pool = pool', timer_q_time = fold (replaced now) ds rs\<rparr>"
  have fr: "distinct (map t_key (timer_q_time st'))" "sorted (map t_clock (timer_q_time st'))"
      "t_key ` set (timer_q_time st') \<subseteq> t_key ` set (ds @ rs)" "t_intval ` set (timer_q_time st') \<subseteq> t_intval ` set (ds @ rs)"
      "schedule st' = (\<lambda>k. after_pass now (schedule st k))"
    using fold_replaced [OF ok(1) due rs] ok(2) q by (simp_all add: st'_def sorted_append)
  have "timers_ok T K st'"
    using fr(1,2) subset_trans [OF fr(3) ok(3)] subset_trans [OF fr(4) ok(5)] d(2) by (simp add: timers_ok_def st'_def)
  moreover have "\<not> list_ex (\<lambda>c. fst c = 0) (map t_key ds)" using ok(3) assms(2) by (auto simp: list_ex_iff)
  then obtain w where "msg_timer_deal now st = Some (map t_key ds, w, st')" using d(1) by (simp add: msg_timer_deal_def Let_def st'_def)
  moreover have "sched_step (TimerPass, now) (schedule st) (map t_key ds) (schedule st')"
  proof -
    have at: "schedule st (t_key d) = Some (t_entry d)" if "d \<in> set (ds @ rs)" for d
      using sched_of_member [OF ok(1) that] q by simp
    have "t_key ` set ds = due_keys now (schedule st)"
    proof (intro equalityI subsetI)
      fix k assume "k \<in> t_key ` set ds"
      then show "k \<in> due_keys now (schedule st)" using at ds by (auto simp: due_keys_def t_entry_def)
    next
      fix k assume "k \<in> due_keys now (schedule st)"
      then obtain t where t: "t \<in> set (ds @ rs)" "t_key t = k" "t_clock t \<le> now"
        using q by (auto simp: due_keys_def t_entry_def dest!: sched_of_Some)
      then show "k \<in> t_key ` set ds" using rs by (auto simp: leD)
    qed
    moreover have "map (\<lambda>k. snd (snd (the (schedule st k)))) (map t_key ds) = map t_clock ds"
      using at by (simp add: t_entry_def)
    ultimately show ?thesis using ok(1,2) fr(5) by (simp add: sorted_append del: map_map)
  qed
  ultimately show ?thesis by blast
qed

subsection \<open>Timers follow their schedule\<close>

lemma timer_step_sched:
  assumes "timers_ok T K st" "finite K" "card K \<le> 20" "\<forall>k\<in>K. fst k \<noteq> 0" "set (op_keys [(op, now)]) \<subseteq> K" "well_timed T (op, now)"
  shows "\<exists>calls st'. timer_step (op, now) st = Some (calls, st') \<and> timers_ok T K st'
    \<and> sched_step (op, now) (schedule st) calls (schedule st')"
proof (cases op)
  case (TimerCreate i l f a)
  then show ?thesis using create_sched [of T K st f a i l now] assms by fastforce
next
  case (TimerDelete f a)
  then show ?thesis using delete_sched [OF assms(1), of f a] by simp
next
  case TimerPass
  then show ?thesis using pass_sched [OF assms(1,4), of now] assms(6) by fastforce
qed

lemma timer_run_sched:
  assumes "timers_ok T K st" "finite K" "card K \<le> 20" "\<forall>k\<in>K. fst k \<noteq> 0" "set (op_keys ops) \<subseteq> K" "\<forall>op\<in>set ops. well_timed T op"
  shows "\<exists>log st'. timer_run ops st = Some (log, st') \<and> timers_ok T K st' \<and> sched_run ops (schedule st) log (schedule st')"
  using assms
proof (induction ops arbitrary: st)
  case (Cons op ops)
  obtain o' now where o: "op = (o', now)" by (cases op)
  have "set (op_keys [op]) \<subseteq> K" "set (op_keys ops) \<subseteq> K" using Cons.prems(5) op_keys_Cons [of o' now] by (auto simp: o)
  then obtain calls st1 where s: "timer_step op st = Some (calls, st1)" "timers_ok T K st1"
      "sched_step op (schedule st) calls (schedule st1)"
    using timer_step_sched [OF Cons.prems(1-4), of o' now] Cons.prems(6) unfolding o by auto
  then show ?case using Cons.IH [OF s(2) Cons.prems(2-4) \<open>set (op_keys ops) \<subseteq> K\<close>] Cons.prems(6) by fastforce
qed simp

lemma fold_free: "fold msg_timer_free (map Some bs) st = st\<lparr>timer_q_pool := rev bs @ timer_q_pool st\<rparr>"
  by (induction bs arbitrary: st) (simp_all add: msg_timer_free_def)

lemma init_ok: "length blocks = 20 \<Longrightarrow> timers_ok T K (mid_timer_init (map Some blocks)) \<and> schedule (mid_timer_init (map Some blocks)) = Map.empty"
  by (simp add: mid_timer_init_def fold_free TIMER_POOL_SIZE_def timers_ok_def)

lemma keys_called: "\<forall>op\<in>set ops. well_timed T op \<Longrightarrow> k \<in> set (op_keys ops) \<Longrightarrow> fst k \<noteq> 0"
  by (induction ops rule: op_keys.induct) auto

text \<open>
  C27: The timers follow their schedule.  After the start, any sequence of creations, deletions and passes that uses at most
  twenty different keys and stays a longest interval away from the wrap-around of the clock returns; every pass calls
  exactly the functions that are due, each once and in the order of their clocks, and sets them forward to the next multiple
  of their interval, counts their loops down or drops them; the running timers stay sorted and no timer is lost.
\<close>
theorem timers_follow_schedule:
  assumes "length blocks = 20" "card (set (op_keys ops)) \<le> 20" "\<forall>op\<in>set ops. well_timed T op"
  shows "\<exists>log st'. timer_run ops (mid_timer_init (map Some blocks)) = Some (log, st')
    \<and> sched_run ops Map.empty log (schedule st')
    \<and> sorted (map t_clock (timer_q_time st')) \<and> distinct (map t_key (timer_q_time st'))
    \<and> length (timer_q_pool st') + length (timer_q_time st') = 20"
  using timer_run_sched [of T "set (op_keys ops)" "mid_timer_init (map Some blocks)" ops] init_ok [OF assms(1), of T "set (op_keys ops)"]
    assms(2,3) keys_called [OF assms(3)] by (auto simp: timers_ok_def)

subsection \<open>A timer that runs once\<close>

text \<open>The calls with the time they are made at, and what an operation may not do to the timer \<open>k\<close>.\<close>

fun events :: "(timer_op \<times> u32) list \<Rightarrow> (nat \<times> nat) list list \<Rightarrow> (u32 \<times> (nat \<times> nat)) list" where
  "events ((op, now) # ops) (calls # log) = map (Pair now) calls @ events ops log"
| "events _ _ = []"

fun touches :: "nat \<times> nat \<Rightarrow> timer_op \<times> u32 \<Rightarrow> bool" where
  "touches k (TimerCreate i l f a, now) \<longleftrightarrow> k = (f, a)"
| "touches k (TimerDelete f a, now) \<longleftrightarrow> k = (f, a)"
| "touches k (TimerPass, now) \<longleftrightarrow> False"

text \<open>The first pass at or after a time.\<close>

fun first_pass :: "u32 \<Rightarrow> (timer_op \<times> u32) list \<Rightarrow> u32 option" where
  "first_pass c [] = None"
| "first_pass c ((op, now) # ops) = (if op = TimerPass \<and> c \<le> now then Some now else first_pass c ops)"

abbreviation calls_of :: "nat \<times> nat \<Rightarrow> (u32 \<times> (nat \<times> nat)) list \<Rightarrow> (u32 \<times> (nat \<times> nat)) list" where
  "calls_of k \<equiv> filter (\<lambda>e. snd e = k)"

lemma calls_of_pair: "distinct ks \<Longrightarrow> calls_of k (map (Pair now) ks) = (if k \<in> set ks then [(now, k)] else [])"
  by (induction ks) auto

lemma untouched_step:
  assumes "sched_step (op, now) m calls m1" "\<not> touches k (op, now)"
  shows "m1 k = (if op = TimerPass then after_pass now (m k) else m k)"
    "calls_of k (map (Pair now) calls) = (if op = TimerPass \<and> k \<in> due_keys now m then [(now, k)] else [])"
  using assms by (cases op; force simp: calls_of_pair)+

lemma silent_timer:
  assumes "sched_run ops m log m'" "\<not> list_ex (touches k) ops" "m k = None"
  shows "calls_of k (events ops log) = []"
  using assms
proof (induction ops arbitrary: m log)
  case (Cons op ops)
  obtain o' now where o: "op = (o', now)" by (cases op)
  obtain calls log' m1 where s: "log = calls # log'" "sched_step (o', now) m calls m1" "sched_run ops m1 log' m'"
    using Cons.prems(1) by (auto simp: o)
  have "\<not> touches k (o', now)" using Cons.prems(2) by (simp add: o)
  note u = untouched_step [OF s(2) this]
  have "m1 k = None" using u(1) Cons.prems(3) by (simp add: after_pass_def)
  moreover have "k \<notin> due_keys now m" using Cons.prems(3) by (simp add: due_keys_def)
  ultimately show ?case using Cons.IH [OF s(3)] Cons.prems(2) u(2) by (simp add: o s(1))
qed simp

lemma once_timer:
  assumes "sched_run ops m log m'" "\<not> list_ex (touches k) ops" "m k = Some (1, i, c)"
  shows "calls_of k (events ops log) = (case first_pass c ops of None \<Rightarrow> [] | Some now \<Rightarrow> [(now, k)])"
  using assms
proof (induction ops arbitrary: m log)
  case (Cons op ops)
  obtain o' now where o: "op = (o', now)" by (cases op)
  obtain calls log' m1 where s: "log = calls # log'" "sched_step (o', now) m calls m1" "sched_run ops m1 log' m'"
    using Cons.prems(1) by (auto simp: o)
  have t: "\<not> touches k (o', now)" "\<not> list_ex (touches k) ops" using Cons.prems(2) by (simp_all add: o)
  note u = untouched_step [OF s(2) t(1)]
  show ?case
  proof (cases "o' = TimerPass \<and> c \<le> now")
    case True
    then have "m1 k = None" "k \<in> due_keys now m" using u(1) Cons.prems(3) by (auto simp: after_pass_def due_keys_def)
    then show ?thesis using silent_timer [OF s(3) t(2)] u(2) True by (simp add: o s(1))
  next
    case False
    then have "m1 k = Some (1, i, c)" "\<not> (o' = TimerPass \<and> k \<in> due_keys now m)"
      using u(1) Cons.prems(3) by (auto simp: after_pass_def due_keys_def)
    then show ?thesis using Cons.IH [OF s(3) t(2)] u(2) False by (auto simp: o s(1))
  qed
qed simp

lemma sched_run_length: "sched_run ops m log m' \<Longrightarrow> length log = length ops"
  by (induction ops arbitrary: m log) auto

lemma sched_run_append:
  "sched_run (ops1 @ ops2) m log m' \<longleftrightarrow>
     (\<exists>log1 log2 m1. log = log1 @ log2 \<and> sched_run ops1 m log1 m1 \<and> sched_run ops2 m1 log2 m')"
proof (induction ops1 arbitrary: m log)
  case (Cons op ops1)
  show ?case by (auto simp: Cons.IH) (metis append_Cons)+
qed simp

text \<open>
  C28: A timer that is asked for again before it has run starts anew: after the last request for one run of a function in
  \<open>i\<close> seconds, whatever ran or was asked for before and whatever other timers there are, the function is called exactly
  once, by the first pass that comes \<open>i\<close> seconds after this request or later.  This is how the settings of the multicast
  servers are saved once, three seconds after the last change.
\<close>
theorem last_request_runs_once:
  assumes "length blocks = 20" "card (set (op_keys ops)) \<le> 20" "\<forall>op\<in>set ops. well_timed T op"
    and "ops = before @ (TimerCreate i 1 f a, t) # after" "\<not> list_ex (touches (f, a)) after"
  shows "\<exists>log1 log2 st'. timer_run ops (mid_timer_init (map Some blocks)) = Some (log1 @ [] # log2, st')
    \<and> length log1 = length before
    \<and> calls_of (f, a) (events after log2)
      = (case first_pass (t + 1000 * of_int i) after of None \<Rightarrow> [] | Some now \<Rightarrow> [(now, (f, a))])"
proof -
  obtain log st' where r: "timer_run ops (mid_timer_init (map Some blocks)) = Some (log, st')"
      "sched_run ops Map.empty log (schedule st')"
    using timer_run_sched [of T "set (op_keys ops)" "mid_timer_init (map Some blocks)" ops] init_ok [OF assms(1), of T "set (op_keys ops)"]
      assms(2,3) keys_called [OF assms(3)] by auto
  obtain log1 log2 m1 m2 where s: "log = log1 @ [] # log2" "sched_run before Map.empty log1 m1"
      "m2 = m1((f, a) \<mapsto> (of_int 1, of_int i, t + 1000 * of_int i))" "sched_run after m2 log2 (schedule st')"
    using r(2) by (auto simp: assms(4) sched_run_append)
  have "length log1 = length before" using s(2) by (rule sched_run_length)
  moreover have "m2 (f, a) = Some (1, of_int i, t + 1000 * of_int i)" by (simp add: s(3))
  ultimately show ?thesis using r(1) once_timer [OF s(4) assms(5)] s(1) by blast
qed

subsection \<open>How long the thread waits\<close>

lemma deal_loop_end:
  assumes "deal_loop now fired st = Some (calls, st')" "sorted (map t_clock (timer_q_time st))" "length fired \<le> 20"
  shows "sorted (map t_clock (timer_q_time st')) \<and> (\<forall>t\<in>set (timer_q_time st'). now < t_clock t) \<and> length calls \<le> 20"
  using assms
proof (induction now fired st rule: deal_loop.induct)
  case (1 now fired st)
  show ?case
  proof (cases "timer_q_time st")
    case Nil
    then show ?thesis using "1.prems" by (auto simp: deal_loop.simps [of now fired st])
  next
    case (Cons t ts)
    show ?thesis
    proof (cases "t_clock t \<le> now")
      case False
      then show ?thesis using "1.prems" Cons by (auto simp: deal_loop.simps [of now fired st])
    next
      case True
      then obtain st1 where f: "\<not> 20 \<le> length fired" "fire_timer now t st = Some st1"
          "deal_loop now (fired @ [(t_func t, t_arg t)]) st1 = Some (calls, st')"
        using "1.prems"(1) Cons by (auto simp: deal_loop.simps [of now fired st] TIMER_POOL_SIZE_def split: if_splits bind_splits)
      have "sorted (map t_clock (timer_q_time st1))"
        using f(2) "1.prems"(2) Cons
        by (auto simp: fire_timer_def Let_def msg_timer_dequeue_def msg_timer_queue_def msg_timer_free_def place_sorted
            split: if_splits bind_splits)
      then show ?thesis using "1.IH" [OF Cons True _ f(2)] f(1,3) by (simp add: TIMER_POOL_SIZE_def)
    qed
  qed
qed

text \<open>
  C29: After every pass the thread waits at least a millisecond and at most an hour, never beyond the next timer, and exactly
  until it when it comes within the hour; the seconds and microseconds it hands to \<^verbatim>\<open>select\<close> are this time and in range.  No
  pass calls more than the twenty functions its arrays have room for.
\<close>
theorem timer_wait_exact:
  assumes "sorted (map t_clock (timer_q_time st))" "msg_timer_deal now st = Some (calls, w, st')"
  shows "length calls \<le> 20 \<and> 0 < unat w \<and> unat w \<le> 3600000
    \<and> (\<forall>t\<in>set (timer_q_time st'). unat now + unat w \<le> unat (t_clock t))
    \<and> (unat w = 3600000 \<or> (\<exists>t\<in>set (timer_q_time st'). unat (t_clock t) = unat now + unat w))
    \<and> (case mid_timer_loop_wait w of (s, us) \<Rightarrow> unat us < 1000000 \<and> 1000000 * unat s + unat us = 1000 * unat w)"
proof -
  obtain d where d: "deal_loop now [] st = Some (calls, st')"
      "w = (let r = (case timer_q_time st' of [] \<Rightarrow> HOUR_CLOCK_NUM | t # _ \<Rightarrow> t_clock t - now)
            in if HOUR_CLOCK_NUM < r then HOUR_CLOCK_NUM else r)"
    using assms(2) by (auto simp: msg_timer_deal_def Let_def split: bind_splits if_splits)
  have e: "sorted (map t_clock (timer_q_time st'))" "\<forall>t\<in>set (timer_q_time st'). now < t_clock t" "length calls \<le> 20"
    using deal_loop_end [OF d(1) assms(1)] by auto
  have h: "unat HOUR_CLOCK_NUM = 3600000" by (simp add: HOUR_CLOCK_NUM_def)
  have wait: "0 < unat w \<and> unat w \<le> 3600000 \<and> (\<forall>t\<in>set (timer_q_time st'). unat now + unat w \<le> unat (t_clock t))
      \<and> (unat w = 3600000 \<or> (\<exists>t\<in>set (timer_q_time st'). unat (t_clock t) = unat now + unat w))"
  proof (cases "timer_q_time st'")
    case Nil
    then show ?thesis using d(2) h by simp
  next
    case (Cons t ts)
    have lt: "unat now < unat (t_clock t)" using e(2) Cons by (simp add: word_less_nat_alt)
    have diff: "unat (t_clock t - now) = unat (t_clock t) - unat now" using lt by (simp add: unat_sub word_le_nat_alt)
    have w: "unat w = min 3600000 (unat (t_clock t) - unat now)"
      using d(2) Cons h diff by (simp add: Let_def word_less_nat_alt min_def)
    have "unat (t_clock t) \<le> unat (t_clock x)" if "x \<in> set (timer_q_time st')" for x
      using e(1) Cons that by (auto simp: word_le_nat_alt)
    then show ?thesis using w lt Cons by (fastforce simp: min_def split: if_splits)
  qed
  have "unat (w div 1000) = unat w div 1000" "unat (w mod 1000) = unat w mod 1000" by (simp_all add: unat_div unat_mod)
  moreover have "unat (w mod 1000 * 1000) = unat w mod 1000 * 1000"
    using \<open>unat (w mod 1000) = unat w mod 1000\<close> by (simp add: unat_word_ariths)
  moreover have "unat w mod 1000 < 1000" "1000 * (unat w div 1000) + unat w mod 1000 = unat w" by simp_all
  ultimately have "unat (w mod 1000 * 1000) < 1000000"
      "1000000 * unat (w div 1000) + unat (w mod 1000 * 1000) = 1000 * unat w" by linarith+
  then show ?thesis using wait e(3) unfolding mid_timer_loop_wait_def prod.case by blast
qed

subsection \<open>Creations that go wrong\<close>

text \<open>
  The test of the parameters does not keep a creation from going on.  With an interval of 0 seconds, or any whose number
  of milliseconds wraps to 0, and in the last millisecond before the clock wraps around, it never returns and keeps the lock;
  with no free timer it uses a null pointer; and a timer whose interval reaches beyond the wrap-around runs before its time.
\<close>
theorem create_faults:
  "(of_int i * 1000 = (0 :: u32) \<or> clock = - 1 \<longrightarrow> mid_timer_create0 clock i l f a st = None)
    \<and> (timer_q_pool st = [] \<and> (f, a) \<notin> t_key ` set (timer_q_time st) \<longrightarrow> mid_timer_create0 clock i l f a st = None)
    \<and> (\<forall>r st'. mid_timer_create0 clock i l f a st = Some (r, st') \<and> 2 ^ 32 \<le> unat clock + 1000 * nat i \<longrightarrow>
        r = 0 \<and> (\<exists>t\<in>set (timer_q_time st'). t_key t = (f, a) \<and> clock < t_clock t \<and> unat (t_clock t) < unat clock + 1000 * nat i))"
proof (intro conjI impI allI)
  assume "of_int i * 1000 = (0 :: u32) \<or> clock = - 1"
  then have "next_clock (of_int i) clock clock = None" by (intro next_clock_hangs) auto
  then show "mid_timer_create0 clock i l f a st = None"
    by (auto simp: mid_timer_create0_def msg_timer_queue_def Let_def split: prod.splits bind_splits)
next
  assume "timer_q_pool st = [] \<and> (f, a) \<notin> t_key ` set (timer_q_time st)"
  then show "mid_timer_create0 clock i l f a st = None"
    by (simp add: mid_timer_create0_def msg_timer_dequeue_def take_timer_absent msg_timer_alloc_def)
next
  fix r st'
  assume "mid_timer_create0 clock i l f a st = Some (r, st') \<and> 2 ^ 32 \<le> unat clock + 1000 * nat i"
  then have c: "mid_timer_create0 clock i l f a st = Some (r, st')" and b: "2 ^ 32 \<le> unat clock + 1000 * nat i" by auto
  from c show "r = 0" by (auto simp: mid_timer_create0_def Let_def split: prod.splits bind_splits)
  from c obtain x q c' where x: "next_clock (of_int i) clock clock = Some c'"
      "timer_q_time st' = place_timer
         (x\<lparr>t_intval := of_int i, t_loops := of_int l, t_func := f, t_arg := a, t_clock := c'\<rparr>) q"
    by (auto simp: mid_timer_create0_def msg_timer_queue_def Let_def split: prod.splits bind_splits)
  define t where "t = x\<lparr>t_intval := of_int i, t_loops := of_int l, t_func := f, t_arg := a, t_clock := c'\<rparr>"
  have t: "next_clock (of_int i) clock clock = Some c'" "t_key t = (f, a)" "t_clock t = c'" "timer_q_time st' = place_timer t q"
    using x by (simp_all add: t_def t_key_def)
  have "clock < c'" using next_clock_gt [OF t(1)] .
  moreover have "unat c' < 2 ^ 32" using unsigned_less [of c'] by simp
  then have "unat c' < unat clock + 1000 * nat i" using b by simp
  ultimately show "\<exists>t\<in>set (timer_q_time st'). t_key t = (f, a) \<and> clock < t_clock t \<and> unat (t_clock t) < unat clock + 1000 * nat i"
    using t by auto
qed

subsection \<open>Witnesses\<close>

definition raw_timer :: msg_timer where
  "raw_timer = \<lparr>t_func = 7, t_arg = 0, t_loops = 9, t_intval = 9, t_clock = 9\<rparr>"

lemmas [code] = next_clock.simps

text \<open>The settings change twice within three seconds while another timer runs every second.\<close>

definition save_ops :: "(timer_op \<times> u32) list" where
  "save_ops = [(TimerCreate 1 0 2 5, 1000), (TimerCreate 3 1 1 0, 1500), (TimerPass, 2100), (TimerCreate 3 1 1 0, 3000),
     (TimerPass, 4500), (TimerPass, 6001), (TimerPass, 9500)]"

lemma save_ops_timed: "(\<forall>op\<in>set save_ops. well_timed 3000 op) \<and> card (set (op_keys save_ops)) \<le> 20
    \<and> save_ops = take 3 save_ops @ (TimerCreate 3 1 1 0, 3000) # drop 4 save_ops \<and> \<not> list_ex (touches (1, 0)) (drop 4 save_ops)"
  by (simp add: save_ops_def)

lemma timers_follow_schedule_witness:
  "\<exists>log st'. timer_run save_ops (mid_timer_init (map Some (replicate 20 raw_timer))) = Some (log, st')
    \<and> sched_run save_ops Map.empty log (schedule st')"
  using timers_follow_schedule [of "replicate 20 raw_timer" save_ops 3000] save_ops_timed by auto

lemma save_ops_calls:
  "map_option fst (timer_run save_ops (mid_timer_init (map Some (replicate 20 raw_timer))))
    = Some [[], [], [(2, 5)], [], [(2, 5)], [(2, 5), (1, 0)], [(2, 5)]]"
  by code_simp

lemma last_request_runs_once_witness:
  "\<exists>log1 log2 st'. timer_run save_ops (mid_timer_init (map Some (replicate 20 raw_timer))) = Some (log1 @ [] # log2, st')
    \<and> calls_of (1, 0) (events (drop 4 save_ops) log2) = [(6001, (1, 0))]"
proof -
  have "first_pass 6000 (drop 4 save_ops) = Some 6001" by (simp add: save_ops_def)
  then show ?thesis
    using last_request_runs_once [of "replicate 20 raw_timer" save_ops 3000 "take 3 save_ops" 3 1 0 3000 "drop 4 save_ops"]
      save_ops_timed by auto
qed

lemma timer_wait_exact_witness:
  "\<exists>calls w st'. msg_timer_deal 5000 \<lparr>timer_q_pool = [], timer_q_time = [raw_timer, raw_timer\<lparr>t_func := 8, t_clock := 9001\<rparr>]\<rparr>
      = Some (calls, w, st') \<and> length calls \<le> 20 \<and> 0 < unat w \<and> unat w \<le> 3600000"
proof -
  define st where "st = \<lparr>timer_q_pool = [], timer_q_time = [raw_timer, raw_timer\<lparr>t_func := 8, t_clock := 9001\<rparr>]\<rparr>"
  have "msg_timer_deal 5000 st \<noteq> None \<and> sorted (map t_clock (timer_q_time st))" unfolding st_def by code_simp
  then obtain calls w st' where d: "msg_timer_deal 5000 st = Some (calls, w, st')" and s: "sorted (map t_clock (timer_q_time st))"
    by auto
  show ?thesis using timer_wait_exact [OF s d] d unfolding st_def by blast
qed

lemma create_faults_witness:
  "mid_timer_create0 77 0 1 1 0 (mid_timer_init (map Some (replicate 20 raw_timer))) = None
    \<and> mid_timer_create0 77 3 1 1 0 \<lparr>timer_q_pool = [], timer_q_time = [raw_timer]\<rparr> = None"
  using create_faults [of 0 77 1 1 0 "mid_timer_init (map Some (replicate 20 raw_timer))"]
    create_faults [of 3 77 1 1 0 "\<lparr>timer_q_pool = [], timer_q_time = [raw_timer]\<rparr>"]
  by (simp add: t_key_def raw_timer_def)

end
