(* ===== verification/RingBuffer.thy ===== *)
theory RingBuffer
  imports Prelude
begin

section \<open>The stream ring buffer (src/reach\_edukit/src/enc/middle/mid\_ringbuff.c)\<close>

text \<open>
  A byte ring of \<open>rb_len\<close> cells with a read and a write position, used between the encoder's
  producers and its network senders.  Every public operation except \<^verbatim>\<open>mid_is_full_ringbuff\<close>
  holds the buffer's mutex from its first to its last access, so one call is one atomic step of
  the model; the mutex itself is not part of the state.  The C \<^verbatim>\<open>int\<close> fields are unbounded
  integers here (the sizes in use are far below \<open>2^31\<close>).  Results of type \<^typ>\<open>'a option\<close>
  are \<^const>\<open>None\<close> exactly where the C code would access memory outside a buffer.
\<close>

record ReachRingBuffer =
  buf :: "byte list option"
  writePos :: int
  readPos :: int
  rb_len :: int
  highWater :: int

definition MAX_BLOCK_SIZE :: int where "MAX_BLOCK_SIZE = 5 * 188"

definition VDRMGetDataSizeHelper :: "ReachRingBuffer \<Rightarrow> int" where
  "VDRMGetDataSizeHelper rb =
     (if writePos rb \<ge> readPos rb then writePos rb - readPos rb
      else rb_len rb - readPos rb + writePos rb)"

definition VDRMGetFreeSizeHelper :: "ReachRingBuffer \<Rightarrow> int" where
  "VDRMGetFreeSizeHelper rb = rb_len rb - VDRMGetDataSizeHelper rb"

text \<open>
  \<open>mid_create_ringbuff\<close> takes what its two \<^verbatim>\<open>malloc\<close> calls return: \<open>hok\<close> tells whether the
  handle was allocated, \<open>mem\<close> is the data block (\<^const>\<open>None\<close> for a null pointer).
\<close>

definition mid_create_ringbuff ::
  "bool \<Rightarrow> byte list option \<Rightarrow> int \<Rightarrow> int \<Rightarrow> ReachRingBuffer option" where
  "mid_create_ringbuff hok mem sz hw =
     (if \<not> hok then None
      else case mem of
        None \<Rightarrow> None
      | Some m \<Rightarrow> Some \<lparr>buf = Some m, writePos = 0, readPos = 0, rb_len = sz, highWater = hw\<rparr>)"

definition vrdrm_check_buff_to_ts :: "byte list \<Rightarrow> int \<Rightarrow> int \<times> int" where
  \<comment> \<open>the compiled branch: the flag 1, and \<^verbatim>\<open>*leftmove = 0\<close>\<close>
  "vrdrm_check_buff_to_ts d sz = (1, 0)"

definition mid_push_ringbuff ::
  "ReachRingBuffer \<Rightarrow> byte list \<Rightarrow> int \<Rightarrow> (int \<times> ReachRingBuffer) option" where
  "mid_push_ringbuff rb data n =
     (if VDRMGetFreeSizeHelper rb \<le> n then Some (-1, rb)
      else if writePos rb + n - 1 < rb_len rb then do {
        b \<leftarrow> buf rb;
        b' \<leftarrow> memcpy b (writePos rb) data 0 n;
        let w = writePos rb + n;
        Some (0, rb\<lparr>buf := Some b', writePos := (if w = rb_len rb then 0 else w)\<rparr>)
      } else do {
        b \<leftarrow> buf rb;
        let len1 = rb_len rb - writePos rb;
        b1 \<leftarrow> (if len1 > 0 then memcpy b (writePos rb) data 0 len1 else Some b);
        b2 \<leftarrow> (if n - len1 > 0 then memcpy b1 0 data len1 (n - len1) else Some b1);
        Some (0, rb\<lparr>buf := Some b2, writePos := n - len1\<rparr>)
      })"

text \<open>
  \<open>mid_get_ringbuff rb out needLen\<close> returns the C return value, \<^verbatim>\<open>*readLen\<close>, the caller's
  buffer after the call and the ring.
\<close>

definition mid_get_ringbuff ::
  "ReachRingBuffer \<Rightarrow> byte list \<Rightarrow> int \<Rightarrow> (int \<times> int \<times> byte list \<times> ReachRingBuffer) option" where
  "mid_get_ringbuff rb out needLen =
     (let dataSize = VDRMGetDataSizeHelper rb;
          readLen = (if dataSize \<ge> needLen then needLen else dataSize)
      in if readLen = 0 then Some (-1, readLen, out, rb)
         else if readPos rb < writePos rb then
           (if writePos rb - readPos rb \<ge> readLen then do {
              b \<leftarrow> buf rb;
              let leftmove = snd (vrdrm_check_buff_to_ts (drop (nat (readPos rb)) b) readLen);
              let readLen = readLen - leftmove;
              out' \<leftarrow> (if readLen \<noteq> 0 then memcpy out 0 b (readPos rb + leftmove) readLen
                       else Some out);
              let r = readPos rb + (readLen + leftmove);
              Some (0, readLen, out', rb\<lparr>readPos := (if r = rb_len rb then 0 else r)\<rparr>)
            } else Some (0, readLen, out, rb))
         else
           (let len1 = rb_len rb - readPos rb
            in if len1 \<ge> readLen then do {
                 b \<leftarrow> buf rb;
                 let leftmove = snd (vrdrm_check_buff_to_ts (drop (nat (readPos rb)) b) readLen);
                 let readLen = readLen - leftmove;
                 out' \<leftarrow> (if readLen \<noteq> 0 then memcpy out 0 b (readPos rb + leftmove) readLen
                          else Some out);
                 let r = readPos rb + (readLen + leftmove);
                 Some (0, readLen, out', rb\<lparr>readPos := (if r = rb_len rb then 0 else r)\<rparr>)
               } else do {
                 b \<leftarrow> buf rb;
                 let leftmove = snd (vrdrm_check_buff_to_ts (drop (nat (readPos rb)) b) len1);
                 out1 \<leftarrow> (if len1 - leftmove \<noteq> 0
                          then memcpy out 0 b (readPos rb + leftmove) (len1 - leftmove)
                          else Some out);
                 let templen = len1 - leftmove;
                 out2 \<leftarrow> (if readLen - len1 > 0 then memcpy out1 templen b 0 (readLen - len1)
                          else Some out1);
                 let readLen = readLen - leftmove;
                 let r = readLen - len1;
                 Some (0, readLen, out2, rb\<lparr>readPos := (if r = rb_len rb then 0 else r)\<rparr>)
               }))"

definition mid_get_usesize_ringbuff :: "ReachRingBuffer \<Rightarrow> int" where
  "mid_get_usesize_ringbuff rb = VDRMGetDataSizeHelper rb"

definition mid_get_freesize_ringbuff :: "ReachRingBuffer \<Rightarrow> int" where
  "mid_get_freesize_ringbuff rb = rb_len rb - VDRMGetDataSizeHelper rb"

definition mid_clear_ringbuff :: "ReachRingBuffer \<Rightarrow> ReachRingBuffer" where
  "mid_clear_ringbuff rb = rb\<lparr>writePos := 0, readPos := 0, buf := None\<rparr>"

text \<open>\<open>mem\<close> is what \<^verbatim>\<open>malloc(ringBuffer->len)\<close> returns, used only when the ring was cleared.\<close>

definition mid_reset_ringbuff ::
  "byte list option \<Rightarrow> ReachRingBuffer \<Rightarrow> int \<times> ReachRingBuffer" where
  "mid_reset_ringbuff mem rb =
     (case buf rb of
        None \<Rightarrow> (if mem = None then -1 else 0, rb\<lparr>buf := mem, writePos := 0, readPos := 0\<rparr>)
      | Some b \<Rightarrow> (0, rb\<lparr>writePos := 0, readPos := 0\<rparr>))"

definition mid_is_full_ringbuff :: "ReachRingBuffer \<Rightarrow> int" where
  "mid_is_full_ringbuff rb = (if VDRMGetFreeSizeHelper rb \<le> MAX_BLOCK_SIZE then 1 else 0)"


subsection \<open>Abstraction: the bytes waiting in the ring\<close>

definition ring_read :: "byte list \<Rightarrow> nat \<Rightarrow> nat \<Rightarrow> byte list" where
  "ring_read b r k = map (\<lambda>i. b ! ((r + i) mod length b)) [0..<k]"

definition rb_contents :: "ReachRingBuffer \<Rightarrow> byte list" where
  "rb_contents rb =
     (case buf rb of
        None \<Rightarrow> []
      | Some b \<Rightarrow> ring_read b (nat (readPos rb)) (nat (VDRMGetDataSizeHelper rb)))"

definition rb_inv :: "ReachRingBuffer \<Rightarrow> bool" where
  "rb_inv rb \<longleftrightarrow>
     (case buf rb of
        None \<Rightarrow> False
      | Some b \<Rightarrow> int (length b) = rb_len rb
          \<and> 0 \<le> readPos rb \<and> readPos rb < rb_len rb
          \<and> 0 \<le> writePos rb \<and> writePos rb < rb_len rb)"

text \<open>\<open>ring_put b w d m b'\<close>: \<open>b'\<close> is \<open>b\<close> with \<open>m\<close> cells from \<open>w\<close> on, cyclically, set to \<open>d\<close>.\<close>

definition ring_put :: "byte list \<Rightarrow> nat \<Rightarrow> byte list \<Rightarrow> nat \<Rightarrow> byte list \<Rightarrow> bool" where
  "ring_put b w d m b' \<longleftrightarrow> length b' = length b
     \<and> (\<forall>j<m. b' ! ((w + j) mod length b) = d ! j)
     \<and> (\<forall>i<length b. (\<forall>j<m. i \<noteq> (w + j) mod length b) \<longrightarrow> b' ! i = b ! i)"

lemma length_ring_read [simp]: "length (ring_read b r k) = k"
  by (simp add: ring_read_def)

lemma ring_read_nth [simp]: "i < k \<Longrightarrow> ring_read b r k ! i = b ! ((r + i) mod length b)"
  by (simp add: ring_read_def)

lemma mod_offset_neq:
  fixes a c n r :: nat
  assumes "a < c" "c < n"
  shows "(r + a) mod n \<noteq> (r + c) mod n"
proof
  assume "(r + a) mod n = (r + c) mod n"
  then have "n dvd (r + c) - (r + a)"
    using assms(1) by (metis mod_eq_dvd_iff_nat add_le_cancel_left less_imp_le)
  with assms show False
    by (auto dest: dvd_imp_le)
qed

lemma ring_read_put:
  assumes put: "ring_put b ((r + k) mod length b) d m b'" and "k + m \<le> length b" "m \<le> length d"
  shows "ring_read b' r (k + m) = ring_read b r k @ take m d"
proof (rule nth_equalityI)
  show "length (ring_read b' r (k + m)) = length (ring_read b r k @ take m d)"
    using assms(3) by simp
next
  fix i assume "i < length (ring_read b' r (k + m))"
  then have i: "i < k + m" by simp
  then have n: "0 < length b" using assms(2) by linarith
  show "ring_read b' r (k + m) ! i = (ring_read b r k @ take m d) ! i"
  proof (cases "i < k")
    case True
    have "(r + i) mod length b \<noteq> ((r + k) mod length b + j) mod length b" if "j < m" for j
      using mod_offset_neq [of i "k + j" "length b" r] that True assms(2)
      by (simp add: mod_add_left_eq add.assoc)
    with put n have "b' ! ((r + i) mod length b) = b ! ((r + i) mod length b)"
      by (simp add: ring_put_def)
    with True put show ?thesis by (simp add: nth_append ring_put_def)
  next
    case False
    then obtain j where j: "i = k + j"
      by (metis le_add_diff_inverse not_less)
    then have "(r + i) mod length b = ((r + k) mod length b + j) mod length b"
      by (simp add: mod_add_left_eq add.assoc)
    with put i j assms(3) show ?thesis
      by (simp add: nth_append ring_put_def)
  qed
qed

lemma ring_read_drop: "m \<le> k \<Longrightarrow> drop m (ring_read b r k) = ring_read b ((r + m) mod length b) (k - m)"
  by (rule nth_equalityI) (auto simp: mod_add_left_eq add.assoc)

lemma ring_read_take: "m \<le> k \<Longrightarrow> take m (ring_read b r k) = ring_read b r m"
  by (rule nth_equalityI) auto

lemma ring_read_contiguous:
  "r + m \<le> length b \<Longrightarrow> ring_read b r m = take m (drop r b)"
  by (rule nth_equalityI) auto

lemma ring_read_wrapped:
  assumes "r < length b" "length b \<le> r + m" "r + m \<le> 2 * length b"
  shows "ring_read b r m = drop r b @ take (m - (length b - r)) b"
proof (rule nth_equalityI)
  show "length (ring_read b r m) = length (drop r b @ take (m - (length b - r)) b)"
    using assms by simp
next
  fix i assume "i < length (ring_read b r m)"
  then have i: "i < m" by simp
  show "ring_read b r m ! i = (drop r b @ take (m - (length b - r)) b) ! i"
  proof (cases "r + i < length b")
    case True
    with i show ?thesis by (auto simp: nth_append)
  next
    case False
    then have "(r + i) mod length b = r + i - length b"
      using assms i by (simp add: mod_if)
    with False i assms show ?thesis
      by (auto simp: nth_append algebra_simps)
  qed
qed


subsection \<open>Writing cells\<close>

lemma ring_put_contiguous:
  assumes "w + m \<le> length b" "m < length b"
    and "memcpy b (int w) d 0 (int m) = Some b'"
  shows "ring_put b w d m b'"
proof -
  have m: "(w + j) mod length b = w + j" if "j < m" for j
    using that assms(1) by simp
  have n: "b' ! i = (if w \<le> i \<and> i < w + m then d ! (i - w) else b ! i)" if "i < length b" for i
    using memcpy_nth [of b w d 0 m b' i] assms(3) that by simp
  show ?thesis
    unfolding ring_put_def
  proof (intro conjI allI impI)
    show "length b' = length b" using assms(3) by (rule memcpy_length)
  next
    fix j assume "j < m"
    with m n assms(1) show "b' ! ((w + j) mod length b) = d ! j" by simp
  next
    fix i assume i: "i < length b" and "\<forall>j<m. i \<noteq> (w + j) mod length b"
    then have "i \<noteq> w + j" if "j < m" for j
      using that m by metis
    then have "\<not> (w \<le> i \<and> i < w + m)"
      by (metis add_less_cancel_left le_add_diff_inverse)
    with n i show "b' ! i = b ! i" by auto
  qed
qed

lemma ring_put_split:
  assumes "w < length b" "length b < w + m" "m < length b"
    and c1: "memcpy b (int w) d 0 (int (length b - w)) = Some b1"
    and c2: "memcpy b1 0 d (int (length b - w)) (int (m - (length b - w))) = Some b2"
  shows "ring_put b w d m b2"
proof -
  let ?l = "length b - w"
  have l1: "length b1 = length b" using c1 by (rule memcpy_length)
  have n1: "b1 ! i = (if w \<le> i then d ! (i - w) else b ! i)" if "i < length b" for i
    using memcpy_nth [of b w d 0 ?l b1 i] c1 that assms(1) by simp
  have n2: "b2 ! i = (if i < m - ?l then d ! (?l + i) else b1 ! i)" if "i < length b" for i
    using memcpy_nth [of b1 0 d ?l "m - ?l" b2 i] c2 that l1 by simp
  have md: "(w + j) mod length b = (if j < ?l then w + j else j - ?l)" if "j < m" for j
    using that assms(1,3) by (auto simp: mod_if)
  show ?thesis
    unfolding ring_put_def
  proof (intro conjI allI impI)
    show "length b2 = length b" using c2 l1 by (metis memcpy_length)
  next
    fix j assume "j < m"
    with md n1 n2 assms(1,2,3) show "b2 ! ((w + j) mod length b) = d ! j" by auto
  next
    fix i assume i: "i < length b" and ne: "\<forall>j<m. i \<noteq> (w + j) mod length b"
    have "\<not> w \<le> i"
    proof
      assume "w \<le> i"
      with i assms(2) have "i - w < ?l" "i - w < m" by auto
      with md [of "i - w"] \<open>w \<le> i\<close> have "i = (w + (i - w)) mod length b" by simp
      with ne \<open>i - w < m\<close> show False by blast
    qed
    moreover have "\<not> i < m - ?l"
    proof
      assume "i < m - ?l"
      then have "?l + i < m" by linarith
      with md [of "?l + i"] have "i = (w + (?l + i)) mod length b" by simp
      with ne \<open>?l + i < m\<close> show False by blast
    qed
    ultimately show "b2 ! i = b ! i" using n1 n2 i by simp
  qed
qed


subsection \<open>The operations against the abstraction\<close>

abbreviation ring :: "byte list \<Rightarrow> nat \<Rightarrow> nat \<Rightarrow> int \<Rightarrow> ReachRingBuffer" where
  "ring b r w h \<equiv> \<lparr>buf = Some b, writePos = int w, readPos = int r, rb_len = int (length b),
                   highWater = h\<rparr>"

lemma rb_inv_elim:
  assumes "rb_inv rb"
  obtains b r w h k where "rb = ring b r w h" "r < length b" "w < length b"
    "VDRMGetDataSizeHelper rb = int k" "k < length b"
    "w = (r + k) mod length b" "rb_contents rb = ring_read b r k"
proof -
  obtain b where b: "buf rb = Some b" "rb_len rb = int (length b)"
    using assms by (auto simp: rb_inv_def split: option.splits)
  define r w where "r = nat (readPos rb)" and "w = nat (writePos rb)"
  have rw: "readPos rb = int r" "writePos rb = int w" "r < length b" "w < length b"
    using assms b by (auto simp: rb_inv_def r_def w_def)
  define k where "k = (if r \<le> w then w - r else length b - r + w)"
  have k: "VDRMGetDataSizeHelper rb = int k" "k < length b" "w = (r + k) mod length b"
    using rw b(2) by (auto simp: VDRMGetDataSizeHelper_def k_def mod_if)
  then have "rb_contents rb = ring_read b r k"
    using b rw by (simp add: rb_contents_def)
  moreover have "rb = ring b r w (highWater rb)"
    using b rw by (cases rb) simp
  ultimately show thesis using that k rw by blast
qed

lemma rb_inv_ring:
  assumes "r < length b" "k < length b" "w = (r + k) mod length b"
  shows "rb_inv (ring b r w h)" and "rb_contents (ring b r w h) = ring_read b r k"
proof -
  have w: "w < length b"
    using assms mod_less_divisor [of "length b" "r + k"] by linarith
  have "w = (if r + k < length b then r + k else r + k - length b)"
    using assms by (simp add: mod_if)
  then have "VDRMGetDataSizeHelper (ring b r w h) = int k"
    using assms by (auto simp: VDRMGetDataSizeHelper_def split: if_splits)
  then show "rb_contents (ring b r w h) = ring_read b r k" by (simp add: rb_contents_def)
  show "rb_inv (ring b r w h)" using assms w by (simp add: rb_inv_def)
qed

lemma rb_contents_length:
  "rb_inv rb \<Longrightarrow> int (length (rb_contents rb)) = VDRMGetDataSizeHelper rb"
  by (erule rb_inv_elim) simp

lemma ring_put_pushed:
  assumes "r < length b" "k + m < length b" "m \<le> length d"
    and "ring_put b ((r + k) mod length b) d m b'"
  shows "rb_inv (ring b' r ((r + k + m) mod length b) h)
       \<and> rb_contents (ring b' r ((r + k + m) mod length b) h) = ring_read b r k @ take m d"
proof -
  have l: "length b' = length b" using assms(4) by (simp add: ring_put_def)
  have "ring_read b' r (k + m) = ring_read b r k @ take m d"
    using assms by (intro ring_read_put) simp_all
  then show ?thesis
    using rb_inv_ring [of r b' "k + m"] assms l by (simp add: add.assoc)
qed

lemma mid_push_ringbuff_full:
  assumes "rb_inv rb" "rb_len rb \<le> int (length (rb_contents rb)) + n"
  shows "mid_push_ringbuff rb d n = Some (-1, rb)"
  using assms rb_contents_length [OF assms(1)]
  by (simp add: mid_push_ringbuff_def VDRMGetFreeSizeHelper_def)

lemma mid_push_ringbuff_ok:
  assumes "rb_inv rb" "int (length (rb_contents rb) + m) < rb_len rb" "m \<le> length d"
  shows "\<exists>rb'. mid_push_ringbuff rb d (int m) = Some (0, rb') \<and> rb_inv rb'
           \<and> rb_contents rb' = rb_contents rb @ take m d \<and> rb_len rb' = rb_len rb"
proof -
  from assms(1) obtain b r w h k where rb: "rb = ring b r w h" and "r < length b" "w < length b"
    and sz: "VDRMGetDataSizeHelper rb = int k" and k: "k < length b" "w = (r + k) mod length b"
    and c: "rb_contents rb = ring_read b r k" by (rule rb_inv_elim)
  have km: "k + m < length b" using assms(2) c rb by simp
  have free: "\<not> VDRMGetFreeSizeHelper rb \<le> int m"
    using km sz rb by (simp add: VDRMGetFreeSizeHelper_def)
  note pushed = ring_put_pushed [OF \<open>r < length b\<close> km assms(3), folded k(2)]
  show ?thesis
  proof (cases "w + m \<le> length b")
    case True
    obtain b' where b': "memcpy b (int w) d 0 (int m) = Some b'"
      using True assms(3) memcpy_nat [of w m b 0 d] by auto
    have l: "length b' = length b" using b' by (rule memcpy_length)
    have e: "(r + k + m) mod length b = (w + m) mod length b"
      by (simp add: k(2) mod_add_left_eq)
    have md: "(r + k + m) mod length b = (if w + m = length b then 0 else w + m)"
      unfolding e using True by simp
    have "mid_push_ringbuff rb d (int m) = Some (0, ring b' r ((r + k + m) mod length b) h)"
      unfolding md mid_push_ringbuff_def using free rb b' l True by simp
    moreover have "ring_put b w d m b'"
      by (rule ring_put_contiguous [OF True _ b']) (use km in simp)
    ultimately show ?thesis
      using pushed [of b' h] l rb c by simp
  next
    case False
    let ?l = "length b - w"
    obtain b1 where b1: "memcpy b (int w) d 0 (int ?l) = Some b1"
      using False \<open>w < length b\<close> assms(3) memcpy_nat [of w ?l b 0 d] by auto
    then have l1: "length b1 = length b" by (rule memcpy_length)
    obtain b2 where b2: "memcpy b1 0 d (int ?l) (int (m - ?l)) = Some b2"
      using False \<open>w < length b\<close> assms(3) km l1 memcpy_nat [of 0 "m - ?l" b1 ?l d] by auto
    then have l2: "length b2 = length b" using l1 by (metis memcpy_length)
    have e: "(r + k + m) mod length b = (w + m) mod length b"
      by (simp add: k(2) mod_add_left_eq)
    have md: "(r + k + m) mod length b = m - ?l"
      unfolding e using False km \<open>w < length b\<close> by (auto simp: mod_if)
    have i: "int (length b) - int w = int ?l" "int m - int ?l = int (m - ?l)" "?l < m"
      using False \<open>w < length b\<close> by auto
    have "mid_push_ringbuff rb d (int m) = Some (0, ring b2 r ((r + k + m) mod length b) h)"
      unfolding md mid_push_ringbuff_def
      using free rb b1 b2 l2 False \<open>w < length b\<close> by (simp add: i Let_def del: of_nat_diff)
    moreover have "ring_put b w d m b2"
      by (rule ring_put_split [OF \<open>w < length b\<close> _ _ b1 b2]) (use km False in simp_all)
    ultimately show ?thesis
      using pushed [of b2 h] l2 rb c by simp
  qed
qed


lemma ring_advanced:
  assumes "r < length b" "k < length b" "m \<le> k" "w = (r + k) mod length b"
  shows "rb_inv (ring b ((r + m) mod length b) w h)
       \<and> rb_contents (ring b ((r + m) mod length b) w h) = drop m (ring_read b r k)"
proof -
  have "(r + m) mod length b < length b"
    using assms(1) mod_less_divisor [of "length b" "r + m"] by linarith
  moreover have "w = ((r + m) mod length b + (k - m)) mod length b"
    using assms(3,4) by (metis mod_add_left_eq le_add_diff_inverse add.assoc)
  ultimately show ?thesis
    using rb_inv_ring [of "(r + m) mod length b" b "k - m"] assms by (simp add: ring_read_drop)
qed

lemma memcpy_prefix:
  assumes "m \<le> length out" "s + m \<le> length b"
  shows "memcpy out 0 b (int s) (int m) = Some (take m (drop s b) @ drop m out)"
  using memcpy_nat [of 0 m out s b] assms by simp

lemma mid_get_ringbuff_step:
  assumes "r < length b" "k < length b" "w = (r + k) mod length b"
    and "0 < m" "m = min n k" "m \<le> length out"
  shows "mid_get_ringbuff (ring b r w h) out (int n) =
           Some (0, int m, ring_read b r m @ drop m out, ring b ((r + m) mod length b) w h)"
proof -
  have w: "w = (if r + k < length b then r + k else r + k - length b)"
    using assms by (simp add: mod_if)
  then have sz: "VDRMGetDataSizeHelper (ring b r w h) = int k"
    using assms by (auto simp: VDRMGetDataSizeHelper_def split: if_splits)
  have rl: "(if int k \<ge> int n then int n else int k) = int m" "int m \<noteq> 0" using assms(4,5) by auto
  show ?thesis
  proof (cases "r + m \<le> length b")
    case True
    then have "memcpy out 0 b (int r) (int m) = Some (ring_read b r m @ drop m out)"
      using assms(6) by (simp add: memcpy_prefix ring_read_contiguous)
    moreover have md: "(r + m) mod length b = (if r + m = length b then 0 else r + m)"
      using True by simp
    moreover have "int w - int r \<ge> int m" if "int r < int w"
      using that w assms(1,2,5) by (simp split: if_splits)
    moreover have "int (length b) - int r \<ge> int m" using True by simp
    ultimately show ?thesis
      unfolding mid_get_ringbuff_def sz Let_def rl
      by (simp add: vrdrm_check_buff_to_ts_def rl(2) assms(4))
  next
    case False
    let ?l = "length b - r"
    have c1: "memcpy out 0 b (int r) (int ?l) = Some (drop r b @ drop ?l out)"
      using memcpy_prefix [of ?l out r b] assms(1,6) False by (simp del: of_nat_diff)
    have c2: "memcpy (drop r b @ drop ?l out) (int ?l) b 0 (int (m - ?l)) =
                Some (ring_read b r m @ drop m out)"
      using memcpy_nat [of ?l "m - ?l" "drop r b @ drop ?l out" 0 b] assms False
      by (simp add: ring_read_wrapped del: of_nat_diff)
    have "m \<le> k" using assms(5) by simp
    then have "(r + m) mod length b = r + m - length b"
      using False assms(1,2) by (simp add: mod_if)
    also have "\<dots> = m - ?l" using False assms(1) by linarith
    finally have "(r + m) mod length b = m - ?l" .
    moreover have "int (length b) - int r = int ?l" "int m - int ?l = int (m - ?l)"
      "\<not> int ?l \<ge> int m" "int (m - ?l) > 0" "int (m - ?l) \<noteq> int (length b)" "\<not> int r < int w"
      using False assms w by (auto split: if_splits)
    ultimately show ?thesis
      unfolding mid_get_ringbuff_def sz Let_def rl
      using c1 c2 assms(1) by (simp add: vrdrm_check_buff_to_ts_def rl(2) assms(4) del: of_nat_diff)
  qed
qed

lemma mid_get_ringbuff_ok:
  assumes "rb_inv rb" "m = min n (length (rb_contents rb))" "0 < m" "m \<le> length out"
  shows "\<exists>rb'. mid_get_ringbuff rb out (int n) =
             Some (0, int m, take m (rb_contents rb) @ drop m out, rb')
           \<and> rb_inv rb' \<and> rb_contents rb' = drop m (rb_contents rb) \<and> rb_len rb' = rb_len rb"
proof -
  from assms(1) obtain b r w h k where rb: "rb = ring b r w h" and "r < length b"
    and k: "k < length b" "w = (r + k) mod length b" and c: "rb_contents rb = ring_read b r k"
    by (rule rb_inv_elim)
  have m: "m = min n k" "m \<le> k" using assms(2) c by simp_all
  have "mid_get_ringbuff rb out (int n) =
      Some (0, int m, ring_read b r m @ drop m out, ring b ((r + m) mod length b) w h)"
    unfolding rb by (rule mid_get_ringbuff_step) (use k m assms \<open>r < length b\<close> in simp_all)
  then show ?thesis
    using ring_advanced [OF \<open>r < length b\<close> k(1) m(2) k(2), of h] m c rb
    by (simp add: ring_read_take)
qed

lemma mid_get_ringbuff_none:
  assumes "rb_inv rb" "rb_contents rb = [] \<or> n = 0"
  shows "mid_get_ringbuff rb out (int n) = Some (-1, 0, out, rb)"
proof -
  have "VDRMGetDataSizeHelper rb = int (length (rb_contents rb))"
    using rb_contents_length [OF assms(1)] by simp
  with assms(2) show ?thesis by (auto simp: mid_get_ringbuff_def Let_def)
qed


subsection \<open>The contract of a byte FIFO\<close>

text \<open>
  What the producer and the consumer of a ring rely on, stated over an abstract queue type: a
  push is taken whole or refused without a change, a get removes a prefix of the waiting bytes.
\<close>

datatype fifo_op = Push "byte list" | Get nat

fun fifo_run ::
  "('q \<Rightarrow> byte list \<Rightarrow> int \<Rightarrow> (int \<times> 'q) option)
   \<Rightarrow> ('q \<Rightarrow> byte list \<Rightarrow> int \<Rightarrow> (int \<times> int \<times> byte list \<times> 'q) option)
   \<Rightarrow> 'q \<Rightarrow> fifo_op list \<Rightarrow> (byte list \<times> byte list \<times> 'q) option" where
  "fifo_run push get q [] = Some ([], [], q)"
| "fifo_run push get q (Push d # ops) =
     (case push q d (int (length d)) of
        None \<Rightarrow> None
      | Some (ret, q1) \<Rightarrow>
          (case fifo_run push get q1 ops of
             None \<Rightarrow> None
           | Some (acc, del, q2) \<Rightarrow> Some ((if ret = 0 then d else []) @ acc, del, q2)))"
| "fifo_run push get q (Get n # ops) =
     (case get q (replicate n 0) (int n) of
        None \<Rightarrow> None
      | Some (ret, m, out, q1) \<Rightarrow>
          (case fifo_run push get q1 ops of
             None \<Rightarrow> None
           | Some (acc, del, q2) \<Rightarrow> Some (acc, (if ret = 0 then take (nat m) out else []) @ del, q2)))"

locale byte_fifo =
  fixes push :: "'q \<Rightarrow> byte list \<Rightarrow> int \<Rightarrow> (int \<times> 'q) option"
    and get :: "'q \<Rightarrow> byte list \<Rightarrow> int \<Rightarrow> (int \<times> int \<times> byte list \<times> 'q) option"
    and contents :: "'q \<Rightarrow> byte list"
    and inv :: "'q \<Rightarrow> bool"
    and capacity :: "'q \<Rightarrow> int"
  assumes push_taken:
    "inv q \<Longrightarrow> int (length (contents q) + m) < capacity q \<Longrightarrow> m \<le> length d \<Longrightarrow>
       \<exists>q'. push q d (int m) = Some (0, q') \<and> inv q'
         \<and> contents q' = contents q @ take m d \<and> capacity q' = capacity q"
    and push_refused:
    "inv q \<Longrightarrow> capacity q \<le> int (length (contents q)) + z \<Longrightarrow> push q d z = Some (-1, q)"
    and get_taken:
    "inv q \<Longrightarrow> m = min n (length (contents q)) \<Longrightarrow> 0 < m \<Longrightarrow> m \<le> length out \<Longrightarrow>
       \<exists>q'. get q out (int n) = Some (0, int m, take m (contents q) @ drop m out, q') \<and> inv q'
         \<and> contents q' = drop m (contents q) \<and> capacity q' = capacity q"
    and get_nothing:
    "inv q \<Longrightarrow> contents q = [] \<or> n = 0 \<Longrightarrow> get q out (int n) = Some (-1, 0, out, q)"
begin

lemma push_total:
  assumes "inv q"
  obtains ret q1 where "push q d (int (length d)) = Some (ret, q1)" "inv q1"
    "contents q1 = contents q @ (if ret = 0 then d else [])" "capacity q1 = capacity q"
proof (cases "int (length (contents q) + length d) < capacity q")
  case True
  then show thesis
    using push_taken [OF assms True, of d] that by fastforce
next
  case False
  then have "push q d (int (length d)) = Some (-1, q)"
    by (intro push_refused) (use assms in simp_all)
  then show thesis using that assms by simp
qed

lemma get_total:
  assumes "inv q"
  obtains ret m out q1 where "get q (replicate n 0) (int n) = Some (ret, m, out, q1)" "inv q1"
    "contents q = (if ret = 0 then take (nat m) out else []) @ contents q1"
    "capacity q1 = capacity q"
proof (cases "contents q = [] \<or> n = 0")
  case True
  then show thesis using get_nothing [OF assms True] that assms by fastforce
next
  case False
  let ?m = "min n (length (contents q))"
  have "0 < ?m" using False by simp
  then obtain q1 where
    g: "get q (replicate n 0) (int n) =
         Some (0, int ?m, take ?m (contents q) @ drop ?m (replicate n 0), q1)"
    "inv q1" "contents q1 = drop ?m (contents q)" "capacity q1 = capacity q"
    using get_taken [OF assms refl, of n "replicate n 0"] by auto
  show thesis
    by (rule that [OF g(1,2)]) (simp_all add: g(3,4))
qed

theorem stream_intact:
  assumes "inv q"
  shows "\<exists>acc del q'. fifo_run push get q ops = Some (acc, del, q') \<and> inv q'
           \<and> contents q @ acc = del @ contents q' \<and> capacity q' = capacity q"
  using assms
proof (induction ops arbitrary: q)
  case Nil
  then show ?case by simp
next
  case (Cons op ops)
  show ?case
  proof (cases op)
    case (Push d)
    obtain ret q1 where p: "push q d (int (length d)) = Some (ret, q1)" "inv q1"
      "contents q1 = contents q @ (if ret = 0 then d else [])" "capacity q1 = capacity q"
      using Cons.prems by (rule push_total)
    from Cons.IH [OF p(2)] Push p show ?thesis by fastforce
  next
    case (Get n)
    obtain ret m out q1 where g: "get q (replicate n 0) (int n) = Some (ret, m, out, q1)" "inv q1"
      "contents q = (if ret = 0 then take (nat m) out else []) @ contents q1"
      "capacity q1 = capacity q"
      using Cons.prems by (rule get_total)
    from Cons.IH [OF g(2)] Get g show ?thesis by fastforce
  qed
qed

end

interpretation ring_fifo: byte_fifo mid_push_ringbuff mid_get_ringbuff rb_contents rb_inv rb_len
  by unfold_locales
    (auto intro: mid_push_ringbuff_ok mid_push_ringbuff_full mid_get_ringbuff_ok
       mid_get_ringbuff_none)

subsection \<open>Properties\<close>

text \<open>
  C35: no byte is lost, duplicated, reordered or made up.  On a newly created ring, whatever
  sequence of \<^verbatim>\<open>mid_push_ringbuff\<close> and \<^verbatim>\<open>mid_get_ringbuff\<close> calls runs, no call accesses memory
  outside its buffers, and the bytes of the accepted pushes are exactly the bytes handed out by the
  gets followed by the bytes still in the ring.
\<close>

theorem ring_stream_intact:
  assumes "mem \<noteq> []"
  shows "\<exists>rb acc del rb'. mid_create_ringbuff True (Some mem) (int (length mem)) hw = Some rb
           \<and> fifo_run mid_push_ringbuff mid_get_ringbuff rb ops = Some (acc, del, rb')
           \<and> acc = del @ rb_contents rb' \<and> int (length (rb_contents rb')) < int (length mem)"
proof -
  have c: "mid_create_ringbuff True (Some mem) (int (length mem)) hw = Some (ring mem 0 0 hw)"
    by (simp add: mid_create_ringbuff_def)
  have i: "rb_inv (ring mem 0 0 hw)" "rb_contents (ring mem 0 0 hw) = []"
    using rb_inv_ring [of 0 mem 0 0 hw] assms by (simp_all add: ring_read_def)
  obtain acc del rb' where
    r: "fifo_run mid_push_ringbuff mid_get_ringbuff (ring mem 0 0 hw) ops = Some (acc, del, rb')"
    "rb_inv rb'" "rb_contents (ring mem 0 0 hw) @ acc = del @ rb_contents rb'"
    "rb_len rb' = rb_len (ring mem 0 0 hw)"
    using ring_fifo.stream_intact [OF i(1), of ops] by blast
  have "int (length (rb_contents rb')) < rb_len rb'"
    using r(2) by (auto elim!: rb_inv_elim)
  with c i(2) r show ?thesis by simp
qed

theorem ring_stream_intact_witness:
  "\<exists>rb acc del rb'. mid_create_ringbuff True (Some [0, 0, 0, 0]) 4 80 = Some rb
     \<and> fifo_run mid_push_ringbuff mid_get_ringbuff rb
         [Push [1, 2, 3], Get 2, Push [4, 5], Push [6], Get 3] = Some (acc, del, rb')
     \<and> acc = del @ rb_contents rb'"
  using ring_stream_intact [of "[0, 0, 0, 0]" 80
      "[Push [1, 2, 3], Get 2, Push [4, 5], Push [6], Get 3]"]
  by auto

text \<open>
  A push refines an all-or-nothing append.  On a well-formed ring, a push that leaves at least
  one cell free appends its bytes and keeps the ring well-formed, across the wrap-around as
  well; any other push returns -1 and changes nothing.
\<close>

theorem mid_push_ringbuff_refines:
  assumes "rb_inv rb" "m \<le> length d"
  shows "if int (length (rb_contents rb) + m) < rb_len rb
         then \<exists>rb'. mid_push_ringbuff rb d (int m) = Some (0, rb') \<and> rb_inv rb'
                \<and> rb_contents rb' = rb_contents rb @ take m d
         else mid_push_ringbuff rb d (int m) = Some (-1, rb)"
  using mid_push_ringbuff_ok [OF assms(1) _ assms(2)] mid_push_ringbuff_full [OF assms(1)]
  by auto

theorem mid_push_ringbuff_refines_witness:
  "\<exists>rb'. mid_push_ringbuff (ring [9, 8, 7, 6] 3 1 80) [5] 1 = Some (0, rb') \<and> rb_inv rb'
     \<and> rb_contents rb' = [6, 9, 5]"
proof -
  have "rb_inv (ring [9, 8, 7, 6] 3 1 80)" "rb_contents (ring [9, 8, 7, 6] 3 1 80) = [6, 9]"
    by (simp_all add: rb_inv_def rb_contents_def VDRMGetDataSizeHelper_def ring_read_def
        upt_rec numeral_2_eq_2)
  with mid_push_ringbuff_refines [of "ring [9, 8, 7, 6] 3 1 80" 1 "[5]"] show ?thesis by simp
qed

text \<open>
  A get refines taking a prefix.  On a well-formed ring and a caller's buffer that is large
  enough, \<^verbatim>\<open>mid_get_ringbuff\<close> stores the first \<open>min needLen size\<close> waiting bytes at the start of
  the buffer, leaves the rest of the buffer and the remaining bytes as they were, and reports that
  length; with nothing to hand out it returns -1 and changes nothing.
\<close>

theorem mid_get_ringbuff_refines:
  assumes "rb_inv rb" "m = min n (length (rb_contents rb))" "m \<le> length out"
  shows "if m = 0 then mid_get_ringbuff rb out (int n) = Some (-1, 0, out, rb)
         else \<exists>rb'. mid_get_ringbuff rb out (int n) =
                  Some (0, int m, take m (rb_contents rb) @ drop m out, rb')
                \<and> rb_inv rb' \<and> rb_contents rb' = drop m (rb_contents rb)"
proof (cases "m = 0")
  case True
  then have "rb_contents rb = [] \<or> n = 0" using assms(2) by (auto simp: min_def split: if_splits)
  with True show ?thesis using mid_get_ringbuff_none [OF assms(1)] by simp
next
  case False
  with mid_get_ringbuff_ok [OF assms(1,2) _ assms(3)] show ?thesis by auto
qed

theorem mid_get_ringbuff_refines_witness:
  "\<exists>rb'. mid_get_ringbuff (ring [9, 8, 7, 6] 3 1 80) [0, 0, 0] 2 = Some (0, 2, [6, 9, 0], rb')
     \<and> rb_inv rb' \<and> rb_contents rb' = []"
proof -
  have "rb_inv (ring [9, 8, 7, 6] 3 1 80)" "rb_contents (ring [9, 8, 7, 6] 3 1 80) = [6, 9]"
    by (simp_all add: rb_inv_def rb_contents_def VDRMGetDataSizeHelper_def ring_read_def
        upt_rec numeral_2_eq_2)
  with mid_get_ringbuff_refines [of "ring [9, 8, 7, 6] 3 1 80" 2 2 "[0, 0, 0]"] show ?thesis
    by simp
qed

text \<open>
  Clearing releases the block.  After \<^verbatim>\<open>mid_clear_ringbuff\<close> the ring reports no data and
  all its cells free, yet a push that fits would copy through a null pointer; only
  \<^verbatim>\<open>mid_reset_ringbuff\<close> with a fresh block makes the ring usable again, and empty.
\<close>

theorem ring_clear_needs_reset:
  assumes "rb_inv rb" "0 \<le> n" "n < rb_len rb" "length mem = nat (rb_len rb)"
  shows "mid_get_usesize_ringbuff (mid_clear_ringbuff rb) = 0
       \<and> mid_get_freesize_ringbuff (mid_clear_ringbuff rb) = rb_len rb
       \<and> mid_push_ringbuff (mid_clear_ringbuff rb) d n = None
       \<and> fst (mid_reset_ringbuff (Some mem) (mid_clear_ringbuff rb)) = 0
       \<and> rb_inv (snd (mid_reset_ringbuff (Some mem) (mid_clear_ringbuff rb)))
       \<and> rb_contents (snd (mid_reset_ringbuff (Some mem) (mid_clear_ringbuff rb))) = []"
proof -
  have "0 < rb_len rb" using assms(2,3) by simp
  with assms(2,3,4) show ?thesis
    by (simp add: mid_get_usesize_ringbuff_def mid_get_freesize_ringbuff_def mid_clear_ringbuff_def
        VDRMGetDataSizeHelper_def VDRMGetFreeSizeHelper_def mid_push_ringbuff_def
        mid_reset_ringbuff_def rb_inv_def rb_contents_def ring_read_def)
qed

theorem ring_clear_needs_reset_witness:
  "mid_push_ringbuff (mid_clear_ringbuff (ring [9, 8, 7, 6] 3 1 80)) [5] 1 = None"
proof -
  have "rb_inv (ring [9, 8, 7, 6] 3 1 80)" by (simp add: rb_inv_def)
  then show ?thesis
    using ring_clear_needs_reset [of "ring [9, 8, 7, 6] 3 1 80" 1 "[0, 0, 0, 0]" "[5]"] by simp
qed

end
