(* ===== verification/TimeoutQueue.thy ===== *)
theory TimeoutQueue
  imports Prelude
begin

section \<open>Pending-request and upload tables (src/reach\_edukit/src/control/timeout\_process.c)\<close>

text \<open>
  The control process keeps two fixed tables of slots.  \<^verbatim>\<open>timeout_que\<close> holds the requests that
  were forwarded to a classroom and wait for their response: the requesting thread adds a slot
  and polls it, the thread that receives the response finds and deletes it.  \<^verbatim>\<open>file_que\<close> holds the
  running uploads.  Both keep a flag per slot (\<^verbatim>\<open>con_link\<close>), the slot's record and a counter.

  Each operation runs under the table's mutex from its first to its last access, so a call is one
  step of the model and interleavings of threads are sequences of calls.  A table pointer is an
  \<^typ>\<open>'a option\<close>, \<^const>\<open>None\<close> for \<^verbatim>\<open>NULL\<close>, because every operation tests it.  \<^verbatim>\<open>usercnt\<close>
  and the flags are 32-bit words; \<^verbatim>\<open>usercnt--\<close> wraps.  An arrays-of-bytes result of
  \<^const>\<open>None\<close> is a \<^verbatim>\<open>strcpy\<close> past the end of its array.
\<close>

definition TIMEOUT_QUE_LENGTH :: nat where "TIMEOUT_QUE_LENGTH = 20"
definition TIMEOUT_WAIT_MAX_SECOND :: u32 where "TIMEOUT_WAIT_MAX_SECOND = 10"
definition FILE_QUE_LENGTH :: nat where "FILE_QUE_LENGTH = 64"
definition MSGCODE_RECORD_CONTROL :: int where "MSGCODE_RECORD_CONTROL = 30010"
definition FTP_COM_MAX_FILENAME_LENGTH :: nat where "FTP_COM_MAX_FILENAME_LENGTH = 1024"
definition RECORD_ID_MAX_LENGTH :: nat where "RECORD_ID_MAX_LENGTH = 128 + 2"
definition FTP_MAX_FTPPATH_LENGTH :: nat where "FTP_MAX_FTPPATH_LENGTH = 512"

datatype platform_em =
    MediaCenter | ManagePlatform | IpadUser | RecServer | LiveNode | ComControl | Mp4Repair
  | WebCtrl | Director | NetControl | ThirdControl | AllPlatform | InvalidPlatform

record timeout_user =
  enable :: u32
  platform :: platform_em
  msgcode :: int
  roomid :: int
  userid :: int
  ipaddr :: "byte list"

record timeout_que =
  usercnt :: u32
  con_link :: "u32 list"
  user :: "timeout_user list"

subsection \<open>The request table\<close>

definition timeout_que_init :: "timeout_que option \<Rightarrow> int \<times> timeout_que option" where
  "timeout_que_init ptimeq =
     (case ptimeq of
        None \<Rightarrow> (-1, None)
      | Some q \<Rightarrow> (0, Some (q\<lparr>usercnt := 0, con_link := map (\<lambda>_. 0) (con_link q),
          user := map (\<lambda>u. u\<lparr>enable := 0, msgcode := -1, userid := -1, roomid := -1,
                           platform := InvalidPlatform\<rparr>) (user q)\<rparr>)))"

definition timeout_que_all_cleanup :: "timeout_que option \<Rightarrow> int \<times> timeout_que option" where
  "timeout_que_all_cleanup ptimeq =
     (case ptimeq of
        None \<Rightarrow> (-1, None)
      | Some q \<Rightarrow> (0, Some (q\<lparr>usercnt := 0, con_link := map (\<lambda>_. 0) (con_link q),
          user := map (\<lambda>u. u\<lparr>platform := InvalidPlatform, msgcode := -1, enable := 0,
                           userid := -1\<rparr>) (user q)\<rparr>)))"

definition timeout_que_add_user ::
  "platform_em \<Rightarrow> int \<Rightarrow> int \<Rightarrow> timeout_que option \<Rightarrow> int \<times> timeout_que option" where
  "timeout_que_add_user p mc uid ptimeq =
     (case ptimeq of
        None \<Rightarrow> (-1, None)
      | Some q \<Rightarrow>
          (case find (\<lambda>i. con_link q ! i = 0) [0..<TIMEOUT_QUE_LENGTH] of
             Some i \<Rightarrow> (int i, Some (q\<lparr>con_link := (con_link q)[i := 1], usercnt := usercnt q + 1,
               user := (user q)[i := (user q ! i)\<lparr>enable := 1, platform := p, msgcode := mc,
                                                userid := uid\<rparr>]\<rparr>))
           | None \<Rightarrow> (-1, snd (timeout_que_all_cleanup ptimeq))))"

definition timeout_que_add_user2 ::
  "platform_em \<Rightarrow> int \<Rightarrow> int \<Rightarrow> int \<Rightarrow> timeout_que option \<Rightarrow> int \<times> timeout_que option" where
  "timeout_que_add_user2 p mc uid rid ptimeq =
     (case ptimeq of
        None \<Rightarrow> (-1, None)
      | Some q \<Rightarrow>
          if mc \<noteq> MSGCODE_RECORD_CONTROL then (-1, ptimeq)
          else (case find (\<lambda>i. con_link q ! i = 0) [0..<TIMEOUT_QUE_LENGTH] of
             Some i \<Rightarrow> (int i, Some (q\<lparr>con_link := (con_link q)[i := 1], usercnt := usercnt q + 1,
               user := (user q)[i := (user q ! i)\<lparr>enable := 1, platform := p, msgcode := mc,
                                                userid := uid, roomid := rid\<rparr>]\<rparr>))
           | None \<Rightarrow> (-1, snd (timeout_que_all_cleanup ptimeq))))"

definition timeout_que_del_user :: "int \<Rightarrow> timeout_que option \<Rightarrow> int \<times> timeout_que option" where
  "timeout_que_del_user user_index ptimeq =
     (case ptimeq of
        None \<Rightarrow> (-1, None)
      | Some q \<Rightarrow>
          if user_index < 0 \<or> user_index \<ge> int TIMEOUT_QUE_LENGTH then (-1, ptimeq)
          else let i = nat user_index in
            (0, Some (q\<lparr>user := (user q)[i := (user q ! i)\<lparr>platform := InvalidPlatform,
                                              msgcode := -1, enable := 0, userid := -1\<rparr>],
                        con_link := (con_link q)[i := 0], usercnt := usercnt q - 1\<rparr>)))"

definition timeout_match :: "platform_em \<Rightarrow> int \<Rightarrow> int \<Rightarrow> timeout_user \<Rightarrow> bool" where
  "timeout_match p mc uid u \<longleftrightarrow>
     (if p \<noteq> LiveNode then enable u = 1 \<and> platform u = p \<and> msgcode u = mc
      else enable u = 1 \<and> platform u = p \<and> msgcode u = mc \<and> userid u = uid)"

definition timeout_que_find_user :: "platform_em \<Rightarrow> int \<Rightarrow> int \<Rightarrow> timeout_que option \<Rightarrow> int" where
  "timeout_que_find_user p mc uid ptimeq =
     (case ptimeq of
        None \<Rightarrow> -1
      | Some q \<Rightarrow>
          (case find (\<lambda>i. timeout_match p mc uid (user q ! i)) [0..<TIMEOUT_QUE_LENGTH] of
             Some i \<Rightarrow> int i
           | None \<Rightarrow> -1))"

text \<open>\<open>out\<close> is \<^verbatim>\<open>*out_userid\<close> (\<^const>\<open>None\<close> for a null pointer); it is written on one branch only.\<close>

definition timeout_que_find_user2 ::
  "platform_em \<Rightarrow> int \<Rightarrow> int \<Rightarrow> int \<Rightarrow> int option \<Rightarrow> timeout_que option \<Rightarrow> int \<times> int option" where
  "timeout_que_find_user2 p mc uid rid out ptimeq =
     (case ptimeq of
        None \<Rightarrow> (-1, out)
      | Some q \<Rightarrow>
          if mc \<noteq> MSGCODE_RECORD_CONTROL \<or> out = None then (-1, out)
          else if p \<noteq> LiveNode then
            (case find (\<lambda>i. let u = user q ! i in enable u = 1 \<and> platform u = p \<and> msgcode u = mc
                              \<and> roomid u = rid) [0..<TIMEOUT_QUE_LENGTH] of
               Some i \<Rightarrow> (int i, Some (userid (user q ! i)))
             | None \<Rightarrow> (-1, out))
          else
            (case find (\<lambda>i. let u = user q ! i in enable u = 1 \<and> platform u = p \<and> msgcode u = mc
                              \<and> userid u = uid) [0..<TIMEOUT_QUE_LENGTH] of
               Some i \<Rightarrow> (int i, out)
             | None \<Rightarrow> (-1, out)))"

text \<open>
  The polling loop.  Other threads change the table between polls, so the loop reads a sequence
  of tables: \<open>qs i\<close> is the table at the \<open>i\<close>-th poll.
\<close>

fun timeout_wait_loop ::
  "(nat \<Rightarrow> timeout_que) \<Rightarrow> platform_em \<Rightarrow> int \<Rightarrow> int \<Rightarrow> nat \<Rightarrow> nat \<Rightarrow> int \<Rightarrow> int" where
  "timeout_wait_loop qs p mc uid i 0 ret = ret"
| "timeout_wait_loop qs p mc uid i (Suc count) ret =
     (if timeout_que_find_user p mc uid (Some (qs i)) < 0 then 0
      else timeout_wait_loop qs p mc uid (Suc i) count (-1))"

definition timeout_que_wait_a_moment ::
  "(nat \<Rightarrow> timeout_que) option \<Rightarrow> platform_em \<Rightarrow> int \<Rightarrow> int \<Rightarrow> u32 \<Rightarrow> int" where
  "timeout_que_wait_a_moment ptimeq p mc uid second =
     (case ptimeq of
        None \<Rightarrow> -1
      | Some qs \<Rightarrow>
          (let s = (if second > TIMEOUT_WAIT_MAX_SECOND then TIMEOUT_WAIT_MAX_SECOND else second)
           in timeout_wait_loop qs p mc uid 0 (unat (s * 40)) (-1)))"

definition timeout_que_cleanup ::
  "platform_em \<Rightarrow> int \<Rightarrow> timeout_que option \<Rightarrow> int \<times> timeout_que option" where
  "timeout_que_cleanup p uid ptimeq =
     (case ptimeq of
        None \<Rightarrow> (-1, None)
      | Some q \<Rightarrow>
          (case find (\<lambda>i. platform (user q ! i) = p \<and> userid (user q ! i) = uid)
                  [0..<TIMEOUT_QUE_LENGTH] of
             Some i \<Rightarrow> (0, Some (q\<lparr>user := (user q)[i := (user q ! i)\<lparr>platform := InvalidPlatform,
                                                            msgcode := -1, enable := 0\<rparr>],
                                  con_link := (con_link q)[i := 0], usercnt := usercnt q - 1\<rparr>))
           | None \<Rightarrow> (0, ptimeq)))"

definition timeout_add_con_user_addr ::
  "platform_em \<Rightarrow> int \<Rightarrow> byte list option \<Rightarrow> timeout_que option
   \<Rightarrow> (int \<times> timeout_que option) option" where
  "timeout_add_con_user_addr p uid addr ptimeq =
     (case (ptimeq, addr) of
        (Some q, Some a) \<Rightarrow>
          (case find (\<lambda>i. platform (user q ! i) = p \<and> userid (user q ! i) = uid)
                  [0..<TIMEOUT_QUE_LENGTH] of
             Some i \<Rightarrow> do {
               arr \<leftarrow> strcpy_to (replicate 16 0) a;
               Some (0, Some (q\<lparr>user := (user q)[i := (user q ! i)\<lparr>ipaddr := arr\<rparr>]\<rparr>)) }
           | None \<Rightarrow> Some (0, ptimeq))
      | _ \<Rightarrow> Some (-1, ptimeq))"

text \<open>\<open>timeout_get_con_user_addr\<close> returns whether the pointer is non-null and the caller's array.\<close>

definition timeout_get_con_user_addr ::
  "platform_em \<Rightarrow> int \<Rightarrow> byte list option \<Rightarrow> timeout_que option
   \<Rightarrow> (bool \<times> byte list option) option" where
  "timeout_get_con_user_addr p uid out ptimeq =
     (case (ptimeq, out) of
        (Some q, Some arr) \<Rightarrow>
          (case find (\<lambda>i. platform (user q ! i) = p \<and> userid (user q ! i) = uid)
                  [0..<TIMEOUT_QUE_LENGTH] of
             Some i \<Rightarrow> do {
               a \<leftarrow> cstr (ipaddr (user q ! i));
               arr' \<leftarrow> strcpy_to arr a;
               Some (True, Some arr') }
           | None \<Rightarrow> Some (False, out))
      | _ \<Rightarrow> Some (False, out))"

subsection \<open>The upload table\<close>

record file_user =
  f_enable :: u32
  filename :: "byte list"
  recordid :: "byte list"
  path :: "byte list"
  serverip :: "byte list"

record file_que =
  f_usercnt :: u32
  f_con_link :: "u32 list"
  f_user :: "file_user list"

definition file_user_zero :: "file_user \<Rightarrow> file_user" where
  \<comment> \<open>the four \<^verbatim>\<open>r_memset\<close> calls and \<^verbatim>\<open>enable = 0\<close>\<close>
  "file_user_zero u = u\<lparr>f_enable := 0, filename := replicate FTP_COM_MAX_FILENAME_LENGTH 0,
     recordid := replicate RECORD_ID_MAX_LENGTH 0, path := replicate FTP_MAX_FTPPATH_LENGTH 0,
     serverip := replicate 24 0\<rparr>"

definition file_que_init :: "file_que option \<Rightarrow> int \<times> file_que option" where
  "file_que_init pfileq =
     (case pfileq of
        None \<Rightarrow> (-1, None)
      | Some q \<Rightarrow> (0, Some (q\<lparr>f_usercnt := 0, f_con_link := map (\<lambda>_. 0) (f_con_link q),
                              f_user := map file_user_zero (f_user q)\<rparr>)))"

definition file_que_add_user ::
  "byte list option \<times> byte list option \<times> byte list option \<times> byte list option
   \<Rightarrow> file_que option \<Rightarrow> (int \<times> file_que option) option" where
  "file_que_add_user args pfileq =
     (case (pfileq, args) of
        (Some q, Some fn, Some rid, Some pa, Some ip) \<Rightarrow>
          (case find (\<lambda>i. f_con_link q ! i = 0) [0..<FILE_QUE_LENGTH] of
             Some i \<Rightarrow> do {
               let u = f_user q ! i;
               fn' \<leftarrow> strcpy_to (filename u) fn;
               rid' \<leftarrow> strcpy_to (recordid u) rid;
               pa' \<leftarrow> strcpy_to (path u) pa;
               ip' \<leftarrow> strcpy_to (serverip u) ip;
               Some (int i, Some (q\<lparr>f_con_link := (f_con_link q)[i := 1],
                 f_usercnt := f_usercnt q + 1,
                 f_user := (f_user q)[i := u\<lparr>f_enable := 1, filename := fn', recordid := rid',
                                            path := pa', serverip := ip'\<rparr>]\<rparr>)) }
           | None \<Rightarrow> Some (0, pfileq))
      | _ \<Rightarrow> Some (-1, pfileq))"

text \<open>The log line reads \<^verbatim>\<open>pfileq->usercnt\<close> before the null test: a null pointer is undefined.\<close>

definition file_que_del_user :: "int \<Rightarrow> file_que option \<Rightarrow> (int \<times> file_que option) option" where
  "file_que_del_user user_index pfileq =
     (case pfileq of
        None \<Rightarrow> None
      | Some q \<Rightarrow>
          if user_index < 0 \<or> user_index \<ge> int FILE_QUE_LENGTH then Some (-1, pfileq)
          else let i = nat user_index in
            Some (0, Some (q\<lparr>f_user := (f_user q)[i := file_user_zero (f_user q ! i)],
                             f_con_link := (f_con_link q)[i := 0],
                             f_usercnt := f_usercnt q - 1\<rparr>)))"

text \<open>
  \<^verbatim>\<open>strcmp\<close> of a slot's \<^verbatim>\<open>recordid\<close> array with the searched string: equal when the array holds
  exactly that string.
\<close>

definition file_que_find_user :: "file_que option \<Rightarrow> byte list option \<Rightarrow> int" where
  "file_que_find_user pfileq rid =
     (case (pfileq, rid) of
        (Some q, Some r) \<Rightarrow>
          (case find (\<lambda>i. f_enable (f_user q ! i) = 1 \<and> cstr (recordid (f_user q ! i)) = Some r)
                  [0..<FILE_QUE_LENGTH] of
             Some i \<Rightarrow> int i
           | None \<Rightarrow> -1)
      | _ \<Rightarrow> -1)"

definition file_que_get_user :: "file_que option \<Rightarrow> int \<Rightarrow> file_user option" where
  "file_que_get_user pfileq user_index =
     (case pfileq of
        None \<Rightarrow> None
      | Some q \<Rightarrow>
          if user_index < 0 \<or> user_index \<ge> int FILE_QUE_LENGTH then None
          else Some (f_user q ! nat user_index))"

subsection \<open>The contract of a slot table\<close>

definition used_slots :: "u32 list \<Rightarrow> nat" where
  "used_slots l = length (filter (\<lambda>x. x = 1) l)"

definition slots_ok :: "u32 list \<Rightarrow> u32 \<Rightarrow> bool" where
  "slots_ok l c \<longleftrightarrow> set l \<subseteq> {0, 1} \<and> unat c = used_slots l"

lemma used_slots_update:
  assumes "i < length l"
  shows "used_slots (l[i := v]) + (if l ! i = 1 then 1 else 0) =
         used_slots l + (if v = 1 then 1 else 0)"
proof -
  have "l = take i l @ l ! i # drop (Suc i) l"
    using assms by (simp add: id_take_nth_drop)
  then have "used_slots l = used_slots (take i l) + used_slots (l ! i # drop (Suc i) l)"
    by (metis (no_types, lifting) filter_append length_append used_slots_def)
  moreover have "used_slots (l[i := v]) = used_slots (take i l) + used_slots (v # drop (Suc i) l)"
    using assms by (simp add: upd_conv_take_nth_drop used_slots_def)
  ultimately show ?thesis by (simp add: used_slots_def)
qed

lemma used_slots_le: "used_slots l \<le> length l"
  by (simp add: used_slots_def)

lemma used_slots_pos: "i < length l \<Longrightarrow> l ! i = 1 \<Longrightarrow> 0 < used_slots l"
  using used_slots_update [of i l 0] by simp

lemma unat_succ_u32: "unat (c :: u32) < n \<Longrightarrow> n < 2 ^ 32 \<Longrightarrow> unat (c + 1) = Suc (unat c)"
  by (simp add: unat_word_ariths)

lemma unat_pred_u32: "0 < unat (c :: u32) \<Longrightarrow> unat (c - 1) = unat c - 1"
  by (metis unat_minus_one unat_eq_zero less_numeral_extra(3))

locale slot_table =
  fixes slots :: nat
    and link :: "'q \<Rightarrow> u32 list"
    and cnt :: "'q \<Rightarrow> u32"
    and shape :: "'q \<Rightarrow> bool"
    and valid :: "'a \<Rightarrow> bool"
    and add :: "'a \<Rightarrow> 'q \<Rightarrow> (int \<times> 'q) option"
    and del :: "int \<Rightarrow> 'q \<Rightarrow> (int \<times> 'q) option"
  assumes slots_bound: "slots < 2 ^ 32"
    and shape_length: "shape q \<Longrightarrow> length (link q) = slots"
    and add_slot: "shape q \<Longrightarrow> valid a \<Longrightarrow> find (\<lambda>i. link q ! i = 0) [0..<slots] = Some i \<Longrightarrow>
       \<exists>q'. add a q = Some (int i, q') \<and> shape q' \<and> link q' = (link q)[i := 1]
         \<and> cnt q' = cnt q + 1"
    and del_slot: "shape q \<Longrightarrow> i < slots \<Longrightarrow>
       \<exists>q'. del (int i) q = Some (0, q') \<and> shape q' \<and> link q' = (link q)[i := 0]
         \<and> cnt q' = cnt q - 1"
begin

lemma add_keeps:
  assumes "shape q" "slots_ok (link q) (cnt q)" "valid a"
    and free: "find (\<lambda>i. link q ! i = 0) [0..<slots] = Some i"
  shows "\<exists>q'. add a q = Some (int i, q') \<and> shape q' \<and> slots_ok (link q') (cnt q')
           \<and> link q' = (link q)[i := 1] \<and> i < slots \<and> link q ! i = 0"
proof -
  have i: "i < length (link q)" "link q ! i = 0"
    using free shape_length [OF assms(1)] by (simp_all add: find_upt_Some)
  have u: "used_slots ((link q)[i := 1]) = Suc (used_slots (link q))"
    using used_slots_update [of i "link q" 1] i by simp
  with i assms(2) have "unat (cnt q) < slots"
    using used_slots_le [of "(link q)[i := 1]"] shape_length [OF assms(1)]
    by (simp add: slots_ok_def)
  then have "unat (cnt q + 1) = Suc (unat (cnt q))"
    using slots_bound by (rule unat_succ_u32)
  moreover obtain q' where "add a q = Some (int i, q')" "shape q'" "link q' = (link q)[i := 1]"
    "cnt q' = cnt q + 1"
    using add_slot [OF assms(1,3) free] by blast
  moreover have "set ((link q)[i := 1]) \<subseteq> {0, 1}"
    using assms(2) set_update_subset_insert [of "link q" i 1] by (auto simp: slots_ok_def)
  ultimately show ?thesis
    using i u assms(2) shape_length [OF assms(1)] by (simp add: slots_ok_def)
qed

lemma del_keeps:
  assumes "shape q" "slots_ok (link q) (cnt q)" "i < slots" "link q ! i = 1"
  shows "\<exists>q'. del (int i) q = Some (0, q') \<and> shape q' \<and> slots_ok (link q') (cnt q')
           \<and> link q' = (link q)[i := 0]"
proof -
  have l: "i < length (link q)" using assms(3) shape_length [OF assms(1)] by simp
  then have "used_slots ((link q)[i := 0]) = used_slots (link q) - 1" "0 < used_slots (link q)"
    using used_slots_update [of i "link q" 0] used_slots_pos [OF l assms(4)] assms(4) by simp_all
  moreover from this have "unat (cnt q - 1) = unat (cnt q) - 1"
    using assms(2) by (intro unat_pred_u32) (simp add: slots_ok_def)
  moreover have "set ((link q)[i := 0]) \<subseteq> {0, 1}"
    using assms(2) set_update_subset_insert [of "link q" i 0] by (auto simp: slots_ok_def)
  ultimately show ?thesis
    using del_slot [OF assms(1,3)] assms(2) by (fastforce simp: slots_ok_def)
qed

lemma add_del_undo:
  assumes "shape q" "slots_ok (link q) (cnt q)" "valid a"
    and free: "find (\<lambda>i. link q ! i = 0) [0..<slots] = Some i"
  shows "\<exists>q1 q2. add a q = Some (int i, q1) \<and> del (int i) q1 = Some (0, q2) \<and> shape q2
           \<and> link q2 = link q \<and> cnt q2 = cnt q"
proof -
  have i: "i < slots" "link q ! i = 0" using free by (simp_all add: find_upt_Some)
  obtain q1 where q1: "add a q = Some (int i, q1)" "shape q1" "link q1 = (link q)[i := 1]"
    "cnt q1 = cnt q + 1"
    using add_slot [OF assms(1,3) free] by blast
  obtain q2 where "del (int i) q1 = Some (0, q2)" "shape q2" "link q2 = (link q1)[i := 0]"
    "cnt q2 = cnt q1 - 1"
    using del_slot [OF q1(2) i(1)] by blast
  with q1 i show ?thesis by (metis add_diff_cancel list_update_id list_update_overwrite)
qed

text \<open>Two deletions of one slot: the counter is off by one, and wraps when the slot was the last.\<close>

lemma del_twice:
  assumes "shape q" "i < slots"
  shows "\<exists>q1 q2. del (int i) q = Some (0, q1) \<and> del (int i) q1 = Some (0, q2) \<and> shape q2
           \<and> link q2 = (link q)[i := 0] \<and> cnt q2 = cnt q - 2"
proof -
  obtain q1 where q1: "del (int i) q = Some (0, q1)" "shape q1" "link q1 = (link q)[i := 0]"
    "cnt q1 = cnt q - 1"
    using del_slot [OF assms] by blast
  obtain q2 where "del (int i) q1 = Some (0, q2)" "shape q2" "link q2 = (link q1)[i := 0]"
    "cnt q2 = cnt q1 - 1"
    using del_slot [OF q1(2) assms(2)] by blast
  with q1 show ?thesis by (intro exI [of _ q1] exI [of _ q2]) simp
qed

end

subsection \<open>The two tables meet the contract\<close>

definition timeout_shape :: "timeout_que option \<Rightarrow> bool" where
  "timeout_shape ptimeq \<longleftrightarrow>
     (case ptimeq of
        None \<Rightarrow> False
      | Some q \<Rightarrow> length (con_link q) = TIMEOUT_QUE_LENGTH \<and> map enable (user q) = con_link q)"

definition file_slot_shape :: "file_user \<Rightarrow> bool" where
  "file_slot_shape u \<longleftrightarrow> length (filename u) = FTP_COM_MAX_FILENAME_LENGTH
     \<and> length (recordid u) = RECORD_ID_MAX_LENGTH \<and> length (path u) = FTP_MAX_FTPPATH_LENGTH
     \<and> length (serverip u) = 24"

definition file_shape :: "file_que option \<Rightarrow> bool" where
  "file_shape pfileq \<longleftrightarrow>
     (case pfileq of
        None \<Rightarrow> False
      | Some q \<Rightarrow> length (f_con_link q) = FILE_QUE_LENGTH \<and> map f_enable (f_user q) = f_con_link q
          \<and> list_all file_slot_shape (f_user q))"

definition file_args_ok ::
  "byte list option \<times> byte list option \<times> byte list option \<times> byte list option \<Rightarrow> bool" where
  "file_args_ok args \<longleftrightarrow>
     (case args of
        (Some fn, Some rid, Some pa, Some ip) \<Rightarrow>
          0 \<notin> set fn \<and> 0 \<notin> set rid \<and> 0 \<notin> set pa \<and> 0 \<notin> set ip
          \<and> length fn < FTP_COM_MAX_FILENAME_LENGTH \<and> length rid < RECORD_ID_MAX_LENGTH
          \<and> length pa < FTP_MAX_FTPPATH_LENGTH \<and> length ip < 24
      | _ \<Rightarrow> False)"

lemma timeout_shape_user_length:
  "timeout_shape (Some q) \<Longrightarrow> length (user q) = TIMEOUT_QUE_LENGTH"
  by (simp add: timeout_shape_def) (metis length_map)

lemma timeout_add_slot:
  assumes "timeout_shape ptr"
    and "find (\<lambda>i. con_link (the ptr) ! i = 0) [0..<TIMEOUT_QUE_LENGTH] = Some i"
  shows "\<exists>q'. timeout_que_add_user p mc uid ptr = (int i, Some q') \<and> timeout_shape (Some q')
           \<and> con_link q' = (con_link (the ptr))[i := 1] \<and> usercnt q' = usercnt (the ptr) + 1
           \<and> user q' = (user (the ptr))[i := (user (the ptr) ! i)\<lparr>enable := 1, platform := p,
                                                msgcode := mc, userid := uid\<rparr>]"
  using assms
  by (auto simp: timeout_shape_def timeout_que_add_user_def map_update split: option.splits)

lemma timeout_add_slot2:
  assumes "timeout_shape ptr"
    and "find (\<lambda>i. con_link (the ptr) ! i = 0) [0..<TIMEOUT_QUE_LENGTH] = Some i"
  shows "\<exists>q'. timeout_que_add_user2 p MSGCODE_RECORD_CONTROL uid rid ptr = (int i, Some q')
           \<and> timeout_shape (Some q') \<and> con_link q' = (con_link (the ptr))[i := 1]
           \<and> usercnt q' = usercnt (the ptr) + 1
           \<and> user q' = (user (the ptr))[i := (user (the ptr) ! i)\<lparr>enable := 1, platform := p,
                             msgcode := MSGCODE_RECORD_CONTROL, userid := uid, roomid := rid\<rparr>]"
  using assms
  by (auto simp: timeout_shape_def timeout_que_add_user2_def map_update split: option.splits)

lemma timeout_del_slot:
  assumes "timeout_shape ptr" "i < TIMEOUT_QUE_LENGTH"
  shows "\<exists>q'. timeout_que_del_user (int i) ptr = (0, Some q') \<and> timeout_shape (Some q')
           \<and> con_link q' = (con_link (the ptr))[i := 0] \<and> usercnt q' = usercnt (the ptr) - 1
           \<and> user q' = (user (the ptr))[i := (user (the ptr) ! i)\<lparr>platform := InvalidPlatform,
                                                msgcode := -1, enable := 0, userid := -1\<rparr>]"
  using assms
  by (auto simp: timeout_shape_def timeout_que_del_user_def map_update Let_def split: option.splits)

interpretation timeout_table: slot_table TIMEOUT_QUE_LENGTH
  "\<lambda>ptr. con_link (the ptr)" "\<lambda>ptr. usercnt (the ptr)" timeout_shape "\<lambda>_. True"
  "\<lambda>(p, mc, uid) ptr. Some (timeout_que_add_user p mc uid ptr)"
  "\<lambda>i ptr. Some (timeout_que_del_user i ptr)"
proof (unfold_locales, goal_cases)
  case 1
  show ?case by (simp add: TIMEOUT_QUE_LENGTH_def)
next
  case (2 q)
  then show ?case by (auto simp: timeout_shape_def split: option.splits)
next
  case (3 q a i)
  then show ?case using timeout_add_slot by (cases a) fastforce
next
  case (4 q i)
  then show ?case using timeout_del_slot by fastforce
qed

interpretation record_table: slot_table TIMEOUT_QUE_LENGTH
  "\<lambda>ptr. con_link (the ptr)" "\<lambda>ptr. usercnt (the ptr)" timeout_shape "\<lambda>_. True"
  "\<lambda>(p, uid, rid) ptr. Some (timeout_que_add_user2 p MSGCODE_RECORD_CONTROL uid rid ptr)"
  "\<lambda>i ptr. Some (timeout_que_del_user i ptr)"
proof (unfold_locales, goal_cases)
  case 1
  show ?case by (simp add: TIMEOUT_QUE_LENGTH_def)
next
  case (2 q)
  then show ?case by (auto simp: timeout_shape_def split: option.splits)
next
  case (3 q a i)
  then show ?case using timeout_add_slot2 by (cases a) fastforce
next
  case (4 q i)
  then show ?case using timeout_del_slot by fastforce
qed

lemma file_add_slot:
  assumes "file_shape ptr" "file_args_ok (Some fn, Some rid, Some pa, Some ip)"
    and "find (\<lambda>i. f_con_link (the ptr) ! i = 0) [0..<FILE_QUE_LENGTH] = Some i"
  shows "\<exists>q' u. file_que_add_user (Some fn, Some rid, Some pa, Some ip) ptr = Some (int i, Some q')
           \<and> file_shape (Some q') \<and> f_con_link q' = (f_con_link (the ptr))[i := 1]
           \<and> f_usercnt q' = f_usercnt (the ptr) + 1 \<and> f_user q' = (f_user (the ptr))[i := u]
           \<and> f_enable u = 1 \<and> cstr (filename u) = Some fn \<and> cstr (recordid u) = Some rid
           \<and> cstr (path u) = Some pa \<and> cstr (serverip u) = Some ip"
proof -
  obtain q where q: "ptr = Some q" and sh: "length (f_con_link q) = FILE_QUE_LENGTH"
    "map f_enable (f_user q) = f_con_link q" "list_all file_slot_shape (f_user q)"
    using assms(1) by (auto simp: file_shape_def split: option.splits)
  have i: "i < length (f_user q)"
    using assms(3) sh(1,2) by (metis find_upt_Some length_map)
  then have u: "file_slot_shape (f_user q ! i)" using sh(3) by (simp add: list_all_length)
  obtain a where a: "strcpy_to (filename (f_user q ! i)) fn = Some a" "cstr a = Some fn"
    "length a = FTP_COM_MAX_FILENAME_LENGTH"
    using strcpy_to_cstr [of fn "filename (f_user q ! i)"] u assms(2)
    by (auto simp: file_slot_shape_def file_args_ok_def)
  obtain b where b: "strcpy_to (recordid (f_user q ! i)) rid = Some b" "cstr b = Some rid"
    "length b = RECORD_ID_MAX_LENGTH"
    using strcpy_to_cstr [of rid "recordid (f_user q ! i)"] u assms(2)
    by (auto simp: file_slot_shape_def file_args_ok_def)
  obtain c where c: "strcpy_to (path (f_user q ! i)) pa = Some c" "cstr c = Some pa"
    "length c = FTP_MAX_FTPPATH_LENGTH"
    using strcpy_to_cstr [of pa "path (f_user q ! i)"] u assms(2)
    by (auto simp: file_slot_shape_def file_args_ok_def)
  obtain d where d: "strcpy_to (serverip (f_user q ! i)) ip = Some d" "cstr d = Some ip"
    "length d = 24"
    using strcpy_to_cstr [of ip "serverip (f_user q ! i)"] u assms(2)
    by (auto simp: file_slot_shape_def file_args_ok_def)
  let ?u = "(f_user q ! i)\<lparr>f_enable := 1, filename := a, recordid := b, path := c, serverip := d\<rparr>"
  have "list_all file_slot_shape ((f_user q)[i := ?u])"
    using sh(3) by (rule list_all_update) (simp add: file_slot_shape_def a b c d)
  then show ?thesis
    using q sh assms(3) a b c d
    by (intro exI [of _ "q\<lparr>f_con_link := (f_con_link q)[i := 1], f_usercnt := f_usercnt q + 1,
                            f_user := (f_user q)[i := ?u]\<rparr>"] exI [of _ ?u])
      (auto simp: file_que_add_user_def file_shape_def map_update)
qed

lemma file_del_slot:
  assumes "file_shape ptr" "i < FILE_QUE_LENGTH"
  shows "\<exists>q'. file_que_del_user (int i) ptr = Some (0, Some q') \<and> file_shape (Some q')
           \<and> f_con_link q' = (f_con_link (the ptr))[i := 0]
           \<and> f_usercnt q' = f_usercnt (the ptr) - 1"
proof -
  have "file_slot_shape (file_user_zero u)" and "f_enable (file_user_zero u) = 0" for u
    by (simp_all add: file_slot_shape_def file_user_zero_def)
  with assms show ?thesis
    by (auto simp: file_shape_def file_que_del_user_def map_update Let_def
        intro: list_all_update split: option.splits)
qed

interpretation file_table: slot_table FILE_QUE_LENGTH
  "\<lambda>ptr. f_con_link (the ptr)" "\<lambda>ptr. f_usercnt (the ptr)" file_shape file_args_ok
  file_que_add_user file_que_del_user
proof (unfold_locales, goal_cases)
  case 1
  show ?case by (simp add: FILE_QUE_LENGTH_def)
next
  case (2 q)
  then show ?case by (auto simp: file_shape_def split: option.splits)
next
  case (3 q a i)
  obtain fn rid pa ip where a: "a = (Some fn, Some rid, Some pa, Some ip)"
    using 3(2) by (cases a) (auto simp: file_args_ok_def split: option.splits)
  show ?case using file_add_slot [OF 3(1) 3(2) [unfolded a] 3(3)] a by fastforce
next
  case (4 q i)
  then show ?case using file_del_slot by fastforce
qed

subsection \<open>Sequences of calls\<close>

datatype tq_op =
    AddUser platform_em int int
  | AddUser2 platform_em int int int
  | DelUser int
  | Cleanup platform_em int
  | AllCleanup
  | AddAddr platform_em int "byte list"

definition tq_apply :: "tq_op \<Rightarrow> timeout_que option \<Rightarrow> timeout_que option option" where
  "tq_apply op ptr =
     (case op of
        AddUser p mc uid \<Rightarrow> Some (snd (timeout_que_add_user p mc uid ptr))
      | AddUser2 p mc uid rid \<Rightarrow> Some (snd (timeout_que_add_user2 p mc uid rid ptr))
      | DelUser i \<Rightarrow> Some (snd (timeout_que_del_user i ptr))
      | Cleanup p uid \<Rightarrow> Some (snd (timeout_que_cleanup p uid ptr))
      | AllCleanup \<Rightarrow> Some (snd (timeout_que_all_cleanup ptr))
      | AddAddr p uid a \<Rightarrow> map_option snd (timeout_add_con_user_addr p uid (Some a) ptr))"

text \<open>What the callers have to respect: delete only a slot in use, give up a real platform only.\<close>

definition tq_legal :: "tq_op \<Rightarrow> timeout_que option \<Rightarrow> bool" where
  "tq_legal op ptr \<longleftrightarrow>
     (case op of
        DelUser i \<Rightarrow> 0 \<le> i \<and> i < int TIMEOUT_QUE_LENGTH \<longrightarrow> con_link (the ptr) ! nat i = 1
      | Cleanup p uid \<Rightarrow> p \<noteq> InvalidPlatform
      | AddAddr p uid a \<Rightarrow> length a < 16
      | _ \<Rightarrow> True)"

fun tq_run :: "tq_op list \<Rightarrow> timeout_que option \<Rightarrow> timeout_que option option" where
  "tq_run [] ptr = Some ptr"
| "tq_run (op # ops) ptr = (case tq_apply op ptr of None \<Rightarrow> None | Some ptr' \<Rightarrow> tq_run ops ptr')"

fun tq_legal_run :: "tq_op list \<Rightarrow> timeout_que option \<Rightarrow> bool" where
  "tq_legal_run [] ptr \<longleftrightarrow> True"
| "tq_legal_run (op # ops) ptr \<longleftrightarrow> tq_legal op ptr \<and>
     (case tq_apply op ptr of None \<Rightarrow> True | Some ptr' \<Rightarrow> tq_legal_run ops ptr')"

definition timeout_inv :: "timeout_que option \<Rightarrow> bool" where
  "timeout_inv ptr \<longleftrightarrow> timeout_shape ptr \<and> slots_ok (con_link (the ptr)) (usercnt (the ptr))
     \<and> list_all (\<lambda>u. enable u = 0 \<longrightarrow> platform u = InvalidPlatform) (user (the ptr))"

lemma timeout_inv_cases:
  assumes "timeout_inv ptr"
  obtains q where "ptr = Some q" "length (con_link q) = TIMEOUT_QUE_LENGTH"
    "length (user q) = TIMEOUT_QUE_LENGTH" "map enable (user q) = con_link q"
    "slots_ok (con_link q) (usercnt q)"
    "list_all (\<lambda>u. enable u = 0 \<longrightarrow> platform u = InvalidPlatform) (user q)"
proof (cases ptr)
  case None
  with assms show thesis by (simp add: timeout_inv_def timeout_shape_def)
next
  case (Some q)
  with assms show thesis
    using that [of q] timeout_shape_user_length [of q]
    by (simp add: timeout_inv_def timeout_shape_def)
qed

lemma used_slots_zeros: "used_slots (map (\<lambda>_. 0) l) = 0"
  by (induction l) (auto simp: used_slots_def)

lemma slots_ok_zeros: "slots_ok (map (\<lambda>_. 0) l) 0"
  by (auto simp: slots_ok_def used_slots_zeros)

lemma timeout_inv_all_cleanup:
  assumes "timeout_shape ptr"
  shows "timeout_inv (snd (timeout_que_all_cleanup ptr))"
proof -
  obtain q where q: "ptr = Some q" "length (con_link q) = TIMEOUT_QUE_LENGTH"
    "map enable (user q) = con_link q"
    using assms by (auto simp: timeout_shape_def split: option.splits)
  then have "map (\<lambda>x. 0) (user q) = map (\<lambda>_. 0 :: u32) (con_link q)"
    by (metis length_map map_replicate_const)
  with q show ?thesis
    by (simp add: timeout_inv_def timeout_shape_def timeout_que_all_cleanup_def slots_ok_zeros
        list.pred_map comp_def list_all_iff)
qed

lemma timeout_inv_add:
  assumes "timeout_inv ptr"
  shows "timeout_inv (snd (timeout_que_add_user p mc uid ptr))"
proof (cases "find (\<lambda>i. con_link (the ptr) ! i = 0) [0..<TIMEOUT_QUE_LENGTH]")
  case None
  with assms show ?thesis
    using timeout_inv_all_cleanup [of ptr]
    by (auto simp: timeout_inv_def timeout_que_add_user_def timeout_shape_def split: option.splits)
next
  case (Some i)
  have sh: "timeout_shape ptr" using assms by (simp add: timeout_inv_def)
  obtain q' where q': "timeout_que_add_user p mc uid ptr = (int i, Some q')"
    "user q' = (user (the ptr))[i := (user (the ptr) ! i)\<lparr>enable := 1, platform := p,
                                                msgcode := mc, userid := uid\<rparr>]"
    using timeout_add_slot [OF sh Some] by blast
  moreover have "timeout_shape (Some q') \<and> slots_ok (con_link q') (usercnt q')"
    using timeout_table.add_keeps [OF sh _ _ Some, of "(p, mc, uid)"] assms q'(1)
    by (auto simp: timeout_inv_def)
  ultimately show ?thesis
    using assms by (auto simp: timeout_inv_def intro!: list_all_update)
qed

lemma timeout_inv_add2:
  assumes "timeout_inv ptr"
  shows "timeout_inv (snd (timeout_que_add_user2 p mc uid rid ptr))"
proof (cases "mc = MSGCODE_RECORD_CONTROL")
  case False
  with assms show ?thesis by (auto simp: timeout_que_add_user2_def split: option.splits)
next
  case mc: True
  show ?thesis
  proof (cases "find (\<lambda>i. con_link (the ptr) ! i = 0) [0..<TIMEOUT_QUE_LENGTH]")
    case None
    with assms mc show ?thesis
      using timeout_inv_all_cleanup [of ptr]
      by (auto simp: timeout_inv_def timeout_que_add_user2_def timeout_shape_def
          split: option.splits)
  next
    case (Some i)
    have sh: "timeout_shape ptr" using assms by (simp add: timeout_inv_def)
    obtain q' where q': "timeout_que_add_user2 p mc uid rid ptr = (int i, Some q')"
      "user q' = (user (the ptr))[i := (user (the ptr) ! i)\<lparr>enable := 1, platform := p,
                             msgcode := MSGCODE_RECORD_CONTROL, userid := uid, roomid := rid\<rparr>]"
      using timeout_add_slot2 [OF sh Some] mc by blast
    moreover have "timeout_shape (Some q') \<and> slots_ok (con_link q') (usercnt q')"
      using record_table.add_keeps [OF sh _ _ Some, of "(p, uid, rid)"] assms q'(1) mc
      by (auto simp: timeout_inv_def)
    ultimately show ?thesis
      using assms by (auto simp: timeout_inv_def intro!: list_all_update)
  qed
qed

lemma timeout_inv_del:
  assumes "timeout_inv ptr" "tq_legal (DelUser k) ptr"
  shows "timeout_inv (snd (timeout_que_del_user k ptr))"
proof (cases "0 \<le> k \<and> k < int TIMEOUT_QUE_LENGTH")
  case False
  with assms show ?thesis by (auto simp: timeout_que_del_user_def split: option.splits)
next
  case True
  then obtain i where i: "k = int i" "i < TIMEOUT_QUE_LENGTH" by (metis nonneg_int_cases of_nat_less_iff)
  have sh: "timeout_shape ptr" using assms by (simp add: timeout_inv_def)
  obtain q' where q': "timeout_que_del_user k ptr = (0, Some q')"
    "user q' = (user (the ptr))[i := (user (the ptr) ! i)\<lparr>platform := InvalidPlatform,
                                                msgcode := -1, enable := 0, userid := -1\<rparr>]"
    using timeout_del_slot [OF sh i(2)] i by blast
  moreover have "timeout_shape (Some q') \<and> slots_ok (con_link q') (usercnt q')"
    using timeout_table.del_keeps [OF sh _ i(2)] assms q'(1) i
    by (auto simp: timeout_inv_def tq_legal_def)
  ultimately show ?thesis
    using assms by (auto simp: timeout_inv_def intro!: list_all_update)
qed

lemma timeout_inv_used_slot:
  assumes "timeout_inv (Some q)" "i < TIMEOUT_QUE_LENGTH" "platform (user q ! i) \<noteq> InvalidPlatform"
  shows "con_link q ! i = 1"
  using assms(1)
proof (rule timeout_inv_cases)
  fix q' assume "Some q = Some q'" and l: "length (con_link q') = TIMEOUT_QUE_LENGTH"
    "length (user q') = TIMEOUT_QUE_LENGTH" and e: "map enable (user q') = con_link q'"
    and ok: "slots_ok (con_link q') (usercnt q')"
    and pl: "list_all (\<lambda>u. enable u = 0 \<longrightarrow> platform u = InvalidPlatform) (user q')"
  then have q: "q' = q" by simp
  have "enable (user q ! i) = con_link q ! i"
    using map_nth_eq [OF e, of i] l assms(2) q by simp
  moreover have "enable (user q ! i) \<noteq> 0"
    using pl assms(2,3) l q by (auto simp: list_all_length)
  moreover have "con_link q ! i \<in> {0, 1}"
  proof -
    have "con_link q ! i \<in> set (con_link q)" using l assms(2) q by simp
    with ok q show ?thesis by (auto simp: slots_ok_def)
  qed
  ultimately show ?thesis by auto
qed

lemma timeout_inv_cleanup:
  assumes "timeout_inv ptr" "p \<noteq> InvalidPlatform"
  shows "timeout_inv (snd (timeout_que_cleanup p uid ptr))"
proof -
  obtain q where q: "ptr = Some q" "length (con_link q) = TIMEOUT_QUE_LENGTH"
    "map enable (user q) = con_link q"
    "list_all (\<lambda>u. enable u = 0 \<longrightarrow> platform u = InvalidPlatform) (user q)"
    using assms(1) by (rule timeout_inv_cases)
  show ?thesis
  proof (cases "find (\<lambda>i. platform (user q ! i) = p \<and> userid (user q ! i) = uid)
                  [0..<TIMEOUT_QUE_LENGTH]")
    case None
    with q assms show ?thesis by (simp add: timeout_que_cleanup_def)
  next
    case (Some i)
    then have i: "i < TIMEOUT_QUE_LENGTH" "platform (user q ! i) = p"
      by (simp_all add: find_upt_Some)
    have "con_link q ! i = 1"
      using timeout_inv_used_slot [of q i] assms i q(1) by simp
    then have "timeout_inv (snd (timeout_que_del_user (int i) ptr))"
      using assms(1) q(1) i by (intro timeout_inv_del) (simp_all add: tq_legal_def)
    then show ?thesis
      using q i Some
      by (auto simp: timeout_inv_def timeout_shape_def timeout_que_cleanup_def
          timeout_que_del_user_def map_update Let_def intro: list_all_update)
  qed
qed

lemma timeout_inv_addr:
  assumes "timeout_inv ptr" "length a < 16"
  shows "\<exists>ret ptr'. timeout_add_con_user_addr p uid (Some a) ptr = Some (ret, ptr')
           \<and> timeout_inv ptr'"
proof -
  obtain q where q: "ptr = Some q" "length (con_link q) = TIMEOUT_QUE_LENGTH"
    "map enable (user q) = con_link q" "length (user q) = TIMEOUT_QUE_LENGTH"
    "list_all (\<lambda>u. enable u = 0 \<longrightarrow> platform u = InvalidPlatform) (user q)"
    using assms(1) by (rule timeout_inv_cases)
  obtain arr where arr: "strcpy_to (replicate 16 0) a = Some arr"
    using assms(2) by (auto simp: strcpy_to_def memcpy_def)
  show ?thesis
  proof (cases "find (\<lambda>i. platform (user q ! i) = p \<and> userid (user q ! i) = uid)
                  [0..<TIMEOUT_QUE_LENGTH]")
    case None
    with q assms show ?thesis by (auto simp: timeout_add_con_user_addr_def)
  next
    case (Some i)
    then have i: "i < length (user q)" using q by (simp add: find_upt_Some)
    then have "map enable ((user q)[i := (user q ! i)\<lparr>ipaddr := arr\<rparr>]) = con_link q"
      using q map_nth_eq [OF q(3) i] by (simp add: map_update list_update_same_conv)
    moreover have "list_all (\<lambda>u. enable u = 0 \<longrightarrow> platform u = InvalidPlatform)
        ((user q)[i := (user q ! i)\<lparr>ipaddr := arr\<rparr>])"
      using q(5) i by (intro list_all_update) (auto simp: list_all_length)
    ultimately show ?thesis
      using q Some arr assms(1)
      by (auto simp: timeout_add_con_user_addr_def timeout_inv_def timeout_shape_def)
  qed
qed

lemma tq_apply_inv:
  assumes "timeout_inv ptr" "tq_legal op ptr"
  shows "\<exists>ptr'. tq_apply op ptr = Some ptr' \<and> timeout_inv ptr'"
proof (cases op)
  case (AddAddr p uid a)
  then show ?thesis
    using timeout_inv_addr [of ptr a p uid] assms by (auto simp: tq_apply_def tq_legal_def)
next
  case AllCleanup
  then show ?thesis
    using assms(1) timeout_inv_all_cleanup [of ptr] by (simp add: tq_apply_def timeout_inv_def)
qed (use assms in \<open>simp_all add: tq_apply_def tq_legal_def timeout_inv_add timeout_inv_add2
       timeout_inv_del timeout_inv_cleanup\<close>)

lemma timeout_inv_init:
  assumes "length (con_link q) = TIMEOUT_QUE_LENGTH" "length (user q) = TIMEOUT_QUE_LENGTH"
  shows "timeout_inv (snd (timeout_que_init (Some q)))"
proof -
  have "map (\<lambda>x. 0) (user q) = map (\<lambda>_. 0 :: u32) (con_link q)"
    using assms by (simp add: map_replicate_const)
  with assms show ?thesis
    by (simp add: timeout_inv_def timeout_shape_def timeout_que_init_def slots_ok_zeros
        list.pred_map comp_def list_all_iff)
qed

lemma tq_run_inv: "timeout_inv ptr \<Longrightarrow> tq_legal_run ops ptr \<Longrightarrow>
    \<exists>ptr'. tq_run ops ptr = Some ptr' \<and> timeout_inv ptr'"
proof (induction ops arbitrary: ptr)
  case Nil
  then show ?case by simp
next
  case (Cons op ops)
  then obtain ptr' where "tq_apply op ptr = Some ptr'" "timeout_inv ptr'"
    using tq_apply_inv [of ptr op] by auto
  with Cons show ?case by auto
qed

lemma timeout_find_range:
  "timeout_que_find_user p mc uid (Some q) = -1
   \<or> (\<exists>i<TIMEOUT_QUE_LENGTH. timeout_que_find_user p mc uid (Some q) = int i
        \<and> timeout_match p mc uid (user q ! i) \<and> (\<forall>j<i. \<not> timeout_match p mc uid (user q ! j)))"
  by (auto simp: timeout_que_find_user_def find_upt_Some split: option.splits)

lemma timeout_find_minus1:
  "timeout_que_find_user p mc uid (Some q) < 0 \<longleftrightarrow>
     (\<forall>i<TIMEOUT_QUE_LENGTH. \<not> timeout_match p mc uid (user q ! i))"
  by (auto simp: timeout_que_find_user_def find_upt_None find_upt_Some split: option.splits)

lemma timeout_find_eqI:
  assumes "i < TIMEOUT_QUE_LENGTH" "timeout_match p mc uid (user q ! i)"
    and "\<forall>j<i. \<not> timeout_match p mc uid (user q ! j)"
  shows "timeout_que_find_user p mc uid (Some q) = int i"
proof -
  have "find (\<lambda>i. timeout_match p mc uid (user q ! i)) [0..<TIMEOUT_QUE_LENGTH] = Some i"
    using assms by (simp add: find_upt_Some)
  then show ?thesis by (simp add: timeout_que_find_user_def)
qed

lemma timeout_wait_loop_eq:
  "timeout_wait_loop qs p mc uid i n ret =
     (if \<exists>k<n. timeout_que_find_user p mc uid (Some (qs (i + k))) < 0 then 0
      else if n = 0 then ret else -1)"
proof (induction n arbitrary: i ret)
  case 0
  then show ?case by simp
next
  case (Suc n)
  have "(\<exists>k<Suc n. timeout_que_find_user p mc uid (Some (qs (i + k))) < 0) \<longleftrightarrow>
        timeout_que_find_user p mc uid (Some (qs i)) < 0 \<or>
        (\<exists>k<n. timeout_que_find_user p mc uid (Some (qs (Suc i + k))) < 0)"
    by (auto simp: less_Suc_eq_0_disj)
  with Suc show ?case by simp
qed

subsection \<open>Properties\<close>

definition empty_user :: timeout_user where
  "empty_user = \<lparr>enable = 0, platform = InvalidPlatform, msgcode = -1, roomid = -1, userid = -1,
                 ipaddr = replicate 16 0\<rparr>"

definition empty_timeout_que :: timeout_que where
  "empty_timeout_que = \<lparr>usercnt = 0, con_link = replicate TIMEOUT_QUE_LENGTH 0,
                        user = replicate TIMEOUT_QUE_LENGTH empty_user\<rparr>"

text \<open>
  C36: the table stays consistent.  From a freshly initialised table, every sequence of calls in
  which deletions name occupied slots, \<^verbatim>\<open>timeout_que_cleanup\<close> names a real platform and addresses
  fit their array, runs without undefined behaviour and keeps: flags are 0 or 1 and agree with
  \<^verbatim>\<open>enable\<close>, \<^verbatim>\<open>usercnt\<close> is the number of occupied slots, free slots have no platform.
\<close>

theorem timeout_table_consistent:
  assumes "length (con_link q) = TIMEOUT_QUE_LENGTH" "length (user q) = TIMEOUT_QUE_LENGTH"
    and "tq_legal_run ops (snd (timeout_que_init (Some q)))"
  shows "\<exists>q'. tq_run ops (snd (timeout_que_init (Some q))) = Some (Some q')
           \<and> set (con_link q') \<subseteq> {0, 1} \<and> map enable (user q') = con_link q'
           \<and> unat (usercnt q') = used_slots (con_link q')
           \<and> list_all (\<lambda>u. enable u = 0 \<longrightarrow> platform u = InvalidPlatform) (user q')"
proof -
  obtain ptr where "tq_run ops (snd (timeout_que_init (Some q))) = Some ptr" "timeout_inv ptr"
    using tq_run_inv [OF timeout_inv_init [OF assms(1,2)] assms(3)] by blast
  then show ?thesis by (auto elim!: timeout_inv_cases simp: slots_ok_def)
qed

theorem timeout_table_consistent_witness:
  "\<exists>q'. tq_run [AddUser LiveNode 30010 7, DelUser 0] (snd (timeout_que_init (Some empty_timeout_que)))
          = Some (Some q') \<and> unat (usercnt q') = used_slots (con_link q')"
proof -
  have "tq_legal_run [AddUser LiveNode 30010 7, DelUser 0]
          (snd (timeout_que_init (Some empty_timeout_que)))"
    by code_simp
  from timeout_table_consistent [OF _ _ this] show ?thesis
    by (auto simp: empty_timeout_que_def)
qed

text \<open>
  The rendezvous between a request and its response.  On a consistent table with a free slot
  and no pending entry that matches, adding a request stores it in the lowest free slot, a
  response with the same platform, code and user finds exactly that slot, deleting it frees the
  slot and restores the counter, and afterwards no entry matches: the requester's poll succeeds.
\<close>

theorem timeout_rendezvous:
  assumes "timeout_inv (Some q)"
    and free: "find (\<lambda>i. con_link q ! i = 0) [0..<TIMEOUT_QUE_LENGTH] = Some i"
    and none: "timeout_que_find_user p mc uid (Some q) < 0"
  shows "\<exists>q1 q2. timeout_que_add_user p mc uid (Some q) = (int i, Some q1)
           \<and> timeout_que_find_user p mc uid (Some q1) = int i
           \<and> timeout_que_del_user (int i) (Some q1) = (0, Some q2)
           \<and> con_link q2 = con_link q \<and> usercnt q2 = usercnt q
           \<and> timeout_que_find_user p mc uid (Some q2) = -1"
proof -
  have sh: "timeout_shape (Some q)" and i: "i < TIMEOUT_QUE_LENGTH"
    using assms by (simp_all add: timeout_inv_def find_upt_Some)
  have l: "length (user q) = TIMEOUT_QUE_LENGTH" using sh by (rule timeout_shape_user_length)
  obtain q1 where q1: "timeout_que_add_user p mc uid (Some q) = (int i, Some q1)"
    "timeout_shape (Some q1)"
    "user q1 = (user q)[i := (user q ! i)\<lparr>enable := 1, platform := p, msgcode := mc,
                                          userid := uid\<rparr>]"
    using timeout_add_slot [OF sh, of i p mc uid] free by auto
  obtain q2 where q2: "timeout_que_del_user (int i) (Some q1) = (0, Some q2)"
    "user q2 = (user q1)[i := (user q1 ! i)\<lparr>platform := InvalidPlatform, msgcode := -1,
                                            enable := 0, userid := -1\<rparr>]"
    using timeout_del_slot [OF q1(2) i] by auto
  have "con_link q2 = con_link q" "usercnt q2 = usercnt q"
    using timeout_table.add_del_undo [OF sh _ _ , of i "(p, mc, uid)"] free assms(1) q1(1) q2(1)
    by (auto simp: timeout_inv_def)
  moreover have "timeout_que_find_user p mc uid (Some q1) = int i"
    using none i l by (intro timeout_find_eqI) (auto simp: timeout_find_minus1 q1(3) timeout_match_def)
  moreover have "timeout_que_find_user p mc uid (Some q2) < 0"
    using none i l by (auto simp: timeout_find_minus1 q1(3) q2(2) nth_list_update timeout_match_def)
  then have "timeout_que_find_user p mc uid (Some q2) = -1"
    using timeout_find_range [of p mc uid q2] by auto
  ultimately show ?thesis using q1(1) q2(1) by blast
qed

theorem timeout_rendezvous_witness:
  "\<exists>q1 q2. timeout_que_add_user LiveNode 30010 7 (Some empty_timeout_que) = (0, Some q1)
     \<and> timeout_que_find_user LiveNode 30010 7 (Some q1) = 0
     \<and> timeout_que_del_user 0 (Some q1) = (0, Some q2)
     \<and> timeout_que_find_user LiveNode 30010 7 (Some q2) = -1"
proof -
  have "timeout_inv (Some empty_timeout_que)"
    "find (\<lambda>i. con_link empty_timeout_que ! i = 0) [0..<TIMEOUT_QUE_LENGTH] = Some 0"
    "timeout_que_find_user LiveNode 30010 7 (Some empty_timeout_que) < 0"
    by code_simp+
  from timeout_rendezvous [OF this] show ?thesis by auto
qed

text \<open>
  The wait is bounded and exact.  \<^verbatim>\<open>timeout_que_wait_a_moment\<close> polls at most 40 times per
  second of the wait, the wait is cut to 10 seconds, and it returns 0 exactly when some poll finds
  no matching entry, -1 otherwise, whatever the other threads do to the table in between.
\<close>

theorem timeout_wait_exact:
  "timeout_que_wait_a_moment (Some qs) p mc uid second =
     (if \<exists>k < 40 * min (unat second) 10. \<forall>i < TIMEOUT_QUE_LENGTH.
           \<not> timeout_match p mc uid (user (qs k) ! i)
      then 0 else -1)"
proof -
  have "unat ((if second > TIMEOUT_WAIT_MAX_SECOND then TIMEOUT_WAIT_MAX_SECOND else second) * 40)
        = 40 * min (unat second) 10"
  proof (cases "second > TIMEOUT_WAIT_MAX_SECOND")
    case True
    then have "unat second > 10" by (simp add: TIMEOUT_WAIT_MAX_SECOND_def word_less_nat_alt)
    with True show ?thesis by (simp add: TIMEOUT_WAIT_MAX_SECOND_def)
  next
    case False
    then have "unat second \<le> 10"
      by (simp add: TIMEOUT_WAIT_MAX_SECOND_def word_less_nat_alt)
    moreover from this have "unat (second * 40) = unat second * 40"
      by (simp add: unat_word_ariths)
    ultimately show ?thesis using False by simp
  qed
  then show ?thesis
    by (simp add: timeout_que_wait_a_moment_def timeout_wait_loop_eq timeout_find_minus1)
qed

theorem timeout_wait_exact_witness:
  "timeout_que_wait_a_moment (Some (\<lambda>k. empty_timeout_que)) MediaCenter 7 1 3 = 0"
proof -
  have "\<forall>i < TIMEOUT_QUE_LENGTH. \<not> timeout_match MediaCenter 7 1 (user empty_timeout_que ! i)"
    by (simp add: empty_timeout_que_def empty_user_def timeout_match_def)
  then have "\<exists>k < 40 * min (unat (3 :: u32)) 10. \<forall>i < TIMEOUT_QUE_LENGTH.
      \<not> timeout_match MediaCenter 7 1 (user empty_timeout_que ! i)"
    by (intro exI [of _ "0 :: nat"]) simp
  with timeout_wait_exact [of "\<lambda>k. empty_timeout_que" MediaCenter 7 1 3] show ?thesis by simp
qed

text \<open>
  The race between a timed-out requester and a late response.  Both threads find the slot and
  both call \<^verbatim>\<open>timeout_que_del_user\<close>; the second call is not refused, so the table's counter is one
  below the number of occupied slots, and on a table with that single request it becomes
  \<open>2^32 - 1\<close>.
\<close>

theorem timeout_double_delete:
  assumes "timeout_inv (Some q)" "i < TIMEOUT_QUE_LENGTH" "con_link q ! i = 1"
  shows "\<exists>q1 q2. timeout_que_del_user (int i) (Some q) = (0, Some q1)
           \<and> timeout_que_del_user (int i) (Some q1) = (0, Some q2)
           \<and> usercnt q2 = of_nat (used_slots (con_link q2)) - 1
           \<and> (usercnt q = 1 \<longrightarrow> usercnt q2 = 2 ^ 32 - 1)"
proof -
  have sh: "timeout_shape (Some q)" "slots_ok (con_link q) (usercnt q)"
    using assms(1) by (simp_all add: timeout_inv_def)
  obtain q1 where q1: "timeout_que_del_user (int i) (Some q) = (0, Some q1)"
    "timeout_shape (Some q1)" "con_link q1 = (con_link q)[i := 0]"
    using timeout_del_slot [OF sh(1) assms(2)] by auto
  obtain q2 where q2: "timeout_que_del_user (int i) (Some q1) = (0, Some q2)"
    "con_link q2 = (con_link q1)[i := 0]" "usercnt q2 = usercnt q - 2"
    using timeout_table.del_twice [OF sh(1) assms(2)] q1 timeout_del_slot [OF q1(2) assms(2)]
    by auto
  have "i < length (con_link q)" using sh(1) assms(2) by (simp add: timeout_shape_def)
  then have "Suc (used_slots ((con_link q)[i := 0])) = used_slots (con_link q)"
    using used_slots_update [of i "con_link q" 0] assms(3) by simp
  then have "unat (usercnt q) = Suc (used_slots (con_link q2))"
    using sh(2) q1(3) q2(2) by (simp add: slots_ok_def)
  then have "usercnt q = of_nat (Suc (used_slots (con_link q2)))"
    by (metis of_nat_unat ucast_id)
  then show ?thesis using q1 q2 by auto
qed

theorem timeout_double_delete_witness:
  "\<exists>q q1 q2. timeout_que_add_user IpadUser 30010 3 (Some empty_timeout_que) = (0, Some q)
     \<and> timeout_que_del_user 0 (Some q) = (0, Some q1)
     \<and> timeout_que_del_user 0 (Some q1) = (0, Some q2) \<and> usercnt q2 = 2 ^ 32 - 1"
proof -
  let ?q = "the (snd (timeout_que_add_user IpadUser 30010 3 (Some empty_timeout_que)))"
  have "timeout_inv (Some ?q)" "0 < TIMEOUT_QUE_LENGTH" "con_link ?q ! 0 = 1" "usercnt ?q = 1"
    "timeout_que_add_user IpadUser 30010 3 (Some empty_timeout_que) = (0, Some ?q)"
    by code_simp+
  with timeout_double_delete [OF this(1,2,3)] show ?thesis by auto
qed

text \<open>
  a full table.  When all slots are taken, \<^verbatim>\<open>timeout_que_add_user\<close> returns -1 and drops every
  pending request: the table is consistent and empty afterwards, so every thread that polls
  stops waiting at its next poll.
\<close>

theorem timeout_add_full:
  assumes "timeout_inv (Some q)" "\<forall>i<TIMEOUT_QUE_LENGTH. con_link q ! i \<noteq> 0"
  shows "\<exists>q'. timeout_que_add_user p mc uid (Some q) = (-1, Some q') \<and> timeout_inv (Some q')
           \<and> usercnt q' = 0 \<and> (\<forall>p' mc' uid'. timeout_que_find_user p' mc' uid' (Some q') = -1)"
proof -
  obtain q' where q': "timeout_que_all_cleanup (Some q) = (0, Some q')"
    by (simp add: timeout_que_all_cleanup_def)
  have "find (\<lambda>i. con_link q ! i = 0) [0..<TIMEOUT_QUE_LENGTH] = None"
    using assms(2) by (simp add: find_upt_None)
  then have "timeout_que_add_user p mc uid (Some q) = (-1, Some q')"
    using q' by (simp add: timeout_que_add_user_def)
  moreover have "timeout_inv (Some q')"
    using timeout_inv_all_cleanup [of "Some q"] assms(1) q' by (simp add: timeout_inv_def)
  moreover have "length (user q) = TIMEOUT_QUE_LENGTH"
    using assms(1) timeout_shape_user_length by (simp add: timeout_inv_def)
  then have "timeout_que_find_user p' mc' uid' (Some q') < 0" for p' mc' uid'
    using q' by (auto simp: timeout_find_minus1 timeout_que_all_cleanup_def timeout_match_def)
  then have "timeout_que_find_user p' mc' uid' (Some q') = -1" for p' mc' uid'
    using timeout_find_range [of p' mc' uid' q'] by (metis of_nat_less_0_iff)
  moreover have "usercnt q' = 0" using q' by (auto simp: timeout_que_all_cleanup_def)
  ultimately show ?thesis by blast
qed

theorem timeout_add_full_witness:
  "\<exists>q q'. con_link q = replicate 20 1 \<and> timeout_que_add_user LiveNode 1 2 (Some q) = (-1, Some q')
     \<and> usercnt q' = 0"
proof -
  let ?q = "\<lparr>usercnt = 20, con_link = replicate 20 1, user = replicate 20 (empty_user\<lparr>enable := 1\<rparr>)\<rparr>"
  have "timeout_inv (Some ?q)" "\<forall>i<TIMEOUT_QUE_LENGTH. con_link ?q ! i \<noteq> 0"
    by (code_simp, simp add: TIMEOUT_QUE_LENGTH_def)
  from timeout_add_full [OF this, of LiveNode 1 2] show ?thesis
    by (metis (no_types, lifting) timeout_que.select_convs(2))
qed

definition empty_file_que :: file_que where
  "empty_file_que = \<lparr>f_usercnt = 0, f_con_link = replicate FILE_QUE_LENGTH 0,
     f_user = replicate FILE_QUE_LENGTH (file_user_zero \<lparr>f_enable = 0, filename = [],
                recordid = [], path = [], serverip = []\<rparr>)\<rparr>"

lemma empty_file_que_ok:
  "file_shape (Some empty_file_que)"
  "slots_ok (f_con_link empty_file_que) (f_usercnt empty_file_que)"
  "find (\<lambda>i. f_con_link empty_file_que ! i = 0) [0..<FILE_QUE_LENGTH] = Some 0"
proof -
  show "file_shape (Some empty_file_que)"
    by (simp add: file_shape_def empty_file_que_def file_slot_shape_def file_user_zero_def
        list_all_iff)
  show "slots_ok (f_con_link empty_file_que) (f_usercnt empty_file_que)"
    using slots_ok_zeros [of "replicate FILE_QUE_LENGTH (0 :: u32)"]
    by (simp add: empty_file_que_def)
  show "find (\<lambda>i. f_con_link empty_file_que ! i = 0) [0..<FILE_QUE_LENGTH] = Some 0"
    by (simp add: empty_file_que_def find_upt_Some FILE_QUE_LENGTH_def)
qed

text \<open>
  The upload table finds what was added.  On a consistent table with a free slot, strings that
  fit their arrays and a record id no running upload has, \<^verbatim>\<open>file_que_add_user\<close> stores the upload in
  the lowest free slot without overrunning an array, \<^verbatim>\<open>file_que_find_user\<close> returns that slot,
  \<^verbatim>\<open>file_que_get_user\<close> returns the four strings, and deleting it restores flags and counter.
\<close>

theorem file_add_find_get_del:
  assumes "file_shape (Some q)" "slots_ok (f_con_link q) (f_usercnt q)"
    and ok: "file_args_ok (Some fn, Some rid, Some pa, Some ip)"
    and free: "find (\<lambda>i. f_con_link q ! i = 0) [0..<FILE_QUE_LENGTH] = Some i"
    and none: "file_que_find_user (Some q) (Some rid) = -1"
  shows "\<exists>q1 q2 u. file_que_add_user (Some fn, Some rid, Some pa, Some ip) (Some q)
             = Some (int i, Some q1)
           \<and> file_que_find_user (Some q1) (Some rid) = int i
           \<and> file_que_get_user (Some q1) (int i) = Some u
           \<and> cstr (filename u) = Some fn \<and> cstr (recordid u) = Some rid
           \<and> cstr (path u) = Some pa \<and> cstr (serverip u) = Some ip
           \<and> file_que_del_user (int i) (Some q1) = Some (0, Some q2)
           \<and> f_con_link q2 = f_con_link q \<and> f_usercnt q2 = f_usercnt q"
proof -
  have i: "i < FILE_QUE_LENGTH" using free by (simp add: find_upt_Some)
  have l: "length (f_user q) = FILE_QUE_LENGTH"
    using assms(1) by (simp add: file_shape_def) (metis length_map)
  obtain q1 u where q1:
    "file_que_add_user (Some fn, Some rid, Some pa, Some ip) (Some q) = Some (int i, Some q1)"
    "f_user q1 = (f_user q)[i := u]" "f_enable u = 1" "cstr (filename u) = Some fn"
    "cstr (recordid u) = Some rid" "cstr (path u) = Some pa" "cstr (serverip u) = Some ip"
    using file_add_slot [OF assms(1) ok, of i] free by auto
  obtain q2 where "file_que_del_user (int i) (Some q1) = Some (0, Some q2)"
    "f_con_link q2 = f_con_link q" "f_usercnt q2 = f_usercnt q"
  proof -
    obtain p1 p2 where
      "file_que_add_user (Some fn, Some rid, Some pa, Some ip) (Some q) = Some (int i, p1)"
      "file_que_del_user (int i) p1 = Some (0, p2)" "file_shape p2"
      "f_con_link (the p2) = f_con_link q" "f_usercnt (the p2) = f_usercnt q"
      using file_table.add_del_undo [OF assms(1) _ ok, of i] assms(2) free by auto
    with q1(1) show thesis
      by (cases p2) (auto simp: file_shape_def intro: that)
  qed
  moreover have "find (\<lambda>j. f_enable (f_user q1 ! j) = 1 \<and> cstr (recordid (f_user q1 ! j)) = Some rid)
      [0..<FILE_QUE_LENGTH] = Some i"
    using none i l q1
    by (auto simp: find_upt_Some find_upt_None file_que_find_user_def split: option.splits)
  then have "file_que_find_user (Some q1) (Some rid) = int i"
    by (simp add: file_que_find_user_def)
  moreover have "file_que_get_user (Some q1) (int i) = Some u"
    using i l q1(2) by (simp add: file_que_get_user_def)
  ultimately show ?thesis using q1 by blast
qed

theorem file_add_find_get_del_witness:
  "\<exists>q1. file_que_add_user (Some [97, 98], Some [49], Some [47], Some [49, 50]) (Some empty_file_que)
          = Some (0, Some q1) \<and> file_que_find_user (Some q1) (Some [49]) = 0"
proof -
  have "file_args_ok (Some [97, 98], Some [49], Some [47], Some [49, 50])"
    by (simp add: file_args_ok_def FTP_COM_MAX_FILENAME_LENGTH_def RECORD_ID_MAX_LENGTH_def
        FTP_MAX_FTPPATH_LENGTH_def)
  moreover have "file_que_find_user (Some empty_file_que) (Some [49]) = -1"
    by (simp add: file_que_find_user_def empty_file_que_def find_upt_None file_user_zero_def
        split: option.splits)
  ultimately show ?thesis
    using file_add_find_get_del [OF empty_file_que_ok(1,2) _ empty_file_que_ok(3),
        of "[97, 98]" "[49]" "[47]" "[49, 50]"] by auto
qed

text \<open>
  a full upload table.  When no slot is free, \<^verbatim>\<open>file_que_add_user\<close> stores nothing and returns
  0, the same value as success in slot 0, so the caller cannot tell that its upload was dropped.
\<close>

theorem file_add_full_reports_slot0:
  assumes "\<forall>i<FILE_QUE_LENGTH. f_con_link q ! i \<noteq> 0"
  shows "file_que_add_user (Some fn, Some rid, Some pa, Some ip) (Some q) = Some (0, Some q)"
  using assms by (simp add: file_que_add_user_def find_upt_None [THEN iffD2])

theorem file_add_full_reports_slot0_witness:
  "file_que_add_user (Some [97], Some [49], Some [47], Some [49])
     (Some (empty_file_que\<lparr>f_con_link := replicate FILE_QUE_LENGTH 1\<rparr>))
   = Some (0, Some (empty_file_que\<lparr>f_con_link := replicate FILE_QUE_LENGTH 1\<rparr>))"
  by (rule file_add_full_reports_slot0) simp

end
