(* ===== verification/AudioStream.thy ===== *)
theory AudioStream
  imports Stream
begin

section \<open>From the sender's audio packets to the receiver's frames\<close>

text \<open>
  One AAC frame that fits in one packet: the sender strips the ADTS header and puts an AU header in
  front of the payload, the receiver strips the AU header and builds a new ADTS header.
\<close>

subsection \<open>The sender\<close>

text \<open>A buffer with one ADTS frame: a header the sender knows at its start and no other one behind it.\<close>

definition single_adts :: "byte list \<Rightarrow> bool" where
  "single_adts d \<longleftrightarrow> 8 \<le> length d \<and> adts_at d 0 = Some True
     \<and> list_all (\<lambda>i. adts_at d (int i) = Some False) [1..<length d - 4]"

lemma adts_at_longer: "adts_at d i = Some v \<Longrightarrow> adts_at (d @ x) i = Some v"
  by (auto simp: adts_at_def peek_longer split: bind_splits if_splits)

lemma adts_offsets_none:
  "list_all (\<lambda>i. adts_at d i = Some False) is \<Longrightarrow> adts_offsets d off j is = Some (off, j)"
  by (induction "is") simp_all

lemma adts_offsets_single:
  assumes "single_adts d"
  shows "adts_offsets (d @ x) (replicate 5 0) 0 (map int [0..<length d - 4]) = Some (replicate 5 0, 1)"
proof -
  have "[0..<length d - 4] = 0 # [1..<length d - 4]"
    using assms by (simp add: single_adts_def upt_conv_Cons)
  then have m: "map int [0..<length d - 4] = 0 # map int [1..<length d - 4]" by simp
  have "adts_at (d @ x) 0 = Some True" using assms adts_at_longer by (simp add: single_adts_def)
  moreover have "list_all (\<lambda>i. adts_at (d @ x) i = Some False) (map int [1..<length d - 4])"
    using assms adts_at_longer unfolding single_adts_def list_all_iff by auto
  moreover have "poke (replicate 5 0) 0 (0 :: int) = Some (replicate 5 0)"
    by (simp add: poke_def list_update_same_conv eval_nat_numeral)
  ultimately show ?thesis
    unfolding m by (simp add: adts_offsets_none)
qed

text \<open>The audio header is the RTP header with payload type \<^verbatim>\<open>0x61\<close> and the marker set.\<close>

definition audio_hdr :: "u16 \<Rightarrow> u32 \<Rightarrow> u32 \<Rightarrow> US_RTP_FIXED_HEADER" where
  "audio_hdr sn ts sc = \<lparr>csrc_len = 0, extension = 1, padding = 0, version = 2, payload = 0x61,
     marker = 1, seq_no = sn, timestamp = ts, ssrc = sc\<rparr>"

lemma pack_rtp_audio_last: "pack_rtp_audio 0xE1 sn ts sc = pack_rtp (audio_hdr sn ts sc)"
  by (simp add: pack_rtp_audio_def pack_rtp_def audio_hdr_def)

definition au_head :: "nat \<Rightarrow> byte list" where
  "au_head n = [0, 0x10, word_of_int (int n div 32), word_of_int (int n mod 32 * 8)]"

definition audio_packet :: "u16 \<Rightarrow> u32 \<Rightarrow> u32 \<Rightarrow> US_FRAMEHEAD \<Rightarrow> byte list \<Rightarrow> byte list" where
  "audio_packet sn ts sc f d = pack_head (audio_hdr sn ts sc) f @ au_head (length d - 7) @ drop 7 d"

lemma audio_loop_single:
  assumes "lossless so" "codec f < 16" "7 < length d" "length d \<le> 1366 + 7" "length nb = 2048"
  shows "\<exists>nb' torg'. audio_loop so (d @ x) 1366 smp sc f 1 7 (int (length d) - 7) mytime (int (length d) - 7)
      nb torg seq info net =
    (case emit_all (codec f) [audio_packet (ucast seq) (audio_ts smp mytime) sc f d] info net of
       (info', net') \<Rightarrow> Some (0, nb', torg', seq + 1, info', net'))"
proof -
  obtain n where len: "length d = n + 7" using assms(3) by (metis add.commute le_Suc_ex less_imp_le)
  then have n: "int (length d) - 7 = int n" "0 < n" "n \<le> 1366" "length d - 7 = n" using assms(3,4) by simp_all
  have "Suc (Suc (Suc (Suc 0))) \<le> length nb" using assms(5) by simp
  then obtain b0 b1 b2 b3 nr where nbs: "nb = b0 # b1 # b2 # b3 # nr"
    by (auto simp: Suc_le_length_iff)
  let ?nb = "au_head n @ nr"
  have nb: "nb[0 := 0, 1 := 0x10, 2 := word_of_int (int n div 32), 3 := word_of_int (int n mod 32 * 8)] = ?nb"
    by (simp add: nbs au_head_def eval_nat_numeral)
  have lnb: "length nr = 2044" "length (au_head n) = 4" using assms(5) by (simp_all add: nbs au_head_def)
  let ?nb' = "au_head n @ drop 7 d @ drop n nr"
  have "memcpy ?nb (int 4) (d @ x) (int 7) (int n) =
      Some (take 4 ?nb @ take n (drop 7 (d @ x)) @ drop (4 + n) ?nb)"
    using lnb len n(3) by (intro memcpy_nat) simp_all
  then have m1: "memcpy ?nb 4 (d @ x) 7 (int n) = Some ?nb'" using lnb len by simp
  let ?area = "(au_head n @ drop 7 d) @ replicate (1472 - (n + 4)) 0"
  have "memcpy (replicate 1472 0) (int 0) ?nb' (int 0) (int (n + 4)) =
      Some (take 0 (replicate 1472 0) @ take (n + 4) (drop 0 ?nb') @ drop (0 + (n + 4)) (replicate 1472 0))"
    using lnb len n(3) by (intro memcpy_nat) simp_all
  then have m2: "memcpy (replicate 1472 0) 0 ?nb' 0 (int n + 4) = Some ?area"
    using lnb len by (simp add: add.commute)
  let ?p = "audio_packet (ucast seq) (audio_ts smp mytime) sc f d"
  have tk: "take (n + 4) ?area = au_head n @ drop 7 d" using lnb len by simp
  have "udp_send_rtp_data so info (pack_head (audio_hdr (ucast seq) (audio_ts smp mytime) sc) f @ ?area)
      (int (n + 4) + 28) net = Some (0, emit_all (codec f) [?p] info net)"
    using udp_send_packet [OF assms(1) refl _ assms(2), where n = "n + 4" and area = ?area] lnb len n(3,4)
    unfolding tk audio_packet_def by simp
  then have s: "udp_send_rtp_data so info (pack_rtp_audio 0xE1 (ucast seq) (audio_ts smp mytime) sc
      @ pack_debug @ pack_frame f @ ?area) (32 + int n) net = Some (0, emit_all (codec f) [?p] info net)"
    by (simp add: pack_rtp_audio_last pack_head_def)
  have l0: "audio_loop so (d @ x) 1366 smp sc f 1 7 (int n) mytime 0 nb2 t2 s2 i2 n2 = Some (0, nb2, t2, s2, i2, n2)"
    for nb2 t2 s2 i2 n2 by (subst audio_loop.simps) simp
  have anl: "(if 1366 \<le> n then 1366 else int n) = int n" using n(3) by simp
  have "\<exists>nb' torg'. audio_loop so (d @ x) 1366 smp sc f 1 7 (int n) mytime (int n) nb torg seq info net =
    (case emit_all (codec f) [?p] info net of (info', net') \<Rightarrow> Some (0, nb', torg', seq + 1, info', net'))"
    apply (subst audio_loop.simps)
    using n(2) m1 m2 s
    by (simp add: anl Let_def l0 nb [simplified])
  then show ?thesis unfolding n(1) .
qed

lemma send_audio:
  assumes so: "lossless so" and p: "rtp_hand p = Some hnd" "src_data (udp_hand p) = Some (d @ x)"
    and fi: "fi_data_codec fi = RUdpS_AAC_CODEC_TYPE" "fi_frame_length fi = of_nat (length d)"
    and d: "single_adts d" "length d \<le> 1366 + 7"
  shows "\<exists>p' net' ts. UdpSend_rtp_data so fh0 p fi net = Some (OPERATION_SUCC, p', net')
    \<and> wire net' = wire net @ [datagram_of 1 (udp_hand p)
        (audio_packet (ucast (audio_seq_num hnd)) ts (b_ssrc hnd) (UdpSend_set_hdb_freame_head fh0 fi) d)]"
proof -
  obtain vt uh where t: "UdpSend_get_time_tick (udp_hand p) (time_tick fi) = (vt, uh)" by fastforce
  let ?fh = "UdpSend_set_hdb_freame_head fh0 fi" and ?smp = "sint (fi_hight fi)"
  define torg where "torg = rebase_time (time_org hnd) vt"
  have ne: "RUdpS_AAC_CODEC_TYPE \<noteq> RUdpS_H264_CODEC_TYPE" "RUdpS_AAC_CODEC_TYPE \<noteq> RUdpS_JPEG_CODEC_TYPE"
    by (simp_all add: RUdpS_H264_CODEC_TYPE_def RUdpS_JPEG_CODEC_TYPE_def RUdpS_AAC_CODEC_TYPE_def
        RUdpS_MAKEFOURCC_def)
  have c: "codec ?fh = 1" using fi(1) ne by (simp add: UdpSend_set_hdb_freame_head_def Let_def)
  have uh: "src_data uh = Some (d @ x)" "datagram_of c uh = datagram_of c (udp_hand p)" for c
    using tick_keeps_address [where uh = "udp_hand p" and t = "time_tick fi"] p(2) t by simp_all
  have l: "8 \<le> length d" using d(1) by (simp add: single_adts_def)
  let ?pk = "audio_packet (ucast (audio_seq_num hnd)) (audio_ts ?smp (vt - torg)) (b_ssrc hnd) ?fh d"
  obtain uh' net' where e: "emit_all 1 [?pk] uh net = (uh', net')" by fastforce
  obtain nb' torg' where al: "audio_loop so (d @ x) 1366 ?smp (b_ssrc hnd) ?fh 1 7 (int (length d) - 7) (vt - torg)
      (int (length d) - 7) (replicate 2048 0) torg (audio_seq_num hnd) uh net =
      Some (0, nb', torg', audio_seq_num hnd + 1, uh', net')"
    using audio_loop_single [OF so, of ?fh d "replicate 2048 0" x ?smp "b_ssrc hnd" "vt - torg" torg
        "audio_seq_num hnd" uh net] c l d(2) e by auto
  have pk: "\<exists>v. peek (d @ x) i = Some v" if "0 \<le> i" "i < 8" for i
    using that l by (simp add: peek_def)
  obtain p3 p4 p5 where pe: "peek (d @ x) 3 = Some p3" "peek (d @ x) 4 = Some p4" "peek (d @ x) 5 = Some p5"
    using pk [of 3] pk [of 4] pk [of 5] by auto
  have off: "adts_offsets (d @ x) (replicate 5 0) 0 (map int [0..<nat (int (length d) - 4)]) = Some (replicate 5 0, 1)"
    using adts_offsets_single [OF d(1), of x] l by (simp add: nat_diff_distrib)
  have "audio_frames so (d @ x) (int (length d)) 1366 ?smp (b_ssrc hnd) ?fh (replicate 5 0) 1 (vt - torg)
      [0] (replicate 2048 0) torg (audio_seq_num hnd) uh net =
      Some (0, torg', audio_seq_num hnd + 1, uh', net')"
    using al by (simp add: peek_def eval_nat_numeral)
  then have "UdpSend_rtp_build_audio_data so (Some hnd) (int (length d)) (Some (d @ x)) ?smp 1380 vt (Some uh) ?fh net =
      Some (0, Some (hnd\<lparr>time_org := torg', audio_seq_num := audio_seq_num hnd + 1\<rparr>), Some uh', net')"
    using pe off by (simp add: UdpSend_rtp_build_audio_data_def Let_def torg_def del: audio_frames.simps)
  moreover have "sint (of_nat (length d) :: u32) = int (length d)" using d(2) by (intro sint_small) simp
  ultimately have "UdpSend_rtp_data so fh0 p fi net =
      Some (OPERATION_SUCC, p\<lparr>rtp_hand := Some (hnd\<lparr>time_org := torg', audio_seq_num := audio_seq_num hnd + 1\<rparr>),
        udp_hand := uh'\<rparr>, net')"
    using t uh(1) p(1) fi ne by (simp add: UdpSend_rtp_data_def MAX_VOD_MTU_def)
  moreover have "wire net' = wire net @ [datagram_of 1 (udp_hand p) ?pk]"
    using emit_all_wire [of 1 "[?pk]" uh net] uh(2) e by auto
  ultimately show ?thesis by blast
qed

subsection \<open>The receiver\<close>

text \<open>The rates the receiver derives from the code in the frame head.\<close>

lemma get_audio_packet:
  assumes "length p + 7 \<le> 1444" "length a = 4"
  shows "get_audio_frame_data (padded (pack_head h f @ a @ p)) (int (length (pack_head h f @ a @ p))) (replicate 1444 0) =
     Some (OnAudioAacFrame 4 (int (length p + 7)) @ p @ replicate (1444 - (length p + 7)) 0, int (length p + 7))"
proof -
  let ?b = "padded (pack_head h f @ a @ p)"
  have b: "?b = pack_head h f @ a @ p @ replicate (UdpRecv_MAX_UDP_LEN - (32 + length p)) 0"
    using assms(2) by (simp add: padded_pack add.commute add.left_commute)
  have "memcpy (replicate 1444 0) (int 7) ?b (int 32) (int (length p)) =
      Some (take 7 (replicate 1444 0) @ take (length p) (drop 32 ?b) @ drop (7 + length p) (replicate 1444 0))"
    using assms by (intro memcpy_nat) (simp_all add: b pkt_simps UdpRecv_MAX_UDP_LEN_def)
  moreover have "drop 32 ?b = p @ replicate (UdpRecv_MAX_UDP_LEN - (32 + length p)) 0"
    using assms(2) by (simp add: b pkt_simps)
  ultimately have m1: "memcpy (replicate 1444 0) 7 ?b 32 (int (length p)) =
      Some (replicate 7 0 @ p @ replicate (1444 - (length p + 7)) 0)"
    using assms(1) by (simp add: add.commute)
  let ?x = "replicate 7 0 @ p @ replicate (1444 - (length p + 7)) (0 :: byte)" and ?o = "OnAudioAacFrame 4 (7 + int (length p))"
  have lo: "length ?o = 7" by (simp add: OnAudioAacFrame_def Let_def)
  have "memcpy ?x (int 0) ?o (int 0) (int 7) = Some (take 0 ?x @ take 7 (drop 0 ?o) @ drop (0 + 7) ?x)"
    by (rule memcpy_nat) (simp_all add: lo)
  then have m2: "memcpy ?x 0 ?o 0 7 = Some (?o @ p @ replicate (1444 - (length p + 7)) 0)" using lo by simp
  have l: "int (length (pack_head h f @ a @ p)) - 28 - 4 = int (length p)" using assms(2) by (simp add: pkt_simps)
  show ?thesis
    using m1 m2 unfolding get_audio_frame_data_def aac_payload_demux_def l
    by (simp add: add.commute Let_def)
qed

lemma step_audio:
  assumes s: "thread_ok s" and a: "alloc_ok mv ma" and f: "codec f = 1" "samplerate f < 16"
    and p: "length p + 7 \<le> 1444" "length au = 4" "framelength f = of_nat (length p + 7)"
  shows "\<exists>s' si buf. recv_step (Packet (pack_head h f @ au @ p) now mv ma) s = Some s' \<and> thread_ok s'
    \<and> r_calls s' = r_calls s @ [(si, buf, int (length p + 7))]
    \<and> take (length p + 7) buf = OnAudioAacFrame 4 (int (length p + 7)) @ p
    \<and> si_type si = UdpRecv_AAC_CODEC_TYPE"
proof -
  let ?pkt = "pack_head h f @ au @ p" and ?n = "length p + 7"
  let ?area = "OnAudioAacFrame 4 (int ?n) @ p @ replicate (1444 - ?n) 0"
  have len: "28 \<le> length ?pkt" "length ?pkt \<le> UdpRecv_MAX_UDP_LEN"
    using p by (simp_all add: pkt_simps UdpRecv_MAX_UDP_LEN_def)
  have rx: "rx_frame (padded ?pkt) = f"
    using rx_frame_pack [of f h "au @ p @ replicate (UdpRecv_MAX_UDP_LEN - (28 + length (au @ p))) 0"] f
    by (simp add: padded_pack)
  obtain h1 where h1: "alloc_frames mv ma (r_handle s) = (True, h1)" "video_inv h1" "audio_inv h1"
    "same_control (r_handle s) h1"
    using alloc_frames_ok [OF _ a] s by (auto simp: thread_ok_def)
  obtain fh loc' where u: "unpack_packet (padded ?pkt) (int (length ?pkt)) (r_locals s) =
      Some (fh, ?area, int ?n, loc')" "m_data_codec fh = UdpRecv_AAC_CODEC_TYPE"
    "m_dw_segment fh = UdpRecv_INDEPENDENT_FRAME" "m_frame_length fh = of_nat ?n"
    using get_audio_packet [OF p(1,2), of h f] f(1) p(3)
    by (simp add: unpack_packet_def rx set_data_codec_def unpack_audio_def get_audio_frame_data_head_def Let_def
        UdpRecv_INDEPENDENT_FRAME_def del: length_append of_nat_add)
  have un: "unat (m_frame_length fh) = ?n" unfolding u(4) using p(1) by (intro unat_small) simp
  have sn: "sint (m_frame_length fh) = int ?n" unfolding u(4) using p(1) by (intro sint_small) simp
  have lo: "length (OnAudioAacFrame 4 (int ?n)) = 7" by (simp add: OnAudioAacFrame_def Let_def)
  have ta: "take ?n ?area = OnAudioAacFrame 4 (int ?n) @ p" using lo by simp
  have la: "length ?area = 1444" using p(1) lo by simp
  have le: "?n \<le> UdpRecv_MAX_AUDIO_LEN" using p(1) by (simp add: UdpRecv_MAX_AUDIO_LEN_def)
  obtain h2 where h2: "pkg_placed_in_frame_audio fh ?area (int ?n) now h1 = Some (UdpRecv_OPERATION_CONTINUE, h2)"
    "audio_inv h2" "take ?n (abuf h2) = take ?n ?area"
    using audio_frames.independent [OF h1(3) u(3) un [symmetric] _ le, of ?area "int ?n" now] la p(1) by auto
  have keep: "same_control h1 h2" "vbuf h2 = vbuf h1" "video_offset h2 = video_offset h1"
    using h2(1) by (auto simp: pkg_placed_in_frame_audio_def same_control_def vbuf_def split: bind_splits)
  have ad: "audio_data h2 = Some (abuf h2)" using audio_inv_Some [OF h2(2)] .
  have hf: "has_func h2" using keep(1) h1(4) s by (simp add: same_control_def thread_ok_def)
  let ?si = "udp_recv_set_stream_info fh (time_audio_tick (udp_recv_time_t h2))
      ((stream_info h2)\<lparr>video_toal_num := video_toal_num (stream_info h2) + 1\<rparr>)"
  have dl: "deliver_frame fh UdpRecv_FRAME_OK h2 = (h2\<lparr>stream_info := ?si\<rparr>, [(?si, abuf h2, int ?n)])"
    using hf u(2) ad sn by (simp add: deliver_frame_def Let_def)
  have md: "udp_recv_media_frame_data fh ?area (int ?n) now h1 = Some (UdpRecv_FRAME_OK, h2)"
    using h2(1) u(2) unfolding udp_recv_media_frame_data_def by (simp add: return_codes)
  have "recv_packet mv ma now ?pkt (r_locals s) (r_handle s) =
      Some (True, loc', h2\<lparr>stream_info := ?si\<rparr>, [(?si, abuf h2, int ?n)])"
    using recv_packet_ok [OF len h1(1) u(1) md] dl by simp
  then have "recv_step (Packet ?pkt now mv ma) s = Some \<lparr>r_handle = h2\<lparr>stream_info := ?si\<rparr>, r_locals = loc',
      r_running = True, r_calls = r_calls s @ [(?si, abuf h2, int ?n)]\<rparr>"
    using s by (simp add: recv_step_def thread_ok_def)
  moreover have "thread_ok \<lparr>r_handle = h2\<lparr>stream_info := ?si\<rparr>, r_locals = loc',
      r_running = True, r_calls = r_calls s @ [(?si, abuf h2, int ?n)]\<rparr>"
    using s h1(2,4) h2(2) keep
    by (auto simp: thread_ok_def same_control_def handle_inv_def audio_inv_def video_inv_def vbuf_def abuf_def)
  moreover have "si_type ?si = UdpRecv_AAC_CODEC_TYPE"
    using u(2) by (simp add: udp_recv_set_stream_info_def Let_def)
  ultimately show ?thesis using h2(3) ta
    by (intro exI [of _ "\<lparr>r_handle = h2\<lparr>stream_info := ?si\<rparr>, r_locals = loc',
      r_running = True, r_calls = r_calls s @ [(?si, abuf h2, int ?n)]\<rparr>"] exI [of _ ?si] exI [of _ "abuf h2"]) simp
qed

subsection \<open>The frame length in ADTS headers\<close>

lemma adts_framelen_bits:
  "adts_framelen (OnAudioAacFrame smp (int n) ! 3) (OnAudioAacFrame smp (int n) ! 4) (OnAudioAacFrame smp (int n) ! 5) =
     take_bit 11 (of_nat n) OR push_bit 9 (take_bit 2 (drop_bit 11 (of_nat n)))"
proof -
  have m: "(0x1800 :: u32) = push_bit 11 (mask 2)" "(0x1FF8 :: u32) = push_bit 3 (mask 10)" "(7 :: u32) = mask 3"
    "(3 :: byte) = mask 2" "(0xE0 :: byte) = push_bit 5 (mask 3)"
    by (simp_all add: mask_numeral)
  have c: "push_bit 6 (2 AND 3 :: byte) = push_bit 7 1" by simp
  have "OnAudioAacFrame smp (int n) ! 3 = push_bit 7 1 OR ucast (drop_bit 11 (of_nat n AND 0x1800 :: u32))"
    "OnAudioAacFrame smp (int n) ! 4 = ucast (drop_bit 3 (of_nat n AND 0x1FF8 :: u32))"
    "OnAudioAacFrame smp (int n) ! 5 = ucast (push_bit 5 (of_nat n AND 7 :: u32)) OR 1"
    unfolding OnAudioAacFrame_def Let_def c [symmetric] by (simp_all add: eval_nat_numeral)
  note d = this [unfolded m]
  show ?thesis
    unfolding adts_framelen_def d m
  proof (rule bit_word_eqI)
    fix k assume "k < LENGTH(32)"
    then consider "k < 3" | "3 \<le> k \<and> k < 9" | "k = 9" | "k = 10" | "11 \<le> k" by fastforce
    then show "bit (push_bit 9 (ucast ((push_bit 7 1 OR ucast (drop_bit 11 (of_nat n AND push_bit 11 (mask 2) :: u32))) AND mask 2 :: byte))
       OR push_bit 3 (ucast (ucast (drop_bit 3 (of_nat n AND push_bit 3 (mask 10) :: u32)) :: byte))
       OR drop_bit 5 (ucast ((ucast (push_bit 5 (of_nat n AND mask 3 :: u32)) OR 1) AND push_bit 5 (mask 3) :: byte)) :: u32) k =
      bit (take_bit 11 (of_nat n) OR push_bit 9 (take_bit 2 (drop_bit 11 (of_nat n))) :: u32) k"
      by cases (auto simp: bit_simps)
  qed
qed

text \<open>
  the length field of the ADTS headers the receiver builds, read the way the sender reads it, gives the
  frame length exactly for frames below 2048 bytes: the two high bits are shifted by 9 instead of 11.
\<close>

theorem adts_length_readable:
  assumes "n < 8192"
  shows "adts_framelen (OnAudioAacFrame smp (int n) ! 3) (OnAudioAacFrame smp (int n) ! 4)
           (OnAudioAacFrame smp (int n) ! 5) = of_nat n \<longleftrightarrow> n < 2048"
proof -
  let ?w = "of_nat n :: u32"
  have un: "unat ?w = n" using assms by (intro unat_small) simp
  show ?thesis
  proof
    assume e: "adts_framelen (OnAudioAacFrame smp (int n) ! 3) (OnAudioAacFrame smp (int n) ! 4)
           (OnAudioAacFrame smp (int n) ! 5) = ?w"
    have "take_bit 11 ?w = take_bit 11 (take_bit 11 ?w OR push_bit 9 (take_bit 2 (drop_bit 11 ?w)))"
      using e unfolding adts_framelen_bits by simp
    also have "\<dots> = take_bit 11 ?w OR push_bit 9 (take_bit 2 (drop_bit 11 ?w))"
      by (rule bit_word_eqI) (auto simp: bit_simps)
    also have "\<dots> = ?w" using e unfolding adts_framelen_bits .
    finally have "take_bit 11 n = n" using un by (metis unsigned_take_bit_eq)
    then show "n < 2048" by (simp add: take_bit_nat_eq_self_iff)
  next
    assume n: "n < 2048"
    have "take_bit 11 ?w = ?w"
      using un n by (intro word_unat_eq_iff [THEN iffD2]) (simp add: unsigned_take_bit_eq take_bit_nat_eq_self)
    moreover have "drop_bit 11 ?w = 0"
      using un n by (intro word_unat_eq_iff [THEN iffD2]) (simp add: drop_bit_eq_div unat_div_distrib)
    ultimately show "adts_framelen (OnAudioAacFrame smp (int n) ! 3) (OnAudioAacFrame smp (int n) ! 4)
           (OnAudioAacFrame smp (int n) ! 5) = ?w"
      unfolding adts_framelen_bits by simp
  qed
qed

theorem adts_length_readable_witness:
  "(adts_framelen (OnAudioAacFrame 4 3000 ! 3) (OnAudioAacFrame 4 3000 ! 4) (OnAudioAacFrame 4 3000 ! 5) \<noteq> 3000)
   \<and> adts_framelen (OnAudioAacFrame 4 1371 ! 3) (OnAudioAacFrame 4 1371 ! 4) (OnAudioAacFrame 4 1371 ! 5) = 1371"
  using adts_length_readable [of 3000 4] adts_length_readable [of 1371 4] by simp

end
