(* ===== verification/RecvClock.thy ===== *)
theory RecvClock
  imports UdpRecv
begin

section \<open>The receiver's clocks (pkg\_placed\_in\_frame and pkg\_placed\_in\_frame\_audio)\<close>

text \<open>
  The receiver turns the ticks of a stream into a clock of its own that starts at 0 and survives restarts
  of the sender: \<^verbatim>\<open>video_init_time\<close> and \<^verbatim>\<open>video_cal_time\<close> are moved when the ticks jump.  The locale
  \<open>stream_clock\<close> states what such a clock does with one packet; \<open>clock_step\<close> is the clock without the two
  fields, and the video and audio functions refine it.
\<close>

definition clock_step ::
  "(u32 \<Rightarrow> u32 \<Rightarrow> bool) \<Rightarrow> u32 \<times> u32 \<Rightarrow> u32 \<times> u32 \<times> u32 \<Rightarrow> u32 \<times> u32 \<times> u32" where
  "clock_step jump p c =
     (case p of (tick, now) \<Rightarrow> case c of (v, prev, loc) \<Rightarrow>
        (v + (if jump prev tick then udp_recv_getIntervalTime loc now else tick - prev), tick, now))"

text \<open>When the ticks jump: backwards, or by more than 800 ms (not for JPEG pictures).\<close>

definition examine_jump :: "u32 \<Rightarrow> u32 \<Rightarrow> bool" where
  "examine_jump prev tick \<longleftrightarrow> tick < prev \<or> tick - prev > UdpRecv_EXAMIN_TIME"

definition backward_jump :: "u32 \<Rightarrow> u32 \<Rightarrow> bool" where
  "backward_jump prev tick \<longleftrightarrow> tick < prev"

locale stream_clock =
  fixes place :: "udp_recv_freame_head_t \<Rightarrow> u32 \<Rightarrow> 't \<Rightarrow> 't"
    and valid :: "udp_recv_freame_head_t \<Rightarrow> bool"
    and started :: "'t \<Rightarrow> bool" and ok :: "'t \<Rightarrow> bool"
    and clk :: "'t \<Rightarrow> u32 \<times> u32 \<times> u32"
    and jump :: "u32 \<Rightarrow> u32 \<Rightarrow> bool"
  assumes first: "\<not> started t \<Longrightarrow> valid fh \<Longrightarrow>
      ok (place fh now t) \<and> clk (place fh now t) = (0, m_time_tick fh, now)"
    and step: "ok t \<Longrightarrow> valid fh \<Longrightarrow>
      ok (place fh now t) \<and> clk (place fh now t) = clock_step jump (m_time_tick fh, now) (clk t)"
begin

definition run :: "(udp_recv_freame_head_t \<times> u32) list \<Rightarrow> 't \<Rightarrow> 't" where
  "run ps t = fold (\<lambda>(fh, now). place fh now) ps t"

definition ticks :: "(udp_recv_freame_head_t \<times> u32) list \<Rightarrow> (u32 \<times> u32) list" where
  "ticks ps = map (\<lambda>(fh, now). (m_time_tick fh, now)) ps"

lemma run_ok:
  assumes "ok t" "list_all (\<lambda>p. valid (fst p)) ps"
  shows "ok (run ps t) \<and> clk (run ps t) = fold (clock_step jump) (ticks ps) (clk t)"
  using assms
proof (induction ps arbitrary: t)
  case (Cons p ps)
  obtain fh now where p: "p = (fh, now)" by (cases p)
  have "ok (place fh now t)" "clk (place fh now t) = clock_step jump (m_time_tick fh, now) (clk t)"
    using step [OF Cons.prems(1)] Cons.prems(2) by (simp_all add: p)
  then show ?case using Cons.IH [of "place fh now t"] Cons.prems(2) by (simp add: p run_def ticks_def)
qed (simp add: run_def ticks_def)

lemma refines:
  assumes "\<not> started t" "list_all (\<lambda>p. valid (fst p)) ((fh, now) # ps)"
  shows "clk (run ((fh, now) # ps) t) = fold (clock_step jump) (ticks ps) (0, m_time_tick fh, now)"
  using run_ok [of "place fh now t" ps] first [OF assms(1)] assms(2) by (simp add: run_def)

lemma steady:
  assumes "successively (\<lambda>x y. \<not> jump x y) (x # map fst xs)"
  shows "fst (fold (clock_step jump) xs (v, x, l)) = v + (last (x # map fst xs) - x)"
  using assms
proof (induction xs arbitrary: v x l)
  case (Cons p ps)
  obtain tick now where p: "p = (tick, now)" by (cases p)
  have "\<not> jump x tick" using Cons.prems by (simp add: p)
  then have c: "clock_step jump p (v, x, l) = (v + (tick - x), tick, now)" by (simp add: p clock_step_def)
  have "fst (fold (clock_step jump) ps (v + (tick - x), tick, now)) =
      v + (tick - x) + (last (tick # map fst ps) - tick)"
    using Cons.IH [of tick "v + (tick - x)" now] Cons.prems by (simp add: p)
  then show ?case using c by (simp add: p)
qed simp

text \<open>Without jumps the clock is the distance to the first tick.\<close>

lemma in_order:
  assumes "\<not> started t" "list_all (\<lambda>p. valid (fst p)) ((fh, now) # ps)"
    and "successively (\<lambda>x y. \<not> jump x y) (map (\<lambda>p. m_time_tick (fst p)) ((fh, now) # ps))"
  shows "fst (clk (run ((fh, now) # ps) t)) =
      last (map (\<lambda>p. m_time_tick (fst p)) ((fh, now) # ps)) - m_time_tick fh"
proof -
  have e: "map fst (ticks ps) = map (\<lambda>p. m_time_tick (fst p)) ps" by (simp add: ticks_def case_prod_beta)
  show ?thesis
    using refines [OF assms(1,2)] steady [of "m_time_tick fh" "ticks ps" 0 now] assms(3) by (simp add: e)
qed

end

subsection \<open>The three clocks\<close>

definition video_clk :: "udp_recv_time \<Rightarrow> u32 \<times> u32 \<times> u32" where
  "video_clk t = (time_video_tick t, prev_video_time_tick t, rt_prev_video_time t)"

definition audio_clk :: "udp_recv_time \<Rightarrow> u32 \<times> u32 \<times> u32" where
  "audio_clk t = (time_audio_tick t, prev_audio_time_tick t, rt_prev_audio_time t)"

text \<open>The clock is its value at the last jump plus the distance from there.\<close>

definition video_clock_inv :: "udp_recv_time \<Rightarrow> bool" where
  "video_clock_inv t \<longleftrightarrow> init_video_flag t \<noteq> 0 \<and> video_init_time t \<le> prev_video_time_tick t
     \<and> time_video_tick t = (prev_video_time_tick t - video_init_time t) + video_cal_time t"

definition audio_clock_inv :: "udp_recv_time \<Rightarrow> bool" where
  "audio_clock_inv t \<longleftrightarrow> init_audio_flag t \<noteq> 0 \<and> audio_init_time t \<le> prev_audio_time_tick t
     \<and> time_audio_tick t = (prev_audio_time_tick t - audio_init_time t) + audio_cal_time t"

lemma distance_eq: "(if (a::u32) > b then a - b else b - a) = a - b" if "b \<le> a"
  using that by (auto simp: not_less)

lemma jpeg_interval: "udp_recv_getJpgIntervalTime l now = udp_recv_getIntervalTime l now"
  by (simp add: udp_recv_getJpgIntervalTime_def udp_recv_getIntervalTime_def)

interpretation h264_clock: stream_clock place_video_time "\<lambda>fh. m_data_codec fh = UdpRecv_H264_CODEC_TYPE"
  "\<lambda>t. init_video_flag t \<noteq> 0" video_clock_inv video_clk examine_jump
proof
  fix t :: udp_recv_time and fh :: udp_recv_freame_head_t and now :: u32
  assume c: "m_data_codec fh = UdpRecv_H264_CODEC_TYPE"
  {
    assume "\<not> init_video_flag t \<noteq> 0"
    then show "video_clock_inv (place_video_time fh now t) \<and> video_clk (place_video_time fh now t) = (0, m_time_tick fh, now)"
      using c by (simp add: place_video_time_def video_clock_inv_def video_clk_def Let_def)
  next
    assume i: "video_clock_inv t"
    show "video_clock_inv (place_video_time fh now t) \<and>
        video_clk (place_video_time fh now t) = clock_step examine_jump (m_time_tick fh, now) (video_clk t)"
    proof (cases "examine_jump (prev_video_time_tick t) (m_time_tick fh)")
      case True
      then show ?thesis using i c
        by (auto simp: place_video_time_def video_clock_inv_def video_clk_def Let_def clock_step_def examine_jump_def)
    next
      case False
      then have le: "video_init_time t \<le> m_time_tick fh" "prev_video_time_tick t \<le> m_time_tick fh"
        using i by (auto simp: examine_jump_def video_clock_inv_def)
      then show ?thesis using False i c
        by (auto simp: place_video_time_def video_clock_inv_def video_clk_def Let_def clock_step_def
            examine_jump_def distance_eq)
    qed
  }
qed

interpretation jpeg_clock: stream_clock place_video_time "\<lambda>fh. m_data_codec fh = UdpRecv_JPEG_CODEC_TYPE"
  "\<lambda>t. init_video_flag t \<noteq> 0" video_clock_inv video_clk backward_jump
proof
  fix t :: udp_recv_time and fh :: udp_recv_freame_head_t and now :: u32
  assume c: "m_data_codec fh = UdpRecv_JPEG_CODEC_TYPE"
  {
    assume "\<not> init_video_flag t \<noteq> 0"
    then show "video_clock_inv (place_video_time fh now t) \<and> video_clk (place_video_time fh now t) = (0, m_time_tick fh, now)"
      using c by (simp add: place_video_time_def video_clock_inv_def video_clk_def Let_def)
  next
    assume i: "video_clock_inv t"
    show "video_clock_inv (place_video_time fh now t) \<and>
        video_clk (place_video_time fh now t) = clock_step backward_jump (m_time_tick fh, now) (video_clk t)"
    proof (cases "backward_jump (prev_video_time_tick t) (m_time_tick fh)")
      case True
      then show ?thesis using i c
        by (auto simp: place_video_time_def video_clock_inv_def video_clk_def Let_def clock_step_def backward_jump_def jpeg_interval)
    next
      case False
      then have le: "video_init_time t \<le> m_time_tick fh" "prev_video_time_tick t \<le> m_time_tick fh"
        using i by (auto simp: backward_jump_def video_clock_inv_def)
      then show ?thesis using False i c
        by (auto simp: place_video_time_def video_clock_inv_def video_clk_def Let_def clock_step_def
            backward_jump_def distance_eq)
    qed
  }
qed

interpretation audio_clock: stream_clock place_audio_time "\<lambda>fh. True"
  "\<lambda>t. init_audio_flag t \<noteq> 0" audio_clock_inv audio_clk examine_jump
proof
  fix t :: udp_recv_time and fh :: udp_recv_freame_head_t and now :: u32
  {
    assume "\<not> init_audio_flag t \<noteq> 0"
    then show "audio_clock_inv (place_audio_time fh now t) \<and> audio_clk (place_audio_time fh now t) = (0, m_time_tick fh, now)"
      by (simp add: place_audio_time_def audio_clock_inv_def audio_clk_def Let_def)
  next
    assume i: "audio_clock_inv t"
    show "audio_clock_inv (place_audio_time fh now t) \<and>
        audio_clk (place_audio_time fh now t) = clock_step examine_jump (m_time_tick fh, now) (audio_clk t)"
    proof (cases "examine_jump (prev_audio_time_tick t) (m_time_tick fh)")
      case True
      then show ?thesis using i
        by (auto simp: place_audio_time_def audio_clock_inv_def audio_clk_def Let_def clock_step_def examine_jump_def)
    next
      case False
      then have le: "audio_init_time t \<le> m_time_tick fh" "prev_audio_time_tick t \<le> m_time_tick fh"
        using i by (auto simp: examine_jump_def audio_clock_inv_def)
      then show ?thesis using False i
        by (auto simp: place_audio_time_def audio_clock_inv_def audio_clk_def Let_def clock_step_def
            examine_jump_def distance_eq)
    qed
  }
qed


text \<open>
  C30: The receiver's H.264 clock refines the reference clock: whatever the ticks and local times of the packets
  are, from the first packet on it starts at 0, moves by the difference of the ticks while they are in order
  and at most 800 ms apart, and by the local time that passed, at least 1 ms, when they jump.
\<close>

theorem recv_video_clock_refines:
  assumes "init_video_flag t = 0" "list_all (\<lambda>p. m_data_codec (fst p) = UdpRecv_H264_CODEC_TYPE) ((fh, now) # ps)"
  shows "video_clk (fold (\<lambda>(fh, now). place_video_time fh now) ((fh, now) # ps) t) =
      fold (clock_step examine_jump) (map (\<lambda>(fh, now). (m_time_tick fh, now)) ps) (0, m_time_tick fh, now)"
  using h264_clock.refines [of t fh now ps] assms by (simp add: h264_clock.run_def h264_clock.ticks_def)

definition sample_clock :: udp_recv_time where
  "sample_clock = udp_recv_time_t (the (udp_recv_init True True
     \<lparr>rc_ip = [], rc_port = 5000, rc_user_data = 0, rc_has_func = True\<rparr>))"

definition tick_head :: "u32 \<Rightarrow> udp_recv_freame_head_t" where
  "tick_head x = head_zero\<lparr>m_data_codec := UdpRecv_H264_CODEC_TYPE, m_time_tick := x\<rparr>"

lemma sample_clock_fresh: "init_video_flag sample_clock = 0" "init_audio_flag sample_clock = 0"
  by (simp_all add: sample_clock_def udp_recv_init_def Let_def)

text \<open>Ticks 1000, 1040, then a restart of the sender at 5, 70 ms later.\<close>

theorem recv_video_clock_refines_witness:
  "video_clk (fold (\<lambda>(fh, now). place_video_time fh now)
     [(tick_head 1000, 50), (tick_head 1040, 90), (tick_head 5, 160)] sample_clock) = (110, 5, 160)"
proof -
  have "video_clk (fold (\<lambda>(fh, now). place_video_time fh now)
      [(tick_head 1000, 50), (tick_head 1040, 90), (tick_head 5, 160)] sample_clock) =
    fold (clock_step examine_jump) (map (\<lambda>(fh, now). (m_time_tick fh, now)) [(tick_head 1040, 90), (tick_head 5, 160)])
      (0, m_time_tick (tick_head 1000), 50)"
    by (rule recv_video_clock_refines) (simp_all add: sample_clock_fresh tick_head_def)
  also have "\<dots> = (110, 5, 160)"
    by (simp add: tick_head_def clock_step_def examine_jump_def UdpRecv_EXAMIN_TIME_def
        udp_recv_getIntervalTime_def Let_def)
  finally show ?thesis .
qed

text \<open>
  While the ticks of a stream come in order, the audio clock, like the video clocks, is exactly the distance
  of the last tick to the first one, whatever the local clock does.
\<close>

theorem recv_audio_clock_in_order:
  assumes "init_audio_flag t = 0"
    and "successively (\<lambda>x y. x \<le> y \<and> y - x \<le> UdpRecv_EXAMIN_TIME) (map (\<lambda>p. m_time_tick (fst p)) (p # ps))"
  shows "time_audio_tick (fold (\<lambda>(fh, now). place_audio_time fh now) (p # ps) t) =
      last (map (\<lambda>p. m_time_tick (fst p)) (p # ps)) - m_time_tick (fst p)"
proof -
  have "successively (\<lambda>x y. \<not> examine_jump x y) (map (\<lambda>p. m_time_tick (fst p)) (p # ps))"
    by (rule successively_mono [OF assms(2)]) (auto simp: examine_jump_def)
  then show ?thesis
    using audio_clock.in_order [of t "fst p" "snd p" ps] assms(1)
    by (simp add: audio_clock.run_def audio_clk_def case_prod_beta list_all_iff)
qed

theorem recv_audio_clock_in_order_witness:
  "time_audio_tick (fold (\<lambda>(fh, now). place_audio_time fh now)
     [(tick_head 1000, 50), (tick_head 1023, 2), (tick_head 1046, 9)] sample_clock) = 46"
  using recv_audio_clock_in_order [of sample_clock "(tick_head 1000, 50)" "[(tick_head 1023, 2), (tick_head 1046, 9)]"]
  by (simp add: sample_clock_fresh tick_head_def UdpRecv_EXAMIN_TIME_def)

end
