(* ===== verification/TcpFrames.thy ===== *)
theory TcpFrames
  imports MediaFrame
begin

section \<open>Frames put together from TCP packets\<close>

text \<open>
  A run of \<^verbatim>\<open>pkg_placed_in_frame\<close> over the packets of a stream: when the offset is clean a frame cut into a
  start packet, middle packets and a last packet is put together again; when it is not, the start packet of
  the next frame is thrown away and the frame is reported complete without its beginning.
\<close>

fun place_packets ::
  "u32 \<Rightarrow> (hdb_freame_head_t \<times> byte list) list \<Rightarrow> stream_handle \<Rightarrow> (int list \<times> stream_handle) option" where
  "place_packets now [] h = Some ([], h)"
| "place_packets now ((fh, bs) # ps) h = do {
     (r, h) \<leftarrow> room_pkg_placed_in_frame fh bs (int (length bs)) now h;
     (rs, h) \<leftarrow> place_packets now ps h;
     Some (r # rs, h)
   }"

definition segment_head :: "nat \<Rightarrow> u32 \<Rightarrow> hdb_freame_head_t \<Rightarrow> bool" where
  "segment_head n seg fh \<longleftrightarrow> m_frame_length fh = of_nat n \<and> m_dw_segment fh = seg"

lemma u32_frame:
  assumes "a \<le> MAX_FRAME_LEN"
  shows "unat (of_nat a :: u32) = a" "uint (of_nat a :: u32) = int a"
  using assms by (simp_all add: MAX_FRAME_LEN_def unsigned_of_nat take_bit_nat_eq_self take_bit_int_eq_self)

lemma u32_frame_less:
  assumes "a \<le> MAX_FRAME_LEN" "b \<le> MAX_FRAME_LEN"
  shows "(of_nat a < (of_nat b :: u32)) = (a < b)"
  using u32_frame [OF assms(1)] u32_frame [OF assms(2)] by (simp add: word_less_nat_alt)

lemma seg_values:
  "UdpRecv_MIDDLE_FRAME \<noteq> UdpRecv_START_FRAME" "UdpRecv_LAST_FRAME \<noteq> UdpRecv_START_FRAME"
  "UdpRecv_LAST_FRAME \<noteq> UdpRecv_MIDDLE_FRAME"
  by (simp_all add: UdpRecv_MIDDLE_FRAME_def UdpRecv_START_FRAME_def UdpRecv_LAST_FRAME_def)

text \<open>One packet, with the offset as a number.\<close>

lemma tcp_start:
  assumes "segment_head n UdpRecv_START_FRAME fh" "n \<le> MAX_FRAME_LEN" "frame_data h = Some buf"
    "length buf = MAX_FRAME_LEN" "sh_offset h = of_nat off" "off + length bs \<le> n"
  shows "\<exists>h'. room_pkg_placed_in_frame fh bs (int (length bs)) now h = Some (0, h')
    \<and> frame_data h' = Some (bs @ drop (length bs) buf) \<and> sh_offset h' = of_nat (length bs)"
proof -
  have b: "length bs \<le> MAX_FRAME_LEN" "off + length bs \<le> MAX_FRAME_LEN" using assms(2,6) by simp_all
  then have "memcpy buf 0 bs 0 (int (length bs)) = Some (bs @ drop (length bs) buf)"
    using memcpy_nat [of 0 "length bs" buf 0 bs] assms(4) by simp
  moreover have "\<not> (of_nat n :: u32) < of_nat off + of_nat (length bs)"
    using u32_frame_less [OF assms(2) b(2)] assms(6) by simp
  moreover have "unat (of_nat n :: u32) \<le> MAX_FRAME_LEN" using u32_frame(1) [OF assms(2)] assms(2) by simp
  ultimately show ?thesis
    using assms(1,3,5) by (simp add: room_pkg_placed_in_frame_def room_place_segment_def segment_head_def
        UdpRecv_OPERATION_SUCC_def)
qed

lemma tcp_next:
  assumes "segment_head n seg fh" "seg = UdpRecv_MIDDLE_FRAME \<or> seg = UdpRecv_LAST_FRAME" "n \<le> MAX_FRAME_LEN"
    "frame_data h = Some (pre @ rest)" "length (pre @ rest) = MAX_FRAME_LEN" "sh_offset h = of_nat (length pre)"
    "length pre + length bs \<le> n"
  shows "\<exists>h'. room_pkg_placed_in_frame fh bs (int (length bs)) now h
      = Some (if seg = UdpRecv_LAST_FRAME then 1 else 0, h')
    \<and> frame_data h' = Some (pre @ bs @ drop (length bs) rest)
    \<and> sh_offset h' = (if seg = UdpRecv_LAST_FRAME then 0 else of_nat (length (pre @ bs)))"
proof -
  have b: "length pre \<le> MAX_FRAME_LEN" "length pre + length bs \<le> MAX_FRAME_LEN" using assms(3,7) by simp_all
  have "memcpy (pre @ rest) (int (length pre)) bs 0 (int (length bs)) = Some (pre @ bs @ drop (length bs) rest)"
    using memcpy_nat [of "length pre" "length bs" "pre @ rest" 0 bs] assms(5) b(2) by simp
  moreover have "\<not> (of_nat n :: u32) < of_nat (length pre) + of_nat (length bs)"
    using u32_frame_less [OF assms(3) b(2)] assms(7) by simp
  ultimately show ?thesis
    using assms(1,2,4,6) seg_values u32_frame(2) [OF b(1)]
    by (auto simp: room_pkg_placed_in_frame_def room_place_segment_def segment_head_def
        UdpRecv_OPERATION_SUCC_def UdpRecv_OPERATION_CONTINUE_def)
qed

lemma tcp_rest:
  assumes "n \<le> MAX_FRAME_LEN" "frame_data h = Some (pre @ rest)" "length (pre @ rest) = MAX_FRAME_LEN"
    "sh_offset h = of_nat (length pre)" "list_all (\<lambda>p. segment_head n UdpRecv_MIDDLE_FRAME (fst p)) ms"
    "segment_head n UdpRecv_LAST_FRAME fl" "length pre + length (concat (map snd ms) @ lbs) = n"
  shows "\<exists>h'. place_packets now (ms @ [(fl, lbs)]) h = Some (replicate (length ms) 0 @ [1], h')
    \<and> frame_data h' = Some (pre @ concat (map snd ms) @ lbs @ drop (n - length pre) rest) \<and> sh_offset h' = 0"
  using assms
proof (induction ms arbitrary: h pre rest)
  case Nil
  then show ?case using tcp_next [OF Nil.prems(6) _ Nil.prems(1-4), of lbs now] by auto
next
  case (Cons m ms)
  obtain fh bs where m: "m = (fh, bs)" by (cases m)
  have sh: "segment_head n UdpRecv_MIDDLE_FRAME fh" using Cons.prems(5) m by simp
  have "length pre + length bs \<le> n" using Cons.prems(7) m by simp
  from tcp_next [OF sh _ Cons.prems(1-4) this, of now] seg_values(3)
  obtain h1 where h1: "room_pkg_placed_in_frame fh bs (int (length bs)) now h = Some (0, h1)"
    "frame_data h1 = Some ((pre @ bs) @ drop (length bs) rest)" "sh_offset h1 = of_nat (length (pre @ bs))" by auto
  have "length ((pre @ bs) @ drop (length bs) rest) = MAX_FRAME_LEN" "length (pre @ bs) + length (concat (map snd ms) @ lbs) = n"
    using Cons.prems(1,3,7) m by auto
  moreover have "n - length pre = n - length (pre @ bs) + length bs" using \<open>length pre + length bs \<le> n\<close> by simp
  ultimately show ?case using Cons.IH [OF Cons.prems(1) h1(2) _ h1(3) _ Cons.prems(6)] Cons.prems(5) h1(1) m by auto
qed

text \<open>
  With a clean offset, the packets of a frame of any size up to the buffer, cut anywhere into a start packet,
  middle packets and a last packet, are put together again: every packet but the last is answered with 0, the last
  one with 1, the buffer then starts with the frame, and the offset is clean for the next one.
\<close>

theorem room_frame_assembled:
  assumes "frame_data h = Some buf" "length buf = MAX_FRAME_LEN" "sh_offset h = 0"
    and "segment_head (length d) UdpRecv_START_FRAME fs" "segment_head (length d) UdpRecv_LAST_FRAME fl"
    and "list_all (\<lambda>p. segment_head (length d) UdpRecv_MIDDLE_FRAME (fst p)) ms"
    and "d = s @ concat (map snd ms) @ l" "length d \<le> MAX_FRAME_LEN"
  shows "\<exists>h'. place_packets now ((fs, s) # ms @ [(fl, l)]) h = Some (0 # replicate (length ms) 0 @ [1], h')
    \<and> frame_data h' = Some (d @ drop (length d) buf) \<and> sh_offset h' = 0"
proof -
  have "0 + length s \<le> length d" using assms(7) by simp
  from tcp_start [OF assms(4,8,1,2) _ this, of now] assms(3)
  obtain h1 where h1: "room_pkg_placed_in_frame fs s (int (length s)) now h = Some (0, h1)"
    "frame_data h1 = Some (s @ drop (length s) buf)" "sh_offset h1 = of_nat (length s)" by auto
  have "length (s @ drop (length s) buf) = MAX_FRAME_LEN" "length s + length (concat (map snd ms) @ l) = length d"
    using assms(2,7,8) by auto
  from tcp_rest [OF assms(8) h1(2) this(1) h1(3) assms(6,5) this(2), of now]
  show ?thesis using h1(1) assms(7) by (auto simp: add.commute)
qed

definition tcp_head :: "u32 \<Rightarrow> u32 \<Rightarrow> hdb_freame_head_t" where
  "tcp_head seg n = head_zero\<lparr>m_dw_segment := seg, m_frame_length := n, m_data_codec := UdpRecv_H264_CODEC_TYPE\<rparr>"

definition fresh_stream :: stream_handle where
  "fresh_stream = stream_handle_zero\<lparr>frame_data := Some (replicate MAX_FRAME_LEN 0)\<rparr>"

lemma fresh_fields:
  "frame_data (fresh_stream\<lparr>sh_offset := x\<rparr>) = Some (replicate MAX_FRAME_LEN 0)" "frame_data fresh_stream = Some (replicate MAX_FRAME_LEN 0)"
  "length (replicate MAX_FRAME_LEN (0 :: byte)) = MAX_FRAME_LEN" "sh_offset fresh_stream = 0"
  "k \<le> 5 \<Longrightarrow> k \<le> MAX_FRAME_LEN"
  by (simp_all add: fresh_stream_def stream_handle_zero_def MAX_FRAME_LEN_def)

theorem room_frame_assembled_witness:
  "\<exists>h'. place_packets 7 [(tcp_head UdpRecv_START_FRAME 5, [1, 2]), (tcp_head UdpRecv_MIDDLE_FRAME 5, [3]),
      (tcp_head UdpRecv_LAST_FRAME 5, [4, 5])] fresh_stream = Some ([0, 0, 1], h')
    \<and> frame_data h' = Some ([1, 2, 3, 4, 5] @ drop 5 (replicate MAX_FRAME_LEN 0)) \<and> sh_offset h' = 0"
proof -
  have h: "segment_head (length [1, 2, 3, 4, 5 :: byte]) UdpRecv_START_FRAME (tcp_head UdpRecv_START_FRAME 5)"
    "segment_head (length [1, 2, 3, 4, 5 :: byte]) UdpRecv_LAST_FRAME (tcp_head UdpRecv_LAST_FRAME 5)"
    "list_all (\<lambda>p. segment_head (length [1, 2, 3, 4, 5 :: byte]) UdpRecv_MIDDLE_FRAME (fst p))
       [(tcp_head UdpRecv_MIDDLE_FRAME 5, [3 :: byte])]"
    "[1, 2, 3, 4, 5 :: byte] = [1, 2] @ concat (map snd [(tcp_head UdpRecv_MIDDLE_FRAME 5, [3 :: byte])]) @ [4, 5]"
    by (simp_all add: segment_head_def tcp_head_def)
  have "length [1, 2, 3, 4, 5 :: byte] \<le> MAX_FRAME_LEN" by (simp add: MAX_FRAME_LEN_def)
  from room_frame_assembled [OF fresh_fields(2-4) h this, of 7] show ?thesis
    by (simp only: append.simps length_Cons list.size numeral_nat replicate.simps eval_nat_numeral)
qed

text \<open>
  A frame that follows an incomplete one loses its beginning: the start packet is measured against the offset the
  incomplete frame left, and when that is further than the last packet is long the start packet is dropped, the last
  packet is put in its place, and the frame is reported complete.
\<close>

theorem stale_offset_drops_start:
  assumes "frame_data h = Some buf" "length buf = MAX_FRAME_LEN" "sh_offset h = of_nat off" "off \<le> MAX_FRAME_LEN"
    and "segment_head (length (s @ l)) UdpRecv_START_FRAME fs" "segment_head (length (s @ l)) UdpRecv_LAST_FRAME fl"
    and "off + length s \<le> MAX_FRAME_LEN" "length (s @ l) \<le> MAX_FRAME_LEN" "length l < off"
  shows "\<exists>h'. place_packets now [(fs, s), (fl, l)] h = Some ([-1, 1], h')
    \<and> frame_data h' = Some (l @ drop (length l) buf)"
proof -
  let ?h = "h\<lparr>recv_time_t := room_video_time fs now (av_connect_flag h) (recv_time_t h), frame_data := Some buf, sh_offset := 0\<rparr>"
  have "(of_nat (length (s @ l)) :: u32) < of_nat (off + length s)"
    using u32_frame_less [OF assms(8,7)] assms(9) by simp
  moreover have "unat (of_nat (length (s @ l)) :: u32) \<le> MAX_FRAME_LEN" using u32_frame(1) [OF assms(8)] assms(8) by simp
  ultimately have "room_pkg_placed_in_frame fs s (int (length s)) now h = Some (-1, ?h)"
    using assms(1,3,5) by (simp add: room_pkg_placed_in_frame_def room_place_segment_def segment_head_def
        UdpRecv_OPERATION_ERR_def)
  moreover have "\<exists>h'. room_pkg_placed_in_frame fl l (int (length l)) now ?h = Some (1, h')
      \<and> frame_data h' = Some (l @ drop (length l) buf)"
    using tcp_next [OF assms(6) _ assms(8), of ?h "[]" buf l now] assms(2) by auto
  ultimately show ?thesis by auto
qed

theorem stale_offset_drops_start_witness:
  "\<exists>h'. place_packets 7 [(tcp_head UdpRecv_START_FRAME 3, [1, 2]), (tcp_head UdpRecv_LAST_FRAME 3, [3])]
      (fresh_stream\<lparr>sh_offset := 2\<rparr>) = Some ([-1, 1], h')
    \<and> frame_data h' = Some ([3] @ drop 1 (replicate MAX_FRAME_LEN 0))"
proof -
  have h: "sh_offset (fresh_stream\<lparr>sh_offset := 2\<rparr>) = of_nat 2" "2 \<le> MAX_FRAME_LEN"
    "segment_head (length ([1, 2 :: byte] @ [3])) UdpRecv_START_FRAME (tcp_head UdpRecv_START_FRAME 3)"
    "segment_head (length ([1, 2 :: byte] @ [3])) UdpRecv_LAST_FRAME (tcp_head UdpRecv_LAST_FRAME 3)"
    "2 + length [1, 2 :: byte] \<le> MAX_FRAME_LEN" "length ([1, 2 :: byte] @ [3]) \<le> MAX_FRAME_LEN" "length [3 :: byte] < 2"
    by (simp_all add: segment_head_def tcp_head_def MAX_FRAME_LEN_def)
  from stale_offset_drops_start [OF fresh_fields(1,3) h, of 7] show ?thesis
    by (simp only: length_Cons list.size One_nat_def)
qed

end
