(* ===== verification/FanOut.thy ===== *)
theory FanOut
  imports MediaFrame "HOL-Library.Multiset"
begin

section \<open>Who gets a frame\<close>

text \<open>
  Lemmas on \<^theory_text>\<open>MediaFrame\<close>.  The three functions that send a picture, and the three loops that send
  sound, keep one contract each: they are stated as locales, interpreted on the six functions, and give what
  the way in does as a whole: which messages are queued, and what becomes of the heap.
\<close>

subsection \<open>Bookkeeping\<close>

text \<open>A handle without what is printed and logged.\<close>

definition core :: "stream_handle \<Rightarrow> stream_handle" where
  "core h = h\<lparr>recv_pri := recv_print_zero, log_flag := 0\<rparr>"

lemma core_simps [simp]:
  "core (set_to_rec v h) = core h" "core (set_to_live v h) = core h"
  "core (raise_log_flag b h) = core h" "core (clear_log_flag b h) = core h"
  by (simp_all add: core_def set_to_rec_def set_to_live_def raise_log_flag_def clear_log_flag_def)

lemma core_fields:
  assumes "core h = core h'"
  shows "stream_id h = stream_id h'" "msg_recv_to_rec h = msg_recv_to_rec h'"
    "msg_recv_to_usb_rec h = msg_recv_to_usb_rec h'" "msg_recv_to_live h = msg_recv_to_live h'"
    "rec_status h = rec_status h'" "usb_rec_status h = usb_rec_status h'" "live_status h = live_status h'"
    "frame_data h = frame_data h'" "sh_audio_data h = sh_audio_data h'" "recv_time_t h = recv_time_t h'"
    "rec_mode h = rec_mode h'" "audio_info h = audio_info h'"
  using assms [THEN arg_cong, of stream_id] assms [THEN arg_cong, of msg_recv_to_rec]
    assms [THEN arg_cong, of msg_recv_to_usb_rec] assms [THEN arg_cong, of msg_recv_to_live]
    assms [THEN arg_cong, of rec_status] assms [THEN arg_cong, of usb_rec_status]
    assms [THEN arg_cong, of live_status] assms [THEN arg_cong, of frame_data]
    assms [THEN arg_cong, of sh_audio_data] assms [THEN arg_cong, of recv_time_t]
    assms [THEN arg_cong, of rec_mode] assms [THEN arg_cong, of audio_info]
  by (simp_all add: core_def)

text \<open>The handles up to that.\<close>

definition cores :: "hub \<Rightarrow> stream_handle list" where
  "cores s = map core (hands s)"

lemma cores_set_hand [simp]: "(\<And>h. core (f h) = core h) \<Longrightarrow> cores (set_hand i f s) = cores s"
  by (cases "i < length (hands s)") (auto simp: cores_def set_hand_def map_update intro!: nth_equalityI simp: nth_list_update)

lemma cores_nth: "cores s = cores s' \<Longrightarrow> j < length (hands s) \<Longrightarrow> core (hands s ! j) = core (hands s' ! j)"
  unfolding cores_def by (metis length_map nth_map)

lemma cores_length: "cores s = cores s' \<Longrightarrow> length (hands s) = length (hands s')"
  unfolding cores_def by (metis length_map)

lemma set_hand_simps [simp]:
  "heap (set_hand i f s) = heap s" "steps (set_hand i f s) = steps s" "queued (set_hand i f s) = queued s"
  "ptrs (set_hand i f s) = ptrs s"
  "length (hands (set_hand i f s)) = length (hands s)"
  by (simp_all add: set_hand_def)

lemma set_hand_nth [simp]: "i < length (hands s) \<Longrightarrow> hands (set_hand i f s) ! i = f (hands s ! i)"
  by (simp add: set_hand_def)

lemma set_hand_field:
  assumes "i < length (hands s)" "g (f (hands s ! i)) = g (hands s ! i)"
  shows "g (hands (set_hand i f s) ! j) = g (hands s ! j)"
  using assms by (cases "i = j") (simp_all add: set_hand_def)

text \<open>The message depends on the core only.\<close>

lemma media_message_core:
  assumes "core h = core h'"
  shows "media_message fh h = media_message fh h'"
  unfolding media_message_def core_fields [OF assms] ..

lemma audio_message_core:
  assumes "core h = core h'" "core t = core t'"
  shows "audio_message old r fh h t = audio_message old r fh h' t'"
  unfolding audio_message_def core_fields [OF assms(1)] core_fields [OF assms(2)] ..

subsection \<open>The heap\<close>

text \<open>The blocks that messages carry.\<close>

definition blocks :: "(nat \<times> nat) list \<Rightarrow> nat list" where
  "blocks ps = concat (map (\<lambda>(d, b). [d, b]) ps)"

lemma blocks_simps [simp]: "blocks [] = []" "blocks (ps @ qs) = blocks ps @ blocks qs" "blocks [(d, b)] = [d, b]"
  by (simp_all add: blocks_def)

text \<open>
  \<open>grown s s' ms ps lost\<close>: the messages \<open>ms\<close> are added, each with the two blocks \<open>ps\<close> says; what was alive stays
  alive, and exactly these blocks and the \<open>lost\<close> ones are new, all of them different.  \<open>kept lk s s'\<close>: besides, the
  handles change in what is printed and logged only, and no block is lost unless \<open>lk\<close>.
\<close>

definition grown :: "hub \<Rightarrow> hub \<Rightarrow> (int \<times> u32 \<times> parse_data_t) list \<Rightarrow> (nat \<times> nat) list \<Rightarrow> nat multiset \<Rightarrow> bool" where
  "grown s s' ms ps lost \<longleftrightarrow> queued s' = queued s @ ms \<and> ptrs s' = ptrs s @ ps \<and> length ps = length ms
     \<and> mset (heap s') = mset (heap s) + mset (blocks ps) + lost \<and> (distinct (heap s) \<longrightarrow> distinct (heap s'))"

definition kept :: "bool \<Rightarrow> hub \<Rightarrow> hub \<Rightarrow> bool" where
  "kept lk s s' \<longleftrightarrow> cores s' = cores s \<and> (\<exists>ms ps lost. grown s s' ms ps lost \<and> (lk \<or> lost = {#}))"

lemma keptI: "cores s' = cores s \<Longrightarrow> grown s s' ms ps lost \<Longrightarrow> lk \<or> lost = {#} \<Longrightarrow> kept lk s s'"
  unfolding kept_def by blast

lemma grown_trans: "grown s s' ms ps l \<Longrightarrow> grown s' s'' ms' ps' l' \<Longrightarrow> grown s s'' (ms @ ms') (ps @ ps') (l + l')"
  by (auto simp: grown_def)

lemma kept_refl [simp]: "kept lk s s"
  by (rule keptI [of _ _ "[]" "[]" "{#}"]) (simp_all add: grown_def)

lemma kept_trans: "kept lk s s' \<Longrightarrow> kept lk s' s'' \<Longrightarrow> kept lk s s''"
  unfolding kept_def by (metis grown_trans empty_neutral(1))

lemma grown_set_hand [simp]:
  "grown s (set_hand i f s') ms ps l = grown s s' ms ps l" "grown (set_hand i f s) s' ms ps l = grown s s' ms ps l"
  by (simp_all add: grown_def)

lemma kept_set_hand [simp]: "(\<And>h. core (f h) = core h) \<Longrightarrow> kept lk s (set_hand i f s')  = kept lk s s'"
  by (simp add: kept_def)

text \<open>A new block is new.\<close>

lemma max_block: "b \<in> set xs \<Longrightarrow> b \<le> fold max xs (n :: nat)"
  by (metis List.finite_set Max.set_eq_fold Max_ge finite_insert insertCI list.set_intros(2) list.simps(15))

lemma take_block: "take_block s = (b, s') \<Longrightarrow> b \<notin> set (heap s) \<and> s' = s\<lparr>heap := b # heap s\<rparr>"
  using max_block [of b "heap s" 0] by (auto simp: take_block_def)

text \<open>Whether a head allocation may fail.\<close>

definition heads_fail :: "hub_env \<Rightarrow> bool" where
  "heads_fail e \<longleftrightarrow> (\<exists>n. e_head e n = None)"

lemma heads_failI: "e_head e n = None \<Longrightarrow> heads_fail e"
  by (auto simp: heads_fail_def)

lemma alloc_total: "\<exists>m s'. alloc_message e leak s = Some (m, s')"
  by (auto simp: alloc_message_def take_block_def give_block_def Let_def split: option.split)

lemma alloc_none:
  assumes "alloc_message e leak s = Some (None, s')" "leak = 0 \<or> leak = 1 \<and> (heads_fail e \<longrightarrow> lk)"
  shows "kept lk s s'"
proof -
  obtain d s1 where t: "take_block (s\<lparr>steps := steps s + 1\<rparr>) = (d, s1)" by fastforce
  note d = take_block [OF t]
  show ?thesis
  proof (cases "e_data e (steps s) \<and> leak \<noteq> 0")
    case True
    then have "e_head e (steps s) = None" "s' = s1" using assms(1) t by (auto simp: alloc_message_def Let_def split: option.splits prod.splits)
    then have "lk" "grown s s' [] [] {#d#}" "cores s' = cores s"
      using assms(2) True heads_failI [of e "steps s"] d by (auto simp: grown_def cores_def)
    then show ?thesis using keptI by blast
  next
    case False
    then have "queued s' = queued s \<and> ptrs s' = ptrs s \<and> heap s' = heap s \<and> hands s' = hands s"
      using assms(1) t d by (auto simp: alloc_message_def give_block_def Let_def split: option.splits prod.splits if_splits)
    then have "grown s s' [] [] {#}" "cores s' = cores s" by (simp_all add: grown_def cores_def)
    then show ?thesis using keptI by blast
  qed
qed

lemma alloc_some:
  assumes "alloc_message e leak s = Some (Some (old, d, b), s')"
  shows "hands s' = hands s" "queued s' = queued s" "ptrs s' = ptrs s" "heap s' = b # d # heap s"
    "d \<notin> set (heap s)" "b \<notin> set (heap s)" "b \<noteq> d"
proof -
  obtain d' s1 where t1: "take_block (s\<lparr>steps := steps s + 1\<rparr>) = (d', s1)" by fastforce
  obtain b' s2 where t2: "take_block s1 = (b', s2)" by fastforce
  show "hands s' = hands s" "queued s' = queued s" "ptrs s' = ptrs s" "heap s' = b # d # heap s"
    "d \<notin> set (heap s)" "b \<notin> set (heap s)" "b \<noteq> d"
    using assms take_block [OF t1] take_block [OF t2] t1 t2
    by (auto simp: alloc_message_def Let_def Option.bind_eq_Some_conv split: if_splits option.splits)
qed

text \<open>The message's blocks are there, so the clean-up after a refusal is defined and leaves what was before.\<close>

lemma post_cases:
  assumes "heap s = b # d # hp" "b \<noteq> d"
  shows "\<exists>ok s'. post_message e q ty pd d b s = Some (ok, s') \<and> hands s' = hands s
    \<and> (if ok then queued s' = queued s @ [(q, ty, pd)] \<and> ptrs s' = ptrs s @ [(d, b)] \<and> heap s' = heap s
       else queued s' = queued s \<and> ptrs s' = ptrs s \<and> heap s' = hp)"
  using assms by (auto simp: post_message_def give_block_def Let_def ex_bool_eq)

lemma post_after:
  assumes "alloc_message e leak s = Some (Some (old, d, b), s')" "\<And>h. core (f h) = core h"
  shows "\<exists>ok s''. post_message e q ty pd d b (set_hand i f s') = Some (ok, s'') \<and> hands s'' = hands (set_hand i f s')
    \<and> kept lk s s''"
proof -
  note a = alloc_some [OF assms(1)]
  obtain ok s'' where p: "post_message e q ty pd d b (set_hand i f s') = Some (ok, s'')" "hands s'' = hands (set_hand i f s')"
    "if ok then queued s'' = queued s @ [(q, ty, pd)] \<and> ptrs s'' = ptrs s @ [(d, b)] \<and> heap s'' = b # d # heap s
     else queued s'' = queued s \<and> ptrs s'' = ptrs s \<and> heap s'' = heap s"
    using post_cases [of "set_hand i f s'" b d "heap s" e q ty pd] a by auto
  have "cores s'' = cores s"
    using p(2) a(1) cores_set_hand [of f i s'] assms(2) by (simp add: cores_def)
  moreover have "grown s s'' (if ok then [(q, ty, pd)] else []) (if ok then [(d, b)] else []) {#}"
    using p(3) a(5-7) by (auto simp: grown_def)
  ultimately show ?thesis using p(1,2) keptI by blast
qed

lemma post_kept:
  assumes "alloc_message e leak s = Some (Some (old, d, b), s')" "post_message e q ty pd d b (set_hand i f s') = Some (ok, s'')"
    "\<And>h. core (f h) = core h"
  shows "kept lk s s''"
  using post_after [OF assms(1,3), of q ty pd i lk] assms(2) by auto

text \<open>The environment that refuses nothing.\<close>

definition all_granted :: "hub_env \<Rightarrow> bool" where
  "all_granted e \<longleftrightarrow> (\<forall>n. e_data e n \<and> e_head e n \<noteq> None \<and> e_msgsnd e n)"

text \<open>\<open>delivered s ms s'\<close>: the messages \<open>ms\<close> were queued, with their blocks, and nothing else happened.\<close>

definition delivered :: "hub \<Rightarrow> (int \<times> u32 \<times> parse_data_t) list \<Rightarrow> hub \<Rightarrow> bool" where
  "delivered s ms s' \<longleftrightarrow> cores s' = cores s \<and> (\<exists>ps. grown s s' ms ps {#})"

lemma delivered_refl [simp]: "delivered s [] s"
  by (auto simp: delivered_def grown_def)

lemma delivered_trans: "delivered s ms s' \<Longrightarrow> delivered s' ms' s'' \<Longrightarrow> delivered s (ms @ ms') s''"
  unfolding delivered_def by (metis grown_trans empty_neutral(1))

lemma delivered_set_hand [simp]:
  "(\<And>h. core (f h) = core h) \<Longrightarrow> delivered s ms (set_hand i f s') = delivered s ms s'"
  by (simp add: delivered_def)

lemma delivered_grown: "delivered s ms s' \<Longrightarrow> queued s' = queued s @ ms \<and> (\<exists>ps. grown s s' ms ps {#})"
  by (auto simp: delivered_def grown_def)

lemma granted_alloc:
  assumes "all_granted e"
  shows "\<exists>old d b s'. alloc_message e leak s = Some (Some (old, d, b), s')"
proof -
  obtain old where "e_data e (steps s)" "e_head e (steps s) = Some old" using assms unfolding all_granted_def by blast
  then show ?thesis by (auto simp: alloc_message_def Let_def split: prod.split)
qed

lemma granted_post:
  "all_granted e \<Longrightarrow> sint ty \<noteq> -1 \<Longrightarrow> \<exists>s'. post_message e q ty pd d b t = Some (True, s') \<and> hands s' = hands t
     \<and> queued s' = queued t @ [(q, ty, pd)] \<and> ptrs s' = ptrs t @ [(d, b)] \<and> heap s' = heap t"
  by (simp add: all_granted_def post_message_def Let_def)

subsection \<open>One picture, one consumer\<close>

text \<open>
  The contract of the three functions that send a picture: \<open>qof\<close> is the queue they use, \<open>fin\<close> what they add to
  the message, \<open>leak\<close> whether a failing head allocation loses the data block.
\<close>

locale picture_sender =
  fixes send :: "hub_env \<Rightarrow> hdb_freame_head_t \<Rightarrow> nat \<Rightarrow> hub \<Rightarrow> (int \<times> hub) option"
    and qof :: "stream_handle \<Rightarrow> int"
    and fin :: "stream_handle \<Rightarrow> parse_data_t \<Rightarrow> parse_data_t"
    and leak :: bool
  assumes granted: "all_granted e \<Longrightarrow> i < length (hands s) \<Longrightarrow> sint (stream_id (hands s ! i)) \<noteq> -1
      \<Longrightarrow> media_message fh (hands s ! i) = Some pd
      \<Longrightarrow> \<exists>s'. send e fh i s = Some (0, s')
        \<and> delivered s [(qof (hands s ! i), stream_id (hands s ! i), fin (hands s ! i) pd)] s'"
    and kept_heap: "send e fh i s = Some (r, s') \<Longrightarrow> (leak \<and> heads_fail e \<longrightarrow> lk) \<Longrightarrow> kept lk s s'"
begin

lemma after:
  assumes "all_granted e" "i < length (hands s)" "delivered s ms s1" "sint (stream_id (hands s ! i)) \<noteq> -1"
    "media_message fh (hands s ! i) = Some pd"
    and q: "\<And>h h'. core h = core h' \<Longrightarrow> qof h = qof h' \<and> fin h = fin h'"
  shows "\<exists>s'. send e fh i s1 = Some (0, s')
    \<and> delivered s (ms @ [(qof (hands s ! i), stream_id (hands s ! i), fin (hands s ! i) pd)]) s'"
proof -
  have c: "cores s1 = cores s" using assms(3) by (simp add: delivered_def)
  then have l: "i < length (hands s1)" and h: "core (hands s1 ! i) = core (hands s ! i)"
    using assms(2) cores_length [OF c] cores_nth [OF c, of i] by simp_all
  from granted [OF assms(1) l, of fh pd] delivered_trans [OF assms(3)] assms(4,5) q [OF h]
  show ?thesis by (simp add: core_fields [OF h] media_message_core [OF h]) blast
qed

end

lemma res_kept:
  assumes "send_msg_to_rec_media_res e fh i s = Some (r, s')"
  shows "kept lk s s'"
  using assms alloc_none [of e 0 s] post_kept [of e 0 s]
  by (auto simp: send_msg_to_rec_media_res_def Let_def split: prod.splits option.splits bool.splits bind_splits if_splits)


lemma movie_kept:
  assumes "send_msg_to_rec_media_movie e fh i s = Some (r, s')"
  shows "kept lk s s'"
  using assms alloc_none [of e 0 s] post_kept [of e 0 s]
  by (auto simp: send_msg_to_rec_media_movie_def Let_def split: prod.splits option.splits bool.splits bind_splits if_splits)

lemma live_kept:
  assumes "send_msg_to_live_media e fh i s = Some (r, s')" "heads_fail e \<longrightarrow> lk"
  shows "kept lk s s'"
  using assms alloc_none [of e 1 s] post_kept [of e 1 s]
  by (auto simp: send_msg_to_live_media_def Let_def split: prod.splits option.splits bool.splits bind_splits if_splits)

lemma send_one:
  assumes "all_granted e" "sint ty \<noteq> -1" "\<And>h. core (f h) = core h"
  shows "\<exists>old d b s1 s2. alloc_message e leak s = Some (Some (old, d, b), s1) \<and> hands s1 = hands s
    \<and> post_message e q ty pd d b (set_hand i f s1) = Some (True, s2) \<and> delivered s [(q, ty, pd)] s2"
proof -
  obtain old d b s1 where a: "alloc_message e leak s = Some (Some (old, d, b), s1)" using granted_alloc [OF assms(1)] by metis
  note m = alloc_some [OF a]
  obtain s2 where p: "post_message e q ty pd d b (set_hand i f s1) = Some (True, s2)" "hands s2 = hands (set_hand i f s1)"
    "queued s2 = queued s @ [(q, ty, pd)]" "ptrs s2 = ptrs s @ [(d, b)]" "heap s2 = b # d # heap s"
    using granted_post [OF assms(1,2), of q pd d b "set_hand i f s1"] m by auto
  have "cores s2 = cores s" using p(2) m(1) cores_set_hand [of f i s1] assms(3) by (simp add: cores_def)
  moreover have "grown s s2 [(q, ty, pd)] [(d, b)] {#}" using p(3-5) m(5-7) by (auto simp: grown_def)
  ultimately show ?thesis using a p(1) m(1) by (auto simp: delivered_def)
qed

lemma set_to_fields [simp]:
  "stream_id (set_to_rec v h) = stream_id h" "msg_recv_to_rec (set_to_rec v h) = msg_recv_to_rec h"
  "msg_recv_to_usb_rec (set_to_rec v h) = msg_recv_to_usb_rec h"
  "stream_id (set_to_live v h) = stream_id h" "msg_recv_to_live (set_to_live v h) = msg_recv_to_live h"
  by (simp_all add: set_to_rec_def set_to_live_def)

definition add_end_flag :: "stream_handle \<Rightarrow> parse_data_t \<Rightarrow> parse_data_t" where
  "add_end_flag h pd = pd\<lparr>pd_end_flag := ucast (live_status h)\<rparr>"

interpretation rec_res: picture_sender send_msg_to_rec_media_res msg_recv_to_rec "\<lambda>_ pd. pd" False
proof unfold_locales
  fix e i fh pd and s :: hub
  assume a: "all_granted e" "i < length (hands s)" "sint (stream_id (hands s ! i)) \<noteq> -1"
    "media_message fh (hands s ! i) = Some pd"
  from send_one [OF a(1,3), where leak = 0 and i = i and f = "set_to_rec 1" and s = s and pd = pd
      and q = "msg_recv_to_rec (hands s ! i)"] a(2,4)
  show "\<exists>s'. send_msg_to_rec_media_res e fh i s = Some (0, s')
      \<and> delivered s [(msg_recv_to_rec (hands s ! i), stream_id (hands s ! i), pd)] s'"
    by (auto simp: send_msg_to_rec_media_res_def Let_def OP_SUCC_def)
qed (rule res_kept)

interpretation rec_movie: picture_sender send_msg_to_rec_media_movie msg_recv_to_usb_rec "\<lambda>_ pd. pd" False
proof unfold_locales
  fix e i fh pd and s :: hub
  assume a: "all_granted e" "i < length (hands s)" "sint (stream_id (hands s ! i)) \<noteq> -1"
    "media_message fh (hands s ! i) = Some pd"
  from send_one [OF a(1,3), where leak = 0 and i = i and f = "set_to_rec 1" and s = s and pd = pd
      and q = "msg_recv_to_usb_rec (hands s ! i)"] a(2,4)
  show "\<exists>s'. send_msg_to_rec_media_movie e fh i s = Some (0, s')
      \<and> delivered s [(msg_recv_to_usb_rec (hands s ! i), stream_id (hands s ! i), pd)] s'"
    by (auto simp: send_msg_to_rec_media_movie_def Let_def OP_SUCC_def)
qed (rule movie_kept)

interpretation live: picture_sender send_msg_to_live_media msg_recv_to_live add_end_flag True
proof unfold_locales
  fix e i fh pd and s :: hub
  assume a: "all_granted e" "i < length (hands s)" "sint (stream_id (hands s ! i)) \<noteq> -1"
    "media_message fh (hands s ! i) = Some pd"
  from send_one [OF a(1,3), where leak = 1 and i = i and f = "set_to_live 1" and s = s
      and pd = "add_end_flag (hands s ! i) pd" and q = "msg_recv_to_live (hands s ! i)"] a(2,4)
  show "\<exists>s'. send_msg_to_live_media e fh i s = Some (0, s')
      \<and> delivered s [(msg_recv_to_live (hands s ! i), stream_id (hands s ! i), add_end_flag (hands s ! i) pd)] s'"
    by (auto simp: send_msg_to_live_media_def Let_def OP_SUCC_def add_end_flag_def)
qed (use live_kept in blast)

subsection \<open>Sound\<close>

text \<open>A message up to the flag that the recording paths leave unset.\<close>

definition no_end :: "int \<times> u32 \<times> parse_data_t \<Rightarrow> int \<times> u32 \<times> parse_data_t" where
  "no_end m = (fst m, fst (snd m), (snd (snd m))\<lparr>pd_end_flag := 0\<rparr>)"

text \<open>The sound of the stream \<open>h\<close> as the stream \<open>t\<close> gets it: \<open>rate\<close> is the sample rate told, \<open>d\<close> the bytes.\<close>

definition sound_of :: "u32 \<Rightarrow> hdb_freame_head_t \<Rightarrow> stream_handle \<Rightarrow> byte list \<Rightarrow> stream_handle \<Rightarrow> parse_data_t" where
  "sound_of rate fh h d t = parse_zero\<lparr>pd_data_type := R_AUDIO, pd_code_rate := m_colors fh,
     pd_sample_rate := rate, pd_time_tick := uint (rt_time_audio_tick (recv_time_t h)),
     pd_data_len := m_frame_length fh, pd_data := d, pd_flags := m_dw_flags fh, pd_sindex := stream_id t,
     pd_audio_sindex := stream_id h - 1, pd_height := m_hight fh, pd_width := m_width fh,
     pd_blue_flag := is_blue_flag fh\<rparr>"

lemma audio_message_eq:
  assumes "sh_audio_data h = Some b" "unat (m_frame_length fh) \<le> length b"
  shows "\<exists>pd. audio_message old rate fh h t = Some pd
    \<and> pd\<lparr>pd_end_flag := 0\<rparr> = sound_of rate fh h (take (unat (m_frame_length fh)) b) t"
proof -
  have "memcpy (replicate (unat (m_frame_length fh)) 0) 0 b 0 (uint (m_frame_length fh))
      = Some (take (unat (m_frame_length fh)) b)"
    using memcpy_nat [of 0 "unat (m_frame_length fh)" "replicate (unat (m_frame_length fh)) 0" 0 b] assms(2)
    by simp
  then show ?thesis using assms(1) by (simp add: audio_message_def sound_of_def parse_zero_def)
qed

lemma sound_of_core: "core h = core h' \<Longrightarrow> core t = core t' \<Longrightarrow> sound_of rate fh h d t = sound_of rate fh h' d t'"
  by (simp add: sound_of_def core_fields(1) [of t t'] core_fields(1) [of h h'] core_fields(10) [of h h'])

text \<open>
  The contract of the three loops over registered streams, as the equations of one loop with parameters: who is
  served, on which queue, with which sample rate, and how a failure ends.
\<close>

locale sound_loop =
  fixes loop :: "hub_env \<Rightarrow> hdb_freame_head_t \<Rightarrow> nat \<Rightarrow> nat option list \<Rightarrow> nat \<Rightarrow> int \<Rightarrow> hub \<Rightarrow> ((int + unit) \<times> hub) option"
    and wanted :: "stream_handle \<Rightarrow> bool" and qof :: "stream_handle \<Rightarrow> int" and rate :: "hdb_freame_head_t \<Rightarrow> u32"
    and base :: "parse_data_t \<Rightarrow> parse_data_t" and fin :: "stream_handle \<Rightarrow> parse_data_t \<Rightarrow> parse_data_t"
    and mark :: "byte \<Rightarrow> stream_handle \<Rightarrow> stream_handle" and bit :: nat and leak :: int and err :: int
  assumes loop_0: "loop e fh i addr 0 index s = Some (Inr (), s)"
    and loop_Suc: "loop e fh i addr (Suc n) index s = do {
         p \<leftarrow> peek addr index;
         t \<leftarrow> p;
         if t \<ge> length (hands s) then None
         else if \<not> wanted (hands s ! t) then loop e fh i addr n (index + 1) s
         else do {
           (m, s) \<leftarrow> alloc_message e leak s;
           case m of
             None \<Rightarrow> Some (Inl RECEIVE_MALLOC_ERR, s)
           | Some (old, d, b) \<Rightarrow> do {
               pd \<leftarrow> audio_message (base old) (rate fh) fh (hands s ! i) (hands s ! t);
               let s' = set_hand i (mark 1) s;
               (ok, s) \<leftarrow> post_message e (qof (hands s' ! t)) (stream_id (hands s' ! t)) (fin (hands s ! i) pd) d b s';
               if ok then loop e fh i addr n (index + 1) s
               else Some (Inl err, set_hand i (mark 0) (set_hand i (raise_log_flag bit) s))
             }
         }
       }"
    and leak: "leak = 0 \<or> leak = 1"
    and core_mark: "core (mark v h) = core h"
    and core_wanted: "core h = core h' \<Longrightarrow> wanted h = wanted h' \<and> qof h = qof h'"
    and fin: "(fin h pd)\<lparr>pd_end_flag := 0\<rparr> = pd\<lparr>pd_end_flag := 0\<rparr>"
begin

lemma kept_heap: "loop e fh i addr n index s = Some (r, s') \<Longrightarrow> (leak = 1 \<and> heads_fail e \<longrightarrow> lk) \<Longrightarrow> kept lk s s'"
proof (induction n arbitrary: index s)
  case 0
  then show ?case by (simp add: loop_0)
next
  case (Suc n)
  note k = kept_trans [OF post_kept [where f = "mark 1", OF _ _ core_mark [of 1]] Suc.IH [OF _ Suc.prems(2)]]
  show ?case
    using Suc.prems alloc_none [of e leak s _ lk] post_kept [of e leak s _ _ _ _ _ _ _ i "mark 1"] leak Suc.IH k
    by (auto simp: loop_Suc core_mark Let_def split: prod.splits option.splits bool.splits bind_splits if_splits)
qed

lemma granted:
  assumes "all_granted e" "i < length (hands s)" "sh_audio_data (hands s ! i) = Some b"
    "unat (m_frame_length fh) \<le> length b" "k + length ts \<le> length addr" "take (length ts) (drop k addr) = map Some ts"
    "list_all (\<lambda>t. t < length (hands s) \<and> sint (stream_id (hands s ! t)) \<noteq> -1) ts"
  shows "\<exists>ms s'. loop e fh i addr (length ts) (int k) s = Some (Inr (), s') \<and> delivered s ms s'
    \<and> map no_end ms = map (\<lambda>t. (qof (hands s ! t), stream_id (hands s ! t),
         sound_of (rate fh) fh (hands s ! i) (take (unat (m_frame_length fh)) b) (hands s ! t)))
         (filter (\<lambda>t. wanted (hands s ! t)) ts)"
  using assms
proof (induction ts arbitrary: k s)
  case Nil
  show ?case by (rule exI [of _ "[]"]) (simp add: loop_0)
next
  case (Cons t ts)
  let ?d = "take (unat (m_frame_length fh)) b"
  have "k < length addr" using Cons.prems(5) by simp
  then have ad: "drop k addr = addr ! k # drop (Suc k) addr" by (simp add: Cons_nth_drop_Suc)
  then have at: "peek addr (int k) = Some (Some t)" "take (length ts) (drop (Suc k) addr) = map Some ts"
    using Cons.prems(6) \<open>k < length addr\<close> by (simp_all add: peek_nat)
  have t: "t < length (hands s)" "sint (stream_id (hands s ! t)) \<noteq> -1"
    and ts: "list_all (\<lambda>t. t < length (hands s) \<and> sint (stream_id (hands s ! t)) \<noteq> -1) ts"
    using Cons.prems(7) by simp_all
  show ?case
  proof (cases "wanted (hands s ! t)")
    case False
    then show ?thesis
      using Cons.IH [OF Cons.prems(1-4) _ at(2) ts] Cons.prems(5) t at(1) by (simp add: loop_Suc add.commute)
  next
    case True
    let ?q = "qof (hands s ! t)" and ?id = "stream_id (hands s ! t)"
    obtain old d bl s1 where a: "alloc_message e leak s = Some (Some (old, d, bl), s1)"
      using granted_alloc [OF Cons.prems(1)] by metis
    note m = alloc_some [OF a]
    obtain pd where pd: "audio_message (base old) (rate fh) fh (hands s ! i) (hands s ! t) = Some pd"
      "pd\<lparr>pd_end_flag := 0\<rparr> = sound_of (rate fh) fh (hands s ! i) ?d (hands s ! t)"
      using audio_message_eq [OF Cons.prems(3,4)] by metis
    let ?m = "(?q, ?id, fin (hands s ! i) pd)"
    obtain s2 where p: "post_message e ?q ?id (fin (hands s ! i) pd) d bl (set_hand i (mark 1) s1) = Some (True, s2)"
      "delivered s [?m] s2"
      using send_one [OF Cons.prems(1) t(2) core_mark [of 1], where leak = leak and s = s and q = ?q and pd = "fin (hands s ! i) pd" and i = i] a by auto
    have c: "cores s2 = cores s" using p(2) by (simp add: delivered_def)
    have h: "core (hands s2 ! j) = core (hands s ! j)" if "j < length (hands s)" for j
      using cores_nth [OF c] cores_length [OF c] that by simp
    have s1: "core (hands (set_hand i (mark 1) s1) ! t) = core (hands s ! t)"
      using cores_nth [of "set_hand i (mark 1) s1" s1 t] m(1) t(1) core_mark by simp
    have ts2: "list_all (\<lambda>t. t < length (hands s2) \<and> sint (stream_id (hands s2 ! t)) \<noteq> -1) ts"
      using ts h cores_length [OF c] by (auto simp: list_all_iff core_fields(1) [OF h])
    obtain ms s' where r: "loop e fh i addr (length ts) (int (Suc k)) s2 = Some (Inr (), s')" "delivered s2 ms s'"
      "map no_end ms = map (\<lambda>t. (qof (hands s2 ! t), stream_id (hands s2 ! t),
         sound_of (rate fh) fh (hands s2 ! i) ?d (hands s2 ! t))) (filter (\<lambda>t. wanted (hands s2 ! t)) ts)"
      using Cons.IH [of s2 "Suc k"] Cons.prems at(2) ts2 core_fields(9) [OF h] cores_length [OF c] by auto
    have f: "filter (\<lambda>t. wanted (hands s2 ! t)) ts = filter (\<lambda>t. wanted (hands s ! t)) ts"
      using ts core_wanted [OF h] by (auto simp: list_all_iff intro: filter_cong)
    have g: "map no_end ms = map (\<lambda>t. (qof (hands s ! t), stream_id (hands s ! t),
         sound_of (rate fh) fh (hands s ! i) ?d (hands s ! t))) (filter (\<lambda>t. wanted (hands s ! t)) ts)"
      unfolding r(3) f
      using ts Cons.prems(2) core_wanted [OF h] core_fields(1) [OF h] sound_of_core [OF h h]
      by (auto simp: list_all_iff)
    have "loop e fh i addr (Suc (length ts)) (int k) s = Some (Inr (), s')"
      using True t(1) at(1) a m(1) pd(1) p(1) r(1) core_wanted [OF s1] core_fields(1) [OF s1]
      by (simp add: loop_Suc Let_def add.commute)
    moreover have "delivered s (?m # ms) s'" using delivered_trans [OF p(2) r(2)] by simp
    moreover have "no_end ?m = (?q, ?id, sound_of (rate fh) fh (hands s ! i) ?d (hands s ! t))"
      using pd(2) by (simp add: no_end_def fin)
    ultimately show ?thesis using True g by (intro exI [of _ "?m # ms"] exI [of _ s']) simp
  qed
qed

end

lemma status_tests [simp]:
  "uint CONNECT = get_rec_status (Some h) \<longleftrightarrow> rec_status h = CONNECT"
  "uint CONNECT = get_usb_rec_status (Some h) \<longleftrightarrow> usb_rec_status h = CONNECT"
  "uint CONNECT = get_live_status (Some h) \<longleftrightarrow> live_status h = CONNECT"
  by (simp_all add: get_rec_status_def get_usb_rec_status_def get_live_status_def word_uint_eq_iff eq_commute)

interpretation res_loop: sound_loop rec_audio_res_loop "\<lambda>h. rec_status h = CONNECT" msg_recv_to_rec m_hight
    id "\<lambda>_ pd. pd" set_to_rec RECORD_BIT 0 OP_SUCC
proof unfold_locales
  fix h h' assume "core h = core h'"
  then show "(rec_status h = CONNECT) = (rec_status h' = CONNECT) \<and> msg_recv_to_rec h = msg_recv_to_rec h'"
    by (simp add: core_fields(2,5) [of h h'])
qed (simp_all only: rec_audio_res_loop.simps status_tests core_simps id_apply simp_thms)

interpretation movie_loop: sound_loop rec_audio_movie_loop "\<lambda>h. usb_rec_status h = CONNECT" msg_recv_to_usb_rec
    m_hight id "\<lambda>_ pd. pd" set_to_rec RECORD_BIT 0 OP_SUCC
proof unfold_locales
  fix h h' assume "core h = core h'"
  then show "(usb_rec_status h = CONNECT) = (usb_rec_status h' = CONNECT)
      \<and> msg_recv_to_usb_rec h = msg_recv_to_usb_rec h'"
    by (simp add: core_fields(3,6) [of h h'])
qed (simp_all only: rec_audio_movie_loop.simps status_tests core_simps id_apply simp_thms)

interpretation live_loop: sound_loop live_audio_loop "\<lambda>h. live_status h = CONNECT" msg_recv_to_live m_frame_rate
    "\<lambda>_. parse_zero" add_end_flag set_to_live LIVE_BIT 1 "-1"
proof unfold_locales
  fix h h' assume "core h = core h'"
  then show "(live_status h = CONNECT) = (live_status h' = CONNECT) \<and> msg_recv_to_live h = msg_recv_to_live h'"
    by (simp add: core_fields(4,7) [of h h'])
next
  fix h pd show "(add_end_flag h pd)\<lparr>pd_end_flag := 0\<rparr> = pd\<lparr>pd_end_flag := 0\<rparr>"
    by (simp add: add_end_flag_def)
qed (simp_all only: live_audio_loop.simps status_tests core_simps simp_thms Let_def add_end_flag_def)

subsection \<open>All consumers\<close>

text \<open>What the recorder, the movie recorder and the live module get of a picture's message \<open>pd\<close>.\<close>

definition picture_posts :: "stream_handle \<Rightarrow> parse_data_t \<Rightarrow> (int \<times> u32 \<times> parse_data_t) list" where
  "picture_posts h pd =
     (if rec_status h = CONNECT \<and> rec_mode h \<in> {RECODE_MODE_RES, RECODE_MODE_ALL}
      then [(msg_recv_to_rec h, stream_id h, pd)] else [])
     @ (if usb_rec_status h = CONNECT \<and> rec_mode h \<in> {RECODE_MODE_MOVIE, RECODE_MODE_ALL}
        then [(msg_recv_to_usb_rec h, stream_id h, pd)] else [])
     @ (if live_status h = CONNECT then [(msg_recv_to_live h, stream_id h, add_end_flag h pd)] else [])"

lemma delivered_hand:
  assumes "delivered s ms s'" "i < length (hands s)"
  shows "i < length (hands s')" "core (hands s' ! i) = core (hands s ! i)"
  using assms cores_length [of s' s] cores_nth [of s' s i] by (auto simp: delivered_def)

lemma picture_fan_out:
  assumes "all_granted e" "i < length (hands s)" "sint (stream_id (hands s ! i)) \<noteq> -1"
    "media_message fh (hands s ! i) = Some pd" "sh_audio_data (hands s ! i) \<noteq> None" "frame_data (hands s ! i) \<noteq> None"
    "m_data_codec fh = UdpRecv_H264_CODEC_TYPE \<or> m_data_codec fh = UdpRecv_JPEG_CODEC_TYPE"
  shows "\<exists>s'. fan_out e fh i s = Some s' \<and> delivered s (picture_posts (hands s ! i) pd) s'"
proof -
  let ?h = "hands s ! i"
  let ?r = "if rec_status ?h = CONNECT \<and> (rec_mode ?h = RECODE_MODE_RES \<or> rec_mode ?h = RECODE_MODE_ALL)
      then [(msg_recv_to_rec ?h, stream_id ?h, pd)] else []"
  let ?m = "if usb_rec_status ?h = CONNECT \<and> (rec_mode ?h = RECODE_MODE_MOVIE \<or> rec_mode ?h = RECODE_MODE_ALL)
      then [(msg_recv_to_usb_rec ?h, stream_id ?h, pd)] else []"
  let ?l = "if live_status ?h = CONNECT then [(msg_recv_to_live ?h, stream_id ?h, add_end_flag ?h pd)] else []"
  have 1: "\<exists>s1. send_msg_to_rec_res e fh i s = Some (OP_SUCC, s1) \<and> delivered s ?r s1"
  proof (cases "rec_status ?h = CONNECT \<and> (rec_mode ?h = RECODE_MODE_RES \<or> rec_mode ?h = RECODE_MODE_ALL)")
    case True
    then show ?thesis using rec_res.granted [OF assms(1-4)] assms(7) by (auto simp: send_msg_to_rec_res_def Let_def)
  qed (use assms(7) in \<open>auto simp: send_msg_to_rec_res_def Let_def\<close>)
  then obtain s1 where s1: "send_msg_to_rec_res e fh i s = Some (OP_SUCC, s1)" "delivered s ?r s1" by blast
  note h1 = core_fields [OF delivered_hand(2) [OF s1(2) assms(2)]]
  have 2: "\<exists>s2. send_msg_to_rec_movie e fh i s1 = Some (OP_SUCC, s2) \<and> delivered s (?r @ ?m) s2"
  proof (cases "usb_rec_status ?h = CONNECT \<and> (rec_mode ?h = RECODE_MODE_MOVIE \<or> rec_mode ?h = RECODE_MODE_ALL)")
    case True
    then show ?thesis using rec_movie.after [OF assms(1,2) s1(2) assms(3,4) conjI [OF core_fields(3) refl]] assms(7)
      by (auto simp: send_msg_to_rec_movie_def Let_def h1)
  qed (use s1(2) assms(7) in \<open>auto simp: send_msg_to_rec_movie_def Let_def h1\<close>)
  then obtain s2 where s2: "send_msg_to_rec_movie e fh i s1 = Some (OP_SUCC, s2)" "delivered s (?r @ ?m) s2" by blast
  note h2 = core_fields [OF delivered_hand(2) [OF s2(2) assms(2)]]
  have ne: "m_data_codec fh \<noteq> UdpRecv_AAC_CODEC_TYPE"
    using assms(7) by (auto simp: UdpRecv_H264_CODEC_TYPE_def UdpRecv_JPEG_CODEC_TYPE_def UdpRecv_AAC_CODEC_TYPE_def)
  have 3: "\<exists>s3. send_msg_to_live e fh i s2 = Some (OP_SUCC, s3) \<and> delivered s ((?r @ ?m) @ ?l) s3"
  proof (cases "live_status ?h = CONNECT")
    case True
    have q: "msg_recv_to_live h = msg_recv_to_live h' \<and> add_end_flag h = add_end_flag h'" if "core h = core h'" for h h'
      using core_fields(4,7) [OF that] by (auto simp: add_end_flag_def)
    from live.after [OF assms(1,2) s2(2) assms(3,4) q] True assms(5-7) show ?thesis
      by (auto simp: send_msg_to_live_def Let_def h2)
  qed (use s2(2) assms(5,6) ne in \<open>auto simp: send_msg_to_live_def Let_def h2\<close>)
  then obtain s3 where s3: "send_msg_to_live e fh i s2 = Some (OP_SUCC, s3)" "delivered s ((?r @ ?m) @ ?l) s3" by blast
  have "(?r @ ?m) @ ?l = picture_posts ?h pd" unfolding picture_posts_def by simp
  with s1 s2 s3 show ?thesis by (simp add: fan_out_def)
qed

text \<open>
  A list of registered streams that a loop can walk: the entries in use name streams of the room, and no
  stream has a number that \<^verbatim>\<open>r_msg_send\<close> refuses.
\<close>

definition list_ok :: "stream_handle list \<Rightarrow> audio_tran_info \<Rightarrow> nat list \<Rightarrow> bool" where
  "list_ok hs t ts \<longleftrightarrow> registered t = map Some ts \<and> at_stream_num t = int (length ts)
     \<and> length ts \<le> length (stream_handle_addr t)
     \<and> list_all (\<lambda>j. j < length hs \<and> sint (stream_id (hs ! j)) \<noteq> -1) ts"

text \<open>What the streams \<open>ts\<close> get on the queues \<open>q\<close> of those among them that \<open>want\<close> it.\<close>

definition sound_posts ::
  "(stream_handle \<Rightarrow> bool) \<Rightarrow> (stream_handle \<Rightarrow> int) \<Rightarrow> (stream_handle \<Rightarrow> parse_data_t) \<Rightarrow> stream_handle list \<Rightarrow> nat list
    \<Rightarrow> (int \<times> u32 \<times> parse_data_t) list" where
  "sound_posts want q mk hs ts = map (\<lambda>t. (q (hs ! t), stream_id (hs ! t), mk (hs ! t))) (filter (\<lambda>t. want (hs ! t)) ts)"

context sound_loop
begin

lemma walks:
  assumes "all_granted e" "i < length (hands s)" "sh_audio_data (hands s ! i) = Some b"
    "unat (m_frame_length fh) \<le> length b" "list_ok (hands s) t ts" "delivered s ms s1"
  shows "\<exists>ms' s'. loop e fh i (stream_handle_addr t) (nat (at_stream_num t)) 0 s1 = Some (Inr (), s')
    \<and> delivered s (ms @ ms') s'
    \<and> map no_end ms' = sound_posts wanted qof
         (sound_of (rate fh) fh (hands s ! i) (take (unat (m_frame_length fh)) b)) (hands s) ts"
proof -
  have c: "cores s1 = cores s" using assms(6) by (simp add: delivered_def)
  have l: "length (hands s1) = length (hands s)" using cores_length [OF c] .
  have h: "core (hands s1 ! j) = core (hands s ! j)" if "j < length (hands s)" for j
    using cores_nth [OF c] l that by simp
  have t: "\<And>j. j \<in> set ts \<Longrightarrow> j < length (hands s)" using assms(5) by (auto simp: list_ok_def list_all_iff)
  have ok: "list_all (\<lambda>t. t < length (hands s1) \<and> sint (stream_id (hands s1 ! t)) \<noteq> -1) ts"
    using assms(5) l t core_fields(1) [OF h [OF t]] by (auto simp: list_ok_def list_all_iff)
  have r: "take (length ts) (drop 0 (stream_handle_addr t)) = map Some ts" "0 + length ts \<le> length (stream_handle_addr t)"
    "nat (at_stream_num t) = length ts"
    using assms(5) by (auto simp: list_ok_def registered_def)
  have b: "sh_audio_data (hands s1 ! i) = Some b" "i < length (hands s1)"
    using assms(2,3) core_fields(9) [OF h] l by auto
  obtain ms' s' where g: "loop e fh i (stream_handle_addr t) (length ts) (int 0) s1 = Some (Inr (), s')"
    "delivered s1 ms' s'" "map no_end ms' = map (\<lambda>t. (qof (hands s1 ! t), stream_id (hands s1 ! t),
       sound_of (rate fh) fh (hands s1 ! i) (take (unat (m_frame_length fh)) b) (hands s1 ! t)))
       (filter (\<lambda>t. wanted (hands s1 ! t)) ts)"
    using granted [OF assms(1) b(2,1) assms(4) r(2,1) ok] by blast
  have "filter (\<lambda>t. wanted (hands s1 ! t)) ts = filter (\<lambda>t. wanted (hands s ! t)) ts"
    by (rule filter_cong) (use core_wanted [OF h [OF t]] in auto)
  then have "map no_end ms' = sound_posts wanted qof
      (sound_of (rate fh) fh (hands s ! i) (take (unat (m_frame_length fh)) b)) (hands s) ts"
    unfolding g(3) sound_posts_def
    using core_wanted [OF h [OF t]] core_fields(1) [OF h [OF t]] sound_of_core [OF h [OF assms(2)] h [OF t]] by simp
  with g(1) delivered_trans [OF assms(6) g(2)] r(3) show ?thesis
    by (intro exI [of _ ms'] exI [of _ s']) simp
qed

end

lemma sound_fan_out:
  fixes s :: hub and i :: nat
  defines "h \<equiv> hands s ! i"
  assumes "all_granted e" "i < length (hands s)" "sh_audio_data h = Some b" "frame_data h \<noteq> None"
    "unat (m_frame_length fh) \<le> length b" "m_data_codec fh = UdpRecv_AAC_CODEC_TYPE" "audio_info h = Some a"
    "list_ok (hands s) (audio_tran_res_info a) ts_r" "list_ok (hands s) (audio_tran_movie_info a) ts_m"
    "list_ok (hands s) (audio_tran_live_into a) ts_l" "rec_status h = CONNECT \<or> usb_rec_status h = CONNECT"
  shows "\<exists>ms s'. fan_out e fh i s = Some s' \<and> delivered s ms s'
    \<and> map no_end ms =
        sound_posts (\<lambda>h. rec_status h = CONNECT) msg_recv_to_rec
          (sound_of (m_hight fh) fh h (take (unat (m_frame_length fh)) b)) (hands s) ts_r
      @ sound_posts (\<lambda>h. usb_rec_status h = CONNECT) msg_recv_to_usb_rec
          (sound_of (m_hight fh) fh h (take (unat (m_frame_length fh)) b)) (hands s) ts_m
      @ sound_posts (\<lambda>h. live_status h = CONNECT) msg_recv_to_live
          (sound_of (m_frame_rate fh) fh h (take (unat (m_frame_length fh)) b)) (hands s) ts_l"
proof -
  note A = assms [unfolded h_def]
  have ne: "m_data_codec fh \<noteq> UdpRecv_H264_CODEC_TYPE" "m_data_codec fh \<noteq> UdpRecv_JPEG_CODEC_TYPE"
    using assms(7) by (auto simp: UdpRecv_H264_CODEC_TYPE_def UdpRecv_JPEG_CODEC_TYPE_def UdpRecv_AAC_CODEC_TYPE_def)
  have zero: "at_stream_num t = 0 \<Longrightarrow> list_ok hs t ts \<Longrightarrow> ts = []" for t hs ts by (simp add: list_ok_def)
  have none: "sound_posts w q mk hs [] = []" for w q mk hs by (simp add: sound_posts_def)
  have 1: "\<exists>m1 s1. send_msg_to_rec_res e fh i s = Some (OP_SUCC, s1) \<and> delivered s m1 s1
      \<and> map no_end m1 = sound_posts (\<lambda>h. rec_status h = CONNECT) msg_recv_to_rec
          (sound_of (m_hight fh) fh (hands s ! i) (take (unat (m_frame_length fh)) b)) (hands s) ts_r"
  proof (cases "at_stream_num (audio_tran_res_info a) = 0")
    case True
    then show ?thesis using A(7,8,12) zero [OF _ A(9)] ne
      by (intro exI [of _ "[]"]) (auto simp: send_msg_to_rec_res_def send_msg_to_rec_audio_res_def Let_def none)
  next
    case False
    then show ?thesis using A(7,8,12) ne res_loop.walks [OF A(2-4,6,9) delivered_refl]
      by (fastforce simp: send_msg_to_rec_res_def send_msg_to_rec_audio_res_def Let_def)
  qed
  then obtain m1 s1 where s1: "send_msg_to_rec_res e fh i s = Some (OP_SUCC, s1)" "delivered s m1 s1"
    "map no_end m1 = sound_posts (\<lambda>h. rec_status h = CONNECT) msg_recv_to_rec
       (sound_of (m_hight fh) fh (hands s ! i) (take (unat (m_frame_length fh)) b)) (hands s) ts_r" by blast
  note h1 = core_fields [OF delivered_hand(2) [OF s1(2) A(3)]]
  have 2: "\<exists>m2 s2. send_msg_to_rec_movie e fh i s1 = Some (OP_SUCC, s2) \<and> delivered s (m1 @ m2) s2
      \<and> map no_end m2 = sound_posts (\<lambda>h. usb_rec_status h = CONNECT) msg_recv_to_usb_rec
          (sound_of (m_hight fh) fh (hands s ! i) (take (unat (m_frame_length fh)) b)) (hands s) ts_m"
  proof (cases "at_stream_num (audio_tran_movie_info a) = 0")
    case True
    then show ?thesis using A(7,8,12) zero [OF _ A(10)] ne s1(2)
      by (intro exI [of _ "[]"]) (auto simp: send_msg_to_rec_movie_def send_msg_to_rec_audio_movie_def Let_def none h1)
  next
    case False
    then show ?thesis using A(7,8,12) ne movie_loop.walks [OF A(2-4,6,10) s1(2)]
      by (fastforce simp: send_msg_to_rec_movie_def send_msg_to_rec_audio_movie_def Let_def h1)
  qed
  then obtain m2 s2 where s2: "send_msg_to_rec_movie e fh i s1 = Some (OP_SUCC, s2)" "delivered s (m1 @ m2) s2"
    "map no_end m2 = sound_posts (\<lambda>h. usb_rec_status h = CONNECT) msg_recv_to_usb_rec
       (sound_of (m_hight fh) fh (hands s ! i) (take (unat (m_frame_length fh)) b)) (hands s) ts_m" by blast
  note h2 = core_fields [OF delivered_hand(2) [OF s2(2) A(3)]]
  have 3: "\<exists>m3 s3. send_msg_to_live e fh i s2 = Some (OP_SUCC, s3) \<and> delivered s ((m1 @ m2) @ m3) s3
      \<and> map no_end m3 = sound_posts (\<lambda>h. live_status h = CONNECT) msg_recv_to_live
          (sound_of (m_frame_rate fh) fh (hands s ! i) (take (unat (m_frame_length fh)) b)) (hands s) ts_l"
  proof (cases "at_stream_num (audio_tran_live_into a) = 0")
    case True
    then show ?thesis using A(4,5,7,8) zero [OF _ A(11)] ne s2(2)
      by (intro exI [of _ "[]"]) (auto simp: send_msg_to_live_def send_msg_to_live_audio_def Let_def none h2)
  next
    case False
    then show ?thesis using A(4,5,7,8) ne live_loop.walks [OF A(2-4,6,11) s2(2)]
      by (fastforce simp: send_msg_to_live_def send_msg_to_live_audio_def Let_def h2)
  qed
  then obtain m3 s3 where s3: "send_msg_to_live e fh i s2 = Some (OP_SUCC, s3)" "delivered s ((m1 @ m2) @ m3) s3"
    "map no_end m3 = sound_posts (\<lambda>h. live_status h = CONNECT) msg_recv_to_live
       (sound_of (m_frame_rate fh) fh (hands s ! i) (take (unat (m_frame_length fh)) b)) (hands s) ts_l" by blast
  show ?thesis
    using s1 s2 s3 unfolding h_def by (intro exI [of _ "(m1 @ m2) @ m3"] exI [of _ s3]) (simp add: fan_out_def)
qed

subsection \<open>From the receiving thread to the consumers\<close>

text \<open>A picture as its consumers get it: \<open>sid\<close> is the number of the stream.\<close>

definition picture_of :: "udp_recv_stream_info_t \<Rightarrow> byte list \<Rightarrow> u32 \<Rightarrow> parse_data_t" where
  "picture_of si d sid = parse_zero\<lparr>
     pd_data_type := (if si_type si = UdpRecv_H264_CODEC_TYPE then R_VIDEO else R_JPEG),
     pd_sample_rate := (if si_type si = UdpRecv_H264_CODEC_TYPE then word_of_int (si_frame_rate si) else 0),
     pd_time_tick := uint (word_of_int (si_timestamp si) :: u32), pd_data_len := of_nat (length d), pd_data := d,
     pd_flags := word_of_int (IDR_FLAG si), pd_sindex := sid - 1, pd_audio_sindex := sid - 1,
     pd_height := word_of_int (si_height si), pd_width := word_of_int (si_width si),
     pd_blue_flag := (if si_is_blue si = 0 then 0 else 1)\<rparr>"

text \<open>Sound of the stream \<open>sid\<close> as the stream \<open>t\<close> gets it.\<close>

definition sound_to :: "udp_recv_stream_info_t \<Rightarrow> byte list \<Rightarrow> u32 \<Rightarrow> u32 \<Rightarrow> stream_handle \<Rightarrow> parse_data_t" where
  "sound_to si d sid rate t = parse_zero\<lparr>pd_data_type := R_AUDIO, pd_code_rate := word_of_int (si_colors si),
     pd_sample_rate := rate, pd_time_tick := uint (word_of_int (si_timestamp si) :: u32),
     pd_data_len := of_nat (length d), pd_data := d, pd_flags := word_of_int (IDR_FLAG si),
     pd_sindex := stream_id t, pd_audio_sindex := sid - 1, pd_height := word_of_int (si_height si),
     pd_width := word_of_int (si_width si), pd_blue_flag := (if si_is_blue si = 0 then 0 else 1)\<rparr>"

text \<open>A stream whose buffers are there, under a number that \<^verbatim>\<open>r_msg_send\<close> takes.\<close>

definition stream_ready :: "hub \<Rightarrow> nat \<Rightarrow> bool" where
  "stream_ready s i \<longleftrightarrow> i < length (hands s) \<and> sint (stream_id (hands s ! i)) \<noteq> -1
     \<and> map_option length (frame_data (hands s ! i)) = Some MAX_FRAME_LEN
     \<and> map_option length (sh_audio_data (hands s ! i)) = Some MAX_AUDIO_LEN"

lemma stream_readyE:
  assumes "stream_ready s i"
  obtains f a where "i < length (hands s)" "sint (stream_id (hands s ! i)) \<noteq> -1"
    "frame_data (hands s ! i) = Some f" "length f = MAX_FRAME_LEN"
    "sh_audio_data (hands s ! i) = Some a" "length a = MAX_AUDIO_LEN"
  using assms unfolding stream_ready_def by auto

lemma codec_types:
  "UdpRecv_H264_CODEC_TYPE \<noteq> UdpRecv_AAC_CODEC_TYPE" "UdpRecv_JPEG_CODEC_TYPE \<noteq> UdpRecv_AAC_CODEC_TYPE"
  "UdpRecv_JPEG_CODEC_TYPE \<noteq> UdpRecv_H264_CODEC_TYPE"
  by (simp_all add: UdpRecv_H264_CODEC_TYPE_def UdpRecv_JPEG_CODEC_TYPE_def UdpRecv_AAC_CODEC_TYPE_def)

text \<open>The bytes put at the start of a buffer.\<close>

lemma memcpy_front:
  assumes "n \<le> length dst" "n \<le> length src"
  shows "memcpy dst 0 src 0 (int n) = Some (take n src @ drop n dst)"
  using memcpy_nat [of 0 n dst 0 src] assms by simp

lemma u32_length:
  assumes "n \<le> MAX_FRAME_LEN"
  shows "uint (word_of_int (int n) :: u32) = int n" "unat (word_of_int (int n) :: u32) = n"
    "(word_of_int (int n) :: u32) = of_nat n"
  using assms by (simp_all add: MAX_FRAME_LEN_def unsigned_of_nat unsigned_of_int take_bit_nat_eq_self
      take_bit_int_eq_self)

lemma picture_to_consumers:
  assumes "all_granted e" "stream_ready s i" "n \<le> length data" "n \<le> MAX_FRAME_LEN"
    and "si_type si = UdpRecv_H264_CODEC_TYPE \<or> si_type si = UdpRecv_JPEG_CODEC_TYPE"
  shows "\<exists>s'. recv_deal_udp_recv_data e (Some i) (Some si) (Some data) (int n) s = Some (0, s')
    \<and> queued s' = queued s @ picture_posts (hands s ! i) (picture_of si (take n data) (stream_id (hands s ! i)))
    \<and> (\<exists>ps. grown s s' (picture_posts (hands s ! i) (picture_of si (take n data) (stream_id (hands s ! i)))) ps {#})
    \<and> stream_ready s' i"
proof -
  obtain f a where r: "i < length (hands s)" "sint (stream_id (hands s ! i)) \<noteq> -1"
    "frame_data (hands s ! i) = Some f" "length f = MAX_FRAME_LEN"
    "sh_audio_data (hands s ! i) = Some a" "length a = MAX_AUDIO_LEN"
    using stream_readyE [OF assms(2)] .
  note l = u32_length [OF assms(4)]
  let ?b = "take n data @ drop n f"
  let ?fh = "\<lparr>m_id = 0, m_time_tick = 0, m_frame_length = word_of_int (int n), m_data_codec = si_type si,
    m_frame_rate = word_of_int (si_frame_rate si), m_width = word_of_int (si_width si),
    m_hight = word_of_int (si_height si), m_colors = word_of_int (si_colors si), m_dw_segment = 0,
    m_dw_flags = word_of_int (IDR_FLAG si), m_dw_packet_number = 0, m_others = (if si_is_blue si = 0 then 1 else 0)\<rparr>"
  let ?h = "(hands s ! i)\<lparr>recv_pri := (recv_pri (hands s ! i))\<lparr>rp_stream_type := 0, rp_data_type := ucast R_VIDEO,
      rp_is_data := 1, rp_width := m_width ?fh, rp_hight := m_hight ?fh, rp_frame_rate := m_frame_rate ?fh\<rparr>,
    recv_time_t := (recv_time_t (hands s ! i))\<lparr>rt_time_video_tick := word_of_int (si_timestamp si)\<rparr>,
    frame_data := Some ?b\<rparr>"
  let ?s = "set_hand i (\<lambda>_. ?h) s"
  let ?pd = "picture_of si (take n data) (stream_id (hands s ! i))"
  have h: "hands ?s ! i = ?h" "i < length (hands ?s)" using r(1) by simp_all
  have b: "take n ?b = take n data" "n \<le> length ?b" "length (take n data) = n" using assms(3,4) r(4) by simp_all
  have "memcpy (replicate n 0) 0 ?b 0 (int n) = Some (take n data)"
    using memcpy_front [of n "replicate n 0" ?b] b by simp
  then have m: "media_message ?fh (hands ?s ! i) = Some ?pd"
    unfolding h using assms(5) l b(3)
    by (auto simp: media_message_def picture_of_def parse_zero_def is_blue_flag_def Let_def)
  obtain s' where s': "fan_out e ?fh i ?s = Some s'" "delivered ?s (picture_posts (hands ?s ! i) ?pd) s'"
    using picture_fan_out [OF assms(1) h(2) _ m] r assms(5) h by auto
  have p: "picture_posts (hands ?s ! i) ?pd = picture_posts (hands s ! i) ?pd"
    unfolding h by (simp add: picture_posts_def add_end_flag_def cong: if_cong)
  have "recv_deal_udp_recv_data e (Some i) (Some si) (Some data) (int n) s = Some (0, s')"
    using s'(1) r assms(3-5) l(1) codec_types memcpy_front [of n f data]
    by (auto simp: recv_deal_udp_recv_data_def Let_def)
  then show ?thesis
    using delivered_hand [OF s'(2) h(2)] s'(2) p b r core_fields(1,8,9) [OF delivered_hand(2) [OF s'(2) h(2)]] h assms(4)
      delivered_grown [OF s'(2)]
    by (auto simp: stream_ready_def)
qed

text \<open>
  C37: a picture handed over by the receiving thread reaches the consumers that want it and nobody else:
  the recorder in resource mode, the movie recorder in movie mode and the live module, each one message with
  a copy of the frame, its tick and its description, in this order, on the stream's queues.  The stream keeps
  its buffers, no block is freed that was there, and every new heap block belongs to one of these messages, two to
  each.
\<close>

theorem picture_reaches_consumers:
  assumes "all_granted e" "stream_ready s i" "n \<le> length data" "n \<le> MAX_FRAME_LEN"
    and "si_type si = UdpRecv_H264_CODEC_TYPE \<or> si_type si = UdpRecv_JPEG_CODEC_TYPE"
  shows "\<exists>s'. recv_deal_udp_recv_data e (Some i) (Some si) (Some data) (int n) s = Some (0, s')
    \<and> queued s' = queued s @ picture_posts (hands s ! i) (picture_of si (take n data) (stream_id (hands s ! i)))
    \<and> (\<exists>ps. grown s s' (picture_posts (hands s ! i) (picture_of si (take n data) (stream_id (hands s ! i)))) ps {#})
    \<and> stream_ready s' i"
  by (rule picture_to_consumers [OF assms])

text \<open>An environment that grants everything and fills new heads with ones.\<close>

definition granting :: hub_env where
  "granting = \<lparr>e_data = \<lambda>_. True, e_head = \<lambda>_. Some (parse_zero\<lparr>pd_end_flag := 77\<rparr>), e_msgsnd = \<lambda>_. True, e_noret = 0\<rparr>"

lemma granting_all: "all_granted granting"
  by (simp add: all_granted_def granting_def)

text \<open>Stream 1 records in resource mode and broadcasts, stream 2 records in movie mode.\<close>

definition sample_streams :: hub where
  "sample_streams =
     (let h = stream_handle_zero\<lparr>frame_data := Some (replicate MAX_FRAME_LEN 0),
            sh_audio_data := Some (replicate MAX_AUDIO_LEN 0), msg_recv_to_rec := 10, msg_recv_to_usb_rec := 20,
            msg_recv_to_live := 30\<rparr>
      in \<lparr>hands = [h\<lparr>stream_id := 1, rec_status := 1, live_status := 1, rec_mode := 2,
              audio_info := Some (media_audio_zero
                \<lparr>audio_tran_res_info := \<lparr>stream_handle_addr = Some 0 # replicate 17 None, at_stream_num = 1\<rparr>,
                 audio_tran_movie_info := \<lparr>stream_handle_addr = Some 1 # replicate 17 None, at_stream_num = 1\<rparr>,
                 audio_tran_live_into := \<lparr>stream_handle_addr = Some 0 # replicate 17 None, at_stream_num = 1\<rparr>\<rparr>)\<rparr>,
            h\<lparr>stream_id := 2, usb_rec_status := 1, rec_mode := 1\<rparr>],
          heap = [], steps = 0, queued = [], ptrs = []\<rparr>)"

lemma sample_streams_ready: "stream_ready sample_streams 0"
  by (simp add: stream_ready_def sample_streams_def Let_def)

definition sample_info :: "u32 \<Rightarrow> udp_recv_stream_info_t" where
  "sample_info ty = \<lparr>si_type = ty, si_width = 1920, si_height = 1080, si_samplerate = 44100, IDR_FLAG = 16,
     si_timestamp = 40, si_is_blue = 0, si_colors = 0, si_frame_rate = 25, video_toal_num = 0, video_lost_num = 0,
     si_ip = [], si_port = 0, udp_fd = 0, user_data = 0\<rparr>"

theorem picture_reaches_consumers_witness:
  "\<exists>s'. recv_deal_udp_recv_data granting (Some 0) (Some (sample_info UdpRecv_H264_CODEC_TYPE)) (Some [9, 8, 7]) (int 2)
       sample_streams = Some (0, s')
    \<and> map (\<lambda>(q, ty, pd). (q, ty, pd_data pd, pd_time_tick pd)) (queued s') = [(10, 1, [9, 8], 40), (30, 1, [9, 8], 40)]
    \<and> length (heap s') = 4"
proof -
  have p: "2 \<le> length [9, 8, 7 :: byte]" "2 \<le> MAX_FRAME_LEN" by (simp_all add: MAX_FRAME_LEN_def)
  have len: "length (blocks ps) = 2 * length ps" for ps by (induction ps) (auto simp: blocks_def)
  have start: "heap sample_streams = []" "queued sample_streams = []" by (simp_all add: sample_streams_def Let_def)
  obtain s' ps where s': "recv_deal_udp_recv_data granting (Some 0) (Some (sample_info UdpRecv_H264_CODEC_TYPE))
      (Some [9, 8, 7]) (int 2) sample_streams = Some (0, s')"
    "queued s' = queued sample_streams @ picture_posts (hands sample_streams ! 0)
       (picture_of (sample_info UdpRecv_H264_CODEC_TYPE) (take 2 [9, 8, 7]) (stream_id (hands sample_streams ! 0)))"
    "grown sample_streams s' (picture_posts (hands sample_streams ! 0)
       (picture_of (sample_info UdpRecv_H264_CODEC_TYPE) (take 2 [9, 8, 7]) (stream_id (hands sample_streams ! 0)))) ps {#}"
    using picture_reaches_consumers [OF granting_all sample_streams_ready p, of "sample_info UdpRecv_H264_CODEC_TYPE"]
    by (auto simp: sample_info_def)
  let ?m = "picture_posts (hands sample_streams ! 0)
       (picture_of (sample_info UdpRecv_H264_CODEC_TYPE) (take 2 [9, 8, 7]) (stream_id (hands sample_streams ! 0)))"
  have m: "map (\<lambda>(q, ty, pd). (q, ty, pd_data pd, pd_time_tick pd)) ?m = [(10, 1, [9, 8], 40), (30, 1, [9, 8], 40)]"
    by (simp add: sample_info_def sample_streams_def picture_posts_def picture_of_def add_end_flag_def
        CONNECT_def RECODE_MODE_RES_def RECODE_MODE_ALL_def RECODE_MODE_MOVIE_def stream_handle_zero_def Let_def)
  have "length (heap s') = 2 * length ?m"
    using s'(3) mset_eq_length [of "heap s'" "blocks ps"] by (simp add: grown_def len start)
  also have "length ?m = 2" using arg_cong [OF m, of length] by simp
  finally show ?thesis using s'(1,2) m by (simp add: start)
qed

text \<open>The head and the handle that the way in over UDP makes of sound.\<close>

definition sound_head :: "udp_recv_stream_info_t \<Rightarrow> nat \<Rightarrow> hdb_freame_head_t" where
  "sound_head si n = \<lparr>m_id = 0, m_time_tick = 0, m_frame_length = word_of_int (int n), m_data_codec = si_type si,
     m_frame_rate = word_of_int (si_samplerate si), m_width = word_of_int (si_width si),
     m_hight = word_of_int (si_height si), m_colors = word_of_int (si_colors si), m_dw_segment = 0,
     m_dw_flags = word_of_int (IDR_FLAG si), m_dw_packet_number = 0, m_others = (if si_is_blue si = 0 then 1 else 0)\<rparr>"

definition with_sound :: "udp_recv_stream_info_t \<Rightarrow> byte list \<Rightarrow> stream_handle \<Rightarrow> stream_handle" where
  "with_sound si b h = h\<lparr>recv_time_t := (recv_time_t h)\<lparr>rt_time_audio_tick := word_of_int (si_timestamp si)\<rparr>,
     recv_pri := (recv_pri h)\<lparr>rp_stream_type := 2, rp_data_type := ucast R_AUDIO,
       rp_code_rate := word_of_int (si_colors si), rp_sample_rate := word_of_int (si_samplerate si), rp_is_data := 1,
       rp_frame_rate := word_of_int (si_samplerate si)\<rparr>,
     sh_audio_data := Some b\<rparr>"

lemma with_sound_fields [simp]:
  "rt_time_audio_tick (recv_time_t (with_sound si b h)) = word_of_int (si_timestamp si)"
  "sh_audio_data (with_sound si b h) = Some b" "stream_id (with_sound si b h) = stream_id h"
  "frame_data (with_sound si b h) = frame_data h" "audio_info (with_sound si b h) = audio_info h"
  "rec_status (with_sound si b h) = rec_status h" "usb_rec_status (with_sound si b h) = usb_rec_status h"
  "live_status (with_sound si b h) = live_status h" "msg_recv_to_rec (with_sound si b h) = msg_recv_to_rec h"
  "msg_recv_to_usb_rec (with_sound si b h) = msg_recv_to_usb_rec h" "msg_recv_to_live (with_sound si b h) = msg_recv_to_live h"
  by (simp_all add: with_sound_def)

lemma sound_of_head:
  assumes "n \<le> MAX_FRAME_LEN" "n \<le> length data"
  shows "sound_of rate (sound_head si n) (with_sound si b h) (take n data) t = sound_to si (take n data) (stream_id h) rate t"
  using assms u32_length [OF assms(1)] by (simp add: sound_of_def sound_to_def sound_head_def is_blue_flag_def)

text \<open>Who gets sound does not depend on what the source has just stored.\<close>

lemma stored_sound_posts:
  assumes "i < length (hands s)" "\<And>h. want (with_sound si b h) = want h" "\<And>h. q (with_sound si b h) = q h"
    and "\<And>t. mk (with_sound si b t) = mk t"
  shows "sound_posts want q mk (hands (set_hand i (with_sound si b) s)) ts = sound_posts want q mk (hands s) ts"
proof -
  have "want (hands (set_hand i (with_sound si b) s) ! j) = want (hands s ! j)"
    "q (hands (set_hand i (with_sound si b) s) ! j) = q (hands s ! j)"
    "stream_id (hands (set_hand i (with_sound si b) s) ! j) = stream_id (hands s ! j)"
    "mk (hands (set_hand i (with_sound si b) s) ! j) = mk (hands s ! j)" for j
    by (rule set_hand_field [OF assms(1)], simp add: assms(2-4))+
  then show ?thesis by (simp add: sound_posts_def)
qed

lemma stored_list_ok:
  "i < length (hands s) \<Longrightarrow> list_ok (hands (set_hand i (with_sound si b) s)) t ts = list_ok (hands s) t ts"
  by (simp add: list_ok_def set_hand_field [where g = stream_id])

text \<open>
  Sound handed over by the receiving thread is passed on to every stream of the source's lists that records or
  broadcasts: one message each, with a copy of the bytes, addressed to that stream, first the recorder,
  then the movie recorder, then live.  The recorders are told the picture height as the sample rate, the
  live module the sample rate.  The end flag is left out: the recording paths do not set it.
\<close>

theorem sound_reaches_consumers:
  assumes "all_granted e" "stream_ready s i" "n \<le> length data" "n \<le> MAX_AUDIO_LEN"
    and "si_type si = UdpRecv_AAC_CODEC_TYPE" "audio_info (hands s ! i) = Some a"
    and "list_ok (hands s) (audio_tran_res_info a) ts_r" "list_ok (hands s) (audio_tran_movie_info a) ts_m"
    and "list_ok (hands s) (audio_tran_live_into a) ts_l"
    and "rec_status (hands s ! i) = CONNECT \<or> usb_rec_status (hands s ! i) = CONNECT"
  shows "\<exists>s' ms. recv_deal_udp_recv_data e (Some i) (Some si) (Some data) (int n) s = Some (0, s')
    \<and> queued s' = queued s @ ms \<and> (\<exists>ps. grown s s' ms ps {#}) \<and> stream_ready s' i
    \<and> (let mk = sound_to si (take n data) (stream_id (hands s ! i)) in
       map no_end ms =
         sound_posts (\<lambda>h. rec_status h = CONNECT) msg_recv_to_rec (mk (word_of_int (si_height si))) (hands s) ts_r
       @ sound_posts (\<lambda>h. usb_rec_status h = CONNECT) msg_recv_to_usb_rec (mk (word_of_int (si_height si))) (hands s) ts_m
       @ sound_posts (\<lambda>h. live_status h = CONNECT) msg_recv_to_live (mk (word_of_int (si_samplerate si))) (hands s) ts_l)"
proof -
  obtain f b where r: "i < length (hands s)" "sint (stream_id (hands s ! i)) \<noteq> -1"
    "frame_data (hands s ! i) = Some f" "length f = MAX_FRAME_LEN"
    "sh_audio_data (hands s ! i) = Some b" "length b = MAX_AUDIO_LEN"
    using stream_readyE [OF assms(2)] .
  have n: "n \<le> MAX_FRAME_LEN" using assms(4) by (simp add: MAX_AUDIO_LEN_def MAX_FRAME_LEN_def)
  let ?b = "take n data @ drop n b" and ?fh = "sound_head si n"
  let ?s = "set_hand i (with_sound si ?b) s"
  have h: "hands ?s ! i = with_sound si ?b (hands s ! i)" "i < length (hands ?s)" using r(1) by simp_all
  have l: "unat (m_frame_length ?fh) = n" "take n ?b = take n data"
    using u32_length(2) [OF n] assms(3) by (simp_all add: sound_head_def)
  have sent: "recv_deal_udp_recv_data e (Some i) (Some si) (Some data) (int n) s =
      do { s' \<leftarrow> fan_out e ?fh i ?s; Some (0, s') }"
    using r assms(3-5) u32_length(1) [OF n] codec_types memcpy_front [of n b data]
    by (simp add: recv_deal_udp_recv_data_def Let_def sound_head_def with_sound_def set_hand_def)
  let ?mk = "sound_to si (take n data) (stream_id (hands s ! i))"
  have posts: "sound_posts w q (sound_of rate ?fh (with_sound si ?b (hands s ! i)) (take n data)) (hands ?s) ts
      = sound_posts w q (?mk rate) (hands s) ts"
    if "\<And>h. w (with_sound si ?b h) = w h" "\<And>h. q (with_sound si ?b h) = q h" for w q rate ts
    unfolding sound_of_head [OF n assms(3)]
    by (rule stored_sound_posts [OF r(1)]) (simp_all add: that sound_to_def)
  obtain ms s' where s': "fan_out e ?fh i ?s = Some s'" "delivered ?s ms s'"
    "map no_end ms = sound_posts (\<lambda>h. rec_status h = CONNECT) msg_recv_to_rec (?mk (m_hight ?fh)) (hands s) ts_r
      @ sound_posts (\<lambda>h. usb_rec_status h = CONNECT) msg_recv_to_usb_rec (?mk (m_hight ?fh)) (hands s) ts_m
      @ sound_posts (\<lambda>h. live_status h = CONNECT) msg_recv_to_live (?mk (m_frame_rate ?fh)) (hands s) ts_l"
    using sound_fan_out [OF assms(1) h(2), of ?b ?fh a ts_r ts_m ts_l] r assms(3-10) l
    unfolding h stored_list_ok [OF r(1)] by (simp add: posts) (auto simp: sound_head_def)
  have "stream_ready s' i"
    using delivered_hand [OF s'(2) h(2)] core_fields(1,8,9) [OF delivered_hand(2) [OF s'(2) h(2)]] h r assms(3,4)
    by (auto simp: stream_ready_def)
  then show ?thesis using sent s' delivered_grown [OF s'(2)] by (auto simp: Let_def sound_head_def)
qed

text \<open>The first stream of the sample is registered for the recorder and for live, the second one for the movie.\<close>

lemma sample_lists:
  "list_ok (hands sample_streams) \<lparr>stream_handle_addr = Some 0 # replicate 17 None, at_stream_num = 1\<rparr> [0]"
  "list_ok (hands sample_streams) \<lparr>stream_handle_addr = Some 1 # replicate 17 None, at_stream_num = 1\<rparr> [1]"
  by (simp_all add: list_ok_def registered_def sample_streams_def Let_def)

theorem sound_reaches_consumers_witness:
  "\<exists>s' ms. recv_deal_udp_recv_data granting (Some 0) (Some (sample_info UdpRecv_AAC_CODEC_TYPE)) (Some [5, 6]) (int 2)
       sample_streams = Some (0, s')
    \<and> map (\<lambda>m. (fst m, fst (snd m), pd_data (snd (snd m)), pd_sample_rate (snd (snd m)))) (map no_end ms)
      = [(10, 1, [5, 6], 1080), (20, 2, [5, 6], 1080), (30, 1, [5, 6], 44100)]
    \<and> queued s' = ms"
proof -
  have p: "2 \<le> length [5, 6 :: byte]" "2 \<le> MAX_AUDIO_LEN" by (simp_all add: MAX_AUDIO_LEN_def)
  have t: "si_type (sample_info UdpRecv_AAC_CODEC_TYPE) = UdpRecv_AAC_CODEC_TYPE" by (simp add: sample_info_def)
  let ?t = "\<lambda>j. \<lparr>stream_handle_addr = Some j # replicate 17 None, at_stream_num = 1\<rparr>"
  let ?a = "media_audio_zero\<lparr>audio_tran_res_info := ?t 0, audio_tran_movie_info := ?t 1, audio_tran_live_into := ?t 0\<rparr>"
  have a: "audio_info (hands sample_streams ! 0) = Some ?a"
    "rec_status (hands sample_streams ! 0) = CONNECT \<or> usb_rec_status (hands sample_streams ! 0) = CONNECT"
    by (simp_all add: sample_streams_def Let_def CONNECT_def)
  have l: "list_ok (hands sample_streams) (audio_tran_res_info ?a) [0]"
    "list_ok (hands sample_streams) (audio_tran_movie_info ?a) [1]"
    "list_ok (hands sample_streams) (audio_tran_live_into ?a) [0]"
    using sample_lists by simp_all
  obtain s' ms where "recv_deal_udp_recv_data granting (Some 0) (Some (sample_info UdpRecv_AAC_CODEC_TYPE))
      (Some [5, 6]) (int 2) sample_streams = Some (0, s')" "queued s' = queued sample_streams @ ms"
    "let mk = sound_to (sample_info UdpRecv_AAC_CODEC_TYPE) (take 2 [5, 6]) (stream_id (hands sample_streams ! 0)) in
     map no_end ms =
       sound_posts (\<lambda>h. rec_status h = CONNECT) msg_recv_to_rec
         (mk (word_of_int (si_height (sample_info UdpRecv_AAC_CODEC_TYPE)))) (hands sample_streams) [0]
     @ sound_posts (\<lambda>h. usb_rec_status h = CONNECT) msg_recv_to_usb_rec
         (mk (word_of_int (si_height (sample_info UdpRecv_AAC_CODEC_TYPE)))) (hands sample_streams) [1]
     @ sound_posts (\<lambda>h. live_status h = CONNECT) msg_recv_to_live
         (mk (word_of_int (si_samplerate (sample_info UdpRecv_AAC_CODEC_TYPE)))) (hands sample_streams) [0]"
    using sound_reaches_consumers [OF granting_all sample_streams_ready p t a(1) l a(2)] by blast
  then show ?thesis
    by (intro exI [of _ s'] exI [of _ ms]) (simp add: sample_streams_def sound_posts_def sound_to_def sample_info_def
        stream_handle_zero_def CONNECT_def Let_def)
qed

subsection \<open>Blocks are not lost\<close>

lemma rec_res_kept:
  assumes "send_msg_to_rec_res e fh i s = Some (r, s')"
  shows "kept lk s s'"
  using assms rec_res.kept_heap [of e fh i s _ _ lk] res_loop.kept_heap [of e fh i _ _ _ s _ _ lk]
  by (auto simp: send_msg_to_rec_res_def send_msg_to_rec_audio_res_def Let_def
      split: if_splits bind_splits option.splits sum.splits)

lemma rec_movie_kept:
  assumes "send_msg_to_rec_movie e fh i s = Some (r, s')"
  shows "kept lk s s'"
  using assms rec_movie.kept_heap [of e fh i s _ _ lk] movie_loop.kept_heap [of e fh i _ _ _ s _ _ lk]
  by (auto simp: send_msg_to_rec_movie_def send_msg_to_rec_audio_movie_def Let_def
      split: if_splits bind_splits option.splits sum.splits)

lemma to_live_kept:
  assumes "send_msg_to_live e fh i s = Some (r, s')" "heads_fail e \<longrightarrow> lk"
  shows "kept lk s s'"
  using assms live.kept_heap [of e fh i s _ _ lk] live_loop.kept_heap [of e fh i _ _ _ s _ _ lk]
  by (auto simp: send_msg_to_live_def send_msg_to_live_audio_def Let_def
      split: if_splits bind_splits option.splits sum.splits)

lemma fan_out_kept:
  assumes "fan_out e fh i s = Some s'" "heads_fail e \<longrightarrow> lk"
  shows "kept lk s s'"
proof -
  obtain s1 s2 r1 r2 r3 where r: "send_msg_to_rec_res e fh i s = Some (r1, s1)"
    "send_msg_to_rec_movie e fh i s1 = Some (r2, s2)" "send_msg_to_live e fh i s2 = Some (r3, s')"
    using assms(1) by (auto simp: fan_out_def split: bind_splits)
  then show ?thesis
    using rec_res_kept [OF r(1)] rec_movie_kept [OF r(2)] to_live_kept [OF r(3) assms(2)] by (blast intro: kept_trans)
qed

subsection \<open>No access outside the buffers\<close>

text \<open>A list whose entries in use name streams of the room.\<close>

definition walkable :: "nat \<Rightarrow> audio_tran_info \<Rightarrow> bool" where
  "walkable n t \<longleftrightarrow> 0 \<le> at_stream_num t \<and> at_stream_num t \<le> int (length (stream_handle_addr t))
     \<and> list_all (\<lambda>p. case p of Some j \<Rightarrow> j < n | None \<Rightarrow> False) (registered t)"

definition sources_ok :: "hub \<Rightarrow> nat \<Rightarrow> bool" where
  "sources_ok s i \<longleftrightarrow> (case audio_info (hands s ! i) of None \<Rightarrow> True
     | Some a \<Rightarrow> walkable (length (hands s)) (audio_tran_res_info a)
         \<and> walkable (length (hands s)) (audio_tran_movie_info a) \<and> walkable (length (hands s)) (audio_tran_live_into a))"

lemma kept_hand:
  assumes "kept lk s s'" "i < length (hands s)"
  shows "i < length (hands s')" "core (hands s' ! i) = core (hands s ! i)" "length (hands s') = length (hands s)"
  using assms cores_length [of s' s] cores_nth [of s' s i] by (auto simp: kept_def)

context sound_loop
begin

lemma defined:
  assumes "i < length (hands s)" "sh_audio_data (hands s ! i) = Some b" "unat (m_frame_length fh) \<le> length b"
    "k + n \<le> length addr" "list_all (\<lambda>p. case p of Some j \<Rightarrow> j < length (hands s) | None \<Rightarrow> False) (take n (drop k addr))"
  shows "\<exists>r. loop e fh i addr n (int k) s = Some r"
  using assms
proof (induction n arbitrary: k s)
  case 0
  show ?case by (simp add: loop_0)
next
  case (Suc n)
  have "k < length addr" using Suc.prems(4) by simp
  then have ad: "drop k addr = addr ! k # drop (Suc k) addr" by (simp add: Cons_nth_drop_Suc)
  then obtain t where t: "addr ! k = Some t" "t < length (hands s)"
    using Suc.prems(5) by (auto split: option.splits)
  have pk: "peek addr (int k) = Some (Some t)" using t \<open>k < length addr\<close> by (simp add: peek_nat)
  have rest: "Suc k + n \<le> length addr"
    "list_all (\<lambda>p. case p of Some j \<Rightarrow> j < length (hands s) | None \<Rightarrow> False) (take n (drop (Suc k) addr))"
    using Suc.prems(4,5) ad by simp_all
  have next_ok: "\<exists>r. loop e fh i addr n (int k + 1) s2 = Some r" if "kept True s s2" for s2
    using Suc.IH [of s2 "Suc k"] Suc.prems(2,3) rest kept_hand [OF that Suc.prems(1)]
      core_fields(9) [OF kept_hand(2) [OF that Suc.prems(1)]] by (simp add: add.commute)
  show ?case
  proof (cases "wanted (hands s ! t)")
    case False
    then show ?thesis using next_ok [of s] t pk by (simp add: loop_Suc)
  next
    case True
    obtain a s1 where a: "alloc_message e leak s = Some (a, s1)" using alloc_total by blast
    show ?thesis
    proof (cases a)
      case None
      then show ?thesis using True t pk a by (simp add: loop_Suc)
    next
      case (Some x)
      obtain old d bl where x: "x = (old, d, bl)" by (cases x)
      note a' = a [unfolded Some x]
      have s1: "hands s1 = hands s" using alloc_some(1) [OF a'] .
      obtain msg where m: "audio_message (base old) (rate fh) fh (hands s ! i) (hands s ! t) = Some msg"
        using audio_message_eq [OF Suc.prems(2,3)] by metis
      let ?s1 = "set_hand i (mark 1) s1"
      let ?p = "post_message e (qof (hands ?s1 ! t)) (stream_id (hands ?s1 ! t)) (fin (hands s ! i) msg) d bl ?s1"
      obtain ok s2 where p: "?p = Some (ok, s2)" "kept True s s2"
        using post_after [OF a' core_mark [of 1], where i = i and lk = True] by blast
      then show ?thesis using next_ok [of s2] True t pk a' s1 m
        by (cases ok) (simp_all add: loop_Suc Let_def)
    qed
  qed
qed

end

lemma walkableE:
  assumes "walkable n t"
  shows "0 + nat (at_stream_num t) \<le> length (stream_handle_addr t)"
    "list_all (\<lambda>p. case p of Some j \<Rightarrow> j < n | None \<Rightarrow> False) (take (nat (at_stream_num t)) (drop 0 (stream_handle_addr t)))"
  using assms by (auto simp: walkable_def registered_def)

lemma picture_sends_defined:
  assumes m: "media_message fh (hands s ! i) = Some pd"
  shows "\<exists>r. send_msg_to_rec_media_res e fh i s = Some r" "\<exists>r. send_msg_to_rec_media_movie e fh i s = Some r"
    "\<exists>r. send_msg_to_live_media e fh i s = Some r"
proof -
  have k: "\<exists>r. (do { (m, s) \<leftarrow> alloc_message e leak s;
       case m of None \<Rightarrow> Some (u s)
       | Some (_, d, b) \<Rightarrow> do {
           pd \<leftarrow> media_message fh (hands s ! i);
           (ok, s) \<leftarrow> post_message e (q s) (ty s) (fin pd s) d b (set_hand i f s);
           if ok then Some (g s) else Some (h s) } }) = Some r"
    if f: "\<And>h. core (f h) = core h" for leak f q ty fin and u g h :: "hub \<Rightarrow> int \<times> hub"
  proof -
    obtain a s1 where a: "alloc_message e leak s = Some (a, s1)" using alloc_total by blast
    show ?thesis
    proof (cases a)
      case (Some x)
      obtain old d b where x: "x = (old, d, b)" by (cases x)
      note a' = a [unfolded Some x]
      obtain ok s2 where "post_message e (q s1) (ty s1) (fin pd s1) d b (set_hand i f s1) = Some (ok, s2)"
        using post_after [OF a' f, where lk = True] by blast
      then show ?thesis using a' alloc_some(1) [OF a'] m by simp
    qed (use a in simp)
  qed
  show "\<exists>r. send_msg_to_rec_media_res e fh i s = Some r" "\<exists>r. send_msg_to_rec_media_movie e fh i s = Some r"
    "\<exists>r. send_msg_to_live_media e fh i s = Some r"
    unfolding send_msg_to_rec_media_res_def send_msg_to_rec_media_movie_def send_msg_to_live_media_def Let_def
    by (rule k, simp)+
qed

text \<open>The frame fits the buffers of its stream, and the lists of a sound source can be walked.\<close>

definition frame_fits :: "hdb_freame_head_t \<Rightarrow> nat \<Rightarrow> hub \<Rightarrow> bool" where
  "frame_fits fh i s \<longleftrightarrow> i < length (hands s) \<and> sources_ok s i
     \<and> (if m_data_codec fh = UdpRecv_AAC_CODEC_TYPE
        then sh_audio_data (hands s ! i) \<noteq> None \<and> unat (m_frame_length fh) \<le> length (the (sh_audio_data (hands s ! i)))
        else media_message fh (hands s ! i) \<noteq> None)"

lemma frame_fits_kept:
  assumes "kept lk s s'" "frame_fits fh i s"
  shows "frame_fits fh i s'"
proof -
  have i: "i < length (hands s)" using assms(2) by (simp add: frame_fits_def)
  note h = kept_hand [OF assms(1) i]
  show ?thesis
    using assms(2) h(1,3) core_fields(9,12) [OF h(2)] media_message_core [OF h(2), of fh]
    by (simp add: frame_fits_def sources_ok_def split: option.splits)
qed

lemma rec_audio_res_defined:
  assumes "frame_fits fh i s" "m_data_codec fh = UdpRecv_AAC_CODEC_TYPE"
  shows "\<exists>r. send_msg_to_rec_audio_res e fh i s = Some r"
proof (cases "audio_info (hands s ! i)")
  case (Some a)
  obtain b where b: "i < length (hands s)" "sh_audio_data (hands s ! i) = Some b" "unat (m_frame_length fh) \<le> length b"
    "walkable (length (hands s)) (audio_tran_res_info a)"
    using assms Some by (auto simp: frame_fits_def sources_ok_def)
  obtain r s' where "rec_audio_res_loop e fh i (stream_handle_addr (audio_tran_res_info a))
      (nat (at_stream_num (audio_tran_res_info a))) 0 s = Some (r, s')"
    using res_loop.defined [OF b(1-3) walkableE [OF b(4)], of e] by auto
  then show ?thesis using Some by (cases r) (simp_all add: send_msg_to_rec_audio_res_def Let_def)
qed (simp add: send_msg_to_rec_audio_res_def)

lemma rec_audio_movie_defined:
  assumes "frame_fits fh i s" "m_data_codec fh = UdpRecv_AAC_CODEC_TYPE"
  shows "\<exists>r. send_msg_to_rec_audio_movie e fh i s = Some r"
proof (cases "audio_info (hands s ! i)")
  case (Some a)
  obtain b where b: "i < length (hands s)" "sh_audio_data (hands s ! i) = Some b" "unat (m_frame_length fh) \<le> length b"
    "walkable (length (hands s)) (audio_tran_movie_info a)"
    using assms Some by (auto simp: frame_fits_def sources_ok_def)
  obtain r s' where "rec_audio_movie_loop e fh i (stream_handle_addr (audio_tran_movie_info a))
      (nat (at_stream_num (audio_tran_movie_info a))) 0 s = Some (r, s')"
    using movie_loop.defined [OF b(1-3) walkableE [OF b(4)], of e] by auto
  then show ?thesis using Some by (cases r) (simp_all add: send_msg_to_rec_audio_movie_def Let_def)
qed (simp add: send_msg_to_rec_audio_movie_def)

lemma live_audio_defined:
  assumes "frame_fits fh i s" "m_data_codec fh = UdpRecv_AAC_CODEC_TYPE"
  shows "\<exists>r. send_msg_to_live_audio e fh i s = Some r"
proof (cases "audio_info (hands s ! i)")
  case (Some a)
  obtain b where b: "i < length (hands s)" "sh_audio_data (hands s ! i) = Some b" "unat (m_frame_length fh) \<le> length b"
    "walkable (length (hands s)) (audio_tran_live_into a)"
    using assms Some by (auto simp: frame_fits_def sources_ok_def)
  obtain r s' where "live_audio_loop e fh i (stream_handle_addr (audio_tran_live_into a))
      (nat (at_stream_num (audio_tran_live_into a))) 0 s = Some (r, s')"
    using live_loop.defined [OF b(1-3) walkableE [OF b(4)], of e] by auto
  then show ?thesis using Some by (cases r) (simp_all add: send_msg_to_live_audio_def Let_def)
qed (simp add: send_msg_to_live_audio_def)

lemma sends_defined:
  assumes "frame_fits fh i s"
  shows "\<exists>r s'. send_msg_to_rec_res e fh i s = Some (r, s')" "\<exists>r s'. send_msg_to_rec_movie e fh i s = Some (r, s')"
    "\<exists>r s'. send_msg_to_live e fh i s = Some (r, s')"
proof -
  have "\<exists>r. send_msg_to_rec_res e fh i s = Some r \<and> True" "\<exists>r. send_msg_to_rec_movie e fh i s = Some r \<and> True"
    "\<exists>r. send_msg_to_live e fh i s = Some r \<and> True"
  proof (cases "m_data_codec fh = UdpRecv_AAC_CODEC_TYPE", goal_cases)
    case 1
    then show ?case using rec_audio_res_defined [OF assms 1, of e] codec_types
      by (auto simp: send_msg_to_rec_res_def Let_def)
  next
    case 2
    then obtain pd where "media_message fh (hands s ! i) = Some pd" using assms by (auto simp: frame_fits_def)
    then show ?case using picture_sends_defined(1) [of fh s i pd e] 2 by (auto simp: send_msg_to_rec_res_def Let_def)
  next
    case 3
    show ?case
    proof (cases "m_data_codec fh = UdpRecv_AAC_CODEC_TYPE")
      case True
      then show ?thesis using rec_audio_movie_defined [OF assms True, of e] codec_types
        by (auto simp: send_msg_to_rec_movie_def Let_def)
    next
      case False
      then obtain pd where "media_message fh (hands s ! i) = Some pd" using assms by (auto simp: frame_fits_def)
      then show ?thesis using picture_sends_defined(2) [of fh s i pd e] False by (auto simp: send_msg_to_rec_movie_def Let_def)
    qed
  next
    case 4
    show ?case
    proof (cases "m_data_codec fh = UdpRecv_AAC_CODEC_TYPE")
      case True
      then show ?thesis using live_audio_defined [OF assms True, of e] codec_types
        by (auto simp: send_msg_to_live_def Let_def)
    next
      case False
      then obtain pd where "media_message fh (hands s ! i) = Some pd" using assms by (auto simp: frame_fits_def)
      then show ?thesis using picture_sends_defined(3) [of fh s i pd e] False by (auto simp: send_msg_to_live_def Let_def)
    qed
  qed
  then show "\<exists>r s'. send_msg_to_rec_res e fh i s = Some (r, s')" "\<exists>r s'. send_msg_to_rec_movie e fh i s = Some (r, s')"
    "\<exists>r s'. send_msg_to_live e fh i s = Some (r, s')" by auto
qed

lemma fan_out_defined:
  assumes "frame_fits fh i s"
  shows "\<exists>s'. fan_out e fh i s = Some s'"
proof -
  obtain r1 s1 where s1: "send_msg_to_rec_res e fh i s = Some (r1, s1)" using sends_defined(1) [OF assms] by blast
  note f1 = frame_fits_kept [OF rec_res_kept [OF s1] assms]
  obtain r2 s2 where s2: "send_msg_to_rec_movie e fh i s1 = Some (r2, s2)" using sends_defined(2) [OF f1] by blast
  note f2 = frame_fits_kept [OF rec_movie_kept [OF s2] f1]
  obtain r3 s3 where "send_msg_to_live e fh i s2 = Some (r3, s3)" using sends_defined(3) [OF f2] by blast
  then show ?thesis using s1 s2 by (simp add: fan_out_def)
qed

text \<open>The blocks of a frame: two for every message, and lost ones only when the allocation of a head fails.\<close>

definition accounted :: "hub_env \<Rightarrow> hub \<Rightarrow> hub \<Rightarrow> bool" where
  "accounted e s s' \<longleftrightarrow> (\<exists>ms ps lost. grown s s' ms ps lost \<and> (heads_fail e \<or> lost = {#}))"

lemma accounted_refl: "accounted e s s"
  unfolding accounted_def by (rule exI [of _ "[]"], rule exI [of _ "[]"], rule exI [of _ "{#}"]) (simp add: grown_def)

lemma recv_deal_defined:
  assumes "stream_ready s i" "sources_ok s i" "n \<le> length data"
    and "if si_type si = UdpRecv_AAC_CODEC_TYPE then n \<le> MAX_AUDIO_LEN else n \<le> MAX_FRAME_LEN"
  shows "\<exists>s'. recv_deal_udp_recv_data e (Some i) (Some si) (Some data) (int n) s = Some (0, s')
    \<and> stream_ready s' i \<and> sources_ok s' i \<and> accounted e s s'"
proof -
  obtain f b where r: "i < length (hands s)" "sint (stream_id (hands s ! i)) \<noteq> -1"
    "frame_data (hands s ! i) = Some f" "length f = MAX_FRAME_LEN"
    "sh_audio_data (hands s ! i) = Some b" "length b = MAX_AUDIO_LEN"
    using stream_readyE [OF assms(1)] .
  have nf: "n \<le> MAX_FRAME_LEN" using assms(4) by (auto simp: MAX_AUDIO_LEN_def MAX_FRAME_LEN_def split: if_splits)
  note l = u32_length [OF nf]
  have z: "memcpy (replicate n 0) 0 (take n data @ x) 0 (int n) = Some (take n data)" for x
    using memcpy_front [of n "replicate n 0" "take n data @ x"] assms(3) by simp
  have go: "\<exists>s'. fan_out e fh i (set_hand i (\<lambda>_. h) s) \<bind> (\<lambda>s. Some (0 :: int, s)) = Some (0, s')
      \<and> stream_ready s' i \<and> sources_ok s' i \<and> accounted e s s'"
    if "if m_data_codec fh = UdpRecv_AAC_CODEC_TYPE then unat (m_frame_length fh) \<le> MAX_AUDIO_LEN
        else media_message fh h \<noteq> None"
      "stream_id h = stream_id (hands s ! i)" "audio_info h = audio_info (hands s ! i)"
      "map_option length (frame_data h) = Some MAX_FRAME_LEN" "map_option length (sh_audio_data h) = Some MAX_AUDIO_LEN"
    for fh h
  proof -
    note T = that
    let ?s = "set_hand i (\<lambda>_. h) s"
    have i: "i < length (hands ?s)" using r(1) by simp
    have f: "frame_fits fh i ?s" using T i r(1) assms(2) by (auto simp: frame_fits_def sources_ok_def split: option.splits)
    obtain s' where s': "fan_out e fh i ?s = Some s'" using fan_out_defined [OF f] by blast
    have k: "kept True ?s s'" "kept (heads_fail e) ?s s'" using fan_out_kept [OF s'] by blast+
    have "stream_ready s' i"
      using kept_hand(1,3) [OF k(1) i] core_fields(1,8,9) [OF kept_hand(2) [OF k(1) i]] T(2,4,5) r(1,2)
      by (simp add: stream_ready_def)
    moreover have "accounted e s s'" using k(2) by (auto simp: kept_def accounted_def)
    ultimately show ?thesis using s' frame_fits_kept [OF k(1) f] by (simp add: frame_fits_def)
  qed
  consider (pic) "si_type si = UdpRecv_H264_CODEC_TYPE \<or> si_type si = UdpRecv_JPEG_CODEC_TYPE"
    | (aac) "si_type si = UdpRecv_AAC_CODEC_TYPE"
    | (other) "si_type si \<notin> {UdpRecv_H264_CODEC_TYPE, UdpRecv_JPEG_CODEC_TYPE, UdpRecv_AAC_CODEC_TYPE}"
    by blast
  then show ?thesis
  proof cases
    case pic
    then show ?thesis
      using r l nf assms(3) codec_types memcpy_front [of n f data] z
      by (auto simp: recv_deal_udp_recv_data_def Let_def media_message_def intro!: go)
  next
    case aac
    then have "n \<le> MAX_AUDIO_LEN" using assms(4) by simp
    then show ?thesis
      using aac r l assms(3) codec_types memcpy_front [of n b data]
      by (auto simp: recv_deal_udp_recv_data_def Let_def intro!: go)
  next
    case other
    then show ?thesis using assms(1,2) accounted_refl by (auto simp: recv_deal_udp_recv_data_def Let_def)
  qed
qed

text \<open>
  A frame that fits the buffers of its stream never makes the room read or write outside them, whatever
  \<^verbatim>\<open>malloc\<close> and \<^verbatim>\<open>msgsnd\<close> answer: the call returns 0, the stream keeps its buffers, and its lists of
  sound receivers can still be walked.
\<close>

theorem recv_deal_safe:
  assumes "stream_ready s i" "sources_ok s i" "n \<le> length data"
    and "if si_type si = UdpRecv_AAC_CODEC_TYPE then n \<le> MAX_AUDIO_LEN else n \<le> MAX_FRAME_LEN"
  shows "\<exists>s'. recv_deal_udp_recv_data e (Some i) (Some si) (Some data) (int n) s = Some (0, s')
    \<and> stream_ready s' i \<and> sources_ok s' i"
  using recv_deal_defined [OF assms] by blast

text \<open>
  C38: no frame loses a block or frees one that is not its own.  Whatever \<^verbatim>\<open>malloc\<close> and \<^verbatim>\<open>msgsnd\<close> answer, a frame
  that fits the buffers of a stream whose lists can be walked is handled without a second free, every message it
  queues carries two new blocks of its own, every block that was alive before is alive after, and these are all the
  living ones, unless the allocation of a message head fails: then data blocks may be lost.
\<close>

theorem frames_accounted:
  assumes "stream_ready s i" "sources_ok s i" "n \<le> length data"
    and "if si_type si = UdpRecv_AAC_CODEC_TYPE then n \<le> MAX_AUDIO_LEN else n \<le> MAX_FRAME_LEN"
  shows "\<exists>s' ms ps lost. recv_deal_udp_recv_data e (Some i) (Some si) (Some data) (int n) s = Some (0, s')
    \<and> queued s' = queued s @ ms \<and> ptrs s' = ptrs s @ ps \<and> length ps = length ms
    \<and> mset (heap s') = mset (heap s) + mset (concat (map (\<lambda>(d, b). [d, b]) ps)) + lost
    \<and> (distinct (heap s) \<longrightarrow> distinct (heap s')) \<and> ((\<exists>k. e_head e k = None) \<or> lost = {#})"
proof -
  obtain s' where s': "recv_deal_udp_recv_data e (Some i) (Some si) (Some data) (int n) s = Some (0, s')" "accounted e s s'"
    using recv_deal_defined [OF assms] by blast
  then obtain ms ps lost where "grown s s' ms ps lost" "heads_fail e \<or> lost = {#}" by (auto simp: accounted_def)
  with s'(1) show ?thesis unfolding grown_def blocks_def heads_fail_def by blast
qed

lemma sample_sources: "sources_ok sample_streams 0"
  by (simp add: sources_ok_def sample_streams_def walkable_def registered_def Let_def)

text \<open>Sound, when the third block is refused.\<close>

theorem recv_deal_safe_witness:
  "\<exists>s'. recv_deal_udp_recv_data (granting\<lparr>e_data := \<lambda>n. n \<noteq> 2\<rparr>) (Some 0) (Some (sample_info UdpRecv_AAC_CODEC_TYPE))
       (Some [5, 6]) (int 2) sample_streams = Some (0, s') \<and> stream_ready s' 0"
proof -
  have "2 \<le> length [5, 6 :: byte]" "if si_type (sample_info UdpRecv_AAC_CODEC_TYPE) = UdpRecv_AAC_CODEC_TYPE
      then 2 \<le> MAX_AUDIO_LEN else 2 \<le> MAX_FRAME_LEN"
    by (simp_all add: sample_info_def MAX_AUDIO_LEN_def)
  from recv_deal_safe [OF sample_streams_ready sample_sources this] show ?thesis by blast
qed

text \<open>With queues that refuse everything a picture leaves nothing behind.\<close>

theorem frames_accounted_witness:
  "\<exists>s' ms. recv_deal_udp_recv_data (granting\<lparr>e_msgsnd := \<lambda>_. False\<rparr>) (Some 0)
       (Some (sample_info UdpRecv_H264_CODEC_TYPE)) (Some [5, 6]) (int 2) sample_streams = Some (0, s')
     \<and> queued s' = ms \<and> length (heap s') = 2 * length ms \<and> distinct (heap s')"
proof -
  let ?e = "granting\<lparr>e_msgsnd := \<lambda>_. False\<rparr>"
  have p: "2 \<le> length [5, 6 :: byte]" "if si_type (sample_info UdpRecv_H264_CODEC_TYPE) = UdpRecv_AAC_CODEC_TYPE
      then 2 \<le> MAX_AUDIO_LEN else 2 \<le> MAX_FRAME_LEN"
    by (simp_all add: sample_info_def MAX_FRAME_LEN_def codec_types)
  have len: "length (concat (map (\<lambda>(d, b). [d, b]) ps)) = 2 * length ps" for ps :: "(nat \<times> nat) list" by (induction ps) auto
  have none: "e_head ?e k \<noteq> None" for k by (simp add: granting_def)
  have start: "queued sample_streams = []" "heap sample_streams = []" by (simp_all add: sample_streams_def Let_def)
  obtain s' ms ps where s': "recv_deal_udp_recv_data ?e (Some 0) (Some (sample_info UdpRecv_H264_CODEC_TYPE)) (Some [5, 6])
      (int 2) sample_streams = Some (0, s')" "queued s' = ms" "length ps = length ms"
    "mset (heap s') = mset (concat (map (\<lambda>(d, b). [d, b]) ps))" "distinct (heap s')"
    using frames_accounted [OF sample_streams_ready sample_sources p, of ?e] none unfolding start
    by (metis append_Nil add_0 add_0_right distinct.simps(1) mset.simps(1))
  have "length (heap s') = 2 * length ms" using mset_eq_length [OF s'(4)] s'(3) by (simp add: len)
  with s' show ?thesis by blast
qed

text \<open>
  the live paths lose a block: when the data of a message was allocated and its head is refused, the call reports
  the failure and queues nothing, and one new block stays that no message carries and nobody will free.
\<close>

theorem live_head_refused_leaks:
  assumes "e_data e (steps s)" "e_head e (steps s) = None"
  shows "\<exists>s' b. send_msg_to_live_media e fh i s = Some (RECEIVE_MALLOC_ERR, s')
    \<and> queued s' = queued s \<and> ptrs s' = ptrs s \<and> heap s' = b # heap s \<and> b \<notin> set (heap s)"
proof -
  obtain b s1 where t: "take_block (s\<lparr>steps := steps s + 1\<rparr>) = (b, s1)" by fastforce
  then show ?thesis
    using assms take_block [OF t] by (simp add: send_msg_to_live_media_def alloc_message_def Let_def)
qed

theorem live_head_refused_leaks_witness:
  "\<exists>s' b. send_msg_to_live_media (granting\<lparr>e_head := \<lambda>_. None\<rparr>) head_zero 0 sample_streams
     = Some (RECEIVE_MALLOC_ERR, s') \<and> heap s' = [b] \<and> queued s' = []"
proof -
  have "e_data (granting\<lparr>e_head := \<lambda>_. None\<rparr>) (steps sample_streams)"
    "e_head (granting\<lparr>e_head := \<lambda>_. None\<rparr>) (steps sample_streams) = None"
    "queued sample_streams = []" "heap sample_streams = []"
    by (simp_all add: granting_def sample_streams_def Let_def)
  then show ?thesis using live_head_refused_leaks by fastforce
qed

end
