(* ===== verification/Delivery.thy ===== *)
theory Delivery
  imports Stream FanOut
begin

section \<open>From the wire to the queues\<close>

text \<open>
  The receiving thread (\<^theory_text>\<open>UdpRecv\<close>) hands its frames to the room's function (\<^theory_text>\<open>MediaFrame\<close>): what a
  stream of packets becomes on the queues of the recorders, and what a packet that lies about the length of
  its frame does to the room.
\<close>

text \<open>The room's function is called for each frame in turn; \<open>i\<close> is the stream of the thread.\<close>

fun room_calls :: "hub_env \<Rightarrow> nat \<Rightarrow> callback list \<Rightarrow> hub \<Rightarrow> hub option" where
  "room_calls e i [] st = Some st"
| "room_calls e i ((si, buf, len) # cs) st = do {
     (_, st) \<leftarrow> recv_deal_udp_recv_data e (Some i) (Some si) (Some buf) len st;
     room_calls e i cs st
   }"

lemma max_frame_len: "UdpRecv_MAX_FRAME_LEN = MAX_FRAME_LEN"
  by (simp add: UdpRecv_MAX_FRAME_LEN_def MAX_FRAME_LEN_def)

text \<open>Length beyond the frame buffer: the room's copy is undefined.\<close>

lemma room_overlong:
  assumes "stream_ready st i" "video_head H" "MAX_FRAME_LEN < unat (m_frame_length H)" "announces H bs c"
  shows "room_calls e i [c] st = None"
proof -
  obtain f where f: "frame_data (hands st ! i) = Some f" "length f = MAX_FRAME_LEN"
    using stream_readyE [OF assms(1)] by metis
  obtain ts si d where c: "c = (udp_recv_set_stream_info H ts si, d, sint (m_frame_length H))"
    using assms(4) by (auto simp: announces_def)
  have "int MAX_FRAME_LEN < uint (m_frame_length H)" using assms(3) by (metis of_nat_less_iff of_nat_unat)
  then have m: "memcpy f 0 d' 0 (uint (m_frame_length H)) = None" for d'
    using f(2) by (simp add: memcpy_def)
  show ?thesis
    using assms(2) f m codec_types unfolding c
    by (auto simp: recv_deal_udp_recv_data_def video_head_def udp_recv_set_stream_info_def Let_def)
qed

text \<open>The last packet of a frame is taken whatever length it announces, as long as its bytes fit.\<close>

lemma last_packet_taken:
  assumes "thread_ok s" "carries pkt H UdpRecv_LAST_FRAME bs" "video_head H" "alloc_ok mv ma"
    and "video_asm (r_handle s) = []" "length bs \<le> unat (m_frame_length H)"
  shows "\<exists>s' c. recv_step (Packet pkt now mv ma) s = Some s' \<and> r_calls s' = r_calls s @ [c] \<and> announces H [] c"
proof (rule recv_step_video [OF assms(1-4), of now "[]"])
  fix fh area h1 loc'
  assume h1: "video_inv h1" "video_asm h1 = video_asm (r_handle s)"
    and fh: "frame_head fh = H" "m_dw_segment fh = UdpRecv_LAST_FRAME" and ar: "length area = 1444"
    and st: "\<And>h2. pkg_placed_in_frame fh area (int (length bs)) now h1 = Some (UdpRecv_OPERATION_CONTINUE, h2) \<Longrightarrow>
       take (length ([] :: byte list)) (vbuf h2) = [] \<Longrightarrow> video_inv h2 \<Longrightarrow>
       \<exists>si c. recv_step (Packet pkt now mv ma) s =
         Some \<lparr>r_handle = h2\<lparr>stream_info := si\<rparr>, r_locals = loc', r_running = True,
               r_calls = r_calls s @ [c]\<rparr> \<and> announces H [] c"
  have n: "length bs \<le> 1444" using assms(2) by (simp add: carries_def)
  have off: "video_offset h1 = 0" using length_video_asm [OF h1(1)] h1(2) assms(5) by (simp add: unat_eq_zero)
  have "length bs \<le> unat (m_frame_length fh)" using assms(6) fh(1) by (auto simp: frame_head_def)
  then have "\<not> (of_nat (length bs) :: u32) > m_frame_length fh"
    using n by (simp add: word_less_nat_alt unsigned_of_nat take_bit_nat_eq_self)
  then have ns: "\<not> 0 + word_of_int (int (length bs)) > m_frame_length fh" by simp
  have len: "length (vbuf h1) = UdpRecv_MAX_FRAME_LEN" using h1(1) by (simp add: video_inv_def)
  have "0 + length bs \<le> length (vbuf h1)" "0 + length bs \<le> length area"
    using n ar unfolding len by (simp_all add: UdpRecv_MAX_FRAME_LEN_def)
  from memcpy_nat [OF this] obtain buf' where
    m: "memcpy (vbuf h1) 0 area 0 (int (length bs)) = Some buf'" by simp
  let ?h2 = "h1\<lparr>udp_recv_time_t := place_video_time fh now (udp_recv_time_t h1), video_data := Some buf', video_offset := 0\<rparr>"
  have "pkg_placed_in_frame fh area (int (length bs)) now h1 = Some (UdpRecv_OPERATION_CONTINUE, ?h2)"
    using ns m by (simp add: pkg_placed_in_frame_def place_segment_def seg_names fh(2) [unfolded seg_names] off
        video_inv_Some [OF h1(1)])
  moreover have "video_inv ?h2"
    using memcpy_length [OF m] len by (simp add: video_inv_def vbuf_def)
  ultimately show ?thesis using st by fastforce
qed

text \<open>
  A single JPEG packet that calls itself the last of a frame of more than 2 MiB is accepted by a receiving
  thread that holds no partial frame: the thread announces the frame with that length, and the room that copies
  it reads and writes beyond its buffers.
\<close>

theorem last_packet_overruns_room:
  assumes "thread_ok s" "alloc_ok mv ma" "video_asm (r_handle s) = []"
    and "codec f = 2" "samplerate f = 1" "length p \<le> 1444" "MAX_FRAME_LEN < unat (framelength f)"
    and "stream_ready st i"
  shows "\<exists>s' c. recv_step (Packet (pack_head h f @ p) now mv ma) s = Some s' \<and> r_calls s' = r_calls s @ [c]
    \<and> room_calls e i [c] st = None"
proof -
  let ?H = "jpeg_head f (timestamp h)"
  have H: "video_head ?H" "m_frame_length ?H = framelength f"
    by (simp_all add: jpeg_head_def video_head_def head_zero_def)
  have c: "carries (pack_head h f @ p) ?H UdpRecv_LAST_FRAME p"
    using carries_jpeg [OF assms(4) _ assms(6), of h] assms(5) by (simp add: UdpRecv_LAST_FRAME_def)
  have "length p \<le> unat (m_frame_length ?H)"
    using assms(6,7) unfolding H(2) by (simp add: MAX_FRAME_LEN_def)
  from last_packet_taken [OF assms(1) c H(1) assms(2,3) this, of now]
  show ?thesis using room_overlong [OF assms(8) H(1)] assms(7) H(2) by metis
qed

definition lying_frame :: US_FRAMEHEAD where
  "lying_frame = \<lparr>codec = 2, samplerate = 1, framerate = 0, width = 0, height = 0, Iframe = 0, reserve = 0,
     framelength = 3000000\<rparr>"

theorem last_packet_overruns_room_witness:
  "\<exists>s' c. recv_step (Packet (pack_head (video_hdr 0) lying_frame @ [1, 2, 3]) 7 zero_block zero_block) running_thread = Some s'
    \<and> r_calls s' = r_calls running_thread @ [c] \<and> room_calls granting 0 [c] sample_streams = None"
  by (rule last_packet_overruns_room [OF running_thread_ok zero_blocks_ok _ _ _ _ _ sample_streams_ready])
     (simp_all add: lying_frame_def MAX_FRAME_LEN_def running_thread_def running_handle_def recv_thread_entry_def
        udp_recv_init_def udp_recv_start_def video_asm_def Let_def)

text \<open>
  Packets that are delivered once as a picture end up as one message for every consumer that wants it.
\<close>

lemma recorded_once:
  assumes "delivered_once pk Q d" "\<And>si. Q si \<Longrightarrow> si_type si = UdpRecv_H264_CODEC_TYPE \<or> si_type si = UdpRecv_JPEG_CODEC_TYPE"
    and "length d \<le> MAX_FRAME_LEN" "thread_ok s" "r_calls s = []" "list_all2 packet_event pk evs"
    and "all_granted e" "stream_ready st i"
  shows "\<exists>s' st' si. udp_recv_deal evs s = Some s' \<and> room_calls e i (r_calls s') st = Some st' \<and> Q si
    \<and> queued st' = queued st @ picture_posts (hands st ! i) (picture_of si d (stream_id (hands st ! i)))
    \<and> (\<exists>ps. grown st st' (picture_posts (hands st ! i) (picture_of si d (stream_id (hands st ! i)))) ps {#})"
proof -
  obtain s' si buf where s': "udp_recv_deal evs s = Some s'" "r_calls s' = [(si, buf, int (length d))]"
    "take (length d) buf = d" "Q si"
    using assms(1,4-6) unfolding delivered_once_def by (metis append_Nil)
  then have "length d \<le> length buf" by (metis length_take min.cobounded1)
  from picture_to_consumers [OF assms(7,8) this assms(3) assms(2) [OF s'(4)]] s' show ?thesis by fastforce
qed

text \<open>
  \<open>queued_once pk P\<close>: a ready thread that gets the packets \<open>pk\<close>, for a ready stream of a room whose queues take
  everything, leaves one message that satisfies \<open>P\<close> for every consumer that wants the picture.
\<close>

definition queued_once :: "byte list list \<Rightarrow> (parse_data_t \<Rightarrow> bool) \<Rightarrow> bool" where
  "queued_once pk P \<longleftrightarrow>
     (\<forall>s evs e st i. thread_ok s \<and> r_calls s = [] \<and> list_all2 packet_event pk evs \<and> all_granted e \<and> stream_ready st i
        \<longrightarrow> (\<exists>s' st' pd. udp_recv_deal evs s = Some s' \<and> room_calls e i (r_calls s') st = Some st' \<and> P pd
              \<and> queued st' = queued st @ picture_posts (hands st ! i) pd))"

lemma queued_onceI:
  assumes "delivered_once pk Q d" "length d \<le> MAX_FRAME_LEN"
    and "\<And>si. Q si \<Longrightarrow> si_type si = UdpRecv_H264_CODEC_TYPE \<or> si_type si = UdpRecv_JPEG_CODEC_TYPE"
    and "\<And>si sid. Q si \<Longrightarrow> P (picture_of si d sid)"
  shows "queued_once pk P"
  unfolding queued_once_def
proof (intro allI impI, elim conjE)
  fix s evs e i and st :: hub
  assume a: "thread_ok s" "r_calls s = []" "list_all2 packet_event pk evs" "all_granted e" "stream_ready st i"
  from recorded_once [OF assms(1,3,2) a] assms(4)
  show "\<exists>s' st' pd. udp_recv_deal evs s = Some s' \<and> room_calls e i (r_calls s') st = Some st' \<and> P pd
      \<and> queued st' = queued st @ picture_posts (hands st ! i) pd" by blast
qed

end
