(* ===== verification/Ini.thy ===== *)
theory Ini
  imports Prelude
begin

section \<open>Configuration files (src/reach\_edukit/src/enc/middle/rwini.c)\<close>

text \<open>
  The reader and the writer of the encoder's configuration files.  A file is the list of its bytes; an input
  file carries a flag that says whether the bytes are followed by a read error instead of the end.  A string
  is the list of the bytes before its terminator.  The buffers for lines hold \<^verbatim>\<open>MAX_CFG_BUF\<close> characters and a
  terminator; a longer line is read in pieces.

  The abstraction of a file is the list of its items: blank lines and comments, section heads and entries.
  Reading a key is a search in that list, writing one an update of it; the theorems say so for files of plain
  lines, those that the writer itself produces and that are not continued on the next line with \<open>+\<close>.
\<close>

type_synonym input = "byte list \<times> bool"

abbreviation (input) CFG_ssl :: byte where "CFG_ssl \<equiv> 0x5B"
abbreviation (input) CFG_ssr :: byte where "CFG_ssr \<equiv> 0x5D"
abbreviation (input) CFG_nis :: byte where "CFG_nis \<equiv> 0x3A"
abbreviation (input) CFG_nts :: byte where "CFG_nts \<equiv> 0x23"
abbreviation (input) space :: byte where "space \<equiv> 0x20"
abbreviation (input) newline :: byte where "newline \<equiv> 0x0A"
abbreviation (input) equals :: byte where "equals \<equiv> 0x3D"
abbreviation (input) plus_sign :: byte where "plus_sign \<equiv> 0x2B"

definition MAX_CFG_BUF :: nat where "MAX_CFG_BUF = 512"

definition CFG_OK :: int where "CFG_OK = 0"
definition CFG_SECTION_NOT_FOUND :: int where "CFG_SECTION_NOT_FOUND = - 1"
definition CFG_KEY_NOT_FOUND :: int where "CFG_KEY_NOT_FOUND = - 2"
definition CFG_ERR :: int where "CFG_ERR = - 10"
definition CFG_ERR_OPEN_FILE :: int where "CFG_ERR_OPEN_FILE = - 10"
definition CFG_ERR_CREATE_FILE :: int where "CFG_ERR_CREATE_FILE = - 11"
definition CFG_ERR_READ_FILE :: int where "CFG_ERR_READ_FILE = - 12"
definition CFG_ERR_WRITE_FILE :: int where "CFG_ERR_WRITE_FILE = - 13"
definition CFG_ERR_FILE_FORMAT :: int where "CFG_ERR_FILE_FORMAT = - 14"
definition CFG_ERR_EXCEED_BUF_SIZE :: int where "CFG_ERR_EXCEED_BUF_SIZE = - 22"

lemmas cfg_codes = CFG_OK_def CFG_SECTION_NOT_FOUND_def CFG_KEY_NOT_FOUND_def CFG_ERR_def CFG_ERR_OPEN_FILE_def
  CFG_ERR_CREATE_FILE_def CFG_ERR_READ_FILE_def CFG_ERR_WRITE_FILE_def CFG_ERR_FILE_FORMAT_def CFG_ERR_EXCEED_BUF_SIZE_def

subsection \<open>Strings and lines\<close>

text \<open>In spite of their names \<^verbatim>\<open>strtrimr\<close> removes the spaces on the left and \<^verbatim>\<open>strtriml\<close> those on the right.\<close>

definition strtrimr :: "byte list \<Rightarrow> byte list" where
  "strtrimr buf = dropWhile (\<lambda>c. c = space) buf"

definition strtriml :: "byte list \<Rightarrow> byte list" where
  "strtriml buf = rev (dropWhile (\<lambda>c. c = space) (rev buf))"

text \<open>
  One line: its length or \<open>-1\<close> at the end of the file, \<open>-2\<close> after a read error; its characters; the bytes left.
  \<open>room\<close> is what the buffer still takes, \<open>j\<close> the number of bytes read.
\<close>

fun get_line :: "nat \<Rightarrow> nat \<Rightarrow> byte list \<Rightarrow> bool \<Rightarrow> int \<times> byte list \<times> byte list" where
  "get_line room j [] broken =
     (if room = 0 then (0, [], []) else if broken then (- 2, [], []) else if j = 0 then (- 1, [], []) else (0, [], []))"
| "get_line room j (c # bs) broken =
     (if room = 0 then (0, [], c # bs)
      else if c = newline \<or> c = 0 then (0, [], bs)
      else if c = 0x0C \<or> c = 0x1A then (1, [c], bs)
      else if c \<noteq> 0x0D
      then (case get_line (room - 1) (j + 1) bs broken of (n, l, r) \<Rightarrow> if n < 0 then (n, l, r) else (n + 1, c # l, r))
      else get_line room (j + 1) bs broken)"

definition FileGetLine :: "input \<Rightarrow> int \<times> byte list \<times> input" where
  "FileGetLine inp = (case inp of (bs, broken) \<Rightarrow>
     case get_line MAX_CFG_BUF 0 bs broken of (n, l, r) \<Rightarrow> (n, l, (r, broken)))"

lemma get_line_rest: "get_line room j bs broken = (n, l, r) \<Longrightarrow> length r \<le> length bs"
  by (induction room j bs broken arbitrary: n l r rule: get_line.induct) (fastforce split: if_splits prod.splits)+

lemma FileGetLine_shorter:
  "FileGetLine inp = (n, l, inp') \<Longrightarrow> \<not> n < 0 \<Longrightarrow> length (fst inp') < length (fst inp)"
  by (cases "fst inp"; cases inp)
     (auto simp: FileGetLine_def MAX_CFG_BUF_def dest: get_line_rest split: if_splits prod.splits)

text \<open>A key and its value, or a name and its index: the code of a line that is neither, or the two parts.\<close>

definition is_blank :: "byte \<Rightarrow> bool" where "is_blank c \<longleftrightarrow> c = space \<or> c = 9"

definition split_pair :: "byte \<Rightarrow> byte list \<Rightarrow> int + byte list \<times> byte list" where
  "split_pair sep buf = (case dropWhile is_blank buf of
     [] \<Rightarrow> Inl 0
   | c # cs \<Rightarrow> if c = sep then Inl (- 1)
       else (case dropWhile (\<lambda>c. c \<noteq> sep) cs of
         [] \<Rightarrow> Inl (- 2)
       | _ # v \<Rightarrow> Inr (c # takeWhile (\<lambda>c. c \<noteq> sep) cs, dropWhile is_blank v)))"

definition SplitSectionToNameIndex :: "byte list \<Rightarrow> int + byte list \<times> byte list" where
  "SplitSectionToNameIndex section = split_pair CFG_nis section"

definition SplitKeyValue :: "byte list \<Rightarrow> int + byte list \<times> byte list" where
  "SplitKeyValue buf = split_pair equals buf"

text \<open>The buffer \<^verbatim>\<open>*section\<close> is extended and cut to the length of the two parts.\<close>

definition JoinNameIndexToSection :: "byte list \<Rightarrow> byte list \<Rightarrow> byte list \<Rightarrow> int \<times> byte list" where
  "JoinNameIndexToSection section name index =
     (if name = [] then (0, section) else if index = [] then (0, section)
      else (1, take (length name + 1 + length index) (section @ name @ [CFG_nis] @ index)))"

subsection \<open>Reading\<close>

text \<open>The search for a section: an error, or the number of the line and the rest of the file.\<close>

function find_section :: "byte list \<Rightarrow> nat \<Rightarrow> input \<Rightarrow> int + nat \<times> input" where
  "find_section sec line_no inp = (case FileGetLine inp of (n, l, inp') \<Rightarrow>
     if n < - 1 then Inl CFG_ERR_READ_FILE
     else if n < 0 then Inl CFG_SECTION_NOT_FOUND
     else let l = strtriml (strtrimr l) in
       if l = [] \<or> hd l = CFG_nts then find_section sec (line_no + 1) inp'
       else if length l > 2 \<and> hd l = CFG_ssl \<and> last l \<noteq> CFG_ssr then Inl CFG_ERR_FILE_FORMAT
       else if hd l = CFG_ssl \<and> tl (butlast l) = sec then Inr (line_no + 1, inp')
       else find_section sec (line_no + 1) inp')"
  by auto
termination
  by (relation "measure (\<lambda>(s, k, inp). length (fst inp))") (auto dest!: FileGetLine_shorter [OF sym])

text \<open>The lines of a continued entry: the code, the joined line, the number of lines and the rest.\<close>

function continue_line :: "byte list \<Rightarrow> nat \<Rightarrow> input \<Rightarrow> int \<times> byte list \<times> nat \<times> input" where
  "continue_line buf1 key_lines inp = (case FileGetLine inp of (n, l, inp') \<Rightarrow>
     if n < - 1 then (CFG_ERR_READ_FILE, buf1, key_lines, inp')
     else if n < 0 then (CFG_OK, buf1, key_lines, inp')
     else let buf2 = strtrimr l in
       if buf2 \<noteq> [] \<and> last buf2 = plus_sign
       then (if length buf1 + length (butlast buf2) > MAX_CFG_BUF then (CFG_ERR_EXCEED_BUF_SIZE, buf1, key_lines + 1, inp')
             else continue_line (buf1 @ butlast buf2) (key_lines + 1) inp')
       else (if length buf1 + length buf2 > MAX_CFG_BUF then (CFG_ERR_EXCEED_BUF_SIZE, buf1, key_lines + 1, inp')
             else (CFG_OK, buf1 @ buf2, key_lines + 1, inp')))"
  by auto
termination
  by (relation "measure (\<lambda>(b, k, inp). length (fst inp))") (auto dest!: FileGetLine_shorter [OF sym])

lemma continue_line_rest:
  "continue_line buf1 k inp = (e, b, k', inp') \<Longrightarrow> e = CFG_OK \<Longrightarrow> length (fst inp') \<le> length (fst inp)"
proof (induction buf1 k inp rule: continue_line.induct)
  case (1 buf1 k inp)
  obtain n l r where l: "FileGetLine inp = (n, l, r)" by (cases "FileGetLine inp")
  have "length (fst r) \<le> length (fst inp)"
    using l get_line_rest by (cases inp) (auto simp: FileGetLine_def split: prod.splits)
  with "1.prems" "1.IH" [OF l [symmetric] refl] show ?case
    by (subst (asm) continue_line.simps)
       (force simp: l cfg_codes Let_def split: if_splits dest: le_trans)
qed

text \<open>
  The search for a key in a section: the code; the numbers of the line and of the lines of the entry, as the
  variables \<^verbatim>\<open>CFG_key_line_no\<close> and \<^verbatim>\<open>CFG_key_lines\<close> have them; the value; the rest of the file.
\<close>

function find_key :: "byte list \<Rightarrow> nat \<Rightarrow> nat \<times> nat \<Rightarrow> input \<Rightarrow> int \<times> (nat \<times> nat) \<times> byte list option" where
  "find_key key line_no pos inp = (case FileGetLine inp of (n, l, inp') \<Rightarrow>
     if n < - 1 then (CFG_ERR_READ_FILE, pos, None)
     else if n < 0 then (CFG_KEY_NOT_FOUND, pos, None)
     else let l = strtriml (strtrimr l); line_no = line_no + 1 in
       if l = [] \<or> hd l = CFG_nts then find_key key line_no (line_no, 1) inp'
       else if hd l = CFG_ssl then (CFG_KEY_NOT_FOUND, (line_no, 1), None)
       else case (if last l = plus_sign then continue_line (butlast l) 1 inp' else (CFG_OK, l, 1, inp'))
         of (e, buf1, k, inp'') \<Rightarrow>
           if e \<noteq> CFG_OK then (e, (line_no, k), None)
           else case SplitKeyValue buf1 of
             Inl _ \<Rightarrow> (CFG_ERR_FILE_FORMAT, (line_no, k), None)
           | Inr (key', val) \<Rightarrow>
               if strtriml (strtrimr key') \<noteq> key then find_key key (line_no + (k - 1)) (line_no, k) inp''
               else (CFG_OK, (line_no, k), Some val))"
  by auto
termination
proof (relation "measure (\<lambda>(key, k, pos, inp). length (fst inp))", goal_cases)
  case (3 key line_no pos inp n y l inp' l' line_no' e y' buf1 y'' k inp'')
  have "length (fst inp') < length (fst inp)" using FileGetLine_shorter 3 by metis
  moreover have "length (fst inp'') \<le> length (fst inp')"
  proof (cases "last l' = plus_sign")
    case True
    then show ?thesis using continue_line_rest [of "butlast l'" 1 inp' e buf1 k inp''] 3 by simp
  qed (use 3 in simp)
  ultimately show ?case by simp
qed (auto dest!: FileGetLine_shorter [OF sym])

text \<open>
  A file that cannot be opened is \<^const>\<open>None\<close>.  The result is the code, the three variables with the numbers
  of the lines and the value copied to the buffer of the caller.
\<close>

definition ConfigGetKey ::
  "input option \<Rightarrow> byte list \<Rightarrow> byte list \<Rightarrow> int \<times> (nat \<times> nat \<times> nat) \<times> byte list option" where
  "ConfigGetKey CFG_file sec key = (case CFG_file of
     None \<Rightarrow> (CFG_ERR_OPEN_FILE, (0, 0, 0), None)
   | Some fp \<Rightarrow> (case find_section sec 0 fp of
       Inl e \<Rightarrow> (e, (0, 0, 0), None)
     | Inr (line_no, fp) \<Rightarrow> (case find_key key line_no (0, 0) fp of (e, (kl, kn), v) \<Rightarrow> (e, (line_no, kl, kn), v))))"

text \<open>The names of all sections, and of the keys of a section: the count or an error, and the names stored.\<close>

function sections_loop :: "byte list list \<Rightarrow> input \<Rightarrow> int \<times> byte list list" where
  "sections_loop names inp = (case FileGetLine inp of (n, l, inp') \<Rightarrow>
     if n < - 1 then (CFG_ERR_READ_FILE, names)
     else if n < 0 then (int (length names), names)
     else let l = strtriml (strtrimr l) in
       if l = [] \<or> hd l = CFG_nts then sections_loop names inp'
       else if length l > 2 \<and> hd l = CFG_ssl \<and> last l \<noteq> CFG_ssr then (CFG_ERR_FILE_FORMAT, names)
       else if hd l = CFG_ssl then sections_loop (names @ [tl (butlast l)]) inp'
       else sections_loop names inp')"
  by auto
termination
  by (relation "measure (\<lambda>(s, inp). length (fst inp))") (auto dest!: FileGetLine_shorter [OF sym])

definition ConfigGetSections :: "input option \<Rightarrow> int \<times> byte list list" where
  "ConfigGetSections CFG_file = (case CFG_file of None \<Rightarrow> (CFG_ERR_OPEN_FILE, []) | Some fp \<Rightarrow> sections_loop [] fp)"

function keys_loop :: "byte list list \<Rightarrow> input \<Rightarrow> int \<times> byte list list" where
  "keys_loop names inp = (case FileGetLine inp of (n, l, inp') \<Rightarrow>
     if n < - 1 then (CFG_ERR_READ_FILE, names)
     else if n < 0 then (int (length names), names)
     else let l = strtriml (strtrimr l) in
       if l = [] \<or> hd l = CFG_nts then keys_loop names inp'
       else if hd l = CFG_ssl then (int (length names), names)
       else case (if last l = plus_sign then continue_line (butlast l) 1 inp' else (CFG_OK, l, 1, inp'))
         of (e, buf1, k, inp'') \<Rightarrow>
           if e \<noteq> CFG_OK then (e, names)
           else case SplitKeyValue buf1 of
             Inl _ \<Rightarrow> (CFG_ERR_FILE_FORMAT, names)
           | Inr (key', val) \<Rightarrow> keys_loop (names @ [strtriml (strtrimr key')]) inp'')"
  by auto
termination
proof (relation "measure (\<lambda>(names, inp). length (fst inp))", goal_cases)
  case (3 names inp n y l inp' l' e y' buf1 y'' k inp'')
  have "length (fst inp') < length (fst inp)" using FileGetLine_shorter 3 by metis
  moreover have "length (fst inp'') \<le> length (fst inp')"
  proof (cases "last l' = plus_sign")
    case True
    then show ?thesis using continue_line_rest [of "butlast l'" 1 inp' e buf1 k inp''] 3 by simp
  qed (use 3 in simp)
  ultimately show ?case by simp
qed (auto dest!: FileGetLine_shorter [OF sym])

definition ConfigGetKeys :: "input option \<Rightarrow> byte list \<Rightarrow> int \<times> byte list list" where
  "ConfigGetKeys CFG_file sec = (case CFG_file of
     None \<Rightarrow> (CFG_ERR_OPEN_FILE, [])
   | Some fp \<Rightarrow> (case find_section sec 0 fp of Inl e \<Rightarrow> (e, []) | Inr (_, fp) \<Rightarrow> keys_loop [] fp))"

subsection \<open>Writing\<close>

text \<open>
  The answers of the system while a key is written: which files can be opened, and whether the \<open>k\<close>-th output
  call succeeds.  The output so far is kept with the number of calls made.
\<close>

record set_env =
  append_ok :: bool
  mkstemp_ok :: bool
  tmp_ok :: bool
  reopen_ok :: bool
  copy_src_ok :: bool
  copy_dst_ok :: bool
  wr :: "nat \<Rightarrow> bool"

type_synonym writer = "nat \<times> byte list"

definition put :: "(nat \<Rightarrow> bool) \<Rightarrow> writer \<Rightarrow> byte list \<Rightarrow> writer option" where
  "put w st s = (if w (fst st) then Some (fst st + 1, snd st @ s) else None)"

fun copy_lines :: "(nat \<Rightarrow> bool) \<Rightarrow> nat \<Rightarrow> input \<Rightarrow> writer \<Rightarrow> int + input \<times> writer" where
  "copy_lines w 0 inp st = Inr (inp, st)"
| "copy_lines w (Suc n) inp st = (case FileGetLine inp of (c, l, inp') \<Rightarrow>
     if c < 0 then Inl CFG_ERR_READ_FILE
     else case put w st (l @ [newline]) of
       None \<Rightarrow> Inl CFG_ERR_WRITE_FILE
     | Some st' \<Rightarrow> copy_lines w n inp' st')"

fun skip_lines :: "nat \<Rightarrow> input \<Rightarrow> int + input" where
  "skip_lines 0 inp = Inr inp"
| "skip_lines (Suc n) inp = (case FileGetLine inp of (c, l, inp') \<Rightarrow>
     if c < 0 then Inl CFG_ERR_READ_FILE else skip_lines n inp')"

function copy_rest :: "(nat \<Rightarrow> bool) \<Rightarrow> input \<Rightarrow> writer \<Rightarrow> int + writer" where
  "copy_rest w inp st = (case FileGetLine inp of (c, l, inp') \<Rightarrow>
     if c < - 1 then Inl CFG_ERR_READ_FILE
     else if c < 0 then Inr st
     else case put w st (l @ [newline]) of
       None \<Rightarrow> Inl CFG_ERR_WRITE_FILE
     | Some st' \<Rightarrow> copy_rest w inp' st')"
  by auto
termination
  by (relation "measure (\<lambda>(w, inp, st). length (fst inp))") (auto dest!: FileGetLine_shorter [OF sym])

text \<open>The file is copied line by line; \<open>fgets\<close> takes 1023 bytes at most and \<open>fputs\<close> stops at a 0.\<close>

definition COPYF_OK :: int where "COPYF_OK = 0"
definition COPYF_ERR_OPEN_FILE :: int where "COPYF_ERR_OPEN_FILE = - 10"
definition COPYF_ERR_CREATE_FILE :: int where "COPYF_ERR_CREATE_FILE = - 11"
definition COPYF_ERR_WRITE_FILE :: int where "COPYF_ERR_WRITE_FILE = - 13"

definition fgets :: "nat \<Rightarrow> byte list \<Rightarrow> byte list" where
  "fgets n bs = (let t = take (n - 1) bs in
     takeWhile (\<lambda>c. c \<noteq> newline) t @ (if newline \<in> set t then [newline] else []))"

lemma fgets_Cons: "1 < n \<Longrightarrow> fgets n (c # bs) \<noteq> []"
  by (cases "n - 1") (auto simp: fgets_def Let_def)

function copy_chunks :: "(nat \<Rightarrow> bool) \<Rightarrow> byte list \<Rightarrow> writer \<Rightarrow> int \<times> byte list" where
  "copy_chunks w bs st =
     (if bs = [] then (COPYF_OK, snd st)
      else case put w st (takeWhile (\<lambda>c. c \<noteq> 0) (fgets 1024 bs)) of
        None \<Rightarrow> (COPYF_ERR_WRITE_FILE, snd st)
      | Some st' \<Rightarrow> copy_chunks w (drop (length (fgets 1024 bs)) bs) st')"
  by auto
termination
proof (relation "measure (\<lambda>(w, bs, st). length bs)", goal_cases)
  case (2 w bs st st')
  then have "fgets 1024 bs \<noteq> []" by (cases bs) (simp_all add: fgets_Cons)
  with 2 show ?case by simp
qed simp

definition FileCopy :: "set_env \<Rightarrow> nat \<Rightarrow> byte list \<Rightarrow> byte list option \<Rightarrow> int \<times> byte list option" where
  "FileCopy env k src dst =
     (if \<not> copy_src_ok env then (COPYF_ERR_OPEN_FILE, dst)
      else if \<not> copy_dst_ok env then (COPYF_ERR_CREATE_FILE, dst)
      else case copy_chunks (wr env) src (k, []) of (ret, out) \<Rightarrow> (ret, Some out))"

definition section_line :: "byte list \<Rightarrow> byte list" where
  "section_line sec = [CFG_ssl] @ sec @ [CFG_ssr] @ [newline]"

definition entry_line :: "byte list \<Rightarrow> byte list \<Rightarrow> byte list" where
  "entry_line key buf = key @ [equals] @ buf @ [newline]"

text \<open>The new content in the temporary file: \<open>n\<close> lines copied, \<open>k\<close> lines left out, the entry, the rest.\<close>

definition rewrite_file ::
  "(nat \<Rightarrow> bool) \<Rightarrow> nat \<Rightarrow> nat \<Rightarrow> byte list \<Rightarrow> input \<Rightarrow> int + writer" where
  "rewrite_file w n k entry fp1 = (case copy_lines w n fp1 (0, []) of
     Inl e \<Rightarrow> Inl e
   | Inr (fp1, st) \<Rightarrow> (case skip_lines k fp1 of
       Inl e \<Rightarrow> Inl e
     | Inr fp1 \<Rightarrow> (case put w st entry of
         None \<Rightarrow> Inl CFG_ERR_WRITE_FILE
       | Some st \<Rightarrow> copy_rest w fp1 st)))"

text \<open>The code and the content of the file afterwards.\<close>

definition ConfigSetKey ::
  "set_env \<Rightarrow> input option \<Rightarrow> byte list \<Rightarrow> byte list \<Rightarrow> byte list \<Rightarrow> int \<times> byte list option" where
  "ConfigSetKey env CFG_file sec key buf =
     (let old = map_option fst CFG_file; w = wr env in
      case ConfigGetKey CFG_file sec key of (ret, (section_no, key_no, key_lines), _) \<Rightarrow>
      if ret \<le> CFG_ERR \<and> ret \<noteq> CFG_ERR_OPEN_FILE then (ret, old)
      else if ret = CFG_ERR_OPEN_FILE \<or> ret = CFG_SECTION_NOT_FOUND then
        (if \<not> append_ok env then (CFG_ERR_CREATE_FILE, old)
         else let base = (case old of None \<Rightarrow> [] | Some b \<Rightarrow> b) in
           case put w (0, base) (section_line sec) of
             None \<Rightarrow> (CFG_ERR_WRITE_FILE, Some base)
           | Some st \<Rightarrow> (case put w st (entry_line key buf) of
               None \<Rightarrow> (CFG_ERR_WRITE_FILE, Some (snd st))
             | Some st \<Rightarrow> (CFG_OK, Some (snd st))))
      else if \<not> mkstemp_ok env then (CFG_ERR_CREATE_FILE, old)
      else if \<not> tmp_ok env then (CFG_ERR_CREATE_FILE, old)
      else case (if reopen_ok env then CFG_file else None) of
        None \<Rightarrow> (CFG_ERR_OPEN_FILE, old)
      | Some fp1 \<Rightarrow>
          (case rewrite_file w (if ret = CFG_KEY_NOT_FOUND then section_no else key_no - 1)
              (if ret = CFG_KEY_NOT_FOUND then 0 else key_lines) (entry_line key buf) fp1 of
             Inl e \<Rightarrow> (e, old)
           | Inr st \<Rightarrow> (case FileCopy env (fst st) (snd st) old of (r, f) \<Rightarrow>
               if r \<noteq> 0 then (CFG_ERR_CREATE_FILE, f) else (CFG_OK, f))))"

declare find_section.simps [simp del] continue_line.simps [simp del] find_key.simps [simp del]
  sections_loop.simps [simp del] keys_loop.simps [simp del] copy_rest.simps [simp del] copy_chunks.simps [simp del]

subsection \<open>The lines of a file\<close>

lemma get_line_length:
  "get_line room j bs False = (n, l, r) \<Longrightarrow>
    n = int (length l) \<or> n = - 1 \<and> l = [] \<and> bs = [] \<and> j = 0 \<and> 0 < room"
  by (induction room j bs False arbitrary: n l r rule: get_line.induct) (force split: if_splits prod.splits)+

function lines_of :: "byte list \<Rightarrow> byte list list" where
  "lines_of bs = (case FileGetLine (bs, False) of (n, l, inp') \<Rightarrow> if n < 0 then [] else l # lines_of (fst inp'))"
  by auto
termination
  by (relation "measure length") (auto dest!: FileGetLine_shorter [OF sym])

declare lines_of.simps [simp del]

lemma FileGetLine_cases:
  obtains (eof) "FileGetLine (bs, False) = (- 1, [], ([], False))" "lines_of bs = []"
  | (line) l r where "FileGetLine (bs, False) = (int (length l), l, (r, False))" "lines_of bs = l # lines_of r"
      "length r < length bs"
proof -
  obtain n l r where g: "get_line MAX_CFG_BUF 0 bs False = (n, l, r)" by (cases "get_line MAX_CFG_BUF 0 bs False")
  then have f: "FileGetLine (bs, False) = (n, l, (r, False))" by (simp add: FileGetLine_def)
  show thesis
  proof (cases "n < 0")
    case True
    then have "n = - 1" "l = []" "bs = []" using get_line_length [OF g] by auto
    moreover from this have "r = []" using g by (auto split: if_splits)
    ultimately show ?thesis using f by (intro eof) (simp_all add: lines_of.simps)
  next
    case False
    then have "n = int (length l)" using get_line_length [OF g] by auto
    then show ?thesis using f FileGetLine_shorter [OF f] by (intro line) (simp_all add: lines_of.simps)
  qed
qed

lemma lines_of_Nil [simp]: "lines_of [] = []"
  by (simp add: lines_of.simps FileGetLine_def MAX_CFG_BUF_def)

text \<open>Text behind a newline is a line of its own.\<close>

lemma get_line_append:
  "bs \<noteq> [] \<Longrightarrow> last bs = newline \<Longrightarrow> get_line room j bs False = (n, l, r) \<Longrightarrow>
    get_line room j (bs @ x) False = (n, l, r @ x) \<and> (r = [] \<or> last r = newline)"
proof (induction room j bs False arbitrary: n l r rule: get_line.induct)
  case (2 room j c bs)
  show ?case
  proof (cases "bs = []")
    case True
    then show ?thesis using "2.prems" by (auto split: if_splits)
  next
    case False
    then have nl: "last bs = newline" using "2.prems" by simp
    consider "room = 0" | "room \<noteq> 0" "c = newline \<or> c = 0" | "room \<noteq> 0" "c \<noteq> newline" "c \<noteq> 0" "c = 0x0C \<or> c = 0x1A"
      | "room \<noteq> 0" "c \<noteq> newline" "c \<noteq> 0" "c \<noteq> 0x0C" "c \<noteq> 0x1A" "c \<noteq> 0x0D"
      | "room \<noteq> 0" "c = 0x0D" by blast
    then show ?thesis
    proof cases
      case 4
      obtain n' l' r' where g: "get_line (room - 1) (j + 1) bs False = (n', l', r')"
        by (cases "get_line (room - 1) (j + 1) bs False")
      have "get_line (room - 1) (j + 1) (bs @ x) False = (n', l', r' @ x) \<and> (r' = [] \<or> last r' = newline)"
        using "2.hyps"(1) [OF _ _ _ _ False nl g] 4 by simp
      with g 4 "2.prems"(3) show ?thesis by (auto split: if_splits)
    next
      case 5
      then show ?thesis using "2.hyps"(2) [OF _ _ _ _ False nl] "2.prems"(3) by auto
    qed (use "2.prems" nl in auto)
  qed
qed simp

lemma lines_of_append:
  "bs = [] \<or> last bs = newline \<Longrightarrow> lines_of (bs @ x) = lines_of bs @ lines_of x"
proof (induction "length bs" arbitrary: bs rule: less_induct)
  case less
  show ?case
  proof (cases "bs = []")
    case False
    obtain n l r where g: "get_line MAX_CFG_BUF 0 bs False = (n, l, r)" by (cases "get_line MAX_CFG_BUF 0 bs False")
    then have f: "FileGetLine (bs, False) = (n, l, (r, False))" by (simp add: FileGetLine_def)
    have n: "\<not> n < 0" using get_line_length [OF g] False by auto
    have a: "get_line MAX_CFG_BUF 0 (bs @ x) False = (n, l, r @ x)" "r = [] \<or> last r = newline"
      using get_line_append [OF False _ g, of x] less.prems False by auto
    then have f': "FileGetLine (bs @ x, False) = (n, l, (r @ x, False))" by (simp add: FileGetLine_def)
    have "length r < length bs" using FileGetLine_shorter [OF f n] by simp
    then show ?thesis using less.hyps [OF _ a(2)] f f' n by (simp add: lines_of.simps [of bs] lines_of.simps [of "bs @ x"])
  qed simp
qed

text \<open>Lines the writer can write so that they are read again.\<close>

definition clean :: "byte list \<Rightarrow> bool" where
  "clean l \<longleftrightarrow> (\<forall>c \<in> set l. c \<notin> {0, newline, 0x0C, 0x0D, 0x1A})"

definition unlines :: "byte list list \<Rightarrow> byte list" where
  "unlines ls = concat (map (\<lambda>l. l @ [newline]) ls)"

lemma unlines_simps [simp]:
  "unlines [] = []" "unlines (l # ls) = l @ newline # unlines ls" "unlines (ls @ ms) = unlines ls @ unlines ms"
  by (simp_all add: unlines_def)

lemma get_line_clean:
  "clean l \<Longrightarrow> length l < room \<Longrightarrow> get_line room j (l @ newline # r) False = (int (length l), l, r)"
proof (induction l arbitrary: room j)
  case (Cons c l)
  then show ?case by (simp add: clean_def)
qed simp

lemma get_line_unterminated:
  "clean l \<Longrightarrow> length l < room \<Longrightarrow> l \<noteq> [] \<or> 0 < j \<Longrightarrow> get_line room j l False = (int (length l), l, [])"
proof (induction l arbitrary: room j)
  case (Cons c l)
  then show ?case by (simp add: clean_def)
qed simp

lemma lines_of_clean:
  "clean l \<Longrightarrow> length l < 512 \<Longrightarrow> lines_of (l @ newline # r) = l # lines_of r"
  using get_line_clean [of l 512 0 r] by (subst lines_of.simps) (simp add: FileGetLine_def MAX_CFG_BUF_def)

lemma lines_of_unlines:
  "\<forall>l \<in> set ls. clean l \<and> length l < 512 \<Longrightarrow> lines_of (unlines ls @ r) = ls @ lines_of r"
  by (induction ls) (simp_all add: lines_of_clean)

subsection \<open>The items of a file\<close>

datatype item = Blank | Section "byte list" | Entry "byte list" "byte list"

definition parse_line :: "byte list \<Rightarrow> item option" where
  "parse_line l = (let t = strtriml (strtrimr l) in
     if t = [] \<or> hd t = CFG_nts then Some Blank
     else if hd t = CFG_ssl then (if length t > 2 \<and> last t \<noteq> CFG_ssr then None else Some (Section (tl (butlast t))))
     else if last t = plus_sign then None
     else case SplitKeyValue t of Inl _ \<Rightarrow> None | Inr (k, v) \<Rightarrow> Some (Entry (strtriml (strtrimr k)) v))"

definition plain_line :: "byte list \<Rightarrow> bool" where
  "plain_line l \<longleftrightarrow> clean l \<and> length l < 512 \<and> parse_line l \<noteq> None"

text \<open>A plain file: what the writer leaves behind, or any file of such lines.\<close>

definition plain_file :: "byte list \<Rightarrow> bool" where
  "plain_file bs \<longleftrightarrow> list_all plain_line (lines_of bs) \<and> (bs = [] \<or> last bs = newline)"

definition item_of :: "byte list \<Rightarrow> item" where "item_of l = the (parse_line l)"

definition items :: "byte list \<Rightarrow> item list" where "items bs = map item_of (lines_of bs)"

fun find_sec :: "byte list \<Rightarrow> item list \<Rightarrow> item list option" where
  "find_sec s [] = None"
| "find_sec s (x # xs) = (if x = Section s then Some xs else find_sec s xs)"

fun find_ent :: "byte list \<Rightarrow> item list \<Rightarrow> byte list option" where
  "find_ent k [] = None"
| "find_ent k (Blank # xs) = find_ent k xs"
| "find_ent k (Section s # xs) = None"
| "find_ent k (Entry k' v # xs) = (if k' = k then Some v else find_ent k xs)"

text \<open>What is read: the code and the value.\<close>

definition cfg_get :: "byte list \<Rightarrow> byte list \<Rightarrow> item list \<Rightarrow> int \<times> byte list option" where
  "cfg_get s k xs = (case find_sec s xs of
     None \<Rightarrow> (CFG_SECTION_NOT_FOUND, None)
   | Some ys \<Rightarrow> (case find_ent k ys of None \<Rightarrow> (CFG_KEY_NOT_FOUND, None) | Some v \<Rightarrow> (CFG_OK, Some v)))"

fun replace_ent :: "byte list \<Rightarrow> byte list \<Rightarrow> item list \<Rightarrow> item list" where
  "replace_ent k v [] = []"
| "replace_ent k v (Blank # xs) = Blank # replace_ent k v xs"
| "replace_ent k v (Section s # xs) = Section s # xs"
| "replace_ent k v (Entry k' v' # xs) = (if k' = k then Entry k v # xs else Entry k' v' # replace_ent k v xs)"

fun cfg_set :: "byte list \<Rightarrow> byte list \<Rightarrow> byte list \<Rightarrow> item list \<Rightarrow> item list" where
  "cfg_set s k v [] = [Section s, Entry k v]"
| "cfg_set s k v (x # xs) =
     (if x = Section s then x # (if find_ent k xs = None then Entry k v # xs else replace_ent k v xs)
      else x # cfg_set s k v xs)"

text \<open>The update of the list does what it should: the key has its new value, no other key changes.\<close>

lemma find_ent_replace: "find_ent k xs \<noteq> None \<Longrightarrow> find_ent k' (replace_ent k v xs) = (if k' = k then Some v else find_ent k' xs)"
  by (induction k xs rule: find_ent.induct) auto

lemma cfg_get_set_same: "cfg_get s k (cfg_set s k v xs) = (CFG_OK, Some v)"
  by (induction xs) (auto simp: cfg_get_def find_ent_replace split: option.splits if_splits)

lemma find_sec_replace: "find_sec s (replace_ent k v xs) = find_sec s xs"
  by (induction k v xs rule: replace_ent.induct) auto

lemma find_ent_set: "find_ent k' (cfg_set s k v xs) = find_ent k' xs"
proof (induction xs)
  case (Cons x xs)
  then show ?case by (cases x) auto
qed simp

lemma cfg_get_set_other:
  assumes "(s', k') \<noteq> (s, k)"
  shows "snd (cfg_get s' k' (cfg_set s k v xs)) = snd (cfg_get s' k' xs)"
  using assms
proof (induction xs)
  case (Cons x xs)
  consider "x = Section s" "s' = s" | "x = Section s" "s' \<noteq> s" | "x = Section s'" "s' \<noteq> s"
    | "x \<noteq> Section s" "x \<noteq> Section s'" by blast
  then show ?case
  proof cases
    case 1
    then show ?thesis using Cons.prems find_ent_replace [of k xs k' v] by (auto simp: cfg_get_def split: option.splits)
  next
    case 2
    then show ?thesis by (simp add: cfg_get_def find_sec_replace)
  next
    case 3
    then show ?thesis by (simp add: cfg_get_def find_ent_set)
  next
    case 4
    then show ?thesis using Cons by (simp add: cfg_get_def)
  qed
qed (auto simp: cfg_get_def)

subsection \<open>Reading refines the search in the items\<close>

lemma items_Cons: "lines_of bs = l # lines_of r \<Longrightarrow> items bs = item_of l # items r"
  by (simp add: items_def)

text \<open>What \<^const>\<open>find_section\<close> does with one plain line.\<close>

lemma find_section_line:
  assumes "FileGetLine (bs, False) = (int (length l), l, inp)" "parse_line l \<noteq> None"
  shows "find_section sec n (bs, False) =
    (if item_of l = Section sec then Inr (n + 1, inp) else find_section sec (n + 1) inp)"
  using assms(2)
  by (subst find_section.simps) (auto simp: assms(1) parse_line_def item_of_def Let_def split: if_splits sum.splits)

lemma find_section_items:
  assumes "list_all plain_line (lines_of bs)"
  shows "Section sec \<notin> set (items bs) \<and> find_section sec n (bs, False) = Inl CFG_SECTION_NOT_FOUND
    \<or> (\<exists>p h r. lines_of bs = p @ h # lines_of r \<and> item_of h = Section sec \<and> Section sec \<notin> set (map item_of p)
        \<and> find_section sec n (bs, False) = Inr (n + length p + 1, (r, False)))"
  using assms
proof (induction "length bs" arbitrary: bs n rule: less_induct)
  case less
  show ?case
  proof (cases bs rule: FileGetLine_cases)
    case eof
    then show ?thesis by (subst find_section.simps) (simp add: items_def)
  next
    case (line l r)
    then have pl: "plain_line l" "list_all plain_line (lines_of r)" using less.prems by simp_all
    then have "parse_line l \<noteq> None" by (simp add: plain_line_def)
    note step = find_section_line [OF line(1) this, of sec n]
    show ?thesis
    proof (cases "item_of l = Section sec")
      case True
      then have "lines_of bs = [] @ l # lines_of r \<and> item_of l = Section sec \<and> Section sec \<notin> set (map item_of [])
        \<and> find_section sec n (bs, False) = Inr (n + length ([] :: byte list list) + 1, (r, False))"
        using step line(2) by simp
      then show ?thesis by blast
    next
      case False
      then have s: "find_section sec n (bs, False) = find_section sec (n + 1) (r, False)" using step by simp
      from less.hyps [OF line(3) pl(2), of "n + 1"] show ?thesis
      proof (elim disjE exE conjE)
        assume "Section sec \<notin> set (items r)" "find_section sec (n + 1) (r, False) = Inl CFG_SECTION_NOT_FOUND"
        then show ?thesis using s False items_Cons [OF line(2)] by auto
      next
        fix p h r'
        assume "lines_of r = p @ h # lines_of r'" "item_of h = Section sec" "Section sec \<notin> set (map item_of p)"
          "find_section sec (n + 1) (r, False) = Inr (n + 1 + length p + 1, (r', False))"
        then have "lines_of bs = (l # p) @ h # lines_of r' \<and> item_of h = Section sec
          \<and> Section sec \<notin> set (map item_of (l # p))
          \<and> find_section sec n (bs, False) = Inr (n + length (l # p) + 1, (r', False))"
          using s False line(2) by simp
        then show ?thesis by blast
      qed
    qed
  qed
qed

lemma find_key_line:
  assumes "FileGetLine (bs, False) = (int (length l), l, inp)" "parse_line l \<noteq> None"
  shows "find_key key n pos (bs, False) = (case item_of l of
      Blank \<Rightarrow> find_key key (n + 1) (n + 1, 1) inp
    | Section s \<Rightarrow> (CFG_KEY_NOT_FOUND, (n + 1, 1), None)
    | Entry k v \<Rightarrow> if k = key then (CFG_OK, (n + 1, 1), Some v) else find_key key (n + 1) (n + 1, 1) inp)"
  using assms(2)
  by (subst find_key.simps) (auto simp: assms(1) parse_line_def item_of_def Let_def cfg_codes split: if_splits sum.splits prod.splits)

lemma find_key_items:
  assumes "list_all plain_line (lines_of bs)"
  shows "find_ent key (items bs) = None \<and> (\<exists>pos'. find_key key n pos (bs, False) = (CFG_KEY_NOT_FOUND, pos', None))
    \<or> (\<exists>p l r v. lines_of bs = p @ l # lines_of r \<and> find_ent key (items bs) = Some v
        \<and> map item_of p @ Entry key w # items r = replace_ent key w (items bs)
        \<and> find_key key n pos (bs, False) = (CFG_OK, (n + length p + 1, 1), Some v))"
  using assms
proof (induction "length bs" arbitrary: bs n pos rule: less_induct)
  case less
  show ?case
  proof (cases bs rule: FileGetLine_cases)
    case eof
    then show ?thesis by (subst find_key.simps) (simp add: items_def)
  next
    case (line l r)
    then have pl: "plain_line l" "list_all plain_line (lines_of r)" using less.prems by simp_all
    then have "parse_line l \<noteq> None" by (simp add: plain_line_def)
    note step = find_key_line [OF line(1) this, of key n pos]
    note it = items_Cons [OF line(2)]
    show ?thesis
    proof (cases "(\<exists>s. item_of l = Section s) \<or> (\<exists>v. item_of l = Entry key v)")
      case True
      then show ?thesis
      proof (elim disjE exE)
        fix s assume "item_of l = Section s"
        then show ?thesis using step it by simp
      next
        fix v assume v: "item_of l = Entry key v"
        then have "lines_of bs = [] @ l # lines_of r \<and> find_ent key (items bs) = Some v
          \<and> map item_of [] @ Entry key w # items r = replace_ent key w (items bs)
          \<and> find_key key n pos (bs, False) = (CFG_OK, (n + length ([] :: byte list list) + 1, 1), Some v)"
          using step it line(2) by simp
        then show ?thesis by blast
      qed
    next
      case False
      then have s: "find_key key n pos (bs, False) = find_key key (n + 1) (n + 1, 1) (r, False)"
        and fe: "find_ent key (items bs) = find_ent key (items r)"
        and re: "replace_ent key w (items bs) = item_of l # replace_ent key w (items r)"
        using step it by (cases "item_of l"; simp)+
      from less.hyps [OF line(3) pl(2), of "n + 1" "(n + 1, 1)"] show ?thesis
      proof (elim disjE exE conjE)
        fix pos'
        assume "find_ent key (items r) = None" "find_key key (n + 1) (n + 1, 1) (r, False) = (CFG_KEY_NOT_FOUND, pos', None)"
        then show ?thesis using s fe by auto
      next
        fix p l' r' v
        assume "lines_of r = p @ l' # lines_of r'" "find_ent key (items r) = Some v"
          "map item_of p @ Entry key w # items r' = replace_ent key w (items r)"
          "find_key key (n + 1) (n + 1, 1) (r, False) = (CFG_OK, (n + 1 + length p + 1, 1), Some v)"
        then have "lines_of bs = (l # p) @ l' # lines_of r' \<and> find_ent key (items bs) = Some v
          \<and> map item_of (l # p) @ Entry key w # items r' = replace_ent key w (items bs)
          \<and> find_key key n pos (bs, False) = (CFG_OK, (n + length (l # p) + 1, 1), Some v)"
          using s fe re line(2) by simp
        then show ?thesis by blast
      qed
    qed
  qed
qed

lemma find_sec_append:
  "Section s \<notin> set p \<Longrightarrow> find_sec s (p @ q) = find_sec s q"
  "Section s \<notin> set xs \<Longrightarrow> find_sec s xs = None"
  by (induction p) (auto, induction xs, auto)

text \<open>The code and the value are those of the search in the items.\<close>

lemma ConfigGetKey_items:
  assumes "list_all plain_line (lines_of bs)"
  shows "\<exists>pos. ConfigGetKey (Some (bs, False)) sec key =
    (fst (cfg_get sec key (items bs)), pos, snd (cfg_get sec key (items bs)))"
  using find_section_items [OF assms, of sec 0]
proof (elim disjE exE conjE)
  assume "Section sec \<notin> set (items bs)" "find_section sec 0 (bs, False) = Inl CFG_SECTION_NOT_FOUND"
  then show ?thesis by (simp add: ConfigGetKey_def cfg_get_def find_sec_append)
next
  fix p h r
  assume r: "lines_of bs = p @ h # lines_of r" "item_of h = Section sec" "Section sec \<notin> set (map item_of p)"
    "find_section sec 0 (bs, False) = Inr (0 + length p + 1, (r, False))"
  have "items bs = map item_of p @ Section sec # items r" using r(1,2) by (simp add: items_def)
  then have "find_sec sec (items bs) = Some (items r)" using r(3) by (simp add: find_sec_append)
  moreover have "list_all plain_line (lines_of r)" using assms r(1) by simp
  note find_key_items [OF this, of key "length p + 1" "(0, 0)" "[]"]
  ultimately show ?thesis using r(4) by (auto simp: ConfigGetKey_def cfg_get_def)
qed

subsection \<open>Writing refines the update of the items\<close>

text \<open>When every output call succeeds the loops write the lines they read.\<close>

lemma copy_lines_all:
  assumes "\<forall>i. w i"
  shows "lines_of bs = p @ q \<Longrightarrow>
    \<exists>r k'. copy_lines w (length p) (bs, False) (k, out) = Inr ((r, False), (k', out @ unlines p)) \<and> lines_of r = q"
proof (induction p arbitrary: bs k out)
  case Nil
  then show ?case by simp
next
  case (Cons l p)
  show ?case
  proof (cases bs rule: FileGetLine_cases)
    case eof
    then show ?thesis using Cons.prems by simp
  next
    case (line l' r)
    then have r: "lines_of r = p @ q" "l' = l" using Cons.prems by simp_all
    then show ?thesis using Cons.IH [OF r(1), of "k + 1" "out @ l @ [newline]"] line(1) assms by (auto simp: put_def)
  qed
qed

lemma skip_one: "lines_of bs = l # q \<Longrightarrow> \<exists>r. skip_lines 1 (bs, False) = Inr (r, False) \<and> lines_of r = q"
  by (cases bs rule: FileGetLine_cases) auto

lemma copy_rest_all:
  assumes "\<forall>i. w i"
  shows "\<exists>k'. copy_rest w (bs, False) (k, out) = Inr (k', out @ unlines (lines_of bs))"
proof (induction "length bs" arbitrary: bs k out rule: less_induct)
  case less
  show ?case
  proof (cases bs rule: FileGetLine_cases)
    case eof
    then show ?thesis by (subst copy_rest.simps) simp
  next
    case (line l r)
    then show ?thesis
      using less.hyps [OF line(3), of "k + 1" "out @ l @ [newline]"] assms by (subst copy_rest.simps) (auto simp: put_def)
  qed
qed

lemma fgets_prefix: "fgets n bs = take (length (fgets n bs)) bs"
proof -
  let ?t = "take (n - 1) bs"
  have *: "fgets n bs = take (length (fgets n bs)) ?t"
  proof (cases "newline \<in> set ?t")
    case True
    then have "dropWhile (\<lambda>c. c \<noteq> newline) ?t \<noteq> []" by (auto simp: dropWhile_eq_Nil_conv)
    then obtain y ys where y: "dropWhile (\<lambda>c. c \<noteq> newline) ?t = y # ys" by (cases "dropWhile (\<lambda>c. c \<noteq> newline) ?t") auto
    then have "y = newline" using hd_dropWhile [of "\<lambda>c. c \<noteq> newline" ?t] by simp
    then have "?t = (takeWhile (\<lambda>c. c \<noteq> newline) ?t @ [newline]) @ ys"
      using takeWhile_dropWhile_id [of "\<lambda>c. c \<noteq> newline" ?t] y by (metis append_Cons append_Nil append_assoc)
    moreover have "fgets n bs = takeWhile (\<lambda>c. c \<noteq> newline) ?t @ [newline]" using True by (simp add: fgets_def Let_def)
    ultimately show ?thesis by (metis append_eq_conv_conj)
  next
    case False
    then have "fgets n bs = ?t" by (simp add: fgets_def Let_def) (auto intro: takeWhile_eq_all_conv [THEN iffD2])
    then show ?thesis by (simp add: min_def)
  qed
  then have "length (fgets n bs) \<le> n - 1" by (metis length_take min.bounded_iff order_refl)
  then have "take (length (fgets n bs)) ?t = take (length (fgets n bs)) bs" by (simp add: min_absorb1)
  with * show ?thesis by simp
qed

lemma copy_chunks_all:
  assumes "\<forall>i. w i"
  shows "0 \<notin> set bs \<Longrightarrow> copy_chunks w bs (k, out) = (COPYF_OK, out @ bs)"
proof (induction "length bs" arbitrary: bs k out rule: less_induct)
  case less
  show ?case
  proof (cases "bs = []")
    case True
    then show ?thesis by (subst copy_chunks.simps) simp
  next
    case False
    let ?c = "fgets 1024 bs"
    have ne: "?c \<noteq> []" using False by (cases bs) (simp_all add: fgets_Cons)
    have bs: "bs = ?c @ drop (length ?c) bs" using fgets_prefix [of 1024 bs] append_take_drop_id by metis
    then have "0 \<notin> set ?c" "0 \<notin> set (drop (length ?c) bs)" using less.prems by (metis Un_iff set_append)+
    then have "takeWhile (\<lambda>c. c \<noteq> 0) ?c = ?c" by (subst takeWhile_eq_all_conv) auto
    moreover have "length (drop (length ?c) bs) < length bs" using ne False by simp
    then have "copy_chunks w (drop (length ?c) bs) (k + 1, out @ ?c) = (COPYF_OK, (out @ ?c) @ drop (length ?c) bs)"
      using less.hyps \<open>0 \<notin> set (drop (length ?c) bs)\<close> by blast
    moreover have "(out @ ?c) @ drop (length ?c) bs = out @ bs" using bs by simp
    ultimately show ?thesis using False assms by (subst copy_chunks.simps) (simp add: put_def del: takeWhile_eq_all_conv)
  qed
qed

text \<open>A key, a section and a value the file can hold: short enough, without the characters that mean something.\<close>

definition good_key :: "byte list \<Rightarrow> bool" where
  "good_key k \<longleftrightarrow> clean k \<and> k \<noteq> [] \<and> hd k \<notin> {space, 9, CFG_nts, CFG_ssl} \<and> last k \<noteq> space \<and> equals \<notin> set k"

definition good_value :: "byte list \<Rightarrow> bool" where
  "good_value v \<longleftrightarrow> clean v \<and> (v \<noteq> [] \<longrightarrow> hd v \<notin> {space, 9} \<and> last v \<notin> {space, plus_sign})"

lemma dropWhile_hd: "l \<noteq> [] \<Longrightarrow> \<not> P (hd l) \<Longrightarrow> dropWhile P l = l"
  by (cases l) simp_all

lemma trim_id: "l \<noteq> [] \<Longrightarrow> hd l \<noteq> space \<Longrightarrow> last l \<noteq> space \<Longrightarrow> strtriml (strtrimr l) = l"
  by (simp add: strtriml_def strtrimr_def dropWhile_hd hd_rev)

lemma parse_section: "parse_line ([CFG_ssl] @ s @ [CFG_ssr]) = Some (Section s)"
proof -
  have "strtriml (strtrimr ([CFG_ssl] @ s @ [CFG_ssr])) = [CFG_ssl] @ s @ [CFG_ssr]" by (rule trim_id) simp_all
  then show ?thesis by (simp add: parse_line_def)
qed

lemma parse_entry:
  assumes "good_key k" "good_value v"
  shows "parse_line (k @ [equals] @ v) = Some (Entry k v)"
proof -
  let ?l = "k @ [equals] @ v"
  have k: "k \<noteq> []" "hd k \<noteq> space" "hd k \<noteq> 9" "hd k \<noteq> CFG_nts" "hd k \<noteq> CFG_ssl" "last k \<noteq> space" "equals \<notin> set k"
    and v: "v \<noteq> [] \<Longrightarrow> hd v \<noteq> space \<and> hd v \<noteq> 9 \<and> last v \<noteq> space \<and> last v \<noteq> plus_sign"
    using assms by (auto simp: good_key_def good_value_def)
  have t: "strtriml (strtrimr ?l) = ?l" using k v by (intro trim_id) auto
  obtain c cs where c: "k = c # cs" using k(1) by (cases k) auto
  have "\<not> is_blank c" "c \<noteq> equals" using k c by (auto simp: is_blank_def)
  moreover have "dropWhile (\<lambda>c. c \<noteq> equals) (cs @ [equals] @ v) = equals # v"
    "takeWhile (\<lambda>c. c \<noteq> equals) (cs @ [equals] @ v) = cs"
    using k(7) c by (auto simp: dropWhile_append3 takeWhile_append2 takeWhile_tail)
  moreover have "dropWhile is_blank v = v" using v by (cases v) (auto simp: is_blank_def)
  ultimately have "SplitKeyValue ?l = Inr (k, v)" using c by (simp add: SplitKeyValue_def split_pair_def)
  moreover have "strtriml (strtrimr k) = k" using k by (intro trim_id)
  moreover have "last ?l \<noteq> plus_sign" using v by (cases "v = []") auto
  ultimately show ?thesis using k t by (simp add: parse_line_def)
qed

lemma good_line: "good_key k \<Longrightarrow> good_value v \<Longrightarrow> length k + length v < 511 \<Longrightarrow> plain_line (k @ [equals] @ v)"
  using parse_entry [of k v] by (simp add: plain_line_def good_key_def good_value_def clean_def ball_Un)

lemma section_plain: "clean s \<Longrightarrow> length s < 510 \<Longrightarrow> plain_line ([CFG_ssl] @ s @ [CFG_ssr])"
  using parse_section [of s] by (simp add: plain_line_def clean_def ball_Un)

lemma plain_unlines:
  assumes "list_all plain_line ls"
  shows "plain_file (unlines ls)" "items (unlines ls) = map item_of ls" "0 \<notin> set (unlines ls)"
proof -
  have "\<forall>l \<in> set ls. clean l \<and> length l < 512" using assms by (auto simp: list_all_iff plain_line_def)
  then have "lines_of (unlines ls) = ls" using lines_of_unlines [of ls "[]"] by simp
  moreover have "unlines ls = [] \<or> last (unlines ls) = newline"
    by (cases ls rule: rev_cases) (simp_all add: unlines_def)
  ultimately show "plain_file (unlines ls)" "items (unlines ls) = map item_of ls"
    using assms by (simp_all add: plain_file_def items_def)
  show "0 \<notin> set (unlines ls)"
    using assms by (induction ls) (auto simp: plain_line_def clean_def)
qed

definition env_ok :: "set_env \<Rightarrow> bool" where
  "env_ok env \<longleftrightarrow> append_ok env \<and> mkstemp_ok env \<and> tmp_ok env \<and> reopen_ok env \<and> copy_src_ok env \<and> copy_dst_ok env
     \<and> (\<forall>i. wr env i)"

lemma FileCopy_all: "env_ok env \<Longrightarrow> 0 \<notin> set src \<Longrightarrow> FileCopy env k src dst = (0, Some src)"
  using copy_chunks_all [of "wr env" src k "[]"] by (simp add: FileCopy_def env_ok_def COPYF_OK_def)

text \<open>The new content of the temporary file: the lines before, the entry, and the lines behind those left out.\<close>

lemma rewrite_file_all:
  assumes "\<forall>i. w i" "lines_of bs = p @ m @ q" "length m = k" "k \<le> 1"
  shows "\<exists>k'. rewrite_file w (length p) k entry (bs, False) = Inr (k', unlines p @ entry @ unlines q)"
proof -
  obtain r i where r: "copy_lines w (length p) (bs, False) (0, []) = Inr ((r, False), (i, unlines p))" "lines_of r = m @ q"
    using copy_lines_all [OF assms(1), of bs p "m @ q" 0 "[]"] assms(2) by auto
  have "\<exists>r'. skip_lines k (r, False) = Inr (r', False) \<and> lines_of r' = q"
  proof (cases m)
    case Nil
    then show ?thesis using r(2) assms(3) by auto
  next
    case (Cons l m')
    then have "k = 1" "m' = []" using assms(3,4) by auto
    then show ?thesis using skip_one [of r l q] r(2) Cons by simp
  qed
  then obtain r' where "skip_lines k (r, False) = Inr (r', False)" "lines_of r' = q" by blast
  moreover obtain k' where "copy_rest w (r', False) (i + 1, unlines p @ entry) = Inr (k', (unlines p @ entry) @ unlines (lines_of r'))"
    using copy_rest_all [OF assms(1)] by blast
  moreover have "put w (i, unlines p) entry = Some (i + 1, unlines p @ entry)" using assms(1) by (simp add: put_def)
  ultimately show ?thesis using r(1) by (simp add: rewrite_file_def)
qed

lemma cfg_set_found:
  "Section s \<notin> set p \<Longrightarrow> cfg_set s k v (p @ Section s # q) =
    p @ Section s # (if find_ent k q = None then Entry k v # q else replace_ent k v q)"
  by (induction p) auto

lemma cfg_set_new: "Section s \<notin> set xs \<Longrightarrow> cfg_set s k v xs = xs @ [Section s, Entry k v]"
  by (induction xs) auto

text \<open>The file afterwards, in the two cases in which its lines are rewritten.\<close>

lemma ConfigSetKey_rewrites:
  assumes "env_ok env" "list_all plain_line (lines_of bs)" "plain_line e" "entry_line key v = e @ [newline]"
    "ConfigGetKey (Some (bs, False)) sec key = (ret, (sn, kn, kl), x)"
    "ret = CFG_KEY_NOT_FOUND \<and> length p = sn \<and> m = [] \<or> ret = CFG_OK \<and> length p = kn - 1 \<and> length m = kl \<and> kl = 1"
    "lines_of bs = p @ m @ q"
  shows "ConfigSetKey env (Some (bs, False)) sec key v = (CFG_OK, Some (unlines (p @ e # q)))"
proof -
  have "list_all plain_line (p @ e # q)" using assms(2,3,7) by simp
  note z = plain_unlines(3) [OF this]
  have w: "\<forall>i. wr env i" using assms(1) by (simp add: env_ok_def)
  obtain k' where "rewrite_file (wr env) (length p) (length m) (entry_line key v) (bs, False) = Inr (k', unlines (p @ e # q))"
    using rewrite_file_all [OF w assms(7) refl, of "entry_line key v"] assms(4,6) by auto
  moreover have "(if ret = CFG_KEY_NOT_FOUND then sn else kn - 1) = length p" "(if ret = CFG_KEY_NOT_FOUND then 0 else kl) = length m"
    "\<not> (ret \<le> CFG_ERR \<and> ret \<noteq> CFG_ERR_OPEN_FILE)" "\<not> (ret = CFG_ERR_OPEN_FILE \<or> ret = CFG_SECTION_NOT_FOUND)"
    using assms(6) by (auto simp: cfg_codes)
  moreover have "mkstemp_ok env" "tmp_ok env" "reopen_ok env" using assms(1) by (simp_all add: env_ok_def)
  ultimately show ?thesis using FileCopy_all [OF assms(1) z] assms(5) unfolding ConfigSetKey_def by simp
qed

lemma ConfigSetKey_appends:
  assumes "env_ok env" "fst (ConfigGetKey f sec key) = CFG_SECTION_NOT_FOUND \<or> f = None"
  shows "ConfigSetKey env f sec key v =
    (CFG_OK, Some ((case f of None \<Rightarrow> [] | Some (bs, _) \<Rightarrow> bs) @ section_line sec @ entry_line key v))"
  using assms
  by (cases f; cases "ConfigGetKey f sec key")
     (auto simp: ConfigSetKey_def ConfigGetKey_def put_def env_ok_def cfg_codes split: option.splits)

lemma ConfigSetKey_items:
  assumes "plain_file bs" "env_ok env" "clean sec" "length sec < 510"
    "good_key key" "good_value v" "length key + length v < 511"
  shows "\<exists>bs'. ConfigSetKey env (Some (bs, False)) sec key v = (CFG_OK, Some bs') \<and> plain_file bs'
        \<and> items bs' = cfg_set sec key v (items bs)"
proof -
  have pl: "list_all plain_line (lines_of bs)" and nl: "bs = [] \<or> last bs = newline"
    using assms(1) by (simp_all add: plain_file_def)
  let ?e = "key @ [equals] @ v" and ?h = "[CFG_ssl] @ sec @ [CFG_ssr]"
  have e: "plain_line ?e" "entry_line key v = ?e @ [newline]" "item_of ?e = Entry key v"
    and h: "plain_line ?h" "section_line sec = ?h @ [newline]" "item_of ?h = Section sec"
    using good_line [OF assms(5-7)] section_plain [OF assms(3,4)] parse_entry [OF assms(5,6)] parse_section [of sec]
    by (simp_all add: entry_line_def section_line_def item_of_def)
  from find_section_items [OF pl, of sec 0]
  show ?thesis
  proof (elim disjE exE conjE)
    assume a: "Section sec \<notin> set (items bs)" "find_section sec 0 (bs, False) = Inl CFG_SECTION_NOT_FOUND"
    let ?x = "unlines [?h, ?e]"
    have "fst (ConfigGetKey (Some (bs, False)) sec key) = CFG_SECTION_NOT_FOUND" using a(2) by (simp add: ConfigGetKey_def)
    then have "ConfigSetKey env (Some (bs, False)) sec key v = (CFG_OK, Some (bs @ ?x))"
      using ConfigSetKey_appends [OF assms(2)] h(2) e(2) by simp
    moreover have "lines_of (bs @ ?x) = lines_of bs @ [?h, ?e]"
      using lines_of_append [OF nl, of ?x] lines_of_unlines [of "[?h, ?e]" "[]"] h(1) e(1) by (simp add: plain_line_def)
    then have "plain_file (bs @ ?x)" "items (bs @ ?x) = items bs @ [Section sec, Entry key v]"
      using pl h(1,3) e(1,3) by (simp_all add: plain_file_def items_def)
    ultimately show ?thesis using cfg_set_new [OF a(1), of key v] by auto
  next
    fix p hd r
    assume r: "lines_of bs = p @ hd # lines_of r" "item_of hd = Section sec" "Section sec \<notin> set (map item_of p)"
      "find_section sec 0 (bs, False) = Inr (0 + length p + 1, (r, False))"
    have its: "items bs = map item_of p @ Section sec # items r" using r(1,2) by (simp add: items_def)
    have plr: "list_all plain_line (lines_of r)" using pl r(1) by simp
    from find_key_items [OF this, of key "length p + 1" "(0, 0)" v] show ?thesis
    proof (elim disjE exE conjE)
      fix pos'
      assume k: "find_ent key (items r) = None"
        "find_key key (length p + 1) (0, 0) (r, False) = (CFG_KEY_NOT_FOUND, pos', None)"
      let ?ls = "(p @ [hd]) @ ?e # lines_of r"
      have "ConfigGetKey (Some (bs, False)) sec key = (CFG_KEY_NOT_FOUND, (length p + 1, fst pos', snd pos'), None)"
        using r(4) k(2) by (simp add: ConfigGetKey_def split: prod.split)
      then have "ConfigSetKey env (Some (bs, False)) sec key v = (CFG_OK, Some (unlines ?ls))"
        by (rule ConfigSetKey_rewrites [where m = "[]", OF assms(2) pl e(1,2)]) (use r(1) in simp_all)
      moreover have "list_all plain_line ?ls" using pl r(1) e(1) by simp
      note plain_unlines(1,2) [OF this]
      moreover have "map item_of ?ls = cfg_set sec key v (items bs)"
        using cfg_set_found [OF r(3), of key v "items r"] k(1) its r(2) e(3) by (simp add: items_def)
      ultimately show ?thesis by metis
    next
      fix p' l r' u
      assume k: "lines_of r = p' @ l # lines_of r'" "find_ent key (items r) = Some u"
        "map item_of p' @ Entry key v # items r' = replace_ent key v (items r)"
        "find_key key (length p + 1) (0, 0) (r, False) = (CFG_OK, (length p + 1 + length p' + 1, 1), Some u)"
      let ?ls = "(p @ hd # p') @ ?e # lines_of r'"
      have "ConfigGetKey (Some (bs, False)) sec key = (CFG_OK, (length p + 1, length p + 1 + length p' + 1, 1), Some u)"
        using r(4) k(4) by (simp add: ConfigGetKey_def)
      then have "ConfigSetKey env (Some (bs, False)) sec key v = (CFG_OK, Some (unlines ?ls))"
        by (rule ConfigSetKey_rewrites [where m = "[l]", OF assms(2) pl e(1,2)]) (use r(1) k(1) in simp_all)
      moreover have "list_all plain_line ?ls" using pl r(1) k(1) e(1) by simp
      note plain_unlines(1,2) [OF this]
      moreover have "map item_of ?ls = cfg_set sec key v (items bs)"
        using cfg_set_found [OF r(3), of key v "items r"] k(2,3) its r(2) e(3) by (simp add: items_def)
      ultimately show ?thesis by metis
    qed
  qed
qed

text \<open>
  C31: Reading a key of a plain file is the search in its items, and writing a key of reasonable form, when the
  system grants the files and the output, is the update of the items: the file is plain again, the section is
  added at its end when it is missing, the entry is added behind the head of the section when it is missing and
  replaced otherwise, and every other line is kept in its place.
\<close>
theorem config_refines:
  assumes "plain_file bs" "env_ok env" "clean sec" "length sec < 510"
    "good_key key" "good_value v" "length key + length v < 511"
  shows "(\<exists>pos. ConfigGetKey (Some (bs, False)) sec key =
        (fst (cfg_get sec key (items bs)), pos, snd (cfg_get sec key (items bs))))
    \<and> (\<exists>bs'. ConfigSetKey env (Some (bs, False)) sec key v = (CFG_OK, Some bs') \<and> plain_file bs'
        \<and> items bs' = cfg_set sec key v (items bs))"
  using ConfigGetKey_items [of bs sec key] ConfigSetKey_items [OF assms] assms(1) by (simp add: plain_file_def)

subsection \<open>Lists of names\<close>

lemma section_name_roundtrip:
  assumes "name \<noteq> []" "index \<noteq> []" "CFG_nis \<notin> set name" "\<not> is_blank (hd name)" "\<not> is_blank (hd index)"
  shows "SplitSectionToNameIndex (snd (JoinNameIndexToSection [] name index)) = Inr (name, index)"
proof -
  obtain c cs where c: "name = c # cs" using assms(1) by (cases name) auto
  have "dropWhile (\<lambda>c. c \<noteq> CFG_nis) (cs @ [CFG_nis] @ index) = CFG_nis # index"
    "takeWhile (\<lambda>c. c \<noteq> CFG_nis) (cs @ [CFG_nis] @ index) = cs"
    using assms(3) c by (auto simp: dropWhile_append3 takeWhile_append2 takeWhile_tail)
  then show ?thesis using assms c
    by (simp add: SplitSectionToNameIndex_def split_pair_def JoinNameIndexToSection_def dropWhile_hd)
qed

definition section_names :: "item list \<Rightarrow> byte list list" where
  "section_names xs = concat (map (\<lambda>x. case x of Section s \<Rightarrow> [s] | _ \<Rightarrow> []) xs)"

lemma sections_loop_items:
  "list_all plain_line (lines_of bs) \<Longrightarrow> sections_loop names (bs, False) =
    (int (length (names @ section_names (items bs))), names @ section_names (items bs))"
proof (induction "length bs" arbitrary: bs names rule: less_induct)
  case less
  show ?case
  proof (cases bs rule: FileGetLine_cases)
    case eof
    then show ?thesis by (subst sections_loop.simps) (simp add: items_def section_names_def)
  next
    case (line l r)
    then have pl: "plain_line l" "list_all plain_line (lines_of r)" using less.prems by simp_all
    have it: "section_names (items bs) = (case item_of l of Section s \<Rightarrow> [s] | _ \<Rightarrow> []) @ section_names (items r)"
      using items_Cons [OF line(2)] by (simp add: section_names_def)
    have "sections_loop names (bs, False) = sections_loop (names @ (case item_of l of Section s \<Rightarrow> [s] | _ \<Rightarrow> [])) (r, False)"
      using pl(1) by (subst sections_loop.simps)
        (auto simp: line(1) plain_line_def parse_line_def item_of_def Let_def split: if_splits sum.splits)
    then show ?thesis unfolding less.hyps [OF line(3) pl(2)] it by simp
  qed
qed

lemma ConfigGetSections_items:
  "plain_file bs \<Longrightarrow> ConfigGetSections (Some (bs, False)) =
    (int (length (section_names (items bs))), section_names (items bs))"
  using sections_loop_items [of bs "[]"] by (simp add: ConfigGetSections_def plain_file_def)

subsection \<open>Many settings\<close>

text \<open>What a client of the file relies on, and what follows for a sequence of writes.\<close>

locale config_store =
  fixes ok :: "'f \<Rightarrow> bool"
    and good :: "'s \<Rightarrow> 'k \<Rightarrow> 'v \<Rightarrow> bool"
    and get :: "'f \<Rightarrow> 's \<Rightarrow> 'k \<Rightarrow> 'v option"
    and store :: "'s \<Rightarrow> 'k \<Rightarrow> 'v \<Rightarrow> 'f \<Rightarrow> 'f"
  assumes ok_store: "ok f \<Longrightarrow> good s k v \<Longrightarrow> ok (store s k v f)"
    and get_same: "ok f \<Longrightarrow> good s k v \<Longrightarrow> get (store s k v f) s k = Some v"
    and get_other: "ok f \<Longrightarrow> good s k v \<Longrightarrow> (s', k') \<noteq> (s, k) \<Longrightarrow> get (store s k v f) s' k' = get f s' k'"
begin

definition store_all :: "('s \<times> 'k \<times> 'v) list \<Rightarrow> 'f \<Rightarrow> 'f" where
  "store_all ws f = fold (\<lambda>(s, k, v). store s k v) ws f"

lemma store_all_reads:
  "ok f \<Longrightarrow> \<forall>(s, k, v) \<in> set ws. good s k v \<Longrightarrow>
    ok (store_all ws f) \<and> get (store_all ws f) s k =
      (case find (\<lambda>(s', k', v). s' = s \<and> k' = k) (rev ws) of Some (_, _, v) \<Rightarrow> Some v | None \<Rightarrow> get f s k)"
proof (induction ws rule: rev_induct)
  case (snoc w ws)
  obtain s' k' v' where w: "w = (s', k', v')" by (cases w)
  have g: "good s' k' v'" and IH: "ok (store_all ws f)"
    "get (store_all ws f) s k = (case find (\<lambda>(s', k', v). s' = s \<and> k' = k) (rev ws) of Some (_, _, v) \<Rightarrow> Some v | None \<Rightarrow> get f s k)"
    using snoc w by simp_all
  have st: "store_all (ws @ [w]) f = store s' k' v' (store_all ws f)" by (simp add: store_all_def w)
  show ?case
  proof (cases "s' = s \<and> k' = k")
    case True
    then show ?thesis using st w get_same [OF IH(1) g] ok_store [OF IH(1) g] by simp
  next
    case False
    then have "get (store s' k' v' (store_all ws f)) s k = get (store_all ws f) s k"
      using get_other [OF IH(1) g, of s k] by blast
    then show ?thesis using False st w IH(2) ok_store [OF IH(1) g] by auto
  qed
qed (simp add: store_all_def)

end

definition all_granted :: set_env where
  "all_granted = \<lparr>append_ok = True, mkstemp_ok = True, tmp_ok = True, reopen_ok = True, copy_src_ok = True,
     copy_dst_ok = True, wr = (\<lambda>i. True)\<rparr>"

definition good_entry :: "byte list \<Rightarrow> byte list \<Rightarrow> byte list \<Rightarrow> bool" where
  "good_entry s k v \<longleftrightarrow> clean s \<and> length s < 510 \<and> good_key k \<and> good_value v \<and> length k + length v < 511"

definition cfg_value :: "byte list \<Rightarrow> byte list \<Rightarrow> byte list \<Rightarrow> byte list option" where
  "cfg_value f s k = snd (snd (ConfigGetKey (Some (f, False)) s k))"

definition cfg_store :: "byte list \<Rightarrow> byte list \<Rightarrow> byte list \<Rightarrow> byte list \<Rightarrow> byte list" where
  "cfg_store s k v f = the (snd (ConfigSetKey all_granted (Some (f, False)) s k v))"

lemma all_granted_ok: "env_ok all_granted"
  by (simp add: env_ok_def all_granted_def)

lemma cfg_value_items: "plain_file f \<Longrightarrow> cfg_value f s k = snd (cfg_get s k (items f))"
  using ConfigGetKey_items [of f s k] by (auto simp: cfg_value_def plain_file_def)

lemma cfg_store_items:
  assumes "plain_file f" "good_entry s k v"
  shows "plain_file (cfg_store s k v f) \<and> items (cfg_store s k v f) = cfg_set s k v (items f)"
  using ConfigSetKey_items [OF assms(1) all_granted_ok, of s k v] assms(2) by (auto simp: cfg_store_def good_entry_def)

interpretation settings: config_store plain_file good_entry cfg_value cfg_store
  by unfold_locales (simp_all add: cfg_value_items cfg_store_items cfg_get_set_same cfg_get_set_other)

text \<open>
  C32: A plain file (every line can be parsed, has fewer than 512 bytes and no zero or control character, and the last
  one ends in a newline), a sequence of writes of good entries (no such characters, the key without blanks at its ends
  and without an equals sign, the value without blanks at its ends and a plus sign at its end, all short enough for a
  line), and a system that grants every call.  Then every write reports success, every key has the value written last,
  every key that was not written the value it had before, and the file is plain again.
\<close>
theorem settings_read_back:
  assumes "plain_file f" "\<forall>(s, k, v) \<in> set ws. good_entry s k v"
  shows "(\<forall>us s k v vs. ws = us @ (s, k, v) # vs \<longrightarrow>
        fst (ConfigSetKey all_granted (Some (fold (\<lambda>(s, k, v). cfg_store s k v) us f, False)) s k v) = CFG_OK)
    \<and> plain_file (fold (\<lambda>(s, k, v). cfg_store s k v) ws f)
    \<and> cfg_value (fold (\<lambda>(s, k, v). cfg_store s k v) ws f) s k =
      (case find (\<lambda>(s', k', v). s' = s \<and> k' = k) (rev ws) of Some (_, _, v) \<Rightarrow> Some v | None \<Rightarrow> cfg_value f s k)"
proof -
  have "fst (ConfigSetKey all_granted (Some (fold (\<lambda>(s, k, v). cfg_store s k v) us f, False)) s k v) = CFG_OK"
    if "ws = us @ (s, k, v) # vs" for us s k v vs
    using settings.store_all_reads [of f us] assms that
      ConfigSetKey_items [OF _ all_granted_ok, of "fold (\<lambda>(s, k, v). cfg_store s k v) us f" s k v]
    by (auto simp: settings.store_all_def good_entry_def)
  then show ?thesis using settings.store_all_reads [OF assms] by (simp add: settings.store_all_def)
qed

text \<open>
  A file whose last line has no newline loses what is written to a new section: the head of the section is
  joined to that line, so the write reports success and the key cannot be read.
\<close>
lemma unterminated_file_loses_section:
  assumes "env_ok env" "good_key k0" "good_value v0" "clean sec" "length k0 + length v0 + length sec < 508"
    "good_key key" "good_value v" "length key + length v < 511"
  shows "\<exists>f. ConfigSetKey env (Some (k0 @ [equals] @ v0, False)) sec key v = (CFG_OK, Some f)
    \<and> fst (ConfigGetKey (Some (f, False)) sec key) = CFG_SECTION_NOT_FOUND"
proof -
  let ?l = "k0 @ [equals] @ v0" and ?e = "key @ [equals] @ v"
  let ?v = "v0 @ [CFG_ssl] @ sec @ [CFG_ssr]"
  let ?l' = "k0 @ [equals] @ ?v"
  have v: "good_value ?v" using assms(3,4) by (cases v0) (auto simp: good_value_def clean_def)
  have pl: "list_all plain_line [?l', ?e]" using good_line [OF assms(2) v] good_line [OF assms(6,7)] assms(5,8) by simp
  have g: "FileGetLine (?l, False) = (int (length ?l), ?l, ([], False))"
    using get_line_unterminated [of ?l 512 0] good_line [OF assms(2,3)] assms(5)
    by (simp add: FileGetLine_def MAX_CFG_BUF_def plain_line_def)
  have "item_of ?l = Entry k0 v0" "parse_line ?l \<noteq> None" using parse_entry [OF assms(2,3)] by (simp_all add: item_of_def)
  then have "find_section sec 0 (?l, False) = find_section sec 1 ([], False)" using find_section_line [OF g] by simp
  also have "\<dots> = Inl CFG_SECTION_NOT_FOUND" by (subst find_section.simps) (simp add: FileGetLine_def MAX_CFG_BUF_def)
  finally have "fst (ConfigGetKey (Some (?l, False)) sec key) = CFG_SECTION_NOT_FOUND" by (simp add: ConfigGetKey_def)
  then have "ConfigSetKey env (Some (?l, False)) sec key v = (CFG_OK, Some (unlines [?l', ?e]))"
    using ConfigSetKey_appends [OF assms(1)] by (simp add: section_line_def entry_line_def)
  moreover have "items (unlines [?l', ?e]) = [Entry k0 ?v, Entry key v]"
    using plain_unlines(2) [OF pl] parse_entry [OF assms(2) v] parse_entry [OF assms(6,7)] by (simp add: item_of_def)
  then have "cfg_get sec key (items (unlines [?l', ?e])) = (CFG_SECTION_NOT_FOUND, None)" by (simp add: cfg_get_def)
  then have "fst (ConfigGetKey (Some (unlines [?l', ?e], False)) sec key) = CFG_SECTION_NOT_FOUND"
    using ConfigGetKey_items [of "unlines [?l', ?e]" sec key] plain_unlines(1) [OF pl] by (auto simp: plain_file_def)
  ultimately show ?thesis by blast
qed

text \<open>A file with the sections \<open>a\<close> and \<open>b\<close> and a comment.\<close>

definition sample_file :: "byte list" where
  "sample_file = unlines [[0x5B, 0x61, 0x5D], [0x78, 0x3D, 0x31], [0x23, 0x21], [0x5B, 0x62, 0x5D], [0x78, 0x3D, 0x32]]"

lemma sample_plain: "plain_file sample_file"
  unfolding sample_file_def by (rule plain_unlines) (simp add: plain_line_def clean_def parse_line_def strtriml_def strtrimr_def
      SplitKeyValue_def split_pair_def is_blank_def)

lemma config_refines_witness:
  "\<exists>bs'. ConfigSetKey all_granted (Some (sample_file, False)) [0x62] [0x79] [0x33] = (CFG_OK, Some bs')
    \<and> items bs' = cfg_set [0x62] [0x79] [0x33] (items sample_file)"
  using config_refines [OF sample_plain all_granted_ok, of "[0x62]" "[0x79]" "[0x33]"]
  by (auto simp: clean_def good_key_def good_value_def)

lemma settings_read_back_witness:
  "cfg_value (fold (\<lambda>(s, k, v). cfg_store s k v) [([0x62], [0x78], [0x33]), ([0x63], [0x78], []), ([0x62], [0x78], [0x34])] sample_file)
    [0x62] [0x78] = Some [0x34]"
  using settings_read_back [OF sample_plain, of "[([0x62], [0x78], [0x33]), ([0x63], [0x78], []), ([0x62], [0x78], [0x34])]" "[0x62]" "[0x78]"]
  by (simp add: good_entry_def clean_def good_key_def good_value_def)

lemma unterminated_file_loses_section_witness:
  "\<exists>f. ConfigSetKey all_granted (Some ([0x78] @ [0x3D] @ [0x31], False)) [0x62] [0x79] [0x33] = (CFG_OK, Some f)
    \<and> fst (ConfigGetKey (Some (f, False)) [0x62] [0x79]) = CFG_SECTION_NOT_FOUND"
  by (rule unterminated_file_loses_section [OF all_granted_ok]) (simp_all add: clean_def good_key_def good_value_def)

end
