(* ===== verification/ReachList.thy ===== *)
theory ReachList
  imports Prelude "HOL-Library.Monad_Syntax"
begin

section \<open>Linked lists (src/reach\_edukit/src/reach\_share/reach\_list.c)\<close>

text \<open>
  Nodes live in a heap, a finite map from addresses to nodes; address 0 is \<^verbatim>\<open>NULL\<close> and a freed node is no
  longer in the map, so a read of it is \<^const>\<open>None\<close>.  Loops over the list may run for ever on a cyclic
  list and are partial functions.  The abstraction \<open>chain\<close> relates a head to the list of its nodes; every
  operation is proved to do on that list what its name says, and to touch no other node.
\<close>

type_synonym addr = nat

record ('d, 'i) node_t =
  data :: 'd
  info :: 'i
  "next" :: addr

type_synonym ('d, 'i) heap = "addr \<rightharpoonup> ('d, 'i) node_t"

subsection \<open>The operations\<close>

partial_function (option) last_node :: "('d, 'i) heap \<Rightarrow> addr \<Rightarrow> addr option" where
  "last_node h temp = do { n \<leftarrow> h temp; if next n \<noteq> 0 then last_node h (next n) else Some temp }"

text \<open>\<open>a\<close> is the answer of \<^verbatim>\<open>r_malloc\<close>, which is not tested.\<close>

definition append_node ::
  "('d, 'i) heap \<Rightarrow> addr \<Rightarrow> 'd \<Rightarrow> 'i \<Rightarrow> addr \<Rightarrow> (('d, 'i) heap \<times> addr) option" where
  "append_node h head d i a =
     (if head = 0 then (if a = 0 then None else Some (h(a \<mapsto> \<lparr>data = d, info = i, next = 0\<rparr>), a))
      else do {
        t \<leftarrow> last_node h head;
        n \<leftarrow> h t;
        if a = 0 then None
        else Some (h(t \<mapsto> n\<lparr>next := a\<rparr>, a \<mapsto> \<lparr>data = d, info = i, next = 0\<rparr>), head)
      })"

definition del_head_node :: "('d, 'i) heap \<Rightarrow> addr \<Rightarrow> (('d, 'i) heap \<times> addr) option" where
  "del_head_node h head = do {
     n \<leftarrow> (if head = 0 then None else h head);
     if next n = 0 then Some (h, head) else Some (h(head := None), next n)
   }"

text \<open>\<open>free_until h temp cur\<close>: the nodes from \<open>temp\<close> on are freed until \<open>cur\<close> or the end is reached.\<close>

partial_function (option) free_until :: "('d, 'i) heap \<Rightarrow> addr \<Rightarrow> addr \<Rightarrow> ('d, 'i) heap option" where
  "free_until h temp cur =
     (if cur \<noteq> temp \<and> temp \<noteq> 0 then do { n \<leftarrow> h temp; free_until (h(temp := None)) (next n) cur } else Some h)"

definition del_part_list :: "('d, 'i) heap \<Rightarrow> addr \<Rightarrow> addr \<Rightarrow> (('d, 'i) heap \<times> addr) option" where
  "del_part_list h head curnode = do {
     h \<leftarrow> free_until h head curnode;
     n \<leftarrow> (if curnode = 0 then None else h curnode);
     Some (h(curnode := None), next n)
   }"

partial_function (option) count_nodes :: "('d, 'i) heap \<Rightarrow> u32 \<Rightarrow> addr \<Rightarrow> u32 option" where
  "count_nodes h i head = (if head \<noteq> 0 then do { n \<leftarrow> h head; count_nodes h (i + 1) (next n) } else Some i)"

definition list_length :: "('d, 'i) heap \<Rightarrow> addr \<Rightarrow> u32 option" where
  "list_length h head = count_nodes h 0 head"

partial_function (option) seek_node :: "('d, 'i) heap \<Rightarrow> addr \<Rightarrow> u32 \<Rightarrow> addr option" where
  "seek_node h head num =
     (if head \<noteq> 0 then (if num = 0 then Some head else do { n \<leftarrow> h head; seek_node h (next n) (num - 1) })
      else Some 0)"

definition get_num :: "('d, 'i) heap \<Rightarrow> addr \<Rightarrow> u32 \<Rightarrow> addr option" where
  "get_num h head num = seek_node h head (num - 1)"

text \<open>The data handed to the function \<^verbatim>\<open>print\<close>, in order.\<close>

partial_function (option) print_list :: "('d, 'i) heap \<Rightarrow> addr \<Rightarrow> 'd list option" where
  "print_list h head =
     (if head \<noteq> 0 then do { n \<leftarrow> h head; ds \<leftarrow> print_list h (next n); Some (data n # ds) } else Some [])"

definition destroy_list :: "('d, 'i) heap \<Rightarrow> addr \<Rightarrow> ('d, 'i) heap option" where
  "destroy_list h head = free_until h head 0"

declare last_node.simps [code] free_until.simps [code] count_nodes.simps [code] seek_node.simps [code]
  print_list.simps [code]

subsection \<open>The abstraction\<close>

fun chain :: "('d, 'i) heap \<Rightarrow> addr \<Rightarrow> (addr \<times> 'd \<times> 'i) list \<Rightarrow> bool" where
  "chain h p [] \<longleftrightarrow> p = 0"
| "chain h p ((a, d, i) # xs) \<longleftrightarrow> p = a \<and> a \<noteq> 0
     \<and> (case h a of None \<Rightarrow> False | Some n \<Rightarrow> data n = d \<and> info n = i \<and> chain h (next n) xs)"

definition addrs :: "(addr \<times> 'd \<times> 'i) list \<Rightarrow> addr set" where
  "addrs xs = fst ` set xs"

lemma addrs_simps [simp]:
  "addrs [] = {}" "addrs ((a, d, i) # xs) = insert a (addrs xs)" "addrs (xs @ ys) = addrs xs \<union> addrs ys"
  by (auto simp: addrs_def)

text \<open>A heap with some nodes removed.\<close>

definition without :: "('d, 'i) heap \<Rightarrow> addr set \<Rightarrow> ('d, 'i) heap" where
  "without h A = h |` (- A)"

lemma without_simps [simp]: "without h {} = h" "without (h(a := None)) A = without h (insert a A)"
  by (auto simp: without_def restrict_map_def)

lemma chain_Cons:
  "chain h p ((a, d, i) # xs) \<longleftrightarrow> p = a \<and> a \<noteq> 0
    \<and> (\<exists>n. h a = Some n \<and> data n = d \<and> info n = i \<and> chain h (next n) xs)"
  by (cases "h a") auto

declare chain.simps(2) [simp del] chain_Cons [simp]

lemma chain_consE:
  assumes "chain h p ((a, d, i) # xs)"
  obtains n where "p = a" "a \<noteq> 0" "h a = Some n" "data n = d" "info n = i" "chain h (next n) xs"
  using assms by auto

lemma chain_NULL: "chain h 0 xs \<longleftrightarrow> xs = []"
  by (cases "(h, 0 :: addr, xs)" rule: chain.cases) auto

lemma chain_NonNULL:
  "p \<noteq> 0 \<Longrightarrow> chain h p xs \<Longrightarrow> \<exists>n ys. h p = Some n \<and> xs = (p, data n, info n) # ys \<and> chain h (next n) ys"
  by (cases "(h, p, xs)" rule: chain.cases) auto

lemma chain_unique: "chain h p xs \<Longrightarrow> chain h p ys \<Longrightarrow> xs = ys"
proof (induction h p xs arbitrary: ys rule: chain.induct)
  case (1 h p)
  then show ?case by (simp add: chain_NULL)
next
  case (2 h p a d i xs)
  from "2.prems"(1) obtain n where n: "p = a" "a \<noteq> 0" "h a = Some n" "data n = d" "info n = i" "chain h (next n) xs"
    by (rule chain_consE)
  obtain zs where "ys = (a, d, i) # zs" "chain h (next n) zs"
    using chain_NonNULL [of a h ys] n "2.prems"(2) by auto
  then show ?case using "2.IH" [OF n(3,6)] by blast
qed

text \<open>A chain ends, so its nodes are distinct: the rest of a chain does not come back to its head.\<close>

lemma chain_suffix: "chain h p xs \<Longrightarrow> a \<in> addrs xs \<Longrightarrow> \<exists>ys. chain h a ys \<and> length ys \<le> length xs"
proof (induction h p xs rule: chain.induct)
  case (2 h p b d i xs)
  from "2.prems"(1) obtain n where n: "p = b" "h b = Some n" "chain h (next n) xs" by (rule chain_consE)
  show ?case
  proof (cases "a = b")
    case True
    then show ?thesis using "2.prems"(1) n(1) by blast
  next
    case False
    then have "a \<in> addrs xs" using "2.prems"(2) by simp
    from "2.IH" [OF n(2,3) this] obtain ys where "chain h a ys" "length ys \<le> length xs" by blast
    then show ?thesis by (intro exI [of _ ys]) simp
  qed
qed simp

lemma chain_head_fresh:
  assumes "chain h p ((a, d, i) # xs)"
  shows "a \<notin> addrs xs"
proof
  assume "a \<in> addrs xs"
  from assms obtain q where "chain h q xs" by auto
  with chain_suffix \<open>a \<in> addrs xs\<close> obtain ys where ys: "chain h a ys" "length ys \<le> length xs" by blast
  moreover have "chain h a ((a, d, i) # xs)" using assms by simp
  ultimately have "ys = (a, d, i) # xs" using chain_unique [OF ys(1)] by blast
  with ys(2) show False by simp
qed

lemma chain_upd: "a \<notin> addrs xs \<Longrightarrow> chain (h(a := v)) p xs = chain h p xs"
  by (induction h p xs rule: chain.induct) auto

lemma chain_without: "A \<inter> addrs xs = {} \<Longrightarrow> chain (without h A) p xs = chain h p xs"
proof (induction h p xs rule: chain.induct)
  case (2 h p a d i xs)
  then have "without h A a = h a" by (auto simp: without_def)
  then show ?case using 2 by (auto split: option.splits)
qed simp

lemma chain_nonNULL_addrs: "chain h p xs \<Longrightarrow> 0 \<notin> addrs xs"
  by (induction h p xs rule: chain.induct) auto

lemma chain_dom: "chain h p xs \<Longrightarrow> addrs xs \<subseteq> dom h"
  by (induction h p xs rule: chain.induct) auto

subsection \<open>The operations on the abstraction\<close>

lemma append_tail:
  "chain h p xs \<Longrightarrow> p \<noteq> 0 \<Longrightarrow> h a = None \<Longrightarrow> a \<noteq> 0 \<Longrightarrow>
    \<exists>t n. last_node h p = Some t \<and> h t = Some n \<and> t \<in> addrs xs
      \<and> chain (h(t \<mapsto> n\<lparr>next := a\<rparr>, a \<mapsto> \<lparr>data = d, info = i, next = 0\<rparr>)) p (xs @ [(a, d, i)])"
proof (induction h p xs rule: chain.induct)
  case (2 h p b e j xs)
  from "2.prems"(1) obtain n where n: "h p = Some n" "p = b" "data n = e" "info n = j" "chain h (next n) xs" by auto
  moreover have "a \<noteq> p" using n(1) "2.prems"(3) by auto
  ultimately have n: "h p = Some n" "p = b" "data n = e" "info n = j" "chain h (next n) xs" "a \<noteq> p" by blast+
  have fr: "p \<notin> addrs xs" using chain_head_fresh [OF "2.prems"(1)] n by simp
  show ?case
  proof (cases "next n = 0")
    case True
    then have "xs = []" using n chain_NULL by metis
    with n True "2.prems" show ?thesis by (subst last_node.simps) auto
  next
    case False
    note "2.IH" [OF n(1) [unfolded n(2)] n(5) False "2.prems"(3,4)]
    then obtain t m where t: "last_node h (next n) = Some t" "h t = Some m" "t \<in> addrs xs"
      "chain (h(t \<mapsto> m\<lparr>next := a\<rparr>, a \<mapsto> \<lparr>data = d, info = i, next = 0\<rparr>)) (next n) (xs @ [(a, d, i)])" by blast
    define h' where "h' = h(t \<mapsto> m\<lparr>next := a\<rparr>, a \<mapsto> \<lparr>data = d, info = i, next = 0\<rparr>)"
    have "last_node h p = Some t" using n False t(1) by (subst last_node.simps) simp
    moreover have "h' p = Some n" using fr t(3) n(1,6) by (auto simp: h'_def)
    then have "chain h' p (((b, e, j) # xs) @ [(a, d, i)])" using n t(4) [folded h'_def] "2.prems"(1) by simp
    ultimately show ?thesis using t(2,3) unfolding h'_def addrs_simps by blast
  qed
qed simp

lemma append_node_chain:
  assumes "chain h p xs" "h a = None" "a \<noteq> 0"
  shows "\<exists>h' p'. append_node h p d i a = Some (h', p') \<and> chain h' p' (xs @ [(a, d, i)])
    \<and> (\<forall>b. b \<notin> addrs xs \<longrightarrow> b \<noteq> a \<longrightarrow> h' b = h b)"
proof (cases "p = 0")
  case True
  then have "xs = []" using assms(1) by (simp add: chain_NULL)
  with True assms show ?thesis by (simp add: append_node_def)
next
  case False
  from append_tail [OF assms(1) this assms(2,3)] obtain t n where
    "last_node h p = Some t" "h t = Some n" "t \<in> addrs xs"
    "chain (h(t \<mapsto> n\<lparr>next := a\<rparr>, a \<mapsto> \<lparr>data = d, info = i, next = 0\<rparr>)) p (xs @ [(a, d, i)])" by blast
  with False assms show ?thesis by (auto simp: append_node_def)
qed

text \<open>The nodes before \<open>cur\<close> are freed; all of them when the list does not hold \<open>cur\<close>.\<close>

lemma free_until_chain:
  "chain h p (ys @ zs) \<Longrightarrow> cur \<notin> addrs ys \<Longrightarrow> (zs = [] \<or> chain h cur zs) \<Longrightarrow>
    free_until h p cur = Some (without h (addrs ys))"
proof (induction ys arbitrary: h p)
  case Nil
  then have "p = cur \<or> p = 0" by (cases zs) auto
  then show ?case by (subst free_until.simps) auto
next
  case (Cons y ys)
  obtain a d i where y: "y = (a, d, i)" by (cases y)
  have c: "chain h p ((a, d, i) # (ys @ zs))" using Cons.prems(1) y by simp
  then obtain n where n: "p = a" "a \<noteq> 0" "h a = Some n" "chain h (next n) (ys @ zs)" by auto
  have fr: "a \<notin> addrs ys" "a \<notin> addrs zs" using chain_head_fresh [OF c] by simp_all
  have "free_until (h(a := None)) (next n) cur = Some (without (h(a := None)) (addrs ys))"
    using Cons.IH [of "h(a := None)" "next n"] Cons.prems(2,3) n(4) fr y
    by (simp add: chain_upd del: fun_upd_apply)
  then show ?case using n y Cons.prems(2) by (subst free_until.simps) auto
qed

lemma chain_disjoint: "chain h p (ys @ zs) \<Longrightarrow> addrs ys \<inter> addrs zs = {} \<and> (\<exists>q. chain h q zs)"
proof (induction ys arbitrary: p)
  case (Cons y ys)
  obtain a d i where y: "y = (a, d, i)" by (cases y)
  have c: "chain h p ((a, d, i) # (ys @ zs))" using Cons.prems y by simp
  then obtain q where "chain h q (ys @ zs)" by auto
  with Cons.IH chain_head_fresh [OF c] y show ?case by auto
qed auto

lemma del_part_list_chain:
  assumes "chain h p (ys @ (a, d, i) # zs)"
  shows "\<exists>q. del_part_list h p a = Some (without h (addrs (ys @ [(a, d, i)])), q)
    \<and> chain (without h (addrs (ys @ [(a, d, i)]))) q zs"
proof -
  from chain_disjoint [OF assms] have a: "a \<notin> addrs ys" "chain h a ((a, d, i) # zs)" by auto
  then obtain n where n: "h a = Some n" "chain h (next n) zs" "a \<noteq> 0" by auto
  have f: "free_until h p a = Some (without h (addrs ys))"
    using free_until_chain [OF assms a(1)] a(2) by blast
  have "without h (addrs ys) a = Some n" using a(1) n(1) by (simp add: without_def)
  moreover have "(without h (addrs ys))(a := None) = without h (addrs (ys @ [(a, d, i)]))"
    by (auto simp: without_def restrict_map_def)
  moreover have "addrs (ys @ [(a, d, i)]) \<inter> addrs zs = {}"
    using chain_disjoint [of h p "ys @ [(a, d, i)]" zs] assms by simp
  ultimately show ?thesis using f n(2,3) by (simp add: del_part_list_def chain_without del: addrs_simps)
qed

lemma free_until_absent:
  "chain h p xs \<Longrightarrow> cur \<notin> addrs xs \<Longrightarrow> free_until h p cur = Some (without h (addrs xs))"
  using free_until_chain [of h p xs "[]" cur] by simp

lemma count_nodes_chain: "chain h p xs \<Longrightarrow> count_nodes h i p = Some (i + of_nat (length xs))"
proof (induction h p xs arbitrary: i rule: chain.induct)
  case (1 h p)
  then show ?case by (subst count_nodes.simps) simp
next
  case (2 h p a d j xs)
  then show ?case by (subst count_nodes.simps) (auto simp: algebra_simps)
qed

lemma print_list_chain: "chain h p xs \<Longrightarrow> print_list h p = Some (map (\<lambda>(a, d, i). d) xs)"
proof (induction h p xs rule: chain.induct)
  case (1 h p)
  then show ?case by (subst print_list.simps) simp
next
  case (2 h p a d j xs)
  then show ?case by (subst print_list.simps) auto
qed

lemma seek_node_chain:
  "chain h p xs \<Longrightarrow> seek_node h p n = Some (if unat n < length xs then fst (xs ! unat n) else 0)"
proof (induction h p xs arbitrary: n rule: chain.induct)
  case (1 h p)
  then show ?case by (subst seek_node.simps) simp
next
  case (2 h p a d j xs)
  show ?case
  proof (cases "n = 0")
    case True
    then show ?thesis using "2.prems" by (subst seek_node.simps) auto
  next
    case False
    then have "unat n = Suc (unat (n - 1))" using unat_gt_0 [of n] by (simp add: unat_minus_one)
    then show ?thesis using 2 False by (subst seek_node.simps) auto
  qed
qed

lemma del_head_node_chain:
  assumes "chain h p ((a, d, i) # xs)"
  shows "\<exists>q. del_head_node h p = Some (if xs = [] then h else without h {a}, q)
    \<and> chain (if xs = [] then h else without h {a}) q (if xs = [] then [(a, d, i)] else xs)"
proof (cases xs)
  case Nil
  then show ?thesis using assms by (auto simp: del_head_node_def)
next
  case (Cons y ys)
  obtain b e j where y: "y = (b, e, j)" by (cases y)
  have fr: "a \<notin> addrs xs" by (rule chain_head_fresh [OF assms])
  from assms obtain n where n: "p = a" "h a = Some n" "chain h (next n) xs" "a \<noteq> 0" by auto
  then have "next n \<noteq> 0" using Cons y by auto
  moreover have "h(a := None) = without h {a}" by (auto simp: without_def restrict_map_def)
  moreover have "chain (without h {a}) (next n) xs" using n(3) fr by (simp add: chain_without)
  ultimately show ?thesis using n Cons by (auto simp: del_head_node_def)
qed

lemma del_part_list_absent:
  "chain h p xs \<Longrightarrow> cur \<notin> addrs xs \<Longrightarrow> del_part_list h p cur =
    (case if cur = 0 then None else h cur of None \<Rightarrow> None | Some n \<Rightarrow> Some (without h (insert cur (addrs xs)), next n))"
  by (auto simp: del_part_list_def free_until_absent without_def restrict_map_def fun_eq_iff split: option.splits bind_splits)

text \<open>
  C33: Every operation does on a chain what its name says.  Appending adds the new node behind the others;
  deleting the head removes it, but never the last node, and faults on an empty list; deleting a part frees the
  nodes up to and including the given one and keeps those behind it; length, the \<open>k\<close>-th node (\<^verbatim>\<open>NULL\<close> outside
  the list) and printing agree with the list; destroying frees every node.  No other node is touched.
\<close>
theorem list_ops_refine:
  assumes "chain h p xs" "h b = None" "b \<noteq> 0"
  shows "(\<exists>h' p'. append_node h p e j b = Some (h', p') \<and> chain h' p' (xs @ [(b, e, j)])
      \<and> (\<forall>c. c \<notin> addrs xs \<longrightarrow> c \<noteq> b \<longrightarrow> h' c = h c))
    \<and> (case xs of [] \<Rightarrow> del_head_node h p = None | [x] \<Rightarrow> del_head_node h p = Some (h, p)
       | x # y # ys \<Rightarrow> \<exists>q. del_head_node h p = Some (without h {fst x}, q) \<and> chain (without h {fst x}) q (y # ys))
    \<and> (\<forall>ys a d i zs. xs = ys @ (a, d, i) # zs \<longrightarrow>
        (\<exists>q. del_part_list h p a = Some (without h (insert a (addrs ys)), q)
          \<and> chain (without h (insert a (addrs ys))) q zs))
    \<and> list_length h p = Some (of_nat (length xs))
    \<and> get_num h p k = Some (if unat (k - 1) < length xs then fst (xs ! unat (k - 1)) else 0)
    \<and> print_list h p = Some (map (\<lambda>(a, d, i). d) xs)
    \<and> destroy_list h p = Some (without h (addrs xs))"
proof (intro conjI allI impI)
  show "case xs of [] \<Rightarrow> del_head_node h p = None | [x] \<Rightarrow> del_head_node h p = Some (h, p)
       | x # y # ys \<Rightarrow> \<exists>q. del_head_node h p = Some (without h {fst x}, q) \<and> chain (without h {fst x}) q (y # ys)"
  proof (cases xs)
    case (Cons x ys)
    obtain a d i where "x = (a, d, i)" by (cases x)
    with Cons assms(1) del_head_node_chain [of h p a d i ys] show ?thesis
      by (cases ys) (auto simp: del_head_node_def)
  qed (use assms(1) in \<open>simp add: del_head_node_def\<close>)
  show "\<exists>q. del_part_list h p a = Some (without h (insert a (addrs ys)), q) \<and> chain (without h (insert a (addrs ys))) q zs"
    if "xs = ys @ (a, d, i) # zs" for ys a d i zs
    using del_part_list_chain [of h p ys a d i zs] assms(1) that by simp
qed (use append_node_chain [OF assms, of e j] count_nodes_chain [OF assms(1), of 0] seek_node_chain [OF assms(1), of "k - 1"]
      print_list_chain [OF assms(1)] free_until_absent [OF assms(1) chain_nonNULL_addrs [OF assms(1)]]
    in \<open>simp_all add: list_length_def get_num_def destroy_list_def\<close>)

text \<open>Three nodes at the addresses 4, 8 and 2.\<close>

lemma list_ops_refine_witness:
  "\<exists>q. del_part_list [4 \<mapsto> \<lparr>data = ''a'', info = (), next = 8\<rparr>, 8 \<mapsto> \<lparr>data = ''b'', info = (), next = 2\<rparr>,
      2 \<mapsto> \<lparr>data = ''c'', info = (), next = 0\<rparr>] 4 8 = Some ([2 \<mapsto> \<lparr>data = ''c'', info = (), next = 0\<rparr>], q) \<and> q = 2"
proof -
  let ?h = "[4 \<mapsto> \<lparr>data = ''a'', info = (), next = 8\<rparr>, 8 \<mapsto> \<lparr>data = ''b'', info = (), next = 2\<rparr>,
      2 \<mapsto> \<lparr>data = ''c'', info = (), next = 0\<rparr>] :: (string, unit) heap"
  let ?xs = "[(4, ''a'', ()), (8, ''b'', ()), (2, ''c'', ())]"
  have c: "chain ?h 4 ?xs" by simp
  have "?xs = [(4, ''a'', ())] @ (8, ''b'', ()) # [(2, ''c'', ())]" by simp
  from list_ops_refine [OF c, of 1, THEN conjunct2, THEN conjunct2, THEN conjunct1, rule_format, OF _ _ this]
  obtain q where "del_part_list ?h 4 8 = Some (without ?h (insert 8 (addrs [(4, ''a'', ())])), q)"
    "chain (without ?h (insert 8 (addrs [(4, ''a'', ())]))) q [(2, ''c'', ())]" by fastforce
  moreover have "without ?h (insert 8 (addrs [(4, ''a'', ())])) = [2 \<mapsto> \<lparr>data = ''c'', info = (), next = 0\<rparr>]"
    by (auto simp: without_def restrict_map_def fun_eq_iff)
  ultimately show ?thesis by auto
qed

end
