(* ===== verification/Update.thy ===== *)
theory Update
  imports Prelude "HOL-Library.Monad_Syntax"
begin

section \<open>Firmware update (src/reach\_edukit/src/control/web/app\_update\_header.c, app\_update.c)\<close>

text \<open>
  The header in front of an update file: how it is built, added, checked and taken off again, and the
  programming of the FPGA flash.  Files are lists of bytes; what the system answers (whether a file can be
  opened, how much a write takes, what an \<^verbatim>\<open>ioctl\<close> delivers) is an argument.
\<close>

definition le32 :: "u32 \<Rightarrow> byte list" where
  "le32 w = [ucast w, ucast (drop_bit 8 w), ucast (drop_bit 16 w), ucast (drop_bit 24 w)]"

subsection \<open>The header\<close>

record UP_HEADER_INFO =
  info_len :: u32
  checksum :: u32
  product_id :: "byte list"
  major_version :: u32
  minor_version :: u32
  pcb_version :: u32
  kernel_version :: u32
  fpga_version :: u32
  vss_version :: u32
  force_update :: u32
  compressmode :: u32
  filesystem :: u32
  target :: "byte list"
  custom_info :: "byte list"
  reserve :: "byte list"

text \<open>The bytes of the structure: 116, without padding, low bytes first.\<close>

definition header_bytes :: "UP_HEADER_INFO \<Rightarrow> byte list" where
  "header_bytes h = le32 (info_len h) @ le32 (checksum h) @ product_id h @ le32 (major_version h)
     @ le32 (minor_version h) @ le32 (pcb_version h) @ le32 (kernel_version h) @ le32 (fpga_version h)
     @ le32 (vss_version h) @ le32 (force_update h) @ le32 (compressmode h) @ le32 (filesystem h)
     @ target h @ custom_info h @ reserve h"

definition SIZEOF_HEADER :: nat where "SIZEOF_HEADER = 116"
definition FIRST_UPDATE_HEADER :: "byte list" where "FIRST_UPDATE_HEADER = chars ''##################SZREACH#######''"
definition UPDATE_PRODUCT_ID :: "byte list" where "UPDATE_PRODUCT_ID = chars ''ENC2000''"
definition UPDATE_MAJOR_VERSION :: u32 where "UPDATE_MAJOR_VERSION = 2"
definition UPDATE_HEARER_LEN :: nat where "UPDATE_HEARER_LEN = 256"

definition zero_header :: UP_HEADER_INFO where
  "zero_header = \<lparr>info_len = 0, checksum = 0, product_id = replicate 16 0, major_version = 0, minor_version = 0,
     pcb_version = 0, kernel_version = 0, fpga_version = 0, vss_version = 0, force_update = 0, compressmode = 0,
     filesystem = 0, target = replicate 16 0, custom_info = replicate 32 0, reserve = replicate 8 0\<rparr>"

text \<open>\<^verbatim>\<open>snprintf\<close> into the zeroed array of 16 characters.\<close>

definition snprintf16 :: "byte list \<Rightarrow> byte list" where
  "snprintf16 s = take 15 s @ replicate (16 - length (take 15 s)) 0"

fun words_le :: "byte list \<Rightarrow> u32 list" where
  "words_le (a # b # c # d # bs) =
     (ucast a OR push_bit 8 (ucast b) OR push_bit 16 (ucast c) OR push_bit 24 (ucast d)) # words_le bs"
| "words_le _ = []"

definition sys_checksum_int :: "byte list \<Rightarrow> nat \<Rightarrow> u32" where
  "sys_checksum_int buf len = sum_list (take (len div 4) (words_le buf))"

definition make_header :: "byte list \<Rightarrow> UP_HEADER_INFO" where
  "make_header pid =
     (let h = zero_header\<lparr>info_len := of_nat SIZEOF_HEADER, product_id := snprintf16 pid,
        major_version := UPDATE_MAJOR_VERSION\<rparr>
      in h\<lparr>checksum := sys_checksum_int (drop 8 (header_bytes h)) (unat (info_len h) - 8)\<rparr>)"

definition app_fill_extern_buff :: "byte list \<Rightarrow> UP_HEADER_INFO \<Rightarrow> byte list option" where
  "app_fill_extern_buff g_extern_buff h = do {
     b \<leftarrow> memcpy g_extern_buff 0 FIRST_UPDATE_HEADER 0 32;
     memcpy b 32 (header_bytes h) 0 (int SIZEOF_HEADER)
   }"

text \<open>The globals after the first call: the header of this product and the 256 bytes with it.\<close>

definition app_init_header_info :: "(UP_HEADER_INFO \<times> byte list) option" where
  "app_init_header_info = do {
     let h = make_header UPDATE_PRODUCT_ID;
     b \<leftarrow> app_fill_extern_buff (replicate 256 0xFF) h;
     Some (h, b)
   }"

text \<open>\<open>g_board_type\<close> selects the product the header names.\<close>

definition board_product :: "byte list \<Rightarrow> byte list" where
  "board_product g_board_type =
     (if g_board_type = chars ''CL4000_DVI'' then chars ''CL4000DVI''
      else if g_board_type = chars ''CL4000_SDI'' then chars ''CL4000SDI''
      else if g_board_type = chars ''ENC1200'' then chars ''ENC1200DVI''
      else if g_board_type = chars ''DEC1100'' then chars ''DEC1100''
      else g_board_type)"

definition app_add_header_info :: "byte list \<Rightarrow> byte list \<Rightarrow> byte list option" where
  "app_add_header_info g_board_type buf = app_fill_extern_buff buf (make_header (board_product g_board_type))"

subsection \<open>Checking\<close>

text \<open>The second argument holds the bytes from the field on.\<close>

definition app_compare_header_info :: "UP_HEADER_INFO \<Rightarrow> byte list \<Rightarrow> int option" where
  "app_compare_header_info old new = do { e \<leftarrow> strcmp_eq (product_id old) new; Some (if e then 0 else - 1) }"

text \<open>The size of a file, as the unsigned integer the code keeps it in.\<close>

definition get_file_size :: "byte list \<Rightarrow> u32" where "get_file_size fs = of_nat (length fs)"

definition app_header_info_ok :: "byte list option \<Rightarrow> int option" where
  "app_header_info_ok fp = (case fp of
     None \<Rightarrow> Some 2
   | Some fs \<Rightarrow>
      if get_file_size fs \<le> 256 then Some 2
      else let buff = take 256 fs in
        if length buff < 256 then Some 2
        else if take 32 buff \<noteq> FIRST_UPDATE_HEADER then Some 2
        else do {
          (h, _) \<leftarrow> app_init_header_info;
          app_compare_header_info h (drop 8 (take SIZEOF_HEADER (drop 32 buff)))
        })"

subsection \<open>Adding and removing\<close>

text \<open>
  \<open>fw k n\<close> is the number of bytes the \<open>k\<close>-th \<^verbatim>\<open>fwrite\<close> takes when it is given \<open>n\<close>.  A short read sets the
  end-of-file flag, which ends the loop.
\<close>

function copy_file :: "(nat \<Rightarrow> nat \<Rightarrow> nat) \<Rightarrow> nat \<Rightarrow> byte list \<Rightarrow> byte list \<Rightarrow> bool \<times> byte list" where
  "copy_file fw k fs out =
     (let chunk = take 102400 fs; n = fw k (length chunk); out = out @ take n chunk in
      if n \<noteq> length chunk then (False, out)
      else if length chunk < 102400 then (True, out)
      else copy_file fw (k + 1) (drop 102400 fs) out)"
  by auto
termination by (relation "measure (\<lambda>(fw, k, fs, out). length fs)") (auto simp: Let_def)

declare copy_file.simps [simp del]

definition g_enc1100_first_head :: "byte list" where
  "g_enc1100_first_head = [0x7E, 0x7E, 0x7E, 0x7E, 0x31, 0x31, 0x30, 0x30]"
definition g_enc1200_first_head :: "byte list" where
  "g_enc1200_first_head = [0x7E, 0x7E, 0x7E, 0x7E, 0x48, 0x45, 0x4E, 0x43]"
definition FIRST_HEAD :: "byte list" where "FIRST_HEAD = chars ''EncoderManager''"

text \<open>The result: the code, and the name and content of the new file when one was made.\<close>

definition app_add_extern_buff ::
  "(nat \<Rightarrow> nat \<Rightarrow> nat) \<Rightarrow> bool \<Rightarrow> byte list \<Rightarrow> byte list \<Rightarrow> byte list option
    \<Rightarrow> (int \<times> (byte list \<times> byte list) option) option" where
  "app_add_extern_buff fw create_ok g_board_type name fp_old = do {
     extern_buff \<leftarrow> app_add_header_info g_board_type (replicate 256 0);
     let pname_len = int (length name) - 4;
     pname \<leftarrow> memcpy (replicate 128 0) 0 name 0 pname_len;
     pname \<leftarrow> memcpy pname pname_len (chars ''.bin'') 0 4;
     let enc1100 = (g_board_type = chars ''ENC1100'');
     let first_head = (if enc1100 then g_enc1100_first_head else g_enc1200_first_head);
     s \<leftarrow> cstr pname;
     filename \<leftarrow> strcpy_to (replicate 256 0) (FIRST_HEAD @ chars ''.'' @ s);
     filename \<leftarrow> cstr filename;
     (case fp_old of
        None \<Rightarrow> Some (- 1, None)
      | Some fs \<Rightarrow>
         if \<not> create_ok then Some (- 1, None)
         else
           (let out = take (fw 0 8) first_head in
            if fw 0 8 \<noteq> 8 then Some (- 1, Some (filename, out))
            else
              (let out2 = (if enc1100 then out else out @ take (fw 1 256) extern_buff) in
               if \<not> enc1100 \<and> fw 1 256 \<noteq> 256 then Some (- 1, Some (filename, out2))
               else (case copy_file fw (if enc1100 then 1 else 2) fs out2 of
                 (ok, out3) \<Rightarrow> Some (if ok then 0 else - 1, Some (filename, out3))))))
   }"

definition app_del_extern_buff ::
  "(nat \<Rightarrow> nat \<Rightarrow> nat) \<Rightarrow> bool \<Rightarrow> byte list \<Rightarrow> byte list option
    \<Rightarrow> (int \<times> (byte list \<times> byte list) option) option" where
  "app_del_extern_buff fw create_ok name fp_old = (case fp_old of
     None \<Rightarrow> Some (- 1, None)
   | Some fs \<Rightarrow>
      if length (take UPDATE_HEARER_LEN fs) \<noteq> UPDATE_HEARER_LEN then Some (- 1, None)
      else do {
        filename \<leftarrow> strcpy_to (replicate 256 0) (name @ chars ''_temp'');
        filename \<leftarrow> cstr filename;
        if \<not> create_ok then Some (- 1, None)
        else if get_file_size fs < 256 then Some (- 1, Some (filename, []))
        else if length (take 256 fs) < 256 then Some (- 1, Some (filename, []))
        else (case copy_file fw 0 (drop 256 fs) [] of
          (ok, out) \<Rightarrow> Some (if ok then 0 else - 1, Some (filename, out)))
      })"

subsection \<open>The FPGA flash\<close>

text \<open>
  The requests to the pins are recorded in order; \<open>io k\<close> is what the \<open>k\<close>-th \<^verbatim>\<open>ioctl\<close> returns, and the value
  it delivers.
\<close>

datatype gpio_op = SetBit nat | ClearBit nat | GetBit nat

type_synonym ioctl = "nat \<Rightarrow> int \<times> int"

definition FLASH_ENABLE :: nat where "FLASH_ENABLE = 41"
definition FPGA_PRO :: nat where "FPGA_PRO = 2"
definition FPGA_DONE :: nat where "FPGA_DONE = 3"

definition set_gpio_bit :: "ioctl \<Rightarrow> nat \<Rightarrow> gpio_op list \<Rightarrow> int \<times> gpio_op list" where
  "set_gpio_bit io b t = (if fst (io (length t)) < 0 then - 1 else 0, t @ [SetBit b])"

definition clear_gpio_bit :: "ioctl \<Rightarrow> nat \<Rightarrow> gpio_op list \<Rightarrow> int \<times> gpio_op list" where
  "clear_gpio_bit io b t = (if fst (io (length t)) < 0 then - 1 else 0, t @ [ClearBit b])"

definition get_gpio_bit :: "ioctl \<Rightarrow> nat \<Rightarrow> gpio_op list \<Rightarrow> int \<times> gpio_op list" where
  "get_gpio_bit io b t =
     (let ret = (if fst (io (length t)) < 0 then - 1 else snd (io (length t))) in
      (if ret < 0 then - 1 else ret, t @ [GetBit b]))"

text \<open>The file is written in pieces; \<open>w k n\<close> is what the \<open>k\<close>-th \<^verbatim>\<open>write\<close> takes of \<open>n\<close> bytes.\<close>

definition PER_READ_LEN :: nat where "PER_READ_LEN = 256"

function flash_loop :: "(nat \<Rightarrow> nat \<Rightarrow> nat) \<Rightarrow> nat \<Rightarrow> byte list \<Rightarrow> byte list \<Rightarrow> byte list" where
  "flash_loop w k fs flash =
     (let spidata = take PER_READ_LEN fs; readlen = length spidata in
      if readlen < 1 then flash
      else let flash = flash @ take (w k readlen) spidata in
        if readlen < PER_READ_LEN then flash @ take (w (k + 1) readlen) spidata
        else flash_loop w (k + 1) (drop PER_READ_LEN fs) flash)"
  by auto
termination by (relation "measure (\<lambda>(w, k, fs, flash). length fs)") (auto simp: Let_def PER_READ_LEN_def)

declare flash_loop.simps [simp del]

text \<open>The pin \<^const>\<open>FPGA_DONE\<close> is read until it is not 0, however long that takes.\<close>

partial_function (option) wait_done :: "ioctl \<Rightarrow> int \<Rightarrow> gpio_op list \<Rightarrow> gpio_op list option" where
  "wait_done io ret t =
     (if ret = 0 then (case get_gpio_bit io FPGA_DONE t of (ret, t) \<Rightarrow> wait_done io ret t) else Some t)"

text \<open>The result, the requests to the pins and the content of the flash; \<open>spifd\<close> is the descriptor opened.\<close>

definition updateFpgaProgram ::
  "ioctl \<Rightarrow> (nat \<Rightarrow> nat \<Rightarrow> nat) \<Rightarrow> int \<Rightarrow> byte list option \<Rightarrow> (int \<times> gpio_op list \<times> byte list) option" where
  "updateFpgaProgram io w spifd fpgafd = do {
     let (_, t) = clear_gpio_bit io FLASH_ENABLE [];
     let flash = (if spifd < 0 then [] else case fpgafd of None \<Rightarrow> [] | Some fs \<Rightarrow> flash_loop w 0 fs []);
     let (_, t) = set_gpio_bit io FLASH_ENABLE t;
     let (ret, t) = get_gpio_bit io FPGA_DONE t;
     t \<leftarrow> wait_done io ret t;
     let (_, t) = clear_gpio_bit io FPGA_PRO t;
     let (ret, t) = set_gpio_bit io FPGA_PRO t;
     Some (ret, t, flash)
   }"

subsection \<open>Properties\<close>

lemma length_le32 [simp]: "length (le32 w) = 4"
  by (simp add: le32_def)

lemma length_snprintf16 [simp]: "length (snprintf16 s) = 16"
  by (simp add: snprintf16_def)

lemma length_make_header [simp]: "length (header_bytes (make_header pid)) = 116"
  by (simp add: header_bytes_def make_header_def zero_header_def Let_def)

lemma product_make_header [simp]: "product_id (make_header pid) = snprintf16 pid"
  by (simp add: make_header_def zero_header_def Let_def)

lemma header_product: "drop 8 (header_bytes (make_header pid)) = snprintf16 pid @ drop 24 (header_bytes (make_header pid))"
  by (simp add: header_bytes_def)

lemma first_header: "FIRST_UPDATE_HEADER = replicate 18 0x23 @ [0x53, 0x5A, 0x52, 0x45, 0x41, 0x43, 0x48] @ replicate 7 0x23"
  by (simp add: FIRST_UPDATE_HEADER_def chars_def numeral_eq_Suc of_char_def)

lemma fill_extern_buff:
  assumes "length b = 256" "length (header_bytes h) = 116"
  shows "app_fill_extern_buff b h = Some (FIRST_UPDATE_HEADER @ header_bytes h @ drop 148 b)"
proof -
  have f: "length FIRST_UPDATE_HEADER = 32" by (simp add: first_header)
  have "memcpy b (int 0) FIRST_UPDATE_HEADER (int 0) (int 32) = Some (FIRST_UPDATE_HEADER @ drop 32 b)"
    using assms(1) f by (subst memcpy_nat) simp_all
  moreover have "memcpy (FIRST_UPDATE_HEADER @ drop 32 b) (int 32) (header_bytes h) (int 0) (int 116) =
      Some (FIRST_UPDATE_HEADER @ header_bytes h @ drop 148 b)"
    using assms f by (subst memcpy_nat) simp_all
  ultimately show ?thesis by (simp add: app_fill_extern_buff_def SIZEOF_HEADER_def)
qed

text \<open>The 256 bytes this product puts in front of a file.\<close>

definition own_header :: "byte list" where
  "own_header = FIRST_UPDATE_HEADER @ header_bytes (make_header UPDATE_PRODUCT_ID) @ replicate 108 0xFF"

lemma init_header: "app_init_header_info = Some (make_header UPDATE_PRODUCT_ID, own_header)"
  using fill_extern_buff [of "replicate 256 0xFF" "make_header UPDATE_PRODUCT_ID"]
  by (simp add: app_init_header_info_def own_header_def Let_def)

text \<open>A loop whose writes are all taken copies the file.\<close>

lemma copy_file_all: "\<forall>k n. fw k n = n \<Longrightarrow> copy_file fw k fs out = (True, out @ fs)"
proof (induction "length fs" arbitrary: k fs out rule: less_induct)
  case less
  show ?case
  proof (cases "length fs < 102400")
    case True
    then show ?thesis using less.prems by (subst copy_file.simps) (simp add: Let_def)
  next
    case False
    then have "copy_file fw k fs out = copy_file fw (k + 1) (drop 102400 fs) (out @ take 102400 fs)"
      using less.prems by (subst copy_file.simps) (simp add: Let_def)
    then show ?thesis using less.hyps [of "drop 102400 fs" "k + 1" "out @ take 102400 fs"] less.prems False by simp
  qed
qed

lemma temp_name:
  assumes "0 \<notin> set name" "length name < 251"
  shows "\<exists>f. strcpy_to (replicate 256 0) (name @ chars ''_temp'') = Some f \<and> cstr f = Some (name @ chars ''_temp'')"
  using strcpy_to_cstr [of "name @ chars ''_temp''" "replicate 256 0"] assms
  by (auto simp: chars_def of_char_def)

lemma del_extern_all:
  assumes "\<forall>k n. fw k n = n" "0 \<notin> set name" "length name < 251" "256 \<le> length fs" "length fs < 2 ^ 32"
  shows "app_del_extern_buff fw True name (Some fs) = Some (0, Some (name @ chars ''_temp'', drop 256 fs))"
proof -
  obtain f where f: "strcpy_to (replicate 256 0) (name @ chars ''_temp'') = Some f" "cstr f = Some (name @ chars ''_temp'')"
    using temp_name [OF assms(2,3)] by blast
  have "\<not> get_file_size fs < 256" using assms(4,5) unat_of_nat [of "length fs", where 'a = 32]
    by (simp add: get_file_size_def word_less_nat_alt)
  then show ?thesis using assms(1,4) f
    by (simp add: app_del_extern_buff_def UPDATE_HEARER_LEN_def copy_file_all)
qed

text \<open>
  C34: A file with this product's own header in front is accepted, and removing the header gives the file back,
  under its name with \<open>_temp\<close> behind it.
\<close>
theorem own_header_removed:
  assumes "\<forall>k n. fw k n = n" "0 \<notin> set name" "length name < 251" "body \<noteq> []" "length body + 256 < 2 ^ 32"
  shows "app_header_info_ok (Some (own_header @ body)) = Some 0
    \<and> app_del_extern_buff fw True name (Some (own_header @ body)) = Some (0, Some (name @ chars ''_temp'', body))"
proof
  have len: "length own_header = 256" by (simp add: own_header_def first_header)
  have "\<not> get_file_size (own_header @ body) \<le> 256"
    using assms(4,5) len unat_of_nat [of "length (own_header @ body)", where 'a = 32]
    by (cases body) (simp_all add: get_file_size_def word_le_nat_alt)
  moreover have "take 32 own_header = FIRST_UPDATE_HEADER" by (simp add: own_header_def first_header)
  moreover have "take SIZEOF_HEADER (drop 32 own_header) = header_bytes (make_header UPDATE_PRODUCT_ID)"
    by (simp add: own_header_def first_header SIZEOF_HEADER_def)
  moreover have "0 \<in> set (snprintf16 UPDATE_PRODUCT_ID)" by (simp add: snprintf16_def)
  ultimately show "app_header_info_ok (Some (own_header @ body)) = Some 0"
    using len strcmp_eq_refl [of "snprintf16 UPDATE_PRODUCT_ID"]
    by (simp add: app_header_info_ok_def init_header app_compare_header_info_def header_product Let_def)
  show "app_del_extern_buff fw True name (Some (own_header @ body)) = Some (0, Some (name @ chars ''_temp'', body))"
    using del_extern_all [OF assms(1-3), of "own_header @ body"] assms(5) len by simp
qed

lemma no_header: "take 32 (take 256 fs) \<noteq> FIRST_UPDATE_HEADER \<Longrightarrow> app_header_info_ok (Some fs) = Some 2"
  by (simp add: app_header_info_ok_def Let_def)

lemma cstr_prefix: "0 \<notin> set s \<Longrightarrow> cstr (s @ 0 # xs) = Some s"
  by (auto simp: cstr_def takeWhile_tail intro: takeWhile_eq_all_conv [THEN iffD2])

text \<open>The name of the new file: the last four characters of the old one are replaced.\<close>

lemma new_name:
  assumes "0 \<notin> set s" "length s + 4 < 128" "length ext = 4"
  shows "\<exists>p q f. memcpy (replicate 128 0) 0 (s @ ext) 0 (int (length (s @ ext)) - 4) = Some p
    \<and> memcpy p (int (length (s @ ext)) - 4) (chars ''.bin'') 0 4 = Some q \<and> cstr q = Some (s @ chars ''.bin'')
    \<and> strcpy_to (replicate 256 0) (FIRST_HEAD @ chars ''.'' @ s @ chars ''.bin'') = Some f
    \<and> cstr f = Some (FIRST_HEAD @ chars ''.'' @ s @ chars ''.bin'')"
proof -
  let ?p = "s @ replicate (128 - length s) 0" and ?q = "s @ chars ''.bin'' @ replicate (124 - length s) 0"
  have e: "int (length (s @ ext)) - 4 = int (length s)" using assms(3) by simp
  have b: "length (chars ''.bin'') = 4" "0 \<notin> set (chars ''.bin'')" "0 \<notin> set FIRST_HEAD" "0 \<notin> set (chars ''.'')"
    "length FIRST_HEAD = 14" "length (chars ''.'') = 1"
    by (simp_all add: chars_def of_char_def FIRST_HEAD_def)
  have "memcpy (replicate 128 0) (int 0) (s @ ext) (int 0) (int (length s)) = Some ?p"
    using assms(2) by (subst memcpy_nat) simp_all
  moreover have "memcpy ?p (int (length s)) (chars ''.bin'') (int 0) (int 4) = Some ?q"
    using assms(2) b(1) by (subst memcpy_nat) simp_all
  moreover have "replicate (124 - length s) (0 :: byte) = 0 # replicate (123 - length s) 0"
    using assms(2) by (cases "124 - length s") (simp_all add: Suc_diff_le)
  then have "cstr ?q = Some (s @ chars ''.bin'')" using cstr_prefix [of "s @ chars ''.bin''"] assms(1) b(2) by simp
  moreover obtain f where "strcpy_to (replicate 256 0) (FIRST_HEAD @ chars ''.'' @ s @ chars ''.bin'') = Some f"
    "cstr f = Some (FIRST_HEAD @ chars ''.'' @ s @ chars ''.bin'')"
    using strcpy_to_cstr [of "FIRST_HEAD @ chars ''.'' @ s @ chars ''.bin''" "replicate 256 0"] assms b by auto
  ultimately show ?thesis unfolding e by auto
qed

text \<open>
  The file made by adding a header is not recognised: whatever the board, the eight bytes written first hide
  the header, so the check answers 2 (no header), and for every board but one removing the header as the code
  does it leaves eight zero bytes of it in front of the content.
\<close>
theorem added_header_unrecognised:
  assumes "\<forall>k n. fw k n = n" "0 \<notin> set s" "length s + 4 < 128" "length ext = 4"
    "length body + 264 < 2 ^ 32" "board \<noteq> chars ''ENC1100''" "0 \<notin> set name" "length name < 251"
  shows "\<exists>f new. app_add_extern_buff fw True board (s @ ext) (Some body) = Some (0, Some (f, new))
    \<and> f = FIRST_HEAD @ chars ''.'' @ s @ chars ''.bin''
    \<and> app_header_info_ok (Some new) = Some 2
    \<and> app_del_extern_buff fw True name (Some new) = Some (0, Some (name @ chars ''_temp'', replicate 8 0 @ body))"
proof -
  let ?x = "FIRST_UPDATE_HEADER @ header_bytes (make_header (board_product board)) @ replicate 108 0"
  let ?new = "g_enc1200_first_head @ ?x @ body"
  have x: "app_add_header_info board (replicate 256 0) = Some ?x"
    using fill_extern_buff [of "replicate 256 0" "make_header (board_product board)"]
    by (simp add: app_add_header_info_def)
  have h: "take 8 g_enc1200_first_head = g_enc1200_first_head" "take 256 ?x = ?x" "length ?x \<le> 256"
    "length (g_enc1200_first_head @ ?x @ body) = 264 + length body"
    by (simp_all add: g_enc1200_first_head_def first_header)
  obtain p q f where n: "memcpy (replicate 128 0) 0 (s @ ext) 0 (int (length (s @ ext)) - 4) = Some p"
    "memcpy p (int (length (s @ ext)) - 4) (chars ''.bin'') 0 4 = Some q" "cstr q = Some (s @ chars ''.bin'')"
    "strcpy_to (replicate 256 0) (FIRST_HEAD @ chars ''.'' @ s @ chars ''.bin'') = Some f"
    "cstr f = Some (FIRST_HEAD @ chars ''.'' @ s @ chars ''.bin'')"
    using new_name [OF assms(2-4)] by blast
  have "app_add_extern_buff fw True board (s @ ext) (Some body) =
      Some (0, Some (FIRST_HEAD @ chars ''.'' @ s @ chars ''.bin'', ?new))"
    unfolding app_add_extern_buff_def x Let_def using n assms(1,6) by (simp add: copy_file_all h(1-3) del: length_append take_append)
  moreover have "hd (take 32 (take 256 ?new)) = 0x7E" by (simp add: g_enc1200_first_head_def)
  then have "hd (take 32 (take 256 ?new)) \<noteq> hd FIRST_UPDATE_HEADER" by (simp add: first_header del: take_append take_take)
  then have "take 32 (take 256 ?new) \<noteq> FIRST_UPDATE_HEADER" by metis
  then have "app_header_info_ok (Some ?new) = Some 2" by (rule no_header)
  moreover have "drop 256 ?new = replicate 8 0 @ body"
    by (simp add: g_enc1200_first_head_def first_header)
  then have "app_del_extern_buff fw True name (Some ?new) = Some (0, Some (name @ chars ''_temp'', replicate 8 0 @ body))"
    using del_extern_all [OF assms(1,7,8), of ?new] assms(5) h by simp
  ultimately show ?thesis by blast
qed

lemma flash_loop_all:
  "\<forall>k n. w k n = n \<Longrightarrow> flash_loop w k fs flash = flash @ fs @ drop (256 * (length fs div 256)) fs"
proof (induction "length fs" arbitrary: k fs flash rule: less_induct)
  case less
  consider "fs = []" | "fs \<noteq> []" "length fs < 256" | "256 \<le> length fs" by fastforce
  then show ?case
  proof cases
    case 1
    then show ?thesis by (subst flash_loop.simps) simp
  next
    case 2
    then show ?thesis using less.prems by (subst flash_loop.simps) (simp add: Let_def PER_READ_LEN_def)
  next
    case 3
    then have "length fs div 256 = Suc ((length fs - 256) div 256)" by (simp add: le_div_geq)
    then have d: "drop (256 * (length (drop 256 fs) div 256)) (drop 256 fs) = drop (256 * (length fs div 256)) fs"
      by (simp add: add.commute)
    have "fs \<noteq> []" using 3 by auto
    then have "flash_loop w k fs flash = flash_loop w (k + 1) (drop 256 fs) (flash @ take 256 fs)"
      using 3 less.prems by (subst flash_loop.simps) (simp add: Let_def PER_READ_LEN_def)
    also have "\<dots> = (flash @ take 256 fs) @ drop 256 fs @ drop (256 * (length (drop 256 fs) div 256)) (drop 256 fs)"
      using less.hyps [of "drop 256 fs"] less.prems 3 by simp
    finally show ?thesis unfolding d by simp
  qed
qed

lemma wait_done_step:
  "wait_done io ret t = (if ret \<noteq> 0 then Some t
     else wait_done io (fst (get_gpio_bit io FPGA_DONE t)) (t @ [GetBit FPGA_DONE]))"
  by (subst wait_done.simps) (simp add: get_gpio_bit_def Let_def)

text \<open>What the \<open>k\<close>-th request delivers when it reads the pin.\<close>

definition poll :: "ioctl \<Rightarrow> nat \<Rightarrow> int" where
  "poll io k = (if fst (io k) < 0 \<or> snd (io k) < 0 then - 1 else snd (io k))"

lemma get_poll: "get_gpio_bit io b t = (poll io (length t), t @ [GetBit b])"
  by (simp add: get_gpio_bit_def poll_def Let_def)

lemma poll_get: "fst (get_gpio_bit io b t) = poll io (length t)"
  by (simp add: get_gpio_bit_def poll_def Let_def)

lemma wait_done_returns:
  "poll io (length t + n) \<noteq> 0 \<Longrightarrow> \<exists>t'. wait_done io 0 t = Some t'"
proof (induction n arbitrary: t)
  case 0
  then show ?case using wait_done_step [of io 0 t] wait_done_step [of io "poll io (length t)"] by (simp add: poll_get)
next
  case (Suc n)
  show ?case
  proof (cases "poll io (length t) = 0")
    case True
    then show ?thesis using Suc.IH [of "t @ [GetBit FPGA_DONE]"] Suc.prems wait_done_step [of io 0 t] by (simp add: poll_get)
  next
    case False
    then show ?thesis using wait_done_step [of io 0 t] wait_done_step [of io "poll io (length t)"] by (simp add: poll_get)
  qed
qed

lemma wait_done_exit: "wait_done io ret t = Some t' \<Longrightarrow> ret \<noteq> 0 \<or> (\<exists>n. poll io (length t + n) \<noteq> 0)"
proof (rule wait_done.raw_induct [where P = "\<lambda>io ret t t'. ret \<noteq> 0 \<or> (\<exists>n. poll io (length t + n) \<noteq> 0)"])
  fix wd io ret t y
  assume IH: "\<And>io ret t y. wd io ret t = Some y \<Longrightarrow> ret \<noteq> 0 \<or> (\<exists>n. poll io (length t + n) \<noteq> 0)"
    and run: "(if ret = 0 then case get_gpio_bit io FPGA_DONE t of (ret, t) \<Rightarrow> wd io ret t else Some t) = Some y"
  show "ret \<noteq> 0 \<or> (\<exists>n. poll io (length t + n) \<noteq> 0)"
  proof (cases "ret = 0")
    case True
    then have "wd io (poll io (length t)) (t @ [GetBit FPGA_DONE]) = Some y"
      using run poll_get [of io FPGA_DONE t] by (simp add: get_gpio_bit_def Let_def)
    from IH [OF this] show ?thesis
    proof
      assume "poll io (length t) \<noteq> 0"
      then show ?thesis by (intro disjI2 exI [of _ 0]) simp
    next
      assume "\<exists>n. poll io (length (t @ [GetBit FPGA_DONE]) + n) \<noteq> 0"
      then obtain n where "poll io (length t + Suc n) \<noteq> 0" by auto
      then show ?thesis by blast
    qed
  qed simp
qed

text \<open>
  Programming the flash ends exactly when some reading of the pin \<^verbatim>\<open>FPGA_DONE\<close> is not 0 (a failed request
  reads as \<open>-1\<close>): there is no limit on the wait.  The pin is read from the third request on.
\<close>
theorem fpga_update_returns:
  "updateFpgaProgram io w spifd fpgafd \<noteq> None \<longleftrightarrow> (\<exists>n. poll io (n + 2) \<noteq> 0)"
proof -
  let ?t = "[ClearBit FLASH_ENABLE, SetBit FLASH_ENABLE]"
  have "updateFpgaProgram io w spifd fpgafd \<noteq> None \<longleftrightarrow> wait_done io (poll io 2) (?t @ [GetBit FPGA_DONE]) \<noteq> None"
    by (simp add: updateFpgaProgram_def clear_gpio_bit_def set_gpio_bit_def get_poll Let_def numeral_2_eq_2 split: bind_split)
  also have "\<dots> \<longleftrightarrow> (\<exists>n. poll io (n + 2) \<noteq> 0)"
  proof
    assume "wait_done io (poll io 2) (?t @ [GetBit FPGA_DONE]) \<noteq> None"
    then obtain t' where "wait_done io (poll io 2) (?t @ [GetBit FPGA_DONE]) = Some t'" by blast
    from wait_done_exit [OF this] show "\<exists>n. poll io (n + 2) \<noteq> 0"
    proof
      assume "poll io 2 \<noteq> 0"
      then show ?thesis by (intro exI [of _ 0]) (simp add: numeral_2_eq_2)
    next
      assume "\<exists>n. poll io (length (?t @ [GetBit FPGA_DONE]) + n) \<noteq> 0"
      then obtain n where "poll io (Suc n + 2) \<noteq> 0" by (auto simp: numeral_eq_Suc)
      then show ?thesis by blast
    qed
  next
    assume "\<exists>n. poll io (n + 2) \<noteq> 0"
    then obtain n where n: "poll io (n + 2) \<noteq> 0" by blast
    show "wait_done io (poll io 2) (?t @ [GetBit FPGA_DONE]) \<noteq> None"
    proof (cases "poll io 2 = 0")
      case True
      then have "n \<noteq> 0" using n by (cases n) (simp_all add: numeral_2_eq_2)
      then obtain m where "n = Suc m" by (cases n) auto
      then have "poll io (length (?t @ [GetBit FPGA_DONE]) + m) \<noteq> 0" using n by (simp add: numeral_eq_Suc)
      from wait_done_returns [OF this] True show ?thesis by auto
    next
      case False
      then show ?thesis using wait_done_step by simp
    qed
  qed
  finally show ?thesis .
qed

text \<open>
  When every write is taken the flash holds the file followed by a second copy of its bytes behind the last
  whole piece of 256: the last, short piece is written twice.
\<close>
theorem fpga_tail_written_twice:
  assumes "\<forall>k n. w k n = n" "0 \<le> spifd" "updateFpgaProgram io w spifd (Some fs) = Some (ret, t, flash)"
  shows "flash = fs @ drop (256 * (length fs div 256)) fs"
  using assms flash_loop_all [OF assms(1), of 0 fs "[]"]
  by (auto simp: updateFpgaProgram_def Let_def split: prod.splits bind_splits)

lemma own_header_removed_witness:
  "app_header_info_ok (Some (own_header @ [1, 2, 3])) = Some 0
    \<and> app_del_extern_buff (\<lambda>k n. n) True (chars ''app.tgz'') (Some (own_header @ [1, 2, 3]))
      = Some (0, Some (chars ''app.tgz'' @ chars ''_temp'', [1, 2, 3]))"
  by (rule own_header_removed) (simp_all add: chars_def of_char_def)

lemma added_header_unrecognised_witness:
  "\<exists>f new. app_add_extern_buff (\<lambda>k n. n) True (chars ''ENC2000'') (chars ''app'' @ chars ''.tgz'') (Some [1, 2, 3]) = Some (0, Some (f, new))
    \<and> f = FIRST_HEAD @ chars ''.'' @ chars ''app'' @ chars ''.bin''
    \<and> app_header_info_ok (Some new) = Some 2
    \<and> app_del_extern_buff (\<lambda>k n. n) True (chars ''x'') (Some new) = Some (0, Some (chars ''x'' @ chars ''_temp'', replicate 8 0 @ [1, 2, 3]))"
  by (rule added_header_unrecognised) (simp_all add: chars_def of_char_def)

lemma fpga_tail_written_twice_witness:
  "\<exists>ret t flash. updateFpgaProgram (\<lambda>k. (0, 1)) (\<lambda>k n. n) 5 (Some [7, 8]) = Some (ret, t, flash)
    \<and> flash = [7, 8] @ [7, 8]"
proof -
  have "updateFpgaProgram (\<lambda>k. (0, 1)) (\<lambda>k n. n) 5 (Some [7, 8]) \<noteq> None"
    using wait_done_returns [of "\<lambda>k. (0, 1)" "[ClearBit FLASH_ENABLE, SetBit FLASH_ENABLE]" 0]
    by (simp add: updateFpgaProgram_def clear_gpio_bit_def set_gpio_bit_def get_poll Let_def poll_def wait_done_step [of _ 1] split: bind_split)
  then obtain ret t flash where "updateFpgaProgram (\<lambda>k. (0, 1)) (\<lambda>k n. n) 5 (Some [7, 8]) = Some (ret, t, flash)"
    by (cases "updateFpgaProgram (\<lambda>k. (0, 1)) (\<lambda>k n. n) 5 (Some [7, 8])") auto
  with fpga_tail_written_twice [OF _ _ this] show ?thesis by simp
qed

end
