(* ===== verification/MediaMsg.thy ===== *)
theory MediaMsg
  imports Prelude "HOL-Library.Monad_Syntax"
begin

section \<open>Module messages and logins (src/reach\_edukit/src/msg/media\_msg.c)\<close>

text \<open>
  The heads of the messages between modules, as bytes in memory (\<^verbatim>\<open>htons\<close> stores the high byte first, a plain
  assignment the low byte first), and the checks of user names and connection passwords.  A password is the
  content of the array the caller passes, a string and what lies behind its terminator.
\<close>

subsection \<open>Message heads\<close>

record msg_header_t =
  m_len :: "byte list"
  m_ver :: "byte list"
  m_msg_type :: "byte list"
  m_data :: "byte list"

definition htons :: "u16 \<Rightarrow> byte list" where "htons w = [ucast (drop_bit 8 w), ucast w]"
definition host16 :: "u16 \<Rightarrow> byte list" where "host16 w = [ucast w, ucast (drop_bit 8 w)]"
definition ntohs :: "byte list \<Rightarrow> u16" where "ntohs b = push_bit 8 (ucast (b ! 0)) OR ucast (b ! 1)"

definition head_bytes :: "msg_header_t \<Rightarrow> byte list" where
  "head_bytes h = m_len h @ m_ver h @ m_msg_type h @ m_data h"

definition MSG_HEAD_LEN :: u16 where "MSG_HEAD_LEN = 8"
definition MSG_VER :: u16 where "MSG_VER = 1"

definition zero_head :: msg_header_t where
  "zero_head = \<lparr>m_len = [0, 0], m_ver = [0, 0], m_msg_type = [0, 0], m_data = [0, 0]\<rparr>"

text \<open>The head is written at the start of the buffer.\<close>

definition store_head :: "byte list \<Rightarrow> msg_header_t \<Rightarrow> byte list option" where
  "store_head data h = memcpy data 0 (head_bytes h) 0 8"

definition pack_header_msg :: "byte list \<Rightarrow> byte \<Rightarrow> u16 \<Rightarrow> u16 \<Rightarrow> byte list option" where
  "pack_header_msg data type len m_persist_data = store_head data
     (zero_head\<lparr>m_data := host16 m_persist_data, m_len := htons len, m_ver := host16 MSG_VER,
        m_msg_type := host16 (ucast type)\<rparr>)"

definition pack_header_msg_xml :: "byte list \<Rightarrow> u16 \<Rightarrow> u16 \<Rightarrow> byte list option" where
  "pack_header_msg_xml data len ver = store_head data
     (zero_head\<lparr>m_len := htons (len + MSG_HEAD_LEN), m_ver := htons ver\<rparr>)"

definition pack_header_data :: "byte list \<Rightarrow> byte \<Rightarrow> u16 \<Rightarrow> byte list option" where
  "pack_header_data data type len = store_head data (zero_head\<lparr>m_len := htons len, m_msg_type := host16 (ucast type)\<rparr>)"

subsection \<open>Logins\<close>

datatype USER_FLAG = USER_FLAG_PLAYER | USER_FLAG_UNITE | USER_FLAG_MANAGER | USER_FLAG_LCD | USER_FLAG_WEB
  | USER_FLAG_OTHER | USER_FLAG_DEC

record net_user_info_t =
  uname :: "byte list"
  upasswd :: "byte list"
  uflag :: USER_FLAG

definition USER_NAME :: "byte list" where "USER_NAME = chars ''reach''"
definition USER_PASSWD :: "byte list" where "USER_PASSWD = chars ''reachplayer''"
definition UNITE_PASSWD :: "byte list" where "UNITE_PASSWD = chars ''reachserver''"
definition LIVE_CONNECT_KEY_1 :: "byte list" where "LIVE_CONNECT_KEY_1 = chars ''Manager2006''"
definition LIVE_CONNECT_KEY_2 :: "byte list" where "LIVE_CONNECT_KEY_2 = chars ''Test2006''"
definition VOD_CONNECT_KEY_1 :: "byte list" where "VOD_CONNECT_KEY_1 = chars ''RecVod2006''"
definition VOD_CONNECT_KEY_2 :: "byte list" where "VOD_CONNECT_KEY_2 = chars ''123''"

definition USER_LOGIN_VALID :: int where "USER_LOGIN_VALID = 1"
definition USER_LOGIN_INVALID :: int where "USER_LOGIN_INVALID = 0"

definition pack_unite_user_info :: "net_user_info_t \<Rightarrow> net_user_info_t option" where
  "pack_unite_user_info nu = do {
     n \<leftarrow> strcpy_to (uname nu) USER_NAME;
     p \<leftarrow> strcpy_to (upasswd nu) UNITE_PASSWD;
     Some (nu\<lparr>uflag := USER_FLAG_UNITE, uname := n, upasswd := p\<rparr>)
   }"

definition check_net_user_beyonsys :: "net_user_info_t \<Rightarrow> int option" where
  "check_net_user_beyonsys nu =
     (if uflag nu = USER_FLAG_PLAYER then do {
        n \<leftarrow> strcmp_eq (uname nu) (USER_NAME @ [0]);
        if n then do {
          p \<leftarrow> strcmp_eq (upasswd nu) (USER_PASSWD @ [0]);
          Some (if p then USER_LOGIN_VALID else USER_LOGIN_INVALID)
        } else Some USER_LOGIN_INVALID
      } else Some USER_LOGIN_INVALID)"

text \<open>\<^verbatim>\<open>strncmp\<close> as a test of equality of at most \<open>n\<close> characters.\<close>

fun strncmp_eq :: "byte list \<Rightarrow> byte list \<Rightarrow> nat \<Rightarrow> bool option" where
  "strncmp_eq s t 0 = Some True"
| "strncmp_eq (x # xs) (y # ys) (Suc n) =
     (if x \<noteq> y then Some False else if x = 0 then Some True else strncmp_eq xs ys n)"
| "strncmp_eq _ _ (Suc n) = None"

text \<open>A password is compared up to the length the caller passes; a null pointer is \<^const>\<open>None\<close>.\<close>

definition check_keys :: "byte list \<Rightarrow> byte list \<Rightarrow> byte list option \<Rightarrow> u32 \<Rightarrow> int option" where
  "check_keys key1 key2 password password_len = (case password of
     None \<Rightarrow> Some USER_LOGIN_INVALID
   | Some p \<Rightarrow> do {
       a \<leftarrow> strncmp_eq (key1 @ [0]) p (unat password_len);
       if a then Some USER_LOGIN_VALID
       else do {
         b \<leftarrow> strncmp_eq (key2 @ [0]) p (unat password_len);
         Some (if b then USER_LOGIN_VALID else USER_LOGIN_INVALID)
       }
     })"

definition check_net_user_powerlive :: "byte list option \<Rightarrow> u32 \<Rightarrow> int option" where
  "check_net_user_powerlive = check_keys LIVE_CONNECT_KEY_1 LIVE_CONNECT_KEY_2"

definition check_vod_user_powerlive :: "byte list option \<Rightarrow> u32 \<Rightarrow> int option" where
  "check_vod_user_powerlive = check_keys VOD_CONNECT_KEY_1 VOD_CONNECT_KEY_2"

subsection \<open>Properties\<close>

lemma length_host16 [simp]: "length (htons w) = 2" "length (host16 w) = 2"
  by (simp_all add: htons_def host16_def)

lemma ntohs_htons: "ntohs (htons w) = w"
  unfolding ntohs_def htons_def
  by (rule bit_word_eqI) (auto simp: bit_or_iff bit_push_bit_iff bit_ucast_iff bit_drop_bit_eq)

lemma store_head_8: "8 \<le> length data \<Longrightarrow> length (head_bytes h) = 8 \<Longrightarrow> store_head data h = Some (head_bytes h @ drop 8 data)"
  using memcpy_nat [of 0 8 data 0 "head_bytes h"] by (simp add: store_head_def)

lemma strncmp_eq_take:
  "0 \<notin> set s \<Longrightarrow> 0 \<notin> set t \<Longrightarrow> strncmp_eq (s @ [0]) (t @ 0 # x) n = Some (take n (s @ [0]) = take n (t @ [0]))"
proof (induction s arbitrary: t n)
  case Nil
  then show ?case by (cases n; cases t) auto
next
  case (Cons a s)
  show ?case
  proof (cases n)
    case (Suc m)
    then show ?thesis using Cons by (cases t) auto
  qed simp
qed

lemma keys_no_zero [simp]:
  "0 \<notin> set LIVE_CONNECT_KEY_1" "0 \<notin> set LIVE_CONNECT_KEY_2" "0 \<notin> set VOD_CONNECT_KEY_1" "0 \<notin> set VOD_CONNECT_KEY_2"
  by (simp_all add: LIVE_CONNECT_KEY_1_def LIVE_CONNECT_KEY_2_def VOD_CONNECT_KEY_1_def VOD_CONNECT_KEY_2_def chars_def of_char_def)

lemma check_keys_take:
  assumes "0 \<notin> set k1" "0 \<notin> set k2" "0 \<notin> set pw"
  shows "check_keys k1 k2 (Some (pw @ 0 # x)) n = Some
    (if \<exists>k \<in> {k1, k2}. take (unat n) (k @ [0]) = take (unat n) (pw @ [0]) then USER_LOGIN_VALID else USER_LOGIN_INVALID)"
  using assms by (simp add: check_keys_def strncmp_eq_take)

text \<open>
  The length of the password is the caller's word: with a length beyond the password only the keys are
  accepted, with a shorter one everything that agrees with a key up to there, and with length 0 every password.
  This holds for the live and for the on-demand login.
\<close>
theorem login_trusts_length:
  assumes "0 \<notin> set pw"
  shows "check_net_user_powerlive (Some (pw @ 0 # x)) n = Some
      (if \<exists>k \<in> {LIVE_CONNECT_KEY_1, LIVE_CONNECT_KEY_2}. take (unat n) (k @ [0]) = take (unat n) (pw @ [0])
       then USER_LOGIN_VALID else USER_LOGIN_INVALID)
    \<and> check_vod_user_powerlive (Some (pw @ 0 # x)) n = Some
      (if \<exists>k \<in> {VOD_CONNECT_KEY_1, VOD_CONNECT_KEY_2}. take (unat n) (k @ [0]) = take (unat n) (pw @ [0])
       then USER_LOGIN_VALID else USER_LOGIN_INVALID)
    \<and> check_net_user_powerlive (Some (pw @ 0 # x)) 0 = Some USER_LOGIN_VALID
    \<and> check_vod_user_powerlive (Some (pw @ 0 # x)) 0 = Some USER_LOGIN_VALID"
  using assms by (auto simp: check_net_user_powerlive_def check_vod_user_powerlive_def check_keys_take)

lemma login_trusts_length_witness:
  "check_net_user_powerlive (Some (chars ''M'' @ 0 # [])) 1 = Some USER_LOGIN_VALID"
proof -
  have "0 \<notin> set (chars ''M'')" by (simp add: chars_def of_char_def)
  from login_trusts_length [OF this, of "[]" 1] show ?thesis
    by (simp add: chars_def of_char_def LIVE_CONNECT_KEY_1_def)
qed

text \<open>The head of an XML message: the receiver reads the length of head and text, unless it exceeds 16 bits.\<close>

lemma xml_head_length:
  assumes "8 \<le> length data"
  shows "\<exists>out. pack_header_msg_xml data len ver = Some out \<and> ntohs (take 2 out) = len + 8
    \<and> ntohs (take 2 (drop 2 out)) = ver \<and> drop 8 out = drop 8 data"
  using assms ntohs_htons [of "len + MSG_HEAD_LEN"] ntohs_htons [of ver]
  by (simp add: pack_header_msg_xml_def store_head_8 head_bytes_def zero_head_def MSG_HEAD_LEN_def)

lemma unite_login_refused:
  assumes "pack_unite_user_info nu = Some nu'"
  shows "check_net_user_beyonsys nu' = Some USER_LOGIN_INVALID"
  using assms by (auto simp: pack_unite_user_info_def check_net_user_beyonsys_def split: bind_splits)

end
