(* ===== verification/Spec2Isabelle.thy ===== *)
theory Spec2Isabelle
  imports RtspServer LiveBlocks MidTimer RtspSession RtspSdp StreamClient MultServer RtspAuth RingBuffer TimeoutQueue AudioStream RecvClock TcpFrames Delivery Md5 Ini ReachList Update MediaMsg
begin

text \<open>
  A verification library for the classroom recording and streaming system under
  \<^verbatim>\<open>src/reach_edukit/src\<close>.  All paths below are relative to that directory.

  \<^bold>\<open>The program.\<close>  An encoder captures pictures and sound and publishes them as UDP packets
  (\<^verbatim>\<open>reach_share/reach_udp_snd.c\<close> on top of \<^verbatim>\<open>reach_share/reach_rtp_build.c\<close>).  A room program runs one
  receiving thread per stream (\<^verbatim>\<open>reach_share/reach_udp_recv.c\<close>), which rebuilds the frames and hands
  them to a user function; recording, live streaming and an RTSP server consume them.  A control program
  (\<^verbatim>\<open>control/\<close>) forwards requests to classrooms and waits for their responses in a table
  (\<^verbatim>\<open>control/timeout_process.c\<close>).  Inside the encoder, producers and network senders are decoupled by a
  byte ring (\<^verbatim>\<open>enc/middle/mid_ringbuff.c\<close>).

  \<^bold>\<open>The theories.\<close>
  \<^item> \<^theory_text>\<open>Prelude\<close>: machine words, C buffers (\<open>memcpy\<close>, \<open>peek\<close>, \<open>poke\<close>, C strings) and the generic list
    and word lemmas.  Undefined behaviour of C is the value \<^const>\<open>None\<close>.
  \<^item> \<^theory_text>\<open>RingBuffer\<close>: the ring as the record \<^typ>\<open>ReachRingBuffer\<close> and its operations.  The locale
    \<open>byte_fifo\<close> states the contract of a bounded queue of bytes and proves once that runs of pushes and gets
    lose nothing; the code's operations interpret it.
  \<^item> \<^theory_text>\<open>TimeoutQueue\<close>: the request and upload tables.  The locale \<open>slot_table\<close> is the contract of a fixed
    table with a flag per slot and a counter; three interpretations cover the two ways to add a request and
    the upload table.  Table-wide invariants hold over every sequence of calls.
  \<^item> \<^theory_text>\<open>RtpPacket\<close>: the bytes of the packet headers and the round trips of every field.
  \<^item> \<^theory_text>\<open>RtpBuild\<close>: the sender of \<^verbatim>\<open>reach_rtp_build.c\<close> with \<^verbatim>\<open>sendto\<close> as a parameter.  For a network that
    takes every datagram (\<open>lossless\<close>) the loops are shown to terminate with exactly the packets of
    \<open>jpeg_packets\<close> and \<open>frame_packets\<close>.
  \<^item> \<^theory_text>\<open>UdpSend\<close>: the sending module, its stream clock and the frame head.
  \<^item> \<^theory_text>\<open>UdpRecv\<close>: the receiving module.  One iteration of the thread is \<open>recv_step\<close> on an event (a packet
    with the local time and the allocator's answers, a timeout, a call of a control function); a run is
    \<open>udp_recv_deal\<close>.  The locale \<open>frame_assembler\<close> is the contract of frame assembly, interpreted for video and
    audio.  The theory proves memory safety of all runs within stated packet limits and that the limits are
    needed.
  \<^item> \<^theory_text>\<open>Stream\<close>: what the receiver unpacks from each packet of the sender.
  \<^item> \<^theory_text>\<open>AudioStream\<close>: the same for sound: one AAC frame in one packet, and the ADTS header the receiver builds.
  \<^item> \<^theory_text>\<open>RecvClock\<close>: the clocks of the receiver, refined to a reference clock.
  \<^item> \<^theory_text>\<open>Room\<close>: the room program's stream handles, settings, sound lists and connections
    (\<^verbatim>\<open>room/receive/receive_module.c\<close>).
  \<^item> \<^theory_text>\<open>MediaFrame\<close>: what the room does with a frame (\<^verbatim>\<open>room/receive/media_frame.c\<close>): clocks, assembly of
    frames from TCP packets, messages to the recorder, the movie recorder and the live module.
  \<^item> \<^theory_text>\<open>FanOut\<close>: who gets a picture or sound, memory safety and the accounting of message blocks, which have
    addresses: \<open>grown\<close> says which blocks a step adds and who owns them.  The locale
    \<open>picture_sender\<close> is the contract of a consumer of pictures, \<open>sound_loop\<close> that of a loop over the streams
    that want sound; each has three interpretations.
  \<^item> \<^theory_text>\<open>TcpFrames\<close>: frames cut into TCP packets are put together again.
  \<^item> \<^theory_text>\<open>Delivery\<close>: the receiving thread and the room composed.
  \<^item> \<^theory_text>\<open>Md5\<close>: the digests of \<^verbatim>\<open>md5/md5lib.c\<close> against the one-shot description and RFC 2104; the abstraction
    \<open>absorbed\<close> says which message a context stands for.
  \<^item> \<^theory_text>\<open>Ini\<close>: the configuration files of \<^verbatim>\<open>enc/middle/rwini.c\<close>, refined to lists of items; the locale
    \<open>config_store\<close> is what a client of such a file relies on.
  \<^item> \<^theory_text>\<open>ReachList\<close>: the linked lists of \<^verbatim>\<open>reach_share/reach_list.c\<close> on a heap of nodes.
  \<^item> \<^theory_text>\<open>Update\<close>: the header of update files and the programming of the FPGA flash
    (\<^verbatim>\<open>control/web/app_update_header.c\<close>, \<^verbatim>\<open>control/web/app_update.c\<close>).
  \<^item> \<^theory_text>\<open>MediaMsg\<close>: message heads and logins (\<^verbatim>\<open>msg/media_msg.c\<close>).
  \<^item> \<^theory_text>\<open>StreamClient\<close>: the table of network receivers of the encoder (\<^verbatim>\<open>enc/stream_output/stream_output_client.c\<close>) and
    the sending to them (\<^verbatim>\<open>enc/modules/porting/multicast_porting.c\<close>).  The locale \<open>receiver_pool\<close> is the contract of a pool of
    receivers.
  \<^item> \<^theory_text>\<open>MultServer\<close>: the list of multicast servers (\<^verbatim>\<open>enc/stream_output/multicast_output_server.c\<close>), which take receivers.
  \<^item> \<^theory_text>\<open>RtspParse\<close>: requests to the RTSP server and its replies (\<^verbatim>\<open>room/rtsp/rtsp_server.c\<close>).
  \<^item> \<^theory_text>\<open>RtspAuth\<close>: its digest authentication, over the MD5 of \<^verbatim>\<open>room/rtsp/our_md5.c\<close>.
  \<^item> \<^theory_text>\<open>RtspSdp\<close>: the descriptions of the channels (\<^verbatim>\<open>enc/modules/porting/rtsp_porting_sdp_info.c\<close>); the base64 routine is a
    parameter.
  \<^item> \<^theory_text>\<open>RtspSession\<close>: the sessions, their receivers and the settings of the server
    (\<^verbatim>\<open>room/rtsp/rtsp_server.c\<close>, \<^verbatim>\<open>enc/stream_output/rtsp_output_server.c\<close>).  The invariant \<open>session_inv\<close> ties the counts in
    the receivers to the sessions over any sequence of requests.
  \<^item> \<^theory_text>\<open>RtspServer\<close>: the thread of a session (\<^verbatim>\<open>RtspVlcContact\<close> of \<^verbatim>\<open>room/rtsp/rtsp_server.c\<close>) and the replies to
    \<^verbatim>\<open>DESCRIBE\<close>, over events of the connection.  \<open>keeps_server\<close> is what every pass keeps of the server.
  \<^item> \<^theory_text>\<open>MidTimer\<close>: the timers of the encoder (\<^verbatim>\<open>enc/middle/mid_timer.c\<close>).  \<open>sched_step\<close> is the abstract machine, a map
    from functions to the time of their next call.
  \<^item> \<^theory_text>\<open>LiveRtp\<close>: the packetiser of the live module (\<^verbatim>\<open>room/lives/rtp_build.c\<close>) over an abstract sender.  The locale
    \<open>packet_sender\<close> is the contract of a sender that takes every packet; under it the packets are those of
    \<^theory_text>\<open>RtpBuild\<close>.
  \<^item> \<^theory_text>\<open>Lives\<close>: the live module (\<^verbatim>\<open>room/lives/lives.c\<close>): viewers, encoders, stream clocks, the cached picture and
    one round of its thread, \<open>lives_round\<close>.  The blocks of messages are a map, so that a second \<^verbatim>\<open>free\<close> is \<^const>\<open>None\<close>.
  \<^item> \<^theory_text>\<open>LiveViewers\<close>: the table of viewers refined to a multiset, \<open>live_spec\<close>.
  \<^item> \<^theory_text>\<open>LiveDelivery\<close>: from the queue of the live module to the receivers of its viewers.
  \<^item> \<^theory_text>\<open>LiveJpeg\<close>: the cached picture and the viewers it is sent to.
  \<^item> \<^theory_text>\<open>LiveBlocks\<close>: who owns the blocks of the live module, over runs of \<open>room_step\<close>.
  \<^item> this theory: the end-to-end theorems, from a call of \<^verbatim>\<open>UdpSend_rtp_data\<close> to the call of the user's
    function.

  \<^bold>\<open>Correspondence.\<close>  A definition has the name of the C function, struct or macro it models; parts of long
  functions (a loop, its body, one branch of a switch) have names of their own and are composed as in the code.
  Locks make a public operation one atomic step, so interleavings of threads are sequences of calls.
  Log output is left out.  Integers are words where their wrap-around matters (sequence numbers, time
  stamps, offsets, counters, slot flags) and unbounded integers for C \<^verbatim>\<open>int\<close> sizes and indices.

  \<^bold>\<open>Termination.\<close>  There is no fuel: the loops of the code are total functions with a proved measure.  The
  receiving thread's own endless loop is a run over a finite list of events.  The few loops that can run for ever
  (a poll of a pin, a walk over a list that may be cyclic, the freeing of the room's pool) are partial functions
  into \<open>option\<close>, for which returning is proved, or shown to depend on what the code waits for.

  \<^bold>\<open>Not modelled.\<close>  The operating system (sockets, threads, memory) is an argument or an event.  Vendored code,
  the web pages, device drivers, XML requests over libxml2 and the recording library are left out.  Of the live
  module the start and end of its threads and the log thread with its counters are left out.
\<close>

section \<open>From an encoder's frame to the receiver's callback\<close>

text \<open>The frame head the sending module fills in.\<close>

lemma h264_frame_head:
  assumes "fi_data_codec fi = RUdpS_H264_CODEC_TYPE"
    and "f = UdpSend_set_hdb_freame_head fh0 fi"
  shows "codec f = 0" "samplerate f < 16" "Iframe f = (if fi_dw_flags fi \<noteq> 0 then 1 else 0)"
    "framelength f = fi_frame_length fi" "width f = ucast (fi_width fi)" "height f = ucast (fi_hight fi)"
  using assms by (simp_all add: UdpSend_set_hdb_freame_head_def Let_def byte_nibble_small)

lemma jpeg_frame_head:
  assumes "fi_data_codec fi = RUdpS_JPEG_CODEC_TYPE"
    and "f = UdpSend_set_hdb_freame_head fh0 fi"
  shows "codec f = 2" "framelength f = fi_frame_length fi" "width f = ucast (fi_width fi)"
    "height f = ucast (fi_hight fi)"
  using assms fourcc_distinct by (simp_all add: UdpSend_set_hdb_freame_head_def Let_def)

lemma frame_small: "length d \<le> UdpRecv_MAX_FRAME_LEN \<Longrightarrow> length d < 2 ^ 31"
  by (simp add: UdpRecv_MAX_FRAME_LEN_def)

text \<open>
  C2: a P frame arrives unchanged.  When every datagram is taken by the network, \<^verbatim>\<open>UdpSend_rtp_data\<close>
  cuts the frame (one NAL unit of any size up to the frame limit) into packets for the configured
  address, and these packets make the receiving thread call the user's function exactly once, with
  the frame's bytes, length and dimensions.
\<close>

theorem h264_p_frame_delivered:
  assumes "lossless so" "rtp_hand p = Some hnd" "src_data (udp_hand p) = Some (d @ rest)"
    and "fi_data_codec fi = RUdpS_H264_CODEC_TYPE" "fi_dw_flags fi = 0"
    and "fi_frame_length fi = of_nat (length d)" "length d \<le> UdpRecv_MAX_FRAME_LEN"
    and "d = start_code @ nal" "plain_unit nal" "nal ! 0 AND 0x80 = 0" "nal ! 0 AND 0x1F \<noteq> 28"
  shows "\<exists>p' net' pk. UdpSend_rtp_data so fh0 p fi net = Some (OPERATION_SUCC, p', net')
    \<and> wire net' = wire net @ map (datagram_of 0 (udp_hand p)) pk
    \<and> delivered_once pk (\<lambda>si. si_type si = UdpRecv_H264_CODEC_TYPE
         \<and> si_width si = uint (ucast (fi_width fi) :: u16)
         \<and> si_height si = uint (ucast (fi_hight fi) :: u16) \<and> IDR_FLAG si = 0) d"
proof -
  let ?f = "UdpSend_set_hdb_freame_head fh0 fi"
  note f = h264_frame_head [OF assms(4) refl, of fh0] and l = frame_small [OF assms(7)]
  have n: "nal \<noteq> []" using assms(9) by (simp add: plain_unit_def)
  let ?h = "video_hdr (stream_time p hnd fi * 90)"
  let ?pk = "nalu_packets ?h ?f nal 1366 (ucast (video_seq_num hnd))"
  have "\<exists>p' net'. UdpSend_rtp_data so fh0 p fi net = Some (OPERATION_SUCC, p', net')
      \<and> wire net' = wire net @ map (datagram_of 0 (udp_hand p)) ?pk"
    using send_h264 [OF assms(1-4,6) l, of "[]" nal fh0 net] assms(8,9) by (simp add: frame_bytes_def)
  moreover have "delivered_once ?pk (\<lambda>si. si_type si = UdpRecv_H264_CODEC_TYPE
      \<and> si_width si = uint (ucast (fi_width fi) :: u16)
      \<and> si_height si = uint (ucast (fi_hight fi) :: u16) \<and> IDR_FLAG si = 0) d"
  proof (rule delivered_onceI [where H = "h264_head ?f (timestamp ?h)"])
    fix s evs assume t: "thread_ok s" "list_all2 packet_event ?pk evs"
    show "\<exists>s' c. udp_recv_deal evs s = Some s' \<and> thread_ok s' \<and> r_calls s' = r_calls s @ [c]
        \<and> announces (h264_head ?f (timestamp ?h)) d c"
      using run_p_frame [OF t(1) f(1,2) _ _ _ n assms(10,11) _ _ t(2)] f(3,4) assms(5-8) unat_small [OF l]
      by auto
  next
    fix c assume "announces (h264_head ?f (timestamp ?h)) d c"
    from announces_h264 [OF this _ l] f assms(5,6)
    show "\<exists>si buf. c = (si, buf, int (length d)) \<and> take (length d) buf = d
        \<and> (si_type si = UdpRecv_H264_CODEC_TYPE \<and> si_width si = uint (ucast (fi_width fi) :: u16)
           \<and> si_height si = uint (ucast (fi_hight fi) :: u16) \<and> IDR_FLAG si = 0)" by auto
  qed
  ultimately show ?thesis by blast
qed

text \<open>A sender and a frame to apply the theorems to.\<close>

definition sample_sender :: "byte list \<Rightarrow> udp_send_module_handle" where
  "sample_sender d = \<lparr>udp_hand = sample_handle\<lparr>src_data := Some (d @ [9, 9])\<rparr>,
                      rtp_hand = Some build_info_zero\<rparr>"

definition sample_frame :: "u32 \<Rightarrow> u32 \<Rightarrow> byte list \<Rightarrow> frame_info_t" where
  "sample_frame c flags d = \<lparr>time_tick = 5, fi_data_codec = c, fi_width = 1920, fi_hight = 1080,
     fi_dw_flags = flags, fi_frame_length = of_nat (length d), fi_frame_rate = 25, is_blue = 0\<rparr>"

definition sample_thread :: recv_thread where
  "sample_thread = recv_thread_entry 4 0 0 (udp_recv_start (the (udp_recv_init True True
     \<lparr>rc_ip = [49, 48], rc_port = 5000, rc_user_data = 0, rc_has_func = True\<rparr>)))"

lemma sample_thread_ok: "thread_ok sample_thread"
  unfolding sample_thread_def
  by (rule thread_ok_fresh [of "\<lparr>rc_ip = [49, 48], rc_port = 5000, rc_user_data = 0, rc_has_func = True\<rparr>"])
     (simp_all add: udp_recv_init_def)

lemma lossless_sample: "lossless (\<lambda>i n. (int n, 0))"
  by (simp add: lossless_def)

lemma sample_fields:
  "rtp_hand (sample_sender d) = Some build_info_zero" "src_data (udp_hand (sample_sender d)) = Some (d @ [9, 9])"
  "fi_data_codec (sample_frame c fl d) = c" "fi_dw_flags (sample_frame c fl d) = fl"
  "fi_frame_length (sample_frame c fl d) = of_nat (length d)"
  by (simp_all add: sample_sender_def sample_frame_def)

lemma sample_width: "fi_width (sample_frame c fl d) = 1920"
  by (simp add: sample_frame_def)

definition sample_head :: US_FRAMEHEAD where
  "sample_head = \<lparr>codec = 0, samplerate = 0, framerate = 0, width = 0, height = 0, Iframe = 0,
     reserve = 0, framelength = 0\<rparr>"

definition sample_events :: "byte list list \<Rightarrow> recv_event list" where
  "sample_events = map (\<lambda>b. Packet b 7 (Some (replicate UdpRecv_MAX_FRAME_LEN 0))
     (Some (replicate UdpRecv_MAX_FRAME_LEN 0)))"

lemma sample_events_ok: "list_all2 packet_event pk (sample_events pk)"
  by (simp add: sample_events_def list_all2_map2 list_all2_same packet_event_def alloc_ok_def)

lemma bytes_of_datagrams: "map d_bytes (map (datagram_of c uh) pk) = pk"
  by (simp add: datagram_of_def comp_def)

lemma sample_calls: "r_calls sample_thread = []"
  by (simp add: sample_thread_def recv_thread_entry_def Let_def)

lemma delivered_once_sample:
  assumes "delivered_once pk Q d"
  shows "\<exists>s' si buf. udp_recv_deal (sample_events pk) sample_thread = Some s'
           \<and> r_calls s' = [(si, buf, int (length d))] \<and> take (length d) buf = d \<and> Q si"
  using assms sample_thread_ok sample_events_ok [of pk] unfolding delivered_once_def
  by (metis append_Nil sample_calls)

lemma sample_wire:
  "wire net' = wire \<lparr>calls = 0, wire = []\<rparr> @ map (datagram_of c uh) pk \<Longrightarrow> map d_bytes (wire net') = pk"
  by (simp add: datagram_of_def comp_def)

theorem h264_p_frame_delivered_witness:
  "let d = [0, 0, 0, 1, 0x41, 7] in
   \<exists>p' net' s' si buf. UdpSend_rtp_data (\<lambda>i n. (int n, 0)) sample_head (sample_sender d)
       (sample_frame RUdpS_H264_CODEC_TYPE 0 d) \<lparr>calls = 0, wire = []\<rparr> = Some (OPERATION_SUCC, p', net')
    \<and> udp_recv_deal (sample_events (map d_bytes (wire net'))) sample_thread = Some s'
    \<and> r_calls s' = [(si, buf, int (length d))] \<and> take (length d) buf = d \<and> si_width si = 1920"
proof -
  let ?d = "[0, 0, 0, 1, 0x41, 7] :: byte list"
  have h: "length ?d \<le> UdpRecv_MAX_FRAME_LEN" "?d = start_code @ [0x41, 7]" "plain_unit [0x41, 7]"
    "[0x41, 7 :: byte] ! 0 AND 0x80 = 0" "[0x41, 7 :: byte] ! 0 AND 0x1F \<noteq> 28"
    by (simp_all add: UdpRecv_MAX_FRAME_LEN_def start_code_def plain_unit_def)
  let ?fi = "sample_frame RUdpS_H264_CODEC_TYPE 0 ?d"
  obtain p' net' pk where r: "UdpSend_rtp_data (\<lambda>i n. (int n, 0)) sample_head (sample_sender ?d) ?fi
      \<lparr>calls = 0, wire = []\<rparr> = Some (OPERATION_SUCC, p', net')"
    "wire net' = wire \<lparr>calls = 0, wire = []\<rparr> @ map (datagram_of 0 (udp_hand (sample_sender ?d))) pk"
    "delivered_once pk (\<lambda>si. si_type si = UdpRecv_H264_CODEC_TYPE
       \<and> si_width si = uint (ucast (fi_width ?fi) :: u16)
       \<and> si_height si = uint (ucast (fi_hight ?fi) :: u16) \<and> IDR_FLAG si = 0) ?d"
    using h264_p_frame_delivered [OF lossless_sample sample_fields h,
        of sample_head "\<lparr>calls = 0, wire = []\<rparr>"] by (elim exE conjE)
  obtain s' si buf where "udp_recv_deal (sample_events pk) sample_thread = Some s'"
    "r_calls s' = [(si, buf, int (length ?d))]" "take (length ?d) buf = ?d"
    "si_width si = uint (ucast (fi_width ?fi) :: u16)"
    using delivered_once_sample [OF r(3)] by blast
  with r(1) sample_wire [OF r(2)] show ?thesis unfolding Let_def
    by (intro exI [of _ p'] exI [of _ net'] exI [of _ s'] exI [of _ si] exI [of _ buf]) (simp add: sample_width)
qed

lemma i_frame_arrives:
  assumes "lossless so" "rtp_hand p = Some hnd" "src_data (udp_hand p) = Some (d @ rest)"
    and "fi_data_codec fi = RUdpS_H264_CODEC_TYPE" "fi_dw_flags fi = fl" "fl \<noteq> 0"
    and "fi_frame_length fi = of_nat (length d)" "length d \<le> UdpRecv_MAX_FRAME_LEN"
    and "d = frame_bytes (sps # ppss @ [idr])" "list_all param_set (sps # ppss)" "is_sps sps"
    and "list_all is_pps ppss" "is_idr idr" "list_all (\<lambda>n. length n \<le> 1367) (sps # ppss)"
  shows "\<exists>p' net' pk. UdpSend_rtp_data so fh0 p fi net = Some (OPERATION_SUCC, p', net')
    \<and> wire net' = wire net @ map (datagram_of 0 (udp_hand p)) pk
    \<and> delivered_once pk (\<lambda>si. si_type si = UdpRecv_H264_CODEC_TYPE
         \<and> si_width si = uint (ucast (fi_width fi) :: u16)
         \<and> si_height si = uint (ucast (fi_hight fi) :: u16) \<and> IDR_FLAG si = 16) d"
proof -
  let ?f = "UdpSend_set_hdb_freame_head fh0 fi"
  note f = h264_frame_head [OF assms(4) refl, of fh0] and l = frame_small [OF assms(8)]
  have i: "Iframe ?f = 1" using f(3) assms(5,6) by simp
  have n: "plain_unit idr" using assms(13) by (auto simp: is_idr_def plain_unit_def)
  let ?h = "video_hdr (stream_time p hnd fi * 90)"
  let ?pk = "frame_packets ?h ?f 1366 (ucast (video_seq_num hnd)) (sps # ppss @ [idr])"
  have "\<exists>p' net'. UdpSend_rtp_data so fh0 p fi net = Some (OPERATION_SUCC, p', net')
      \<and> wire net' = wire net @ map (datagram_of 0 (udp_hand p)) ?pk"
    using send_h264 [OF assms(1-4,7) l _ assms(10) n, of fh0 net] assms(9) by simp
  moreover have "delivered_once ?pk (\<lambda>si. si_type si = UdpRecv_H264_CODEC_TYPE
      \<and> si_width si = uint (ucast (fi_width fi) :: u16)
      \<and> si_height si = uint (ucast (fi_hight fi) :: u16) \<and> IDR_FLAG si = 16) d"
  proof (rule delivered_onceI [where H = "h264_head ?f (timestamp ?h)"])
    fix s evs assume t: "thread_ok s" "list_all2 packet_event ?pk evs"
    have pps: "list_all (\<lambda>n. is_pps n \<and> length n - 1 \<le> 1366) ppss" "length sps - 1 \<le> 1366"
      using assms(12,14) by (auto simp: list_all_iff)
    show "\<exists>s' c. udp_recv_deal evs s = Some s' \<and> thread_ok s' \<and> r_calls s' = r_calls s @ [c]
        \<and> announces (h264_head ?f (timestamp ?h)) d c"
      using run_i_frame [OF t(1) f(1,2) i _ _ assms(11) pps(2,1) assms(13) _ _ t(2)] f(4) assms(7-9)
        unat_small [OF l] by simp
  next
    fix c assume "announces (h264_head ?f (timestamp ?h)) d c"
    from announces_h264 [OF this _ l] f i assms(7)
    show "\<exists>si buf. c = (si, buf, int (length d)) \<and> take (length d) buf = d
        \<and> (si_type si = UdpRecv_H264_CODEC_TYPE \<and> si_width si = uint (ucast (fi_width fi) :: u16)
           \<and> si_height si = uint (ucast (fi_hight fi) :: u16) \<and> IDR_FLAG si = 16)" by auto
  qed
  ultimately show ?thesis by blast
qed

text \<open>
  C3: an I frame arrives unchanged.  The same for a frame made of a sequence parameter set, any number of
  picture parameter sets that fit in a packet each, and an IDR slice of any size: the receiver glues
  the units it got in separate packets back into one frame, marked as a key frame.
\<close>

theorem h264_i_frame_delivered:
  assumes "lossless so" "rtp_hand p = Some hnd" "src_data (udp_hand p) = Some (d @ rest)"
    and "fi_data_codec fi = RUdpS_H264_CODEC_TYPE" "fi_dw_flags fi = fl" "fl \<noteq> 0"
    and "fi_frame_length fi = of_nat (length d)" "length d \<le> UdpRecv_MAX_FRAME_LEN"
    and "d = frame_bytes (sps # ppss @ [idr])" "list_all param_set (sps # ppss)" "is_sps sps"
    and "list_all is_pps ppss" "is_idr idr" "list_all (\<lambda>n. length n \<le> 1367) (sps # ppss)"
  shows "\<exists>p' net' pk. UdpSend_rtp_data so fh0 p fi net = Some (OPERATION_SUCC, p', net')
    \<and> wire net' = wire net @ map (datagram_of 0 (udp_hand p)) pk
    \<and> delivered_once pk (\<lambda>si. si_type si = UdpRecv_H264_CODEC_TYPE
         \<and> si_width si = uint (ucast (fi_width fi) :: u16)
         \<and> si_height si = uint (ucast (fi_hight fi) :: u16) \<and> IDR_FLAG si = 16) d"
  by (rule i_frame_arrives [OF assms])

theorem h264_i_frame_delivered_witness:
  "let d = [0, 0, 0, 1, 0x67, 5, 0, 0, 0, 1, 0x68, 6, 0, 0, 0, 1, 0x65, 7] in
   \<exists>p' net' s' si buf. UdpSend_rtp_data (\<lambda>i n. (int n, 0)) sample_head (sample_sender d)
       (sample_frame RUdpS_H264_CODEC_TYPE 1 d) \<lparr>calls = 0, wire = []\<rparr> = Some (OPERATION_SUCC, p', net')
    \<and> udp_recv_deal (sample_events (map d_bytes (wire net'))) sample_thread = Some s'
    \<and> r_calls s' = [(si, buf, int (length d))] \<and> take (length d) buf = d \<and> IDR_FLAG si = 16"
proof -
  let ?d = "[0, 0, 0, 1, 0x67, 5, 0, 0, 0, 1, 0x68, 6, 0, 0, 0, 1, 0x65, 7] :: byte list"
  have h: "(1 :: u32) \<noteq> 0" "length ?d \<le> UdpRecv_MAX_FRAME_LEN"
    "?d = frame_bytes ([0x67, 5] # [[0x68, 6]] @ [[0x65, 7]])"
    "list_all param_set ([0x67, 5] # [[0x68, 6]])" "is_sps [0x67, 5]" "list_all is_pps [[0x68, 6]]"
    "is_idr [0x65, 7]" "list_all (\<lambda>n. length n \<le> 1367) ([0x67, 5 :: byte] # [[0x68, 6]])"
    by (auto simp: UdpRecv_MAX_FRAME_LEN_def frame_bytes_def start_code_def param_set_def is_sps_def is_pps_def
        is_idr_def less_Suc_eq)
  let ?fi = "sample_frame RUdpS_H264_CODEC_TYPE 1 ?d"
  obtain p' net' pk where r: "UdpSend_rtp_data (\<lambda>i n. (int n, 0)) sample_head (sample_sender ?d) ?fi
      \<lparr>calls = 0, wire = []\<rparr> = Some (OPERATION_SUCC, p', net')"
    "wire net' = wire \<lparr>calls = 0, wire = []\<rparr> @ map (datagram_of 0 (udp_hand (sample_sender ?d))) pk"
    "delivered_once pk (\<lambda>si. si_type si = UdpRecv_H264_CODEC_TYPE
       \<and> si_width si = uint (ucast (fi_width ?fi) :: u16)
       \<and> si_height si = uint (ucast (fi_hight ?fi) :: u16) \<and> IDR_FLAG si = 16) ?d"
    using h264_i_frame_delivered [OF lossless_sample sample_fields(1-4) h(1) sample_fields(5) h(2-8),
        of sample_head "\<lparr>calls = 0, wire = []\<rparr>"] by (elim exE conjE)
  obtain s' si buf where "udp_recv_deal (sample_events pk) sample_thread = Some s'"
    "r_calls s' = [(si, buf, int (length ?d))]" "take (length ?d) buf = ?d" "IDR_FLAG si = 16"
    using delivered_once_sample [OF r(3)] by blast
  with r(1) sample_wire [OF r(2)] show ?thesis unfolding Let_def
    by (intro exI [of _ p'] exI [of _ net'] exI [of _ s'] exI [of _ si] exI [of _ buf]) simp
qed

text \<open>
  C4: a JPEG picture of any size up to the frame limit arrives unchanged: its slices are numbered start,
  middle, last (or independent when it fits in one packet) and put together again.
\<close>

theorem jpeg_delivered:
  assumes "lossless so" "rtp_hand p = Some hnd" "src_data (udp_hand p) = Some (d @ rest)"
    and "fi_data_codec fi = RUdpS_JPEG_CODEC_TYPE"
    and "fi_frame_length fi = of_nat (length d)" "length d \<le> UdpRecv_MAX_FRAME_LEN"
  shows "\<exists>p' net' pk. UdpSend_rtp_data so fh0 p fi net = Some (OPERATION_SUCC, p', net')
    \<and> wire net' = wire net @ map (datagram_of 2 (udp_hand p)) pk
    \<and> delivered_once pk (\<lambda>si. si_type si = UdpRecv_JPEG_CODEC_TYPE
         \<and> si_width si = uint (ucast (fi_width fi) :: u16)
         \<and> si_height si = uint (ucast (fi_hight fi) :: u16)) d"
proof -
  let ?f = "UdpSend_set_hdb_freame_head fh0 fi"
  note f = jpeg_frame_head [OF assms(4) refl, of fh0] and l = frame_small [OF assms(6)]
  let ?h = "video_hdr (fst (UdpSend_get_time_tick (udp_hand p) (time_tick fi)))"
  let ?pk = "jpeg_packets ?h ?f d 1352 (ucast (jpg_seq_num hnd))"
  have "\<exists>p' net'. UdpSend_rtp_data so fh0 p fi net = Some (OPERATION_SUCC, p', net')
      \<and> wire net' = wire net @ map (datagram_of 2 (udp_hand p)) ?pk"
    using send_jpeg [OF assms(1-5) l, of fh0 net] by blast
  moreover have "delivered_once ?pk (\<lambda>si. si_type si = UdpRecv_JPEG_CODEC_TYPE
      \<and> si_width si = uint (ucast (fi_width fi) :: u16)
      \<and> si_height si = uint (ucast (fi_hight fi) :: u16)) d"
  proof (rule delivered_onceI [where H = "jpeg_head ?f (timestamp ?h)"])
    fix s evs assume t: "thread_ok s" "list_all2 packet_event ?pk evs"
    show "\<exists>s' c. udp_recv_deal evs s = Some s' \<and> thread_ok s' \<and> r_calls s' = r_calls s @ [c]
        \<and> announces (jpeg_head ?f (timestamp ?h)) d c"
      using run_jpeg [OF t(1) f(1) _ _ _ assms(6) t(2)] f(2) assms(5) unat_small [OF l] by simp
  next
    fix c assume "announces (jpeg_head ?f (timestamp ?h)) d c"
    from announces_jpeg [OF this _ l] f assms(5)
    show "\<exists>si buf. c = (si, buf, int (length d)) \<and> take (length d) buf = d
        \<and> (si_type si = UdpRecv_JPEG_CODEC_TYPE \<and> si_width si = uint (ucast (fi_width fi) :: u16)
           \<and> si_height si = uint (ucast (fi_hight fi) :: u16))" by auto
  qed
  ultimately show ?thesis by blast
qed

theorem jpeg_delivered_witness:
  "let d = replicate 3000 0xD8 in
   \<exists>p' net' s' si buf. UdpSend_rtp_data (\<lambda>i n. (int n, 0)) sample_head (sample_sender d)
       (sample_frame RUdpS_JPEG_CODEC_TYPE 0 d) \<lparr>calls = 0, wire = []\<rparr> = Some (OPERATION_SUCC, p', net')
    \<and> udp_recv_deal (sample_events (map d_bytes (wire net'))) sample_thread = Some s'
    \<and> r_calls s' = [(si, buf, int (length d))] \<and> take (length d) buf = d \<and> si_width si = 1920"
proof -
  define d where "d = replicate 3000 (0xD8 :: byte)"
  have h: "length d \<le> UdpRecv_MAX_FRAME_LEN" by (simp add: d_def UdpRecv_MAX_FRAME_LEN_def)
  let ?fi = "sample_frame RUdpS_JPEG_CODEC_TYPE 0 d"
  obtain p' net' pk where r: "UdpSend_rtp_data (\<lambda>i n. (int n, 0)) sample_head (sample_sender d) ?fi
      \<lparr>calls = 0, wire = []\<rparr> = Some (OPERATION_SUCC, p', net')"
    "wire net' = wire \<lparr>calls = 0, wire = []\<rparr> @ map (datagram_of 2 (udp_hand (sample_sender d))) pk"
    "delivered_once pk (\<lambda>si. si_type si = UdpRecv_JPEG_CODEC_TYPE
       \<and> si_width si = uint (ucast (fi_width ?fi) :: u16)
       \<and> si_height si = uint (ucast (fi_hight ?fi) :: u16)) d"
    using jpeg_delivered [OF lossless_sample sample_fields(1,2) sample_fields(3) [where fl = 0] sample_fields(5) h,
        of sample_head "\<lparr>calls = 0, wire = []\<rparr>"] by (elim exE conjE)
  obtain s' si buf where "udp_recv_deal (sample_events pk) sample_thread = Some s'"
    "r_calls s' = [(si, buf, int (length d))]" "take (length d) buf = d"
    "si_width si = uint (ucast (fi_width ?fi) :: u16)"
    using delivered_once_sample [OF r(3)] by blast
  with r(1) sample_wire [OF r(2)] show ?thesis unfolding Let_def d_def [symmetric]
    by (intro exI [of _ p'] exI [of _ net'] exI [of _ s'] exI [of _ si] exI [of _ buf]) (simp add: sample_width)
qed

text \<open>
  C5: an AAC frame of up to 1373 bytes sent by the sending module makes the receiving thread call the user's
  function exactly once, with the frame's length and payload and an ADTS header built anew for sample index 4.
\<close>

theorem aac_frame_delivered:
  assumes "lossless so" "rtp_hand p = Some hnd" "src_data (udp_hand p) = Some (d @ rest)"
    and "fi_data_codec fi = RUdpS_AAC_CODEC_TYPE" "fi_frame_length fi = of_nat (length d)"
    and "single_adts d" "length d \<le> 1373"
  shows "\<exists>p' net' pk. UdpSend_rtp_data so fh0 p fi net = Some (OPERATION_SUCC, p', net')
    \<and> wire net' = wire net @ map (datagram_of 1 (udp_hand p)) pk
    \<and> delivered_once pk (\<lambda>si. si_type si = UdpRecv_AAC_CODEC_TYPE)
        (OnAudioAacFrame 4 (int (length d)) @ drop 7 d)"
proof -
  let ?f = "UdpSend_set_hdb_freame_head fh0 fi"
  have ne: "RUdpS_AAC_CODEC_TYPE \<noteq> RUdpS_H264_CODEC_TYPE" "RUdpS_AAC_CODEC_TYPE \<noteq> RUdpS_JPEG_CODEC_TYPE"
    by (simp_all add: RUdpS_H264_CODEC_TYPE_def RUdpS_JPEG_CODEC_TYPE_def RUdpS_AAC_CODEC_TYPE_def
        RUdpS_MAKEFOURCC_def)
  have f: "codec ?f = 1" "samplerate ?f < 16" "framelength ?f = of_nat (length d)"
    using assms(4,5) ne by (simp_all add: UdpSend_set_hdb_freame_head_def Let_def byte_nibble_small)
  have l: "length (drop 7 d) + 7 = length d" using assms(6) by (simp add: single_adts_def)
  obtain p' net' ts where snd: "UdpSend_rtp_data so fh0 p fi net = Some (OPERATION_SUCC, p', net')"
    "wire net' = wire net @ [datagram_of 1 (udp_hand p)
        (audio_packet (ucast (audio_seq_num hnd)) ts (b_ssrc hnd) ?f d)]"
    using send_audio [OF assms(1-6), of fh0 net] assms(7) by auto
  let ?pk = "audio_packet (ucast (audio_seq_num hnd)) ts (b_ssrc hnd) ?f d"
  have lo: "length (OnAudioAacFrame 4 (int (length d)) @ drop 7 d) = length d"
    using l by (simp add: OnAudioAacFrame_def Let_def)
  have "delivered_once [?pk] (\<lambda>si. si_type si = UdpRecv_AAC_CODEC_TYPE)
      (OnAudioAacFrame 4 (int (length d)) @ drop 7 d)"
    unfolding delivered_once_def lo
  proof (intro allI impI, elim conjE)
    fix s evs assume s: "thread_ok s" and e: "list_all2 packet_event [?pk] evs"
    obtain now mv ma where ev: "evs = [Packet ?pk now mv ma]" "alloc_ok mv ma"
      using e by (auto simp: list_all2_Cons1 packet_event_def)
    obtain s' si buf where "recv_step (Packet ?pk now mv ma) s = Some s'" "thread_ok s'"
      "r_calls s' = r_calls s @ [(si, buf, int (length d))]"
      "take (length d) buf = OnAudioAacFrame 4 (int (length d)) @ drop 7 d" "si_type si = UdpRecv_AAC_CODEC_TYPE"
      using step_audio [OF s ev(2) f(1,2), of "drop 7 d" "au_head (length d - 7)"
          "audio_hdr (ucast (audio_seq_num hnd)) ts (b_ssrc hnd)" now] l f(3) assms(7)
      unfolding l audio_packet_def by (auto simp: au_head_def)
    then show "\<exists>s' si buf. udp_recv_deal evs s = Some s' \<and> thread_ok s'
        \<and> r_calls s' = r_calls s @ [(si, buf, int (length d))]
        \<and> take (length d) buf = OnAudioAacFrame 4 (int (length d)) @ drop 7 d
        \<and> si_type si = UdpRecv_AAC_CODEC_TYPE"
      using ev(1) by (intro exI [of _ s'] exI [of _ si] exI [of _ buf]) simp
  qed
  then show ?thesis using snd by (intro exI [of _ p'] exI [of _ net'] exI [of _ "[?pk]"]) simp
qed

definition sample_adts :: "byte list" where
  "sample_adts = [0xFF, 0xF1, 0x50, 0x80, 0x02, 0x3F, 0xFC] @ replicate 10 7"

lemma sample_adts_single: "single_adts sample_adts"
  by code_simp

theorem aac_frame_delivered_witness:
  "\<exists>p' net' s' si buf. UdpSend_rtp_data (\<lambda>i n. (int n, 0)) sample_head (sample_sender sample_adts)
       (sample_frame RUdpS_AAC_CODEC_TYPE 0 sample_adts) \<lparr>calls = 0, wire = []\<rparr> = Some (OPERATION_SUCC, p', net')
    \<and> udp_recv_deal (sample_events (map d_bytes (wire net'))) sample_thread = Some s'
    \<and> r_calls s' = [(si, buf, 17)] \<and> take 17 buf = OnAudioAacFrame 4 17 @ replicate 10 7"
proof -
  define d where "d = sample_adts"
  have l: "length d = 17" "drop 7 d = replicate 10 7" by (simp_all add: d_def sample_adts_def)
  then have le: "length d \<le> 1373" by simp
  let ?fi = "sample_frame RUdpS_AAC_CODEC_TYPE 0 d"
  obtain p' net' pk where r: "UdpSend_rtp_data (\<lambda>i n. (int n, 0)) sample_head (sample_sender d) ?fi
      \<lparr>calls = 0, wire = []\<rparr> = Some (OPERATION_SUCC, p', net')"
    "wire net' = wire \<lparr>calls = 0, wire = []\<rparr> @ map (datagram_of 1 (udp_hand (sample_sender d))) pk"
    "delivered_once pk (\<lambda>si. si_type si = UdpRecv_AAC_CODEC_TYPE) (OnAudioAacFrame 4 (int (length d)) @ drop 7 d)"
    using aac_frame_delivered [OF lossless_sample sample_fields(1,2) sample_fields(3) [where fl = 0] sample_fields(5)
        sample_adts_single [folded d_def] le, of sample_head "\<lparr>calls = 0, wire = []\<rparr>"] by (elim exE conjE)
  have lo: "length (OnAudioAacFrame 4 (int (length d)) @ drop 7 d) = 17"
    using l by (simp add: OnAudioAacFrame_def Let_def)
  obtain s' si buf where "udp_recv_deal (sample_events pk) sample_thread = Some s'"
    "r_calls s' = [(si, buf, 17)]" "take 17 buf = OnAudioAacFrame 4 (int (length d)) @ drop 7 d"
    using delivered_once_sample [OF r(3)] unfolding lo by auto
  with r(1) sample_wire [OF r(2)] l show ?thesis unfolding d_def [symmetric]
    by (intro exI [of _ p'] exI [of _ net'] exI [of _ s'] exI [of _ si] exI [of _ buf]) simp
qed

text \<open>
  C1: from the encoder to the recorder.  An I frame of parameter sets and an IDR slice that the sending
  module publishes ends, when its datagrams reach the receiving thread of a room's stream, as one message with the
  bytes of the frame, its length, width and height and the key-frame mark on the queue of every consumer that
  is switched on, and on no other queue.
\<close>

theorem i_frame_recorded:
  assumes "lossless so" "rtp_hand p = Some hnd" "src_data (udp_hand p) = Some (d @ rest)"
    and "fi_data_codec fi = RUdpS_H264_CODEC_TYPE" "fi_dw_flags fi = fl" "fl \<noteq> 0"
    and "fi_frame_length fi = of_nat (length d)" "length d \<le> UdpRecv_MAX_FRAME_LEN"
    and "d = frame_bytes (sps # ppss @ [idr])" "list_all param_set (sps # ppss)" "is_sps sps"
    and "list_all is_pps ppss" "is_idr idr" "list_all (\<lambda>n. length n \<le> 1367) (sps # ppss)"
  shows "\<exists>p' net' pk. UdpSend_rtp_data so fh0 p fi net = Some (OPERATION_SUCC, p', net')
    \<and> wire net' = wire net @ map (datagram_of 0 (udp_hand p)) pk
    \<and> queued_once pk (\<lambda>pd. pd_data pd = d \<and> pd_data_len pd = of_nat (length d) \<and> pd_data_type pd = R_VIDEO
         \<and> pd_width pd = ucast (ucast (fi_width fi) :: u16) \<and> pd_height pd = ucast (ucast (fi_hight fi) :: u16)
         \<and> pd_flags pd = I_FRAME)"
proof -
  from i_frame_arrives [OF assms] obtain p' net' pk where
    r: "UdpSend_rtp_data so fh0 p fi net = Some (OPERATION_SUCC, p', net')"
      "wire net' = wire net @ map (datagram_of 0 (udp_hand p)) pk" and
    d: "delivered_once pk (\<lambda>si. si_type si = UdpRecv_H264_CODEC_TYPE
         \<and> si_width si = uint (ucast (fi_width fi) :: u16)
         \<and> si_height si = uint (ucast (fi_hight fi) :: u16) \<and> IDR_FLAG si = 16) d" by blast
  have "queued_once pk (\<lambda>pd. pd_data pd = d \<and> pd_data_len pd = of_nat (length d) \<and> pd_data_type pd = R_VIDEO
         \<and> pd_width pd = ucast (ucast (fi_width fi) :: u16) \<and> pd_height pd = ucast (ucast (fi_hight fi) :: u16)
         \<and> pd_flags pd = I_FRAME)"
    by (rule queued_onceI [OF d]) (use assms(8) max_frame_len in \<open>auto simp: picture_of_def parse_zero_def I_FRAME_def\<close>)
  with r show ?thesis by blast
qed

theorem i_frame_recorded_witness:
  "let d = [0, 0, 0, 1, 0x67, 5, 0, 0, 0, 1, 0x68, 6, 0, 0, 0, 1, 0x65, 7] in
   \<exists>p' net' s' st'. UdpSend_rtp_data (\<lambda>i n. (int n, 0)) sample_head (sample_sender d)
       (sample_frame RUdpS_H264_CODEC_TYPE 1 d) \<lparr>calls = 0, wire = []\<rparr> = Some (OPERATION_SUCC, p', net')
    \<and> udp_recv_deal (sample_events (map d_bytes (wire net'))) sample_thread = Some s'
    \<and> room_calls granting 0 (r_calls s') sample_streams = Some st'
    \<and> map (\<lambda>(q, ty, pd). (q, ty, pd_data pd)) (queued st') = [(10, 1, d), (30, 1, d)]"
proof -
  let ?d = "[0, 0, 0, 1, 0x67, 5, 0, 0, 0, 1, 0x68, 6, 0, 0, 0, 1, 0x65, 7] :: byte list"
  have h: "(1 :: u32) \<noteq> 0" "length ?d \<le> UdpRecv_MAX_FRAME_LEN"
    "?d = frame_bytes ([0x67, 5] # [[0x68, 6]] @ [[0x65, 7]])"
    "list_all param_set ([0x67, 5] # [[0x68, 6]])" "is_sps [0x67, 5]" "list_all is_pps [[0x68, 6]]"
    "is_idr [0x65, 7]" "list_all (\<lambda>n. length n \<le> 1367) ([0x67, 5 :: byte] # [[0x68, 6]])"
    by (auto simp: UdpRecv_MAX_FRAME_LEN_def frame_bytes_def start_code_def param_set_def is_sps_def is_pps_def
        is_idr_def less_Suc_eq)
  let ?fi = "sample_frame RUdpS_H264_CODEC_TYPE 1 ?d"
  obtain p' net' pk where r: "UdpSend_rtp_data (\<lambda>i n. (int n, 0)) sample_head (sample_sender ?d) ?fi
      \<lparr>calls = 0, wire = []\<rparr> = Some (OPERATION_SUCC, p', net')"
    "wire net' = wire \<lparr>calls = 0, wire = []\<rparr> @ map (datagram_of 0 (udp_hand (sample_sender ?d))) pk" and
    q: "queued_once pk (\<lambda>pd. pd_data pd = ?d \<and> pd_data_len pd = of_nat (length ?d) \<and> pd_data_type pd = R_VIDEO
         \<and> pd_width pd = ucast (ucast (fi_width ?fi) :: u16) \<and> pd_height pd = ucast (ucast (fi_hight ?fi) :: u16)
         \<and> pd_flags pd = I_FRAME)"
    using i_frame_recorded [OF lossless_sample sample_fields(1-4) h(1) sample_fields(5) h(2-8),
        of sample_head "\<lparr>calls = 0, wire = []\<rparr>"] by (elim exE conjE)
  obtain s' st' pd where "udp_recv_deal (sample_events pk) sample_thread = Some s'"
    "room_calls granting 0 (r_calls s') sample_streams = Some st'" "pd_data pd = ?d"
    "queued st' = queued sample_streams @ picture_posts (hands sample_streams ! 0) pd"
    using q sample_thread_ok sample_calls sample_events_ok [of pk] granting_all sample_streams_ready
    unfolding queued_once_def by blast
  with r(1) sample_wire [OF r(2)] show ?thesis unfolding Let_def
    by (intro exI [of _ p'] exI [of _ net'] exI [of _ s'] exI [of _ st'])
       (simp add: sample_streams_def picture_posts_def add_end_flag_def CONNECT_def RECODE_MODE_RES_def
         RECODE_MODE_ALL_def RECODE_MODE_MOVIE_def stream_handle_zero_def Let_def)
qed

end
